(* ===== verification/Lumina_Prelude.thy ===== *)
theory Lumina_Prelude
  imports Main "HOL-Library.Sublist" "HOL-Library.Multiset" "HOL-Library.Char_ord" "HOL-Library.List_Lexorder"
begin

text \<open>
  Shared vocabulary of the development: the collections of simplification rules the component
  theories fill, the type synonyms for the Go types that recur in every component, and generic
  lemmas on lists, options and finite maps that several components use.
\<close>

named_theorems go_eval \<open>equations that evaluate the Go library functions on concrete arguments\<close>
named_theorems shape \<open>facts on the shape of results: lengths, emptiness, membership\<close>
named_theorems frame \<open>fields and entries that an operation leaves unchanged\<close>

text \<open>
  Go's \<open>string\<close> is a sequence of bytes; an Isabelle \<open>char\<close> is one byte. Go's \<open>int64\<close> sequence
  numbers, tokens and counters are unbounded integers here: the code only increments them by one
  per stored row, and no theorem depends on their wrap-around.
\<close>

type_synonym gostring = string
type_synonym seqno = int

text \<open>A Go map with a finite set of keys; a missing key reads as the zero value.\<close>

definition map_get :: "'v \<Rightarrow> ('k \<rightharpoonup> 'v) \<Rightarrow> 'k \<Rightarrow> 'v" where
  "map_get zero m k = (case m k of None \<Rightarrow> zero | Some v \<Rightarrow> v)"

lemma map_get_upd [simp]: "map_get z (m(k \<mapsto> v)) k' = (if k' = k then v else map_get z m k')"
  by (simp add: map_get_def)

lemma map_get_empty [simp]: "map_get z Map.empty k = z"
  by (simp add: map_get_def)

lemma map_get_Some: "m k = Some v \<Longrightarrow> map_get z m k = v"
  by (simp add: map_get_def)

text \<open>Lists that only shrink.\<close>

lemma length_takeWhile_le' [shape]: "length (takeWhile P xs) \<le> length xs"
  by (rule length_takeWhile_le)

lemma length_dropWhile_le' [shape]: "length (dropWhile P xs) \<le> length xs"
  by (rule length_dropWhile_le)

lemma concat_eq_Nil_iff: "concat xss = [] \<longleftrightarrow> (\<forall>xs \<in> set xss. xs = [])"
  by (induction xss) auto

lemma foldl_invariant:
  assumes "P a" and "\<And>a x. x \<in> set xs \<Longrightarrow> P a \<Longrightarrow> P (f a x)"
  shows "P (foldl f a xs)"
  using assms by (induction xs arbitrary: a) auto

lemma sum_list_map_length_concat: "sum_list (map length xss) = length (concat xss)"
  by (simp add: length_concat)

lemma member_length_le_sum: "x \<in> set xs \<Longrightarrow> length x \<le> sum_list (map length xs)"
  by (simp add: member_le_sum_list)

end
