(* ===== verification/Go_Strings.thy ===== *)
theory Go_Strings
  imports Lumina_Prelude
begin

text \<open>
  The part of Go's \<open>strings\<close> and \<open>unicode\<close> packages that the modelled code calls, on byte
  strings. Commands and paths reach the code as decoded JSON, which is valid UTF-8, so a rune
  whose encoding is one of the byte sequences below is found exactly where a rune-wise scan finds
  it: no lead byte of UTF-8 occurs inside another rune. Loops of the source that run over runes but
  compare them with ASCII characters only are therefore modelled byte-wise.
\<close>

section \<open>White space\<close>

text \<open>The ASCII characters for which \<open>unicode.IsSpace\<close> holds.\<close>

definition ascii_space :: "char \<Rightarrow> bool" where
  "ascii_space c \<longleftrightarrow> c = CHR 0x20 \<or> c = CHR 0x09 \<or> c = CHR 0x0A \<or> c = CHR 0x0B \<or> c = CHR 0x0C \<or> c = CHR 0x0D"

text \<open>The UTF-8 encodings of the other runes for which \<open>unicode.IsSpace\<close> holds: U+0085, U+00A0,
  U+1680, U+2000 to U+200A, U+2028, U+2029, U+202F, U+205F and U+3000.\<close>

definition wide_spaces :: "string list" where
  "wide_spaces =
    [[CHR 0xC2, CHR 0x85], [CHR 0xC2, CHR 0xA0], [CHR 0xE1, CHR 0x9A, CHR 0x80],
     [CHR 0xE2, CHR 0x80, CHR 0x80], [CHR 0xE2, CHR 0x80, CHR 0x81], [CHR 0xE2, CHR 0x80, CHR 0x82],
     [CHR 0xE2, CHR 0x80, CHR 0x83], [CHR 0xE2, CHR 0x80, CHR 0x84], [CHR 0xE2, CHR 0x80, CHR 0x85],
     [CHR 0xE2, CHR 0x80, CHR 0x86], [CHR 0xE2, CHR 0x80, CHR 0x87], [CHR 0xE2, CHR 0x80, CHR 0x88],
     [CHR 0xE2, CHR 0x80, CHR 0x89], [CHR 0xE2, CHR 0x80, CHR 0x8A], [CHR 0xE2, CHR 0x80, CHR 0xA8],
     [CHR 0xE2, CHR 0x80, CHR 0xA9], [CHR 0xE2, CHR 0x80, CHR 0xAF], [CHR 0xE2, CHR 0x81, CHR 0x9F],
     [CHR 0xE3, CHR 0x80, CHR 0x80]]"

text \<open>Bytes below 0x80, the ASCII range: the top bit is clear.\<close>

fun ascii_byte :: "char \<Rightarrow> bool" where
  "ascii_byte (Char b0 b1 b2 b3 b4 b5 b6 b7) = (\<not> b7)"

text \<open>How many bytes the white-space rune at the front of the string takes, 0 when there is none.\<close>

definition space_len :: "string list \<Rightarrow> string \<Rightarrow> nat" where
  "space_len wide s =
     (case s of [] \<Rightarrow> 0
      | c # _ \<Rightarrow>
          if ascii_space c then 1
          else if ascii_byte c then 0
          else case filter (\<lambda>w. w \<noteq> [] \<and> prefix w s) wide of [] \<Rightarrow> 0 | w # _ \<Rightarrow> length w)"

lemma space_len_le: "space_len wide s \<le> length s"
proof (cases s)
  case (Cons c cs)
  have "length w \<le> length s" if "filter (\<lambda>w. w \<noteq> [] \<and> prefix w s) wide = w # ws" for w ws
  proof -
    from that have "prefix w s" by (metis (no_types, lifting) filter_eq_ConsD)
    then show ?thesis by (rule prefix_length_le)
  qed
  with Cons show ?thesis by (auto simp: space_len_def split: list.splits)
qed (simp add: space_len_def)

text \<open>\<open>strings.TrimLeftFunc(s, unicode.IsSpace)\<close>.\<close>

function trim_front :: "string list \<Rightarrow> string \<Rightarrow> string" where
  "trim_front wide s =
     (if space_len wide s = 0 then s else trim_front wide (drop (space_len wide s) s))"
  by pat_completeness auto
termination
proof (relation "measure (\<lambda>(wide, s). length s)", goal_cases)
  case (2 wide s)
  then show ?case using space_len_le [of wide s] by auto
qed simp

declare trim_front.simps [simp del]

definition TrimLeft :: "string \<Rightarrow> string" where
  "TrimLeft s = trim_front wide_spaces s"

text \<open>\<open>strings.TrimRightFunc(s, unicode.IsSpace)\<close>: the last rune is found from its lead byte, so
  the scan from the right looks for the reversed encodings.\<close>

definition TrimRight :: "string \<Rightarrow> string" where
  "TrimRight s = rev (trim_front (map rev wide_spaces) (rev s))"

definition TrimSpace :: "string \<Rightarrow> string" where
  "TrimSpace s = TrimRight (TrimLeft s)"

lemma trim_front_suffix: "\<exists>pre. s = pre @ trim_front wide s"
proof (induction wide s rule: trim_front.induct)
  case (1 wide s)
  show ?case
  proof (cases "space_len wide s = 0")
    case True
    then show ?thesis by (simp add: trim_front.simps [of wide s])
  next
    case False
    with 1 obtain pre where "drop (space_len wide s) s = pre @ trim_front wide (drop (space_len wide s) s)"
      by blast
    then have "s = (take (space_len wide s) s @ pre) @ trim_front wide (drop (space_len wide s) s)"
      by (metis append.assoc append_take_drop_id)
    with False show ?thesis by (metis trim_front.simps)
  qed
qed

lemma trim_front_stable: "space_len wide (trim_front wide s) = 0"
proof (induction wide s rule: trim_front.induct)
  case (1 wide s)
  then show ?case by (cases "space_len wide s = 0") (simp_all add: trim_front.simps [of wide s])
qed

lemma trim_front_idem [simp]: "trim_front wide (trim_front wide s) = trim_front wide s"
  by (subst trim_front.simps) (simp add: trim_front_stable)

lemma trim_front_Nil [simp]: "trim_front wide [] = []"
  by (simp add: trim_front.simps space_len_def)

lemma TrimLeft_idem [simp]: "TrimLeft (TrimLeft s) = TrimLeft s"
  by (simp add: TrimLeft_def)

lemma TrimLeft_Nil [simp]: "TrimLeft [] = []"
  by (simp add: TrimLeft_def)

lemma TrimRight_Nil [simp]: "TrimRight [] = []"
  by (simp add: TrimRight_def)

lemma TrimSpace_Nil [simp]: "TrimSpace [] = []"
  by (simp add: TrimSpace_def)

lemma TrimLeft_suffix: "\<exists>pre. s = pre @ TrimLeft s"
  unfolding TrimLeft_def by (rule trim_front_suffix)

lemma TrimRight_prefix: "\<exists>post. s = TrimRight s @ post"
proof -
  from trim_front_suffix [of "rev s" "map rev wide_spaces"] obtain pre where
    "rev s = pre @ trim_front (map rev wide_spaces) (rev s)" by blast
  then have "s = TrimRight s @ rev pre"
    unfolding TrimRight_def by (metis rev_append rev_rev_ident)
  then show ?thesis by blast
qed

lemma TrimSpace_infix: "\<exists>pre post. s = pre @ TrimSpace s @ post"
proof -
  from TrimLeft_suffix obtain pre where "s = pre @ TrimLeft s" by blast
  moreover from TrimRight_prefix obtain post where "TrimLeft s = TrimSpace s @ post"
    unfolding TrimSpace_def by blast
  ultimately have "s = pre @ TrimSpace s @ post" by simp
  then show ?thesis by blast
qed

lemma length_TrimLeft_le [shape]: "length (TrimLeft s) \<le> length s"
  using TrimLeft_suffix [of s] by (metis le_add2 length_append)

lemma length_TrimRight_le [shape]: "length (TrimRight s) \<le> length s"
  using TrimRight_prefix [of s] by (metis le_add1 length_append)

lemma length_TrimSpace_le [shape]: "length (TrimSpace s) \<le> length s"
  unfolding TrimSpace_def using length_TrimRight_le length_TrimLeft_le le_trans by blast

lemma set_TrimSpace_subset: "set (TrimSpace s) \<subseteq> set s"
proof -
  from TrimSpace_infix obtain pre post where "s = pre @ TrimSpace s @ post" by blast
  then have "set s = set pre \<union> set (TrimSpace s) \<union> set post" by (metis set_append sup_assoc)
  then show ?thesis by blast
qed

text \<open>A string that starts with a visible ASCII character is not trimmed on the left, and one that
  ends with one is not trimmed on the right.\<close>

definition visible :: "char \<Rightarrow> bool" where
  "visible c \<longleftrightarrow> ascii_byte c \<and> \<not> ascii_space c"

lemma TrimLeft_visible: "visible c \<Longrightarrow> TrimLeft (c # s) = c # s"
  by (simp add: TrimLeft_def trim_front.simps space_len_def visible_def)

lemma TrimRight_visible: "visible c \<Longrightarrow> TrimRight (s @ [c]) = s @ [c]"
  by (simp add: TrimRight_def trim_front.simps space_len_def visible_def)

lemma TrimSpace_visible:
  assumes "s \<noteq> []" "visible (hd s)" "visible (last s)"
  shows "TrimSpace s = s"
proof -
  from assms(1,2) have "TrimLeft s = s" by (metis TrimLeft_visible list.collapse)
  moreover from assms(1,3) have "TrimRight s = s" by (metis TrimRight_visible append_butlast_last_id)
  ultimately show ?thesis by (simp add: TrimSpace_def)
qed

section \<open>Searching and splitting\<close>

text \<open>\<open>strings.LastIndex\<close> of a one-byte separator, used as \<open>s[idx+1:]\<close> and \<open>s[:idx]\<close>.\<close>

definition after_last :: "char \<Rightarrow> string \<Rightarrow> string" where
  "after_last c s = rev (takeWhile (\<lambda>x. x \<noteq> c) (rev s))"

definition before_last :: "char \<Rightarrow> string \<Rightarrow> string" where
  "before_last c s = rev (tl (dropWhile (\<lambda>x. x \<noteq> c) (rev s)))"

definition contains_char :: "string \<Rightarrow> char \<Rightarrow> bool" where
  "contains_char s c \<longleftrightarrow> List.member s c"

definition HasPrefix :: "string \<Rightarrow> string \<Rightarrow> bool" where
  "HasPrefix s p \<longleftrightarrow> prefix p s"

lemma contains_char_iff [simp]: "contains_char s c \<longleftrightarrow> c \<in> set s"
  by (simp add: contains_char_def)

lemma after_last_id: "c \<notin> set s \<Longrightarrow> after_last c s = s"
  unfolding after_last_def by (subst takeWhile_eq_all_conv [THEN iffD2]) auto

lemma after_last_sep: "c \<notin> set t \<Longrightarrow> after_last c (s @ c # t) = t"
  by (simp add: after_last_def takeWhile_tail takeWhile_append)

lemma not_in_after_last [simp]: "c \<notin> set (after_last c s)"
  by (auto simp: after_last_def dest: set_takeWhileD)

lemma length_after_last [shape]: "length (after_last c s) \<le> length s"
  using length_takeWhile_le [of "\<lambda>x. x \<noteq> c" "rev s"] by (simp add: after_last_def)

text \<open>\<open>strings.Split(s, sep)\<close> for a one-byte separator.\<close>

fun split_on :: "char \<Rightarrow> string \<Rightarrow> string list" where
  "split_on c [] = [[]]"
| "split_on c (x # xs) =
     (if x = c then [] # split_on c xs
      else case split_on c xs of [] \<Rightarrow> [[x]] | w # ws \<Rightarrow> (x # w) # ws)"

text \<open>\<open>strings.Join(parts, sep)\<close>.\<close>

fun join_with :: "string \<Rightarrow> string list \<Rightarrow> string" where
  "join_with sep [] = []"
| "join_with sep [x] = x"
| "join_with sep (x # y # zs) = x @ sep @ join_with sep (y # zs)"

lemma split_on_nonempty [simp]: "split_on c s \<noteq> []"
  by (induction s) (auto split: list.splits)

lemma join_split: "join_with [c] (split_on c s) = s"
proof (induction s)
  case (Cons x xs)
  obtain w ws where w: "split_on c xs = w # ws" by (cases "split_on c xs") auto
  show ?case
  proof (cases "x = c")
    case True
    with Cons w show ?thesis by simp
  next
    case False
    with Cons w show ?thesis by (cases ws) auto
  qed
qed simp

lemma split_on_no_sep: "c \<notin> set s \<Longrightarrow> split_on c s = [s]"
  by (induction s) auto

lemma split_on_append_sep: "c \<notin> set s \<Longrightarrow> split_on c (s @ c # t) = s # split_on c t"
  by (induction s) auto

lemma split_join:
  "ws \<noteq> [] \<Longrightarrow> (\<And>w. w \<in> set ws \<Longrightarrow> c \<notin> set w) \<Longrightarrow> split_on c (join_with [c] ws) = ws"
proof (induction ws rule: induct_list012)
  case (3 x y zs)
  then have "split_on c (x @ c # join_with [c] (y # zs)) = x # split_on c (join_with [c] (y # zs))"
    by (intro split_on_append_sep) simp
  with 3 show ?case by simp
qed (simp_all add: split_on_no_sep)

text \<open>\<open>strings.Fields\<close>: the maximal runs without white space.\<close>

function fields_from :: "string \<Rightarrow> string \<Rightarrow> string list" where
  "fields_from cur s =
     (case s of [] \<Rightarrow> (if cur = [] then [] else [cur])
      | c # cs \<Rightarrow>
          if space_len wide_spaces s = 0 then fields_from (cur @ [c]) cs
          else (if cur = [] then [] else [cur]) @ fields_from [] (drop (space_len wide_spaces s) s))"
  by pat_completeness auto
termination
  by (relation "measure (\<lambda>(cur, s). length s)") auto

declare fields_from.simps [simp del]

definition Fields :: "string \<Rightarrow> string list" where
  "Fields s = fields_from [] s"

text \<open>Runes of a valid UTF-8 string are counted by their lead bytes; a continuation byte has the
  form \<open>10xxxxxx\<close>.\<close>

fun continuation_byte :: "char \<Rightarrow> bool" where
  "continuation_byte (Char b0 b1 b2 b3 b4 b5 b6 b7) = (b7 \<and> \<not> b6)"

definition rune_count :: "string \<Rightarrow> nat" where
  "rune_count s = length (filter (\<lambda>c. \<not> continuation_byte c) s)"

fun take_runes :: "nat \<Rightarrow> string \<Rightarrow> string" where
  "take_runes n [] = []"
| "take_runes n (c # cs) =
     (if continuation_byte c then c # take_runes n cs
      else case n of 0 \<Rightarrow> [] | Suc m \<Rightarrow> c # take_runes m cs)"

lemma rune_count_take_runes: "rune_count (take_runes n s) = min n (rune_count s)"
  by (induction n s rule: take_runes.induct) (auto simp: rune_count_def split: nat.splits)

text \<open>Decimal rendering of integers, as \<open>fmt.Sprintf\<close> does for \<open>%d\<close>.\<close>

fun digits_nat :: "nat \<Rightarrow> string" where
  "digits_nat n = (if n < 10 then [char_of (48 + n)] else digits_nat (n div 10) @ [char_of (48 + n mod 10)])"

declare digits_nat.simps [simp del]

definition show_int :: "int \<Rightarrow> string" where
  "show_int i = (if i < 0 then CHR ''-'' # digits_nat (nat (- i)) else digits_nat (nat i))"

end
