(* ===== verification/Go_Regexp.thy ===== *)
theory Go_Regexp
  imports Go_Strings
begin

text \<open>
  The fragment of Go's \<open>regexp\<close> syntax that the security checks use, with two semantics: the
  relation \<open>reaches\<close>, which says which stretches of a text a pattern matches, and the
  executable matcher \<open>ends\<close>, which lists the ends of the matches from a position in the order
  in which Go prefers them (leftmost-first, greedy repetition). \<open>reaches_iff_ends\<close> states
  that they agree, so a claim on a concrete command evaluates the matcher and a claim on all
  commands of a form reasons on the relation.
\<close>

section \<open>Patterns and the matching relation\<close>

text \<open>
  A position is the byte before it, if any, and the text after it: all that \<open>\b\<close>, \<open>^\<close> and
  \<open>$\<close> look at. Only greedy repetition occurs in the code.
\<close>

datatype regex =
    RChr "char \<Rightarrow> bool"
  | RStr string
  | REps
  | RSeq regex regex
  | RAlt regex regex
  | RStar regex
  | RWordB
  | RBegin
  | REnd

type_synonym pos = "char option \<times> string"

definition word_char :: "char \<Rightarrow> bool" where
  "word_char c \<longleftrightarrow>
     (CHR ''a'' \<le> c \<and> c \<le> CHR ''z'') \<or> (CHR ''A'' \<le> c \<and> c \<le> CHR ''Z'') \<or>
     (CHR ''0'' \<le> c \<and> c \<le> CHR ''9'') \<or> c = CHR ''_''"

fun word_before :: "pos \<Rightarrow> bool" where
  "word_before (p, s) = (case p of None \<Rightarrow> False | Some c \<Rightarrow> word_char c)"

fun word_after :: "pos \<Rightarrow> bool" where
  "word_after (p, s) = (case s of [] \<Rightarrow> False | c # _ \<Rightarrow> word_char c)"

inductive reaches :: "regex \<Rightarrow> pos \<Rightarrow> pos \<Rightarrow> bool" where
  chr: "f c \<Longrightarrow> reaches (RChr f) (p, c # s) (Some c, s)"
| str: "reaches (RStr w) (p, w @ s) (if w = [] then p else Some (last w), s)"
| eps: "reaches REps x x"
| seq: "reaches a x y \<Longrightarrow> reaches b y z \<Longrightarrow> reaches (RSeq a b) x z"
| altl: "reaches a x y \<Longrightarrow> reaches (RAlt a b) x y"
| altr: "reaches b x y \<Longrightarrow> reaches (RAlt a b) x y"
| star0: "reaches (RStar a) x x"
| star1: "reaches a x y \<Longrightarrow> reaches (RStar a) y z \<Longrightarrow> reaches (RStar a) x z"
| wordb: "word_before x \<noteq> word_after x \<Longrightarrow> reaches RWordB x x"
| bot: "reaches RBegin (None, s) (None, s)"
| eot: "reaches REnd (p, []) (p, [])"

inductive_cases reaches_chrE: "reaches (RChr f) x y"
inductive_cases reaches_strE: "reaches (RStr w) x y"
inductive_cases reaches_epsE: "reaches REps x y"
inductive_cases reaches_seqE: "reaches (RSeq a b) x y"
inductive_cases reaches_altE: "reaches (RAlt a b) x y"
inductive_cases reaches_wordE: "reaches RWordB x y"
inductive_cases reaches_botE: "reaches RBegin x y"
inductive_cases reaches_eotE: "reaches REnd x y"

section \<open>The matcher\<close>

text \<open>
  Repetition of a step that must consume input; \<open>n\<close> bounds the number of rounds, and the length
  of the remaining text is always enough because every round consumes at least one byte.
\<close>

fun star_ends :: "(pos \<Rightarrow> pos list) \<Rightarrow> nat \<Rightarrow> pos \<Rightarrow> pos list" where
  "star_ends f 0 x = [x]"
| "star_ends f (Suc n) x =
     concat (map (star_ends f n) (filter (\<lambda>y. length (snd y) < length (snd x)) (f x))) @ [x]"

text \<open>The text after a literal, when the literal stands at the front.\<close>

fun strip_prefix :: "string \<Rightarrow> string \<Rightarrow> string option" where
  "strip_prefix [] s = Some s"
| "strip_prefix (c # cs) s = (case s of [] \<Rightarrow> None | d # ds \<Rightarrow> if c = d then strip_prefix cs ds else None)"

fun ends :: "regex \<Rightarrow> pos \<Rightarrow> pos list" where
  "ends (RChr f) x = (case snd x of [] \<Rightarrow> [] | c # s \<Rightarrow> if f c then [(Some c, s)] else [])"
| "ends (RStr w) x =
     (case strip_prefix w (snd x) of None \<Rightarrow> []
      | Some s \<Rightarrow> [(case w of [] \<Rightarrow> fst x | _ \<Rightarrow> Some (last w), s)])"
| "ends REps x = [x]"
| "ends (RSeq a b) x = concat (map (ends b) (ends a x))"
| "ends (RAlt a b) x = ends a x @ ends b x"
| "ends (RStar a) x = star_ends (ends a) (length (snd x)) x"
| "ends RWordB x = (if word_before x \<noteq> word_after x then [x] else [])"
| "ends RBegin x = (if fst x = None then [x] else [])"
| "ends REnd x = (if snd x = [] then [x] else [])"

text \<open>\<open>Regexp.MatchString\<close>: some position of the text starts a match.\<close>

fun search :: "regex \<Rightarrow> char option \<Rightarrow> string \<Rightarrow> bool" where
  "search r p s =
     (if ends r (p, s) \<noteq> [] then True
      else case s of [] \<Rightarrow> False | c # cs \<Rightarrow> search r (Some c) cs)"

declare search.simps [simp del]

definition MatchString :: "regex \<Rightarrow> string \<Rightarrow> bool" where
  "MatchString r s = search r None s"

text \<open>\<open>Regexp.FindString\<close>: the text of the leftmost-first match, empty when there is none.\<close>

fun find_from :: "regex \<Rightarrow> char option \<Rightarrow> string \<Rightarrow> string" where
  "find_from r p s =
     (case ends r (p, s) of
        y # _ \<Rightarrow> take (length s - length (snd y)) s
      | [] \<Rightarrow> (case s of [] \<Rightarrow> [] | c # cs \<Rightarrow> find_from r (Some c) cs))"

declare find_from.simps [simp del]

definition FindString :: "regex \<Rightarrow> string \<Rightarrow> string" where
  "FindString r s = find_from r None s"

section \<open>Agreement of the matcher with the relation\<close>

lemma strip_prefix_iff: "strip_prefix w s = Some t \<longleftrightarrow> s = w @ t"
  by (induction w s rule: strip_prefix.induct) (auto split: list.splits)

lemma reaches_shrinks:
  "reaches r x y \<Longrightarrow> length (snd y) \<le> length (snd x) \<and> (length (snd y) = length (snd x) \<longrightarrow> y = x)"
  by (induction rule: reaches.induct) auto

lemma star_ends_sound:
  assumes "\<And>x y. y \<in> set (ends a x) \<Longrightarrow> reaches a x y"
  shows "y \<in> set (star_ends (ends a) n x) \<Longrightarrow> reaches (RStar a) x y"
proof (induction n arbitrary: x)
  case 0
  then show ?case by (simp add: star0)
next
  case (Suc n)
  then show ?case by (auto intro: star0 star1 assms)
qed

lemma ends_sound: "y \<in> set (ends r x) \<Longrightarrow> reaches r x y"
proof (induction r arbitrary: x y)
  case (RChr f)
  then show ?case by (cases x) (auto intro: chr split: list.splits if_splits)
next
  case (RStr w)
  then obtain s where s: "strip_prefix w (snd x) = Some s" "y = (case w of [] \<Rightarrow> fst x | _ \<Rightarrow> Some (last w), s)"
    by (cases "strip_prefix w (snd x)") auto
  then have "x = (fst x, w @ s)" by (metis prod.collapse strip_prefix_iff)
  with s(2) show ?case using str [of w "fst x" s] by (cases w) auto
next
  case (RSeq a b)
  then obtain z where "z \<in> set (ends a x)" "y \<in> set (ends b z)" by auto
  with RSeq.IH show ?case by (blast intro: seq)
next
  case (RStar a)
  then show ?case using star_ends_sound by simp
qed (auto intro: reaches.intros split: if_splits)

lemma star_ends_complete:
  assumes "\<And>x y. reaches a x y \<Longrightarrow> y \<in> set (ends a x)"
  shows "reaches r x z \<Longrightarrow> r = RStar a \<Longrightarrow> length (snd x) \<le> n \<Longrightarrow> z \<in> set (star_ends (ends a) n x)"
proof (induction arbitrary: n rule: reaches.induct)
  case (star0 a' x)
  then show ?case by (cases n) auto
next
  case (star1 a' x y z)
  show ?case
  proof (cases "length (snd y) = length (snd x)")
    case True
    with star1 have "y = x" using reaches_shrinks by blast
    with star1 show ?thesis by simp
  next
    case False
    with star1 have less: "length (snd y) < length (snd x)" using reaches_shrinks le_neq_implies_less by blast
    with star1 obtain m where m: "n = Suc m" by (cases n) auto
    with less star1 have "z \<in> set (star_ends (ends a) m y)" by auto
    moreover from star1 assms have "y \<in> set (ends a x)" by auto
    ultimately have "z \<in> set (concat (map (star_ends (ends a) m)
        (filter (\<lambda>y. length (snd y) < length (snd x)) (ends a x))))"
      using less unfolding set_concat set_map set_filter by blast
    then show ?thesis using m by simp
  qed
qed auto

lemma ends_complete: "reaches r x y \<Longrightarrow> y \<in> set (ends r x)"
proof (induction r arbitrary: x y)
  case (RStr w)
  then obtain p s where "x = (p, w @ s)" "y = (if w = [] then p else Some (last w), s)"
    by (auto elim: reaches_strE)
  moreover have "strip_prefix w (w @ s) = Some s" by (simp add: strip_prefix_iff)
  ultimately show ?case by (auto split: list.splits)
next
  case (RSeq a b)
  from RSeq.prems obtain z where "reaches a x z" "reaches b z y" by (rule reaches_seqE)
  with RSeq.IH have "z \<in> set (ends a x)" "y \<in> set (ends b z)" by blast+
  then show ?case unfolding ends.simps set_concat set_map by blast
next
  case (RAlt a b)
  from RAlt.prems have "reaches a x y \<or> reaches b x y" by (blast elim: reaches_altE)
  with RAlt.IH show ?case unfolding ends.simps set_append by blast
next
  case (RStar a)
  then show ?case using star_ends_complete [of a "RStar a" x y "length (snd x)"] by simp
next
  case (RChr f)
  then show ?case by (elim reaches_chrE) simp
next
  case REps
  then show ?case by (elim reaches_epsE) simp
next
  case RWordB
  then show ?case by (elim reaches_wordE) simp
next
  case RBegin
  then show ?case by (elim reaches_botE) simp
next
  case REnd
  then show ?case by (elim reaches_eotE) simp
qed

theorem reaches_iff_ends: "y \<in> set (ends r x) \<longleftrightarrow> reaches r x y"
  using ends_sound ends_complete by blast

lemma search_iff: "search r p s \<longleftrightarrow>
   (\<exists>pre post y. s = pre @ post \<and> reaches r (if pre = [] then p else Some (last pre), post) y)"
proof (induction s arbitrary: p)
  case Nil
  have "search r p [] \<longleftrightarrow> set (ends r (p, [])) \<noteq> {}" by (simp add: search.simps [of r p "[]"])
  then show ?case by (auto simp: reaches_iff_ends ex_in_conv [symmetric] simp del: set_empty)
next
  case (Cons c cs)
  have "search r p (c # cs) \<longleftrightarrow> (\<exists>y. reaches r (p, c # cs) y) \<or> search r (Some c) cs"
  proof -
    have "ends r (p, c # cs) \<noteq> [] \<longleftrightarrow> (\<exists>y. reaches r (p, c # cs) y)"
      using reaches_iff_ends by (metis ex_in_conv set_empty2)
    then show ?thesis by (subst search.simps) simp
  qed
  also have "\<dots> \<longleftrightarrow> (\<exists>pre post y. c # cs = pre @ post \<and>
      reaches r (if pre = [] then p else Some (last pre), post) y)" (is "_ \<longleftrightarrow> ?R")
  proof
    assume "(\<exists>y. reaches r (p, c # cs) y) \<or> search r (Some c) cs"
    then show ?R
    proof
      assume "\<exists>y. reaches r (p, c # cs) y"
      then obtain y where "reaches r (p, c # cs) y" by blast
      then show ?R by (intro exI [of _ "[]"] exI [of _ "c # cs"] exI [of _ y]) simp
    next
      assume "search r (Some c) cs"
      with Cons obtain pre post y where
        "cs = pre @ post" "reaches r (if pre = [] then Some c else Some (last pre), post) y" by blast
      then show ?R by (intro exI [of _ "c # pre"] exI [of _ post] exI [of _ y]) (auto split: if_splits)
    qed
  next
    assume ?R
    then obtain pre post y where *: "c # cs = pre @ post"
      "reaches r (if pre = [] then p else Some (last pre), post) y" by blast
    show "(\<exists>y. reaches r (p, c # cs) y) \<or> search r (Some c) cs"
    proof (cases pre)
      case Nil
      with * have "reaches r (p, c # cs) y" by simp
      then show ?thesis by blast
    next
      case (Cons d pre')
      with * have "cs = pre' @ post" "reaches r (if pre' = [] then Some c else Some (last pre'), post) y"
        by (auto split: if_splits)
      with Cons.IH show ?thesis by blast
    qed
  qed
  finally show ?case .
qed

text \<open>The characterisation the components use: a pattern matches a text when some stretch of the
  text, seen with the byte before it, is matched.\<close>

definition before :: "string \<Rightarrow> char option" where
  "before pre = (if pre = [] then None else Some (last pre))"

theorem MatchString_iff:
  "MatchString r s \<longleftrightarrow> (\<exists>pre post y. s = pre @ post \<and> reaches r (before pre, post) y)"
  unfolding MatchString_def before_def by (rule search_iff)

lemma MatchString_infixI:
  "reaches r (before pre, post) y \<Longrightarrow> MatchString r (pre @ post)"
  unfolding MatchString_iff by blast

section \<open>Building blocks for patterns\<close>

definition RFail :: regex where "RFail = RChr (\<lambda>_. False)"

fun seqs :: "regex list \<Rightarrow> regex" where
  "seqs [] = REps"
| "seqs [r] = r"
| "seqs (r # s # rs) = RSeq r (seqs (s # rs))"

fun alts :: "regex list \<Rightarrow> regex" where
  "alts [] = RFail"
| "alts [r] = r"
| "alts (r # s # rs) = RAlt r (alts (s # rs))"

definition plus :: "regex \<Rightarrow> regex" where "plus r = RSeq r (RStar r)"

definition opt :: "regex \<Rightarrow> regex" where "opt r = RAlt r REps"

text \<open>\<open>r{n,}\<close>.\<close>

fun at_least :: "nat \<Rightarrow> regex \<Rightarrow> regex" where
  "at_least 0 r = RStar r"
| "at_least (Suc n) r = RSeq r (at_least n r)"

abbreviation lit :: "string \<Rightarrow> regex" where
  "lit s \<equiv> RStr s"

definition cls :: "string \<Rightarrow> regex" where
  "cls s = RChr (\<lambda>d. List.member s d)"

definition range :: "char \<Rightarrow> char \<Rightarrow> char \<Rightarrow> bool" where
  "range lo hi d \<longleftrightarrow> lo \<le> d \<and> d \<le> hi"

definition lower :: "char \<Rightarrow> bool" where "lower = range CHR ''a'' CHR ''z''"
definition upper :: "char \<Rightarrow> bool" where "upper = range CHR ''A'' CHR ''Z''"
definition digit :: "char \<Rightarrow> bool" where "digit = range CHR ''0'' CHR ''9''"
definition alpha :: "char \<Rightarrow> bool" where "alpha d \<longleftrightarrow> lower d \<or> upper d"

text \<open>\<open>\s\<close> is \<open>[\t\n\f\r ]\<close> in Go, without the vertical tab.\<close>

definition re_space :: "char \<Rightarrow> bool" where
  "re_space d \<longleftrightarrow> d = CHR 0x20 \<or> d = CHR 0x09 \<or> d = CHR 0x0A \<or> d = CHR 0x0C \<or> d = CHR 0x0D"

definition sp :: regex where "sp = RChr re_space"
definition sp0 :: regex where "sp0 = RStar sp"
definition sp1 :: regex where "sp1 = plus sp"
definition wch :: regex where "wch = RChr word_char"
definition dig :: regex where "dig = RChr digit"
definition dots :: regex where "dots = RStar (RChr (\<lambda>d. d \<noteq> CHR 0x0A))"

text \<open>
  A letter under \<open>(?i)\<close> matches both cases; \<open>k\<close> and \<open>s\<close> also match the Kelvin sign U+212A and
  the long s U+017F, which fold to them.
\<close>

definition swap_case :: "char \<Rightarrow> char" where
  "swap_case c =
     (if lower c then char_of (of_char c - (32::nat))
      else if upper c then char_of (of_char c + (32::nat)) else c)"

definition ichr :: "char \<Rightarrow> regex" where
  "ichr c =
     (let both = RChr (\<lambda>d. d = c \<or> d = swap_case c)
      in if \<not> alpha c then lit [c]
         else if c = CHR ''k'' \<or> c = CHR ''K'' then RAlt both (lit [CHR 0xE2, CHR 0x84, CHR 0xAA])
         else if c = CHR ''s'' \<or> c = CHR ''S'' then RAlt both (lit [CHR 0xC5, CHR 0xBF])
         else both)"

definition ilit :: "string \<Rightarrow> regex" where
  "ilit s = seqs (map ichr s)"

section \<open>Deriving matches\<close>

lemma reaches_seqs_Cons:
  "reaches r x y \<Longrightarrow> reaches (seqs rs) y z \<Longrightarrow> reaches (seqs (r # rs)) x z"
  by (cases rs) (auto intro: seq elim: reaches_epsE)

lemma reaches_alts: "r \<in> set rs \<Longrightarrow> reaches r x y \<Longrightarrow> reaches (alts rs) x y"
proof (induction rs rule: alts.induct)
  case (3 r' s rs)
  then show ?case by (cases "r = r'") (auto intro: altl altr)
qed auto

lemma reaches_lit: "s \<noteq> [] \<Longrightarrow> reaches (lit s) (p, s @ t) (Some (last s), t)"
  using str [of s p t] by simp

lemma reaches_plus1: "reaches r x y \<Longrightarrow> reaches (plus r) x y"
  unfolding plus_def by (rule seq [OF _ star0])

lemma reaches_sp1: "re_space c \<Longrightarrow> reaches sp1 (p, c # s) (Some c, s)"
  unfolding sp1_def sp_def by (rule reaches_plus1 [OF chr])

lemma reaches_dots:
  "CHR 0x0A \<notin> set s \<Longrightarrow> reaches dots (p, s @ t) (if s = [] then p else Some (last s), t)"
proof (induction s arbitrary: p)
  case (Cons c s)
  then have "reaches dots (Some c, s @ t) (if s = [] then Some c else Some (last s), t)" by simp
  moreover have "reaches (RChr (\<lambda>d. d \<noteq> CHR 0x0A)) (p, c # s @ t) (Some c, s @ t)"
    using Cons.prems by (intro chr) auto
  ultimately show ?case unfolding dots_def by (auto intro: star1)
qed (simp add: dots_def star0)

end
