(* ===== verification/Risk_Patterns.thy ===== *)
theory Risk_Patterns
  imports Go_Regexp
begin

text \<open>
  \<open>security/pattern.go\<close>: the table of dangerous command patterns, \<open>IsDangerous\<close> and
  \<open>AssessRisk\<close>. Each pattern is the source's regular expression written with the building
  blocks of \<open>Go_Regexp\<close>, in the source's order.
\<close>

section \<open>The pattern tables\<close>

definition dangerousPatterns :: "regex list" where
  "dangerousPatterns =
    [ \<comment> \<open>file destruction\<close>
      seqs [RWordB, lit ''rm'', sp],
      seqs [RWordB, lit ''rmdir'', sp],
      \<comment> \<open>git\<close>
      seqs [RWordB, lit ''git'', sp1,
            alts [lit ''push'', lit ''reset'', lit ''clean'', seqs [lit ''checkout'', sp1, lit ''.'']]],
      seqs [RWordB, ilit ''git'', sp1, ilit ''push'', sp1, dots,
            alts [ilit ''--force'', seqs [ilit ''-f'', RWordB]]],
      seqs [RWordB, lit ''git'', sp1, lit ''commit'', sp1, lit ''--amend''],
      \<comment> \<open>privilege escalation\<close>
      seqs [RWordB, lit ''sudo'', RWordB],
      seqs [RWordB, lit ''doas'', RWordB],
      seqs [RWordB, lit ''pkexec'', RWordB],
      seqs [RWordB, lit ''su'', sp],
      \<comment> \<open>filesystem destruction\<close>
      seqs [RWordB, lit ''mkfs'', RWordB],
      seqs [RWordB, lit ''dd'', sp],
      seqs [lit ''>'', sp0, lit ''/dev/'', alts [lit ''sd'', lit ''hd'', lit ''nvme'', lit ''mmcblk'']],
      \<comment> \<open>processes\<close>
      seqs [RWordB, lit ''kill'', RWordB],
      seqs [RWordB, lit ''pkill'', RWordB],
      seqs [RWordB, lit ''killall'', RWordB],
      \<comment> \<open>shutdown and reboot\<close>
      seqs [RWordB, lit ''reboot'', RWordB],
      seqs [RWordB, lit ''shutdown'', RWordB],
      seqs [RWordB, lit ''halt'', RWordB],
      seqs [RWordB, lit ''poweroff'', RWordB],
      \<comment> \<open>permissions\<close>
      seqs [RWordB, lit ''chmod'', sp1, lit ''777''],
      seqs [RWordB, lit ''chmod'', sp1, dots, lit ''777''],
      seqs [RWordB, lit ''chown'', sp],
      seqs [RWordB, lit ''chattr'', sp],
      \<comment> \<open>fork bomb\<close>
      RAlt (seqs [RWordB, lit ''fork'', sp1, lit ''bomb'']) (seqs [lit '':'', sp0, lit ''()'', sp0, lit ''{'']),
      \<comment> \<open>pipe to shell\<close>
      seqs [RWordB, lit ''wget'', sp, dots, lit ''|'', sp0, opt (lit ''ba''), lit ''sh''],
      seqs [RWordB, lit ''curl'', sp, dots, lit ''|'', sp0, opt (lit ''ba''), lit ''sh''],
      \<comment> \<open>exfiltration\<close>
      seqs [RWordB, lit ''nc'', sp1, dots, lit ''-e'', sp],
      seqs [RWordB, lit ''ncat'', sp1, dots, lit ''-e'', sp],
      \<comment> \<open>disks and devices\<close>
      seqs [RWordB, lit ''fdisk'', RWordB],
      seqs [RWordB, lit ''parted'', RWordB],
      seqs [RWordB, lit ''mount'', sp],
      seqs [RWordB, lit ''umount'', sp],
      \<comment> \<open>kernel modules\<close>
      seqs [RWordB, lit ''modprobe'', RWordB],
      seqs [RWordB, lit ''insmod'', RWordB],
      seqs [RWordB, lit ''rmmod'', RWordB],
      \<comment> \<open>system configuration\<close>
      seqs [RWordB, lit ''sysctl'', sp],
      seqs [RWordB, lit ''iptables'', RWordB],
      seqs [RWordB, lit ''nft'', RWordB],
      seqs [RWordB, lit ''ufw'', sp],
      \<comment> \<open>services\<close>
      seqs [RWordB, lit ''systemctl'', sp1,
            alts [lit ''start'', lit ''stop'', lit ''restart'', lit ''enable'', lit ''disable'', lit ''mask'']],
      seqs [RWordB, lit ''service'', sp1, plus wch, sp1, alts [lit ''start'', lit ''stop'', lit ''restart'']],
      \<comment> \<open>scheduled tasks\<close>
      seqs [RWordB, lit ''crontab'', sp],
      \<comment> \<open>user accounts\<close>
      seqs [RWordB, lit ''useradd'', RWordB],
      seqs [RWordB, lit ''userdel'', RWordB],
      seqs [RWordB, lit ''usermod'', RWordB],
      seqs [RWordB, lit ''passwd'', RWordB],
      \<comment> \<open>find and xargs\<close>
      seqs [RWordB, lit ''find'', sp, dots, lit ''-exec'', RWordB],
      seqs [RWordB, lit ''xargs'', sp, dots, RWordB, lit ''rm'', RWordB],
      seqs [RWordB, lit ''xargs'', sp, dots, RWordB, lit ''sh'', RWordB],
      \<comment> \<open>environment injection\<close>
      seqs [RWordB, lit ''LD_PRELOAD'', sp0, lit ''=''],
      seqs [RWordB, lit ''LD_LIBRARY_PATH'', sp0, lit ''=''],
      \<comment> \<open>reverse shells\<close>
      seqs [RWordB, alts [lit ''nc'', lit ''ncat'', lit ''netcat''], sp1, dots,
            alts [lit ''-e'', lit ''--exec''], sp1, opt (alts [lit ''/bin/'', lit ''/usr/bin/'']),
            opt (lit ''ba''), lit ''sh''],
      seqs [RWordB, alts [lit ''python'', lit ''python3'', lit ''ruby'', lit ''perl'', lit ''php''], sp1, dots,
            alts [lit ''socket'', lit ''subprocess'', lit ''exec'']]
    ]"

definition IsDangerous :: "string \<Rightarrow> bool" where
  "IsDangerous command = list_ex (\<lambda>re. MatchString re command) dangerousPatterns"

datatype RiskLevel = RiskLevelSafe | RiskLevelWarning | RiskLevelDangerous | RiskLevelCritical

definition criticalPatterns :: "regex list" where
  "criticalPatterns =
    [ seqs [RWordB, lit ''rm'', sp1, dots, lit ''-rf'', sp1, lit ''/''],
      seqs [RWordB, lit ''rm'', sp1, dots, lit ''-rf'', sp1, lit ''~''],
      seqs [lit '':'', sp0, lit ''()'', sp0, lit ''{''],
      seqs [RWordB, lit ''sudo'', sp1, lit ''rm'', sp1, dots, lit ''-rf'', sp1, lit ''/''] ]"

definition warningPatterns :: "regex list" where
  "warningPatterns =
    [ seqs [lit ''>'', sp0, wch],
      seqs [RWordB, alts [lit ''mv'', lit ''cp'', lit ''touch'', lit ''mkdir''], sp],
      seqs [RWordB, lit ''git'', sp1,
            alts [lit ''commit'', lit ''branch'', lit ''tag'', lit ''merge'', lit ''rebase'']],
      seqs [RWordB, alts [lit ''npm'', lit ''yarn'', lit ''pnpm'', lit ''pip'', lit ''pip3'', lit ''cargo''], sp1,
            alts [lit ''install'', lit ''add'', lit ''remove'', lit ''update'']] ]"

definition AssessRisk :: "string \<Rightarrow> RiskLevel" where
  "AssessRisk command =
     (if TrimSpace command = [] then RiskLevelSafe
      else if list_ex (\<lambda>p. MatchString p command) criticalPatterns then RiskLevelCritical
      else if IsDangerous command then RiskLevelDangerous
      else if list_ex (\<lambda>p. MatchString p command) warningPatterns then RiskLevelWarning
      else RiskLevelSafe)"

section \<open>Matches that need a visible character\<close>

text \<open>A pattern all of whose matches contain a literal with a visible character.\<close>

fun needs_visible :: "regex \<Rightarrow> bool" where
  "needs_visible (RStr w) = list_ex visible w"
| "needs_visible (RSeq a b) = (needs_visible a \<or> needs_visible b)"
| "needs_visible (RAlt a b) = (needs_visible a \<and> needs_visible b)"
| "needs_visible _ = False"

lemma reaches_suffix: "reaches r x y \<Longrightarrow> \<exists>m. snd x = m @ snd y"
proof (induction rule: reaches.induct)
  case (chr f c p s)
  then show ?case by (intro exI [of _ "[c]"]) simp
next
  case (str w p s)
  then show ?case by simp
next
  case (seq a x y b z)
  then show ?case by (metis append_assoc)
next
  case (star1 a x y z)
  then show ?case by (metis append_assoc)
qed auto

lemma needs_visible_reaches:
  "reaches r x y \<Longrightarrow> needs_visible r \<Longrightarrow> \<exists>c \<in> set (snd x). visible c"
proof (induction rule: reaches.induct)
  case (seq a x y b z)
  from reaches_suffix [OF seq.hyps(1)] have "set (snd y) \<subseteq> set (snd x)" by auto
  with seq show ?case by auto
qed (auto simp: list_ex_iff)

lemma needs_visible_match: "needs_visible r \<Longrightarrow> MatchString r s \<Longrightarrow> \<exists>c \<in> set s. visible c"
  unfolding MatchString_iff using needs_visible_reaches by fastforce

text \<open>What is trimmed away is never visible.\<close>

lemma space_len_not_visible:
  assumes "list_all (list_all (\<lambda>c. \<not> ascii_byte c)) wide"
    and "c \<in> set (take (space_len wide s) s)"
  shows "\<not> visible c"
proof (cases s)
  case (Cons d ds)
  have "\<not> ascii_byte c" if "filter (\<lambda>w. w \<noteq> [] \<and> prefix w s) wide = w # ws" "c \<in> set (take (length w) s)" for w ws
  proof -
    from that(1) have "w \<in> set wide" "prefix w s"
      by (metis (no_types, lifting) filter_eq_ConsD in_set_conv_decomp, metis (no_types, lifting) filter_eq_ConsD)
    with that(2) have "c \<in> set w" by (auto simp: prefix_def)
    with \<open>w \<in> set wide\<close> assms(1) show ?thesis by (auto simp: list_all_iff)
  qed
  with assms(2) Cons show ?thesis
    by (auto simp: space_len_def visible_def split: if_splits list.splits)
qed (use assms in simp)

lemma trim_front_visible:
  assumes "list_all (list_all (\<lambda>c. \<not> ascii_byte c)) wide" "c \<in> set s" "visible c"
  shows "c \<in> set (trim_front wide s)"
  using assms(2)
proof (induction s rule: length_induct)
  case (1 s)
  show ?case
  proof (cases "space_len wide s = 0")
    case True
    with 1 show ?thesis by (simp add: trim_front.simps [of wide s])
  next
    case False
    have "c \<notin> set (take (space_len wide s) s)"
      using space_len_not_visible [OF assms(1)] assms(3) by blast
    moreover have "c \<in> set (take (space_len wide s) s) \<union> set (drop (space_len wide s) s)"
      using 1(2) by (metis append_take_drop_id set_append)
    ultimately have "c \<in> set (drop (space_len wide s) s)" by blast
    moreover have "length (drop (space_len wide s) s) < length s" using False 1(2) by (cases s) auto
    ultimately show ?thesis using 1(1) False by (simp add: trim_front.simps [of wide s])
  qed
qed

lemma wide_spaces_not_ascii:
  "list_all (list_all (\<lambda>c. \<not> ascii_byte c)) wide_spaces"
  "list_all (list_all (\<lambda>c. \<not> ascii_byte c)) (map rev wide_spaces)"
  by (code_simp, code_simp)

lemma TrimSpace_visible_nonempty: "c \<in> set s \<Longrightarrow> visible c \<Longrightarrow> TrimSpace s \<noteq> []"
proof -
  assume "c \<in> set s" "visible c"
  then have "c \<in> set (TrimLeft s)"
    unfolding TrimLeft_def by (rule trim_front_visible [OF wide_spaces_not_ascii(1)])
  then have "c \<in> set (TrimSpace s)"
    using trim_front_visible [OF wide_spaces_not_ascii(2), of c "rev (TrimLeft s)"] \<open>visible c\<close>
    by (simp add: TrimSpace_def TrimRight_def)
  then show ?thesis by auto
qed

lemma dangerous_needs_visible: "list_all needs_visible dangerousPatterns"
  by code_simp

lemma IsDangerous_nonblank: "IsDangerous command \<Longrightarrow> TrimSpace command \<noteq> []"
  using dangerous_needs_visible needs_visible_match TrimSpace_visible_nonempty
  unfolding IsDangerous_def list_ex_iff list_all_iff by blast

section \<open>Words and recursive deletion\<close>

text \<open>A literal word between non-word bytes is found wherever it stands.\<close>

lemma reaches_word:
  assumes "w \<noteq> []" "word_char (hd w)" "word_char (last w)"
    and "\<not> word_before (p, w @ post)" and "\<not> word_after (q, post)"
  shows "reaches (seqs [RWordB, lit w, RWordB]) (p, w @ post) (Some (last w), post)"
proof -
  have after: "word_after (p, w @ post)" using assms(1,2) by (cases w) auto
  have "reaches RWordB (p, w @ post) (p, w @ post)" using assms(4) after by (intro wordb) simp
  moreover have "reaches (lit w) (p, w @ post) (Some (last w), post)" using assms(1) by (rule reaches_lit)
  moreover have "reaches RWordB (Some (last w), post) (Some (last w), post)"
    using assms(3,5) by (intro wordb) (simp split: list.splits)
  ultimately show ?thesis by (simp add: seq)
qed

text \<open>\<open>\s+\<close> begins with one white-space character.\<close>

lemma sp1_first:
  assumes "reaches sp1 x y"
  shows "\<exists>p c s. x = (p, c # s) \<and> re_space c"
  using assms unfolding sp1_def plus_def sp_def by (auto elim!: reaches_seqE reaches_chrE)

lemma rm_spaces_rm_space:
  assumes "reaches (seqs (RWordB # lit ''rm'' # sp1 # rs)) x y" "rs \<noteq> []"
  shows "\<exists>z. reaches (seqs [RWordB, lit ''rm'', sp]) x z"
proof -
  obtain u where u: "reaches RWordB x x" "reaches (lit ''rm'') x u" "\<exists>v. reaches sp1 u v"
    using assms by (cases rs) (auto elim!: reaches_seqE elim: reaches_wordE intro: wordb)
  then obtain p c s where "u = (p, c # s)" "re_space c" using sp1_first by blast
  then have "reaches sp u (Some c, s)" unfolding sp_def by (auto intro: chr)
  with u have "reaches (RSeq RWordB (RSeq (lit ''rm'') sp)) x (Some c, s)" by (blast intro: seq)
  then show ?thesis by auto
qed

lemma sudo_spaces_sudo_word:
  assumes "reaches (seqs (RWordB # lit ''sudo'' # sp1 # rs)) x y" "rs \<noteq> []"
  shows "\<exists>z. reaches (seqs [RWordB, lit ''sudo'', RWordB]) x z"
proof -
  obtain u where u: "reaches RWordB x x" "reaches (lit ''sudo'') x u" "\<exists>v. reaches sp1 u v"
    using assms by (cases rs) (auto elim!: reaches_seqE elim: reaches_wordE intro: wordb)
  then obtain p c s where cs: "u = (p, c # s)" "re_space c" using sp1_first by blast
  moreover have "p = Some CHR ''o''" using u(2) cs(1) by (auto elim!: reaches_strE)
  moreover have "\<not> word_char c" using cs(2) by (auto simp: re_space_def word_char_def)
  ultimately have "reaches RWordB u u" by (auto intro!: wordb simp: word_char_def)
  with u have "reaches (RSeq RWordB (RSeq (lit ''sudo'') RWordB)) x u" by (blast intro: seq)
  then show ?thesis by (intro exI [of _ u]) simp
qed

lemma MatchString_imp:
  assumes "MatchString r s" "\<And>x y. reaches r x y \<Longrightarrow> \<exists>z. reaches r' x z"
  shows "MatchString r' s"
  using assms unfolding MatchString_iff by blast

lemma IsDangerousI: "re \<in> set dangerousPatterns \<Longrightarrow> MatchString re c \<Longrightarrow> IsDangerous c"
  by (auto simp: IsDangerous_def list_ex_iff)

lemma critical_dangerous:
  assumes "MatchString re c" "re \<in> set criticalPatterns"
  shows "IsDangerous c"
proof -
  let ?rm = "seqs [RWordB, lit ''rm'', sp]"
  let ?bomb = "RAlt (seqs [RWordB, lit ''fork'', sp1, lit ''bomb'']) (seqs [lit '':'', sp0, lit ''()'', sp0, lit ''{''])"
  let ?sudo = "seqs [RWordB, lit ''sudo'', RWordB]"
  have listed: "?rm \<in> set dangerousPatterns" "?bomb \<in> set dangerousPatterns" "?sudo \<in> set dangerousPatterns"
    unfolding dangerousPatterns_def list.set by (blast intro: insertI1 insertI2)+
  from assms(2) have "MatchString ?rm c \<or> MatchString ?bomb c \<or> MatchString ?sudo c"
    unfolding criticalPatterns_def list.set
    using MatchString_imp [OF assms(1)] rm_spaces_rm_space sudo_spaces_sudo_word altr
    by (elim insertE emptyE; metis list.distinct(1))
  with listed show ?thesis using IsDangerousI by blast
qed

section \<open>Properties\<close>

text \<open>the risk assessment and the danger test agree: the risk is dangerous or critical exactly for
  the commands that match a dangerous pattern, so every critical pattern is covered by the table.\<close>

theorem risk_agrees_with_danger:
  "AssessRisk c \<in> {RiskLevelDangerous, RiskLevelCritical} \<longleftrightarrow> IsDangerous c"
  using critical_dangerous [of _ c] IsDangerous_nonblank [of c]
  by (auto simp: AssessRisk_def list_ex_iff)

text \<open>a recursive forced removal from the root or of a home directory is critical wherever it
  stands in the line, as long as \<open>rm\<close> starts a word and no line break separates it from its flags.\<close>

theorem recursive_removal_is_critical:
  assumes "\<not> word_before (before pre, [])" and "CHR 0x0A \<notin> set mid" and "tgt = CHR ''/'' \<or> tgt = CHR ''~''"
  shows "AssessRisk (pre @ ''rm '' @ mid @ ''-rf '' @ tgt # post) = RiskLevelCritical"
proof -
  let ?c = "pre @ ''rm '' @ mid @ ''-rf '' @ tgt # post"
  let ?re = "seqs [RWordB, lit ''rm'', sp1, dots, lit ''-rf'', sp1, lit [tgt]]"
  let ?x = "(before pre, ''rm'' @ CHR '' '' # mid @ ''-rf'' @ CHR '' '' # [tgt] @ post)"
  have "reaches RWordB ?x ?x" using assms(1) by (intro wordb) (cases "before pre"; simp add: word_char_def)
  moreover have "reaches (lit ''rm'') ?x (Some CHR ''m'', CHR '' '' # mid @ ''-rf'' @ CHR '' '' # [tgt] @ post)"
    using reaches_lit [of "''rm''"] by simp
  moreover have "reaches sp1 (Some CHR ''m'', CHR '' '' # mid @ ''-rf'' @ CHR '' '' # [tgt] @ post)
    (Some CHR '' '', mid @ ''-rf'' @ CHR '' '' # [tgt] @ post)"
    by (rule reaches_sp1) (simp add: re_space_def)
  moreover note reaches_dots [OF assms(2), of "Some CHR '' ''" "''-rf'' @ CHR '' '' # [tgt] @ post"]
  moreover have "reaches (lit ''-rf'') (q, ''-rf'' @ CHR '' '' # [tgt] @ post) (Some CHR ''f'', CHR '' '' # [tgt] @ post)" for q
    using reaches_lit [of "''-rf''" q] by simp
  moreover have "reaches sp1 (Some CHR ''f'', CHR '' '' # [tgt] @ post) (Some CHR '' '', [tgt] @ post)"
    by (rule reaches_sp1) (simp add: re_space_def)
  moreover have "reaches (lit [tgt]) (Some CHR '' '', [tgt] @ post) (Some tgt, post)"
    using reaches_lit [of "[tgt]"] by simp
  ultimately have "reaches ?re ?x (Some tgt, post)"
    by (intro reaches_seqs_Cons) (assumption | simp add: eps)+
  then have "MatchString ?re ?c" using MatchString_infixI by fastforce
  moreover have "?re \<in> set criticalPatterns" using assms(3) unfolding criticalPatterns_def by auto
  moreover have "TrimSpace ?c \<noteq> []"
    by (rule TrimSpace_visible_nonempty [of "CHR ''r''"]) (simp_all add: visible_def ascii_space_def)
  ultimately show ?thesis by (auto simp: AssessRisk_def list_ex_iff)
qed

theorem recursive_removal_is_critical_witness:
  "AssessRisk ''cd /tmp && rm -v -rf /'' = RiskLevelCritical"
  using recursive_removal_is_critical [of "''cd /tmp && ''" "''-v ''" "CHR ''/''" "[]"]
  by (simp add: before_def word_char_def)

end
