(* ===== verification/Bash_Tokenizer.thy ===== *)
theory Bash_Tokenizer
  imports Risk_Patterns
begin

text \<open>
  \<open>tools/bash/tokenizer.go\<close>: splitting a command line into tokens and into pipeline segments,
  stripping environment assignments that are considered harmless, and finding the base command.
  The loops over runes are recursions over the remaining text with the loop's variables as
  arguments.
\<close>

abbreviation bslash :: char where "bslash \<equiv> CHR 0x5C"
abbreviation squote :: char where "squote \<equiv> CHR 0x27"
abbreviation dquote :: char where "dquote \<equiv> CHR 0x22"
abbreviation blank :: char where "blank \<equiv> CHR 0x20"
abbreviation tab :: char where "tab \<equiv> CHR 0x09"

section \<open>Tokens\<close>

definition safeEnvVars :: "string list" where
  "safeEnvVars =
    [''GOEXPERIMENT'', ''GOOS'', ''GOARCH'', ''GOPATH'', ''GOROOT'', ''GOPROXY'', ''GOMODCACHE'',
     ''GONOSUMCHECK'', ''GONOSUMDB'', ''GOPRIVATE'', ''RUST_BACKTRACE'', ''RUST_LOG'', ''RUSTFLAGS'',
     ''NODE_ENV'', ''NODE_OPTIONS'', ''PYTHONPATH'', ''PYTHONUNBUFFERED'', ''PYTHONWARNINGS'', ''LANG'',
     ''LC_ALL'', ''LC_CTYPE'', ''LC_MESSAGES'', ''LC_TIME'', ''HOME'', ''USER'', ''PATH'', ''TERM'',
     ''SHELL'', ''CI'', ''GITHUB_ACTIONS'', ''GITLAB_CI'', ''DISPLAY'', ''WAYLAND_DISPLAY'', ''EDITOR'',
     ''VISUAL'', ''PAGER'']"

text \<open>\<open>^[A-Za-z_]\w*$\<close>.\<close>

definition envNameRe :: regex where
  "envNameRe = seqs [RBegin, RChr (\<lambda>d. alpha d \<or> d = CHR ''_''), RStar wch, REnd]"

text \<open>The characters that a backslash escapes in \<open>Tokenize\<close>.\<close>

definition escapable :: "char \<Rightarrow> bool" where
  "escapable c \<longleftrightarrow> c = blank \<or> c = tab \<or> c = bslash \<or> c = squote \<or> c = dquote"

definition flush_token :: "string \<Rightarrow> string list" where
  "flush_token cur = (if cur = [] then [] else [cur])"

text \<open>The loop of \<open>Tokenize\<close>: whether quotes are stripped, the token under construction, the two
  quote flags, and the text from \<open>i\<close> on.\<close>

fun tokenize_from :: "bool \<Rightarrow> string \<Rightarrow> bool \<Rightarrow> bool \<Rightarrow> string \<Rightarrow> string list" where
  "tokenize_from strip cur inS inD [] = flush_token cur"
| "tokenize_from strip cur inS inD (ch # rest) =
     (if ch = bslash \<and> rest \<noteq> [] then
        (case rest of [] \<Rightarrow> flush_token cur
         | nextCh # rest' \<Rightarrow>
             if escapable nextCh then tokenize_from strip (cur @ [nextCh]) inS inD rest'
             else tokenize_from strip (cur @ [ch]) inS inD rest)
      else if ch = squote \<and> \<not> inD then
        tokenize_from strip (if strip then cur else cur @ [ch]) (\<not> inS) inD rest
      else if ch = dquote \<and> \<not> inS then
        tokenize_from strip (if strip then cur else cur @ [ch]) inS (\<not> inD) rest
      else if (ch = blank \<or> ch = tab) \<and> \<not> inS \<and> \<not> inD then
        flush_token cur @ tokenize_from strip [] inS inD rest
      else tokenize_from strip (cur @ [ch]) inS inD rest)"

definition Tokenize :: "string \<Rightarrow> bool \<Rightarrow> string list" where
  "Tokenize command stripQuotes = tokenize_from stripQuotes [] False False command"

section \<open>Pipeline segments\<close>

definition flush_segment :: "string \<Rightarrow> string list" where
  "flush_segment cur = (if TrimSpace cur = [] then [] else [TrimSpace cur])"

text \<open>\<open>&\<close> belongs to a redirection when the text before it ends with \<open>>\<close> or \<open><\<close>, or the next
  character is \<open>>\<close>.\<close>

definition amp_redirects :: "string \<Rightarrow> string \<Rightarrow> bool" where
  "amp_redirects cur rest \<longleftrightarrow>
     (let prev = TrimRight cur
      in (prev \<noteq> [] \<and> (last prev = CHR ''>'' \<or> last prev = CHR ''<'')) \<or>
         (case rest of [] \<Rightarrow> False | c # _ \<Rightarrow> c = CHR ''>''))"

definition double_op :: "char \<Rightarrow> string \<Rightarrow> bool" where
  "double_op ch rest \<longleftrightarrow>
     (case rest of [] \<Rightarrow> False
      | c2 # _ \<Rightarrow> (ch = CHR ''|'' \<and> c2 = CHR ''|'') \<or> (ch = CHR ''&'' \<and> c2 = CHR ''&''))"

fun split_from :: "string \<Rightarrow> bool \<Rightarrow> bool \<Rightarrow> string \<Rightarrow> string list" where
  "split_from cur inS inD [] = flush_segment cur"
| "split_from cur inS inD (ch # rest) =
     (if ch = bslash \<and> rest \<noteq> [] then
        (case rest of [] \<Rightarrow> flush_segment cur
         | nextCh # rest' \<Rightarrow> split_from (cur @ [ch, nextCh]) inS inD rest')
      else if ch = squote \<and> \<not> inD then split_from (cur @ [ch]) (\<not> inS) inD rest
      else if ch = dquote \<and> \<not> inS then split_from (cur @ [ch]) inS (\<not> inD) rest
      else if inS \<or> inD then split_from (cur @ [ch]) inS inD rest
      else if double_op ch rest then
        (case rest of [] \<Rightarrow> flush_segment cur
         | _ # rest' \<Rightarrow> flush_segment cur @ split_from [] inS inD rest')
      else if ch = CHR '';'' \<or> ch = CHR ''|'' then flush_segment cur @ split_from [] inS inD rest
      else if ch = CHR ''&'' then
        (if amp_redirects cur rest then split_from (cur @ [ch]) inS inD rest
         else flush_segment cur @ split_from [] inS inD rest)
      else split_from (cur @ [ch]) inS inD rest)"

definition SplitPipeline :: "string \<Rightarrow> string list" where
  "SplitPipeline command =
     (let segments = split_from [] False False command
      in if segments \<noteq> [] then segments else [command])"

section \<open>Environment prefixes and the base command\<close>

fun first_token_len :: "bool \<Rightarrow> bool \<Rightarrow> string \<Rightarrow> nat" where
  "first_token_len inS inD [] = 0"
| "first_token_len inS inD (ch # rest) =
     (if ch = bslash \<and> rest \<noteq> [] then
        (case rest of [] \<Rightarrow> 0 | _ # rest' \<Rightarrow> Suc (Suc (first_token_len inS inD rest')))
      else if ch = squote \<and> \<not> inD then Suc (first_token_len (\<not> inS) inD rest)
      else if ch = dquote \<and> \<not> inS then Suc (first_token_len inS (\<not> inD) rest)
      else if \<not> inS \<and> \<not> inD \<and> (ch = blank \<or> ch = tab) then 0
      else Suc (first_token_len inS inD rest))"

definition splitFirstShellToken :: "string \<Rightarrow> string \<times> string" where
  "splitFirstShellToken command =
     (let cleaned = TrimLeft command
      in if cleaned = [] then ([], [])
         else let i = first_token_len False False cleaned in (take i cleaned, drop i cleaned))"

definition leadingEnvName :: "string \<Rightarrow> string" where
  "leadingEnvName token =
     (if \<not> contains_char token CHR ''='' then []
      else let name = takeWhile (\<lambda>c. c \<noteq> CHR ''='') token
           in if MatchString envNameRe name then name else [])"

definition StripSafeEnvVars :: "string \<Rightarrow> string" where
  "StripSafeEnvVars command =
     (let cleaned = TrimLeft command
      in if cleaned = [] then []
         else let (token, rest) = splitFirstShellToken cleaned
              in if token = [] \<and> rest = [] then []
                 else let envName = leadingEnvName token
                      in if envName = [] \<or> \<not> List.member safeEnvVars envName then cleaned
                         else if TrimSpace rest = [] then cleaned
                         else TrimLeft rest)"

text \<open>The loop strips one prefix per round until nothing changes. Each round that changes the text
  shortens it, which is the termination argument.\<close>

lemma first_token_len_le: "first_token_len inS inD s \<le> length s"
  by (induction inS inD s rule: first_token_len.induct) (auto split: list.splits)

lemma splitFirstShellToken_append:
  "splitFirstShellToken command = (token, rest) \<Longrightarrow> token @ rest = TrimLeft command"
  by (auto simp: splitFirstShellToken_def Let_def split: if_splits)

lemma leadingEnvName_nonempty: "leadingEnvName token \<noteq> [] \<Longrightarrow> token \<noteq> []"
  by (auto simp: leadingEnvName_def Let_def)

lemma StripSafeEnvVars_cases:
  "StripSafeEnvVars command = TrimLeft command \<or>
   length (StripSafeEnvVars command) < length (TrimLeft command)"
proof (cases "TrimLeft command = []")
  case False
  obtain token rest where tr: "splitFirstShellToken (TrimLeft command) = (token, rest)"
    by (cases "splitFirstShellToken (TrimLeft command)")
  then have app: "token @ rest = TrimLeft command"
    using splitFirstShellToken_append by fastforce
  show ?thesis
  proof (cases "leadingEnvName token = []")
    case False
    then have "token \<noteq> []" by (rule leadingEnvName_nonempty)
    with app have "length rest < length (TrimLeft command)"
      by (metis length_append length_greater_0_conv less_add_same_cancel2)
    then have "length (TrimLeft rest) < length (TrimLeft command)"
      using length_TrimLeft_le le_less_trans by blast
    then show ?thesis using tr \<open>TrimLeft command \<noteq> []\<close> by (auto simp: StripSafeEnvVars_def Let_def)
  qed (use tr \<open>TrimLeft command \<noteq> []\<close> app in \<open>auto simp: StripSafeEnvVars_def Let_def\<close>)
qed (simp add: StripSafeEnvVars_def)

lemma StripSafeEnvVars_shrinks:
  "StripSafeEnvVars command \<noteq> command \<Longrightarrow> length (StripSafeEnvVars command) < length command"
proof -
  assume neq: "StripSafeEnvVars command \<noteq> command"
  obtain pre where pre: "command = pre @ TrimLeft command" using TrimLeft_suffix by blast
  show ?thesis
  proof (cases "StripSafeEnvVars command = TrimLeft command")
    case True
    with neq pre have "pre \<noteq> []" by auto
    with pre True show ?thesis by (metis length_append length_greater_0_conv less_add_same_cancel2)
  next
    case False
    then have "length (StripSafeEnvVars command) < length (TrimLeft command)"
      using StripSafeEnvVars_cases by blast
    then show ?thesis using length_TrimLeft_le less_le_trans by blast
  qed
qed

function StripAllSafeEnvPrefixes :: "string \<Rightarrow> string" where
  "StripAllSafeEnvPrefixes current =
     (let nxt = StripSafeEnvVars current
      in if nxt = current then current else StripAllSafeEnvPrefixes nxt)"
  by pat_completeness auto
termination
  by (relation "measure length") (simp_all add: StripSafeEnvVars_shrinks)

declare StripAllSafeEnvPrefixes.simps [simp del]

definition NormalizeBaseToken :: "string \<Rightarrow> string" where
  "NormalizeBaseToken token =
     (if contains_char token CHR ''='' then token
      else let t1 = after_last CHR ''/'' token;
               t2 = after_last bslash t1
           in if contains_char t2 CHR ''.'' \<and> before_last CHR ''.'' t2 \<noteq> []
              then before_last CHR ''.'' t2 else t2)"

definition ExtractBaseCommand :: "string \<Rightarrow> string" where
  "ExtractBaseCommand command =
     (let cleaned = StripAllSafeEnvPrefixes (TrimSpace command)
      in if cleaned = [] then []
         else case Tokenize cleaned False of
                [] \<Rightarrow> []
              | base # more \<Rightarrow>
                  if base = ''sudo'' \<or> base = ''doas'' \<or> base = ''pkexec'' then
                    (case more of [] \<Rightarrow> [] | b # _ \<Rightarrow> NormalizeBaseToken b)
                  else NormalizeBaseToken base)"

section \<open>Properties of the tokens\<close>

lemma flush_token_nonempty: "t \<in> set (flush_token cur) \<Longrightarrow> t \<noteq> []"
  by (auto simp: flush_token_def split: if_splits)

text \<open>One round of the loop either goes on with a longer token or closes it.\<close>

lemma tokenize_from_step:
  "\<exists>cur' inS' inD' rest'. length rest' < length (ch # rest) \<and>
     (tokenize_from strip cur inS inD (ch # rest) = tokenize_from strip cur' inS' inD' rest' \<or>
      tokenize_from strip cur inS inD (ch # rest) = flush_token cur @ tokenize_from strip [] inS' inD' rest')"
proof (cases "ch = bslash \<and> rest \<noteq> []")
  case True
  then obtain n rest' where r: "rest = n # rest'" by (cases rest) auto
  show ?thesis
  proof (cases "escapable n")
    case True
    with \<open>ch = bslash \<and> rest \<noteq> []\<close> r show ?thesis
      by (intro exI [of _ "cur @ [n]"] exI [of _ inS] exI [of _ inD] exI [of _ rest']) simp
  next
    case False
    with \<open>ch = bslash \<and> rest \<noteq> []\<close> r show ?thesis
      by (intro exI [of _ "cur @ [ch]"] exI [of _ inS] exI [of _ inD] exI [of _ rest]) simp
  qed
next
  case False
  then have "tokenize_from strip cur inS inD (ch # rest) =
      (if ch = squote \<and> \<not> inD then tokenize_from strip (if strip then cur else cur @ [ch]) (\<not> inS) inD rest
       else if ch = dquote \<and> \<not> inS then tokenize_from strip (if strip then cur else cur @ [ch]) inS (\<not> inD) rest
       else if (ch = blank \<or> ch = tab) \<and> \<not> inS \<and> \<not> inD then flush_token cur @ tokenize_from strip [] inS inD rest
       else tokenize_from strip (cur @ [ch]) inS inD rest)"
    by (simp only: tokenize_from.simps if_False)
  moreover have "length rest < length (ch # rest)" by simp
  ultimately show ?thesis by metis
qed

lemma tokenize_from_nonempty: "t \<in> set (tokenize_from strip cur inS inD s) \<Longrightarrow> t \<noteq> []"
proof (induction "length s" arbitrary: cur inS inD s rule: less_induct)
  case less
  show ?case
  proof (cases s)
    case Nil
    with less.prems show ?thesis by (simp add: flush_token_nonempty)
  next
    case (Cons ch rest)
    with less.prems less.hyps tokenize_from_step [of ch rest strip cur inS inD] flush_token_nonempty
    show ?thesis by (metis Un_iff set_append)
  qed
qed

text \<open>Characters that are copied into the current token outside quotes.\<close>

definition plain_char :: "char \<Rightarrow> bool" where
  "plain_char c \<longleftrightarrow> c \<noteq> bslash \<and> c \<noteq> squote \<and> c \<noteq> dquote \<and> c \<noteq> blank \<and> c \<noteq> tab"

lemma tokenize_from_plain:
  "list_all plain_char w \<Longrightarrow>
   tokenize_from strip cur False False (w @ rest) = tokenize_from strip (cur @ w) False False rest"
  by (induction w arbitrary: cur) (auto simp: plain_char_def)

lemma tokenize_from_blank:
  "tokenize_from strip cur False False (blank # rest) = flush_token cur @ tokenize_from strip [] False False rest"
  by simp

lemma tokenize_join:
  "\<forall>w \<in> set ws. w \<noteq> [] \<and> list_all plain_char w \<Longrightarrow>
   tokenize_from strip [] False False (join_with [blank] ws) = ws"
proof (induction ws rule: induct_list012)
  case (2 w)
  then show ?case using tokenize_from_plain [of w strip "[]" "[]"] by (simp add: flush_token_def)
next
  case (3 v w ws)
  from 3 have v: "v \<noteq> []" "list_all plain_char v" by auto
  have "tokenize_from strip [] False False (join_with [blank] (v # w # ws)) =
      tokenize_from strip v False False (blank # join_with [blank] (w # ws))"
    using tokenize_from_plain [OF v(2), of strip "[]"] by simp
  also have "\<dots> = v # tokenize_from strip [] False False (join_with [blank] (w # ws))"
    using v(1) by (simp only: tokenize_from_blank) (simp add: flush_token_def)
  also have "\<dots> = v # w # ws" using 3 by auto
  finally show ?case .
qed (simp add: flush_token_def)

text \<open>Text without backslashes and single quotes is copied inside single quotes.\<close>

lemma tokenize_from_squoted:
  "squote \<notin> set w \<Longrightarrow> bslash \<notin> set w \<Longrightarrow>
   tokenize_from strip cur True False (w @ rest) = tokenize_from strip (cur @ w) True False rest"
  by (induction w arbitrary: cur) auto

section \<open>Properties of the segments\<close>

lemma flush_segment_length: "sum_list (map length (flush_segment cur)) \<le> length cur"
  using length_TrimSpace_le [of cur] by (simp add: flush_segment_def)

lemma flush_segment_count: "length (flush_segment cur) \<le> 1"
  by (simp add: flush_segment_def)

text \<open>Cutting the text at a separator: the accumulated lengths and the number of cuts together
  never exceed what was read.\<close>

lemma cut_bound:
  fixes xs ys :: "string list"
  assumes "sum_list (map length xs) \<le> a" "length xs \<le> 1"
    and "sum_list (map length ys) + (length ys - 1) \<le> b"
  shows "sum_list (map length (xs @ ys)) + (length (xs @ ys) - 1) \<le> Suc (a + b)"
  using assms by (cases ys) auto

text \<open>One round either keeps all characters in the current segment or closes the segment.\<close>

definition split_step :: "string \<Rightarrow> nat \<Rightarrow> string list \<Rightarrow> bool" where
  "split_step cur n result \<longleftrightarrow>
     (\<exists>cur' inS' inD' rest'. length rest' < n \<and>
        (result = split_from cur' inS' inD' rest' \<and> length cur' + length rest' = length cur + n \<or>
         result = flush_segment cur @ split_from [] inS' inD' rest'))"

lemma split_step_keep:
  "length rest' < n \<Longrightarrow> length cur' + length rest' = length cur + n \<Longrightarrow>
   split_step cur n (split_from cur' inS' inD' rest')"
  unfolding split_step_def by blast

lemma split_step_cut:
  "length rest' < n \<Longrightarrow> split_step cur n (flush_segment cur @ split_from [] inS' inD' rest')"
  unfolding split_step_def by blast

lemma split_step_if:
  "(c \<Longrightarrow> split_step cur n x) \<Longrightarrow> (\<not> c \<Longrightarrow> split_step cur n y) \<Longrightarrow> split_step cur n (if c then x else y)"
  by simp

lemmas split_step_intros = split_step_if split_step_keep split_step_cut

lemma split_from_step: "split_step cur (length (ch # rest)) (split_from cur inS inD (ch # rest))"
proof (cases rest)
  case Nil
  then have "\<not> (ch = bslash \<and> rest \<noteq> [])" "\<not> double_op ch rest" by (simp_all add: double_op_def)
  then show ?thesis
    by (simp only: split_from.simps if_False) (intro split_step_intros; simp)
next
  case (Cons n rest')
  show ?thesis unfolding Cons split_from.simps(2) [of cur inS inD ch "n # rest'"] list.case
    by (intro split_step_intros) simp_all
qed

lemma split_from_bound:
  "sum_list (map length (split_from cur inS inD s)) + (length (split_from cur inS inD s) - 1)
   \<le> length cur + length s"
proof (induction "length s" arbitrary: cur inS inD s rule: less_induct)
  case less
  show ?case
  proof (cases s)
    case Nil
    then show ?thesis using flush_segment_length [of cur] flush_segment_count [of cur] by simp
  next
    case (Cons ch rest)
    have "split_step cur (length s) (split_from cur inS inD s)"
      unfolding Cons by (rule split_from_step)
    then obtain cur' inS' inD' rest' where small: "length rest' < length s" and
      "split_from cur inS inD s = split_from cur' inS' inD' rest' \<and> length cur' + length rest' = length cur + length s \<or>
       split_from cur inS inD s = flush_segment cur @ split_from [] inS' inD' rest'" (is "?keep \<or> ?cut")
      unfolding split_step_def by blast
    from this(2) show ?thesis
    proof
      assume ?keep
      with less.hyps [OF small, of cur' inS' inD'] show ?thesis by simp
    next
      assume ?cut
      with cut_bound [OF flush_segment_length [of cur] flush_segment_count
          less.hyps [OF small, of "[]" inS' inD']] small show ?thesis by simp
    qed
  qed
qed

lemma SplitPipeline_nonempty [simp]: "SplitPipeline command \<noteq> []"
  by (simp add: SplitPipeline_def Let_def)

lemma SplitPipeline_segment_shorter:
  assumes "length (SplitPipeline command) > 1" and "seg \<in> set (SplitPipeline command)"
  shows "length seg < length command"
proof -
  let ?segs = "split_from [] False False command"
  from assms(1) have eq: "SplitPipeline command = ?segs"
    by (auto simp: SplitPipeline_def Let_def split: if_splits)
  with assms(2) have "length seg \<le> sum_list (map length ?segs)" by (simp add: member_length_le_sum)
  moreover have "sum_list (map length ?segs) + (length ?segs - 1) \<le> length command"
    using split_from_bound [of "[]" False False command] by simp
  moreover from assms(1) eq have "length ?segs > 1" by simp
  ultimately show ?thesis by linarith
qed

text \<open>Inside single quotes nothing is cut.\<close>

lemma split_from_squoted:
  "squote \<notin> set w \<Longrightarrow> bslash \<notin> set w \<Longrightarrow>
   split_from cur True False (w @ rest) = split_from (cur @ w) True False rest"
  by (induction w arbitrary: cur) auto

text \<open>Outside quotes, text without quotes, backslashes and operators is kept.\<close>

definition word_text :: "char \<Rightarrow> bool" where
  "word_text c \<longleftrightarrow> c \<noteq> bslash \<and> c \<noteq> squote \<and> c \<noteq> dquote \<and> c \<noteq> CHR ''|'' \<and> c \<noteq> CHR ''&'' \<and> c \<noteq> CHR '';''"

lemma split_from_word_text:
  "list_all word_text w \<Longrightarrow> split_from cur False False (w @ rest) = split_from (cur @ w) False False rest"
proof (induction w arbitrary: cur)
  case (Cons c w)
  then have "\<not> double_op c (w @ rest)" by (auto simp: double_op_def word_text_def split: list.splits)
  with Cons show ?case by (simp add: word_text_def)
qed simp

text \<open>Every segment is the trimmed, non-blank content between two operators.\<close>

lemma flush_segment_trimmed: "seg \<in> set (flush_segment cur) \<Longrightarrow> seg \<noteq> [] \<and> (\<exists>t. seg = TrimSpace t)"
  by (auto simp: flush_segment_def split: if_splits)

lemma split_from_trimmed:
  "seg \<in> set (split_from cur inS inD s) \<Longrightarrow> seg \<noteq> [] \<and> (\<exists>t. seg = TrimSpace t)"
proof (induction "length s" arbitrary: cur inS inD s rule: less_induct)
  case less
  show ?case
  proof (cases s)
    case Nil
    with less.prems show ?thesis using flush_segment_trimmed by simp
  next
    case (Cons ch rest)
    have "split_step cur (length s) (split_from cur inS inD s)"
      unfolding Cons by (rule split_from_step)
    with less show ?thesis unfolding split_step_def
      by (metis Un_iff flush_segment_trimmed set_append)
  qed
qed

section \<open>Properties of the environment stripping\<close>

lemma StripSafeEnvVars_suffix: "\<exists>pre. command = pre @ StripSafeEnvVars command"
proof -
  obtain pre where pre: "command = pre @ TrimLeft command" using TrimLeft_suffix by blast
  obtain token rest where tr: "splitFirstShellToken (TrimLeft command) = (token, rest)"
    by (cases "splitFirstShellToken (TrimLeft command)")
  then have app: "token @ rest = TrimLeft command" using splitFirstShellToken_append by fastforce
  obtain pre' where pre': "rest = pre' @ TrimLeft rest" using TrimLeft_suffix by blast
  have "StripSafeEnvVars command = [] \<and> TrimLeft command = [] \<or>
      StripSafeEnvVars command = TrimLeft command \<or> StripSafeEnvVars command = TrimLeft rest"
    using tr app by (auto simp: StripSafeEnvVars_def Let_def)
  moreover have "command = (pre @ token @ pre') @ TrimLeft rest" using pre app pre' by (metis append.assoc)
  ultimately show ?thesis using pre by (metis append_Nil2)
qed

lemma StripAll_fixpoint: "StripSafeEnvVars (StripAllSafeEnvPrefixes command) = StripAllSafeEnvPrefixes command"
proof (induction command rule: StripAllSafeEnvPrefixes.induct)
  case (1 current)
  then show ?case
    by (cases "StripSafeEnvVars current = current") (simp_all add: StripAllSafeEnvPrefixes.simps [of current] Let_def)
qed

lemma StripAll_suffix: "\<exists>pre. command = pre @ StripAllSafeEnvPrefixes command"
proof (induction command rule: StripAllSafeEnvPrefixes.induct)
  case (1 current)
  show ?case
  proof (cases "StripSafeEnvVars current = current")
    case True
    then show ?thesis by (simp add: StripAllSafeEnvPrefixes.simps [of current] Let_def)
  next
    case False
    with 1 obtain pre where "StripSafeEnvVars current = pre @ StripAllSafeEnvPrefixes (StripSafeEnvVars current)"
      by auto
    moreover obtain pre' where "current = pre' @ StripSafeEnvVars current" using StripSafeEnvVars_suffix by blast
    ultimately have "current = (pre' @ pre) @ StripAllSafeEnvPrefixes (StripSafeEnvVars current)"
      by (metis append.assoc)
    with False show ?thesis by (metis StripAllSafeEnvPrefixes.simps)
  qed
qed

section \<open>Theorems\<close>

text \<open>tokenizing non-empty words without blanks, tabs, quotes and backslashes, joined by single
  blanks, gives back exactly these words, whether or not quotes are stripped.\<close>

theorem Tokenize_roundtrip:
  assumes "\<forall>w \<in> set ws. w \<noteq> [] \<and> list_all plain_char w"
  shows "Tokenize (join_with [blank] ws) stripQuotes = ws"
  unfolding Tokenize_def using assms by (rule tokenize_join)

theorem Tokenize_roundtrip_witness: "Tokenize ''git log -1'' False = [''git'', ''log'', ''-1'']"
proof -
  have "\<forall>w \<in> set [''git'', ''log'', ''-1'']. w \<noteq> [] \<and> list_all plain_char w"
    by (simp add: plain_char_def)
  from Tokenize_roundtrip [OF this, of False] show ?thesis by simp
qed

text \<open>a command is cut into at least one segment; when it is cut into several, each is the
  trimmed and non-blank text between two operators and strictly shorter than the command, so that a
  recursion over segments ends.\<close>

theorem SplitPipeline_segments:
  "SplitPipeline command \<noteq> [] \<and>
   (length (SplitPipeline command) > 1 \<longrightarrow>
     (\<forall>seg \<in> set (SplitPipeline command).
        seg \<noteq> [] \<and> (\<exists>t. seg = TrimSpace t) \<and> length seg < length command))"
proof (intro conjI impI ballI)
  fix seg
  assume multi: "length (SplitPipeline command) > 1" and seg: "seg \<in> set (SplitPipeline command)"
  then have "seg \<in> set (split_from [] False False command)"
    by (auto simp: SplitPipeline_def Let_def split: if_splits)
  with split_from_trimmed show "seg \<noteq> []" "\<exists>t. seg = TrimSpace t" by blast+
  from multi seg show "length seg < length command" by (rule SplitPipeline_segment_shorter)
qed simp

theorem SplitPipeline_segments_witness:
  "SplitPipeline ''ls|wc'' = [''ls'', ''wc''] \<and> length ''wc'' < length ''ls|wc''"
proof -
  have eq: "SplitPipeline ''ls|wc'' = [''ls'', ''wc'']" by code_simp
  then show ?thesis using SplitPipeline_segments [of "''ls|wc''"] by simp
qed

text \<open>operators inside single quotes never cut a command: plain words followed by a
  single-quoted text form one segment, whatever operators the quoted text holds.\<close>

theorem SplitPipeline_single_quoted:
  assumes "list_all word_text w" "squote \<notin> set q" "bslash \<notin> set q"
    and "w \<noteq> []" "visible (hd w)"
  shows "SplitPipeline (w @ squote # q @ [squote]) = [w @ squote # q @ [squote]]"
proof -
  let ?c = "w @ squote # q @ [squote]"
  have "split_from [] False False ?c = split_from w False False (squote # q @ [squote])"
    using split_from_word_text [OF assms(1), of "[]"] by simp
  also have "\<dots> = split_from (w @ [squote]) True False (q @ [squote])" by simp
  also have "\<dots> = split_from ((w @ [squote]) @ q) True False [squote]"
    by (rule split_from_squoted [OF assms(2,3)])
  also have "\<dots> = flush_segment ?c" by simp
  also have "\<dots> = [?c]"
  proof -
    have "TrimSpace ?c = ?c"
      using assms(4,5) by (intro TrimSpace_visible) (auto simp: visible_def ascii_space_def)
    then show ?thesis by (simp add: flush_segment_def)
  qed
  finally show ?thesis by (simp add: SplitPipeline_def)
qed

theorem SplitPipeline_single_quoted_witness:
  "SplitPipeline (''echo '' @ squote # ''a;b && c'' @ [squote]) = [''echo '' @ squote # ''a;b && c'' @ [squote]]"
  by (rule SplitPipeline_single_quoted) (simp_all add: word_text_def visible_def ascii_space_def)

text \<open>the loop of \<open>StripAllSafeEnvPrefixes\<close> ends with a text from which no further safe
  prefix can be stripped; it only removes a prefix of the command, and running it again changes
  nothing.\<close>

theorem StripAllSafeEnvPrefixes_fixpoint:
  "StripSafeEnvVars (StripAllSafeEnvPrefixes command) = StripAllSafeEnvPrefixes command \<and>
   (\<exists>pre. command = pre @ StripAllSafeEnvPrefixes command) \<and>
   StripAllSafeEnvPrefixes (StripAllSafeEnvPrefixes command) = StripAllSafeEnvPrefixes command"
proof (intro conjI)
  show fix1: "StripSafeEnvVars (StripAllSafeEnvPrefixes command) = StripAllSafeEnvPrefixes command"
    by (rule StripAll_fixpoint)
  show "\<exists>pre. command = pre @ StripAllSafeEnvPrefixes command" by (rule StripAll_suffix)
  show "StripAllSafeEnvPrefixes (StripAllSafeEnvPrefixes command) = StripAllSafeEnvPrefixes command"
    by (subst StripAllSafeEnvPrefixes.simps) (simp add: fix1)
qed

end
