(* ===== verification/Bash_Security.thy ===== *)
theory Bash_Security
  imports Bash_Tokenizer
begin

text \<open>
  \<open>tools/bash/security.go\<close>: separating quoted from unquoted text, the twenty-three security
  checks of a command, their classification into blocking and warning findings, and the coarse
  semantic check. Check identifiers are the source's integer constants as a datatype.
\<close>

section \<open>Quoted content\<close>

record QuotedExtraction =
  WithDoubleQuotes :: string
  FullyUnquoted :: string
  UnquotedKeepQuoteChars :: string

text \<open>Where the scan of \<open>ExtractQuotedContent\<close> stands: outside quotes, in the loop that skips a
  single-quoted string, or in the loop that copies a double-quoted one.\<close>

datatype quote_mode = Outside | InSingle | InDouble

definition no_content :: QuotedExtraction where
  "no_content = \<lparr>WithDoubleQuotes = [], FullyUnquoted = [], UnquotedKeepQuoteChars = []\<rparr>"

text \<open>Writing to the builders before the rest of the scan: \<open>q\<close> to the two that keep double-quoted
  text, \<open>f\<close> to the fully unquoted one.\<close>

definition emit :: "string \<Rightarrow> string \<Rightarrow> QuotedExtraction \<Rightarrow> QuotedExtraction" where
  "emit q f e =
     \<lparr>WithDoubleQuotes = q @ WithDoubleQuotes e, FullyUnquoted = f @ FullyUnquoted e,
      UnquotedKeepQuoteChars = q @ UnquotedKeepQuoteChars e\<rparr>"

fun extract_from :: "quote_mode \<Rightarrow> string \<Rightarrow> QuotedExtraction" where
  "extract_from mode [] = no_content"
| "extract_from Outside (ch # rest) =
     (if ch = squote then extract_from InSingle rest
      else if ch = dquote then emit [ch] [] (extract_from InDouble rest)
      else case rest of
             n # rest' \<Rightarrow>
               if ch = bslash then emit [ch, n] [n] (extract_from Outside rest')
               else emit [ch] [ch] (extract_from Outside rest)
           | [] \<Rightarrow> emit [ch] [ch] (extract_from Outside rest))"
| "extract_from InSingle (ch # rest) =
     (if ch = squote then extract_from Outside rest else extract_from InSingle rest)"
| "extract_from InDouble (ch # rest) =
     (if ch = dquote then emit [ch] [] (extract_from Outside rest)
      else case rest of
             n # rest' \<Rightarrow>
               if ch = bslash then emit [ch, n] [] (extract_from InDouble rest')
               else emit [ch] [] (extract_from InDouble rest)
           | [] \<Rightarrow> emit [ch] [] (extract_from InDouble rest))"

definition ExtractQuotedContent :: "string \<Rightarrow> QuotedExtraction" where
  "ExtractQuotedContent command = extract_from Outside command"

section \<open>Check identifiers and tables\<close>

datatype CheckID =
    CheckIncompleteCommands
  | CheckJQSystemFunction
  | CheckJQFileArguments
  | CheckObfuscatedFlags
  | CheckShellMetacharacters
  | CheckDangerousVariables
  | CheckNewlines
  | CheckDangerousPatternsCommandSubstitution
  | CheckDangerousPatternsInputRedirection
  | CheckDangerousPatternsOutputRedirection
  | CheckIFSInjection
  | CheckGitCommitSubstitution
  | CheckProcEnvironAccess
  | CheckMalformedTokenInjection
  | CheckBackslashEscapedWhitespace
  | CheckBraceExpansion
  | CheckControlCharacters
  | CheckUnicodeWhitespace
  | CheckMidWordHash
  | CheckZshDangerousCommands
  | CheckBackslashEscapedOperators
  | CheckCommentQuoteDesync
  | CheckQuotedNewline

record SecurityFinding =
  ID :: CheckID
  Description :: string

record SecurityCheckResult =
  Passed :: bool
  Findings :: "SecurityFinding list"
  CheckIDs :: "CheckID list"

text \<open>\<open>(?:^|[\s;&|])\<close>: the start of a word.\<close>

definition word_start :: regex where
  "word_start = RAlt RBegin (RChr (\<lambda>d. re_space d \<or> d = CHR '';'' \<or> d = CHR ''&'' \<or> d = CHR ''|''))"

definition commandSubstitutionPatterns :: "(regex \<times> string) list" where
  "commandSubstitutionPatterns =
    [ (lit ''<('', ''process substitution <()''),
      (lit ''>('', ''process substitution >()''),
      (lit ''=('', ''Zsh process substitution =()''),
      (seqs [word_start, lit ''='', RChr (\<lambda>d. alpha d \<or> d = CHR ''_'')], ''Zsh equals expansion (=cmd)''),
      (lit ''$('', ''$() command substitution''),
      (lit ''${'', ''${} parameter substitution''),
      (lit ''$['', ''$[] legacy arithmetic expansion''),
      (lit ''~['', ''Zsh-style parameter expansion''),
      (lit ''(e:'', ''Zsh-style glob qualifiers''),
      (lit ''(+'', ''Zsh glob qualifier with command execution''),
      (seqs [lit ''}'', sp0, lit ''always'', sp0, lit ''{''], ''Zsh always block (try/always construct)''),
      (lit ''<#'', ''PowerShell comment syntax (defence in depth)'') ]"

definition zshDangerousCommands :: "string list" where
  "zshDangerousCommands =
    [''zmodload'', ''emulate'', ''sysopen'', ''sysread'', ''syswrite'', ''sysseek'', ''zf_rm'', ''zf_mv'',
     ''zf_ln'', ''zf_chmod'', ''zf_chown'', ''zf_mkdir'', ''zf_rmdir'', ''zf_symlink'']"

definition obfuscatedFlagRE :: regex where
  "obfuscatedFlagRE = seqs [word_start, lit ''-'', RStar (RChr alpha), cls [CHR 0x60, CHR ''$'']]"

definition dangerousVariablesRE :: regex where
  "dangerousVariablesRE =
     seqs [RAlt RBegin sp,
           alts [ilit ''TF'', ilit ''VAR'', ilit ''CMD'', ilit ''EXEC'', ilit ''EVAL'', ilit ''PAYLOAD'',
                 ilit ''SHELL'', ilit ''BASH'', ilit ''EXPLOIT''],
           sp0, lit ''='']"

definition ifsInjectionRE :: regex where
  "ifsInjectionRE = seqs [lit ''IFS'', sp0, lit ''='']"

definition gitCommitSubRE :: regex where
  "gitCommitSubRE = seqs [ilit ''git'', sp1, ilit ''commit'', dots, lit ''$('']"

definition procEnvironRE :: regex where
  "procEnvironRE = seqs [lit ''/proc/'', RAlt (lit ''self'') (plus dig), lit ''/environ'']"

definition malformedTokenRE :: regex where
  "malformedTokenRE =
     at_least 40 (RChr (\<lambda>d. alpha d \<or> digit d \<or> d = CHR ''+'' \<or> d = CHR ''/'' \<or> d = CHR ''=''))"

definition backslashWhitespaceRE :: regex where
  "backslashWhitespaceRE = seqs [lit [bslash], cls [blank, tab]]"

definition braceExpansionRE :: regex where
  "braceExpansionRE =
     (let item = plus (RChr (\<lambda>d. alpha d \<or> digit d \<or> d = CHR ''_'' \<or> d = CHR ''.'' \<or> d = CHR '',''))
      in seqs [lit ''{'', item, lit ''..'', item, lit ''}''])"

definition controlCharsRE :: regex where
  "controlCharsRE =
     RChr (\<lambda>d. range CHR 0x00 CHR 0x08 d \<or> d = CHR 0x0B \<or> d = CHR 0x0C \<or> range CHR 0x0E CHR 0x1F d \<or> d = CHR 0x7F)"

text \<open>The UTF-8 encodings of the runes in the source's character class.\<close>

definition unicodeWhitespaceRE :: regex where
  "unicodeWhitespaceRE =
     alts (map lit
      [[CHR 0xC2, CHR 0xA0], [CHR 0xE1, CHR 0x9A, CHR 0x80], [CHR 0xE1, CHR 0xA0, CHR 0x8E],
       [CHR 0xE2, CHR 0x80, CHR 0x80], [CHR 0xE2, CHR 0x80, CHR 0x81], [CHR 0xE2, CHR 0x80, CHR 0x82],
       [CHR 0xE2, CHR 0x80, CHR 0x83], [CHR 0xE2, CHR 0x80, CHR 0x84], [CHR 0xE2, CHR 0x80, CHR 0x85],
       [CHR 0xE2, CHR 0x80, CHR 0x86], [CHR 0xE2, CHR 0x80, CHR 0x87], [CHR 0xE2, CHR 0x80, CHR 0x88],
       [CHR 0xE2, CHR 0x80, CHR 0x89], [CHR 0xE2, CHR 0x80, CHR 0x8A], [CHR 0xE2, CHR 0x80, CHR 0xA8],
       [CHR 0xE2, CHR 0x80, CHR 0xA9], [CHR 0xE2, CHR 0x80, CHR 0xAF], [CHR 0xE2, CHR 0x81, CHR 0x9F],
       [CHR 0xE3, CHR 0x80, CHR 0x80], [CHR 0xEF, CHR 0xBB, CHR 0xBF]])"

definition midWordHashRE :: regex where
  "midWordHashRE =
     seqs [RChr (\<lambda>d. alpha d \<or> d = CHR ''_''), lit ''#'', RChr (\<lambda>d. alpha d \<or> d = CHR ''_'')]"

definition backslashOperatorRE :: regex where
  "backslashOperatorRE =
     seqs [lit [bslash], alts [lit ''&&'', lit ''||'', lit '';'', lit ''|'', lit ''&'', lit ''>'', lit ''<'']]"

definition jqSystemRE :: regex where
  "jqSystemRE = seqs [RWordB, lit ''jq'', RWordB, dots, lit ''system'', sp0, lit ''('']"

definition jqFileArgRE :: regex where
  "jqFileArgRE =
     seqs [RWordB, lit ''jq'', RWordB, dots, alts [lit ''--arg'', lit ''--argjson'', lit ''--rawfile'']]"

definition dangerousInputRE :: regex where
  "dangerousInputRE = seqs [lit ''<'', sp0, lit ''/dev/'', alts [lit ''tcp'', lit ''udp'']]"

definition dangerousOutputRE :: regex where
  "dangerousOutputRE =
     seqs [lit ''>'', sp0, RAlt (seqs [lit ''/dev/'', cls ''hs'', lit ''d'']) (lit ''/proc/'')]"

definition incompletePatterns :: "(regex \<times> string) list" where
  "incompletePatterns =
    [ (seqs [lit ''|'', sp0, REnd], ''Trailing pipe''),
      (seqs [lit ''&&'', sp0, REnd], ''Trailing &&''),
      (seqs [lit ''||'', sp0, REnd], ''Trailing ||''),
      (seqs [lit '';'', sp0, REnd], ''Trailing semicolon''),
      (seqs [lit [bslash], sp0, REnd], ''Trailing backslash (line continuation)'') ]"

definition blockingCheckIDs :: "CheckID list" where
  "blockingCheckIDs =
    [CheckDangerousPatternsCommandSubstitution, CheckZshDangerousCommands, CheckProcEnvironAccess,
     CheckControlCharacters, CheckNewlines, CheckIFSInjection]"

definition warningCheckIDs :: "CheckID list" where
  "warningCheckIDs =
    [CheckObfuscatedFlags, CheckShellMetacharacters, CheckDangerousVariables, CheckMalformedTokenInjection,
     CheckBackslashEscapedWhitespace, CheckBraceExpansion, CheckUnicodeWhitespace, CheckMidWordHash,
     CheckBackslashEscapedOperators, CheckCommentQuoteDesync, CheckQuotedNewline,
     CheckDangerousPatternsInputRedirection, CheckDangerousPatternsOutputRedirection,
     CheckGitCommitSubstitution, CheckIncompleteCommands, CheckJQSystemFunction, CheckJQFileArguments]"

section \<open>The checks\<close>

definition finding :: "CheckID \<Rightarrow> string \<Rightarrow> SecurityFinding" where
  "finding i d = \<lparr>ID = i, Description = d\<rparr>"

definition checkCommandSubstitution :: "string \<Rightarrow> SecurityFinding list" where
  "checkCommandSubstitution command =
     (let target = WithDoubleQuotes (ExtractQuotedContent command)
      in concat (map (\<lambda>(re, description).
           let m = FindString re target
           in if m = [] then []
              else [finding CheckDangerousPatternsCommandSubstitution
                     (description @ '': matched '' @ [squote] @ m @ [squote])])
           commandSubstitutionPatterns))"

definition checkZshDangerous :: "string \<Rightarrow> SecurityFinding list" where
  "checkZshDangerous command =
     (let target = FullyUnquoted (ExtractQuotedContent command)
      in concat (map (\<lambda>token.
           let base = after_last CHR ''/'' token
           in if List.member zshDangerousCommands base
              then [finding CheckZshDangerousCommands (''Zsh dangerous command: '' @ base)] else [])
           (Fields target)))"

definition checkShellMetacharacters :: "string \<Rightarrow> SecurityFinding list" where
  "checkShellMetacharacters command =
     (let target = FullyUnquoted (ExtractQuotedContent command)
      in if 2 \<le> count_list target CHR 0x60
         then [finding CheckShellMetacharacters ''Backtick command substitution detected''] else [])"

definition checkNewlines :: "string \<Rightarrow> SecurityFinding list" where
  "checkNewlines command =
     (let target = FullyUnquoted (ExtractQuotedContent command)
      in if list_ex (\<lambda>c. c = CHR 0x0A \<or> c = CHR 0x0D) target
         then [finding CheckNewlines ''Unquoted newline/CR in command''] else [])"

text \<open>The inner loop of \<open>checkCommentQuoteDesync\<close>: a \<open>#\<close> before the next single quote.\<close>

definition hash_before_squote :: "string \<Rightarrow> bool" where
  "hash_before_squote s = List.member (takeWhile (\<lambda>c. c \<noteq> squote) s) CHR ''#''"

fun desync_from :: "bool \<Rightarrow> bool \<Rightarrow> string \<Rightarrow> bool" where
  "desync_from inS inD [] = False"
| "desync_from inS inD (ch # rest) =
     (if ch = squote then
        (if \<not> inD then (if hash_before_squote rest then True else desync_from (\<not> inS) inD rest)
         else desync_from inS inD rest)
      else if ch = dquote then desync_from inS (if inS then inD else \<not> inD) rest
      else desync_from inS inD rest)"

definition checkCommentQuoteDesync :: "string \<Rightarrow> SecurityFinding list" where
  "checkCommentQuoteDesync command =
     (if \<not> list_ex (\<lambda>c. c = squote \<or> c = dquote) command then []
      else if desync_from False False command
      then [finding CheckCommentQuoteDesync ''Comment-quote desync: # inside single quotes''] else [])"

fun quoted_newline_from :: "bool \<Rightarrow> bool \<Rightarrow> string \<Rightarrow> bool" where
  "quoted_newline_from inS inD [] = False"
| "quoted_newline_from inS inD (ch # rest) =
     (if ch = squote \<and> \<not> inD then quoted_newline_from (\<not> inS) inD rest
      else if ch = dquote \<and> \<not> inS then quoted_newline_from inS (\<not> inD) rest
      else if (ch = CHR 0x0A \<or> ch = CHR 0x0D) \<and> (inS \<or> inD) then True
      else quoted_newline_from inS inD rest)"

definition checkQuotedNewline :: "string \<Rightarrow> SecurityFinding list" where
  "checkQuotedNewline command =
     (if quoted_newline_from False False command
      then [finding CheckQuotedNewline ''Newline inside quoted string''] else [])"

definition checkIncompleteCommands :: "string \<Rightarrow> SecurityFinding list" where
  "checkIncompleteCommands command =
     (let trimmed = TrimSpace command
      in concat (map (\<lambda>(re, description).
           if MatchString re trimmed then [finding CheckIncompleteCommands description] else [])
           incompletePatterns))"

definition singleREFinding :: "string \<Rightarrow> regex \<Rightarrow> CheckID \<Rightarrow> string \<Rightarrow> bool \<Rightarrow> SecurityFinding list" where
  "singleREFinding command re i desc fullyUnquoted =
     (let target = (if fullyUnquoted then FullyUnquoted (ExtractQuotedContent command)
                    else WithDoubleQuotes (ExtractQuotedContent command))
      in if MatchString re target then [finding i desc] else [])"

definition singleRawFinding :: "string \<Rightarrow> regex \<Rightarrow> CheckID \<Rightarrow> string \<Rightarrow> SecurityFinding list" where
  "singleRawFinding command re i desc = (if MatchString re command then [finding i desc] else [])"

text \<open>The twenty-three calls of \<open>RunAllSecurityChecks\<close>, in order.\<close>

definition all_findings :: "string \<Rightarrow> SecurityFinding list list" where
  "all_findings command =
    [ checkIncompleteCommands command,
      singleREFinding command jqSystemRE CheckJQSystemFunction ''jq system() function call detected'' True,
      singleREFinding command jqFileArgRE CheckJQFileArguments ''jq file argument flags detected'' True,
      singleREFinding command obfuscatedFlagRE CheckObfuscatedFlags
        ''Obfuscated flag detected: command substitution in flag'' True,
      checkShellMetacharacters command,
      singleREFinding command dangerousVariablesRE CheckDangerousVariables
        ''Suspicious variable assignment detected'' True,
      checkNewlines command,
      checkCommandSubstitution command,
      singleREFinding command dangerousInputRE CheckDangerousPatternsInputRedirection
        ''Dangerous input redirection to /dev/tcp or /dev/udp'' True,
      singleREFinding command dangerousOutputRE CheckDangerousPatternsOutputRedirection
        ''Dangerous output redirection to device/proc files'' True,
      singleREFinding command ifsInjectionRE CheckIFSInjection ''IFS variable manipulation detected'' True,
      singleREFinding command gitCommitSubRE CheckGitCommitSubstitution ''Command substitution in git commit'' True,
      singleRawFinding command procEnvironRE CheckProcEnvironAccess ''/proc/self/environ access detected'',
      singleREFinding command malformedTokenRE CheckMalformedTokenInjection ''Base64-encoded blob detected'' True,
      singleREFinding command backslashWhitespaceRE CheckBackslashEscapedWhitespace
        ''Backslash-escaped whitespace detected'' False,
      singleREFinding command braceExpansionRE CheckBraceExpansion ''Brace expansion detected'' True,
      singleRawFinding command controlCharsRE CheckControlCharacters ''Control characters detected'',
      singleRawFinding command unicodeWhitespaceRE CheckUnicodeWhitespace
        ''Unicode whitespace homoglyph detected'',
      singleREFinding command midWordHashRE CheckMidWordHash
        ''Mid-word # detected (possible comment injection)'' True,
      checkZshDangerous command,
      singleREFinding command backslashOperatorRE CheckBackslashEscapedOperators
        ''Backslash-escaped shell operator detected'' False,
      checkCommentQuoteDesync command,
      checkQuotedNewline command ]"

definition RunAllSecurityChecks :: "string \<Rightarrow> SecurityCheckResult" where
  "RunAllSecurityChecks command =
     (let fs = concat (all_findings command)
      in \<lparr>Passed = (fs = []), Findings = fs, CheckIDs = map ID fs\<rparr>)"

definition IsBlocking :: "SecurityCheckResult \<Rightarrow> bool" where
  "IsBlocking result = list_ex (List.member blockingCheckIDs) (CheckIDs result)"

definition IsWarningOnly :: "SecurityCheckResult \<Rightarrow> bool" where
  "IsWarningOnly result =
     (if Findings result = [] then False
      else \<not> list_ex (List.member blockingCheckIDs) (CheckIDs result))"

datatype Semantic = SemSafe | SemDangerous | SemTooComplex

definition semantic_indicators :: "regex list" where
  "semantic_indicators =
    [ seqs [lit [CHR 0x60], plus (RChr (\<lambda>d. d \<noteq> CHR 0x60)), lit [CHR 0x60]],
      seqs [lit ''$('', plus (RChr (\<lambda>d. d \<noteq> CHR '')'')), lit '')''],
      seqs [lit ''|'', dots, lit ''|''],
      seqs [lit ''&&'', dots, lit ''&&''],
      seqs [lit ''||'', dots, lit ''||''] ]"

definition CheckSemantics :: "string \<Rightarrow> Semantic" where
  "CheckSemantics command =
     (let target = FullyUnquoted (ExtractQuotedContent command)
      in if list_ex (\<lambda>(re, _). MatchString re target) (take 3 commandSubstitutionPatterns) then SemDangerous
         else let score = length (filter (\<lambda>re. MatchString re target) semantic_indicators)
              in if 3 \<le> score then SemTooComplex
                 else if 1 \<le> score then SemDangerous
                 else SemSafe)"

definition joinFindingDescriptions :: "SecurityFinding list \<Rightarrow> nat \<Rightarrow> string" where
  "joinFindingDescriptions findings limit = join_with ''; '' (map Description (take limit findings))"

definition IsASCII :: "string \<Rightarrow> bool" where
  "IsASCII s = list_all ascii_byte s"

section \<open>Facts on the extraction\<close>

declare extract_from.simps [simp del]

lemma extract_from_Nil [simp]: "extract_from m [] = no_content"
  by (cases m) (simp_all add: extract_from.simps)

lemma emit_simps [simp]:
  "WithDoubleQuotes (emit q f e) = q @ WithDoubleQuotes e"
  "FullyUnquoted (emit q f e) = f @ FullyUnquoted e"
  "UnquotedKeepQuoteChars (emit q f e) = q @ UnquotedKeepQuoteChars e"
  by (simp_all add: emit_def)

lemma no_content_simps [simp]:
  "WithDoubleQuotes no_content = []" "FullyUnquoted no_content = []" "UnquotedKeepQuoteChars no_content = []"
  by (simp_all add: no_content_def)

lemma emit_emit: "emit q f (emit q' f' e) = emit (q @ q') (f @ f') e"
  by (simp add: emit_def)

lemma extract_keep: "UnquotedKeepQuoteChars (extract_from m s) = WithDoubleQuotes (extract_from m s)"
proof (induction m s rule: extract_from.induct)
  case (2 ch rest)
  then show ?case by (simp add: extract_from.simps(2) [of ch rest] split: list.splits)
next
  case (3 ch rest)
  then show ?case by (simp add: extract_from.simps(3) [of ch rest])
next
  case (4 ch rest)
  then show ?case by (simp add: extract_from.simps(4) [of ch rest] split: list.splits)
qed simp

text \<open>One equation per kind of character.\<close>

lemma extract_other:
  "c \<noteq> squote \<Longrightarrow> c \<noteq> dquote \<Longrightarrow> c \<noteq> bslash \<or> s = [] \<Longrightarrow>
   extract_from Outside (c # s) = emit [c] [c] (extract_from Outside s)"
  "c \<noteq> dquote \<Longrightarrow> c \<noteq> bslash \<or> s = [] \<Longrightarrow>
   extract_from InDouble (c # s) = emit [c] [] (extract_from InDouble s)"
  by (subst extract_from.simps, simp split: list.split)+

lemma extract_escape:
  "extract_from Outside (bslash # n # s) = emit [bslash, n] [n] (extract_from Outside s)"
  "extract_from InDouble (bslash # n # s) = emit [bslash, n] [] (extract_from InDouble s)"
  by (simp_all add: extract_from.simps(2,4) [of bslash "n # s"])

lemma extract_quote:
  "extract_from Outside (squote # s) = extract_from InSingle s"
  "extract_from Outside (dquote # s) = emit [dquote] [] (extract_from InDouble s)"
  "extract_from InDouble (dquote # s) = emit [dquote] [] (extract_from Outside s)"
  by (simp_all add: extract_from.simps(2) [of squote s] extract_from.simps(2,4) [of dquote s])

definition thinned :: "QuotedExtraction \<Rightarrow> string \<Rightarrow> bool" where
  "thinned e s \<longleftrightarrow> subseq (WithDoubleQuotes e) s \<and> subseq (FullyUnquoted e) (WithDoubleQuotes e)"

lemma thinned_emit: "thinned e s \<Longrightarrow> subseq f q \<Longrightarrow> thinned (emit q f e) (q @ s)"
  by (simp add: thinned_def list_emb_append_mono)

lemma thinned_skip: "thinned e s \<Longrightarrow> thinned e (c # s)"
  by (simp add: thinned_def list_emb_Cons)

lemma extract_thinned: "thinned (extract_from m s) s"
proof (induction m s rule: extract_from.induct)
  case (1 m)
  then show ?case by (simp add: thinned_def)
next
  case (2 ch rest)
  consider "ch = squote" | "ch = dquote" | n rest' where "ch = bslash" "rest = n # rest'"
    | "ch \<noteq> squote" "ch \<noteq> dquote" "ch \<noteq> bslash \<or> rest = []" by (metis list.exhaust)
  then show ?case
  proof cases
    case 1
    with "2.IH" show ?thesis by (simp add: extract_quote thinned_skip)
  next
    case 2
    with "2.IH" thinned_emit [of "extract_from InDouble rest" rest "[]" "[dquote]"]
    show ?thesis by (simp add: extract_quote)
  next
    case 3
    with "2.IH" thinned_emit [of "extract_from Outside rest'" rest' "[n]" "[bslash, n]"]
    show ?thesis by (simp add: extract_escape)
  next
    case 4
    then have "thinned (extract_from Outside rest) rest" using "2.IH" by (cases rest) (auto simp: thinned_def)
    with 4 thinned_emit [of "extract_from Outside rest" rest "[ch]" "[ch]"]
    show ?thesis by (simp add: extract_other)
  qed
next
  case (3 ch rest)
  then show ?case by (simp add: extract_from.simps(3) [of ch rest] thinned_skip)
next
  case (4 ch rest)
  consider "ch = dquote" | n rest' where "ch = bslash" "rest = n # rest'"
    | "ch \<noteq> dquote" "ch \<noteq> bslash \<or> rest = []" by (metis list.exhaust)
  then show ?case
  proof cases
    case 1
    with "4.IH" thinned_emit [of "extract_from Outside rest" rest "[]" "[dquote]"]
    show ?thesis by (simp add: extract_quote)
  next
    case 2
    with "4.IH" thinned_emit [of "extract_from InDouble rest'" rest' "[]" "[bslash, n]"]
    show ?thesis by (simp add: extract_escape)
  next
    case 3
    then have "thinned (extract_from InDouble rest) rest" using "4.IH" by (cases rest) (auto simp: thinned_def)
    with 3 thinned_emit [of "extract_from InDouble rest" rest "[]" "[ch]"]
    show ?thesis by (simp add: extract_other)
  qed
qed

text \<open>A character that neither quotes nor escapes.\<close>

definition unquoted_char :: "char \<Rightarrow> bool" where
  "unquoted_char c \<longleftrightarrow> c \<noteq> squote \<and> c \<noteq> dquote \<and> c \<noteq> bslash"

lemma extract_unquoted:
  "list_all unquoted_char w \<Longrightarrow> extract_from Outside (w @ rest) = emit w w (extract_from Outside rest)"
proof (induction w)
  case Nil
  then show ?case by (simp add: emit_def)
next
  case (Cons c w)
  then have "extract_from Outside (c # w @ rest) = emit [c] [c] (extract_from Outside (w @ rest))"
    by (intro extract_other) (auto simp: unquoted_char_def)
  with Cons show ?case by (simp add: emit_emit)
qed

lemma extract_in_single: "squote \<notin> set q \<Longrightarrow> extract_from InSingle (q @ squote # rest) = extract_from Outside rest"
  by (induction q) (auto simp: extract_from.simps(3))

section \<open>Facts on the findings\<close>

lemma find_from_nonempty:
  assumes "\<And>x y. reaches r x y \<Longrightarrow> length (snd y) < length (snd x)"
  shows "find_from r p s \<noteq> [] \<longleftrightarrow> search r p s"
proof (induction s arbitrary: p)
  case Nil
  have "ends r (p, []) = []"
  proof (cases "ends r (p, [])")
    case (Cons y ys)
    then have "reaches r (p, []) y" by (intro ends_sound) simp
    from assms [OF this] show ?thesis by simp
  qed
  then show ?case by (simp add: find_from.simps [of r p "[]"] search.simps [of r p "[]"])
next
  case (Cons c cs)
  show ?case
  proof (cases "ends r (p, c # cs)")
    case Nil
    with Cons show ?thesis by (simp add: find_from.simps [of r p "c # cs"] search.simps [of r p "c # cs"])
  next
    case (Cons y ys)
    then have "length (snd y) < length (c # cs)" using assms ends_sound [of y r "(p, c # cs)"] by fastforce
    with Cons show ?thesis
      by (auto simp: find_from.simps [of r p "c # cs"] search.simps [of r p "c # cs"])
  qed
qed

text \<open>A pattern that always consumes at least one byte.\<close>

fun consumes :: "regex \<Rightarrow> bool" where
  "consumes (RChr _) = True"
| "consumes (RStr w) = (w \<noteq> [])"
| "consumes (RSeq a b) = (consumes a \<or> consumes b)"
| "consumes (RAlt a b) = (consumes a \<and> consumes b)"
| "consumes _ = False"

lemma consumes_reaches: "reaches r x y \<Longrightarrow> consumes r \<Longrightarrow> length (snd y) < length (snd x)"
proof (induction rule: reaches.induct)
  case (seq a x y b z)
  then show ?case using reaches_shrinks [of a x y] reaches_shrinks [of b y z] by auto
qed auto

lemma FindString_iff: "consumes r \<Longrightarrow> FindString r s \<noteq> [] \<longleftrightarrow> MatchString r s"
  unfolding FindString_def MatchString_def by (rule find_from_nonempty) (rule consumes_reaches)

lemma substitution_patterns_consume: "list_all (\<lambda>(re, _). consumes re) commandSubstitutionPatterns"
  by code_simp

lemma ID_finding [simp]: "ID (finding i d) = i"
  by (simp add: finding_def)

lemma checkCommandSubstitution_nonempty:
  "checkCommandSubstitution command \<noteq> [] \<longleftrightarrow>
   list_ex (\<lambda>(re, _). MatchString re (WithDoubleQuotes (ExtractQuotedContent command))) commandSubstitutionPatterns"
proof -
  have "FindString re t \<noteq> [] \<longleftrightarrow> MatchString re t" if "(re, d) \<in> set commandSubstitutionPatterns" for re d t
  proof -
    from that substitution_patterns_consume have "consumes re" by (auto simp: list_all_iff)
    then show ?thesis by (rule FindString_iff)
  qed
  then have "list_ex (\<lambda>(re, d). FindString re (WithDoubleQuotes (ExtractQuotedContent command)) \<noteq> []) commandSubstitutionPatterns
      \<longleftrightarrow> list_ex (\<lambda>(re, d). MatchString re (WithDoubleQuotes (ExtractQuotedContent command))) commandSubstitutionPatterns"
    unfolding list_ex_iff by fast
  moreover have "checkCommandSubstitution command \<noteq> [] \<longleftrightarrow>
      list_ex (\<lambda>(re, d). FindString re (WithDoubleQuotes (ExtractQuotedContent command)) \<noteq> []) commandSubstitutionPatterns"
    unfolding checkCommandSubstitution_def Let_def list_ex_iff concat_eq_Nil_iff
    by (simp add: split_beta' if_split) fastforce
  ultimately show ?thesis by simp
qed

lemma IDs_of_checks:
  "f \<in> set (checkIncompleteCommands c) \<Longrightarrow> ID f = CheckIncompleteCommands"
  "f \<in> set (checkShellMetacharacters c) \<Longrightarrow> ID f = CheckShellMetacharacters"
  "f \<in> set (checkNewlines c) \<Longrightarrow> ID f = CheckNewlines"
  "f \<in> set (checkCommandSubstitution c) \<Longrightarrow> ID f = CheckDangerousPatternsCommandSubstitution"
  "f \<in> set (checkZshDangerous c) \<Longrightarrow> ID f = CheckZshDangerousCommands"
  "f \<in> set (checkCommentQuoteDesync c) \<Longrightarrow> ID f = CheckCommentQuoteDesync"
  "f \<in> set (checkQuotedNewline c) \<Longrightarrow> ID f = CheckQuotedNewline"
  "f \<in> set (singleREFinding c re i d b) \<Longrightarrow> ID f = i"
  "f \<in> set (singleRawFinding c re i d) \<Longrightarrow> ID f = i"
  by (auto simp: checkIncompleteCommands_def checkShellMetacharacters_def checkNewlines_def
      checkCommandSubstitution_def checkZshDangerous_def checkCommentQuoteDesync_def checkQuotedNewline_def
      singleREFinding_def singleRawFinding_def Let_def split: if_splits)

text \<open>The blocking identifier of each of the six blocking checks is present exactly when the check
  found something.\<close>

definition blocking_findings :: "string \<Rightarrow> SecurityFinding list" where
  "blocking_findings c =
     checkNewlines c @ checkCommandSubstitution c @
     singleREFinding c ifsInjectionRE CheckIFSInjection ''IFS variable manipulation detected'' True @
     singleRawFinding c procEnvironRE CheckProcEnvironAccess ''/proc/self/environ access detected'' @
     singleRawFinding c controlCharsRE CheckControlCharacters ''Control characters detected'' @
     checkZshDangerous c"

text \<open>A check that always reports the same identifier contributes that identifier or nothing.\<close>

lemma list_ex_ID: "(\<And>f. f \<in> set fs \<Longrightarrow> ID f = i) \<Longrightarrow> list_ex (\<lambda>f. P (ID f)) fs \<longleftrightarrow> P i \<and> fs \<noteq> []"
  by (cases fs) (auto simp: list_ex_iff)

lemmas check_reports = IDs_of_checks [THEN list_ex_ID]

lemma RunAll_reports:
  "list_ex P (CheckIDs (RunAllSecurityChecks c)) \<longleftrightarrow> list_ex (list_ex (\<lambda>f. P (ID f))) (all_findings c)"
  by (auto simp: RunAllSecurityChecks_def Let_def list_ex_iff)

lemma IsBlocking_iff: "IsBlocking (RunAllSecurityChecks c) \<longleftrightarrow> blocking_findings c \<noteq> []"
  unfolding IsBlocking_def RunAll_reports all_findings_def blocking_findings_def
  by (simp only: list_ex_Cons_iff list_ex_Nil_iff check_reports) (simp add: blockingCheckIDs_def)

text \<open>Text inside double quotes is kept by the extraction that the substitution checks read.\<close>

lemma extract_in_double:
  "dquote \<notin> set w \<Longrightarrow> bslash \<notin> set w \<Longrightarrow>
   extract_from InDouble (w @ rest) = emit w [] (extract_from InDouble rest)"
proof (induction w)
  case Nil
  then show ?case by (simp add: emit_def)
next
  case (Cons c w)
  then have "extract_from InDouble (c # w @ rest) = emit [c] [] (extract_from InDouble (w @ rest))"
    by (intro extract_other) auto
  with Cons show ?case by (simp add: emit_emit)
qed

lemma blocks_substitution:
  assumes "WithDoubleQuotes (ExtractQuotedContent c) = pre @ w @ post"
    and "(lit w, d) \<in> set commandSubstitutionPatterns" "w \<noteq> []"
  shows "IsBlocking (RunAllSecurityChecks c)"
proof -
  have "MatchString (lit w) (pre @ w @ post)"
    using reaches_lit [OF assms(3), of "before pre" post] by (rule MatchString_infixI)
  with assms have "checkCommandSubstitution c \<noteq> []"
    unfolding checkCommandSubstitution_nonempty list_ex_iff by force
  then show ?thesis unfolding IsBlocking_iff blocking_findings_def by simp
qed

definition expansion_openers :: "string list" where
  "expansion_openers = [''$('', ''${'', ''<('', ''>('']"

lemma expansion_openers_patterns:
  "w \<in> set expansion_openers \<Longrightarrow>
   (\<exists>d. (lit w, d) \<in> set commandSubstitutionPatterns) \<and> w \<noteq> [] \<and> list_all unquoted_char w"
proof -
  assume "w \<in> set expansion_openers"
  then have "w = ''$('' \<or> w = ''${'' \<or> w = ''<('' \<or> w = ''>(''" by (simp add: expansion_openers_def)
  moreover have "\<exists>d. (lit w, d) \<in> set commandSubstitutionPatterns" if "lit w \<in> fst ` set commandSubstitutionPatterns"
    using that by force
  moreover have "{lit ''$('', lit ''${'', lit ''<('', lit ''>(''} \<subseteq> fst ` set commandSubstitutionPatterns"
    by (simp add: commandSubstitutionPatterns_def)
  ultimately show ?thesis by (elim disjE) (simp_all add: unquoted_char_def)
qed

section \<open>Theorems\<close>

text \<open>a command is blocked exactly when one of the substitution patterns matches the text outside
  single quotes, an unquoted newline or carriage return occurs, IFS is assigned outside quotes, the
  process environment is read or a control character occurs anywhere, or an unquoted word is one of the
  dangerous Zsh commands, possibly behind a path.\<close>

theorem IsBlocking_characterisation:
  "IsBlocking (RunAllSecurityChecks command) \<longleftrightarrow>
     (let q = ExtractQuotedContent command
      in list_ex (\<lambda>(re, _). MatchString re (WithDoubleQuotes q)) commandSubstitutionPatterns \<or>
         list_ex (\<lambda>c. c = CHR 0x0A \<or> c = CHR 0x0D) (FullyUnquoted q) \<or>
         MatchString ifsInjectionRE (FullyUnquoted q) \<or>
         MatchString procEnvironRE command \<or>
         MatchString controlCharsRE command \<or>
         list_ex (\<lambda>t. after_last CHR ''/'' t \<in> set zshDangerousCommands) (Fields (FullyUnquoted q)))"
proof -
  have "checkZshDangerous command \<noteq> [] \<longleftrightarrow>
      list_ex (\<lambda>t. after_last CHR ''/'' t \<in> set zshDangerousCommands)
        (Fields (FullyUnquoted (ExtractQuotedContent command)))"
    unfolding checkZshDangerous_def Let_def concat_eq_Nil_iff list_ex_iff by auto
  then show ?thesis
    unfolding IsBlocking_iff blocking_findings_def Let_def append_is_Nil_conv de_Morgan_conj
      checkCommandSubstitution_nonempty
    by (auto simp: checkNewlines_def singleREFinding_def singleRawFinding_def Let_def)
qed

text \<open>neither bare text nor double quotes hide a command, parameter or process substitution: the
  command is blocked when one of the openers follows unquoted text, or stands inside a double-quoted
  string that starts after unquoted text.\<close>

theorem substitution_is_blocked:
  assumes "list_all unquoted_char pre" "w \<in> set expansion_openers"
    and "dquote \<notin> set mid" "bslash \<notin> set mid"
  shows "IsBlocking (RunAllSecurityChecks (pre @ w @ post)) \<and>
         IsBlocking (RunAllSecurityChecks (pre @ dquote # mid @ w @ post))"
proof
  obtain d where d: "(lit w, d) \<in> set commandSubstitutionPatterns" and w: "w \<noteq> []" "list_all unquoted_char w"
    using expansion_openers_patterns [OF assms(2)] by blast
  have "ExtractQuotedContent (pre @ w @ post) = emit (pre @ w) (pre @ w) (extract_from Outside post)"
    using extract_unquoted [of "pre @ w" post] assms(1) w(2) by (simp add: ExtractQuotedContent_def)
  then have "WithDoubleQuotes (ExtractQuotedContent (pre @ w @ post)) =
      pre @ w @ WithDoubleQuotes (extract_from Outside post)" by simp
  from blocks_substitution [OF this d w(1)] show "IsBlocking (RunAllSecurityChecks (pre @ w @ post))" .
  have "extract_from InDouble ((mid @ w) @ post) = emit (mid @ w) [] (extract_from InDouble post)"
    using assms(3,4) w(2) by (intro extract_in_double) (auto simp: list_all_iff unquoted_char_def)
  then have "WithDoubleQuotes (ExtractQuotedContent (pre @ dquote # mid @ w @ post)) =
      (pre @ dquote # mid) @ w @ WithDoubleQuotes (extract_from InDouble post)"
    by (simp add: ExtractQuotedContent_def extract_unquoted [OF assms(1)] extract_quote)
  from blocks_substitution [OF this d w(1)]
  show "IsBlocking (RunAllSecurityChecks (pre @ dquote # mid @ w @ post))" .
qed

theorem substitution_is_blocked_witness:
  "IsBlocking (RunAllSecurityChecks (''echo '' @ ''$('' @ ''id)'')) \<and>
   IsBlocking (RunAllSecurityChecks (''echo '' @ dquote # ''a'' @ ''$('' @ ''id)''))"
  by (rule substitution_is_blocked) (simp_all add: unquoted_char_def expansion_openers_def)

text \<open>a single-quoted string after unquoted text leaves no trace in any of the three extractions:
  the checks that read them see the command as if the quoted string were not there.\<close>

theorem single_quotes_are_opaque:
  assumes "list_all unquoted_char pre" "squote \<notin> set q"
  shows "ExtractQuotedContent (pre @ squote # q @ squote # rest) = ExtractQuotedContent (pre @ rest)"
  by (simp add: ExtractQuotedContent_def extract_unquoted [OF assms(1)] extract_quote extract_in_single [OF assms(2)])

theorem single_quotes_are_opaque_witness:
  "ExtractQuotedContent (''ls '' @ squote # ''$(id)'' @ squote # '' -l'') = ExtractQuotedContent (''ls '' @ '' -l'')"
  by (rule single_quotes_are_opaque) (simp_all add: unquoted_char_def)

text \<open>the extractions only drop characters: the text outside single quotes is a subsequence of the
  command, the fully unquoted text is a subsequence of it, and the third field always equals the first.\<close>

theorem ExtractQuotedContent_thins:
  "subseq (WithDoubleQuotes (ExtractQuotedContent command)) command \<and>
   subseq (FullyUnquoted (ExtractQuotedContent command)) (WithDoubleQuotes (ExtractQuotedContent command)) \<and>
   UnquotedKeepQuoteChars (ExtractQuotedContent command) = WithDoubleQuotes (ExtractQuotedContent command)"
  using extract_thinned [of Outside command] extract_keep [of Outside command]
  by (simp add: thinned_def ExtractQuotedContent_def)

text \<open>of passed, blocking and warning-only exactly one holds for the result of all checks, and every
  identifier that can be reported is classified by exactly one of the two tables.\<close>

theorem security_verdict_trichotomy:
  "(if Passed (RunAllSecurityChecks command) then
      \<not> IsBlocking (RunAllSecurityChecks command) \<and> \<not> IsWarningOnly (RunAllSecurityChecks command)
    else IsBlocking (RunAllSecurityChecks command) \<noteq> IsWarningOnly (RunAllSecurityChecks command)) \<and>
   ((i \<in> set blockingCheckIDs) \<noteq> (i \<in> set warningCheckIDs))"
proof
  show "(i \<in> set blockingCheckIDs) \<noteq> (i \<in> set warningCheckIDs)"
    by (cases i) (simp_all add: blockingCheckIDs_def warningCheckIDs_def)
  have "Passed r = (Findings r = [])" "Findings r = [] \<Longrightarrow> CheckIDs r = []" if "r = RunAllSecurityChecks command" for r
    using that by (simp_all add: RunAllSecurityChecks_def Let_def del: concat_eq_Nil_conv)
  then show "if Passed (RunAllSecurityChecks command) then
      \<not> IsBlocking (RunAllSecurityChecks command) \<and> \<not> IsWarningOnly (RunAllSecurityChecks command)
    else IsBlocking (RunAllSecurityChecks command) \<noteq> IsWarningOnly (RunAllSecurityChecks command)"
    by (simp add: IsBlocking_def IsWarningOnly_def)
qed

end
