(* ===== verification/Go_Path.thy ===== *)
theory Go_Path
  imports Go_Strings
begin

text \<open>
  Go's \<open>path/filepath\<close> on Unix: lexical cleaning, parent, last element, joining, absolute and
  relative paths. The file system is a parameter: the working directory and the result of
  \<open>EvalSymlinks\<close> per path (\<open>None\<close> for an error).
\<close>

abbreviation slash :: char where "slash \<equiv> CHR ''/''"

record fs_env =
  cwd :: "string option"
  evalSymlinks :: "string \<Rightarrow> string option"

section \<open>Cleaning\<close>

definition IsAbs :: "string \<Rightarrow> bool" where
  "IsAbs p = HasPrefix p ''/''"

definition clean_step :: "bool \<Rightarrow> string list \<Rightarrow> string \<Rightarrow> string list" where
  "clean_step rooted acc c =
     (if c = [] \<or> c = ''.'' then acc
      else if c = ''..'' then
        (if acc \<noteq> [] \<and> last acc \<noteq> ''..'' then butlast acc
         else if rooted then acc else acc @ [''..''])
      else acc @ [c])"

definition clean_comps :: "string \<Rightarrow> string list" where
  "clean_comps p = foldl (clean_step (IsAbs p)) [] (split_on slash p)"

definition render :: "bool \<Rightarrow> string list \<Rightarrow> string" where
  "render rooted cs =
     (if rooted then slash # join_with [slash] cs else if cs = [] then ''.'' else join_with [slash] cs)"

definition Clean :: "string \<Rightarrow> string" where
  "Clean p = render (IsAbs p) (clean_comps p)"

definition upto_last_slash :: "string \<Rightarrow> string" where
  "upto_last_slash p = rev (dropWhile (\<lambda>c. c \<noteq> slash) (rev p))"

definition Dir :: "string \<Rightarrow> string" where
  "Dir p = Clean (upto_last_slash p)"

definition Base :: "string \<Rightarrow> string" where
  "Base p =
     (if p = [] then ''.''
      else let b = after_last slash (rev (dropWhile (\<lambda>c. c = slash) (rev p)))
           in if b = [] then ''/'' else b)"

definition Join :: "string list \<Rightarrow> string" where
  "Join elems =
     (case dropWhile (\<lambda>e. e = []) elems of [] \<Rightarrow> [] | es \<Rightarrow> Clean (join_with [slash] es))"

definition Abs :: "fs_env \<Rightarrow> string \<Rightarrow> string option" where
  "Abs env p =
     (if IsAbs p then Some (Clean p)
      else case cwd env of None \<Rightarrow> None | Some wd \<Rightarrow> Some (Join [wd, p]))"

fun strip_common :: "string list \<Rightarrow> string list \<Rightarrow> string list \<times> string list" where
  "strip_common (b # bs) (t # ts) = (if b = t then strip_common bs ts else (b # bs, t # ts))"
| "strip_common bs ts = (bs, ts)"

definition Rel :: "string \<Rightarrow> string \<Rightarrow> string option" where
  "Rel base targ =
     (if Clean base = Clean targ then Some ''.''
      else if IsAbs (Clean base) \<noteq> IsAbs (Clean targ) then None
      else let (bs, ts) = strip_common (clean_comps base) (clean_comps targ)
           in if bs \<noteq> [] \<and> hd bs = ''..'' then None
              else Some (join_with [slash] (replicate (length bs) ''..'' @ ts)))"

section \<open>Canonical component lists\<close>

definition plain_comp :: "string \<Rightarrow> bool" where
  "plain_comp c \<longleftrightarrow> c \<noteq> [] \<and> c \<noteq> ''.'' \<and> c \<noteq> ''..'' \<and> slash \<notin> set c"

inductive canon :: "bool \<Rightarrow> string list \<Rightarrow> bool" where
  canon_Nil: "canon r []"
| canon_plain: "canon r cs \<Longrightarrow> plain_comp c \<Longrightarrow> canon r (cs @ [c])"
| canon_up: "canon False cs \<Longrightarrow> cs = [] \<or> last cs = ''..'' \<Longrightarrow> canon False (cs @ [''..''])"

inductive_cases canon_snocE: "canon r (cs @ [c])"

lemma canon_snoc: "canon r (cs @ [c]) \<Longrightarrow> canon r cs"
  by (elim canon_snocE) auto

lemma canon_butlast: "canon r cs \<Longrightarrow> canon r (butlast cs)"
  by (cases cs rule: rev_cases) (auto intro: canon_snoc canon_Nil)

lemma canon_comps: "canon r cs \<Longrightarrow> c \<in> set cs \<Longrightarrow> c \<noteq> [] \<and> slash \<notin> set c"
  by (induction rule: canon.induct) (auto simp: plain_comp_def)

lemma clean_step_canon:
  assumes "canon r acc" "slash \<notin> set c"
  shows "canon r (clean_step r acc c)"
proof -
  have "canon r acc \<Longrightarrow> \<not> r \<Longrightarrow> acc = [] \<or> last acc = ''..'' \<Longrightarrow> canon r (acc @ [''..''])"
    using canon_up by (cases r) auto
  moreover have "c \<noteq> [] \<Longrightarrow> c \<noteq> ''.'' \<Longrightarrow> c \<noteq> ''..'' \<Longrightarrow> canon r (acc @ [c])"
    using assms by (intro canon_plain) (auto simp: plain_comp_def)
  ultimately show ?thesis
    using assms canon_butlast by (auto simp: clean_step_def)
qed

lemma split_on_no_slash: "c \<in> set (split_on d s) \<Longrightarrow> d \<notin> set c"
  by (induction s arbitrary: c) (auto split: if_splits list.splits)

lemma clean_comps_canon: "canon (IsAbs p) (clean_comps p)"
proof -
  have "canon r (foldl (clean_step r) acc cs)" if "canon r acc" "\<And>c. c \<in> set cs \<Longrightarrow> slash \<notin> set c" for r acc cs
    using that by (induction cs arbitrary: acc) (auto simp: clean_step_canon)
  then show ?thesis unfolding clean_comps_def using canon_Nil split_on_no_slash by blast
qed

lemma foldl_clean_canon: "canon r cs \<Longrightarrow> foldl (clean_step r) [] cs = cs"
  by (induction rule: canon.induct) (auto simp: clean_step_def plain_comp_def)

lemma IsAbs_render:
  assumes "canon r cs"
  shows "IsAbs (render r cs) = r"
proof (cases r)
  case False
  show ?thesis
  proof (cases cs)
    case (Cons c cs')
    with assms have "c \<noteq> []" "slash \<notin> set c" using canon_comps by auto
    then have "join_with [slash] cs \<noteq> [] \<and> hd (join_with [slash] cs) \<noteq> slash"
      using Cons by (cases c; cases cs') auto
    with False Cons show ?thesis
      by (cases "join_with [slash] cs") (auto simp: render_def IsAbs_def HasPrefix_def)
  qed (simp add: render_def IsAbs_def HasPrefix_def False)
qed (simp add: render_def IsAbs_def HasPrefix_def)

lemma split_render:
  assumes "canon r cs" "cs \<noteq> []"
  shows "split_on slash (render r cs) = (if r then [] # cs else cs)"
proof -
  have "split_on slash (join_with [slash] cs) = cs"
    using assms canon_comps by (intro split_join) auto
  with assms show ?thesis by (simp add: render_def)
qed

lemma clean_comps_render:
  assumes "canon r cs"
  shows "clean_comps (render r cs) = cs"
proof (cases "cs = []")
  case True
  then show ?thesis
    by (cases r) (auto simp: clean_comps_def render_def clean_step_def)
next
  case False
  have "foldl (clean_step r) [] ([] # cs) = cs"
    using foldl_clean_canon [OF assms] by (simp add: clean_step_def)
  with False show ?thesis
    unfolding clean_comps_def IsAbs_render [OF assms] split_render [OF assms False]
    using foldl_clean_canon [OF assms] by (cases r) simp_all
qed

lemma Clean_render: "canon r cs \<Longrightarrow> Clean (render r cs) = render r cs"
  by (simp add: Clean_def IsAbs_render clean_comps_render)

theorem Clean_idem [simp]: "Clean (Clean p) = Clean p"
  unfolding Clean_def [of p] by (rule Clean_render [OF clean_comps_canon])

lemma IsAbs_Clean [simp]: "IsAbs (Clean p) = IsAbs p"
  unfolding Clean_def [of p] by (rule IsAbs_render [OF clean_comps_canon])

lemma clean_comps_Clean [simp]: "clean_comps (Clean p) = clean_comps p"
  unfolding Clean_def [of p] by (rule clean_comps_render [OF clean_comps_canon])

section \<open>Parents\<close>

lemma join_with_snoc:
  "cs \<noteq> [] \<Longrightarrow> join_with sep (cs @ [c]) = join_with sep cs @ sep @ c"
  by (induction cs rule: induct_list012) auto

lemma upto_last_slash_snoc:
  "slash \<notin> set c \<Longrightarrow> upto_last_slash (p @ slash # c) = p @ [slash]"
proof -
  assume "slash \<notin> set c"
  then have "dropWhile (\<lambda>d. d \<noteq> slash) (rev c @ slash # rev p) = slash # rev p"
    by (subst dropWhile_append2) auto
  then show ?thesis by (simp add: upto_last_slash_def)
qed

lemma upto_last_slash_none: "slash \<notin> set c \<Longrightarrow> upto_last_slash c = []"
  by (auto simp: upto_last_slash_def dropWhile_eq_Nil_conv)

lemma split_on_trailing: "split_on d (s @ [d]) = split_on d s @ [[]]"
  by (induction s) (auto split: list.splits)

lemma Clean_trailing_slash:
  assumes "canon r cs" "cs \<noteq> []"
  shows "Clean (render r cs @ [slash]) = render r cs"
proof -
  let ?p = "render r cs"
  have abs: "IsAbs (?p @ [slash]) = r"
  proof -
    have "join_with [slash] cs \<noteq> []"
      using assms canon_comps [OF assms(1), of "hd cs"] by (cases cs; cases "tl cs") auto
    then have "?p \<noteq> []" by (auto simp: render_def)
    then have "IsAbs (?p @ [slash]) = IsAbs ?p" by (cases ?p) (auto simp: IsAbs_def HasPrefix_def)
    with assms show ?thesis by (simp add: IsAbs_render)
  qed
  have "clean_comps (?p @ [slash]) = foldl (clean_step r) [] (split_on slash ?p)"
    by (simp add: clean_comps_def abs split_on_trailing clean_step_def)
  also have "\<dots> = cs"
    using clean_comps_render [OF assms(1)] IsAbs_render [OF assms(1)] by (simp add: clean_comps_def)
  finally show ?thesis by (simp add: Clean_def abs)
qed

lemma Clean_slash: "Clean ''/'' = ''/''" and Clean_empty: "Clean [] = ''.''"
  by (simp_all add: Clean_def clean_comps_def IsAbs_def HasPrefix_def render_def clean_step_def)

lemma Dir_render:
  assumes "canon r cs"
  shows "Dir (render r cs) = render r (butlast cs)"
proof (cases cs rule: rev_cases)
  case Nil
  then show ?thesis
    by (cases r) (auto simp: Dir_def render_def upto_last_slash_def Clean_slash Clean_empty)
next
  case (snoc ds d)
  with assms have d: "slash \<notin> set d" using canon_comps by auto
  show ?thesis
  proof (cases "ds = []")
    case True
    with snoc d show ?thesis
      using upto_last_slash_snoc [OF d, of "[]"] upto_last_slash_none [OF d]
      by (cases r) (simp_all add: Dir_def render_def Clean_slash Clean_empty)
  next
    case False
    have "render r cs = render r ds @ slash # d"
      using snoc False by (simp add: render_def join_with_snoc)
    then have "Dir (render r cs) = Clean (render r ds @ [slash])"
      by (simp add: Dir_def upto_last_slash_snoc [OF d])
    also have "\<dots> = render r ds"
      using assms snoc False by (intro Clean_trailing_slash) (auto intro: canon_snoc)
    finally show ?thesis using snoc by simp
  qed
qed

lemma render_inject: "canon r cs \<Longrightarrow> canon r ds \<Longrightarrow> render r cs = render r ds \<Longrightarrow> cs = ds"
  by (metis clean_comps_render)

lemma Clean_eq_render: "\<exists>r cs. Clean p = render r cs \<and> canon r cs"
  using Clean_def clean_comps_canon by blast

lemma length_comps_le: "canon r cs \<Longrightarrow> length cs \<le> length (render r cs)"
proof -
  assume "canon r cs"
  have "length ds \<le> length (join_with [slash] ds)" if "\<And>d. d \<in> set ds \<Longrightarrow> d \<noteq> []" for ds
    using that by (induction ds rule: induct_list012) (auto simp: Suc_le_eq)
  from this [of cs] canon_comps [OF \<open>canon r cs\<close>] show ?thesis by (auto simp: render_def)
qed

end
