(* ===== verification/Permission_State.thy ===== *)
theory Permission_State
  imports Go_Path
begin

text \<open>
  The permission state of a session (\<open>security/permission.go\<close>): confirmed paths, tools and command
  rules, the yolo switch, the decision \<open>NeedUserPermission\<close>, and the conversion to and from the
  map that is persisted. The Go sets are lists without duplicates in iteration order; a nil
  receiver, where the code accepts one, is \<open>None\<close>. The registered command-rule analyser is a
  record of functions that may be nil, as in the code, and an interface of its own (a locale) that
  the bash tool implements in \<open>Bash_Permissions\<close>.
\<close>

section \<open>Data\<close>

record PermissionState =
  ConfirmedPaths :: "string list"
  ConfirmedTools :: "string list"
  ConfirmedCommandRules :: "string list"
  YoloMode :: bool

record CommandRuleAnalyzer =
  GetSimpleCommandPrefix_fn :: "(string \<Rightarrow> string) option"
  NeedsUserDecision_fn :: "(string \<Rightarrow> bool) option"

text \<open>A value of Go type \<open>any\<close>, by its dynamic type.\<close>

datatype goany =
    GNil
  | GBool bool
  | GNum int
  | GStr string
  | GStrs "string list"
  | GAnys "goany list"
  | GMap "(string \<times> goany) list"

datatype tool_input =
    InMap "string \<rightharpoonup> goany"
  | InStringMap "string \<rightharpoonup> string"
  | InGetFilePath string
  | InFilePath string
  | InOther

definition shellRulePrefix :: string where
  "shellRulePrefix = ''Bash(''"

definition set_add :: "string \<Rightarrow> string list \<Rightarrow> string list" where
  "set_add x xs = (if List.member xs x then xs else xs @ [x])"

definition RegisterCommandRuleAnalyzer :: "CommandRuleAnalyzer \<Rightarrow> CommandRuleAnalyzer \<Rightarrow> CommandRuleAnalyzer" where
  "RegisterCommandRuleAnalyzer analyzer registered = analyzer"

definition DefaultPermissionState :: PermissionState where
  "DefaultPermissionState =
     \<lparr>ConfirmedPaths = [], ConfirmedTools = [], ConfirmedCommandRules = [], YoloMode = False\<rparr>"

section \<open>Path normalisation\<close>

text \<open>The loop of \<open>resolvePermissionPathBestEffort\<close> climbs one parent per round; the fuel is the
  number of rounds it may take.\<close>

fun resolve_up :: "nat \<Rightarrow> fs_env \<Rightarrow> string \<Rightarrow> string \<Rightarrow> string list \<Rightarrow> string option" where
  "resolve_up 0 env cleaned current suff = None"
| "resolve_up (Suc n) env cleaned current suff =
     (case evalSymlinks env current of
        Some resolved \<Rightarrow> Some (Clean (Join (resolved # suff)))
      | None \<Rightarrow>
          (let parent = Dir current in
           if parent = current then Some cleaned
           else resolve_up n env cleaned parent (Base current # suff)))"

definition resolvePermissionPathBestEffort :: "fs_env \<Rightarrow> string \<Rightarrow> string option" where
  "resolvePermissionPathBestEffort env path =
     (let cleaned = Clean path in
      case evalSymlinks env cleaned of
        Some resolved \<Rightarrow> Some (Clean resolved)
      | None \<Rightarrow> resolve_up (length cleaned + 2) env cleaned cleaned [])"

definition normalizePermissionPath :: "fs_env \<Rightarrow> string \<Rightarrow> string" where
  "normalizePermissionPath env path =
     (let absPath = (case Abs env path of None \<Rightarrow> path | Some p \<Rightarrow> p) in
      case resolvePermissionPathBestEffort env absPath of None \<Rightarrow> [] | Some p \<Rightarrow> p)"

definition normalizePermissionStoredPath :: "string \<Rightarrow> string" where
  "normalizePermissionStoredPath path = Clean path"

section \<open>Confirmations\<close>

definition IsPathConfirmed :: "fs_env \<Rightarrow> PermissionState \<Rightarrow> string \<Rightarrow> bool" where
  "IsPathConfirmed env ps path =
     (if YoloMode ps then True
      else let normalized = normalizePermissionPath env path;
               confirmedNormalized = map normalizePermissionStoredPath (ConfirmedPaths ps);
               parts = split_on slash normalized
           in list_ex (\<lambda>i. let p = join_with [slash] (take i parts);
                               p' = (if p = [] then ''/'' else p)
                           in List.member confirmedNormalized p')
                [0..<Suc (length parts)])"

definition ConfirmPath :: "fs_env \<Rightarrow> PermissionState \<Rightarrow> string \<Rightarrow> PermissionState" where
  "ConfirmPath env ps path =
     ps\<lparr>ConfirmedPaths := set_add (normalizePermissionPath env path) (ConfirmedPaths ps)\<rparr>"

definition IsToolConfirmed :: "PermissionState \<Rightarrow> string \<Rightarrow> bool" where
  "IsToolConfirmed ps toolName = (if YoloMode ps then True else List.member (ConfirmedTools ps) toolName)"

definition ConfirmTool :: "PermissionState \<Rightarrow> string \<Rightarrow> PermissionState" where
  "ConfirmTool ps toolName = ps\<lparr>ConfirmedTools := set_add toolName (ConfirmedTools ps)\<rparr>"

definition commandRuleForPrefix :: "string \<Rightarrow> string" where
  "commandRuleForPrefix p = shellRulePrefix @ p @ '':*)''"

definition ConfirmCommandPrefix :: "PermissionState \<Rightarrow> string \<Rightarrow> PermissionState" where
  "ConfirmCommandPrefix ps p =
     (let normalized = TrimSpace p in
      if normalized = [] then ps
      else ps\<lparr>ConfirmedCommandRules :=
                set_add (commandRuleForPrefix normalized) (ConfirmedCommandRules ps)\<rparr>)"

definition IsCommandPrefixConfirmed :: "PermissionState option \<Rightarrow> string \<Rightarrow> bool" where
  "IsCommandPrefixConfirmed ps p =
     (case ps of None \<Rightarrow> False
      | Some s \<Rightarrow>
          if YoloMode s then True
          else let normalized = TrimSpace p in
            if normalized = [] then False
            else List.member (ConfirmedCommandRules s) (commandRuleForPrefix normalized))"

definition IsCommandRuleConfirmed :: "CommandRuleAnalyzer \<Rightarrow> PermissionState option \<Rightarrow> string \<Rightarrow> bool" where
  "IsCommandRuleConfirmed analyzer ps command =
     (case ps of None \<Rightarrow> False
      | Some s \<Rightarrow>
          if YoloMode s then True
          else case (GetSimpleCommandPrefix_fn analyzer, NeedsUserDecision_fn analyzer) of
            (Some getPrefix, Some needs) \<Rightarrow>
              (let p = getPrefix command in
               if p = [] then False
               else if needs command then False
               else List.member (ConfirmedCommandRules s) (commandRuleForPrefix p))
          | _ \<Rightarrow> False)"

section \<open>Persistence\<close>

text \<open>The inner loop of \<open>sortStrings\<close>: the element at index \<open>j\<close> sinks to its place.\<close>

fun sink :: "string list \<Rightarrow> nat \<Rightarrow> string list" where
  "sink values 0 = values"
| "sink values (Suc j) =
     (if values ! Suc j < values ! j
      then sink (values[Suc j := values ! j, j := values ! Suc j]) j
      else values)"

definition sortStrings :: "string list \<Rightarrow> string list" where
  "sortStrings values = foldl sink values [1..<length values]"

definition setToSortedSlice :: "string list option \<Rightarrow> string list" where
  "setToSortedSlice st = (case st of None \<Rightarrow> [] | Some xs \<Rightarrow> sortStrings xs)"

definition stringSliceFromAny :: "goany option \<Rightarrow> string list" where
  "stringSliceFromAny raw =
     (case raw of
        Some (GStrs values) \<Rightarrow> values
      | Some (GAnys values) \<Rightarrow> List.map_filter (\<lambda>v. case v of GStr s \<Rightarrow> Some s | _ \<Rightarrow> None) values
      | _ \<Rightarrow> [])"

definition ToMap :: "PermissionState option \<Rightarrow> string \<rightharpoonup> goany" where
  "ToMap ps =
     (let s = (case ps of None \<Rightarrow> DefaultPermissionState | Some s \<Rightarrow> s) in
      [''confirmed_paths'' \<mapsto> GStrs (setToSortedSlice (Some (ConfirmedPaths s))),
       ''confirmed_tools'' \<mapsto> GStrs (setToSortedSlice (Some (ConfirmedTools s))),
       ''confirmed_command_rules'' \<mapsto> GStrs (setToSortedSlice (Some (ConfirmedCommandRules s))),
       ''yolo_mode'' \<mapsto> GBool (YoloMode s)])"

definition set_add_all :: "string list \<Rightarrow> string list \<Rightarrow> string list" where
  "set_add_all xs values = foldl (\<lambda>acc x. set_add x acc) xs values"

definition GetPermissionStateFromMap :: "(string \<rightharpoonup> goany) \<Rightarrow> PermissionState" where
  "GetPermissionStateFromMap m =
     (let rules = stringSliceFromAny (m ''confirmed_command_rules'');
          rules' = (if rules = [] then stringSliceFromAny (m ''confitment_commad_rules'') else rules)
      in \<lparr>ConfirmedPaths = set_add_all [] (stringSliceFromAny (m ''confirmed_paths'')),
          ConfirmedTools = set_add_all [] (stringSliceFromAny (m ''confirmed_tools'')),
          ConfirmedCommandRules = set_add_all [] rules',
          YoloMode = (case m ''yolo_mode'' of Some (GBool b) \<Rightarrow> b | _ \<Rightarrow> False)\<rparr>)"

section \<open>The decision\<close>

definition extractFilePath :: "tool_input \<Rightarrow> string" where
  "extractFilePath toolInput =
     (case toolInput of
        InMap v \<Rightarrow> (case v ''file_path'' of Some (GStr s) \<Rightarrow> s | _ \<Rightarrow> [])
      | InStringMap v \<Rightarrow> map_get [] v ''file_path''
      | InGetFilePath s \<Rightarrow> s
      | InFilePath s \<Rightarrow> s
      | InOther \<Rightarrow> [])"

definition NeedUserPermission :: "fs_env \<Rightarrow> string \<Rightarrow> tool_input \<Rightarrow> PermissionState option \<Rightarrow> bool" where
  "NeedUserPermission env toolName toolInput state =
     (case state of None \<Rightarrow> False
      | Some s \<Rightarrow>
          if YoloMode s then False
          else if IsToolConfirmed s toolName then False
          else let filePath = extractFilePath toolInput in
            if filePath \<noteq> [] \<and> IsPathConfirmed env s filePath then False
            else True)"

section \<open>Sets and sorting\<close>

lemma set_set_add [simp]: "set (set_add x xs) = insert x (set xs)"
  by (auto simp: set_add_def)

lemma distinct_set_add [simp]: "distinct xs \<Longrightarrow> distinct (set_add x xs)"
  by (auto simp: set_add_def)

lemma set_set_add_all [simp]: "set (set_add_all xs ys) = set xs \<union> set ys"
  unfolding set_add_all_def by (induction ys arbitrary: xs) auto

lemma distinct_set_add_all [simp]: "distinct xs \<Longrightarrow> distinct (set_add_all xs ys)"
  unfolding set_add_all_def by (induction ys arbitrary: xs) auto

lemma set_add_all_distinct: "distinct (xs @ ys) \<Longrightarrow> set_add_all xs ys = xs @ ys"
proof (induction ys arbitrary: xs)
  case (Cons y ys)
  then have "set_add y xs = xs @ [y]" by (auto simp: set_add_def)
  with Cons show ?case by (simp add: set_add_all_def)
qed (simp add: set_add_all_def)

lemma sink_shape:
  "\<exists>ys'. sink (ys @ x # zs) (length ys) = ys' @ zs \<and> mset ys' = add_mset x (mset ys) \<and>
         (sorted ys \<longrightarrow> sorted ys')"
proof (induction ys arbitrary: zs rule: rev_induct)
  case Nil
  show ?case by (intro exI [of _ "[x]"]) simp
next
  case (snoc y ys)
  show ?case
  proof (cases "x < y")
    case True
    have "sink ((ys @ [y]) @ x # zs) (length (ys @ [y])) = sink (ys @ x # y # zs) (length ys)"
      using True by (simp add: nth_append list_update_append)
    moreover from snoc obtain ys' where ys': "sink (ys @ x # y # zs) (length ys) = ys' @ y # zs"
      "mset ys' = add_mset x (mset ys)" "sorted ys \<longrightarrow> sorted ys'" by blast
    moreover have "set ys' = insert x (set ys)"
      using ys'(2) by (metis set_mset_add_mset_insert set_mset_mset)
    ultimately show ?thesis
      using True by (intro exI [of _ "ys' @ [y]"]) (auto simp: sorted_append)
  next
    case False
    then have "sink ((ys @ [y]) @ x # zs) (length (ys @ [y])) = (ys @ [y, x]) @ zs"
      by (simp add: nth_append)
    with False show ?thesis
      by (intro exI [of _ "ys @ [y, x]"]) (auto simp: sorted_append intro: order_trans)
  qed
qed

lemma sortStrings_prefix:
  "n \<le> length xs \<Longrightarrow>
     let ys = foldl sink xs [1..<n] in mset ys = mset xs \<and> length ys = length xs \<and> sorted (take n ys)"
proof (induction n)
  case (Suc n)
  show ?case
  proof (cases n)
    case 0
    with Suc.prems show ?thesis by (cases xs) auto
  next
    case (Suc m)
    let ?ys = "foldl sink xs [1..<n]"
    from Suc.IH Suc.prems have ys: "mset ?ys = mset xs" "length ?ys = length xs" "sorted (take n ?ys)"
      by (simp_all add: Let_def)
    have split: "?ys = take n ?ys @ ?ys ! n # drop (Suc n) ?ys"
      using Suc.prems ys(2) by (intro id_take_nth_drop) simp
    obtain zs where zs: "sink (take n ?ys @ ?ys ! n # drop (Suc n) ?ys) (length (take n ?ys)) = zs @ drop (Suc n) ?ys"
      "mset zs = add_mset (?ys ! n) (mset (take n ?ys))" "sorted zs"
      using sink_shape ys(3) by blast
    have len: "length (take n ?ys) = n" using Suc.prems ys(2) by simp
    have "length zs = Suc n" using zs(2) len by (metis size_add_mset size_mset)
    moreover have "sink ?ys n = zs @ drop (Suc n) ?ys" using zs(1) split len by metis
    moreover have "mset (sink ?ys n) = mset ?ys"
      using \<open>sink ?ys n = _\<close> zs(2) arg_cong [OF split, of mset] by simp
    moreover have "foldl sink xs [1..<Suc n] = sink ?ys n" using Suc by simp
    ultimately show ?thesis using ys zs(3) Suc.prems by (simp add: Let_def)
  qed
qed simp

lemma sortStrings_sorted: "sorted (sortStrings xs)"
  and sortStrings_mset: "mset (sortStrings xs) = mset xs"
  using sortStrings_prefix [of "length xs" xs] by (auto simp: sortStrings_def Let_def)

lemma set_sortStrings [simp]: "set (sortStrings xs) = set xs"
  using sortStrings_mset by (metis set_mset_mset)

lemma distinct_sortStrings [simp]: "distinct (sortStrings xs) = distinct xs"
  using sortStrings_mset by (metis mset_eq_imp_distinct_iff)

lemma sortStrings_eq_sort: "sortStrings xs = sort xs"
  using sortStrings_sorted sortStrings_mset by (metis properties_for_sort)

section \<open>Normalised paths\<close>

lemma resolve_up_total:
  assumes "canon r cs" "length cs < n" "Clean cleaned = cleaned"
  shows "\<exists>p. resolve_up n env cleaned (render r cs) suff = Some p \<and> Clean p = p"
  using assms
proof (induction n arbitrary: cs suff)
  case (Suc n)
  show ?case
  proof (cases "evalSymlinks env (render r cs)")
    case None
    show ?thesis
    proof (cases "Dir (render r cs) = render r cs")
      case False
      then have "cs \<noteq> []" using Suc.prems(1) by (auto simp: Dir_render)
      then have "length (butlast cs) < n" using Suc.prems(2) by (cases cs) auto
      from Suc.IH [OF canon_butlast [OF Suc.prems(1)] this Suc.prems(3)] show ?thesis
        using None False by (simp add: Dir_render [OF Suc.prems(1)] Let_def)
    qed (use None Suc.prems(3) in simp)
  qed simp
qed simp

lemma resolvePermissionPathBestEffort_total:
  "\<exists>p. resolvePermissionPathBestEffort env path = Some p \<and> Clean p = p"
proof (cases "evalSymlinks env (Clean path)")
  case None
  have "length (clean_comps path) < length (Clean path) + 2"
    unfolding Clean_def using length_comps_le [OF clean_comps_canon, of path] by simp
  with None show ?thesis
    using resolve_up_total [OF clean_comps_canon, of path "length (Clean path) + 2" "Clean path" env "[]"]
    by (simp add: resolvePermissionPathBestEffort_def Let_def flip: Clean_def)
qed (simp add: resolvePermissionPathBestEffort_def)

lemma Clean_normalizePermissionPath [simp]:
  "Clean (normalizePermissionPath env path) = normalizePermissionPath env path"
proof -
  obtain p where "resolvePermissionPathBestEffort env (case Abs env path of None \<Rightarrow> path | Some p \<Rightarrow> p) = Some p"
      "Clean p = p"
    using resolvePermissionPathBestEffort_total by blast
  then show ?thesis by (simp add: normalizePermissionPath_def Let_def)
qed

text \<open>What the operating system promises: the working directory is an absolute path, and resolving
  the links of an absolute path gives an absolute path.\<close>

definition fs_absolute :: "fs_env \<Rightarrow> bool" where
  "fs_absolute env \<longleftrightarrow>
     (\<exists>wd. cwd env = Some wd \<and> IsAbs wd) \<and>
     (\<forall>p q. IsAbs p \<longrightarrow> evalSymlinks env p = Some q \<longrightarrow> IsAbs q)"

lemma IsAbs_append: "IsAbs p \<Longrightarrow> IsAbs (p @ q)"
  by (auto simp: IsAbs_def HasPrefix_def)

lemma IsAbs_Join: "IsAbs p \<Longrightarrow> IsAbs (Join (p # ps))"
  by (cases ps) (auto simp: Join_def IsAbs_append, auto simp: IsAbs_def HasPrefix_def)

lemma IsAbs_Dir:
  assumes "IsAbs p" "Clean p = p"
  shows "IsAbs (Dir p)"
proof -
  have "Dir p = render True (butlast (clean_comps p))"
    using assms Dir_render [OF clean_comps_canon [of p]] unfolding Clean_def by simp
  moreover have "canon True (butlast (clean_comps p))"
    using clean_comps_canon [of p] assms(1) by (simp add: canon_butlast)
  ultimately show ?thesis by (simp add: IsAbs_render)
qed

lemma Clean_Dir [simp]: "Clean (Dir p) = Dir p"
  by (simp add: Dir_def)

lemma resolve_up_absolute:
  assumes "fs_absolute env" "IsAbs current" "Clean current = current" "IsAbs cleaned"
    and "resolve_up n env cleaned current suff = Some p"
  shows "IsAbs p"
  using assms(2-)
proof (induction n arbitrary: current suff)
  case (Suc n)
  show ?case
  proof (cases "evalSymlinks env current")
    case None
    then show ?thesis
      using Suc.IH [of "Dir current"] Suc.prems by (auto simp: Let_def IsAbs_Dir split: if_splits)
  next
    case (Some q)
    then have "IsAbs q" using assms(1) Suc.prems(1) unfolding fs_absolute_def by blast
    with Some Suc.prems show ?thesis by (auto simp: IsAbs_Join)
  qed
qed simp

lemma normalizePermissionPath_absolute:
  assumes "fs_absolute env"
  shows "IsAbs (normalizePermissionPath env path)"
proof -
  obtain a where a: "Abs env path = Some a" "IsAbs a"
    using assms by (cases "IsAbs path") (auto simp: Abs_def fs_absolute_def IsAbs_Join)
  obtain p where p: "resolvePermissionPathBestEffort env a = Some p"
    using resolvePermissionPathBestEffort_total by blast
  have "IsAbs p"
  proof (cases "evalSymlinks env (Clean a)")
    case None
    with p have "resolve_up (length (Clean a) + 2) env (Clean a) (Clean a) [] = Some p"
      unfolding resolvePermissionPathBestEffort_def Let_def by (simp only: option.case)
    moreover have "IsAbs (Clean a)" using a(2) by simp
    ultimately show ?thesis using resolve_up_absolute [OF assms] Clean_idem by blast
  next
    case (Some q)
    moreover have "IsAbs q" using Some assms a(2) IsAbs_Clean unfolding fs_absolute_def by blast
    ultimately show ?thesis using p by (auto simp: resolvePermissionPathBestEffort_def)
  qed
  with a p show ?thesis by (simp add: normalizePermissionPath_def)
qed

section \<open>What a confirmed path covers\<close>

definition dir_prefix :: "string list \<Rightarrow> nat \<Rightarrow> string" where
  "dir_prefix parts i = (let p = join_with [slash] (take i parts) in if p = [] then ''/'' else p)"

lemma dir_prefix_render:
  assumes "canon True cs"
  shows "dir_prefix ([] # cs) (Suc k) = render True (take k cs)"
proof (cases "take k cs")
  case Nil
  then show ?thesis unfolding dir_prefix_def render_def by (simp del: take_eq_Nil take_eq_Nil2)
next
  case (Cons w ws)
  then show ?thesis by (simp add: dir_prefix_def render_def Let_def)
qed

lemma canon_take: "canon r cs \<Longrightarrow> canon r (take k cs)"
proof (induction cs rule: rev_induct)
  case (snoc c cs)
  then show ?case using canon_snoc by (cases "k \<le> length cs") auto
qed simp

lemma dir_prefixes:
  assumes "canon True cs"
  shows "{dir_prefix (split_on slash (render True cs)) i | i. i \<le> length (split_on slash (render True cs))}
         = {render True (take k cs) | k. k \<le> length cs}"
proof (cases "cs = []")
  case True
  have "dir_prefix [[], []] i = ''/''" for i
    by (cases i; cases "i - 1"; cases "i - 2") (simp_all add: dir_prefix_def)
  with True show ?thesis by (auto simp: render_def)
next
  case False
  have zero: "dir_prefix ([] # cs) 0 = render True (take 0 cs)" by (simp add: dir_prefix_def render_def)
  have eq: "split_on slash (render True cs) = [] # cs" using split_render [OF assms False] by simp
  have "dir_prefix ([] # cs) i \<in> {render True (take k cs) | k. k \<le> length cs}" if "i \<le> length ([] # cs)" for i
  proof (cases i)
    case 0
    with zero show ?thesis by blast
  next
    case (Suc k)
    with that dir_prefix_render [OF assms, of k] show ?thesis by auto
  qed
  moreover have "render True (take k cs) \<in> {dir_prefix ([] # cs) i | i. i \<le> length ([] # cs)}" if "k \<le> length cs" for k
    using dir_prefix_render [OF assms, of k] that by (intro CollectI exI [of _ "Suc k"]) simp
  ultimately show ?thesis unfolding eq by blast
qed

lemma IsPathConfirmed_unfold:
  "IsPathConfirmed env ps path \<longleftrightarrow> YoloMode ps \<or>
    (\<exists>i \<le> length (split_on slash (normalizePermissionPath env path)).
       \<exists>c \<in> set (ConfirmedPaths ps). dir_prefix (split_on slash (normalizePermissionPath env path)) i = Clean c)"
proof -
  have "set [0..<Suc n] = {i. i \<le> n}" for n by auto
  then show ?thesis
    unfolding IsPathConfirmed_def normalizePermissionStoredPath_def list_ex_iff dir_prefix_def Let_def
    by (simp del: upt_Suc add: image_iff)
qed

lemma IsPathConfirmed_alt:
  assumes "fs_absolute env"
  shows "IsPathConfirmed env ps path \<longleftrightarrow>
    YoloMode ps \<or> (\<exists>c \<in> set (ConfirmedPaths ps).
       IsAbs c \<and> prefix (clean_comps c) (clean_comps (normalizePermissionPath env path)))"
proof -
  let ?n = "normalizePermissionPath env path"
  let ?cs = "clean_comps ?n"
  have abs: "IsAbs ?n" by (rule normalizePermissionPath_absolute [OF assms])
  have canon: "canon True ?cs" using clean_comps_canon [of ?n] abs by simp
  have n: "?n = render True ?cs" using Clean_def [of ?n] abs by simp
  have "IsPathConfirmed env ps path \<longleftrightarrow> YoloMode ps \<or>
    (\<exists>c \<in> set (ConfirmedPaths ps). Clean c \<in> {dir_prefix (split_on slash ?n) i | i. i \<le> length (split_on slash ?n)})"
    unfolding IsPathConfirmed_unfold mem_Collect_eq by (safe; blast dest: sym)
  also have "\<dots> \<longleftrightarrow> YoloMode ps \<or>
    (\<exists>c \<in> set (ConfirmedPaths ps). \<exists>k \<le> length ?cs. Clean c = render True (take k ?cs))"
    using dir_prefixes [OF canon] n by auto
  also have "\<dots> \<longleftrightarrow> YoloMode ps \<or>
    (\<exists>c \<in> set (ConfirmedPaths ps). IsAbs c \<and> prefix (clean_comps c) ?cs)"
  proof -
    have "(\<exists>k \<le> length ?cs. Clean c = render True (take k ?cs)) \<longleftrightarrow> IsAbs c \<and> prefix (clean_comps c) ?cs" for c
    proof
      assume "\<exists>k \<le> length ?cs. Clean c = render True (take k ?cs)"
      then obtain k where k: "Clean c = render True (take k ?cs)" by blast
      then have "IsAbs c" "clean_comps c = take k ?cs"
        using IsAbs_render [OF canon_take [OF canon], of k] clean_comps_render [OF canon_take [OF canon], of k]
        by (metis IsAbs_Clean, metis clean_comps_Clean)
      then show "IsAbs c \<and> prefix (clean_comps c) ?cs" by (simp add: take_is_prefix)
    next
      assume "IsAbs c \<and> prefix (clean_comps c) ?cs"
      then show "\<exists>k \<le> length ?cs. Clean c = render True (take k ?cs)"
        by (intro exI [of _ "length (clean_comps c)"])
          (auto simp: Clean_def prefix_length_le elim: prefixE)
    qed
    then show ?thesis by simp
  qed
  finally show ?thesis .
qed

section \<open>The interface of a command-rule analyser\<close>

definition analyzer_of :: "(string \<Rightarrow> string) \<Rightarrow> (string \<Rightarrow> bool) \<Rightarrow> CommandRuleAnalyzer" where
  "analyzer_of pre needs = \<lparr>GetSimpleCommandPrefix_fn = Some pre, NeedsUserDecision_fn = Some needs\<rparr>"

text \<open>An analyser promises that a command it does not refer to the user is \<open>cleared\<close>, and that a
  rule prefix names a command together with its subcommand, separated by a space.\<close>

locale command_rule_analyzer =
  fixes prefix_of :: "string \<Rightarrow> string"
    and needs :: "string \<Rightarrow> bool"
    and cleared :: "string \<Rightarrow> bool"
  assumes undecided_cleared: "\<not> needs c \<Longrightarrow> cleared c"
    and prefix_two_words: "prefix_of c \<noteq> [] \<Longrightarrow> CHR '' '' \<in> set (prefix_of c)"
begin

lemma rule_confirmed_iff:
  "IsCommandRuleConfirmed (analyzer_of prefix_of needs) (Some s) c \<longleftrightarrow>
     YoloMode s \<or> prefix_of c \<noteq> [] \<and> \<not> needs c \<and> commandRuleForPrefix (prefix_of c) \<in> set (ConfirmedCommandRules s)"
  by (simp add: IsCommandRuleConfirmed_def analyzer_of_def Let_def)

lemma rule_confirmed_cleared:
  assumes "IsCommandRuleConfirmed (analyzer_of prefix_of needs) (Some s) c" "\<not> YoloMode s"
  shows "cleared c \<and> commandRuleForPrefix (prefix_of c) \<in> set (ConfirmedCommandRules s)"
  using assms undecided_cleared by (auto simp: rule_confirmed_iff)

lemma confirm_prefix_confirms:
  assumes "prefix_of c \<noteq> []" "\<not> needs c" "TrimSpace (prefix_of c) = prefix_of c"
  shows "IsCommandRuleConfirmed (analyzer_of prefix_of needs) (Some (ConfirmCommandPrefix s (prefix_of c))) c"
  using assms by (simp add: rule_confirmed_iff ConfirmCommandPrefix_def Let_def)

lemma bare_command_rule_inert:
  assumes "CHR '' '' \<notin> set p"
  shows "IsCommandRuleConfirmed (analyzer_of prefix_of needs) (Some (ConfirmCommandPrefix s p)) c =
         IsCommandRuleConfirmed (analyzer_of prefix_of needs) (Some s) c"
proof -
  have "commandRuleForPrefix (prefix_of c) \<noteq> commandRuleForPrefix (TrimSpace p)" if "prefix_of c \<noteq> []"
    using prefix_two_words [OF that] assms set_TrimSpace_subset [of p]
    by (auto simp: commandRuleForPrefix_def)
  then show ?thesis by (auto simp: rule_confirmed_iff ConfirmCommandPrefix_def Let_def)
qed

end

section \<open>Properties\<close>

definition wf_permission_state :: "PermissionState \<Rightarrow> bool" where
  "wf_permission_state s \<longleftrightarrow>
     distinct (ConfirmedPaths s) \<and> distinct (ConfirmedTools s) \<and> distinct (ConfirmedCommandRules s)"

lemma confirm_wf [intro]:
  "wf_permission_state s \<Longrightarrow> wf_permission_state (ConfirmPath env s p)"
  "wf_permission_state s \<Longrightarrow> wf_permission_state (ConfirmTool s t)"
  "wf_permission_state s \<Longrightarrow> wf_permission_state (ConfirmCommandPrefix s q)"
  by (auto simp: wf_permission_state_def ConfirmPath_def ConfirmTool_def ConfirmCommandPrefix_def Let_def)

lemma IsPathConfirmed_mono:
  assumes "YoloMode s \<longrightarrow> YoloMode s'" "set (ConfirmedPaths s) \<subseteq> set (ConfirmedPaths s')"
  shows "IsPathConfirmed env s p \<Longrightarrow> IsPathConfirmed env s' p"
  unfolding IsPathConfirmed_unfold using assms by blast

lemma NeedUserPermission_antimono:
  assumes "YoloMode s \<longrightarrow> YoloMode s'" "set (ConfirmedPaths s) \<subseteq> set (ConfirmedPaths s')"
    and "set (ConfirmedTools s) \<subseteq> set (ConfirmedTools s')"
  shows "NeedUserPermission env t inp (Some s') \<Longrightarrow> NeedUserPermission env t inp (Some s)"
  using assms IsPathConfirmed_mono [OF assms(1,2)]
  by (auto simp: NeedUserPermission_def IsToolConfirmed_def Let_def split: if_splits)

text \<open>resolving a path always ends, within the number of rounds allotted to the climbing loop,
  whatever the file system answers; the normalised path is a cleaned path.\<close>

theorem permission_path_resolution_ends:
  "resolvePermissionPathBestEffort env path \<noteq> None \<and>
   Clean (normalizePermissionPath env path) = normalizePermissionPath env path"
  using resolvePermissionPathBestEffort_total [of env path] by auto

text \<open>C30: outside yolo mode a path is confirmed exactly when some confirmed absolute path is, component
  by component, the path itself or one of its ancestors after links are resolved. A sibling whose
  name merely starts with the same letters is not covered.\<close>

theorem path_confirmed_iff_ancestor:
  assumes "fs_absolute env" and "\<not> YoloMode ps"
  shows "IsPathConfirmed env ps path \<longleftrightarrow>
    (\<exists>c \<in> set (ConfirmedPaths ps).
       IsAbs c \<and> prefix (clean_comps c) (clean_comps (normalizePermissionPath env path)))"
  using IsPathConfirmed_alt [OF assms(1)] assms(2) by simp

definition sample_env :: fs_env where
  "sample_env = \<lparr>cwd = Some ''/w'', evalSymlinks = (\<lambda>p. if p = ''/w/link'' then Some ''/data'' else None)\<rparr>"

lemma sample_env_absolute: "fs_absolute sample_env"
  by (simp add: fs_absolute_def sample_env_def IsAbs_def HasPrefix_def)

theorem path_confirmed_iff_ancestor_witness:
  "fs_absolute sample_env \<and>
   IsPathConfirmed sample_env (DefaultPermissionState\<lparr>ConfirmedPaths := [''/data/'']\<rparr>) ''link/x'' \<and>
   \<not> IsPathConfirmed sample_env (DefaultPermissionState\<lparr>ConfirmedPaths := [''/dat'']\<rparr>) ''link/x''"
proof -
  have n: "normalizePermissionPath sample_env ''link/x'' = ''/data/x''" by code_simp
  have "clean_comps ''/data/x'' = [''data'', ''x'']" "clean_comps ''/data/'' = [''data'']"
    "clean_comps ''/dat'' = [''dat'']" "IsAbs ''/data/''"
    by code_simp+
  then show ?thesis
    using sample_env_absolute
    by (simp add: path_confirmed_iff_ancestor [OF sample_env_absolute] DefaultPermissionState_def n)
qed

text \<open>confirming a path grants the paths below it, component by component, and nothing else.\<close>

theorem ConfirmPath_grants_exactly_the_subtree:
  assumes "fs_absolute env"
  shows "IsPathConfirmed env (ConfirmPath env ps p) q \<longleftrightarrow>
    IsPathConfirmed env ps q \<or>
    prefix (clean_comps (normalizePermissionPath env p)) (clean_comps (normalizePermissionPath env q))"
  using normalizePermissionPath_absolute [OF assms, of p]
  by (auto simp: IsPathConfirmed_alt [OF assms] ConfirmPath_def)

theorem ConfirmPath_grants_exactly_the_subtree_witness:
  "IsPathConfirmed sample_env (ConfirmPath sample_env DefaultPermissionState ''/w/src'') ''src/a/b.go'' \<and>
   \<not> IsPathConfirmed sample_env (ConfirmPath sample_env DefaultPermissionState ''/w/src'') ''src2/a''"
proof -
  have "clean_comps (normalizePermissionPath sample_env ''/w/src'') = [''w'', ''src'']"
    "clean_comps (normalizePermissionPath sample_env ''src/a/b.go'') = [''w'', ''src'', ''a'', ''b.go'']"
    "clean_comps (normalizePermissionPath sample_env ''src2/a'') = [''w'', ''src2'', ''a'']"
    "\<not> IsPathConfirmed sample_env DefaultPermissionState ''src2/a''"
    by code_simp+
  then show ?thesis
    by (simp add: ConfirmPath_grants_exactly_the_subtree [OF sample_env_absolute])
qed

text \<open>C37: writing a permission state to the persisted map and reading it back keeps the three sets and
  the yolo switch, gives a state without duplicates, and writing it again gives the same map.\<close>

theorem permission_state_roundtrip:
  assumes "wf_permission_state s"
  shows "let s' = GetPermissionStateFromMap (ToMap (Some s)) in
    set (ConfirmedPaths s') = set (ConfirmedPaths s) \<and>
    set (ConfirmedTools s') = set (ConfirmedTools s) \<and>
    set (ConfirmedCommandRules s') = set (ConfirmedCommandRules s) \<and>
    YoloMode s' = YoloMode s \<and> wf_permission_state s' \<and> ToMap (Some s') = ToMap (Some s)"
proof -
  have "GetPermissionStateFromMap (ToMap (Some s)) =
    \<lparr>ConfirmedPaths = sort (ConfirmedPaths s), ConfirmedTools = sort (ConfirmedTools s),
     ConfirmedCommandRules = sort (ConfirmedCommandRules s), YoloMode = YoloMode s\<rparr>"
    using assms
    by (simp add: GetPermissionStateFromMap_def ToMap_def Let_def stringSliceFromAny_def setToSortedSlice_def
        sortStrings_eq_sort set_add_all_distinct [of "[]", simplified] wf_permission_state_def)
  with assms show ?thesis
    by (simp add: wf_permission_state_def ToMap_def Let_def setToSortedSlice_def sortStrings_eq_sort
        sorted_sort_id)
qed

theorem permission_state_roundtrip_witness:
  "wf_permission_state \<lparr>ConfirmedPaths = [''/b'', ''/a''], ConfirmedTools = [''Bash''],
      ConfirmedCommandRules = [], YoloMode = True\<rparr> \<and>
   set (ConfirmedPaths (GetPermissionStateFromMap (ToMap (Some \<lparr>ConfirmedPaths = [''/b'', ''/a''],
      ConfirmedTools = [''Bash''], ConfirmedCommandRules = [], YoloMode = True\<rparr>)))) = {''/a'', ''/b''}"
proof -
  let ?s = "\<lparr>ConfirmedPaths = [''/b'', ''/a''], ConfirmedTools = [''Bash''], ConfirmedCommandRules = [], YoloMode = True\<rparr>"
  have "wf_permission_state ?s" by (simp add: wf_permission_state_def)
  with permission_state_roundtrip [OF this] show ?thesis by (auto simp: Let_def)
qed

text \<open>a confirmation never takes a permission away: whatever the user has confirmed, a call that
  needed no permission before needs none afterwards; and confirming the tool itself settles it.\<close>

theorem confirmations_only_grant:
  "(NeedUserPermission env t inp (Some (ConfirmPath env s p)) \<longrightarrow> NeedUserPermission env t inp (Some s)) \<and>
   (NeedUserPermission env t inp (Some (ConfirmTool s u)) \<longrightarrow> NeedUserPermission env t inp (Some s)) \<and>
   (NeedUserPermission env t inp (Some (ConfirmCommandPrefix s q)) \<longleftrightarrow> NeedUserPermission env t inp (Some s)) \<and>
   \<not> NeedUserPermission env t inp (Some (ConfirmTool s t))"
proof (intro conjI impI)
  show "NeedUserPermission env t inp (Some s)" if "NeedUserPermission env t inp (Some (ConfirmPath env s p))"
    using that by (rule NeedUserPermission_antimono [rotated -1]) (auto simp: ConfirmPath_def)
  show "NeedUserPermission env t inp (Some s)" if "NeedUserPermission env t inp (Some (ConfirmTool s u))"
    using that by (rule NeedUserPermission_antimono [rotated -1]) (auto simp: ConfirmTool_def)
  show "NeedUserPermission env t inp (Some (ConfirmCommandPrefix s q)) \<longleftrightarrow> NeedUserPermission env t inp (Some s)"
    by (auto simp: ConfirmCommandPrefix_def NeedUserPermission_def IsToolConfirmed_def IsPathConfirmed_def Let_def)
  show "\<not> NeedUserPermission env t inp (Some (ConfirmTool s t))"
    by (simp add: NeedUserPermission_def IsToolConfirmed_def ConfirmTool_def)
qed

theorem confirmations_only_grant_witness:
  "NeedUserPermission sample_env ''Write'' (InStringMap [''file_path'' \<mapsto> ''/w/a'']) (Some DefaultPermissionState) \<and>
   \<not> NeedUserPermission sample_env ''Write'' (InStringMap [''file_path'' \<mapsto> ''/w/a''])
       (Some (ConfirmTool DefaultPermissionState ''Write'')) \<and>
   NeedUserPermission sample_env ''Write'' (InStringMap [''file_path'' \<mapsto> ''/w/a''])
       (Some (ConfirmCommandPrefix DefaultPermissionState ''git status''))"
proof -
  have "NeedUserPermission sample_env ''Write'' (InStringMap [''file_path'' \<mapsto> ''/w/a'']) (Some DefaultPermissionState)"
    by code_simp
  with confirmations_only_grant [of sample_env "''Write''" "InStringMap [''file_path'' \<mapsto> ''/w/a'']" DefaultPermissionState "[]" "[]" "''git status''"]
  show ?thesis by blast
qed

end
