(* ===== verification/Bash_Permissions.thy ===== *)
theory Bash_Permissions
  imports Bash_Security Permission_State
begin

text \<open>
  \<open>tools/bash/permissions.go\<close>: the permission analysis of a command line. Each segment of the
  pipeline is analysed on its own, the results are aggregated, and rule suggestions are produced
  for a command that needs a decision. The module is the provider of the command-rule analyser that
  the permission state consults; the interface is interpreted here.
\<close>

section \<open>Data\<close>

definition MaxSubcommandsForSecurityCheck :: nat where "MaxSubcommandsForSecurityCheck = 50"
definition MaxSuggestedRulesForCompound :: nat where "MaxSuggestedRulesForCompound = 5"

datatype ParseResult = ParseSimple | ParseTooComplex | ParseUnavailable

datatype Risk = RiskSafe | RiskLow | RiskNormal | RiskHigh | RiskCritical

record PermissionResult =
  Allowed :: bool
  pr_Risk :: Risk
  pr_Reason :: string
  SuggestedRules :: "string list"
  NeedsUserDecision :: bool
  pr_ParseResult :: ParseResult

definition blockedRulePrefixes :: "string list" where
  "blockedRulePrefixes =
     [''bash'', ''sh'', ''zsh'', ''dash'', ''ksh'', ''sudo'', ''doas'', ''pkexec'', ''env'', ''exec'',
      ''su'', ''nohup'', ''nice'']"

text \<open>A composite literal that leaves \<open>SuggestedRules\<close> at its zero value.\<close>

definition verdict :: "bool \<Rightarrow> Risk \<Rightarrow> string \<Rightarrow> bool \<Rightarrow> ParseResult \<Rightarrow> PermissionResult" where
  "verdict ok r why ask p =
     \<lparr>Allowed = ok, pr_Risk = r, pr_Reason = why, SuggestedRules = [], NeedsUserDecision = ask, pr_ParseResult = p\<rparr>"

section \<open>Operations\<close>

definition GetSimpleCommandPrefix :: "string \<Rightarrow> string" where
  "GetSimpleCommandPrefix command =
     (case Tokenize (StripAllSafeEnvPrefixes command) False of
        [] \<Rightarrow> []
      | t0 # rest \<Rightarrow>
          (let base = after_last slash t0 in
           if List.member blockedRulePrefixes base \<or> rest = [] \<or> HasPrefix (hd rest) ''-'' then
             (case rest of
                t1 # _ # t3 # _ \<Rightarrow> if base = ''git'' \<and> t1 = ''-c'' then ''git '' @ t3 else []
              | _ \<Rightarrow> [])
           else base @ '' '' @ hd rest))"

definition AggregateCompoundPermissions :: "PermissionResult list \<Rightarrow> PermissionResult" where
  "AggregateCompoundPermissions subResults =
     (case subResults of
        [] \<Rightarrow> verdict False RiskCritical ''Empty command'' True ParseUnavailable
      | [r] \<Rightarrow> r
      | _ \<Rightarrow>
          (let allRules = take MaxSuggestedRulesForCompound (concat (map SuggestedRules subResults)) in
           if list_ex (\<lambda>r. \<not> Allowed r \<and> NeedsUserDecision r) subResults then
             (verdict False RiskHigh ''Compound command contains denied subcommand(s)'' True ParseUnavailable)
               \<lparr>SuggestedRules := allRules\<rparr>
           else case find NeedsUserDecision subResults of
             Some r \<Rightarrow>
               (verdict False (pr_Risk r) ''Compound command contains subcommand(s) requiring review'' True ParseUnavailable)
                 \<lparr>SuggestedRules := allRules\<rparr>
           | None \<Rightarrow> verdict True RiskSafe ''All subcommands are safe'' False ParseUnavailable))"

definition analyzeSingleCommand :: "string \<Rightarrow> PermissionResult" where
  "analyzeSingleCommand command =
     (let cleaned = TrimSpace command in
      if cleaned = [] then verdict True RiskSafe ''Empty command'' False ParseSimple
      else if IsDangerous cleaned then
        verdict False RiskHigh ''Command matches dangerous pattern'' True ParseSimple
      else let semantic = CheckSemantics cleaned in
      if semantic = SemDangerous then
        verdict False RiskHigh ''Command contains dangerous patterns (AST)'' True ParseSimple
      else if semantic = SemTooComplex then
        verdict False RiskHigh ''Command is too complex for automated analysis'' True ParseTooComplex
      else let secResult = RunAllSecurityChecks cleaned in
      if IsBlocking secResult then
        verdict False RiskCritical
          (''Security check failed: '' @ joinFindingDescriptions (Findings secResult) 3) True ParseSimple
      else if Findings secResult \<noteq> [] then
        verdict False RiskNormal
          (''Security warnings: '' @ joinFindingDescriptions (Findings secResult) 3) True ParseSimple
      else verdict True RiskSafe ''All checks passed'' False ParseSimple)"

definition firstCommandRunes :: "string \<Rightarrow> int \<Rightarrow> string" where
  "firstCommandRunes txt limit =
     (if limit \<le> 0 then []
      else if int (rune_count txt) \<le> limit then txt
      else take_runes (nat limit) txt)"

text \<open>The first loop of \<open>generateRuleSuggestions\<close> stops as soon as the limit is reached.\<close>

fun suggest_prefixes :: "string list \<Rightarrow> string list \<Rightarrow> string list \<Rightarrow> string list" where
  "suggest_prefixes seen suggestions [] = suggestions"
| "suggest_prefixes seen suggestions (sub # subs) =
     (let p = GetSimpleCommandPrefix sub in
      if p \<noteq> [] \<and> \<not> List.member seen p then
        (let suggestions' = suggestions @ [''Bash('' @ p @ '':*)''] in
         if MaxSuggestedRulesForCompound \<le> length suggestions' then suggestions'
         else suggest_prefixes (p # seen) suggestions' subs)
      else suggest_prefixes seen suggestions subs)"

fun suggest_commands :: "string list \<Rightarrow> string list \<Rightarrow> string list \<Rightarrow> string list" where
  "suggest_commands seen suggestions [] = suggestions"
| "suggest_commands seen suggestions (sub # subs) =
     (if MaxSuggestedRulesForCompound \<le> length suggestions then suggestions
      else let trimmed = TrimSpace sub;
               cleaned = (if rune_count trimmed > 80 then firstCommandRunes trimmed 77 @ ''...'' else trimmed)
      in if cleaned \<noteq> [] \<and> \<not> List.member seen cleaned
         then suggest_commands (cleaned # seen) (suggestions @ [''Bash('' @ cleaned @ '')'']) subs
         else suggest_commands seen suggestions subs)"

text \<open>The second loop starts only when the first one suggested, and so recorded, nothing.\<close>

definition generateRuleSuggestions :: "string list \<Rightarrow> string list" where
  "generateRuleSuggestions subcommands =
     (let suggestions = suggest_prefixes [] [] subcommands in
      if suggestions \<noteq> [] then suggestions else suggest_commands [] [] subcommands)"

definition AnalyzeCommandPermissions :: "string \<Rightarrow> PermissionResult" where
  "AnalyzeCommandPermissions command =
     (let subcommands = SplitPipeline command in
      if length subcommands > MaxSubcommandsForSecurityCheck then
        verdict False RiskHigh
          (''Too many subcommands ('' @ show_int (int (length subcommands)) @ '' > '' @
           show_int (int MaxSubcommandsForSecurityCheck) @ '')'') True ParseTooComplex
      else let result = AggregateCompoundPermissions (map analyzeSingleCommand subcommands) in
        if NeedsUserDecision result then result\<lparr>SuggestedRules := generateRuleSuggestions subcommands\<rparr>
        else result)"

text \<open>The analyser that \<open>init\<close> registers.\<close>

definition bashRuleAnalyzer :: CommandRuleAnalyzer where
  "bashRuleAnalyzer =
     \<lparr>GetSimpleCommandPrefix_fn = Some GetSimpleCommandPrefix,
      NeedsUserDecision_fn = Some (\<lambda>command. NeedsUserDecision (AnalyzeCommandPermissions command))\<rparr>"

section \<open>When a command passes without a decision\<close>

lemma verdict_sel [simp]:
  "Allowed (verdict ok r why ask p) = ok" "pr_Risk (verdict ok r why ask p) = r"
  "NeedsUserDecision (verdict ok r why ask p) = ask" "SuggestedRules (verdict ok r why ask p) = []"
  "pr_ParseResult (verdict ok r why ask p) = p"
  by (simp_all add: verdict_def)

text \<open>What a single command must be like for the analysis to stay silent.\<close>

definition quiet_command :: "string \<Rightarrow> bool" where
  "quiet_command c \<longleftrightarrow>
     \<not> IsDangerous c \<and> CheckSemantics c = SemSafe \<and> Findings (RunAllSecurityChecks c) = []"

lemma IsBlocking_findings: "IsBlocking (RunAllSecurityChecks c) \<Longrightarrow> Findings (RunAllSecurityChecks c) \<noteq> []"
  by (cases "concat (all_findings c)") (simp_all add: IsBlocking_def RunAllSecurityChecks_def Let_def del: concat_eq_Nil_conv)

lemma analyzeSingle_needs:
  "NeedsUserDecision (analyzeSingleCommand c) \<longleftrightarrow> TrimSpace c \<noteq> [] \<and> \<not> quiet_command (TrimSpace c)"
proof (cases "CheckSemantics (TrimSpace c)")
qed (use IsBlocking_findings in \<open>auto simp: analyzeSingleCommand_def quiet_command_def Let_def\<close>)

lemma analyzeSingle_Allowed: "Allowed (analyzeSingleCommand c) \<longleftrightarrow> \<not> NeedsUserDecision (analyzeSingleCommand c)"
  by (simp add: analyzeSingleCommand_def Let_def)

lemma Aggregate_needs:
  assumes "rs \<noteq> []" "\<And>r. r \<in> set rs \<Longrightarrow> Allowed r \<longleftrightarrow> \<not> NeedsUserDecision r"
  shows "NeedsUserDecision (AggregateCompoundPermissions rs) \<longleftrightarrow> (\<exists>r \<in> set rs. NeedsUserDecision r)"
    and "Allowed (AggregateCompoundPermissions rs) \<longleftrightarrow> \<not> (\<exists>r \<in> set rs. NeedsUserDecision r)"
proof -
  consider (one) r where "rs = [r]" | (more) r1 r2 rs' where "rs = r1 # r2 # rs'"
    using assms(1) by (cases rs rule: list.exhaust) (metis list.exhaust)+
  then have "NeedsUserDecision (AggregateCompoundPermissions rs) = (\<exists>r \<in> set rs. NeedsUserDecision r) \<and>
    Allowed (AggregateCompoundPermissions rs) = (\<not> (\<exists>r \<in> set rs. NeedsUserDecision r))"
  proof cases
    case one
    with assms(2) show ?thesis by (simp add: AggregateCompoundPermissions_def)
  next
    case more
    have ex: "list_ex (\<lambda>r. \<not> Allowed r \<and> NeedsUserDecision r) rs \<longleftrightarrow> (\<exists>r \<in> set rs. NeedsUserDecision r)"
      using assms(2) by (auto simp: list_ex_iff)
    show ?thesis
    proof (cases "\<exists>r \<in> set rs. NeedsUserDecision r")
      case True
      with ex have "list_ex (\<lambda>r. \<not> Allowed r \<and> NeedsUserDecision r) (r1 # r2 # rs')" using more by simp
      with True show ?thesis unfolding more by (simp add: AggregateCompoundPermissions_def Let_def)
    next
      case False
      then have "find NeedsUserDecision (r1 # r2 # rs') = None"
        "\<not> list_ex (\<lambda>r. \<not> Allowed r \<and> NeedsUserDecision r) (r1 # r2 # rs')"
        using more ex by (auto simp: find_None_iff)
      with False show ?thesis unfolding more by (simp add: AggregateCompoundPermissions_def Let_def)
    qed
  qed
  then show "NeedsUserDecision (AggregateCompoundPermissions rs) \<longleftrightarrow> (\<exists>r \<in> set rs. NeedsUserDecision r)"
    and "Allowed (AggregateCompoundPermissions rs) \<longleftrightarrow> \<not> (\<exists>r \<in> set rs. NeedsUserDecision r)"
    by blast+
qed

lemma Analyze_needs:
  "NeedsUserDecision (AnalyzeCommandPermissions c) \<longleftrightarrow>
     length (SplitPipeline c) > 50 \<or>
     (\<exists>seg \<in> set (SplitPipeline c). TrimSpace seg \<noteq> [] \<and> \<not> quiet_command (TrimSpace seg))"
  and Analyze_Allowed:
  "Allowed (AnalyzeCommandPermissions c) \<longleftrightarrow> \<not> NeedsUserDecision (AnalyzeCommandPermissions c)"
proof -
  let ?rs = "map analyzeSingleCommand (SplitPipeline c)"
  have "?rs \<noteq> []" "\<And>r. r \<in> set ?rs \<Longrightarrow> Allowed r \<longleftrightarrow> \<not> NeedsUserDecision r"
    using analyzeSingle_Allowed by auto
  note agg = Aggregate_needs [OF this]
  show "NeedsUserDecision (AnalyzeCommandPermissions c) \<longleftrightarrow>
     length (SplitPipeline c) > 50 \<or>
     (\<exists>seg \<in> set (SplitPipeline c). TrimSpace seg \<noteq> [] \<and> \<not> quiet_command (TrimSpace seg))"
    using agg(1) by (auto simp: AnalyzeCommandPermissions_def Let_def MaxSubcommandsForSecurityCheck_def analyzeSingle_needs)
  show "Allowed (AnalyzeCommandPermissions c) \<longleftrightarrow> \<not> NeedsUserDecision (AnalyzeCommandPermissions c)"
    using agg by (auto simp: AnalyzeCommandPermissions_def Let_def)
qed

section \<open>The command-rule interface\<close>

definition cleared_command :: "string \<Rightarrow> bool" where
  "cleared_command c \<longleftrightarrow> length (SplitPipeline c) \<le> 50 \<and>
     (\<forall>seg \<in> set (SplitPipeline c). TrimSpace seg = [] \<or> quiet_command (TrimSpace seg))"

lemma GetSimpleCommandPrefix_space:
  assumes "GetSimpleCommandPrefix c \<noteq> []"
  shows "CHR '' '' \<in> set (GetSimpleCommandPrefix c)"
proof -
  define P where "P s \<longleftrightarrow> s = [] \<or> CHR '' '' \<in> set s" for s :: string
  have P: "P []" "P (''git '' @ t)" "P (b @ '' '' @ t)" for b t by (simp_all add: P_def)
  have "P (GetSimpleCommandPrefix c)"
    unfolding GetSimpleCommandPrefix_def Let_def by (simp only: P split: list.split if_split) blast
  with assms show ?thesis by (simp add: P_def)
qed

lemma bashRuleAnalyzer_eq:
  "bashRuleAnalyzer = analyzer_of GetSimpleCommandPrefix (\<lambda>c. NeedsUserDecision (AnalyzeCommandPermissions c))"
  by (simp add: bashRuleAnalyzer_def analyzer_of_def)

interpretation bash_rules: command_rule_analyzer GetSimpleCommandPrefix
  "\<lambda>c. NeedsUserDecision (AnalyzeCommandPermissions c)" cleared_command
  by unfold_locales (auto simp: Analyze_needs cleared_command_def not_less GetSimpleCommandPrefix_space)

section \<open>Suggestions\<close>

lemma suggest_prefixes_bounded:
  assumes "length suggestions < MaxSuggestedRulesForCompound"
  shows "length (suggest_prefixes seen suggestions subs) \<le> MaxSuggestedRulesForCompound"
  using assms
  by (induction seen suggestions subs rule: suggest_prefixes.induct) (auto simp: Let_def)

lemma suggest_commands_bounded:
  "length suggestions \<le> MaxSuggestedRulesForCompound \<Longrightarrow>
   length (suggest_commands seen suggestions subs) \<le> MaxSuggestedRulesForCompound"
  by (induction seen suggestions subs rule: suggest_commands.induct) (auto simp: Let_def)

lemma fresh_suggestion:
  assumes "set xs \<subseteq> f ` set seen" "distinct xs" "x \<notin> set seen" "inj f"
  shows "set (xs @ [f x]) \<subseteq> f ` set (x # seen)" "distinct (xs @ [f x])"
  using assms by (auto dest: injD)

lemma inj_rule: "inj (\<lambda>p. ''Bash('' @ p @ post)"
  by (auto intro: injI)

lemma suggest_prefixes_distinct:
  assumes "set suggestions \<subseteq> (\<lambda>p. ''Bash('' @ p @ '':*)'') ` set seen" "distinct suggestions"
  shows "distinct (suggest_prefixes seen suggestions subs)"
  using assms
proof (induction subs arbitrary: seen suggestions)
  case (Cons sub subs)
  show ?case
  proof (cases "GetSimpleCommandPrefix sub \<noteq> [] \<and> GetSimpleCommandPrefix sub \<notin> set seen")
    case True
    note fresh = fresh_suggestion [OF Cons.prems True [THEN conjunct2] inj_rule]
    show ?thesis
      using Cons.IH [OF fresh] fresh(2) True by (simp add: Let_def del: distinct_append)
  qed (use Cons in \<open>auto simp: Let_def\<close>)
qed simp

lemma suggest_commands_distinct:
  assumes "set suggestions \<subseteq> (\<lambda>p. ''Bash('' @ p @ '')'') ` set seen" "distinct suggestions"
  shows "distinct (suggest_commands seen suggestions subs)"
  using assms
proof (induction subs arbitrary: seen suggestions)
  case (Cons sub subs)
  define cleaned where "cleaned =
    (if rune_count (TrimSpace sub) > 80 then firstCommandRunes (TrimSpace sub) 77 @ ''...'' else TrimSpace sub)"
  show ?case
  proof (cases "cleaned \<noteq> [] \<and> cleaned \<notin> set seen")
    case True
    note fresh = fresh_suggestion [OF Cons.prems True [THEN conjunct2] inj_rule]
    show ?thesis
      using Cons.IH [OF fresh] True Cons.prems(2)
      by (simp add: Let_def flip: cleaned_def)
  qed (use Cons in \<open>auto simp: Let_def simp flip: cleaned_def\<close>)
qed simp

section \<open>Properties\<close>

text \<open>the analysis of a command line is consistent (allowed means no decision is asked for) and
  exact: it stays silent precisely when the line has at most fifty segments and every non-blank
  segment matches no dangerous pattern, is semantically safe and triggers none of the checks.\<close>

theorem analysis_silent_iff_all_segments_quiet:
  "(Allowed (AnalyzeCommandPermissions c) \<longleftrightarrow> \<not> NeedsUserDecision (AnalyzeCommandPermissions c)) \<and>
   (NeedsUserDecision (AnalyzeCommandPermissions c) \<longleftrightarrow>
     length (SplitPipeline c) > 50 \<or>
     (\<exists>seg \<in> set (SplitPipeline c). TrimSpace seg \<noteq> [] \<and>
        (IsDangerous (TrimSpace seg) \<or> CheckSemantics (TrimSpace seg) \<noteq> SemSafe \<or>
         Findings (RunAllSecurityChecks (TrimSpace seg)) \<noteq> [])))"
  unfolding Analyze_Allowed Analyze_needs quiet_command_def by blast

theorem analysis_silent_iff_all_segments_quiet_witness:
  "Allowed (AnalyzeCommandPermissions ''go test x'') \<and> NeedsUserDecision (AnalyzeCommandPermissions ''ls; rm -rf /'')"
proof -
  have "SplitPipeline ''ls; rm -rf /'' = [''ls'', ''rm -rf /'']" "TrimSpace ''rm -rf /'' \<noteq> []"
    "IsDangerous (TrimSpace ''rm -rf /'')" by code_simp+
  moreover have "\<not> NeedsUserDecision (AnalyzeCommandPermissions ''go test x'')" by code_simp
  ultimately show ?thesis
    using analysis_silent_iff_all_segments_quiet [of "''ls; rm -rf /''"]
      analysis_silent_iff_all_segments_quiet [of "''go test x''"] by auto
qed

text \<open>C28: outside yolo mode a stored rule never approves a command whose pipeline has a segment that
  is dangerous, semantically unsafe or triggers a security check; the rule that approves it is the
  one for the command's own prefix.\<close>

theorem rule_approves_only_quiet_commands:
  assumes "IsCommandRuleConfirmed bashRuleAnalyzer (Some s) c" "\<not> YoloMode s"
  shows "cleared_command c \<and> GetSimpleCommandPrefix c \<noteq> [] \<and>
         commandRuleForPrefix (GetSimpleCommandPrefix c) \<in> set (ConfirmedCommandRules s)"
  using assms bash_rules.rule_confirmed_cleared bash_rules.rule_confirmed_iff
  unfolding bashRuleAnalyzer_eq by blast

theorem rule_approves_only_quiet_commands_witness:
  "IsCommandRuleConfirmed bashRuleAnalyzer (Some (ConfirmCommandPrefix DefaultPermissionState ''go test'')) ''go test x'' \<and>
   cleared_command ''go test x''"
proof -
  let ?s = "ConfirmCommandPrefix DefaultPermissionState ''go test''"
  have "IsCommandRuleConfirmed bashRuleAnalyzer (Some ?s) ''go test x''" "\<not> YoloMode ?s" by code_simp+
  with rule_approves_only_quiet_commands [OF this] show ?thesis by blast
qed

text \<open>confirming the prefix of a command whose analysis is silent makes that command confirmed,
  whenever the prefix is already trimmed; confirming a bare command name confirms no command.\<close>

theorem confirmed_prefix_covers_its_command:
  "(GetSimpleCommandPrefix c \<noteq> [] \<and> \<not> NeedsUserDecision (AnalyzeCommandPermissions c) \<and>
    TrimSpace (GetSimpleCommandPrefix c) = GetSimpleCommandPrefix c \<longrightarrow>
    IsCommandRuleConfirmed bashRuleAnalyzer (Some (ConfirmCommandPrefix s (GetSimpleCommandPrefix c))) c) \<and>
   (CHR '' '' \<notin> set p \<longrightarrow>
    IsCommandRuleConfirmed bashRuleAnalyzer (Some (ConfirmCommandPrefix s p)) c =
    IsCommandRuleConfirmed bashRuleAnalyzer (Some s) c)"
  unfolding bashRuleAnalyzer_eq
  using bash_rules.confirm_prefix_confirms bash_rules.bare_command_rule_inert by blast

theorem confirmed_prefix_covers_its_command_witness:
  "IsCommandRuleConfirmed bashRuleAnalyzer (Some (ConfirmCommandPrefix DefaultPermissionState ''npm run'')) ''npm run x'' \<and>
   \<not> IsCommandRuleConfirmed bashRuleAnalyzer (Some (ConfirmCommandPrefix DefaultPermissionState ''npm'')) ''npm run x''"
proof -
  have "GetSimpleCommandPrefix ''npm run x'' = ''npm run''" "TrimSpace ''npm run'' = ''npm run''"
    "\<not> NeedsUserDecision (AnalyzeCommandPermissions ''npm run x'')"
    "\<not> IsCommandRuleConfirmed bashRuleAnalyzer (Some DefaultPermissionState) ''npm run x''" by code_simp+
  with confirmed_prefix_covers_its_command [of "''npm run x''" DefaultPermissionState "''npm''"]
  show ?thesis by simp
qed

text \<open>at most five rules are ever suggested, and no rule twice.\<close>

theorem suggestions_bounded_distinct:
  "length (generateRuleSuggestions subs) \<le> MaxSuggestedRulesForCompound \<and>
   distinct (generateRuleSuggestions subs)"
proof -
  have "length (suggest_prefixes [] [] subs) \<le> MaxSuggestedRulesForCompound"
    by (rule suggest_prefixes_bounded) (simp add: MaxSuggestedRulesForCompound_def)
  moreover have "length (suggest_commands [] [] subs) \<le> MaxSuggestedRulesForCompound"
    by (rule suggest_commands_bounded) simp
  ultimately show ?thesis
    by (simp add: generateRuleSuggestions_def Let_def suggest_prefixes_distinct suggest_commands_distinct)
qed

text \<open>the stored rule looks at the first words of the whole line only: once \<open>git status\<close> is
  confirmed, a compound line that begins with it is confirmed together with its other commands.\<close>

theorem rule_covers_compound_line:
  "IsCommandRuleConfirmed bashRuleAnalyzer
     (Some (ConfirmCommandPrefix DefaultPermissionState ''git status'')) ''git status ; npm publish''"
  by code_simp

end
