(* ===== verification/Bash_Classifier.thy ===== *)
theory Bash_Classifier
  imports Bash_Permissions
begin

text \<open>
  \<open>tools/bash/classifier.go\<close>: the classification of a command line as safe, dangerous or needing
  permission. A pipeline is classified segment by segment; the recursion is justified by the fact
  that the segments of a proper pipeline are shorter than the line.
\<close>

section \<open>Data and tables\<close>

datatype CommandClass = CommandClassSafe | CommandClassNeedsPermission | CommandClassDangerous

record ClassifierResult =
  CommandClass :: CommandClass
  SafeCommand :: string
  Reason :: string

definition privilegePrefixes :: "string list" where
  "privilegePrefixes = [''sudo'', ''doas'', ''pkexec'']"

definition commandStopTokens :: "string list" where
  "commandStopTokens =
     [''>'', ''>>'', ''<'', ''2>'', ''1>'', ''&>'', ''2>&1'', ''1>&2'', ''|'', '';'', ''&'', ''&&'', ''||'']"

definition dangerousEnvPrefixes :: "string list" where
  "dangerousEnvPrefixes = [''IFS'']"

definition sensitiveReadTargets :: "string list" where
  "sensitiveReadTargets = [''/etc/shadow'', ''/etc/sudoers'']"

definition secretReadTargets :: "string list" where
  "secretReadTargets = [''/proc/self/environ'', ''/proc/1/environ'']"

definition classifierSafeCommands :: "string list" where
  "classifierSafeCommands =
    [''ls'', ''dir'', ''cat'', ''head'', ''tail'', ''less'', ''more'',
     ''file'', ''stat'', ''wc'', ''du'', ''df'', ''tree'',
     ''grep'', ''rg'', ''find'', ''locate'', ''which'', ''whereis'', ''where'',
     ''awk'', ''sed'', ''sort'', ''uniq'', ''cut'', ''tr'', ''column'',
     ''echo'', ''printf'', ''date'', ''uptime'', ''uname'', ''hostname'',
     ''whoami'', ''id'', ''groups'', ''env'', ''printenv'', ''pwd'',
     ''type'', ''command'', ''help'', ''man'',
     ''nvm'', ''pyenv'', ''rbenv'', ''sdk'']"

definition classifierSafeSubcommands :: "(string \<times> string list) list" where
  "classifierSafeSubcommands =
    [(''git'',
       [''status'', ''log'', ''diff'', ''show'', ''branch'', ''tag'',
        ''blame'', ''stash'', ''remote'', ''config'', ''rev-parse'',
        ''ls-files'', ''ls-tree'', ''describe'', ''shortlog'',
        ''cherry'', ''grep'', ''reflog'', ''whatchanged'']),
     (''npm'', [''ls'', ''list'', ''view'', ''info'', ''outdated'', ''audit'', ''root'', ''bin'']),
     (''yarn'', [''list'', ''info'', ''why'', ''audit'', ''outdated'']),
     (''pnpm'', [''list'', ''outdated'', ''audit'', ''why'']),
     (''pip'', [''list'', ''show'', ''freeze'', ''check'']),
     (''pip3'', [''list'', ''show'', ''freeze'', ''check'']),
     (''docker'', [''ps'', ''images'', ''inspect'', ''logs'', ''stats'', ''version'', ''info'']),
     (''docker-compose'', [''ps'', ''images'', ''logs'', ''config'', ''port'']),
     (''kubectl'', [''get'', ''describe'', ''logs'', ''explain'', ''api-versions'', ''cluster-info'']),
     (''systemctl'', [''status'', ''list-units'', ''is-enabled'', ''is-active'']),
     (''journalctl'', []),
     (''gh'', [''pr'', ''issue'', ''repo'', ''status'', ''auth'']),
     (''poetry'', [''show'', ''check'', ''env'', ''list'']),
     (''cargo'', [''check'', ''build'', ''test'', ''doc'', ''clippy'']),
     (''go'', [''build'', ''test'', ''vet'', ''fmt'', ''list'', ''mod''])]"

definition classified :: "CommandClass \<Rightarrow> string \<Rightarrow> string \<Rightarrow> ClassifierResult" where
  "classified k cmd why = \<lparr>CommandClass = k, SafeCommand = cmd, Reason = why\<rparr>"

section \<open>Operations\<close>

definition extractClassifierBaseCommand :: "string \<Rightarrow> string \<times> string \<times> bool" where
  "extractClassifierBaseCommand command =
     (let cleaned = StripAllSafeEnvPrefixes (TrimSpace command);
          filtered = takeWhile (\<lambda>t. \<not> List.member commandStopTokens t) (Tokenize cleaned False)
      in case filtered of
           [] \<Rightarrow> ([], [], False)
         | f0 # fs \<Rightarrow>
             (let hasSudo = List.member privilegePrefixes f0
              in case (if hasSudo then fs else filtered) of
                   [] \<Rightarrow> ([], [], hasSudo)
                 | baseToken # args \<Rightarrow>
                     (let base = (if contains_char baseToken CHR ''='' then baseToken
                                  else let b = ExtractBaseCommand cleaned
                                       in if b = [] then NormalizeBaseToken baseToken else b);
                          subcommand = (case args of [] \<Rightarrow> [] | t # _ \<Rightarrow> t)
                      in (base, subcommand, hasSudo))))"

text \<open>\<open>tokens[1:]\<close> on an empty slice would panic; the callers never reach it with a blank command
  (\<open>classified_command_has_tokens\<close> below).\<close>

definition classifySensitiveRead :: "string \<Rightarrow> string \<Rightarrow> ClassifierResult option" where
  "classifySensitiveRead base command =
     (if \<not> List.member [''cat'', ''head'', ''tail'', ''less'', ''more'', ''grep'', ''rg'', ''awk'', ''sed''] base then None
      else case filter (\<lambda>t. \<not> (t = [] \<or> HasPrefix t ''-'') \<and>
                           (List.member secretReadTargets t \<or> List.member sensitiveReadTargets t))
                  (tl (Tokenize command False)) of
             [] \<Rightarrow> None
           | t # _ \<Rightarrow>
               if List.member secretReadTargets t
               then Some (classified CommandClassDangerous base ''reads process environment secrets'')
               else Some (classified CommandClassNeedsPermission base ''reads sensitive system file''))"

definition hasOutputRedirection :: "string \<Rightarrow> bool" where
  "hasOutputRedirection command =
     list_ex (\<lambda>t. List.member [''>'', ''>>'', ''1>'', ''2>'', ''&>''] t) (Tokenize command False)"

text \<open>The part of \<open>ClassifyCommand\<close> for a single segment.\<close>

definition classify_segment :: "string \<Rightarrow> ClassifierResult" where
  "classify_segment cleaned =
     (if IsBlocking (RunAllSecurityChecks cleaned) then
        classified CommandClassDangerous [] ''blocked by shell security checks''
      else let (base, subcommand, hasSudo) = extractClassifierBaseCommand cleaned in
      if base = [] then classified CommandClassNeedsPermission [] ''could not parse command''
      else if hasSudo then classified CommandClassDangerous [] ''sudo/doas elevates privileges''
      else if List.member dangerousEnvPrefixes base then
        classified CommandClassDangerous [] (base @ '' assignment changes shell parsing'')
      else if contains_char base CHR ''='' then
        classified CommandClassNeedsPermission [] ''command has unsafe env prefix''
      else if hasOutputRedirection cleaned then
        classified CommandClassNeedsPermission [] ''command writes output''
      else case classifySensitiveRead base cleaned of
        Some sensitive \<Rightarrow> sensitive
      | None \<Rightarrow>
          if List.member classifierSafeCommands base then
            classified CommandClassSafe base ([squote] @ base @ [squote] @ '' is read-only'')
          else if (case map_of classifierSafeSubcommands base of
                     None \<Rightarrow> False | Some safeSubs \<Rightarrow> subcommand \<noteq> [] \<and> List.member safeSubs subcommand) then
            classified CommandClassSafe base
              ([squote] @ base @ '' '' @ subcommand @ [squote] @ '' is read-only'')
          else if IsDangerous cleaned then
            classified CommandClassDangerous [] ''matches dangerous pattern''
          else classified CommandClassNeedsPermission [] ''may have side effects'')"

function ClassifyCommand :: "string \<Rightarrow> ClassifierResult" where
  "ClassifyCommand command =
     (let cleaned = TrimSpace command;
          segments = SplitPipeline cleaned
      in if length segments > 1 then
           (if list_ex (\<lambda>segment. CommandClass (ClassifyCommand segment) \<noteq> CommandClassSafe) segments
            then classified CommandClassNeedsPermission [] ''pipeline contains non-safe command''
            else classified CommandClassSafe [] ''all pipeline segments are safe'')
         else classify_segment cleaned)"
  by pat_completeness auto
termination
proof (relation "measure length", goal_cases)
  case (2 command cleaned segments segment)
  then have "length segment < length (TrimSpace command)"
    using SplitPipeline_segment_shorter by blast
  with length_TrimSpace_le [of command] show ?case by simp
qed simp

declare ClassifyCommand.simps [simp del]

section \<open>Library\<close>

lemma classified_sel [simp]:
  "CommandClass (classified k cmd why) = k" "SafeCommand (classified k cmd why) = cmd"
  "Reason (classified k cmd why) = why"
  by (simp_all add: classified_def)

text \<open>With quotes kept, a round of the tokenizer that does not meet a separator leaves an open
  token, and a separator closes the open one.\<close>

lemma tokenize_open_step:
  assumes "cur \<noteq> [] \<or> (ch \<noteq> blank \<and> ch \<noteq> tab)"
  shows "\<exists>cur' inS' inD' rest'. length rest' < length (ch # rest) \<and>
    (tokenize_from False cur inS inD (ch # rest) = tokenize_from False cur' inS' inD' rest' \<and> cur' \<noteq> [] \<or>
     tokenize_from False cur inS inD (ch # rest) \<noteq> [])"
proof (cases "ch = bslash \<and> rest \<noteq> []")
  case True
  then obtain n rest' where r: "rest = n # rest'" by (cases rest) auto
  have "tokenize_from False cur inS inD (ch # rest) =
    (if escapable n then tokenize_from False (cur @ [n]) inS inD rest'
     else tokenize_from False (cur @ [ch]) inS inD rest)"
    using True unfolding r tokenize_from.simps(2) [of False cur inS inD ch "n # rest'"] by simp
  moreover have "length rest' < length (ch # rest)" "length rest < length (ch # rest)" by (simp_all add: r)
  ultimately show ?thesis by (metis snoc_eq_iff_butlast)
next
  case False
  then have "tokenize_from False cur inS inD (ch # rest) =
      (if ch = squote \<and> \<not> inD then tokenize_from False (cur @ [ch]) (\<not> inS) inD rest
       else if ch = dquote \<and> \<not> inS then tokenize_from False (cur @ [ch]) inS (\<not> inD) rest
       else if (ch = blank \<or> ch = tab) \<and> \<not> inS \<and> \<not> inD then flush_token cur @ tokenize_from False [] inS inD rest
       else tokenize_from False (cur @ [ch]) inS inD rest)"
    by (simp only: tokenize_from.simps(2) if_False)
  moreover have "flush_token cur @ ts \<noteq> []" if "ch = blank \<or> ch = tab" for ts
    using assms that by (auto simp: flush_token_def)
  moreover have "length rest < length (ch # rest)" by simp
  ultimately show ?thesis by (metis snoc_eq_iff_butlast)
qed

lemma tokenize_from_open: "cur \<noteq> [] \<Longrightarrow> tokenize_from False cur inS inD s \<noteq> []"
proof (induction "length s" arbitrary: cur inS inD s rule: less_induct)
  case less
  show ?case
  proof (cases s)
    case Nil
    with less.prems show ?thesis by (simp add: flush_token_def)
  next
    case (Cons ch rest)
    with less.prems less.hyps tokenize_open_step [of cur ch rest inS inD] show ?thesis by metis
  qed
qed

lemma Tokenize_nonblank:
  assumes "ch \<noteq> blank" "ch \<noteq> tab"
  shows "Tokenize (ch # rest) False \<noteq> []"
  unfolding Tokenize_def using assms tokenize_open_step [of "[]" ch rest False False] tokenize_from_open by metis

lemma TrimSpace_hd:
  assumes "TrimSpace s = ch # rest"
  shows "\<not> ascii_space ch"
proof -
  from TrimRight_prefix [of "TrimLeft s"] obtain post where "TrimLeft s = TrimSpace s @ post"
    unfolding TrimSpace_def by blast
  then have "TrimLeft s = ch # rest @ post" using assms by simp
  moreover have "space_len wide_spaces (TrimLeft s) = 0" by (simp add: TrimLeft_def trim_front_stable)
  ultimately show ?thesis by (auto simp: space_len_def split: if_splits)
qed

text \<open>A command whose base was found has a token, so the slice expression of
  \<open>classifySensitiveRead\<close> is in range.\<close>

lemma classified_command_has_tokens:
  assumes "fst (extractClassifierBaseCommand (TrimSpace command)) \<noteq> []"
  shows "Tokenize (TrimSpace command) False \<noteq> []"
proof (cases "TrimSpace command")
  case Nil
  have "StripAllSafeEnvPrefixes [] = []" by (simp add: StripAllSafeEnvPrefixes.simps StripSafeEnvVars_def)
  with Nil assms show ?thesis by (simp add: extractClassifierBaseCommand_def Tokenize_def flush_token_def)
next
  case (Cons ch rest)
  with TrimSpace_hd [OF Cons] have "ch \<noteq> blank" "ch \<noteq> tab" by (auto simp: ascii_space_def)
  then show ?thesis unfolding Cons by (rule Tokenize_nonblank)
qed

section \<open>Properties\<close>

text \<open>a command with a blocking finding is classified dangerous when it is a single segment, and is
  never classified safe; elevated privileges likewise.\<close>

theorem blocked_or_privileged_never_safe:
  assumes "length (SplitPipeline (TrimSpace c)) \<le> 1"
    and "IsBlocking (RunAllSecurityChecks (TrimSpace c)) \<or>
         (snd (snd (extractClassifierBaseCommand (TrimSpace c))) \<and> fst (extractClassifierBaseCommand (TrimSpace c)) \<noteq> [])"
  shows "CommandClass (ClassifyCommand c) = CommandClassDangerous"
proof -
  have "ClassifyCommand c = classify_segment (TrimSpace c)"
    using assms(1) by (subst ClassifyCommand.simps) (simp add: Let_def)
  with assms(2) show ?thesis
    by (cases "extractClassifierBaseCommand (TrimSpace c)") (auto simp: classify_segment_def)
qed

theorem blocked_or_privileged_never_safe_witness:
  "CommandClass (ClassifyCommand ''sudo ls'') = CommandClassDangerous \<and>
   CommandClass (ClassifyCommand ''echo $(id)'') = CommandClassDangerous"
proof
  have "length (SplitPipeline (TrimSpace ''sudo ls'')) \<le> 1"
    "snd (snd (extractClassifierBaseCommand (TrimSpace ''sudo ls'')))"
    "fst (extractClassifierBaseCommand (TrimSpace ''sudo ls'')) \<noteq> []" by code_simp+
  then show "CommandClass (ClassifyCommand ''sudo ls'') = CommandClassDangerous"
    by (intro blocked_or_privileged_never_safe) auto
  have "length (SplitPipeline (TrimSpace ''echo $(id)'')) \<le> 1"
    "IsBlocking (RunAllSecurityChecks (TrimSpace ''echo $(id)''))" by code_simp+
  then show "CommandClass (ClassifyCommand ''echo $(id)'') = CommandClassDangerous"
    by (intro blocked_or_privileged_never_safe) auto
qed

text \<open>The list of safe commands is consulted before the dangerous patterns, and redirections are
  recognised as separate tokens only. Two consequences, by evaluation.\<close>

lemma safe_list_shadows_danger:
  "IsDangerous ''env rm -rf /x'' \<and> CommandClass (ClassifyCommand ''env rm -rf /x'') = CommandClassSafe"
  by code_simp

lemma attached_redirection_is_safe:
  "CommandClass (ClassifyCommand ''echo x>/etc/passwd'') = CommandClassSafe"
  by code_simp

end
