(* ===== verification/Bash_Semantics.thy ===== *)
theory Bash_Semantics
  imports Bash_Classifier
begin

text \<open>
  \<open>tools/bash/semantics.go\<close>: what an exit code means for a given command, and the coarse category
  of a command line (search, read, list, write).
\<close>

section \<open>Data and tables\<close>

record ExitCodeInterpretation =
  IsError :: bool
  ExitDescription :: string

definition outcome :: "bool \<Rightarrow> string \<Rightarrow> ExitCodeInterpretation" where
  "outcome e d = \<lparr>IsError = e, ExitDescription = d\<rparr>"

definition exitCodeTables :: "(string \<times> (int \<times> ExitCodeInterpretation) list) list" where
  "exitCodeTables =
    [(''grep'',
       [(0, outcome False ''Match(es) found''),
        (1, outcome False ''No match found (not an error)''),
        (2, outcome True ''Error: invalid pattern or file'')]),
     (''rg'',
       [(0, outcome False ''Match(es) found''),
        (1, outcome False ''No match found (not an error)''),
        (2, outcome True ''Error: invalid pattern or file'')]),
     (''diff'',
       [(0, outcome False ''Files are identical''),
        (1, outcome False ''Files differ (not an error)''),
        (2, outcome True ''Error: cannot compare files'')]),
     (''test'',
       [(0, outcome False ''Condition is true''),
        (1, outcome False ''Condition is false (not an error)''),
        (2, outcome True ''Syntax error in test expression'')]),
     (''['',
       [(0, outcome False ''Condition is true''),
        (1, outcome False ''Condition is false (not an error)''),
        (2, outcome True ''Syntax error in test expression'')]),
     (''find'',
       [(0, outcome False ''Success''),
        (1, outcome True ''Partial failure (some dirs inaccessible)'')]),
     (''cmp'',
       [(0, outcome False ''Files are identical''),
        (1, outcome False ''Files differ (not an error)''),
        (2, outcome True ''Error: cannot compare files'')]),
     (''expr'',
       [(0, outcome False ''Expression is non-zero/non-null''),
        (1, outcome False ''Expression is zero or null''),
        (2, outcome True ''Syntax error in expression''),
        (3, outcome True ''Error: internal error'')]),
     (''pgrep'',
       [(0, outcome False ''Process(es) found''),
        (1, outcome False ''No process found (not an error)''),
        (2, outcome True ''Error: invalid pattern or option''),
        (3, outcome True ''Error: internal error'')]),
     (''which'',
       [(0, outcome False ''Command found''),
        (1, outcome False ''Command not found (not an error)'')]),
     (''type'',
       [(0, outcome False ''Command found''),
        (1, outcome False ''Command not found (not an error)'')]),
     (''command'',
       [(0, outcome False ''Command exists''),
        (1, outcome False ''Command not found (not an error)'')]),
     (''git'',
       [(0, outcome False ''Success''),
        (1, outcome False ''No matches or minor warning''),
        (128, outcome True ''Fatal error'')]),
     (''rsync'',
       [(0, outcome False ''Success''),
        (23, outcome True ''Partial transfer (some files failed)''),
        (24, outcome True ''Partial transfer (source files vanished)'')])]"

definition searchCommands :: "string list" where
  "searchCommands = [''find'', ''grep'', ''rg'', ''ag'', ''ack'', ''locate'', ''which'', ''whereis'']"

definition readCommands :: "string list" where
  "readCommands =
     [''cat'', ''head'', ''tail'', ''less'', ''more'', ''wc'', ''stat'', ''file'', ''jq'', ''awk'', ''cut'',
      ''sort'', ''uniq'', ''tr'']"

definition listCommands :: "string list" where
  "listCommands = [''ls'', ''tree'', ''du'']"

definition semanticNeutralCommands :: "string list" where
  "semanticNeutralCommands = [''echo'', ''printf'', ''true'', ''false'', '':'']"

section \<open>Operations\<close>

definition ResolveBaseCommand :: "string \<Rightarrow> string" where
  "ResolveBaseCommand commandLine = ExtractBaseCommand commandLine"

definition InterpretCommandResult :: "string \<Rightarrow> int \<Rightarrow> ExitCodeInterpretation" where
  "InterpretCommandResult commandLine exitCode =
     (if exitCode = 0 then outcome False ''Success (exit 0)''
      else let base = ResolveBaseCommand commandLine in
      if base = [] then outcome True (''Exit code '' @ show_int exitCode)
      else case Option.bind (map_of exitCodeTables base) (\<lambda>table. map_of table exitCode) of
        Some specific \<Rightarrow> specific
      | None \<Rightarrow>
          if exitCode < 0 then outcome True ''Process terminated by a signal or parent context cancellation''
          else outcome True (''Error (exit code '' @ show_int exitCode @ '')''))"

text \<open>The dash between code and description, in UTF-8.\<close>

definition em_dash :: string where "em_dash = [CHR 0xE2, CHR 0x80, CHR 0x94]"

definition FormatExitCode :: "string \<Rightarrow> int \<Rightarrow> string" where
  "FormatExitCode commandLine exitCode =
     (let i = InterpretCommandResult commandLine exitCode in
      if IsError i
      then ''[Exit code: '' @ show_int exitCode @ '' '' @ em_dash @ '' ERROR: '' @ ExitDescription i @ '']''
      else ''[Exit code: '' @ show_int exitCode @ '' '' @ em_dash @ '' '' @ ExitDescription i @ '']'')"

definition ParseBase :: "string \<Rightarrow> string \<times> string" where
  "ParseBase command =
     (case Fields (TrimSpace command) of
        [] \<Rightarrow> ([], [])
      | t0 # ts \<Rightarrow>
          (after_last slash t0,
           (case ts of [] \<Rightarrow> [] | t1 # _ \<Rightarrow> if HasPrefix t1 ''-'' then [] else t1)))"

text \<open>The loop of \<open>IsSearchOrReadBashCommand\<close>, with the number of meaningful segments so far.\<close>

fun only_reads :: "int \<Rightarrow> string list \<Rightarrow> bool" where
  "only_reads meaningful [] = (meaningful > 0)"
| "only_reads meaningful (seg # segs) =
     (let base = fst (ParseBase seg) in
      if List.member semanticNeutralCommands base then only_reads meaningful segs
      else if \<not> List.member searchCommands base \<and> \<not> List.member readCommands base \<and>
              \<not> List.member listCommands base then False
      else only_reads (meaningful + 1) segs)"

definition IsSearchOrReadBashCommand :: "string \<Rightarrow> bool" where
  "IsSearchOrReadBashCommand commandLine = only_reads 0 (SplitPipeline commandLine)"

definition add_category :: "string list \<Rightarrow> string \<Rightarrow> string list" where
  "add_category categories seg =
     (let base = fst (ParseBase seg) in
      if List.member semanticNeutralCommands base then categories
      else if List.member searchCommands base then set_add ''search'' categories
      else if List.member readCommands base then set_add ''read'' categories
      else if List.member listCommands base then set_add ''list'' categories
      else set_add ''write'' categories)"

definition ClassifyBashCommand :: "string \<Rightarrow> string" where
  "ClassifyBashCommand commandLine =
     (let categories = foldl add_category [] (SplitPipeline commandLine) in
      if List.member categories ''write'' then ''write''
      else if List.member categories ''search'' \<and>
              filter (\<lambda>c. \<not> List.member [''search'', ''read''] c) categories = [] then ''search''
      else if List.member categories ''read'' then ''read''
      else if List.member categories ''list'' then ''list''
      else ''unknown'')"

section \<open>Library\<close>

lemma outcome_sel [simp]: "IsError (outcome e d) = e" "ExitDescription (outcome e d) = d"
  by (simp_all add: outcome_def)

definition category_of :: "string \<Rightarrow> string set" where
  "category_of seg =
     (let base = fst (ParseBase seg) in
      if base \<in> set semanticNeutralCommands then {}
      else if base \<in> set searchCommands then {''search''}
      else if base \<in> set readCommands then {''read''}
      else if base \<in> set listCommands then {''list''}
      else {''write''})"

lemma set_add_category: "set (add_category cs seg) = set cs \<union> category_of seg"
  by (simp add: add_category_def category_of_def Let_def)

lemma set_categories: "set (foldl add_category cs segs) = set cs \<union> (\<Union>seg \<in> set segs. category_of seg)"
  by (induction segs arbitrary: cs) (auto simp: set_add_category)

lemma only_reads_iff:
  "only_reads n segs \<longleftrightarrow>
     (\<forall>seg \<in> set segs. ''write'' \<notin> category_of seg) \<and> (n > 0 \<or> (\<exists>seg \<in> set segs. category_of seg \<noteq> {}))"
  if "n \<ge> 0"
  using that by (induction n segs rule: only_reads.induct) (auto simp: category_of_def Let_def)

lemma category_range: "category_of seg \<subseteq> {''search'', ''read'', ''list'', ''write''}"
  by (simp add: category_of_def Let_def)

section \<open>Properties\<close>

text \<open>an exit code is reported as no error exactly when it is zero or the table of the line's base
  command lists it as harmless.\<close>

theorem exit_code_harmless_iff:
  "\<not> IsError (InterpretCommandResult c code) \<longleftrightarrow>
     code = 0 \<or>
     (ExtractBaseCommand c \<noteq> [] \<and>
      (\<exists>table i. map_of exitCodeTables (ExtractBaseCommand c) = Some table \<and> map_of table code = Some i \<and> \<not> IsError i))"
  by (cases "map_of exitCodeTables (ExtractBaseCommand c)")
    (auto simp: InterpretCommandResult_def ResolveBaseCommand_def Let_def split: option.splits)

text \<open>the two views of a command line agree: it counts as a search or read command exactly when its
  category is search, read or list, that is neither write nor unknown.\<close>

theorem search_or_read_iff_category:
  "IsSearchOrReadBashCommand c \<longleftrightarrow> ClassifyBashCommand c \<in> {''search'', ''read'', ''list''}"
proof -
  define K where "K = (\<Union>seg \<in> set (SplitPipeline c). category_of seg)"
  have K: "set (foldl add_category [] (SplitPipeline c)) = K" by (simp add: set_categories K_def)
  have range: "K \<subseteq> {''search'', ''read'', ''list'', ''write''}" unfolding K_def using category_range by blast
  have "IsSearchOrReadBashCommand c \<longleftrightarrow> ''write'' \<notin> K \<and> K \<noteq> {}"
    unfolding IsSearchOrReadBashCommand_def K_def by (subst only_reads_iff) auto
  moreover have "ClassifyBashCommand c \<in> {''search'', ''read'', ''list''} \<longleftrightarrow> ''write'' \<notin> K \<and> K \<noteq> {}"
  proof -
    let ?cats = "foldl add_category [] (SplitPipeline c)"
    have mem: "List.member ?cats k \<longleftrightarrow> k \<in> K" for k using K by simp
    have filt: "filter (\<lambda>c. \<not> List.member [''search'', ''read''] c) ?cats = [] \<longleftrightarrow> K \<subseteq> {''search'', ''read''}"
      unfolding K [symmetric] by (simp add: filter_empty_conv subset_iff Ball_def)
    have "K \<noteq> {} \<longleftrightarrow> ''search'' \<in> K \<or> ''read'' \<in> K \<or> ''list'' \<in> K \<or> ''write'' \<in> K"
      using range by (simp only: subset_iff insert_iff empty_iff) blast
    moreover have "''search'' \<in> K \<Longrightarrow> ''read'' \<notin> K \<Longrightarrow> ''list'' \<notin> K \<Longrightarrow> ''write'' \<notin> K \<Longrightarrow> K \<subseteq> {''search'', ''read''}"
      using range by (simp only: subset_iff insert_iff empty_iff) blast
    ultimately show ?thesis
      unfolding ClassifyBashCommand_def Let_def mem filt by (simp split: if_split) blast
  qed
  ultimately show ?thesis by blast
qed

end
