(* ===== verification/Bash_Sed.thy ===== *)
theory Bash_Sed
  imports Bash_Semantics
begin

text \<open>
  \<open>tools/bash/sed_validation.go\<close>: which \<open>sed\<close> invocations are approved automatically. The
  expressions are taken from the tokens of the command and validated one by one; an expression
  with semicolons is split and its parts are validated recursively.
\<close>

section \<open>Data\<close>

record SedValidationResult =
  Safe :: bool
  SedReason :: string
  NeedsFilePermission :: bool
  FilePaths :: "string list"

definition sed_verdict :: "bool \<Rightarrow> string \<Rightarrow> SedValidationResult" where
  "sed_verdict ok why = \<lparr>Safe = ok, SedReason = why, NeedsFilePermission = False, FilePaths = []\<rparr>"

definition safeSubstituteFlagsRE :: regex where
  "safeSubstituteFlagsRE =
     seqs [RBegin, RStar (RChr (\<lambda>d. List.member ''gpiImM'' d \<or> range CHR ''1'' CHR ''9'' d)), REnd]"

definition sedWriteCommandsRE :: regex where "sedWriteCommandsRE = cls ''wW''"
definition sedExecuteFlagsRE :: regex where "sedExecuteFlagsRE = cls ''eE''"

definition addressNegationRE :: regex where
  "addressNegationRE = seqs [RAlt (RSeq (lit ''/'') dots) dig, lit ''!'', RStar (lit '' ''), RChr alpha]"

definition leadingNegationRE :: regex where
  "leadingNegationRE = seqs [RBegin, lit ''!'', sp0, RChr alpha]"

definition inplaceCommandRE :: regex where
  "inplaceCommandRE = seqs [RAlt RBegin (RChr (\<lambda>d. \<not> alpha d)), cls ''daic'', sp]"

definition printOnlyRE :: regex where
  "printOnlyRE =
     seqs [RBegin, RStar (RChr (\<lambda>d. digit d \<or> d = CHR '','' \<or> re_space d \<or> d = CHR '';'' \<or> d = CHR ''$'')),
           lit ''p'', RStar (RChr (\<lambda>d. digit d \<or> d = CHR '';'')), REnd]"

section \<open>Operations\<close>

definition looksLikeSedScript :: "string \<Rightarrow> bool" where
  "looksLikeSedScript token \<longleftrightarrow>
     MatchString (seqs [RBegin, cls ''sdyapicq'']) token \<or>
     MatchString (seqs [RBegin, RChr (\<lambda>d. digit d \<or> d = CHR '','' \<or> d = CHR ''$'')]) token \<or>
     HasPrefix token ''/''"

fun sed_expressions :: "string list \<Rightarrow> string list \<Rightarrow> string list" where
  "sed_expressions expressions [] = expressions"
| "sed_expressions expressions (token # rest) =
     (if token = ''sed'' then sed_expressions expressions rest
      else if token = ''-e'' \<or> token = ''--expression'' then
        (case rest of
           e # rest' \<Rightarrow> sed_expressions (expressions @ [e]) rest'
         | [] \<Rightarrow> sed_expressions expressions rest)
      else if token = ''-f'' \<or> token = ''--file'' then []
      else if HasPrefix token ''-'' then sed_expressions expressions rest
      else sed_expressions (if looksLikeSedScript token then expressions @ [token] else expressions) rest)"

definition extractSedExpressions :: "string \<Rightarrow> string list" where
  "extractSedExpressions command = sed_expressions [] (Tokenize command True)"

fun split_sed :: "string \<Rightarrow> bool \<Rightarrow> string \<Rightarrow> string list" where
  "split_sed current inSingle [] = (if current = [] then [] else [current])"
| "split_sed current inSingle (ch # rest) =
     (if ch = squote then split_sed (current @ [ch]) (\<not> inSingle) rest
      else if ch = CHR '';'' \<and> \<not> inSingle then current # split_sed [] inSingle rest
      else split_sed (current @ [ch]) inSingle rest)"

definition splitSedExpressions :: "string \<Rightarrow> string list" where
  "splitSedExpressions expr = split_sed [] False expr"

definition inplaceSuffix :: "string \<Rightarrow> bool" where
  "inplaceSuffix token = MatchString (RSeq RBegin (lit ''-i.'')) token"

definition hasInplaceFlag :: "string \<Rightarrow> bool" where
  "hasInplaceFlag command =
     list_ex (\<lambda>token. token = ''-i'' \<or> HasPrefix token ''--in-place'' \<or> inplaceSuffix token) (Tokenize command True)"

fun sed_file_args :: "bool \<Rightarrow> string list \<Rightarrow> string list" where
  "sed_file_args pastScript [] = []"
| "sed_file_args pastScript (token # rest) =
     (if token = ''sed'' then sed_file_args pastScript rest
      else if token = ''-i'' \<or> token = ''--in-place'' \<or> inplaceSuffix token then sed_file_args pastScript rest
      else if List.member [''-n'', ''--quiet'', ''--silent'', ''-e'', ''--expression'', ''-f'', ''--file''] token
      then sed_file_args pastScript rest
      else if HasPrefix token ''-'' \<and> length token > 1 \<and> token ! 1 \<noteq> CHR ''-'' then sed_file_args pastScript rest
      else if looksLikeSedScript token then sed_file_args True rest
      else if pastScript then token # sed_file_args pastScript rest
      else sed_file_args pastScript rest)"

definition extractSedFileArgs :: "string \<Rightarrow> string list" where
  "extractSedFileArgs command = sed_file_args False (Tokenize command True)"

text \<open>The loop of \<open>parseSedSubstituteFlags\<close> from index 2 on: the text after the third unescaped
  delimiter, if there is one.\<close>

fun sed_flags :: "char \<Rightarrow> nat \<Rightarrow> bool \<Rightarrow> string \<Rightarrow> string option" where
  "sed_flags delimiter parts escaped [] = None"
| "sed_flags delimiter parts escaped (ch # rest) =
     (if escaped then sed_flags delimiter parts False rest
      else if ch = bslash then sed_flags delimiter parts True rest
      else if ch = delimiter then
        (if Suc parts = 3 then Some rest else sed_flags delimiter (Suc parts) False rest)
      else sed_flags delimiter parts False rest)"

definition parseSedSubstituteFlags :: "string \<Rightarrow> string option" where
  "parseSedSubstituteFlags expr =
     (if length expr < 4 \<or> expr ! 0 \<noteq> CHR ''s'' then None
      else let delimiter = expr ! 1 in
        if lower delimiter \<or> upper delimiter \<or> digit delimiter \<or> delimiter = CHR '' '' \<or>
           delimiter = CHR 0x09 \<or> delimiter = CHR 0x0A \<or> delimiter = CHR 0x0D then None
        else sed_flags delimiter 0 False (drop 2 expr))"

lemma split_sed_bound:
  "sum_list (map length (split_sed cur inS s)) + (length (split_sed cur inS s) - 1) \<le> length cur + length s"
proof (induction cur inS s rule: split_sed.induct)
  case (2 current inSingle ch rest)
  show ?case
  proof (cases "ch = CHR '';'' \<and> \<not> inSingle")
    case True
    with 2 show ?thesis by (cases "split_sed [] inSingle rest") (auto simp: True)
  qed (use 2 in auto)
qed simp

lemma splitSed_part_shorter:
  assumes "length (splitSedExpressions expr) > 1" "part \<in> set (splitSedExpressions expr)"
  shows "length (TrimSpace part) < length expr"
proof -
  have "length part \<le> sum_list (map length (splitSedExpressions expr))"
    using assms(2) by (rule member_length_le_sum)
  with assms(1) split_sed_bound [of "[]" False expr] length_TrimSpace_le [of part] show ?thesis
    by (simp add: splitSedExpressions_def)
qed

text \<open>The loop over the parts returns the first verdict that is not safe.\<close>

function validateSingleSedExpression :: "string \<Rightarrow> bool \<Rightarrow> SedValidationResult" where
  "validateSingleSedExpression expr hasInplace =
     (if expr = [] then sed_verdict False ''Empty expression''
      else if \<not> IsASCII expr then sed_verdict False ''Expression contains non-ASCII characters''
      else if HasPrefix expr [CHR ''s'', bslash] then sed_verdict False ''Backslash delimiter in substitute command''
      else if contains_char expr CHR ''{'' \<or> contains_char expr CHR ''}'' then
        sed_verdict False ''Script blocks {} are not auto-approved''
      else let trimmed = TrimSpace expr in
      if contains_char expr CHR ''!'' \<and> \<not> HasPrefix expr ''#!'' \<and>
         (MatchString addressNegationRE expr \<or> MatchString leadingNegationRE trimmed) then
        sed_verdict False ''Address negation (!) is not auto-approved''
      else if MatchString sedExecuteFlagsRE expr then
        sed_verdict False ''Execute flag (e/E) can run arbitrary shell commands''
      else if MatchString sedWriteCommandsRE expr then
        sed_verdict False ''Write command (w/W) can write to arbitrary files''
      else if hasInplace \<and> MatchString inplaceCommandRE expr then
        (let m = FindString inplaceCommandRE expr
         in sed_verdict False ([squote, m ! (length m - 2), squote] @ '' command with -i modifies files''))
      else if MatchString printOnlyRE trimmed then sed_verdict True ''Safe: line printing only (p command)''
      else if (case parseSedSubstituteFlags trimmed of
                 None \<Rightarrow> False
               | Some flags \<Rightarrow> flags = [] \<or> MatchString safeSubstituteFlagsRE flags) then
        sed_verdict True ''Safe: substitution with allowed flags''
      else let parts = splitSedExpressions expr in
      if contains_char expr CHR '';'' \<and> length parts > 1 then
        (case find (\<lambda>r. \<not> Safe r) (map (\<lambda>part. validateSingleSedExpression (TrimSpace part) hasInplace) parts) of
           Some result \<Rightarrow> result
         | None \<Rightarrow> sed_verdict True ''Safe: all sub-expressions passed'')
      else sed_verdict False ''Expression does not match any safe pattern'')"
  by pat_completeness auto
termination
proof (relation "measure (\<lambda>(expr, _). length expr)", goal_cases)
  case (2 expr hasInplace trimmed parts part)
  then have "length (TrimSpace part) < length expr" using splitSed_part_shorter by blast
  then show ?case by simp
qed simp

declare validateSingleSedExpression.simps [simp del]

definition ValidateSedCommand :: "string \<Rightarrow> SedValidationResult" where
  "ValidateSedCommand command =
     (if TrimSpace command = [] then sed_verdict False ''Empty command''
      else let expressions = extractSedExpressions command in
      if expressions = [] then sed_verdict False ''Could not parse sed expression''
      else let hasIFlag = hasInplaceFlag command in
      case find (\<lambda>r. \<not> Safe r) (map (\<lambda>expr. validateSingleSedExpression expr hasIFlag) expressions) of
        Some result \<Rightarrow> result
      | None \<Rightarrow>
          \<lparr>Safe = True, SedReason = ''Safe sed operation'', NeedsFilePermission = hasIFlag,
           FilePaths = (if hasIFlag then extractSedFileArgs command else [])\<rparr>)"

section \<open>Properties\<close>

lemma sed_verdict_sel [simp]: "Safe (sed_verdict ok why) = ok" by (simp add: sed_verdict_def)

lemma MatchString_cls: "MatchString (cls w) s \<longleftrightarrow> (\<exists>c \<in> set w. c \<in> set s)"
proof
  assume "MatchString (cls w) s"
  then show "\<exists>c \<in> set w. c \<in> set s"
    by (auto simp: MatchString_iff cls_def elim!: reaches.cases)
next
  assume "\<exists>c \<in> set w. c \<in> set s"
  then obtain c where c: "c \<in> set w" "c \<in> set s" by blast
  then obtain pre post where s: "s = pre @ c # post" by (meson split_list)
  have "reaches (cls w) (before pre, c # post) (Some c, post)"
    using c by (auto simp: cls_def intro: reaches.intros)
  then show "MatchString (cls w) s" unfolding MatchString_iff s by blast
qed

lemma find_unsafe_None:
  "find (\<lambda>r. \<not> Safe r) (map f xs) = None \<longleftrightarrow> (\<forall>x \<in> set xs. Safe (f x))"
  by (auto simp: find_None_iff)

lemma find_unsafe_Some: "find (\<lambda>r. \<not> Safe r) rs = Some r \<Longrightarrow> \<not> Safe r"
  by (metis (mono_tags, lifting) find_Some_iff)

text \<open>The characters whose presence makes an expression unsafe.\<close>

definition sed_forbidden :: "char set" where
  "sed_forbidden = {CHR ''e'', CHR ''E'', CHR ''w'', CHR ''W'', CHR ''{'', CHR ''}''}"

lemma safe_expression_plain:
  assumes "Safe (validateSingleSedExpression expr hasInplace)"
  shows "expr \<noteq> [] \<and> IsASCII expr \<and> set expr \<inter> sed_forbidden = {} \<and>
         (hasInplace \<longrightarrow> \<not> MatchString inplaceCommandRE expr)"
proof -
  have "\<not> MatchString sedExecuteFlagsRE expr" "\<not> MatchString sedWriteCommandsRE expr" "expr \<noteq> []" "IsASCII expr"
    "CHR ''{'' \<notin> set expr" "CHR ''}'' \<notin> set expr" "hasInplace \<Longrightarrow> \<not> MatchString inplaceCommandRE expr"
    using assms by (subst (asm) validateSingleSedExpression.simps, simp add: Let_def split: if_split_asm)+
  then show ?thesis
    by (auto simp: sed_forbidden_def sedExecuteFlagsRE_def sedWriteCommandsRE_def MatchString_cls)
qed

lemma sed_flags_skip:
  "list_all (\<lambda>c. c \<noteq> d \<and> c \<noteq> bslash) w \<Longrightarrow> sed_flags d n False (w @ rest) = sed_flags d n False rest"
  by (induction w) auto

lemma ValidateSed_safe:
  assumes "Safe (ValidateSedCommand command)"
  shows "extractSedExpressions command \<noteq> []"
    and "expr \<in> set (extractSedExpressions command) \<Longrightarrow> Safe (validateSingleSedExpression expr (hasInplaceFlag command))"
    and "NeedsFilePermission (ValidateSedCommand command) = hasInplaceFlag command"
    and "FilePaths (ValidateSedCommand command) = (if hasInplaceFlag command then extractSedFileArgs command else [])"
proof -
  let ?find = "find (\<lambda>r. \<not> Safe r)
    (map (\<lambda>expr. validateSingleSedExpression expr (hasInplaceFlag command)) (extractSedExpressions command))"
  have ne: "TrimSpace command \<noteq> []" "extractSedExpressions command \<noteq> []"
    using assms by (auto simp: ValidateSedCommand_def Let_def split: if_splits)
  moreover have none: "?find = None"
  proof (cases ?find)
    case (Some r)
    with assms ne find_unsafe_Some [OF Some] show ?thesis by (simp add: ValidateSedCommand_def Let_def)
  qed
  ultimately show "extractSedExpressions command \<noteq> []"
    "NeedsFilePermission (ValidateSedCommand command) = hasInplaceFlag command"
    "FilePaths (ValidateSedCommand command) = (if hasInplaceFlag command then extractSedFileArgs command else [])"
    by (simp_all add: ValidateSedCommand_def Let_def)
  show "Safe (validateSingleSedExpression expr (hasInplaceFlag command))" if "expr \<in> set (extractSedExpressions command)"
    using none that unfolding find_unsafe_None by blast
qed

text \<open>a \<open>sed\<close> command that is approved has at least one expression, and none of its expressions
  contains a character that could execute or write (\<open>e\<close>, \<open>w\<close> in either case) or open a block;
  when it edits in place, file permission is required and no expression is a delete, append, insert
  or change command.\<close>

theorem approved_sed_is_harmless:
  assumes "Safe (ValidateSedCommand command)"
  shows "extractSedExpressions command \<noteq> [] \<and>
    (\<forall>expr \<in> set (extractSedExpressions command).
       expr \<noteq> [] \<and> IsASCII expr \<and> set expr \<inter> sed_forbidden = {} \<and>
       (hasInplaceFlag command \<longrightarrow> \<not> MatchString inplaceCommandRE expr)) \<and>
    NeedsFilePermission (ValidateSedCommand command) = hasInplaceFlag command"
  using ValidateSed_safe [OF assms] safe_expression_plain by blast

theorem approved_sed_is_harmless_witness:
  "Safe (ValidateSedCommand ''sed -n 1,5p f'') \<and> \<not> NeedsFilePermission (ValidateSedCommand ''sed -n 1,5p f'')"
proof -
  have "Safe (ValidateSedCommand ''sed -n 1,5p f'')" "\<not> hasInplaceFlag ''sed -n 1,5p f''" by code_simp+
  with approved_sed_is_harmless [OF this(1)] show ?thesis by blast
qed

text \<open>the flags of a substitution are looked for after a third delimiter behind the first one, so
  the flags of an ordinary substitution, written with three delimiters in all, are never found: such
  an expression is not approved, whatever its flags.\<close>

theorem ordinary_substitution_never_parsed:
  assumes "list_all (\<lambda>c. c \<noteq> d \<and> c \<noteq> bslash) pat" "list_all (\<lambda>c. c \<noteq> d \<and> c \<noteq> bslash) repl"
    and "list_all (\<lambda>c. c \<noteq> d \<and> c \<noteq> bslash) flags" "d \<noteq> bslash"
  shows "parseSedSubstituteFlags (CHR ''s'' # d # pat @ d # repl @ d # flags) = None"
proof -
  have "sed_flags d 0 False (pat @ d # repl @ d # flags) = sed_flags d 0 False (d # repl @ d # flags)"
    by (rule sed_flags_skip [OF assms(1)])
  also have "\<dots> = sed_flags d 1 False (repl @ d # flags)" using assms(4) by simp
  also have "\<dots> = sed_flags d 1 False (d # flags)" by (rule sed_flags_skip [OF assms(2)])
  also have "\<dots> = sed_flags d 2 False (flags @ [])" using assms(4) by (simp add: numeral_2_eq_2)
  also have "\<dots> = None" by (subst sed_flags_skip [OF assms(3)]) simp
  finally show ?thesis by (simp add: parseSedSubstituteFlags_def Let_def)
qed

theorem ordinary_substitution_never_parsed_witness:
  "parseSedSubstituteFlags ''s/a/b/g'' = None \<and> \<not> Safe (ValidateSedCommand ''sed s/a/b/g f'')"
proof
  show "parseSedSubstituteFlags ''s/a/b/g'' = None"
    using ordinary_substitution_never_parsed [of "CHR ''/''" "''a''" "''b''" "''g''"] by simp
  show "\<not> Safe (ValidateSedCommand ''sed s/a/b/g f'')" by code_simp
qed

end
