(* ===== verification/Bash_Validation.thy ===== *)
theory Bash_Validation
  imports Bash_Sed
begin

text \<open>
  \<open>tools/bash/validation.go\<close>: destructive-command warnings, the extraction of the paths a command
  names, and the check that those paths stay within the workspace. The file system is the
  environment of \<open>Go_Path\<close>.
\<close>

section \<open>Whether \<open>strconv.ParseFloat\<close> accepts a string\<close>

text \<open>\<open>find\<close> arguments such as \<open>-5\<close> are told from options by \<open>ParseFloat(t, 64)\<close>. Only whether it
  reports an error matters: the syntax of decimal and hexadecimal floats with underscores, and a
  range error from the value half-way between the largest double and the next power of two.\<close>

definition digit_value :: "char \<Rightarrow> nat" where
  "digit_value c = (let n = of_char c :: nat in if n < 58 then n - 48 else if n < 91 then n - 55 else n - 87)"

definition float_digit :: "bool \<Rightarrow> char \<Rightarrow> bool" where
  "float_digit hex c \<longleftrightarrow> digit c \<or> (hex \<and> (range CHR ''a'' CHR ''f'' c \<or> range CHR ''A'' CHR ''F'' c))"

fun scan_mantissa :: "bool \<Rightarrow> bool \<Rightarrow> bool \<Rightarrow> nat \<Rightarrow> nat \<Rightarrow> string \<Rightarrow> bool \<times> nat \<times> nat \<times> string" where
  "scan_mantissa hex dot saw m k [] = (saw, m, k, [])"
| "scan_mantissa hex dot saw m k (c # cs) =
     (if c = CHR ''_'' then scan_mantissa hex dot saw m k cs
      else if c = CHR ''.'' \<and> \<not> dot then scan_mantissa hex True saw m k cs
      else if float_digit hex c then
        scan_mantissa hex dot True (m * (if hex then 16 else 10) + digit_value c) (if dot then Suc k else k) cs
      else (saw, m, k, c # cs))"

fun scan_exponent :: "nat \<Rightarrow> string \<Rightarrow> nat \<times> string" where
  "scan_exponent e [] = (e, [])"
| "scan_exponent e (c # cs) =
     (if c = CHR ''_'' then scan_exponent e cs
      else if digit c then scan_exponent (if e < 10000 then e * 10 + digit_value c else e) cs
      else (e, c # cs))"

fun underscores_ok :: "bool \<Rightarrow> char \<Rightarrow> string \<Rightarrow> bool" where
  "underscores_ok hex prev [] = (prev \<noteq> CHR ''_'')"
| "underscores_ok hex prev (c # cs) =
     (if float_digit hex c then underscores_ok hex CHR ''0'' cs
      else if c = CHR ''_'' then prev = CHR ''0'' \<and> underscores_ok hex CHR ''_'' cs
      else prev \<noteq> CHR ''_'' \<and> underscores_ok hex CHR ''!'' cs)"

definition based :: "string \<Rightarrow> string \<Rightarrow> bool" where
  "based s letters \<longleftrightarrow> length s \<ge> 2 \<and> s ! 0 = CHR ''0'' \<and> List.member letters (s ! 1)"

definition underscoreOK :: "string \<Rightarrow> bool" where
  "underscoreOK s =
     (if based s ''bBoOxX'' then underscores_ok (based s ''xX'') CHR ''0'' (drop 2 s)
      else underscores_ok False CHR ''^'' s)"

definition in_float_range :: "bool \<Rightarrow> nat \<Rightarrow> nat \<Rightarrow> int \<Rightarrow> bool" where
  "in_float_range hex m k e =
     (let x = (if hex then e - 4 * int k else e - int k);
          b = (if hex then 2 else 10) :: nat;
          limit = 2 ^ 1024 - 2 ^ 970 :: nat
      in if x \<ge> 0 then m * b ^ nat x < limit else m < limit * b ^ nat (- x))"

definition float_number_ok :: "string \<Rightarrow> bool" where
  "float_number_ok s =
     (let hex = based s ''xX'' \<and> length s > 2;
          (saw, m, k, rest) = scan_mantissa hex False False 0 0 (if hex then drop 2 s else s)
      in saw \<and> (contains_char s CHR ''_'' \<longrightarrow> underscoreOK s) \<and>
         (case rest of
            [] \<Rightarrow> \<not> hex \<and> in_float_range False m k 0
          | c # cs \<Rightarrow>
              List.member (if hex then ''pP'' else ''eE'') c \<and>
              (let neg = HasPrefix cs ''-'';
                   ds = (if HasPrefix cs ''+'' \<or> neg then tl cs else cs);
                   (e, rest') = scan_exponent 0 ds
               in ds \<noteq> [] \<and> digit (hd ds) \<and> rest' = [] \<and>
                  in_float_range hex m k (if neg then - int e else int e))))"

definition lower_string :: "string \<Rightarrow> string" where
  "lower_string s = map (\<lambda>c. if upper c then swap_case c else c) s"

definition ParseFloat_ok :: "string \<Rightarrow> bool" where
  "ParseFloat_ok s =
     (let signed = HasPrefix s ''+'' \<or> HasPrefix s ''-'';
          body = (if signed then tl s else s)
      in List.member [''inf'', ''infinity''] (lower_string body) \<or>
         (\<not> signed \<and> lower_string body = ''nan'') \<or> float_number_ok body)"

section \<open>Tables\<close>

definition pathCommandStrategies :: "(string \<times> string) list" where
  "pathCommandStrategies =
    [(''cd'', ''cd''), (''rm'', ''all_args''), (''rmdir'', ''all_args''), (''mv'', ''all_args''),
     (''cp'', ''all_args''), (''cat'', ''all_args''), (''head'', ''all_args''), (''tail'', ''all_args''),
     (''less'', ''all_args''), (''more'', ''all_args''), (''grep'', ''grep''), (''rg'', ''grep''),
     (''find'', ''find''), (''touch'', ''all_args''), (''mkdir'', ''all_args''), (''chmod'', ''all_args''),
     (''chown'', ''chown''), (''ln'', ''all_args''), (''stat'', ''all_args''), (''file'', ''all_args''),
     (''du'', ''all_args''), (''df'', ''all_args''), (''source'', ''first_arg''), (''.'', ''first_arg''),
     (''code'', ''all_args''), (''vim'', ''all_args''), (''nvim'', ''all_args''), (''nano'', ''all_args''),
     (''emacs'', ''all_args''), (''python'', ''first_arg''), (''python3'', ''first_arg''),
     (''node'', ''first_arg'')]"

record destructivePattern =
  Pattern :: regex
  PatternText :: string
  PatternCategory :: string
  PatternMessage :: string

record DestructiveWarning =
  Category :: string
  Message :: string
  WarningPattern :: string

definition destructive :: "regex \<Rightarrow> string \<Rightarrow> string \<Rightarrow> string \<Rightarrow> destructivePattern" where
  "destructive re txt cat msg =
     \<lparr>Pattern = re, PatternText = ''(?i)'' @ txt, PatternCategory = cat, PatternMessage = msg\<rparr>"

abbreviation bs :: "string \<Rightarrow> string" where "bs s \<equiv> bslash # s"

definition destructivePatterns :: "destructivePattern list" where
  "destructivePatterns =
    [destructive (seqs [ilit ''git'', sp1, ilit ''reset'', sp1, ilit ''--hard''])
       (''git'' @ bs ''s+reset'' @ bs ''s+--hard'') ''Git data loss'' ''may discard uncommitted changes'',
     destructive (seqs [ilit ''git'', sp1, ilit ''push'', sp1, dots, RAlt (ilit ''--force'') (RSeq (ilit ''-f'') RWordB)])
       (''git'' @ bs ''s+push'' @ bs ''s+.*(?:--force|-f'' @ bs ''b)'') ''Git history overwrite'' ''may overwrite remote history'',
     destructive (ilit ''--no-verify'') ''--no-verify'' ''Git safety bypass'' ''may skip safety hooks'',
     destructive (seqs [ilit ''git'', sp1, ilit ''commit'', sp1, ilit ''--amend''])
       (''git'' @ bs ''s+commit'' @ bs ''s+--amend'') ''Git commit overwrite'' ''may rewrite the last commit'',
     destructive (seqs [ilit ''rm'', sp1, dots, alts [ilit ''-r'', ilit ''-rf'', ilit ''--recursive'']])
       (''rm'' @ bs ''s+.*(?:-r|-rf|--recursive)'') ''Recursive force delete'' ''may recursively force-remove files'',
     destructive (seqs [RWordB, ilit ''DROP'', sp1, ilit ''TABLE''])
       (bs ''bDROP'' @ bs ''s+TABLE'') ''Database drop'' ''may drop database objects'',
     destructive (seqs [RWordB, ilit ''TRUNCATE'', sp1])
       (bs ''bTRUNCATE'' @ bs ''s+'') ''Database truncate'' ''may truncate database objects'',
     destructive (seqs [RWordB, ilit ''DELETE'', sp1, ilit ''FROM'', sp1, plus wch, sp0, lit '';''])
       (bs ''bDELETE'' @ bs ''s+FROM'' @ bs ''s+'' @ bs ''w+'' @ bs ''s*;'')
       ''Database delete (no WHERE)'' ''may delete all rows'',
     destructive (seqs [RWordB, ilit ''kubectl'', sp1, ilit ''delete'', RWordB])
       (bs ''bkubectl'' @ bs ''s+delete'' @ bs ''b'') ''Kubernetes delete'' ''may delete Kubernetes resources'',
     destructive (seqs [RWordB, ilit ''terraform'', sp1, ilit ''destroy'', RWordB])
       (bs ''bterraform'' @ bs ''s+destroy'' @ bs ''b'') ''Terraform destroy'' ''may destroy Terraform infrastructure'',
     destructive (seqs [RWordB, ilit ''DROP'', sp1, ilit ''DATABASE''])
       (bs ''bDROP'' @ bs ''s+DATABASE'') ''Database drop'' ''may drop entire database'',
     destructive (seqs [RWordB, ilit ''docker'', sp1, ilit ''rm'', RWordB])
       (bs ''bdocker'' @ bs ''s+rm'' @ bs ''b'') ''Docker remove'' ''may remove Docker containers'',
     destructive (seqs [RWordB, ilit ''docker'', sp1, ilit ''rmi'', RWordB])
       (bs ''bdocker'' @ bs ''s+rmi'' @ bs ''b'') ''Docker remove image'' ''may remove Docker images'',
     destructive (seqs [RWordB, ilit ''docker'', sp1, ilit ''system'', sp1, ilit ''prune'', RWordB])
       (bs ''bdocker'' @ bs ''s+system'' @ bs ''s+prune'' @ bs ''b'') ''Docker prune'' ''may remove unused Docker data'',
     destructive (seqs [lit '':'', sp0, lit ''()'', sp0, lit ''{''])
       ('':'' @ bs ''s*'' @ bs ''('' @ bs '')'' @ bs ''s*'' @ bs ''{'') ''Fork bomb'' ''fork bomb pattern detected'']"

definition CheckDestructiveWarnings :: "string \<Rightarrow> DestructiveWarning list" where
  "CheckDestructiveWarnings command =
     map (\<lambda>item. \<lparr>Category = PatternCategory item, Message = PatternMessage item, WarningPattern = PatternText item\<rparr>)
       (filter (\<lambda>item. MatchString (Pattern item) command) destructivePatterns)"

definition absoluteDestroyPattern :: regex where
  "absoluteDestroyPattern =
     seqs [RWordB, ilit ''rm'', sp1, dots, alts [ilit ''-r'', ilit ''-rf'', ilit ''--recursive''], sp1,
           alts [RSeq (lit ''/'') sp, lit ''/*'', lit ''~'']]"

definition IsAbsoluteDestroy :: "string \<Rightarrow> bool" where
  "IsAbsoluteDestroy command = MatchString absoluteDestroyPattern command"

section \<open>Extracting paths\<close>

definition envAssignmentPattern :: regex where
  "envAssignmentPattern = seqs [RBegin, RChr (\<lambda>d. alpha d \<or> d = CHR ''_''), RStar wch, lit ''='']"

definition parseCommandStructure :: "string \<Rightarrow> string \<times> string list" where
  "parseCommandStructure command =
     (case dropWhile (MatchString envAssignmentPattern) (Tokenize command False) of
        [] \<Rightarrow> ([], [])
      | base # args \<Rightarrow> (after_last slash base, args))"

definition is_option :: "string \<Rightarrow> bool" where
  "is_option t \<longleftrightarrow> HasPrefix t ''-''"

definition extractCDPaths :: "string list \<Rightarrow> string list" where
  "extractCDPaths tokens =
     (let parts = filter (\<lambda>t. t \<noteq> ''--'' \<and> \<not> is_option t) tokens
      in if parts = [] then [] else [join_with '' '' parts])"

fun extractFindPaths :: "string list \<Rightarrow> string list" where
  "extractFindPaths [] = []"
| "extractFindPaths (t # ts) =
     (if t = ''--'' then extractFindPaths ts
      else if is_option t \<and> t \<noteq> ''-print'' \<and> t \<noteq> ''-print0'' then
        (if ParseFloat_ok t then t # extractFindPaths ts else [])
      else if \<not> is_option t then t # extractFindPaths ts
      else extractFindPaths ts)"

fun grep_paths :: "bool \<Rightarrow> bool \<Rightarrow> string list \<Rightarrow> string list" where
  "grep_paths patternFound skipNext [] = []"
| "grep_paths patternFound skipNext (t # ts) =
     (if skipNext then grep_paths patternFound False ts
      else if t = ''--'' then grep_paths patternFound skipNext ts
      else if List.member [''-e'', ''-f'', ''--regexp'', ''--file''] t then grep_paths True True ts
      else if is_option t then grep_paths patternFound skipNext ts
      else if \<not> patternFound then grep_paths True skipNext ts
      else t # grep_paths patternFound skipNext ts)"

definition extractGrepPaths :: "string list \<Rightarrow> string list" where
  "extractGrepPaths tokens = grep_paths False False tokens"

fun chown_paths :: "bool \<Rightarrow> string list \<Rightarrow> string list" where
  "chown_paths ownerFound [] = []"
| "chown_paths ownerFound (t # ts) =
     (if t = ''--'' then chown_paths ownerFound ts
      else if is_option t then chown_paths ownerFound ts
      else if \<not> ownerFound then chown_paths True ts
      else t # chown_paths ownerFound ts)"

definition extractChownPaths :: "string list \<Rightarrow> string list" where
  "extractChownPaths tokens = chown_paths False tokens"

definition isRedirectOperator :: "string \<Rightarrow> bool" where
  "isRedirectOperator t = List.member [''>'', ''>>'', ''<'', ''2>'', ''1>'', ''&>'', ''|''] t"

fun all_arg_paths :: "bool \<Rightarrow> string list \<Rightarrow> string list" where
  "all_arg_paths pastDashDash [] = []"
| "all_arg_paths pastDashDash (t # ts) =
     (if t = ''--'' then all_arg_paths True ts
      else if \<not> pastDashDash \<and> is_option t then all_arg_paths pastDashDash ts
      else if isRedirectOperator t then all_arg_paths pastDashDash ts
      else t # all_arg_paths pastDashDash ts)"

definition extractAllArgPaths :: "string list \<Rightarrow> string list" where
  "extractAllArgPaths tokens = all_arg_paths False tokens"

fun extractFirstArgPath :: "string list \<Rightarrow> string list" where
  "extractFirstArgPath [] = []"
| "extractFirstArgPath (t # ts) =
     (if t = ''--'' then extractFirstArgPath ts
      else if is_option t then extractFirstArgPath ts
      else [t])"

definition ExtractPaths :: "string \<Rightarrow> string list" where
  "ExtractPaths command =
     (let (base, tokens) = parseCommandStructure command in
      if base = [] then []
      else case map_of pathCommandStrategies base of
        None \<Rightarrow> []
      | Some strategy \<Rightarrow>
          if strategy = ''cd'' then extractCDPaths tokens
          else if strategy = ''find'' then extractFindPaths tokens
          else if strategy = ''grep'' then extractGrepPaths tokens
          else if strategy = ''chown'' then extractChownPaths tokens
          else if strategy = ''all_args'' then extractAllArgPaths tokens
          else if strategy = ''first_arg'' then extractFirstArgPath tokens
          else [])"

section \<open>Staying within the workspace\<close>

definition resolvePath :: "fs_env \<Rightarrow> string \<Rightarrow> string option" where
  "resolvePath env path =
     (case evalSymlinks env path of Some resolved \<Rightarrow> Abs env resolved | None \<Rightarrow> Abs env path)"

definition escapes :: "string \<Rightarrow> bool" where
  "escapes rel \<longleftrightarrow> rel = ''..'' \<or> HasPrefix rel ''../''"

definition IsPathWithinWorkspace :: "fs_env \<Rightarrow> string \<Rightarrow> string \<Rightarrow> bool" where
  "IsPathWithinWorkspace env path workspaceRoot =
     (case resolvePath env path of
        None \<Rightarrow> False
      | Some resolved \<Rightarrow>
          (case resolvePath env workspaceRoot of
             None \<Rightarrow> False
           | Some root \<Rightarrow>
               (case Rel root resolved of
                  None \<Rightarrow> False
                | Some rel \<Rightarrow> rel = ''.'' \<or> (\<not> HasPrefix rel ''../'' \<and> rel \<noteq> ''..''))))"

definition isSpecialSafePath :: "string \<Rightarrow> bool" where
  "isSpecialSafePath p = List.member [''-'', ''/dev/null'', ''/dev/zero'', ''/dev/random'', ''/dev/urandom''] p"

definition path_invalid :: "fs_env \<Rightarrow> string \<Rightarrow> string \<Rightarrow> bool" where
  "path_invalid env root p =
     (if HasPrefix p ''/dev/'' \<or> HasPrefix p ''/proc/'' \<or> HasPrefix p ''/sys/'' then False
      else if isSpecialSafePath p then False
      else if IsPathWithinWorkspace env p root then False
      else let full = (if IsAbs p then p else Join [root, p]) in
        case resolvePath env full of
          None \<Rightarrow> True
        | Some resolvedFull \<Rightarrow>
            (case Rel root resolvedFull of None \<Rightarrow> True | Some rel \<Rightarrow> escapes rel))"

definition ValidatePaths :: "fs_env \<Rightarrow> string \<Rightarrow> string \<Rightarrow> bool \<times> string list" where
  "ValidatePaths env command workspaceRoot =
     (let paths = ExtractPaths command in
      case resolvePath env workspaceRoot of
        None \<Rightarrow> (False, paths)
      | Some root \<Rightarrow>
          (let invalid = filter (path_invalid env root) paths in (invalid = [], invalid)))"

section \<open>Relative paths that stay below the root\<close>

lemma canon_True_plain: "canon True cs \<Longrightarrow> c \<in> set cs \<Longrightarrow> plain_comp c"
  by (induction True cs rule: canon.induct) auto

lemma strip_common_spec:
  "strip_common rs ts = (rs', ts') \<Longrightarrow>
   \<exists>c. rs = c @ rs' \<and> ts = c @ ts' \<and> (rs' = [] \<or> ts' = [] \<or> hd rs' \<noteq> hd ts')"
proof (induction rs ts rule: strip_common.induct)
  case (1 b bs t ts)
  show ?case
  proof (cases "b = t")
    case True
    with 1 obtain c where "bs = c @ rs'" "ts = c @ ts'" "rs' = [] \<or> ts' = [] \<or> hd rs' \<noteq> hd ts'" by auto
    with True show ?thesis by (intro exI [of _ "b # c"]) simp
  qed (use 1 in auto)
qed auto

lemma strip_common_prefix: "strip_common rs ts = (rs', ts') \<Longrightarrow> prefix rs ts \<longleftrightarrow> rs' = []"
proof -
  assume "strip_common rs ts = (rs', ts')"
  then obtain c where c: "rs = c @ rs'" "ts = c @ ts'" "rs' = [] \<or> ts' = [] \<or> hd rs' \<noteq> hd ts'"
    using strip_common_spec by blast
  then show ?thesis by (cases rs'; cases ts') auto
qed

lemma join_dotdot: "escapes (join_with [slash] (''..'' # cs)) \<and> join_with [slash] (''..'' # cs) \<noteq> ''.''"
  by (cases cs) (auto simp: escapes_def HasPrefix_def)

lemma plain_join_stays:
  assumes "ts \<noteq> []" "plain_comp (hd ts)"
  shows "\<not> escapes (join_with [slash] ts)"
proof -
  obtain t us where ts: "ts = t # us" using assms(1) by (cases ts) auto
  have t: "t \<noteq> ''..''" "slash \<notin> set t" using assms(2) ts by (auto simp: plain_comp_def)
  obtain post where j: "join_with [slash] ts = t @ post" "post = [] \<or> hd post = slash"
    unfolding ts by (cases us) auto
  show ?thesis
  proof
    assume "escapes (join_with [slash] ts)"
    then obtain rest where "t @ post = ''..'' @ rest" "rest = [] \<or> hd rest = slash"
      unfolding j(1) escapes_def HasPrefix_def prefix_def by (metis append.right_neutral append_Cons append_Nil list.sel(1))
    then have "takeWhile (\<lambda>c. c \<noteq> slash) (t @ post) = ''..''" by (cases rest) auto
    moreover have "takeWhile (\<lambda>c. c \<noteq> slash) (t @ post) = t"
      using t(2) j(2) by (cases post) (auto simp: takeWhile_append takeWhile_eq_all_conv)
    ultimately show False using t(1) by simp
  qed
qed

lemma Rel_stays_iff:
  assumes "IsAbs r" "IsAbs t"
  shows "(case Rel r t of None \<Rightarrow> False | Some rel \<Rightarrow> \<not> escapes rel) \<longleftrightarrow> prefix (clean_comps r) (clean_comps t)"
    and "\<exists>rel. Rel r t = Some rel"
proof -
  have plain: "plain_comp c" if "c \<in> set (clean_comps r) \<union> set (clean_comps t)" for c
    using that assms clean_comps_canon [of r] clean_comps_canon [of t] canon_True_plain by auto
  obtain rs ts where st: "strip_common (clean_comps r) (clean_comps t) = (rs, ts)"
    by (cases "strip_common (clean_comps r) (clean_comps t)")
  then obtain c where c: "clean_comps r = c @ rs" "clean_comps t = c @ ts" using strip_common_spec by blast
  have hd: "rs = [] \<or> hd rs \<noteq> ''..''" using plain [of "hd rs"] c by (cases rs) (auto simp: plain_comp_def)
  have "((case Rel r t of None \<Rightarrow> False | Some rel \<Rightarrow> \<not> escapes rel) \<longleftrightarrow> rs = []) \<and> (\<exists>rel. Rel r t = Some rel)"
  proof (cases "Clean r = Clean t")
    case True
    then have "clean_comps r = clean_comps t" by (metis clean_comps_Clean)
    then have "rs = []" using strip_common_prefix [OF st] by simp
    with True show ?thesis by (simp add: Rel_def escapes_def HasPrefix_def)
  next
    case False
    then have rel: "Rel r t = Some (join_with [slash] (replicate (length rs) ''..'' @ ts))"
      using hd assms st by (auto simp: Rel_def)
    show ?thesis
    proof (cases rs)
      case Nil
      moreover have "ts \<noteq> []" using False c Nil assms by (auto simp: Clean_def)
      moreover have "plain_comp (hd ts)" using plain [of "hd ts"] c(2) \<open>ts \<noteq> []\<close> by simp
      ultimately show ?thesis using rel plain_join_stays by simp
    next
      case (Cons a as)
      then show ?thesis using rel join_dotdot by simp
    qed
  qed
  with strip_common_prefix [OF st] show "(case Rel r t of None \<Rightarrow> False | Some rel \<Rightarrow> \<not> escapes rel) \<longleftrightarrow> prefix (clean_comps r) (clean_comps t)"
    and "\<exists>rel. Rel r t = Some rel" by blast+
qed

lemma Abs_total: "fs_absolute env \<Longrightarrow> \<exists>a. Abs env p = Some a \<and> IsAbs a"
  by (cases "IsAbs p") (auto simp: Abs_def fs_absolute_def IsAbs_Join)

lemma resolvePath_total: "fs_absolute env \<Longrightarrow> \<exists>a. resolvePath env p = Some a \<and> IsAbs a"
  using Abs_total by (auto simp: resolvePath_def split: option.split)

lemma within_iff:
  assumes "resolvePath env p = Some a" "IsAbs a" "resolvePath env root = Some r" "IsAbs r"
  shows "IsPathWithinWorkspace env p root \<longleftrightarrow> prefix (clean_comps r) (clean_comps a)"
proof -
  obtain rel where "Rel r a = Some rel" using Rel_stays_iff(2) [OF assms(4,2)] by blast
  with assms Rel_stays_iff(1) [OF assms(4,2)] show ?thesis
    by (auto simp: IsPathWithinWorkspace_def escapes_def HasPrefix_def)
qed

text \<open>a path is within the workspace exactly when its resolved components start with those of the
  resolved root, never because of a common spelling (\<open>/work\<close> and \<open>/workshop\<close>).\<close>

theorem within_workspace_iff_component_prefix:
  assumes "fs_absolute env"
  shows "IsPathWithinWorkspace env p root \<longleftrightarrow>
    prefix (clean_comps (the (resolvePath env root))) (clean_comps (the (resolvePath env p)))"
  using resolvePath_total [OF assms, of p] resolvePath_total [OF assms, of root] within_iff by fastforce

theorem within_workspace_iff_component_prefix_witness:
  "IsPathWithinWorkspace sample_env ''a/../b'' ''/w'' \<and> \<not> IsPathWithinWorkspace sample_env ''/wx'' ''/w''"
proof -
  have "prefix (clean_comps (the (resolvePath sample_env ''/w''))) (clean_comps (the (resolvePath sample_env ''a/../b'')))"
    "\<not> prefix (clean_comps (the (resolvePath sample_env ''/w''))) (clean_comps (the (resolvePath sample_env ''/wx'')))"
    by code_simp+
  then show ?thesis by (simp add: within_workspace_iff_component_prefix [OF sample_env_absolute])
qed

definition below :: "fs_env \<Rightarrow> string \<Rightarrow> string \<Rightarrow> bool" where
  "below env root p \<longleftrightarrow> (\<exists>a. resolvePath env p = Some a \<and> prefix (clean_comps root) (clean_comps a))"

definition exempt_path :: "string \<Rightarrow> bool" where
  "exempt_path p \<longleftrightarrow> HasPrefix p ''/dev/'' \<or> HasPrefix p ''/proc/'' \<or> HasPrefix p ''/sys/'' \<or> isSpecialSafePath p"

lemma path_invalid_iff:
  assumes "fs_absolute env" "IsAbs root" "resolvePath env root = Some root'" "clean_comps root' = clean_comps root" "IsAbs root'"
  shows "path_invalid env root p \<longleftrightarrow>
    \<not> (exempt_path p \<or> below env root p \<or> below env root (if IsAbs p then p else Join [root, p]))"
proof -
  let ?full = "if IsAbs p then p else Join [root, p]"
  obtain a where a: "resolvePath env p = Some a" "IsAbs a" using resolvePath_total [OF assms(1)] by blast
  obtain b where b: "resolvePath env ?full = Some b" "IsAbs b" using resolvePath_total [OF assms(1)] by blast
  have "IsPathWithinWorkspace env p root \<longleftrightarrow> below env root p"
    using within_iff [OF a assms(3,5)] a assms(4) by (simp add: below_def)
  moreover have "(case Rel root b of None \<Rightarrow> True | Some rel \<Rightarrow> escapes rel) \<longleftrightarrow> \<not> below env root ?full"
    using Rel_stays_iff [OF assms(2) b(2)] b(1) by (auto simp: below_def split: option.splits)
  ultimately show ?thesis
    unfolding path_invalid_def exempt_path_def Let_def b by auto
qed

text \<open>when \<open>ValidatePaths\<close> accepts a command, every path it extracts is a device, proc or sys
  spelling, a special path, inside the workspace when resolved from the working directory, or inside
  the workspace when resolved from the root; and it reports exactly the paths that are none of these.\<close>

theorem ValidatePaths_exact:
  assumes "fs_absolute env" "resolvePath env ws = Some root" "resolvePath env root = Some root"
  shows "ValidatePaths env command ws =
    (let bad = filter (\<lambda>p. \<not> (exempt_path p \<or> below env root p \<or> below env root (if IsAbs p then p else Join [root, p])))
                 (ExtractPaths command)
     in (bad = [], bad))"
proof -
  have "IsAbs root" using resolvePath_total [OF assms(1), of ws] assms(2) by auto
  then have "path_invalid env root =
    (\<lambda>p. \<not> (exempt_path p \<or> below env root p \<or> below env root (if IsAbs p then p else Join [root, p])))"
    using path_invalid_iff [OF assms(1) _ assms(3)] by auto
  then show ?thesis by (simp add: ValidatePaths_def assms(2) Let_def)
qed

theorem ValidatePaths_exact_witness:
  "ValidatePaths sample_env ''cat a /etc/passwd ../x'' ''/w'' = (False, [''/etc/passwd'', ''../x''])"
proof -
  have r: "resolvePath sample_env ''/w'' = Some ''/w''" by code_simp
  have e: "ExtractPaths ''cat a /etc/passwd ../x'' = [''a'', ''/etc/passwd'', ''../x'']" by code_simp
  have x: "\<not> exempt_path ''/etc/passwd''" "\<not> exempt_path ''../x''"
    by (simp_all add: exempt_path_def isSpecialSafePath_def HasPrefix_def)
  have c: "clean_comps ''/w'' = [''w'']" by code_simp
  have p: "resolvePath sample_env ''a'' = Some ''/w/a''" "clean_comps ''/w/a'' = [''w'', ''a'']"
    "resolvePath sample_env ''/etc/passwd'' = Some ''/etc/passwd''" "clean_comps ''/etc/passwd'' = [''etc'', ''passwd'']"
    "resolvePath sample_env ''../x'' = Some ''/x''" "clean_comps ''/x'' = [''x'']"
    "Join [''/w'', ''../x''] = ''/x''" "resolvePath sample_env ''/x'' = Some ''/x''"
    "IsAbs ''/etc/passwd''" "\<not> IsAbs ''../x''"
    by code_simp+
  have "below sample_env ''/w'' ''a''" "\<not> below sample_env ''/w'' ''/etc/passwd''"
    "\<not> below sample_env ''/w'' ''../x''" "\<not> below sample_env ''/w'' ''/x''"
    by (simp_all add: below_def p c)
  with ValidatePaths_exact [OF sample_env_absolute r r, of "''cat a /etc/passwd ../x''"] x p show ?thesis
    by (simp add: e)
qed

text \<open>The exemption for device files looks at the spelling only, before the path is cleaned; and a
  path whose last component does not exist yet is resolved without following the links above it.\<close>

lemma device_spelling_escapes:
  "ValidatePaths sample_env ''cat /dev/../etc/passwd'' ''/w'' = (True, [])"
  by code_simp

lemma new_file_below_link_is_inside:
  "evalSymlinks sample_env ''/w/link'' = Some ''/data'' \<and>
   IsPathWithinWorkspace sample_env ''/w/link/new'' ''/w''"
  by code_simp

end
