(* ===== verification/Go_Json.thy ===== *)
theory Go_Json
  imports Go_Strings "HOL-Library.AList"
begin

text \<open>
  JSON values and the part of \<open>encoding/json\<close> the event code relies on. A \<open>json.RawMessage\<close> is
  the value its bytes denote, or \<open>None\<close> when the bytes are not a JSON text (the empty message
  included). Decoding into a struct walks the members of the object in order, finds the field by
  its name up to case folding, leaves a field alone on \<open>null\<close>, records an error on a value of the
  wrong type and goes on. The fields decoded before and after such an error keep their values,
  which matters where the code ignores the error.
\<close>

datatype json =
    JNull
  | JBool bool
  | JInt int
  | JFrac string
  | JStr string
  | JArr "json list"
  | JObj "(string \<times> json) list"

type_synonym raw = "json option"

text \<open>A number literal is \<open>JInt\<close> when it is written as an integer; any other literal (a fraction or an
  exponent) is \<open>JFrac\<close> with its text, which does not decode into a Go \<open>int\<close>.\<close>

section \<open>Field names\<close>

text \<open>Names are compared after simple folding: ASCII letters, the long s U+017F and the Kelvin sign
  U+212A are the characters that fold to ASCII letters.\<close>

definition fold_byte :: "char \<Rightarrow> char" where
  "fold_byte c = (if CHR ''A'' \<le> c \<and> c \<le> CHR ''Z'' then char_of (of_char c + (32::nat)) else c)"

fun fold_name :: "string \<Rightarrow> string" where
  "fold_name [] = []"
| "fold_name [a] = [fold_byte a]"
| "fold_name [a, b] = (if a = CHR 0xC5 \<and> b = CHR 0xBF then ''s'' else fold_byte a # fold_name [b])"
| "fold_name (a # b # c # rest) =
     (if a = CHR 0xC5 \<and> b = CHR 0xBF then CHR ''s'' # fold_name (c # rest)
      else if a = CHR 0xE2 \<and> b = CHR 0x84 \<and> c = CHR 0xAA then CHR ''k'' # fold_name rest
      else fold_byte a # fold_name (b # c # rest))"

declare fold_name.simps [simp del]

section \<open>Decoding into a struct\<close>

text \<open>A field of a struct: its name and how a value is stored into it; \<open>None\<close> is a type error.\<close>

type_synonym 's field = "string \<times> (json \<Rightarrow> 's \<Rightarrow> 's option)"

definition str_field :: "string \<Rightarrow> (string \<Rightarrow> 's \<Rightarrow> 's) \<Rightarrow> 's field" where
  "str_field name upd =
     (name, \<lambda>v s. case v of JStr x \<Rightarrow> Some (upd x s) | JNull \<Rightarrow> Some s | _ \<Rightarrow> None)"

definition int_field :: "string \<Rightarrow> (int \<Rightarrow> 's \<Rightarrow> 's) \<Rightarrow> 's field" where
  "int_field name upd =
     (name, \<lambda>v s. case v of
        JInt i \<Rightarrow> if - (2 ^ 63) \<le> i \<and> i < 2 ^ 63 then Some (upd i s) else None
      | JNull \<Rightarrow> Some s | _ \<Rightarrow> None)"

definition raw_field :: "string \<Rightarrow> (raw \<Rightarrow> 's \<Rightarrow> 's) \<Rightarrow> 's field" where
  "raw_field name upd = (name, \<lambda>v s. Some (upd (Some v) s))"

definition decode_member :: "'s field list \<Rightarrow> bool \<times> 's \<Rightarrow> string \<times> json \<Rightarrow> bool \<times> 's" where
  "decode_member fs st kv =
     (case find (\<lambda>f. fold_name (fst f) = fold_name (fst kv)) fs of
        None \<Rightarrow> st
      | Some (_, store) \<Rightarrow>
          (case store (snd kv) (snd st) of None \<Rightarrow> (False, snd st) | Some s' \<Rightarrow> (fst st, s')))"

text \<open>\<open>json.Unmarshal\<close> into a struct: whether it returns no error, and the struct afterwards.\<close>

definition unmarshal :: "'s field list \<Rightarrow> raw \<Rightarrow> 's \<Rightarrow> bool \<times> 's" where
  "unmarshal fs r s =
     (case r of
        None \<Rightarrow> (False, s)
      | Some JNull \<Rightarrow> (True, s)
      | Some (JObj kvs) \<Rightarrow> foldl (decode_member fs) (True, s) kvs
      | Some _ \<Rightarrow> (False, s))"

section \<open>Encoding\<close>

text \<open>Members of a struct in field order; \<open>omitempty\<close> drops the zero value.\<close>

definition member_str :: "string \<Rightarrow> string \<Rightarrow> (string \<times> json) list" where
  "member_str name v = [(name, JStr v)]"

definition member_str_omit :: "string \<Rightarrow> string \<Rightarrow> (string \<times> json) list" where
  "member_str_omit name v = (if v = [] then [] else [(name, JStr v)])"

definition member_int_omit :: "string \<Rightarrow> int \<Rightarrow> (string \<times> json) list" where
  "member_int_omit name v = (if v = 0 then [] else [(name, JInt v)])"

text \<open>A \<open>RawMessage\<close> with \<open>omitempty\<close> is dropped when it is empty.\<close>

definition member_raw_omit :: "string \<Rightarrow> raw \<Rightarrow> (string \<times> json) list" where
  "member_raw_omit name v = (case v of None \<Rightarrow> [] | Some j \<Rightarrow> [(name, j)])"

section \<open>Maps with an iteration order\<close>

text \<open>A Go map that the code ranges over is an association list without duplicate keys; its order is
  one possible iteration order.\<close>

abbreviation mput :: "'k \<Rightarrow> 'v \<Rightarrow> ('k \<times> 'v) list \<Rightarrow> ('k \<times> 'v) list" where
  "mput \<equiv> AList.update"

abbreviation mdel :: "'k \<Rightarrow> ('k \<times> 'v) list \<Rightarrow> ('k \<times> 'v) list" where
  "mdel \<equiv> AList.delete"

definition mget :: "'v \<Rightarrow> ('k \<times> 'v) list \<Rightarrow> 'k \<Rightarrow> 'v" where
  "mget zero m k = (case map_of m k of None \<Rightarrow> zero | Some v \<Rightarrow> v)"

lemma mget_mput [simp]: "mget z (mput k v m) k' = (if k' = k then v else mget z m k')"
  by (simp add: mget_def update_conv')

lemma mget_Nil [simp]: "mget z [] k = z"
  by (simp add: mget_def)

lemma mget_mdel [simp]: "mget z (mdel k m) k' = (if k' = k then z else mget z m k')"
  by (simp add: mget_def delete_conv')

end
