(* ===== verification/Harness_Event.thy ===== *)
theory Harness_Event
  imports Go_Json
begin

text \<open>
  \<open>harness/event.go\<close> and the payload types of \<open>harness/projection.go\<close>: events of the durable
  journal, the event names, the payload structs with their decoding and encoding. Times are
  nanoseconds since the epoch; zero is Go's zero time.
\<close>

section \<open>Events\<close>

datatype Audience = AudienceModel | AudienceUser | AudienceInternal | AudienceDiagnostic

record Event =
  Seq :: seqno
  StreamSeq :: seqno
  EventID :: string
  SessionID :: string
  StreamID :: string
  Type :: string
  SchemaVersion :: int
  OccurredAt :: int
  CausationID :: string
  CorrelationID :: string
  ev_Audience :: "Audience list"
  Payload :: raw

text \<open>The payload of a pending event is the JSON value it marshals to, or \<open>None\<close> when marshalling it
  fails.\<close>

record PendingEvent =
  pe_ID :: string
  pe_StreamID :: string
  pe_Type :: string
  pe_SchemaVersion :: int
  pe_OccurredAt :: int
  pe_CausationID :: string
  pe_CorrelationID :: string
  pe_Audience :: "Audience list"
  pe_Payload :: raw

record StreamDescriptor =
  sd_ID :: string
  sd_Kind :: string
  sd_ParentID :: string
  sd_Status :: string

record Checkpoint =
  cp_StreamID :: string
  cp_Projector :: string
  cp_ProjectorVersion :: int
  cp_UpToSeq :: seqno
  cp_State :: raw
  cp_CreatedAt :: int

record CommandResult =
  cr_CommandID :: string
  cr_SessionID :: string
  cr_AcceptedSeq :: seqno
  cr_Result :: raw
  cr_CreatedAt :: int

definition AnyStreamSeq :: seqno where "AnyStreamSeq = -1"

section \<open>Event names\<close>

definition EventSessionCreated :: string where "EventSessionCreated = ''session.created''"
definition EventSessionReset :: string where "EventSessionReset = ''session.reset''"
definition EventSessionStatusChanged :: string where "EventSessionStatusChanged = ''session.status.changed''"
definition EventRunStarted :: string where "EventRunStarted = ''run.started''"
definition EventRunCompleted :: string where "EventRunCompleted = ''run.completed''"
definition EventRunFailed :: string where "EventRunFailed = ''run.failed''"
definition EventRunInterrupted :: string where "EventRunInterrupted = ''run.interrupted''"
definition EventStepStarted :: string where "EventStepStarted = ''step.started''"
definition EventStepCompleted :: string where "EventStepCompleted = ''step.completed''"
definition EventStepFailed :: string where "EventStepFailed = ''step.failed''"
definition EventStepInterrupted :: string where "EventStepInterrupted = ''step.interrupted''"
definition EventMessageUserAppended :: string where "EventMessageUserAppended = ''message.user.appended''"
definition EventMessageAssistantAppended :: string where "EventMessageAssistantAppended = ''message.assistant.appended''"
definition EventMessageContextAppended :: string where "EventMessageContextAppended = ''message.context.appended''"
definition EventUsageRecorded :: string where "EventUsageRecorded = ''usage.recorded''"
definition EventToolCallPlanned :: string where "EventToolCallPlanned = ''tool.call.planned''"
definition EventToolExecutionStarted :: string where "EventToolExecutionStarted = ''tool.execution.started''"
definition EventToolExecutionCompleted :: string where "EventToolExecutionCompleted = ''tool.execution.completed''"
definition EventToolExecutionFailed :: string where "EventToolExecutionFailed = ''tool.execution.failed''"
definition EventToolExecutionDenied :: string where "EventToolExecutionDenied = ''tool.execution.denied''"
definition EventToolExecutionCancelled :: string where "EventToolExecutionCancelled = ''tool.execution.cancelled''"
definition EventToolExecutionInterrupted :: string where "EventToolExecutionInterrupted = ''tool.execution.interrupted''"

lemmas event_names =
  EventSessionCreated_def EventSessionReset_def EventSessionStatusChanged_def
  EventRunStarted_def EventRunCompleted_def EventRunFailed_def EventRunInterrupted_def
  EventStepStarted_def EventStepCompleted_def EventStepFailed_def EventStepInterrupted_def
  EventMessageUserAppended_def EventMessageAssistantAppended_def EventMessageContextAppended_def
  EventUsageRecorded_def EventToolCallPlanned_def EventToolExecutionStarted_def
  EventToolExecutionCompleted_def EventToolExecutionFailed_def EventToolExecutionDenied_def
  EventToolExecutionCancelled_def EventToolExecutionInterrupted_def

definition run_terminals :: "string list" where
  "run_terminals = [EventRunCompleted, EventRunFailed, EventRunInterrupted]"

definition step_terminals :: "string list" where
  "step_terminals = [EventStepCompleted, EventStepFailed, EventStepInterrupted]"

definition tool_terminals :: "string list" where
  "tool_terminals =
     [EventToolExecutionCompleted, EventToolExecutionFailed, EventToolExecutionDenied,
      EventToolExecutionCancelled, EventToolExecutionInterrupted]"

definition message_events :: "string list" where
  "message_events = [EventMessageUserAppended, EventMessageAssistantAppended, EventMessageContextAppended]"

text \<open>The names the projectors distinguish are pairwise different.\<close>

lemma event_names_distinct:
  "distinct ([EventSessionCreated, EventSessionReset, EventSessionStatusChanged, EventRunStarted] @ run_terminals @
     [EventStepStarted] @ step_terminals @ message_events @ [EventUsageRecorded, EventToolCallPlanned,
      EventToolExecutionStarted] @ tool_terminals)"
  unfolding run_terminals_def step_terminals_def message_events_def tool_terminals_def event_names by code_simp

section \<open>Payloads\<close>

record MessageAppendedPayload =
  map_Message :: raw
  map_RunID :: string
  map_StepID :: string
  map_UserTurn :: int

record RunLifecyclePayload =
  RunID :: string
  RunReason :: string

record UsageRecordedPayload =
  RequestID :: string
  up_InputTokens :: int
  up_OutputTokens :: int
  up_CacheReadTokens :: int
  up_CacheCreateTokens :: int
  up_ServerToolTokens :: int

record ToolLifecyclePayload =
  ToolCallID :: string
  tl_Name :: string
  tl_CallIndex :: int
  tl_Input :: raw
  tl_Result :: raw
  tl_Error :: string

definition zero_message :: MessageAppendedPayload where
  "zero_message = \<lparr>map_Message = None, map_RunID = [], map_StepID = [], map_UserTurn = 0\<rparr>"

definition zero_run :: RunLifecyclePayload where
  "zero_run = \<lparr>RunID = [], RunReason = []\<rparr>"

definition zero_usage :: UsageRecordedPayload where
  "zero_usage =
     \<lparr>RequestID = [], up_InputTokens = 0, up_OutputTokens = 0, up_CacheReadTokens = 0,
      up_CacheCreateTokens = 0, up_ServerToolTokens = 0\<rparr>"

definition zero_tool :: ToolLifecyclePayload where
  "zero_tool = \<lparr>ToolCallID = [], tl_Name = [], tl_CallIndex = 0, tl_Input = None, tl_Result = None, tl_Error = []\<rparr>"

definition message_fields :: "MessageAppendedPayload field list" where
  "message_fields =
     [raw_field ''message'' (\<lambda>x s. s\<lparr>map_Message := x\<rparr>),
      str_field ''run_id'' (\<lambda>x s. s\<lparr>map_RunID := x\<rparr>),
      str_field ''step_id'' (\<lambda>x s. s\<lparr>map_StepID := x\<rparr>),
      int_field ''user_turn'' (\<lambda>x s. s\<lparr>map_UserTurn := x\<rparr>)]"

definition run_fields :: "RunLifecyclePayload field list" where
  "run_fields =
     [str_field ''run_id'' (\<lambda>x s. s\<lparr>RunID := x\<rparr>), str_field ''reason'' (\<lambda>x s. s\<lparr>RunReason := x\<rparr>)]"

definition usage_fields :: "UsageRecordedPayload field list" where
  "usage_fields =
     [str_field ''request_id'' (\<lambda>x s. s\<lparr>RequestID := x\<rparr>),
      int_field ''input_tokens'' (\<lambda>x s. s\<lparr>up_InputTokens := x\<rparr>),
      int_field ''output_tokens'' (\<lambda>x s. s\<lparr>up_OutputTokens := x\<rparr>),
      int_field ''cache_read_tokens'' (\<lambda>x s. s\<lparr>up_CacheReadTokens := x\<rparr>),
      int_field ''cache_create_tokens'' (\<lambda>x s. s\<lparr>up_CacheCreateTokens := x\<rparr>),
      int_field ''server_tool_tokens'' (\<lambda>x s. s\<lparr>up_ServerToolTokens := x\<rparr>)]"

definition tool_fields :: "ToolLifecyclePayload field list" where
  "tool_fields =
     [str_field ''tool_call_id'' (\<lambda>x s. s\<lparr>ToolCallID := x\<rparr>),
      str_field ''name'' (\<lambda>x s. s\<lparr>tl_Name := x\<rparr>),
      int_field ''call_index'' (\<lambda>x s. s\<lparr>tl_CallIndex := x\<rparr>),
      raw_field ''input'' (\<lambda>x s. s\<lparr>tl_Input := x\<rparr>),
      raw_field ''result'' (\<lambda>x s. s\<lparr>tl_Result := x\<rparr>),
      str_field ''error'' (\<lambda>x s. s\<lparr>tl_Error := x\<rparr>)]"

definition decode_run :: "Event \<Rightarrow> bool \<times> RunLifecyclePayload" where
  "decode_run e = unmarshal run_fields (Payload e) zero_run"

definition decode_tool :: "Event \<Rightarrow> bool \<times> ToolLifecyclePayload" where
  "decode_tool e = unmarshal tool_fields (Payload e) zero_tool"

definition decode_message :: "Event \<Rightarrow> bool \<times> MessageAppendedPayload" where
  "decode_message e = unmarshal message_fields (Payload e) zero_message"

definition decode_usage :: "Event \<Rightarrow> bool \<times> UsageRecordedPayload" where
  "decode_usage e = unmarshal usage_fields (Payload e) zero_usage"

definition encode_run :: "RunLifecyclePayload \<Rightarrow> raw" where
  "encode_run p = Some (JObj (member_str ''run_id'' (RunID p) @ member_str_omit ''reason'' (RunReason p)))"

definition encode_tool :: "ToolLifecyclePayload \<Rightarrow> raw" where
  "encode_tool p =
     Some (JObj (member_str ''tool_call_id'' (ToolCallID p) @ member_str_omit ''name'' (tl_Name p) @
       member_int_omit ''call_index'' (tl_CallIndex p) @ member_raw_omit ''input'' (tl_Input p) @
       member_raw_omit ''result'' (tl_Result p) @ member_str_omit ''error'' (tl_Error p)))"

section \<open>Round trips\<close>

lemma fold_name_lit [simp]:
  "fold_name ''run_id'' = ''run_id''" "fold_name ''reason'' = ''reason''"
  "fold_name ''tool_call_id'' = ''tool_call_id''" "fold_name ''name'' = ''name''"
  "fold_name ''call_index'' = ''call_index''" "fold_name ''input'' = ''input''"
  "fold_name ''result'' = ''result''" "fold_name ''error'' = ''error''"
  "fold_name ''step_id'' = ''step_id''" "fold_name ''step_no'' = ''step_no''"
  by code_simp+

lemma unmarshal_encode_run: "unmarshal run_fields (encode_run p) zero_run = (True, p)"
  by (simp add: unmarshal_def encode_run_def member_str_def member_str_omit_def decode_member_def
      run_fields_def str_field_def zero_run_def)

definition int64_range :: "int \<Rightarrow> bool" where
  "int64_range i \<longleftrightarrow> - (2 ^ 63) \<le> i \<and> i < 2 ^ 63"

lemma unmarshal_encode_tool:
  "int64_range (tl_CallIndex p) \<Longrightarrow> unmarshal tool_fields (encode_tool p) zero_tool = (True, p)"
  by (cases "tl_Input p"; cases "tl_Result p")
    (simp_all add: unmarshal_def encode_tool_def member_str_def member_str_omit_def member_int_omit_def
      member_raw_omit_def decode_member_def tool_fields_def str_field_def int_field_def raw_field_def
      zero_tool_def int64_range_def)

end
