(* ===== verification/Harness_Hooks.thy ===== *)
theory Harness_Hooks
  imports Harness_Event "HOL-Library.Product_Lexorder"
begin

text \<open>
  \<open>harness/hooks.go\<close>: a hook point is a list of hooks ordered by priority and, among equal
  priorities, by registration; running it threads a value through the hooks and collects the
  events they emit. The lock makes every operation atomic. A disposer removes its entry; it is
  identified by the number it was registered under, and \<open>sync.Once\<close> makes later calls do nothing.
\<close>

section \<open>State\<close>

text \<open>A hook returns an error message or a value with events.\<close>

type_synonym 'a hook = "'a \<Rightarrow> string + 'a \<times> PendingEvent list"

record 'a hookEntry =
  he_id :: nat
  he_priority :: int
  he_order :: nat
  he_hook :: "'a hook"

record 'a HookPoint =
  hp_nextID :: nat
  hp_entries :: "'a hookEntry list"

record 'a HookResult =
  hr_Value :: 'a
  hr_Events :: "PendingEvent list"

definition NewHookPoint :: "'a HookPoint" where
  "NewHookPoint = \<lparr>hp_nextID = 0, hp_entries = []\<rparr>"

section \<open>Operations\<close>

definition HookLen :: "'a HookPoint \<Rightarrow> nat" where
  "HookLen p = length (hp_entries p)"

text \<open>The comparison of \<open>Register\<close>: by priority, then by order of registration.\<close>

definition he_rank :: "'a hookEntry \<Rightarrow> int \<times> nat" where
  "he_rank e = (he_priority e, he_order e)"

text \<open>Registering a nil hook does nothing; otherwise the identifier for the disposer is returned.\<close>

definition Register :: "int \<Rightarrow> 'a hook option \<Rightarrow> 'a HookPoint \<Rightarrow> 'a HookPoint \<times> nat option" where
  "Register priority hook p =
     (case hook of
        None \<Rightarrow> (p, None)
      | Some h \<Rightarrow>
          (let i = Suc (hp_nextID p);
               e = \<lparr>he_id = i, he_priority = priority, he_order = i, he_hook = h\<rparr>
           in (p\<lparr>hp_nextID := i, hp_entries := sort_key he_rank (hp_entries p @ [e])\<rparr>, Some i)))"

fun remove_entry :: "nat \<Rightarrow> 'a hookEntry list \<Rightarrow> 'a hookEntry list" where
  "remove_entry i [] = []"
| "remove_entry i (e # es) = (if he_id e = i then es else e # remove_entry i es)"

definition DisposeHook :: "nat option \<Rightarrow> 'a HookPoint \<Rightarrow> 'a HookPoint" where
  "DisposeHook d p = (case d of None \<Rightarrow> p | Some i \<Rightarrow> p\<lparr>hp_entries := remove_entry i (hp_entries p)\<rparr>)"

text \<open>The loop of \<open>Run\<close>; the flag tells whether a hook failed, and with what.\<close>

fun run_hooks :: "'a hookEntry list \<Rightarrow> 'a HookResult \<Rightarrow> 'a HookResult \<times> string option" where
  "run_hooks [] result = (result, None)"
| "run_hooks (e # es) result =
     (case he_hook e (hr_Value result) of
        Inl err \<Rightarrow> (result, Some err)
      | Inr (v, evs) \<Rightarrow> run_hooks es \<lparr>hr_Value = v, hr_Events = hr_Events result @ evs\<rparr>)"

definition Run :: "'a HookPoint \<Rightarrow> 'a \<Rightarrow> 'a HookResult \<times> string option" where
  "Run p input = run_hooks (hp_entries p) \<lparr>hr_Value = input, hr_Events = []\<rparr>"

section \<open>Invariant\<close>

definition wf_hooks :: "'a HookPoint \<Rightarrow> bool" where
  "wf_hooks p \<longleftrightarrow>
     sorted (map he_rank (hp_entries p)) \<and> distinct (map he_id (hp_entries p)) \<and>
     (\<forall>e \<in> set (hp_entries p). he_order e = he_id e \<and> he_id e \<le> hp_nextID p)"

lemma filter_rank_unique:
  assumes "distinct (map f ys)" "k \<in> set ys"
  shows "filter (\<lambda>x. f k = f x) ys = [k]"
  using assms
proof (induction ys)
  case (Cons y ys)
  show ?case
  proof (cases "k = y")
    case True
    with Cons.prems have "\<forall>x \<in> set ys. f k \<noteq> f x" by auto
    with True show ?thesis by (simp add: filter_empty_conv)
  next
    case False
    with Cons.prems have "k \<in> set ys" "f k \<noteq> f y" by (auto intro: rev_image_eqI)
    with Cons show ?thesis by simp
  qed
qed simp

lemma sort_key_unique:
  assumes "mset ys = mset xs" "sorted (map f ys)" "distinct (map f xs)"
  shows "sort_key f xs = ys"
proof (rule properties_for_sort_key [OF assms(1) _ assms(2)])
  fix k assume k: "k \<in> set ys"
  have "distinct (map f ys)" using assms(1,3) by (metis mset_eq_imp_distinct_iff mset_map)
  moreover have "k \<in> set xs" using k assms(1) by (metis mset_eq_setD)
  ultimately show "filter (\<lambda>x. f k = f x) ys = filter (\<lambda>x. f k = f x) xs"
    using filter_rank_unique assms(3) k by metis
qed

text \<open>Registration puts the new entry behind all entries of the same or a smaller priority.\<close>

lemma Register_entries:
  fixes q :: int and h :: "'a hook"
  assumes "wf_hooks p"
  defines "e \<equiv> \<lparr>he_id = Suc (hp_nextID p), he_priority = q, he_order = Suc (hp_nextID p), he_hook = h\<rparr>"
  shows "hp_entries (fst (Register q (Some h) p)) =
    filter (\<lambda>x. he_priority x \<le> q) (hp_entries p) @ e # filter (\<lambda>x. q < he_priority x) (hp_entries p)"
proof -
  let ?es = "hp_entries p"
  have srt: "sorted (map he_rank ?es)" and ids: "\<And>x. x \<in> set ?es \<Longrightarrow> he_order x = he_id x \<and> he_id x \<le> hp_nextID p"
    and dist: "distinct (map he_id ?es)" using assms(1) by (auto simp: wf_hooks_def)
  have "sort_key he_rank (?es @ [e]) = filter (\<lambda>x. he_priority x \<le> q) ?es @ e # filter (\<lambda>x. q < he_priority x) ?es"
  proof (rule sort_key_unique)
    have "mset ?es = mset (filter (\<lambda>x. he_priority x \<le> q) ?es) + mset (filter (\<lambda>x. q < he_priority x) ?es)"
      by (metis (mono_tags, lifting) filter_cong mset_filter multiset_partition not_less)
    then show "mset (filter (\<lambda>x. he_priority x \<le> q) ?es @ e # filter (\<lambda>x. q < he_priority x) ?es) = mset (?es @ [e])"
      by simp
    have "he_rank x \<le> he_rank e" if "x \<in> set ?es" "he_priority x \<le> q" for x
      using ids [OF that(1)] that(2) by (auto simp: he_rank_def e_def less_eq_prod_def)
    moreover have "he_rank e \<le> he_rank x" if "q < he_priority x" for x
      using that by (auto simp: he_rank_def e_def less_eq_prod_def)
    moreover have "he_rank x \<le> he_rank y" if "he_priority x \<le> q" "q < he_priority y" for x y :: "'a hookEntry"
      using that by (auto simp: he_rank_def less_eq_prod_def)
    ultimately show "sorted (map he_rank (filter (\<lambda>x. he_priority x \<le> q) ?es @ e # filter (\<lambda>x. q < he_priority x) ?es))"
      using srt by (auto simp: sorted_append intro: sorted_filter)
    have "inj_on he_rank (set ?es)"
      using dist ids by (auto simp: inj_on_def he_rank_def distinct_map)
    moreover have "he_rank e \<notin> he_rank ` set ?es" using ids by (fastforce simp: he_rank_def e_def)
    ultimately show "distinct (map he_rank (?es @ [e]))" using dist by (auto simp: distinct_map)
  qed
  then show ?thesis by (simp add: Register_def Let_def e_def)
qed

lemma Register_wf:
  assumes "wf_hooks p"
  shows "wf_hooks (fst (Register q hook p))"
proof (cases hook)
  case (Some h)
  have set_eq: "set (hp_entries (fst (Register q (Some h) p))) = insert \<lparr>he_id = Suc (hp_nextID p), he_priority = q, he_order = Suc (hp_nextID p), he_hook = h\<rparr> (set (hp_entries p))"
    by (auto simp: Register_def Let_def)
  moreover have "distinct (map he_id (hp_entries (fst (Register q (Some h) p))))"
  proof -
    have "distinct (map he_id (hp_entries p @ [\<lparr>he_id = Suc (hp_nextID p), he_priority = q, he_order = Suc (hp_nextID p), he_hook = h\<rparr>]))"
      using assms by (force simp: wf_hooks_def)
    then show ?thesis
      by (simp add: Register_def Let_def del: map_append distinct_append) (metis mset_eq_imp_distinct_iff mset_map mset_sort)
  qed
  ultimately show ?thesis
    using assms Some by (auto simp: wf_hooks_def Register_def Let_def le_SucI)
qed (use assms in \<open>simp add: Register_def\<close>)

lemma remove_entry_sorted:
  "sorted (map he_rank es) \<Longrightarrow> sorted (map he_rank (remove_entry i es))"
  "set (remove_entry i es) \<subseteq> set es"
  "distinct (map he_id es) \<Longrightarrow> distinct (map he_id (remove_entry i es))"
proof -
  show sub: "set (remove_entry i es) \<subseteq> set es" for es :: "'a hookEntry list" by (induction es) auto
  show "sorted (map he_rank es) \<Longrightarrow> sorted (map he_rank (remove_entry i es))"
    by (induction es) (use sub in auto)
  show "distinct (map he_id es) \<Longrightarrow> distinct (map he_id (remove_entry i es))"
    by (induction es) (use sub in auto)
qed

lemma DisposeHook_wf: "wf_hooks p \<Longrightarrow> wf_hooks (DisposeHook d p)"
  by (cases d) (auto simp: wf_hooks_def DisposeHook_def intro: remove_entry_sorted(1,3) dest: subsetD [OF remove_entry_sorted(2)])

lemma remove_entry_filter: "distinct (map he_id es) \<Longrightarrow> remove_entry i es = filter (\<lambda>e. he_id e \<noteq> i) es"
proof (induction es)
  case (Cons e es)
  show ?case
  proof (cases "he_id e = i")
    case True
    with Cons.prems have "filter (\<lambda>e. he_id e \<noteq> i) es = es" by (auto simp: filter_id_conv intro: rev_image_eqI)
    with True show ?thesis by simp
  qed (use Cons in simp)
qed simp

text \<open>The waterfall that an entry list stands for: the priorities and hooks in order.\<close>

definition waterfall :: "'a HookPoint \<Rightarrow> (int \<times> 'a hook) list" where
  "waterfall p = map (\<lambda>e. (he_priority e, he_hook e)) (hp_entries p)"

lemma run_hooks_waterfall:
  "map he_hook es = map he_hook fs \<Longrightarrow> run_hooks es r = run_hooks fs r"
proof (induction es arbitrary: fs r)
  case (Cons e es)
  then obtain f fs' where "fs = f # fs'" "he_hook e = he_hook f" "map he_hook es = map he_hook fs'" by auto
  with Cons.IH show ?case by (simp split: sum.split)
qed simp

text \<open>Where a new hook goes in a waterfall.\<close>

definition place :: "int \<times> 'b \<Rightarrow> (int \<times> 'b) list \<Rightarrow> (int \<times> 'b) list" where
  "place x w = filter (\<lambda>y. fst y \<le> fst x) w @ x # filter (\<lambda>y. fst x < fst y) w"

lemma place_commute:
  assumes "fst x < fst y"
  shows "place y (place x w) = place x (place y w)"
proof -
  have "filter (\<lambda>z. fst z \<le> fst x \<and> fst z \<le> fst y) w = filter (\<lambda>z. fst z \<le> fst x) w"
    "filter (\<lambda>z. fst z \<le> fst y \<and> fst z \<le> fst x) w = filter (\<lambda>z. fst z \<le> fst x) w"
    "filter (\<lambda>z. fst y < fst z \<and> fst x < fst z) w = filter (\<lambda>z. fst y < fst z) w"
    "filter (\<lambda>z. fst x < fst z \<and> fst y < fst z) w = filter (\<lambda>z. fst y < fst z) w"
    "filter (\<lambda>z. fst z \<le> fst x \<and> fst y < fst z) w = []"
    "filter (\<lambda>z. fst y < fst z \<and> fst z \<le> fst x) w = []"
    "filter (\<lambda>z. fst z \<le> fst y \<and> fst x < fst z) w = filter (\<lambda>z. fst x < fst z \<and> fst z \<le> fst y) w"
    using assms by (auto intro!: filter_cong simp: filter_empty_conv)
  with assms show ?thesis by (simp add: place_def)
qed

lemma waterfall_Register:
  assumes "wf_hooks p"
  shows "waterfall (fst (Register q (Some h) p)) = place (q, h) (waterfall p)"
  using Register_entries [OF assms, of q h] by (simp add: waterfall_def place_def filter_map o_def)

lemma filter_split:
  fixes f :: "'a \<Rightarrow> int"
  shows "sorted (map f xs) \<Longrightarrow> filter (\<lambda>x. f x \<le> q) xs @ filter (\<lambda>x. q < f x) xs = xs"
proof (induction xs)
  case (Cons x xs)
  show ?case
  proof (cases "f x \<le> q")
    case False
    with Cons.prems have "filter (\<lambda>x. f x \<le> q) xs = []" by (fastforce simp: filter_empty_conv)
    with Cons False show ?thesis by simp
  qed (use Cons in simp)
qed simp

section \<open>Properties\<close>

inductive hooks_reachable :: "'a HookPoint \<Rightarrow> bool" where
  hooks_new: "hooks_reachable NewHookPoint"
| hooks_register: "hooks_reachable p \<Longrightarrow> hooks_reachable (fst (Register q h p))"
| hooks_dispose: "hooks_reachable p \<Longrightarrow> hooks_reachable (DisposeHook d p)"

lemma hooks_reachable_wf: "hooks_reachable p \<Longrightarrow> wf_hooks p"
proof (induction rule: hooks_reachable.induct)
  case hooks_new
  show ?case by (simp add: wf_hooks_def NewHookPoint_def)
qed (rule Register_wf DisposeHook_wf, assumption)+

text \<open>in every reachable hook point the hooks are ordered by priority and, within a priority, by
  registration; a new hook comes after all hooks of its priority or less and before all others; and
  its disposer takes exactly it out again.\<close>

theorem register_keeps_waterfall_order:
  assumes "hooks_reachable p"
  shows "sorted (map he_rank (hp_entries p)) \<and>
    waterfall (fst (Register q (Some h) p)) =
      filter (\<lambda>y. fst y \<le> q) (waterfall p) @ (q, h) # filter (\<lambda>y. q < fst y) (waterfall p) \<and>
    hp_entries (DisposeHook (snd (Register q (Some h) p)) (fst (Register q (Some h) p))) = hp_entries p"
proof -
  have wf: "wf_hooks p" by (rule hooks_reachable_wf [OF assms])
  let ?p = "fst (Register q (Some h) p)"
  have "distinct (map he_id (hp_entries ?p))" using Register_wf [OF wf] by (auto simp: wf_hooks_def)
  then have "remove_entry (Suc (hp_nextID p)) (hp_entries ?p) = filter (\<lambda>e. he_id e \<noteq> Suc (hp_nextID p)) (hp_entries ?p)"
    by (rule remove_entry_filter)
  also have "\<dots> = filter (\<lambda>x. he_priority x \<le> q) (hp_entries p) @ filter (\<lambda>x. q < he_priority x) (hp_entries p)"
  proof -
    have "filter (\<lambda>x. P x \<and> he_id x \<noteq> Suc (hp_nextID p)) (hp_entries p) = filter P (hp_entries p)" for P
      using wf by (intro filter_cong) (auto simp: wf_hooks_def)
    then show ?thesis unfolding Register_entries [OF wf] by simp
  qed
  also have "\<dots> = hp_entries p"
    using wf by (intro filter_split) (auto simp: wf_hooks_def he_rank_def sorted_wrt_map less_eq_prod_def elim: sorted_wrt_mono_rel [rotated])
  finally show ?thesis
    using wf waterfall_Register [OF wf, of q h] by (simp add: wf_hooks_def DisposeHook_def Register_def Let_def place_def)
qed

definition sample_hook :: "string \<Rightarrow> string hook" where
  "sample_hook w v = (if v = ''stop'' then Inl ''stopped'' else Inr (v @ w, []))"

theorem register_keeps_waterfall_order_witness:
  "hooks_reachable (fst (Register 5 (Some (sample_hook ''b'')) NewHookPoint)) \<and>
   map fst (waterfall (fst (Register 1 (Some (sample_hook ''a''))
     (fst (Register 5 (Some (sample_hook ''b'')) NewHookPoint))))) = [1, 5]"
proof -
  have r: "hooks_reachable (fst (Register 5 (Some (sample_hook ''b'')) NewHookPoint))" by (intro hooks_register hooks_new)
  from register_keeps_waterfall_order [OF r, of 1 "sample_hook ''a''"] r show ?thesis
    by (simp add: waterfall_def NewHookPoint_def Register_def Let_def)
qed

lemma Run_waterfall: "waterfall p = waterfall p' \<Longrightarrow> Run p v = Run p' v"
  unfolding Run_def waterfall_def
  by (rule run_hooks_waterfall) (metis (no_types, lifting) list.map_comp map_eq_conv o_apply snd_conv)

text \<open>the waterfall is deterministic: hooks registered with different priorities run in the order of
  their priorities, whichever was registered first.\<close>

theorem registration_order_is_irrelevant_across_priorities:
  assumes "hooks_reachable p" "q \<noteq> r"
  shows "Run (fst (Register r (Some g) (fst (Register q (Some h) p)))) v =
         Run (fst (Register q (Some h) (fst (Register r (Some g) p)))) v"
proof (rule Run_waterfall)
  have wf: "wf_hooks p" "wf_hooks (fst (Register q (Some h) p))" "wf_hooks (fst (Register r (Some g) p))"
    using hooks_reachable_wf [OF assms(1)] Register_wf by blast+
  show "waterfall (fst (Register r (Some g) (fst (Register q (Some h) p)))) =
        waterfall (fst (Register q (Some h) (fst (Register r (Some g) p))))"
    unfolding waterfall_Register [OF wf(2)] waterfall_Register [OF wf(3)] waterfall_Register [OF wf(1)]
    using assms(2) place_commute [of "(q, h)" "(r, g)"] place_commute [of "(r, g)" "(q, h)"] by (cases "q < r") auto
qed

theorem registration_order_is_irrelevant_across_priorities_witness:
  "Run (fst (Register 2 (Some (sample_hook ''b'')) (fst (Register 1 (Some (sample_hook ''a'')) NewHookPoint)))) ''x'' =
   Run (fst (Register 1 (Some (sample_hook ''a'')) (fst (Register 2 (Some (sample_hook ''b'')) NewHookPoint)))) ''x''"
  by (rule registration_order_is_irrelevant_across_priorities [OF hooks_new]) simp

end
