(* ===== verification/Harness_Projection.thy ===== *)
theory Harness_Projection
  imports Harness_Event
begin

text \<open>
  \<open>harness/projection.go\<close>: the session projection (messages, run states, tool calls, token
  totals) as a fold over the events of the journal, and the checker of the event-stream
  invariants. \<open>Apply\<close> returns \<open>None\<close> where the code returns a decoding error; the projection is
  then left as it was.
\<close>

section \<open>State\<close>

record ToolCallView =
  tv_Name :: string
  tv_CallIndex :: int
  tv_State :: string

record SessionProjection =
  MessageIDs :: "string list"
  UsageRequests :: "string list"
  Status :: string
  LastSeq :: seqno
  Messages :: "raw list"
  RunStates :: "(string \<times> string) list"
  ToolCalls :: "(string \<times> ToolCallView) list"
  InputTokens :: int
  OutputTokens :: int
  CacheReadTokens :: int
  CacheCreateTokens :: int
  ServerToolTokens :: int

definition zero_view :: ToolCallView where
  "zero_view = \<lparr>tv_Name = [], tv_CallIndex = 0, tv_State = []\<rparr>"

text \<open>\<open>NewSessionProjection\<close>, that is \<open>Reset\<close> of the zero value.\<close>

definition NewSessionProjection :: SessionProjection where
  "NewSessionProjection =
     \<lparr>MessageIDs = [], UsageRequests = [], Status = ''idle'', LastSeq = 0, Messages = [], RunStates = [],
      ToolCalls = [], InputTokens = 0, OutputTokens = 0, CacheReadTokens = 0, CacheCreateTokens = 0,
      ServerToolTokens = 0\<rparr>"

definition add_key :: "string \<Rightarrow> string list \<Rightarrow> string list" where
  "add_key k ks = (if List.member ks k then ks else ks @ [k])"

section \<open>Applying one event\<close>

definition toolStateForEvent :: "string \<Rightarrow> string" where
  "toolStateForEvent t =
     (if t = EventToolCallPlanned then ''planned''
      else if t = EventToolExecutionStarted then ''running''
      else if t = EventToolExecutionCompleted then ''completed''
      else if t = EventToolExecutionFailed then ''failed''
      else if t = EventToolExecutionDenied then ''denied''
      else if t = EventToolExecutionCancelled then ''cancelled''
      else if t = EventToolExecutionInterrupted then ''interrupted''
      else ''unknown'')"

definition runStateForEvent :: "string \<Rightarrow> string" where
  "runStateForEvent t =
     (if t = EventRunCompleted then ''completed''
      else if t = EventRunFailed then ''failed''
      else if t = EventRunInterrupted then ''interrupted''
      else ''running'')"

text \<open>The identity of a message, decoded without regard to errors.\<close>

definition message_identity :: "raw \<Rightarrow> string" where
  "message_identity r = snd (unmarshal [str_field ''context_id'' (\<lambda>x s. x)] r [])"

definition apply_status :: "Event \<Rightarrow> SessionProjection \<Rightarrow> SessionProjection option" where
  "apply_status e p =
     (case unmarshal [str_field ''status'' (\<lambda>x s. x)] (Payload e) [] of
        (False, _) \<Rightarrow> None
      | (True, st) \<Rightarrow> Some (p\<lparr>Status := st\<rparr>))"

definition apply_run :: "Event \<Rightarrow> SessionProjection \<Rightarrow> SessionProjection option" where
  "apply_run e p =
     (case decode_run e of
        (False, _) \<Rightarrow> None
      | (True, payload) \<Rightarrow> Some (p\<lparr>RunStates := mput (RunID payload) (runStateForEvent (Type e)) (RunStates p)\<rparr>))"

definition apply_message :: "Event \<Rightarrow> SessionProjection \<Rightarrow> SessionProjection option" where
  "apply_message e p =
     (case decode_message e of
        (False, _) \<Rightarrow> None
      | (True, payload) \<Rightarrow>
          (let i = message_identity (map_Message payload) in
           if i = [] \<or> \<not> List.member (MessageIDs p) i
           then Some (p\<lparr>Messages := Messages p @ [map_Message payload], MessageIDs := add_key i (MessageIDs p)\<rparr>)
           else Some p))"

text \<open>Go's \<open>int\<close> has 64 bits; sums wrap around.\<close>

definition wrap64 :: "int \<Rightarrow> int" where
  "wrap64 i = (i + 2 ^ 63) mod 2 ^ 64 - 2 ^ 63"

definition apply_usage :: "Event \<Rightarrow> SessionProjection \<Rightarrow> SessionProjection option" where
  "apply_usage e p =
     (case decode_usage e of
        (False, _) \<Rightarrow> None
      | (True, payload) \<Rightarrow>
          if RequestID payload \<noteq> [] \<and> List.member (UsageRequests p) (RequestID payload) then Some p
          else Some (p\<lparr>
            UsageRequests := (if RequestID payload \<noteq> [] then add_key (RequestID payload) (UsageRequests p) else UsageRequests p),
            InputTokens := wrap64 (InputTokens p + up_InputTokens payload),
            OutputTokens := wrap64 (OutputTokens p + up_OutputTokens payload),
            CacheReadTokens := wrap64 (CacheReadTokens p + up_CacheReadTokens payload),
            CacheCreateTokens := wrap64 (CacheCreateTokens p + up_CacheCreateTokens payload),
            ServerToolTokens := wrap64 (ServerToolTokens p + up_ServerToolTokens payload)\<rparr>))"

definition apply_tool :: "Event \<Rightarrow> SessionProjection \<Rightarrow> SessionProjection option" where
  "apply_tool e p =
     (case decode_tool e of
        (False, _) \<Rightarrow> None
      | (True, payload) \<Rightarrow>
          (let view = mget zero_view (ToolCalls p) (ToolCallID payload);
               view1 = (if tl_Name payload \<noteq> [] then view\<lparr>tv_Name := tl_Name payload\<rparr> else view);
               view2 = (if Type e = EventToolCallPlanned then view1\<lparr>tv_CallIndex := tl_CallIndex payload\<rparr> else view1);
               view3 = view2\<lparr>tv_State := toolStateForEvent (Type e)\<rparr>
           in Some (p\<lparr>ToolCalls := mput (ToolCallID payload) view3 (ToolCalls p)\<rparr>)))"

definition Apply :: "SessionProjection \<Rightarrow> Event \<Rightarrow> SessionProjection option" where
  "Apply p e =
     (if Seq e \<le> LastSeq p then Some p
      else map_option (\<lambda>q. q\<lparr>LastSeq := Seq e\<rparr>)
        (if Type e = EventSessionCreated then Some (p\<lparr>Status := ''idle''\<rparr>)
         else if Type e = EventSessionReset then
           Some (p\<lparr>Messages := [], MessageIDs := [], InputTokens := 0, OutputTokens := 0, CacheReadTokens := 0,
                   CacheCreateTokens := 0, ServerToolTokens := 0, UsageRequests := []\<rparr>)
         else if Type e = EventSessionStatusChanged then apply_status e p
         else if Type e = EventRunStarted \<or> List.member run_terminals (Type e) then apply_run e p
         else if List.member message_events (Type e) then apply_message e p
         else if Type e = EventUsageRecorded then apply_usage e p
         else if Type e = EventToolCallPlanned \<or> Type e = EventToolExecutionStarted \<or> List.member tool_terminals (Type e)
         then apply_tool e p
         else Some p))"

section \<open>Checking a stream\<close>

record InvariantViolation =
  iv_Seq :: seqno
  iv_Code :: string
  iv_Message :: string

definition violation :: "seqno \<Rightarrow> string \<Rightarrow> string \<Rightarrow> InvariantViolation" where
  "violation s c m = \<lparr>iv_Seq = s, iv_Code = c, iv_Message = m\<rparr>"

record check_state =
  ck_runs :: "(string \<times> string) list"
  ck_tools :: "(string \<times> string) list"
  ck_bad :: "InvariantViolation list"

definition report :: "check_state \<Rightarrow> seqno \<Rightarrow> string \<Rightarrow> string \<Rightarrow> check_state" where
  "report c s code m = c\<lparr>ck_bad := ck_bad c @ [violation s code m]\<rparr>"

definition check_event :: "check_state \<Rightarrow> Event \<Rightarrow> check_state" where
  "check_event c e =
     (if Type e = EventRunStarted then
        (let (ok, payload) = decode_run e in
         if \<not> ok \<or> RunID payload = [] then report c (Seq e) ''invalid_run'' ''run.started requires run_id''
         else let c1 = (if mget [] (ck_runs c) (RunID payload) \<noteq> [] then report c (Seq e) ''duplicate_run_start'' (RunID payload) else c)
              in c1\<lparr>ck_runs := mput (RunID payload) ''running'' (ck_runs c1)\<rparr>)
      else if List.member run_terminals (Type e) then
        (let payload = snd (decode_run e) in
         if mget [] (ck_runs c) (RunID payload) \<noteq> ''running'' then report c (Seq e) ''orphan_run_terminal'' (RunID payload)
         else c\<lparr>ck_runs := mput (RunID payload) ''terminal'' (ck_runs c)\<rparr>)
      else if Type e = EventToolCallPlanned then
        (let payload = snd (decode_tool e);
             c1 = (if mget [] (ck_tools c) (ToolCallID payload) \<noteq> [] then report c (Seq e) ''duplicate_tool_call'' (ToolCallID payload) else c)
         in c1\<lparr>ck_tools := mput (ToolCallID payload) ''planned'' (ck_tools c1)\<rparr>)
      else if List.member tool_terminals (Type e) then
        (let payload = snd (decode_tool e) in
         if mget [] (ck_tools c) (ToolCallID payload) = [] then report c (Seq e) ''orphan_tool_terminal'' (ToolCallID payload)
         else if mget [] (ck_tools c) (ToolCallID payload) = ''terminal'' then
           report c (Seq e) ''duplicate_tool_terminal'' (ToolCallID payload)
         else c\<lparr>ck_tools := mput (ToolCallID payload) ''terminal'' (ck_tools c)\<rparr>)
      else c)"

definition ValidateInvariants :: "Event list \<Rightarrow> InvariantViolation list" where
  "ValidateInvariants events =
     (let c = foldl check_event \<lparr>ck_runs = [], ck_tools = [], ck_bad = []\<rparr> events in
      ck_bad c @
      map (\<lambda>(i, _). violation 0 ''open_run'' i) (filter (\<lambda>(_, st). st = ''running'') (ck_runs c)) @
      map (\<lambda>(i, _). violation 0 ''open_tool_call'' i) (filter (\<lambda>(_, st). st \<noteq> ''terminal'') (ck_tools c)))"

section \<open>The checker against its specification\<close>

text \<open>What an event says about a lifecycle: it opens or closes the run (tool call) with an identifier.\<close>

datatype mark = Opens | Closes

definition run_mark :: "Event \<Rightarrow> (string \<times> mark) option" where
  "run_mark e =
     (if Type e = EventRunStarted then
        (if fst (decode_run e) \<and> RunID (snd (decode_run e)) \<noteq> [] then Some (RunID (snd (decode_run e)), Opens) else None)
      else if Type e \<in> set run_terminals then Some (RunID (snd (decode_run e)), Closes)
      else None)"

definition tool_mark :: "Event \<Rightarrow> (string \<times> mark) option" where
  "tool_mark e =
     (if Type e = EventToolCallPlanned then Some (ToolCallID (snd (decode_tool e)), Opens)
      else if Type e \<in> set tool_terminals then Some (ToolCallID (snd (decode_tool e)), Closes)
      else None)"

definition trace :: "(Event \<Rightarrow> (string \<times> mark) option) \<Rightarrow> string \<Rightarrow> Event list \<Rightarrow> mark list" where
  "trace f i es = List.map_filter (\<lambda>e. case f e of Some (j, m) \<Rightarrow> if j = i then Some m else None | None \<Rightarrow> None) es"

text \<open>The life of one identifier.\<close>

datatype phase = Fresh | Live | Ended

fun next_phase :: "phase \<Rightarrow> mark \<Rightarrow> phase" where
  "next_phase ph Opens = Live"
| "next_phase Live Closes = Ended"
| "next_phase ph Closes = ph"

fun lawful :: "phase \<Rightarrow> mark \<Rightarrow> bool" where
  "lawful ph Opens = (ph = Fresh)"
| "lawful ph Closes = (ph = Live)"

definition phase_after :: "mark list \<Rightarrow> phase" where
  "phase_after ms = foldl next_phase Fresh ms"

definition lawful_trace :: "mark list \<Rightarrow> bool" where
  "lawful_trace ms \<longleftrightarrow> ms = [] \<or> ms = [Opens] \<or> ms = [Opens, Closes]"

definition complete_trace :: "mark list \<Rightarrow> bool" where
  "complete_trace ms \<longleftrightarrow> ms = [] \<or> ms = [Opens, Closes]"

lemma phase_after_snoc: "phase_after (ms @ [m]) = next_phase (phase_after ms) m"
  by (simp add: phase_after_def)

lemma lawful_phase: "lawful_trace ms \<Longrightarrow> phase_after ms = (if ms = [] then Fresh else if ms = [Opens] then Live else Ended)"
  by (auto simp: lawful_trace_def phase_after_def)

lemma lawful_trace_snoc: "lawful_trace (ms @ [m]) \<longleftrightarrow> lawful_trace ms \<and> lawful (phase_after ms) m"
proof (cases "lawful_trace ms")
  case True
  then show ?thesis
    using lawful_phase [OF True] by (cases m) (auto simp: lawful_trace_def)
next
  case False
  then show ?thesis by (auto simp: lawful_trace_def append_eq_Cons_conv)
qed

lemma complete_trace_iff: "complete_trace ms \<longleftrightarrow> lawful_trace ms \<and> phase_after ms \<noteq> Live"
  by (auto simp: complete_trace_def lawful_trace_def phase_after_def)

lemma trace_snoc: "trace f i (es @ [e]) =
    trace f i es @ (case f e of Some (j, m) \<Rightarrow> if j = i then [m] else [] | None \<Rightarrow> [])"
  by (auto simp: trace_def map_filter_def split: option.splits)

lemma trace_Nil [simp]: "trace f i [] = []"
  by (simp add: trace_def map_filter_def)

lemma names_disjoint:
  "EventRunStarted \<notin> set run_terminals" "EventRunStarted \<notin> set tool_terminals"
  "EventRunStarted \<noteq> EventToolCallPlanned" "EventToolCallPlanned \<notin> set run_terminals"
  "EventToolCallPlanned \<notin> set tool_terminals" "list_all (\<lambda>t. t \<notin> set tool_terminals) run_terminals"
  by code_simp+

lemma terminals_disjoint: "t \<in> set run_terminals \<Longrightarrow> t \<notin> set tool_terminals"
  using names_disjoint(6) by (auto simp: list_all_iff)

lemma type_cases:
  "Type e = EventRunStarted \<Longrightarrow> Type e \<notin> set run_terminals \<and> tool_mark e = None"
  "Type e \<in> set run_terminals \<Longrightarrow> Type e \<noteq> EventRunStarted \<and> tool_mark e = None"
  "Type e = EventToolCallPlanned \<Longrightarrow> run_mark e = None \<and> Type e \<noteq> EventRunStarted \<and> Type e \<notin> set run_terminals"
  "Type e \<in> set tool_terminals \<Longrightarrow>
     run_mark e = None \<and> Type e \<noteq> EventRunStarted \<and> Type e \<notin> set run_terminals \<and> Type e \<noteq> EventToolCallPlanned"
  using names_disjoint(1-5) terminals_disjoint unfolding tool_mark_def run_mark_def by metis+

definition valid_start :: "Event \<Rightarrow> bool" where
  "valid_start e \<longleftrightarrow> (Type e = EventRunStarted \<longrightarrow> fst (decode_run e) \<and> RunID (snd (decode_run e)) \<noteq> [])"

definition run_word :: "phase \<Rightarrow> string" where
  "run_word ph = (case ph of Fresh \<Rightarrow> [] | Live \<Rightarrow> ''running'' | Ended \<Rightarrow> ''terminal'')"

definition tool_word :: "phase \<Rightarrow> string" where
  "tool_word ph = (case ph of Fresh \<Rightarrow> [] | Live \<Rightarrow> ''planned'' | Ended \<Rightarrow> ''terminal'')"

lemma report_sel [simp]:
  "ck_runs (report c s x m) = ck_runs c" "ck_tools (report c s x m) = ck_tools c" "ck_bad (report c s x m) \<noteq> []"
  by (simp_all add: report_def)

lemma check_runs:
  assumes "\<And>i. mget [] (ck_runs c) i = run_word (ph i)"
  shows "mget [] (ck_runs (check_event c e)) i =
    run_word (case run_mark e of Some (j, m) \<Rightarrow> if j = i then next_phase (ph i) m else ph i | None \<Rightarrow> ph i)"
  using assms type_cases [of e]
  by (cases "ph (RunID (snd (decode_run e)))")
    (auto simp: check_event_def run_mark_def Let_def run_word_def split: prod.split)

lemma check_tools:
  assumes "\<And>i. mget [] (ck_tools c) i = tool_word (ph i)"
  shows "mget [] (ck_tools (check_event c e)) i =
    tool_word (case tool_mark e of Some (j, m) \<Rightarrow> if j = i then next_phase (ph i) m else ph i | None \<Rightarrow> ph i)"
  using assms type_cases [of e]
  by (cases "ph (ToolCallID (snd (decode_tool e)))")
    (auto simp: check_event_def tool_mark_def Let_def tool_word_def split: prod.split)

lemma check_bad:
  assumes "\<And>i. mget [] (ck_runs c) i = run_word (ph i)" "\<And>i. mget [] (ck_tools c) i = tool_word (qh i)"
  shows "ck_bad (check_event c e) = [] \<longleftrightarrow> ck_bad c = [] \<and> valid_start e \<and>
    (case run_mark e of Some (j, m) \<Rightarrow> lawful (ph j) m | None \<Rightarrow> True) \<and>
    (case tool_mark e of Some (j, m) \<Rightarrow> lawful (qh j) m | None \<Rightarrow> True)"
  using assms type_cases [of e]
  by (cases "ph (RunID (snd (decode_run e)))"; cases "qh (ToolCallID (snd (decode_tool e)))")
    (auto simp: check_event_def run_mark_def tool_mark_def Let_def run_word_def tool_word_def valid_start_def
      split: prod.split)

lemma check_distinct:
  "distinct (map fst (ck_runs c)) \<Longrightarrow> distinct (map fst (ck_runs (check_event c e)))"
  "distinct (map fst (ck_tools c)) \<Longrightarrow> distinct (map fst (ck_tools (check_event c e)))"
  by (auto simp: check_event_def Let_def distinct_update split: prod.split)

definition check_start :: check_state where
  "check_start = \<lparr>ck_runs = [], ck_tools = [], ck_bad = []\<rparr>"

lemma check_fold:
  "(\<forall>i. mget [] (ck_runs (foldl check_event check_start es)) i = run_word (phase_after (trace run_mark i es))) \<and>
   (\<forall>i. mget [] (ck_tools (foldl check_event check_start es)) i = tool_word (phase_after (trace tool_mark i es))) \<and>
   (ck_bad (foldl check_event check_start es) = [] \<longleftrightarrow>
      (\<forall>e \<in> set es. valid_start e) \<and> (\<forall>i. lawful_trace (trace run_mark i es)) \<and> (\<forall>i. lawful_trace (trace tool_mark i es))) \<and>
   distinct (map fst (ck_runs (foldl check_event check_start es))) \<and>
   distinct (map fst (ck_tools (foldl check_event check_start es)))"
proof (induction es rule: rev_induct)
  case Nil
  show ?case by (simp add: check_start_def phase_after_def run_word_def tool_word_def lawful_trace_def)
next
  case (snoc e es)
  let ?c = "foldl check_event check_start es"
  let ?ph = "\<lambda>i. phase_after (trace run_mark i es)" and ?qh = "\<lambda>i. phase_after (trace tool_mark i es)"
  have runs: "mget [] (ck_runs ?c) i = run_word (?ph i)" and tools: "mget [] (ck_tools ?c) i = tool_word (?qh i)" for i
    using snoc by blast+
  have bad: "ck_bad ?c = [] \<longleftrightarrow> (\<forall>e \<in> set es. valid_start e) \<and> (\<forall>i. lawful_trace (trace run_mark i es)) \<and>
      (\<forall>i. lawful_trace (trace tool_mark i es))" using snoc by blast
  have lawful_snoc: "(\<forall>i. lawful_trace (trace f i (es @ [e]))) \<longleftrightarrow> (\<forall>i. lawful_trace (trace f i es)) \<and>
      (case f e of Some (j, m) \<Rightarrow> lawful (phase_after (trace f j es)) m | None \<Rightarrow> True)" for f
    by (auto simp: trace_snoc lawful_trace_snoc split: option.split prod.split if_splits)
  have phase_snoc: "phase_after (trace f i (es @ [e])) =
      (case f e of Some (j, m) \<Rightarrow> if j = i then next_phase (phase_after (trace f i es)) m else phase_after (trace f i es)
       | None \<Rightarrow> phase_after (trace f i es))" for f i
    by (auto simp: trace_snoc phase_after_snoc split: option.split prod.split)
  have "\<forall>i. mget [] (ck_runs (check_event ?c e)) i = run_word (phase_after (trace run_mark i (es @ [e])))"
    using check_runs [of ?c ?ph e, OF runs] phase_snoc by simp
  moreover have "\<forall>i. mget [] (ck_tools (check_event ?c e)) i = tool_word (phase_after (trace tool_mark i (es @ [e])))"
    using check_tools [of ?c ?qh e, OF tools] phase_snoc by simp
  moreover have "ck_bad (check_event ?c e) = [] \<longleftrightarrow> (\<forall>e' \<in> set (es @ [e]). valid_start e') \<and>
      (\<forall>i. lawful_trace (trace run_mark i (es @ [e]))) \<and> (\<forall>i. lawful_trace (trace tool_mark i (es @ [e])))"
    using check_bad [of ?c ?ph ?qh e, OF runs tools] lawful_snoc bad by auto
  moreover have "distinct (map fst (ck_runs (check_event ?c e)))" "distinct (map fst (ck_tools (check_event ?c e)))"
    using snoc check_distinct by blast+
  ultimately show ?case by simp
qed

lemma no_open_entry:
  assumes "distinct (map fst m)" "P []  = False"
  shows "filter (\<lambda>(_, st). P st) m = [] \<longleftrightarrow> (\<forall>i. \<not> P (mget [] m i))"
proof
  assume "filter (\<lambda>(_, st). P st) m = []"
  then show "\<forall>i. \<not> P (mget [] m i)"
    using assms(2) by (auto simp: mget_def filter_empty_conv dest: map_of_SomeD split: option.split)
next
  assume none: "\<forall>i. \<not> P (mget [] m i)"
  have "\<not> P st" if "(i, st) \<in> set m" for i st
  proof -
    have "map_of m i = Some st" using that assms(1) by (simp add: map_of_is_SomeI)
    with none [rule_format, of i] show ?thesis by (simp add: mget_def)
  qed
  then show "filter (\<lambda>(_, st). P st) m = []" by (auto simp: filter_empty_conv)
qed

text \<open>A key with the empty word is stored by no operation of the checker.\<close>

lemma mput_subset: "x \<in> set (mput k v m) \<Longrightarrow> x = (k, v) \<or> x \<in> set m"
  by (induction m) (auto split: if_splits)

lemma check_event_tools_set:
  "(i, st) \<in> set (ck_tools (check_event c e)) \<Longrightarrow> st \<noteq> [] \<or> (i, st) \<in> set (ck_tools c)"
  unfolding check_event_def Let_def
  by (auto split: if_split_asm prod.split_asm dest!: mput_subset)

lemma check_tools_nonempty:
  "(i, st) \<in> set (ck_tools (foldl check_event check_start es)) \<Longrightarrow> st \<noteq> []"
  by (induction es rule: rev_induct) (auto simp: check_start_def dest: check_event_tools_set)

section \<open>Replaying\<close>

definition apply_all :: "SessionProjection \<Rightarrow> Event list \<Rightarrow> SessionProjection option" where
  "apply_all p es = foldl (\<lambda>st e. Option.bind st (\<lambda>q. Apply q e)) (Some p) es"

lemma apply_all_Nil [simp]: "apply_all p [] = Some p"
  by (simp add: apply_all_def)

lemma apply_all_snoc: "apply_all p (es @ [e]) = Option.bind (apply_all p es) (\<lambda>q. Apply q e)"
  by (simp add: apply_all_def)

lemma Apply_old: "Seq e \<le> LastSeq p \<Longrightarrow> Apply p e = Some p"
  by (simp add: Apply_def)

lemma Apply_LastSeq: "Apply p e = Some q \<Longrightarrow> LastSeq q = max (LastSeq p) (Seq e)"
  by (auto simp: Apply_def split: if_splits)

lemma apply_all_old: "(\<And>e. e \<in> set es \<Longrightarrow> Seq e \<le> LastSeq p) \<Longrightarrow> apply_all p es = Some p"
  by (induction es rule: rev_induct) (auto simp: apply_all_snoc Apply_old)

lemma apply_all_LastSeq: "apply_all p es = Some q \<Longrightarrow> e \<in> set es \<Longrightarrow> Seq e \<le> LastSeq q"
proof (induction es arbitrary: q rule: rev_induct)
  case (snoc x es)
  then obtain r where r: "apply_all p es = Some r" "Apply r x = Some q" by (auto simp: apply_all_snoc bind_eq_Some_conv)
  show ?case
  proof (cases "e = x")
    case False
    with snoc r have "Seq e \<le> LastSeq r" by auto
    with Apply_LastSeq [OF r(2)] show ?thesis by simp
  qed (use Apply_LastSeq [OF r(2)] in simp)
qed simp

lemma apply_all_LastSeq_le:
  "apply_all p es = Some q \<Longrightarrow> (\<And>e. e \<in> set es \<Longrightarrow> Seq e \<le> m) \<Longrightarrow> LastSeq p \<le> m \<Longrightarrow> LastSeq q \<le> m"
proof (induction es arbitrary: q rule: rev_induct)
  case (snoc x es)
  then obtain r where r: "apply_all p es = Some r" "Apply r x = Some q" by (auto simp: apply_all_snoc bind_eq_Some_conv)
  then show ?case using snoc Apply_LastSeq [OF r(2)] by auto
qed simp

section \<open>What the projection contains\<close>

text \<open>The elements whose key is empty or occurs for the first time.\<close>

definition first_by :: "('a \<Rightarrow> string) \<Rightarrow> 'a list \<Rightarrow> 'a list" where
  "first_by key xs =
     map (nth xs) (filter (\<lambda>k. key (xs ! k) = [] \<or> key (xs ! k) \<notin> key ` set (take k xs)) [0..<length xs])"

lemma first_by_Nil [simp]: "first_by key [] = []"
  by (simp add: first_by_def)

lemma first_by_snoc:
  "first_by key (xs @ [x]) = first_by key xs @ (if key x = [] \<or> key x \<notin> key ` set xs then [x] else [])"
proof -
  let ?keep = "\<lambda>ys k. key (ys ! k) = [] \<or> key (ys ! k) \<notin> key ` set (take k ys)"
  have "filter (?keep (xs @ [x])) [0..<length xs] = filter (?keep xs) [0..<length xs]"
    by (rule filter_cong) (auto simp: nth_append)
  moreover have "map (nth (xs @ [x])) (filter (?keep xs) [0..<length xs]) = map (nth xs) (filter (?keep xs) [0..<length xs])"
    by (auto simp: nth_append)
  ultimately show ?thesis by (simp add: first_by_def)
qed

definition since_reset :: "Event list \<Rightarrow> Event list" where
  "since_reset es = rev (takeWhile (\<lambda>e. Type e \<noteq> EventSessionReset) (rev es))"

lemma since_reset_snoc: "since_reset (es @ [e]) = (if Type e = EventSessionReset then [] else since_reset es @ [e])"
  by (simp add: since_reset_def)

definition messages_of :: "Event list \<Rightarrow> MessageAppendedPayload list" where
  "messages_of es = map (\<lambda>e. snd (decode_message e)) (filter (\<lambda>e. Type e \<in> set message_events) es)"

lemma wrap64_add [simp]: "wrap64 (wrap64 a + b) = wrap64 (a + b)"
proof -
  have "(wrap64 a + b + 2 ^ 63) mod 2 ^ 64 = ((a + 2 ^ 63) mod 2 ^ 64 + b) mod 2 ^ 64" by (simp add: wrap64_def)
  also have "\<dots> = (a + 2 ^ 63 + b) mod 2 ^ 64" by (rule mod_add_left_eq)
  also have "\<dots> = (a + b + 2 ^ 63) mod 2 ^ 64" by (simp add: add_ac)
  finally show ?thesis unfolding wrap64_def [of "wrap64 a + b"] wrap64_def [of "a + b"] by simp
qed

lemma wrap64_id: "int64_range i \<Longrightarrow> wrap64 i = i"
  by (simp add: wrap64_def int64_range_def)

lemma wrap64_0 [simp]: "wrap64 0 = 0"
  by (simp add: wrap64_def)

definition usages_of :: "Event list \<Rightarrow> UsageRecordedPayload list" where
  "usages_of es = map (\<lambda>e. snd (decode_usage e)) (filter (\<lambda>e. Type e = EventUsageRecorded) es)"

definition message_key :: "MessageAppendedPayload \<Rightarrow> string" where
  "message_key m = message_identity (map_Message m)"

definition projects :: "SessionProjection \<Rightarrow> Event list \<Rightarrow> bool" where
  "projects p es \<longleftrightarrow>
     Messages p = map map_Message (first_by message_key (messages_of es)) \<and>
     set (MessageIDs p) = message_key ` set (messages_of es) \<and>
     set (UsageRequests p) = RequestID ` set (usages_of es) - {[]} \<and>
     InputTokens p = wrap64 (sum_list (map up_InputTokens (first_by RequestID (usages_of es)))) \<and>
     OutputTokens p = wrap64 (sum_list (map up_OutputTokens (first_by RequestID (usages_of es)))) \<and>
     CacheReadTokens p = wrap64 (sum_list (map up_CacheReadTokens (first_by RequestID (usages_of es)))) \<and>
     CacheCreateTokens p = wrap64 (sum_list (map up_CacheCreateTokens (first_by RequestID (usages_of es)))) \<and>
     ServerToolTokens p = wrap64 (sum_list (map up_ServerToolTokens (first_by RequestID (usages_of es))))"

lemma set_add_key [simp]: "set (add_key k ks) = insert k (set ks)"
  by (auto simp: add_key_def)

lemma messages_of_snoc: "messages_of (es @ [e]) =
    messages_of es @ (if Type e \<in> set message_events then [snd (decode_message e)] else [])"
  by (simp add: messages_of_def)

lemma usages_of_snoc: "usages_of (es @ [e]) =
    usages_of es @ (if Type e = EventUsageRecorded then [snd (decode_usage e)] else [])"
  by (simp add: usages_of_def)

lemma projects_message:
  assumes "projects p es" "apply_message e p = Some q" "Type e \<in> set message_events" "Type e \<noteq> EventUsageRecorded"
  shows "projects q (es @ [e])"
proof -
  obtain m where m: "decode_message e = (True, m)" using assms(2) by (auto simp: apply_message_def split: prod.splits bool.splits)
  with assms show ?thesis
    by (auto simp: projects_def apply_message_def Let_def messages_of_snoc usages_of_snoc first_by_snoc message_key_def
        split: if_splits)
qed

lemma usage_not_message: "EventUsageRecorded \<notin> set message_events"
  by code_simp

lemma projects_usage:
  assumes "projects p es" "apply_usage e p = Some q" "Type e = EventUsageRecorded"
  shows "projects q (es @ [e])"
proof -
  obtain u where u: "decode_usage e = (True, u)" using assms(2) by (auto simp: apply_usage_def split: prod.splits bool.splits)
  with assms usage_not_message show ?thesis
    by (auto simp: projects_def apply_usage_def Let_def messages_of_snoc usages_of_snoc first_by_snoc split: if_splits)
qed

lemma projects_LastSeq [simp]: "projects (q\<lparr>LastSeq := n\<rparr>) es \<longleftrightarrow> projects q es"
  by (simp add: projects_def)

lemma projects_other:
  assumes "projects p es" "Type e \<noteq> EventUsageRecorded" "Type e \<notin> set message_events"
    and "Messages q = Messages p" "MessageIDs q = MessageIDs p" "UsageRequests q = UsageRequests p"
    "InputTokens q = InputTokens p" "OutputTokens q = OutputTokens p" "CacheReadTokens q = CacheReadTokens p"
    "CacheCreateTokens q = CacheCreateTokens p" "ServerToolTokens q = ServerToolTokens p"
  shows "projects q (es @ [e])"
  using assms by (simp add: projects_def messages_of_snoc usages_of_snoc)

lemma Apply_projects:
  assumes "projects p es" "Apply p e = Some q" "LastSeq p < Seq e"
  shows "projects q (if Type e = EventSessionReset then [] else es @ [e])"
proof -
  have names: "EventSessionCreated \<notin> set message_events" "EventSessionStatusChanged \<notin> set message_events"
    "EventRunStarted \<notin> set message_events" "list_all (\<lambda>t. t \<notin> set message_events) run_terminals"
    "EventSessionCreated \<noteq> EventUsageRecorded" "EventSessionStatusChanged \<noteq> EventUsageRecorded"
    "EventRunStarted \<noteq> EventUsageRecorded" "EventUsageRecorded \<notin> set run_terminals"
    "EventSessionReset \<noteq> EventSessionCreated" "EventSessionReset \<noteq> EventUsageRecorded"
    by code_simp+
  consider (created) "Type e = EventSessionCreated" | (reset) "Type e = EventSessionReset"
    | (status) "Type e = EventSessionStatusChanged" "Type e \<noteq> EventSessionReset"
    | (run) "Type e = EventRunStarted \<or> Type e \<in> set run_terminals" "Type e \<noteq> EventSessionCreated" "Type e \<noteq> EventSessionReset" "Type e \<noteq> EventSessionStatusChanged"
    | (other) "Type e \<noteq> EventSessionCreated" "Type e \<noteq> EventSessionReset" "Type e \<noteq> EventSessionStatusChanged"
      "Type e \<noteq> EventRunStarted" "Type e \<notin> set run_terminals" by blast
  then show ?thesis
  proof cases
    case created
    then show ?thesis using assms names by (auto simp: Apply_def intro!: projects_other)
  next
    case reset
    then show ?thesis using assms(2,3) names by (auto simp: Apply_def projects_def messages_of_def usages_of_def)
  next
    case status
    then show ?thesis using assms names
      by (auto simp: Apply_def apply_status_def intro!: projects_other split: prod.splits bool.splits if_splits)
  next
    case run
    then have "Type e \<notin> set message_events" "Type e \<noteq> EventUsageRecorded"
      using names by (auto simp: list_all_iff)
    then show ?thesis using assms run
      by (auto simp: Apply_def apply_run_def intro!: projects_other split: prod.splits bool.splits)
  next
    case other
    consider (msg) "Type e \<in> set message_events" | (usage) "Type e = EventUsageRecorded"
      | (rest) "Type e \<notin> set message_events" "Type e \<noteq> EventUsageRecorded" by blast
    then show ?thesis
    proof cases
      case msg
      then have "Type e \<noteq> EventUsageRecorded" using usage_not_message by metis
      with msg other assms show ?thesis by (auto simp: Apply_def intro: projects_message)
    next
      case usage
      then have "Type e \<notin> set message_events" using usage_not_message by metis
      with usage other assms show ?thesis by (auto simp: Apply_def intro: projects_usage [OF _ _ usage])
    next
      case rest
      with other assms show ?thesis
        by (auto simp: Apply_def apply_tool_def Let_def intro!: projects_other split: prod.splits bool.splits if_splits)
    qed
  qed
qed

definition journal_order :: "Event list \<Rightarrow> bool" where
  "journal_order es \<longleftrightarrow> sorted_wrt (\<lambda>a b. Seq a < Seq b) es \<and> list_all (\<lambda>e. 0 < Seq e) es"

lemma journal_order_snoc:
  "journal_order (es @ [e]) \<longleftrightarrow> journal_order es \<and> 0 < Seq e \<and> (\<forall>x \<in> set es. Seq x < Seq e)"
  by (auto simp: journal_order_def sorted_wrt_append)

lemma New_LastSeq [simp]: "LastSeq NewSessionProjection = 0"
  by (simp add: NewSessionProjection_def)

lemma apply_all_before:
  assumes "apply_all NewSessionProjection es = Some q" "journal_order (es @ [e])"
  shows "LastSeq q < Seq e"
  using apply_all_LastSeq_le [OF assms(1), of "Seq e - 1"] assms(2) by (auto simp: journal_order_snoc)

lemma apply_all_projects:
  "apply_all NewSessionProjection es = Some p \<Longrightarrow> journal_order es \<Longrightarrow> projects p (since_reset es)"
proof (induction es arbitrary: p rule: rev_induct)
  case Nil
  then show ?case by (auto simp: projects_def NewSessionProjection_def messages_of_def usages_of_def since_reset_def)
next
  case (snoc e es)
  then obtain q where q: "apply_all NewSessionProjection es = Some q" "Apply q e = Some p"
    by (auto simp: apply_all_snoc bind_eq_Some_conv)
  have "projects q (since_reset es)" using snoc q(1) by (simp add: journal_order_snoc)
  from Apply_projects [OF this q(2) apply_all_before [OF q(1) snoc.prems(2)]] show ?case
    by (simp add: since_reset_snoc)
qed

section \<open>Run states\<close>

definition is_run_event :: "Event \<Rightarrow> bool" where
  "is_run_event e \<longleftrightarrow> Type e = EventRunStarted \<or> Type e \<in> set run_terminals"

definition last_run_event :: "string \<Rightarrow> Event list \<Rightarrow> Event option" where
  "last_run_event i es = find (\<lambda>e. is_run_event e \<and> RunID (snd (decode_run e)) = i) (rev es)"

lemma Apply_RunStates:
  assumes "Apply p e = Some q" "LastSeq p < Seq e"
  shows "map_of (RunStates q) i =
    (if is_run_event e \<and> RunID (snd (decode_run e)) = i then Some (runStateForEvent (Type e)) else map_of (RunStates p) i)"
proof (cases "is_run_event e")
  case True
  have "EventSessionCreated \<noteq> EventRunStarted" "EventSessionReset \<noteq> EventRunStarted" "EventSessionStatusChanged \<noteq> EventRunStarted"
    "EventSessionCreated \<notin> set run_terminals" "EventSessionReset \<notin> set run_terminals" "EventSessionStatusChanged \<notin> set run_terminals"
    by code_simp+
  with True have "Type e \<noteq> EventSessionCreated" "Type e \<noteq> EventSessionReset" "Type e \<noteq> EventSessionStatusChanged"
    unfolding is_run_event_def by metis+
  with True assms show ?thesis
    by (auto simp: Apply_def is_run_event_def apply_run_def update_conv' split: prod.splits bool.splits)
next
  case False
  then have "RunStates q = RunStates p"
    using assms unfolding is_run_event_def
    by (auto simp: Apply_def apply_status_def apply_message_def apply_usage_def apply_tool_def Let_def
        split: prod.splits bool.splits if_splits)
  with False show ?thesis by simp
qed

lemma apply_all_RunStates:
  "apply_all NewSessionProjection es = Some p \<Longrightarrow> journal_order es \<Longrightarrow>
   map_of (RunStates p) i = map_option (\<lambda>e. runStateForEvent (Type e)) (last_run_event i es)"
proof (induction es arbitrary: p rule: rev_induct)
  case Nil
  then show ?case by (auto simp: NewSessionProjection_def last_run_event_def)
next
  case (snoc e es)
  then obtain q where q: "apply_all NewSessionProjection es = Some q" "Apply q e = Some p"
    by (auto simp: apply_all_snoc bind_eq_Some_conv)
  with snoc have "map_of (RunStates q) i = map_option (\<lambda>e. runStateForEvent (Type e)) (last_run_event i es)"
    by (simp add: journal_order_snoc)
  with Apply_RunStates [OF q(2) apply_all_before [OF q(1) snoc.prems(2)], of i] show ?case
    by (simp add: last_run_event_def)
qed

section \<open>Properties\<close>

text \<open>C27: replaying the journal in order gives the declared content: the messages since the last reset,
  one per context identity, and the token totals over the usage records since the last reset, one
  record per request, in the 64-bit arithmetic of Go; anonymous messages and records all count. The state of a run is that of its last event.\<close>

theorem projection_refines_event_history:
  assumes "apply_all NewSessionProjection es = Some p" "journal_order es"
  shows "Messages p = map map_Message (first_by message_key (messages_of (since_reset es))) \<and>
    InputTokens p = wrap64 (sum_list (map up_InputTokens (first_by RequestID (usages_of (since_reset es))))) \<and>
    OutputTokens p = wrap64 (sum_list (map up_OutputTokens (first_by RequestID (usages_of (since_reset es))))) \<and>
    CacheReadTokens p = wrap64 (sum_list (map up_CacheReadTokens (first_by RequestID (usages_of (since_reset es))))) \<and>
    CacheCreateTokens p = wrap64 (sum_list (map up_CacheCreateTokens (first_by RequestID (usages_of (since_reset es))))) \<and>
    ServerToolTokens p = wrap64 (sum_list (map up_ServerToolTokens (first_by RequestID (usages_of (since_reset es))))) \<and>
    (\<forall>i. map_of (RunStates p) i = map_option (\<lambda>e. runStateForEvent (Type e)) (last_run_event i es))"
  using apply_all_projects [OF assms] apply_all_RunStates [OF assms] unfolding projects_def by blast

definition sample_event :: "seqno \<Rightarrow> string \<Rightarrow> (string \<times> json) list \<Rightarrow> Event" where
  "sample_event n t kvs =
     \<lparr>Seq = n, StreamSeq = n, EventID = [], SessionID = ''s'', StreamID = ''s'', Type = t, SchemaVersion = 1,
      OccurredAt = 0, CausationID = [], CorrelationID = [], ev_Audience = [AudienceInternal], Payload = Some (JObj kvs)\<rparr>"

definition sample_history :: "Event list" where
  "sample_history =
     [sample_event 1 EventRunStarted [(''run_id'', JStr ''r'')],
      sample_event 2 EventUsageRecorded [(''request_id'', JStr ''q''), (''input_tokens'', JInt 7)],
      sample_event 3 EventUsageRecorded [(''request_id'', JStr ''q''), (''input_tokens'', JInt 7)],
      sample_event 4 EventRunCompleted [(''run_id'', JStr ''r'')]]"

theorem projection_refines_event_history_witness:
  "\<exists>p. apply_all NewSessionProjection sample_history = Some p \<and> journal_order sample_history \<and>
       InputTokens p = 7 \<and> map_of (RunStates p) ''r'' = Some ''completed''"
proof -
  have "apply_all NewSessionProjection sample_history \<noteq> None" by code_simp
  then obtain p where p: "apply_all NewSessionProjection sample_history = Some p" by blast
  have order: "journal_order sample_history" by (simp add: journal_order_def sample_history_def sample_event_def)
  have "sum_list (map up_InputTokens (first_by RequestID (usages_of (since_reset sample_history)))) = 7"
    "map_option (\<lambda>e. runStateForEvent (Type e)) (last_run_event ''r'' sample_history) = Some ''completed''"
    by code_simp+
  moreover have "wrap64 7 = 7" by (simp add: wrap64_id int64_range_def)
  ultimately show ?thesis using projection_refines_event_history [OF p order] p order by auto
qed

text \<open>delivering events again, in any order and number, after they have been applied changes nothing.\<close>

theorem redelivered_events_are_ignored:
  assumes "apply_all p es = Some q" "set ds \<subseteq> set es"
  shows "apply_all q ds = Some q"
  using apply_all_LastSeq [OF assms(1)] assms(2) by (intro apply_all_old) blast

theorem redelivered_events_are_ignored_witness:
  "\<exists>q. apply_all NewSessionProjection sample_history = Some q \<and>
       apply_all q [sample_history ! 3, sample_history ! 0, sample_history ! 3] = Some q"
proof -
  have "apply_all NewSessionProjection sample_history \<noteq> None" by code_simp
  then obtain q where q: "apply_all NewSessionProjection sample_history = Some q" by blast
  moreover have "set [sample_history ! 3, sample_history ! 0, sample_history ! 3] \<subseteq> set sample_history"
    by (simp add: sample_history_def)
  ultimately show ?thesis using redelivered_events_are_ignored [OF q] by blast
qed

text \<open>C35: the checker reports nothing exactly for the streams in which every run start names its run,
  every run that occurs is opened once and closed once afterwards, and so is every tool call.\<close>

theorem ValidateInvariants_clean_iff:
  "ValidateInvariants es = [] \<longleftrightarrow>
     (\<forall>e \<in> set es. valid_start e) \<and>
     (\<forall>i. complete_trace (trace run_mark i es)) \<and> (\<forall>i. complete_trace (trace tool_mark i es))"
proof -
  let ?c = "foldl check_event check_start es"
  have runs: "filter (\<lambda>(_, st). st = ''running'') (ck_runs ?c) = [] \<longleftrightarrow> (\<forall>i. phase_after (trace run_mark i es) \<noteq> Live)"
    using check_fold [of es] by (subst no_open_entry) (auto simp: run_word_def split: phase.splits)
  have "filter (\<lambda>(_, st). st \<noteq> ''terminal'') (ck_tools ?c) = filter (\<lambda>(_, st). st \<noteq> [] \<and> st \<noteq> ''terminal'') (ck_tools ?c)"
    by (rule filter_cong) (auto dest: check_tools_nonempty)
  then have tools: "filter (\<lambda>(_, st). st \<noteq> ''terminal'') (ck_tools ?c) = [] \<longleftrightarrow> (\<forall>i. phase_after (trace tool_mark i es) \<noteq> Live)"
    using check_fold [of es] no_open_entry [of "ck_tools ?c" "\<lambda>st. st \<noteq> [] \<and> st \<noteq> ''terminal''"]
    by (auto simp: tool_word_def split: phase.splits)
  have "ValidateInvariants es = [] \<longleftrightarrow> ck_bad ?c = [] \<and>
      filter (\<lambda>(_, st). st = ''running'') (ck_runs ?c) = [] \<and> filter (\<lambda>(_, st). st \<noteq> ''terminal'') (ck_tools ?c) = []"
    by (simp add: ValidateInvariants_def Let_def check_start_def)
  then show ?thesis
    unfolding runs tools complete_trace_iff using check_fold [of es] by blast
qed

theorem ValidateInvariants_clean_iff_witness:
  "ValidateInvariants sample_history = [] \<and> complete_trace (trace run_mark ''r'' sample_history)"
proof -
  have "ValidateInvariants sample_history = []" by code_simp
  with ValidateInvariants_clean_iff [of sample_history] show ?thesis by blast
qed

end
