(* ===== verification/Runtime_Journal.thy ===== *)
theory Runtime_Journal
  imports Harness_Projection
begin

text \<open>
  \<open>session/journal.go\<close>: the SQLite event journal of a session, with streams, optimistic
  concurrency on the position of a stream, checkpoints, consumer offsets and idempotent command
  results; and \<open>Replay\<close> of \<open>harness/store.go\<close>, which pages through the journal. The tables are
  association lists and lists in row order. A transaction either takes effect as a whole or leaves
  the tables unchanged; the constraints of the schema (unique event identifiers, foreign keys to
  the streams) are modelled, failures of the disk are not. The clock and the generator of UUIDs are
  arguments: \<open>now k\<close> and \<open>uuid k\<close> are their answers for the \<open>k\<close>-th event of a batch. Instants and
  identifiers read back as they were written.
\<close>

section \<open>State\<close>

record stream_row =
  sr_Kind :: string
  sr_Parent :: "string option"
  sr_Head :: seqno
  sr_Status :: string

record RuntimeJournal =
  j_sessionID :: string
  j_streams :: "(string \<times> stream_row) list"
  j_events :: "Event list"
  j_nextSeq :: seqno
  j_checkpoints :: "((string \<times> string) \<times> Checkpoint) list"
  j_offsets :: "(string \<times> seqno) list"
  j_commands :: "(string \<times> CommandResult) list"

datatype journal_error =
    EStreamFieldsRequired
  | EForeignKey
  | EMixedStreams
  | ETypeRequired
  | ENoStream string
  | EStreamConflict string seqno seqno
  | EMarshal string
  | EConstraint
  | ESessionIDRequired

section \<open>Operations\<close>

definition CreateStream :: "StreamDescriptor \<Rightarrow> RuntimeJournal \<Rightarrow> journal_error + RuntimeJournal" where
  "CreateStream s j =
     (if TrimSpace (sd_ID s) = [] \<or> TrimSpace (sd_Kind s) = [] then Inl EStreamFieldsRequired
      else let status = (if sd_Status s = [] then ''idle'' else sd_Status s) in
      if map_of (j_streams j) (sd_ID s) \<noteq> None then Inr j
      else if sd_ParentID s \<noteq> [] \<and> sd_ParentID s \<noteq> sd_ID s \<and> map_of (j_streams j) (sd_ParentID s) = None
      then Inl EForeignKey
      else Inr (j\<lparr>j_streams := mput (sd_ID s)
              \<lparr>sr_Kind = sd_Kind s, sr_Parent = (if sd_ParentID s = [] then None else Some (sd_ParentID s)),
               sr_Head = 0, sr_Status = status\<rparr> (j_streams j)\<rparr>))"

text \<open>\<open>openRuntimeJournal\<close> on a fresh database: empty tables and the stream of the session.\<close>

definition openRuntimeJournal :: "string \<Rightarrow> journal_error + RuntimeJournal" where
  "openRuntimeJournal sessionID =
     (if TrimSpace sessionID = [] then Inl ESessionIDRequired
      else CreateStream \<lparr>sd_ID = sessionID, sd_Kind = ''session'', sd_ParentID = [], sd_Status = ''idle''\<rparr>
        \<lparr>j_sessionID = sessionID, j_streams = [], j_events = [], j_nextSeq = 1, j_checkpoints = [],
         j_offsets = [], j_commands = []\<rparr>)"

definition maxInt :: "int \<Rightarrow> int \<Rightarrow> int" where
  "maxInt a b = (if a > b then a else b)"

definition normalizedLimit :: "int \<Rightarrow> int" where
  "normalizedLimit limit = (if limit \<le> 0 then 500 else if limit > 500 then 500 else limit)"

text \<open>The checks on the batch before the transaction: the first offending item decides.\<close>

fun check_batch :: "string \<Rightarrow> PendingEvent list \<Rightarrow> journal_error option" where
  "check_batch streamID [] = None"
| "check_batch streamID (item # items) =
     (if pe_StreamID item \<noteq> [] \<and> pe_StreamID item \<noteq> streamID then Some EMixedStreams
      else if TrimSpace (pe_Type item) = [] then Some ETypeRequired
      else check_batch streamID items)"

definition make_event :: "(nat \<Rightarrow> string) \<Rightarrow> (nat \<Rightarrow> int) \<Rightarrow> string \<Rightarrow> nat \<Rightarrow> RuntimeJournal \<Rightarrow> seqno \<Rightarrow> PendingEvent \<Rightarrow> json \<Rightarrow> Event" where
  "make_event uuid now streamID k j head item payload =
     \<lparr>Seq = j_nextSeq j, StreamSeq = head, EventID = (if pe_ID item = [] then uuid k else pe_ID item),
      SessionID = j_sessionID j, StreamID = streamID, Type = pe_Type item,
      SchemaVersion = maxInt (pe_SchemaVersion item) 1,
      OccurredAt = (if pe_OccurredAt item = 0 then now k else pe_OccurredAt item),
      CausationID = pe_CausationID item, CorrelationID = pe_CorrelationID item,
      ev_Audience = (if pe_Audience item = [] then [AudienceInternal] else pe_Audience item),
      Payload = Some payload\<rparr>"

definition violates :: "RuntimeJournal \<Rightarrow> Event \<Rightarrow> bool" where
  "violates j ev \<longleftrightarrow> list_ex (\<lambda>r. EventID r = EventID ev \<or> (StreamID r = StreamID ev \<and> StreamSeq r = StreamSeq ev)) (j_events j)"

text \<open>The loop of the transaction; the state it threads is discarded when it fails.\<close>

fun insert_all :: "(nat \<Rightarrow> string) \<Rightarrow> (nat \<Rightarrow> int) \<Rightarrow> string \<Rightarrow> nat \<Rightarrow> RuntimeJournal \<Rightarrow> seqno \<Rightarrow> PendingEvent list
    \<Rightarrow> journal_error + RuntimeJournal \<times> seqno \<times> Event list" where
  "insert_all uuid now streamID k j head [] = Inr (j, head, [])"
| "insert_all uuid now streamID k j head (item # items) =
     (case pe_Payload item of
        None \<Rightarrow> Inl (EMarshal (pe_Type item))
      | Some payload \<Rightarrow>
          (let ev = make_event uuid now streamID k j (head + 1) item payload in
           if violates j ev then Inl EConstraint
           else case insert_all uuid now streamID (Suc k)
                       (j\<lparr>j_events := j_events j @ [ev], j_nextSeq := j_nextSeq j + 1\<rparr>) (head + 1) items of
             Inl err \<Rightarrow> Inl err
           | Inr (j', head', evs) \<Rightarrow> Inr (j', head', ev # evs)))"

definition Append :: "(nat \<Rightarrow> string) \<Rightarrow> (nat \<Rightarrow> int) \<Rightarrow> seqno \<Rightarrow> PendingEvent list \<Rightarrow> RuntimeJournal
    \<Rightarrow> journal_error + RuntimeJournal \<times> Event list" where
  "Append uuid now expectedStreamSeq pending j =
     (case pending of
        [] \<Rightarrow> Inr (j, [])
      | first # _ \<Rightarrow>
          (let streamID = (if pe_StreamID first = [] then j_sessionID j else pe_StreamID first) in
           case check_batch streamID pending of
             Some err \<Rightarrow> Inl err
           | None \<Rightarrow>
               (case map_of (j_streams j) streamID of
                  None \<Rightarrow> Inl (ENoStream streamID)
                | Some row \<Rightarrow>
                    if expectedStreamSeq \<noteq> AnyStreamSeq \<and> expectedStreamSeq \<noteq> sr_Head row
                    then Inl (EStreamConflict streamID expectedStreamSeq (sr_Head row))
                    else case insert_all uuid now streamID 0 j (sr_Head row) pending of
                      Inl err \<Rightarrow> Inl err
                    | Inr (j', head', created) \<Rightarrow>
                        Inr (j'\<lparr>j_streams := mput streamID (row\<lparr>sr_Head := head'\<rparr>) (j_streams j')\<rparr>, created))))"

definition Load :: "RuntimeJournal \<Rightarrow> seqno \<Rightarrow> int \<Rightarrow> Event list" where
  "Load j afterSeq limit =
     take (nat (normalizedLimit limit)) (filter (\<lambda>e. Seq e > afterSeq) (j_events j))"

text \<open>\<open>ORDER BY stream_seq\<close>.\<close>

definition LoadStream :: "RuntimeJournal \<Rightarrow> string \<Rightarrow> seqno \<Rightarrow> int \<Rightarrow> Event list" where
  "LoadStream j streamID afterStreamSeq limit =
     take (nat (normalizedLimit limit))
       (sort_key StreamSeq (filter (\<lambda>e. StreamID e = streamID \<and> StreamSeq e > afterStreamSeq) (j_events j)))"

definition StreamHead :: "RuntimeJournal \<Rightarrow> string \<Rightarrow> journal_error + seqno" where
  "StreamHead j streamID =
     (case map_of (j_streams j) streamID of None \<Rightarrow> Inl (ENoStream streamID) | Some row \<Rightarrow> Inr (sr_Head row))"

definition Head :: "RuntimeJournal \<Rightarrow> seqno" where
  "Head j = (if j_events j = [] then 0 else foldl max (Seq (hd (j_events j))) (map Seq (tl (j_events j))))"

definition SaveCheckpoint :: "int \<Rightarrow> Checkpoint \<Rightarrow> RuntimeJournal \<Rightarrow> journal_error + RuntimeJournal" where
  "SaveCheckpoint now cp j =
     (let cp' = (if cp_CreatedAt cp = 0 then cp\<lparr>cp_CreatedAt := now\<rparr> else cp) in
      if map_of (j_streams j) (cp_StreamID cp) = None then Inl EForeignKey
      else Inr (j\<lparr>j_checkpoints := mput (cp_StreamID cp, cp_Projector cp) cp' (j_checkpoints j)\<rparr>))"

definition LoadCheckpoint :: "RuntimeJournal \<Rightarrow> string \<Rightarrow> string \<Rightarrow> Checkpoint option" where
  "LoadCheckpoint j streamID projector = map_of (j_checkpoints j) (streamID, projector)"

definition SaveCommandResult :: "int \<Rightarrow> CommandResult \<Rightarrow> RuntimeJournal \<Rightarrow> RuntimeJournal" where
  "SaveCommandResult now r j =
     (let r' = (if cr_CreatedAt r = 0 then r\<lparr>cr_CreatedAt := now\<rparr> else r) in
      if map_of (j_commands j) (cr_CommandID r) \<noteq> None then j
      else j\<lparr>j_commands := mput (cr_CommandID r) r' (j_commands j)\<rparr>)"

definition GetCommandResult :: "RuntimeJournal \<Rightarrow> string \<Rightarrow> CommandResult option" where
  "GetCommandResult j commandID = map_of (j_commands j) commandID"

definition ConsumerOffset :: "RuntimeJournal \<Rightarrow> string \<Rightarrow> seqno" where
  "ConsumerOffset j consumer = mget 0 (j_offsets j) consumer"

definition SaveConsumerOffset :: "string \<Rightarrow> seqno \<Rightarrow> RuntimeJournal \<Rightarrow> RuntimeJournal" where
  "SaveConsumerOffset consumer offset j = j\<lparr>j_offsets := mput consumer offset (j_offsets j)\<rparr>"

section \<open>Paging\<close>

text \<open>
  The loop of \<open>Replay\<close>: pages of five hundred events after \<open>last\<close> until a page is short. \<open>step\<close> is
  the projector's \<open>Apply\<close>. The result is the last sequence number reached, whether the loop ended
  without an error, and the projector. The fuel counts pages; \<open>None\<close> means it ran out.
\<close>

fun apply_page :: "('p \<Rightarrow> Event \<Rightarrow> 'p option) \<Rightarrow> seqno \<Rightarrow> 'p \<Rightarrow> Event list \<Rightarrow> seqno \<times> bool \<times> 'p" where
  "apply_page step lst p [] = (lst, True, p)"
| "apply_page step lst p (e # es) =
     (case step p e of None \<Rightarrow> (lst, False, p) | Some p' \<Rightarrow> apply_page step (Seq e) p' es)"

fun replay_pages :: "nat \<Rightarrow> (seqno \<Rightarrow> int \<Rightarrow> Event list) \<Rightarrow> ('p \<Rightarrow> Event \<Rightarrow> 'p option) \<Rightarrow> seqno \<Rightarrow> 'p
    \<Rightarrow> (seqno \<times> bool \<times> 'p) option" where
  "replay_pages 0 ld step lst p = None"
| "replay_pages (Suc n) ld step lst p =
     (let events = ld lst 500 in
      case apply_page step lst p events of
        (lst', False, p') \<Rightarrow> Some (lst', False, p')
      | (lst', True, p') \<Rightarrow>
          if length events < 500 then Some (lst', True, p') else replay_pages n ld step lst' p')"

definition Replay :: "RuntimeJournal \<Rightarrow> ('p \<Rightarrow> Event \<Rightarrow> 'p option) \<Rightarrow> seqno \<Rightarrow> 'p \<Rightarrow> (seqno \<times> bool \<times> 'p) option" where
  "Replay j step afterSeq p = replay_pages (length (j_events j) + 1) (Load j) step afterSeq p"

section \<open>The interface of an event store\<close>

lemma apply_page_append:
  "apply_page step a p (xs @ ys) =
     (case apply_page step a p xs of (l, False, q) \<Rightarrow> (l, False, q) | (l, True, q) \<Rightarrow> apply_page step l q ys)"
  by (induction step a p xs rule: apply_page.induct) (auto split: option.splits)

lemma apply_page_last: "apply_page step a p xs = (l, True, q) \<Longrightarrow> l = (if xs = [] then a else Seq (last xs))"
  by (induction step a p xs rule: apply_page.induct) (auto split: option.splits if_splits)

lemma filter_after_last:
  assumes "sorted_wrt (\<lambda>a b. Seq a < Seq b) (ys @ zs)" "ys \<noteq> []"
  shows "filter (\<lambda>e. Seq e > Seq (last ys)) (ys @ zs) = zs"
proof -
  have "\<not> Seq e > Seq (last ys)" if "e \<in> set ys" for e
  proof -
    have "ys = butlast ys @ [last ys]" using assms(2) by simp
    then have "sorted_wrt (\<lambda>a b. Seq a < Seq b) (butlast ys @ [last ys])" using assms(1) by (simp add: sorted_wrt_append)
    moreover have "e \<in> set (butlast ys) \<or> e = last ys" using that \<open>ys = _\<close> by (metis in_set_conv_decomp rotate1.simps(2) set_ConsD set_rotate1)
    ultimately show ?thesis by (auto simp: sorted_wrt_append)
  qed
  moreover have "Seq e > Seq (last ys)" if "e \<in> set zs" for e
    using assms that by (auto simp: sorted_wrt_append)
  ultimately show ?thesis by (simp add: filter_empty_conv filter_id_conv)
qed

text \<open>
  What a reader of the journal relies on: the store is in order, and a page holds the first events
  after a position, at most five hundred of them. The SQLite journal and the clustered store both
  promise it; \<open>Replay\<close> and the recovery scan are its clients.
\<close>

locale event_store =
  fixes load :: "'s \<Rightarrow> seqno \<Rightarrow> int \<Rightarrow> Event list"
    and history :: "'s \<Rightarrow> Event list"
    and ok :: "'s \<Rightarrow> bool"
  assumes load_page: "ok s \<Longrightarrow> load s a n = take (nat (normalizedLimit n)) (filter (\<lambda>e. Seq e > a) (history s))"
    and history_order: "ok s \<Longrightarrow> journal_order (history s)"
begin

lemma next_page:
  assumes "ok s" "take 500 (filter (\<lambda>e. Seq e > a) (history s)) = page" "page \<noteq> []"
  shows "filter (\<lambda>e. Seq e > Seq (last page)) (history s) = drop 500 (filter (\<lambda>e. Seq e > a) (history s))"
proof -
  let ?xs = "filter (\<lambda>e. Seq e > a) (history s)"
  have xs: "?xs = page @ drop 500 ?xs" using assms(2) by (metis append_take_drop_id)
  have "last page \<in> set ?xs" using assms(2,3) by (metis in_set_takeD last_in_set)
  then have "a < Seq (last page)" by simp
  then have "filter (\<lambda>e. Seq e > Seq (last page)) (history s) = filter (\<lambda>e. Seq e > Seq (last page)) ?xs"
    unfolding filter_filter by (intro filter_cong) auto
  also have "\<dots> = drop 500 ?xs"
  proof -
    have "sorted_wrt (\<lambda>a b. Seq a < Seq b) ?xs"
      using history_order [OF assms(1)] by (auto simp: journal_order_def intro: sorted_wrt_filter)
    then have "sorted_wrt (\<lambda>a b. Seq a < Seq b) (page @ drop 500 ?xs)" using xs by metis
    from filter_after_last [OF this assms(3)]
    show ?thesis by (rule trans [OF arg_cong [OF xs, of "filter (\<lambda>e. Seq e > Seq (last page))"]])
  qed
  finally show ?thesis .
qed

lemma replay_complete:
  assumes "ok s"
  shows "length (filter (\<lambda>e. Seq e > a) (history s)) < fuel \<Longrightarrow>
    replay_pages fuel (load s) step a p = Some (apply_page step a p (filter (\<lambda>e. Seq e > a) (history s)))"
proof (induction fuel arbitrary: a p)
  case (Suc fuel)
  let ?xs = "filter (\<lambda>e. Seq e > a) (history s)"
  let ?page = "take 500 ?xs"
  have page: "load s a 500 = ?page" using load_page [OF assms] by (simp add: normalizedLimit_def)
  have split: "apply_page step a p ?xs =
      (case apply_page step a p ?page of (l, False, q) \<Rightarrow> (l, False, q) | (l, True, q) \<Rightarrow> apply_page step l q (drop 500 ?xs))"
    using apply_page_append [of step a p ?page "drop 500 ?xs"] by simp
  obtain l b q where ap: "apply_page step a p ?page = (l, b, q)" by (cases "apply_page step a p ?page")
  have step: "replay_pages (Suc fuel) (load s) step a p = (case apply_page step a p ?page of
      (l, False, q) \<Rightarrow> Some (l, False, q)
    | (l, True, q) \<Rightarrow> if length ?page < 500 then Some (l, True, q) else replay_pages fuel (load s) step l q)"
    by (simp only: replay_pages.simps page Let_def)
  show ?case
  proof (cases "b \<and> \<not> length ?page < 500")
    case False
    show ?thesis
    proof (cases b)
      case True
      with False have "length ?page < 500" by blast
      moreover from this have "drop 500 ?xs = []" by (simp only: length_take drop_eq_Nil)
      ultimately show ?thesis using True unfolding step split ap by (simp del: length_take)
    next
      case False
      then show ?thesis unfolding step split ap by simp
    qed
  next
    case True
    then have ne: "?page \<noteq> []" by auto
    have "apply_page step a p ?page = (l, True, q)" using ap True by metis
    from apply_page_last [OF this] have l: "l = Seq (last ?page)" unfolding if_not_P [OF ne] .
    have rest: "filter (\<lambda>e. Seq e > l) (history s) = drop 500 ?xs" using next_page [OF assms refl ne] l by simp
    have "length (drop 500 ?xs) < fuel" using True Suc.prems by auto
    then have "replay_pages fuel (load s) step l q = Some (apply_page step l q (drop 500 ?xs))"
      using Suc.IH [of l q] unfolding rest by blast
    with True show ?thesis unfolding step split ap by simp
  qed
qed simp

end

section \<open>Well-formed journals\<close>

text \<open>
  \<open>H\<close> gives the head of every stream: the events of a stream carry the positions one to head, in
  order; sequence numbers increase and stay below the next one; event identifiers are unique.
\<close>

definition wf_rows :: "(string \<Rightarrow> seqno option) \<Rightarrow> RuntimeJournal \<Rightarrow> bool" where
  "wf_rows H j \<longleftrightarrow>
     journal_order (j_events j) \<and> 0 < j_nextSeq j \<and> (\<forall>e \<in> set (j_events j). Seq e < j_nextSeq j) \<and>
     distinct (map EventID (j_events j)) \<and>
     (\<forall>e \<in> set (j_events j). H (StreamID e) \<noteq> None \<and> SessionID e = j_sessionID j) \<and>
     (\<forall>st h. H st = Some h \<longrightarrow> 0 \<le> h \<and> map StreamSeq (filter (\<lambda>e. StreamID e = st) (j_events j)) = [1..h])"

definition heads :: "RuntimeJournal \<Rightarrow> string \<Rightarrow> seqno option" where
  "heads j st = map_option sr_Head (map_of (j_streams j) st)"

definition wf_journal :: "RuntimeJournal \<Rightarrow> bool" where
  "wf_journal j \<longleftrightarrow> wf_rows (heads j) j"

lemma make_event_sel [simp]:
  "Seq (make_event uuid now st k j h item x) = j_nextSeq j"
  "StreamSeq (make_event uuid now st k j h item x) = h"
  "StreamID (make_event uuid now st k j h item x) = st"
  "SessionID (make_event uuid now st k j h item x) = j_sessionID j"
  "Type (make_event uuid now st k j h item x) = pe_Type item"
  "Payload (make_event uuid now st k j h item x) = Some x"
  "CorrelationID (make_event uuid now st k j h item x) = pe_CorrelationID item"
  by (simp_all add: make_event_def)

lemma wf_rows_insert:
  assumes "wf_rows H j" "H st = Some head" "\<not> violates j (make_event uuid now st k j (head + 1) item x)"
  shows "wf_rows (H(st \<mapsto> head + 1))
    (j\<lparr>j_events := j_events j @ [make_event uuid now st k j (head + 1) item x], j_nextSeq := j_nextSeq j + 1\<rparr>)"
proof -
  have "0 \<le> head" using assms(1,2) unfolding wf_rows_def by blast
  then have up: "[1..head + 1] = [1..head] @ [head + 1]" by (simp add: upto_rec2)
  have "EventID (make_event uuid now st k j (head + 1) item x) \<notin> EventID ` set (j_events j)"
    using assms(3) by (auto simp: violates_def list_ex_iff)
  with assms(1,2) up show ?thesis
    unfolding wf_rows_def by (auto simp: journal_order_snoc less_imp_le)
qed

lemma insert_all_wf:
  assumes "wf_rows H j" "H st = Some head" "insert_all uuid now st k j head items = Inr (j', head', evs)"
  shows "wf_rows (H(st \<mapsto> head')) j' \<and> head' = head + int (length items) \<and>
    j' = j\<lparr>j_events := j_events j @ evs, j_nextSeq := j_nextSeq j + int (length items)\<rparr> \<and> length evs = length items \<and>
    map StreamSeq evs = [head + 1..head'] \<and> map Type evs = map pe_Type items \<and> map Payload evs = map pe_Payload items \<and>
    (\<forall>e \<in> set evs. StreamID e = st)"
  using assms
proof (induction items arbitrary: k j head H evs)
  case Nil
  then show ?case by (auto simp: fun_upd_idem)
next
  case (Cons item items)
  obtain x where x: "pe_Payload item = Some x" using Cons.prems(3) by (cases "pe_Payload item") auto
  let ?ev = "make_event uuid now st k j (head + 1) item x"
  let ?j = "j\<lparr>j_events := j_events j @ [?ev], j_nextSeq := j_nextSeq j + 1\<rparr>"
  have nv: "\<not> violates j ?ev" using Cons.prems(3) x by (auto simp: Let_def)
  then obtain evs' where rec: "insert_all uuid now st (Suc k) ?j (head + 1) items = Inr (j', head', evs')" and evs: "evs = ?ev # evs'"
    using Cons.prems(3) x by (auto simp: Let_def split: sum.splits)
  have "(H(st \<mapsto> head + 1)) st = Some (head + 1)" by simp
  note IH = Cons.IH [OF wf_rows_insert [OF Cons.prems(1,2) nv] this rec, unfolded fun_upd_upd]
  have "head + 1 \<le> head'" using IH by simp
  then have "[head + 1..head'] = (head + 1) # [head + 1 + 1..head']" by (simp add: upto_rec1)
  moreover have "wf_rows (H(st \<mapsto> head')) j'" using IH by blast
  moreover have "int (length (item # items)) = 1 + int (length items)" by simp
  ultimately show ?case using IH evs x by (intro conjI) (blast | simp add: algebra_simps)+
qed

lemma Append_cases:
  assumes "Append uuid now expected pending j = Inr (j', created)" "pending \<noteq> []"
  obtains st row head' j1 where
    "st = (if pe_StreamID (hd pending) = [] then j_sessionID j else pe_StreamID (hd pending))"
    "check_batch st pending = None" "map_of (j_streams j) st = Some row"
    "expected = AnyStreamSeq \<or> expected = sr_Head row"
    "insert_all uuid now st 0 j (sr_Head row) pending = Inr (j1, head', created)"
    "j' = j1\<lparr>j_streams := mput st (row\<lparr>sr_Head := head'\<rparr>) (j_streams j1)\<rparr>"
proof (cases pending)
  case (Cons first rest)
  define st where "st = (if pe_StreamID first = [] then j_sessionID j else pe_StreamID first)"
  from assms(1) have "(case check_batch st pending of Some err \<Rightarrow> Inl err
      | None \<Rightarrow> (case map_of (j_streams j) st of None \<Rightarrow> Inl (ENoStream st)
         | Some row \<Rightarrow> if expected \<noteq> AnyStreamSeq \<and> expected \<noteq> sr_Head row then Inl (EStreamConflict st expected (sr_Head row))
             else case insert_all uuid now st 0 j (sr_Head row) pending of Inl err \<Rightarrow> Inl err
               | Inr (j1, head', created) \<Rightarrow> Inr (j1\<lparr>j_streams := mput st (row\<lparr>sr_Head := head'\<rparr>) (j_streams j1)\<rparr>, created))) =
      Inr (j', created)"
    unfolding Append_def Cons st_def by (simp add: Let_def)
  then obtain row j1 head' where "check_batch st pending = None" "map_of (j_streams j) st = Some row"
    "expected = AnyStreamSeq \<or> expected = sr_Head row"
    "insert_all uuid now st 0 j (sr_Head row) pending = Inr (j1, head', created)"
    "j' = j1\<lparr>j_streams := mput st (row\<lparr>sr_Head := head'\<rparr>) (j_streams j1)\<rparr>"
    by (auto split: option.splits sum.splits if_splits)
  with that show ?thesis using Cons st_def by (metis list.sel(1))
qed (use assms in simp)

lemma heads_mput:
  "map_option sr_Head (map_of (mput st row m) i) = ((\<lambda>i. map_option sr_Head (map_of m i))(st \<mapsto> sr_Head row)) i"
  by (simp add: update_conv')

lemma Append_spec:
  assumes "wf_journal j" "Append uuid now expected pending j = Inr (j', created)"
  shows "wf_journal j' \<and> j_events j' = j_events j @ created \<and> map Type created = map pe_Type pending \<and>
    map Payload created = map pe_Payload pending \<and> j_sessionID j' = j_sessionID j"
proof (cases "pending = []")
  case False
  from Append_cases [OF assms(2) this] obtain st row head' j1 where
    row: "map_of (j_streams j) st = Some row" and
    ins: "insert_all uuid now st 0 j (sr_Head row) pending = Inr (j1, head', created)" and
    j': "j' = j1\<lparr>j_streams := mput st (row\<lparr>sr_Head := head'\<rparr>) (j_streams j1)\<rparr>" by metis
  have "heads j st = Some (sr_Head row)" using row by (simp add: heads_def)
  from insert_all_wf [OF assms(1) [unfolded wf_journal_def] this ins]
  have wf: "wf_rows ((heads j)(st \<mapsto> head')) j1" and
    j1: "j1 = j\<lparr>j_events := j_events j @ created, j_nextSeq := j_nextSeq j + int (length pending)\<rparr>" and
    shape: "map Type created = map pe_Type pending" "map Payload created = map pe_Payload pending" by blast+
  have "heads j' = (heads j)(st \<mapsto> head')"
    unfolding heads_def [abs_def] j' by (rule ext) (simp add: heads_mput j1)
  moreover have "wf_rows H j' = wf_rows H j1" for H by (simp add: wf_rows_def j')
  ultimately show ?thesis using wf shape by (simp add: wf_journal_def j' j1)
qed (use assms in \<open>simp add: Append_def\<close>)

lemma wf_rows_new_stream:
  assumes "wf_rows H j" "H st = None"
  shows "wf_rows (H(st \<mapsto> 0)) j"
proof -
  have "StreamID e \<noteq> st" if "e \<in> set (j_events j)" for e
    using assms that unfolding wf_rows_def by metis
  then have "filter (\<lambda>e. StreamID e = st) (j_events j) = []" by (auto simp: filter_empty_conv)
  with assms show ?thesis by (simp add: wf_rows_def)
qed

lemma CreateStream_wf:
  assumes "wf_journal j" "CreateStream s j = Inr j'"
  shows "wf_journal j'"
proof (cases "map_of (j_streams j) (sd_ID s)")
  case None
  then obtain row where j': "j' = j\<lparr>j_streams := mput (sd_ID s) row (j_streams j)\<rparr>" and "sr_Head row = 0"
    using assms(2) by (auto simp: CreateStream_def Let_def split: if_splits)
  then have "heads j' = (heads j)(sd_ID s \<mapsto> 0)"
    unfolding heads_def [abs_def] by (intro ext) (simp add: heads_mput)
  moreover have "wf_rows ((heads j)(sd_ID s \<mapsto> 0)) j"
    using assms(1) None by (intro wf_rows_new_stream) (simp_all add: wf_journal_def heads_def)
  moreover have "wf_rows H j' = wf_rows H j" for H by (simp add: wf_rows_def j')
  ultimately show ?thesis by (simp add: wf_journal_def)
qed (use assms in \<open>auto simp: CreateStream_def Let_def split: if_splits\<close>)

lemma wf_journal_tables [simp]:
  "wf_journal (j\<lparr>j_checkpoints := c\<rparr>) = wf_journal j" "wf_journal (j\<lparr>j_offsets := f\<rparr>) = wf_journal j"
  "wf_journal (j\<lparr>j_commands := r\<rparr>) = wf_journal j"
  by (simp_all add: wf_journal_def wf_rows_def heads_def [abs_def])

interpretation sqlite: event_store Load j_events wf_journal
  by unfold_locales (simp_all add: Load_def wf_journal_def wf_rows_def)

lemma LoadStream_spec:
  assumes "wf_journal j"
  shows "LoadStream j st a n =
    take (nat (normalizedLimit n)) (filter (\<lambda>e. StreamID e = st \<and> StreamSeq e > a) (j_events j))"
proof -
  let ?xs = "filter (\<lambda>e. StreamID e = st) (j_events j)"
  have "sorted (map StreamSeq ?xs)"
  proof (cases "heads j st")
    case None
    then have "?xs = []" using assms by (auto simp: wf_journal_def wf_rows_def filter_empty_conv)
    then show ?thesis by simp
  next
    case (Some h)
    then have "map StreamSeq ?xs = [1..h]" using assms by (simp add: wf_journal_def wf_rows_def)
    then show ?thesis by simp
  qed
  then have "sorted (map StreamSeq (filter (\<lambda>e. StreamSeq e > a) ?xs))" by (rule sorted_filter)
  then have "sort_key StreamSeq (filter (\<lambda>e. StreamSeq e > a) ?xs) = filter (\<lambda>e. StreamSeq e > a) ?xs"
    by (rule sort_key_id_if_sorted)
  then show ?thesis by (simp add: LoadStream_def conj_commute)
qed

section \<open>Properties\<close>

text \<open>The states a journal can reach through its operations.\<close>

inductive journal_step :: "RuntimeJournal \<Rightarrow> RuntimeJournal \<Rightarrow> bool" where
  step_create: "CreateStream s j = Inr j' \<Longrightarrow> journal_step j j'"
| step_append: "Append uuid now expected pending j = Inr (j', created) \<Longrightarrow> journal_step j j'"
| step_checkpoint: "SaveCheckpoint now cp j = Inr j' \<Longrightarrow> journal_step j j'"
| step_command: "journal_step j (SaveCommandResult now r j)"
| step_offset: "journal_step j (SaveConsumerOffset c n j)"

inductive journal_reachable :: "RuntimeJournal \<Rightarrow> bool" where
  reach_open: "openRuntimeJournal sid = Inr j \<Longrightarrow> journal_reachable j"
| reach_step: "journal_reachable j \<Longrightarrow> journal_step j j' \<Longrightarrow> journal_reachable j'"

inductive_cases journal_stepE: "journal_step j j'"

lemma SaveCheckpoint_tables: "SaveCheckpoint now cp j = Inr j' \<Longrightarrow> \<exists>c. j' = j\<lparr>j_checkpoints := c\<rparr>"
  by (auto simp: SaveCheckpoint_def Let_def split: if_splits)

lemma SaveCommandResult_tables: "\<exists>c. SaveCommandResult now r j = j\<lparr>j_commands := c\<rparr>"
  by (auto simp: SaveCommandResult_def Let_def intro: exI [of _ "j_commands j"])

lemma journal_step_wf: "journal_step j j' \<Longrightarrow> wf_journal j \<Longrightarrow> wf_journal j'"
proof (elim journal_stepE)
  fix uuid now expected pending created
  assume "wf_journal j" "Append uuid now expected pending j = Inr (j', created)"
  then show "wf_journal j'" using Append_spec by blast
next
  fix now cp
  assume "wf_journal j" "SaveCheckpoint now cp j = Inr j'"
  then show "wf_journal j'" using SaveCheckpoint_tables by (metis wf_journal_tables(1))
next
  fix now r
  assume "wf_journal j" "j' = SaveCommandResult now r j"
  then show "wf_journal j'" using SaveCommandResult_tables by (metis wf_journal_tables(3))
qed (auto simp: SaveConsumerOffset_def intro: CreateStream_wf)

lemma open_wf: "openRuntimeJournal sid = Inr j \<Longrightarrow> wf_journal j"
proof -
  assume "openRuntimeJournal sid = Inr j"
  moreover have "wf_journal \<lparr>j_sessionID = sid, j_streams = [], j_events = [], j_nextSeq = 1, j_checkpoints = [],
         j_offsets = [], j_commands = []\<rparr>"
    by (simp add: wf_journal_def wf_rows_def heads_def journal_order_def)
  ultimately show ?thesis using CreateStream_wf by (auto simp: openRuntimeJournal_def split: if_splits)
qed

lemma reachable_wf: "journal_reachable j \<Longrightarrow> wf_journal j"
  by (induction rule: journal_reachable.induct) (auto intro: open_wf journal_step_wf)

definition sample_pending :: "string \<Rightarrow> (string \<times> json) list \<Rightarrow> PendingEvent" where
  "sample_pending t kvs =
     \<lparr>pe_ID = [], pe_StreamID = [], pe_Type = t, pe_SchemaVersion = 0, pe_OccurredAt = 0, pe_CausationID = [],
      pe_CorrelationID = [], pe_Audience = [], pe_Payload = Some (JObj kvs)\<rparr>"

definition sample_uuid :: "nat \<Rightarrow> string" where "sample_uuid k = CHR ''u'' # digits_nat k"

definition sample_journal :: RuntimeJournal where
  "sample_journal =
     (case openRuntimeJournal ''s'' of
        Inl _ \<Rightarrow> undefined
      | Inr j \<Rightarrow>
          (case Append sample_uuid (\<lambda>_. 9) 0
                  [sample_pending EventRunStarted [(''run_id'', JStr ''r'')],
                   sample_pending EventToolCallPlanned [(''tool_call_id'', JStr ''t''), (''call_index'', JInt 2)]] j of
             Inl _ \<Rightarrow> undefined
           | Inr (j', _) \<Rightarrow> j'))"

lemma sample_journal_reachable: "journal_reachable sample_journal"
proof -
  have "\<exists>j. openRuntimeJournal ''s'' = Inr j \<and> (\<exists>c. Append sample_uuid (\<lambda>_. 9) 0
        [sample_pending EventRunStarted [(''run_id'', JStr ''r'')],
         sample_pending EventToolCallPlanned [(''tool_call_id'', JStr ''t''), (''call_index'', JInt 2)]] j = Inr (sample_journal, c))"
  proof -
    have "isl (openRuntimeJournal ''s'') = False" by code_simp
    then obtain j where j: "openRuntimeJournal ''s'' = Inr j" by (cases "openRuntimeJournal ''s''") auto
    have "(case openRuntimeJournal ''s'' of Inl _ \<Rightarrow> True | Inr j \<Rightarrow> isl (Append sample_uuid (\<lambda>_. 9) 0
        [sample_pending EventRunStarted [(''run_id'', JStr ''r'')],
         sample_pending EventToolCallPlanned [(''tool_call_id'', JStr ''t''), (''call_index'', JInt 2)]] j)) = False" by code_simp
    with j obtain j' c where "Append sample_uuid (\<lambda>_. 9) 0
        [sample_pending EventRunStarted [(''run_id'', JStr ''r'')],
         sample_pending EventToolCallPlanned [(''tool_call_id'', JStr ''t''), (''call_index'', JInt 2)]] j = Inr (j', c)"
      by (auto simp: isl_def) (metis obj_sumE surj_pair)
    with j show ?thesis by (auto simp: sample_journal_def)
  qed
  then show ?thesis using reach_open reach_step step_append by blast
qed

text \<open>C26: in every reachable journal the global sequence numbers increase strictly, event identifiers are
  unique, and the events of each stream carry the positions one to the head of the stream without
  gaps, in order.\<close>

theorem reachable_journal_is_gapless:
  assumes "journal_reachable j"
  shows "journal_order (j_events j) \<and> distinct (map EventID (j_events j)) \<and>
    (\<forall>st row. map_of (j_streams j) st = Some row \<longrightarrow>
       map StreamSeq (filter (\<lambda>e. StreamID e = st) (j_events j)) = [1..sr_Head row])"
  using reachable_wf [OF assms] by (auto simp: wf_journal_def wf_rows_def heads_def)

theorem reachable_journal_is_gapless_witness:
  "journal_reachable sample_journal \<and> journal_order (j_events sample_journal) \<and> length (j_events sample_journal) = 2"
proof -
  have "length (j_events sample_journal) = 2" by code_simp
  with reachable_journal_is_gapless [OF sample_journal_reachable] sample_journal_reachable show ?thesis by blast
qed

text \<open>an append is atomic and its events go to the end: a successful append extends the history by
  exactly the events it returns, one per pending event with its type and payload, at the next
  positions of the stream.\<close>

theorem append_extends_history:
  assumes "journal_reachable j" "Append uuid now expected pending j = Inr (j', created)"
  shows "j_events j' = j_events j @ created \<and> map Type created = map pe_Type pending \<and>
    map Payload created = map pe_Payload pending \<and>
    (\<forall>st h. StreamHead j st = Inr h \<and> created \<noteq> [] \<and> st = StreamID (hd created) \<longrightarrow>
       map StreamSeq created = [h + 1..h + int (length pending)] \<and> StreamHead j' st = Inr (h + int (length pending)))"
proof (cases "pending = []")
  case True
  with assms(2) show ?thesis by (simp add: Append_def)
next
  case False
  from Append_cases [OF assms(2) this] obtain st row head' j1 where
    row: "map_of (j_streams j) st = Some row" and
    ins: "insert_all uuid now st 0 j (sr_Head row) pending = Inr (j1, head', created)" and
    j': "j' = j1\<lparr>j_streams := mput st (row\<lparr>sr_Head := head'\<rparr>) (j_streams j1)\<rparr>" by metis
  have "heads j st = Some (sr_Head row)" using row by (simp add: heads_def)
  note spec = insert_all_wf [OF reachable_wf [OF assms(1), unfolded wf_journal_def] this ins]
  then have "created \<noteq> []" using False by auto
  then have "StreamID (hd created) = st" using spec by (meson hd_in_set)
  then show ?thesis
    using spec row j' Append_spec [OF reachable_wf [OF assms(1)] assms(2)] by (auto simp: StreamHead_def update_conv')
qed

theorem append_extends_history_witness:
  "\<exists>j' created. Append sample_uuid (\<lambda>_. 9) 2 [(sample_pending EventRunCompleted [(''run_id'', JStr ''r'')])\<lparr>pe_ID := ''x''\<rparr>] sample_journal
      = Inr (j', created) \<and> j_events j' = j_events sample_journal @ created"
proof -
  let ?p = "[(sample_pending EventRunCompleted [(''run_id'', JStr ''r'')])\<lparr>pe_ID := ''x''\<rparr>]"
  have "isl (Append sample_uuid (\<lambda>_. 9) 2 ?p sample_journal) = False" by code_simp
  then obtain j' created where ap: "Append sample_uuid (\<lambda>_. 9) 2 ?p sample_journal = Inr (j', created)"
    by (auto simp: isl_def) (metis obj_sumE surj_pair)
  with append_extends_history [OF sample_journal_reachable ap] show ?thesis by blast
qed

text \<open>optimistic concurrency: of two writers that both expect the stream at its current head, at most
  one can append. After the first has appended, the second is refused with a conflict that reports
  the new head.\<close>

theorem second_writer_conflicts:
  assumes "journal_reachable j" "StreamHead j st = Inr h"
    and "Append uuid now h (p # ps) j = Inr (j', created)"
    and "st = (if pe_StreamID p = [] then j_sessionID j else pe_StreamID p)"
    and "check_batch st (q # qs) = None" "(if pe_StreamID q = [] then j_sessionID j else pe_StreamID q) = st"
  shows "Append uuid' now' h (q # qs) j' = Inl (EStreamConflict st h (h + int (length (p # ps))))"
proof -
  from Append_cases [OF assms(3)] obtain row head' j1 where
    row: "map_of (j_streams j) st = Some row" and
    ins: "insert_all uuid now st 0 j (sr_Head row) (p # ps) = Inr (j1, head', created)" and
    j': "j' = j1\<lparr>j_streams := mput st (row\<lparr>sr_Head := head'\<rparr>) (j_streams j1)\<rparr>"
    using assms(4) by (metis list.distinct(1) list.sel(1))
  have h: "sr_Head row = h" using row assms(2) by (simp add: StreamHead_def)
  have hd: "heads j st = Some (sr_Head row)" using row by (simp add: heads_def)
  note spec = insert_all_wf [OF reachable_wf [OF assms(1), unfolded wf_journal_def] hd ins]
  have "0 \<le> h" using reachable_wf [OF assms(1)] hd h by (auto simp: wf_journal_def wf_rows_def)
  then have "h \<noteq> AnyStreamSeq" by (simp add: AnyStreamSeq_def)
  moreover have "map_of (j_streams j') st = Some (row\<lparr>sr_Head := head'\<rparr>)" by (simp add: j' update_conv')
  moreover have "(if pe_StreamID q = [] then j_sessionID j' else pe_StreamID q) = st" using spec j' assms(6) by auto
  moreover have "head' = h + int (length (p # ps))" using spec h by blast
  moreover have "head' \<noteq> h" using calculation(4) by simp
  ultimately show ?thesis using assms(5) unfolding Append_def list.case Let_def by simp
qed

theorem second_writer_conflicts_witness:
  "Append sample_uuid (\<lambda>_. 9) 0 [sample_pending EventRunStarted []]
     (case Append sample_uuid (\<lambda>_. 9) 0 [sample_pending EventRunStarted []] (projr (openRuntimeJournal ''s'')) of
        Inr (j', _) \<Rightarrow> j' | Inl _ \<Rightarrow> undefined) = Inl (EStreamConflict ''s'' 0 1)"
proof -
  let ?j = "projr (openRuntimeJournal ''s'')"
  have "isl (openRuntimeJournal ''s'') = False" by code_simp
  then have reach: "journal_reachable ?j" by (cases "openRuntimeJournal ''s''") (auto intro: reach_open)
  have head: "StreamHead ?j ''s'' = Inr 0" and sid: "j_sessionID ?j = ''s''" by code_simp+
  have "isl (Append sample_uuid (\<lambda>_. 9) 0 [sample_pending EventRunStarted []] ?j) = False" by code_simp
  then obtain j' c where ap: "Append sample_uuid (\<lambda>_. 9) 0 [sample_pending EventRunStarted []] ?j = Inr (j', c)"
    by (auto simp: isl_def) (metis obj_sumE surj_pair)
  have batch: "check_batch ''s'' [sample_pending EventRunStarted []] = None" by code_simp
  have empty: "pe_StreamID (sample_pending EventRunStarted []) = []" by (simp add: sample_pending_def)
  have "Append sample_uuid (\<lambda>_. 9) 0 [sample_pending EventRunStarted []] j' = Inl (EStreamConflict ''s'' 0 (0 + int (length [sample_pending EventRunStarted []])))"
    using empty sid by (intro second_writer_conflicts [OF reach head ap _ batch]) simp_all
  with ap show ?thesis by simp
qed

text \<open>C36: replaying pages through the whole journal: it always ends, within one page per event, and the
  projector sees exactly the events after the starting position, in order, up to the first one it
  rejects.\<close>

theorem replay_visits_every_event:
  assumes "journal_reachable j"
  shows "Replay j step a p = Some (apply_page step a p (filter (\<lambda>e. Seq e > a) (j_events j)))"
  unfolding Replay_def
  by (rule sqlite.replay_complete [OF reachable_wf [OF assms]]) (simp add: le_imp_less_Suc)

theorem replay_visits_every_event_witness:
  "Replay sample_journal (\<lambda>n e. Some (n + 1)) 0 (0::nat) = Some (2, True, 2)"
proof -
  have "apply_page (\<lambda>n e. Some (n + 1)) 0 (0::nat) (filter (\<lambda>e. Seq e > 0) (j_events sample_journal)) = (2, True, 2)"
    by code_simp
  with replay_visits_every_event [OF sample_journal_reachable, of "\<lambda>n e. Some (n + 1)" 0 "0::nat"] show ?thesis by simp
qed

text \<open>a command result is recorded once: whatever is saved later for the same command, the first
  result is the one returned, and results of other commands are not touched.\<close>

theorem command_result_first_wins:
  "GetCommandResult (SaveCommandResult now r j) i =
     (case GetCommandResult j i of
        Some r0 \<Rightarrow> Some r0
      | None \<Rightarrow> if i = cr_CommandID r then Some (if cr_CreatedAt r = 0 then r\<lparr>cr_CreatedAt := now\<rparr> else r) else None)"
  by (auto simp: GetCommandResult_def SaveCommandResult_def Let_def update_conv' split: option.split)

text \<open>reading a stream from a position gives its next events in stream order, a prefix of the rest of
  the stream of at most five hundred events.\<close>

theorem load_stream_is_the_next_part:
  assumes "journal_reachable j" "StreamHead j st = Inr h" "0 \<le> a"
  shows "map StreamSeq (LoadStream j st a n) = [a + 1..min h (a + normalizedLimit n)]"
proof -
  have wf: "wf_journal j" by (rule reachable_wf [OF assms(1)])
  have "map StreamSeq (filter (\<lambda>e. StreamID e = st) (j_events j)) = [1..h]"
    using wf assms(2) by (auto simp: wf_journal_def wf_rows_def heads_def StreamHead_def split: option.splits)
  then have "filter (\<lambda>k. k > a) (map StreamSeq (filter (\<lambda>e. StreamID e = st) (j_events j))) = filter (\<lambda>k. k > a) [1..h]" by simp
  moreover have "filter (\<lambda>k. k > a) [1..h] = [a + 1..h]"
  proof (cases "a \<le> h")
    case True
    with assms(3) have "[1..h] = [1..a] @ [a + 1..h]" using upto_split1 [of 1 "a + 1" h] upto_split2 [of 1 a h] by (cases "a = 0") auto
    then show ?thesis by (simp add: filter_empty_conv filter_id_conv)
  qed (auto simp: filter_empty_conv)
  moreover have "take k [x..y] = [x..min y (x - 1 + int k)]" for k x y
  proof (induction k arbitrary: x)
    case (Suc k)
    then show ?case by (cases "x \<le> y") (simp_all add: upto_rec1)
  qed simp
  moreover have "0 < normalizedLimit n" by (simp add: normalizedLimit_def)
  ultimately show ?thesis
    by (simp add: LoadStream_spec [OF wf] take_map [symmetric] filter_map o_def conj_commute)
qed

theorem load_stream_is_the_next_part_witness:
  "map StreamSeq (LoadStream sample_journal ''s'' 1 0) = [2]"
proof -
  have "StreamHead sample_journal ''s'' = Inr 2" by code_simp
  from load_stream_is_the_next_part [OF sample_journal_reachable this, of 1 0] show ?thesis
    by (simp add: normalizedLimit_def upto_rec1)
qed

end
