(* ===== verification/Runtime_Recovery.thy ===== *)
theory Runtime_Recovery
  imports Runtime_Journal
begin

text \<open>
  \<open>session/runtime_recovery.go\<close>: after a restart, the journal is scanned for tool calls, steps and
  runs that were started and never reached a terminal event, and an interrupted event is appended
  for each, tools first, then steps, then runs, each group in the order of its identifiers.
\<close>

section \<open>State of the scan\<close>

record openTool =
  ot_payload :: ToolLifecyclePayload
  ot_streamID :: string
  ot_correlationID :: string

record openRun =
  or_payload :: RunLifecyclePayload
  or_streamID :: string

record openStep =
  os_runID :: string
  os_stepID :: string
  os_stepNo :: int
  os_streamID :: string

record open_lifecycles =
  ol_tools :: "(string \<times> openTool) list"
  ol_runs :: "(string \<times> openRun) list"
  ol_steps :: "(string \<times> openStep) list"

definition nothing_open :: open_lifecycles where
  "nothing_open = \<lparr>ol_tools = [], ol_runs = [], ol_steps = []\<rparr>"

record step_payload =
  sp_RunID :: string
  sp_StepID :: string
  sp_StepNo :: int

definition step_fields :: "step_payload field list" where
  "step_fields =
     [str_field ''run_id'' (\<lambda>x s. s\<lparr>sp_RunID := x\<rparr>), str_field ''step_id'' (\<lambda>x s. s\<lparr>sp_StepID := x\<rparr>),
      int_field ''step_no'' (\<lambda>x s. s\<lparr>sp_StepNo := x\<rparr>)]"

definition decode_step :: "Event \<Rightarrow> bool \<times> step_payload" where
  "decode_step e = unmarshal step_fields (Payload e) \<lparr>sp_RunID = [], sp_StepID = [], sp_StepNo = 0\<rparr>"

definition decode_step_id :: "Event \<Rightarrow> bool \<times> string" where
  "decode_step_id e = unmarshal [str_field ''step_id'' (\<lambda>x s. x)] (Payload e) []"

section \<open>The scan\<close>

definition recover_event :: "open_lifecycles \<Rightarrow> Event \<Rightarrow> open_lifecycles" where
  "recover_event r e =
     (if Type e = EventSessionReset then nothing_open
      else if Type e = EventRunStarted then
        (case decode_run e of (ok, payload) \<Rightarrow>
           if ok \<and> RunID payload \<noteq> []
           then r\<lparr>ol_runs := mput (RunID payload) \<lparr>or_payload = payload, or_streamID = StreamID e\<rparr> (ol_runs r)\<rparr> else r)
      else if List.member run_terminals (Type e) then
        (case decode_run e of (ok, payload) \<Rightarrow>
           if ok then r\<lparr>ol_runs := mdel (RunID payload) (ol_runs r)\<rparr> else r)
      else if Type e = EventStepStarted then
        (case decode_step e of (ok, payload) \<Rightarrow>
           if ok \<and> sp_StepID payload \<noteq> []
           then r\<lparr>ol_steps := mput (sp_StepID payload)
                  \<lparr>os_runID = sp_RunID payload, os_stepID = sp_StepID payload, os_stepNo = sp_StepNo payload,
                   os_streamID = StreamID e\<rparr> (ol_steps r)\<rparr> else r)
      else if List.member step_terminals (Type e) then
        (case decode_step_id e of (ok, stepID) \<Rightarrow>
           if ok then r\<lparr>ol_steps := mdel stepID (ol_steps r)\<rparr> else r)
      else if Type e = EventToolCallPlanned then
        (case decode_tool e of (ok, payload) \<Rightarrow>
           if ok \<and> ToolCallID payload \<noteq> []
           then r\<lparr>ol_tools := mput (ToolCallID payload)
                  \<lparr>ot_payload = payload, ot_streamID = StreamID e, ot_correlationID = CorrelationID e\<rparr> (ol_tools r)\<rparr> else r)
      else if List.member tool_terminals (Type e) then
        (case decode_tool e of (ok, payload) \<Rightarrow>
           if ok then r\<lparr>ol_tools := mdel (ToolCallID payload) (ol_tools r)\<rparr> else r)
      else r)"

definition scan_journal :: "RuntimeJournal \<Rightarrow> (seqno \<times> bool \<times> open_lifecycles) option" where
  "scan_journal j = Replay j (\<lambda>r e. Some (recover_event r e)) 0 nothing_open"

section \<open>Closing\<close>

definition interrupted_tool :: "openTool \<Rightarrow> PendingEvent" where
  "interrupted_tool entry =
     \<lparr>pe_ID = [], pe_StreamID = ot_streamID entry, pe_Type = EventToolExecutionInterrupted, pe_SchemaVersion = 0,
      pe_OccurredAt = 0, pe_CausationID = [], pe_CorrelationID = ot_correlationID entry,
      pe_Audience = [AudienceModel, AudienceUser],
      pe_Payload = encode_tool ((ot_payload entry)
        \<lparr>tl_Error := ''backend stopped before the tool produced a durable terminal result''\<rparr>)\<rparr>"

text \<open>A \<open>map[string]any\<close> is marshalled with its keys in order.\<close>

definition interrupted_step :: "openStep \<Rightarrow> PendingEvent" where
  "interrupted_step entry =
     \<lparr>pe_ID = [], pe_StreamID = os_streamID entry, pe_Type = EventStepInterrupted, pe_SchemaVersion = 0,
      pe_OccurredAt = 0, pe_CausationID = [], pe_CorrelationID = os_runID entry,
      pe_Audience = [AudienceInternal],
      pe_Payload = Some (JObj [(''reason'', JStr ''backend restarted before the step reached a terminal event''),
        (''run_id'', JStr (os_runID entry)), (''step_id'', JStr (os_stepID entry)), (''step_no'', JInt (os_stepNo entry))])\<rparr>"

definition interrupted_run :: "string \<Rightarrow> openRun \<Rightarrow> PendingEvent" where
  "interrupted_run i entry =
     \<lparr>pe_ID = [], pe_StreamID = or_streamID entry, pe_Type = EventRunInterrupted, pe_SchemaVersion = 0,
      pe_OccurredAt = 0, pe_CausationID = [], pe_CorrelationID = i,
      pe_Audience = [AudienceUser, AudienceInternal],
      pe_Payload = encode_run ((or_payload entry)
        \<lparr>RunReason := ''backend restarted before the run reached a terminal event''\<rparr>)\<rparr>"

definition sorted_ids :: "(string \<times> 'v) list \<Rightarrow> string list" where
  "sorted_ids m = sort (map fst m)"

definition closing_events :: "open_lifecycles \<Rightarrow> PendingEvent list" where
  "closing_events r =
     map (\<lambda>i. interrupted_tool (the (map_of (ol_tools r) i))) (sorted_ids (ol_tools r)) @
     map (\<lambda>i. interrupted_step (the (map_of (ol_steps r) i))) (sorted_ids (ol_steps r)) @
     map (\<lambda>i. interrupted_run i (the (map_of (ol_runs r) i))) (sorted_ids (ol_runs r))"

text \<open>One append per event; the first failure ends it and keeps what was appended before. \<open>uuid n\<close> and
  \<open>now n\<close> are the answers of the generators during the \<open>n\<close>-th append.\<close>

fun append_each :: "(nat \<Rightarrow> string) \<Rightarrow> (nat \<Rightarrow> int) \<Rightarrow> nat \<Rightarrow> PendingEvent list \<Rightarrow> RuntimeJournal
    \<Rightarrow> journal_error option \<times> RuntimeJournal" where
  "append_each uuid now n [] j = (None, j)"
| "append_each uuid now n (p # ps) j =
     (case Append (\<lambda>_. uuid n) (\<lambda>_. now n) AnyStreamSeq [p] j of
        Inl err \<Rightarrow> (Some err, j)
      | Inr (j', _) \<Rightarrow> append_each uuid now (Suc n) ps j')"

definition RecoverInterruptedRuntime :: "(nat \<Rightarrow> string) \<Rightarrow> (nat \<Rightarrow> int) \<Rightarrow> RuntimeJournal
    \<Rightarrow> (journal_error option \<times> RuntimeJournal) option" where
  "RecoverInterruptedRuntime uuid now j =
     map_option (\<lambda>(_, _, r). append_each uuid now 0 (closing_events r) j) (scan_journal j)"

section \<open>The scan computes a fold\<close>

definition open_after :: "Event list \<Rightarrow> open_lifecycles" where
  "open_after es = foldl recover_event nothing_open es"

lemma apply_page_total:
  "apply_page (\<lambda>r e. Some (f r e)) a r es = (if es = [] then a else Seq (last es), True, foldl f r es)"
  by (induction es arbitrary: a r) auto

lemma scan_journal_spec:
  assumes "wf_journal j"
  shows "\<exists>l. scan_journal j = Some (l, True, open_after (j_events j))"
proof -
  have "filter (\<lambda>e. 0 < Seq e) (j_events j) = j_events j"
    using sqlite.history_order [OF assms] by (auto simp: journal_order_def list_all_iff filter_id_conv)
  moreover have "Replay j (\<lambda>r e. Some (recover_event r e)) 0 nothing_open =
      Some (apply_page (\<lambda>r e. Some (recover_event r e)) 0 nothing_open (filter (\<lambda>e. Seq e > 0) (j_events j)))"
    unfolding Replay_def by (rule sqlite.replay_complete [OF assms]) (simp add: le_imp_less_Suc)
  ultimately show ?thesis by (simp add: scan_journal_def apply_page_total open_after_def)
qed

section \<open>What is open\<close>

definition wf_open :: "string set \<Rightarrow> open_lifecycles \<Rightarrow> bool" where
  "wf_open S r \<longleftrightarrow>
     distinct (map fst (ol_tools r)) \<and> distinct (map fst (ol_steps r)) \<and> distinct (map fst (ol_runs r)) \<and>
     (\<forall>(i, t) \<in> set (ol_tools r). ToolCallID (ot_payload t) = i \<and> int64_range (tl_CallIndex (ot_payload t)) \<and> ot_streamID t \<in> S) \<and>
     (\<forall>(i, s) \<in> set (ol_steps r). os_stepID s = i \<and> os_streamID s \<in> S) \<and>
     (\<forall>(i, u) \<in> set (ol_runs r). RunID (or_payload u) = i \<and> or_streamID u \<in> S)"

lemma unmarshal_tool_range:
  assumes "int64_range (tl_CallIndex p)"
  shows "int64_range (tl_CallIndex (snd (unmarshal tool_fields r p)))"
proof -
  have member: "int64_range (tl_CallIndex (snd (decode_member tool_fields st kv)))"
    if "int64_range (tl_CallIndex (snd st))" for st kv
    using that
    by (auto simp: decode_member_def tool_fields_def str_field_def int_field_def raw_field_def int64_range_def
        split: option.split json.split if_splits)
  have "int64_range (tl_CallIndex (snd (foldl (decode_member tool_fields) st kvs)))" if "int64_range (tl_CallIndex (snd st))" for st kvs
    using that member by (intro foldl_invariant [where P = "\<lambda>st. int64_range (tl_CallIndex (snd st))"])
  with assms show ?thesis by (auto simp: unmarshal_def split: option.split json.split)
qed

lemma decode_tool_range: "int64_range (tl_CallIndex (snd (decode_tool e)))"
  unfolding decode_tool_def by (rule unmarshal_tool_range) (simp add: zero_tool_def int64_range_def)

lemma set_mput: "distinct (map fst m) \<Longrightarrow> (i, v) \<in> set (mput k w m) \<Longrightarrow> (i = k \<and> v = w) \<or> (i \<noteq> k \<and> (i, v) \<in> set m)"
  by (induction m) (auto split: if_splits intro: rev_image_eqI)

lemma set_mdel: "x \<in> set (mdel k m) \<Longrightarrow> x \<in> set m"
  by (simp add: AList.delete_eq)

lemma wf_open_empty: "wf_open S nothing_open"
  by (simp add: wf_open_def nothing_open_def)

lemma wf_open_run:
  assumes "wf_open S r" "RunID (or_payload u) = i" "or_streamID u \<in> S"
  shows "wf_open S (r\<lparr>ol_runs := mput i u (ol_runs r)\<rparr>)"
  using assms unfolding wf_open_def by (auto simp: distinct_update dest: set_mput)

lemma wf_open_step:
  assumes "wf_open S r" "os_stepID u = i" "os_streamID u \<in> S"
  shows "wf_open S (r\<lparr>ol_steps := mput i u (ol_steps r)\<rparr>)"
  using assms unfolding wf_open_def by (auto simp: distinct_update dest: set_mput)

lemma wf_open_tool:
  assumes "wf_open S r" "ToolCallID (ot_payload u) = i" "int64_range (tl_CallIndex (ot_payload u))" "ot_streamID u \<in> S"
  shows "wf_open S (r\<lparr>ol_tools := mput i u (ol_tools r)\<rparr>)"
  using assms unfolding wf_open_def by (auto simp: distinct_update dest: set_mput)

lemma wf_open_del:
  assumes "wf_open S r"
  shows "wf_open S (r\<lparr>ol_runs := mdel i (ol_runs r)\<rparr>)" "wf_open S (r\<lparr>ol_steps := mdel i (ol_steps r)\<rparr>)"
    "wf_open S (r\<lparr>ol_tools := mdel i (ol_tools r)\<rparr>)"
  using assms unfolding wf_open_def by (auto simp: distinct_delete dest: set_mdel)

lemma wf_open_if: "(b \<Longrightarrow> wf_open S x) \<Longrightarrow> (\<not> b \<Longrightarrow> wf_open S y) \<Longrightarrow> wf_open S (if b then x else y)"
  by simp

lemma recover_event_wf:
  assumes "wf_open S r" "StreamID e \<in> S"
  shows "wf_open S (recover_event r e)"
  unfolding recover_event_def case_prod_beta
  by (intro wf_open_if wf_open_empty wf_open_run wf_open_step wf_open_tool wf_open_del assms)
    (simp_all add: assms decode_tool_range)

lemma open_after_wf: "(\<And>e. e \<in> set es \<Longrightarrow> StreamID e \<in> S) \<Longrightarrow> wf_open S (open_after es)"
  unfolding open_after_def
  by (rule foldl_invariant [where P = "wf_open S"]) (auto intro: wf_open_empty recover_event_wf)

section \<open>The closing events close\<close>

text \<open>The effect of the three kinds of interrupted events on the scan.\<close>

lemma recover_tool_interrupted:
  assumes "Type e = EventToolExecutionInterrupted" "Payload e = pe_Payload (interrupted_tool t)"
    and "int64_range (tl_CallIndex (ot_payload t))"
  shows "recover_event r e = r\<lparr>ol_tools := mdel (ToolCallID (ot_payload t)) (ol_tools r)\<rparr>"
proof -
  have names: "EventToolExecutionInterrupted \<noteq> EventSessionReset" "EventToolExecutionInterrupted \<noteq> EventRunStarted"
    "\<not> List.member run_terminals EventToolExecutionInterrupted" "EventToolExecutionInterrupted \<noteq> EventStepStarted"
    "\<not> List.member step_terminals EventToolExecutionInterrupted" "EventToolExecutionInterrupted \<noteq> EventToolCallPlanned"
    "List.member tool_terminals EventToolExecutionInterrupted" by code_simp+
  have "decode_tool e = (True, (ot_payload t)\<lparr>tl_Error := ''backend stopped before the tool produced a durable terminal result''\<rparr>)"
    using assms(2,3) by (simp add: decode_tool_def interrupted_tool_def unmarshal_encode_tool)
  then show ?thesis unfolding recover_event_def assms(1) by (simp only: names if_False if_True prod.case) simp
qed

lemma recover_step_interrupted:
  assumes "Type e = EventStepInterrupted" "Payload e = pe_Payload (interrupted_step t)"
  shows "recover_event r e = r\<lparr>ol_steps := mdel (os_stepID t) (ol_steps r)\<rparr>"
proof -
  have names: "EventStepInterrupted \<noteq> EventSessionReset" "EventStepInterrupted \<noteq> EventRunStarted"
    "\<not> List.member run_terminals EventStepInterrupted" "EventStepInterrupted \<noteq> EventStepStarted"
    "List.member step_terminals EventStepInterrupted" by code_simp+
  have "decode_step_id e = (True, os_stepID t)"
    using assms(2) by (simp add: decode_step_id_def interrupted_step_def unmarshal_def decode_member_def str_field_def)
  then show ?thesis unfolding recover_event_def assms(1) by (simp only: names if_False if_True prod.case)
qed

lemma recover_run_interrupted:
  assumes "Type e = EventRunInterrupted" "Payload e = pe_Payload (interrupted_run i t)"
  shows "recover_event r e = r\<lparr>ol_runs := mdel (RunID (or_payload t)) (ol_runs r)\<rparr>"
proof -
  have names: "EventRunInterrupted \<noteq> EventSessionReset" "EventRunInterrupted \<noteq> EventRunStarted"
    "List.member run_terminals EventRunInterrupted" by code_simp+
  have "decode_run e = (True, (or_payload t)\<lparr>RunReason := ''backend restarted before the run reached a terminal event''\<rparr>)"
    using assms(2) by (simp add: decode_run_def interrupted_run_def unmarshal_encode_run)
  then show ?thesis unfolding recover_event_def assms(1) by (simp only: names if_False if_True prod.case) simp
qed

text \<open>An event carries a pending event when it has its type and payload.\<close>

definition carries :: "Event \<Rightarrow> PendingEvent \<Rightarrow> bool" where
  "carries e p \<longleftrightarrow> Type e = pe_Type p \<and> Payload e = pe_Payload p"

definition del_all :: "string list \<Rightarrow> (string \<times> 'v) list \<Rightarrow> (string \<times> 'v) list" where
  "del_all ks m = foldl (\<lambda>m k. mdel k m) m ks"

lemma del_all_filter: "del_all ks m = filter (\<lambda>(k, _). k \<notin> set ks) m"
  unfolding del_all_def by (induction ks arbitrary: m) (auto simp: AList.delete_eq intro!: filter_cong)

lemma del_all_keys: "del_all (sorted_ids m) m = []"
  by (force simp: del_all_filter sorted_ids_def filter_empty_conv)

lemma close_tools:
  assumes "list_all2 carries es (map (\<lambda>i. interrupted_tool (f i)) ids)"
    and "\<And>i. i \<in> set ids \<Longrightarrow> ToolCallID (ot_payload (f i)) = i \<and> int64_range (tl_CallIndex (ot_payload (f i)))"
  shows "foldl recover_event r es = r\<lparr>ol_tools := del_all ids (ol_tools r)\<rparr>"
  using assms
proof (induction ids arbitrary: es r)
  case (Cons i ids)
  then obtain e es' where es: "es = e # es'" "carries e (interrupted_tool (f i))"
    "list_all2 carries es' (map (\<lambda>i. interrupted_tool (f i)) ids)" by (auto simp: list_all2_Cons2)
  have "recover_event r e = r\<lparr>ol_tools := mdel i (ol_tools r)\<rparr>"
    using recover_tool_interrupted [of e "f i" r] es(2) Cons.prems(2) [of i] by (simp add: carries_def interrupted_tool_def)
  with Cons.IH [OF es(3)] Cons.prems(2) es(1) show ?case by (simp add: del_all_def)
qed (simp add: del_all_def)

lemma close_steps:
  assumes "list_all2 carries es (map (\<lambda>i. interrupted_step (f i)) ids)"
    and "\<And>i. i \<in> set ids \<Longrightarrow> os_stepID (f i) = i"
  shows "foldl recover_event r es = r\<lparr>ol_steps := del_all ids (ol_steps r)\<rparr>"
  using assms
proof (induction ids arbitrary: es r)
  case (Cons i ids)
  then obtain e es' where es: "es = e # es'" "carries e (interrupted_step (f i))"
    "list_all2 carries es' (map (\<lambda>i. interrupted_step (f i)) ids)" by (auto simp: list_all2_Cons2)
  have "recover_event r e = r\<lparr>ol_steps := mdel i (ol_steps r)\<rparr>"
    using recover_step_interrupted [of e "f i" r] es(2) Cons.prems(2) [of i] by (simp add: carries_def interrupted_step_def)
  with Cons.IH [OF es(3)] Cons.prems(2) es(1) show ?case by (simp add: del_all_def)
qed (simp add: del_all_def)

lemma close_runs:
  assumes "list_all2 carries es (map (\<lambda>i. interrupted_run i (f i)) ids)"
    and "\<And>i. i \<in> set ids \<Longrightarrow> RunID (or_payload (f i)) = i"
  shows "foldl recover_event r es = r\<lparr>ol_runs := del_all ids (ol_runs r)\<rparr>"
  using assms
proof (induction ids arbitrary: es r)
  case (Cons i ids)
  then obtain e es' where es: "es = e # es'" "carries e (interrupted_run i (f i))"
    "list_all2 carries es' (map (\<lambda>i. interrupted_run i (f i)) ids)" by (auto simp: list_all2_Cons2)
  have "recover_event r e = r\<lparr>ol_runs := mdel i (ol_runs r)\<rparr>"
    using recover_run_interrupted [of e i "f i" r] es(2) Cons.prems(2) [of i] by (simp add: carries_def interrupted_run_def)
  with Cons.IH [OF es(3)] Cons.prems(2) es(1) show ?case by (simp add: del_all_def)
qed (simp add: del_all_def)

section \<open>The closing events can be appended\<close>

definition streams :: "RuntimeJournal \<Rightarrow> string set" where
  "streams j = {st. map_of (j_streams j) st \<noteq> None}"

lemma streams_mput: "{st. map_of (mput k v m) st \<noteq> None} = insert k {st. map_of m st \<noteq> None}"
  by (auto simp: update_conv')

lemma Append_streams: "Append uuid now expected pending j = Inr (j', created) \<Longrightarrow> wf_journal j \<Longrightarrow> streams j' = streams j"
proof (cases "pending = []")
  case False
  assume ap: "Append uuid now expected pending j = Inr (j', created)" and wf: "wf_journal j"
  from Append_cases [OF ap False] obtain st row head' j1 where
    row: "map_of (j_streams j) st = Some row" and
    ins: "insert_all uuid now st 0 j (sr_Head row) pending = Inr (j1, head', created)" and
    j': "j' = j1\<lparr>j_streams := mput st (row\<lparr>sr_Head := head'\<rparr>) (j_streams j1)\<rparr>" by metis
  have "heads j st = Some (sr_Head row)" using row by (simp add: heads_def)
  from insert_all_wf [OF wf [unfolded wf_journal_def] this ins] have "j_streams j1 = j_streams j" by simp
  with row show ?thesis unfolding streams_def j' by (auto simp: update_conv')
qed (simp add: Append_def)

lemma step_streams: "journal_step j j' \<Longrightarrow> wf_journal j \<Longrightarrow> [] \<notin> streams j \<Longrightarrow> [] \<notin> streams j'"
proof (elim journal_stepE)
  fix s
  assume "CreateStream s j = Inr j'" "[] \<notin> streams j"
  then show "[] \<notin> streams j'"
    by (auto simp: CreateStream_def Let_def streams_def update_conv' split: if_splits)
next
  fix uuid now expected pending created
  assume "wf_journal j" "[] \<notin> streams j" "Append uuid now expected pending j = Inr (j', created)"
  then show "[] \<notin> streams j'" using Append_streams by metis
next
  fix now cp
  assume "[] \<notin> streams j" "SaveCheckpoint now cp j = Inr j'"
  then show "[] \<notin> streams j'" using SaveCheckpoint_tables [of now cp j j'] by (auto simp: streams_def)
next
  fix now r
  assume "[] \<notin> streams j" "j' = SaveCommandResult now r j"
  then show "[] \<notin> streams j'" using SaveCommandResult_tables [of now r j] by (auto simp: streams_def)
qed (simp add: streams_def SaveConsumerOffset_def)

lemma reachable_streams: "journal_reachable j \<Longrightarrow> [] \<notin> streams j"
proof (induction rule: journal_reachable.induct)
  case (reach_open sid j)
  then show ?case
    by (auto simp: openRuntimeJournal_def CreateStream_def Let_def streams_def split: if_splits)
next
  case (reach_step j j')
  then show ?case using step_streams reachable_wf by blast
qed

definition appendable :: "RuntimeJournal \<Rightarrow> PendingEvent \<Rightarrow> bool" where
  "appendable j p \<longleftrightarrow> pe_StreamID p \<in> streams j \<and> pe_StreamID p \<noteq> [] \<and> TrimSpace (pe_Type p) \<noteq> [] \<and>
     pe_Payload p \<noteq> None \<and> pe_ID p = []"

lemma append_one:
  assumes "wf_journal j" "appendable j p" "u \<notin> EventID ` set (j_events j)"
  shows "\<exists>j' e. Append (\<lambda>_. u) now AnyStreamSeq [p] j = Inr (j', [e]) \<and> carries e p \<and> EventID e = u"
proof -
  obtain row x where row: "map_of (j_streams j) (pe_StreamID p) = Some row" and x: "pe_Payload p = Some x"
    and st: "pe_StreamID p \<noteq> []" "TrimSpace (pe_Type p) \<noteq> []" "pe_ID p = []"
    using assms(2) by (auto simp: appendable_def streams_def)
  let ?ev = "make_event (\<lambda>_. u) now (pe_StreamID p) 0 j (sr_Head row + 1) p x"
  have id: "EventID ?ev = u" by (simp add: make_event_def st)
  have "StreamSeq e \<noteq> sr_Head row + 1" if "e \<in> set (j_events j)" "StreamID e = pe_StreamID p" for e
  proof -
    have "map StreamSeq (filter (\<lambda>e. StreamID e = pe_StreamID p) (j_events j)) = [1..sr_Head row]"
      using assms(1) row by (simp add: wf_journal_def wf_rows_def heads_def)
    then have "StreamSeq ` set (filter (\<lambda>e. StreamID e = pe_StreamID p) (j_events j)) = set [1..sr_Head row]"
      by (metis set_map)
    then have "StreamSeq e \<in> {1..sr_Head row}" using that by force
    then show ?thesis by simp
  qed
  then have "\<not> violates j ?ev" using assms(3) id by (auto simp: violates_def list_ex_iff)
  then show ?thesis
    using row x st id by (simp add: Append_def Let_def carries_def)
qed

lemma append_each_ok:
  assumes "journal_reachable j" "\<And>p. p \<in> set ps \<Longrightarrow> appendable j p" "inj uuid" "\<And>k. k \<ge> n \<Longrightarrow> uuid k \<notin> EventID ` set (j_events j)"
  shows "\<exists>j' es. append_each uuid now n ps j = (None, j') \<and> journal_reachable j' \<and>
    j_events j' = j_events j @ es \<and> list_all2 carries es ps"
  using assms
proof (induction ps arbitrary: n j)
  case (Cons p ps)
  have wf: "wf_journal j" by (rule reachable_wf [OF Cons.prems(1)])
  obtain j' e where ap: "Append (\<lambda>_. uuid n) (\<lambda>_. now n) AnyStreamSeq [p] j = Inr (j', [e])" and e: "carries e p" "EventID e = uuid n"
    using append_one [OF wf, of p "uuid n"] Cons.prems(2,4) by (metis list.set_intros(1) order_refl)
  have reach: "journal_reachable j'" using Cons.prems(1) ap by (blast intro: reach_step step_append)
  have ev: "j_events j' = j_events j @ [e]" using Append_spec [OF wf ap] by blast
  have "appendable j' q" if "q \<in> set ps" for q
    using Cons.prems(2) [of q] that Append_streams [OF ap wf] by (simp add: appendable_def)
  moreover have "uuid k \<notin> EventID ` set (j_events j')" if "k \<ge> Suc n" for k
    using Cons.prems(4) [of k] that e(2) ev Cons.prems(3) by (auto dest: injD)
  ultimately obtain j'' es where "append_each uuid now (Suc n) ps j' = (None, j'')" "journal_reachable j''"
    "j_events j'' = j_events j' @ es" "list_all2 carries es ps"
    using Cons.IH [OF reach _ Cons.prems(3)] by metis
  then show ?case using ap e(1) ev by (intro exI [of _ j''] exI [of _ "e # es"]) simp
qed simp

lemma closing_appendable:
  assumes "wf_open (streams j) r" "[] \<notin> streams j" "p \<in> set (closing_events r)"
  shows "appendable j p"
proof -
  have vals: "\<And>i. i \<in> set (sorted_ids (ol_tools r)) \<Longrightarrow> (i, the (map_of (ol_tools r) i)) \<in> set (ol_tools r)"
    "\<And>i. i \<in> set (sorted_ids (ol_steps r)) \<Longrightarrow> (i, the (map_of (ol_steps r) i)) \<in> set (ol_steps r)"
    "\<And>i. i \<in> set (sorted_ids (ol_runs r)) \<Longrightarrow> (i, the (map_of (ol_runs r) i)) \<in> set (ol_runs r)"
    by (auto simp: sorted_ids_def map_of_SomeD weak_map_of_SomeI dest!: weak_map_of_SomeI)
  have types: "TrimSpace EventToolExecutionInterrupted \<noteq> []" "TrimSpace EventStepInterrupted \<noteq> []" "TrimSpace EventRunInterrupted \<noteq> []"
    by code_simp+
  from assms(3) consider (tool) i where "i \<in> set (sorted_ids (ol_tools r))" "p = interrupted_tool (the (map_of (ol_tools r) i))"
    | (step) i where "i \<in> set (sorted_ids (ol_steps r))" "p = interrupted_step (the (map_of (ol_steps r) i))"
    | (run) i where "i \<in> set (sorted_ids (ol_runs r))" "p = interrupted_run i (the (map_of (ol_runs r) i))"
    by (auto simp: closing_events_def)
  then show ?thesis
  proof cases
    case tool
    then have "ot_streamID (the (map_of (ol_tools r) i)) \<in> streams j" using vals(1) assms(1) by (fastforce simp: wf_open_def)
    with tool types assms(2) show ?thesis by (auto simp: appendable_def interrupted_tool_def encode_tool_def)
  next
    case step
    then have "os_streamID (the (map_of (ol_steps r) i)) \<in> streams j" using vals(2) assms(1) by (fastforce simp: wf_open_def)
    with step types assms(2) show ?thesis by (auto simp: appendable_def interrupted_step_def)
  next
    case run
    then have "or_streamID (the (map_of (ol_runs r) i)) \<in> streams j" using vals(3) assms(1) by (fastforce simp: wf_open_def)
    with run types assms(2) show ?thesis by (auto simp: appendable_def interrupted_run_def encode_run_def)
  qed
qed

lemma open_after_append: "open_after (es @ fs) = foldl recover_event (open_after es) fs"
  by (simp add: open_after_def)

lemma closed_by_closing_events:
  assumes "wf_open S r" "list_all2 carries es (closing_events r)"
  shows "foldl recover_event r es = nothing_open"
proof -
  let ?t = "\<lambda>i. the (map_of (ol_tools r) i)" and ?s = "\<lambda>i. the (map_of (ol_steps r) i)" and ?u = "\<lambda>i. the (map_of (ol_runs r) i)"
  from assms(2) obtain es1 es2 es3 where es: "es = es1 @ es2 @ es3"
    and c1: "list_all2 carries es1 (map (\<lambda>i. interrupted_tool (?t i)) (sorted_ids (ol_tools r)))"
    and c2: "list_all2 carries es2 (map (\<lambda>i. interrupted_step (?s i)) (sorted_ids (ol_steps r)))"
    and c3: "list_all2 carries es3 (map (\<lambda>i. interrupted_run i (?u i)) (sorted_ids (ol_runs r)))"
    unfolding closing_events_def list_all2_append2 by blast
  have "ToolCallID (ot_payload (?t i)) = i \<and> int64_range (tl_CallIndex (ot_payload (?t i)))" if "i \<in> set (sorted_ids (ol_tools r))" for i
    using assms(1) that by (fastforce simp: wf_open_def sorted_ids_def)
  note r1 = close_tools [OF c1 this, of r]
  have "os_stepID (?s i) = i" if "i \<in> set (sorted_ids (ol_steps r))" for i
    using assms(1) that by (fastforce simp: wf_open_def sorted_ids_def)
  note r2 = close_steps [OF c2 this]
  have "RunID (or_payload (?u i)) = i" if "i \<in> set (sorted_ids (ol_runs r))" for i
    using assms(1) that by (fastforce simp: wf_open_def sorted_ids_def)
  note r3 = close_runs [OF c3 this]
  show ?thesis by (simp add: es r1 r2 r3 del_all_keys nothing_open_def)
qed

section \<open>Open lifecycles, seen from the history\<close>

text \<open>
  What it means that a lifecycle is open, independently of the scan: some event began it, and neither an event that ends it nor a
  reset of the session came afterwards.
\<close>

datatype lifecycle = LTool | LStep | LRun

fun lifecycle_begins :: "lifecycle \<Rightarrow> string \<Rightarrow> Event \<Rightarrow> bool" where
  "lifecycle_begins LTool i e \<longleftrightarrow> i \<noteq> [] \<and> Type e = EventToolCallPlanned \<and> fst (decode_tool e) \<and> ToolCallID (snd (decode_tool e)) = i"
| "lifecycle_begins LStep i e \<longleftrightarrow> i \<noteq> [] \<and> Type e = EventStepStarted \<and> fst (decode_step e) \<and> sp_StepID (snd (decode_step e)) = i"
| "lifecycle_begins LRun i e \<longleftrightarrow> i \<noteq> [] \<and> Type e = EventRunStarted \<and> fst (decode_run e) \<and> RunID (snd (decode_run e)) = i"

fun lifecycle_ends :: "lifecycle \<Rightarrow> string \<Rightarrow> Event \<Rightarrow> bool" where
  "lifecycle_ends LTool i e \<longleftrightarrow> Type e \<in> {EventToolExecutionCompleted, EventToolExecutionFailed, EventToolExecutionDenied, EventToolExecutionCancelled,
     EventToolExecutionInterrupted} \<and> fst (decode_tool e) \<and> ToolCallID (snd (decode_tool e)) = i"
| "lifecycle_ends LStep i e \<longleftrightarrow> Type e \<in> {EventStepCompleted, EventStepFailed, EventStepInterrupted} \<and> fst (decode_step_id e) \<and> snd (decode_step_id e) = i"
| "lifecycle_ends LRun i e \<longleftrightarrow> Type e \<in> {EventRunCompleted, EventRunFailed, EventRunInterrupted} \<and> fst (decode_run e) \<and> RunID (snd (decode_run e)) = i"

definition still_open :: "lifecycle \<Rightarrow> string \<Rightarrow> Event list \<Rightarrow> bool" where
  "still_open k i es \<longleftrightarrow> (\<exists>xs e ys. es = xs @ e # ys \<and> lifecycle_begins k i e \<and> (\<forall>f \<in> set ys. \<not> lifecycle_ends k i f \<and> Type f \<noteq> EventSessionReset))"

lemma still_open_snoc:
  "still_open k i (es @ [e]) \<longleftrightarrow> lifecycle_begins k i e \<or> (still_open k i es \<and> \<not> lifecycle_ends k i e \<and> Type e \<noteq> EventSessionReset)"
proof
  assume "still_open k i (es @ [e])"
  then obtain xs b ys where d: "es @ [e] = xs @ b # ys" "lifecycle_begins k i b" "\<forall>f \<in> set ys. \<not> lifecycle_ends k i f \<and> Type f \<noteq> EventSessionReset"
    by (auto simp: still_open_def)
  then show "lifecycle_begins k i e \<or> (still_open k i es \<and> \<not> lifecycle_ends k i e \<and> Type e \<noteq> EventSessionReset)"
    by (cases ys rule: rev_cases) (auto simp: still_open_def)
next
  assume "lifecycle_begins k i e \<or> (still_open k i es \<and> \<not> lifecycle_ends k i e \<and> Type e \<noteq> EventSessionReset)"
  then show "still_open k i (es @ [e])"
  proof
    assume "lifecycle_begins k i e"
    then show ?thesis unfolding still_open_def by (intro exI[of _ es] exI[of _ e] exI[of _ "[]"]) simp
  next
    assume "still_open k i es \<and> \<not> lifecycle_ends k i e \<and> Type e \<noteq> EventSessionReset"
    then obtain xs b ys where "es = xs @ b # ys" "lifecycle_begins k i b" "\<forall>f \<in> set (ys @ [e]). \<not> lifecycle_ends k i f \<and> Type f \<noteq> EventSessionReset"
      by (auto simp: still_open_def)
    then show ?thesis unfolding still_open_def by (intro exI[of _ xs] exI[of _ b] exI[of _ "ys @ [e]"]) simp
  qed
qed

fun open_ids :: "lifecycle \<Rightarrow> open_lifecycles \<Rightarrow> string set" where
  "open_ids LTool r = {i. map_of (ol_tools r) i \<noteq> None}"
| "open_ids LStep r = {i. map_of (ol_steps r) i \<noteq> None}"
| "open_ids LRun r = {i. map_of (ol_runs r) i \<noteq> None}"

text \<open>The scan is right: what it keeps are the open lifecycles.\<close>

lemma lifecycle_types:
  "distinct [EventSessionReset, EventRunStarted, EventRunCompleted, EventRunFailed, EventRunInterrupted, EventStepStarted, EventStepCompleted, EventStepFailed,
     EventStepInterrupted, EventToolCallPlanned, EventToolExecutionCompleted, EventToolExecutionFailed, EventToolExecutionDenied, EventToolExecutionCancelled,
     EventToolExecutionInterrupted]"
  by code_simp

text \<open>The scan, one table at a time.\<close>

lemma recover_event_runs:
  "ol_runs (recover_event r e) =
     (if Type e = EventSessionReset then []
      else if Type e = EventRunStarted then
        (if fst (decode_run e) \<and> RunID (snd (decode_run e)) \<noteq> []
         then mput (RunID (snd (decode_run e))) \<lparr>or_payload = snd (decode_run e), or_streamID = StreamID e\<rparr> (ol_runs r) else ol_runs r)
      else if List.member run_terminals (Type e) \<and> fst (decode_run e) then mdel (RunID (snd (decode_run e))) (ol_runs r) else ol_runs r)"
  by (simp add: recover_event_def case_prod_beta nothing_open_def)

lemma recover_event_steps:
  "ol_steps (recover_event r e) =
     (if Type e = EventSessionReset then []
      else if Type e = EventRunStarted \<or> List.member run_terminals (Type e) then ol_steps r
      else if Type e = EventStepStarted then
        (if fst (decode_step e) \<and> sp_StepID (snd (decode_step e)) \<noteq> []
         then mput (sp_StepID (snd (decode_step e)))
           \<lparr>os_runID = sp_RunID (snd (decode_step e)), os_stepID = sp_StepID (snd (decode_step e)), os_stepNo = sp_StepNo (snd (decode_step e)),
            os_streamID = StreamID e\<rparr> (ol_steps r) else ol_steps r)
      else if List.member step_terminals (Type e) \<and> fst (decode_step_id e) then mdel (snd (decode_step_id e)) (ol_steps r) else ol_steps r)"
  by (simp add: recover_event_def case_prod_beta nothing_open_def)

lemma recover_event_tools:
  "ol_tools (recover_event r e) =
     (if Type e = EventSessionReset then []
      else if Type e = EventRunStarted \<or> List.member run_terminals (Type e) \<or> Type e = EventStepStarted \<or> List.member step_terminals (Type e) then ol_tools r
      else if Type e = EventToolCallPlanned then
        (if fst (decode_tool e) \<and> ToolCallID (snd (decode_tool e)) \<noteq> []
         then mput (ToolCallID (snd (decode_tool e)))
           \<lparr>ot_payload = snd (decode_tool e), ot_streamID = StreamID e, ot_correlationID = CorrelationID e\<rparr> (ol_tools r) else ol_tools r)
      else if List.member tool_terminals (Type e) \<and> fst (decode_tool e) then mdel (ToolCallID (snd (decode_tool e))) (ol_tools r) else ol_tools r)"
  by (simp add: recover_event_def case_prod_beta nothing_open_def)

lemma terminal_types:
  "List.member run_terminals t \<longleftrightarrow> t \<in> {EventRunCompleted, EventRunFailed, EventRunInterrupted}"
  "List.member step_terminals t \<longleftrightarrow> t \<in> {EventStepCompleted, EventStepFailed, EventStepInterrupted}"
  "List.member tool_terminals t \<longleftrightarrow> t \<in> {EventToolExecutionCompleted, EventToolExecutionFailed, EventToolExecutionDenied, EventToolExecutionCancelled,
     EventToolExecutionInterrupted}"
  by (simp_all add: run_terminals_def step_terminals_def tool_terminals_def)

lemma begin_is_no_end:
  "\<not> List.member run_terminals EventSessionReset" "\<not> List.member run_terminals EventRunStarted" "\<not> List.member run_terminals EventStepStarted"
  "\<not> List.member run_terminals EventToolCallPlanned" "\<not> List.member step_terminals EventSessionReset" "\<not> List.member step_terminals EventRunStarted"
  "\<not> List.member step_terminals EventStepStarted" "\<not> List.member step_terminals EventToolCallPlanned" "\<not> List.member tool_terminals EventSessionReset"
  "\<not> List.member tool_terminals EventRunStarted" "\<not> List.member tool_terminals EventStepStarted" "\<not> List.member tool_terminals EventToolCallPlanned"
  "EventSessionReset \<noteq> EventRunStarted" "EventSessionReset \<noteq> EventStepStarted" "EventSessionReset \<noteq> EventToolCallPlanned" "EventRunStarted \<noteq> EventStepStarted"
  "EventRunStarted \<noteq> EventToolCallPlanned" "EventStepStarted \<noteq> EventToolCallPlanned"
  using lifecycle_types unfolding terminal_types by auto

lemma terminals_apart:
  "List.member run_terminals t \<Longrightarrow> \<not> List.member step_terminals t" "List.member run_terminals t \<Longrightarrow> \<not> List.member tool_terminals t"
  "List.member step_terminals t \<Longrightarrow> \<not> List.member tool_terminals t"
  using lifecycle_types unfolding terminal_types by auto

lemma recover_event_opens:
  "i \<in> open_ids k (recover_event r e) \<longleftrightarrow> lifecycle_begins k i e \<or> (i \<in> open_ids k r \<and> \<not> lifecycle_ends k i e \<and> Type e \<noteq> EventSessionReset)"
proof (cases k)
  case LRun
  show ?thesis unfolding LRun open_ids.simps recover_event_runs lifecycle_begins.simps lifecycle_ends.simps terminal_types(1)[symmetric]
    using begin_is_no_end by (auto simp: update_conv' delete_conv')
next
  case LStep
  show ?thesis unfolding LStep open_ids.simps recover_event_steps lifecycle_begins.simps lifecycle_ends.simps terminal_types(2)[symmetric]
    using begin_is_no_end terminals_apart[of "Type e"] by (auto simp: update_conv' delete_conv')
next
  case LTool
  show ?thesis unfolding LTool open_ids.simps recover_event_tools lifecycle_begins.simps lifecycle_ends.simps terminal_types(3)[symmetric]
    using begin_is_no_end terminals_apart[of "Type e"] by (auto simp: update_conv' delete_conv')
qed

lemma open_after_still: "i \<in> open_ids k (open_after es) \<longleftrightarrow> still_open k i es"
proof (induction es rule: rev_induct)
  case Nil
  then show ?case by (cases k) (simp_all add: open_after_def nothing_open_def still_open_def)
next
  case (snoc e es)
  then show ?case using recover_event_opens[of i k "open_after es" e] by (simp add: open_after_def still_open_snoc)
qed

lemma sorted_ids_open:
  "set (sorted_ids (ol_tools r)) = open_ids LTool r" "set (sorted_ids (ol_steps r)) = open_ids LStep r" "set (sorted_ids (ol_runs r)) = open_ids LRun r"
  by (auto simp: sorted_ids_def map_of_eq_None_iff)

lemma carried_ends:
  "list_all2 carries es (map f ids) \<Longrightarrow> (\<And>e i. carries e (f i) \<Longrightarrow> i \<in> set ids \<Longrightarrow> lifecycle_ends k i e) \<Longrightarrow> list_all2 (\<lambda>e (k, i). lifecycle_ends k i e) es (map (Pair k) ids)"
proof (induction ids arbitrary: es)
  case (Cons i ids)
  from Cons.prems(1) obtain e es' where "es = e # es'" "carries e (f i)" "list_all2 carries es' (map f ids)" by (auto simp: list_all2_Cons2)
  then show ?case using Cons.IH[of es'] Cons.prems(2) by simp
qed simp

lemma closing_ends:
  assumes "wf_open S r" "list_all2 carries es (closing_events r)"
  shows "list_all2 (\<lambda>e (k, i). lifecycle_ends k i e) es
    (map (Pair LTool) (sorted_ids (ol_tools r)) @ map (Pair LStep) (sorted_ids (ol_steps r)) @ map (Pair LRun) (sorted_ids (ol_runs r)))"
proof -
  let ?t = "\<lambda>i. the (map_of (ol_tools r) i)" and ?s = "\<lambda>i. the (map_of (ol_steps r) i)" and ?u = "\<lambda>i. the (map_of (ol_runs r) i)"
  have t: "lifecycle_ends LTool i e" if "carries e (interrupted_tool (?t i))" "i \<in> set (sorted_ids (ol_tools r))" for e i
  proof -
    have "ToolCallID (ot_payload (?t i)) = i \<and> int64_range (tl_CallIndex (ot_payload (?t i)))"
      using assms(1) that(2) by (fastforce simp: wf_open_def sorted_ids_def)
    then show ?thesis using that(1) by (simp add: carries_def interrupted_tool_def decode_tool_def unmarshal_encode_tool)
  qed
  have s: "lifecycle_ends LStep i e" if "carries e (interrupted_step (?s i))" "i \<in> set (sorted_ids (ol_steps r))" for e i
  proof -
    have "os_stepID (?s i) = i" using assms(1) that(2) by (fastforce simp: wf_open_def sorted_ids_def)
    then show ?thesis using that(1)
      by (simp add: carries_def interrupted_step_def decode_step_id_def unmarshal_def decode_member_def str_field_def)
  qed
  have u: "lifecycle_ends LRun i e" if "carries e (interrupted_run i (?u i))" "i \<in> set (sorted_ids (ol_runs r))" for e i
  proof -
    have "RunID (or_payload (?u i)) = i" using assms(1) that(2) by (fastforce simp: wf_open_def sorted_ids_def)
    then show ?thesis using that(1) by (simp add: carries_def interrupted_run_def decode_run_def unmarshal_encode_run)
  qed
  from assms(2) obtain es1 es2 es3 where es: "es = es1 @ es2 @ es3"
    "list_all2 carries es1 (map (\<lambda>i. interrupted_tool (?t i)) (sorted_ids (ol_tools r)))"
    "list_all2 carries es2 (map (\<lambda>i. interrupted_step (?s i)) (sorted_ids (ol_steps r)))"
    "list_all2 carries es3 (map (\<lambda>i. interrupted_run i (?u i)) (sorted_ids (ol_runs r)))"
    unfolding closing_events_def list_all2_append2 by blast
  show ?thesis unfolding es(1)
    by (intro list_all2_appendI carried_ends[OF es(2)] carried_ends[OF es(3)] carried_ends[OF es(4)] t s u)
qed

section \<open>Properties\<close>

lemma recovery_result:
  assumes "journal_reachable j" "inj uuid" "\<And>k. uuid k \<notin> EventID ` set (j_events j)"
  shows "\<exists>j' es. RecoverInterruptedRuntime uuid now j = Some (None, j') \<and> journal_reachable j' \<and>
    j_events j' = j_events j @ es \<and> list_all2 carries es (closing_events (open_after (j_events j))) \<and>
    open_after (j_events j') = nothing_open"
proof -
  have wf: "wf_journal j" by (rule reachable_wf [OF assms(1)])
  have "StreamID e \<in> streams j" if "e \<in> set (j_events j)" for e
    using wf that by (auto simp: wf_journal_def wf_rows_def heads_def streams_def)
  then have opn: "wf_open (streams j) (open_after (j_events j))" by (rule open_after_wf)
  obtain j' es where j': "append_each uuid now 0 (closing_events (open_after (j_events j))) j = (None, j')"
    "journal_reachable j'" "j_events j' = j_events j @ es" "list_all2 carries es (closing_events (open_after (j_events j)))"
    using append_each_ok [OF assms(1) _ assms(2), of "closing_events (open_after (j_events j))" 0]
      closing_appendable [OF opn reachable_streams [OF assms(1)]] assms(3) by metis
  moreover have "open_after (j_events j') = nothing_open"
    using closed_by_closing_events [OF opn j'(4)] by (simp add: j'(3) open_after_append)
  moreover obtain l where "scan_journal j = Some (l, True, open_after (j_events j))" using scan_journal_spec [OF wf] by blast
  ultimately show ?thesis by (auto simp: RecoverInterruptedRuntime_def)
qed

text \<open>C25: on any reachable journal, with UUIDs that are new, recovery ends without an error and only appends: one event for every tool call,
  step and run that was begun since the last reset of the session and not ended, which ends it, tools before steps before runs and each
  group in the order of its identifiers. Afterwards the journal is reachable and nothing is open in it.\<close>

theorem recovery_closes_every_lifecycle:
  assumes "journal_reachable j" "inj uuid" "\<And>k. uuid k \<notin> EventID ` set (j_events j)"
  shows "\<exists>j' es ts ss rs. RecoverInterruptedRuntime uuid now j = Some (None, j') \<and> journal_reachable j' \<and> j_events j' = j_events j @ es \<and>
    list_all2 (\<lambda>e (k, i). lifecycle_ends k i e) es (map (Pair LTool) ts @ map (Pair LStep) ss @ map (Pair LRun) rs) \<and>
    sorted_wrt (<) ts \<and> set ts = {i. still_open LTool i (j_events j)} \<and> sorted_wrt (<) ss \<and> set ss = {i. still_open LStep i (j_events j)} \<and>
    sorted_wrt (<) rs \<and> set rs = {i. still_open LRun i (j_events j)} \<and> (\<forall>k i. \<not> still_open k i (j_events j'))"
proof -
  let ?r = "open_after (j_events j)"
  have wf: "wf_journal j" by (rule reachable_wf [OF assms(1)])
  have "StreamID e \<in> streams j" if "e \<in> set (j_events j)" for e
    using wf that by (auto simp: wf_journal_def wf_rows_def heads_def streams_def)
  then have opn: "wf_open (streams j) ?r" by (rule open_after_wf)
  obtain j' es where r: "RecoverInterruptedRuntime uuid now j = Some (None, j')" "journal_reachable j'"
    "j_events j' = j_events j @ es" "list_all2 carries es (closing_events ?r)" "open_after (j_events j') = nothing_open"
    using recovery_result [OF assms] by blast
  have none: "\<not> still_open k i (j_events j')" for k i
    using open_after_still[of i k "j_events j'"] r(5) by (cases k) (simp_all add: nothing_open_def)
  have srt: "sorted_wrt (<) (sorted_ids m)" if "distinct (map fst m)" for m :: "(string \<times> 'v) list"
    using that by (simp add: sorted_ids_def strict_sorted_iff)
  have ids: "set (sorted_ids (ol_tools ?r)) = {i. still_open LTool i (j_events j)}" "set (sorted_ids (ol_steps ?r)) = {i. still_open LStep i (j_events j)}"
    "set (sorted_ids (ol_runs ?r)) = {i. still_open LRun i (j_events j)}"
    unfolding sorted_ids_open using open_after_still by blast+
  have "sorted_wrt (<) (sorted_ids (ol_tools ?r))" "sorted_wrt (<) (sorted_ids (ol_steps ?r))" "sorted_wrt (<) (sorted_ids (ol_runs ?r))"
    using opn by (simp_all add: wf_open_def srt)
  then show ?thesis using r(1-3) closing_ends[OF opn r(4)] none ids by blast
qed

definition sample_recovery_uuid :: "nat \<Rightarrow> string" where
  "sample_recovery_uuid k = replicate (Suc k) CHR ''r''"

theorem recovery_closes_every_lifecycle_witness:
  "\<exists>j' es. RecoverInterruptedRuntime sample_recovery_uuid (\<lambda>_. 5) sample_journal = Some (None, j') \<and>
     j_events j' = j_events sample_journal @ es \<and> length es = 2 \<and> still_open LRun ''r'' (j_events sample_journal) \<and> \<not> still_open LRun ''r'' (j_events j')"
proof -
  have inj: "inj sample_recovery_uuid" by (rule injI) (simp add: sample_recovery_uuid_def)
  have "map EventID (j_events sample_journal) = [''u0'', ''u1'']" by code_simp
  then have "EventID ` set (j_events sample_journal) = {''u0'', ''u1''}" by (metis list.set(1) list.set(2) set_map)
  then have fresh: "sample_recovery_uuid k \<notin> EventID ` set (j_events sample_journal)" for k
    by (simp add: sample_recovery_uuid_def)
  have "map fst (ol_tools (open_after (j_events sample_journal))) = [''t'']" "map fst (ol_steps (open_after (j_events sample_journal))) = []"
    "map fst (ol_runs (open_after (j_events sample_journal))) = [''r'']" by code_simp+
  then have ids: "open_ids LTool (open_after (j_events sample_journal)) = {''t''}" "open_ids LStep (open_after (j_events sample_journal)) = {}"
    "open_ids LRun (open_after (j_events sample_journal)) = {''r''}" unfolding sorted_ids_open[symmetric] sorted_ids_def by simp_all
  then have open': "{i. still_open LTool i (j_events sample_journal)} = {''t''}" "{i. still_open LStep i (j_events sample_journal)} = {}"
    "{i. still_open LRun i (j_events sample_journal)} = {''r''}" unfolding open_after_still[symmetric] by simp_all
  have len: "length xs = card (set xs)" if "sorted_wrt (<) (xs :: string list)" for xs using that by (simp add: distinct_card strict_sorted_iff)
  obtain j' es ts ss rs where r: "RecoverInterruptedRuntime sample_recovery_uuid (\<lambda>_. 5) sample_journal = Some (None, j')" "j_events j' = j_events sample_journal @ es"
    "list_all2 (\<lambda>e (k, i). lifecycle_ends k i e) es (map (Pair LTool) ts @ map (Pair LStep) ss @ map (Pair LRun) rs)"
    "sorted_wrt (<) ts" "set ts = {''t''}" "sorted_wrt (<) ss" "set ss = {}" "sorted_wrt (<) rs" "set rs = {''r''}" "\<forall>k i. \<not> still_open k i (j_events j')"
    using recovery_closes_every_lifecycle [OF sample_journal_reachable inj fresh, of "\<lambda>_. 5", unfolded open'] by (elim exE conjE) (rule that)
  have "length es = length ts + (length ss + length rs)" using list_all2_lengthD[OF r(3)] by simp
  then have "length es = 2" using len[OF r(4)] len[OF r(6)] len[OF r(8)] r(5,7,9) by simp
  then show ?thesis using r(1,2,10) open'(3) by blast
qed

text \<open>recovery is idempotent: when it is run again, for instance after a crash directly after it, it
  appends nothing and changes nothing.\<close>

theorem recovery_is_idempotent:
  assumes "journal_reachable j" "inj uuid" "\<And>k. uuid k \<notin> EventID ` set (j_events j)"
    and "RecoverInterruptedRuntime uuid now j = Some (None, j')"
  shows "RecoverInterruptedRuntime uuid' now' j' = Some (None, j')"
proof -
  from recovery_result [OF assms(1-3), of now] assms(4) have "journal_reachable j'" "open_after (j_events j') = nothing_open" by auto
  with scan_journal_spec [OF reachable_wf, of j'] show ?thesis
    by (auto simp: RecoverInterruptedRuntime_def closing_events_def nothing_open_def sorted_ids_def)
qed

theorem recovery_is_idempotent_witness:
  "\<exists>j'. RecoverInterruptedRuntime sample_recovery_uuid (\<lambda>_. 5) sample_journal = Some (None, j') \<and>
        RecoverInterruptedRuntime sample_recovery_uuid (\<lambda>_. 6) j' = Some (None, j')"
proof -
  have inj: "inj sample_recovery_uuid" by (rule injI) (simp add: sample_recovery_uuid_def)
  have "map EventID (j_events sample_journal) = [''u0'', ''u1'']" by code_simp
  then have "EventID ` set (j_events sample_journal) = {''u0'', ''u1''}" by (metis list.set(1) list.set(2) set_map)
  then have fresh: "sample_recovery_uuid k \<notin> EventID ` set (j_events sample_journal)" for k
    by (simp add: sample_recovery_uuid_def)
  obtain j' where "RecoverInterruptedRuntime sample_recovery_uuid (\<lambda>_. 5) sample_journal = Some (None, j')"
    using recovery_result [OF sample_journal_reachable inj fresh] by blast
  with recovery_is_idempotent [OF sample_journal_reachable inj fresh this] show ?thesis by blast
qed

text \<open>A session reset makes the scan forget what is open, while the projection and the checker keep it: a
  run started before a reset is closed by nobody and stays open for the checker.\<close>

lemma reset_hides_an_open_run:
  "open_after [sample_event 1 EventRunStarted [(''run_id'', JStr ''r'')], sample_event 2 EventSessionReset []] = nothing_open \<and>
   map iv_Code (ValidateInvariants
     [sample_event 1 EventRunStarted [(''run_id'', JStr ''r'')], sample_event 2 EventSessionReset []]) = [''open_run''] \<and>
   map_option RunStates (apply_all NewSessionProjection
     [sample_event 1 EventRunStarted [(''run_id'', JStr ''r'')], sample_event 2 EventSessionReset []]) =
     Some [(''r'', ''running'')]"
  by code_simp

end
