(* ===== verification/Agent_Messages.thy ===== *)
theory Agent_Messages
  imports Go_Json Permission_State
begin

text \<open>
  \<open>agent/messages.go\<close>: the conversation as a list of messages, how a turn is committed to it, and
  the repair of tool calls without a result and of results without a call. A message is a Go
  \<open>map[string]any\<close>, here the association list of a JSON object; reading a missing key gives the nil
  value, as reading a nil map does. The draft state of \<open>agent/state.go\<close> is cut down to the fields that
  the modelled operations read or write.
\<close>

section \<open>Values of any type\<close>

type_synonym gomap = "(string \<times> json) list"

abbreviation fld :: "gomap \<Rightarrow> string \<Rightarrow> json" where
  "fld \<equiv> mget JNull"

definition stringFromAny :: "json \<Rightarrow> string" where
  "stringFromAny v = (case v of JStr s \<Rightarrow> s | _ \<Rightarrow> [])"

text \<open>\<open>int64\<close> and \<open>float64\<close> values both arrive here as JSON numbers; a number that is not written as an
  integer is \<open>JFrac\<close>, and how it is cut to an integer is a parameter.\<close>

definition intFromAny :: "(string \<Rightarrow> int) \<Rightarrow> json \<Rightarrow> int" where
  "intFromAny tr v = (case v of JInt i \<Rightarrow> i | JFrac s \<Rightarrow> tr s | _ \<Rightarrow> 0)"

definition object_of :: "json \<Rightarrow> gomap option" where
  "object_of v = (case v of JObj m \<Rightarrow> Some m | _ \<Rightarrow> None)"

text \<open>The blocks of a content; \<open>None\<close> is the nil slice of a content that is not a list.\<close>

definition contentBlocks :: "json \<Rightarrow> gomap list option" where
  "contentBlocks content = (case content of JArr xs \<Rightarrow> Some (List.map_filter object_of xs) | _ \<Rightarrow> None)"

definition blocks_of :: "gomap \<Rightarrow> gomap list" where
  "blocks_of msg = (case contentBlocks (fld msg ''content'') of None \<Rightarrow> [] | Some bs \<Rightarrow> bs)"

definition block_list :: "gomap list \<Rightarrow> json" where
  "block_list bs = JArr (map JObj bs)"

definition set_content :: "gomap list \<Rightarrow> gomap \<Rightarrow> gomap" where
  "set_content bs msg = mput ''content'' (block_list bs) msg"

definition role_of :: "gomap \<Rightarrow> string" where
  "role_of msg = stringFromAny (fld msg ''role'')"

definition is_block :: "string \<Rightarrow> gomap \<Rightarrow> bool" where
  "is_block t b \<longleftrightarrow> fld b ''type'' = JStr t"

text \<open>The identifiers a block uses or answers; the empty identifier does not count.\<close>

definition use_id :: "gomap \<Rightarrow> string list" where
  "use_id b = (let i = stringFromAny (fld b ''id'') in if is_block ''tool_use'' b \<and> i \<noteq> [] then [i] else [])"

definition result_id :: "gomap \<Rightarrow> string list" where
  "result_id b = (let i = stringFromAny (fld b ''tool_use_id'') in if is_block ''tool_result'' b \<and> i \<noteq> [] then [i] else [])"

section \<open>State\<close>

record ToolCall =
  tc_ID :: string
  tc_Name :: string
  tc_Input :: gomap

record AgentState =
  as_Messages :: "gomap list"
  as_TotalInputTokens :: int
  as_TotalOutputTokens :: int
  as_CacheReadInputTokens :: int
  as_CacheCreateInputTokens :: int
  as_ServerToolUseInputTokens :: int
  as_UsageRequests :: "(string \<times> bool) list"
  as_UserTurnCount :: int
  as_TurnCount :: int
  as_ConsecutiveAutoCompactFailures :: int
  as_LastContinueReason :: string
  as_PermissionState :: "PermissionState option"
  as_DeniedToolCalls :: "(string \<times> int) list"
  as_ToolErrors :: "(string \<times> int) list"
  as_SystemPrompt :: string
  as_RecentApiErrors :: "string list"
  as_ContentReplacements :: "(string \<times> string) list"

definition NewAgentState :: AgentState where
  "NewAgentState =
     \<lparr>as_Messages = [], as_TotalInputTokens = 0, as_TotalOutputTokens = 0, as_CacheReadInputTokens = 0,
      as_CacheCreateInputTokens = 0, as_ServerToolUseInputTokens = 0, as_UsageRequests = [],
      as_UserTurnCount = 0, as_TurnCount = 0, as_ConsecutiveAutoCompactFailures = 0, as_LastContinueReason = [],
      as_PermissionState = Some DefaultPermissionState, as_DeniedToolCalls = [], as_ToolErrors = [],
      as_SystemPrompt = [], as_RecentApiErrors = [], as_ContentReplacements = []\<rparr>"

definition YoloEnabled :: "AgentState \<Rightarrow> bool" where
  "YoloEnabled s = (case as_PermissionState s of None \<Rightarrow> False | Some p \<Rightarrow> YoloMode p)"

section \<open>Committing turns\<close>

datatype usage = UsageMap gomap | UsageInts int "int list" | UsageOther

definition AddUsage :: "(string \<Rightarrow> int) \<Rightarrow> usage \<Rightarrow> AgentState \<Rightarrow> AgentState" where
  "AddUsage tr u s =
     (case u of
        UsageMap m \<Rightarrow>
          s\<lparr>as_TotalInputTokens := as_TotalInputTokens s + intFromAny tr (fld m ''input_tokens''),
            as_TotalOutputTokens := as_TotalOutputTokens s + intFromAny tr (fld m ''output_tokens''),
            as_CacheReadInputTokens := as_CacheReadInputTokens s + intFromAny tr (fld m ''cache_read_input_tokens''),
            as_CacheCreateInputTokens := as_CacheCreateInputTokens s + intFromAny tr (fld m ''cache_creation_input_tokens''),
            as_ServerToolUseInputTokens :=
              as_ServerToolUseInputTokens s + intFromAny tr (fld m ''server_tool_use_input_tokens'')\<rparr>
      | UsageInts i os \<Rightarrow>
          s\<lparr>as_TotalInputTokens := as_TotalInputTokens s + i,
            as_TotalOutputTokens := as_TotalOutputTokens s + (case os of [] \<Rightarrow> 0 | x # _ \<Rightarrow> x)\<rparr>
      | UsageOther \<Rightarrow> s)"

definition tool_use_block :: "ToolCall \<Rightarrow> gomap" where
  "tool_use_block tc =
     [(''type'', JStr ''tool_use''), (''id'', JStr (tc_ID tc)), (''name'', JStr (tc_Name tc)),
      (''input'', JObj (tc_Input tc))]"

definition text_block :: "string \<Rightarrow> gomap" where
  "text_block t = [(''type'', JStr ''text''), (''text'', JStr t)]"

definition tool_result_block :: "string \<Rightarrow> string \<Rightarrow> gomap" where
  "tool_result_block i content =
     [(''type'', JStr ''tool_result''), (''tool_use_id'', JStr i), (''content'', JStr content)]"

definition user_message :: "gomap list \<Rightarrow> gomap" where
  "user_message bs = [(''role'', JStr ''user''), (''content'', block_list bs)]"

text \<open>The context identifier is a fresh UUID, given by the caller.\<close>

definition BuildAssistantMessage :: "string \<Rightarrow> gomap list \<Rightarrow> string \<Rightarrow> ToolCall list \<Rightarrow> string \<Rightarrow> gomap" where
  "BuildAssistantMessage uuid thinking text calls messageID =
     (let content = thinking @ (if text \<noteq> [] then [text_block text] else []) @ map tool_use_block calls;
          msg = [(''role'', JStr ''assistant''), (''content'', block_list content), (''context_id'', JStr uuid)]
      in if messageID \<noteq> [] then mput ''id'' (JStr messageID) msg else msg)"

definition AppendAssistantMessage :: "string \<Rightarrow> gomap list \<Rightarrow> string \<Rightarrow> ToolCall list \<Rightarrow> string \<Rightarrow> AgentState \<Rightarrow> AgentState" where
  "AppendAssistantMessage uuid thinking text calls messageID s =
     s\<lparr>as_Messages := as_Messages s @ [BuildAssistantMessage uuid thinking text calls messageID]\<rparr>"

definition tag_turn :: "int \<Rightarrow> gomap \<Rightarrow> gomap" where
  "tag_turn n msg =
     (let metadata = (case object_of (fld msg ''metadata'') of None \<Rightarrow> [] | Some m \<Rightarrow> m)
      in mput ''metadata'' (JObj (mput ''session_user_turn'' (JInt n) metadata)) msg)"

definition tagLastMessageWithSessionTurn :: "AgentState \<Rightarrow> AgentState" where
  "tagLastMessageWithSessionTurn s =
     (if as_Messages s = [] \<or> as_UserTurnCount s \<le> 0 then s
      else s\<lparr>as_Messages := butlast (as_Messages s) @ [tag_turn (as_UserTurnCount s) (last (as_Messages s))]\<rparr>)"

definition CommitAssistantTurn :: "string \<Rightarrow> gomap list \<Rightarrow> string \<Rightarrow> ToolCall list \<Rightarrow> string \<Rightarrow> int \<Rightarrow> int \<Rightarrow> AgentState \<Rightarrow> AgentState" where
  "CommitAssistantTurn uuid thinking text calls messageID i o' s =
     (let msg = BuildAssistantMessage uuid thinking text calls messageID;
          k = stringFromAny (fld msg ''context_id'');
          s1 = (if mget False (as_UsageRequests s) k then s
                else (AddUsage (\<lambda>_. 0) (UsageInts i [o']) s)
                       \<lparr>as_UsageRequests := mput k True (as_UsageRequests s)\<rparr>)
      in tagLastMessageWithSessionTurn (s1\<lparr>as_Messages := as_Messages s1 @ [msg]\<rparr>))"

definition ContinuationPrompt :: string where
  "ContinuationPrompt = ''Your previous response was cut off due to output length limits. Please continue exactly where you left off. Do not repeat any content you already generated.''"

definition AppendContinuationPrompt :: "AgentState \<Rightarrow> AgentState" where
  "AppendContinuationPrompt s = s\<lparr>as_Messages := as_Messages s @ [user_message [text_block ContinuationPrompt]]\<rparr>"

section \<open>Tool results\<close>

text \<open>The slot of a tool call as \<open>AddToolFailureHint\<close> sees it: whether it failed, and the tool's name.\<close>

type_synonym slot_lookup = "string \<Rightarrow> (bool \<times> string) option"

fun first_failed :: "slot_lookup \<Rightarrow> gomap list \<Rightarrow> string option" where
  "first_failed slot [] = None"
| "first_failed slot (r # rs) =
     (case slot (stringFromAny (fld r ''tool_use_id'')) of
        Some (True, name) \<Rightarrow> Some name
      | _ \<Rightarrow> first_failed slot rs)"

definition failure_hint :: "string \<Rightarrow> int \<Rightarrow> string" where
  "failure_hint name n =
     (if n \<ge> 3 then
        ''<system_hint>'' @ [CHR 0x0A] @ ''The tool '' @ [CHR 0x27] @ name @ [CHR 0x27] @ '' has failed '' @ show_int n @
        '' times in a row. DO NOT call it again with the same parameters.'' @ [CHR 0x0A] @
        ''1. Carefully analyze the error message above to understand root cause.'' @ [CHR 0x0A] @
        ''2. Pivot to a completely different approach or tool.'' @ [CHR 0x0A] @
        ''3. If you believe the error is environmental, explain it to the user.'' @ [CHR 0x0A] @ ''</system_hint>''
      else
        ''<system_hint>'' @ [CHR 0x0A] @ ''One or more tool executions failed.'' @ [CHR 0x0A] @
        ''1. Carefully analyze the error message above to understand what went wrong.'' @ [CHR 0x0A] @
        ''2. DO NOT repeat the exact same tool call or command.'' @ [CHR 0x0A] @
        ''3. Consider checking file paths, verifying syntax, or trying an alternative approach.'' @ [CHR 0x0A] @
        ''</system_hint>'')"

definition AddToolFailureHint :: "slot_lookup option \<Rightarrow> gomap list \<Rightarrow> AgentState \<Rightarrow> AgentState \<times> gomap list" where
  "AddToolFailureHint executor results s =
     (case executor of
        None \<Rightarrow> (s, results)
      | Some slot \<Rightarrow>
          (case first_failed slot results of
             None \<Rightarrow> (s, results)
           | Some name \<Rightarrow>
               (let n = mget 0 (as_ToolErrors s) name + 1
                in (s\<lparr>as_ToolErrors := mput name n (as_ToolErrors s)\<rparr>,
                    results @ [text_block (failure_hint name n)]))))"

fun dedup_results :: "string list \<Rightarrow> gomap list \<Rightarrow> gomap list" where
  "dedup_results seen [] = []"
| "dedup_results seen (r # rs) =
     (let tid = stringFromAny (fld r ''tool_use_id'')
      in if tid \<noteq> [] \<and> tid \<in> set seen then dedup_results seen rs
         else r # dedup_results (if tid \<noteq> [] then tid # seen else seen) rs)"

definition AppendToolResultsMessage :: "gomap list \<Rightarrow> AgentState \<Rightarrow> AgentState" where
  "AppendToolResultsMessage results s =
     (if results = [] then s
      else tagLastMessageWithSessionTurn
             (s\<lparr>as_Messages := as_Messages s @ [user_message (dedup_results [] results)]\<rparr>))"

definition CommitToolResultsTurn :: "slot_lookup option \<Rightarrow> gomap list \<Rightarrow> AgentState \<Rightarrow> AgentState" where
  "CommitToolResultsTurn executor results s =
     (let (s1, rs) = AddToolFailureHint executor results s in AppendToolResultsMessage rs s1)"

section \<open>Repair of the working view\<close>

definition use_ids :: "gomap list \<Rightarrow> string list" where
  "use_ids msgs = concat (map (\<lambda>m. concat (map use_id (blocks_of m))) msgs)"

definition result_ids :: "gomap list \<Rightarrow> string list" where
  "result_ids msgs = concat (map (\<lambda>m. concat (map result_id (blocks_of m))) msgs)"

definition orphan_uses :: "gomap list \<Rightarrow> string list" where
  "orphan_uses msgs = filter (\<lambda>i. i \<notin> set (result_ids msgs)) (remdups (use_ids msgs))"

definition orphan_results :: "gomap list \<Rightarrow> string list" where
  "orphan_results msgs = filter (\<lambda>i. i \<notin> set (use_ids msgs)) (remdups (result_ids msgs))"

definition interrupted_text :: string where
  "interrupted_text = ''[System: tool execution interrupted - no result available]''"

definition drops_result :: "string list \<Rightarrow> gomap \<Rightarrow> bool" where
  "drops_result orphans b \<longleftrightarrow> is_block ''tool_result'' b \<and> stringFromAny (fld b ''tool_use_id'') \<in> set orphans"

definition repair_message :: "string list \<Rightarrow> string list \<Rightarrow> gomap \<Rightarrow> gomap list" where
  "repair_message ou ors msg =
     (case contentBlocks (fld msg ''content'') of
        None \<Rightarrow> [msg]
      | Some blocks \<Rightarrow>
          (let kept = filter (\<lambda>b. \<not> drops_result ors b) blocks;
               lost = filter (\<lambda>i. i \<in> set ou) (concat (map use_id blocks))
           in (if kept = [] then [] else [set_content kept msg]) @
              (if lost = [] then [] else [user_message (map (\<lambda>i. tool_result_block i interrupted_text) lost)])))"

definition RepairOrphanTools :: "gomap list \<Rightarrow> gomap list" where
  "RepairOrphanTools msgs =
     (if orphan_uses msgs = [] \<and> orphan_results msgs = [] then msgs
      else concat (map (repair_message (orphan_uses msgs) (orphan_results msgs)) msgs))"

section \<open>Finding and inserting blocks\<close>

fun find_index :: "('a \<Rightarrow> bool) \<Rightarrow> 'a list \<Rightarrow> nat option" where
  "find_index P [] = None"
| "find_index P (x # xs) = (if P x then Some 0 else map_option Suc (find_index P xs))"

definition findToolUseIndex :: "gomap list \<Rightarrow> string \<Rightarrow> nat option" where
  "findToolUseIndex msgs i =
     find_index (\<lambda>m. list_ex (\<lambda>b. is_block ''tool_use'' b \<and> stringFromAny (fld b ''id'') = i) (blocks_of m)) msgs"

definition findToolResultIndex :: "gomap list \<Rightarrow> string \<Rightarrow> nat option" where
  "findToolResultIndex msgs i =
     find_index (\<lambda>m. list_ex (\<lambda>b. is_block ''tool_result'' b \<and> stringFromAny (fld b ''tool_use_id'') = i) (blocks_of m)) msgs"

definition injectToolResultAfter :: "gomap list \<Rightarrow> nat \<Rightarrow> gomap \<Rightarrow> gomap list" where
  "injectToolResultAfter msgs idx b =
     (if idx + 1 < length msgs \<and> role_of (msgs ! (idx + 1)) = ''user'' then
        msgs[idx + 1 := set_content (blocks_of (msgs ! (idx + 1)) @ [b]) (msgs ! (idx + 1))]
      else take (idx + 1) msgs @ [user_message [b]] @ drop (idx + 1) msgs)"

definition injectToolUseBefore :: "gomap list \<Rightarrow> nat \<Rightarrow> gomap \<Rightarrow> gomap list" where
  "injectToolUseBefore msgs idx b =
     (if idx > 0 \<and> role_of (msgs ! (idx - 1)) = ''assistant'' then
        msgs[idx - 1 := set_content (b # blocks_of (msgs ! (idx - 1))) (msgs ! (idx - 1))]
      else take idx msgs @ [[(''role'', JStr ''assistant''), (''content'', block_list [b])]] @ drop idx msgs)"

section \<open>Blocks and identifiers\<close>

lemma map_filter_objects [simp]: "List.map_filter object_of (map JObj bs) = bs"
  by (induction bs) (simp_all add: object_of_def)

lemma contentBlocks_list [simp]: "contentBlocks (block_list bs) = Some bs"
  by (simp add: contentBlocks_def block_list_def)

lemma blocks_of_set_content [simp]: "blocks_of (set_content bs msg) = bs"
  by (simp add: blocks_of_def set_content_def)

lemma role_of_set_content [simp]: "role_of (set_content bs msg) = role_of msg"
  by (simp add: role_of_def set_content_def)

lemma blocks_of_user_message [simp]: "blocks_of (user_message bs) = bs"
  by (simp add: blocks_of_def user_message_def mget_def)

lemma role_of_user_message [simp]: "role_of (user_message bs) = ''user''"
  by (simp add: role_of_def user_message_def mget_def stringFromAny_def)

lemma blocks_of_None: "contentBlocks (fld msg ''content'') = None \<Longrightarrow> blocks_of msg = []"
  by (simp add: blocks_of_def)

lemma blocks_of_Some: "contentBlocks (fld msg ''content'') = Some bs \<Longrightarrow> blocks_of msg = bs"
  by (simp add: blocks_of_def)

text \<open>A block is of one type only.\<close>

lemma use_id_of_result [simp]: "is_block ''tool_result'' b \<Longrightarrow> use_id b = []"
  by (simp add: use_id_def is_block_def Let_def)

lemma result_id_of_use [simp]: "is_block ''tool_use'' b \<Longrightarrow> result_id b = []"
  by (simp add: result_id_def is_block_def Let_def)

lemma tool_result_block_ids [simp]:
  "is_block ''tool_result'' (tool_result_block i c)" "use_id (tool_result_block i c) = []"
  "result_id (tool_result_block i c) = (if i = [] then [] else [i])"
  "stringFromAny (fld (tool_result_block i c) ''tool_use_id'') = i"
  by (simp_all add: use_id_def result_id_def is_block_def tool_result_block_def mget_def stringFromAny_def Let_def)

lemma use_id_nonempty: "i \<in> set (use_id b) \<Longrightarrow> i \<noteq> []"
  by (simp add: use_id_def Let_def split: if_splits)

lemma result_id_nonempty: "i \<in> set (result_id b) \<Longrightarrow> i \<noteq> []"
  by (simp add: result_id_def Let_def split: if_splits)

lemma use_ids_simps [simp]:
  "use_ids [] = []" "use_ids (m # ms) = concat (map use_id (blocks_of m)) @ use_ids ms"
  "use_ids (xs @ ys) = use_ids xs @ use_ids ys"
  by (simp_all add: use_ids_def)

lemma result_ids_simps [simp]:
  "result_ids [] = []" "result_ids (m # ms) = concat (map result_id (blocks_of m)) @ result_ids ms"
  "result_ids (xs @ ys) = result_ids xs @ result_ids ys"
  by (simp_all add: result_ids_def)

lemma use_ids_nonempty: "i \<in> set (use_ids msgs) \<Longrightarrow> i \<noteq> []"
  by (auto simp: use_ids_def dest: use_id_nonempty)

lemma result_ids_nonempty: "i \<in> set (result_ids msgs) \<Longrightarrow> i \<noteq> []"
  by (auto simp: result_ids_def dest: result_id_nonempty)

lemma set_orphan_uses: "set (orphan_uses msgs) = set (use_ids msgs) - set (result_ids msgs)"
  by (auto simp: orphan_uses_def)

lemma set_orphan_results: "set (orphan_results msgs) = set (result_ids msgs) - set (use_ids msgs)"
  by (auto simp: orphan_results_def)

section \<open>Repair\<close>

lemma uses_without_results:
  "concat (map use_id (filter (\<lambda>b. \<not> drops_result ors b) bs)) = concat (map use_id bs)"
  by (induction bs) (auto simp: drops_result_def)

lemma results_without_orphans:
  "set (concat (map result_id (filter (\<lambda>b. \<not> drops_result ors b) bs))) = set (concat (map result_id bs)) - set ors"
  by (induction bs) (auto simp: drops_result_def result_id_def Let_def split: if_splits)

lemma map_result_blocks:
  "[] \<notin> set is \<Longrightarrow> concat (map result_id (map (\<lambda>i. tool_result_block i c) is)) = is"
  by (induction "is") auto

lemma map_use_result_blocks: "concat (map use_id (map (\<lambda>i. tool_result_block i c) is)) = []"
  by simp

lemma repair_message_uses: "use_ids (repair_message ou ors msg) = concat (map use_id (blocks_of msg))"
proof (cases "contentBlocks (fld msg ''content'')")
  case None
  then show ?thesis by (simp add: repair_message_def)
next
  case (Some bs)
  have "use_ids (if filter (\<lambda>b. \<not> drops_result ors b) bs = [] then []
                 else [set_content (filter (\<lambda>b. \<not> drops_result ors b) bs) msg]) =
        concat (map use_id (filter (\<lambda>b. \<not> drops_result ors b) bs))" by simp
  then have "use_ids (repair_message ou ors msg) = concat (map use_id (filter (\<lambda>b. \<not> drops_result ors b) bs))"
    by (simp add: repair_message_def Some Let_def map_use_result_blocks)
  then show ?thesis by (simp add: blocks_of_Some [OF Some] uses_without_results)
qed

lemma repair_message_results:
  "set (result_ids (repair_message ou ors msg)) =
   (set (concat (map result_id (blocks_of msg))) - set ors) \<union> (set (concat (map use_id (blocks_of msg))) \<inter> set ou)"
proof (cases "contentBlocks (fld msg ''content'')")
  case None
  then show ?thesis by (simp add: repair_message_def blocks_of_None)
next
  case (Some bs)
  define lost where "lost = filter (\<lambda>i. i \<in> set ou) (concat (map use_id bs))"
  have "[] \<notin> set lost" by (auto simp: lost_def dest: use_id_nonempty)
  then have "concat (map result_id (map (\<lambda>i. tool_result_block i interrupted_text) lost)) = lost"
    by (rule map_result_blocks)
  then have "result_ids (repair_message ou ors msg) =
    concat (map result_id (filter (\<lambda>b. \<not> drops_result ors b) bs)) @ lost"
    by (simp add: repair_message_def Some Let_def lost_def [symmetric])
  then show ?thesis
    unfolding blocks_of_Some [OF Some] results_without_orphans [symmetric] by (auto simp: lost_def)
qed

lemma repaired_uses:
  "use_ids (concat (map (repair_message ou ors) msgs)) = use_ids msgs"
  by (induction msgs) (simp_all add: repair_message_uses)

lemma repaired_results:
  "set (result_ids (concat (map (repair_message ou ors) msgs))) =
   (set (result_ids msgs) - set ors) \<union> (set (use_ids msgs) \<inter> set ou)"
proof (induction msgs)
  case (Cons m msgs)
  then show ?case
    using repair_message_results [of ou ors m] by auto
qed simp

section \<open>Properties\<close>

text \<open>after the repair every tool call has a result and every result has a call; the calls are those
  of the conversation, in their order.\<close>

theorem repaired_tools_are_paired:
  "set (result_ids (RepairOrphanTools msgs)) = set (use_ids (RepairOrphanTools msgs)) \<and>
   use_ids (RepairOrphanTools msgs) = use_ids msgs"
proof (cases "orphan_uses msgs = [] \<and> orphan_results msgs = []")
  case True
  then have "set (use_ids msgs) = set (result_ids msgs)"
    using set_orphan_uses [of msgs] set_orphan_results [of msgs] by auto
  with True show ?thesis by (simp add: RepairOrphanTools_def)
next
  case False
  then show ?thesis
    by (auto simp: RepairOrphanTools_def repaired_uses repaired_results set_orphan_uses set_orphan_results)
qed

end
