(* ===== verification/Output_Recovery.thy ===== *)
theory Output_Recovery
  imports Agent_Messages
begin

text \<open>
  \<open>agent/output_recovery.go\<close>, \<open>agent/continue_reasons.go\<close> and \<open>agent/events.go\<close>: what happens when a reply is
  cut off by the output limit. The first cut raises the limit and repeats the request, the next ones
  keep the text and ask the model to go on, and after three of those the run fails.
\<close>

section \<open>Definitions\<close>

record StreamEvent =
  se_Type :: string
  se_Content :: string
  se_Metadata :: gomap

text \<open>A nil metadata map becomes an empty one, which is the same list here.\<close>

definition NewStreamEvent :: "string \<Rightarrow> string \<Rightarrow> gomap \<Rightarrow> StreamEvent" where
  "NewStreamEvent t c m = \<lparr>se_Type = t, se_Content = c, se_Metadata = m\<rparr>"

definition ContinueReasonNextTurn :: string where
  "ContinueReasonNextTurn = ''next_turn''"
definition ContinueReasonMaxOutputTokensEscalate :: string where
  "ContinueReasonMaxOutputTokensEscalate = ''max_output_tokens_escalate''"
definition ContinueReasonMaxOutputTokensRecovery :: string where
  "ContinueReasonMaxOutputTokensRecovery = ''max_output_tokens_recovery''"
definition ContinueReasonCollapseDrainRetry :: string where
  "ContinueReasonCollapseDrainRetry = ''collapse_drain_retry''"
definition ContinueReasonReactiveCompactRetry :: string where
  "ContinueReasonReactiveCompactRetry = ''reactive_compact_retry''"

definition MaxOutputRecoveryRetries :: int where "MaxOutputRecoveryRetries = 3"
definition EscalatedMaxTokens :: int where "EscalatedMaxTokens = 64000"

record OutputRecoveryState =
  or_Retries :: int
  or_Escalated :: bool
  or_CurrentMaxTokens :: int

definition NewOutputRecoveryState :: "int \<Rightarrow> OutputRecoveryState" where
  "NewOutputRecoveryState apiMaxTokens = \<lparr>or_Retries = 0, or_Escalated = False, or_CurrentMaxTokens = apiMaxTokens\<rparr>"

definition ResetRetries :: "OutputRecoveryState \<Rightarrow> OutputRecoveryState" where
  "ResetRetries s = s\<lparr>or_Retries := 0\<rparr>"

definition ResetAfterHistoryReplace :: "int \<Rightarrow> OutputRecoveryState \<Rightarrow> OutputRecoveryState" where
  "ResetAfterHistoryReplace apiMaxTokens s =
     s\<lparr>or_Retries := 0, or_Escalated := False, or_CurrentMaxTokens := apiMaxTokens\<rparr>"

definition IsOutputTruncatedStopReason :: "string \<Rightarrow> bool" where
  "IsOutputTruncatedStopReason reason \<longleftrightarrow> reason = ''max_tokens'' \<or> reason = ''length'' \<or> reason = ''token_limit''"

record OutputRecoveryResult =
  orr_Action :: string
  orr_Event :: "StreamEvent option"
  orr_Reason :: string

definition ShouldContinue :: "OutputRecoveryResult \<Rightarrow> bool" where
  "ShouldContinue r \<longleftrightarrow> orr_Action r = ''retry'' \<or> orr_Action r = ''continue''"

definition ShouldReturn :: "OutputRecoveryResult \<Rightarrow> bool" where
  "ShouldReturn r \<longleftrightarrow> orr_Action r = ''fail''"

text \<open>The part of a model turn that the recovery uses, with the UUID its message gets.\<close>

record ModelTurn =
  mt_ToolCalls :: "ToolCall list"
  mt_ThinkingContent :: "gomap list"
  mt_FullText :: string
  mt_MessageID :: string
  mt_InputTokens :: int
  mt_OutputTokens :: int
  mt_uuid :: string

definition CommitTextOnlyTruncation :: "ModelTurn \<Rightarrow> AgentState \<Rightarrow> AgentState" where
  "CommitTextOnlyTruncation t s =
     AppendContinuationPrompt (CommitAssistantTurn (mt_uuid t) (mt_ThinkingContent t) (mt_FullText t) []
       (mt_MessageID t) (mt_InputTokens t) (mt_OutputTokens t) s)"

definition truncation_message :: string where
  "truncation_message = ''Output repeatedly truncated after 3 continuation attempts. The response may be too long for the model'' @ [CHR 0x27] @
     ''s output limit. Try breaking the task into smaller steps.''"

definition HandleOutputTruncation ::
  "ModelTurn \<Rightarrow> AgentState \<Rightarrow> OutputRecoveryState \<Rightarrow> AgentState \<times> OutputRecoveryState \<times> OutputRecoveryResult" where
  "HandleOutputTruncation t s rec =
     (if mt_ToolCalls t \<noteq> [] then (s, rec, \<lparr>orr_Action = ''proceed'', orr_Event = None, orr_Reason = []\<rparr>)
      else if \<not> or_Escalated rec then
        (s\<lparr>as_LastContinueReason := ContinueReasonMaxOutputTokensEscalate\<rparr>,
         rec\<lparr>or_Escalated := True, or_CurrentMaxTokens := EscalatedMaxTokens\<rparr>,
         \<lparr>orr_Action = ''retry'', orr_Event = None, orr_Reason = ContinueReasonMaxOutputTokensEscalate\<rparr>)
      else if or_Retries rec < MaxOutputRecoveryRetries then
        (CommitTextOnlyTruncation t (s\<lparr>as_LastContinueReason := ContinueReasonMaxOutputTokensRecovery\<rparr>),
         rec\<lparr>or_Retries := or_Retries rec + 1\<rparr>,
         \<lparr>orr_Action = ''continue'', orr_Event = None, orr_Reason = ContinueReasonMaxOutputTokensRecovery\<rparr>)
      else (s, rec, \<lparr>orr_Action = ''fail'', orr_Event = Some (NewStreamEvent ''error'' truncation_message []), orr_Reason = []\<rparr>))"

section \<open>Repeated truncation\<close>

text \<open>Truncated turns one after the other, and the actions they lead to.\<close>

fun truncations :: "ModelTurn list \<Rightarrow> AgentState \<Rightarrow> OutputRecoveryState \<Rightarrow> AgentState \<times> string list" where
  "truncations [] s rec = (s, [])"
| "truncations (t # ts) s rec =
     (case HandleOutputTruncation t s rec of (s', rec', r) \<Rightarrow>
        (case truncations ts s' rec' of (s'', as) \<Rightarrow> (s'', orr_Action r # as)))"

definition expected_actions :: "nat \<Rightarrow> string list" where
  "expected_actions n =
     (if n = 0 then [] else ''retry'' # replicate (min 3 (n - 1)) ''continue'' @ replicate (n - 1 - 3) ''fail'')"

lemma messages_of_commit:
  "length (as_Messages (CommitTextOnlyTruncation t s)) = length (as_Messages s) + 2"
  by (simp add: CommitTextOnlyTruncation_def AppendContinuationPrompt_def CommitAssistantTurn_def
      tagLastMessageWithSessionTurn_def Let_def AddUsage_def)

lemma truncations_failed:
  "\<lbrakk>list_all (\<lambda>t. mt_ToolCalls t = []) ts; or_Escalated rec; or_Retries rec \<ge> 3\<rbrakk> \<Longrightarrow>
   truncations ts s rec = (s, replicate (length ts) ''fail'')"
  by (induction ts) (simp_all add: HandleOutputTruncation_def MaxOutputRecoveryRetries_def)

lemma truncations_escalated:
  "\<lbrakk>list_all (\<lambda>t. mt_ToolCalls t = []) ts; or_Escalated rec; or_Retries rec = 3 - int k; k \<le> 3\<rbrakk> \<Longrightarrow>
   snd (truncations ts s rec) = replicate (min k (length ts)) ''continue'' @ replicate (length ts - k) ''fail'' \<and>
   length (as_Messages (fst (truncations ts s rec))) = length (as_Messages s) + 2 * min k (length ts)"
proof (induction ts arbitrary: s rec k)
  case (Cons t ts)
  show ?case
  proof (cases k)
    case 0
    with Cons.prems truncations_failed [of "t # ts" rec s] show ?thesis by simp
  next
    case (Suc k')
    let ?s = "CommitTextOnlyTruncation t (s\<lparr>as_LastContinueReason := ContinueReasonMaxOutputTokensRecovery\<rparr>)"
    let ?r = "rec\<lparr>or_Retries := or_Retries rec + 1\<rparr>"
    have "snd (truncations ts ?s ?r) = replicate (min k' (length ts)) ''continue'' @ replicate (length ts - k') ''fail'' \<and>
      length (as_Messages (fst (truncations ts ?s ?r))) = length (as_Messages ?s) + 2 * min k' (length ts)"
      by (rule Cons.IH) (use Cons.prems Suc in auto)
    moreover have "HandleOutputTruncation t s rec = (?s, ?r, \<lparr>orr_Action = ''continue'', orr_Event = None,
        orr_Reason = ContinueReasonMaxOutputTokensRecovery\<rparr>)"
      using Cons.prems Suc by (simp add: HandleOutputTruncation_def MaxOutputRecoveryRetries_def)
    ultimately show ?thesis
      using Suc by (simp add: messages_of_commit case_prod_beta)
  qed
qed simp

section \<open>Properties\<close>

text \<open>recovery from truncated output is bounded: however often the model's reply is cut off, the first
  cut raises the limit, at most three more continue the conversation (two messages each), and every
  further one fails.\<close>

theorem output_recovery_is_bounded:
  assumes "list_all (\<lambda>t. mt_ToolCalls t = []) ts"
  shows "snd (truncations ts s (NewOutputRecoveryState limit)) = expected_actions (length ts) \<and>
    length (as_Messages (fst (truncations ts s (NewOutputRecoveryState limit)))) =
    length (as_Messages s) + 2 * min 3 (length ts - 1)"
proof (cases ts)
  case (Cons t ts')
  let ?s = "s\<lparr>as_LastContinueReason := ContinueReasonMaxOutputTokensEscalate\<rparr>"
  let ?r = "\<lparr>or_Retries = 0, or_Escalated = True, or_CurrentMaxTokens = EscalatedMaxTokens\<rparr>"
  have "snd (truncations ts' ?s ?r) = replicate (min 3 (length ts')) ''continue'' @ replicate (length ts' - 3) ''fail'' \<and>
    length (as_Messages (fst (truncations ts' ?s ?r))) = length (as_Messages ?s) + 2 * min 3 (length ts')"
    by (rule truncations_escalated) (use assms Cons in auto)
  with assms Cons show ?thesis
    by (simp add: HandleOutputTruncation_def NewOutputRecoveryState_def expected_actions_def case_prod_beta)
qed (simp add: expected_actions_def)

definition sample_turn :: "string \<Rightarrow> ModelTurn" where
  "sample_turn u = \<lparr>mt_ToolCalls = [], mt_ThinkingContent = [], mt_FullText = ''part'', mt_MessageID = [],
     mt_InputTokens = 5, mt_OutputTokens = 7, mt_uuid = u\<rparr>"

theorem output_recovery_is_bounded_witness:
  "snd (truncations (map sample_turn [''a'', ''b'', ''c'', ''d'', ''e'', ''f'']) NewAgentState (NewOutputRecoveryState 16000)) =
   [''retry'', ''continue'', ''continue'', ''continue'', ''fail'', ''fail'']"
proof -
  have "list_all (\<lambda>t. mt_ToolCalls t = []) (map sample_turn [''a'', ''b'', ''c'', ''d'', ''e'', ''f''])"
    by (simp add: sample_turn_def)
  from output_recovery_is_bounded [OF this, of NewAgentState 16000] show ?thesis
    by (simp add: expected_actions_def numeral_nat)
qed

end
