(* ===== verification/Run_State.thy ===== *)
theory Run_State
  imports Output_Recovery "HOL-Library.Word"
begin

text \<open>
  \<open>agent/run_state.go\<close> and the run lifecycle of \<open>agent/runtime_state.go\<close>: the phases of a run, the
  permission requests that wait for an answer, cancellation and the recovery counters. Every
  operation holds \<open>AgentRuntime.mu\<close>, so it is one function on the state; what happens outside the lock
  (a context being cancelled, a waiter receiving from its channel) is a function of its own.

  Contexts and the one-place answer channels are objects of an explicit store: a context is a number
  whose error is \<open>None\<close> while it lives, a channel is a number whose content is \<open>None\<close> while it is
  empty. The cache of read files and the snapshot's conversation content are left out; of the
  snapshot only the generation matters here. Times and UUIDs are arguments.
\<close>

section \<open>Phases\<close>

datatype AgentPhase =
    AgentPhaseIdle | AgentPhasePreparing | AgentPhaseCallingModel | AgentPhaseExecutingTools
  | AgentPhaseWaitingPermission | AgentPhaseRecovering | AgentPhaseCancelling
  | AgentPhaseCompleted | AgentPhaseFailed | AgentPhaseCancelled | AgentPhaseOther string

definition Active :: "AgentPhase \<Rightarrow> bool" where
  "Active p \<longleftrightarrow> p \<in> {AgentPhasePreparing, AgentPhaseCallingModel, AgentPhaseExecutingTools,
     AgentPhaseWaitingPermission, AgentPhaseRecovering, AgentPhaseCancelling}"

definition Terminal :: "AgentPhase \<Rightarrow> bool" where
  "Terminal p \<longleftrightarrow> p = AgentPhaseCompleted \<or> p = AgentPhaseFailed \<or> p = AgentPhaseCancelled"

definition activityPhase :: "AgentPhase \<Rightarrow> bool" where
  "activityPhase p \<longleftrightarrow> p = AgentPhasePreparing \<or> p = AgentPhaseCallingModel \<or> p = AgentPhaseExecutingTools \<or>
     p = AgentPhaseRecovering"

definition CanTransitionAgentPhase :: "AgentPhase \<Rightarrow> AgentPhase \<Rightarrow> bool" where
  "CanTransitionAgentPhase from to =
     (if from = to then Active from
      else if \<not> Active from then (from = AgentPhaseIdle \<or> Terminal from) \<and> to = AgentPhasePreparing
      else if from = AgentPhaseCancelling then to = AgentPhaseCancelled
      else if from = AgentPhaseWaitingPermission \<and> to = AgentPhaseCompleted then False
      else if to = AgentPhaseCancelling \<or> to = AgentPhaseFailed \<or> to = AgentPhaseCompleted then True
      else if from = AgentPhaseWaitingPermission then activityPhase to
      else activityPhase from \<and> (activityPhase to \<or> to = AgentPhaseWaitingPermission))"

section \<open>State\<close>

record RunToken =
  tok_Generation :: "64 word"
  tok_ID :: string

datatype PermissionKind = PermissionTool | PermissionSkill | PermissionMCP | PermissionKindOther string

record PermissionWait =
  pw_ID :: string
  pw_Kind :: PermissionKind
  pw_ToolName :: string

record PermissionAnswer =
  pa_Decision :: string
  pa_ToolName :: string

record permissionWaiter =
  w_wait :: PermissionWait
  w_ctx :: nat
  w_event :: StreamEvent
  w_answer :: nat

record PermissionTicket =
  pt_Run :: RunToken
  pt_wait :: PermissionWait
  pt_answer :: nat

datatype RecoveryKind = RecoveryAPI | RecoveryContext | RecoveryOutput | RecoveryKindOther string

record RecoveryState =
  rc_Kind :: RecoveryKind
  rc_LastError :: string
  rc_APIErrors :: int
  rc_ContextRetries :: int
  rc_Continuations :: int
  rc_Output :: OutputRecoveryState

record RunSnapshot =
  rs_Token :: RunToken
  rs_Phase :: AgentPhase
  rs_ResumePhase :: "AgentPhase option"
  rs_StartedAt :: int
  rs_EndedAt :: int
  rs_CancelReason :: string
  rs_Error :: string
  rs_PendingPermissions :: "PermissionWait list"
  rs_Recovery :: RecoveryState

record RunState =
  run_Generation :: "64 word"
  run_ID :: string
  run_Phase :: AgentPhase
  run_Activity :: AgentPhase
  run_Context :: "nat option"
  run_Cancel :: "nat option"
  run_stopCancellation :: bool
  run_StartedAt :: int
  run_EndedAt :: int
  run_CancelReason :: string
  run_Error :: string
  run_Pending :: "(string \<times> permissionWaiter) list"
  run_PermissionEvents :: "StreamEvent list"
  run_Recovery :: RecoveryState
  run_Replacements :: "(string \<times> string) list"

record AgentRuntime =
  rt_generation :: "64 word"
  rt_run :: RunState
  rt_sessionContext :: "nat option"
  rt_contexts :: "nat \<Rightarrow> string option"
  rt_nextContext :: nat
  rt_chans :: "nat \<Rightarrow> PermissionAnswer option"
  rt_nextChan :: nat

datatype run_error =
    ErrStaleState | ErrAgentBusy | ErrInvalidAgentPhase AgentPhase AgentPhase | ErrPermissionPending
  | ErrSnapshotVersion | ErrContext string | ErrStore string

abbreviation Canceled :: run_error where
  "Canceled \<equiv> ErrContext ''context canceled''"

definition PermissionOnce :: string where "PermissionOnce = ''once''"
definition PermissionAlways :: string where "PermissionAlways = ''always''"
definition PermissionDeny :: string where "PermissionDeny = ''deny''"

definition cancelReasonUser :: string where "cancelReasonUser = ''aborted by user''"

definition deny_answer :: PermissionAnswer where
  "deny_answer = \<lparr>pa_Decision = PermissionDeny, pa_ToolName = []\<rparr>"

definition no_recovery :: RecoveryState where
  "no_recovery = \<lparr>rc_Kind = RecoveryKindOther [], rc_LastError = [], rc_APIErrors = 0, rc_ContextRetries = 0,
     rc_Continuations = 0, rc_Output = \<lparr>or_Retries = 0, or_Escalated = False, or_CurrentMaxTokens = 0\<rparr>\<rparr>"

definition idleRun :: "64 word \<Rightarrow> RunState" where
  "idleRun generation =
     \<lparr>run_Generation = generation, run_ID = [], run_Phase = AgentPhaseIdle, run_Activity = AgentPhaseOther [],
      run_Context = None, run_Cancel = None, run_stopCancellation = False, run_StartedAt = 0, run_EndedAt = 0,
      run_CancelReason = [], run_Error = [], run_Pending = [], run_PermissionEvents = [],
      run_Recovery = no_recovery, run_Replacements = []\<rparr>"

definition NewAgentRuntime :: "64 word \<Rightarrow> AgentRuntime" where
  "NewAgentRuntime generation =
     \<lparr>rt_generation = generation, rt_run = idleRun generation, rt_sessionContext = None,
      rt_contexts = (\<lambda>_. None), rt_nextContext = 0, rt_chans = (\<lambda>_. None), rt_nextChan = 0\<rparr>"

definition upd_run :: "(RunState \<Rightarrow> RunState) \<Rightarrow> AgentRuntime \<Rightarrow> AgentRuntime" where
  "upd_run f r = r\<lparr>rt_run := f (rt_run r)\<rparr>"

text \<open>The error of an optional context; a nil context has none.\<close>

definition ctx_error :: "AgentRuntime \<Rightarrow> nat option \<Rightarrow> string option" where
  "ctx_error r c = (case c of None \<Rightarrow> None | Some i \<Rightarrow> rt_contexts r i)"

definition cancel_context :: "nat option \<Rightarrow> AgentRuntime \<Rightarrow> AgentRuntime" where
  "cancel_context c r =
     (case c of
        None \<Rightarrow> r
      | Some i \<Rightarrow> if rt_contexts r i = None then r\<lparr>rt_contexts := (rt_contexts r)(i \<mapsto> ''context canceled'')\<rparr> else r)"

section \<open>Tokens and snapshots\<close>

definition runMatchesLocked :: "RunToken \<Rightarrow> AgentRuntime \<Rightarrow> bool" where
  "runMatchesLocked t r \<longleftrightarrow> tok_ID t \<noteq> [] \<and> tok_ID t = run_ID (rt_run r) \<and>
     tok_Generation t = run_Generation (rt_run r) \<and> tok_Generation t = rt_generation r"

definition runActiveLocked :: "RunToken \<Rightarrow> AgentRuntime \<Rightarrow> bool" where
  "runActiveLocked t r \<longleftrightarrow> runMatchesLocked t r \<and> Active (run_Phase (rt_run r))"

definition runSnapshotLocked :: "AgentRuntime \<Rightarrow> RunSnapshot" where
  "runSnapshotLocked r =
     (let run = rt_run r
      in \<lparr>rs_Token = \<lparr>tok_Generation = run_Generation run, tok_ID = run_ID run\<rparr>, rs_Phase = run_Phase run,
          rs_ResumePhase = (if run_Phase run = AgentPhaseWaitingPermission then Some (run_Activity run) else None),
          rs_StartedAt = run_StartedAt run, rs_EndedAt = run_EndedAt run, rs_CancelReason = run_CancelReason run,
          rs_Error = run_Error run,
          rs_PendingPermissions = sort_key pw_ID (map (\<lambda>(_, w). w_wait w) (run_Pending run)),
          rs_Recovery = run_Recovery run\<rparr>)"

section \<open>Phase changes\<close>

definition refreshRunPhaseLocked :: "AgentRuntime \<Rightarrow> AgentRuntime" where
  "refreshRunPhaseLocked r =
     (if run_Phase (rt_run r) = AgentPhaseCancelling \<or> Terminal (run_Phase (rt_run r)) then r
      else upd_run (\<lambda>run. run\<lparr>run_Phase :=
             (if run_Pending run \<noteq> [] then AgentPhaseWaitingPermission else run_Activity run)\<rparr>) r)"

definition Transition :: "RunToken \<Rightarrow> AgentPhase \<Rightarrow> AgentRuntime \<Rightarrow> AgentRuntime \<times> run_error option" where
  "Transition t to r =
     (if \<not> runActiveLocked t r then (r, Some ErrStaleState)
      else if run_Phase (rt_run r) = AgentPhaseCancelling then (r, Some Canceled)
      else if \<not> activityPhase to \<or> \<not> CanTransitionAgentPhase (run_Activity (rt_run r)) to then
        (r, Some (ErrInvalidAgentPhase (run_Activity (rt_run r)) to))
      else (refreshRunPhaseLocked (upd_run (\<lambda>run. run\<lparr>run_Activity := to\<rparr>) r), None))"

text \<open>Every waiter is sent a denial unless its channel already holds an answer.\<close>

definition deny_chans :: "(string \<times> permissionWaiter) list \<Rightarrow> (nat \<Rightarrow> PermissionAnswer option) \<Rightarrow> nat \<Rightarrow> PermissionAnswer option" where
  "deny_chans = fold (\<lambda>(_, w) ch. if ch (w_answer w) = None then ch(w_answer w \<mapsto> deny_answer) else ch)"

definition cancelWaitersLocked :: "AgentRuntime \<Rightarrow> AgentRuntime" where
  "cancelWaitersLocked r =
     upd_run (\<lambda>run. run\<lparr>run_Pending := [], run_PermissionEvents := []\<rparr>)
       (r\<lparr>rt_chans := deny_chans (run_Pending (rt_run r)) (rt_chans r)\<rparr>)"

text \<open>The second component is the context that the caller cancels after releasing the lock.\<close>

definition cancelRunLocked :: "RunToken \<Rightarrow> string \<Rightarrow> AgentRuntime \<Rightarrow> AgentRuntime \<times> nat option" where
  "cancelRunLocked t reason r =
     (let r1 = (if runMatchesLocked t r \<and>
                   (run_Phase (rt_run r) = AgentPhaseCancelled \<or> run_Phase (rt_run r) = AgentPhaseCancelling) \<and>
                   reason = cancelReasonUser
                then upd_run (\<lambda>run. run\<lparr>run_CancelReason := reason\<rparr>) r else r)
      in if \<not> runActiveLocked t r1 \<or> run_Phase (rt_run r1) = AgentPhaseCancelling then (r1, None)
         else (let r2 = cancelWaitersLocked (upd_run (\<lambda>run. run\<lparr>run_Phase := AgentPhaseCancelling,
                                                          run_CancelReason := reason\<rparr>) r1)
               in (r2, run_Cancel (rt_run r2))))"

definition cancelRun :: "RunToken \<Rightarrow> string \<Rightarrow> AgentRuntime \<Rightarrow> AgentRuntime" where
  "cancelRun t reason r = (let (r', c) = cancelRunLocked t reason r in cancel_context c r')"

definition Abort :: "AgentRuntime \<Rightarrow> AgentRuntime" where
  "Abort r = cancelRun \<lparr>tok_Generation = run_Generation (rt_run r), tok_ID = run_ID (rt_run r)\<rparr> cancelReasonUser r"

definition FailRun :: "RunToken \<Rightarrow> string \<Rightarrow> AgentRuntime \<Rightarrow> AgentRuntime" where
  "FailRun t message r =
     (if runActiveLocked t r \<and> run_Phase (rt_run r) \<noteq> AgentPhaseCancelling
      then upd_run (\<lambda>run. run\<lparr>run_Error := message\<rparr>) r else r)"

definition ObserveRunEvent :: "RunToken \<Rightarrow> StreamEvent \<Rightarrow> AgentRuntime \<Rightarrow> AgentRuntime" where
  "ObserveRunEvent t ev r =
     (if se_Type ev \<noteq> ''error'' \<or> fld (se_Metadata ev) ''recovered'' = JBool True then r
      else FailRun t (se_Content ev) r)"

definition end_phase :: "AgentRuntime \<Rightarrow> AgentPhase" where
  "end_phase r =
     (if run_Phase (rt_run r) = AgentPhaseCancelling \<or> ctx_error r (run_Context (rt_run r)) \<noteq> None then AgentPhaseCancelled
      else if run_Error (rt_run r) \<noteq> [] then AgentPhaseFailed
      else if run_Pending (rt_run r) \<noteq> [] then AgentPhaseFailed
      else AgentPhaseCompleted)"

definition end_reason :: "AgentRuntime \<Rightarrow> string" where
  "end_reason r =
     (case ctx_error r (run_Context (rt_run r)) of
        Some e \<Rightarrow> if run_CancelReason (rt_run r) = [] then e else run_CancelReason (rt_run r)
      | None \<Rightarrow> run_CancelReason (rt_run r))"

definition end_error :: "AgentRuntime \<Rightarrow> string" where
  "end_error r =
     (if end_phase r = AgentPhaseFailed \<and> run_Error (rt_run r) = []
      then ''run ended with unresolved permission requests'' else run_Error (rt_run r))"

definition EndRun :: "RunToken \<Rightarrow> int \<Rightarrow> AgentRuntime \<Rightarrow> AgentRuntime \<times> run_error option" where
  "EndRun t now r =
     (if \<not> runActiveLocked t r then (r, Some ErrStaleState)
      else (let phase = end_phase r; reason = end_reason r; err = end_error r;
                r1 = upd_run (\<lambda>run. run\<lparr>run_Phase := phase, run_CancelReason := reason, run_Error := err,
                                run_EndedAt := now, run_stopCancellation := False, run_Cancel := None\<rparr>)
                       (cancelWaitersLocked r)
            in (cancel_context (run_Cancel (rt_run r)) r1, None)))"

section \<open>Permission requests\<close>

definition PermissionRequestID :: "StreamEvent \<Rightarrow> string" where
  "PermissionRequestID ev = stringFromAny (fld (se_Metadata ev) ''permission_request_id'')"

definition ticket_event :: "RunToken \<Rightarrow> string \<Rightarrow> StreamEvent \<Rightarrow> StreamEvent" where
  "ticket_event t uuid ev =
     ev\<lparr>se_Metadata := mput ''generation'' (JInt (uint (tok_Generation t))) (mput ''run_id'' (JStr (tok_ID t))
          (mput ''permission_request_id'' (JStr uuid) (se_Metadata ev)))\<rparr>"

definition BeginPermission ::
  "string \<Rightarrow> nat \<Rightarrow> RunToken \<Rightarrow> PermissionKind \<Rightarrow> string \<Rightarrow> StreamEvent \<Rightarrow> bool \<Rightarrow> AgentRuntime \<Rightarrow>
   AgentRuntime \<times> (run_error + PermissionTicket) \<times> StreamEvent" where
  "BeginPermission uuid c t kind tool ev queued r =
     (if \<not> runActiveLocked t r then (r, Inl ErrStaleState, ev)
      else case rt_contexts r c of Some e \<Rightarrow> (r, Inl (ErrContext e), ev)
      | None \<Rightarrow>
        if run_Phase (rt_run r) = AgentPhaseCancelling then (r, Inl Canceled, ev)
        else if kind \<notin> {PermissionTool, PermissionSkill, PermissionMCP} then (r, Inl ErrPermissionPending, ev)
        else
          (let ch = rt_nextChan r;
               wait = \<lparr>pw_ID = uuid, pw_Kind = kind, pw_ToolName = tool\<rparr>;
               ev' = ticket_event t uuid ev;
               w = \<lparr>w_wait = wait, w_ctx = c, w_event = ev', w_answer = ch\<rparr>;
               r1 = refreshRunPhaseLocked (upd_run (\<lambda>run. run\<lparr>run_Pending := mput uuid w (run_Pending run)\<rparr>)
                      (r\<lparr>rt_nextChan := Suc ch, rt_chans := (rt_chans r)(ch := None)\<rparr>));
               r2 = (if queued then upd_run (\<lambda>run. run\<lparr>run_PermissionEvents := run_PermissionEvents run @ [ev']\<rparr>) r1 else r1)
           in (r2, Inr \<lparr>pt_Run = t, pt_wait = wait, pt_answer = ch\<rparr>, ev')))"

definition cancelPermission :: "PermissionTicket \<Rightarrow> AgentRuntime \<Rightarrow> AgentRuntime" where
  "cancelPermission ticket r =
     (if runMatchesLocked (pt_Run ticket) r then
        refreshRunPhaseLocked (upd_run (\<lambda>run. run\<lparr>run_Pending := mdel (pw_ID (pt_wait ticket)) (run_Pending run),
          run_PermissionEvents := filter (\<lambda>ev. PermissionRequestID ev \<noteq> pw_ID (pt_wait ticket)) (run_PermissionEvents run)\<rparr>) r)
      else r)"

text \<open>The waiter takes the answer out of its channel; \<open>None\<close> while the channel is empty.\<close>

definition await_receive :: "PermissionTicket \<Rightarrow> AgentRuntime \<Rightarrow> (AgentRuntime \<times> PermissionAnswer) option" where
  "await_receive ticket r =
     (case rt_chans r (pt_answer ticket) of
        None \<Rightarrow> None
      | Some a \<Rightarrow> Some (r\<lparr>rt_chans := (rt_chans r)(pt_answer ticket := None)\<rparr>, a))"

text \<open>What it returns for the answer it took.\<close>

definition await_check :: "nat \<Rightarrow> PermissionTicket \<Rightarrow> PermissionAnswer \<Rightarrow> AgentRuntime \<Rightarrow> PermissionAnswer \<times> run_error option" where
  "await_check c ticket a r =
     (if \<not> (runActiveLocked (pt_Run ticket) r \<and> run_Phase (rt_run r) \<noteq> AgentPhaseCancelling \<and>
             ctx_error r (run_Context (rt_run r)) = None)
      then (deny_answer, Some Canceled)
      else case rt_contexts r c of Some e \<Rightarrow> (deny_answer, Some (ErrContext e)) | None \<Rightarrow> (a, None))"

text \<open>\<open>select\<close> takes any branch that is ready; \<open>answered\<close> is its choice. \<open>None\<close> means that the chosen branch
  is not ready, so the call waits.\<close>

definition AwaitPermission ::
  "bool \<Rightarrow> nat \<Rightarrow> PermissionTicket \<Rightarrow> AgentRuntime \<Rightarrow> (AgentRuntime \<times> PermissionAnswer \<times> run_error option) option" where
  "AwaitPermission answered c ticket r =
     (if answered then
        map_option (\<lambda>(r', a). (cancelPermission ticket r', await_check c ticket a r')) (await_receive ticket r)
      else map_option (\<lambda>e. (cancelPermission ticket r, deny_answer, Some (ErrContext e))) (rt_contexts r c))"

definition wait_matches :: "PermissionKind \<Rightarrow> PermissionAnswer \<Rightarrow> string \<Rightarrow> string \<times> permissionWaiter \<Rightarrow> bool" where
  "wait_matches kind a i p \<longleftrightarrow>
     (i = [] \<or> i = fst p) \<and> (kind = PermissionKindOther [] \<or> kind = pw_Kind (w_wait (snd p))) \<and>
     \<not> (i = [] \<and> pa_ToolName a \<noteq> [] \<and> pw_Kind (w_wait (snd p)) = PermissionTool \<and>
        pw_ToolName (w_wait (snd p)) \<noteq> pa_ToolName a)"

text \<open>\<open>None\<close> is a send that blocks because the channel is full; the lock would never be released.\<close>

definition ResolveRunPermission ::
  "PermissionKind \<Rightarrow> PermissionAnswer \<Rightarrow> string list \<Rightarrow> AgentRuntime \<Rightarrow> (AgentRuntime \<times> bool) option" where
  "ResolveRunPermission kind a ids r =
     (if \<not> Active (run_Phase (rt_run r)) \<or> run_Phase (rt_run r) = AgentPhaseCancelling \<or>
         ctx_error r (run_Context (rt_run r)) \<noteq> None then Some (r, False)
      else
        (let i = (case ids of [] \<Rightarrow> [] | x # _ \<Rightarrow> x);
             a' = (if pa_Decision a = [] then a\<lparr>pa_Decision := PermissionDeny\<rparr> else a)
         in case filter (wait_matches kind a i) (run_Pending (rt_run r)) of
              [(_, w)] \<Rightarrow>
                if rt_chans r (w_answer w) \<noteq> None then None
                else Some (refreshRunPhaseLocked
                       (upd_run (\<lambda>run. run\<lparr>run_Pending := mdel (pw_ID (w_wait w)) (run_Pending run)\<rparr>)
                         (r\<lparr>rt_chans := (rt_chans r)(w_answer w \<mapsto> a')\<rparr>)), True)
            | _ \<Rightarrow> Some (r, False)))"

definition DrainPermissionEvents :: "RunToken \<Rightarrow> AgentRuntime \<Rightarrow> AgentRuntime \<times> StreamEvent list" where
  "DrainPermissionEvents t r =
     (if \<not> runActiveLocked t r then (r, [])
      else (upd_run (\<lambda>run. run\<lparr>run_PermissionEvents := []\<rparr>) r, run_PermissionEvents (rt_run r)))"

definition permissionGranted :: "PermissionAnswer \<Rightarrow> bool" where
  "permissionGranted a \<longleftrightarrow> pa_Decision a = PermissionOnce \<or> pa_Decision a = PermissionAlways \<or> pa_Decision a = ''true''"

section \<open>Recovery counters\<close>

definition upd_recovery :: "(RecoveryState \<Rightarrow> RecoveryState) \<Rightarrow> AgentRuntime \<Rightarrow> AgentRuntime" where
  "upd_recovery f = upd_run (\<lambda>run. run\<lparr>run_Recovery := f (run_Recovery run)\<rparr>)"

definition enter_recovery :: "AgentRuntime \<Rightarrow> AgentRuntime" where
  "enter_recovery r = refreshRunPhaseLocked (upd_run (\<lambda>run. run\<lparr>run_Activity := AgentPhaseRecovering\<rparr>) r)"

definition StartRecovery :: "RunToken \<Rightarrow> RecoveryKind \<Rightarrow> string \<Rightarrow> AgentRuntime \<Rightarrow> AgentRuntime \<times> run_error option" where
  "StartRecovery t kind message r =
     (if \<not> runActiveLocked t r then (r, Some ErrStaleState)
      else if run_Phase (rt_run r) = AgentPhaseCancelling then (r, Some Canceled)
      else (enter_recovery (upd_recovery (\<lambda>s. s\<lparr>rc_Kind := kind, rc_LastError := message\<rparr>) r), None))"

definition APIErrors :: "RunToken \<Rightarrow> AgentRuntime \<Rightarrow> int" where
  "APIErrors t r = (if runMatchesLocked t r then rc_APIErrors (run_Recovery (rt_run r)) else 0)"

definition SetAPIErrors :: "RunToken \<Rightarrow> int \<Rightarrow> AgentRuntime \<Rightarrow> AgentRuntime" where
  "SetAPIErrors t n r = (if runActiveLocked t r then upd_recovery (\<lambda>s. s\<lparr>rc_APIErrors := n\<rparr>) r else r)"

definition OutputRecovery :: "RunToken \<Rightarrow> AgentRuntime \<Rightarrow> OutputRecoveryState" where
  "OutputRecovery t r = (if runMatchesLocked t r then rc_Output (run_Recovery (rt_run r)) else rc_Output no_recovery)"

definition ResetOutputRecovery :: "RunToken \<Rightarrow> int \<Rightarrow> AgentRuntime \<Rightarrow> AgentRuntime" where
  "ResetOutputRecovery t limit r =
     (if runActiveLocked t r then upd_recovery (\<lambda>s. s\<lparr>rc_Output := ResetAfterHistoryReplace limit (rc_Output s)\<rparr>) r else r)"

definition ResetOutputRetries :: "RunToken \<Rightarrow> AgentRuntime \<Rightarrow> AgentRuntime" where
  "ResetOutputRetries t r =
     (if runActiveLocked t r then upd_recovery (\<lambda>s. s\<lparr>rc_Output := ResetRetries (rc_Output s)\<rparr>) r else r)"

definition RunHandleOutputTruncation ::
  "RunToken \<Rightarrow> AgentState \<Rightarrow> ModelTurn \<Rightarrow> AgentRuntime \<Rightarrow> AgentRuntime \<times> AgentState \<times> OutputRecoveryResult" where
  "RunHandleOutputTruncation t s turn r =
     (if \<not> runActiveLocked t r \<or> run_Phase (rt_run r) = AgentPhaseCancelling then
        (r, s, \<lparr>orr_Action = ''fail'', orr_Event = None, orr_Reason = []\<rparr>)
      else
        (let (s', out, result) = HandleOutputTruncation turn s (rc_Output (run_Recovery (rt_run r)));
             r1 = upd_recovery (\<lambda>st. st\<lparr>rc_Output := out\<rparr>) r
         in (if ShouldContinue result then enter_recovery (upd_recovery (\<lambda>st. st\<lparr>rc_Kind := RecoveryOutput\<rparr>) r1) else r1,
             s', result)))"

definition TryRecovery :: "RunToken \<Rightarrow> RecoveryKind \<Rightarrow> int \<Rightarrow> AgentRuntime \<Rightarrow> AgentRuntime \<times> bool" where
  "TryRecovery t kind maximum r =
     (if \<not> runActiveLocked t r \<or> run_Phase (rt_run r) = AgentPhaseCancelling then (r, False)
      else
        (let rec = run_Recovery (rt_run r);
             count = (if kind = RecoveryOutput then rc_Continuations rec else rc_ContextRetries rec)
         in if count \<ge> maximum then (r, False)
            else (enter_recovery (upd_recovery (\<lambda>s. (if kind = RecoveryOutput then s\<lparr>rc_Continuations := count + 1\<rparr>
                     else s\<lparr>rc_ContextRetries := count + 1\<rparr>)\<lparr>rc_Kind := kind\<rparr>) r), True)))"

definition ResetContinuationRetries :: "RunToken \<Rightarrow> AgentRuntime \<Rightarrow> AgentRuntime" where
  "ResetContinuationRetries t r = (if runActiveLocked t r then upd_recovery (\<lambda>s. s\<lparr>rc_Continuations := 0\<rparr>) r else r)"

text \<open>\<open>None\<close> is a fresh context that is already cancelled.\<close>

definition contextForRun :: "RunToken \<Rightarrow> AgentRuntime \<Rightarrow> nat option" where
  "contextForRun t r = (if runMatchesLocked t r then run_Context (rt_run r) else None)"

definition withRun :: "RunToken \<Rightarrow> (AgentRuntime \<Rightarrow> AgentRuntime) \<Rightarrow> AgentRuntime \<Rightarrow> AgentRuntime \<times> run_error option" where
  "withRun t fn r =
     (if \<not> runActiveLocked t r then (r, Some ErrStaleState)
      else if run_Phase (rt_run r) = AgentPhaseCancelling \<or> ctx_error r (run_Context (rt_run r)) \<noteq> None then (r, Some Canceled)
      else (fn r, None))"

section \<open>Beginning and resetting\<close>

definition beginRunLocked ::
  "string \<Rightarrow> int \<Rightarrow> nat \<Rightarrow> string \<Rightarrow> int list \<Rightarrow> AgentRuntime \<Rightarrow> AgentRuntime \<times> (run_error + RunToken)" where
  "beginRunLocked uuid now c i limits r =
     (if ctx_error r (rt_sessionContext r) \<noteq> None then (r, Inl ErrStaleState)
      else if Active (run_Phase (rt_run r)) then (r, Inl ErrAgentBusy)
      else case rt_contexts r c of Some e \<Rightarrow> (r, Inl (ErrContext e))
      | None \<Rightarrow>
        (let limit = (case limits of [] \<Rightarrow> 16000 | x # _ \<Rightarrow> x);
             i' = (if i = [] then uuid else i);
             runCtx = rt_nextContext r;
             run = (idleRun (rt_generation r))\<lparr>run_ID := i', run_Phase := AgentPhasePreparing,
                     run_Activity := AgentPhasePreparing, run_Context := Some runCtx, run_Cancel := Some runCtx,
                     run_stopCancellation := True, run_StartedAt := now,
                     run_Recovery := no_recovery\<lparr>rc_Output := NewOutputRecoveryState limit\<rparr>,
                     run_Replacements := run_Replacements (rt_run r)\<rparr>
         in (r\<lparr>rt_run := run, rt_nextContext := Suc runCtx, rt_contexts := (rt_contexts r)(runCtx := None)\<rparr>,
             Inr \<lparr>tok_Generation = rt_generation r, tok_ID = i'\<rparr>)))"

definition beginRun :: "string \<Rightarrow> int \<Rightarrow> nat \<Rightarrow> string \<Rightarrow> int list \<Rightarrow> AgentRuntime \<Rightarrow> AgentRuntime \<times> (run_error + RunToken)" where
  "beginRun = beginRunLocked"

definition beginRecoveryRun :: "string \<Rightarrow> int \<Rightarrow> nat \<Rightarrow> RunToken \<Rightarrow> int \<Rightarrow> AgentRuntime \<Rightarrow> AgentRuntime \<times> (run_error + RunToken)" where
  "beginRecoveryRun uuid now c previous limit r =
     (if \<not> runMatchesLocked previous r then (r, Inl ErrStaleState)
      else if run_CancelReason (rt_run r) = cancelReasonUser then (r, Inl Canceled)
      else beginRunLocked uuid now c [] [limit] r)"

text \<open>\<open>stored\<close> is the error of the event store, which is asked unless the session has ended.\<close>

definition reset_locked :: "run_error option \<Rightarrow> AgentRuntime \<Rightarrow> AgentRuntime \<times> run_error option" where
  "reset_locked stored r =
     (if ctx_error r (rt_sessionContext r) \<noteq> None then (r, Some ErrStaleState)
      else case stored of Some e \<Rightarrow> (r, Some e)
      | None \<Rightarrow> (r\<lparr>rt_generation := rt_generation r + 1, rt_run := idleRun (rt_generation r + 1)\<rparr>, None))"

definition ResetRuntime :: "run_error option \<Rightarrow> AgentRuntime \<Rightarrow> AgentRuntime \<times> run_error option" where
  "ResetRuntime stored r = reset_locked stored (Abort r)"

definition Restore :: "int \<Rightarrow> 64 word \<Rightarrow> AgentRuntime \<Rightarrow> AgentRuntime \<times> run_error option" where
  "Restore version generation r =
     (if version \<noteq> 3 then (r, Some ErrSnapshotVersion)
      else if Active (run_Phase (rt_run r)) then (r, Some ErrAgentBusy)
      else (let g = max generation (rt_generation r + 1)
            in (r\<lparr>rt_generation := g, rt_run := idleRun g\<rparr>, None)))"

section \<open>Services bound to a run\<close>

definition service_open :: "RunToken \<Rightarrow> AgentRuntime \<Rightarrow> bool" where
  "service_open t r \<longleftrightarrow> tok_Generation t = rt_generation r \<and> tok_ID t \<noteq> [] \<and> tok_ID t = run_ID (rt_run r) \<and>
     Active (run_Phase (rt_run r)) \<and> run_Phase (rt_run r) \<noteq> AgentPhaseCancelling"

definition Replacement :: "RunToken \<Rightarrow> string \<Rightarrow> AgentRuntime \<Rightarrow> string option" where
  "Replacement t i r = (if service_open t r then map_of (run_Replacements (rt_run r)) i else None)"

definition SetReplacement :: "RunToken \<Rightarrow> string \<Rightarrow> string \<Rightarrow> AgentRuntime \<Rightarrow> AgentRuntime" where
  "SetReplacement t i v r =
     (if service_open t r then upd_run (\<lambda>run. run\<lparr>run_Replacements := mput i v (run_Replacements run)\<rparr>) r else r)"

section \<open>Invariant\<close>

definition live :: "AgentRuntime \<Rightarrow> bool" where
  "live r \<longleftrightarrow> Active (run_Phase (rt_run r)) \<and> run_Phase (rt_run r) \<noteq> AgentPhaseCancelling"

text \<open>Waiters are filed under their own identifier, each has a channel of its own, and the channel of a
  waiter that is still pending is empty.\<close>

definition wf_waiters :: "AgentRuntime \<Rightarrow> bool" where
  "wf_waiters r \<longleftrightarrow>
     distinct (map fst (run_Pending (rt_run r))) \<and> distinct (map (w_answer \<circ> snd) (run_Pending (rt_run r))) \<and>
     (\<forall>(i, w) \<in> set (run_Pending (rt_run r)).
        pw_ID (w_wait w) = i \<and> w_answer w < rt_nextChan r \<and> rt_chans r (w_answer w) = None)"

text \<open>The phase is determined by the activity and the waiters; only a live run has waiters; an active run
  has its identity, its generation and its context.\<close>

definition wf_phase :: "AgentRuntime \<Rightarrow> bool" where
  "wf_phase r \<longleftrightarrow>
     (run_Phase (rt_run r) = AgentPhaseIdle \<or> Terminal (run_Phase (rt_run r)) \<or> Active (run_Phase (rt_run r))) \<and>
     (if live r then activityPhase (run_Activity (rt_run r)) \<and> run_Phase (rt_run r) =
         (if run_Pending (rt_run r) \<noteq> [] then AgentPhaseWaitingPermission else run_Activity (rt_run r))
      else run_Pending (rt_run r) = []) \<and>
     (run_Phase (rt_run r) = AgentPhaseIdle \<longrightarrow> run_ID (rt_run r) = []) \<and>
     (Active (run_Phase (rt_run r)) \<longrightarrow> run_ID (rt_run r) \<noteq> [] \<and> run_Generation (rt_run r) = rt_generation r \<and>
        run_Context (rt_run r) \<noteq> None \<and> run_Cancel (rt_run r) = run_Context (rt_run r))"

definition wf_run :: "AgentRuntime \<Rightarrow> bool" where
  "wf_run r \<longleftrightarrow> wf_waiters r \<and> wf_phase r"

lemma upd_run_sel [simp]:
  "rt_run (upd_run f r) = f (rt_run r)" "rt_generation (upd_run f r) = rt_generation r"
  "rt_sessionContext (upd_run f r) = rt_sessionContext r" "rt_contexts (upd_run f r) = rt_contexts r"
  "rt_nextContext (upd_run f r) = rt_nextContext r" "rt_chans (upd_run f r) = rt_chans r"
  "rt_nextChan (upd_run f r) = rt_nextChan r"
  by (simp_all add: upd_run_def)

lemma cancel_context_sel [simp]:
  "rt_run (cancel_context c r) = rt_run r" "rt_generation (cancel_context c r) = rt_generation r"
  "rt_chans (cancel_context c r) = rt_chans r" "rt_nextChan (cancel_context c r) = rt_nextChan r"
  by (auto simp: cancel_context_def split: option.splits)

lemma phase_facts [simp]:
  "Active AgentPhasePreparing" "Active AgentPhaseWaitingPermission" "Active AgentPhaseCancelling"
  "Active AgentPhaseRecovering" "\<not> Active AgentPhaseIdle" "\<not> Active AgentPhaseCompleted" "\<not> Active AgentPhaseFailed"
  "\<not> Active AgentPhaseCancelled" "\<not> Terminal AgentPhaseIdle" "\<not> Terminal AgentPhaseWaitingPermission"
  "\<not> Terminal AgentPhaseCancelling" "activityPhase AgentPhasePreparing" "activityPhase AgentPhaseRecovering"
  by (simp_all add: Active_def Terminal_def activityPhase_def)

lemma activity_active: "activityPhase p \<Longrightarrow> Active p \<and> p \<noteq> AgentPhaseCancelling \<and> p \<noteq> AgentPhaseWaitingPermission \<and> \<not> Terminal p"
  by (auto simp: activityPhase_def Active_def Terminal_def)

lemma active_not_terminal: "Active p \<Longrightarrow> \<not> Terminal p \<and> p \<noteq> AgentPhaseIdle"
  by (auto simp: Active_def Terminal_def)

lemma wf_waiters_upd [simp]:
  "run_Pending (f (rt_run r)) = run_Pending (rt_run r) \<Longrightarrow> wf_waiters (upd_run f r) = wf_waiters r"
  by (simp add: wf_waiters_def)

lemma wf_frame:
  assumes "wf_run r" "run_Pending (rt_run r') = run_Pending (rt_run r)" "rt_chans r' = rt_chans r"
    "rt_nextChan r' = rt_nextChan r" "run_Phase (rt_run r') = run_Phase (rt_run r)"
    "run_Activity (rt_run r') = run_Activity (rt_run r)" "run_ID (rt_run r') = run_ID (rt_run r)"
    "run_Generation (rt_run r') = run_Generation (rt_run r)" "rt_generation r' = rt_generation r"
    "run_Context (rt_run r') = run_Context (rt_run r)" "run_Cancel (rt_run r') = run_Cancel (rt_run r)"
  shows "wf_run r'"
  using assms(1) unfolding wf_run_def wf_waiters_def wf_phase_def live_def assms(2-11) by assumption

text \<open>Recomputing the phase restores the invariant of a live run.\<close>

lemma refresh_wf:
  assumes "wf_waiters r" "live r" "activityPhase (run_Activity (rt_run r))"
    "run_ID (rt_run r) \<noteq> []" "run_Generation (rt_run r) = rt_generation r" "run_Context (rt_run r) \<noteq> None"
    "run_Cancel (rt_run r) = run_Context (rt_run r)"
  shows "wf_run (refreshRunPhaseLocked r)"
proof -
  have "refreshRunPhaseLocked r = upd_run (\<lambda>run. run\<lparr>run_Phase :=
      (if run_Pending run \<noteq> [] then AgentPhaseWaitingPermission else run_Activity run)\<rparr>) r"
    using assms(2) active_not_terminal by (auto simp: refreshRunPhaseLocked_def live_def)
  with assms activity_active [OF assms(3)] show ?thesis
    by (auto simp: wf_run_def wf_phase_def live_def wf_waiters_def)
qed

lemma live_wf:
  assumes "wf_run r" "live r"
  shows "wf_waiters r" "activityPhase (run_Activity (rt_run r))" "run_ID (rt_run r) \<noteq> []"
    "run_Generation (rt_run r) = rt_generation r" "run_Context (rt_run r) \<noteq> None"
    "run_Cancel (rt_run r) = run_Context (rt_run r)"
  using assms by (auto simp: wf_run_def wf_phase_def live_def)

lemma enter_recovery_wf:
  assumes "wf_run r" "live r"
  shows "wf_run (enter_recovery r)"
  unfolding enter_recovery_def
  by (rule refresh_wf) (use assms live_wf [OF assms] in \<open>auto simp: live_def\<close>)

lemma upd_recovery_wf: "wf_run r \<Longrightarrow> wf_run (upd_recovery f r)"
  by (erule wf_frame) (simp_all add: upd_recovery_def)

lemma upd_recovery_live: "live (upd_recovery f r) = live r"
  by (simp add: live_def upd_recovery_def)

lemma Transition_wf:
  assumes "wf_run r"
  shows "wf_run (fst (Transition t to r))"
proof (cases "live r \<and> activityPhase to")
  case True
  then have "live r" by simp
  note facts = live_wf [OF assms this]
  have "wf_run (refreshRunPhaseLocked (upd_run (\<lambda>run. run\<lparr>run_Activity := to\<rparr>) r))"
    by (rule refresh_wf) (use True facts in \<open>auto simp: live_def\<close>)
  with assms show ?thesis by (simp add: Transition_def)
qed (use assms in \<open>auto simp: Transition_def live_def runActiveLocked_def\<close>)

lemma cancelWaiters_sel:
  "run_Pending (rt_run (cancelWaitersLocked r)) = []" "run_Phase (rt_run (cancelWaitersLocked r)) = run_Phase (rt_run r)"
  "run_Activity (rt_run (cancelWaitersLocked r)) = run_Activity (rt_run r)"
  "run_ID (rt_run (cancelWaitersLocked r)) = run_ID (rt_run r)"
  "run_Generation (rt_run (cancelWaitersLocked r)) = run_Generation (rt_run r)"
  "run_Context (rt_run (cancelWaitersLocked r)) = run_Context (rt_run r)"
  "run_Cancel (rt_run (cancelWaitersLocked r)) = run_Cancel (rt_run r)"
  "run_CancelReason (rt_run (cancelWaitersLocked r)) = run_CancelReason (rt_run r)"
  "rt_generation (cancelWaitersLocked r) = rt_generation r" "rt_contexts (cancelWaitersLocked r) = rt_contexts r"
  by (simp_all add: cancelWaitersLocked_def)

lemma no_waiters_wf: "run_Pending (rt_run r) = [] \<Longrightarrow> wf_waiters r"
  by (simp add: wf_waiters_def)

lemma cancelRun_wf: "wf_run r \<Longrightarrow> wf_run (cancelRun t reason r)"
proof -
  assume wf: "wf_run r"
  define r1 where "r1 = (if runMatchesLocked t r \<and>
      (run_Phase (rt_run r) = AgentPhaseCancelled \<or> run_Phase (rt_run r) = AgentPhaseCancelling) \<and> reason = cancelReasonUser
      then upd_run (\<lambda>run. run\<lparr>run_CancelReason := reason\<rparr>) r else r)"
  have wf1: "wf_run r1" by (rule wf_frame [OF wf]) (simp_all add: r1_def)
  show ?thesis
  proof (cases "\<not> runActiveLocked t r1 \<or> run_Phase (rt_run r1) = AgentPhaseCancelling")
    case True
    then show ?thesis using wf1 by (simp add: cancelRun_def cancelRunLocked_def Let_def r1_def [symmetric] cancel_context_def)
  next
    case False
    with wf1 have "run_ID (rt_run r1) \<noteq> []" "run_Generation (rt_run r1) = rt_generation r1"
      "run_Context (rt_run r1) \<noteq> None" "run_Cancel (rt_run r1) = run_Context (rt_run r1)"
      by (auto simp: wf_run_def wf_phase_def runActiveLocked_def)
    with False show ?thesis
      by (simp add: cancelRun_def cancelRunLocked_def Let_def r1_def [symmetric] wf_run_def wf_phase_def no_waiters_wf
          cancelWaiters_sel live_def)
  qed
qed

lemma EndRun_wf: "wf_run r \<Longrightarrow> wf_run (fst (EndRun t now r))"
proof (cases "runActiveLocked t r")
  case True
  have "Terminal (end_phase r)" by (simp add: end_phase_def Terminal_def)
  moreover from this have "\<not> Active (end_phase r)" "end_phase r \<noteq> AgentPhaseIdle" using active_not_terminal by auto
  ultimately show ?thesis
    using True by (simp add: EndRun_def Let_def wf_run_def wf_phase_def live_def no_waiters_wf cancelWaiters_sel)
qed (simp add: EndRun_def)

lemma mput_fresh: "k \<notin> fst ` set m \<Longrightarrow> mput k v m = m @ [(k, v)]"
  by (induction m) auto

lemma wf_waiters_new:
  assumes "wf_waiters r" "uuid \<notin> fst ` set (run_Pending (rt_run r))" "pw_ID (w_wait w) = uuid" "w_answer w = rt_nextChan r"
  shows "wf_waiters (upd_run (\<lambda>run. run\<lparr>run_Pending := mput uuid w (run_Pending run)\<rparr>)
    (r\<lparr>rt_nextChan := Suc (rt_nextChan r), rt_chans := (rt_chans r)(rt_nextChan r := None)\<rparr>))"
proof -
  have "w_answer (snd p) \<noteq> rt_nextChan r" if "p \<in> set (run_Pending (rt_run r))" for p
    using assms(1) that by (auto simp: wf_waiters_def)
  with assms show ?thesis by (auto simp: wf_waiters_def mput_fresh image_iff)
qed

lemma BeginPermission_wf:
  assumes "wf_run r" "uuid \<notin> fst ` set (run_Pending (rt_run r))"
  shows "wf_run (fst (BeginPermission uuid c t kind tool ev queued r))"
proof (cases "runActiveLocked t r \<and> rt_contexts r c = None \<and> live r \<and> kind \<in> {PermissionTool, PermissionSkill, PermissionMCP}")
  case True
  define w where "w = \<lparr>w_wait = \<lparr>pw_ID = uuid, pw_Kind = kind, pw_ToolName = tool\<rparr>, w_ctx = c,
    w_event = ticket_event t uuid ev, w_answer = rt_nextChan r\<rparr>"
  define r1 where "r1 = upd_run (\<lambda>run. run\<lparr>run_Pending := mput uuid w (run_Pending run)\<rparr>)
    (r\<lparr>rt_nextChan := Suc (rt_nextChan r), rt_chans := (rt_chans r)(rt_nextChan r := None)\<rparr>)"
  have "live r" using True by simp
  note facts = live_wf [OF assms(1) this]
  have "wf_waiters r1" unfolding r1_def by (rule wf_waiters_new) (use facts assms(2) in \<open>simp_all add: w_def\<close>)
  then have wf: "wf_run (refreshRunPhaseLocked r1)"
    by (rule refresh_wf) (use True facts in \<open>auto simp: r1_def live_def\<close>)
  have "wf_run (upd_run (\<lambda>run. run\<lparr>run_PermissionEvents := f run\<rparr>) (refreshRunPhaseLocked r1))" for f
    by (rule wf_frame [OF wf]) simp_all
  with wf True show ?thesis
    by (auto simp: BeginPermission_def Let_def live_def r1_def w_def)
qed (use assms in \<open>auto simp: BeginPermission_def live_def runActiveLocked_def split: option.splits\<close>)

lemma wf_waiters_filter:
  assumes "wf_waiters r" "run_Pending (f (rt_run r)) = filter P (run_Pending (rt_run r))"
    "\<And>p. p \<in> set (run_Pending (rt_run r)) \<Longrightarrow> P p \<Longrightarrow> chans (w_answer (snd p)) = None"
  shows "wf_waiters (upd_run f (r\<lparr>rt_chans := chans\<rparr>))"
  using assms by (auto simp: wf_waiters_def distinct_map_filter)

lemma mdel_filter: "mdel k m = filter (\<lambda>p. fst p \<noteq> k) m"
  by (simp add: AList.delete_eq case_prod_unfold eq_commute)

lemma cancelPermission_wf:
  assumes "wf_run r"
  shows "wf_run (cancelPermission ticket r)"
proof (cases "runMatchesLocked (pt_Run ticket) r")
  case True
  define r1 where "r1 = upd_run (\<lambda>run. run\<lparr>run_Pending := mdel (pw_ID (pt_wait ticket)) (run_Pending run),
    run_PermissionEvents := filter (\<lambda>ev. PermissionRequestID ev \<noteq> pw_ID (pt_wait ticket)) (run_PermissionEvents run)\<rparr>) r"
  have eq: "cancelPermission ticket r = refreshRunPhaseLocked r1" using True by (simp add: cancelPermission_def r1_def)
  have "wf_waiters (upd_run (\<lambda>run. run\<lparr>run_Pending := mdel (pw_ID (pt_wait ticket)) (run_Pending run),
    run_PermissionEvents := filter (\<lambda>ev. PermissionRequestID ev \<noteq> pw_ID (pt_wait ticket)) (run_PermissionEvents run)\<rparr>)
      (r\<lparr>rt_chans := rt_chans r\<rparr>))"
    by (rule wf_waiters_filter [where P = "\<lambda>p. fst p \<noteq> pw_ID (pt_wait ticket)"]) (use assms in \<open>auto simp: wf_run_def wf_waiters_def mdel_filter\<close>)
  then have wf1: "wf_waiters r1" by (simp add: r1_def)
  show ?thesis
  proof (cases "live r")
    case l: True
    show ?thesis unfolding eq
      by (rule refresh_wf [OF wf1]) (use live_wf [OF assms l] l in \<open>auto simp: r1_def live_def\<close>)
  next
    case False
    with assms True have "run_Phase (rt_run r) = AgentPhaseCancelling \<or> Terminal (run_Phase (rt_run r))"
      "run_Pending (rt_run r) = []"
      by (auto simp: wf_run_def wf_phase_def live_def runMatchesLocked_def)
    then have "cancelPermission ticket r = r1" by (auto simp: eq refreshRunPhaseLocked_def r1_def)
    moreover have "wf_run r1"
      by (rule wf_frame [OF assms]) (use \<open>run_Pending (rt_run r) = []\<close> in \<open>simp_all add: r1_def\<close>)
    ultimately show ?thesis by simp
  qed
qed (use assms in \<open>simp add: cancelPermission_def\<close>)

lemma wf_phase_store [simp]:
  "wf_phase (r\<lparr>rt_chans := c\<rparr>) = wf_phase r" "wf_phase (r\<lparr>rt_contexts := d\<rparr>) = wf_phase r"
  by (simp_all add: wf_phase_def live_def)

lemma await_receive_wf:
  assumes "wf_run r" "await_receive ticket r = Some (r', a)"
  shows "wf_run r'"
proof -
  have "r' = r\<lparr>rt_chans := (rt_chans r)(pt_answer ticket := None)\<rparr>"
    using assms(2) by (auto simp: await_receive_def split: option.splits)
  with assms(1) show ?thesis by (auto simp: wf_run_def wf_waiters_def)
qed

lemma resolve_result:
  assumes "ResolveRunPermission kind a ids r = Some (r', True)"
  obtains i w where "live r" "(i, w) \<in> set (run_Pending (rt_run r))"
    "filter (wait_matches kind a (case ids of [] \<Rightarrow> [] | x # _ \<Rightarrow> x)) (run_Pending (rt_run r)) = [(i, w)]"
    "r' = refreshRunPhaseLocked (upd_run (\<lambda>run. run\<lparr>run_Pending := mdel (pw_ID (w_wait w)) (run_Pending run)\<rparr>)
            (r\<lparr>rt_chans := (rt_chans r)(w_answer w \<mapsto>
               (if pa_Decision a = [] then a\<lparr>pa_Decision := PermissionDeny\<rparr> else a))\<rparr>))"
proof -
  let ?f = "filter (wait_matches kind a (case ids of [] \<Rightarrow> [] | x # _ \<Rightarrow> x)) (run_Pending (rt_run r))"
  have l: "live r" using assms by (auto simp: ResolveRunPermission_def live_def split: if_splits)
  obtain i w where f: "?f = [(i, w)]"
    using assms by (auto simp: ResolveRunPermission_def Let_def split: if_splits list.splits)
  then have "(i, w) \<in> set ?f" by simp
  then have "(i, w) \<in> set (run_Pending (rt_run r))" by simp
  moreover have "r' = refreshRunPhaseLocked (upd_run (\<lambda>run. run\<lparr>run_Pending := mdel (pw_ID (w_wait w)) (run_Pending run)\<rparr>)
            (r\<lparr>rt_chans := (rt_chans r)(w_answer w \<mapsto>
               (if pa_Decision a = [] then a\<lparr>pa_Decision := PermissionDeny\<rparr> else a))\<rparr>))"
    using assms f by (auto simp: ResolveRunPermission_def Let_def split: if_splits)
  ultimately show thesis using that l f by blast
qed

lemma ResolveRunPermission_wf:
  assumes "wf_run r" "ResolveRunPermission kind a ids r = Some (r', ok)"
  shows "wf_run r'"
proof (cases ok)
  case False
  with assms have "r' = r"
    by (auto simp: ResolveRunPermission_def Let_def split: if_splits list.splits)
  with assms(1) show ?thesis by simp
next
  case True
  with assms(2) have "ResolveRunPermission kind a ids r = Some (r', True)" by simp
  then obtain i w where res: "live r" "(i, w) \<in> set (run_Pending (rt_run r))"
    "r' = refreshRunPhaseLocked (upd_run (\<lambda>run. run\<lparr>run_Pending := mdel (pw_ID (w_wait w)) (run_Pending run)\<rparr>)
            (r\<lparr>rt_chans := (rt_chans r)(w_answer w \<mapsto>
               (if pa_Decision a = [] then a\<lparr>pa_Decision := PermissionDeny\<rparr> else a))\<rparr>))"
    by (rule resolve_result)
  note facts = live_wf [OF assms(1) res(1)]
  have i: "pw_ID (w_wait w) = i" using facts(1) res(2) by (auto simp: wf_waiters_def)
  have other: "w_answer (snd p) \<noteq> w_answer w" if "p \<in> set (run_Pending (rt_run r))" "fst p \<noteq> i" for p
    using facts(1) that res(2) by (force simp: wf_waiters_def distinct_map inj_on_def)
  show ?thesis unfolding res(3)
  proof (rule refresh_wf)
    show "wf_waiters (upd_run (\<lambda>run. run\<lparr>run_Pending := mdel (pw_ID (w_wait w)) (run_Pending run)\<rparr>)
            (r\<lparr>rt_chans := (rt_chans r)(w_answer w \<mapsto>
               (if pa_Decision a = [] then a\<lparr>pa_Decision := PermissionDeny\<rparr> else a))\<rparr>))"
      by (rule wf_waiters_filter [OF facts(1), where P = "\<lambda>p. fst p \<noteq> pw_ID (w_wait w)"]) (use facts(1) other i in \<open>auto simp: mdel_filter wf_waiters_def\<close>)
  qed (use facts res(1) in \<open>auto simp: live_def\<close>)
qed

lemma beginRunLocked_wf: "wf_run r \<Longrightarrow> uuid \<noteq> [] \<Longrightarrow> wf_run (fst (beginRunLocked uuid now c i limits r))"
  by (auto simp: beginRunLocked_def Let_def idleRun_def wf_run_def wf_phase_def wf_waiters_def live_def split: option.splits)

lemma idle_wf: "wf_run (r\<lparr>rt_generation := g, rt_run := idleRun g\<rparr>)"
  by (simp add: wf_run_def wf_phase_def wf_waiters_def live_def idleRun_def)

section \<open>Steps\<close>

text \<open>Anything the runtime's clients and the outside world may do, in any order and with any tokens.\<close>

inductive run_step :: "AgentRuntime \<Rightarrow> AgentRuntime \<Rightarrow> bool" where
  transition: "run_step r (fst (Transition t to r))"
| cancelled: "run_step r (cancelRun t reason r)"
| failed: "run_step r (FailRun t message r)"
| observed: "run_step r (ObserveRunEvent t ev r)"
| ended: "run_step r (fst (EndRun t now r))"
| asked: "uuid \<notin> fst ` set (run_Pending (rt_run r)) \<Longrightarrow> run_step r (fst (BeginPermission uuid c t kind tool ev queued r))"
| withdrawn: "run_step r (cancelPermission ticket r)"
| received: "await_receive ticket r = Some (r', a) \<Longrightarrow> run_step r r'"
| resolved: "ResolveRunPermission kind a ids r = Some (r', ok) \<Longrightarrow> run_step r r'"
| drained: "run_step r (fst (DrainPermissionEvents t r))"
| recovering: "run_step r (fst (StartRecovery t rkind message r))"
| api_errors: "run_step r (SetAPIErrors t n r)"
| output_reset: "run_step r (ResetOutputRecovery t limit r)"
| retries_reset: "run_step r (ResetOutputRetries t r)"
| truncated: "run_step r (fst (RunHandleOutputTruncation t s turn r))"
| tried: "run_step r (fst (TryRecovery t rkind maximum r))"
| continuations_reset: "run_step r (ResetContinuationRetries t r)"
| begun: "uuid \<noteq> [] \<Longrightarrow> run_step r (fst (beginRunLocked uuid now c i limits r))"
| begun_again: "uuid \<noteq> [] \<Longrightarrow> run_step r (fst (beginRecoveryRun uuid now c t limit r))"
| was_reset: "run_step r (fst (reset_locked stored r))"
| restored: "run_step r (fst (Restore version g r))"
| replaced: "run_step r (SetReplacement t i v r)"
| context_done: "rt_contexts r c = None \<Longrightarrow> run_step r (r\<lparr>rt_contexts := (rt_contexts r)(c \<mapsto> e)\<rparr>)"

inductive run_reachable :: "AgentRuntime \<Rightarrow> bool" where
  fresh_runtime: "run_reachable (NewAgentRuntime g)"
| later_runtime: "run_reachable r \<Longrightarrow> run_step r r' \<Longrightarrow> run_reachable r'"

inductive_cases run_stepE: "run_step r r'"

lemma upd_only_wf:
  assumes "wf_run r" "run_Pending (f (rt_run r)) = run_Pending (rt_run r)" "run_Phase (f (rt_run r)) = run_Phase (rt_run r)"
    "run_Activity (f (rt_run r)) = run_Activity (rt_run r)" "run_ID (f (rt_run r)) = run_ID (rt_run r)"
    "run_Generation (f (rt_run r)) = run_Generation (rt_run r)" "run_Context (f (rt_run r)) = run_Context (rt_run r)"
    "run_Cancel (f (rt_run r)) = run_Cancel (rt_run r)"
  shows "wf_run (upd_run f r)"
  by (rule wf_frame [OF assms(1)]) (simp_all add: assms)

lemma active_live: "runActiveLocked t r \<Longrightarrow> run_Phase (rt_run r) \<noteq> AgentPhaseCancelling \<Longrightarrow> live r"
  by (simp add: live_def runActiveLocked_def)

lemma recovery_ops_wf:
  assumes "wf_run r"
  shows "wf_run (fst (StartRecovery t k m r))" "wf_run (SetAPIErrors t n r)" "wf_run (ResetOutputRecovery t l r)"
    "wf_run (ResetOutputRetries t r)" "wf_run (fst (TryRecovery t k mx r))" "wf_run (ResetContinuationRetries t r)"
    "wf_run (fst (RunHandleOutputTruncation t s turn r))"
  using assms
  by (auto simp: StartRecovery_def SetAPIErrors_def ResetOutputRecovery_def ResetOutputRetries_def TryRecovery_def
      ResetContinuationRetries_def RunHandleOutputTruncation_def Let_def upd_recovery_wf upd_recovery_live active_live
      intro!: enter_recovery_wf split: prod.splits)

lemma FailRun_wf: "wf_run r \<Longrightarrow> wf_run (FailRun t m r)"
  by (auto simp: FailRun_def intro: upd_only_wf)

lemma run_step_wf: "run_step r r' \<Longrightarrow> wf_run r \<Longrightarrow> wf_run r'"
proof (induction rule: run_step.induct)
  case (observed r t ev)
  then show ?case by (simp add: ObserveRunEvent_def FailRun_wf)
next
  case (drained r t)
  then show ?case by (auto simp: DrainPermissionEvents_def intro: upd_only_wf)
next
  case (begun_again uuid r now c t limit)
  then show ?case by (simp add: beginRecoveryRun_def beginRunLocked_wf)
next
  case (was_reset r stored)
  then show ?case by (auto simp: reset_locked_def idle_wf split: option.splits)
next
  case (restored r version g)
  then show ?case by (simp add: Restore_def Let_def idle_wf)
next
  case (replaced r t i v)
  then show ?case by (auto simp: SetReplacement_def intro: upd_only_wf)
next
  case (context_done r c e)
  then show ?case by (simp add: wf_run_def wf_waiters_def)
qed (rule Transition_wf cancelRun_wf FailRun_wf EndRun_wf BeginPermission_wf cancelPermission_wf
    await_receive_wf ResolveRunPermission_wf recovery_ops_wf beginRunLocked_wf; assumption)+

lemma reachable_wf_run: "run_reachable r \<Longrightarrow> wf_run r"
proof (induction rule: run_reachable.induct)
  case (fresh_runtime g)
  then show ?case by (simp add: NewAgentRuntime_def wf_run_def wf_phase_def wf_waiters_def live_def idleRun_def)
qed (rule run_step_wf)

section \<open>Allowed phase changes\<close>

text \<open>The changes the table allows, the end of a run whose context was cancelled from outside, and the
  return to idle by a reset or a restored snapshot.\<close>

definition allowed_change :: "AgentRuntime \<Rightarrow> AgentRuntime \<Rightarrow> bool" where
  "allowed_change r r' \<longleftrightarrow>
     (let p = run_Phase (rt_run r); p' = run_Phase (rt_run r')
      in p' = p \<or> CanTransitionAgentPhase p p' \<or> p' = AgentPhaseIdle \<or>
         (p' = AgentPhaseCancelled \<and> ctx_error r (run_Context (rt_run r)) \<noteq> None))"

lemma allowed_refl [simp]: "run_Phase (rt_run r') = run_Phase (rt_run r) \<Longrightarrow> allowed_change r r'"
  by (simp add: allowed_change_def)

lemma between_activities: "\<lbrakk>activityPhase p; activityPhase q\<rbrakk> \<Longrightarrow> CanTransitionAgentPhase p q"
  by (auto simp: CanTransitionAgentPhase_def dest: activity_active)

lemma overlay_moves:
  "activityPhase p \<Longrightarrow> CanTransitionAgentPhase p AgentPhaseWaitingPermission"
  "activityPhase p \<Longrightarrow> CanTransitionAgentPhase AgentPhaseWaitingPermission p"
  by (auto simp: CanTransitionAgentPhase_def activityPhase_def Active_def)

text \<open>Whatever a live run's activity and waiters become, recomputing its phase is an allowed change.\<close>

lemma refresh_allowed:
  assumes "wf_run r" "live r" "run_Phase (rt_run r1) = run_Phase (rt_run r)" "activityPhase (run_Activity (rt_run r1))"
  shows "allowed_change r (refreshRunPhaseLocked r1)"
proof -
  have "run_Phase (rt_run (refreshRunPhaseLocked r1)) =
      (if run_Pending (rt_run r1) \<noteq> [] then AgentPhaseWaitingPermission else run_Activity (rt_run r1))"
    using assms(2,3) active_not_terminal by (auto simp: refreshRunPhaseLocked_def live_def)
  moreover have "run_Phase (rt_run r) = AgentPhaseWaitingPermission \<or> activityPhase (run_Phase (rt_run r))"
    using assms(1,2) by (auto simp: wf_run_def wf_phase_def split: if_splits)
  ultimately show ?thesis
    using assms(4) by (auto simp: allowed_change_def Let_def between_activities overlay_moves)
qed

lemma enter_recovery_allowed:
  assumes "wf_run r" "live r" "run_Phase (rt_run r1) = run_Phase (rt_run r)"
  shows "allowed_change r (enter_recovery r1)"
  unfolding enter_recovery_def by (rule refresh_allowed [OF assms(1,2)]) (simp_all add: assms(3))

lemma upd_recovery_phase [simp]: "run_Phase (rt_run (upd_recovery f r)) = run_Phase (rt_run r)"
  by (simp add: upd_recovery_def)

lemma recovery_ops_allowed:
  assumes "wf_run r"
  shows "allowed_change r (fst (StartRecovery t k m r))" "allowed_change r (SetAPIErrors t n r)"
    "allowed_change r (ResetOutputRecovery t l r)" "allowed_change r (ResetOutputRetries t r)"
    "allowed_change r (fst (TryRecovery t k mx r))" "allowed_change r (ResetContinuationRetries t r)"
    "allowed_change r (fst (RunHandleOutputTruncation t s turn r))"
  using assms
  by (auto simp: StartRecovery_def SetAPIErrors_def ResetOutputRecovery_def ResetOutputRetries_def TryRecovery_def
      ResetContinuationRetries_def RunHandleOutputTruncation_def Let_def active_live
      intro!: enter_recovery_allowed split: prod.splits)

lemma Transition_allowed:
  assumes "wf_run r"
  shows "allowed_change r (fst (Transition t to r))"
proof (cases "runActiveLocked t r \<and> run_Phase (rt_run r) \<noteq> AgentPhaseCancelling \<and> activityPhase to")
  case True
  then have "allowed_change r (refreshRunPhaseLocked (upd_run (\<lambda>run. run\<lparr>run_Activity := to\<rparr>) r))"
    by (intro refresh_allowed [OF assms]) (auto intro: active_live)
  then show ?thesis by (simp add: Transition_def)
qed (auto simp: Transition_def)

lemma cancelRun_phase:
  "run_Phase (rt_run (cancelRun t reason r)) = run_Phase (rt_run r) \<or>
   (live r \<and> run_Phase (rt_run (cancelRun t reason r)) = AgentPhaseCancelling)"
  by (auto simp: cancelRun_def cancelRunLocked_def Let_def cancelWaiters_sel runActiveLocked_def runMatchesLocked_def live_def)

lemma cancelRun_allowed: "allowed_change r (cancelRun t reason r)"
  using cancelRun_phase [of t reason r] by (auto simp: allowed_change_def Let_def CanTransitionAgentPhase_def live_def)

lemma EndRun_allowed:
  assumes "wf_run r"
  shows "allowed_change r (fst (EndRun t now r))"
proof (cases "runActiveLocked t r")
  case True
  then have a: "Active (run_Phase (rt_run r))" by (simp add: runActiveLocked_def)
  have "run_Pending (rt_run r) = [] \<Longrightarrow> run_Phase (rt_run r) \<noteq> AgentPhaseWaitingPermission"
    using assms a by (auto simp: wf_run_def wf_phase_def live_def activityPhase_def split: if_splits)
  with a have "end_phase r = run_Phase (rt_run r) \<or> CanTransitionAgentPhase (run_Phase (rt_run r)) (end_phase r) \<or>
      (end_phase r = AgentPhaseCancelled \<and> ctx_error r (run_Context (rt_run r)) \<noteq> None)"
    by (auto simp: end_phase_def CanTransitionAgentPhase_def)
  with True show ?thesis by (auto simp: allowed_change_def Let_def EndRun_def cancelWaiters_sel)
qed (simp add: EndRun_def)

lemma BeginPermission_allowed:
  assumes "wf_run r"
  shows "allowed_change r (fst (BeginPermission uuid c t kind tool ev queued r))"
proof (cases "runActiveLocked t r \<and> rt_contexts r c = None \<and> live r \<and> kind \<in> {PermissionTool, PermissionSkill, PermissionMCP}")
  case True
  let ?w = "\<lparr>w_wait = \<lparr>pw_ID = uuid, pw_Kind = kind, pw_ToolName = tool\<rparr>, w_ctx = c,
    w_event = ticket_event t uuid ev, w_answer = rt_nextChan r\<rparr>"
  let ?r1 = "upd_run (\<lambda>run. run\<lparr>run_Pending := mput uuid ?w (run_Pending run)\<rparr>)
    (r\<lparr>rt_nextChan := Suc (rt_nextChan r), rt_chans := (rt_chans r)(rt_nextChan r := None)\<rparr>)"
  have l: "live r" using True by simp
  have "allowed_change r (refreshRunPhaseLocked ?r1)"
    by (rule refresh_allowed [OF assms l]) (use live_wf [OF assms l] in simp_all)
  moreover have "run_Phase (rt_run (fst (BeginPermission uuid c t kind tool ev queued r))) =
      run_Phase (rt_run (refreshRunPhaseLocked ?r1))"
    using True by (auto simp: BeginPermission_def Let_def live_def)
  ultimately show ?thesis by (simp add: allowed_change_def Let_def)
qed (auto simp: BeginPermission_def live_def runActiveLocked_def split: option.splits)

lemma cancelPermission_allowed:
  assumes "wf_run r"
  shows "allowed_change r (cancelPermission ticket r)"
proof (cases "live r")
  case True
  then show ?thesis
    using assms live_wf [OF assms True] by (auto simp: cancelPermission_def intro!: refresh_allowed)
next
  case False
  with assms have "\<not> runMatchesLocked (pt_Run ticket) r \<or> run_Phase (rt_run r) = AgentPhaseCancelling \<or> Terminal (run_Phase (rt_run r))"
    by (auto simp: wf_run_def wf_phase_def live_def runMatchesLocked_def)
  then show ?thesis by (auto simp: cancelPermission_def refreshRunPhaseLocked_def)
qed

lemma resolve_allowed:
  assumes "wf_run r" "ResolveRunPermission kind a ids r = Some (r', ok)"
  shows "allowed_change r r'"
proof (cases ok)
  case False
  with assms(2) have "r' = r" by (auto simp: ResolveRunPermission_def Let_def split: if_splits list.splits)
  then show ?thesis by simp
next
  case True
  with assms(2) have "ResolveRunPermission kind a ids r = Some (r', True)" by simp
  then obtain f chans where "live r" "r' = refreshRunPhaseLocked (upd_run (\<lambda>run. run\<lparr>run_Pending := f run\<rparr>) (r\<lparr>rt_chans := chans\<rparr>))"
    by (rule resolve_result)
  with live_wf [OF assms(1)] show ?thesis by (auto intro!: refresh_allowed [OF assms(1)])
qed

lemma begin_allowed:
  assumes "wf_run r"
  shows "allowed_change r (fst (beginRunLocked uuid now c i limits r))"
  using assms
  by (auto simp: beginRunLocked_def Let_def allowed_change_def CanTransitionAgentPhase_def wf_run_def wf_phase_def idleRun_def
      split: option.splits)

lemma run_step_allowed: "run_step r r' \<Longrightarrow> wf_run r \<Longrightarrow> allowed_change r r'"
proof (induction rule: run_step.induct)
  case (failed r t message)
  then show ?case by (simp add: FailRun_def)
next
  case (observed r t ev)
  then show ?case by (simp add: ObserveRunEvent_def FailRun_def)
next
  case (received ticket r r' a)
  then show ?case by (auto simp: await_receive_def split: option.splits)
next
  case (drained r t)
  then show ?case by (simp add: DrainPermissionEvents_def)
next
  case (begun_again uuid r now c t limit)
  then show ?case by (simp add: beginRecoveryRun_def begin_allowed)
next
  case (was_reset r stored)
  then show ?case by (auto simp: reset_locked_def allowed_change_def idleRun_def split: option.splits)
next
  case (restored r version g)
  then show ?case by (simp add: Restore_def Let_def allowed_change_def idleRun_def)
next
  case (replaced r t i v)
  then show ?case by (simp add: SetReplacement_def)
next
  case (context_done r c e)
  then show ?case by simp
qed (rule Transition_allowed cancelRun_allowed EndRun_allowed BeginPermission_allowed cancelPermission_allowed
    resolve_allowed recovery_ops_allowed begin_allowed; assumption)+

section \<open>Properties\<close>

text \<open>C24: in every reachable state the run waits for a permission exactly when a request is pending, a
  live run without requests is in the phase of its activity, and answering a request never blocks:
  the channel of a pending request is empty, so the send under the lock goes through.\<close>

theorem reachable_run_waits_iff_pending:
  assumes "run_reachable r"
  shows "(run_Phase (rt_run r) = AgentPhaseWaitingPermission \<longleftrightarrow> run_Pending (rt_run r) \<noteq> []) \<and>
    (live r \<and> run_Pending (rt_run r) = [] \<longrightarrow> run_Phase (rt_run r) = run_Activity (rt_run r)) \<and>
    ResolveRunPermission kind a ids r \<noteq> None"
proof -
  have wf: "wf_run r" using assms by (rule reachable_wf_run)
  have "ResolveRunPermission kind a ids r \<noteq> None"
  proof
    assume "ResolveRunPermission kind a ids r = None"
    then obtain i w where f: "filter (wait_matches kind a (case ids of [] \<Rightarrow> [] | x # _ \<Rightarrow> x)) (run_Pending (rt_run r)) = [(i, w)]"
      and full: "rt_chans r (w_answer w) \<noteq> None"
      by (auto simp: ResolveRunPermission_def Let_def split: if_splits list.splits)
    then have "(i, w) \<in> set (filter (wait_matches kind a (case ids of [] \<Rightarrow> [] | x # _ \<Rightarrow> x)) (run_Pending (rt_run r)))"
      by simp
    then have "(i, w) \<in> set (run_Pending (rt_run r))" by simp
    with wf full show False by (auto simp: wf_run_def wf_waiters_def)
  qed
  with wf show ?thesis by (auto simp: wf_run_def wf_phase_def live_def activityPhase_def split: if_splits)
qed

definition sample_token :: RunToken where
  "sample_token = \<lparr>tok_Generation = 1, tok_ID = ''run-1''\<rparr>"

definition sample_run :: AgentRuntime where
  "sample_run = fst (beginRunLocked ''u'' 0 7 ''run-1'' [] (NewAgentRuntime 1))"

definition sample_waiting :: AgentRuntime where
  "sample_waiting = fst (BeginPermission ''p1'' 7 sample_token PermissionTool ''run_shell'' (NewStreamEvent ''permission_needed'' [] []) True sample_run)"

lemma sample_waiting_reachable: "run_reachable sample_waiting"
proof -
  have "run_reachable sample_run"
    unfolding sample_run_def by (rule later_runtime [OF fresh_runtime begun]) simp
  moreover have "run_Pending (rt_run sample_run) = []" by (simp add: sample_run_def beginRunLocked_def NewAgentRuntime_def idleRun_def ctx_error_def Let_def)
  ultimately show ?thesis
    unfolding sample_waiting_def by (intro later_runtime [OF _ asked]) simp_all
qed

lemmas sample_simps = sample_waiting_def sample_run_def sample_token_def beginRunLocked_def NewAgentRuntime_def idleRun_def
  ctx_error_def BeginPermission_def runActiveLocked_def runMatchesLocked_def refreshRunPhaseLocked_def Let_def Terminal_def

lemma sample_waiting_state:
  "map fst (run_Pending (rt_run sample_waiting)) = [''p1'']" "run_Phase (rt_run sample_waiting) = AgentPhaseWaitingPermission"
  "runMatchesLocked sample_token sample_waiting" "rt_contexts sample_waiting = (\<lambda>_. None)"
  "run_Context (rt_run sample_waiting) = Some 0"
  by (simp_all add: sample_simps)

theorem reachable_run_waits_iff_pending_witness:
  "run_Phase (rt_run sample_waiting) = AgentPhaseWaitingPermission \<and>
   ResolveRunPermission PermissionTool deny_answer [] sample_waiting \<noteq> None"
  using reachable_run_waits_iff_pending [OF sample_waiting_reachable, of PermissionTool deny_answer "[]"]
    sample_waiting_state(1) by auto

text \<open>C31: whatever happens in whatever order, the phase only changes as the transition table allows;
  the exceptions are the return to idle and the end of a run whose context was cancelled. In
  particular a cancelling run ends as cancelled or is reset, and nothing else.\<close>

theorem phase_changes_follow_the_table:
  assumes "run_reachable r" "run_step r r'"
  shows "allowed_change r r' \<and>
    (run_Phase (rt_run r) = AgentPhaseCancelling \<longrightarrow>
       run_Phase (rt_run r') \<in> {AgentPhaseCancelling, AgentPhaseCancelled, AgentPhaseIdle})"
proof -
  have "allowed_change r r'" using run_step_allowed [OF assms(2) reachable_wf_run [OF assms(1)]] .
  then show ?thesis by (auto simp: allowed_change_def Let_def CanTransitionAgentPhase_def)
qed

theorem phase_changes_follow_the_table_witness:
  "allowed_change sample_waiting (Abort sample_waiting) \<and> run_Phase (rt_run (Abort sample_waiting)) = AgentPhaseCancelling"
proof -
  have "run_step sample_waiting (Abort sample_waiting)" unfolding Abort_def by (rule cancelled)
  moreover have "run_Phase (rt_run (Abort sample_waiting)) = AgentPhaseCancelling"
    by (simp add: Abort_def cancelRun_def cancelRunLocked_def cancelWaiters_sel sample_simps)
  ultimately show ?thesis using phase_changes_follow_the_table [OF sample_waiting_reachable] by blast
qed

text \<open>a permission is granted only to a run that is still the current one, active, not being
  cancelled and with a live context; every other end of the wait is a denial with an error.\<close>

theorem permission_granted_only_to_a_live_run:
  assumes "AwaitPermission answered c ticket r = Some (r', a, err)"
  shows "(permissionGranted a \<longrightarrow> err = None) \<and>
    (err = None \<longrightarrow> runActiveLocked (pt_Run ticket) r \<and> run_Phase (rt_run r) \<noteq> AgentPhaseCancelling \<and>
       ctx_error r (run_Context (rt_run r)) = None \<and> rt_contexts r c = None \<and> rt_chans r (pt_answer ticket) = Some a)"
proof (cases answered)
  case True
  with assms obtain b where "rt_chans r (pt_answer ticket) = Some b"
    "(a, err) = await_check c ticket b (r\<lparr>rt_chans := (rt_chans r)(pt_answer ticket := None)\<rparr>)"
    by (auto simp: AwaitPermission_def await_receive_def split: option.splits)
  then show ?thesis
    by (auto simp: await_check_def runActiveLocked_def runMatchesLocked_def ctx_error_def permissionGranted_def
        deny_answer_def PermissionDeny_def PermissionOnce_def PermissionAlways_def split: if_splits option.splits)
next
  case False
  with assms show ?thesis
    by (auto simp: AwaitPermission_def permissionGranted_def deny_answer_def PermissionDeny_def PermissionOnce_def
        PermissionAlways_def)
qed

definition sample_answer :: PermissionAnswer where
  "sample_answer = \<lparr>pa_Decision = PermissionOnce, pa_ToolName = []\<rparr>"

definition sample_ticket :: PermissionTicket where
  "sample_ticket = \<lparr>pt_Run = sample_token, pt_wait = \<lparr>pw_ID = ''p1'', pw_Kind = PermissionTool, pw_ToolName = ''run_shell''\<rparr>,
     pt_answer = 0\<rparr>"

definition sample_answered :: AgentRuntime where
  "sample_answered = fst (the (ResolveRunPermission PermissionTool sample_answer [''p1''] sample_waiting))"

lemma sample_resolved:
  "ResolveRunPermission PermissionTool sample_answer [''p1''] sample_waiting = Some (sample_answered, True)"
  by (simp add: sample_answered_def ResolveRunPermission_def wait_matches_def sample_simps)

theorem permission_granted_only_to_a_live_run_witness:
  "\<exists>r'. AwaitPermission True 7 sample_ticket sample_answered = Some (r', sample_answer, None) \<and>
     runActiveLocked sample_token sample_answered"
proof -
  have "rt_chans sample_answered 0 = Some sample_answer"
    by (simp add: sample_answered_def ResolveRunPermission_def wait_matches_def sample_answer_def PermissionOnce_def sample_simps)
  moreover have "await_check 7 sample_ticket sample_answer (sample_answered\<lparr>rt_chans := (rt_chans sample_answered)(0 := None)\<rparr>) =
      (sample_answer, None)"
    by (simp add: await_check_def sample_answered_def sample_ticket_def ResolveRunPermission_def wait_matches_def sample_simps)
  ultimately have "AwaitPermission True 7 sample_ticket sample_answered =
      Some (cancelPermission sample_ticket (sample_answered\<lparr>rt_chans := (rt_chans sample_answered)(0 := None)\<rparr>), sample_answer, None)"
    by (simp add: AwaitPermission_def await_receive_def sample_ticket_def)
  with permission_granted_only_to_a_live_run [OF this] show ?thesis by (auto simp: sample_ticket_def)
qed

text \<open>an answer reaches exactly one waiter, once: resolving a request by its identifier puts the
  answer (a denial when the decision is empty) into that waiter's channel and no other, takes the
  request off the list, and a second resolution of the same request finds nothing.\<close>

theorem answer_is_delivered_once:
  assumes "run_reachable r" "i \<noteq> []" "ResolveRunPermission kind a [i] r = Some (r', True)"
  shows "(\<exists>w. (i, w) \<in> set (run_Pending (rt_run r)) \<and>
      rt_chans r' = (rt_chans r)(w_answer w \<mapsto> (if pa_Decision a = [] then a\<lparr>pa_Decision := PermissionDeny\<rparr> else a)) \<and>
      run_Pending (rt_run r') = mdel i (run_Pending (rt_run r))) \<and>
    ResolveRunPermission kind' a' [i] r' = Some (r', False)"
proof -
  have wf: "wf_run r" using assms(1) by (rule reachable_wf_run)
  obtain j w where res: "live r" "(j, w) \<in> set (run_Pending (rt_run r))"
    "filter (wait_matches kind a i) (run_Pending (rt_run r)) = [(j, w)]"
    "r' = refreshRunPhaseLocked (upd_run (\<lambda>run. run\<lparr>run_Pending := mdel (pw_ID (w_wait w)) (run_Pending run)\<rparr>)
            (r\<lparr>rt_chans := (rt_chans r)(w_answer w \<mapsto>
               (if pa_Decision a = [] then a\<lparr>pa_Decision := PermissionDeny\<rparr> else a))\<rparr>))"
    using assms(3) by (rule resolve_result) simp
  have "(j, w) \<in> set (filter (wait_matches kind a i) (run_Pending (rt_run r)))" by (simp add: res(3))
  then have "j = i" using assms(2) by (auto simp: wait_matches_def)
  moreover from this have "pw_ID (w_wait w) = i" using wf res(2) by (auto simp: wf_run_def wf_waiters_def)
  ultimately have p: "run_Pending (rt_run r') = mdel i (run_Pending (rt_run r))"
    and ch: "rt_chans r' = (rt_chans r)(w_answer w \<mapsto> (if pa_Decision a = [] then a\<lparr>pa_Decision := PermissionDeny\<rparr> else a))"
    by (simp_all add: res(4) refreshRunPhaseLocked_def)
  have "filter (wait_matches kind' a' i) (run_Pending (rt_run r')) = []"
    using assms(2) by (auto simp: p mdel_filter wait_matches_def filter_empty_conv)
  then have "ResolveRunPermission kind' a' [i] r' = Some (r', False)"
    by (simp add: ResolveRunPermission_def Let_def)
  with p ch res(2) \<open>j = i\<close> show ?thesis by blast
qed

theorem answer_is_delivered_once_witness:
  "ResolveRunPermission PermissionTool sample_answer [''p1''] sample_waiting = Some (sample_answered, True) \<and>
   ResolveRunPermission PermissionTool sample_answer [''p1''] sample_answered = Some (sample_answered, False)"
  using answer_is_delivered_once [OF sample_waiting_reachable _ sample_resolved, of PermissionTool sample_answer] sample_resolved by simp

text \<open>a reset fences the runs before it: none of their tokens matches afterwards, not even when a
  later run reuses the same identifier, so no operation of theirs changes the new conversation.\<close>

theorem reset_fences_old_runs:
  assumes "runMatchesLocked t r" "ResetRuntime None r = (r1, None)" "beginRunLocked uuid now c i limits r1 = (r2, Inr t2)"
  shows "\<not> runMatchesLocked t r1 \<and> \<not> runMatchesLocked t r2 \<and>
    fst (Transition t to r2) = r2 \<and> fst (EndRun t now' r2) = r2 \<and> FailRun t m r2 = r2 \<and> cancelRun t reason r2 = r2 \<and>
    fst (BeginPermission u c' t kind tool ev queued r2) = r2 \<and> SetReplacement t k v r2 = r2"
proof -
  have g: "rt_generation (Abort r) = rt_generation r"
    by (auto simp: Abort_def cancelRun_def cancelRunLocked_def Let_def cancelWaiters_sel)
  with assms(2) have r1: "rt_generation r1 = rt_generation r + 1" "rt_run r1 = idleRun (rt_generation r + 1)"
    by (auto simp: ResetRuntime_def reset_locked_def split: if_splits)
  have r2: "rt_generation r2 = rt_generation r + 1" "run_Generation (rt_run r2) = rt_generation r + 1"
    using assms(3) r1 by (auto simp: beginRunLocked_def Let_def idleRun_def split: if_splits option.splits)
  have no: "\<not> runMatchesLocked t r1" "\<not> runMatchesLocked t r2"
    using assms(1) r1 r2 by (auto simp: runMatchesLocked_def)
  moreover have "\<not> service_open t r2" using assms(1) r2 by (auto simp: service_open_def runMatchesLocked_def)
  ultimately show ?thesis
    by (simp add: Transition_def EndRun_def FailRun_def cancelRun_def cancelRunLocked_def Let_def BeginPermission_def
        SetReplacement_def runActiveLocked_def cancel_context_def)
qed

theorem reset_fences_old_runs_witness:
  "runMatchesLocked sample_token sample_waiting \<and>
   \<not> runMatchesLocked sample_token (fst (beginRunLocked ''u'' 5 7 ''run-1'' [] (fst (ResetRuntime None sample_waiting))))"
proof -
  let ?r1 = "fst (ResetRuntime None sample_waiting)"
  have s: "rt_sessionContext (Abort sample_waiting) = None"
    by (simp add: Abort_def cancelRun_def cancelRunLocked_def cancelWaitersLocked_def cancel_context_def sample_simps)
  then have "ResetRuntime None sample_waiting = (?r1, None)" by (simp add: ResetRuntime_def reset_locked_def ctx_error_def)
  moreover have "rt_contexts (Abort sample_waiting) 7 = None"
    by (simp add: Abort_def cancelRun_def cancelRunLocked_def cancelWaitersLocked_def cancel_context_def sample_simps)
  then have "beginRunLocked ''u'' 5 7 ''run-1'' [] ?r1 = (fst (beginRunLocked ''u'' 5 7 ''run-1'' [] ?r1), Inr
      \<lparr>tok_Generation = rt_generation ?r1, tok_ID = ''run-1''\<rparr>)"
    using s by (simp add: ResetRuntime_def reset_locked_def beginRunLocked_def ctx_error_def idleRun_def Let_def)
  ultimately show ?thesis
    using reset_fences_old_runs [OF sample_waiting_state(3)] sample_waiting_state(3) by blast
qed

end
