(* ===== verification/Agent_Normalize.thy ===== *)
theory Agent_Normalize
  imports Agent_Messages
begin

text \<open>
  \<open>agent/normalize.go\<close>: the passes that bring a conversation into the form the model API accepts. The
  passes work on copies, so a message is a value here. \<open>FixToolPairings\<close> ranges over two Go maps; the
  iteration order is a parameter that may permute the identifiers in any way.
\<close>

section \<open>Tables\<close>

definition errorBlockPatterns :: "(string \<times> string list) list" where
  "errorBlockPatterns =
     [(''PDF too large'', [''document'']), (''image too large'', [''image'']), (''file too large'', [''file'']),
      (''unsupported_media'', [''image'', ''document''])]"

definition attachmentBlockTypes :: "string list" where
  "attachmentBlockTypes = [''image'', ''document'', ''file'']"

definition internalBlockTypes :: "string list" where
  "internalBlockTypes = [''tool_reference'', ''advisor_block'']"

definition thinkingBlockTypes :: "string list" where
  "thinkingBlockTypes = [''thinking'', ''redacted_thinking'', ''signature'']"

definition thinkingModelPrefixes :: "string list" where
  "thinkingModelPrefixes = [''deepseek'', ''claude-3-7'', ''claude-4'', ''claude-sonnet-4'', ''claude-opus-4'']"

definition block_type :: "gomap \<Rightarrow> string" where
  "block_type b = stringFromAny (fld b ''type'')"

definition isTruthy :: "json \<Rightarrow> bool" where
  "isTruthy v \<longleftrightarrow> v = JBool True"

section \<open>Passes on single messages\<close>

definition ReorderAttachments :: "gomap list \<Rightarrow> gomap list" where
  "ReorderAttachments = map (\<lambda>msg.
     case contentBlocks (fld msg ''content'') of
       None \<Rightarrow> msg
     | Some bs \<Rightarrow>
         set_content (filter (\<lambda>b. block_type b \<in> set attachmentBlockTypes) bs @
                      filter (\<lambda>b. block_type b \<notin> set attachmentBlockTypes) bs) msg)"

definition FilterVirtualMessages :: "gomap list \<Rightarrow> gomap list" where
  "FilterVirtualMessages = filter (\<lambda>msg. \<not> (isTruthy (fld msg ''virtual'') \<or> isTruthy (fld msg ''isVirtual'')))"

definition BuildErrorBlockMap :: "string list \<Rightarrow> (string \<times> string list) list" where
  "BuildErrorBlockMap errs =
     foldl (\<lambda>m err. foldl (\<lambda>m (keyword, types). if sublist keyword err then mput keyword types m else m)
              m errorBlockPatterns) [] errs"

text \<open>Both filters drop a message that loses all its blocks and keep one whose content is not a list.\<close>

definition filter_blocks :: "(gomap \<Rightarrow> gomap \<Rightarrow> bool) \<Rightarrow> gomap list \<Rightarrow> gomap list" where
  "filter_blocks keep msgs = concat (map (\<lambda>msg.
     case contentBlocks (fld msg ''content'') of
       None \<Rightarrow> [msg]
     | Some bs \<Rightarrow>
         (let kept = filter (keep msg) bs in if kept = [] then [] else [set_content kept msg])) msgs)"

definition StripInternalElementsWithErrors :: "gomap list \<Rightarrow> (string \<times> string list) list \<Rightarrow> gomap list" where
  "StripInternalElementsWithErrors msgs errorBlockMap =
     (let stripTypes = concat (map snd errorBlockMap)
      in filter_blocks (\<lambda>_ b. block_type b \<notin> set internalBlockTypes \<and> block_type b \<notin> set stripTypes) msgs)"

definition StripInternalElements :: "gomap list \<Rightarrow> gomap list" where
  "StripInternalElements msgs = StripInternalElementsWithErrors msgs []"

text \<open>\<open>strings.ToLower\<close> as far as its ASCII output is concerned: ASCII letters, the Kelvin sign and the
  dotted capital I become ASCII; every other character becomes a non-ASCII one, which no ASCII
  prefix matches, so its bytes are left as they are.\<close>

fun lower_view :: "string \<Rightarrow> string" where
  "lower_view [] = []"
| "lower_view [a] = [fold_byte a]"
| "lower_view [a, b] = (if a = CHR 0xC4 \<and> b = CHR 0xB0 then ''i'' else fold_byte a # lower_view [b])"
| "lower_view (a # b # c # rest) =
     (if a = CHR 0xC4 \<and> b = CHR 0xB0 then CHR ''i'' # lower_view (c # rest)
      else if a = CHR 0xE2 \<and> b = CHR 0x84 \<and> c = CHR 0xAA then CHR ''k'' # lower_view rest
      else fold_byte a # lower_view (b # c # rest))"

definition modelSupportsThinking :: "string \<Rightarrow> bool" where
  "modelSupportsThinking family =
     (let low = lower_view family in list_ex (\<lambda>p. HasPrefix low p) thinkingModelPrefixes)"

definition HandleThinkingBlocks :: "gomap list \<Rightarrow> string \<Rightarrow> gomap list" where
  "HandleThinkingBlocks msgs family =
     (let supports = modelSupportsThinking family
      in filter_blocks (\<lambda>msg b. \<not> (block_type b \<in> set thinkingBlockTypes \<and> (role_of msg = ''user'' \<or> \<not> supports))) msgs)"

section \<open>Passes across messages\<close>

definition message_id :: "gomap \<Rightarrow> string" where
  "message_id msg = stringFromAny (fld msg ''id'')"

definition same_reply :: "string \<Rightarrow> gomap \<Rightarrow> bool" where
  "same_reply i m \<longleftrightarrow> role_of m = ''assistant'' \<and> message_id m = i"

function MergeSplitMessages :: "gomap list \<Rightarrow> gomap list" where
  "MergeSplitMessages [] = []"
| "MergeSplitMessages (msg # rest) =
     (if role_of msg \<noteq> ''assistant'' \<or> message_id msg = [] then msg # MergeSplitMessages rest
      else set_content (blocks_of msg @ concat (map blocks_of (takeWhile (same_reply (message_id msg)) rest))) msg
             # MergeSplitMessages (dropWhile (same_reply (message_id msg)) rest))"
  by pat_completeness auto
termination
  by (relation "measure length") (auto simp: le_imp_less_Suc length_dropWhile_le)

definition copied :: "gomap \<Rightarrow> gomap" where
  "copied msg = (case contentBlocks (fld msg ''content'') of None \<Rightarrow> msg | Some bs \<Rightarrow> set_content bs msg)"

definition lost_in_recovery :: string where
  "lost_in_recovery = ''Tool execution was interrupted or lost during session recovery.''"

definition unknown_use_block :: "string \<Rightarrow> gomap" where
  "unknown_use_block i =
     [(''type'', JStr ''tool_use''), (''id'', JStr i), (''name'', JStr ''unknown''), (''input'', JObj [])]"

definition add_result :: "gomap list \<Rightarrow> string \<Rightarrow> gomap list" where
  "add_result msgs i =
     (case findToolUseIndex msgs i of
        None \<Rightarrow> msgs
      | Some idx \<Rightarrow> injectToolResultAfter msgs idx (tool_result_block i lost_in_recovery))"

definition add_use :: "gomap list \<Rightarrow> string \<Rightarrow> gomap list" where
  "add_use msgs i =
     (case findToolResultIndex msgs i of
        None \<Rightarrow> msgs
      | Some idx \<Rightarrow> injectToolUseBefore msgs idx (unknown_use_block i))"

definition FixToolPairings :: "(string list \<Rightarrow> string list) \<Rightarrow> gomap list \<Rightarrow> gomap list" where
  "FixToolPairings ord msgs =
     (if orphan_uses msgs = [] \<and> orphan_results msgs = [] then msgs
      else foldl add_use (foldl add_result (map copied msgs) (ord (orphan_uses msgs))) (ord (orphan_results msgs)))"

definition toolUseIDsInMessage :: "gomap \<Rightarrow> string list" where
  "toolUseIDsInMessage msg = concat (map use_id (blocks_of msg))"

definition copyMessages :: "gomap list \<Rightarrow> gomap list" where
  "copyMessages = map copied"

text \<open>Taking the needed results out of the blocks of one later message: what is still needed, what was
  found, and the blocks that stay.\<close>

fun collect_blocks :: "string list \<Rightarrow> gomap list \<Rightarrow> string list \<times> (string \<times> gomap) list \<times> gomap list" where
  "collect_blocks needed [] = (needed, [], [])"
| "collect_blocks needed (b # bs) =
     (let i = stringFromAny (fld b ''tool_use_id'')
      in if is_block ''tool_result'' b \<and> i \<in> set needed then
           (case collect_blocks (removeAll i needed) bs of (n, found, kept) \<Rightarrow> (n, (i, b) # found, kept))
         else (case collect_blocks needed bs of (n, found, kept) \<Rightarrow> (n, found, b # kept)))"

text \<open>The same over the later messages, until nothing is needed any more. A message that lost all its
  blocks becomes nil, which is the empty message here.\<close>

definition shrink_message :: "gomap list \<Rightarrow> gomap \<Rightarrow> gomap" where
  "shrink_message kept msg =
     (if kept = [] then [] else if length kept \<noteq> length (blocks_of msg) then set_content kept msg else msg)"

fun collect_results :: "string list \<Rightarrow> gomap list \<Rightarrow> (string \<times> gomap) list \<times> gomap list" where
  "collect_results needed [] = ([], [])"
| "collect_results needed (m # ms) =
     (if needed = [] then ([], m # ms)
      else if blocks_of m = [] then (case collect_results needed ms of (found, ms') \<Rightarrow> (found, m # ms'))
      else (case collect_blocks needed (blocks_of m) of (n, found, kept) \<Rightarrow>
             (case collect_results n ms of (found', ms') \<Rightarrow> (found @ found', shrink_message kept m # ms'))))"

definition lost_in_normalization :: string where
  "lost_in_normalization = ''Tool execution was interrupted or lost during message normalization.''"

definition result_for :: "(string \<times> gomap) list \<Rightarrow> string \<Rightarrow> gomap" where
  "result_for found i = (case map_of found i of None \<Rightarrow> tool_result_block i lost_in_normalization | Some b \<Rightarrow> b)"

lemma collect_results_length: "length (snd (collect_results needed ms)) = length ms"
  by (induction needed ms rule: collect_results.induct) (auto split: prod.splits)

function enforce_from :: "gomap list \<Rightarrow> gomap list" where
  "enforce_from [] = []"
| "enforce_from (m # rest) =
     (if blocks_of m = [] then enforce_from rest
      else if role_of m \<noteq> ''assistant'' \<or> toolUseIDsInMessage m = [] then m # enforce_from rest
      else (let ids = toolUseIDsInMessage m; c = collect_results (remdups ids) rest
            in m # user_message (map (result_for (fst c)) ids) # enforce_from (snd c)))"
  by pat_completeness auto
termination
  by (relation "measure length") (auto simp: collect_results_length)

definition EnforceImmediateToolResults :: "gomap list \<Rightarrow> gomap list" where
  "EnforceImmediateToolResults msgs = enforce_from (copyMessages msgs)"

definition NormalizeMessages :: "(string list \<Rightarrow> string list) \<Rightarrow> gomap list \<Rightarrow> string \<Rightarrow> string list \<Rightarrow> gomap list" where
  "NormalizeMessages ord msgs family recentErrors =
     EnforceImmediateToolResults (FixToolPairings ord (MergeSplitMessages (HandleThinkingBlocks
       (StripInternalElementsWithErrors (FilterVirtualMessages (ReorderAttachments msgs))
          (BuildErrorBlockMap recentErrors)) family)))"

section \<open>The form the API accepts\<close>

definition all_blocks :: "gomap list \<Rightarrow> gomap list" where
  "all_blocks msgs = concat (map blocks_of msgs)"

text \<open>A user message that answers the calls \<open>ids\<close>: one result per call, in the order of the calls.\<close>

definition answers :: "gomap \<Rightarrow> string list \<Rightarrow> bool" where
  "answers r ids \<longleftrightarrow> role_of r = ''user'' \<and> map result_id (blocks_of r) = map (\<lambda>i. [i]) ids"

fun immediate :: "gomap list \<Rightarrow> bool" where
  "immediate [] = True"
| "immediate (m # rest) \<longleftrightarrow>
     blocks_of m \<noteq> [] \<and>
     (role_of m = ''assistant'' \<and> toolUseIDsInMessage m \<noteq> [] \<longrightarrow>
        rest \<noteq> [] \<and> answers (hd rest) (toolUseIDsInMessage m)) \<and>
     immediate rest"

text \<open>\<open>immediate\<close> sees the calls the code sees: those with an identifier. The API does not make that exception, so the full requirement
  counts every \<open>tool_use\<close> block. The two agree on conversations in which all calls have an identifier.\<close>

definition call_id :: "gomap \<Rightarrow> string" where
  "call_id b = stringFromAny (fld b ''id'')"

definition tool_calls :: "gomap \<Rightarrow> gomap list" where
  "tool_calls m = filter (is_block ''tool_use'') (blocks_of m)"

definition identified :: "gomap list \<Rightarrow> bool" where
  "identified msgs \<longleftrightarrow> list_all (\<lambda>m. list_all (\<lambda>b. call_id b \<noteq> []) (tool_calls m)) msgs"

fun every_call_answered :: "gomap list \<Rightarrow> bool" where
  "every_call_answered [] = True"
| "every_call_answered (m # rest) \<longleftrightarrow>
     (role_of m = ''assistant'' \<and> tool_calls m \<noteq> [] \<longrightarrow>
        rest \<noteq> [] \<and> role_of (hd rest) = ''user'' \<and>
        list_all2 (\<lambda>c r. is_block ''tool_result'' r \<and> stringFromAny (fld r ''tool_use_id'') = call_id c) (tool_calls m) (blocks_of (hd rest))) \<and>
     every_call_answered rest"

lemma all_blocks_simps [simp]:
  "all_blocks [] = []" "all_blocks (m # ms) = blocks_of m @ all_blocks ms"
  "all_blocks (xs @ ys) = all_blocks xs @ all_blocks ys"
  by (simp_all add: all_blocks_def)

lemma set_all_blocks: "set (all_blocks ms) = (\<Union>m \<in> set ms. set (blocks_of m))"
  by (simp add: all_blocks_def)

lemma blocks_of_Nil [simp]: "blocks_of [] = []"
  by (simp add: blocks_of_def mget_def contentBlocks_def)

lemma blocks_of_copied [simp]: "blocks_of (copied m) = blocks_of m"
  by (auto simp: copied_def blocks_of_Some blocks_of_None split: option.splits)

lemma role_of_copied [simp]: "role_of (copied m) = role_of m"
  by (auto simp: copied_def split: option.splits)

lemma all_blocks_copied [simp]: "all_blocks (map copied ms) = all_blocks ms"
  by (induction ms) simp_all

section \<open>Collecting results\<close>

lemma collect_blocks_kept: "collect_blocks needed bs = (n, found, kept) \<Longrightarrow> subseq kept bs"
  by (induction needed bs arbitrary: n found kept rule: collect_blocks.induct)
    (auto simp: Let_def split: prod.splits if_splits)

lemma collect_blocks_mset:
  "collect_blocks needed bs = (n, found, kept) \<Longrightarrow> mset bs = mset (map snd found) + mset kept"
  by (induction needed bs arbitrary: n found kept rule: collect_blocks.induct)
    (auto simp: Let_def split: prod.splits if_splits)

lemma collect_blocks_needed:
  assumes "collect_blocks needed bs = (n, found, kept)"
  shows "set n = set needed - fst ` set found \<and> fst ` set found \<subseteq> set needed \<and> distinct (map fst found) \<and>
    (\<forall>(i, b) \<in> set found. is_block ''tool_result'' b \<and> stringFromAny (fld b ''tool_use_id'') = i)"
  using assms
proof (induction needed bs arbitrary: n found kept rule: collect_blocks.induct)
  case (2 needed b bs)
  define i where "i = stringFromAny (fld b ''tool_use_id'')"
  show ?case
  proof (cases "is_block ''tool_result'' b \<and> i \<in> set needed")
    case True
    then obtain f where f: "found = (i, b) # f" "collect_blocks (removeAll i needed) bs = (n, f, kept)"
      using "2.prems" by (auto simp: i_def Let_def split: prod.splits)
    have "set n = set (removeAll i needed) - fst ` set f \<and> fst ` set f \<subseteq> set (removeAll i needed) \<and>
      distinct (map fst f) \<and> (\<forall>(i, b) \<in> set f. is_block ''tool_result'' b \<and> stringFromAny (fld b ''tool_use_id'') = i)"
      using "2.IH"(1) [OF i_def] True f(2) by simp
    with True f(1) show ?thesis by (auto simp: i_def)
  next
    case False
    then obtain k where "collect_blocks needed bs = (n, found, k)"
      using "2.prems" by (auto simp: i_def Let_def split: prod.splits)
    with "2.IH"(2) [OF i_def] False show ?thesis by simp
  qed
qed auto

lemma blocks_of_shrink:
  assumes "subseq kept (blocks_of m)"
  shows "blocks_of (shrink_message kept m) = kept"
  using assms by (auto simp: shrink_message_def dest: subseq_same_length)

lemma collect_results_spec:
  assumes "collect_results needed ms = (found, ms')"
  shows "mset (all_blocks ms) = mset (map snd found) + mset (all_blocks ms') \<and>
    fst ` set found \<subseteq> set needed \<and> distinct (map fst found) \<and>
    (\<forall>(i, b) \<in> set found. is_block ''tool_result'' b \<and> stringFromAny (fld b ''tool_use_id'') = i)"
  using assms
proof (induction needed ms arbitrary: found ms' rule: collect_results.induct)
  case (2 needed m ms)
  consider "needed = []" | "needed \<noteq> []" "blocks_of m = []" | "needed \<noteq> []" "blocks_of m \<noteq> []" by blast
  then show ?case
  proof cases
    case 1
    with "2.prems" show ?thesis by simp
  next
    case 2
    with "2.prems" obtain r where "collect_results needed ms = (found, r)" "ms' = m # r"
      by (auto split: prod.splits)
    with "2.IH"(1) [OF 2] 2 show ?thesis by simp
  next
    case 3
    obtain n f1 kept where c: "collect_blocks needed (blocks_of m) = (n, f1, kept)" by (metis prod_cases3)
    obtain f2 r where r: "collect_results n ms = (f2, r)" by fastforce
    have eqs: "found = f1 @ f2" "ms' = shrink_message kept m # r" using "2.prems" 3 c r by auto
    note cb = collect_blocks_mset [OF c] collect_blocks_needed [OF c]
    note IH = "2.IH"(2) [OF 3 c [symmetric] refl r]
    have "blocks_of (shrink_message kept m) = kept" by (rule blocks_of_shrink [OF collect_blocks_kept [OF c]])
    with cb IH eqs show ?thesis by auto
  qed
qed simp

lemma found_answer:
  assumes "\<forall>(i, b) \<in> set found. is_block ''tool_result'' b \<and> stringFromAny (fld b ''tool_use_id'') = i" "i \<noteq> []"
  shows "result_id (result_for found i) = [i]"
proof (cases "map_of found i")
  case (Some b)
  with assms have "is_block ''tool_result'' b" "stringFromAny (fld b ''tool_use_id'') = i"
    by (auto dest: map_of_SomeD)
  with Some assms(2) show ?thesis by (simp add: result_for_def result_id_def Let_def)
qed (simp add: result_for_def assms(2))

lemma found_moved:
  assumes "fst ` set found \<subseteq> set ids" "distinct (map fst found)"
  shows "mset (map snd found) \<subseteq># mset (map (result_for found) ids)"
proof -
  have "map snd found = map (result_for found) (map fst found)"
    using assms(2) by (auto simp: result_for_def)
  moreover have "mset (map fst found) \<subseteq># mset ids"
  proof -
    have "mset (map fst found) = mset_set (set (map fst found))" using assms(2) by (rule mset_set_set [symmetric])
    also have "\<dots> \<subseteq># mset_set (set ids)" using assms(1) by (simp add: subset_imp_msubset_mset_set)
    also have "\<dots> \<subseteq># mset ids" using mset_set_set_mset_msubset [of "mset ids"] by simp
    finally show ?thesis .
  qed
  ultimately show ?thesis by (metis image_mset_subseteq_mono mset_map)
qed

section \<open>Immediate results\<close>

lemma enforce_call:
  assumes "blocks_of m \<noteq> []" "role_of m = ''assistant''" "toolUseIDsInMessage m \<noteq> []"
    "collect_results (remdups (toolUseIDsInMessage m)) rest = (found, rest')"
  shows "enforce_from (m # rest) =
    m # user_message (map (result_for found) (toolUseIDsInMessage m)) # enforce_from rest'"
  using assms by (simp add: Let_def)

lemma enforce_immediate: "immediate (enforce_from ms)"
proof (induction ms rule: enforce_from.induct)
  case (2 m rest)
  define ids where "ids = toolUseIDsInMessage m"
  consider "blocks_of m = []" | "blocks_of m \<noteq> []" "role_of m \<noteq> ''assistant'' \<or> ids = []"
    | "blocks_of m \<noteq> []" "role_of m = ''assistant''" "ids \<noteq> []" by blast
  then show ?case
  proof cases
    case 3
    obtain found rest' where c: "collect_results (remdups ids) rest = (found, rest')" by fastforce
    have "i \<noteq> []" if "i \<in> set ids" for i
      using that by (auto simp: ids_def toolUseIDsInMessage_def dest: use_id_nonempty)
    then have "map result_id (map (result_for found) ids) = map (\<lambda>i. [i]) ids"
      using found_answer collect_results_spec [OF c] by (auto intro: found_answer)
    moreover have "immediate (enforce_from rest')"
      using "2.IH"(3) [of ids "collect_results (remdups ids) rest"] 3 c by (simp add: ids_def)
    ultimately show ?thesis
      using 3 enforce_call [of m rest found rest'] c by (simp add: ids_def answers_def)
  qed (use 2 ids_def in auto)
qed simp

lemma enforce_keeps: "mset (all_blocks ms) \<subseteq># mset (all_blocks (enforce_from ms))"
proof (induction ms rule: enforce_from.induct)
  case (2 m rest)
  define ids where "ids = toolUseIDsInMessage m"
  consider "blocks_of m = []" | "blocks_of m \<noteq> []" "role_of m \<noteq> ''assistant'' \<or> ids = []"
    | "blocks_of m \<noteq> []" "role_of m = ''assistant''" "ids \<noteq> []" by blast
  then show ?case
  proof cases
    case 3
    obtain found rest' where c: "collect_results (remdups ids) rest = (found, rest')" by fastforce
    note spec = collect_results_spec [OF c]
    have "mset (map snd found) \<subseteq># mset (map (result_for found) ids)" by (rule found_moved) (use spec in auto)
    moreover have "mset (all_blocks rest') \<subseteq># mset (all_blocks (enforce_from rest'))"
      using "2.IH"(3) [of ids "collect_results (remdups ids) rest"] 3 c by (simp add: ids_def)
    ultimately show ?thesis
      using spec 3 enforce_call [of m rest found rest'] c
      by (simp add: ids_def subset_mset.add_mono)
  qed (use 2 ids_def in auto)
qed simp

lemma result_for_cases:
  "result_for found ` ids \<subseteq> range (\<lambda>i. tool_result_block i lost_in_normalization) \<union> snd ` set found"
  by (force simp: result_for_def split: option.splits dest!: map_of_SomeD)

lemma enforce_adds_results:
  "set (all_blocks (enforce_from ms)) \<subseteq> set (all_blocks ms) \<union> range (\<lambda>i. tool_result_block i lost_in_normalization)"
proof (induction ms rule: enforce_from.induct)
  case (2 m rest)
  define ids where "ids = toolUseIDsInMessage m"
  consider "blocks_of m = []" | "blocks_of m \<noteq> []" "role_of m \<noteq> ''assistant'' \<or> ids = []"
    | "blocks_of m \<noteq> []" "role_of m = ''assistant''" "ids \<noteq> []" by blast
  then show ?case
  proof cases
    case 3
    obtain found rest' where c: "collect_results (remdups ids) rest = (found, rest')" by fastforce
    have "set (all_blocks rest) = snd ` set found \<union> set (all_blocks rest')"
      using arg_cong [OF conjunct1 [OF collect_results_spec [OF c]], of set_mset] by auto
    moreover have "set (all_blocks (enforce_from rest')) \<subseteq>
        set (all_blocks rest') \<union> range (\<lambda>i. tool_result_block i lost_in_normalization)"
      using "2.IH"(3) [of ids "collect_results (remdups ids) rest"] 3 c by (simp add: ids_def)
    ultimately show ?thesis
      using 3 enforce_call [of m rest found rest'] c result_for_cases [of found "set ids"]
      by (auto simp: ids_def)
  qed (use 2 ids_def in auto)
qed simp

section \<open>Pairing\<close>

lemma find_index_Some: "find_index P xs = Some i \<Longrightarrow> i < length xs \<and> P (xs ! i)"
  by (induction xs arbitrary: i) (auto split: if_splits)

lemma find_index_None: "find_index P xs = None \<longleftrightarrow> (\<forall>x \<in> set xs. \<not> P x)"
  by (induction xs) auto

lemma message_at: "i < length msgs \<Longrightarrow> msgs = take i msgs @ msgs ! i # drop (Suc i) msgs"
  by (rule id_take_nth_drop)

lemma set_ids_update:
  assumes "i < length msgs"
  shows "set (all_blocks (msgs[i := set_content bs m])) =
    set (all_blocks (take i msgs @ drop (Suc i) msgs)) \<union> set bs"
  unfolding upd_conv_take_nth_drop [OF assms] by auto

lemma use_ids_blocks: "set (use_ids msgs) = (\<Union>b \<in> set (all_blocks msgs). set (use_id b))"
  by (induction msgs) auto

lemma result_ids_blocks: "set (result_ids msgs) = (\<Union>b \<in> set (all_blocks msgs). set (result_id b))"
  by (induction msgs) auto

lemma inject_result_blocks:
  "set (all_blocks (injectToolResultAfter msgs idx b)) = insert b (set (all_blocks msgs))"
proof (cases "idx + 1 < length msgs \<and> role_of (msgs ! (idx + 1)) = ''user''")
  case True
  then have "set (all_blocks msgs) =
      set (all_blocks (take (idx + 1) msgs @ drop (Suc (idx + 1)) msgs)) \<union> set (blocks_of (msgs ! (idx + 1)))"
    by (subst message_at [of "idx + 1" msgs]) auto
  with True show ?thesis by (simp add: injectToolResultAfter_def set_ids_update)
next
  case False
  have "set (all_blocks msgs) = set (all_blocks (take (idx + 1) msgs)) \<union> set (all_blocks (drop (idx + 1) msgs))"
    by (metis all_blocks_simps(3) append_take_drop_id set_append)
  with False show ?thesis by (auto simp: injectToolResultAfter_def)
qed

lemma inject_use_blocks:
  assumes "idx < length msgs"
  shows "set (all_blocks (injectToolUseBefore msgs idx b)) = insert b (set (all_blocks msgs))"
proof (cases "idx > 0 \<and> role_of (msgs ! (idx - 1)) = ''assistant''")
  case True
  with assms have "set (all_blocks msgs) =
      set (all_blocks (take (idx - 1) msgs @ drop (Suc (idx - 1)) msgs)) \<union> set (blocks_of (msgs ! (idx - 1)))"
    by (subst message_at [of "idx - 1" msgs]) auto
  with True assms show ?thesis by (simp add: injectToolUseBefore_def set_ids_update)
next
  case False
  have "set (all_blocks msgs) = set (all_blocks (take idx msgs)) \<union> set (all_blocks (drop idx msgs))"
    by (metis all_blocks_simps(3) append_take_drop_id set_append)
  moreover have "blocks_of [(''role'', JStr ''assistant''), (''content'', block_list [b])] = [b]"
    by (simp add: blocks_of_def mget_def)
  ultimately show ?thesis using False by (auto simp: injectToolUseBefore_def)
qed

lemma findToolUseIndex_Some:
  "i \<in> set (use_ids msgs) \<Longrightarrow> \<exists>idx < length msgs. findToolUseIndex msgs i = Some idx"
  by (cases "findToolUseIndex msgs i")
    (fastforce simp: findToolUseIndex_def find_index_None use_ids_def use_id_def Let_def list_ex_iff split: if_splits
      dest: find_index_Some)+

lemma findToolResultIndex_Some:
  "i \<in> set (result_ids msgs) \<Longrightarrow> \<exists>idx < length msgs. findToolResultIndex msgs i = Some idx"
  by (cases "findToolResultIndex msgs i")
    (fastforce simp: findToolResultIndex_def find_index_None result_ids_def result_id_def Let_def list_ex_iff split: if_splits
      dest: find_index_Some)+

lemma unknown_use_block_ids [simp]:
  "i \<noteq> [] \<Longrightarrow> use_id (unknown_use_block i) = [i]" "result_id (unknown_use_block i) = []"
  by (simp_all add: use_id_def result_id_def is_block_def unknown_use_block_def mget_def stringFromAny_def Let_def)

lemma add_results_blocks:
  "set is \<subseteq> set (use_ids msgs) \<Longrightarrow>
   set (all_blocks (foldl add_result msgs is)) =
   set (all_blocks msgs) \<union> (\<lambda>i. tool_result_block i lost_in_recovery) ` set is"
proof (induction "is" arbitrary: msgs)
  case (Cons i "is")
  then obtain idx where "findToolUseIndex msgs i = Some idx" using findToolUseIndex_Some [of i msgs] by auto
  then have "set (all_blocks (add_result msgs i)) = insert (tool_result_block i lost_in_recovery) (set (all_blocks msgs))"
    by (simp add: add_result_def inject_result_blocks)
  moreover from this have "set (use_ids (add_result msgs i)) = set (use_ids msgs)" by (simp add: use_ids_blocks)
  ultimately show ?case using Cons by simp
qed simp

lemma add_uses_blocks:
  "set is \<subseteq> set (result_ids msgs) \<Longrightarrow>
   set (all_blocks (foldl add_use msgs is)) = set (all_blocks msgs) \<union> unknown_use_block ` set is"
proof (induction "is" arbitrary: msgs)
  case (Cons i "is")
  then obtain idx where "findToolResultIndex msgs i = Some idx" "idx < length msgs"
    using findToolResultIndex_Some [of i msgs] by auto
  then have "set (all_blocks (add_use msgs i)) = insert (unknown_use_block i) (set (all_blocks msgs))"
    by (simp add: add_use_def inject_use_blocks)
  moreover from this have "set (result_ids (add_use msgs i)) = set (result_ids msgs)" by (simp add: result_ids_blocks)
  ultimately show ?case using Cons by simp
qed simp

lemma fix_blocks:
  assumes "\<And>xs. set (ord xs) = set xs"
  shows "set (all_blocks (FixToolPairings ord msgs)) =
    set (all_blocks msgs) \<union> (\<lambda>i. tool_result_block i lost_in_recovery) ` set (orphan_uses msgs) \<union>
    unknown_use_block ` set (orphan_results msgs)"
proof (cases "orphan_uses msgs = [] \<and> orphan_results msgs = []")
  case False
  let ?c = "map copied msgs" and ?mid = "foldl add_result (map copied msgs) (ord (orphan_uses msgs))"
  have "set (use_ids ?c) = set (use_ids msgs)" by (simp add: use_ids_blocks)
  then have mid: "set (all_blocks ?mid) =
      set (all_blocks msgs) \<union> (\<lambda>i. tool_result_block i lost_in_recovery) ` set (orphan_uses msgs)"
    using add_results_blocks [of "ord (orphan_uses msgs)" ?c] assms set_orphan_uses [of msgs] by auto
  then have "set (orphan_results msgs) \<subseteq> set (result_ids ?mid)"
    by (auto simp: result_ids_blocks set_orphan_results)
  then have "set (all_blocks (foldl add_use ?mid (ord (orphan_results msgs)))) =
      set (all_blocks ?mid) \<union> unknown_use_block ` set (orphan_results msgs)"
    using add_uses_blocks [of "ord (orphan_results msgs)" ?mid] assms by simp
  with False mid show ?thesis unfolding FixToolPairings_def by auto
qed (simp add: FixToolPairings_def)

lemma fix_pairs:
  assumes "\<And>xs. set (ord xs) = set xs"
  shows "set (use_ids (FixToolPairings ord msgs)) = set (result_ids (FixToolPairings ord msgs))"
proof -
  have "[] \<notin> set (orphan_uses msgs)" "[] \<notin> set (orphan_results msgs)"
    using use_ids_nonempty result_ids_nonempty by (auto simp: set_orphan_uses set_orphan_results)
  moreover have "(\<Union>i \<in> A. set (use_id (unknown_use_block i))) = A"
    "(\<Union>i \<in> A. set (result_id (tool_result_block i lost_in_recovery))) = A" if "[] \<notin> A" for A
  proof -
    have "set (use_id (unknown_use_block i)) = {i} \<and> set (result_id (tool_result_block i lost_in_recovery)) = {i}"
      if "i \<in> A" for i using that \<open>[] \<notin> A\<close> by (cases "i = []") simp_all
    then show "(\<Union>i \<in> A. set (use_id (unknown_use_block i))) = A"
      "(\<Union>i \<in> A. set (result_id (tool_result_block i lost_in_recovery))) = A" by simp_all
  qed
  ultimately have "(\<Union>i \<in> set (orphan_results msgs). set (use_id (unknown_use_block i))) = set (orphan_results msgs)"
    "(\<Union>i \<in> set (orphan_uses msgs). set (result_id (tool_result_block i lost_in_recovery))) = set (orphan_uses msgs)"
    by blast+
  then show ?thesis
    unfolding use_ids_blocks result_ids_blocks fix_blocks [OF assms]
    by (auto simp: set_orphan_uses set_orphan_results use_ids_blocks [symmetric] result_ids_blocks [symmetric] UN_Un)
qed

section \<open>The other passes\<close>

lemma filter_blocks_blocks:
  "set (all_blocks (filter_blocks keep msgs)) = {b. \<exists>m \<in> set msgs. b \<in> set (blocks_of m) \<and> keep m b}"
  by (induction msgs)
    (auto simp: filter_blocks_def blocks_of_None blocks_of_Some filter_empty_conv Let_def split: option.splits)

lemma filter_blocks_subset: "set (all_blocks (filter_blocks keep msgs)) \<subseteq> set (all_blocks msgs)"
  unfolding filter_blocks_blocks by (auto simp: set_all_blocks)

lemma merge_blocks: "all_blocks (MergeSplitMessages msgs) = all_blocks msgs"
proof (induction msgs rule: MergeSplitMessages.induct)
  case (2 msg rest)
  show ?case
  proof (cases "role_of msg \<noteq> ''assistant'' \<or> message_id msg = []")
    case False
    have "all_blocks rest = all_blocks (takeWhile (same_reply (message_id msg)) rest) @
        all_blocks (dropWhile (same_reply (message_id msg)) rest)"
      by (metis all_blocks_simps(3) takeWhile_dropWhile_id)
    with False 2 show ?thesis by (simp add: all_blocks_def [symmetric])
  qed (use 2 in simp)
qed simp

lemma reorder_blocks:
  "set (ReorderAttachments msgs) = (\<lambda>m. case contentBlocks (fld m ''content'') of None \<Rightarrow> m | Some bs \<Rightarrow>
     set_content (filter (\<lambda>b. block_type b \<in> set attachmentBlockTypes) bs @
                  filter (\<lambda>b. block_type b \<notin> set attachmentBlockTypes) bs) m) ` set msgs"
  by (simp add: ReorderAttachments_def)

lemma fld_set_content: "k \<noteq> ''content'' \<Longrightarrow> fld (set_content bs m) k = fld m k"
  by (simp add: set_content_def)

lemma reordered_message:
  assumes "m \<in> set msgs"
  shows "\<exists>m' \<in> set (ReorderAttachments msgs). set (blocks_of m') = set (blocks_of m) \<and>
    fld m' ''virtual'' = fld m ''virtual'' \<and> fld m' ''isVirtual'' = fld m ''isVirtual''"
proof (cases "contentBlocks (fld m ''content'')")
  case None
  with assms show ?thesis by (force simp: reorder_blocks)
next
  case (Some bs)
  let ?m = "set_content (filter (\<lambda>b. block_type b \<in> set attachmentBlockTypes) bs @
                  filter (\<lambda>b. block_type b \<notin> set attachmentBlockTypes) bs) m"
  have "?m \<in> set (ReorderAttachments msgs)" using assms Some by (force simp: reorder_blocks)
  moreover have "set (blocks_of ?m) = set (blocks_of m)" by (auto simp: blocks_of_Some [OF Some])
  ultimately show ?thesis by (intro bexI [of _ ?m]) (simp_all add: fld_set_content)
qed

section \<open>Calls without an identifier\<close>

lemma identified_blocks: "identified msgs \<longleftrightarrow> (\<forall>b \<in> set (all_blocks msgs). is_block ''tool_use'' b \<longrightarrow> call_id b \<noteq> [])"
  by (auto simp: identified_def tool_calls_def set_all_blocks list_all_iff)

lemma identified_mono: "identified msgs \<Longrightarrow> set (all_blocks msgs') \<subseteq> set (all_blocks msgs) \<Longrightarrow> identified msgs'"
  by (auto simp: identified_blocks)

lemma identified_calls:
  "list_all (\<lambda>b. call_id b \<noteq> []) (tool_calls m) \<Longrightarrow> toolUseIDsInMessage m = map call_id (tool_calls m)"
proof -
  have "list_all (\<lambda>b. call_id b \<noteq> []) (filter (is_block ''tool_use'') bs) \<Longrightarrow>
      concat (map use_id bs) = map call_id (filter (is_block ''tool_use'') bs)" for bs
    by (induction bs) (auto simp: use_id_def call_id_def Let_def split: if_splits)
  then show "list_all (\<lambda>b. call_id b \<noteq> []) (tool_calls m) \<Longrightarrow> toolUseIDsInMessage m = map call_id (tool_calls m)"
    by (simp add: toolUseIDsInMessage_def tool_calls_def)
qed

lemma result_id_single: "result_id r = [i] \<Longrightarrow> is_block ''tool_result'' r \<and> stringFromAny (fld r ''tool_use_id'') = i"
  by (auto simp: result_id_def Let_def split: if_splits)

lemma answers_each:
  assumes "answers r (map call_id cs)"
  shows "role_of r = ''user'' \<and>
    list_all2 (\<lambda>c r. is_block ''tool_result'' r \<and> stringFromAny (fld r ''tool_use_id'') = call_id c) cs (blocks_of r)"
proof -
  have "map result_id (blocks_of r) = map (\<lambda>c. [call_id c]) cs" using assms by (simp add: answers_def comp_def)
  then have "list_all2 (\<lambda>c r. result_id r = [call_id c]) cs (blocks_of r)"
    by (auto simp: list_all2_conv_all_nth list_eq_iff_nth_eq)
  then show ?thesis using assms result_id_single by (auto simp: answers_def elim: list_all2_mono)
qed

lemma immediate_answers_every_call: "immediate msgs \<Longrightarrow> identified msgs \<Longrightarrow> every_call_answered msgs"
proof (induction msgs)
  case (Cons m msgs)
  then have rest: "every_call_answered msgs" "toolUseIDsInMessage m = map call_id (tool_calls m)"
    using identified_calls [of m] by (simp_all add: identified_def)
  then show ?case using Cons.prems(1) answers_each [of "hd msgs" "tool_calls m"] by simp
qed simp

lemma NormalizeMessages_identified:
  assumes "\<And>xs. set (ord xs) = set xs" "identified msgs"
  shows "identified (NormalizeMessages ord msgs family errs)"
proof -
  define filtered where "filtered = FilterVirtualMessages (ReorderAttachments msgs)"
  define merged where "merged = MergeSplitMessages (HandleThinkingBlocks (StripInternalElementsWithErrors filtered (BuildErrorBlockMap errs)) family)"
  have reordered: "set (blocks_of (case contentBlocks (fld m ''content'') of None \<Rightarrow> m | Some bs \<Rightarrow>
      set_content (filter (\<lambda>b. block_type b \<in> set attachmentBlockTypes) bs @ filter (\<lambda>b. block_type b \<notin> set attachmentBlockTypes) bs) m)) =
      set (blocks_of m)" for m
    by (auto simp: blocks_of_Some split: option.splits)
  have "set (all_blocks filtered) \<subseteq> set (all_blocks msgs)"
    using reordered by (auto simp: filtered_def FilterVirtualMessages_def set_all_blocks reorder_blocks)
  moreover have "set (all_blocks merged) \<subseteq> set (all_blocks filtered)"
    unfolding merged_def merge_blocks HandleThinkingBlocks_def StripInternalElementsWithErrors_def Let_def
    using filter_blocks_subset by (meson subset_trans)
  ultimately have "identified merged" using assms(2) identified_mono by blast
  moreover have "\<not> is_block ''tool_use'' (tool_result_block i c)" for i c
    by (simp add: is_block_def tool_result_block_def mget_def)
  moreover have "call_id (unknown_use_block i) \<noteq> []" if "i \<in> set (orphan_results merged)" for i
    using that result_ids_nonempty by (auto simp: call_id_def unknown_use_block_def mget_def stringFromAny_def set_orphan_results)
  ultimately have "identified (enforce_from (map copied (FixToolPairings ord merged)))"
    using enforce_adds_results [of "map copied (FixToolPairings ord merged)"] fix_blocks [of ord merged, OF assms(1)]
    unfolding identified_blocks by auto
  then show ?thesis
    by (simp add: NormalizeMessages_def EnforceImmediateToolResults_def copyMessages_def merged_def filtered_def)
qed

text \<open>A call without an identifier is passed through unanswered: every pass skips it, and the conversation that ends with it is returned as
  it is.\<close>

definition call_without_id :: "gomap list" where
  "call_without_id = [BuildAssistantMessage ''u'' [] [] [\<lparr>tc_ID = [], tc_Name = ''grep'', tc_Input = []\<rparr>] []]"

lemma call_without_id_stays_unanswered:
  "NormalizeMessages id call_without_id ''deepseek'' [] = call_without_id \<and> length (concat (map tool_calls call_without_id)) = 1 \<and>
   immediate call_without_id \<and> \<not> every_call_answered call_without_id"
  by code_simp

section \<open>Properties of the normal form\<close>

text \<open>C29: a normalized conversation has the form the API requires: no message is empty, each message that
  calls tools is directly followed by a user message with exactly one result per call that carries an identifier, in the
  order of the calls, and no internal block is left. When every call of the conversation carries an identifier, every call is
  answered that way; a call without one is not (call_without_id_stays_unanswered).\<close>

theorem normalized_conversation_form:
  assumes "\<And>xs. set (ord xs) = set xs"
  shows "immediate (NormalizeMessages ord msgs family errs) \<and>
    (identified msgs \<longrightarrow> every_call_answered (NormalizeMessages ord msgs family errs)) \<and>
    (\<forall>b \<in> set (all_blocks (NormalizeMessages ord msgs family errs)). block_type b \<notin> set internalBlockTypes)"
proof -
  define stripped where "stripped = StripInternalElementsWithErrors (FilterVirtualMessages (ReorderAttachments msgs))
      (BuildErrorBlockMap errs)"
  define merged where "merged = MergeSplitMessages (HandleThinkingBlocks stripped family)"
  have out: "NormalizeMessages ord msgs family errs = enforce_from (map copied (FixToolPairings ord merged))"
    by (simp add: NormalizeMessages_def EnforceImmediateToolResults_def copyMessages_def merged_def stripped_def)
  have "set (all_blocks merged) \<subseteq> set (all_blocks stripped)"
    unfolding merged_def merge_blocks HandleThinkingBlocks_def Let_def by (rule filter_blocks_subset)
  then have "\<forall>b \<in> set (all_blocks merged). block_type b \<notin> set internalBlockTypes"
    by (auto simp: stripped_def StripInternalElementsWithErrors_def filter_blocks_blocks Let_def)
  moreover have "block_type (tool_result_block i c) \<notin> set internalBlockTypes"
    "block_type (unknown_use_block i) \<notin> set internalBlockTypes" for i c
    by (simp_all add: block_type_def tool_result_block_def unknown_use_block_def mget_def stringFromAny_def internalBlockTypes_def)
  ultimately have "\<forall>b \<in> set (all_blocks (NormalizeMessages ord msgs family errs)). block_type b \<notin> set internalBlockTypes"
    using enforce_adds_results [of "map copied (FixToolPairings ord merged)"] fix_blocks [of ord merged, OF assms]
    unfolding out by auto
  moreover have "immediate (NormalizeMessages ord msgs family errs)" by (simp add: out enforce_immediate)
  ultimately show ?thesis
    using immediate_answers_every_call NormalizeMessages_identified [OF assms] by blast
qed

definition sample_conversation :: "gomap list" where
  "sample_conversation =
     [BuildAssistantMessage ''u'' [] ''looking'' [\<lparr>tc_ID = ''t1'', tc_Name = ''grep'', tc_Input = []\<rparr>,
        \<lparr>tc_ID = ''t2'', tc_Name = ''ls'', tc_Input = []\<rparr>] [],
      user_message [text_block ''wait''],
      user_message [tool_result_block ''t1'' ''found'', [(''type'', JStr ''tool_reference'')]]]"

theorem normalized_conversation_form_witness:
  "immediate (NormalizeMessages id sample_conversation ''deepseek'' []) \<and>
   every_call_answered (NormalizeMessages id sample_conversation ''deepseek'' []) \<and>
   map role_of (NormalizeMessages id sample_conversation ''deepseek'' []) = [''assistant'', ''user'', ''user''] \<and>
   map (length \<circ> tool_calls) (NormalizeMessages id sample_conversation ''deepseek'' []) = [2, 0, 0] \<and>
   list_all (\<lambda>b. block_type b \<noteq> ''tool_reference'') (all_blocks (NormalizeMessages id sample_conversation ''deepseek'' []))"
proof -
  have "map role_of (NormalizeMessages id sample_conversation ''deepseek'' []) = [''assistant'', ''user'', ''user'']"
    "map (length \<circ> tool_calls) (NormalizeMessages id sample_conversation ''deepseek'' []) = [2, 0, 0]"
    "identified sample_conversation"
    by code_simp+
  with normalized_conversation_form [of id sample_conversation "''deepseek''" "[]"] show ?thesis
    by (auto simp: list_all_iff internalBlockTypes_def)
qed

text \<open>normalization loses nothing else: a block of a message that is not virtual is still there
  unless its type is internal, a thinking type, or one that a recent API error excludes.\<close>

theorem normalization_keeps_content:
  assumes "\<And>xs. set (ord xs) = set xs" "m \<in> set msgs" "b \<in> set (blocks_of m)"
    "\<not> isTruthy (fld m ''virtual'')" "\<not> isTruthy (fld m ''isVirtual'')"
    "block_type b \<notin> set internalBlockTypes \<union> set thinkingBlockTypes"
    "\<forall>types \<in> snd ` set (BuildErrorBlockMap errs). block_type b \<notin> set types"
  shows "b \<in> set (all_blocks (NormalizeMessages ord msgs family errs))"
proof -
  obtain m1 where "m1 \<in> set (ReorderAttachments msgs)" "set (blocks_of m1) = set (blocks_of m)"
    "fld m1 ''virtual'' = fld m ''virtual''" "fld m1 ''isVirtual'' = fld m ''isVirtual''"
    using reordered_message [OF assms(2)] by blast
  with assms(3-5) have "m1 \<in> set (FilterVirtualMessages (ReorderAttachments msgs))" "b \<in> set (blocks_of m1)"
    by (simp_all add: FilterVirtualMessages_def)
  then have "b \<in> set (all_blocks (StripInternalElementsWithErrors (FilterVirtualMessages (ReorderAttachments msgs))
      (BuildErrorBlockMap errs)))"
    using assms(6,7) by (auto simp: StripInternalElementsWithErrors_def filter_blocks_blocks Let_def)
  then have "b \<in> set (all_blocks (HandleThinkingBlocks (StripInternalElementsWithErrors
      (FilterVirtualMessages (ReorderAttachments msgs)) (BuildErrorBlockMap errs)) family))"
    unfolding HandleThinkingBlocks_def Let_def filter_blocks_blocks using assms(6) by (auto simp: set_all_blocks)
  then have "b \<in> set (all_blocks (copyMessages (FixToolPairings ord (MergeSplitMessages (HandleThinkingBlocks
      (StripInternalElementsWithErrors (FilterVirtualMessages (ReorderAttachments msgs)) (BuildErrorBlockMap errs)) family)))))"
    by (simp add: copyMessages_def fix_blocks [OF assms(1)] merge_blocks)
  then show ?thesis
    unfolding NormalizeMessages_def EnforceImmediateToolResults_def
    using set_mset_mono [OF enforce_keeps] by auto
qed

theorem normalization_keeps_content_witness:
  "text_block ''wait'' \<in> set (all_blocks (NormalizeMessages id sample_conversation ''deepseek'' [''image too large'']))"
proof (rule normalization_keeps_content)
  show "user_message [text_block ''wait''] \<in> set sample_conversation" by (simp add: sample_conversation_def)
  show "\<forall>types \<in> snd ` set (BuildErrorBlockMap [''image too large'']). block_type (text_block ''wait'') \<notin> set types"
    by code_simp
  show "\<not> isTruthy (fld (user_message [text_block ''wait'']) ''virtual'')"
    "\<not> isTruthy (fld (user_message [text_block ''wait'']) ''isVirtual'')"
    "block_type (text_block ''wait'') \<notin> set internalBlockTypes \<union> set thinkingBlockTypes"
    by code_simp+
qed simp_all

end
