(* ===== verification/Tool_Registry.thy ===== *)
theory Tool_Registry
  imports Agent_Normalize
begin

text \<open>
  \<open>tools/base.go\<close>, \<open>tools/registry.go\<close> and \<open>tools/deferred.go\<close>: what the runtime asks of a tool, and the
  registry that finds tools by name or alias and keeps the deferred ones apart until they are
  activated. A tool is an interface value, here the record of its answers; a decoded input is a JSON
  value, the nil input is \<open>None\<close>.
\<close>

section \<open>Tools\<close>

record Tool =
  tl_Name :: string
  tl_Aliases :: "string list"
  tl_DeprecatedAliases :: "(string \<times> string) list"
  tl_DecodeInput :: "gomap \<Rightarrow> json option"
  tl_IsReadOnly :: "json option \<Rightarrow> bool"
  tl_IsConcurrencySafe :: "json option \<Rightarrow> bool"
  tl_NeedsPermission :: "json option \<Rightarrow> bool"
  tl_IsDestructive :: "json option \<Rightarrow> bool"
  tl_HasCommandClassifier :: bool
  tl_ConfirmsFilePaths :: bool
  tl_SupportsSiblingAbort :: bool
  tl_IsEnabled :: bool
  tl_ShouldDefer :: bool
  tl_SearchHint :: string
  tl_SandboxSetupRequest :: "(json option \<Rightarrow> gomap option) option"
  tl_SandboxStatus :: "(bool \<times> string \<times> string) option"

text \<open>The last two are the optional interfaces: the metadata of a sandbox setup when one is needed, and
  whether the sandbox is available, its platform and its backend.\<close>

datatype ExecutionMode = ExecutionParallel | ExecutionExclusive

record ToolExecutionPolicy =
  po_Mode :: ExecutionMode
  po_RequiresPermission :: bool
  po_Risk :: string
  po_Destructive :: bool
  po_AbortSiblings :: bool

definition ResolveExecutionPolicy :: "Tool option \<Rightarrow> json option \<Rightarrow> ToolExecutionPolicy" where
  "ResolveExecutionPolicy tool input =
     (case tool of
        None \<Rightarrow> \<lparr>po_Mode = ExecutionExclusive, po_RequiresPermission = True, po_Risk = ''high'',
                 po_Destructive = True, po_AbortSiblings = False\<rparr>
      | Some t \<Rightarrow>
          \<lparr>po_Mode = (if tl_IsConcurrencySafe t input then ExecutionParallel else ExecutionExclusive),
           po_RequiresPermission = tl_NeedsPermission t input,
           po_Risk = (if tl_IsDestructive t input then ''high'' else ''normal''),
           po_Destructive = tl_IsDestructive t input, po_AbortSiblings = tl_SupportsSiblingAbort t\<rparr>)"

section \<open>Deferred tools\<close>

record DeferredToolIndex =
  di_tools :: "(string \<times> Tool) list"
  di_order :: "string list"

definition NewDeferredToolIndex :: DeferredToolIndex where
  "NewDeferredToolIndex = \<lparr>di_tools = [], di_order = []\<rparr>"

definition AddDeferred :: "Tool option \<Rightarrow> DeferredToolIndex \<Rightarrow> DeferredToolIndex" where
  "AddDeferred tool d =
     (case tool of
        None \<Rightarrow> d
      | Some t \<Rightarrow>
          d\<lparr>di_order := (if map_of (di_tools d) (tl_Name t) = None then di_order d @ [tl_Name t] else di_order d),
            di_tools := mput (tl_Name t) t (di_tools d)\<rparr>)"

definition DeferredNames :: "DeferredToolIndex \<Rightarrow> string list" where
  "DeferredNames d = filter (\<lambda>n. map_of (di_tools d) n \<noteq> None) (di_order d)"

definition Activate :: "string \<Rightarrow> DeferredToolIndex \<Rightarrow> DeferredToolIndex \<times> Tool option" where
  "Activate name d =
     (case map_of (di_tools d) name of
        Some t \<Rightarrow> (d\<lparr>di_tools := mdel name (di_tools d), di_order := remove1 name (di_order d)\<rparr>, Some t)
      | None \<Rightarrow> (d, None))"

text \<open>Names, hints and queries are compared in lower case; \<open>lower_view\<close> is exact for the ASCII text they
  consist of.\<close>

definition deferredToolScore :: "Tool \<Rightarrow> string list \<Rightarrow> nat" where
  "deferredToolScore tool keywords =
     (if keywords = [] then 1
      else sum_list (map (\<lambda>k. (if sublist k (lower_view (tl_Name tool)) then 3 else 0) +
                              (if sublist k (lower_view (tl_SearchHint tool)) then 1 else 0)) keywords))"

definition split_query :: "string \<Rightarrow> string \<times> string list" where
  "split_query query =
     (if HasPrefix query ''+'' then
        (let rest = tl query; first = takeWhile (\<lambda>c. c \<noteq> CHR '' '') rest
         in (lower_view first,
             if first = rest then [] else Fields (lower_view (drop (Suc (length first)) rest))))
      else ([], Fields (lower_view query)))"

definition SearchDeferredIndex :: "string \<Rightarrow> DeferredToolIndex \<Rightarrow> Tool list" where
  "SearchDeferredIndex query d =
     (if query = [] \<or> di_tools d = [] then []
      else if HasPrefix query ''select:'' then
        List.map_filter (\<lambda>n. let name = TrimSpace n in if name = [] then None else map_of (di_tools d) name)
          (split_on CHR '','' (drop 7 query))
      else
        (let (pre, keywords) = split_query query;
             matches = List.map_filter (\<lambda>name.
               case map_of (di_tools d) name of
                 None \<Rightarrow> None
               | Some t \<Rightarrow>
                   if pre \<noteq> [] \<and> \<not> HasPrefix (lower_view name) pre then None
                   else (let score = deferredToolScore t keywords
                         in if score > 0 \<or> keywords = [] then Some (t, score) else None)) (di_order d)
         in map fst (sort_key (\<lambda>p. - int (snd p)) matches)))"

section \<open>The registry\<close>

record ToolRegistry =
  tr_tools :: "(string \<times> Tool) list"
  tr_order :: "string list"
  tr_deferred :: DeferredToolIndex
  tr_aliases :: "(string \<times> string) list"
  tr_deprecated :: "(string \<times> string) list"

definition empty_registry :: ToolRegistry where
  "empty_registry = \<lparr>tr_tools = [], tr_order = [], tr_deferred = NewDeferredToolIndex, tr_aliases = [], tr_deprecated = []\<rparr>"

definition registerActive :: "Tool \<Rightarrow> string \<Rightarrow> ToolRegistry \<Rightarrow> ToolRegistry" where
  "registerActive tool name r =
     r\<lparr>tr_order := (if map_of (tr_tools r) name = None then tr_order r @ [name] else tr_order r),
       tr_tools := mput name tool (tr_tools r),
       tr_aliases := foldl (\<lambda>m a. mput a name m) (tr_aliases r) (tl_Aliases tool @ map fst (tl_DeprecatedAliases tool)),
       tr_deprecated := foldl (\<lambda>m (a, w). mput a w m) (tr_deprecated r) (tl_DeprecatedAliases tool)\<rparr>"

definition RegisterTool :: "Tool option \<Rightarrow> ToolRegistry \<Rightarrow> ToolRegistry" where
  "RegisterTool tool r =
     (case tool of
        None \<Rightarrow> r
      | Some t \<Rightarrow> if tl_ShouldDefer t then r\<lparr>tr_deferred := AddDeferred (Some t) (tr_deferred r)\<rparr>
                  else registerActive t (tl_Name t) r)"

definition NewToolRegistry :: "Tool option list \<Rightarrow> ToolRegistry" where
  "NewToolRegistry items = foldl (\<lambda>r t. RegisterTool t r) empty_registry items"

definition GetTool :: "ToolRegistry \<Rightarrow> string \<Rightarrow> Tool option" where
  "GetTool r name =
     (case map_of (tr_tools r) name of
        Some t \<Rightarrow> Some t
      | None \<Rightarrow> (case map_of (tr_aliases r) name of Some c \<Rightarrow> map_of (tr_tools r) c | None \<Rightarrow> None))"

definition ResolveName :: "ToolRegistry \<Rightarrow> string \<Rightarrow> string \<times> string" where
  "ResolveName r name =
     (if map_of (tr_tools r) name \<noteq> None then (name, [])
      else case map_of (tr_aliases r) name of Some c \<Rightarrow> (c, mget [] (tr_deprecated r) name) | None \<Rightarrow> ([], []))"

definition ListTools :: "ToolRegistry \<Rightarrow> Tool list" where
  "ListTools r = List.map_filter (map_of (tr_tools r)) (tr_order r)"

definition FilteredCopy :: "string list option \<Rightarrow> string list \<Rightarrow> bool \<Rightarrow> bool \<Rightarrow> ToolRegistry \<Rightarrow> ToolRegistry" where
  "FilteredCopy allow deny readOnlyOnly enabledOnly r =
     foldl (\<lambda>f t.
       if (enabledOnly \<and> \<not> tl_IsEnabled t) \<or>
          (case allow of None \<Rightarrow> False | Some names \<Rightarrow> tl_Name t \<notin> set names) \<or>
          tl_Name t \<in> set deny \<or> (readOnlyOnly \<and> \<not> tl_IsReadOnly t None)
       then f else RegisterTool (Some t) f) empty_registry (ListTools r)"

definition ActivateTool :: "string \<Rightarrow> ToolRegistry \<Rightarrow> ToolRegistry \<times> Tool option" where
  "ActivateTool name r =
     (case Activate name (tr_deferred r) of
        (d, None) \<Rightarrow> (r\<lparr>tr_deferred := d\<rparr>, None)
      | (d, Some t) \<Rightarrow> (registerActive t (tl_Name t) (r\<lparr>tr_deferred := d\<rparr>), Some t))"

definition GetReadOnlyTools :: "ToolRegistry \<Rightarrow> Tool list" where
  "GetReadOnlyTools r = filter (\<lambda>t. tl_IsReadOnly t None) (ListTools r)"

section \<open>Invariant\<close>

text \<open>The order lists each active tool once, a tool is filed under its own name, and aliases lead to
  active tools.\<close>

definition wf_registry :: "ToolRegistry \<Rightarrow> bool" where
  "wf_registry r \<longleftrightarrow>
     distinct (tr_order r) \<and> set (tr_order r) = dom (map_of (tr_tools r)) \<and>
     (\<forall>n t. map_of (tr_tools r) n = Some t \<longrightarrow> tl_Name t = n) \<and>
     ran (map_of (tr_aliases r)) \<subseteq> dom (map_of (tr_tools r))"

lemma map_of_foldl_mput:
  "map_of (foldl (\<lambda>m a. mput a v m) m as) = (\<lambda>x. if x \<in> set as then Some v else map_of m x)"
  by (induction as arbitrary: m) (auto simp: update_conv')

lemma registerActive_wf: "wf_registry r \<Longrightarrow> wf_registry (registerActive t (tl_Name t) r)"
  by (auto simp: wf_registry_def registerActive_def update_conv' map_of_foldl_mput ran_def dom_def split: if_splits)

lemma RegisterTool_wf: "wf_registry r \<Longrightarrow> wf_registry (RegisterTool t r)"
  by (auto simp: RegisterTool_def registerActive_wf split: option.splits) (simp add: wf_registry_def)

lemma empty_wf: "wf_registry empty_registry"
  by (simp add: wf_registry_def empty_registry_def)

lemma NewToolRegistry_wf: "wf_registry (NewToolRegistry items)"
  unfolding NewToolRegistry_def by (rule foldl_invariant) (auto intro: empty_wf RegisterTool_wf)

lemma ActivateTool_wf: "wf_registry r \<Longrightarrow> wf_registry (fst (ActivateTool name r))"
proof -
  assume "wf_registry r"
  then have "wf_registry (r\<lparr>tr_deferred := d\<rparr>)" for d by (simp add: wf_registry_def)
  then show ?thesis by (auto simp: ActivateTool_def registerActive_wf split: prod.splits option.splits)
qed

lemma set_map_filter_Some: "set (List.map_filter f xs) = {y. \<exists>x \<in> set xs. f x = Some y}"
  by (induction xs) (auto split: option.splits)

lemma set_ListTools: "wf_registry r \<Longrightarrow> set (ListTools r) = ran (map_of (tr_tools r))"
  by (force simp: ListTools_def wf_registry_def set_map_filter_Some ran_def)

inductive registry_reachable :: "ToolRegistry \<Rightarrow> bool" where
  built: "registry_reachable (NewToolRegistry items)"
| registered: "registry_reachable r \<Longrightarrow> registry_reachable (RegisterTool t r)"
| activated: "registry_reachable r \<Longrightarrow> registry_reachable (fst (ActivateTool name r))"

lemma registry_reachable_wf: "registry_reachable r \<Longrightarrow> wf_registry r"
  by (induction rule: registry_reachable.induct) (auto intro: NewToolRegistry_wf RegisterTool_wf ActivateTool_wf)

section \<open>Properties\<close>

text \<open>in every registry that can be built, lookup and listing agree: looking a name up gives the tool
  that its resolved name is filed under, every tool found is listed, under its own name, and the
  listing names no tool twice.\<close>

theorem registry_lookup_is_consistent:
  assumes "registry_reachable r" "GetTool r name = Some t"
  shows "tl_Name t = fst (ResolveName r name) \<and> t \<in> set (ListTools r) \<and> GetTool r (tl_Name t) = Some t \<and>
    distinct (map tl_Name (ListTools r))"
proof -
  have wf: "wf_registry r" using assms(1) by (rule registry_reachable_wf)
  from assms(2) obtain c where c: "map_of (tr_tools r) c = Some t" "c = fst (ResolveName r name)"
    by (auto simp: GetTool_def ResolveName_def split: option.splits)
  with wf have n: "tl_Name t = c" by (auto simp: wf_registry_def)
  have "t \<in> set (ListTools r)" using wf c(1) by (auto simp: set_ListTools ran_def)
  moreover have "map tl_Name (ListTools r) = tr_order r"
  proof -
    have "map tl_Name (List.map_filter (map_of (tr_tools r)) ns) = ns" if "set ns \<subseteq> dom (map_of (tr_tools r))" for ns
      using that wf by (induction ns) (auto simp: wf_registry_def)
    then show ?thesis using wf by (simp add: ListTools_def wf_registry_def)
  qed
  ultimately show ?thesis using c n wf by (simp add: GetTool_def wf_registry_def)
qed

definition sample_tool :: "string \<Rightarrow> string list \<Rightarrow> bool \<Rightarrow> Tool" where
  "sample_tool name aliases safe =
     \<lparr>tl_Name = name, tl_Aliases = aliases, tl_DeprecatedAliases = [], tl_DecodeInput = (\<lambda>m. Some (JObj m)),
      tl_IsReadOnly = (\<lambda>_. safe), tl_IsConcurrencySafe = (\<lambda>_. safe), tl_NeedsPermission = (\<lambda>_. \<not> safe),
      tl_IsDestructive = (\<lambda>_. False), tl_HasCommandClassifier = False, tl_ConfirmsFilePaths = False,
      tl_SupportsSiblingAbort = False, tl_IsEnabled = True, tl_ShouldDefer = False, tl_SearchHint = [],
      tl_SandboxSetupRequest = None, tl_SandboxStatus = None\<rparr>"

definition sample_registry :: ToolRegistry where
  "sample_registry = NewToolRegistry [Some (sample_tool ''read_file'' [''cat''] True), Some (sample_tool ''write_file'' [] False)]"

lemma sample_registry_get:
  "GetTool sample_registry ''cat'' = Some (sample_tool ''read_file'' [''cat''] True)"
  "GetTool sample_registry ''read_file'' = Some (sample_tool ''read_file'' [''cat''] True)"
  "GetTool sample_registry ''write_file'' = Some (sample_tool ''write_file'' [] False)"
  by (simp_all add: GetTool_def sample_registry_def NewToolRegistry_def RegisterTool_def registerActive_def empty_registry_def
      sample_tool_def)

theorem registry_lookup_is_consistent_witness:
  "fst (ResolveName sample_registry ''cat'') = ''read_file'' \<and>
   GetTool sample_registry ''read_file'' = GetTool sample_registry ''cat''"
proof -
  have "registry_reachable sample_registry" unfolding sample_registry_def by (rule built)
  from registry_lookup_is_consistent [OF this sample_registry_get(1)] show ?thesis
    by (simp add: sample_registry_get) (simp add: sample_tool_def)
qed

end
