(* ===== verification/Tool_Executor.thy ===== *)
theory Tool_Executor
  imports Tool_Registry
begin

text \<open>
  \<open>agent/tools_executor.go\<close>: the streaming tool executor. Calls that are safe to run concurrently form
  parallel groups, every other call is exclusive, and results are handed out in call order. Each
  stretch of code under \<open>mu\<close> is one function on the state; the code between two such stretches is a
  program point of a thread, so the threads of \<open>exec_step\<close> interleave as the goroutines do. What the
  journal observer, the tools and the cancellation of the parent context do is chosen by the step.
  Budgets for large results and the execution context that tools receive are left out.
\<close>

section \<open>State\<close>

datatype ToolState = ToolStateQueued | ToolStateExecuting | ToolStateCompleted | ToolStateAborted | ToolStateYielded

text \<open>\<open>sl_cancel\<close> is \<open>None\<close> while the slot has no cancel function, then whether it was called; \<open>sl_abort\<close> and
  \<open>sl_done\<close> tell whether the channel is closed.\<close>

record ToolSlot =
  sl_TC :: ToolCall
  sl_State :: ToolState
  sl_Result :: "gomap option"
  sl_IsError :: bool
  sl_Truncated :: string
  sl_PermissionGranted :: bool
  sl_cancel :: "bool option"
  sl_abort :: bool
  sl_done :: bool

record StreamingToolExecutor =
  ex_slots :: "(string \<times> ToolSlot) list"
  ex_toolOrder :: "string list"
  ex_cancelled :: bool
  ex_nonSafeRunning :: int
  ex_nonSafeFailed :: bool
  ex_permits :: nat
  ex_replacements :: "(string \<times> string) list"
  ex_activity :: bool
  ex_decisions :: "(string \<times> (string \<times> string) list) list"

definition DefaultMaxConcurrentSafeTools :: nat where
  "DefaultMaxConcurrentSafeTools = 10"

definition NewStreamingToolExecutor :: "int list \<Rightarrow> StreamingToolExecutor" where
  "NewStreamingToolExecutor maxConcurrentSafe =
     \<lparr>ex_slots = [], ex_toolOrder = [], ex_cancelled = False, ex_nonSafeRunning = 0, ex_nonSafeFailed = False,
      ex_permits = (case maxConcurrentSafe of n # _ \<Rightarrow> if n > 0 then nat n else DefaultMaxConcurrentSafeTools
                    | [] \<Rightarrow> DefaultMaxConcurrentSafeTools),
      ex_replacements = [], ex_activity = False, ex_decisions = []\<rparr>"

definition GetSlot :: "StreamingToolExecutor \<Rightarrow> string \<Rightarrow> ToolSlot option" where
  "GetSlot e i = map_of (ex_slots e) i"

definition upd_slot :: "string \<Rightarrow> (ToolSlot \<Rightarrow> ToolSlot) \<Rightarrow> StreamingToolExecutor \<Rightarrow> StreamingToolExecutor" where
  "upd_slot i f e = (case GetSlot e i of None \<Rightarrow> e | Some s \<Rightarrow> e\<lparr>ex_slots := mput i (f s) (ex_slots e)\<rparr>)"

definition signalActivity :: "StreamingToolExecutor \<Rightarrow> StreamingToolExecutor" where
  "signalActivity e = e\<lparr>ex_activity := True\<rparr>"

definition cancelAll :: "StreamingToolExecutor \<Rightarrow> StreamingToolExecutor" where
  "cancelAll e = e\<lparr>ex_cancelled := True\<rparr>"

definition terminal_state :: "ToolState \<Rightarrow> bool" where
  "terminal_state s \<longleftrightarrow> s = ToolStateCompleted \<or> s = ToolStateAborted \<or> s = ToolStateYielded"

section \<open>Scheduling\<close>

definition isSafeLocked :: "ToolRegistry \<Rightarrow> ToolCall \<Rightarrow> bool" where
  "isSafeLocked reg tc =
     (case GetTool reg (tc_Name tc) of
        None \<Rightarrow> False
      | Some t \<Rightarrow> tl_IsConcurrencySafe t (tl_DecodeInput t (tc_Input tc)))"

fun priors_ok :: "ToolRegistry \<Rightarrow> StreamingToolExecutor \<Rightarrow> string \<Rightarrow> bool \<Rightarrow> string list \<Rightarrow> bool" where
  "priors_ok reg e i safe [] = True"
| "priors_ok reg e i safe (p # ps) =
     (if p = i then True
      else case GetSlot e p of
        None \<Rightarrow> priors_ok reg e i safe ps
      | Some s \<Rightarrow>
          if \<not> safe \<and> \<not> terminal_state (sl_State s) then False
          else if safe \<and> \<not> isSafeLocked reg (sl_TC s) \<and> \<not> terminal_state (sl_State s) then False
          else priors_ok reg e i safe ps)"

definition canStartImmediatelyLocked :: "ToolRegistry \<Rightarrow> string \<Rightarrow> bool \<Rightarrow> StreamingToolExecutor \<Rightarrow> bool" where
  "canStartImmediatelyLocked reg i allowNonSafe e =
     (if ex_cancelled e then False
      else case GetSlot e i of
        None \<Rightarrow> False
      | Some s \<Rightarrow>
          sl_State s = ToolStateQueued \<and> (isSafeLocked reg (sl_TC s) \<or> allowNonSafe) \<and>
          priors_ok reg e i (isSafeLocked reg (sl_TC s)) (ex_toolOrder e) \<and> \<not> ex_nonSafeRunning e > 0)"

definition queued_slot :: "ToolCall \<Rightarrow> ToolSlot" where
  "queued_slot tc =
     \<lparr>sl_TC = tc, sl_State = ToolStateQueued, sl_Result = None, sl_IsError = False, sl_Truncated = [],
      sl_PermissionGranted = False, sl_cancel = None, sl_abort = False, sl_done = False\<rparr>"

text \<open>Both report whether the caller goes on to launch the call.\<close>

definition AddTool :: "ToolRegistry \<Rightarrow> ToolCall \<Rightarrow> StreamingToolExecutor \<Rightarrow> StreamingToolExecutor \<times> bool" where
  "AddTool reg tc e =
     (let e' = e\<lparr>ex_slots := mput (tc_ID tc) (queued_slot tc) (ex_slots e), ex_toolOrder := ex_toolOrder e @ [tc_ID tc]\<rparr>
      in (e', canStartImmediatelyLocked reg (tc_ID tc) False e'))"

definition TryStartQueued :: "ToolRegistry \<Rightarrow> string \<Rightarrow> StreamingToolExecutor \<Rightarrow> StreamingToolExecutor \<times> bool" where
  "TryStartQueued reg i e =
     (case GetSlot e i of
        None \<Rightarrow> (e, False)
      | Some s \<Rightarrow>
          if sl_State s \<noteq> ToolStateQueued then (e, False)
          else (let e' = upd_slot i (\<lambda>s. s\<lparr>sl_PermissionGranted := True\<rparr>) e
                in (e', canStartImmediatelyLocked reg i True e')))"

definition SetToolDecisionMapValue :: "string \<Rightarrow> string \<Rightarrow> string \<Rightarrow> StreamingToolExecutor \<Rightarrow> StreamingToolExecutor" where
  "SetToolDecisionMapValue mapKey i value e =
     (if mapKey = [] \<or> i = [] then e
      else e\<lparr>ex_decisions := mput mapKey (mput i value (mget [] (ex_decisions e) mapKey)) (ex_decisions e)\<rparr>)"

text \<open>The first exclusive call that may start ends the second loop of \<open>maybeDrain\<close>.\<close>

definition maybeDrain :: "ToolRegistry \<Rightarrow> StreamingToolExecutor \<Rightarrow> string list" where
  "maybeDrain reg e =
     (if ex_cancelled e then []
      else filter (\<lambda>i. case GetSlot e i of None \<Rightarrow> False
                       | Some s \<Rightarrow> sl_State s = ToolStateQueued \<and> isSafeLocked reg (sl_TC s) \<and>
                                   canStartImmediatelyLocked reg i False e) (ex_toolOrder e) @
           (case find (\<lambda>i. case GetSlot e i of None \<Rightarrow> False
                           | Some s \<Rightarrow> sl_State s = ToolStateQueued \<and> \<not> isSafeLocked reg (sl_TC s) \<and>
                                       sl_PermissionGranted s \<and> canStartImmediatelyLocked reg i True e) (ex_toolOrder e) of
              None \<Rightarrow> [] | Some i \<Rightarrow> [i]))"

section \<open>Results\<close>

definition denied_text :: string where "denied_text = ''User denied this action.''"

text \<open>\<open>journal\<close> is the error of the observer, which cancels the whole executor.\<close>

definition DenyTool :: "string option \<Rightarrow> string \<Rightarrow> StreamingToolExecutor \<Rightarrow> StreamingToolExecutor" where
  "DenyTool journal i e =
     (case GetSlot e i of
        None \<Rightarrow> e
      | Some _ \<Rightarrow>
          (let (msg, e1) = (case journal of
                 None \<Rightarrow> (denied_text, e)
               | Some err \<Rightarrow> (''Runtime journal failed before permission denial was committed: '' @ err, cancelAll e))
           in signalActivity (upd_slot i (\<lambda>s. s\<lparr>sl_State := ToolStateCompleted,
                sl_Result := Some (tool_result_block i msg), sl_IsError := False\<rparr>) e1)))"

definition IsQueued :: "string \<Rightarrow> StreamingToolExecutor \<Rightarrow> bool" where
  "IsQueued i e = (case GetSlot e i of None \<Rightarrow> False | Some s \<Rightarrow> sl_State s = ToolStateQueued)"

definition IsRunning :: "string \<Rightarrow> StreamingToolExecutor \<Rightarrow> bool" where
  "IsRunning i e = (case GetSlot e i of None \<Rightarrow> False | Some s \<Rightarrow> sl_State s = ToolStateExecuting)"

fun yield_ready :: "string list \<Rightarrow> (string \<times> ToolSlot) list \<Rightarrow> (string \<times> ToolSlot) list \<times> gomap list" where
  "yield_ready [] sl = (sl, [])"
| "yield_ready (i # is) sl =
     (case map_of sl i of
        None \<Rightarrow> yield_ready is sl
      | Some s \<Rightarrow>
          if sl_State s = ToolStateYielded then yield_ready is sl
          else if sl_State s = ToolStateCompleted \<or> sl_State s = ToolStateAborted then
            (case yield_ready is (mput i (s\<lparr>sl_State := ToolStateYielded\<rparr>) sl) of
               (sl', rs) \<Rightarrow> (sl', case sl_Result s of None \<Rightarrow> rs | Some r \<Rightarrow> r # rs))
          else (sl, []))"

definition GetCompletedResults :: "StreamingToolExecutor \<Rightarrow> StreamingToolExecutor \<times> gomap list" where
  "GetCompletedResults e =
     (case yield_ready (ex_toolOrder e) (ex_slots e) of (sl, rs) \<Rightarrow> (e\<lparr>ex_slots := sl\<rparr>, rs))"

definition HasPendingWork :: "StreamingToolExecutor \<Rightarrow> bool" where
  "HasPendingWork e = list_ex (\<lambda>(_, s). sl_State s = ToolStateQueued \<or> sl_State s = ToolStateExecuting) (ex_slots e)"

definition hasRunningWork :: "StreamingToolExecutor \<Rightarrow> bool" where
  "hasRunningWork e = list_ex (\<lambda>(_, s). sl_State s = ToolStateExecuting) (ex_slots e)"

text \<open>The results that \<open>GetRemainingResults\<close> collects, before any budget is applied.\<close>

definition remaining_results :: "StreamingToolExecutor \<Rightarrow> gomap list" where
  "remaining_results e =
     List.map_filter (\<lambda>i. case GetSlot e i of
       None \<Rightarrow> None | Some s \<Rightarrow> if sl_State s = ToolStateYielded then None else sl_Result s) (ex_toolOrder e)"

definition totalToolResultContentChars :: "gomap list \<Rightarrow> nat" where
  "totalToolResultContentChars results = sum_list (map (\<lambda>r. rune_count (stringFromAny (fld r ''content''))) results)"

definition long_dash :: string where "long_dash = [CHR 0xE2, CHR 0x80, CHR 0x94]"

definition aborts_with :: "ToolRegistry \<Rightarrow> string \<Rightarrow> string \<times> ToolSlot \<Rightarrow> bool" where
  "aborts_with reg failedID p \<longleftrightarrow>
     fst p \<noteq> failedID \<and> (sl_State (snd p) = ToolStateQueued \<or> sl_State (snd p) = ToolStateExecuting) \<and>
     (case GetTool reg (tc_Name (sl_TC (snd p))) of None \<Rightarrow> False | Some t \<Rightarrow> tl_SupportsSiblingAbort t)"

definition abort_slot :: "string \<Rightarrow> string \<Rightarrow> string \<Rightarrow> ToolSlot \<Rightarrow> ToolSlot" where
  "abort_slot failedName failedID i s =
     s\<lparr>sl_abort := True, sl_cancel := map_option (\<lambda>_. True) (sl_cancel s), sl_State := ToolStateAborted, sl_IsError := True,
       sl_Result := Some (tool_result_block i (''Execution aborted '' @ long_dash @ '' sibling bash tool '' @ [CHR 0x27] @
         failedName @ [CHR 0x27] @ '' ('' @ failedID @ '') failed.''))\<rparr>"

definition AbortSiblings :: "ToolRegistry \<Rightarrow> string \<Rightarrow> StreamingToolExecutor \<Rightarrow> StreamingToolExecutor" where
  "AbortSiblings reg failedID e =
     (case GetSlot e failedID of
        None \<Rightarrow> e
      | Some failed \<Rightarrow>
          (let e1 = e\<lparr>ex_slots := map (\<lambda>p. if aborts_with reg failedID p
                       then (fst p, abort_slot (tc_Name (sl_TC failed)) failedID (fst p) (snd p)) else p) (ex_slots e)\<rparr>
           in if list_ex (aborts_with reg failedID) (ex_slots e) then signalActivity (cancelAll e1) else e1))"

definition finishResult :: "string \<Rightarrow> string \<Rightarrow> string \<Rightarrow> bool \<Rightarrow> StreamingToolExecutor \<Rightarrow> StreamingToolExecutor" where
  "finishResult i content truncated isError e =
     upd_slot i (\<lambda>s. s\<lparr>sl_Truncated := truncated, sl_IsError := isError, sl_Result := Some (tool_result_block i content)\<rparr>) e"

definition finishCancelled :: "string \<Rightarrow> string \<Rightarrow> StreamingToolExecutor \<Rightarrow> StreamingToolExecutor" where
  "finishCancelled i content e = finishResult i content content True e"

definition preserveAbortResult :: "string \<Rightarrow> StreamingToolExecutor \<Rightarrow> bool" where
  "preserveAbortResult i e = (case GetSlot e i of None \<Rightarrow> False | Some s \<Rightarrow> sl_Result s \<noteq> None)"

definition abortSignalled :: "string \<Rightarrow> StreamingToolExecutor \<Rightarrow> bool" where
  "abortSignalled i e = (case GetSlot e i of None \<Rightarrow> False | Some s \<Rightarrow> sl_abort s)"

section \<open>Launching\<close>

text \<open>The three stretches of \<open>launch\<close> under the lock: reserving the slot, giving up when the observer
  fails, and starting the goroutine. \<open>None\<close> is an early return.\<close>

definition launch_reserve :: "ToolRegistry \<Rightarrow> string \<Rightarrow> StreamingToolExecutor \<Rightarrow> (StreamingToolExecutor \<times> bool) option" where
  "launch_reserve reg i e =
     (case GetSlot e i of
        None \<Rightarrow> None
      | Some s \<Rightarrow>
          if sl_State s \<noteq> ToolStateQueued then None
          else Some (upd_slot i (\<lambda>s. s\<lparr>sl_State := ToolStateExecuting\<rparr>) e, isSafeLocked reg (sl_TC s)))"

definition launch_fail :: "string \<Rightarrow> string \<Rightarrow> StreamingToolExecutor \<Rightarrow> StreamingToolExecutor" where
  "launch_fail err i e =
     signalActivity (cancelAll (if IsRunning i e then
       upd_slot i (\<lambda>s. s\<lparr>sl_State := ToolStateCompleted, sl_IsError := True,
         sl_Result := Some (tool_result_block i (''Runtime journal failed before tool execution: '' @ err)), sl_done := True\<rparr>) e
       else e))"

definition launch_start :: "string \<Rightarrow> bool \<Rightarrow> StreamingToolExecutor \<Rightarrow> StreamingToolExecutor option" where
  "launch_start i safe e =
     (if \<not> IsRunning i e then None
      else Some ((upd_slot i (\<lambda>s. s\<lparr>sl_cancel := Some (ex_cancelled e)\<rparr>) e)
             \<lparr>ex_nonSafeRunning := (if safe then ex_nonSafeRunning e else ex_nonSafeRunning e + 1)\<rparr>))"

section \<open>Running a tool\<close>

definition store_replacement :: "string \<Rightarrow> string \<Rightarrow> StreamingToolExecutor \<Rightarrow> StreamingToolExecutor" where
  "store_replacement i v e = e\<lparr>ex_replacements := mput i v (ex_replacements e)\<rparr>"

text \<open>After an exclusive call failed: everything that still runs is told to stop.\<close>

definition stop_others :: "string \<Rightarrow> StreamingToolExecutor \<Rightarrow> StreamingToolExecutor" where
  "stop_others i e =
     cancelAll (e\<lparr>ex_nonSafeFailed := True, ex_slots := map (\<lambda>p. if fst p \<noteq> i \<and> sl_State (snd p) = ToolStateExecuting
        then (fst p, (snd p)\<lparr>sl_abort := True, sl_cancel := map_option (\<lambda>_. True) (sl_cancel (snd p))\<rparr>) else p) (ex_slots e)\<rparr>)"

text \<open>The deferred function of \<open>executeOne\<close> under the lock; \<open>None\<close> is the panic of closing \<open>done\<close> again.\<close>

definition exec_final :: "string \<Rightarrow> bool \<Rightarrow> bool \<Rightarrow> StreamingToolExecutor \<Rightarrow> StreamingToolExecutor option" where
  "exec_final i safe holds e =
     (let e1 = e\<lparr>ex_permits := (if holds then Suc (ex_permits e) else ex_permits e),
                ex_nonSafeRunning := (if safe then ex_nonSafeRunning e else ex_nonSafeRunning e - 1)\<rparr>
      in case GetSlot e i of
           None \<Rightarrow> Some e1
         | Some s \<Rightarrow>
             if sl_done s then None
             else Some (upd_slot i (\<lambda>s. s\<lparr>sl_State := (if sl_State s = ToolStateAborted then ToolStateAborted else ToolStateCompleted),
                    sl_done := True\<rparr>) e1))"

section \<open>Threads\<close>

text \<open>Program points outside the lock: about to launch, reserved and waiting for the journal, the stages of
  \<open>executeOne\<close>, the notification of the journal, and the drain that follows it. The flag is whether the
  call is safe; the flag of \<open>TFinal\<close> is whether it holds a permit of the semaphore.\<close>

datatype thread =
    TLaunch string
  | TReserved string bool
  | TExec string bool
  | TReady string bool
  | TAcquire string bool
  | TRun string bool
  | TResult string bool string bool
  | TPublish string bool string bool
  | TSiblings string bool
  | TStop string
  | TFinal string bool bool
  | TNotify string
  | TDrain

fun runs :: "thread \<Rightarrow> (string \<times> bool) option" where
  "runs (TExec i b) = Some (i, b)"
| "runs (TReady i b) = Some (i, b)"
| "runs (TAcquire i b) = Some (i, b)"
| "runs (TRun i b) = Some (i, b)"
| "runs (TResult i b c x) = Some (i, b)"
| "runs (TPublish i b c x) = Some (i, b)"
| "runs (TSiblings i b) = Some (i, b)"
| "runs (TStop i) = Some (i, False)"
| "runs (TFinal i b h) = Some (i, b)"
| "runs _ = None"

fun owner :: "thread \<Rightarrow> (string \<times> bool) option" where
  "owner (TReserved i b) = Some (i, b)"
| "owner t = runs t"

definition cancel_text :: string where
  "cancel_text = ''Execution cancelled '' @ long_dash @ '' a prior write tool failed.''"

definition sibling_text :: string where
  "sibling_text = ''Execution aborted '' @ long_dash @ '' sibling tool failed.''"

definition panic_text :: "string \<Rightarrow> string" where
  "panic_text v = ''<tool_use_error>'' @ [CHR 0x0A] @ ''Tool execution panic: '' @ v @ [CHR 0x0A] @ ''</tool_use_error>''"

definition abort_capable :: "ToolRegistry \<Rightarrow> string \<Rightarrow> StreamingToolExecutor \<Rightarrow> bool" where
  "abort_capable reg i e =
     (case GetSlot e i of None \<Rightarrow> False
      | Some s \<Rightarrow> (case GetTool reg (tc_Name (sl_TC s)) of None \<Rightarrow> False | Some t \<Rightarrow> tl_SupportsSiblingAbort t))"

definition context_cancelled :: "string \<Rightarrow> StreamingToolExecutor \<Rightarrow> bool" where
  "context_cancelled i e \<longleftrightarrow> ex_cancelled e \<or> (case GetSlot e i of None \<Rightarrow> False | Some s \<Rightarrow> sl_cancel s = Some True)"

text \<open>One step of one thread: the state it leaves and the threads that replace it. A cached replacement may
  come from the executor or from the run's services, so any text is possible.\<close>

inductive thread_step :: "ToolRegistry \<Rightarrow> StreamingToolExecutor \<Rightarrow> thread \<Rightarrow> StreamingToolExecutor \<Rightarrow> thread list \<Rightarrow> bool"
  for reg :: ToolRegistry where
  reserve: "launch_reserve reg i e = Some (e', b) \<Longrightarrow> thread_step reg e (TLaunch i) e' [TReserved i b]"
| no_longer_queued: "launch_reserve reg i e = None \<Longrightarrow> thread_step reg e (TLaunch i) e []"
| journal_failed: "thread_step reg e (TReserved i b) (launch_fail err i e) []"
| started: "launch_start i b e = Some e' \<Longrightarrow> thread_step reg e (TReserved i b) e' [TExec i b]"
| no_longer_reserved: "launch_start i b e = None \<Longrightarrow> thread_step reg e (TReserved i b) e []"
| already_cancelled: "ex_cancelled e \<or> abortSignalled i e \<Longrightarrow>
    thread_step reg e (TExec i b) (finishCancelled i cancel_text e) [TFinal i b False]"
| goes_on: "\<not> (ex_cancelled e \<or> abortSignalled i e) \<Longrightarrow> thread_step reg e (TExec i b) e [TReady i b]"
| cached: "thread_step reg e (TReady i b) (finishResult i c c False e) [TFinal i b False]"
| not_cached: "map_of (ex_replacements e) i = None \<Longrightarrow> thread_step reg e (TReady i b) e [TAcquire i b]"
| acquired: "0 < ex_permits e \<Longrightarrow> thread_step reg e (TAcquire i True) (e\<lparr>ex_permits := ex_permits e - 1\<rparr>) [TRun i True]"
| not_acquired: "context_cancelled i e \<Longrightarrow>
    thread_step reg e (TAcquire i True) (finishCancelled i ''Execution cancelled before tool start.'' e) [TFinal i True False]"
| exclusive: "thread_step reg e (TAcquire i False) e [TRun i False]"
| returned: "thread_step reg e (TRun i b) e [TResult i b c x]"
| panicked: "thread_step reg e (TRun i b) (finishResult i (panic_text v) (panic_text w) True e) [TFinal i b b]"
| told_to_stop: "abortSignalled i e \<Longrightarrow>
    thread_step reg e (TResult i b c x) (if preserveAbortResult i e then e else finishCancelled i sibling_text e) [TFinal i b b]"
| stored: "\<not> abortSignalled i e \<Longrightarrow> x \<longrightarrow> t = c \<Longrightarrow>
    thread_step reg e (TResult i b c x) (store_replacement i t e) [TPublish i b t x]"
| published: "thread_step reg e (TPublish i b t x) (finishResult i t t x e) [if x then TSiblings i b else TFinal i b b]"
| siblings: "thread_step reg e (TSiblings i b) (if abort_capable reg i e then AbortSiblings reg i e else e)
    [if b then TFinal i b b else TStop i]"
| stopped: "thread_step reg e (TStop i) (stop_others i e) [TFinal i False False]"
| finished: "exec_final i b h e = Some e' \<Longrightarrow> thread_step reg e (TFinal i b h) e' [TNotify i]"
| notified: "thread_step reg e (TNotify i) e [TDrain]"
| notify_failed: "thread_step reg e (TNotify i) (cancelAll e) [TDrain]"
| drained: "thread_step reg e TDrain (signalActivity e) (map TLaunch (maybeDrain reg e))"

type_synonym exec_world = "StreamingToolExecutor \<times> thread multiset"

text \<open>Steps of the threads and of the code that uses the executor. Call identifiers are new.\<close>

inductive exec_step :: "ToolRegistry \<Rightarrow> exec_world \<Rightarrow> exec_world \<Rightarrow> bool" for reg :: ToolRegistry where
  thread: "thread_step reg e t e' ts \<Longrightarrow> exec_step reg (e, add_mset t M) (e', mset ts + M)"
| added: "tc_ID tc \<notin> set (ex_toolOrder e) \<Longrightarrow> AddTool reg tc e = (e', c) \<Longrightarrow>
    exec_step reg (e, M) (e', if c then add_mset (TLaunch (tc_ID tc)) M else M)"
| tried: "TryStartQueued reg i e = (e', c) \<Longrightarrow> exec_step reg (e, M) (e', if c then add_mset (TLaunch i) M else M)"
| denied: "exec_step reg (e, M) (DenyTool journal i e, M)"
| collected: "GetCompletedResults e = (e', rs) \<Longrightarrow> exec_step reg (e, M) (e', M)"
| aborted: "exec_step reg (e, M) (AbortSiblings reg i e, M)"
| cancelled: "exec_step reg (e, M) (cancelAll e, M)"
| decided: "exec_step reg (e, M) (SetToolDecisionMapValue k i v e, M)"
| consumer_drains: "exec_step reg (e, M) (e, mset (map TLaunch (maybeDrain reg e)) + M)"

inductive exec_reachable :: "ToolRegistry \<Rightarrow> exec_world \<Rightarrow> bool" for reg :: ToolRegistry where
  new_executor: "exec_reachable reg (NewStreamingToolExecutor limit, {#})"
| next_state: "exec_reachable reg w \<Longrightarrow> exec_step reg w w' \<Longrightarrow> exec_reachable reg w'"

inductive_cases thread_stepE: "thread_step reg e t e' ts"
inductive_cases exec_stepE: "exec_step reg (e, M) w'"

section \<open>Positions in call order\<close>

definition earlier :: "string list \<Rightarrow> string \<Rightarrow> string set" where
  "earlier order j = set (takeWhile (\<lambda>x. x \<noteq> j) order)"

lemma earlier_total: "i \<in> set xs \<Longrightarrow> j \<in> set xs \<Longrightarrow> i \<noteq> j \<Longrightarrow> i \<in> earlier xs j \<or> j \<in> earlier xs i"
  by (induction xs) (auto simp: earlier_def)

lemma earlier_asym: "i \<in> earlier xs j \<Longrightarrow> j \<notin> earlier xs i"
  by (induction xs) (auto simp: earlier_def split: if_splits)

lemma earlier_irrefl: "j \<notin> earlier xs j"
  by (auto simp: earlier_def dest: set_takeWhileD)

lemma earlier_append: "j \<in> set xs \<Longrightarrow> earlier (xs @ ys) j = earlier xs j"
  by (simp add: earlier_def takeWhile_append1)

lemma earlier_subset: "earlier xs j \<subseteq> set xs"
  by (auto simp: earlier_def dest: set_takeWhileD)

lemma priors_ok_iff:
  "priors_ok reg e i safe xs \<longleftrightarrow>
   (\<forall>p \<in> earlier xs i. \<forall>s. GetSlot e p = Some s \<longrightarrow> \<not> (safe \<and> isSafeLocked reg (sl_TC s)) \<longrightarrow> terminal_state (sl_State s))"
  by (induction xs) (auto simp: earlier_def split: option.splits)

section \<open>Slots under change\<close>

text \<open>A slot that moves on: same call, terminal stays terminal, a permission stays granted, nothing newly
  executes or is queued.\<close>

definition calmer :: "ToolSlot \<Rightarrow> ToolSlot \<Rightarrow> bool" where
  "calmer s s' \<longleftrightarrow> sl_TC s' = sl_TC s \<and> (sl_PermissionGranted s \<longrightarrow> sl_PermissionGranted s') \<and>
     (terminal_state (sl_State s) \<longrightarrow> terminal_state (sl_State s')) \<and>
     (sl_State s' = ToolStateExecuting \<longrightarrow> sl_State s = ToolStateExecuting) \<and>
     (sl_State s' = ToolStateQueued \<longrightarrow> sl_State s = ToolStateQueued \<and> sl_done s' = sl_done s)"

definition calm :: "string set \<Rightarrow> StreamingToolExecutor \<Rightarrow> StreamingToolExecutor \<Rightarrow> bool" where
  "calm D e e' \<longleftrightarrow> ex_toolOrder e' = ex_toolOrder e \<and>
     (\<forall>i. rel_option (\<lambda>s s'. calmer s s' \<and> (i \<notin> D \<longrightarrow> sl_done s' = sl_done s)) (GetSlot e i) (GetSlot e' i))"

lemma calmer_refl [simp]: "calmer s s"
  by (simp add: calmer_def)

lemma rel_option_slot: "(\<And>s. x = Some s \<Longrightarrow> R s s) \<Longrightarrow> rel_option R x x"
  by (cases x) auto

lemma calm_same: "ex_toolOrder e' = ex_toolOrder e \<Longrightarrow> ex_slots e' = ex_slots e \<Longrightarrow> calm D e e'"
  by (auto simp: calm_def GetSlot_def intro: rel_option_slot)

lemma GetSlot_upd: "GetSlot (upd_slot i f e) j = (if j = i then map_option f (GetSlot e i) else GetSlot e j)"
  by (auto simp: upd_slot_def GetSlot_def update_conv' split: option.splits)

lemma upd_slot_sel [simp]:
  "ex_toolOrder (upd_slot i f e) = ex_toolOrder e" "ex_cancelled (upd_slot i f e) = ex_cancelled e"
  "ex_nonSafeRunning (upd_slot i f e) = ex_nonSafeRunning e" "ex_permits (upd_slot i f e) = ex_permits e"
  by (auto simp: upd_slot_def split: option.splits)

lemma calm_upd:
  assumes "\<And>s. GetSlot e i = Some s \<Longrightarrow> calmer s (f s) \<and> (i \<notin> D \<longrightarrow> sl_done (f s) = sl_done s)"
  shows "calm D e (upd_slot i f e)"
  unfolding calm_def
proof (intro conjI allI)
  fix j
  show "rel_option (\<lambda>s s'. calmer s s' \<and> (j \<notin> D \<longrightarrow> sl_done s' = sl_done s)) (GetSlot e j) (GetSlot (upd_slot i f e) j)"
    using assms by (cases "GetSlot e j") (auto simp: GetSlot_upd)
qed simp

lemma map_of_map_snd: "map_of (map (\<lambda>p. (fst p, g (fst p) (snd p))) m) i = map_option (g i) (map_of m i)"
  by (induction m) auto

lemma calm_map:
  assumes "\<And>i s. GetSlot e i = Some s \<Longrightarrow> calmer s (g i s) \<and> sl_done (g i s) = sl_done s"
    "ex_slots e' = map (\<lambda>p. (fst p, g (fst p) (snd p))) (ex_slots e)" "ex_toolOrder e' = ex_toolOrder e"
  shows "calm D e e'"
  unfolding calm_def
proof (intro conjI allI)
  fix i
  have "GetSlot e' i = map_option (g i) (GetSlot e i)" by (simp add: GetSlot_def assms(2) map_of_map_snd)
  then show "rel_option (\<lambda>s s'. calmer s s' \<and> (i \<notin> D \<longrightarrow> sl_done s' = sl_done s)) (GetSlot e i) (GetSlot e' i)"
    using assms(1) [of i] by (cases "GetSlot e i") auto
qed (rule assms(3))

lemma calm_trans: "calm D e1 e2 \<Longrightarrow> calm D e2 e3 \<Longrightarrow> calm D e1 e3"
proof -
  assume a: "calm D e1 e2" "calm D e2 e3"
  have "rel_option (\<lambda>s s'. calmer s s' \<and> (i \<notin> D \<longrightarrow> sl_done s' = sl_done s)) (GetSlot e1 i) (GetSlot e3 i)" for i
  proof -
    have "rel_option (\<lambda>s s'. calmer s s' \<and> (i \<notin> D \<longrightarrow> sl_done s' = sl_done s)) (GetSlot e1 i) (GetSlot e2 i)"
      "rel_option (\<lambda>s s'. calmer s s' \<and> (i \<notin> D \<longrightarrow> sl_done s' = sl_done s)) (GetSlot e2 i) (GetSlot e3 i)"
      using a by (auto simp: calm_def)
    then show ?thesis
      by (cases "GetSlot e1 i"; cases "GetSlot e2 i"; cases "GetSlot e3 i") (auto simp: calmer_def)
  qed
  with a show ?thesis by (auto simp: calm_def)
qed

lemma calm_slot:
  assumes "calm D e e'" "GetSlot e' i = Some s'"
  obtains s where "GetSlot e i = Some s" "calmer s s'" "i \<notin> D \<Longrightarrow> sl_done s' = sl_done s"
proof -
  have "rel_option (\<lambda>s s'. calmer s s' \<and> (i \<notin> D \<longrightarrow> sl_done s' = sl_done s)) (GetSlot e i) (GetSlot e' i)"
    using assms(1) by (simp add: calm_def)
  then show thesis using assms(2) that by (cases "GetSlot e i") auto
qed

lemma calm_slot_fwd:
  assumes "calm D e e'" "GetSlot e i = Some s"
  obtains s' where "GetSlot e' i = Some s'" "calmer s s'" "i \<notin> D \<Longrightarrow> sl_done s' = sl_done s"
proof -
  have "rel_option (\<lambda>s s'. calmer s s' \<and> (i \<notin> D \<longrightarrow> sl_done s' = sl_done s)) (GetSlot e i) (GetSlot e' i)"
    using assms(1) by (simp add: calm_def)
  then show thesis using assms(2) that by (cases "GetSlot e' i") auto
qed

lemma finishResult_calm: "calm D e (finishResult i c t x e)"
  unfolding finishResult_def by (rule calm_upd) (simp add: calmer_def)

lemma finishCancelled_calm: "calm D e (finishCancelled i c e)"
  unfolding finishCancelled_def by (rule finishResult_calm)

lemma cancelAll_calm: "calm D e (cancelAll e)"
  by (rule calm_same) (simp_all add: cancelAll_def)

lemma signalActivity_calm: "calm D e (signalActivity e)"
  by (rule calm_same) (simp_all add: signalActivity_def)

lemma AbortSiblings_calm: "calm D e (AbortSiblings reg i e)"
proof (cases "GetSlot e i")
  case None
  then show ?thesis by (simp add: AbortSiblings_def calm_same)
next
  case (Some f)
  let ?g = "\<lambda>k s. if aborts_with reg i (k, s) then abort_slot (tc_Name (sl_TC f)) i k s else s"
  have "ex_slots (AbortSiblings reg i e) = map (\<lambda>p. (fst p, ?g (fst p) (snd p))) (ex_slots e)"
    by (auto simp: AbortSiblings_def Some Let_def signalActivity_def cancelAll_def)
  moreover have "ex_toolOrder (AbortSiblings reg i e) = ex_toolOrder e"
    by (simp add: AbortSiblings_def Some Let_def signalActivity_def cancelAll_def)
  moreover have "calmer s (?g k s) \<and> sl_done (?g k s) = sl_done s" for k s
    by (auto simp: calmer_def abort_slot_def aborts_with_def terminal_state_def)
  ultimately show ?thesis by (intro calm_map [where g = ?g]) auto
qed

lemma stop_others_calm: "calm D e (stop_others i e)"
proof -
  let ?g = "\<lambda>k s. if k \<noteq> i \<and> sl_State s = ToolStateExecuting
    then s\<lparr>sl_abort := True, sl_cancel := map_option (\<lambda>_. True) (sl_cancel s)\<rparr> else s"
  have "ex_slots (stop_others i e) = map (\<lambda>p. (fst p, ?g (fst p) (snd p))) (ex_slots e)"
    by (auto simp: stop_others_def cancelAll_def)
  then show ?thesis
    by (rule calm_map [where g = ?g, rotated]) (auto simp: stop_others_def cancelAll_def calmer_def)
qed

lemma DenyTool_calm: "calm D e (DenyTool j i e)"
proof -
  have "calm D e (signalActivity (upd_slot i (\<lambda>s. s\<lparr>sl_State := ToolStateCompleted,
      sl_Result := Some r, sl_IsError := False\<rparr>) e1))" if "calm D e e1" for e1 r
    by (rule calm_trans [OF calm_trans [OF that calm_upd] signalActivity_calm]) (simp add: calmer_def terminal_state_def)
  then show ?thesis
    by (auto simp: DenyTool_def calm_same cancelAll_calm split: option.splits)
qed

lemma launch_fail_calm: "i \<in> D \<Longrightarrow> calm D e (launch_fail err i e)"
  unfolding launch_fail_def
  by (rule calm_trans [OF calm_trans [OF _ cancelAll_calm] signalActivity_calm])
    (auto intro!: calm_upd calm_same simp: calmer_def terminal_state_def)

lemma exec_final_calm: "exec_final i b h e = Some e' \<Longrightarrow> i \<in> D \<Longrightarrow> calm D e e'"
proof -
  assume f: "exec_final i b h e = Some e'" "i \<in> D"
  let ?e1 = "e\<lparr>ex_permits := (if h then Suc (ex_permits e) else ex_permits e),
                ex_nonSafeRunning := (if b then ex_nonSafeRunning e else ex_nonSafeRunning e - 1)\<rparr>"
  have "calm D e ?e1" by (rule calm_same) simp_all
  moreover have "calm D ?e1 (upd_slot i (\<lambda>s. s\<lparr>sl_State := (if sl_State s = ToolStateAborted then ToolStateAborted else ToolStateCompleted),
      sl_done := True\<rparr>) ?e1)"
    by (rule calm_upd) (use f(2) in \<open>simp add: calmer_def terminal_state_def\<close>)
  ultimately show ?thesis
    using f(1) by (auto simp: exec_final_def Let_def split: option.splits if_splits intro: calm_trans)
qed

lemma yield_ready_slots:
  "yield_ready is sl = (sl', rs) \<Longrightarrow>
   rel_option (\<lambda>s s'. calmer s s' \<and> sl_done s' = sl_done s) (map_of sl i) (map_of sl' i)"
proof (induction "is" sl arbitrary: sl' rs rule: yield_ready.induct)
  case (1 sl)
  then show ?case by (auto intro: rel_option_slot)
next
  case (2 k ks sl)
  show ?case
  proof (cases "map_of sl k")
    case None
    with 2 show ?thesis by simp
  next
    case (Some s)
    consider "sl_State s = ToolStateYielded" | "sl_State s = ToolStateCompleted \<or> sl_State s = ToolStateAborted"
      | "sl_State s = ToolStateQueued \<or> sl_State s = ToolStateExecuting" by (cases "sl_State s") auto
    then show ?thesis
    proof cases
      case 1
      with 2 Some show ?thesis by simp
    next
      case c: 2
      let ?sl = "mput k (s\<lparr>sl_State := ToolStateYielded\<rparr>) sl"
      obtain rs' where "yield_ready ks ?sl = (sl', rs')" using "2.prems" Some c by (auto split: prod.splits)
      then have "rel_option (\<lambda>s s'. calmer s s' \<and> sl_done s' = sl_done s) (map_of ?sl i) (map_of sl' i)"
        using "2.IH"(3) [OF Some] c by auto
      with Some c show ?thesis
        by (cases "map_of sl i"; cases "map_of sl' i")
          (auto simp: update_conv' calmer_def terminal_state_def split: if_splits)
    next
      case 3
      with "2.prems" Some have "sl' = sl" by auto
      then show ?thesis by (simp add: rel_option_slot)
    qed
  qed
qed

lemma GetCompletedResults_calm: "GetCompletedResults e = (e', rs) \<Longrightarrow> calm D e e'"
proof -
  assume a: "GetCompletedResults e = (e', rs)"
  then obtain sl where y: "yield_ready (ex_toolOrder e) (ex_slots e) = (sl, rs)" "e' = e\<lparr>ex_slots := sl\<rparr>"
    by (auto simp: GetCompletedResults_def split: prod.splits)
  have "rel_option (\<lambda>s s'. calmer s s' \<and> (i \<notin> D \<longrightarrow> sl_done s' = sl_done s)) (GetSlot e i) (GetSlot e' i)" for i
    using yield_ready_slots [OF y(1), of i] y(2) by (auto simp: GetSlot_def elim!: option.rel_mono_strong)
  then show ?thesis using y(2) by (simp add: calm_def)
qed

section \<open>Invariant\<close>

definition committed :: "StreamingToolExecutor \<Rightarrow> thread multiset \<Rightarrow> string \<Rightarrow> bool" where
  "committed e M j \<longleftrightarrow>
     (\<exists>s. GetSlot e j = Some s \<and> (sl_State s = ToolStateExecuting \<or> (sl_State s = ToolStateQueued \<and> TLaunch j \<in># M))) \<or>
     (\<exists>t \<in># M. \<exists>b. runs t = Some (j, b))"

definition order_ok :: "StreamingToolExecutor \<Rightarrow> bool" where
  "order_ok e \<longleftrightarrow> distinct (ex_toolOrder e) \<and> (\<forall>i. GetSlot e i \<noteq> None \<longleftrightarrow> i \<in> set (ex_toolOrder e))"

definition owned_ok :: "ToolRegistry \<Rightarrow> exec_world \<Rightarrow> bool" where
  "owned_ok reg w \<longleftrightarrow> (\<forall>t \<in># snd w. \<forall>i b. owner t = Some (i, b) \<longrightarrow>
     (\<exists>s. GetSlot (fst w) i = Some s \<and> sl_State s \<noteq> ToolStateQueued \<and> \<not> sl_done s \<and> b = isSafeLocked reg (sl_TC s)))"

definition owners :: "thread multiset \<Rightarrow> string \<Rightarrow> nat" where
  "owners M i = size {#t \<in># M. map_option fst (owner t) = Some i#}"

definition exclusive_count :: "thread multiset \<Rightarrow> nat" where
  "exclusive_count M = size {#t \<in># M. map_option snd (runs t) = Some False#}"

definition fenced :: "ToolRegistry \<Rightarrow> exec_world \<Rightarrow> bool" where
  "fenced reg w \<longleftrightarrow> (\<forall>j s. GetSlot (fst w) j = Some s \<longrightarrow> committed (fst w) (snd w) j \<longrightarrow>
     (\<forall>i \<in> earlier (ex_toolOrder (fst w)) j. \<forall>si. GetSlot (fst w) i = Some si \<longrightarrow>
        \<not> (isSafeLocked reg (sl_TC s) \<and> isSafeLocked reg (sl_TC si)) \<longrightarrow> terminal_state (sl_State si)) \<and>
     (\<not> isSafeLocked reg (sl_TC s) \<longrightarrow> (\<forall>t \<in># snd w. \<forall>i. runs t = Some (i, False) \<longrightarrow> i = j)))"

definition queued_ok :: "exec_world \<Rightarrow> bool" where
  "queued_ok w \<longleftrightarrow> (\<forall>i s. GetSlot (fst w) i = Some s \<longrightarrow> sl_State s = ToolStateQueued \<longrightarrow> \<not> sl_done s) \<and>
     (\<forall>j. TLaunch j \<in># snd w \<longrightarrow> GetSlot (fst w) j \<noteq> None)"

definition exec_inv :: "ToolRegistry \<Rightarrow> exec_world \<Rightarrow> bool" where
  "exec_inv reg w \<longleftrightarrow> order_ok (fst w) \<and> queued_ok w \<and> owned_ok reg w \<and> (\<forall>i. owners (snd w) i \<le> 1) \<and>
     ex_nonSafeRunning (fst w) = int (exclusive_count (snd w)) \<and> fenced reg w"

lemma runs_owner: "runs t = Some p \<Longrightarrow> owner t = Some p"
  by (cases t) auto

text \<open>Most steps: slots only calm down, and no thread takes over a call or is about to launch one that
  was not so before.\<close>

lemma calm_keeps_inv:
  assumes inv: "exec_inv reg (e, M)" and calm: "calm D e e'"
    and own: "\<And>t p. t \<in># M' \<Longrightarrow> owner t = Some p \<Longrightarrow> fst p \<notin> D \<and> (\<exists>t' \<in># M. owner t' = Some p)"
    and run: "\<And>t p. t \<in># M' \<Longrightarrow> runs t = Some p \<Longrightarrow> \<exists>t' \<in># M. runs t' = Some p"
    and launch: "\<And>j. TLaunch j \<in># M' \<Longrightarrow> TLaunch j \<in># M"
    and num: "\<And>i. owners M' i \<le> owners M i"
    and count: "ex_nonSafeRunning e' = int (exclusive_count M')"
  shows "exec_inv reg (e', M')"
  unfolding exec_inv_def fst_conv snd_conv
proof (intro conjI allI)
  show "order_ok e'"
    unfolding order_ok_def
  proof (intro conjI allI)
    have eq: "ex_toolOrder e' = ex_toolOrder e" using calm by (simp add: calm_def)
    then show "distinct (ex_toolOrder e')" using inv by (simp add: exec_inv_def order_ok_def)
    fix i
    have "GetSlot e' i \<noteq> None \<longleftrightarrow> GetSlot e i \<noteq> None"
      using calm by (auto elim: calm_slot calm_slot_fwd)
    then show "GetSlot e' i \<noteq> None \<longleftrightarrow> i \<in> set (ex_toolOrder e')"
      using inv eq by (simp add: exec_inv_def order_ok_def)
  qed
  show "queued_ok (e', M')"
    unfolding queued_ok_def fst_conv snd_conv
  proof (intro conjI allI impI)
    fix i s' assume "GetSlot e' i = Some s'" "sl_State s' = ToolStateQueued"
    with inv show "\<not> sl_done s'"
      by (elim calm_slot [OF calm]) (auto simp: calmer_def exec_inv_def queued_ok_def)
  next
    fix j assume "TLaunch j \<in># M'"
    then have "GetSlot e j \<noteq> None" using inv launch by (auto simp: exec_inv_def queued_ok_def)
    then show "GetSlot e' j \<noteq> None" by (auto elim: calm_slot_fwd [OF calm])
  qed
  show "owned_ok reg (e', M')"
    unfolding owned_ok_def fst_conv snd_conv
  proof (intro ballI allI impI)
    fix t i b assume t: "t \<in># M'" "owner t = Some (i, b)"
    then have "i \<notin> D" and ex: "\<exists>t' \<in># M. owner t' = Some (i, b)" using own by fastforce+
    then obtain s where s: "GetSlot e i = Some s" "sl_State s \<noteq> ToolStateQueued" "\<not> sl_done s" "b = isSafeLocked reg (sl_TC s)"
      using inv by (fastforce simp: exec_inv_def owned_ok_def)
    obtain s' where "GetSlot e' i = Some s'" "calmer s s'" "sl_done s' = sl_done s"
      using calm_slot_fwd [OF calm s(1)] \<open>i \<notin> D\<close> by metis
    with s show "\<exists>s. GetSlot e' i = Some s \<and> sl_State s \<noteq> ToolStateQueued \<and> \<not> sl_done s \<and> b = isSafeLocked reg (sl_TC s)"
      by (auto simp: calmer_def)
  qed
  show "owners M' i \<le> 1" for i using num [of i] inv by (auto simp: exec_inv_def intro: order_trans)
  show "ex_nonSafeRunning e' = int (exclusive_count M')" by (rule count)
  show "fenced reg (e', M')"
    unfolding fenced_def fst_conv snd_conv
  proof (intro allI impI)
    fix j s' assume j: "GetSlot e' j = Some s'" "committed e' M' j"
    obtain s where s: "GetSlot e j = Some s" "calmer s s'" using calm_slot [OF calm j(1)] by metis
    have "committed e M j"
    proof (cases "\<exists>t \<in># M'. \<exists>b. runs t = Some (j, b)")
      case True
      with run show ?thesis unfolding committed_def by blast
    next
      case False
      with j have "sl_State s' = ToolStateExecuting \<or> (sl_State s' = ToolStateQueued \<and> TLaunch j \<in># M')"
        by (simp add: committed_def)
      with s launch show ?thesis by (auto simp: committed_def calmer_def)
    qed
    with inv s have f: "(\<forall>i \<in> earlier (ex_toolOrder e) j. \<forall>si. GetSlot e i = Some si \<longrightarrow>
        \<not> (isSafeLocked reg (sl_TC s) \<and> isSafeLocked reg (sl_TC si)) \<longrightarrow> terminal_state (sl_State si)) \<and>
     (\<not> isSafeLocked reg (sl_TC s) \<longrightarrow> (\<forall>t \<in># M. \<forall>i. runs t = Some (i, False) \<longrightarrow> i = j))"
      unfolding exec_inv_def fenced_def fst_conv snd_conv by blast
    show "(\<forall>i \<in> earlier (ex_toolOrder e') j. \<forall>si. GetSlot e' i = Some si \<longrightarrow>
        \<not> (isSafeLocked reg (sl_TC s') \<and> isSafeLocked reg (sl_TC si)) \<longrightarrow> terminal_state (sl_State si)) \<and>
     (\<not> isSafeLocked reg (sl_TC s') \<longrightarrow> (\<forall>t \<in># M'. \<forall>i. runs t = Some (i, False) \<longrightarrow> i = j))"
    proof (intro conjI ballI allI impI)
      fix i si' assume i: "i \<in> earlier (ex_toolOrder e') j" "GetSlot e' i = Some si'"
        "\<not> (isSafeLocked reg (sl_TC s') \<and> isSafeLocked reg (sl_TC si'))"
      obtain si where si: "GetSlot e i = Some si" "calmer si si'" using calm_slot [OF calm i(2)] by metis
      have "terminal_state (sl_State si)"
        using f i si s(2) calm by (auto simp: calm_def calmer_def)
      with si(2) show "terminal_state (sl_State si')" by (simp add: calmer_def)
    next
      fix t i assume "\<not> isSafeLocked reg (sl_TC s')" "t \<in># M'" "runs t = Some (i, False)"
      moreover from this obtain t' where "t' \<in># M" "runs t' = Some (i, False)" using run by blast
      moreover have "sl_TC s' = sl_TC s" using s(2) by (simp add: calmer_def)
      ultimately show "i = j" using f by simp
    qed
  qed
qed

section \<open>Preservation\<close>

lemma owners_add: "owners (add_mset t M) i = (if map_option fst (owner t) = Some i then Suc (owners M i) else owners M i)"
  by (simp add: owners_def)

lemma exclusive_count_add:
  "exclusive_count (add_mset t M) = (if map_option snd (runs t) = Some False then Suc (exclusive_count M) else exclusive_count M)"
  by (simp add: exclusive_count_def)

lemma exclusive_count_zero: "exclusive_count M = 0 \<longleftrightarrow> (\<forall>t \<in># M. \<forall>i. runs t \<noteq> Some (i, False))"
proof (induction M)
  case (add t M)
  then show ?case by (cases "runs t") (auto simp: exclusive_count_add)
qed (simp add: exclusive_count_def)

lemma owners_pos: "t \<in># M \<Longrightarrow> owner t = Some p \<Longrightarrow> owners M (fst p) \<ge> 1"
  by (cases p) (auto simp: owners_def dest!: multi_member_split)

lemma filter_mset_none: "(\<And>x. x \<in># N \<Longrightarrow> \<not> P x) \<Longrightarrow> filter_mset P N = {#}"
  by (induction N) auto

lemma other_owner:
  assumes "exec_inv reg (e, add_mset t M)" "owner t = Some (i, b)" "t' \<in># M" "owner t' = Some p"
  shows "fst p \<noteq> i"
proof
  assume "fst p = i"
  then have "owners (add_mset t M) i \<ge> 2" using owners_pos [OF assms(3,4)] assms(2) by (simp add: owners_add)
  moreover have "owners (add_mset t M) i \<le> 1" using assms(1) by (simp add: exec_inv_def)
  ultimately show False by simp
qed

lemma environment_inv:
  assumes "exec_inv reg (e, M)" "calm {} e e'" "ex_nonSafeRunning e' = ex_nonSafeRunning e"
  shows "exec_inv reg (e', M)"
  by (rule calm_keeps_inv [OF assms(1,2)]) (use assms in \<open>auto simp: exec_inv_def\<close>)

lemma thread_continues:
  assumes "exec_inv reg (e, add_mset t M)" "calm {} e e'" "ex_nonSafeRunning e' = ex_nonSafeRunning e"
    "runs t' = runs t" "runs t \<noteq> None"
  shows "exec_inv reg (e', add_mset t' M)"
proof -
  have o: "owner t' = owner t" "owner t = runs t" using assms(4,5) runs_owner by fastforce+
  have "TLaunch j \<noteq> t'" for j using assms(4,5) by auto
  moreover have "exclusive_count (add_mset t' M) = exclusive_count (add_mset t M)"
    by (simp add: exclusive_count_add assms(4))
  ultimately show ?thesis
    by (intro calm_keeps_inv [OF assms(1,2)]) (use assms(1,3,4) o in \<open>auto simp: owners_add exec_inv_def\<close>)
qed

lemma thread_ends:
  assumes "exec_inv reg (e, add_mset t M)" "calm D e e'" "\<And>i. i \<in> D \<Longrightarrow> \<exists>b. owner t = Some (i, b)"
    "ex_nonSafeRunning e' = int (exclusive_count M)" "\<And>t'. t' \<in># N \<Longrightarrow> owner t' = None \<and> (\<forall>j. t' \<noteq> TLaunch j)"
  shows "exec_inv reg (e', N + M)"
proof (rule calm_keeps_inv [OF assms(1,2)])
  have none: "runs t' = None" if "t' \<in># N" for t' using assms(5) [OF that] runs_owner [of t'] by (cases "runs t'") auto
  have "owners N i = 0" for i
    unfolding owners_def using assms(5) by (subst filter_mset_none) auto
  moreover have "owners (N + M) i = owners N i + owners M i" for i by (simp add: owners_def)
  ultimately show "owners (N + M) i \<le> owners (add_mset t M) i" for i by (simp add: owners_add)
  have "filter_mset (\<lambda>t. map_option snd (runs t) = Some False) N = {#}"
    using none by (intro filter_mset_none) auto
  then show "ex_nonSafeRunning e' = int (exclusive_count (N + M))" by (simp add: exclusive_count_def assms(4))
  show "\<exists>t'' \<in># add_mset t M. runs t'' = Some p" if "t' \<in># N + M" "runs t' = Some p" for t' p
    using that none by auto
  show "TLaunch j \<in># add_mset t M" if "TLaunch j \<in># N + M" for j using that assms(5) by auto
  show "fst p \<notin> D \<and> (\<exists>t'' \<in># add_mset t M. owner t'' = Some p)" if "t' \<in># N + M" "owner t' = Some p" for t' p
  proof -
    have "t' \<in># M" using that assms(5) by auto
    with that(2) assms(3) other_owner [OF assms(1) _ this that(2)] show ?thesis by auto
  qed
qed

lemma spawn_inv:
  assumes "exec_inv reg (e, M)" "canStartImmediatelyLocked reg j allow e"
  shows "exec_inv reg (e, add_mset (TLaunch j) M)"
proof -
  from assms(2) obtain s where s: "GetSlot e j = Some s" "sl_State s = ToolStateQueued"
    "priors_ok reg e j (isSafeLocked reg (sl_TC s)) (ex_toolOrder e)" "\<not> ex_nonSafeRunning e > 0"
    by (auto simp: canStartImmediatelyLocked_def split: if_splits option.splits)
  have "exclusive_count M = 0" using s(4) assms(1) by (simp add: exec_inv_def)
  have none: "runs t \<noteq> Some (i, False)" if "t \<in># M" for t i
    using that \<open>exclusive_count M = 0\<close> by (simp add: exclusive_count_zero)
  have "fenced reg (e, add_mset (TLaunch j) M)"
    unfolding fenced_def fst_conv snd_conv
  proof (intro allI impI)
    fix k sk assume k: "GetSlot e k = Some sk" "committed e (add_mset (TLaunch j) M) k"
    have "(\<forall>i \<in> earlier (ex_toolOrder e) k. \<forall>si. GetSlot e i = Some si \<longrightarrow>
        \<not> (isSafeLocked reg (sl_TC sk) \<and> isSafeLocked reg (sl_TC si)) \<longrightarrow> terminal_state (sl_State si))"
    proof (cases "k = j")
      case True
      with k s show ?thesis by (simp add: priors_ok_iff)
    next
      case False
      with k have "committed e M k" by (auto simp: committed_def)
      with k(1) assms(1) show ?thesis unfolding exec_inv_def fenced_def fst_conv snd_conv by blast
    qed
    with none show "(\<forall>i \<in> earlier (ex_toolOrder e) k. \<forall>si. GetSlot e i = Some si \<longrightarrow>
        \<not> (isSafeLocked reg (sl_TC sk) \<and> isSafeLocked reg (sl_TC si)) \<longrightarrow> terminal_state (sl_State si)) \<and>
      (\<not> isSafeLocked reg (sl_TC sk) \<longrightarrow> (\<forall>t \<in># add_mset (TLaunch j) M. \<forall>i. runs t = Some (i, False) \<longrightarrow> i = k))"
      by auto
  qed
  with assms(1) s(1) show ?thesis
    by (auto simp: exec_inv_def owned_ok_def queued_ok_def owners_add exclusive_count_add)
qed

lemma spawn_all_inv:
  "exec_inv reg (e, M) \<Longrightarrow> (\<And>j. j \<in> set js \<Longrightarrow> \<exists>allow. canStartImmediatelyLocked reg j allow e) \<Longrightarrow>
   exec_inv reg (e, mset (map TLaunch js) + M)"
  by (induction js) (auto intro: spawn_inv)

lemma maybeDrain_can_start: "j \<in> set (maybeDrain reg e) \<Longrightarrow> \<exists>allow. canStartImmediatelyLocked reg j allow e"
  by (auto simp: maybeDrain_def find_Some_iff2 split: if_splits option.splits)

lemma reserve_inv:
  assumes inv: "exec_inv reg (e, add_mset (TLaunch i) M)" and res: "launch_reserve reg i e = Some (e', b)"
  shows "exec_inv reg (e', add_mset (TReserved i b) M)"
proof -
  from res obtain s where s: "GetSlot e i = Some s" "sl_State s = ToolStateQueued" "b = isSafeLocked reg (sl_TC s)"
    and e': "e' = upd_slot i (\<lambda>s. s\<lparr>sl_State := ToolStateExecuting\<rparr>) e"
    by (auto simp: launch_reserve_def split: option.splits if_splits)
  have slot: "GetSlot e' k = (if k = i then Some (s\<lparr>sl_State := ToolStateExecuting\<rparr>) else GetSlot e k)" for k
    by (simp add: e' GetSlot_upd s(1))
  have own: "owner t = Some (k, c) \<Longrightarrow> k \<noteq> i" if "t \<in># M" for t k c
    using that inv s(1,2) by (fastforce simp: exec_inv_def owned_ok_def)
  have free: "owners M i = 0"
    unfolding owners_def using own by (subst filter_mset_none) auto
  have open_i: "\<not> sl_done s" using inv s(1,2) by (auto simp: exec_inv_def queued_ok_def)
  have fence: "fenced reg (e', add_mset (TReserved i b) M)"
    unfolding fenced_def fst_conv snd_conv
  proof (intro allI impI)
    fix k sk assume k: "GetSlot e' k = Some sk" "committed e' (add_mset (TReserved i b) M) k"
    obtain sk0 where sk0: "GetSlot e k = Some sk0" "sl_TC sk = sl_TC sk0"
      using k(1) s(1) by (auto simp: slot split: if_splits)
    have "committed e (add_mset (TLaunch i) M) k"
    proof (cases "k = i")
      case True
      then show ?thesis using s by (simp add: committed_def)
    next
      case False
      then show ?thesis using k(2) by (auto simp: committed_def slot)
    qed
    with inv sk0(1) have f: "(\<forall>j \<in> earlier (ex_toolOrder e) k. \<forall>si. GetSlot e j = Some si \<longrightarrow>
        \<not> (isSafeLocked reg (sl_TC sk0) \<and> isSafeLocked reg (sl_TC si)) \<longrightarrow> terminal_state (sl_State si))"
      "\<not> isSafeLocked reg (sl_TC sk0) \<longrightarrow> (\<forall>t \<in># add_mset (TLaunch i) M. \<forall>j. runs t = Some (j, False) \<longrightarrow> j = k)"
      unfolding exec_inv_def fenced_def fst_conv snd_conv by blast+
    show "(\<forall>j \<in> earlier (ex_toolOrder e') k. \<forall>si. GetSlot e' j = Some si \<longrightarrow>
        \<not> (isSafeLocked reg (sl_TC sk) \<and> isSafeLocked reg (sl_TC si)) \<longrightarrow> terminal_state (sl_State si)) \<and>
      (\<not> isSafeLocked reg (sl_TC sk) \<longrightarrow> (\<forall>t \<in># add_mset (TReserved i b) M. \<forall>j. runs t = Some (j, False) \<longrightarrow> j = k))"
    proof (intro conjI ballI allI impI)
      fix j si assume j: "j \<in> earlier (ex_toolOrder e') k" "GetSlot e' j = Some si"
        "\<not> (isSafeLocked reg (sl_TC sk) \<and> isSafeLocked reg (sl_TC si))"
      show "terminal_state (sl_State si)"
      proof (cases "j = i")
        case True
        with j(2) have "sl_TC si = sl_TC s" by (auto simp: slot)
        with True j s(1) sk0(2) have "terminal_state (sl_State s)" using f(1) [rule_format, of i s] by (simp add: e')
        with s(2) show ?thesis by (simp add: terminal_state_def)
      next
        case False
        with j f(1) sk0(2) show ?thesis by (simp add: e' slot [simplified e'])
      qed
    next
      fix t j assume "\<not> isSafeLocked reg (sl_TC sk)" "t \<in># add_mset (TReserved i b) M" "runs t = Some (j, False)"
      with f(2) sk0(2) show "j = k" by auto
    qed
  qed
  have "order_ok e'" using inv s(1) by (auto simp: exec_inv_def order_ok_def slot) (auto simp: e')
  moreover have "queued_ok (e', add_mset (TReserved i b) M)" using inv by (auto simp: exec_inv_def queued_ok_def slot)
  moreover have "owned_ok reg (e', add_mset (TReserved i b) M)"
    using inv own s open_i by (auto simp: exec_inv_def owned_ok_def slot)
  moreover have "owners (add_mset (TReserved i b) M) k \<le> 1" for k
    using inv free by (auto simp: owners_add exec_inv_def)
  moreover have "ex_nonSafeRunning e' = int (exclusive_count (add_mset (TReserved i b) M))"
    using inv by (simp add: exclusive_count_add e' exec_inv_def)
  ultimately show ?thesis using fence by (simp add: exec_inv_def)
qed

text \<open>Two exclusive calls are never committed at the same time when one of them is executing.\<close>

lemma committed_alone:
  assumes inv: "exec_inv reg (e, M)" and i: "GetSlot e i = Some si" "sl_State si = ToolStateExecuting"
    and j: "GetSlot e j = Some sj" "committed e M j"
    and ns: "\<not> isSafeLocked reg (sl_TC si)" "\<not> isSafeLocked reg (sl_TC sj)"
  shows "i = j"
proof (rule ccontr)
  assume "i \<noteq> j"
  have ci: "committed e M i" using i by (simp add: committed_def)
  have "i \<in> set (ex_toolOrder e)" "j \<in> set (ex_toolOrder e)" using inv i(1) j(1) by (auto simp: exec_inv_def order_ok_def)
  then consider "i \<in> earlier (ex_toolOrder e) j" | "j \<in> earlier (ex_toolOrder e) i"
    using earlier_total \<open>i \<noteq> j\<close> by blast
  then show False
  proof cases
    case 1
    then have "terminal_state (sl_State si)"
      using inv j i(1) ns unfolding exec_inv_def fenced_def fst_conv snd_conv by blast
    with i(2) show False by (simp add: terminal_state_def)
  next
    case 2
    then have "terminal_state (sl_State sj)"
      using inv j(1) i(1) ci ns unfolding exec_inv_def fenced_def fst_conv snd_conv by blast
    with j obtain t b where t: "t \<in># M" "runs t = Some (j, b)" by (auto simp: committed_def terminal_state_def)
    then have "b = isSafeLocked reg (sl_TC sj)" using inv j(1) runs_owner [OF t(2)]
      by (fastforce simp: exec_inv_def owned_ok_def)
    with t ns(2) have "runs t = Some (j, False)" by simp
    then have "j = i" using inv i(1) ci ns(1) t(1) unfolding exec_inv_def fenced_def fst_conv snd_conv by blast
    with \<open>i \<noteq> j\<close> show False by simp
  qed
qed

lemma start_inv:
  assumes inv: "exec_inv reg (e, add_mset (TReserved i b) M)" and st: "launch_start i b e = Some e'"
  shows "exec_inv reg (e', add_mset (TExec i b) M)"
proof -
  from st obtain s where s: "GetSlot e i = Some s" "sl_State s = ToolStateExecuting"
    by (auto simp: launch_start_def IsRunning_def split: option.splits if_splits)
  have bs: "b = isSafeLocked reg (sl_TC s)" using inv s(1) by (auto simp: exec_inv_def owned_ok_def)
  let ?u = "upd_slot i (\<lambda>s. s\<lparr>sl_cancel := Some (ex_cancelled e)\<rparr>) e"
  have e': "ex_slots e' = ex_slots ?u" "ex_toolOrder e' = ex_toolOrder e"
    "ex_nonSafeRunning e' = (if b then ex_nonSafeRunning e else ex_nonSafeRunning e + 1)"
    using st by (auto simp: launch_start_def split: if_splits)
  have "calm {} e ?u" by (rule calm_upd) (simp add: calmer_def)
  then have u: "exec_inv reg (?u, add_mset (TReserved i b) M)" by (rule environment_inv [OF inv]) simp
  have slot: "GetSlot e' k = GetSlot ?u k" for k by (simp add: GetSlot_def e'(1))
  have si: "GetSlot ?u i = Some (s\<lparr>sl_cancel := Some (ex_cancelled e)\<rparr>)" by (simp add: GetSlot_upd s(1))
  have fence: "fenced reg (e', add_mset (TExec i b) M)"
    unfolding fenced_def fst_conv snd_conv
  proof (intro allI impI)
    fix k sk assume k: "GetSlot e' k = Some sk" "committed e' (add_mset (TExec i b) M) k"
    have c: "committed ?u (add_mset (TReserved i b) M) k"
    proof (cases "k = i")
      case True
      then show ?thesis using si s(2) by (simp add: committed_def)
    next
      case False
      then show ?thesis using k(2) by (auto simp: committed_def slot)
    qed
    have f: "(\<forall>j \<in> earlier (ex_toolOrder e) k. \<forall>sj. GetSlot ?u j = Some sj \<longrightarrow>
        \<not> (isSafeLocked reg (sl_TC sk) \<and> isSafeLocked reg (sl_TC sj)) \<longrightarrow> terminal_state (sl_State sj))"
      "\<not> isSafeLocked reg (sl_TC sk) \<longrightarrow> (\<forall>t \<in># add_mset (TReserved i b) M. \<forall>j. runs t = Some (j, False) \<longrightarrow> j = k)"
      using u k(1) c unfolding exec_inv_def fenced_def fst_conv snd_conv slot by simp_all
    have "i = k" if "\<not> isSafeLocked reg (sl_TC sk)" "\<not> b"
      using committed_alone [OF u si _ _ c] s(2) k(1) that bs by (simp add: slot)
    with f show "(\<forall>j \<in> earlier (ex_toolOrder e') k. \<forall>sj. GetSlot e' j = Some sj \<longrightarrow>
        \<not> (isSafeLocked reg (sl_TC sk) \<and> isSafeLocked reg (sl_TC sj)) \<longrightarrow> terminal_state (sl_State sj)) \<and>
      (\<not> isSafeLocked reg (sl_TC sk) \<longrightarrow> (\<forall>t \<in># add_mset (TExec i b) M. \<forall>j. runs t = Some (j, False) \<longrightarrow> j = k))"
      by (auto simp: slot e'(2))
  qed
  have "order_ok e'" using u by (simp add: exec_inv_def order_ok_def slot e'(2))
  moreover have "queued_ok (e', add_mset (TExec i b) M)" using u by (auto simp: exec_inv_def queued_ok_def slot)
  moreover have "owned_ok reg (e', add_mset (TExec i b) M)" using u by (auto simp: exec_inv_def owned_ok_def slot)
  moreover have "owners (add_mset (TExec i b) M) k \<le> 1" for k
    using u by (auto simp: owners_add exec_inv_def split: if_splits dest: spec [of _ k])
  moreover have "ex_nonSafeRunning e' = int (exclusive_count (add_mset (TExec i b) M))"
    using inv by (simp add: exclusive_count_add e'(3) exec_inv_def)
  ultimately show ?thesis using fence by (simp add: exec_inv_def)
qed

lemma add_inv:
  assumes inv: "exec_inv reg (e, M)" and fresh: "tc_ID tc \<notin> set (ex_toolOrder e)"
  shows "exec_inv reg (fst (AddTool reg tc e), M)"
proof -
  let ?n = "tc_ID tc" and ?e = "fst (AddTool reg tc e)"
  have slot: "GetSlot ?e k = (if k = ?n then Some (queued_slot tc) else GetSlot e k)" for k
    by (simp add: AddTool_def Let_def GetSlot_def update_conv')
  have ord: "ex_toolOrder ?e = ex_toolOrder e @ [?n]" by (simp add: AddTool_def Let_def)
  have none: "GetSlot e ?n = None" using inv fresh by (auto simp: exec_inv_def order_ok_def)
  have "fenced reg (?e, M)"
    unfolding fenced_def fst_conv snd_conv
  proof (intro allI impI)
    fix k sk assume k: "GetSlot ?e k = Some sk" "committed ?e M k"
    have "k \<noteq> ?n"
    proof
      assume "k = ?n"
      with k(2) slot have "TLaunch ?n \<in># M \<or> (\<exists>t \<in># M. \<exists>b. runs t = Some (?n, b))"
        by (auto simp: committed_def queued_slot_def)
      then show False
        using inv none runs_owner by (fastforce simp: exec_inv_def queued_ok_def owned_ok_def)
    qed
    then have ke: "GetSlot e k = Some sk" and ce: "committed e M k" using k by (auto simp: slot committed_def)
    then have "k \<in> set (ex_toolOrder e)" using inv by (auto simp: exec_inv_def order_ok_def)
    then have "earlier (ex_toolOrder ?e) k = earlier (ex_toolOrder e) k" by (simp add: ord earlier_append)
    moreover have "i \<noteq> ?n" if "i \<in> earlier (ex_toolOrder e) k" for i using that earlier_subset fresh by blast
    moreover note inv [unfolded exec_inv_def fenced_def fst_conv snd_conv] ke ce
    ultimately show "(\<forall>i \<in> earlier (ex_toolOrder ?e) k. \<forall>si. GetSlot ?e i = Some si \<longrightarrow>
        \<not> (isSafeLocked reg (sl_TC sk) \<and> isSafeLocked reg (sl_TC si)) \<longrightarrow> terminal_state (sl_State si)) \<and>
      (\<not> isSafeLocked reg (sl_TC sk) \<longrightarrow> (\<forall>t \<in># M. \<forall>i. runs t = Some (i, False) \<longrightarrow> i = k))"
      by (simp add: slot)
  qed
  moreover have "order_ok ?e" using inv fresh by (auto simp: exec_inv_def order_ok_def slot ord)
  moreover have "queued_ok (?e, M)" using inv by (auto simp: exec_inv_def queued_ok_def slot queued_slot_def)
  moreover have "owned_ok reg (?e, M)" using inv none by (fastforce simp: exec_inv_def owned_ok_def slot)
  moreover have "ex_nonSafeRunning ?e = ex_nonSafeRunning e" by (simp add: AddTool_def Let_def)
  ultimately show ?thesis using inv by (simp add: exec_inv_def)
qed

lemma running_simps [simp]:
  "ex_nonSafeRunning (finishResult i c t x e) = ex_nonSafeRunning e"
  "ex_nonSafeRunning (finishCancelled i c e) = ex_nonSafeRunning e"
  "ex_nonSafeRunning (store_replacement i v e) = ex_nonSafeRunning e"
  "ex_nonSafeRunning (stop_others i e) = ex_nonSafeRunning e"
  "ex_nonSafeRunning (cancelAll e) = ex_nonSafeRunning e"
  "ex_nonSafeRunning (signalActivity e) = ex_nonSafeRunning e"
  "ex_nonSafeRunning (launch_fail err i e) = ex_nonSafeRunning e"
  "ex_nonSafeRunning (SetToolDecisionMapValue k i v e) = ex_nonSafeRunning e"
  by (simp_all add: finishResult_def finishCancelled_def store_replacement_def stop_others_def cancelAll_def
      signalActivity_def launch_fail_def SetToolDecisionMapValue_def)

lemma AbortSiblings_running [simp]: "ex_nonSafeRunning (AbortSiblings reg i e) = ex_nonSafeRunning e"
  by (auto simp: AbortSiblings_def Let_def signalActivity_def cancelAll_def split: option.splits)

lemma DenyTool_running [simp]: "ex_nonSafeRunning (DenyTool j i e) = ex_nonSafeRunning e"
  by (auto simp: DenyTool_def split: option.splits)

lemma store_replacement_calm: "calm D e (store_replacement i v e)"
  by (rule calm_same) (simp_all add: store_replacement_def)

lemma continue_one:
  assumes "exec_inv reg (e, add_mset t M)" "calm {} e e'" "ex_nonSafeRunning e' = ex_nonSafeRunning e"
    "runs t' = runs t" "runs t \<noteq> None"
  shows "exec_inv reg (e', mset [t'] + M)"
  using thread_continues [OF assms] by simp

lemma thread_step_inv:
  assumes "thread_step reg e t e' ts" "exec_inv reg (e, add_mset t M)"
  shows "exec_inv reg (e', mset ts + M)"
  using assms
proof (induction rule: thread_step.induct)
  case (reserve i e e' b)
  then show ?case using reserve_inv by simp
next
  case (no_longer_queued i e)
  then have "exec_inv reg (e, {#} + M)"
    by (intro thread_ends [where D = "{}"]) (auto simp: calm_same exec_inv_def exclusive_count_add)
  then show ?case by simp
next
  case (journal_failed e i b err)
  then have "exec_inv reg (launch_fail err i e, {#} + M)"
    by (intro thread_ends [where D = "{i}"]) (auto simp: launch_fail_calm exec_inv_def exclusive_count_add)
  then show ?case by simp
next
  case (started i b e e')
  then show ?case using start_inv by simp
next
  case (no_longer_reserved i b e)
  then have "exec_inv reg (e, {#} + M)"
    by (intro thread_ends [where D = "{}"]) (auto simp: calm_same exec_inv_def exclusive_count_add)
  then show ?case by simp
next
  case (finished i b h e e')
  have "ex_nonSafeRunning e' = (if b then ex_nonSafeRunning e else ex_nonSafeRunning e - 1)"
    using finished.hyps by (auto simp: exec_final_def Let_def split: option.splits if_splits)
  also have "\<dots> = int (exclusive_count M)" using finished.prems by (simp add: exec_inv_def exclusive_count_add)
  finally have "exec_inv reg (e', {#TNotify i#} + M)"
    by (intro thread_ends [OF finished.prems, where D = "{i}"]) (auto intro: exec_final_calm [OF finished.hyps])
  then show ?case by simp
next
  case (notified e i)
  then have "exec_inv reg (e, {#TDrain#} + M)"
    by (intro thread_ends [where D = "{}"]) (auto simp: calm_same exec_inv_def exclusive_count_add)
  then show ?case by simp
next
  case (notify_failed e i)
  then have "exec_inv reg (cancelAll e, {#TDrain#} + M)"
    by (intro thread_ends [where D = "{}"]) (auto simp: cancelAll_calm exec_inv_def exclusive_count_add)
  then show ?case by simp
next
  case (drained e)
  then have "exec_inv reg (e, {#} + M)"
    by (intro thread_ends [where D = "{}"]) (auto simp: calm_same exec_inv_def exclusive_count_add)
  then have "exec_inv reg (e, mset (map TLaunch (maybeDrain reg e)) + M)"
    using spawn_all_inv maybeDrain_can_start by simp
  then show ?case using environment_inv [OF _ signalActivity_calm] by simp
qed (erule continue_one;
    simp add: calm_same finishResult_calm finishCancelled_calm stop_others_calm AbortSiblings_calm store_replacement_calm)+

lemma exec_step_inv: "exec_step reg w w' \<Longrightarrow> exec_inv reg w \<Longrightarrow> exec_inv reg w'"
proof (induction rule: exec_step.induct)
  case (thread e t e' ts M)
  then show ?case by (rule thread_step_inv)
next
  case (added tc e e' c M)
  then have "exec_inv reg (e', M)" using add_inv by (metis fst_conv)
  moreover have "c = canStartImmediatelyLocked reg (tc_ID tc) False e'" using added(2) by (auto simp: AddTool_def Let_def)
  ultimately show ?case by (simp add: spawn_inv)
next
  case (tried i e e' c M)
  have "calm {} e (upd_slot i (\<lambda>s. s\<lparr>sl_PermissionGranted := True\<rparr>) e)" by (rule calm_upd) (simp add: calmer_def)
  then have "exec_inv reg (upd_slot i (\<lambda>s. s\<lparr>sl_PermissionGranted := True\<rparr>) e, M)"
    by (rule environment_inv [OF tried(2)]) simp
  with tried show ?case
    by (auto simp: TryStartQueued_def Let_def spawn_inv split: option.splits if_splits)
next
  case (denied e M journal i)
  then show ?case by (rule environment_inv [OF _ DenyTool_calm]) simp
next
  case (collected e e' rs M)
  moreover from collected(1) have "ex_nonSafeRunning e' = ex_nonSafeRunning e"
    by (auto simp: GetCompletedResults_def split: prod.splits)
  ultimately show ?case using environment_inv [OF _ GetCompletedResults_calm] by blast
next
  case (aborted e M i)
  then show ?case by (rule environment_inv [OF _ AbortSiblings_calm]) simp
next
  case (cancelled e M)
  then show ?case by (rule environment_inv [OF _ cancelAll_calm]) simp
next
  case (decided e M k i v)
  then show ?case by (rule environment_inv) (auto intro: calm_same simp: SetToolDecisionMapValue_def)
next
  case (consumer_drains e M)
  then show ?case using spawn_all_inv maybeDrain_can_start by blast
qed

lemma exec_reachable_inv: "exec_reachable reg w \<Longrightarrow> exec_inv reg w"
proof (induction rule: exec_reachable.induct)
  case (new_executor limit)
  then show ?case
    by (simp add: exec_inv_def order_ok_def queued_ok_def owned_ok_def owners_def exclusive_count_def fenced_def
        NewStreamingToolExecutor_def GetSlot_def)
qed (rule exec_step_inv)

end
