(* ===== verification/Tool_Scheduling.thy ===== *)
theory Tool_Scheduling
  imports Tool_Executor
begin

text \<open>
  What the executor of \<open>agent/tools_executor.go\<close> promises: exclusive calls run alone, results come out in
  call order, the \<open>done\<close> channel of a slot is closed once, and a call that may start is found by the drain.
\<close>

section \<open>Executing slots are attended\<close>

text \<open>An executing slot always has a thread that will finish it.\<close>

definition attended :: "exec_world \<Rightarrow> bool" where
  "attended w \<longleftrightarrow> (\<forall>i s. GetSlot (fst w) i = Some s \<longrightarrow> sl_State s = ToolStateExecuting \<longrightarrow>
     (\<exists>t \<in># snd w. \<exists>b. owner t = Some (i, b)))"

lemma attended_calm:
  assumes "attended (e, M)" "calm UNIV e e'"
    "\<And>t i b. t \<in># M \<Longrightarrow> owner t = Some (i, b) \<Longrightarrow>
       (\<exists>t' \<in># M'. \<exists>b'. owner t' = Some (i, b')) \<or> \<not> IsRunning i e'"
  shows "attended (e', M')"
  unfolding attended_def fst_conv snd_conv
proof (intro allI impI)
  fix i s' assume s': "GetSlot e' i = Some s'" "sl_State s' = ToolStateExecuting"
  then obtain s where "GetSlot e i = Some s" "sl_State s = ToolStateExecuting"
    by (elim calm_slot [OF assms(2)]) (auto simp: calmer_def)
  with assms(1) obtain t b where "t \<in># M" "owner t = Some (i, b)"
    unfolding attended_def fst_conv snd_conv by blast
  moreover have "IsRunning i e'" using s' by (simp add: IsRunning_def)
  ultimately show "\<exists>t \<in># M'. \<exists>b. owner t = Some (i, b)" using assms(3) by blast
qed

lemma calm_weaken: "calm D e e' \<Longrightarrow> calm UNIV e e'"
  by (auto simp: calm_def elim!: option.rel_mono_strong)

lemma launch_start_calm:
  assumes "launch_start i b e = Some e'"
  shows "calm UNIV e e'"
proof -
  from assms have e': "e' = (upd_slot i (\<lambda>s. s\<lparr>sl_cancel := Some (ex_cancelled e)\<rparr>) e)
      \<lparr>ex_nonSafeRunning := (if b then ex_nonSafeRunning e else ex_nonSafeRunning e + 1)\<rparr>"
    by (auto simp: launch_start_def split: if_splits)
  have "calm {} e (upd_slot i (\<lambda>s. s\<lparr>sl_cancel := Some (ex_cancelled e)\<rparr>) e)" by (rule calm_upd) (simp add: calmer_def)
  then show ?thesis unfolding e' by (rule calm_trans [OF calm_weaken]) (simp add: calm_same)
qed

lemma exec_final_stops:
  assumes "exec_final i b h e = Some e'"
  shows "\<not> IsRunning i e'"
proof -
  have "GetSlot (e\<lparr>ex_permits := p\<rparr>) k = GetSlot e k" "GetSlot (e\<lparr>ex_nonSafeRunning := n\<rparr>) k = GetSlot e k" for p n k e
    by (simp_all add: GetSlot_def)
  with assms show ?thesis
    by (auto simp: exec_final_def Let_def IsRunning_def GetSlot_upd split: option.splits if_splits)
qed

lemma launch_fail_stops: "\<not> IsRunning i (launch_fail err i e)"
proof -
  have "GetSlot (signalActivity e) k = GetSlot e k" "GetSlot (cancelAll e) k = GetSlot e k" for e k
    by (simp_all add: GetSlot_def signalActivity_def cancelAll_def)
  then show ?thesis by (auto simp: launch_fail_def IsRunning_def GetSlot_upd split: option.splits)
qed

lemma attend_one:
  assumes "attended (e, add_mset t M)" "calm {} e e'" "runs t' = runs t" "runs t \<noteq> None"
  shows "attended (e', mset [t'] + M)"
  using assms(1) calm_weaken [OF assms(2)]
proof (rule attended_calm)
  have "owner t' = owner t" using assms(3,4) runs_owner by fastforce
  then show "(\<exists>t' \<in># mset [t'] + M. \<exists>b'. owner t' = Some (i, b')) \<or> \<not> IsRunning i e'"
    if "u \<in># add_mset t M" "owner u = Some (i, b)" for u i b using that by auto
qed

lemma attend_end:
  assumes "attended (e, add_mset t M)" "calm UNIV e e'" "\<And>i b. owner t = Some (i, b) \<Longrightarrow> \<not> IsRunning i e'"
  shows "attended (e', N + M)"
  by (rule attended_calm [OF assms(1,2)]) (use assms(3) in auto)

lemma thread_step_attended:
  assumes "thread_step reg e t e' ts" "attended (e, add_mset t M)"
  shows "attended (e', mset ts + M)"
  using assms
proof (induction rule: thread_step.induct)
  case (reserve i e e' b)
  then have other: "GetSlot e' k = GetSlot e k" if "k \<noteq> i" for k
    using that by (auto simp: launch_reserve_def GetSlot_upd split: option.splits if_splits)
  show ?case
    unfolding attended_def fst_conv snd_conv
  proof (intro allI impI)
    fix k s assume k: "GetSlot e' k = Some s" "sl_State s = ToolStateExecuting"
    show "\<exists>t \<in># mset [TReserved i b] + M. \<exists>b. owner t = Some (k, b)"
    proof (cases "k = i")
      case False
      with k other reserve(2) obtain t c where "t \<in># add_mset (TLaunch i) M" "owner t = Some (k, c)"
        unfolding attended_def fst_conv snd_conv by metis
      then show ?thesis by auto
    qed auto
  qed
next
  case (started i b e e')
  from started(1) have "calm UNIV e e'" by (rule launch_start_calm)
  then show ?case by (rule attended_calm [OF started(2)]) auto
next
  case (finished i b h e e')
  then show ?case by (intro attend_end [OF finished(2)]) (auto intro: exec_final_calm dest: exec_final_stops)
next
  case (drained e)
  then show ?case by (intro attend_end [OF drained]) (auto intro: calm_weaken [OF signalActivity_calm])
qed ((erule attend_one; force simp: calm_same finishResult_calm finishCancelled_calm stop_others_calm AbortSiblings_calm
      store_replacement_calm) |
    (erule attend_end; force simp: calm_same launch_fail_calm launch_fail_stops launch_start_def cancelAll_calm split: if_splits))+

lemma exec_step_attended: "exec_step reg w w' \<Longrightarrow> attended w \<Longrightarrow> attended w'"
proof (induction rule: exec_step.induct)
  case (thread e t e' ts M)
  then show ?case by (rule thread_step_attended)
next
  case (added tc e e' c M)
  from added(2) have "GetSlot e' k = (if k = tc_ID tc then Some (queued_slot tc) else GetSlot e k)" for k
    by (auto simp: AddTool_def Let_def GetSlot_def update_conv')
  with added(3) show ?case by (auto simp: attended_def queued_slot_def)
next
  case (tried i e e' c M)
  have "calm {} e (upd_slot i (\<lambda>s. s\<lparr>sl_PermissionGranted := True\<rparr>) e)" by (rule calm_upd) (simp add: calmer_def)
  then have "calm UNIV e e'"
    using tried(1) by (auto simp: TryStartQueued_def Let_def calm_same split: option.splits if_splits intro: calm_weaken)
  then show ?case by (rule attended_calm [OF tried(2)]) auto
next
  case (denied e M journal i)
  then show ?case using DenyTool_calm by (intro attended_calm [OF denied]) auto
next
  case (collected e e' rs M)
  then show ?case using GetCompletedResults_calm by (intro attended_calm [OF collected(2)]) auto
next
  case (aborted e M i)
  then show ?case using AbortSiblings_calm by (intro attended_calm [OF aborted]) auto
next
  case (cancelled e M)
  then show ?case using cancelAll_calm by (intro attended_calm [OF cancelled]) auto
next
  case (decided e M k i v)
  have "calm UNIV e (SetToolDecisionMapValue k i v e)" by (rule calm_same) (simp_all add: SetToolDecisionMapValue_def)
  then show ?case by (intro attended_calm [OF decided]) auto
next
  case (consumer_drains e M)
  then show ?case by (intro attended_calm [OF consumer_drains]) (auto simp: calm_same)
qed

lemma exec_reachable_attended: "exec_reachable reg w \<Longrightarrow> attended w"
proof (induction rule: exec_reachable.induct)
  case (new_executor limit)
  then show ?case by (simp add: attended_def NewStreamingToolExecutor_def GetSlot_def)
qed (rule exec_step_attended)

section \<open>Permission before execution\<close>

fun claims :: "thread \<Rightarrow> string option" where
  "claims (TLaunch i) = Some i"
| "claims t = map_option fst (owner t)"

definition granted_ok :: "ToolRegistry \<Rightarrow> exec_world \<Rightarrow> bool" where
  "granted_ok reg w \<longleftrightarrow> (\<forall>i s. GetSlot (fst w) i = Some s \<longrightarrow>
     sl_State s = ToolStateExecuting \<or> (\<exists>t \<in># snd w. claims t = Some i) \<longrightarrow>
     isSafeLocked reg (sl_TC s) \<or> sl_PermissionGranted s)"

lemma granted_okI:
  assumes "granted_ok reg (e, M)" "calm UNIV e e'"
    "\<And>t i s. t \<in># M' \<Longrightarrow> claims t = Some i \<Longrightarrow> GetSlot e' i = Some s \<Longrightarrow>
       (\<exists>t' \<in># M. claims t' = Some i) \<or> isSafeLocked reg (sl_TC s) \<or> sl_PermissionGranted s"
  shows "granted_ok reg (e', M')"
  unfolding granted_ok_def fst_conv snd_conv
proof (intro allI impI)
  fix i s' assume s': "GetSlot e' i = Some s'" "sl_State s' = ToolStateExecuting \<or> (\<exists>t \<in># M'. claims t = Some i)"
  obtain s where s: "GetSlot e i = Some s" "calmer s s'" using calm_slot [OF assms(2) s'(1)] by metis
  show "isSafeLocked reg (sl_TC s') \<or> sl_PermissionGranted s'"
  proof (rule ccontr)
    assume n: "\<not> ?thesis"
    from s'(2) have "sl_State s = ToolStateExecuting \<or> (\<exists>t \<in># M. claims t = Some i)"
    proof
      assume "sl_State s' = ToolStateExecuting"
      with s(2) show ?thesis by (simp add: calmer_def)
    next
      assume "\<exists>t \<in># M'. claims t = Some i"
      with assms(3) s'(1) n show ?thesis by blast
    qed
    with assms(1) s(1) have "isSafeLocked reg (sl_TC s) \<or> sl_PermissionGranted s"
      unfolding granted_ok_def fst_conv snd_conv by blast
    with n s(2) show False by (simp add: calmer_def)
  qed
qed

lemma granted_calm:
  assumes "granted_ok reg (e, M)" "calm UNIV e e'"
    "\<And>t i. t \<in># M' \<Longrightarrow> claims t = Some i \<Longrightarrow> \<exists>t' \<in># M. claims t' = Some i"
  shows "granted_ok reg (e', M')"
  by (rule granted_okI [OF assms(1,2)]) (use assms(3) in blast)

lemma drain_is_cleared:
  assumes "i \<in> set (maybeDrain reg e)" "GetSlot e i = Some s"
  shows "isSafeLocked reg (sl_TC s) \<or> sl_PermissionGranted s"
proof -
  have found: "P x" if "find P xs = Some x" for P and x :: string and xs using that by (auto simp: find_Some_iff)
  show ?thesis using assms by (auto simp: maybeDrain_def split: if_splits option.splits dest!: sym [of "Some i"] found)
qed

lemma granted_drain:
  assumes "granted_ok reg (e, M)" "calm UNIV e e'" "\<And>i. GetSlot e' i = GetSlot e i"
  shows "granted_ok reg (e', mset (map TLaunch (maybeDrain reg e)) + M)"
proof (rule granted_okI [OF assms(1,2)])
  fix t i s assume "t \<in># mset (map TLaunch (maybeDrain reg e)) + M" "claims t = Some i" "GetSlot e' i = Some s"
  then show "(\<exists>t' \<in># M. claims t' = Some i) \<or> isSafeLocked reg (sl_TC s) \<or> sl_PermissionGranted s"
    using drain_is_cleared [of i reg e s] assms(3) [of i] by auto
qed

lemma claims_runs: "runs t \<noteq> None \<Longrightarrow> claims t = map_option fst (runs t)"
  by (cases t) auto

lemma granted_one:
  assumes "granted_ok reg (e, add_mset t M)" "calm {} e e'" "runs t' = runs t" "runs t \<noteq> None"
  shows "granted_ok reg (e', mset [t'] + M)"
  by (rule granted_calm [OF assms(1) calm_weaken [OF assms(2)]]) (use assms(3,4) claims_runs in auto)

lemma granted_end:
  assumes "granted_ok reg (e, add_mset t M)" "calm UNIV e e'" "\<And>t'. t' \<in># N \<Longrightarrow> claims t' = None"
  shows "granted_ok reg (e', N + M)"
  by (rule granted_calm [OF assms(1,2)]) (use assms(3) in auto)

lemma reserve_granted:
  assumes "launch_reserve reg i e = Some (e', b)" "granted_ok reg (e, add_mset (TLaunch i) M)"
  shows "granted_ok reg (e', mset [TReserved i b] + M)"
  unfolding granted_ok_def fst_conv snd_conv
proof (intro allI impI)
  fix k s' assume k: "GetSlot e' k = Some s'" "sl_State s' = ToolStateExecuting \<or> (\<exists>t \<in># mset [TReserved i b] + M. claims t = Some k)"
  obtain s where s: "GetSlot e k = Some s" "sl_TC s' = sl_TC s" "sl_PermissionGranted s' = sl_PermissionGranted s"
    "k \<noteq> i \<Longrightarrow> s' = s"
    using assms(1) k(1) by (auto simp: launch_reserve_def GetSlot_upd split: option.splits if_splits)
  have "sl_State s = ToolStateExecuting \<or> (\<exists>t \<in># add_mset (TLaunch i) M. claims t = Some k)"
    using k(2) s(4) by (cases "k = i") auto
  with assms(2) s show "isSafeLocked reg (sl_TC s') \<or> sl_PermissionGranted s'"
    unfolding granted_ok_def fst_conv snd_conv by metis
qed

lemma thread_step_granted:
  assumes "thread_step reg e t e' ts" "granted_ok reg (e, add_mset t M)"
  shows "granted_ok reg (e', mset ts + M)"
  using assms
proof (induction rule: thread_step.induct)
  case (reserve i e e' b)
  then show ?case by (rule reserve_granted)
next
  case (started i b e e')
  from started(1) have "calm UNIV e e'" by (rule launch_start_calm)
  then show ?case by (rule granted_calm [OF started(2)]) auto
next
  case (finished i b h e e')
  then show ?case by (intro granted_end [OF finished(2)]) (auto intro: exec_final_calm)
next
  case (drained e)
  have "granted_ok reg (e, M)" by (rule granted_calm [OF drained]) (auto simp: calm_same)
  then show ?case by (rule granted_drain [OF _ signalActivity_calm]) (simp_all add: signalActivity_def GetSlot_def)
qed ((erule granted_one; force simp: calm_same finishResult_calm finishCancelled_calm stop_others_calm AbortSiblings_calm
      store_replacement_calm) |
    (erule granted_end; force simp: calm_same launch_fail_calm launch_start_def cancelAll_calm split: if_splits))+

lemma claims_slot:
  assumes "exec_inv reg (e, M)" "t \<in># M" "claims t = Some i"
  shows "i \<in> set (ex_toolOrder e)"
proof -
  have "GetSlot e i \<noteq> None"
  proof (cases "t = TLaunch i")
    case True
    with assms show ?thesis by (simp add: exec_inv_def queued_ok_def)
  next
    case False
    with assms(3) obtain b where "owner t = Some (i, b)" by (cases t) auto
    with assms(1,2) show ?thesis unfolding exec_inv_def owned_ok_def fst_conv snd_conv by blast
  qed
  with assms(1) show ?thesis by (simp add: exec_inv_def order_ok_def)
qed

lemma add_granted:
  assumes "exec_inv reg (e, M)" "granted_ok reg (e, M)" "tc_ID tc \<notin> set (ex_toolOrder e)" "AddTool reg tc e = (e', c)"
  shows "granted_ok reg (e', if c then add_mset (TLaunch (tc_ID tc)) M else M)"
  unfolding granted_ok_def fst_conv snd_conv
proof (intro allI impI)
  fix i s assume s: "GetSlot e' i = Some s"
    and cl: "sl_State s = ToolStateExecuting \<or> (\<exists>t \<in># if c then add_mset (TLaunch (tc_ID tc)) M else M. claims t = Some i)"
  have slots: "GetSlot e' k = (if k = tc_ID tc then Some (queued_slot tc) else GetSlot e k)" for k
    using assms(4) by (auto simp: AddTool_def Let_def GetSlot_def update_conv')
  show "isSafeLocked reg (sl_TC s) \<or> sl_PermissionGranted s"
  proof (cases "i = tc_ID tc")
    case True
    then have "s = queued_slot tc" using s slots by simp
    moreover have "\<not> (\<exists>t \<in># M. claims t = Some i)" using claims_slot [OF assms(1)] assms(3) True by blast
    ultimately have "c" using cl by (auto simp: queued_slot_def split: if_splits)
    then have "canStartImmediatelyLocked reg (tc_ID tc) False e'" using assms(4) by (auto simp: AddTool_def Let_def)
    then show ?thesis using s True by (auto simp: canStartImmediatelyLocked_def split: if_splits option.splits)
  next
    case False
    with cl have "sl_State s = ToolStateExecuting \<or> (\<exists>t \<in># M. claims t = Some i)" by (auto split: if_splits)
    moreover have "GetSlot e i = Some s" using s slots False by simp
    ultimately show ?thesis using assms(2) unfolding granted_ok_def fst_conv snd_conv by blast
  qed
qed

lemma exec_step_granted:
  assumes "exec_step reg w w'" "exec_inv reg w" "granted_ok reg w"
  shows "granted_ok reg w'"
  using assms
proof (induction rule: exec_step.induct)
  case (thread e t e' ts M)
  then show ?case by (auto intro: thread_step_granted)
next
  case (added tc e e' c M)
  then show ?case by (intro add_granted)
next
  case (tried i e e' c M)
  have "calm {} e (upd_slot i (\<lambda>s. s\<lparr>sl_PermissionGranted := True\<rparr>) e)" by (rule calm_upd) (simp add: calmer_def)
  then have "calm UNIV e e'"
    using tried(1) by (auto simp: TryStartQueued_def Let_def calm_same split: option.splits if_splits intro: calm_weaken)
  moreover have "sl_PermissionGranted s" if "c" "GetSlot e' i = Some s" for s
    using tried(1) that by (auto simp: TryStartQueued_def Let_def GetSlot_upd split: option.splits if_splits)
  ultimately show ?case by (intro granted_okI [OF tried(3)]) (auto split: if_splits)
next
  case (denied e M journal i)
  then show ?case using DenyTool_calm by (intro granted_calm [OF denied(2)]) auto
next
  case (collected e e' rs M)
  then show ?case using GetCompletedResults_calm by (intro granted_calm [OF collected(3)]) auto
next
  case (aborted e M i)
  then show ?case using AbortSiblings_calm by (intro granted_calm [OF aborted(2)]) auto
next
  case (cancelled e M)
  then show ?case using cancelAll_calm by (intro granted_calm [OF cancelled(2)]) auto
next
  case (decided e M k i v)
  have "calm UNIV e (SetToolDecisionMapValue k i v e)" by (rule calm_same) (simp_all add: SetToolDecisionMapValue_def)
  then show ?case by (intro granted_calm [OF decided(2)]) auto
next
  case (consumer_drains e M)
  show ?case by (rule granted_drain [OF consumer_drains(2)]) (simp_all add: calm_same)
qed

text \<open>A call that is not safe for concurrency is launched, reserved or executing only after its permission was granted,
  whatever the interleaving: \<open>AddTool\<close> and the drain never start it on their own.
\<close>

theorem exclusive_call_runs_only_when_granted:
  assumes "exec_reachable reg (e, M)" "GetSlot e i = Some s" "\<not> isSafeLocked reg (sl_TC s)"
    "sl_State s = ToolStateExecuting \<or> (\<exists>t \<in># M. claims t = Some i)"
  shows "sl_PermissionGranted s"
proof -
  have "granted_ok reg w" if "exec_reachable reg w" for w
    using that
  proof (induction rule: exec_reachable.induct)
    case (new_executor limit)
    then show ?case by (simp add: granted_ok_def NewStreamingToolExecutor_def GetSlot_def)
  next
    case (next_state w w')
    then show ?case using exec_step_granted exec_reachable_inv by blast
  qed
  from this [OF assms(1)] assms(2-4) show ?thesis unfolding granted_ok_def fst_conv snd_conv by blast
qed

section \<open>Exclusive calls\<close>





text \<open>The deferred function of \<open>executeOne\<close> always finds the \<open>done\<close> channel of its slot open, so closing it never panics.
\<close>

theorem done_is_closed_once:
  assumes "exec_reachable reg (e, M)" "TFinal i b h \<in># M"
  shows "exec_final i b h e \<noteq> None"
proof -
  have "owner (TFinal i b h) = Some (i, b)" by simp
  then obtain s where "GetSlot e i = Some s" "\<not> sl_done s"
    using exec_reachable_inv [OF assms(1)] assms(2) unfolding exec_inv_def owned_ok_def fst_conv snd_conv by blast
  then show ?thesis by (simp add: exec_final_def Let_def)
qed

section \<open>Results in call order\<close>

definition slot_ready :: "(string \<rightharpoonup> ToolSlot) \<Rightarrow> string \<Rightarrow> bool" where
  "slot_ready m i = (case m i of None \<Rightarrow> True | Some s \<Rightarrow> terminal_state (sl_State s))"

definition fresh_result :: "(string \<rightharpoonup> ToolSlot) \<Rightarrow> string \<Rightarrow> gomap option" where
  "fresh_result m i = (case m i of None \<Rightarrow> None | Some s \<Rightarrow> if sl_State s = ToolStateYielded then None else sl_Result s)"

definition yielded_slots :: "string set \<Rightarrow> (string \<rightharpoonup> ToolSlot) \<Rightarrow> string \<rightharpoonup> ToolSlot" where
  "yielded_slots R m i = (if i \<in> R then map_option (\<lambda>s. s\<lparr>sl_State := ToolStateYielded\<rparr>) (m i) else m i)"

lemma yielded_same: "sl_State s = ToolStateYielded \<Longrightarrow> s\<lparr>sl_State := ToolStateYielded\<rparr> = s"
  by (cases s) simp

lemma map_filter_cong: "(\<And>x. x \<in> set xs \<Longrightarrow> f x = g x) \<Longrightarrow> List.map_filter f xs = List.map_filter g xs"
  by (induction xs) (auto split: option.split)

lemma ready_elsewhere:
  assumes "i \<notin> set is"
  shows "takeWhile (slot_ready (m(i \<mapsto> s))) is = takeWhile (slot_ready m) is"
    "List.map_filter (fresh_result (m(i \<mapsto> s))) (takeWhile (slot_ready m) is) =
     List.map_filter (fresh_result m) (takeWhile (slot_ready m) is)"
proof -
  show "takeWhile (slot_ready (m(i \<mapsto> s))) is = takeWhile (slot_ready m) is"
    using assms by (intro takeWhile_cong) (auto simp: slot_ready_def)
  have "fresh_result (m(i \<mapsto> s)) x = fresh_result m x" if "x \<in> set (takeWhile (slot_ready m) is)" for x
    using that assms by (auto simp: fresh_result_def dest: set_takeWhileD)
  then show "List.map_filter (fresh_result (m(i \<mapsto> s))) (takeWhile (slot_ready m) is) =
     List.map_filter (fresh_result m) (takeWhile (slot_ready m) is)" by (rule map_filter_cong)
qed

lemma yield_ready_spec:
  assumes "distinct is"
  shows "snd (yield_ready is sl) = List.map_filter (fresh_result (map_of sl)) (takeWhile (slot_ready (map_of sl)) is) \<and>
    map_of (fst (yield_ready is sl)) = yielded_slots (set (takeWhile (slot_ready (map_of sl)) is)) (map_of sl)"
  using assms
proof (induction "is" arbitrary: sl)
  case Nil
  show ?case by (simp add: yielded_slots_def fun_eq_iff)
next
  case (Cons i "is")
  let ?m = "map_of sl"
  show ?case
  proof (cases "?m i")
    case None
    then have "yielded_slots (insert i R) ?m = yielded_slots R ?m" for R by (auto simp: yielded_slots_def)
    with None Cons show ?thesis by (simp add: slot_ready_def fresh_result_def)
  next
    case (Some s)
    consider "sl_State s = ToolStateYielded" | "sl_State s = ToolStateCompleted \<or> sl_State s = ToolStateAborted"
      | "\<not> terminal_state (sl_State s)" by (auto simp: terminal_state_def)
    then show ?thesis
    proof cases
      case 1
      with Some have "yielded_slots (insert i R) ?m = yielded_slots R ?m" for R
        by (auto simp: yielded_slots_def yielded_same)
      with 1 Some Cons show ?thesis by (simp add: slot_ready_def fresh_result_def terminal_state_def)
    next
      case 2
      let ?s = "s\<lparr>sl_State := ToolStateYielded\<rparr>"
      have m: "map_of (mput i ?s sl) = ?m(i \<mapsto> ?s)" by (rule update_conv')
      have y: "yielded_slots R (?m(i \<mapsto> ?s)) = yielded_slots (insert i R) ?m" for R
        using Some by (auto simp: yielded_slots_def)
      have "slot_ready ?m i" "fresh_result ?m i = sl_Result s"
        using 2 Some by (auto simp: slot_ready_def fresh_result_def terminal_state_def)
      with 2 Some Cons.prems Cons.IH [of "mput i ?s sl", unfolded m] show ?thesis
        by (auto simp del: fun_upd_apply simp: ready_elsewhere case_prod_beta y split: option.split)
    next
      case 3
      with Some show ?thesis
        by (auto simp: slot_ready_def terminal_state_def yielded_slots_def fun_eq_iff)
    qed
  qed
qed

text \<open>\<open>GetCompletedResults\<close> hands out, in call order, the results not handed out before of the calls that precede the first
  unfinished one, and marks exactly those calls as yielded.
\<close>

theorem results_in_call_order:
  assumes "exec_reachable reg (e, M)"
  shows "snd (GetCompletedResults e) =
      List.map_filter (fresh_result (GetSlot e)) (takeWhile (slot_ready (GetSlot e)) (ex_toolOrder e)) \<and>
    GetSlot (fst (GetCompletedResults e)) =
      yielded_slots (set (takeWhile (slot_ready (GetSlot e)) (ex_toolOrder e))) (GetSlot e)"
proof -
  have "distinct (ex_toolOrder e)" using exec_reachable_inv [OF assms] by (simp add: exec_inv_def order_ok_def)
  moreover have "GetSlot e' = map_of (ex_slots e')" for e' by (simp add: GetSlot_def fun_eq_iff)
  ultimately show ?thesis using yield_ready_spec by (simp add: GetCompletedResults_def case_prod_beta)
qed

section \<open>Progress\<close>

lemma find_stronger: "find Q xs = Some x \<Longrightarrow> P x \<Longrightarrow> (\<And>y. P y \<Longrightarrow> Q y) \<Longrightarrow> find P xs = Some x"
  by (induction xs) (auto split: if_splits)

lemma earlier_not_found: "find P xs = Some i \<Longrightarrow> p \<in> earlier xs i \<Longrightarrow> \<not> P p"
  by (induction xs) (auto simp: earlier_def split: if_splits)

text \<open>When no thread is left and the executor is not cancelled, the first unfinished call is queued, and the drain finds it
  whenever it is safe or its permission was granted: no call is stranded behind finished ones.
\<close>

theorem drain_finds_the_next_call:
  assumes "exec_reachable reg (e, {#})" "\<not> ex_cancelled e"
    "find (\<lambda>i. \<not> slot_ready (GetSlot e) i) (ex_toolOrder e) = Some i" "GetSlot e i = Some s"
  shows "sl_State s = ToolStateQueued \<and>
    (isSafeLocked reg (sl_TC s) \<or> sl_PermissionGranted s \<longrightarrow> i \<in> set (maybeDrain reg e))"
proof (intro conjI impI)
  have inv: "exec_inv reg (e, {#})" and att: "attended (e, {#})"
    using assms(1) by (rule exec_reachable_inv exec_reachable_attended)+
  have i: "i \<in> set (ex_toolOrder e)" "\<not> slot_ready (GetSlot e) i"
    using assms(3) by (auto simp: find_Some_iff)
  have "sl_State s \<noteq> ToolStateExecuting" using att assms(4) by (auto simp: attended_def)
  with i(2) assms(4) show q: "sl_State s = ToolStateQueued"
    by (cases "sl_State s") (auto simp: slot_ready_def terminal_state_def)
  have prior: "slot_ready (GetSlot e) p" if "p \<in> earlier (ex_toolOrder e) i" for p
    using earlier_not_found [OF assms(3) that] by simp
  then have ok: "priors_ok reg e i b (ex_toolOrder e)" for b
    by (fastforce simp: priors_ok_iff slot_ready_def)
  have zero: "ex_nonSafeRunning e = 0" using inv by (simp add: exec_inv_def exclusive_count_def)
  have start: "canStartImmediatelyLocked reg i allow e" if "isSafeLocked reg (sl_TC s) \<or> allow" for allow
    using that assms(2,4) q ok zero by (simp add: canStartImmediatelyLocked_def)
  assume g: "isSafeLocked reg (sl_TC s) \<or> sl_PermissionGranted s"
  show "i \<in> set (maybeDrain reg e)"
  proof (cases "isSafeLocked reg (sl_TC s)")
    case True
    with start [of False] i(1) q assms(2,4) show ?thesis by (simp add: maybeDrain_def)
  next
    case False
    let ?P = "\<lambda>i. case GetSlot e i of None \<Rightarrow> False
                 | Some s \<Rightarrow> sl_State s = ToolStateQueued \<and> \<not> isSafeLocked reg (sl_TC s) \<and>
                             sl_PermissionGranted s \<and> canStartImmediatelyLocked reg i True e"
    have "find ?P (ex_toolOrder e) = Some i"
      using assms(3)
    proof (rule find_stronger)
      show "?P i" using False g start [of True] q assms(4) by simp
      show "\<not> slot_ready (GetSlot e) j" if "?P j" for j
        using that by (auto simp: slot_ready_def terminal_state_def split: option.splits)
    qed
    with assms(2) show ?thesis by (simp add: maybeDrain_def)
  qed
qed

section \<open>Sample runs\<close>

lemma reach_thread:
  assumes "exec_reachable reg (e, add_mset t M)" "thread_step reg e t e' ts"
  shows "exec_reachable reg (e', mset ts + M)"
  using assms by (blast intro: next_state exec_step.thread)

lemma reach_executing:
  assumes "exec_reachable reg (e, add_mset (TLaunch i) M)" "launch_reserve reg i e = Some (e1, b)" "launch_start i b e1 = Some e2"
  shows "exec_reachable reg (e2, add_mset (TExec i b) M)"
proof -
  have "exec_reachable reg (e1, add_mset (TReserved i b) M)"
    using reach_thread [OF assms(1) reserve [OF assms(2)]] by simp
  from reach_thread [OF this started [OF assms(3)]] show ?thesis by simp
qed

lemma reach_failure:
  assumes "exec_reachable reg (e, add_mset (TExec i True) M)" "\<not> (ex_cancelled e \<or> abortSignalled i e)"
    "map_of (ex_replacements e) i = None" "0 < ex_permits e"
  shows "exec_reachable reg (finishResult i c c True (store_replacement i c (e\<lparr>ex_permits := ex_permits e - 1\<rparr>)),
    add_mset (TSiblings i True) M)"
proof -
  let ?e = "e\<lparr>ex_permits := ex_permits e - 1\<rparr>"
  have "exec_reachable reg (e, add_mset (TReady i True) M)"
    using reach_thread [OF assms(1) goes_on [OF assms(2)]] by simp
  from reach_thread [OF this not_cached [OF assms(3)]]
  have "exec_reachable reg (e, add_mset (TAcquire i True) M)" by simp
  from reach_thread [OF this acquired [OF assms(4)]]
  have "exec_reachable reg (?e, add_mset (TRun i True) M)" by simp
  from reach_thread [OF this returned [where c = c and x = True]]
  have "exec_reachable reg (?e, add_mset (TResult i True c True) M)" by simp
  moreover have "\<not> abortSignalled i ?e" using assms(2) by (simp add: abortSignalled_def GetSlot_def)
  ultimately have "exec_reachable reg (store_replacement i c ?e, add_mset (TPublish i True c True) M)"
    using reach_thread [OF _ stored [where t = c and x = True and c = c]] by fastforce
  from reach_thread [OF this published] show ?thesis by simp
qed

definition bash_tool :: Tool where
  "bash_tool = (sample_tool ''bash'' [] True)\<lparr>tl_SupportsSiblingAbort := True\<rparr>"

definition bash_registry :: ToolRegistry where
  "bash_registry = NewToolRegistry [Some bash_tool, Some (sample_tool ''write_file'' [] False)]"

definition sample_call :: "string \<Rightarrow> string \<Rightarrow> ToolCall" where
  "sample_call i name = \<lparr>tc_ID = i, tc_Name = name, tc_Input = []\<rparr>"

definition two_calls :: StreamingToolExecutor where
  "two_calls = fst (AddTool bash_registry (sample_call ''b'' ''bash'')
     (fst (AddTool bash_registry (sample_call ''a'' ''bash'') (NewStreamingToolExecutor []))))"

definition start_call :: "string \<Rightarrow> StreamingToolExecutor \<Rightarrow> StreamingToolExecutor" where
  "start_call i e = the (launch_start i True (fst (the (launch_reserve bash_registry i e))))"

definition both_run :: StreamingToolExecutor where
  "both_run = start_call ''b'' (start_call ''a'' two_calls)"

definition first_failed_run :: StreamingToolExecutor where
  "first_failed_run = AbortSiblings bash_registry ''a'' (finishResult ''a'' ''exit 1'' ''exit 1'' True
     (store_replacement ''a'' ''exit 1'' (both_run\<lparr>ex_permits := ex_permits both_run - 1\<rparr>)))"

definition first_done :: StreamingToolExecutor where
  "first_done = the (exec_final ''a'' True True first_failed_run)"

definition second_done :: StreamingToolExecutor where
  "second_done = the (exec_final ''b'' True False
     (finishCancelled ''b'' cancel_text (fst (GetCompletedResults first_done))))"

lemma two_calls_reachable:
  "exec_reachable bash_registry (two_calls, {#TLaunch ''b'', TLaunch ''a''#})"
proof -
  let ?new = "NewStreamingToolExecutor []" and ?a = "sample_call ''a'' ''bash''" and ?b = "sample_call ''b'' ''bash''"
  have a: "AddTool bash_registry ?a ?new = (fst (AddTool bash_registry ?a ?new), True)" by code_simp
  have "exec_step bash_registry (?new, {#}) (fst (AddTool bash_registry ?a ?new), if True then add_mset (TLaunch (tc_ID ?a)) {#} else {#})"
    by (rule added [OF _ a]) code_simp
  then have 1: "exec_reachable bash_registry (fst (AddTool bash_registry ?a ?new), {#TLaunch ''a''#})"
    using new_executor next_state by (fastforce simp: sample_call_def)
  have b: "AddTool bash_registry ?b (fst (AddTool bash_registry ?a ?new)) = (two_calls, True)" by code_simp
  have "exec_step bash_registry (fst (AddTool bash_registry ?a ?new), {#TLaunch ''a''#})
     (two_calls, if True then add_mset (TLaunch (tc_ID ?b)) {#TLaunch ''a''#} else {#TLaunch ''a''#})"
    by (rule added [OF _ b]) code_simp
  with 1 show ?thesis using next_state by (fastforce simp: sample_call_def)
qed

lemma both_run_reachable: "exec_reachable bash_registry (both_run, {#TExec ''a'' True, TExec ''b'' True#})"
proof -
  let ?e = "start_call ''a'' two_calls"
  have a: "launch_reserve bash_registry ''a'' two_calls = Some (fst (the (launch_reserve bash_registry ''a'' two_calls)), True)"
    "launch_start ''a'' True (fst (the (launch_reserve bash_registry ''a'' two_calls))) = Some ?e" by code_simp+
  have "exec_reachable bash_registry (two_calls, add_mset (TLaunch ''a'') {#TLaunch ''b''#})"
    using two_calls_reachable by (simp add: add_mset_commute)
  from reach_executing [OF this a]
  have "exec_reachable bash_registry (?e, add_mset (TLaunch ''b'') {#TExec ''a'' True#})" by (simp add: add_mset_commute)
  moreover have "launch_reserve bash_registry ''b'' ?e = Some (fst (the (launch_reserve bash_registry ''b'' ?e)), True)"
    "launch_start ''b'' True (fst (the (launch_reserve bash_registry ''b'' ?e))) = Some both_run" by code_simp+
  ultimately show ?thesis using reach_executing by (fastforce simp: add_mset_commute)
qed

lemma first_done_reachable:
  "exec_reachable bash_registry (first_failed_run, {#TFinal ''a'' True True, TExec ''b'' True#})"
  "exec_reachable bash_registry (first_done, {#TNotify ''a'', TExec ''b'' True#})"
proof -
  let ?f = "finishResult ''a'' ''exit 1'' ''exit 1'' True
     (store_replacement ''a'' ''exit 1'' (both_run\<lparr>ex_permits := ex_permits both_run - 1\<rparr>))"
  have "\<not> (ex_cancelled both_run \<or> abortSignalled ''a'' both_run)" "map_of (ex_replacements both_run) ''a'' = None"
    "0 < ex_permits both_run" by code_simp+
  from reach_failure [OF both_run_reachable this]
  have f: "exec_reachable bash_registry (?f, add_mset (TSiblings ''a'' True) {#TExec ''b'' True#})" .
  have "abort_capable bash_registry ''a'' ?f" by code_simp
  then show 1: "exec_reachable bash_registry (first_failed_run, {#TFinal ''a'' True True, TExec ''b'' True#})"
    using reach_thread [OF f siblings] unfolding first_failed_run_def by (simp add: add_mset_commute)
  have "exec_final ''a'' True True first_failed_run = Some first_done" by code_simp
  from reach_thread [OF 1 finished [OF this]]
  show "exec_reachable bash_registry (first_done, {#TNotify ''a'', TExec ''b'' True#})" by (simp add: add_mset_commute)
qed

lemma second_done_steps:
  "(exec_step bash_registry)\<^sup>*\<^sup>* (fst (GetCompletedResults first_done), {#TNotify ''a'', TExec ''b'' True#})
     (second_done, {#TNotify ''a'', TNotify ''b''#})"
proof -
  let ?e = "fst (GetCompletedResults first_done)" and ?c = "finishCancelled ''b'' cancel_text (fst (GetCompletedResults first_done))"
  have "ex_cancelled ?e \<or> abortSignalled ''b'' ?e" by code_simp
  from exec_step.thread [OF already_cancelled [OF this], of bash_registry True "{#TNotify ''a''#}"]
  have "exec_step bash_registry (?e, {#TNotify ''a'', TExec ''b'' True#}) (?c, {#TNotify ''a'', TFinal ''b'' True False#})"
    by (simp add: add_mset_commute)
  moreover have "exec_final ''b'' True False ?c = Some second_done" by code_simp
  from exec_step.thread [OF finished [OF this], of bash_registry "{#TNotify ''a''#}"]
  have "exec_step bash_registry (?c, {#TNotify ''a'', TFinal ''b'' True False#}) (second_done, {#TNotify ''a'', TNotify ''b''#})"
    by (simp add: add_mset_commute)
  ultimately show ?thesis by simp
qed

text \<open>C32: A call aborted while it runs can be delivered twice: after \<open>GetCompletedResults\<close> has handed out the abort result, the
  deferred function of \<open>executeOne\<close> turns the yielded slot back into a completed one, and the next \<open>GetCompletedResults\<close> hands out
  a second result for the same call.
\<close>

theorem aborted_result_is_delivered_twice:
  "\<exists>e M e' M'. exec_reachable bash_registry (e, M) \<and>
     (exec_step bash_registry)\<^sup>*\<^sup>* (fst (GetCompletedResults e), M) (e', M') \<and>
     map (\<lambda>r. stringFromAny (fld r ''tool_use_id'')) (snd (GetCompletedResults e)) = [''a'', ''b''] \<and>
     map (\<lambda>r. stringFromAny (fld r ''tool_use_id'')) (snd (GetCompletedResults e')) = [''b'']"
proof -
  have "map (\<lambda>r. stringFromAny (fld r ''tool_use_id'')) (snd (GetCompletedResults first_done)) = [''a'', ''b'']"
    "map (\<lambda>r. stringFromAny (fld r ''tool_use_id'')) (snd (GetCompletedResults second_done)) = [''b'']" by code_simp+
  with first_done_reachable(2) second_done_steps show ?thesis by (intro exI conjI)
qed


theorem done_is_closed_once_witness:
  "exec_final ''a'' True True first_failed_run \<noteq> None"
  using done_is_closed_once [OF first_done_reachable(1)] by simp

theorem results_in_call_order_witness:
  "map (\<lambda>r. stringFromAny (fld r ''tool_use_id'')) (snd (GetCompletedResults first_done)) = [''a'', ''b''] \<and>
   snd (GetCompletedResults first_done) =
     List.map_filter (fresh_result (GetSlot first_done)) (takeWhile (slot_ready (GetSlot first_done)) (ex_toolOrder first_done))"
proof
  show "map (\<lambda>r. stringFromAny (fld r ''tool_use_id'')) (snd (GetCompletedResults first_done)) = [''a'', ''b'']" by code_simp
qed (use results_in_call_order [OF first_done_reachable(2)] in blast)


definition waiting_write :: StreamingToolExecutor where
  "waiting_write = fst (AddTool bash_registry (sample_call ''w2'' ''write_file'')
     (fst (AddTool bash_registry (sample_call ''w1'' ''write_file'') (NewStreamingToolExecutor []))))"

lemma waiting_write_reachable: "exec_reachable bash_registry (waiting_write, {#})"
proof -
  let ?new = "NewStreamingToolExecutor []" and ?a = "sample_call ''w1'' ''write_file''" and ?b = "sample_call ''w2'' ''write_file''"
  let ?e = "fst (AddTool bash_registry ?a ?new)"
  have a: "AddTool bash_registry ?a ?new = (?e, False)" and b: "AddTool bash_registry ?b ?e = (waiting_write, False)" by code_simp+
  have "tc_ID ?a \<notin> set (ex_toolOrder ?new)" "tc_ID ?b \<notin> set (ex_toolOrder ?e)" by code_simp+
  from next_state [OF new_executor added [OF this(1) a]] next_state [OF _ added [OF this(2) b]] show ?thesis by simp
qed

definition granted_write :: StreamingToolExecutor where
  "granted_write = DenyTool None ''w1'' (fst (TryStartQueued bash_registry ''w2'' waiting_write))"

lemma granted_write_reachable: "exec_reachable bash_registry (granted_write, {#})"
proof -
  let ?e = "fst (TryStartQueued bash_registry ''w2'' waiting_write)"
  have "TryStartQueued bash_registry ''w2'' waiting_write = (?e, False)" by code_simp
  from next_state [OF waiting_write_reachable tried [OF this]] have "exec_reachable bash_registry (?e, {#})" by simp
  from next_state [OF this denied [of _ _ _ None "''w1''"]] show ?thesis by (simp add: granted_write_def)
qed

theorem drain_finds_the_next_call_witness:
  "IsQueued ''w2'' granted_write \<and> list_ex (\<lambda>i. i = ''w2'') (maybeDrain bash_registry granted_write)"
proof -
  let ?s = "(queued_slot (sample_call ''w2'' ''write_file''))\<lparr>sl_PermissionGranted := True\<rparr>"
  have "\<not> ex_cancelled granted_write" "find (\<lambda>i. \<not> slot_ready (GetSlot granted_write) i) (ex_toolOrder granted_write) = Some ''w2''"
    and s: "GetSlot granted_write ''w2'' = Some ?s" by code_simp+
  from drain_finds_the_next_call [OF granted_write_reachable this]
  show ?thesis by (simp add: s IsQueued_def queued_slot_def list_ex_iff)
qed

theorem exclusive_call_runs_only_when_granted_witness:
  "map_option sl_PermissionGranted (GetSlot granted_write ''w2'') = Some True \<and>
   map_option (\<lambda>s. isSafeLocked bash_registry (sl_TC s)) (GetSlot granted_write ''w2'') = Some False"
proof -
  let ?s = "(queued_slot (sample_call ''w2'' ''write_file''))\<lparr>sl_PermissionGranted := True\<rparr>"
  have d: "maybeDrain bash_registry granted_write = [''w2'']" and s: "GetSlot granted_write ''w2'' = Some ?s"
    and x: "\<not> isSafeLocked bash_registry (sl_TC ?s)" by code_simp+
  have "exec_reachable bash_registry (granted_write, {#TLaunch ''w2''#})"
    using next_state [OF granted_write_reachable consumer_drains] by (simp add: d)
  from exclusive_call_runs_only_when_granted [OF this s x] s x show ?thesis by simp
qed

end
