(* ===== verification/Permission_Resolver.thy ===== *)
theory Permission_Resolver
  imports Tool_Executor Run_State Bash_Classifier Bash_Permissions
begin

text \<open>
  \<open>agent/permission_resolver.go\<close> and \<open>CheckPermissionChain\<close> of \<open>agent/loop.go\<close>: for each call of a turn, whether it
  starts at once, after a question to the user, or not at all. The resolver combines the registry, the
  permission state, the analysis of shell commands and the executor. What the user answers is the
  parameter \<open>ask\<close> (\<open>None\<close> when the resolver has no way to ask), the answers of the journal observer are
  the parameter \<open>journal\<close>. The hook that runs before each call is left out, it has no access to the state here.
\<close>

section \<open>Does a call need permission\<close>

definition CheckPermissionChain :: "fs_env \<Rightarrow> ToolCall \<Rightarrow> Tool option \<Rightarrow> AgentState \<Rightarrow> bool" where
  "CheckPermissionChain env tc tool st =
     (case tool of
        None \<Rightarrow> True
      | Some t \<Rightarrow>
          (let ps = as_PermissionState st; command = stringFromAny (fld (tc_Input tc) ''command'');
               prefix = GetSimpleCommandPrefix command; fp = stringFromAny (fld (tc_Input tc) ''file_path'')
           in if YoloEnabled st then False
              else case tl_DecodeInput t (tc_Input tc) of
                None \<Rightarrow> True
              | Some validated \<Rightarrow>
                  if tl_IsReadOnly t (Some validated) then False
                  else if tc_Name tc = ''run_shell'' \<and> ps \<noteq> None \<and> prefix \<noteq> [] \<and> IsCommandPrefixConfirmed ps prefix \<and>
                          \<not> NeedsUserDecision (AnalyzeCommandPermissions command) then False
                  else if (case ps of None \<Rightarrow> False | Some p \<Rightarrow> IsToolConfirmed p (tc_Name tc)) then False
                  else if tl_ConfirmsFilePaths t \<and> (case ps of None \<Rightarrow> False | Some p \<Rightarrow> fp \<noteq> [] \<and> IsPathConfirmed env p fp) then False
                  else tl_NeedsPermission t (Some validated)))"

section \<open>Denials and grants\<close>

definition wslSandboxDecisionMapKey :: string where
  "wslSandboxDecisionMapKey = ''_wsl_sandbox_setup_decisions''"

definition DeniedToolResultContent :: "ToolCall \<Rightarrow> AgentState \<Rightarrow> AgentState \<times> string" where
  "DeniedToolResultContent tc st =
     (let denials = mget 0 (as_DeniedToolCalls st) (tc_Name tc) + 1
      in (st\<lparr>as_DeniedToolCalls := mput (tc_Name tc) denials (as_DeniedToolCalls st)\<rparr>,
          if denials < 3 then denied_text
          else denied_text @ [CHR 0x0A, CHR 0x0A] @ ''<system_hint>'' @ [CHR 0x0A] @ ''The user has explicitly denied '' @ [CHR 0x27] @
            tc_Name tc @ [CHR 0x27] @ '' '' @ show_int denials @
            '' times in a row. This action will NOT be approved on retry. DO NOT request it again. You MUST pivot to a completely different approach or explain to the user why this action is necessary and ask them to approve it directly.'' @
            [CHR 0x0A] @ ''</system_hint>''))"

definition forget_failures :: "ToolCall \<Rightarrow> AgentState \<Rightarrow> AgentState" where
  "forget_failures tc st =
     st\<lparr>as_DeniedToolCalls := mdel (tc_Name tc) (as_DeniedToolCalls st), as_ToolErrors := mdel (tc_Name tc) (as_ToolErrors st)\<rparr>"

definition persistAlwaysGrant :: "fs_env \<Rightarrow> ToolCall \<Rightarrow> Tool \<Rightarrow> AgentState \<Rightarrow> AgentState" where
  "persistAlwaysGrant env tc tool st =
     (case as_PermissionState st of
        None \<Rightarrow> st
      | Some p \<Rightarrow>
          if tc_Name tc = ''run_shell'' then
            (let command = stringFromAny (fld (tc_Input tc) ''command''); prefix = GetSimpleCommandPrefix command
             in if command \<noteq> [] \<and> prefix \<noteq> [] then st\<lparr>as_PermissionState := Some (ConfirmCommandPrefix p prefix)\<rparr> else st)
          else if tl_ConfirmsFilePaths tool then
            (let fp = stringFromAny (fld (tc_Input tc) ''file_path'')
             in if fp \<noteq> [] then st\<lparr>as_PermissionState := Some (ConfirmPath env p fp)\<rparr> else st)
          else st\<lparr>as_PermissionState := Some (ConfirmTool p (tc_Name tc))\<rparr>)"

definition sandbox_setup_allows :: "string \<Rightarrow> gomap \<Rightarrow> bool" where
  "sandbox_setup_allows key metadata =
     (case object_of (fld metadata ''sandbox_setup_request'') of
        None \<Rightarrow> False | Some request \<Rightarrow> fld request key = JBool True)"

definition sandboxSetupAllowsLocalFallback :: "gomap \<Rightarrow> bool" where
  "sandboxSetupAllowsLocalFallback = sandbox_setup_allows ''allow_local_fallback''"

definition sandboxSetupCanInstall :: "gomap \<Rightarrow> bool" where
  "sandboxSetupCanInstall = sandbox_setup_allows ''can_install''"

record sandboxRequirement =
  sr_platform :: string
  sr_backend :: string
  sr_reason :: string

definition sandboxUnavailableRequirement :: "Tool \<Rightarrow> ToolCall \<Rightarrow> AgentState \<Rightarrow> sandboxRequirement option" where
  "sandboxUnavailableRequirement tool tc st =
     (if tc_Name tc \<noteq> ''run_shell'' \<or> YoloEnabled st then None
      else case tl_SandboxStatus tool of
        None \<Rightarrow> None
      | Some (available, platform, backend) \<Rightarrow>
          if available then None
          else (let backend' = (if backend = [] then ''supported OS sandbox'' else backend)
                in Some \<lparr>sr_platform = platform, sr_backend = backend',
                     sr_reason = ''The '' @ platform @ '' sandbox backend ('' @ backend' @
                       '') is unavailable. Allowing this command will enable YOLO mode for the current session and run this and subsequent shell commands without OS sandbox isolation.''\<rparr>))"

section \<open>Resolving one call\<close>

text \<open>The executor and the draft state after the call was resolved, whether the call is launched, and
  the events for the user.\<close>

record resolution =
  rs_exec :: StreamingToolExecutor
  rs_state :: AgentState
  rs_launch :: bool
  rs_events :: "StreamEvent list"

type_synonym prompt = "(StreamEvent \<Rightarrow> string) option"

definition RequestDecision :: "prompt \<Rightarrow> StreamEvent \<Rightarrow> string \<times> StreamEvent list" where
  "RequestDecision ask event = (case ask of None \<Rightarrow> (PermissionDeny, [event]) | Some f \<Rightarrow> (f event, []))"

definition agrees :: "string \<Rightarrow> bool" where
  "agrees d \<longleftrightarrow> d = PermissionOnce \<or> d = PermissionAlways \<or> d = ''true''"

definition tool_call_value :: "ToolCall \<Rightarrow> json" where
  "tool_call_value tc = JObj [(''id'', JStr (tc_ID tc)), (''name'', JStr (tc_Name tc)), (''input'', JObj (tc_Input tc))]"

definition start_call_queued :: "ToolRegistry \<Rightarrow> ToolCall \<Rightarrow> StreamEvent list \<Rightarrow> AgentState \<Rightarrow> StreamingToolExecutor \<Rightarrow> resolution" where
  "start_call_queued reg tc evs st e =
     (case TryStartQueued reg (tc_ID tc) e of
        (e', c) \<Rightarrow> \<lparr>rs_exec = e', rs_state = st, rs_launch = c, rs_events = evs\<rparr>)"

definition refuse_call :: "string option \<Rightarrow> ToolCall \<Rightarrow> StreamEvent list \<Rightarrow> AgentState \<Rightarrow> StreamingToolExecutor \<Rightarrow> resolution" where
  "refuse_call journal tc evs st e =
     (case DeniedToolResultContent tc st of
        (st', content) \<Rightarrow>
          \<lparr>rs_exec = DenyTool journal (tc_ID tc) e, rs_state = st', rs_launch = False,
           rs_events = evs @ [NewStreamEvent ''tool_result'' content [(''tool_use_id'', JStr (tc_ID tc)), (''denied'', JBool True)]]\<rparr>)"

datatype setup_outcome = SetupSkipped | SetupAllowed string "StreamEvent list" | SetupRefused "StreamEvent list"

definition sandbox_setup :: "prompt \<Rightarrow> ToolCall \<Rightarrow> Tool \<Rightarrow> json option \<Rightarrow> setup_outcome" where
  "sandbox_setup ask tc tool validated =
     (case tl_SandboxSetupRequest tool of
        None \<Rightarrow> SetupSkipped
      | Some request \<Rightarrow>
          (case request validated of
             None \<Rightarrow> SetupSkipped
           | Some m \<Rightarrow>
               (let metadata = mput ''tool_call'' (tool_call_value tc) m
                in case RequestDecision ask (NewStreamEvent ''permission_needed'' (tc_Name tc) metadata) of
                  (decision, evs) \<Rightarrow>
                    if decision = ''install'' \<or> agrees decision then
                      (if sandboxSetupCanInstall metadata then SetupAllowed ''install'' evs else SetupRefused evs)
                    else if decision = ''local'' then
                      (if sandboxSetupAllowsLocalFallback metadata then SetupAllowed ''local'' evs else SetupRefused evs)
                    else SetupRefused evs)))"

definition sandbox_event :: "ToolCall \<Rightarrow> sandboxRequirement \<Rightarrow> StreamEvent" where
  "sandbox_event tc req =
     NewStreamEvent ''permission_needed'' (tc_Name tc)
       [(''tool_call'', tool_call_value tc), (''risk'', JStr ''high''), (''dangerous'', JBool True),
        (''sandbox_unavailable'', JBool True), (''sandbox_platform'', JStr (sr_platform req)),
        (''sandbox_backend'', JStr (sr_backend req)), (''enables_yolo'', JBool True),
        (''command'', JStr (stringFromAny (fld (tc_Input tc) ''command''))), (''reason'', JStr (sr_reason req))]"

definition yolo_event :: StreamEvent where
  "yolo_event =
     NewStreamEvent ''text'' ([CHR 0x0A] @ ''[system] YOLO mode enabled because the OS sandbox backend is unavailable. This and subsequent shell commands will run without OS sandbox isolation.'' @ [CHR 0x0A])
       [(''yolo_enabled'', JBool True), (''reason'', JStr ''sandbox_unavailable'')]"

definition enable_yolo :: "AgentState \<Rightarrow> AgentState" where
  "enable_yolo st =
     (let p = (case as_PermissionState st of None \<Rightarrow> DefaultPermissionState | Some p \<Rightarrow> p)
      in st\<lparr>as_PermissionState := Some (p\<lparr>YoloMode := True\<rparr>)\<rparr>)"

definition resolve_unsandboxed ::
  "ToolRegistry \<Rightarrow> prompt \<Rightarrow> string option \<Rightarrow> ToolCall \<Rightarrow> sandboxRequirement \<Rightarrow> AgentState \<Rightarrow> StreamingToolExecutor \<Rightarrow> resolution" where
  "resolve_unsandboxed reg ask journal tc req st e =
     (case RequestDecision ask (sandbox_event tc req) of
        (decision, evs) \<Rightarrow>
          if agrees decision then start_call_queued reg tc (evs @ [yolo_event]) (forget_failures tc (enable_yolo st)) e
          else refuse_call journal tc evs st e)"

text \<open>Whether the user has to be asked, and how risky the call is.\<close>

definition needs_and_risk :: "fs_env \<Rightarrow> ToolCall \<Rightarrow> Tool \<Rightarrow> json option \<Rightarrow> AgentState \<Rightarrow> bool \<times> string" where
  "needs_and_risk env tc tool validated st =
     (let needs = CheckPermissionChain env tc (Some tool) st; command = stringFromAny (fld (tc_Input tc) ''command'');
          class = (if needs \<and> tl_HasCommandClassifier tool \<and> command \<noteq> [] then Some (CommandClass (ClassifyCommand command)) else None);
          risk = (if class = Some CommandClassDangerous then ''high'' else ''normal'')
      in (needs \<and> class \<noteq> Some CommandClassSafe,
          if risk = ''normal'' \<and> tl_IsDestructive tool validated then ''high'' else risk))"

definition resolve_permission ::
  "fs_env \<Rightarrow> ToolRegistry \<Rightarrow> prompt \<Rightarrow> string option \<Rightarrow> ToolCall \<Rightarrow> Tool \<Rightarrow> json option \<Rightarrow> StreamEvent list \<Rightarrow> AgentState \<Rightarrow>
   StreamingToolExecutor \<Rightarrow> resolution" where
  "resolve_permission env reg ask journal tc tool validated evs st e =
     (if tl_IsReadOnly tool validated then start_call_queued reg tc evs st e
      else case needs_and_risk env tc tool validated st of
        (needs, risk) \<Rightarrow>
          if \<not> needs then start_call_queued reg tc evs st e
          else case RequestDecision ask (NewStreamEvent ''permission_needed'' (tc_Name tc)
                 [(''tool_call'', tool_call_value tc), (''risk'', JStr risk), (''dangerous'', JBool (risk = ''high''))]) of
            (decision, evs') \<Rightarrow>
              if agrees decision then
                start_call_queued reg tc (evs @ evs')
                  (forget_failures tc (if decision = PermissionAlways then persistAlwaysGrant env tc tool st else st)) e
              else refuse_call journal tc (evs @ evs') st e)"

definition resolve_call ::
  "fs_env \<Rightarrow> ToolRegistry \<Rightarrow> prompt \<Rightarrow> string option \<Rightarrow> bool \<Rightarrow> ToolCall \<Rightarrow> AgentState \<Rightarrow> StreamingToolExecutor \<Rightarrow> resolution" where
  "resolve_call env reg ask journal aborted tc st e =
     (let nothing = \<lparr>rs_exec = e, rs_state = st, rs_launch = False, rs_events = []\<rparr>
      in if aborted then
           (if IsQueued (tc_ID tc) e then nothing\<lparr>rs_exec := DenyTool journal (tc_ID tc) e\<rparr> else nothing)
         else if \<not> IsQueued (tc_ID tc) e then nothing
         else case GetTool reg (tc_Name tc) of
           None \<Rightarrow> start_call_queued reg tc [] st e
         | Some tool \<Rightarrow>
             (let validated = tl_DecodeInput tool (tc_Input tc)
              in case sandbox_setup ask tc tool validated of
                SetupRefused evs \<Rightarrow> refuse_call journal tc evs st e
              | SetupAllowed d evs \<Rightarrow>
                  resolve_permission env reg ask journal tc tool validated evs st
                    (SetToolDecisionMapValue wslSandboxDecisionMapKey (tc_ID tc) d e)
              | SetupSkipped \<Rightarrow>
                  (case sandboxUnavailableRequirement tool tc st of
                     Some req \<Rightarrow> resolve_unsandboxed reg ask journal tc req st e
                   | None \<Rightarrow> resolve_permission env reg ask journal tc tool validated [] st e)))"

text \<open>The calls of a turn in order. \<open>between\<close> is what the goroutines of the executor have done to it before
  the call is looked at.\<close>

fun Resolve ::
  "fs_env \<Rightarrow> ToolRegistry \<Rightarrow> prompt \<Rightarrow> (ToolCall \<Rightarrow> string option) \<Rightarrow> (ToolCall \<Rightarrow> bool) \<Rightarrow>
   (ToolCall \<Rightarrow> StreamingToolExecutor \<Rightarrow> StreamingToolExecutor) \<Rightarrow> ToolCall list \<Rightarrow> AgentState \<Rightarrow> StreamingToolExecutor \<Rightarrow>
   StreamingToolExecutor \<times> AgentState \<times> string list \<times> StreamEvent list" where
  "Resolve env reg ask journal isAborted between [] st e = (e, st, [], [])"
| "Resolve env reg ask journal isAborted between (tc # tcs) st e =
     (let r = resolve_call env reg ask (journal tc) (isAborted tc) tc st (between tc e)
      in case Resolve env reg ask journal isAborted between tcs (rs_state r) (rs_exec r) of
           (e', st', ls, evs) \<Rightarrow> (e', st', (if rs_launch r then tc_ID tc # ls else ls), rs_events r @ evs))"

section \<open>What a grant means\<close>

definition granted :: "string \<Rightarrow> StreamingToolExecutor \<Rightarrow> bool" where
  "granted i e = (case GetSlot e i of None \<Rightarrow> False | Some s \<Rightarrow> sl_PermissionGranted s)"

definition names_call :: "ToolCall \<Rightarrow> StreamEvent \<Rightarrow> bool" where
  "names_call tc ev \<longleftrightarrow> se_Type ev = ''permission_needed'' \<and> fld (se_Metadata ev) ''tool_call'' = tool_call_value tc"

definition user_agreed :: "prompt \<Rightarrow> ToolCall \<Rightarrow> bool" where
  "user_agreed ask tc \<longleftrightarrow> (\<exists>f ev. ask = Some f \<and> names_call tc ev \<and> agrees (f ev))"

lemma granted_frame [simp]:
  "granted i (SetToolDecisionMapValue k j v e) = granted i e" "granted i (signalActivity e) = granted i e"
  "granted i (cancelAll e) = granted i e"
  by (simp_all add: granted_def GetSlot_def SetToolDecisionMapValue_def signalActivity_def cancelAll_def)

lemma granted_DenyTool [simp]: "granted i (DenyTool journal j e) = granted i e"
proof -
  have "granted i (upd_slot j (\<lambda>s. s\<lparr>sl_State := ToolStateCompleted, sl_Result := r, sl_IsError := False\<rparr>) e) = granted i e" for r e
    by (simp add: granted_def GetSlot_upd split: option.split)
  then show ?thesis by (simp add: DenyTool_def split: option.split)
qed

lemma IsQueued_frame [simp]: "IsQueued i (SetToolDecisionMapValue k j v e) = IsQueued i e"
  by (simp add: IsQueued_def GetSlot_def SetToolDecisionMapValue_def)

lemma DenyTool_slot:
  "IsQueued i e \<Longrightarrow> \<exists>s. GetSlot (DenyTool None i e) i = Some s \<and> sl_State s = ToolStateCompleted \<and>
     sl_Result s = Some (tool_result_block i denied_text)"
  by (auto simp: IsQueued_def DenyTool_def signalActivity_def GetSlot_upd [unfolded GetSlot_def] GetSlot_def split: option.splits)

lemma refuse_call_sel [simp]:
  "rs_exec (refuse_call journal tc evs st e) = DenyTool journal (tc_ID tc) e"
  "rs_launch (refuse_call journal tc evs st e) = False"
  "as_PermissionState (rs_state (refuse_call journal tc evs st e)) = as_PermissionState st"
  by (simp_all add: refuse_call_def DeniedToolResultContent_def Let_def)

lemma start_call_sel [simp]: "rs_state (start_call_queued reg tc evs st e) = st"
  by (simp add: start_call_queued_def case_prod_beta)

lemma decision_agrees:
  assumes "agrees (fst (RequestDecision ask ev))" "names_call tc ev"
  shows "user_agreed ask tc"
  using assms by (cases ask) (auto simp: RequestDecision_def user_agreed_def agrees_def PermissionDeny_def PermissionOnce_def PermissionAlways_def)

lemma resolve_permission_granted:
  assumes "granted i (rs_exec (resolve_permission env reg ask journal tc tool validated evs st e))" "\<not> granted i e"
  shows "tl_IsReadOnly tool validated \<or> \<not> fst (needs_and_risk env tc tool validated st) \<or> user_agreed ask tc"
proof (rule ccontr)
  assume n: "\<not> ?thesis"
  have "names_call tc (NewStreamEvent ''permission_needed'' (tc_Name tc)
      [(''tool_call'', tool_call_value tc), (''risk'', JStr r), (''dangerous'', d)])" for r d
    by (simp add: names_call_def NewStreamEvent_def mget_def)
  then have "\<not> agrees (fst (RequestDecision ask (NewStreamEvent ''permission_needed'' (tc_Name tc)
      [(''tool_call'', tool_call_value tc), (''risk'', JStr r), (''dangerous'', d)])))" for r d
    using n decision_agrees by blast
  with n assms show False by (simp add: resolve_permission_def case_prod_beta)
qed

text \<open>C38: Resolving a call grants it only for a reason: the call was not aborted, and its tool is unknown, or
  reads only, or the permission chain or the command classifier clears it, or the user agreed to a
  question about this very call.\<close>

theorem call_is_granted_only_with_reason:
  assumes "granted i (rs_exec (resolve_call env reg ask journal aborted tc st e))" "\<not> granted i e"
  shows "\<not> aborted \<and>
    (case GetTool reg (tc_Name tc) of
       None \<Rightarrow> True
     | Some tool \<Rightarrow> tl_IsReadOnly tool (tl_DecodeInput tool (tc_Input tc)) \<or>
         \<not> fst (needs_and_risk env tc tool (tl_DecodeInput tool (tc_Input tc)) st) \<or> user_agreed ask tc)"
proof
  show a: "\<not> aborted" using assms by (auto simp: resolve_call_def Let_def split: if_splits)
  show "case GetTool reg (tc_Name tc) of
       None \<Rightarrow> True
     | Some tool \<Rightarrow> tl_IsReadOnly tool (tl_DecodeInput tool (tc_Input tc)) \<or>
         \<not> fst (needs_and_risk env tc tool (tl_DecodeInput tool (tc_Input tc)) st) \<or> user_agreed ask tc"
  proof (cases "GetTool reg (tc_Name tc)")
    case (Some tool)
    let ?v = "tl_DecodeInput tool (tc_Input tc)"
    have q: "IsQueued (tc_ID tc) e" using assms a by (auto simp: resolve_call_def Let_def split: if_splits)
    show ?thesis
    proof (cases "sandbox_setup ask tc tool ?v")
      case (SetupAllowed d evs)
      with assms a q Some show ?thesis
        by (auto simp: resolve_call_def dest: resolve_permission_granted)
    next
      case (SetupRefused evs)
      with assms a q Some show ?thesis by (simp add: resolve_call_def)
    next
      case SetupSkipped
      show ?thesis
      proof (cases "sandboxUnavailableRequirement tool tc st")
        case None
        with SetupSkipped assms a q Some show ?thesis
          by (auto simp: resolve_call_def dest: resolve_permission_granted)
      next
        case (Some req)
        have "names_call tc (sandbox_event tc req)"
          by (simp add: names_call_def sandbox_event_def NewStreamEvent_def mget_def)
        moreover have "agrees (fst (RequestDecision ask (sandbox_event tc req)))"
          using SetupSkipped assms a q \<open>GetTool reg (tc_Name tc) = Some tool\<close> Some
          by (auto simp: resolve_call_def resolve_unsandboxed_def case_prod_beta split: if_splits)
        ultimately show ?thesis using \<open>GetTool reg (tc_Name tc) = Some tool\<close> decision_agrees by fastforce
      qed
    qed
  qed simp
qed

lemma resolve_call_permission_state:
  assumes "\<And>ev. \<not> agrees (fst (RequestDecision ask ev))"
  shows "as_PermissionState (rs_state (resolve_call env reg ask journal aborted tc st e)) = as_PermissionState st"
proof -
  have "as_PermissionState (rs_state (resolve_permission env reg ask journal tc tool v evs st e)) = as_PermissionState st" for tool v evs e
    by (simp add: resolve_permission_def assms case_prod_beta)
  then show ?thesis
    by (simp add: resolve_call_def Let_def resolve_unsandboxed_def assms case_prod_beta split: option.split setup_outcome.split)
qed

text \<open>Over a whole turn, whatever the executor does meanwhile, a user who never agrees leaves the permission
  state as it was: no confirmation is added and YOLO mode is not switched on.\<close>

theorem no_consent_no_confirmation:
  assumes "\<And>ev. \<not> agrees (fst (RequestDecision ask ev))"
  shows "as_PermissionState (fst (snd (Resolve env reg ask journal isAborted between tcs st e))) = as_PermissionState st"
proof (induction tcs arbitrary: st e)
  case (Cons tc tcs)
  then show ?case
    using resolve_call_permission_state [OF assms] by (simp add: Let_def case_prod_beta)
qed simp

text \<open>A queued call that needs a decision is finished at once when the user does not agree: it is not launched,
  its result is the denial, the denial is counted, and the last event reports it.\<close>

theorem refused_call_is_finished:
  assumes "IsQueued (tc_ID tc) e" "GetTool reg (tc_Name tc) = Some tool"
    "\<not> tl_IsReadOnly tool (tl_DecodeInput tool (tc_Input tc))"
    "fst (needs_and_risk env tc tool (tl_DecodeInput tool (tc_Input tc)) st)"
    "\<And>ev. \<not> agrees (fst (RequestDecision ask ev))"
  shows "let r = resolve_call env reg ask None False tc st e in
    \<not> rs_launch r \<and>
    (\<exists>s. GetSlot (rs_exec r) (tc_ID tc) = Some s \<and> sl_State s = ToolStateCompleted \<and>
       sl_Result s = Some (tool_result_block (tc_ID tc) denied_text)) \<and>
    mget 0 (as_DeniedToolCalls (rs_state r)) (tc_Name tc) = mget 0 (as_DeniedToolCalls st) (tc_Name tc) + 1 \<and>
    se_Metadata (last (rs_events r)) = [(''tool_use_id'', JStr (tc_ID tc)), (''denied'', JBool True)]"
proof -
  have "\<exists>evs e'. IsQueued (tc_ID tc) e' \<and> resolve_call env reg ask None False tc st e = refuse_call None tc evs st e'"
  proof (cases "sandbox_setup ask tc tool (tl_DecodeInput tool (tc_Input tc))")
    case SetupSkipped
    show ?thesis
    proof (cases "sandboxUnavailableRequirement tool tc st")
      case None
      show ?thesis
        by (rule exI, rule exI [of _ e])
          (simp add: resolve_call_def Let_def SetupSkipped None assms resolve_permission_def case_prod_beta, (rule refl)?)
    next
      case (Some req)
      show ?thesis
        by (rule exI, rule exI [of _ e])
          (simp add: resolve_call_def Let_def SetupSkipped Some assms resolve_unsandboxed_def case_prod_beta, (rule refl)?)
    qed
  next
    case (SetupAllowed d evs)
    show ?thesis
      by (rule exI, rule exI [of _ "SetToolDecisionMapValue wslSandboxDecisionMapKey (tc_ID tc) d e"])
        (simp add: resolve_call_def Let_def SetupAllowed assms resolve_permission_def case_prod_beta, (rule refl)?)
  next
    case (SetupRefused evs)
    then show ?thesis using assms(1) by (intro exI [of _ evs] exI [of _ e]) (simp add: resolve_call_def assms(1,2))
  qed
  then show ?thesis
    by (elim exE conjE)
      (simp add: Let_def DenyTool_slot, simp add: refuse_call_def DeniedToolResultContent_def Let_def NewStreamEvent_def)
qed

section \<open>Standing permissions\<close>

text \<open>A grant for always is remembered: the permission chain lets the same call pass from then on. For a shell
  command this needs a rule prefix and an analysis that stays silent, for a file tool a path.\<close>

theorem always_grant_is_remembered:
  assumes "fs_absolute env" "as_PermissionState st \<noteq> None" "tl_DecodeInput tool (tc_Input tc) \<noteq> None"
    "tc_Name tc = ''run_shell'' \<Longrightarrow> GetSimpleCommandPrefix (stringFromAny (fld (tc_Input tc) ''command'')) \<noteq> [] \<and>
       TrimSpace (GetSimpleCommandPrefix (stringFromAny (fld (tc_Input tc) ''command''))) \<noteq> [] \<and>
       \<not> NeedsUserDecision (AnalyzeCommandPermissions (stringFromAny (fld (tc_Input tc) ''command'')))"
    "tc_Name tc \<noteq> ''run_shell'' \<Longrightarrow> tl_ConfirmsFilePaths tool \<Longrightarrow> stringFromAny (fld (tc_Input tc) ''file_path'') \<noteq> []"
  shows "\<not> CheckPermissionChain env tc (Some tool) (persistAlwaysGrant env tc tool st)"
proof -
  obtain p v where p: "as_PermissionState st = Some p" and v: "tl_DecodeInput tool (tc_Input tc) = Some v" using assms(2,3) by blast
  consider (shell) "tc_Name tc = ''run_shell''" | (paths) "tc_Name tc \<noteq> ''run_shell''" "tl_ConfirmsFilePaths tool"
    | (other) "tc_Name tc \<noteq> ''run_shell''" "\<not> tl_ConfirmsFilePaths tool" by blast
  then show ?thesis
  proof cases
    case shell
    show ?thesis
    proof (cases "stringFromAny (fld (tc_Input tc) ''command'') = []")
      case True
      have "GetSimpleCommandPrefix [] = []" by code_simp
      with True assms(4) [OF shell] show ?thesis by simp
    next
      case False
      with shell assms(4) p v show ?thesis
        by (simp add: CheckPermissionChain_def persistAlwaysGrant_def Let_def ConfirmCommandPrefix_def IsCommandPrefixConfirmed_def)
    qed
  next
    case paths
    with assms(5) have fp: "stringFromAny (fld (tc_Input tc) ''file_path'') \<noteq> []" by blast
    have "IsPathConfirmed env (ConfirmPath env p f) f" for f
      using normalizePermissionPath_absolute [OF assms(1), of f] by (auto simp: IsPathConfirmed_alt [OF assms(1)] ConfirmPath_def)
    with paths fp p v show ?thesis
      by (simp add: CheckPermissionChain_def persistAlwaysGrant_def Let_def)
  next
    case other
    with p v show ?thesis
      by (simp add: CheckPermissionChain_def persistAlwaysGrant_def Let_def IsToolConfirmed_def ConfirmTool_def)
  qed
qed

text \<open>When the chain lets a shell command of a tool that asks for permission pass outside YOLO mode and without a grant
  for the tool, then the rule of the command's own prefix was confirmed and every segment of the line is
  free of dangerous patterns, semantically safe and triggers no security check.\<close>

theorem unprompted_shell_command_is_quiet:
  assumes "\<not> CheckPermissionChain env tc (Some tool) st" "tc_Name tc = ''run_shell''" "\<not> YoloEnabled st"
    "\<not> tl_IsReadOnly tool (tl_DecodeInput tool (tc_Input tc))" "\<not> tl_ConfirmsFilePaths tool"
    "tl_NeedsPermission tool (tl_DecodeInput tool (tc_Input tc))" "as_PermissionState st = Some p" "\<not> IsToolConfirmed p ''run_shell''"
  shows "let command = stringFromAny (fld (tc_Input tc) ''command'') in
    IsCommandPrefixConfirmed (Some p) (GetSimpleCommandPrefix command) \<and> length (SplitPipeline command) \<le> 50 \<and>
    (\<forall>seg \<in> set (SplitPipeline command). TrimSpace seg = [] \<or>
       \<not> IsDangerous (TrimSpace seg) \<and> CheckSemantics (TrimSpace seg) = SemSafe \<and> Findings (RunAllSecurityChecks (TrimSpace seg)) = [])"
proof -
  let ?c = "stringFromAny (fld (tc_Input tc) ''command'')"
  have "IsCommandPrefixConfirmed (Some p) (GetSimpleCommandPrefix ?c) \<and> \<not> NeedsUserDecision (AnalyzeCommandPermissions ?c)"
    using assms by (auto simp: CheckPermissionChain_def Let_def split: option.splits if_splits)
  then show ?thesis by (auto simp: Analyze_needs quiet_command_def Let_def not_less)
qed

section \<open>Sample calls\<close>

definition write_call :: ToolCall where
  "write_call = \<lparr>tc_ID = ''w'', tc_Name = ''write_file'', tc_Input = [(''file_path'', JStr ''a.txt'')]\<rparr>"

definition queued_write :: StreamingToolExecutor where
  "queued_write = fst (AddTool sample_registry write_call (NewStreamingToolExecutor []))"

definition write_tool :: Tool where
  "write_tool = sample_tool ''write_file'' [] False"

definition shell_call :: ToolCall where
  "shell_call = \<lparr>tc_ID = ''s'', tc_Name = ''run_shell'', tc_Input = [(''command'', JStr ''go test x'')]\<rparr>"

definition go_test_state :: AgentState where
  "go_test_state = NewAgentState\<lparr>as_PermissionState := Some (ConfirmCommandPrefix DefaultPermissionState ''go test'')\<rparr>"

lemma sample_write:
  "IsQueued (tc_ID write_call) queued_write" "GetTool sample_registry (tc_Name write_call) = Some write_tool"
  "\<not> tl_IsReadOnly write_tool (tl_DecodeInput write_tool (tc_Input write_call))"
  "fst (needs_and_risk sample_env write_call write_tool (tl_DecodeInput write_tool (tc_Input write_call)) NewAgentState)"
proof -
  show "GetTool sample_registry (tc_Name write_call) = Some write_tool"
    by (simp add: write_call_def write_tool_def sample_registry_get)
qed code_simp+

lemma no_prompt_no_consent: "\<not> agrees (fst (RequestDecision None ev))"
  by (simp add: RequestDecision_def agrees_def PermissionDeny_def PermissionOnce_def PermissionAlways_def)

theorem call_is_granted_only_with_reason_witness:
  "granted ''w'' (rs_exec (resolve_call sample_env sample_registry (Some (\<lambda>_. ''once'')) None False write_call NewAgentState queued_write)) \<and>
   user_agreed (Some (\<lambda>_. ''once'')) write_call"
proof -
  let ?r = "resolve_call sample_env sample_registry (Some (\<lambda>_. ''once'')) None False write_call NewAgentState queued_write"
  have g: "granted ''w'' (rs_exec ?r)" "\<not> granted ''w'' queued_write" by code_simp+
  from call_is_granted_only_with_reason [OF g] sample_write g(1) show ?thesis by simp
qed

theorem no_consent_no_confirmation_witness:
  "as_PermissionState (fst (snd (Resolve sample_env sample_registry None (\<lambda>_. None) (\<lambda>_. False) (\<lambda>_ e. e) [write_call] NewAgentState queued_write))) =
   Some DefaultPermissionState"
  unfolding no_consent_no_confirmation [OF no_prompt_no_consent] by (simp add: NewAgentState_def)

theorem refused_call_is_finished_witness:
  "\<not> rs_launch (resolve_call sample_env sample_registry None None False write_call NewAgentState queued_write)"
  using refused_call_is_finished [OF sample_write no_prompt_no_consent] by (simp add: Let_def)

theorem always_grant_is_remembered_witness:
  "CheckPermissionChain sample_env write_call (Some write_tool) NewAgentState \<and>
   \<not> CheckPermissionChain sample_env write_call (Some write_tool) (persistAlwaysGrant sample_env write_call write_tool NewAgentState)"
proof
  show "CheckPermissionChain sample_env write_call (Some write_tool) NewAgentState" by code_simp
  show "\<not> CheckPermissionChain sample_env write_call (Some write_tool) (persistAlwaysGrant sample_env write_call write_tool NewAgentState)"
    by (rule always_grant_is_remembered [OF sample_env_absolute])
      (simp_all add: NewAgentState_def write_tool_def sample_tool_def write_call_def)
qed

theorem unprompted_shell_command_is_quiet_witness:
  "IsCommandPrefixConfirmed (as_PermissionState go_test_state) (GetSimpleCommandPrefix ''go test x'') \<and>
   length (SplitPipeline ''go test x'') \<le> 50"
proof -
  let ?t = "sample_tool ''run_shell'' [] False" and ?p = "ConfirmCommandPrefix DefaultPermissionState ''go test''"
  have "\<not> CheckPermissionChain sample_env shell_call (Some ?t) go_test_state" "tc_Name shell_call = ''run_shell''"
    "\<not> YoloEnabled go_test_state" "\<not> tl_IsReadOnly ?t (tl_DecodeInput ?t (tc_Input shell_call))" "\<not> tl_ConfirmsFilePaths ?t"
    "tl_NeedsPermission ?t (tl_DecodeInput ?t (tc_Input shell_call))" "as_PermissionState go_test_state = Some ?p"
    "\<not> IsToolConfirmed ?p ''run_shell''" by code_simp+
  from unprompted_shell_command_is_quiet [OF this] show ?thesis
    by (simp add: Let_def shell_call_def stringFromAny_def mget_def go_test_state_def)
qed

end
