(* ===== verification/Result_Budget.thy ===== *)
theory Result_Budget
  imports Agent_Messages Go_Path
begin

text \<open>
  \<open>tools/budget.go\<close>: how large tool results are cut. A single result that is too long is written to a
  file and replaced by a preview; a batch of results is cut, largest first, until its total fits. What
  the operating system answers is the parameter \<open>disk\<close>.
\<close>

section \<open>Characters\<close>

fun drop_runes :: "nat \<Rightarrow> string \<Rightarrow> string" where
  "drop_runes n [] = []"
| "drop_runes n (c # cs) =
     (if continuation_byte c then drop_runes n cs
      else case n of 0 \<Rightarrow> c # cs | Suc m \<Rightarrow> drop_runes m cs)"

definition charLen :: "string \<Rightarrow> int" where
  "charLen s = int (rune_count s)"

definition firstChars :: "string \<Rightarrow> int \<Rightarrow> string" where
  "firstChars s n = (if n \<le> 0 then [] else if charLen s \<le> n then s else take_runes (nat n) s)"

definition lastChars :: "string \<Rightarrow> int \<Rightarrow> string" where
  "lastChars s n = (if n \<le> 0 then [] else if charLen s \<le> n then s else drop_runes (nat (charLen s - n)) s)"

definition stringFromMap :: "gomap \<Rightarrow> string \<Rightarrow> string" where
  "stringFromMap m key = stringFromAny (fld m key)"

text \<open>\<open>%.1f\<close> and \<open>%.2f\<close> of a quotient by a power of two, which a float represents exactly: the decimal
  digits are rounded to nearest, ties to even.\<close>

definition round_even :: "int \<Rightarrow> int \<Rightarrow> int" where
  "round_even a b =
     (let q = a div b; r = a mod b
      in if 2 * r < b then q else if b < 2 * r then q + 1 else if even q then q else q + 1)"

definition show_tenths :: "int \<Rightarrow> int \<Rightarrow> string" where
  "show_tenths a b = (let v = round_even (10 * a) b in show_int (v div 10) @ ''.'' @ show_int (v mod 10))"

definition show_hundredths :: "int \<Rightarrow> int \<Rightarrow> string" where
  "show_hundredths a b =
     (let v = round_even (100 * a) b in show_int (v div 100) @ ''.'' @ show_int (v mod 100 div 10) @ show_int (v mod 10))"

definition formatSize :: "int \<Rightarrow> string" where
  "formatSize sizeBytes =
     (if sizeBytes < 1024 then show_int sizeBytes @ '' B''
      else if sizeBytes < 1024 * 1024 then show_tenths sizeBytes 1024 @ '' KB''
      else if sizeBytes < 1024 * 1024 * 1024 then show_tenths sizeBytes (1024 * 1024) @ '' MB''
      else show_hundredths sizeBytes (1024 * 1024 * 1024) @ '' GB'')"

section \<open>One result\<close>

definition AbsoluteToolResultChars :: int where "AbsoluteToolResultChars = 400000"

abbreviation nl :: string where "nl \<equiv> [CHR 0x0A]"

text \<open>A half of a negative limit is not positive either way of rounding, so both ends are empty.\<close>

definition hardTruncate :: "string \<Rightarrow> int \<Rightarrow> string" where
  "hardTruncate content maxChars =
     (if charLen content \<le> maxChars then content
      else let half = maxChars div 2; head = firstChars content half;
               tail = (if maxChars = 0 then content else lastChars content half)
           in head @ nl @ nl @ ''... ['' @ show_int (charLen content - maxChars) @ '' characters truncated] ...'' @ nl @ nl @ tail)"

definition ClampToAbsoluteMax :: "string \<Rightarrow> int \<Rightarrow> string" where
  "ClampToAbsoluteMax content absoluteMax =
     (if charLen content \<le> absoluteMax then content
      else let half = absoluteMax div 2; head = firstChars content half;
               tail = (if absoluteMax = 0 then content else lastChars content half)
           in head @ nl @ nl @ ''[OUTPUT TRUNCATED: '' @ formatSize (int (length content)) @ '', '' @
              show_int (charLen content - absoluteMax) @ '' characters removed '' @ [CHR 0xE2, CHR 0x80, CHR 0x94] @
              '' exceeds absolute limit of '' @ formatSize absoluteMax @ '']'' @ nl @ nl @ tail)"

text \<open>What \<open>os.MkdirAll\<close> and \<open>os.WriteFile\<close> answer: \<open>None\<close> is success.\<close>

record disk =
  dk_MkdirAll :: "string \<Rightarrow> string option"
  dk_WriteFile :: "string \<Rightarrow> string \<Rightarrow> string option"

definition not_persisted :: "string \<Rightarrow> int \<Rightarrow> string \<Rightarrow> string" where
  "not_persisted rawOutput maxChars err =
     hardTruncate rawOutput maxChars @ nl @ nl @ ''... [Warning: Failed to persist full output to disk due to error: '' @ err @ '']''"

text \<open>The result, and the file that was written.\<close>

definition applyToolResultBudgetInDir :: "disk \<Rightarrow> string \<Rightarrow> string \<Rightarrow> string \<Rightarrow> int \<Rightarrow> int \<Rightarrow> string \<times> (string \<times> string) option" where
  "applyToolResultBudgetInDir dk rawOutput toolUseID resultsDir maxChars previewChars =
     (if charLen rawOutput \<le> maxChars then (rawOutput, None)
      else let filePath = Join [resultsDir, toolUseID @ ''.txt''];
               preview = firstChars rawOutput previewChars @ (if charLen rawOutput > previewChars then nl @ ''...'' else [])
           in case dk_MkdirAll dk resultsDir of
                Some err \<Rightarrow> (not_persisted rawOutput maxChars err, None)
              | None \<Rightarrow>
                  (case dk_WriteFile dk filePath rawOutput of
                     Some err \<Rightarrow> (not_persisted rawOutput maxChars err, None)
                   | None \<Rightarrow>
                       (''<persisted-output>'' @ nl @ ''Output too large ('' @ formatSize (int (length rawOutput)) @
                        ''). Full output saved to: '' @ filePath @ nl @ nl @ ''Preview (first '' @
                        show_int (min previewChars (charLen rawOutput)) @ '' characters):'' @ nl @ preview @ nl @ ''</persisted-output>'',
                        Some (filePath, rawOutput))))"

definition ApplyToolResultBudgetInDir :: "disk \<Rightarrow> string \<Rightarrow> string \<Rightarrow> string \<Rightarrow> int \<Rightarrow> string \<times> (string \<times> string) option" where
  "ApplyToolResultBudgetInDir dk rawOutput toolUseID resultsDir maxChars =
     applyToolResultBudgetInDir dk rawOutput toolUseID resultsDir maxChars 2000"

definition ApplyToolResultBudgetWithPreview :: "disk \<Rightarrow> string \<Rightarrow> string \<Rightarrow> string \<Rightarrow> int \<Rightarrow> int \<Rightarrow> string \<times> (string \<times> string) option" where
  "ApplyToolResultBudgetWithPreview dk rawOutput toolUseID sessionDir maxChars previewChars =
     applyToolResultBudgetInDir dk rawOutput toolUseID (Join [sessionDir, ''tool-results'']) maxChars previewChars"

definition ApplyToolResultBudget :: "disk \<Rightarrow> string \<Rightarrow> string \<Rightarrow> string \<Rightarrow> int \<Rightarrow> string \<times> (string \<times> string) option" where
  "ApplyToolResultBudget dk rawOutput toolUseID sessionDir maxChars =
     ApplyToolResultBudgetWithPreview dk rawOutput toolUseID sessionDir maxChars 2000"

section \<open>A batch of results\<close>

definition totalResultContentChars :: "gomap list \<Rightarrow> int" where
  "totalResultContentChars results = sum_list (map (\<lambda>r. charLen (stringFromMap r ''content'')) results)"

definition aggregate_notice :: "int \<Rightarrow> int \<Rightarrow> string" where
  "aggregate_notice removed resultCount =
     nl @ nl @ ''... [Aggregate budget: '' @ show_int removed @ '' characters truncated across '' @ show_int resultCount @
     '' concurrent results. If a <persisted-output> path appears above, use read_file to retrieve the full content.]''"

definition truncateAggregateContent :: "string \<Rightarrow> int \<Rightarrow> int \<Rightarrow> string" where
  "truncateAggregateContent content budget resultCount =
     (if budget \<le> 0 then []
      else if charLen content \<le> budget then content
      else let notice = aggregate_notice (charLen content - budget) resultCount
           in if charLen notice \<ge> budget then firstChars content budget
              else firstChars content (budget - charLen notice) @ notice)"

definition cut_result :: "int \<Rightarrow> int \<Rightarrow> nat \<Rightarrow> gomap list \<Rightarrow> gomap list" where
  "cut_result maxChars n i output =
     (let content = stringFromMap (output ! i) ''content'';
          budgetForThis = max 0 (maxChars - (totalResultContentChars output - charLen content))
      in if content = [] then output
         else output[i := mput ''content'' (JStr (truncateAggregateContent content budgetForThis n)) (output ! i)])"

fun cut_largest :: "int \<Rightarrow> int \<Rightarrow> nat list \<Rightarrow> gomap list \<Rightarrow> gomap list" where
  "cut_largest maxChars n [] output = output"
| "cut_largest maxChars n (i # is) output =
     (if totalResultContentChars output \<le> maxChars then output
      else cut_largest maxChars n is (cut_result maxChars n i output))"

definition ApplyAggregateResultBudget :: "gomap list \<Rightarrow> int \<Rightarrow> gomap list" where
  "ApplyAggregateResultBudget results maxChars =
     (if maxChars \<le> 0 \<or> results = [] \<or> totalResultContentChars results \<le> maxChars then results
      else cut_largest maxChars (int (length results))
             (sort_key (\<lambda>i. - charLen (stringFromMap (results ! i) ''content'')) [0..<length results]) results)"

section \<open>Lengths\<close>

lemma rune_count_append [simp]: "rune_count (s @ t) = rune_count s + rune_count t"
  by (simp add: rune_count_def)

lemma charLen_simps [simp]: "charLen [] = 0" "charLen (s @ t) = charLen s + charLen t" "0 \<le> charLen s"
  by (simp_all add: charLen_def) (simp_all add: rune_count_def)

lemma take_drop_runes: "take_runes n s @ drop_runes n s = s"
  by (induction n s rule: take_runes.induct) (auto split: nat.splits)

lemma charLen_firstChars: "charLen (firstChars s n) \<le> max 0 n"
  using charLen_simps(1) by (auto simp: firstChars_def charLen_def rune_count_take_runes)

lemma charLen_truncate: "charLen (truncateAggregateContent content budget n) \<le> max 0 budget"
  using charLen_firstChars [of content budget] charLen_firstChars [of content "budget - charLen (aggregate_notice (charLen content - budget) n)"]
  by (auto simp: truncateAggregateContent_def Let_def)

lemma content_mput [simp]: "stringFromMap (mput ''content'' (JStr c) r) ''content'' = c"
  by (simp add: stringFromMap_def stringFromAny_def)

lemma total_update:
  assumes "i < length out"
  shows "totalResultContentChars (out[i := r]) =
    totalResultContentChars out - charLen (stringFromMap (out ! i) ''content'') + charLen (stringFromMap r ''content'')"
proof -
  have "out = take i out @ out ! i # drop (Suc i) out" using assms by (simp add: id_take_nth_drop)
  then have "totalResultContentChars out = totalResultContentChars (take i out) + charLen (stringFromMap (out ! i) ''content'') +
      totalResultContentChars (drop (Suc i) out)"
    by (metis (no_types, lifting) add.assoc list.map(2) map_append sum_list.Cons sum_list_append totalResultContentChars_def)
  moreover have "totalResultContentChars (out[i := r]) = totalResultContentChars (take i out) + charLen (stringFromMap r ''content'') +
      totalResultContentChars (drop (Suc i) out)"
    using assms by (simp add: upd_conv_take_nth_drop totalResultContentChars_def)
  ultimately show ?thesis by simp
qed

lemma cut_result_length [simp]: "length (cut_result maxChars n i out) = length out"
  by (simp add: cut_result_def Let_def)

lemma cut_result_other: "j \<noteq> i \<Longrightarrow> cut_result maxChars n i out ! j = out ! j"
  by (simp add: cut_result_def Let_def)

lemma cut_result_total:
  assumes "i < length out"
  shows "totalResultContentChars (cut_result maxChars n i out) \<le> maxChars \<or> stringFromMap (cut_result maxChars n i out ! i) ''content'' = []"
proof (cases "stringFromMap (out ! i) ''content'' = []")
  case False
  let ?c = "stringFromMap (out ! i) ''content''"
  let ?b = "max 0 (maxChars - (totalResultContentChars out - charLen ?c))"
  have cut: "cut_result maxChars n i out = out[i := mput ''content'' (JStr (truncateAggregateContent ?c ?b n)) (out ! i)]"
    using False by (simp add: cut_result_def Let_def)
  show ?thesis
  proof (cases "?b = 0")
    case True
    then have "truncateAggregateContent ?c ?b n = []" by (simp add: truncateAggregateContent_def)
    then show ?thesis using assms by (simp add: cut)
  next
    case False
    have "charLen (truncateAggregateContent ?c ?b n) \<le> ?b" using charLen_truncate [of ?c ?b n] by simp
    with False show ?thesis unfolding cut using assms by (simp add: total_update)
  qed
qed (simp add: cut_result_def Let_def)

lemma cut_largest_total:
  assumes "\<And>i. i \<in> set is \<Longrightarrow> i < length out" "\<And>j. j < length out \<Longrightarrow> j \<notin> set is \<Longrightarrow> stringFromMap (out ! j) ''content'' = []"
    "0 \<le> maxChars"
  shows "totalResultContentChars (cut_largest maxChars n is out) \<le> maxChars"
  using assms
proof (induction "is" arbitrary: out)
  case Nil
  then have "charLen (stringFromMap r ''content'') = 0" if "r \<in> set out" for r using that by (auto simp: in_set_conv_nth)
  then have "totalResultContentChars out = 0"
    unfolding totalResultContentChars_def by (simp add: sum_list_0 cong: map_cong)
  with Nil show ?case by simp
next
  case (Cons i "is")
  show ?case
  proof (cases "totalResultContentChars out \<le> maxChars")
    case False
    let ?o = "cut_result maxChars n i out"
    show ?thesis
    proof (cases "totalResultContentChars ?o \<le> maxChars")
      case True
      with False show ?thesis by (cases "is") auto
    next
      case c: False
      then have i: "stringFromMap (?o ! i) ''content'' = []" using cut_result_total [of i out maxChars n] Cons.prems(1) by simp
      have "stringFromMap (?o ! j) ''content'' = []" if "j < length out" "j \<notin> set is" for j
        using i Cons.prems(2) [of j] that by (cases "j = i") (simp_all add: cut_result_other)
      then have "totalResultContentChars (cut_largest maxChars n is ?o) \<le> maxChars"
        using Cons.prems by (intro Cons.IH) auto
      with False show ?thesis by simp
    qed
  qed simp
qed

section \<open>Properties\<close>

text \<open>A batch of tool results always fits its budget: the total length of what is handed to the model is at most
  the limit, whatever the results and however many of them are empty.\<close>

theorem aggregate_budget_is_met:
  assumes "0 < maxChars"
  shows "totalResultContentChars (ApplyAggregateResultBudget results maxChars) \<le> maxChars"
  using assms by (auto simp: ApplyAggregateResultBudget_def totalResultContentChars_def [of "[]"] intro!: cut_largest_total)

lemma cut_largest_fields:
  assumes "\<And>i. i \<in> set is \<Longrightarrow> i < length out"
  shows "list_all2 (\<lambda>r r'. \<forall>key. key \<noteq> ''content'' \<longrightarrow> fld r' key = fld r key) out (cut_largest maxChars n is out)"
  using assms
proof (induction "is" arbitrary: out)
  case Nil
  then show ?case by (simp add: list_all2_same)
next
  case (Cons i "is")
  let ?o = "cut_result maxChars n i out"
  have 1: "list_all2 (\<lambda>r r'. \<forall>key. key \<noteq> ''content'' \<longrightarrow> fld r' key = fld r key) out ?o"
    using Cons.prems by (auto simp: cut_result_def Let_def list_all2_conv_all_nth nth_list_update)
  have "list_all2 (\<lambda>r r'. \<forall>key. key \<noteq> ''content'' \<longrightarrow> fld r' key = fld r key) ?o (cut_largest maxChars n is ?o)"
    using Cons.prems by (intro Cons.IH) auto
  with 1 have "list_all2 (\<lambda>r r'. \<forall>key. key \<noteq> ''content'' \<longrightarrow> fld r' key = fld r key) out (cut_largest maxChars n is ?o)"
    by (auto simp: list_all2_conv_all_nth)
  then show ?case by (simp add: list_all2_same)
qed

text \<open>Cutting a batch keeps the results in place: as many results in the same order, each with its own call
  identifier and every other field; a batch that fits already is not touched.\<close>

theorem aggregate_budget_keeps_results:
  "list_all2 (\<lambda>r r'. \<forall>key. key \<noteq> ''content'' \<longrightarrow> fld r' key = fld r key) results (ApplyAggregateResultBudget results maxChars) \<and>
   (totalResultContentChars results \<le> maxChars \<longrightarrow> ApplyAggregateResultBudget results maxChars = results)"
proof
  show "list_all2 (\<lambda>r r'. \<forall>key. key \<noteq> ''content'' \<longrightarrow> fld r' key = fld r key) results (ApplyAggregateResultBudget results maxChars)"
    by (auto simp: ApplyAggregateResultBudget_def list_all2_same intro!: cut_largest_fields)
qed (simp add: ApplyAggregateResultBudget_def)

definition sample_results :: "gomap list" where
  "sample_results = [tool_result_block ''a'' ''0123456789'', tool_result_block ''b'' ''0123456789abcdef'']"

theorem aggregate_budget_is_met_witness:
  "20 < totalResultContentChars sample_results \<and> totalResultContentChars (ApplyAggregateResultBudget sample_results 20) \<le> 20"
proof
  show "20 < totalResultContentChars sample_results" by code_simp
qed (rule aggregate_budget_is_met; simp)

theorem aggregate_budget_keeps_results_witness:
  "length (ApplyAggregateResultBudget sample_results 20) = 2 \<and> ApplyAggregateResultBudget sample_results 40 = sample_results"
proof
  show "length (ApplyAggregateResultBudget sample_results 20) = 2"
    using list_all2_lengthD [OF aggregate_budget_keeps_results [of sample_results 20, THEN conjunct1]] by (simp add: sample_results_def)
  have "totalResultContentChars sample_results \<le> 40" by code_simp
  then show "ApplyAggregateResultBudget sample_results 40 = sample_results"
    using aggregate_budget_keeps_results by blast
qed

end
