(* ===== verification/Context_Window.thy ===== *)
theory Context_Window
  imports Result_Budget "HOL-Library.Signed_Division"
begin

text \<open>
  \<open>agentContext/message.go\<close> (\<open>SafeTailStart\<close>), \<open>agentContext/micro.go\<close> and \<open>SnipCompactIfNeeded\<close> of
  \<open>agentContext/snip.go\<close>: the first stages of context compression. They cut a conversation without
  separating tool results from their calls, and clear old tool results in place. Blocks are Go maps shared
  between the message and the slice that \<open>contentBlocks\<close> returns, so an assignment to a block changes the
  message; here the update is written on the content itself.
\<close>

section \<open>Contents\<close>

definition map_objects :: "(gomap \<Rightarrow> gomap) \<Rightarrow> json list \<Rightarrow> json list" where
  "map_objects f xs = map (\<lambda>x. case x of JObj b \<Rightarrow> JObj (f b) | _ \<Rightarrow> x) xs"

fun update_object :: "nat \<Rightarrow> (gomap \<Rightarrow> gomap) \<Rightarrow> json list \<Rightarrow> json list" where
  "update_object j f [] = []"
| "update_object j f (JObj b # xs) = (case j of 0 \<Rightarrow> JObj (f b) # xs | Suc k \<Rightarrow> JObj b # update_object k f xs)"
| "update_object j f (x # xs) = x # update_object j f xs"

definition on_content :: "(json list \<Rightarrow> json list) \<Rightarrow> gomap \<Rightarrow> gomap" where
  "on_content g msg = (case fld msg ''content'' of JArr xs \<Rightarrow> mput ''content'' (JArr (g xs)) msg | _ \<Rightarrow> msg)"

definition getValueFrom :: "gomap \<Rightarrow> string \<Rightarrow> string" where
  "getValueFrom item k = stringFromAny (fld item k)"

definition MaxInt :: "int \<Rightarrow> int \<Rightarrow> int" where
  "MaxInt a b = (if a > b then a else b)"

section \<open>Where the retained tail starts\<close>

definition text_field :: "string \<Rightarrow> string \<Rightarrow> gomap \<Rightarrow> string option" where
  "text_field t key b = (if is_block t b then (case fld b key of JStr i \<Rightarrow> Some i | _ \<Rightarrow> None) else None)"

definition needed_calls :: "gomap list \<Rightarrow> string list" where
  "needed_calls msgs = List.map_filter (text_field ''tool_result'' ''tool_use_id'') (concat (map blocks_of msgs))"

definition makes_call :: "string list \<Rightarrow> gomap \<Rightarrow> bool" where
  "makes_call ids msg \<longleftrightarrow> list_ex (\<lambda>i. List.member ids i) (List.map_filter (text_field ''tool_use'' ''id'') (blocks_of msg))"

definition first_needed :: "gomap list \<Rightarrow> nat \<Rightarrow> nat" where
  "first_needed msgs start =
     (case find (\<lambda>i. makes_call (needed_calls (drop start msgs)) (msgs ! i)) [0..<start] of None \<Rightarrow> start | Some i \<Rightarrow> i)"

lemma first_needed_le: "first_needed msgs start \<le> start"
  by (auto simp: first_needed_def find_Some_iff split: option.split)

function safe_start :: "gomap list \<Rightarrow> nat \<Rightarrow> nat" where
  "safe_start msgs start = (let n = first_needed msgs start in if n = start then start else safe_start msgs n)"
  by pat_completeness auto
termination
  by (relation "measure snd") (auto simp: order_less_le first_needed_le)

declare safe_start.simps [simp del]

definition SafeTailStart :: "gomap list \<Rightarrow> nat \<Rightarrow> nat" where
  "SafeTailStart msgs keep = safe_start msgs (length msgs - keep)"

section \<open>Clearing old tool results\<close>

definition compressibleTools :: "string list" where
  "compressibleTools = [''read_file'', ''run_shell'', ''grep_search'', ''glob_match'', ''edit_file'', ''write_file'']"

definition defaultMaxResultChars :: int where "defaultMaxResultChars = 20000"

definition cleanPlaceHolder :: string where "cleanPlaceHolder = ''[Old tool result content cleared]''"

record CacheEdit =
  ce_ToolUseID :: string
  ce_Action :: string

definition NewCacheEdit :: "string \<Rightarrow> string option \<Rightarrow> CacheEdit" where
  "NewCacheEdit toolUseID action =
     \<lparr>ce_ToolUseID = toolUseID, ce_Action = (case action of None \<Rightarrow> ''delete'' | Some a \<Rightarrow> a)\<rparr>"

definition BuildToolNameMap :: "gomap list \<Rightarrow> (string \<times> string) list" where
  "BuildToolNameMap msgs =
     foldl (\<lambda>m b. if getValueFrom b ''type'' = ''tool_use'' \<and> getValueFrom b ''id'' \<noteq> []
                  then mput (getValueFrom b ''id'') (getValueFrom b ''name'') m else m) []
       (concat (map blocks_of (filter (\<lambda>msg. fld msg ''role'' = JStr ''assistant'') msgs)))"

record ToolUseResultBlock =
  rb_MessageIndex :: nat
  rb_BlockIndex :: nat
  rb_Block :: gomap

fun scan_blocks :: "nat \<Rightarrow> nat \<Rightarrow> gomap list \<Rightarrow> ToolUseResultBlock list" where
  "scan_blocks i j [] = []"
| "scan_blocks i j (b # bs) =
     (if getValueFrom b ''type'' = ''tool_result''
      then \<lparr>rb_MessageIndex = i, rb_BlockIndex = j, rb_Block = b\<rparr> # scan_blocks i (Suc j) bs else scan_blocks i (Suc j) bs)"

fun scan_messages :: "nat \<Rightarrow> gomap list \<Rightarrow> ToolUseResultBlock list" where
  "scan_messages i [] = []"
| "scan_messages i (msg # msgs) = scan_blocks i 0 (blocks_of msg) @ scan_messages (Suc i) msgs"

definition iterToolResultBlock :: "gomap list \<Rightarrow> ToolUseResultBlock list" where
  "iterToolResultBlock msgs = scan_messages 0 msgs"

definition is_compressible :: "(string \<times> string) list \<Rightarrow> gomap \<Rightarrow> bool" where
  "is_compressible names b =
     (case fld b ''tool_use_id'' of
        JStr i \<Rightarrow> (case map_of names i of None \<Rightarrow> False | Some name \<Rightarrow> name \<in> set compressibleTools)
      | _ \<Rightarrow> False)"

definition compressible :: "gomap list \<Rightarrow> ToolUseResultBlock list" where
  "compressible msgs = filter (\<lambda>r. is_compressible (BuildToolNameMap msgs) (rb_Block r)) (iterToolResultBlock msgs)"

definition stable_blocks :: "gomap list \<Rightarrow> int \<Rightarrow> ToolUseResultBlock list" where
  "stable_blocks msgs keepRecent =
     take (nat (MaxInt 0 (int (length (compressible msgs)) - MaxInt keepRecent 1))) (compressible msgs)"

definition clear_block :: "ToolUseResultBlock \<Rightarrow> gomap list \<Rightarrow> gomap list" where
  "clear_block r msgs =
     msgs[rb_MessageIndex r := on_content (update_object (rb_BlockIndex r) (mput ''content'' (JStr cleanPlaceHolder)))
       (msgs ! rb_MessageIndex r)]"

definition MicroCompactMessages :: "gomap list \<Rightarrow> bool \<Rightarrow> int \<Rightarrow> gomap list \<times> CacheEdit list" where
  "MicroCompactMessages msgs isCacheHold keepRecent =
     (if isCacheHold then (fold clear_block (stable_blocks msgs keepRecent) msgs, [])
      else (msgs, map (\<lambda>r. NewCacheEdit (getValueFrom (rb_Block r) ''tool_use_id'') None) (stable_blocks msgs keepRecent)))"

definition CountClearedToolResult :: "gomap list \<Rightarrow> nat" where
  "CountClearedToolResult msgs =
     length (filter (\<lambda>b. fld b ''content'' = JStr cleanPlaceHolder \<and> getValueFrom b ''type'' = ''tool_result'')
       (concat (map blocks_of msgs)))"

text \<open>The slices of a Python program: Go divides towards zero and has no negative indices.\<close>

definition pythonFloorDiv :: "int \<Rightarrow> int \<Rightarrow> int" where
  "pythonFloorDiv value divisor =
     (let result = value sdiv divisor
      in if value smod divisor \<noteq> 0 \<and> ((value < 0) \<noteq> (divisor < 0)) then result - 1 else result)"

definition pythonSliceEnd :: "int \<Rightarrow> int \<Rightarrow> int" where
  "pythonSliceEnd len end' =
     (let e = (if end' < 0 then len + end' else end') in if e < 0 then 0 else if e > len then len else e)"

definition pythonSliceStart :: "int \<Rightarrow> int \<Rightarrow> int" where
  "pythonSliceStart len start =
     (let s = (if start < 0 then len + start else start) in if s < 0 then 0 else if s > len then len else s)"

definition MicroCompactResult :: "string \<Rightarrow> int list \<Rightarrow> string" where
  "MicroCompactResult content maxCharsOpt =
     (let maxChars = (case maxCharsOpt of [] \<Rightarrow> defaultMaxResultChars | n # _ \<Rightarrow> n); n = charLen content
      in if n \<le> maxChars then content
         else let half = pythonFloorDiv maxChars 2
              in take_runes (nat (pythonSliceEnd n half)) content @ nl @ nl @ ''... ['' @ show_int (n - maxChars) @
                 '' characters truncated] ...'' @ nl @ nl @ drop_runes (nat (pythonSliceStart n (- half))) content)"

section \<open>Snipping stale turns\<close>

definition snipTag :: string where "snipTag = ''<snip>Content snipped to save context space</snip>''"

definition isToolResultMessage :: "gomap \<Rightarrow> bool" where
  "isToolResultMessage msg \<longleftrightarrow> role_of msg = ''user'' \<and> list_ex (is_block ''tool_result'') (blocks_of msg)"

definition too_long_for :: "int \<Rightarrow> gomap \<Rightarrow> bool" where
  "too_long_for threshold b \<longleftrightarrow> getValueFrom b ''type'' = ''tool_result'' \<and>
     (case fld b ''content'' of JStr c \<Rightarrow> charLen c > threshold | _ \<Rightarrow> False)"

text \<open>\<open>RoughEstimate\<close> of a string is a quarter of its length.\<close>

definition rough_text :: "string \<Rightarrow> int" where
  "rough_text s = charLen s div 4"

definition snip_message :: "int \<Rightarrow> gomap \<Rightarrow> gomap" where
  "snip_message threshold msg =
     on_content (map_objects (\<lambda>b. if too_long_for threshold b then mput ''content'' (JStr snipTag) b else b)) msg"

definition snip_freed :: "int \<Rightarrow> gomap \<Rightarrow> int" where
  "snip_freed threshold msg =
     sum_list (map (\<lambda>b. rough_text (stringFromAny (fld b ''content'')) - rough_text snipTag) (filter (too_long_for threshold) (blocks_of msg)))"

definition stale_turns :: "gomap list \<Rightarrow> nat \<Rightarrow> nat list" where
  "stale_turns msgs preserve =
     (let indices = filter (\<lambda>i. isToolResultMessage (msgs ! i)) [0..<length msgs] in take (length indices - preserve) indices)"

definition SnipCompactIfNeeded :: "gomap list \<Rightarrow> nat \<Rightarrow> int \<Rightarrow> gomap list \<times> int" where
  "SnipCompactIfNeeded msgs preserveLastNTurns snipCharThreshold =
     (let stale = stale_turns msgs preserveLastNTurns
      in (map (\<lambda>(i, msg). if i \<in> set stale then snip_message snipCharThreshold msg else msg) (enumerate 0 msgs),
          sum_list (map (\<lambda>i. snip_freed snipCharThreshold (msgs ! i)) stale)))"

definition SnipCompactIfNeededDefault :: "gomap list \<Rightarrow> gomap list \<times> int" where
  "SnipCompactIfNeededDefault msgs = SnipCompactIfNeeded msgs 2 2000"

section \<open>A safe cut\<close>

text \<open>A cut is safe when every call whose result is kept is kept too.\<close>

definition safe_cut :: "gomap list \<Rightarrow> nat \<Rightarrow> bool" where
  "safe_cut msgs start \<longleftrightarrow> (\<forall>i < start. \<not> makes_call (needed_calls (drop start msgs)) (msgs ! i))"

lemma first_needed_safe: "first_needed msgs start = start \<longleftrightarrow> safe_cut msgs start"
proof (cases "find (\<lambda>i. makes_call (needed_calls (drop start msgs)) (msgs ! i)) [0..<start]")
  case None
  then have "safe_cut msgs start" by (auto simp: find_None_iff safe_cut_def)
  with None show ?thesis by (simp add: first_needed_def)
next
  case (Some i)
  then have "i < start" "makes_call (needed_calls (drop start msgs)) (msgs ! i)" by (auto simp: find_Some_iff)
  with Some show ?thesis by (auto simp: first_needed_def safe_cut_def)
qed

lemma makes_call_mono: "set ids \<subseteq> set ids' \<Longrightarrow> makes_call ids msg \<Longrightarrow> makes_call ids' msg"
  by (auto simp: makes_call_def list_ex_iff)

lemma needed_calls_drop: "m \<le> n \<Longrightarrow> set (needed_calls (drop n msgs)) \<subseteq> set (needed_calls (drop m msgs))"
proof -
  assume "m \<le> n"
  then have "set (drop n msgs) \<subseteq> set (drop m msgs)" by (rule set_drop_subset_set_drop)
  then have "set (concat (map blocks_of (drop n msgs))) \<subseteq> set (concat (map blocks_of (drop m msgs)))" by auto
  moreover have "set (List.map_filter f xs) \<subseteq> set (List.map_filter f ys)" if "set xs \<subseteq> set ys" for f :: "gomap \<Rightarrow> string option" and xs ys
    using that unfolding List.map_filter_def by auto
  ultimately show ?thesis unfolding needed_calls_def by blast
qed

lemma safe_start_safe: "safe_cut msgs (safe_start msgs start)"
proof (induction msgs start rule: safe_start.induct)
  case (1 msgs start)
  then show ?case by (cases "first_needed msgs start = start") (simp_all add: safe_start.simps [of msgs start] first_needed_safe Let_def)
qed

lemma safe_start_le: "safe_start msgs start \<le> start"
proof (induction msgs start rule: safe_start.induct)
  case (1 msgs start)
  then show ?case using first_needed_le [of msgs start]
    by (cases "first_needed msgs start = start") (simp_all add: safe_start.simps [of msgs start] Let_def)
qed

lemma safe_start_greatest: "safe_cut msgs k \<Longrightarrow> k \<le> start \<Longrightarrow> k \<le> safe_start msgs start"
proof (induction msgs start rule: safe_start.induct)
  case (1 msgs start)
  show ?case
  proof (cases "first_needed msgs start = start")
    case False
    then obtain i where i: "first_needed msgs start = i" "makes_call (needed_calls (drop start msgs)) (msgs ! i)"
      by (auto simp: first_needed_def find_Some_iff split: option.splits)
    have "k \<le> i"
    proof (rule ccontr)
      assume "\<not> k \<le> i"
      with "1.prems" i(2) show False
        using makes_call_mono [OF needed_calls_drop [OF "1.prems"(2)]] by (fastforce simp: safe_cut_def)
    qed
    with 1 False i(1) show ?thesis by (simp add: safe_start.simps [of msgs start] Let_def)
  qed (use 1 in \<open>simp add: safe_start.simps [of msgs start]\<close>)
qed

text \<open>The tail that compression retains never keeps a tool result without its call: no message before the start
  makes a call that a kept result answers. It keeps at least the requested messages, and it is the
  shortest such tail.\<close>

theorem safe_tail_is_the_shortest:
  "let start = SafeTailStart msgs keep in
     start \<le> length msgs - keep \<and> safe_cut msgs start \<and>
     (\<forall>k. k \<le> length msgs - keep \<longrightarrow> safe_cut msgs k \<longrightarrow> k \<le> start)"
  by (simp add: SafeTailStart_def Let_def safe_start_le safe_start_safe safe_start_greatest)

text \<open>The division that imitates Python on Go's truncating operators is division rounded down, for every
  divisor but zero.\<close>

theorem pythonFloorDiv_is_floor:
  assumes "divisor \<noteq> 0"
  shows "pythonFloorDiv value divisor = value div divisor"
proof -
  have "value mod divisor \<noteq> divisor" using assms by (metis mod_mod_trivial mod_self)
  with assms show ?thesis
    by (auto simp: pythonFloorDiv_def Let_def signed_divide_int_def signed_modulo_int_def sgn_if zdiv_zminus1_eq_if zdiv_zminus2_eq_if
        zmod_zminus1_eq_if zmod_zminus2_eq_if)
qed

section \<open>Clearing in place\<close>

lemma map_filter_update_object:
  "List.map_filter object_of (update_object j f xs) =
   (let bs = List.map_filter object_of xs in if j < length bs then bs[j := f (bs ! j)] else bs)"
proof (induction j f xs rule: update_object.induct)
  case (2 j f b xs)
  then show ?case by (cases j) (auto simp: object_of_def Let_def)
qed (auto simp: object_of_def Let_def)

lemma blocks_on_content:
  "blocks_of (on_content g msg) = (case fld msg ''content'' of JArr xs \<Rightarrow> List.map_filter object_of (g xs) | _ \<Rightarrow> [])"
  by (auto simp: blocks_of_def on_content_def contentBlocks_def split: json.splits)

lemma blocks_of_content: "blocks_of msg = (case fld msg ''content'' of JArr xs \<Rightarrow> List.map_filter object_of xs | _ \<Rightarrow> [])"
  by (auto simp: blocks_of_def contentBlocks_def split: json.splits)

lemma blocks_update:
  "blocks_of (on_content (update_object j f) msg) =
   (if j < length (blocks_of msg) then (blocks_of msg)[j := f (blocks_of msg ! j)] else blocks_of msg)"
  unfolding blocks_on_content unfolding blocks_of_content
  by (simp add: map_filter_update_object Let_def split: json.split)

lemma map_filter_map_objects: "List.map_filter object_of (map_objects f xs) = map f (List.map_filter object_of xs)"
  by (induction xs) (auto simp: map_objects_def object_of_def split: json.split)

lemma blocks_map: "blocks_of (on_content (map_objects f) msg) = map f (blocks_of msg)"
  unfolding blocks_on_content unfolding blocks_of_content by (simp add: map_filter_map_objects split: json.split)

lemma fld_on_content: "key \<noteq> ''content'' \<Longrightarrow> fld (on_content g msg) key = fld msg key"
  by (auto simp: on_content_def split: json.splits)

lemma clear_keeps_ids [simp]:
  "use_id (mput ''content'' v b) = use_id b" "result_id (mput ''content'' v b) = result_id b"
  by (simp_all add: use_id_def result_id_def is_block_def)

lemma concat_ids_update:
  assumes "g m' = g (msgs ! i)"
  shows "concat (map g (msgs[i := m'])) = concat (map g msgs)"
proof (cases "i < length msgs")
  case True
  then have "map g (msgs[i := m']) = (map g msgs)[i := map g msgs ! i]" by (simp add: map_update assms)
  then show ?thesis by simp
qed (simp add: list_update_beyond)

lemma ids_update:
  assumes "\<And>b. use_id (f b) = use_id b" "\<And>b. result_id (f b) = result_id b"
  shows "concat (map use_id (blocks_of (on_content (update_object j f) msg))) = concat (map use_id (blocks_of msg))"
    "concat (map result_id (blocks_of (on_content (update_object j f) msg))) = concat (map result_id (blocks_of msg))"
  by (simp_all add: blocks_update concat_ids_update assms)

lemma clear_block_ids:
  "use_ids (clear_block r msgs) = use_ids msgs" "result_ids (clear_block r msgs) = result_ids msgs"
proof -
  have "concat (map (\<lambda>m. concat (map h (blocks_of m))) (clear_block r msgs)) = concat (map (\<lambda>m. concat (map h (blocks_of m))) msgs)"
    if "\<And>m. concat (map h (blocks_of (on_content (update_object (rb_BlockIndex r) (mput ''content'' (JStr cleanPlaceHolder))) m))) =
        concat (map h (blocks_of m))" for h :: "gomap \<Rightarrow> string list"
    unfolding clear_block_def by (rule concat_ids_update) (rule that)
  from this [of use_id] this [of result_id]
  show "use_ids (clear_block r msgs) = use_ids msgs" "result_ids (clear_block r msgs) = result_ids msgs"
    by (simp_all add: ids_update use_ids_def result_ids_def)
qed

definition position :: "ToolUseResultBlock \<Rightarrow> nat \<times> nat" where
  "position r = (rb_MessageIndex r, rb_BlockIndex r)"

definition block_at :: "gomap list \<Rightarrow> nat \<times> nat \<Rightarrow> gomap" where
  "block_at msgs p = blocks_of (msgs ! fst p) ! snd p"

definition valid_at :: "gomap list \<Rightarrow> nat \<times> nat \<Rightarrow> bool" where
  "valid_at msgs p \<longleftrightarrow> fst p < length msgs \<and> snd p < length (blocks_of (msgs ! fst p))"

lemma nth_update_any: "j < length xs \<Longrightarrow> xs[i := x] ! j = (if i = j then x else xs ! j)"
  by auto

lemma clear_block_at:
  assumes "valid_at msgs p"
  shows "valid_at (clear_block r msgs) p"
    "block_at (clear_block r msgs) p =
     (if position r = p then mput ''content'' (JStr cleanPlaceHolder) (block_at msgs p) else block_at msgs p)"
proof -
  obtain i j where p: "p = (i, j)" by (cases p)
  have b: "blocks_of (clear_block r msgs ! i) =
      (if rb_MessageIndex r = i \<and> rb_BlockIndex r < length (blocks_of (msgs ! i))
       then (blocks_of (msgs ! i))[rb_BlockIndex r := mput ''content'' (JStr cleanPlaceHolder) (blocks_of (msgs ! i) ! rb_BlockIndex r)]
       else blocks_of (msgs ! i))"
    using assms by (simp add: p valid_at_def clear_block_def blocks_update nth_update_any)
  show "valid_at (clear_block r msgs) p" using assms b by (simp add: p valid_at_def clear_block_def)
  show "block_at (clear_block r msgs) p =
     (if position r = p then mput ''content'' (JStr cleanPlaceHolder) (block_at msgs p) else block_at msgs p)"
    using assms b by (auto simp: p valid_at_def block_at_def position_def)
qed

lemma clear_block_field:
  "length (clear_block r msgs) = length msgs"
  "key \<noteq> ''content'' \<Longrightarrow> i < length msgs \<Longrightarrow> fld (clear_block r msgs ! i) key = fld (msgs ! i) key"
  by (simp_all add: clear_block_def fld_on_content nth_update_any)

lemma mput_idem: "mput k v (mput k v m) = mput k v m"
  by (induction m) auto

lemma clear_all:
  assumes "valid_at msgs p"
  shows "valid_at (fold clear_block rs msgs) p \<and> block_at (fold clear_block rs msgs) p =
    (if p \<in> position ` set rs then mput ''content'' (JStr cleanPlaceHolder) (block_at msgs p) else block_at msgs p)"
  using assms
proof (induction rs arbitrary: msgs)
  case (Cons r rs)
  note at = clear_block_at [OF Cons.prems, of r]
  from Cons.IH [OF at(1)] show ?case by (auto simp: at(2) mput_idem)
qed simp

lemma clear_all_frame:
  "length (fold clear_block rs msgs) = length msgs \<and> use_ids (fold clear_block rs msgs) = use_ids msgs \<and>
   result_ids (fold clear_block rs msgs) = result_ids msgs"
  by (induction rs arbitrary: msgs) (simp_all add: clear_block_ids clear_block_field)

lemma scan_blocks_member:
  "r \<in> set (scan_blocks i j bs) \<Longrightarrow> rb_MessageIndex r = i \<and> j \<le> rb_BlockIndex r \<and> rb_BlockIndex r < j + length bs \<and>
     bs ! (rb_BlockIndex r - j) = rb_Block r"
proof (induction bs arbitrary: j)
  case (Cons b bs)
  consider "r = \<lparr>rb_MessageIndex = i, rb_BlockIndex = j, rb_Block = b\<rparr>" | "r \<in> set (scan_blocks i (Suc j) bs)"
    using Cons.prems by (auto split: if_splits)
  then show ?case
  proof cases
    case 2
    from Cons.IH [OF this] show ?thesis by (auto simp: nth_Cons' Suc_le_eq)
  qed simp
qed simp

lemma scan_messages_member:
  "r \<in> set (scan_messages i msgs) \<Longrightarrow> i \<le> rb_MessageIndex r \<and> rb_MessageIndex r < i + length msgs \<and>
     rb_BlockIndex r < length (blocks_of (msgs ! (rb_MessageIndex r - i))) \<and>
     blocks_of (msgs ! (rb_MessageIndex r - i)) ! rb_BlockIndex r = rb_Block r"
proof (induction msgs arbitrary: i)
  case (Cons msg msgs)
  consider "r \<in> set (scan_blocks i 0 (blocks_of msg))" | "r \<in> set (scan_messages (Suc i) msgs)" using Cons.prems by auto
  then show ?case
  proof cases
    case 1
    from scan_blocks_member [OF this] show ?thesis by auto
  next
    case 2
    from Cons.IH [OF this] show ?thesis by (auto simp: nth_Cons' Suc_le_eq)
  qed
qed simp

lemma iter_positions:
  "r \<in> set (iterToolResultBlock msgs) \<Longrightarrow> valid_at msgs (position r) \<and> block_at msgs (position r) = rb_Block r"
  by (auto simp: iterToolResultBlock_def valid_at_def block_at_def position_def dest: scan_messages_member)

lemma scan_blocks_distinct: "distinct (map position (scan_blocks i j bs))"
proof (induction bs arbitrary: j)
  case (Cons b bs)
  have "(i, j) \<notin> position ` set (scan_blocks i (Suc j) bs)"
    by (auto simp: position_def dest: scan_blocks_member)
  with Cons show ?case by (simp add: position_def)
qed simp

lemma scan_messages_distinct: "distinct (map position (scan_messages i msgs))"
proof (induction msgs arbitrary: i)
  case (Cons msg msgs)
  have "position ` set (scan_blocks i 0 (blocks_of msg)) \<inter> position ` set (scan_messages (Suc i) msgs) = {}"
    by (auto simp: position_def dest!: scan_blocks_member scan_messages_member)
  with Cons show ?case by (simp add: scan_blocks_distinct)
qed simp

lemma compressible_distinct: "distinct (map position (compressible msgs))"
  unfolding compressible_def iterToolResultBlock_def
  by (rule distinct_map_filter) (rule scan_messages_distinct)

text \<open>Clearing old tool results changes nothing but the contents it clears: the conversation keeps its calls and
  results in order, every block outside the stable ones is as it was, the stable blocks carry the placeholder,
  and at least one of the newest compressible results (as many as asked for) is spared.\<close>

theorem micro_compaction_spares_the_recent:
  "let msgs' = fst (MicroCompactMessages msgs True keep); n = length (compressible msgs); k = n - nat (max keep 1) in
     length msgs' = length msgs \<and> use_ids msgs' = use_ids msgs \<and> result_ids msgs' = result_ids msgs \<and>
     (\<forall>p. valid_at msgs p \<longrightarrow> p \<notin> position ` set (take k (compressible msgs)) \<longrightarrow> block_at msgs' p = block_at msgs p) \<and>
     list_all (\<lambda>r. fld (block_at msgs' (position r)) ''content'' = JStr cleanPlaceHolder) (take k (compressible msgs)) \<and>
     list_all (\<lambda>r. block_at msgs' (position r) = rb_Block r) (drop k (compressible msgs))"
proof -
  define k where "k = length (compressible msgs) - nat (max keep 1)"
  define msgs' where "msgs' = fst (MicroCompactMessages msgs True keep)"
  have k: "nat (MaxInt 0 (int (length (compressible msgs)) - MaxInt keep 1)) = k"
    by (auto simp: k_def MaxInt_def max_def)
  have m: "msgs' = fold clear_block (take k (compressible msgs)) msgs"
    by (simp add: msgs'_def MicroCompactMessages_def stable_blocks_def k)
  have pos: "valid_at msgs (position r) \<and> block_at msgs (position r) = rb_Block r" if "r \<in> set (compressible msgs)" for r
    using that iter_positions by (simp add: compressible_def)
  have new: "position r \<notin> position ` set (take k (compressible msgs))" if "r \<in> set (drop k (compressible msgs))" for r
  proof -
    have "distinct (map position (take k (compressible msgs)) @ map position (drop k (compressible msgs)))"
      using compressible_distinct [of msgs] by (simp flip: map_append)
    with that show ?thesis by (auto simp del: map_append)
  qed
  note cleared = clear_all [of msgs _ "take k (compressible msgs)", folded m]
  have "block_at msgs' (position r) = rb_Block r" if "r \<in> set (drop k (compressible msgs))" for r
    using cleared [of "position r"] pos [of r] new [OF that] in_set_dropD [OF that] by simp
  moreover have "fld (block_at msgs' (position r)) ''content'' = JStr cleanPlaceHolder" if "r \<in> set (take k (compressible msgs))" for r
    using cleared [of "position r"] pos [of r] that in_set_takeD [OF that] by simp
  moreover have "block_at msgs' p = block_at msgs p" if "valid_at msgs p" "p \<notin> position ` set (take k (compressible msgs))" for p
    using cleared [OF that(1)] that(2) by simp
  moreover have "length msgs' = length msgs \<and> use_ids msgs' = use_ids msgs \<and> result_ids msgs' = result_ids msgs"
    unfolding m by (rule clear_all_frame)
  ultimately show ?thesis
    unfolding Let_def list_all_iff k_def [symmetric] msgs'_def [symmetric] by blast
qed

lemma snip_message_ids:
  "concat (map use_id (blocks_of (snip_message thr msg))) = concat (map use_id (blocks_of msg))"
  "concat (map result_id (blocks_of (snip_message thr msg))) = concat (map result_id (blocks_of msg))"
  by (simp_all add: snip_message_def blocks_map o_def if_distrib [of use_id] if_distrib [of result_id] cong: if_cong)

lemma stale_turns_distinct: "distinct (filter (\<lambda>i. isToolResultMessage (msgs ! i)) [0..<length msgs])"
  by simp

text \<open>Snipping touches stale tool results only: the conversation keeps its calls and results in order, every message
  that is not a stale turn is as it was, the last turns asked for are not stale, and with a threshold
  not below the length of the tag no snip adds tokens.\<close>

theorem snip_spares_recent_turns:
  "let turns = filter (\<lambda>i. isToolResultMessage (msgs ! i)) [0..<length msgs]; msgs' = fst (SnipCompactIfNeeded msgs preserve thr) in
     length msgs' = length msgs \<and> use_ids msgs' = use_ids msgs \<and> result_ids msgs' = result_ids msgs \<and>
     (\<forall>i < length msgs. i \<notin> set (stale_turns msgs preserve) \<longrightarrow> msgs' ! i = msgs ! i) \<and>
     set (drop (length turns - preserve) turns) \<inter> set (stale_turns msgs preserve) = {} \<and>
     (charLen snipTag \<le> thr \<longrightarrow> 0 \<le> snd (SnipCompactIfNeeded msgs preserve thr))"
proof -
  define turns where "turns = filter (\<lambda>i. isToolResultMessage (msgs ! i)) [0..<length msgs]"
  define f where "f = (\<lambda>(i, msg). if i \<in> set (stale_turns msgs preserve) then snip_message thr msg else msg)"
  have m: "fst (SnipCompactIfNeeded msgs preserve thr) = map f (enumerate 0 msgs)"
    by (simp add: SnipCompactIfNeeded_def Let_def f_def)
  have same: "concat (map (\<lambda>m. concat (map h (blocks_of m))) (map f (enumerate k ms))) = concat (map (\<lambda>m. concat (map h (blocks_of m))) ms)"
    if "\<And>m. concat (map h (blocks_of (snip_message thr m))) = concat (map h (blocks_of m))" for h :: "gomap \<Rightarrow> string list" and k ms
    by (induction ms arbitrary: k) (simp_all add: f_def that)
  have "use_ids (map f (enumerate 0 msgs)) = use_ids msgs" "result_ids (map f (enumerate 0 msgs)) = result_ids msgs"
    unfolding use_ids_def result_ids_def by (rule same, rule snip_message_ids)+
  moreover have "set (drop (length turns - preserve) turns) \<inter> set (stale_turns msgs preserve) = {}"
    using set_take_disj_set_drop_if_distinct [of turns "length turns - preserve" "length turns - preserve"]
    by (simp add: stale_turns_def Let_def turns_def Int_commute)
  moreover have "0 \<le> snd (SnipCompactIfNeeded msgs preserve thr)" if "charLen snipTag \<le> thr"
    using that
    by (auto simp: SnipCompactIfNeeded_def Let_def snip_freed_def rough_text_def too_long_for_def stringFromAny_def
        intro!: sum_list_nonneg zdiv_mono1 split: json.splits)
  moreover have "\<forall>i < length msgs. i \<notin> set (stale_turns msgs preserve) \<longrightarrow> map f (enumerate 0 msgs) ! i = msgs ! i"
    by (simp add: f_def nth_enumerate_eq)
  ultimately show ?thesis unfolding Let_def m turns_def [symmetric] by simp
qed

section \<open>Sample conversation\<close>

definition sample_history :: "gomap list" where
  "sample_history =
     [[(''role'', JStr ''assistant''), (''content'', block_list [tool_use_block \<lparr>tc_ID = ''a'', tc_Name = ''read_file'', tc_Input = []\<rparr>])],
      user_message [tool_result_block ''a'' ''first''],
      [(''role'', JStr ''assistant''), (''content'', block_list [tool_use_block \<lparr>tc_ID = ''b'', tc_Name = ''run_shell'', tc_Input = []\<rparr>])],
      user_message [tool_result_block ''b'' ''second'']]"

theorem safe_tail_is_the_shortest_witness:
  "SafeTailStart sample_history 1 = 2 \<and> safe_cut sample_history 2"
proof -
  have "SafeTailStart sample_history 1 = 2" by code_simp
  with safe_tail_is_the_shortest [of sample_history 1] show ?thesis by (simp add: Let_def)
qed

theorem pythonFloorDiv_is_floor_witness: "pythonFloorDiv (-7) 2 = -4"
  using pythonFloorDiv_is_floor [of 2 "-7"] by simp

theorem micro_compaction_spares_the_recent_witness:
  "block_at (fst (MicroCompactMessages sample_history True 1)) (3, 0) = tool_result_block ''b'' ''second'' \<and>
   fld (block_at (fst (MicroCompactMessages sample_history True 1)) (1, 0)) ''content'' = JStr cleanPlaceHolder"
proof -
  have c: "map position (compressible sample_history) = [(1, 0), (3, 0)]"
    "map rb_Block (drop 1 (compressible sample_history)) = [tool_result_block ''b'' ''second'']" by code_simp+
  obtain r s where rs: "compressible sample_history = [r, s]" "position r = (1, 0)" "position s = (3, 0)"
    using c(1) by (cases "compressible sample_history") (auto simp: map_eq_Cons_conv)
  with c(2) have "rb_Block s = tool_result_block ''b'' ''second''" by simp
  with micro_compaction_spares_the_recent [of sample_history 1] rs show ?thesis by (simp add: Let_def)
qed

theorem snip_spares_recent_turns_witness:
  "fst (SnipCompactIfNeeded sample_history 1 3) ! 3 = sample_history ! 3 \<and>
   0 \<le> snd (SnipCompactIfNeeded sample_history 1 60)"
proof -
  have "3 \<notin> set (stale_turns sample_history 1)" "charLen snipTag \<le> 60" by code_simp+
  moreover have "3 < length sample_history" by (simp add: sample_history_def)
  ultimately show ?thesis
    using snip_spares_recent_turns [of sample_history 1 3] snip_spares_recent_turns [of sample_history 1 60]
    by (simp add: Let_def)
qed

end
