(* ===== verification/Context_Collapse.thy ===== *)
theory Context_Collapse
  imports Context_Window Agent_Normalize
begin

text \<open>
  \<open>agentContext/collapse.go\<close>: folding old messages into summaries. A conversation is divided into exchanges
  of one role each; old exchanges are projected to a few lines of text, or spans of messages are recorded as
  collapsed regions and replaced by their summary when the conversation is viewed. From \<open>agentContext/auto.go\<close>
  and \<open>agentContext/pipeline.go\<close>: when automatic compaction runs, the retries with a shortened head, and the
  history that replaces the old one.
\<close>

section \<open>Exchanges\<close>

definition MinInt :: "int \<Rightarrow> int \<Rightarrow> int" where
  "MinInt a b = (if a < b then a else b)"

definition defaultKeepRecent :: nat where "defaultKeepRecent = 5"

definition defaultKeepRecentMessage :: nat where "defaultKeepRecentMessage = defaultKeepRecent * 2"

definition defaultCollapseThresholdTokens :: int where "defaultCollapseThresholdTokens = 90000"

definition minRegionSize :: nat where "minRegionSize = 3"

definition getL3CollapseThreshold :: "int \<Rightarrow> int \<Rightarrow> int" where
  "getL3CollapseThreshold contextLimit softLimit =
     MaxInt 1 (MinInt (MinInt defaultCollapseThresholdTokens softLimit) (softLimit - 1))"

definition TruncateRunes :: "string \<Rightarrow> nat \<Rightarrow> string" where
  "TruncateRunes s maxLen = (if rune_count s \<le> maxLen then s else take_runes maxLen s)"

record CollapsedRegion =
  cr_StartIdx :: int
  cr_EndIdx :: int
  cr_Summary :: string

record ProjectedExchange =
  pe_Role :: string
  pe_Summary :: string
  pe_ToolCalls :: "string list"
  pe_KeyOutputs :: "string list"

fun partition_from :: "gomap list \<Rightarrow> string \<Rightarrow> gomap list \<Rightarrow> gomap list list" where
  "partition_from current lastRole [] = [current]"
| "partition_from current lastRole (msg # msgs) =
     (if role_of msg \<noteq> lastRole then current # partition_from [msg] (role_of msg) msgs
      else partition_from (current @ [msg]) lastRole msgs)"

definition partitionExchanges :: "gomap list \<Rightarrow> gomap list list" where
  "partitionExchanges msgs = (case msgs of [] \<Rightarrow> [] | m # ms \<Rightarrow> partition_from [m] (role_of m) ms)"

definition project_block :: "gomap \<Rightarrow> ProjectedExchange \<Rightarrow> ProjectedExchange" where
  "project_block b proj =
     (let t = getValueFrom b ''type'' in
      if t = ''text'' then
        (let text = getValueFrom b ''text'';
             firstSent = TruncateRunes (TrimSpace (hd (split_on (CHR ''.'') text))) 200
         in if text \<noteq> [] \<and> rune_count text > 10 \<and> pe_Summary proj = [] then proj\<lparr>pe_Summary := firstSent\<rparr> else proj)
      else if t = ''tool_use'' then
        (let name = getValueFrom b ''name''
         in if name \<noteq> [] then proj\<lparr>pe_ToolCalls := pe_ToolCalls proj @ [name]\<rparr> else proj)
      else if t = ''tool_result'' then
        (let result = getValueFrom b ''content'';
             firstLine = TruncateRunes (hd (split_on (CHR 0x0A) (TrimSpace result))) 150
         in if result \<noteq> [] \<and> firstLine \<noteq> [] then proj\<lparr>pe_KeyOutputs := pe_KeyOutputs proj @ [firstLine]\<rparr> else proj)
      else proj)"

definition exchange_blocks :: "gomap \<Rightarrow> gomap list" where
  "exchange_blocks msg = (case fld msg ''content'' of JStr text \<Rightarrow> [text_block text] | _ \<Rightarrow> blocks_of msg)"

definition project_message :: "ProjectedExchange \<Rightarrow> gomap \<Rightarrow> ProjectedExchange" where
  "project_message proj msg =
     fold project_block (exchange_blocks msg) (if pe_Role proj = [] then proj\<lparr>pe_Role := role_of msg\<rparr> else proj)"

definition projectExchange :: "gomap list \<Rightarrow> ProjectedExchange option" where
  "projectExchange exchange =
     (let proj = foldl project_message \<lparr>pe_Role = [], pe_Summary = [], pe_ToolCalls = [], pe_KeyOutputs = []\<rparr> exchange
      in if exchange = [] \<or> (pe_Summary proj = [] \<and> pe_ToolCalls proj = []) then None else Some proj)"

definition projection_line :: "nat \<Rightarrow> ProjectedExchange \<Rightarrow> string" where
  "projection_line i proj =
     join_with '' '' ([''Turn '' @ show_int (int i + 1)] @
       (if pe_Summary proj \<noteq> [] then [''  Summary: '' @ pe_Summary proj] else []) @
       (if pe_ToolCalls proj \<noteq> [] then [''  Tools called: '' @ join_with '', '' (pe_ToolCalls proj)] else []) @
       (if pe_KeyOutputs proj \<noteq> [] then [''  Key outputs: '' @ join_with ''; '' (take 3 (pe_KeyOutputs proj))] else []))"

definition buildProjectionText :: "ProjectedExchange list \<Rightarrow> string" where
  "buildProjectionText projections =
     join_with nl ((''[Earlier conversation '' @ [CHR 0xE2, CHR 0x80, CHR 0x94] @ '' summarized]'' @ nl) #
       map (\<lambda>(i, proj). projection_line i proj) (enumerate 0 projections))"

definition CollapseMessages :: "gomap list \<Rightarrow> nat \<Rightarrow> gomap list" where
  "CollapseMessages msgs keepRecent =
     (let exchanges = partitionExchanges msgs;
          older = (if keepRecent = 0 then [] else take (length exchanges - keepRecent) exchanges);
          recent = (if keepRecent = 0 then exchanges else drop (length exchanges - keepRecent) exchanges);
          projections = List.map_filter projectExchange older
      in if msgs = [] \<or> length exchanges \<le> keepRecent \<or> projections = [] then msgs
         else user_message [text_block (buildProjectionText projections)] # concat recent)"

definition CollapseMessagesDefault :: "gomap list \<Rightarrow> gomap list" where
  "CollapseMessagesDefault msgs = CollapseMessages msgs defaultKeepRecent"

section \<open>Regions\<close>

definition in_region :: "int \<Rightarrow> CollapsedRegion \<Rightarrow> bool" where
  "in_region i r \<longleftrightarrow> cr_StartIdx r \<le> i \<and> i < cr_EndIdx r"

definition collapsed :: "CollapsedRegion list \<Rightarrow> nat \<Rightarrow> bool" where
  "collapsed regions i = list_ex (in_region (int i)) regions"

text \<open>The loop from \<open>i\<close> up to the limit; \<open>None\<close> is the pair of minus ones.\<close>

function scan_span :: "CollapsedRegion list \<Rightarrow> nat \<Rightarrow> nat \<Rightarrow> nat option \<Rightarrow> nat \<Rightarrow> (nat \<times> nat) option" where
  "scan_span regions minSize limit runStart i =
     (if i \<ge> limit then (case runStart of None \<Rightarrow> None | Some s \<Rightarrow> if limit - s \<ge> minSize then Some (s, limit) else None)
      else if \<not> collapsed regions i then
        scan_span regions minSize limit (case runStart of None \<Rightarrow> Some i | Some s \<Rightarrow> Some s) (Suc i)
      else case runStart of
        None \<Rightarrow> scan_span regions minSize limit None (Suc i)
      | Some s \<Rightarrow> if i - s \<ge> minSize then Some (s, i) else scan_span regions minSize limit None (Suc i))"
  by pat_completeness auto
termination
  by (relation "measure (\<lambda>(_, _, limit, _, i). limit - i)") auto

declare scan_span.simps [simp del]

definition findUncollapsedSpan :: "gomap list \<Rightarrow> CollapsedRegion list \<Rightarrow> nat \<Rightarrow> nat \<Rightarrow> (nat \<times> nat) option" where
  "findUncollapsedSpan msgs existingRegions minSize keepRecent =
     scan_span existingRegions (if minSize = 0 then minRegionSize else minSize)
       (length msgs - (if keepRecent = 0 then defaultKeepRecentMessage else keepRecent)) None 0"

text \<open>Regions with the same start are told apart by their order, which \<open>sort.Slice\<close> does not promise to keep; the
  regions that \<open>ApplyCollapseIfNeed\<close> makes never share a start.\<close>

definition ProjectCollapsedView :: "gomap list \<Rightarrow> CollapsedRegion list \<Rightarrow> gomap list" where
  "ProjectCollapsedView msgs regions =
     (if regions = [] then msgs
      else let insertMap = foldl (\<lambda>m r. mput (cr_StartIdx r) (cr_Summary r) m) [] (sort_key cr_StartIdx regions)
           in concat (map (\<lambda>(i, msg). if collapsed regions i
                then (case map_of insertMap (int i) of None \<Rightarrow> [] | Some summary \<Rightarrow> [user_message [text_block summary]])
                else [msg]) (enumerate 0 msgs)))"

definition collapse_summary :: "nat \<Rightarrow> nat \<Rightarrow> string" where
  "collapse_summary start end' =
     ''[System: '' @ show_int (int end' - int start) @ '' turns of debugging logs collapsed for context efficiency. Original messages '' @
     show_int (int start) @ [CHR 0xE2, CHR 0x80, CHR 0x93] @ show_int (int end' - 1) @
     '' contained verbose tool output that has been folded.]''"

definition ApplyCollapseIfNeed :: "gomap list \<Rightarrow> int \<Rightarrow> int \<Rightarrow> CollapsedRegion list \<Rightarrow> bool \<times> CollapsedRegion list" where
  "ApplyCollapseIfNeed msgs currentTokens collapseThresholdTokens existingRegions =
     (if currentTokens < collapseThresholdTokens then (False, existingRegions)
      else case findUncollapsedSpan msgs existingRegions 0 defaultKeepRecentMessage of
        None \<Rightarrow> (False, existingRegions)
      | Some (start, end') \<Rightarrow>
          if end' \<le> start \<or> end' > length msgs then (False, existingRegions)
          else let projections = List.map_filter projectExchange (partitionExchanges (take (end' - start) (drop start msgs)));
                   summary = (if projections \<noteq> [] then buildProjectionText projections else collapse_summary start end')
               in (True, existingRegions @ [\<lparr>cr_StartIdx = int start, cr_EndIdx = int end', cr_Summary = summary\<rparr>]))"

section \<open>Automatic compaction\<close>

definition MaxConsecutiveFailure :: int where "MaxConsecutiveFailure = 3"
definition MaxPtlRetries :: nat where "MaxPtlRetries = 3"

definition ShouldAutoCompactAtThreshold :: "int \<Rightarrow> int \<Rightarrow> int \<Rightarrow> int \<Rightarrow> bool \<Rightarrow> bool" where
  "ShouldAutoCompactAtThreshold currentTokens snipTokensFreed triggerThreshold consecutiveFailure l3Suppressed =
     (if consecutiveFailure \<ge> MaxConsecutiveFailure then False
      else if l3Suppressed then False else currentTokens - snipTokensFreed \<ge> triggerThreshold)"

definition is_user :: "gomap \<Rightarrow> bool" where
  "is_user msg \<longleftrightarrow> role_of msg = ''user''"

definition TruncateHeadForPtlRetry :: "gomap list \<Rightarrow> gomap list" where
  "TruncateHeadForPtlRetry msgs =
     (if length msgs \<le> 3 then msgs
      else case find_index is_user msgs of
        None \<Rightarrow> msgs
      | Some first \<Rightarrow>
          (case find_index is_user (drop (Suc first) msgs) of
             None \<Rightarrow> msgs
           | Some k \<Rightarrow> hd msgs # drop (Suc first + k) msgs))"

datatype compact_error = PtlExhausted | CompactFailed string

definition ptlErrorKeywords :: "string list" where
  "ptlErrorKeywords = [''too_long'', ''token limit'', ''context length'', ''prompt is too long'', ''maximum context'',
     ''exceeds the maximum'', ''max_tokens'', ''input length'', ''reduce the length'']"

definition isPtlError :: "string \<Rightarrow> bool" where
  "isPtlError e = list_ex (\<lambda>k. sublist k (lower_view e)) ptlErrorKeywords"

text \<open>\<open>client\<close> is the model. The second component lists the conversations it was asked about.\<close>

fun retry_compact ::
  "(gomap list \<Rightarrow> string + string) \<Rightarrow> nat \<Rightarrow> gomap list \<Rightarrow> (compact_error + string) \<times> gomap list list" where
  "retry_compact client left msgs =
     (case client msgs of
        Inr summary \<Rightarrow> (Inr summary, [msgs])
      | Inl err \<Rightarrow>
          if \<not> isPtlError err then (Inl (CompactFailed err), [msgs])
          else case left of
            0 \<Rightarrow> (Inl PtlExhausted, [msgs])
          | Suc n \<Rightarrow> (case retry_compact client n (TruncateHeadForPtlRetry msgs) of (r, tried) \<Rightarrow> (r, msgs # tried)))"

declare retry_compact.simps [simp del]

definition ExecuteAutoCompactWithRetry ::
  "(gomap list \<Rightarrow> string + string) \<Rightarrow> gomap list \<Rightarrow> (compact_error + string) \<times> gomap list list" where
  "ExecuteAutoCompactWithRetry client msgs = retry_compact client MaxPtlRetries msgs"

section \<open>Exchanges partition the conversation\<close>

lemma partition_from_concat: "concat (partition_from cur r ms) = cur @ ms"
  by (induction cur r ms rule: partition_from.induct) auto

lemma partition_from_nonempty: "partition_from cur r ms \<noteq> []"
  by (induction cur r ms rule: partition_from.induct) auto

lemma partition_from_hd: "cur \<noteq> [] \<Longrightarrow> hd (partition_from cur r ms) \<noteq> [] \<and> hd (hd (partition_from cur r ms)) = hd cur"
  by (induction cur r ms rule: partition_from.induct) auto

lemma partition_from_uniform:
  "cur \<noteq> [] \<Longrightarrow> list_all (\<lambda>m. role_of m = r) cur \<Longrightarrow>
   list_all (\<lambda>x. x \<noteq> [] \<and> list_all (\<lambda>m. role_of m = role_of (hd x)) x) (partition_from cur r ms) \<and>
   successively (\<lambda>x y. role_of (hd x) \<noteq> role_of (hd y)) (partition_from cur r ms)"
proof (induction cur r ms rule: partition_from.induct)
  case (1 cur r)
  then show ?case by (cases cur) auto
next
  case (2 cur r msg ms)
  show ?case
  proof (cases "role_of msg \<noteq> r")
    case True
    have cur: "role_of (hd cur) = r" "list_all (\<lambda>m. role_of m = role_of (hd cur)) cur" using "2.prems" by (cases cur; simp)+
    have "role_of (hd (hd (partition_from [msg] (role_of msg) ms))) = role_of msg"
      using partition_from_hd [of "[msg]"] by simp
    with True "2.IH"(1) [OF True] "2.prems" cur partition_from_nonempty show ?thesis
      by (simp add: successively_Cons)
  qed (use 2 in auto)
qed

text \<open>Dividing a conversation into exchanges loses and reorders nothing; every exchange is a non-empty run of messages of
  one role, and neighbouring exchanges have different roles.\<close>

theorem exchanges_partition_the_conversation:
  "concat (partitionExchanges msgs) = msgs \<and>
   list_all (\<lambda>x. x \<noteq> [] \<and> list_all (\<lambda>m. role_of m = role_of (hd x)) x) (partitionExchanges msgs) \<and>
   successively (\<lambda>x y. role_of (hd x) \<noteq> role_of (hd y)) (partitionExchanges msgs)"
  using partition_from_uniform by (auto simp: partitionExchanges_def partition_from_concat split: list.split)

section \<open>Spans\<close>

definition free_span :: "CollapsedRegion list \<Rightarrow> nat \<Rightarrow> nat \<Rightarrow> bool" where
  "free_span regions a b \<longleftrightarrow> (\<forall>j. a \<le> j \<longrightarrow> j < b \<longrightarrow> \<not> collapsed regions j)"

lemma scan_span_sound:
  assumes "scan_span regions minSize limit runStart i = Some (s, e)" "i \<le> limit"
    "\<And>r. runStart = Some r \<Longrightarrow> r < i \<and> free_span regions r i"
  shows "e \<le> limit \<and> minSize \<le> e - s \<and> s < e \<and> free_span regions s e"
  using assms
proof (induction regions minSize limit runStart i rule: scan_span.induct)
  case (1 regions minSize limit runStart i)
  show ?case
  proof (cases "i \<ge> limit")
    case True
    with "1.prems" show ?thesis by (auto simp: scan_span.simps [of regions minSize limit runStart i] split: option.splits if_splits)
  next
    case False
    show ?thesis
    proof (cases "collapsed regions i")
      case True
      show ?thesis
      proof (cases runStart)
        case None
        with 1 False True show ?thesis by (simp add: scan_span.simps [of regions minSize limit None i])
      next
        case (Some r)
        have step: "scan_span regions minSize limit runStart i =
            (if i - r \<ge> minSize then Some (r, i) else scan_span regions minSize limit None (Suc i))"
          using False True Some by (simp add: scan_span.simps [of regions minSize limit "Some r" i])
        show ?thesis
        proof (cases "i - r \<ge> minSize")
          case long: True
          then have "s = r" "e = i" using step "1.prems"(1) by simp_all
          then show ?thesis using "1.prems"(2) "1.prems"(3) [OF Some] long by simp
        next
          case short: False
          then show ?thesis using "1.IH"(3) [OF False _ Some short] True step "1.prems"(1) False by simp
        qed
      qed
    next
      case free: False
      define r where "r = (case runStart of None \<Rightarrow> i | Some s \<Rightarrow> s)"
      have r: "(case runStart of None \<Rightarrow> Some i | Some s \<Rightarrow> Some s) = Some r" by (simp add: r_def split: option.split)
      have "r < Suc i \<and> free_span regions r (Suc i)"
        using "1.prems"(3) free by (auto simp: r_def free_span_def less_Suc_eq split: option.splits)
      with "1.IH"(1) [OF False free] "1.prems"(1) False free show ?thesis
        by (simp add: scan_span.simps [of regions minSize limit runStart i] r)
    qed
  qed
qed

lemma scan_span_complete:
  assumes "scan_span regions minSize limit runStart i = None" "free_span regions a b" "b \<le> limit" "minSize \<le> b - a" "a < b"
    "(case runStart of None \<Rightarrow> i | Some r \<Rightarrow> r) \<le> a" "i \<le> limit"
  shows False
  using assms
proof (induction regions minSize limit runStart i rule: scan_span.induct)
  case (1 regions minSize limit runStart i)
  show ?case
  proof (cases "i \<ge> limit")
    case True
    with "1.prems" show ?thesis by (auto simp: scan_span.simps [of regions minSize limit runStart i] split: option.splits if_splits)
  next
    case False
    show ?thesis
    proof (cases "collapsed regions i")
      case True
      then have out: "b \<le> i \<or> Suc i \<le> a" using "1.prems"(2) unfolding free_span_def by (metis not_le not_less_eq_eq)
      show ?thesis
      proof (cases runStart)
        case None
        with out 1 False True show ?thesis by (simp add: scan_span.simps [of regions minSize limit None i])
      next
        case (Some r)
        with "1.prems"(1) False True have size: "\<not> minSize \<le> i - r"
          by (auto simp: scan_span.simps [of regions minSize limit "Some r" i] split: if_splits)
        have "\<not> b \<le> i" using size "1.prems"(4,6) Some by auto
        with out Some size 1 False True show ?thesis by (simp add: scan_span.simps [of regions minSize limit "Some r" i])
      qed
    next
      case free: False
      define r where "r = (case runStart of None \<Rightarrow> i | Some s \<Rightarrow> s)"
      have r: "(case runStart of None \<Rightarrow> Some i | Some s \<Rightarrow> Some s) = Some r" by (simp add: r_def split: option.split)
      from "1.IH"(1) [OF False free] "1.prems" False free show ?thesis
        by (simp add: scan_span.simps [of regions minSize limit runStart i] r) (simp add: r_def)
    qed
  qed
qed

text \<open>The search for a span to fold is exact: it returns a span that avoids every collapsed region and the newest
  messages and is long enough, and it fails only when there is none.\<close>

theorem findUncollapsedSpan_exact:
  "let limit = length msgs - (if keep = 0 then 10 else keep); size = (if minSize = 0 then 3 else minSize) in
   case findUncollapsedSpan msgs regions minSize keep of
     Some (s, e) \<Rightarrow> s < e \<and> e \<le> limit \<and> size \<le> e - s \<and> free_span regions s e
   | None \<Rightarrow> \<not> (\<exists>s e. s < e \<and> e \<le> limit \<and> size \<le> e - s \<and> free_span regions s e)"
proof -
  define limit where "limit = length msgs - (if keep = 0 then 10 else keep)"
  define size where "size = (if minSize = 0 then 3 else minSize)"
  have find: "findUncollapsedSpan msgs regions minSize keep = scan_span regions size limit None 0"
    by (simp add: findUncollapsedSpan_def minRegionSize_def defaultKeepRecentMessage_def defaultKeepRecent_def limit_def size_def)
  show ?thesis unfolding Let_def limit_def [symmetric] size_def [symmetric] find
    using scan_span_sound [of regions size limit None 0] scan_span_complete [of regions size limit None 0]
    by (fastforce split: option.split)
qed

section \<open>Regions stay apart\<close>

text \<open>Regions are not empty, leave the ten newest messages alone, and no message is in two of them.\<close>

definition wf_regions :: "nat \<Rightarrow> CollapsedRegion list \<Rightarrow> bool" where
  "wf_regions n regions \<longleftrightarrow>
     list_all (\<lambda>r. 0 \<le> cr_StartIdx r \<and> cr_StartIdx r < cr_EndIdx r \<and> cr_EndIdx r \<le> int (n - 10)) regions \<and>
     (\<forall>i. length (filter (in_region i) regions) \<le> 1)"

lemma wf_regions_recent:
  assumes "wf_regions n regions" "n - 10 \<le> i"
  shows "\<not> collapsed regions i"
  using assms by (fastforce simp: wf_regions_def collapsed_def list_ex_iff list_all_iff in_region_def)

lemma wf_regions_add:
  assumes "wf_regions n regions" "s < e" "e \<le> n - 10" "free_span regions s e"
  shows "wf_regions n (regions @ [\<lparr>cr_StartIdx = int s, cr_EndIdx = int e, cr_Summary = t\<rparr>])"
proof -
  let ?r = "\<lparr>cr_StartIdx = int s, cr_EndIdx = int e, cr_Summary = t\<rparr>"
  have "length (filter (in_region i) (regions @ [?r])) \<le> 1" for i
  proof (cases "in_region i ?r")
    case True
    then obtain k where "i = int k" "s \<le> k" "k < e" by (auto simp: in_region_def) (metis nat_le_iff int_nat_eq nat_less_iff of_nat_0_le_iff order_trans)
    with assms(4) have "filter (in_region i) regions = []" by (auto simp: free_span_def collapsed_def list_ex_iff filter_empty_conv)
    then show ?thesis by simp
  next
    case False
    with assms(1) show ?thesis by (simp add: wf_regions_def)
  qed
  with assms show ?thesis by (auto simp: wf_regions_def)
qed

lemma view_uncollapsed:
  assumes "\<And>i. k \<le> i \<Longrightarrow> i < k + length ms \<Longrightarrow> \<not> collapsed regions i"
  shows "concat (map (\<lambda>(i, msg). if collapsed regions i then g i else [msg]) (enumerate k ms)) = ms"
  using assms
proof (induction ms arbitrary: k)
  case (Cons m ms)
  have "concat (map (\<lambda>(i, msg). if collapsed regions i then g i else [msg]) (enumerate (Suc k) ms)) = ms"
    using Cons.prems by (intro Cons.IH) auto
  with Cons.prems show ?case by simp
qed simp

lemma view_keeps_recent:
  assumes "wf_regions (length msgs) regions"
  shows "suffix (drop (length msgs - 10) msgs) (ProjectCollapsedView msgs regions)"
proof (cases "regions = []")
  case True
  then show ?thesis by (simp add: ProjectCollapsedView_def suffix_drop)
next
  case False
  let ?k = "length msgs - 10"
  define g where "g i = (case map_of (foldl (\<lambda>m r. mput (cr_StartIdx r) (cr_Summary r) m) [] (sort_key cr_StartIdx regions)) (int i) of
      None \<Rightarrow> [] | Some summary \<Rightarrow> [user_message [text_block summary]])" for i
  define view where "view k ms = concat (map (\<lambda>(i, msg). if collapsed regions i then g i else [msg]) (enumerate k ms))" for k ms
  have "ProjectCollapsedView msgs regions = view 0 msgs"
    using False unfolding ProjectCollapsedView_def view_def g_def by simp
  also have "\<dots> = view 0 (take ?k msgs @ drop ?k msgs)" by simp
  also have "\<dots> = view 0 (take ?k msgs) @ view ?k (drop ?k msgs)"
    unfolding view_def by (subst enumerate_append_eq) simp
  also have "view ?k (drop ?k msgs) = drop ?k msgs"
    unfolding view_def using wf_regions_recent [OF assms] by (intro view_uncollapsed) simp
  finally show ?thesis by (simp add: suffix_def)
qed

text \<open>Folding keeps the regions well formed: not empty, pairwise disjoint and clear of the ten newest messages. It adds
  at most one region, reports whether it did, and the newest messages come out of the collapsed view as they
  went in.\<close>

theorem folding_never_hides_recent_messages:
  assumes "wf_regions (length msgs) regions" "ApplyCollapseIfNeed msgs tokens threshold regions = (folded, regions')"
  shows "wf_regions (length msgs) regions' \<and> length regions' = (if folded then Suc (length regions) else length regions) \<and>
    suffix (drop (length msgs - 10) msgs) (ProjectCollapsedView msgs regions')"
proof -
  have "wf_regions (length msgs) regions' \<and> length regions' = (if folded then Suc (length regions) else length regions)"
  proof (cases "tokens < threshold \<or> findUncollapsedSpan msgs regions 0 defaultKeepRecentMessage = None")
    case True
    with assms show ?thesis by (auto simp: ApplyCollapseIfNeed_def split: if_splits)
  next
    case False
    then obtain s e where se: "findUncollapsedSpan msgs regions 0 defaultKeepRecentMessage = Some (s, e)" by auto
    then have span: "e \<le> length msgs - 10" "s < e" "free_span regions s e" "\<not> length msgs < e"
      by (auto simp: findUncollapsedSpan_def defaultKeepRecentMessage_def defaultKeepRecent_def dest: scan_span_sound)
    with se False assms(2) have "folded" "\<exists>t. regions' = regions @ [\<lparr>cr_StartIdx = int s, cr_EndIdx = int e, cr_Summary = t\<rparr>]"
      by (auto simp: ApplyCollapseIfNeed_def Let_def)
    with span assms(1) wf_regions_add show ?thesis by auto
  qed
  then show ?thesis using view_keeps_recent by blast
qed

section \<open>Retries\<close>

lemma find_index_bound: "find_index P xs = Some i \<Longrightarrow> i < length xs"
  by (induction xs arbitrary: i) (auto split: if_splits option.splits)

lemma TruncateHead_length: "length (TruncateHeadForPtlRetry msgs) \<le> length msgs"
  by (auto simp: TruncateHeadForPtlRetry_def split: option.split dest!: find_index_bound)

text \<open>Automatic compaction asks the model at most four times, each time with the shortened conversation of the time
  before, which never grows; a summary is the model's answer to the last question.\<close>

theorem compaction_retries_are_bounded:
  assumes "ExecuteAutoCompactWithRetry client msgs = (r, tried)"
  shows "length tried \<le> 4 \<and> tried \<noteq> [] \<and> hd tried = msgs \<and>
    successively (\<lambda>a b. b = TruncateHeadForPtlRetry a \<and> length b \<le> length a) tried \<and>
    (\<forall>s. r = Inr s \<longrightarrow> client (last tried) = Inr s)"
proof -
  have "length tried \<le> Suc n \<and> tried \<noteq> [] \<and> hd tried = msgs \<and>
    successively (\<lambda>a b. b = TruncateHeadForPtlRetry a \<and> length b \<le> length a) tried \<and>
    (\<forall>s. r = Inr s \<longrightarrow> client (last tried) = Inr s)" if "retry_compact client n msgs = (r, tried)" for n
    using that
  proof (induction n arbitrary: msgs tried)
    case 0
    then show ?case by (auto simp: retry_compact.simps [of client 0] split: sum.splits if_splits)
  next
    case (Suc n)
    show ?case
    proof (cases "\<exists>err. client msgs = Inl err \<and> isPtlError err")
      case False
      with Suc.prems show ?thesis by (auto simp: retry_compact.simps [of client "Suc n"] split: sum.splits if_splits)
    next
      case True
      then obtain rest where rest: "retry_compact client n (TruncateHeadForPtlRetry msgs) = (r, rest)" "tried = msgs # rest"
        using Suc.prems by (auto simp: retry_compact.simps [of client "Suc n"] split: prod.splits)
      from Suc.IH [OF rest(1)] rest(2) show ?thesis
        by (auto simp: successively_Cons TruncateHead_length)
    qed
  qed
  from this [of 3] assms show ?thesis by (simp add: ExecuteAutoCompactWithRetry_def MaxPtlRetries_def)
qed

section \<open>Samples\<close>

definition long_talk :: "gomap list" where
  "long_talk = concat (replicate 7 [user_message [text_block ''a question of some length''],
     [(''role'', JStr ''assistant''), (''content'', JStr ''an answer of some length'')]])"

theorem folding_never_hides_recent_messages_witness:
  "fst (ApplyCollapseIfNeed long_talk 100000 90000 []) \<and>
   length (snd (ApplyCollapseIfNeed long_talk 100000 90000 [])) = 1 \<and>
   suffix (drop 4 long_talk) (ProjectCollapsedView long_talk (snd (ApplyCollapseIfNeed long_talk 100000 90000 [])))"
proof -
  have f: "fst (ApplyCollapseIfNeed long_talk 100000 90000 [])" and n: "length long_talk = 14" by code_simp+
  have "wf_regions (length long_talk) []" by (simp add: wf_regions_def)
  from folding_never_hides_recent_messages [OF this prod.collapse [symmetric], of 100000 90000] f n show ?thesis by simp
qed

theorem compaction_retries_are_bounded_witness:
  "length (snd (ExecuteAutoCompactWithRetry (\<lambda>_. Inl ''prompt is too long'') long_talk)) \<le> 4 \<and>
   fst (ExecuteAutoCompactWithRetry (\<lambda>_. Inl ''prompt is too long'') long_talk) = Inl PtlExhausted"
proof
  show "length (snd (ExecuteAutoCompactWithRetry (\<lambda>_. Inl ''prompt is too long'') long_talk)) \<le> 4"
    using compaction_retries_are_bounded [OF prod.collapse [symmetric]] by blast
  show "fst (ExecuteAutoCompactWithRetry (\<lambda>_. Inl ''prompt is too long'') long_talk) = Inl PtlExhausted" by code_simp
qed

text \<open>When the conversation starts with two user messages, shortening its head removes nothing, and the retry asks the same
  question again.\<close>

lemma shortened_head_may_be_the_same:
  "let msgs = [user_message [text_block ''summary''], user_message [text_block ''request''],
        [(''role'', JStr ''assistant''), (''content'', JStr ''answer'')], user_message [text_block ''more'']]
   in TruncateHeadForPtlRetry msgs = msgs"
  by code_simp

end
