(* ===== verification/Context_Manager.thy ===== *)
theory Context_Manager
  imports Context_Collapse "HOL-Library.Word"
begin

text \<open>
  \<open>agentContext/cache.go\<close> and the state of \<open>agentContext/manager.go\<close>: the life of cache edits over a request, the
  optimistic commit of a prepared context, and how a snapshot is rendered. Messages are the maps that
  \<open>Message.Map\<close> gives. The preparation of a context, which calls the model, is not part of this theory.
\<close>

section \<open>State\<close>

record CacheState =
  ca_Pending :: "CacheEdit list"
  ca_Pinned :: "CacheEdit list"
  ca_ConsumedInFlight :: "CacheEdit list"

definition empty_cache :: CacheState where
  "empty_cache = \<lparr>ca_Pending = [], ca_Pinned = [], ca_ConsumedInFlight = []\<rparr>"

record Attachment =
  at_ID :: string
  at_Source :: string
  at_Lifetime :: string
  at_Message :: gomap

record ContextRegion =
  rg_MessageIDs :: "string list"
  rg_Summary :: string

record ContextSnapshot =
  cs_Version :: int
  cs_Revision :: "64 word"
  cs_Generation :: "64 word"
  cs_SystemPrompt :: string
  cs_Messages :: "gomap list"
  cs_Attachments :: "Attachment list"
  cs_Regions :: "ContextRegion list"
  cs_ConsecutiveFailures :: int

record ContextManager =
  cm_APIModel :: string
  cm_CacheEditsEnabled :: bool
  cm_state :: ContextSnapshot
  cm_cache :: CacheState

text \<open>What a summary call used; \<open>int\<close> counters of 64 bits.\<close>

record UsageObservation =
  uo_RequestID :: string
  uo_InputTokens :: "64 word"
  uo_OutputTokens :: "64 word"
  uo_CacheReadTokens :: "64 word"
  uo_CacheCreateTokens :: "64 word"

record CompactionResult =
  cp_Usage :: "UsageObservation list"
  cp_BaseRevision :: "64 word"
  cp_Generation :: "64 word"
  cp_Next :: ContextSnapshot
  cp_HistoryReplaced :: bool

datatype context_error = ErrStaleContext | UnsupportedVersion int

definition empty_snapshot :: ContextSnapshot where
  "empty_snapshot = \<lparr>cs_Version = 3, cs_Revision = 0, cs_Generation = 1, cs_SystemPrompt = [], cs_Messages = [],
     cs_Attachments = [], cs_Regions = [], cs_ConsecutiveFailures = 0\<rparr>"

definition NewContextManager :: "string \<Rightarrow> bool \<Rightarrow> ContextManager" where
  "NewContextManager model enabled =
     \<lparr>cm_APIModel = model, cm_CacheEditsEnabled = enabled, cm_state = empty_snapshot, cm_cache = empty_cache\<rparr>"

definition RestoreContext :: "ContextSnapshot \<Rightarrow> ContextManager \<Rightarrow> ContextManager \<times> context_error option" where
  "RestoreContext s m =
     (if cs_Version s \<noteq> 0 \<and> cs_Version s \<noteq> 3 then (m, Some (UnsupportedVersion (cs_Version s)))
      else let s' = s\<lparr>cs_Version := 3, cs_Generation := (if cs_Generation s = 0 then 1 else cs_Generation s)\<rparr>
           in (m\<lparr>cm_cache := (if cs_Generation (cm_state m) \<noteq> cs_Generation s' then empty_cache else cm_cache m), cm_state := s'\<rparr>, None))"

definition CommitCompaction :: "CompactionResult \<Rightarrow> ContextManager \<Rightarrow> ContextManager \<times> context_error option" where
  "CommitCompaction r m =
     (if cs_Revision (cm_state m) \<noteq> cp_BaseRevision r \<or> cs_Generation (cm_state m) \<noteq> cp_Generation r then (m, Some ErrStaleContext)
      else (m\<lparr>cm_cache := (if cp_HistoryReplaced r then empty_cache else cm_cache m),
              cm_state := (cp_Next r)\<lparr>cs_Revision := cs_Revision (cm_state m) + 1\<rparr>\<rparr>, None))"

section \<open>Cache edits\<close>

definition QueueCacheEdits :: "(string \<times> string option) list \<Rightarrow> ContextManager \<Rightarrow> ContextManager" where
  "QueueCacheEdits edits m =
     m\<lparr>cm_cache := (cm_cache m)\<lparr>ca_Pending := ca_Pending (cm_cache m) @
       map (\<lambda>(i, action). \<lparr>ce_ToolUseID = i, ce_Action = (case action of None \<Rightarrow> ''delete'' | Some a \<Rightarrow> if a = [] then ''delete'' else a)\<rparr>)
         (filter (\<lambda>(i, _). i \<noteq> []) edits)\<rparr>\<rparr>"

definition filterVisibleCacheEdits :: "CacheEdit list \<Rightarrow> string list \<Rightarrow> CacheEdit list" where
  "filterVisibleCacheEdits edits ids = filter (\<lambda>e. ce_ToolUseID e \<in> set ids) edits"

definition consumeCacheLocked :: "string list \<Rightarrow> string list \<Rightarrow> ContextManager \<Rightarrow> ContextManager \<times> CacheEdit list" where
  "consumeCacheLocked ids models m =
     (let model = (case models of [] \<Rightarrow> cm_APIModel m | x # _ \<Rightarrow> x); c = cm_cache m;
          pinned = filterVisibleCacheEdits (ca_Pinned c) ids; pending = filterVisibleCacheEdits (ca_Pending c) ids
      in if \<not> HasPrefix (lower_view model) ''claude-'' then (m\<lparr>cm_cache := empty_cache\<rparr>, [])
         else if \<not> cm_CacheEditsEnabled m then (m, [])
         else (m\<lparr>cm_cache := \<lparr>ca_Pending = [], ca_Pinned = pinned, ca_ConsumedInFlight = pending\<rparr>\<rparr>, pinned @ pending))"

definition ConsumeCacheEditsForGeneration :: "string list \<Rightarrow> string \<Rightarrow> 64 word \<Rightarrow> ContextManager \<Rightarrow> ContextManager \<times> CacheEdit list" where
  "ConsumeCacheEditsForGeneration ids model generation m =
     (if generation \<noteq> cs_Generation (cm_state m) then (m, []) else consumeCacheLocked ids [model] m)"

definition stale_generation :: "64 word list \<Rightarrow> ContextManager \<Rightarrow> bool" where
  "stale_generation generations m \<longleftrightarrow> (case generations of [] \<Rightarrow> False | g # _ \<Rightarrow> g \<noteq> cs_Generation (cm_state m))"

fun pin_new :: "CacheEdit list \<Rightarrow> CacheEdit list \<Rightarrow> CacheEdit list" where
  "pin_new pinned [] = pinned"
| "pin_new pinned (e # es) =
     (if ce_ToolUseID e \<in> set (map ce_ToolUseID pinned) then pin_new pinned es else pin_new (pinned @ [e]) es)"

definition pinConsumedCacheEdits :: "64 word list \<Rightarrow> ContextManager \<Rightarrow> ContextManager" where
  "pinConsumedCacheEdits generations m =
     (let c = cm_cache m
      in if stale_generation generations m \<or> ca_ConsumedInFlight c = [] then m
         else m\<lparr>cm_cache := c\<lparr>ca_Pinned := pin_new (ca_Pinned c) (ca_ConsumedInFlight c), ca_ConsumedInFlight := []\<rparr>\<rparr>)"

definition restoreInFlightCacheEdits :: "64 word list \<Rightarrow> ContextManager \<Rightarrow> ContextManager" where
  "restoreInFlightCacheEdits generations m =
     (let c = cm_cache m
      in if stale_generation generations m \<or> ca_ConsumedInFlight c = [] then m
         else m\<lparr>cm_cache := c\<lparr>ca_Pending := ca_ConsumedInFlight c @ ca_Pending c, ca_ConsumedInFlight := []\<rparr>\<rparr>)"

definition ResetCache :: "ContextManager \<Rightarrow> ContextManager" where
  "ResetCache m = m\<lparr>cm_cache := empty_cache\<rparr>"

section \<open>Rendering\<close>

definition context_id :: "gomap \<Rightarrow> string" where
  "context_id msg = stringFromAny (fld msg ''context_id'')"

definition compaction_message :: "string \<Rightarrow> gomap" where
  "compaction_message summary =
     [(''role'', JStr ''user''), (''content'', block_list [text_block summary]), (''metadata'', JObj [(''source'', JStr ''compaction'')])]"

text \<open>The summaries by the first message of their region; a later region overwrites an earlier one.\<close>

definition region_inserts :: "ContextRegion list \<Rightarrow> (string \<times> string) list" where
  "region_inserts regions =
     foldl (\<lambda>m r. case rg_MessageIDs r of [] \<Rightarrow> m | i # _ \<Rightarrow> mput i (rg_Summary r) m) [] regions"

definition projectRegions :: "gomap list \<Rightarrow> ContextRegion list \<Rightarrow> gomap list" where
  "projectRegions msgs regions =
     concat (map (\<lambda>msg.
       (case map_of (region_inserts regions) (context_id msg) of None \<Rightarrow> [] | Some summary \<Rightarrow> [compaction_message summary]) @
       (if context_id msg \<in> set (concat (map rg_MessageIDs regions)) then [] else [msg])) msgs)"

definition hasToolResultBlock :: "gomap \<Rightarrow> bool" where
  "hasToolResultBlock msg = list_ex (is_block ''tool_result'') (blocks_of msg)"

definition is_request :: "gomap \<Rightarrow> bool" where
  "is_request msg \<longleftrightarrow> fld msg ''role'' = JStr ''user'' \<and> \<not> hasToolResultBlock msg"

text \<open>The position of the last user message that carries no tool result, or the end.\<close>

fun last_request :: "gomap list \<Rightarrow> nat" where
  "last_request [] = 0"
| "last_request (m # ms) = (if list_ex is_request ms then Suc (last_request ms) else if is_request m then 0 else Suc (last_request ms))"

definition materialize :: "ContextSnapshot \<Rightarrow> gomap list \<Rightarrow> gomap list" where
  "materialize s history =
     (let msgs = projectRegions history (cs_Regions s); at = last_request msgs
      in take at msgs @ map at_Message (cs_Attachments s) @ drop at msgs)"

definition Render :: "ContextSnapshot \<Rightarrow> gomap list" where
  "Render s = materialize s (cs_Messages s)"

section \<open>Cache edits over a request\<close>

text \<open>The operations that touch the cache, as steps of one manager.\<close>

inductive manager_step :: "ContextManager \<Rightarrow> ContextManager \<Rightarrow> bool" where
  queue: "manager_step m (QueueCacheEdits edits m)"
| consume: "manager_step m (fst (consumeCacheLocked ids models m))"
| consume_for: "manager_step m (fst (ConsumeCacheEditsForGeneration ids model g m))"
| pin: "manager_step m (pinConsumedCacheEdits gs m)"
| restore_edits: "manager_step m (restoreInFlightCacheEdits gs m)"
| reset: "manager_step m (ResetCache m)"
| restore: "manager_step m (fst (RestoreContext s m))"
| commit: "manager_step m (fst (CommitCompaction r m))"

inductive manager_reachable :: "ContextManager \<Rightarrow> bool" where
  start: "manager_reachable (NewContextManager model enabled)"
| step: "manager_reachable m \<Longrightarrow> manager_step m m' \<Longrightarrow> manager_reachable m'"

definition pinned_ids :: "ContextManager \<Rightarrow> string list" where
  "pinned_ids m = map ce_ToolUseID (ca_Pinned (cm_cache m))"

lemma distinct_map_filter_ids: "distinct (map f xs) \<Longrightarrow> distinct (map f (filter P xs))"
  by (induction xs) auto

lemma distinct_pin_new: "distinct (map ce_ToolUseID pinned) \<Longrightarrow> distinct (map ce_ToolUseID (pin_new pinned es))"
  by (induction pinned es rule: pin_new.induct) auto

lemma ids_pin_new: "ce_ToolUseID ` set (pin_new pinned es) = ce_ToolUseID ` set pinned \<union> ce_ToolUseID ` set es"
  by (induction pinned es rule: pin_new.induct) auto

lemma prefix_pin_new: "\<exists>zs. pin_new pinned es = pinned @ zs \<and> set zs \<subseteq> set es"
proof (induction pinned es rule: pin_new.induct)
  case (2 pinned e es)
  show ?case
  proof (cases "ce_ToolUseID e \<in> set (map ce_ToolUseID pinned)")
    case True then show ?thesis using 2 by auto
  next
    case False
    then obtain zs where "pin_new (pinned @ [e]) es = (pinned @ [e]) @ zs" "set zs \<subseteq> set es" using 2 by auto
    then show ?thesis using False by (intro exI[of _ "e # zs"]) auto
  qed
qed simp

lemmas cache_operations = QueueCacheEdits_def filterVisibleCacheEdits_def consumeCacheLocked_def
  ConsumeCacheEditsForGeneration_def pinConsumedCacheEdits_def restoreInFlightCacheEdits_def ResetCache_def
  RestoreContext_def CommitCompaction_def empty_cache_def

lemma step_keeps_pins_distinct:
  assumes "manager_step m m'" "distinct (pinned_ids m)" shows "distinct (pinned_ids m')"
  using assms
  by cases (auto simp: pinned_ids_def cache_operations Let_def distinct_map_filter_ids distinct_pin_new)

text \<open>However requests, resets, restores and commits are interleaved, no tool result is pinned twice: the edits that
  every later request repeats name distinct tool calls.\<close>

theorem pinned_edits_are_distinct:
  assumes "manager_reachable m" shows "distinct (map ce_ToolUseID (ca_Pinned (cm_cache m)))"
  using assms
proof induction
  case (start model enabled)
  then show ?case by (simp add: NewContextManager_def empty_cache_def)
next
  case (step m m')
  then show ?case using step_keeps_pins_distinct by (simp add: pinned_ids_def)
qed

definition sample_manager :: ContextManager where
  "sample_manager = fst (consumeCacheLocked [''t1'', ''t2''] [] (QueueCacheEdits [(''t1'', None), (''t1'', Some ''delete''), (''t2'', None)]
     (NewContextManager ''Claude-Sonnet'' True)))"

theorem pinned_edits_are_distinct_witness:
  "map ce_ToolUseID (ca_Pinned (cm_cache (pinConsumedCacheEdits [] sample_manager))) = [''t1'', ''t2''] \<and>
   distinct (map ce_ToolUseID (ca_Pinned (cm_cache (pinConsumedCacheEdits [] sample_manager))))"
proof
  show "map ce_ToolUseID (ca_Pinned (cm_cache (pinConsumedCacheEdits [] sample_manager))) = [''t1'', ''t2'']" by code_simp
  have "manager_reachable (pinConsumedCacheEdits [] sample_manager)"
    unfolding sample_manager_def
    by (rule manager_reachable.step[OF manager_reachable.step[OF manager_reachable.step[OF manager_reachable.start]]],
        rule manager_step.queue, rule manager_step.consume, rule manager_step.pin)
  then show "distinct (map ce_ToolUseID (ca_Pinned (cm_cache (pinConsumedCacheEdits [] sample_manager))))"
    by (rule pinned_edits_are_distinct)
qed

definition edits_sent :: "string list \<Rightarrow> ContextManager \<Rightarrow> bool" where
  "edits_sent models m \<longleftrightarrow>
     HasPrefix (lower_view (case models of [] \<Rightarrow> cm_APIModel m | x # _ \<Rightarrow> x)) ''claude-'' \<and> cm_CacheEditsEnabled m"

definition current_generation :: "64 word list \<Rightarrow> ContextManager \<Rightarrow> bool" where
  "current_generation gs m \<longleftrightarrow> gs = [] \<or> hd gs = cs_Generation (cm_state m)"

lemma stale_generation_iff: "stale_generation gs m \<longleftrightarrow> \<not> current_generation gs m"
  by (auto simp: stale_generation_def current_generation_def split: list.splits)

lemma consume_sent:
  assumes "edits_sent models m"
  shows "consumeCacheLocked ids models m =
    (m\<lparr>cm_cache := \<lparr>ca_Pending = [], ca_Pinned = filterVisibleCacheEdits (ca_Pinned (cm_cache m)) ids,
                    ca_ConsumedInFlight = filterVisibleCacheEdits (ca_Pending (cm_cache m)) ids\<rparr>\<rparr>,
     filterVisibleCacheEdits (ca_Pinned (cm_cache m)) ids @ filterVisibleCacheEdits (ca_Pending (cm_cache m)) ids)"
  using assms by (auto simp: consumeCacheLocked_def edits_sent_def Let_def)

text \<open>A request that fails loses no edit and reorders none. When a request takes the edits of the visible results and more
  edits are queued while it runs, giving the edits back leaves exactly the visible pending edits, in their order, before
  the edits that were queued meanwhile; when the request succeeds, every edit it carried is pinned afterwards.\<close>

theorem request_settles_its_edits:
  assumes "edits_sent models m" "current_generation gs m"
    and "m1 = QueueCacheEdits new (fst (consumeCacheLocked ids models m))"
  shows "ca_Pending (cm_cache (restoreInFlightCacheEdits gs m1)) =
           filter (\<lambda>e. ce_ToolUseID e \<in> set ids) (ca_Pending (cm_cache m)) @ ca_Pending (cm_cache m1) \<and>
         ce_ToolUseID ` set (ca_Pinned (cm_cache (pinConsumedCacheEdits gs m1))) =
           ce_ToolUseID ` set (snd (consumeCacheLocked ids models m)) \<and>
         ca_Pending (cm_cache (pinConsumedCacheEdits gs m1)) = ca_Pending (cm_cache m1)"
proof -
  have gen: "\<not> stale_generation gs m1"
    using assms consume_sent[OF assms(1)] by (simp add: stale_generation_iff current_generation_def QueueCacheEdits_def)
  have flight: "ca_ConsumedInFlight (cm_cache m1) = filterVisibleCacheEdits (ca_Pending (cm_cache m)) ids"
    and pins: "ca_Pinned (cm_cache m1) = filterVisibleCacheEdits (ca_Pinned (cm_cache m)) ids"
    using assms(3) consume_sent[OF assms(1)] by (simp_all add: QueueCacheEdits_def)
  have "ca_Pending (cm_cache (restoreInFlightCacheEdits gs m1)) =
      filter (\<lambda>e. ce_ToolUseID e \<in> set ids) (ca_Pending (cm_cache m)) @ ca_Pending (cm_cache m1)"
    using gen flight by (auto simp: restoreInFlightCacheEdits_def Let_def filterVisibleCacheEdits_def)
  moreover have "ce_ToolUseID ` set (ca_Pinned (cm_cache (pinConsumedCacheEdits gs m1))) =
      ce_ToolUseID ` set (snd (consumeCacheLocked ids models m))"
    using gen flight pins consume_sent[OF assms(1)]
    by (auto simp: pinConsumedCacheEdits_def Let_def ids_pin_new image_Un)
  moreover have "ca_Pending (cm_cache (pinConsumedCacheEdits gs m1)) = ca_Pending (cm_cache m1)"
    by (simp add: pinConsumedCacheEdits_def Let_def)
  ultimately show ?thesis by blast
qed

definition queued_manager :: ContextManager where
  "queued_manager = QueueCacheEdits [(''t1'', None), (''t9'', None), (''t2'', None)] (NewContextManager ''Claude-Sonnet'' True)"

theorem request_settles_its_edits_witness:
  "map ce_ToolUseID (ca_Pending (cm_cache (restoreInFlightCacheEdits [1]
     (QueueCacheEdits [(''t3'', None)] (fst (consumeCacheLocked [''t1'', ''t2''] [] queued_manager)))))) = [''t1'', ''t2'', ''t3'']"
proof -
  have "edits_sent [] queued_manager" "current_generation [1] queued_manager" by code_simp+
  from request_settles_its_edits[OF this refl, of "[(''t3'', None)]" "[''t1'', ''t2'']"]
  show ?thesis by (simp only:) code_simp
qed

text \<open>Edits in flight are held in one place: a second request that starts before the first is settled drops them.\<close>

lemma second_request_drops_the_first:
  assumes "edits_sent models m"
  shows "ca_ConsumedInFlight (cm_cache (fst (consumeCacheLocked ids' models (fst (consumeCacheLocked ids models m))))) = []"
proof -
  have "edits_sent models (fst (consumeCacheLocked ids models m))"
    using assms consume_sent[OF assms] by (auto simp: edits_sent_def split: list.splits)
  then show ?thesis
    using consume_sent[OF assms] by (simp add: consume_sent filterVisibleCacheEdits_def)
qed

section \<open>Rendered context\<close>

lemma last_request_le: "last_request ms \<le> length ms"
  by (induction ms) auto

lemma after_last_request: "i > last_request ms \<Longrightarrow> i < length ms \<Longrightarrow> \<not> is_request (ms ! i)"
proof (induction ms arbitrary: i)
  case (Cons m ms)
  then obtain j where j: "i = Suc j" by (cases i) auto
  show ?case
  proof (cases "list_ex is_request ms")
    case True then show ?thesis using Cons j by auto
  next
    case False
    then show ?thesis using Cons.prems j by (auto simp: list_ex_iff)
  qed
qed simp

lemma at_last_request: "last_request ms < length ms \<Longrightarrow> is_request (ms ! last_request ms)"
  by (induction ms) (auto simp: list_ex_iff split: if_splits)

text \<open>The rendered request is the folded conversation with the attachments put in as one block, directly before the latest
  message of the user that is not a tool result, and at the end when there is none.\<close>

theorem attachments_precede_the_request:
  "\<exists>pre post. Render s = pre @ map at_Message (cs_Attachments s) @ post \<and>
     pre @ post = projectRegions (cs_Messages s) (cs_Regions s) \<and>
     (if post = [] then \<not> list_ex is_request pre else is_request (hd post) \<and> \<not> list_ex is_request (tl post))"
proof -
  let ?ms = "projectRegions (cs_Messages s) (cs_Regions s)"
  let ?n = "last_request ?ms"
  have "if drop ?n ?ms = [] then \<not> list_ex is_request (take ?n ?ms)
    else is_request (hd (drop ?n ?ms)) \<and> \<not> list_ex is_request (tl (drop ?n ?ms))"
  proof (cases "?n < length ?ms")
    case True
    then have "is_request (hd (drop ?n ?ms))" using at_last_request by (simp add: hd_drop_conv_nth)
    moreover have "\<not> list_ex is_request (tl (drop ?n ?ms))"
      using after_last_request[of ?ms] by (auto simp: list_ex_iff in_set_conv_nth nth_tl)
    ultimately show ?thesis using True by simp
  next
    case False
    then have "?n = length ?ms" using last_request_le[of ?ms] by simp
    moreover have "last_request ms = length ms \<Longrightarrow> \<not> list_ex is_request ms" for ms
      by (induction ms) (auto split: if_splits)
    ultimately show ?thesis by simp
  qed
  then show ?thesis
    by (intro exI[of _ "take ?n ?ms"] exI[of _ "drop ?n ?ms"]) (simp add: Render_def materialize_def Let_def)
qed

end
