(* ===== verification/Agent_Contexts.thy ===== *)
theory Agent_Contexts
  imports Run_State Context_Manager
begin

text \<open>
  How an agent publishes its context (\<open>agent/runtime_state.go\<close>: \<open>NewAgentRuntime\<close>, \<open>Restore\<close>, \<open>Commit\<close>, \<open>CommitContext\<close>, \<open>Reset\<close> and the writers that
  leave the context alone): the runtime keeps the published snapshot, the context manager of \<open>agentContext/manager.go\<close> a copy of its context from
  which requests and compactions are prepared, and the store the checkpoints. Each operation holds the lock of the runtime, so it is one step.
  Of the snapshot its counters, context and usage are kept; identity, progress, permissions, memory and transcript are left out.
\<close>

section \<open>State\<close>

record UsageState =
  us_InputTokens :: "64 word"
  us_OutputTokens :: "64 word"
  us_CacheReadTokens :: "64 word"
  us_CacheCreateTokens :: "64 word"
  us_Requests :: "string list"

definition no_usage :: UsageState where
  "no_usage = \<lparr>us_InputTokens = 0, us_OutputTokens = 0, us_CacheReadTokens = 0, us_CacheCreateTokens = 0, us_Requests = []\<rparr>"

text \<open>The generation of the snapshot is that of the runtime of \<open>Run_State\<close>. \<open>ag_log\<close> are the checkpoints in the store, by generation and context.\<close>

record agent =
  ag_rt :: AgentRuntime
  ag_Revision :: "64 word"
  ag_Usage :: UsageState
  ag_Context :: ContextSnapshot
  ag_manager :: ContextManager
  ag_store :: bool
  ag_log :: "(64 word \<times> ContextSnapshot) list"

datatype publish_error = RunFailure run_error | ContextFailure context_error

abbreviation generation_of :: "agent \<Rightarrow> 64 word" where
  "generation_of p \<equiv> rt_generation (ag_rt p)"

section \<open>Operations\<close>

definition new_agent :: "string \<Rightarrow> bool \<Rightarrow> 64 word \<Rightarrow> UsageState \<Rightarrow> ContextSnapshot \<Rightarrow> agent" where
  "new_agent model enabled revision usage c =
     \<lparr>ag_rt = NewAgentRuntime (cs_Generation c), ag_Revision = revision, ag_Usage = usage, ag_Context = c,
      ag_manager = fst (RestoreContext c (NewContextManager model enabled)), ag_store = False, ag_log = []\<rparr>"

text \<open>A checkpoint of a snapshot: refused when the session has ended, skipped without a store; \<open>stored\<close> is the answer of the store.\<close>

definition persistLocked :: "run_error option \<Rightarrow> 64 word \<Rightarrow> ContextSnapshot \<Rightarrow> agent \<Rightarrow> agent \<times> publish_error option" where
  "persistLocked stored g c p =
     (if ctx_error (ag_rt p) (rt_sessionContext (ag_rt p)) \<noteq> None then (p, Some (RunFailure ErrStaleState))
      else if \<not> ag_store p then (p, None)
      else case stored of Some e \<Rightarrow> (p, Some (RunFailure e)) | None \<Rightarrow> (p\<lparr>ag_log := ag_log p @ [(g, c)]\<rparr>, None))"

definition RestoreAgent :: "int \<Rightarrow> 64 word \<Rightarrow> 64 word \<Rightarrow> UsageState \<Rightarrow> ContextSnapshot \<Rightarrow> agent \<Rightarrow> agent \<times> publish_error option" where
  "RestoreAgent version generation revision usage c p =
     (case Restore version generation (ag_rt p) of
        (rt, Some e) \<Rightarrow> (p, Some (RunFailure e))
      | (rt, None) \<Rightarrow>
          (let c' = c\<lparr>cs_Generation := rt_generation rt\<rparr>
           in case RestoreContext c' (ag_manager p) of
                (m, e) \<Rightarrow> (p\<lparr>ag_rt := rt, ag_Revision := revision, ag_Usage := usage, ag_Context := c', ag_manager := m\<rparr>, map_option ContextFailure e)))"

text \<open>\<open>c\<close> and \<open>usage\<close> are what the draft of the run holds.\<close>

definition Commit :: "RunToken \<Rightarrow> run_error option \<Rightarrow> UsageState \<Rightarrow> ContextSnapshot \<Rightarrow> agent \<Rightarrow> agent \<times> publish_error option" where
  "Commit t stored usage c p =
     (if \<not> runActiveLocked t (ag_rt p) then (p, Some (RunFailure ErrStaleState))
      else let nxt = c\<lparr>cs_Generation := generation_of p, cs_Revision := cs_Revision (ag_Context p) + 1\<rparr>
           in case persistLocked stored (generation_of p) nxt p of
                (p1, Some e) \<Rightarrow> (p1, Some e)
              | (p1, None) \<Rightarrow>
                  (case RestoreContext nxt (ag_manager p1) of
                     (m, e) \<Rightarrow> (p1\<lparr>ag_Revision := ag_Revision p + 1, ag_Usage := usage, ag_Context := nxt, ag_manager := m\<rparr>, map_option ContextFailure e)))"

definition count_usage :: "UsageState \<Rightarrow> UsageObservation \<Rightarrow> UsageState" where
  "count_usage u o' =
     (if uo_RequestID o' = [] \<or> uo_RequestID o' \<in> set (us_Requests u) then u
      else \<lparr>us_InputTokens = us_InputTokens u + uo_InputTokens o', us_OutputTokens = us_OutputTokens u + uo_OutputTokens o',
            us_CacheReadTokens = us_CacheReadTokens u + uo_CacheReadTokens o', us_CacheCreateTokens = us_CacheCreateTokens u + uo_CacheCreateTokens o',
            us_Requests = us_Requests u @ [uo_RequestID o']\<rparr>)"

text \<open>The replacements of the run are dropped before the store is asked.\<close>

definition CommitContext :: "RunToken \<Rightarrow> run_error option \<Rightarrow> CompactionResult \<Rightarrow> agent \<Rightarrow> agent \<times> publish_error option" where
  "CommitContext t stored res p =
     (if \<not> runActiveLocked t (ag_rt p) \<or> cp_Generation res \<noteq> generation_of p \<or> cp_BaseRevision res \<noteq> cs_Revision (ag_Context p)
      then (p, Some (ContextFailure ErrStaleContext))
      else let nxt = (cp_Next res)\<lparr>cs_Revision := cp_BaseRevision res + 1\<rparr>;
               p1 = (if cp_HistoryReplaced res then p\<lparr>ag_rt := upd_run (\<lambda>run. run\<lparr>run_Replacements := []\<rparr>) (ag_rt p)\<rparr> else p)
           in case persistLocked stored (generation_of p) nxt p1 of
                (p2, Some e) \<Rightarrow> (p2, Some e)
              | (p2, None) \<Rightarrow>
                  (case CommitCompaction (res\<lparr>cp_Next := nxt\<rparr>) (ag_manager p2) of
                     (m, Some e) \<Rightarrow> (p2, Some (ContextFailure e))
                   | (m, None) \<Rightarrow>
                       (p2\<lparr>ag_Revision := ag_Revision p + 1, ag_Usage := foldl count_usage (ag_Usage p) (cp_Usage res), ag_Context := nxt, ag_manager := m\<rparr>, None)))"

text \<open>Recording the budget of a compiled request commits the published context again.\<close>

definition RecordCompiled :: "RunToken \<Rightarrow> run_error option \<Rightarrow> agent \<Rightarrow> agent \<times> publish_error option" where
  "RecordCompiled t stored p =
     CommitContext t stored \<lparr>cp_Usage = [], cp_BaseRevision = cs_Revision (ag_Context p), cp_Generation = cs_Generation (ag_Context p),
       cp_Next = ag_Context p, cp_HistoryReplaced = False\<rparr> p"

definition Reset :: "run_error option \<Rightarrow> agent \<Rightarrow> agent \<times> publish_error option" where
  "Reset stored p =
     (let p1 = p\<lparr>ag_rt := Abort (ag_rt p)\<rparr>; g = generation_of p1 + 1; fresh = empty_snapshot\<lparr>cs_Generation := g\<rparr>
      in case persistLocked stored g fresh p1 of
           (p2, Some e) \<Rightarrow> (p2, Some e)
         | (p2, None) \<Rightarrow>
             (case RestoreContext fresh (ag_manager p2) of
                (m, e) \<Rightarrow> (p2\<lparr>ag_rt := fst (reset_locked None (ag_rt p2)), ag_Revision := 0, ag_Usage := no_usage, ag_Context := fresh, ag_manager := m\<rparr>,
                           map_option ContextFailure e)))"

text \<open>\<open>SetYolo\<close> and \<open>AdvanceMemory\<close>: a new revision of the snapshot with the same context.\<close>

definition publish_same_context :: "run_error option \<Rightarrow> agent \<Rightarrow> agent \<times> publish_error option" where
  "publish_same_context stored p =
     (case persistLocked stored (generation_of p) (ag_Context p) p of
        (p1, Some e) \<Rightarrow> (p1, Some e)
      | (p1, None) \<Rightarrow> (p1\<lparr>ag_Revision := ag_Revision p + 1\<rparr>, None))"

section \<open>The life of an agent\<close>

text \<open>What is committed was prepared from one snapshot: \<open>prepare\<close> and \<open>RecordCompiled\<close> start from a copy of it and keep its generation.\<close>

definition prepared :: "CompactionResult \<Rightarrow> bool" where
  "prepared res \<longleftrightarrow> cs_Generation (cp_Next res) = cp_Generation res"

definition supported :: "ContextSnapshot \<Rightarrow> bool" where
  "supported c \<longleftrightarrow> cs_Version c = 0 \<or> cs_Version c = 3"

definition counters_left :: "agent \<Rightarrow> bool" where
  "counters_left p \<longleftrightarrow> generation_of p \<noteq> - 1 \<and> cs_Revision (ag_Context p) \<noteq> - 1"

text \<open>Everything that is not the commit of a prepared context. The versions of the contexts that are taken over are supported when \<open>strict\<close> is set;
  an agent may also be given any.\<close>

inductive agent_step :: "bool \<Rightarrow> agent \<Rightarrow> agent \<Rightarrow> bool" for strict where
  draft: "(strict \<longrightarrow> supported c) \<Longrightarrow> agent_step strict p (fst (Commit t stored usage c p))"
| was_reset: "agent_step strict p (fst (Reset stored p))"
| restored: "(strict \<longrightarrow> supported c) \<Longrightarrow> agent_step strict p (fst (RestoreAgent version g revision usage c p))"
| same_context: "agent_step strict p (fst (publish_same_context stored p))"
| ran: "run_step (ag_rt p) rt \<Longrightarrow> rt_generation rt = generation_of p \<Longrightarrow> agent_step strict p (p\<lparr>ag_rt := rt\<rparr>)"
| cached: "manager_step (ag_manager p) m \<Longrightarrow> cm_state m = cm_state (ag_manager p) \<Longrightarrow> agent_step strict p (p\<lparr>ag_manager := m\<rparr>)"
| bound: "agent_step strict p (p\<lparr>ag_store := b, ag_log := l\<rparr>)"

text \<open>Histories, with the generation and the base revision of the results that were committed, as long as no counter has come to its end.\<close>

inductive agent_history :: "bool \<Rightarrow> agent \<Rightarrow> (64 word \<times> 64 word) list \<Rightarrow> agent \<Rightarrow> bool" for strict where
  begin_history: "agent_history strict p [] p"
| committed: "agent_history strict p bases q \<Longrightarrow> counters_left q \<Longrightarrow> prepared res \<Longrightarrow> CommitContext t stored res q = (q', None) \<Longrightarrow>
    agent_history strict p (bases @ [(cp_Generation res, cp_BaseRevision res)]) q'"
| refused: "agent_history strict p bases q \<Longrightarrow> counters_left q \<Longrightarrow> prepared res \<Longrightarrow> CommitContext t stored res q = (q', Some e) \<Longrightarrow>
    agent_history strict p bases q'"
| other: "agent_history strict p bases q \<Longrightarrow> counters_left q \<Longrightarrow> agent_step strict q q' \<Longrightarrow> agent_history strict p bases q'"

section \<open>Positions\<close>

text \<open>The generation and revision of the published context, in the order of their lexicographic succession.\<close>

definition context_position :: "agent \<Rightarrow> 64 word \<times> 64 word" where
  "context_position p = (generation_of p, cs_Revision (ag_Context p))"

fun earlier :: "64 word \<times> 64 word \<Rightarrow> 64 word \<times> 64 word \<Rightarrow> bool" where
  "earlier (g, b) (g', b') \<longleftrightarrow> g < g' \<or> g = g' \<and> b < b'"

lemma earlier_trans: "earlier x y \<Longrightarrow> earlier y z \<Longrightarrow> earlier x z"
  by (cases x; cases y; cases z) auto

lemma next_greater: "(w :: 64 word) \<noteq> - 1 \<Longrightarrow> w < w + 1"
  using inc_less_eq_self_iff_eq[of w] by (simp add: not_le[symmetric])

lemma persist_same:
  assumes "persistLocked stored g c p = (p', e)"
  shows "ag_rt p' = ag_rt p \<and> ag_Context p' = ag_Context p \<and> ag_manager p' = ag_manager p \<and> ag_Revision p' = ag_Revision p \<and> ag_Usage p' = ag_Usage p"
  using assms by (auto simp: persistLocked_def split: if_splits option.splits)

lemma persist_fst [simp]:
  "ag_rt (fst (persistLocked stored g c p)) = ag_rt p" "ag_Context (fst (persistLocked stored g c p)) = ag_Context p"
  "ag_manager (fst (persistLocked stored g c p)) = ag_manager p"
  using persist_same[of stored g c p "fst (persistLocked stored g c p)" "snd (persistLocked stored g c p)"] by simp_all

lemma Abort_generation [simp]: "rt_generation (Abort r) = rt_generation r"
  by (auto simp: Abort_def cancelRun_def cancelRunLocked_def cancelWaitersLocked_def Let_def case_prod_beta)

lemma reset_generation:
  "persistLocked stored g c p = (p', None) \<Longrightarrow> rt_generation (fst (reset_locked None (ag_rt p'))) = generation_of p + 1"
  by (auto simp: persistLocked_def reset_locked_def split: if_splits option.splits)

lemma commit_position:
  assumes "CommitContext t stored res p = (p', None)" "counters_left p"
  shows "context_position p = (cp_Generation res, cp_BaseRevision res)" "earlier (context_position p) (context_position p')"
  using assms next_greater[of "cs_Revision (ag_Context p)"]
  by (auto simp: CommitContext_def Let_def context_position_def counters_left_def dest!: persist_same split: if_splits prod.splits option.splits)

lemma refused_same:
  assumes "CommitContext t stored res p = (p', Some e)"
  shows "context_position p' = context_position p"
  using assms by (auto simp: CommitContext_def Let_def context_position_def dest!: persist_same split: if_splits prod.splits option.splits)

lemma agent_step_position:
  assumes "agent_step strict p p'" "counters_left p"
  shows "context_position p' = context_position p \<or> earlier (context_position p) (context_position p')"
  using assms(1)
proof cases
  case (draft c t stored usage)
  then show ?thesis using assms(2) next_greater[of "cs_Revision (ag_Context p)"]
    by (auto simp: Commit_def Let_def context_position_def counters_left_def dest!: persist_same split: prod.splits option.splits if_splits)
next
  case (was_reset stored)
  then show ?thesis using assms(2) next_greater[of "generation_of p"] reset_generation
    by (auto simp: Reset_def Let_def context_position_def counters_left_def dest: persist_same split: prod.splits option.splits)
next
  case (restored c version g revision usage)
  have "Restore version g (ag_rt p) = (rt, None) \<Longrightarrow> generation_of p < rt_generation rt" for rt
    using assms(2) next_greater[of "generation_of p"]
    by (auto simp: Restore_def Let_def counters_left_def less_max_iff_disj split: if_splits)
  then show ?thesis using restored
    by (auto simp: RestoreAgent_def Let_def context_position_def split: prod.splits option.splits)
next
  case (same_context stored)
  then show ?thesis by (auto simp: publish_same_context_def context_position_def dest!: persist_same split: prod.splits option.splits)
qed (simp_all add: context_position_def)

lemma history_positions:
  assumes "agent_history strict p bases q"
  shows "sorted_wrt earlier bases \<and> (\<forall>b \<in> set bases. earlier b (context_position q))"
  using assms
proof induction
  case (committed p bases q res t stored q')
  note c = commit_position[OF committed.hyps(4,2)]
  have "\<forall>b \<in> set bases. earlier b (cp_Generation res, cp_BaseRevision res) \<and> earlier b (context_position q')"
    using committed.IH c earlier_trans by metis
  then show ?case using committed.IH c by (simp add: sorted_wrt_append)
next
  case (refused p bases q res t stored q' e)
  then show ?case using refused_same by metis
next
  case (other p bases q q')
  then show ?case using agent_step_position earlier_trans by metis
qed simp

section \<open>The manager follows the runtime\<close>

definition in_step :: "agent \<Rightarrow> bool" where
  "in_step p \<longleftrightarrow> cs_Revision (cm_state (ag_manager p)) = cs_Revision (ag_Context p) \<and> cs_Generation (cm_state (ag_manager p)) = generation_of p \<and>
     cs_Generation (ag_Context p) = generation_of p \<and> generation_of p \<noteq> 0"

lemma RestoreContext_follows:
  assumes "supported c" "cs_Generation c \<noteq> 0"
  shows "cs_Revision (cm_state (fst (RestoreContext c m))) = cs_Revision c" "cs_Generation (cm_state (fst (RestoreContext c m))) = cs_Generation c"
    "snd (RestoreContext c m) = None"
  using assms by (auto simp: RestoreContext_def supported_def Let_def)

lemma new_agent_in_step: "supported c \<Longrightarrow> cs_Generation c \<noteq> 0 \<Longrightarrow> in_step (new_agent model enabled revision usage c)"
  by (simp add: in_step_def new_agent_def RestoreContext_follows NewAgentRuntime_def)

lemma next_nonzero: "(w :: 64 word) \<noteq> - 1 \<Longrightarrow> w + 1 \<noteq> 0"
  using max_word_wrap by blast

lemma agent_step_in_step:
  assumes "agent_step True p p'" "counters_left p" "in_step p"
  shows "in_step p'"
  using assms(1)
proof cases
  case (draft c t stored usage)
  have "supported (c\<lparr>cs_Generation := generation_of p, cs_Revision := cs_Revision (ag_Context p) + 1\<rparr>)" using draft(2) by (simp add: supported_def)
  note f = RestoreContext_follows[OF this]
  show ?thesis using draft(1) assms(3) f
    by (auto simp: Commit_def Let_def in_step_def case_prod_beta split: option.splits if_splits)
next
  case (was_reset stored)
  let ?g = "generation_of p + 1"
  have g: "?g \<noteq> 0" using assms(2) next_nonzero by (simp add: counters_left_def)
  then have f: "cs_Revision (cm_state (fst (RestoreContext (empty_snapshot\<lparr>cs_Generation := ?g\<rparr>) m))) = 0"
    "cs_Generation (cm_state (fst (RestoreContext (empty_snapshot\<lparr>cs_Generation := ?g\<rparr>) m))) = ?g" for m
    using RestoreContext_follows[of "empty_snapshot\<lparr>cs_Generation := ?g\<rparr>" m] by (simp_all add: supported_def empty_snapshot_def)
  show ?thesis
  proof (cases "snd (persistLocked stored ?g (empty_snapshot\<lparr>cs_Generation := ?g\<rparr>) (p\<lparr>ag_rt := Abort (ag_rt p)\<rparr>))")
    case None
    then have "rt_generation (fst (reset_locked None (Abort (ag_rt p)))) = ?g"
      using reset_generation[of stored ?g "empty_snapshot\<lparr>cs_Generation := ?g\<rparr>" "p\<lparr>ag_rt := Abort (ag_rt p)\<rparr>"] by (simp add: prod_eq_iff)
    then show ?thesis using was_reset None f g by (simp add: Reset_def Let_def in_step_def case_prod_beta) (simp add: empty_snapshot_def)
  next
    case (Some e)
    then show ?thesis using was_reset assms(3) by (simp add: Reset_def Let_def in_step_def case_prod_beta)
  qed
next
  case (restored c version g revision usage)
  have "generation_of p + 1 \<noteq> 0" using assms(2) next_nonzero by (simp add: counters_left_def)
  then have nz: "Restore version g (ag_rt p) = (rt, None) \<Longrightarrow> rt_generation rt \<noteq> 0" for rt
    by (auto simp: Restore_def Let_def max_def split: if_splits)
  have "supported (c\<lparr>cs_Generation := x\<rparr>)" for x using restored(2) by (simp add: supported_def)
  note f = RestoreContext_follows[OF this]
  show ?thesis using restored(1) assms(3) f nz
    by (auto simp: RestoreAgent_def Let_def in_step_def split: prod.splits option.splits)
       (metis fst_conv)+
next
  case (same_context stored)
  then show ?thesis using assms(3) by (auto simp: publish_same_context_def in_step_def dest!: persist_same split: prod.splits option.splits)
qed (use assms(3) in \<open>auto simp: in_step_def\<close>)

text \<open>A commit in step: after the guard only the session and the store can refuse it, and the manager takes it over.\<close>

lemma CommitContext_in_step:
  assumes "in_step p" "prepared res" "CommitContext t stored res p = (p', e)"
  shows "in_step p' \<and>
    (e = None \<longrightarrow> ag_Context p' = (cp_Next res)\<lparr>cs_Revision := cp_BaseRevision res + 1\<rparr> \<and> cm_state (ag_manager p') = ag_Context p' \<and>
       ag_log p' = ag_log p @ (if ag_store p then [(generation_of p', ag_Context p')] else [])) \<and>
    (e \<noteq> None \<longrightarrow> ag_log p' = ag_log p \<and> ag_Context p' = ag_Context p \<and> ag_manager p' = ag_manager p \<and> ag_Revision p' = ag_Revision p \<and> ag_Usage p' = ag_Usage p)"
proof (cases "\<not> runActiveLocked t (ag_rt p) \<or> cp_Generation res \<noteq> generation_of p \<or> cp_BaseRevision res \<noteq> cs_Revision (ag_Context p)")
  case True
  then show ?thesis using assms by (auto simp: CommitContext_def)
next
  case False
  let ?nxt = "(cp_Next res)\<lparr>cs_Revision := cp_BaseRevision res + 1\<rparr>"
  let ?p1 = "if cp_HistoryReplaced res then p\<lparr>ag_rt := upd_run (\<lambda>run. run\<lparr>run_Replacements := []\<rparr>) (ag_rt p)\<rparr> else p"
  obtain p2 e2 where p2: "persistLocked stored (generation_of p) ?nxt ?p1 = (p2, e2)" by fastforce
  note same = persist_same[OF p2]
  have log: "e2 = None \<Longrightarrow> ag_log p2 = ag_log p @ (if ag_store p then [(generation_of p, ?nxt)] else [])" "e2 \<noteq> None \<Longrightarrow> ag_log p2 = ag_log p"
    using p2 by (auto simp: persistLocked_def split: if_splits option.splits)
  have mgr: "ag_manager p2 = ag_manager p" using same by (simp split: if_splits)
  have commit: "CommitCompaction (res\<lparr>cp_Next := ?nxt\<rparr>) (ag_manager p) =
      ((ag_manager p)\<lparr>cm_cache := (if cp_HistoryReplaced res then empty_cache else cm_cache (ag_manager p)), cm_state := ?nxt\<rparr>, None)"
    using False assms(1) by (simp add: CommitCompaction_def in_step_def)
  have r: "CommitContext t stored res p = (case e2 of Some e \<Rightarrow> (p2, Some e)
      | None \<Rightarrow> (p2\<lparr>ag_Revision := ag_Revision p + 1, ag_Usage := foldl count_usage (ag_Usage p) (cp_Usage res), ag_Context := ?nxt,
          ag_manager := (ag_manager p)\<lparr>cm_cache := (if cp_HistoryReplaced res then empty_cache else cm_cache (ag_manager p)), cm_state := ?nxt\<rparr>\<rparr>, None))"
    unfolding CommitContext_def Let_def if_not_P[OF False] p2 by (simp add: mgr commit split: option.splits)
  then show ?thesis using assms False same log by (cases e2) (auto simp: in_step_def prepared_def split: if_splits)
qed

lemma history_in_step:
  assumes "agent_history True p bases q" "in_step p"
  shows "in_step q"
  using assms
proof induction
  case (committed p bases q res t stored q')
  then show ?case using CommitContext_in_step by blast
next
  case (refused p bases q res t stored q' e)
  then show ?case using CommitContext_in_step by blast
qed (use agent_step_in_step in auto)

section \<open>Properties\<close>

text \<open>C39: Publishing a prepared context is guarded by the snapshot it was prepared from. Over the whole life of an agent, whatever drafts are committed
  and whenever it is reset or restored in between, the contexts that are committed were prepared from strictly increasing generations and, within
  a generation, strictly increasing revisions: of the results prepared from the same published context at most one is committed. This holds as
  long as no 64-bit counter has come to its end.\<close>

theorem at_most_one_commit_per_revision:
  assumes "agent_history strict p bases q"
  shows "sorted_wrt earlier bases \<and> distinct bases"
proof -
  have "sorted_wrt earlier bases" using history_positions[OF assms] by blast
  moreover from this have "distinct bases"
    by (induction bases) auto
  ultimately show ?thesis by blast
qed

text \<open>C40: A prepared context is committed entirely or not at all. When an agent that took over only contexts of a supported version commits one, then
  either its checkpoint is stored, it becomes the published context and the manager continues from it, or the call fails and store, published
  context, manager, revision and usage are as before: no checkpoint is written of a context that the manager then refuses.\<close>

theorem context_commit_is_all_or_nothing:
  assumes "agent_history True (new_agent model enabled revision usage c) bases p" "supported c" "cs_Generation c \<noteq> 0"
    and "prepared res" "CommitContext t stored res p = (p', e)"
  shows "(e = None \<longrightarrow> ag_Context p' = (cp_Next res)\<lparr>cs_Revision := cp_BaseRevision res + 1\<rparr> \<and> cm_state (ag_manager p') = ag_Context p' \<and>
      ag_log p' = ag_log p @ (if ag_store p then [(generation_of p', ag_Context p')] else [])) \<and>
    (e \<noteq> None \<longrightarrow> ag_log p' = ag_log p \<and> ag_Context p' = ag_Context p \<and> ag_manager p' = ag_manager p \<and> ag_Revision p' = ag_Revision p \<and> ag_Usage p' = ag_Usage p)"
  using CommitContext_in_step[OF history_in_step[OF assms(1) new_agent_in_step[OF assms(2,3)]] assms(4,5)] by blast

section \<open>Witnesses\<close>

definition prepared_result :: "64 word \<Rightarrow> CompactionResult" where
  "prepared_result g = \<lparr>cp_Usage = [], cp_BaseRevision = 0, cp_Generation = g, cp_Next = empty_snapshot\<lparr>cs_Generation := g, cs_SystemPrompt := ''p''\<rparr>,
     cp_HistoryReplaced = True\<rparr>"

definition begin_agent :: "agent \<Rightarrow> agent" where
  "begin_agent p = p\<lparr>ag_rt := fst (beginRunLocked ''u'' 0 9 ''r'' [] (ag_rt p))\<rparr>"

definition stored_agent :: agent where
  "stored_agent = (new_agent ''m'' True 0 no_usage empty_snapshot)\<lparr>ag_store := True, ag_log := []\<rparr>"

definition first_commit :: "agent \<times> publish_error option" where
  "first_commit = CommitContext \<lparr>tok_Generation = 1, tok_ID = ''r''\<rparr> None (prepared_result 1) (begin_agent stored_agent)"

definition second_commit :: "agent \<times> publish_error option" where
  "second_commit = CommitContext \<lparr>tok_Generation = 2, tok_ID = ''r''\<rparr> None (prepared_result 2) (begin_agent (fst (Reset None (fst first_commit))))"

lemma begin_agent_step: "agent_step strict p (begin_agent p)"
proof -
  have "run_step (ag_rt p) (fst (beginRunLocked ''u'' 0 9 ''r'' [] (ag_rt p)))" by (rule run_step.begun) simp
  moreover have "rt_generation (fst (beginRunLocked ''u'' 0 9 ''r'' [] (ag_rt p))) = generation_of p"
    by (auto simp: beginRunLocked_def Let_def split: option.splits)
  ultimately show ?thesis unfolding begin_agent_def by (rule agent_step.ran)
qed

lemma stored_agent_history: "agent_history True (new_agent ''m'' True 0 no_usage empty_snapshot) [] (begin_agent stored_agent)"
proof -
  have "agent_history True (new_agent ''m'' True 0 no_usage empty_snapshot) [] stored_agent" unfolding stored_agent_def
    by (rule agent_history.other[OF agent_history.begin_history], code_simp, rule agent_step.bound)
  then show ?thesis by (rule agent_history.other) (code_simp, rule begin_agent_step)
qed

lemma two_commits_history:
  "agent_history True (new_agent ''m'' True 0 no_usage empty_snapshot) [(1, 0), (2, 0)] (fst second_commit)"
proof -
  have "snd first_commit = None" "snd second_commit = None" by code_simp+
  then have c1: "CommitContext \<lparr>tok_Generation = 1, tok_ID = ''r''\<rparr> None (prepared_result 1) (begin_agent stored_agent) = (fst first_commit, None)"
    and c2: "CommitContext \<lparr>tok_Generation = 2, tok_ID = ''r''\<rparr> None (prepared_result 2) (begin_agent (fst (Reset None (fst first_commit)))) = (fst second_commit, None)"
    by (simp_all add: first_commit_def second_commit_def prod_eq_iff)
  have "agent_history True (new_agent ''m'' True 0 no_usage empty_snapshot) ([] @ [(cp_Generation (prepared_result 1), cp_BaseRevision (prepared_result 1))]) (fst first_commit)"
    by (rule agent_history.committed[OF stored_agent_history]) (code_simp, code_simp, rule c1)
  then have "agent_history True (new_agent ''m'' True 0 no_usage empty_snapshot) [(1, 0)] (fst first_commit)" by (simp add: prepared_result_def)
  then have "agent_history True (new_agent ''m'' True 0 no_usage empty_snapshot) [(1, 0)] (fst (Reset None (fst first_commit)))"
    by (rule agent_history.other) (code_simp, rule agent_step.was_reset)
  then have "agent_history True (new_agent ''m'' True 0 no_usage empty_snapshot) [(1, 0)] (begin_agent (fst (Reset None (fst first_commit))))"
    by (rule agent_history.other) (code_simp, rule begin_agent_step)
  then have "agent_history True (new_agent ''m'' True 0 no_usage empty_snapshot) ([(1, 0)] @ [(cp_Generation (prepared_result 2), cp_BaseRevision (prepared_result 2))]) (fst second_commit)"
    by (rule agent_history.committed) (code_simp, code_simp, rule c2)
  then show ?thesis by (simp add: prepared_result_def)
qed

theorem at_most_one_commit_per_revision_witness:
  "\<exists>q. agent_history True (new_agent ''m'' True 0 no_usage empty_snapshot) [(1, 0), (2, 0)] q \<and>
     sorted_wrt earlier [(1, 0), (2, 0)] \<and> distinct [(1 :: 64 word, 0 :: 64 word), (2, 0)]"
  using at_most_one_commit_per_revision[OF two_commits_history] two_commits_history by blast

theorem context_commit_is_all_or_nothing_witness:
  "length (ag_log (fst first_commit)) = 1 \<and> cm_state (ag_manager (fst first_commit)) = ag_Context (fst first_commit)"
proof -
  have e: "CommitContext \<lparr>tok_Generation = 1, tok_ID = ''r''\<rparr> None (prepared_result 1) (begin_agent stored_agent) = (fst first_commit, snd first_commit)"
    by (simp add: first_commit_def)
  have "supported empty_snapshot" "cs_Generation empty_snapshot \<noteq> 0" "prepared (prepared_result 1)" "snd first_commit = None"
    "ag_log (begin_agent stored_agent) = []" "ag_store (begin_agent stored_agent)" by code_simp+
  then show ?thesis using context_commit_is_all_or_nothing[OF stored_agent_history _ _ _ e] by simp
qed

text \<open>
  Where the two come apart: \<open>Restore\<close> replaces the published snapshot before the manager looks at the version of its context. After a context of
  another version the call fails, the snapshot is replaced all the same, and the next commit writes a checkpoint that the manager refuses.
\<close>

lemma unsupported_context_is_half_restored:
  "let (p, e) = RestoreAgent 3 0 0 no_usage (empty_snapshot\<lparr>cs_Version := 2, cs_Revision := 7\<rparr>) stored_agent;
       (p', e') = RecordCompiled \<lparr>tok_Generation = 2, tok_ID = ''r''\<rparr> None (begin_agent p)
   in e = Some (ContextFailure (UnsupportedVersion 2)) \<and> cs_Revision (ag_Context p) = 7 \<and> cs_Revision (cm_state (ag_manager p)) = 0 \<and>
      e' = Some (ContextFailure ErrStaleContext) \<and> length (ag_log p') = 1"
  by code_simp

end
