(* ===== verification/Session_Postgres.thy ===== *)
theory Session_Postgres
  imports Runtime_Journal
begin

text \<open>
  \<open>session/postgres_repository.go\<close> and the import of \<open>session/cluster_migration.go\<close>: the session repository of a cluster. The tables are lists in row order with the keys of the
  schema; every transaction locks the row of its session (\<open>FOR UPDATE\<close>) and is one step, which either takes effect as a whole or
  leaves the tables unchanged. The constraints of the schema are modelled, failures of the connection are not. The clock and
  the generators of identifiers and digests are arguments; JSON values and instants read back as they were written. The serial
  numbers of the outbox only order its rows.
\<close>

section \<open>Tables\<close>

type_synonym skey = "string \<times> string \<times> string"

record session_row =
  sn_cwd :: string
  sn_created :: int
  sn_updated :: int
  sn_messages :: int
  sn_turns :: int
  sn_pinned :: bool
  sn_status :: string
  sn_last :: seqno
  sn_fence :: int

record outbox_row =
  ob_id :: int
  ob_key :: skey
  ob_seq :: seqno
  ob_event :: Event
  ob_published :: "int option"
  ob_claimed :: "string option"
  ob_until :: "int option"

text \<open>A row of the table of imported sessions.\<close>

record import_row =
  im_migration :: string
  im_status :: string
  im_count :: int
  im_checksum :: string

record pg_db =
  db_sessions :: "(skey \<times> session_row) list"
  db_streams :: "((skey \<times> string) \<times> stream_row) list"
  db_events :: "(skey \<times> Event) list"
  db_checkpoints :: "((skey \<times> string \<times> string) \<times> Checkpoint) list"
  db_commands :: "((skey \<times> string) \<times> CommandResult) list"
  db_offsets :: "((skey \<times> string) \<times> seqno) list"
  db_blobs :: "((string \<times> string \<times> string) \<times> string \<times> string) list"
  db_imports :: "(skey \<times> import_row) list"
  db_outbox :: "outbox_row list"
  db_serial :: int

definition empty_db :: pg_db where
  "empty_db = \<lparr>db_sessions = [], db_streams = [], db_events = [], db_checkpoints = [], db_commands = [], db_offsets = [], db_blobs = [],
     db_imports = [], db_outbox = [], db_serial = 1\<rparr>"

datatype pg_error =
    PgSessionIDRequired
  | PgReadOnly
  | PgFenceRequired
  | PgNoRows
  | PgNotFound string
  | ErrSessionFenceLost
  | PgJournal journal_error
  | PgClaimantRequired
  | PgOwnershipChanged int int
  | PgSourceDamaged
  | PgAlreadyImported string string
  | PgTargetExists
  | PgImportMismatch

record PostgresRuntimeStore =
  ps_clusterID :: string
  ps_tenantID :: string
  ps_sessionID :: string
  ps_fenceToken :: int
  ps_readOnly :: bool

definition store_key :: "PostgresRuntimeStore \<Rightarrow> skey" where
  "store_key h = (ps_clusterID h, ps_tenantID h, ps_sessionID h)"

definition normalizedTenantID :: "string \<Rightarrow> string" where
  "normalizedTenantID v = (if TrimSpace v \<noteq> [] then TrimSpace v else ''local'')"

section \<open>Fences\<close>

definition checkFenceTx :: "skey \<Rightarrow> int \<Rightarrow> pg_db \<Rightarrow> pg_error option" where
  "checkFenceTx key fence db =
     (if fence \<le> 0 then Some PgFenceRequired
      else case map_of (db_sessions db) key of
        None \<Rightarrow> Some PgNoRows
      | Some row \<Rightarrow> if sn_fence row \<noteq> fence then Some ErrSessionFenceLost else None)"

definition withFenceTx :: "PostgresRuntimeStore \<Rightarrow> (pg_db \<Rightarrow> pg_db) \<Rightarrow> pg_db \<Rightarrow> pg_error + pg_db" where
  "withFenceTx h f db = (case checkFenceTx (store_key h) (ps_fenceToken h) db of Some e \<Rightarrow> Inl e | None \<Rightarrow> Inr (f db))"

definition set_session :: "skey \<Rightarrow> session_row \<Rightarrow> pg_db \<Rightarrow> pg_db" where
  "set_session key row db = db\<lparr>db_sessions := mput key row (db_sessions db)\<rparr>"

definition bindFence :: "int \<Rightarrow> skey \<Rightarrow> int \<Rightarrow> bool \<Rightarrow> pg_db \<Rightarrow> pg_error + pg_db" where
  "bindFence now key fence readOnly db =
     (case map_of (db_sessions db) key of
        None \<Rightarrow> Inl (PgNotFound (snd (snd key)))
      | Some row \<Rightarrow>
          if readOnly then Inr db
          else if sn_fence row > fence then Inl ErrSessionFenceLost
          else if sn_fence row < fence then Inr (set_session key (row\<lparr>sn_fence := fence, sn_updated := now\<rparr>) db)
          else Inr db)"

definition UpdateMetaProjection :: "int \<Rightarrow> skey \<Rightarrow> int \<Rightarrow> int \<Rightarrow> int \<Rightarrow> pg_db \<Rightarrow> pg_error + pg_db" where
  "UpdateMetaProjection now key fence messages turns db =
     (case checkFenceTx key fence db of
        Some e \<Rightarrow> Inl e
      | None \<Rightarrow>
          (case map_of (db_sessions db) key of
             None \<Rightarrow> Inr db
           | Some row \<Rightarrow> Inr (set_session key (row\<lparr>sn_messages := messages, sn_turns := turns, sn_updated := now\<rparr>) db)))"

section \<open>Streams and events\<close>

definition PgCreateStream :: "PostgresRuntimeStore \<Rightarrow> StreamDescriptor \<Rightarrow> pg_db \<Rightarrow> pg_error + pg_db" where
  "PgCreateStream h s db =
     (if ps_readOnly h then Inl PgReadOnly
      else if TrimSpace (sd_ID s) = [] \<or> TrimSpace (sd_Kind s) = [] then Inl (PgJournal EStreamFieldsRequired)
      else let status = (if sd_Status s = [] then ''idle'' else sd_Status s); key = (store_key h, sd_ID s) in
      case checkFenceTx (store_key h) (ps_fenceToken h) db of
        Some e \<Rightarrow> Inl e
      | None \<Rightarrow>
          if map_of (db_streams db) key \<noteq> None then Inr db
          else Inr (db\<lparr>db_streams := mput key
                 \<lparr>sr_Kind = sd_Kind s, sr_Parent = (if sd_ParentID s = [] then None else Some (sd_ParentID s)),
                  sr_Head = 0, sr_Status = status\<rparr> (db_streams db)\<rparr>))"

definition pg_event :: "(nat \<Rightarrow> string) \<Rightarrow> (nat \<Rightarrow> int) \<Rightarrow> string \<Rightarrow> string \<Rightarrow> nat \<Rightarrow> seqno \<Rightarrow> seqno \<Rightarrow> PendingEvent \<Rightarrow> json \<Rightarrow> Event" where
  "pg_event uuid now sessionID streamID k seq head item payload =
     \<lparr>Seq = seq, StreamSeq = head, EventID = (if pe_ID item = [] then uuid k else pe_ID item),
      SessionID = sessionID, StreamID = streamID, Type = pe_Type item,
      SchemaVersion = maxInt (pe_SchemaVersion item) 1,
      OccurredAt = (if pe_OccurredAt item = 0 then now k else pe_OccurredAt item),
      CausationID = pe_CausationID item, CorrelationID = pe_CorrelationID item,
      ev_Audience = (if pe_Audience item = [] then [AudienceInternal] else pe_Audience item),
      Payload = Some payload\<rparr>"

text \<open>The primary key and the two unique constraints: positions within a session and a stream, event identifiers within a tenant.\<close>

definition pg_violates :: "skey \<Rightarrow> pg_db \<Rightarrow> Event \<Rightarrow> bool" where
  "pg_violates key db ev \<longleftrightarrow>
     list_ex (\<lambda>(key', r). (key' = key \<and> Seq r = Seq ev) \<or>
        (fst key' = fst key \<and> fst (snd key') = fst (snd key) \<and> EventID r = EventID ev) \<or>
        (key' = key \<and> StreamID r = StreamID ev \<and> StreamSeq r = StreamSeq ev)) (db_events db)"

definition insert_outbox :: "skey \<Rightarrow> Event \<Rightarrow> pg_db \<Rightarrow> pg_db" where
  "insert_outbox key ev db =
     (if list_ex (\<lambda>r. ob_key r = key \<and> ob_seq r = Seq ev) (db_outbox db) then db
      else db\<lparr>db_outbox := db_outbox db @ [\<lparr>ob_id = db_serial db, ob_key = key, ob_seq = Seq ev, ob_event = ev,
                ob_published = None, ob_claimed = None, ob_until = None\<rparr>], db_serial := db_serial db + 1\<rparr>)"

fun insert_rows :: "(nat \<Rightarrow> string) \<Rightarrow> (nat \<Rightarrow> int) \<Rightarrow> skey \<Rightarrow> string \<Rightarrow> nat \<Rightarrow> pg_db \<Rightarrow> seqno \<Rightarrow> seqno \<Rightarrow> PendingEvent list
    \<Rightarrow> pg_error + pg_db \<times> seqno \<times> seqno \<times> Event list" where
  "insert_rows uuid now key streamID k db seq head [] = Inr (db, seq, head, [])"
| "insert_rows uuid now key streamID k db seq head (item # items) =
     (case pe_Payload item of
        None \<Rightarrow> Inl (PgJournal (EMarshal (pe_Type item)))
      | Some payload \<Rightarrow>
          (let ev = pg_event uuid now (snd (snd key)) streamID k (seq + 1) (head + 1) item payload in
           if pg_violates key db ev then Inl (PgJournal EConstraint)
           else case insert_rows uuid now key streamID (Suc k)
                       (insert_outbox key ev (db\<lparr>db_events := db_events db @ [(key, ev)]\<rparr>)) (seq + 1) (head + 1) items of
             Inl err \<Rightarrow> Inl err
           | Inr (db', seq', head', evs) \<Rightarrow> Inr (db', seq', head', ev # evs)))"

definition append_tx :: "(nat \<Rightarrow> string) \<Rightarrow> (nat \<Rightarrow> int) \<Rightarrow> int \<Rightarrow> skey \<Rightarrow> int \<Rightarrow> string \<Rightarrow> seqno \<Rightarrow> PendingEvent list \<Rightarrow> pg_db
    \<Rightarrow> pg_error + pg_db \<times> Event list" where
  "append_tx uuid now upd key fence streamID expected pending db =
     (case map_of (db_sessions db) key of
        None \<Rightarrow> Inl PgNoRows
      | Some row \<Rightarrow>
          if fence > 0 \<and> sn_fence row \<noteq> fence then Inl ErrSessionFenceLost
          else case map_of (db_streams db) (key, streamID) of
            None \<Rightarrow> Inl PgNoRows
          | Some st \<Rightarrow>
              if expected \<noteq> AnyStreamSeq \<and> expected \<noteq> sr_Head st then Inl (PgJournal (EStreamConflict streamID expected (sr_Head st)))
              else case insert_rows uuid now key streamID 0 db (sn_last row) (sr_Head st) pending of
                Inl err \<Rightarrow> Inl err
              | Inr (db1, seq', head', created) \<Rightarrow>
                  Inr (set_session key (row\<lparr>sn_last := seq', sn_updated := upd\<rparr>)
                         (db1\<lparr>db_streams := mput (key, streamID) (st\<lparr>sr_Head := head'\<rparr>) (db_streams db1)\<rparr>), created))"

definition PgAppend :: "(nat \<Rightarrow> string) \<Rightarrow> (nat \<Rightarrow> int) \<Rightarrow> int \<Rightarrow> PostgresRuntimeStore \<Rightarrow> seqno \<Rightarrow> PendingEvent list \<Rightarrow> pg_db
    \<Rightarrow> pg_error + pg_db \<times> Event list" where
  "PgAppend uuid now upd h expected pending db =
     (if ps_readOnly h then Inl PgReadOnly
      else case pending of
        [] \<Rightarrow> Inr (db, [])
      | first # _ \<Rightarrow>
          (let streamID = (if pe_StreamID first = [] then ps_sessionID h else pe_StreamID first) in
           case check_batch streamID pending of
             Some err \<Rightarrow> Inl (PgJournal err)
           | None \<Rightarrow> append_tx uuid now upd (store_key h) (ps_fenceToken h) streamID expected pending db))"

definition session_events :: "skey \<Rightarrow> pg_db \<Rightarrow> Event list" where
  "session_events key db = map snd (filter (\<lambda>r. fst r = key) (db_events db))"

definition PgLoad :: "PostgresRuntimeStore \<Rightarrow> pg_db \<Rightarrow> seqno \<Rightarrow> int \<Rightarrow> Event list" where
  "PgLoad h db afterSeq limit =
     take (nat (normalizedLimit limit)) (sort_key Seq (filter (\<lambda>e. Seq e > afterSeq) (session_events (store_key h) db)))"

definition PgLoadStream :: "PostgresRuntimeStore \<Rightarrow> pg_db \<Rightarrow> string \<Rightarrow> seqno \<Rightarrow> int \<Rightarrow> Event list" where
  "PgLoadStream h db streamID afterStreamSeq limit =
     take (nat (normalizedLimit limit))
       (sort_key StreamSeq (filter (\<lambda>e. StreamID e = streamID \<and> StreamSeq e > afterStreamSeq) (session_events (store_key h) db)))"

definition PgHead :: "PostgresRuntimeStore \<Rightarrow> pg_db \<Rightarrow> pg_error + seqno" where
  "PgHead h db = (case map_of (db_sessions db) (store_key h) of None \<Rightarrow> Inl PgNoRows | Some row \<Rightarrow> Inr (sn_last row))"

definition PgStreamHead :: "PostgresRuntimeStore \<Rightarrow> pg_db \<Rightarrow> string \<Rightarrow> pg_error + seqno" where
  "PgStreamHead h db streamID = (case map_of (db_streams db) (store_key h, streamID) of None \<Rightarrow> Inl PgNoRows | Some st \<Rightarrow> Inr (sr_Head st))"

definition LoadEvents :: "string \<Rightarrow> string \<Rightarrow> string \<Rightarrow> pg_db \<Rightarrow> seqno \<Rightarrow> int \<Rightarrow> pg_error + Event list \<times> seqno" where
  "LoadEvents clusterID tenantID sessionID db afterSeq limit =
     (let h = \<lparr>ps_clusterID = clusterID, ps_tenantID = normalizedTenantID tenantID, ps_sessionID = sessionID, ps_fenceToken = 0, ps_readOnly = True\<rparr>
      in case PgHead h db of Inl e \<Rightarrow> Inl e | Inr head \<Rightarrow> Inr (PgLoad h db afterSeq limit, head))"

section \<open>Checkpoints, commands, offsets and blobs\<close>

definition PgSaveCheckpoint :: "int \<Rightarrow> PostgresRuntimeStore \<Rightarrow> Checkpoint \<Rightarrow> pg_db \<Rightarrow> pg_error + pg_db" where
  "PgSaveCheckpoint now h cp db =
     (if ps_readOnly h then Inl PgReadOnly
      else let cp' = (if cp_CreatedAt cp = 0 then cp\<lparr>cp_CreatedAt := now\<rparr> else cp)
           in withFenceTx h (\<lambda>d. d\<lparr>db_checkpoints := mput (store_key h, cp_StreamID cp, cp_Projector cp) cp' (db_checkpoints d)\<rparr>) db)"

definition PgLoadCheckpoint :: "PostgresRuntimeStore \<Rightarrow> pg_db \<Rightarrow> string \<Rightarrow> string \<Rightarrow> Checkpoint option" where
  "PgLoadCheckpoint h db streamID projector = map_of (db_checkpoints db) (store_key h, streamID, projector)"

definition PgSaveCommandResult :: "int \<Rightarrow> PostgresRuntimeStore \<Rightarrow> CommandResult \<Rightarrow> pg_db \<Rightarrow> pg_error + pg_db" where
  "PgSaveCommandResult now h r db =
     (if ps_readOnly h then Inl PgReadOnly
      else let r' = (if cr_CreatedAt r = 0 then r\<lparr>cr_CreatedAt := now\<rparr> else r)\<lparr>cr_SessionID := ps_sessionID h\<rparr>; key = (store_key h, cr_CommandID r)
           in withFenceTx h (\<lambda>d. if map_of (db_commands d) key \<noteq> None then d else d\<lparr>db_commands := mput key r' (db_commands d)\<rparr>) db)"

definition PgGetCommandResult :: "PostgresRuntimeStore \<Rightarrow> pg_db \<Rightarrow> string \<Rightarrow> CommandResult option" where
  "PgGetCommandResult h db commandID = map_of (db_commands db) (store_key h, commandID)"

definition PgConsumerOffset :: "PostgresRuntimeStore \<Rightarrow> pg_db \<Rightarrow> string \<Rightarrow> seqno" where
  "PgConsumerOffset h db consumer = mget 0 (db_offsets db) (store_key h, consumer)"

definition PgSaveConsumerOffset :: "PostgresRuntimeStore \<Rightarrow> string \<Rightarrow> seqno \<Rightarrow> pg_db \<Rightarrow> pg_error + pg_db" where
  "PgSaveConsumerOffset h consumer offset db =
     (if ps_readOnly h then Inl PgReadOnly
      else withFenceTx h (\<lambda>d. d\<lparr>db_offsets := mput (store_key h, consumer) offset (db_offsets d)\<rparr>) db)"

text \<open>\<open>digest\<close> is the hexadecimal SHA-256 of the data.\<close>

definition PutBlob :: "(string \<Rightarrow> string) \<Rightarrow> PostgresRuntimeStore \<Rightarrow> string \<Rightarrow> string \<Rightarrow> pg_db \<Rightarrow> pg_error + pg_db \<times> string" where
  "PutBlob digest h mimeType data db =
     (if ps_readOnly h then Inl PgReadOnly
      else let key = (ps_clusterID h, ps_tenantID h, digest data) in
        case withFenceTx h (\<lambda>d. if map_of (db_blobs d) key \<noteq> None then d else d\<lparr>db_blobs := mput key (data, mimeType) (db_blobs d)\<rparr>) db of
          Inl e \<Rightarrow> Inl e | Inr db' \<Rightarrow> Inr (db', digest data))"

definition GetBlob :: "PostgresRuntimeStore \<Rightarrow> pg_db \<Rightarrow> string \<Rightarrow> pg_error + string \<times> string" where
  "GetBlob h db d = (case map_of (db_blobs db) (ps_clusterID h, ps_tenantID h, d) of None \<Rightarrow> Inl PgNoRows | Some b \<Rightarrow> Inr b)"

section \<open>Opening a session\<close>

record RuntimeOpenOptions =
  oo_CreateIfMissing :: bool
  oo_ReadOnly :: bool
  oo_FenceToken :: int
  oo_CWD :: string

text \<open>
  \<open>OpenRuntime\<close> runs several transactions; each one is committed even when a later one fails, so every exit carries the tables.
  The recovery of interrupted work and the loading of the state, which follow, are not part of this definition.
\<close>

definition insert_session :: "int \<Rightarrow> skey \<Rightarrow> RuntimeOpenOptions \<Rightarrow> pg_db \<Rightarrow> pg_db \<times> bool" where
  "insert_session now key opts db =
     (if map_of (db_sessions db) key \<noteq> None then (db, False)
      else (set_session key \<lparr>sn_cwd = oo_CWD opts, sn_created = now, sn_updated = now, sn_messages = 0, sn_turns = 0, sn_pinned = False,
              sn_status = ''idle'', sn_last = 0, sn_fence = oo_FenceToken opts\<rparr> db, True))"

definition update_cwd :: "int \<Rightarrow> skey \<Rightarrow> RuntimeOpenOptions \<Rightarrow> pg_db \<Rightarrow> pg_db \<times> bool" where
  "update_cwd now key opts db =
     (case map_of (db_sessions db) key of
        None \<Rightarrow> (db, False)
      | Some row \<Rightarrow> if sn_fence row = oo_FenceToken opts then (set_session key (row\<lparr>sn_cwd := oo_CWD opts, sn_updated := now\<rparr>) db, True) else (db, False))"

definition session_created :: "string \<Rightarrow> PendingEvent" where
  "session_created sessionID =
     \<lparr>pe_ID = [], pe_StreamID = [], pe_Type = EventSessionCreated, pe_SchemaVersion = 0, pe_OccurredAt = 0, pe_CausationID = [],
      pe_CorrelationID = [], pe_Audience = [], pe_Payload = Some (JObj [(''format_version'', JInt 3), (''session_id'', JStr sessionID)])\<rparr>"

definition open_store :: "(nat \<Rightarrow> string) \<Rightarrow> (nat \<Rightarrow> int) \<Rightarrow> int \<Rightarrow> PostgresRuntimeStore \<Rightarrow> bool \<Rightarrow> pg_db \<Rightarrow> pg_db \<times> (pg_error + PostgresRuntimeStore)" where
  "open_store uuid now upd h created db =
     (let step1 = (if ps_readOnly h then Inr db
                   else PgCreateStream h \<lparr>sd_ID = ps_sessionID h, sd_Kind = ''session'', sd_ParentID = [], sd_Status = ''idle''\<rparr> db)
      in case step1 of
           Inl e \<Rightarrow> (db, Inl e)
         | Inr db1 \<Rightarrow>
             if \<not> created then (db1, Inr h)
             else case PgAppend uuid now upd h 0 [session_created (ps_sessionID h)] db1 of
               Inl e \<Rightarrow> (db1, Inl e)
             | Inr (db2, _) \<Rightarrow> (db2, Inr h))"

definition OpenRuntime :: "(nat \<Rightarrow> string) \<Rightarrow> (nat \<Rightarrow> int) \<Rightarrow> int \<Rightarrow> string \<Rightarrow> string \<Rightarrow> string \<Rightarrow> RuntimeOpenOptions \<Rightarrow> pg_db
    \<Rightarrow> pg_db \<times> (pg_error + PostgresRuntimeStore)" where
  "OpenRuntime uuid now upd clusterID tenant sessionID opts db =
     (let tenantID = normalizedTenantID tenant; key = (clusterID, tenantID, sessionID);
          h = \<lparr>ps_clusterID = clusterID, ps_tenantID = tenantID, ps_sessionID = sessionID, ps_fenceToken = oo_FenceToken opts, ps_readOnly = oo_ReadOnly opts\<rparr>
      in if TrimSpace sessionID = [] then (db, Inl PgSessionIDRequired)
      else let (db1, created) = (if oo_CreateIfMissing opts then insert_session upd key opts db else (db, False)) in
        if \<not> oo_ReadOnly opts \<and> oo_FenceToken opts \<le> 0 then (db1, Inl PgFenceRequired)
        else case bindFence upd key (oo_FenceToken opts) (oo_ReadOnly opts) db1 of
          Inl e \<Rightarrow> (db1, Inl e)
        | Inr db2 \<Rightarrow>
            (let (db3, same) = (if \<not> oo_ReadOnly opts \<and> TrimSpace (oo_CWD opts) \<noteq> [] then update_cwd upd key opts db2 else (db2, True))
             in if \<not> same then (db3, Inl ErrSessionFenceLost) else open_store uuid now upd h created db3))"

definition PgExists :: "string \<Rightarrow> string \<Rightarrow> string \<Rightarrow> pg_db \<Rightarrow> bool" where
  "PgExists clusterID tenantID sessionID db = (map_of (db_sessions db) (clusterID, normalizedTenantID tenantID, sessionID) \<noteq> None)"

definition PgPin :: "int \<Rightarrow> string \<Rightarrow> string \<Rightarrow> string \<Rightarrow> bool \<Rightarrow> pg_db \<Rightarrow> pg_error + pg_db" where
  "PgPin now clusterID tenantID sessionID pinned db =
     (let key = (clusterID, normalizedTenantID tenantID, sessionID) in
      case map_of (db_sessions db) key of
        None \<Rightarrow> Inl PgNoRows
      | Some row \<Rightarrow> Inr (set_session key (row\<lparr>sn_pinned := pinned, sn_updated := now\<rparr>) db))"

section \<open>Outbox\<close>

definition claimable :: "string \<Rightarrow> int \<Rightarrow> outbox_row \<Rightarrow> bool" where
  "claimable clusterID now r \<longleftrightarrow> fst (ob_key r) = clusterID \<and> ob_published r = None \<and> (case ob_until r of None \<Rightarrow> True | Some t \<Rightarrow> t < now)"

definition claim_limit :: "int \<Rightarrow> nat" where
  "claim_limit limit = (if limit \<le> 0 \<or> limit > 1000 then 100 else nat limit)"

definition candidates :: "string \<Rightarrow> int \<Rightarrow> int \<Rightarrow> pg_db \<Rightarrow> int list" where
  "candidates clusterID now limit db = take (claim_limit limit) (map ob_id (sort_key ob_id (filter (claimable clusterID now) (db_outbox db))))"

definition ClaimOutbox :: "int \<Rightarrow> int \<Rightarrow> string \<Rightarrow> string \<Rightarrow> int \<Rightarrow> int \<Rightarrow> pg_db \<Rightarrow> pg_error + pg_db \<times> outbox_row list" where
  "ClaimOutbox now now' clusterID instanceID limit lease db =
     (if TrimSpace instanceID = [] then Inl PgClaimantRequired
      else let term = (if lease \<le> 0 then 30000000000 else lease); ids = candidates clusterID now limit db;
               claim = (\<lambda>r. if ob_id r \<in> set ids then r\<lparr>ob_claimed := Some instanceID, ob_until := Some (now' + term)\<rparr> else r)
           in Inr (db\<lparr>db_outbox := map claim (db_outbox db)\<rparr>, filter (\<lambda>r. ob_id r \<in> set ids) (map claim (db_outbox db))))"

text \<open>The rows that do match are marked even when the call reports an error.\<close>

definition MarkOutboxPublished :: "int \<Rightarrow> string \<Rightarrow> string \<Rightarrow> int list \<Rightarrow> pg_db \<Rightarrow> pg_db \<times> pg_error option" where
  "MarkOutboxPublished now clusterID instanceID ids db =
     (if ids = [] then (db, None)
      else let hit = (\<lambda>r. fst (ob_key r) = clusterID \<and> ob_claimed r = Some instanceID \<and> ob_id r \<in> set ids);
               n = int (length (filter hit (db_outbox db)))
           in (db\<lparr>db_outbox := map (\<lambda>r. if hit r then r\<lparr>ob_published := Some now, ob_claimed := None, ob_until := None\<rparr> else r) (db_outbox db)\<rparr>,
               if n \<noteq> int (length ids) then Some (PgOwnershipChanged n (int (length ids))) else None))"

section \<open>Importing a local journal\<close>

text \<open>
  \<open>ImportLocalRuntime\<close> copies the tables of a SQLite journal into a session that does not exist yet, in one transaction. It is given the
  result of the integrity check of the source, the identifier of the migration, the instants and the counters of the new row, the
  blobs of the source and the digest of an event history. An \<open>INSERT\<close> without a conflict clause fails on a key that is taken.
\<close>

fun insert_new :: "('k \<times> 'v) list \<Rightarrow> ('k \<times> 'v) list \<Rightarrow> ('k \<times> 'v) list option" where
  "insert_new [] table = Some table"
| "insert_new ((k, v) # rows) table = (if map_of table k \<noteq> None then None else insert_new rows (mput k v table))"

fun copy_events :: "skey \<Rightarrow> Event list \<Rightarrow> pg_db \<Rightarrow> pg_db option" where
  "copy_events key [] db = Some db"
| "copy_events key (ev # evs) db =
     (let ev' = ev\<lparr>SessionID := snd (snd key)\<rparr> in
      if pg_violates key db ev' then None else copy_events key evs (db\<lparr>db_events := db_events db @ [(key, ev')]\<rparr>))"

definition copy_blobs :: "skey \<Rightarrow> (string \<times> string \<times> string) list \<Rightarrow> pg_db \<Rightarrow> pg_db" where
  "copy_blobs key blobs db =
     foldl (\<lambda>d (dig, data, mime). let k = (fst key, fst (snd key), dig) in
              if map_of (db_blobs d) k \<noteq> None then d else d\<lparr>db_blobs := mput k (data, mime) (db_blobs d)\<rparr>) db blobs"

definition copy_streams :: "skey \<Rightarrow> RuntimeJournal \<Rightarrow> pg_db \<Rightarrow> pg_db option" where
  "copy_streams key source db =
     (case insert_new (map (\<lambda>(i, row). ((key, i), row)) (j_streams source)) (db_streams db) of
        None \<Rightarrow> None | Some streams \<Rightarrow> Some (db\<lparr>db_streams := streams\<rparr>))"

definition copy_aux :: "skey \<Rightarrow> RuntimeJournal \<Rightarrow> pg_db \<Rightarrow> pg_db option" where
  "copy_aux key source db =
     (case insert_new (map (\<lambda>(i, cp). ((key, i), cp)) (j_checkpoints source)) (db_checkpoints db) of
        None \<Rightarrow> None
      | Some cps \<Rightarrow>
          (case insert_new (map (\<lambda>(i, r). ((key, i), r\<lparr>cr_SessionID := snd (snd key)\<rparr>)) (j_commands source)) (db_commands db) of
             None \<Rightarrow> None
           | Some cmds \<Rightarrow>
               (case insert_new (map (\<lambda>(i, n). ((key, i), n)) (j_offsets source)) (db_offsets db) of
                  None \<Rightarrow> None
                | Some offs \<Rightarrow> Some (db\<lparr>db_checkpoints := cps, db_commands := cmds, db_offsets := offs\<rparr>))))"

definition copy_all :: "skey \<Rightarrow> RuntimeJournal \<Rightarrow> (string \<times> string \<times> string) list \<Rightarrow> pg_db \<Rightarrow> pg_db option" where
  "copy_all key source blobs db =
     (case copy_streams key source db of
        None \<Rightarrow> None
      | Some db1 \<Rightarrow>
          (case copy_events key (sort_key Seq (j_events source)) (copy_blobs key blobs db1) of
             None \<Rightarrow> None | Some db2 \<Rightarrow> copy_aux key source db2))"

type_synonym digest_row = "seqno \<times> string \<times> string \<times> seqno \<times> string \<times> json option"

definition history_digest :: "(digest_row list \<Rightarrow> string) \<Rightarrow> Event list \<Rightarrow> string" where
  "history_digest checksum evs = checksum (map (\<lambda>e. (Seq e, EventID e, StreamID e, StreamSeq e, Type e, Payload e)) (sort_key Seq evs))"

definition ImportLocalRuntime :: "(digest_row list \<Rightarrow> string) \<Rightarrow> bool \<Rightarrow> int \<times> int \<Rightarrow> int \<times> int \<Rightarrow> string \<Rightarrow> string \<Rightarrow> string \<Rightarrow> string \<Rightarrow> string
    \<Rightarrow> int \<Rightarrow> RuntimeJournal \<Rightarrow> (string \<times> string \<times> string) list \<Rightarrow> bool \<Rightarrow> pg_db \<Rightarrow> pg_error + pg_db" where
  "ImportLocalRuntime checksum intact span counts clusterID tenant sessionID cwd' migrationID fence source blobs dryRun db =
     (let key = (clusterID, normalizedTenantID tenant, sessionID); n = int (length (j_events source));
          sum = history_digest checksum (j_events source);
          done' = (\<lambda>status. mput key \<lparr>im_migration = migrationID, im_status = status, im_count = n, im_checksum = sum\<rparr>)
      in if fence \<le> 0 \<and> \<not> dryRun then Inl PgFenceRequired
      else if \<not> intact then Inl PgSourceDamaged
      else if dryRun then Inr db
      else case map_of (db_imports db) key of
        Some im \<Rightarrow>
          if im_migration im = migrationID \<and> im_status im = ''completed'' \<and> im_count im = n \<and> im_checksum im = sum then Inr db
          else Inl (PgAlreadyImported (im_migration im) (im_status im))
      | None \<Rightarrow>
          if map_of (db_sessions db) key \<noteq> None then Inl PgTargetExists
          else case copy_all key source blobs (set_session key
                  \<lparr>sn_cwd = cwd', sn_created = fst span, sn_updated = snd span, sn_messages = fst counts, sn_turns = snd counts, sn_pinned = False,
                   sn_status = ''idle'', sn_last = Head source, sn_fence = fence\<rparr>
                  (db\<lparr>db_imports := done' ''running'' (db_imports db)\<rparr>)) of
            None \<Rightarrow> Inl (PgJournal EConstraint)
          | Some db1 \<Rightarrow>
              if int (length (session_events key db1)) \<noteq> n \<or> history_digest checksum (session_events key db1) \<noteq> sum then Inl PgImportMismatch
              else Inr (db1\<lparr>db_imports := done' ''completed'' (db_imports db1)\<rparr>))"

section \<open>The journal of one session\<close>

text \<open>What the tables hold of one session, read as a journal of its own.\<close>

definition part :: "'k \<Rightarrow> (('k \<times> 'i) \<times> 'v) list \<Rightarrow> ('i \<times> 'v) list" where
  "part key xs = map (\<lambda>((_, i), v). (i, v)) (filter (\<lambda>((k, _), _). k = key) xs)"

definition journal_of :: "skey \<Rightarrow> pg_db \<Rightarrow> RuntimeJournal" where
  "journal_of key db =
     \<lparr>j_sessionID = snd (snd key), j_streams = part key (db_streams db), j_events = session_events key db,
      j_nextSeq = (case map_of (db_sessions db) key of None \<Rightarrow> 1 | Some row \<Rightarrow> sn_last row + 1),
      j_checkpoints = part key (db_checkpoints db), j_offsets = part key (db_offsets db), j_commands = part key (db_commands db)\<rparr>"

lemma map_of_part [simp]: "map_of (part key xs) i = map_of xs (key, i)"
  by (induction xs) (auto simp: part_def)

lemma part_mput: "part key (mput (key', i) v xs) = (if key' = key then mput i v (part key xs) else part key xs)"
  by (induction xs) (auto simp: part_def)

lemma pg_event_make_event:
  "pg_event uuid now (j_sessionID j) st k (j_nextSeq j) head item payload = make_event uuid now st k j head item payload"
  by (simp add: pg_event_def make_event_def)

lemma violates_session:
  assumes "\<not> pg_violates key db ev" "j_events j = session_events key db" shows "\<not> violates j ev"
  using assms by (auto simp: pg_violates_def violates_def session_events_def list_ex_iff)

lemma insert_outbox_tables [simp]:
  "db_events (insert_outbox key ev db) = db_events db" "db_sessions (insert_outbox key ev db) = db_sessions db"
  "db_streams (insert_outbox key ev db) = db_streams db" "db_checkpoints (insert_outbox key ev db) = db_checkpoints db"
  "db_commands (insert_outbox key ev db) = db_commands db" "db_offsets (insert_outbox key ev db) = db_offsets db"
  "db_blobs (insert_outbox key ev db) = db_blobs db" "db_imports (insert_outbox key ev db) = db_imports db"
  by (simp_all add: insert_outbox_def)

lemma session_events_snoc:
  "session_events key (db\<lparr>db_events := db_events db @ [(key', ev)]\<rparr>) = session_events key db @ (if key' = key then [ev] else [])"
  by (simp add: session_events_def)

lemma session_events_cong: "db_events db = db_events db' \<Longrightarrow> session_events key db = session_events key db'"
  by (simp add: session_events_def)

text \<open>The rows that the loop leaves alone.\<close>

lemma insert_rows_tables:
  assumes "insert_rows uuid now key st k db seq head items = Inr (db', seq', head', evs)"
  shows "db_sessions db' = db_sessions db \<and> db_streams db' = db_streams db \<and> db_checkpoints db' = db_checkpoints db \<and>
    db_commands db' = db_commands db \<and> db_offsets db' = db_offsets db \<and> db_blobs db' = db_blobs db \<and> db_imports db' = db_imports db \<and>
    db_events db' = db_events db @ map (Pair key) evs \<and> seq' = seq + int (length evs)"
  using assms
proof (induction items arbitrary: k db seq head evs)
  case (Cons item items)
  then obtain payload where p: "pe_Payload item = Some payload" by (auto split: option.splits)
  let ?ev = "pg_event uuid now (snd (snd key)) st k (seq + 1) (head + 1) item payload"
  let ?db = "insert_outbox key ?ev (db\<lparr>db_events := db_events db @ [(key, ?ev)]\<rparr>)"
  obtain evs' where "insert_rows uuid now key st (Suc k) ?db (seq + 1) (head + 1) items = Inr (db', seq', head', evs')" "evs = ?ev # evs'"
    using Cons.prems p by (auto simp: Let_def split: if_splits sum.splits)
  then show ?case using Cons.IH by fastforce
qed auto

lemma insert_rows_simulates:
  assumes "insert_rows uuid now key st k db seq head items = Inr (db', seq', head', evs)"
    and "j_events j = session_events key db" "j_nextSeq j = seq + 1" "j_sessionID j = snd (snd key)"
  shows "insert_all uuid now st k j head items =
    Inr (j\<lparr>j_events := session_events key db', j_nextSeq := seq' + 1\<rparr>, head', evs)"
  using assms
proof (induction items arbitrary: k db j seq head evs)
  case Nil
  then show ?case by simp
next
  case (Cons item items)
  then obtain payload where p: "pe_Payload item = Some payload" by (auto split: option.splits)
  let ?ev = "pg_event uuid now (snd (snd key)) st k (seq + 1) (head + 1) item payload"
  let ?db = "insert_outbox key ?ev (db\<lparr>db_events := db_events db @ [(key, ?ev)]\<rparr>)"
  let ?j = "j\<lparr>j_events := j_events j @ [?ev], j_nextSeq := j_nextSeq j + 1\<rparr>"
  have nv: "\<not> pg_violates key db ?ev" using Cons.prems(1) p by (auto simp: Let_def)
  obtain evs' where rec: "insert_rows uuid now key st (Suc k) ?db (seq + 1) (head + 1) items = Inr (db', seq', head', evs')"
    and evs: "evs = ?ev # evs'" using Cons.prems(1) p nv by (auto simp: Let_def split: sum.splits)
  have ev: "?ev = make_event uuid now st k j (head + 1) item payload"
    using pg_event_make_event[of uuid now j] Cons.prems(3,4) by simp
  have "session_events key ?db = session_events key db @ [?ev]"
    using session_events_cong[of ?db "db\<lparr>db_events := db_events db @ [(key, ?ev)]\<rparr>"] by (simp add: session_events_snoc)
  then have "insert_all uuid now st (Suc k) ?j (head + 1) items =
      Inr (?j\<lparr>j_events := session_events key db', j_nextSeq := seq' + 1\<rparr>, head', evs')"
    using Cons.prems by (intro Cons.IH[OF rec]) simp_all
  then show ?case
    using p evs ev violates_session[OF nv Cons.prems(2)] by (simp add: Let_def)
qed

lemma append_tx_cases:
  assumes "append_tx uuid now upd key fence st expected pending db = Inr (db', created)"
  obtains row stream db1 seq' head' where "map_of (db_sessions db) key = Some row" "fence \<le> 0 \<or> sn_fence row = fence"
    "map_of (db_streams db) (key, st) = Some stream" "expected = AnyStreamSeq \<or> expected = sr_Head stream"
    "insert_rows uuid now key st 0 db (sn_last row) (sr_Head stream) pending = Inr (db1, seq', head', created)"
    "db' = set_session key (row\<lparr>sn_last := seq', sn_updated := upd\<rparr>)
       (db1\<lparr>db_streams := mput (key, st) (stream\<lparr>sr_Head := head'\<rparr>) (db_streams db1)\<rparr>)"
  using assms that by (auto simp: append_tx_def not_less split: option.splits if_splits sum.splits)

lemma Append_accepts:
  assumes "pending = p # ps" "st = (if pe_StreamID p = [] then j_sessionID j else pe_StreamID p)" "check_batch st pending = None"
    and "map_of (j_streams j) st = Some row" "expected = AnyStreamSeq \<or> expected = sr_Head row"
    and "insert_all uuid now st 0 j (sr_Head row) pending = Inr (j1, head', created)"
  shows "Append uuid now expected pending j = Inr (j1\<lparr>j_streams := mput st (row\<lparr>sr_Head := head'\<rparr>) (j_streams j1)\<rparr>, created)"
  using assms(3-6) unfolding Append_def assms(1) list.case Let_def assms(2)[symmetric] by auto

lemma append_simulates:
  assumes "PgAppend uuid now upd h expected pending db = Inr (db', created)"
  shows "Append uuid now expected pending (journal_of (store_key h) db) = Inr (journal_of (store_key h) db', created)"
proof (cases pending)
  case Nil
  then show ?thesis using assms by (simp add: PgAppend_def Append_def split: if_splits)
next
  case (Cons p ps)
  let ?key = "store_key h"
  define st where "st = (if pe_StreamID p = [] then ps_sessionID h else pe_StreamID p)"
  have tx: "append_tx uuid now upd ?key (ps_fenceToken h) st expected pending db = Inr (db', created)" and batch: "check_batch st pending = None"
    using assms Cons by (auto simp: PgAppend_def Let_def st_def split: if_splits option.splits)
  from append_tx_cases[OF tx] obtain row stream db1 seq' head' where row: "map_of (db_sessions db) ?key = Some row"
    and stream: "map_of (db_streams db) (?key, st) = Some stream" and exp: "expected = AnyStreamSeq \<or> expected = sr_Head stream"
    and ins: "insert_rows uuid now ?key st 0 db (sn_last row) (sr_Head stream) pending = Inr (db1, seq', head', created)"
    and db': "db' = set_session ?key (row\<lparr>sn_last := seq', sn_updated := upd\<rparr>)
       (db1\<lparr>db_streams := mput (?key, st) (stream\<lparr>sr_Head := head'\<rparr>) (db_streams db1)\<rparr>)" by metis
  let ?j = "journal_of ?key db"
  have sid: "j_sessionID ?j = ps_sessionID h" by (simp add: journal_of_def store_key_def)
  have st': "st = (if pe_StreamID p = [] then j_sessionID ?j else pe_StreamID p)" by (simp add: st_def sid)
  have all: "insert_all uuid now st 0 ?j (sr_Head stream) pending =
      Inr (?j\<lparr>j_events := session_events ?key db1, j_nextSeq := seq' + 1\<rparr>, head', created)"
    by (rule insert_rows_simulates[OF ins]) (simp_all add: journal_of_def row)
  have str: "map_of (j_streams ?j) st = Some stream" using stream by (simp add: journal_of_def)
  have view: "journal_of ?key db' =
      (?j\<lparr>j_events := session_events ?key db1, j_nextSeq := seq' + 1\<rparr>)\<lparr>j_streams := mput st (stream\<lparr>sr_Head := head'\<rparr>) (j_streams ?j)\<rparr>"
    using insert_rows_tables[OF ins] by (simp add: journal_of_def db' set_session_def part_mput session_events_def update_conv')
  show ?thesis unfolding view by (rule trans[OF Append_accepts[OF Cons st' batch str exp all]]) simp
qed

text \<open>C2: The clustered store implements the journal: whenever an append is accepted by the database, the same append is accepted by the
  journal that the tables hold for its session, it creates the same events, and the tables afterwards hold the resulting journal.
  Every property of the event journal carries over to the cluster.\<close>

theorem postgres_append_refines_journal:
  assumes "PgAppend uuid now upd h expected pending db = Inr (db', created)"
  shows "Append uuid now expected pending (journal_of (store_key h) db) = Inr (journal_of (store_key h) db', created)"
  by (rule append_simulates[OF assms])

section \<open>Executions\<close>

text \<open>The transactions of any number of processes, with any handles, in any order.\<close>

inductive pg_step :: "pg_db \<Rightarrow> pg_db \<Rightarrow> bool" where
  create: "PgCreateStream h s db = Inr db' \<Longrightarrow> pg_step db db'"
| append: "PgAppend uuid now upd h expected pending db = Inr (db', created) \<Longrightarrow> pg_step db db'"
| checkpoint: "PgSaveCheckpoint t h cp db = Inr db' \<Longrightarrow> pg_step db db'"
| command: "PgSaveCommandResult t h r db = Inr db' \<Longrightarrow> pg_step db db'"
| offset: "PgSaveConsumerOffset h consumer n db = Inr db' \<Longrightarrow> pg_step db db'"
| blob: "PutBlob digest h mime data db = Inr (db', d) \<Longrightarrow> pg_step db db'"
| bind: "bindFence t key fence ro db = Inr db' \<Longrightarrow> pg_step db db'"
| insert: "pg_step db (fst (insert_session t key opts db))"
| cwd: "pg_step db (fst (update_cwd t key opts db))"
| meta: "UpdateMetaProjection t key fence n k db = Inr db' \<Longrightarrow> pg_step db db'"
| pin: "PgPin t c tenant sid b db = Inr db' \<Longrightarrow> pg_step db db'"
| claim: "ClaimOutbox t t' c i limit lease db = Inr (db', rows) \<Longrightarrow> pg_step db db'"
| publish: "pg_step db (fst (MarkOutboxPublished t c i ids db))"
| import: "ImportLocalRuntime checksum intact span counts c tenant sid cwd' mig fence source blobs dry db = Inr db' \<Longrightarrow> journal_reachable source \<Longrightarrow>
    pg_step db db'"

inductive pg_reachable :: "pg_db \<Rightarrow> bool" where
  fresh: "pg_reachable empty_db"
| step: "pg_reachable db \<Longrightarrow> pg_step db db' \<Longrightarrow> pg_reachable db'"

inductive_cases pg_stepE: "pg_step db db'"

text \<open>Apart from appends, a step leaves the events alone, and in the table of sessions it changes at most one row: it keeps the position
  and does not lower the fence.\<close>

definition row_grows :: "pg_db \<Rightarrow> pg_db \<Rightarrow> bool" where
  "row_grows db db' \<longleftrightarrow> db_sessions db' = db_sessions db \<or>
     (\<exists>key row row'. db_sessions db' = mput key row' (db_sessions db) \<and> map_of (db_sessions db) key = Some row \<and>
        sn_last row' = sn_last row \<and> sn_fence row \<le> sn_fence row') \<or>
     (\<exists>key row'. db_sessions db' = mput key row' (db_sessions db) \<and> map_of (db_sessions db) key = None \<and> sn_last row' = 0)"

definition mail :: "pg_db \<Rightarrow> (int \<times> skey \<times> seqno \<times> Event) list" where
  "mail db = map (\<lambda>r. (ob_id r, ob_key r, ob_seq r, ob_event r)) (db_outbox db)"

definition calm_step :: "pg_db \<Rightarrow> pg_db \<Rightarrow> bool" where
  "calm_step db db' \<longleftrightarrow> row_grows db db' \<and> db_events db' = db_events db \<and> mail db' = mail db \<and> db_serial db' = db_serial db \<and>
     db_imports db' = db_imports db \<and>
     (db_streams db' = db_streams db \<or>
      (\<exists>k row. map_of (db_streams db) k = None \<and> map_of (db_sessions db) (fst k) \<noteq> None \<and> sr_Head row = 0 \<and> db_streams db' = mput k row (db_streams db)))"

lemma calm_same_rows: "db_sessions db' = db_sessions db \<Longrightarrow> db_events db' = db_events db \<Longrightarrow> db_streams db' = db_streams db \<Longrightarrow>
  mail db' = mail db \<Longrightarrow> db_serial db' = db_serial db \<Longrightarrow> db_imports db' = db_imports db \<Longrightarrow> calm_step db db'"
  by (simp add: calm_step_def row_grows_def)

lemma withFenceTx_Inr: "withFenceTx h f db = Inr db' \<Longrightarrow> db' = f db"
  by (auto simp: withFenceTx_def split: option.splits)

lemma calm_new_stream:
  assumes "map_of (db_streams db) k = None" "sr_Head row = 0" "map_of (db_sessions db) (fst k) \<noteq> None"
  shows "calm_step db (db\<lparr>db_streams := mput k row (db_streams db)\<rparr>)"
proof -
  have "\<exists>k' row'. map_of (db_streams db) k' = None \<and> map_of (db_sessions db) (fst k') \<noteq> None \<and> sr_Head row' = 0 \<and> mput k row (db_streams db) = mput k' row' (db_streams db)"
    by (rule exI[of _ k], rule exI[of _ row]) (simp add: assms)
  then show ?thesis by (simp add: calm_step_def row_grows_def mail_def)
qed

lemma calm_create:
  assumes "PgCreateStream h s db = Inr db'" shows "calm_step db db'"
proof -
  define row where "row = \<lparr>sr_Kind = sd_Kind s, sr_Parent = (if sd_ParentID s = [] then None else Some (sd_ParentID s)),
    sr_Head = 0, sr_Status = (if sd_Status s = [] then ''idle'' else sd_Status s)\<rparr>"
  have "db' = db \<or> (map_of (db_streams db) (store_key h, sd_ID s) = None \<and> map_of (db_sessions db) (store_key h) \<noteq> None \<and>
      db' = db\<lparr>db_streams := mput (store_key h, sd_ID s) row (db_streams db)\<rparr>)"
    using assms unfolding PgCreateStream_def Let_def row_def[symmetric] by (auto simp: checkFenceTx_def split: if_splits option.splits)
  moreover have "sr_Head row = 0" by (simp add: row_def)
  ultimately show ?thesis using calm_new_stream[of db "(store_key h, sd_ID s)" row] calm_same_rows[of db db] by auto
qed

lemma calm_set_session:
  assumes "map_of (db_sessions db) key = Some row" "sn_last row' = sn_last row" "sn_fence row \<le> sn_fence row'"
  shows "calm_step db (set_session key row' db)"
proof -
  have "row_grows db (set_session key row' db)"
    unfolding row_grows_def set_session_def
    by (rule disjI2, rule disjI1, rule exI[of _ key], rule exI[of _ row], rule exI[of _ row']) (simp add: assms)
  then show ?thesis by (simp add: calm_step_def set_session_def mail_def)
qed

lemma calm_new_session:
  assumes "map_of (db_sessions db) key = None" "sn_last row' = 0"
  shows "calm_step db (set_session key row' db)"
proof -
  have "row_grows db (set_session key row' db)"
    unfolding row_grows_def set_session_def
    by (rule disjI2, rule disjI2, rule exI[of _ key], rule exI[of _ row']) (simp add: assms)
  then show ?thesis by (simp add: calm_step_def set_session_def mail_def)
qed

lemma calm_steps:
  "PgSaveCheckpoint t h cp db = Inr db' \<Longrightarrow> calm_step db db'"
  "PgSaveCommandResult t h r db = Inr db' \<Longrightarrow> calm_step db db'"
  "PgSaveConsumerOffset h consumer n db = Inr db' \<Longrightarrow> calm_step db db'"
  "PutBlob digest h mime data db = Inr (db', d) \<Longrightarrow> calm_step db db'"
  "ClaimOutbox t t' c i limit lease db = Inr (db', rows) \<Longrightarrow> calm_step db db'"
  "calm_step db (fst (MarkOutboxPublished t c i ids db))"
  by (auto simp: PgSaveCheckpoint_def PgSaveCommandResult_def PgSaveConsumerOffset_def PutBlob_def ClaimOutbox_def MarkOutboxPublished_def Let_def
      split: if_splits sum.splits dest!: withFenceTx_Inr intro!: calm_same_rows simp: mail_def)

lemma calm_rows:
  "bindFence t key fence ro db = Inr db' \<Longrightarrow> calm_step db db'"
  "calm_step db (fst (update_cwd t key opts db))"
  "UpdateMetaProjection t key fence n k db = Inr db' \<Longrightarrow> calm_step db db'"
  "PgPin t c tenant sid b db = Inr db' \<Longrightarrow> calm_step db db'"
  by (auto simp: bindFence_def update_cwd_def UpdateMetaProjection_def PgPin_def Let_def split: option.splits if_splits
      intro: calm_same_rows calm_set_session)

lemma calm_insert: "calm_step db (fst (insert_session t key opts db))"
  by (auto simp: insert_session_def intro: calm_same_rows calm_new_session)

text \<open>An import adds a session with the events and streams of a journal, and no row to the outbox.\<close>

definition copies :: "skey \<Rightarrow> RuntimeJournal \<Rightarrow> pg_db \<Rightarrow> pg_db \<Rightarrow> bool" where
  "copies key source db db' \<longleftrightarrow>
     map_of (db_sessions db) key = None \<and> (\<exists>row. db_sessions db' = mput key row (db_sessions db) \<and> sn_last row = Head source) \<and>
     db_events db' = db_events db @ map (\<lambda>e. (key, e\<lparr>SessionID := snd (snd key)\<rparr>)) (sort_key Seq (j_events source)) \<and>
     mail db' = mail db \<and> db_serial db' = db_serial db \<and> map_of (db_imports db) key = None \<and>
     (\<exists>im. map_of (db_imports db') = (map_of (db_imports db))(key \<mapsto> im) \<and> im_count im = int (length (j_events source))) \<and>
     (\<forall>k st. map_of (db_streams db') (k, st) =
        (case if k = key then map_of (j_streams source) st else None of Some row \<Rightarrow> Some row | None \<Rightarrow> map_of (db_streams db) (k, st)))"

lemma insert_new_taken: "insert_new rows t = Some t' \<Longrightarrow> map_of t k \<noteq> None \<Longrightarrow> map_of rows k = None"
  by (induction rows t rule: insert_new.induct) (auto simp: update_conv' split: if_splits)

lemma insert_new_map: "insert_new rows t = Some t' \<Longrightarrow> map_of t' k = (case map_of rows k of Some v \<Rightarrow> Some v | None \<Rightarrow> map_of t k)"
proof (induction rows t rule: insert_new.induct)
  case (2 k' v rows t)
  then have rec: "insert_new rows (mput k' v t) = Some t'" by (auto split: if_splits)
  then have "map_of rows k' = None" using insert_new_taken[of rows "mput k' v t" t' k'] by (simp add: update_conv')
  then show ?case using 2(1) rec 2(2) by (auto simp: update_conv' split: if_splits option.splits)
qed simp

lemma map_of_keyed: "map_of (map (\<lambda>(i, v). ((key, i), v)) xs) (k, st) = (if k = key then map_of xs st else None)"
  by (induction xs) auto

lemma copy_events_rows:
  "copy_events key evs db = Some db' \<Longrightarrow> db' = db\<lparr>db_events := db_events db @ map (\<lambda>e. (key, e\<lparr>SessionID := snd (snd key)\<rparr>)) evs\<rparr>"
  by (induction key evs db rule: copy_events.induct) (auto simp: Let_def split: if_splits)

lemma copy_blobs_rows: "\<exists>bs. copy_blobs key blobs db = db\<lparr>db_blobs := bs\<rparr>"
proof -
  have "\<exists>bs. foldl (\<lambda>d (dig, data, mime). let k = (fst key, fst (snd key), dig) in
      if map_of (db_blobs d) k \<noteq> None then d else d\<lparr>db_blobs := mput k (data, mime) (db_blobs d)\<rparr>) db blobs = db\<lparr>db_blobs := bs\<rparr>"
  proof (induction blobs rule: rev_induct)
    case Nil
    have "db = db\<lparr>db_blobs := db_blobs db\<rparr>" by simp
    then show ?case by (metis foldl_Nil)
  qed (auto simp: Let_def)
  then show ?thesis by (simp add: copy_blobs_def)
qed

lemma copy_all_rows:
  assumes "copy_all key source blobs db = Some db'"
  shows "db_sessions db' = db_sessions db" "db_outbox db' = db_outbox db" "db_serial db' = db_serial db" "db_imports db' = db_imports db"
    "db_events db' = db_events db @ map (\<lambda>e. (key, e\<lparr>SessionID := snd (snd key)\<rparr>)) (sort_key Seq (j_events source))"
    "map_of (db_streams db') (k, st) =
        (case if k = key then map_of (j_streams source) st else None of Some row \<Rightarrow> Some row | None \<Rightarrow> map_of (db_streams db) (k, st))"
proof -
  obtain streams db2 where st: "insert_new (map (\<lambda>(i, row). ((key, i), row)) (j_streams source)) (db_streams db) = Some streams"
    and ev: "copy_events key (sort_key Seq (j_events source)) (copy_blobs key blobs (db\<lparr>db_streams := streams\<rparr>)) = Some db2" and aux: "copy_aux key source db2 = Some db'"
    using assms by (auto simp: copy_all_def copy_streams_def split: option.splits)
  obtain bs where "copy_blobs key blobs (db\<lparr>db_streams := streams\<rparr>) = db\<lparr>db_streams := streams, db_blobs := bs\<rparr>" using copy_blobs_rows by metis
  then have db2: "db2 = db\<lparr>db_streams := streams, db_blobs := bs, db_events := db_events db @ map (\<lambda>e. (key, e\<lparr>SessionID := snd (snd key)\<rparr>)) (sort_key Seq (j_events source))\<rparr>"
    using copy_events_rows[OF ev] by simp
  obtain cps cmds offs where db': "db' = db2\<lparr>db_checkpoints := cps, db_commands := cmds, db_offsets := offs\<rparr>"
    using aux by (auto simp: copy_aux_def split: option.splits)
  show "db_sessions db' = db_sessions db" "db_outbox db' = db_outbox db" "db_serial db' = db_serial db" "db_imports db' = db_imports db"
    "db_events db' = db_events db @ map (\<lambda>e. (key, e\<lparr>SessionID := snd (snd key)\<rparr>)) (sort_key Seq (j_events source))"
    by (simp_all add: db' db2)
  show "map_of (db_streams db') (k, st) =
        (case if k = key then map_of (j_streams source) st else None of Some row \<Rightarrow> Some row | None \<Rightarrow> map_of (db_streams db) (k, st))"
    using insert_new_map[OF st, of "(k, st)"] by (simp add: db' db2 map_of_keyed)
qed

lemma import_copies:
  assumes "ImportLocalRuntime checksum intact span counts c tenant sid cwd' mig fence source blobs dry db = Inr db'"
  shows "db' = db \<or> copies (c, normalizedTenantID tenant, sid) source db db'"
proof (cases "dry \<or> map_of (db_imports db) (c, normalizedTenantID tenant, sid) \<noteq> None")
  case True
  then show ?thesis using assms by (auto simp: ImportLocalRuntime_def Let_def split: if_splits option.splits)
next
  case False
  let ?key = "(c, normalizedTenantID tenant, sid)"
  let ?row = "\<lparr>sn_cwd = cwd', sn_created = fst span, sn_updated = snd span, sn_messages = fst counts, sn_turns = snd counts, sn_pinned = False,
                   sn_status = ''idle'', sn_last = Head source, sn_fence = fence\<rparr>"
  let ?im = "\<lambda>status. \<lparr>im_migration = mig, im_status = status, im_count = int (length (j_events source)), im_checksum = history_digest checksum (j_events source)\<rparr>"
  let ?db = "set_session ?key ?row (db\<lparr>db_imports := mput ?key (?im ''running'') (db_imports db)\<rparr>)"
  obtain db1 where one: "copy_all ?key source blobs ?db = Some db1" "db' = db1\<lparr>db_imports := mput ?key (?im ''completed'') (db_imports db1)\<rparr>"
    "map_of (db_sessions db) ?key = None"
    using assms False unfolding ImportLocalRuntime_def Let_def by (auto split: if_splits option.splits)
  note rows = copy_all_rows[OF one(1)]
  have streams: "db_streams ?db = db_streams db" "db_outbox ?db = db_outbox db" "db_serial ?db = db_serial db" "db_events ?db = db_events db" by (simp_all add: set_session_def)
  have "db_sessions db' = mput ?key ?row (db_sessions db)" "sn_last ?row = Head source" using rows(1) by (simp_all add: one(2) set_session_def)
  moreover have "map_of (db_imports db') = (map_of (db_imports db))(?key \<mapsto> ?im ''completed'')" "im_count (?im ''completed'') = int (length (j_events source))"
    using rows(4) by (simp_all add: one(2) set_session_def update_conv')
  moreover have "map_of (db_imports db) ?key = None" using False by simp
  moreover have "mail db' = mail db" "db_serial db' = db_serial db"
    "db_events db' = db_events db @ map (\<lambda>e. (?key, e\<lparr>SessionID := snd (snd ?key)\<rparr>)) (sort_key Seq (j_events source))"
    using rows(2,3,5) unfolding one(2) streams by (simp_all add: mail_def)
  moreover have "map_of (db_streams db') (k, st) =
      (case if k = ?key then map_of (j_streams source) st else None of Some row \<Rightarrow> Some row | None \<Rightarrow> map_of (db_streams db) (k, st))" for k st
    using rows(6)[of k st] unfolding one(2) streams by simp
  ultimately show ?thesis using one(3) unfolding copies_def by blast
qed

lemma import_kind:
  assumes "ImportLocalRuntime checksum intact span counts c tenant sid cwd' mig fence source blobs dry db = Inr db'" "journal_reachable source"
  shows "calm_step db db' \<or> (\<exists>key source. copies key source db db' \<and> wf_journal source)"
  using import_copies[OF assms(1)] reachable_wf[OF assms(2)] calm_same_rows[of db db] by auto

lemma step_kinds:
  "pg_step db db' \<Longrightarrow> calm_step db db' \<or> (\<exists>uuid now upd h e p created. PgAppend uuid now upd h e p db = Inr (db', created)) \<or>
    (\<exists>key source. copies key source db db' \<and> wf_journal source)"
  by (elim pg_stepE) (blast intro: calm_create calm_steps calm_rows calm_insert dest: import_kind)+

section \<open>Every session holds a journal\<close>

lemma wf_journal_cong:
  assumes "wf_journal j" "j_sessionID j' = j_sessionID j" "j_events j' = j_events j" "j_nextSeq j' = j_nextSeq j" "heads j' = heads j"
  shows "wf_journal j'"
  using assms by (simp add: wf_journal_def wf_rows_def)

lemma next_seq_calm:
  assumes "row_grows db db'" shows "j_nextSeq (journal_of key db') = j_nextSeq (journal_of key db)"
  using assms by (auto simp: row_grows_def journal_of_def update_conv')

lemma heads_of: "heads (journal_of key d) = (\<lambda>st. map_option sr_Head (map_of (db_streams d) (key, st)))"
  by (rule ext) (simp add: heads_def journal_of_def)

lemma wf_calm:
  assumes "wf_journal (journal_of key db)" "calm_step db db'"
  shows "wf_journal (journal_of key db')"
proof -
  have ev: "j_events (journal_of key db') = j_events (journal_of key db)"
    using assms(2) by (simp add: calm_step_def journal_of_def session_events_def)
  have sid: "j_sessionID (journal_of key db') = j_sessionID (journal_of key db)" by (simp add: journal_of_def)
  have nxt: "j_nextSeq (journal_of key db') = j_nextSeq (journal_of key db)" using assms(2) next_seq_calm by (simp add: calm_step_def)
  note hd = heads_of
  show ?thesis
  proof (cases "db_streams db' = db_streams db")
    case True
    then show ?thesis using wf_journal_cong[OF assms(1) sid ev nxt] by (simp add: hd)
  next
    case False
    then obtain k row where k: "map_of (db_streams db) k = None" "sr_Head row = 0" "db_streams db' = mput k row (db_streams db)"
      using assms(2) by (auto simp: calm_step_def)
    show ?thesis
    proof (cases "fst k = key")
      case False
      then have "heads (journal_of key db') = heads (journal_of key db)" unfolding hd k(3) by (cases k) (auto simp: update_conv')
      then show ?thesis by (rule wf_journal_cong[OF assms(1) sid ev nxt])
    next
      case True
      then have "heads (journal_of key db') = (heads (journal_of key db))(snd k \<mapsto> 0)"
        unfolding hd k(3) using k(2) by (cases k) (auto simp: update_conv')
      moreover have "heads (journal_of key db) (snd k) = None" unfolding hd using k(1) True by (metis option.map_disc_iff prod.collapse)
      ultimately show ?thesis
        using wf_rows_new_stream[OF assms(1)[unfolded wf_journal_def]] ev sid nxt by (simp add: wf_journal_def wf_rows_def)
    qed
  qed
qed

lemma append_tx_other:
  assumes "append_tx uuid now upd key fence st expected pending db = Inr (db', created)" "key' \<noteq> key"
  shows "journal_of key' db' = journal_of key' db"
proof -
  from append_tx_cases[OF assms(1)] obtain row stream db1 seq' head' where
    ins: "insert_rows uuid now key st 0 db (sn_last row) (sr_Head stream) pending = Inr (db1, seq', head', created)"
    and db': "db' = set_session key (row\<lparr>sn_last := seq', sn_updated := upd\<rparr>)
       (db1\<lparr>db_streams := mput (key, st) (stream\<lparr>sr_Head := head'\<rparr>) (db_streams db1)\<rparr>)" by metis
  have "filter (\<lambda>r. fst r = key') (map (Pair key) created) = []" using assms(2) by (auto simp: filter_empty_conv)
  then show ?thesis using insert_rows_tables[OF ins] assms(2)
    by (simp add: journal_of_def db' set_session_def part_mput session_events_def update_conv')
qed

lemma PgAppend_tx:
  assumes "PgAppend uuid now upd h expected pending db = Inr (db', created)"
  obtains "pending = []" "db' = db" "created = []"
  | st where "append_tx uuid now upd (store_key h) (ps_fenceToken h) st expected pending db = Inr (db', created)" "pending \<noteq> []"
proof (cases pending)
  case Nil
  then show ?thesis using assms that(1) by (simp add: PgAppend_def split: if_splits)
next
  case (Cons p ps)
  then show ?thesis using assms that(2) by (auto simp: PgAppend_def Let_def split: if_splits option.splits)
qed

lemma wf_append:
  assumes "wf_journal (journal_of key db)" "PgAppend uuid now upd h expected pending db = Inr (db', created)"
  shows "wf_journal (journal_of key db')"
proof (cases "key = store_key h")
  case True
  then show ?thesis using Append_spec[OF _ append_simulates[OF assms(2)]] assms(1) by blast
next
  case False
  from assms(2) have "journal_of key db' = journal_of key db" by (rule PgAppend_tx) (use append_tx_other False in auto)
  then show ?thesis using assms(1) by simp
qed

text \<open>Without its row a session has neither events nor streams.\<close>

definition rows_first :: "pg_db \<Rightarrow> bool" where
  "rows_first db \<longleftrightarrow> (\<forall>key. map_of (db_sessions db) key = None \<longrightarrow> session_events key db = [] \<and> (\<forall>st. map_of (db_streams db) (key, st) = None))"

lemma rows_firstD:
  assumes "rows_first db" "map_of (db_sessions db) key = None"
  shows "session_events key db = []" "map_of (db_streams db) (key, st) = None"
  using assms unfolding rows_first_def by blast+

lemma rows_first_calm: "rows_first db \<Longrightarrow> calm_step db db' \<Longrightarrow> rows_first db'"
proof -
  assume rf: "rows_first db" and calm: "calm_step db db'"
  have "session_events key db' = [] \<and> (\<forall>st. map_of (db_streams db') (key, st) = None)" if none: "map_of (db_sessions db') key = None" for key
  proof -
    have "map_of (db_sessions db) key = None" using none calm unfolding calm_step_def row_grows_def by (auto simp: update_conv' split: if_splits)
    then show ?thesis using rows_firstD[OF rf, of key] calm unfolding calm_step_def session_events_def by (auto simp: update_conv')
  qed
  then show ?thesis unfolding rows_first_def by blast
qed

lemma rows_first_append:
  assumes "rows_first db" "PgAppend uuid now upd h expected pending db = Inr (db', created)" shows "rows_first db'"
  using assms(2)
proof (rule PgAppend_tx)
  fix st assume "append_tx uuid now upd (store_key h) (ps_fenceToken h) st expected pending db = Inr (db', created)"
  then show ?thesis
  proof (rule append_tx_cases)
    fix row stream db1 seq' head'
    assume ins: "insert_rows uuid now (store_key h) st 0 db (sn_last row) (sr_Head stream) pending = Inr (db1, seq', head', created)"
      and row: "map_of (db_sessions db) (store_key h) = Some row"
      and db': "db' = set_session (store_key h) (row\<lparr>sn_last := seq', sn_updated := upd\<rparr>)
         (db1\<lparr>db_streams := mput (store_key h, st) (stream\<lparr>sr_Head := head'\<rparr>) (db_streams db1)\<rparr>)"
    show ?thesis using assms(1) insert_rows_tables[OF ins] row
      by (auto simp: rows_first_def db' set_session_def update_conv' session_events_def filter_empty_conv)
  qed
qed (use assms(1) in simp)

lemma rows_first_copies: "rows_first db \<Longrightarrow> copies key source db db' \<Longrightarrow> rows_first db'"
  unfolding rows_first_def copies_def by (auto simp: update_conv' session_events_def filter_empty_conv split: if_splits)

lemma reachable_rows_first: "pg_reachable db \<Longrightarrow> rows_first db"
proof (induction rule: pg_reachable.induct)
  case fresh
  show ?case by (simp add: rows_first_def empty_db_def session_events_def)
next
  case (step db db')
  then show ?case using step_kinds rows_first_calm rows_first_append rows_first_copies by metis
qed

lemma Head_bound:
  assumes "wf_journal j" "e \<in> set (j_events j)" shows "Seq e \<le> Head j"
proof -
  have "x \<in> set (a # xs) \<Longrightarrow> x \<le> foldl max a xs" for a :: int and x xs
  proof -
    have "foldl max a xs = fold max xs a" by (induction xs arbitrary: a) (simp_all add: max.commute)
    then show "x \<in> set (a # xs) \<Longrightarrow> x \<le> foldl max a xs" using Max_ge[of "set (a # xs)" x] Max.set_eq_fold[of a xs] by (metis List.finite_set)
  qed
  moreover have "Seq e \<in> set (Seq (hd (j_events j)) # map Seq (tl (j_events j)))" using assms(2) by (cases "j_events j") auto
  ultimately show ?thesis using assms(2) by (auto simp: Head_def)
qed

lemma sort_key_order: "journal_order es \<Longrightarrow> sort_key Seq (filter P es) = filter P es"
proof -
  assume "journal_order es"
  then have "sorted_wrt (\<lambda>a b. Seq a \<le> Seq b) es"
    unfolding journal_order_def using sorted_wrt_mono_rel[of es "\<lambda>a b. Seq a < Seq b" "\<lambda>a b. Seq a \<le> Seq b"] by auto
  then have "sorted (map Seq es)" by (simp add: sorted_map)
  then show ?thesis by (intro sort_key_id_if_sorted sorted_filter)
qed

lemma copies_events:
  assumes "copies key source db db'" "wf_journal source"
  shows "session_events k db' = session_events k db @ (if k = key then map (\<lambda>e. e\<lparr>SessionID := snd (snd key)\<rparr>) (j_events source) else [])"
proof -
  have "sort_key Seq (j_events source) = j_events source"
    using sort_key_order[of "j_events source" "\<lambda>_. True"] assms(2) by (simp add: wf_journal_def wf_rows_def)
  then show ?thesis using assms(1) by (auto simp: copies_def session_events_def filter_empty_conv filter_map o_def)
qed

lemma wf_copies:
  assumes "rows_first db" "wf_journal (journal_of k db)" "copies key source db db'" "wf_journal source"
  shows "wf_journal (journal_of k db')"
proof -
  have streams: "map_of (db_streams db') (k, st) =
      (case if k = key then map_of (j_streams source) st else None of Some row \<Rightarrow> Some row | None \<Rightarrow> map_of (db_streams db) (k, st))" for k st
    using assms(3) unfolding copies_def by blast
  show ?thesis
proof (cases "k = key")
  case False
  have "heads (journal_of k db') = heads (journal_of k db)" using streams False by (simp add: heads_of)
  moreover have "j_nextSeq (journal_of k db') = j_nextSeq (journal_of k db)" using assms(3) False by (auto simp: journal_of_def copies_def update_conv')
  ultimately show ?thesis using wf_journal_cong[OF assms(2)] copies_events[OF assms(3,4), of k] False by (simp add: journal_of_def)
next
  case True
  have none: "map_of (db_sessions db) key = None" using assms(3) by (simp add: copies_def)
  note new = rows_firstD[OF assms(1) none]
  have h: "heads (journal_of key db') = heads source"
    using new(2) by (auto simp: heads_of streams heads_def fun_eq_iff split: option.splits)
  have nxt: "j_nextSeq (journal_of key db') = Head source + 1" using assms(3) by (auto simp: journal_of_def copies_def update_conv')
  have ev: "j_events (journal_of key db') = map (\<lambda>e. e\<lparr>SessionID := snd (snd key)\<rparr>) (j_events source)"
    using copies_events[OF assms(3,4), of key] new(1) by (simp add: journal_of_def)
  have pos: "0 \<le> Head source"
  proof (cases "j_events source")
    case (Cons e es)
    then show ?thesis using Head_bound[OF assms(4), of e] assms(4) by (auto simp: wf_journal_def wf_rows_def journal_order_def)
  qed (simp add: Head_def)
  have "journal_order (map (\<lambda>e. e\<lparr>SessionID := snd (snd key)\<rparr>) (j_events source))"
    using assms(4) by (simp add: wf_journal_def wf_rows_def journal_order_def sorted_wrt_map list_all_iff)
  moreover have "\<forall>e \<in> set (j_events source). Seq e < Head source + 1" using Head_bound[OF assms(4)] by (auto intro: le_less_trans)
  moreover have "map EventID (map (\<lambda>e. e\<lparr>SessionID := snd (snd key)\<rparr>) (j_events source)) = map EventID (j_events source)" by simp
  moreover have "map StreamSeq (filter (\<lambda>e. StreamID e = st) (map (\<lambda>e. e\<lparr>SessionID := snd (snd key)\<rparr>) (j_events source))) =
      map StreamSeq (filter (\<lambda>e. StreamID e = st) (j_events source))" for st by (simp add: filter_map o_def)
  moreover have "j_sessionID (journal_of key db') = snd (snd key)" by (simp add: journal_of_def)
  ultimately show ?thesis using assms(4) pos unfolding True wf_journal_def wf_rows_def h nxt ev by (auto simp: o_def)
qed
qed

lemma reachable_wf_sessions: "pg_reachable db \<Longrightarrow> wf_journal (journal_of key db)"
proof (induction rule: pg_reachable.induct)
  case fresh
  show ?case by (simp add: wf_journal_def wf_rows_def journal_of_def empty_db_def heads_def session_events_def part_def journal_order_def)
next
  case (step db db')
  then show ?case using step_kinds[OF step(2)] wf_calm wf_append wf_copies[OF reachable_rows_first[OF step(1)]] by metis
qed

definition session_ok :: "PostgresRuntimeStore \<times> pg_db \<Rightarrow> bool" where
  "session_ok x \<longleftrightarrow> wf_journal (journal_of (store_key (fst x)) (snd x))"

interpretation postgres: event_store "\<lambda>x. PgLoad (fst x) (snd x)" "\<lambda>x. session_events (store_key (fst x)) (snd x)" session_ok
proof
  fix x :: "PostgresRuntimeStore \<times> pg_db" and a n assume "session_ok x"
  then show ord: "journal_order (session_events (store_key (fst x)) (snd x))"
    by (simp add: session_ok_def wf_journal_def wf_rows_def journal_of_def)
  show "PgLoad (fst x) (snd x) a n =
    take (nat (normalizedLimit n)) (filter (\<lambda>e. a < Seq e) (session_events (store_key (fst x)) (snd x)))"
    by (simp add: PgLoad_def sort_key_order[OF ord])
qed

section \<open>Fencing\<close>

definition fence_at :: "skey \<Rightarrow> pg_db \<Rightarrow> int option" where
  "fence_at key db = map_option sn_fence (map_of (db_sessions db) key)"

lemma fence_calm: "row_grows db db' \<Longrightarrow> fence_at key db = Some f \<Longrightarrow> \<exists>f'. fence_at key db' = Some f' \<and> f \<le> f'"
  by (auto simp: row_grows_def fence_at_def update_conv')

lemma fence_append:
  assumes "PgAppend uuid now upd h expected pending db = Inr (db', created)" shows "fence_at key db' = fence_at key db"
proof -
  have "fence_at key db' = fence_at key db" if "append_tx uuid now upd (store_key h) (ps_fenceToken h) st expected pending db = Inr (db', created)" for st
  proof -
    from append_tx_cases[OF that] obtain row stream db1 seq' head' where row: "map_of (db_sessions db) (store_key h) = Some row"
      and ins: "insert_rows uuid now (store_key h) st 0 db (sn_last row) (sr_Head stream) pending = Inr (db1, seq', head', created)"
      and db': "db' = set_session (store_key h) (row\<lparr>sn_last := seq', sn_updated := upd\<rparr>)
         (db1\<lparr>db_streams := mput (store_key h, st) (stream\<lparr>sr_Head := head'\<rparr>) (db_streams db1)\<rparr>)" by metis
    show ?thesis using row insert_rows_tables[OF ins] by (simp add: fence_at_def db' set_session_def update_conv')
  qed
  then show ?thesis using assms by (elim PgAppend_tx) auto
qed

lemma fence_steps:
  assumes "pg_step\<^sup>*\<^sup>* db db'" "fence_at key db = Some f" shows "\<exists>f'. fence_at key db' = Some f' \<and> f \<le> f'"
  using assms(1)
proof (induction rule: rtranclp_induct)
  case base
  then show ?case using assms(2) by simp
next
  case (step d d')
  then obtain g where g: "fence_at key d = Some g" "f \<le> g" by blast
  from step_kinds[OF step(2)] show ?case
  proof (elim disjE)
    assume "calm_step d d'"
    then show ?thesis using fence_calm[of d d' key g] g by (auto simp: calm_step_def intro: order_trans)
  next
    assume "\<exists>uuid now upd h e p created. PgAppend uuid now upd h e p d = Inr (d', created)"
    then show ?thesis using fence_append g by metis
  next
    assume "\<exists>key source. copies key source d d' \<and> wf_journal source"
    then show ?thesis using g by (auto simp: copies_def fence_at_def update_conv')
  qed
qed

lemma stale_check: "fence_at key db = Some f \<Longrightarrow> 0 < a \<Longrightarrow> a < f \<Longrightarrow> checkFenceTx key a db = Some ErrSessionFenceLost"
  by (auto simp: checkFenceTx_def fence_at_def)

lemma stale_append:
  assumes "fence_at (store_key h) db = Some f" "0 < ps_fenceToken h" "ps_fenceToken h < f" "pending \<noteq> []"
  shows "isl (PgAppend uuid now upd h expected pending db)"
proof (rule ccontr)
  assume "\<not> ?thesis"
  then obtain db' created where "PgAppend uuid now upd h expected pending db = Inr (db', created)"
    by (metis isl_def obj_sumE surj_pair)
  then show False
  proof (rule PgAppend_tx)
    fix st assume "append_tx uuid now upd (store_key h) (ps_fenceToken h) st expected pending db = Inr (db', created)"
    then show False by (rule append_tx_cases) (use assms in \<open>auto simp: fence_at_def\<close>)
  qed (use assms(4) in simp)
qed

section \<open>Outbox\<close>

text \<open>The events an import copied are the first of their session; they have no row in the outbox.\<close>

definition imported :: "skey \<Rightarrow> pg_db \<Rightarrow> nat" where
  "imported key db = (case map_of (db_imports db) key of None \<Rightarrow> 0 | Some im \<Rightarrow> nat (im_count im))"

definition outbox_ok :: "pg_db \<Rightarrow> bool" where
  "outbox_ok db \<longleftrightarrow>
     (\<forall>key. map (\<lambda>(_, _, _, ev). ev) (filter (\<lambda>(_, k, _, _). k = key) (mail db)) = drop (imported key db) (session_events key db) \<and>
        imported key db \<le> length (session_events key db)) \<and>
     (\<forall>(i, _, n, ev) \<in> set (mail db). n = Seq ev \<and> i < db_serial db) \<and> distinct (map fst (mail db))"

lemma outbox_new_row:
  assumes "outbox_ok db" "\<not> pg_violates key db ev"
  shows "outbox_ok (insert_outbox key ev (db\<lparr>db_events := db_events db @ [(key, ev)]\<rparr>))"
proof -
  have "Seq ev \<noteq> ob_seq r" if "r \<in> set (db_outbox db)" "ob_key r = key" for r
  proof -
    have "(ob_id r, ob_key r, ob_seq r, ob_event r) \<in> set (mail db)" using that(1) by (auto simp: mail_def)
    then have "ob_event r \<in> set (map (\<lambda>(_, _, _, ev). ev) (filter (\<lambda>(_, k, _, _). k = key) (mail db)))" "ob_seq r = Seq (ob_event r)"
      using that(2) assms(1) by (force, auto simp: outbox_ok_def)
    moreover from this(1) have "ob_event r \<in> set (session_events key db)" using assms(1) unfolding outbox_ok_def by (metis in_set_dropD)
    then have "(key, ob_event r) \<in> set (db_events db)" by (auto simp: session_events_def)
    ultimately show ?thesis using assms(2) by (auto simp: pg_violates_def list_ex_iff)
  qed
  then have "\<not> list_ex (\<lambda>r. ob_key r = key \<and> ob_seq r = Seq ev) (db_outbox db)" unfolding list_ex_iff by fastforce
  then have new: "mail (insert_outbox key ev (db\<lparr>db_events := db_events db @ [(key, ev)]\<rparr>)) = mail db @ [(db_serial db, key, Seq ev, ev)]"
    "db_serial (insert_outbox key ev (db\<lparr>db_events := db_events db @ [(key, ev)]\<rparr>)) = db_serial db + 1"
    by (simp_all add: insert_outbox_def mail_def)
  have "session_events k (insert_outbox key ev (db\<lparr>db_events := db_events db @ [(key, ev)]\<rparr>)) = session_events k db @ (if key = k then [ev] else [])" for k
    by (simp add: session_events_def)
  moreover have "imported k (insert_outbox key ev (db\<lparr>db_events := db_events db @ [(key, ev)]\<rparr>)) = imported k db" for k
    by (simp add: imported_def)
  ultimately show ?thesis using assms(1) unfolding outbox_ok_def new by (auto simp: case_prod_beta intro: le_SucI)
qed

lemma outbox_insert_rows:
  "insert_rows uuid now key st k db seq head items = Inr (db', seq', head', evs) \<Longrightarrow> outbox_ok db \<Longrightarrow> outbox_ok db'"
proof (induction items arbitrary: k db seq head evs)
  case (Cons item items)
  then obtain payload where p: "pe_Payload item = Some payload" by (auto split: option.splits)
  let ?ev = "pg_event uuid now (snd (snd key)) st k (seq + 1) (head + 1) item payload"
  have "\<not> pg_violates key db ?ev" using Cons.prems(1) p by (auto simp: Let_def)
  moreover from this obtain evs' where "insert_rows uuid now key st (Suc k)
      (insert_outbox key ?ev (db\<lparr>db_events := db_events db @ [(key, ?ev)]\<rparr>)) (seq + 1) (head + 1) items = Inr (db', seq', head', evs')"
    using Cons.prems(1) p by (auto simp: Let_def split: sum.splits)
  ultimately show ?case using Cons.IH outbox_new_row[OF Cons.prems(2)] by blast
qed simp

lemma outbox_ok_cong: "outbox_ok db \<Longrightarrow> mail db' = mail db \<Longrightarrow> db_serial db' = db_serial db \<Longrightarrow> db_events db' = db_events db \<Longrightarrow>
  db_imports db' = db_imports db \<Longrightarrow> outbox_ok db'"
  by (simp add: outbox_ok_def session_events_def imported_def)

lemma outbox_copies:
  assumes "outbox_ok db" "rows_first db" "copies key source db db'" "wf_journal source" shows "outbox_ok db'"
proof -
  have same: "mail db' = mail db" "db_serial db' = db_serial db" using assms(3) by (simp_all add: copies_def)
  have imp: "imported k db' = (if k = key then length (j_events source) else imported k db)" for k
    using assms(3) by (auto simp: imported_def copies_def)
  have "map_of (db_sessions db) key = None" using assms(3) by (simp add: copies_def)
  note new = rows_firstD(1)[OF assms(2) this]
  have le: "imported k db \<le> length (session_events k db)" for k using assms(1) unfolding outbox_ok_def by blast
  have "drop (imported k db') (session_events k db') = drop (imported k db) (session_events k db) \<and> imported k db' \<le> length (session_events k db')" for k
    using new le[of k] by (cases "k = key") (auto simp: copies_events[OF assms(3,4)] imp)
  then show ?thesis using assms(1) unfolding outbox_ok_def same by simp
qed

lemma outbox_append:
  assumes "PgAppend uuid now upd h expected pending db = Inr (db', created)" "outbox_ok db" shows "outbox_ok db'"
  using assms(1)
proof (rule PgAppend_tx)
  fix st assume "append_tx uuid now upd (store_key h) (ps_fenceToken h) st expected pending db = Inr (db', created)"
  then show ?thesis
    by (rule append_tx_cases) (auto simp: set_session_def mail_def intro: outbox_ok_cong[OF outbox_insert_rows[OF _ assms(2)]])
qed (use assms(2) in simp)

lemma reachable_outbox_ok: "pg_reachable db \<Longrightarrow> outbox_ok db"
proof (induction rule: pg_reachable.induct)
  case fresh
  show ?case by (simp add: outbox_ok_def mail_def empty_db_def session_events_def imported_def)
next
  case (step db db')
  have calm: "calm_step db db' \<Longrightarrow> outbox_ok db'" using outbox_ok_cong[OF step.IH] by (simp add: calm_step_def)
  show ?case using step_kinds[OF step(2)] calm outbox_append[OF _ step.IH] outbox_copies[OF step.IH reachable_rows_first[OF step(1)]] by blast
qed

section \<open>Properties\<close>

definition writer :: "int \<Rightarrow> PostgresRuntimeStore" where
  "writer fence = \<lparr>ps_clusterID = ''c'', ps_tenantID = ''t'', ps_sessionID = ''s'', ps_fenceToken = fence, ps_readOnly = False\<rparr>"

definition sample_open :: "int \<Rightarrow> pg_db \<Rightarrow> pg_db" where
  "sample_open fence db = fst (OpenRuntime sample_uuid (\<lambda>_. 9) 9 ''c'' ''t'' ''s''
     \<lparr>oo_CreateIfMissing = True, oo_ReadOnly = False, oo_FenceToken = fence, oo_CWD = ''/w''\<rparr> db)"

lemma open_store_steps: "pg_step\<^sup>*\<^sup>* db (fst (open_store uuid now upd h created db))"
proof -
  let ?create = "PgCreateStream h \<lparr>sd_ID = ps_sessionID h, sd_Kind = ''session'', sd_ParentID = [], sd_Status = ''idle''\<rparr> db"
  have one: "pg_step\<^sup>*\<^sup>* db db1" if "(if ps_readOnly h then Inr db else ?create) = Inr db1" for db1
    using that by (auto intro: pg_step.create split: if_splits)
  show ?thesis
  proof (cases "if ps_readOnly h then Inr db else ?create")
    case (Inl e)
    then show ?thesis by (simp add: open_store_def Let_def)
  next
    case (Inr db1)
    then show ?thesis using one[OF Inr]
      by (auto simp: open_store_def Let_def split: sum.splits intro: rtranclp.rtrancl_into_rtrancl pg_step.append)
  qed
qed

text \<open>Opening a session is a sequence of transactions.\<close>

lemma OpenRuntime_steps: "pg_step\<^sup>*\<^sup>* db (fst (OpenRuntime uuid now upd c tenant sid opts db))"
proof -
  let ?key = "(c, normalizedTenantID tenant, sid)"
  let ?h = "\<lparr>ps_clusterID = c, ps_tenantID = normalizedTenantID tenant, ps_sessionID = sid, ps_fenceToken = oo_FenceToken opts, ps_readOnly = oo_ReadOnly opts\<rparr>"
  obtain db1 created where ins: "(if oo_CreateIfMissing opts then insert_session upd ?key opts db else (db, False)) = (db1, created)" by fastforce
  have s1: "pg_step\<^sup>*\<^sup>* db db1"
    using ins pg_step.insert[of db upd ?key opts] by (auto split: if_splits)
  have s3: "pg_step\<^sup>*\<^sup>* db db3"
    if bind: "bindFence upd ?key (oo_FenceToken opts) (oo_ReadOnly opts) db1 = Inr db2"
      and cwd: "(if \<not> oo_ReadOnly opts \<and> TrimSpace (oo_CWD opts) \<noteq> [] then update_cwd upd ?key opts db2 else (db2, True)) = (db3, same)" for db2 db3 same
  proof -
    have "pg_step\<^sup>*\<^sup>* db db2" using s1 pg_step.bind[OF bind] by simp
    moreover have "pg_step\<^sup>*\<^sup>* db2 db3" using cwd pg_step.cwd[of db2 upd ?key opts] by (auto split: if_splits)
    ultimately show ?thesis by (rule rtranclp_trans)
  qed
  have s4: "pg_step\<^sup>*\<^sup>* db (fst (open_store uuid now upd ?h created db3))"
    if "bindFence upd ?key (oo_FenceToken opts) (oo_ReadOnly opts) db1 = Inr db2"
      "(if \<not> oo_ReadOnly opts \<and> TrimSpace (oo_CWD opts) \<noteq> [] then update_cwd upd ?key opts db2 else (db2, True)) = (db3, same)" for db2 db3 same
    using rtranclp_trans[OF s3[OF that] open_store_steps] .
  show ?thesis
  proof (cases "TrimSpace sid = [] \<or> (\<not> oo_ReadOnly opts \<and> oo_FenceToken opts \<le> 0)")
    case True
    then show ?thesis using s1 ins by (auto simp: OpenRuntime_def Let_def)
  next
    case False
    show ?thesis
    proof (cases "bindFence upd ?key (oo_FenceToken opts) (oo_ReadOnly opts) db1")
      case (Inl e)
      then show ?thesis using False s1 ins by (auto simp: OpenRuntime_def Let_def)
    next
      case (Inr db2)
      obtain db3 same where cwd: "(if \<not> oo_ReadOnly opts \<and> TrimSpace (oo_CWD opts) \<noteq> [] then update_cwd upd ?key opts db2 else (db2, True)) = (db3, same)"
        by fastforce
      have "OpenRuntime uuid now upd c tenant sid opts db =
          (if \<not> same then (db3, Inl ErrSessionFenceLost) else open_store uuid now upd ?h created db3)"
        using False unfolding OpenRuntime_def Let_def ins Inr sum.case prod.case cwd by auto
      then show ?thesis using s3[OF Inr cwd] s4[OF Inr cwd] by simp
    qed
  qed
qed

lemma reachable_steps: "pg_step\<^sup>*\<^sup>* db db' \<Longrightarrow> pg_reachable db \<Longrightarrow> pg_reachable db'"
  by (induction rule: rtranclp_induct) (auto intro: pg_reachable.step)

lemma sample_open_reachable: "pg_reachable (sample_open 1 empty_db)"
  unfolding sample_open_def by (rule reachable_steps[OF OpenRuntime_steps pg_reachable.fresh])

theorem postgres_append_refines_journal_witness:
  "\<exists>db' created. PgAppend sample_uuid (\<lambda>_. 9) 9 (writer 1) 1 [(sample_pending EventRunStarted [(''run_id'', JStr ''r'')])\<lparr>pe_ID := ''x''\<rparr>] (sample_open 1 empty_db)
      = Inr (db', created) \<and>
     Append sample_uuid (\<lambda>_. 9) 1 [(sample_pending EventRunStarted [(''run_id'', JStr ''r'')])\<lparr>pe_ID := ''x''\<rparr>] (journal_of (''c'', ''t'', ''s'') (sample_open 1 empty_db))
      = Inr (journal_of (''c'', ''t'', ''s'') db', created)"
proof -
  let ?p = "[(sample_pending EventRunStarted [(''run_id'', JStr ''r'')])\<lparr>pe_ID := ''x''\<rparr>]"
  have "isl (PgAppend sample_uuid (\<lambda>_. 9) 9 (writer 1) 1 ?p (sample_open 1 empty_db)) = False" by code_simp
  then obtain db' created where ap: "PgAppend sample_uuid (\<lambda>_. 9) 9 (writer 1) 1 ?p (sample_open 1 empty_db) = Inr (db', created)"
    by (auto simp: isl_def) (metis obj_sumE surj_pair)
  have "store_key (writer 1) = (''c'', ''t'', ''s'')" by (simp add: store_key_def writer_def)
  then show ?thesis using ap postgres_append_refines_journal[OF ap] by auto
qed

text \<open>Whatever the processes of a cluster do, every session they share keeps a proper history: its events have increasing positions,
  the events of each stream are numbered from one to the head of the stream without gaps, and reading the session page by page ends
  and visits exactly the events after the starting position, in order.\<close>

theorem shared_sessions_stay_gapless:
  assumes "pg_reachable db"
  shows "journal_order (session_events key db) \<and>
    (\<forall>st row. map_of (db_streams db) (key, st) = Some row \<longrightarrow>
       map StreamSeq (filter (\<lambda>e. StreamID e = st) (session_events key db)) = [1..sr_Head row]) \<and>
    (store_key h = key \<longrightarrow> replay_pages (length (session_events key db) + 1) (PgLoad h db) f a p =
       Some (apply_page f a p (filter (\<lambda>e. Seq e > a) (session_events key db))))"
proof (intro conjI impI)
  have wf: "wf_journal (journal_of key db)" by (rule reachable_wf_sessions[OF assms])
  then show "journal_order (session_events key db)" by (simp add: wf_journal_def wf_rows_def journal_of_def)
  show "\<forall>st row. map_of (db_streams db) (key, st) = Some row \<longrightarrow>
       map StreamSeq (filter (\<lambda>e. StreamID e = st) (session_events key db)) = [1..sr_Head row]"
    using wf by (auto simp: wf_journal_def wf_rows_def heads_def journal_of_def)
  assume key: "store_key h = key"
  then have "session_ok (h, db)" using wf by (simp add: session_ok_def)
  moreover have "length (filter (\<lambda>e. Seq e > a) (session_events (store_key (fst (h, db))) (snd (h, db)))) < length (session_events key db) + 1"
    using key by (simp add: le_imp_less_Suc)
  ultimately have "replay_pages (length (session_events key db) + 1) (PgLoad (fst (h, db)) (snd (h, db))) f a p =
       Some (apply_page f a p (filter (\<lambda>e. Seq e > a) (session_events (store_key (fst (h, db))) (snd (h, db)))))"
    by (rule postgres.replay_complete)
  then show "replay_pages (length (session_events key db) + 1) (PgLoad h db) f a p =
       Some (apply_page f a p (filter (\<lambda>e. Seq e > a) (session_events key db)))"
    using key by (simp only: fst_conv snd_conv)
qed

theorem shared_sessions_stay_gapless_witness:
  "journal_order (session_events (''c'', ''t'', ''s'') (sample_open 1 empty_db)) \<and>
   map Type (session_events (''c'', ''t'', ''s'') (sample_open 1 empty_db)) = [EventSessionCreated]"
proof
  show "journal_order (session_events (''c'', ''t'', ''s'') (sample_open 1 empty_db))"
    by (rule conjunct1[OF shared_sessions_stay_gapless[OF sample_open_reachable]])
  show "map Type (session_events (''c'', ''t'', ''s'') (sample_open 1 empty_db)) = [EventSessionCreated]" by code_simp
qed

text \<open>C11: The outbox misses nothing and repeats nothing: in every reachable state the outbox rows of a session carry exactly the events that were
  appended to it, once each and in order, and no two rows share an identifier. Only the events a session was imported with have no row: they are
  its first ones, as many as its row in the table of imports counts.\<close>

theorem outbox_carries_every_event_once:
  assumes "pg_reachable db"
  shows "map ob_event (filter (\<lambda>r. ob_key r = key) (db_outbox db)) = drop (imported key db) (session_events key db) \<and>
    imported key db \<le> length (session_events key db) \<and> distinct (map ob_id (db_outbox db))"
proof -
  have ok: "outbox_ok db" by (rule reachable_outbox_ok[OF assms])
  have "map (\<lambda>(_, _, _, ev). ev) (filter (\<lambda>(_, k, _, _). k = key) (mail db)) = map ob_event (filter (\<lambda>r. ob_key r = key) (db_outbox db))"
    by (simp add: mail_def filter_map o_def)
  moreover have "map fst (mail db) = map ob_id (db_outbox db)" by (simp add: mail_def)
  ultimately show ?thesis using ok unfolding outbox_ok_def by metis
qed

theorem outbox_carries_every_event_once_witness:
  "map ob_id (db_outbox (sample_open 1 empty_db)) = [1] \<and>
   map ob_event (filter (\<lambda>r. ob_key r = (''c'', ''t'', ''s'')) (db_outbox (sample_open 1 empty_db))) =
     session_events (''c'', ''t'', ''s'') (sample_open 1 empty_db)"
proof
  have none: "imported (''c'', ''t'', ''s'') (sample_open 1 empty_db) = 0" by code_simp
  show "map ob_id (db_outbox (sample_open 1 empty_db)) = [1]" by code_simp
  show "map ob_event (filter (\<lambda>r. ob_key r = (''c'', ''t'', ''s'')) (db_outbox (sample_open 1 empty_db))) =
     session_events (''c'', ''t'', ''s'') (sample_open 1 empty_db)"
    using outbox_carries_every_event_once[OF sample_open_reachable, of "(''c'', ''t'', ''s'')"] none by simp
qed

text \<open>An imported session keeps its events, none of which is in the outbox.\<close>

lemma imported_events_stay_out_of_the_outbox:
  "case ImportLocalRuntime (\<lambda>rows. concat (map (\<lambda>(_, i, _). i) rows)) True (0, 0) (0, 0) ''c'' ''t'' ''s'' ''/w'' ''m'' 1 sample_journal [] False empty_db of
     Inl _ \<Rightarrow> False
   | Inr db \<Rightarrow> length (session_events (''c'', ''t'', ''s'') db) = 2 \<and> imported (''c'', ''t'', ''s'') db = 2 \<and> db_outbox db = []"
  by code_simp

text \<open>A claim on an outbox row is exclusive while it lasts: until its time has passed no other claim returns the row or changes it,
  and no other instance can mark it published.\<close>

theorem claimed_row_is_left_alone:
  assumes "pg_reachable db" "r \<in> set (db_outbox db)" "ob_until r = Some u" "ob_claimed r = Some a" "now \<le> u" "b \<noteq> a"
  shows "r \<in> set (db_outbox (fst (MarkOutboxPublished t c b ids db))) \<and>
    (\<forall>db' rows. ClaimOutbox now now' c b limit lease db = Inr (db', rows) \<longrightarrow> r \<in> set (db_outbox db') \<and> ob_id r \<notin> set (map ob_id rows))"
proof (intro conjI allI impI)
  show "r \<in> set (db_outbox (fst (MarkOutboxPublished t c b ids db)))"
    using assms by (auto simp: MarkOutboxPublished_def Let_def image_iff intro!: bexI[of _ r])
  fix db' rows assume cl: "ClaimOutbox now now' c b limit lease db = Inr (db', rows)"
  let ?ids = "candidates c now limit db"
  have dist: "distinct (map ob_id (db_outbox db))"
    using reachable_outbox_ok[OF assms(1)] by (simp add: outbox_ok_def mail_def o_def)
  have no: "ob_id r \<notin> set ?ids"
  proof
    assume "ob_id r \<in> set ?ids"
    then obtain r' where r': "r' \<in> set (db_outbox db)" "claimable c now r'" "ob_id r' = ob_id r"
      by (auto simp: candidates_def dest!: in_set_takeD)
    then have "r' = r" using dist assms(2) by (auto simp: distinct_map dest: inj_onD)
    then show False using r'(2) assms(3,5) by (simp add: claimable_def)
  qed
  then show "r \<in> set (db_outbox db')"
    using cl assms(2) by (auto simp: ClaimOutbox_def Let_def image_iff split: if_splits intro!: bexI[of _ r])
  have "ob_id x \<in> set ?ids" if "x \<in> set rows" for x
    using cl that by (auto simp: ClaimOutbox_def Let_def split: if_splits)
  then show "ob_id r \<notin> set (map ob_id rows)" using no by auto
qed

definition claimed_db :: pg_db where
  "claimed_db = (case ClaimOutbox 10 10 ''c'' ''a'' 0 5 (sample_open 1 empty_db) of Inr (db, _) \<Rightarrow> db | Inl _ \<Rightarrow> empty_db)"

theorem claimed_row_is_left_alone_witness:
  "map (\<lambda>r. (ob_claimed r, ob_until r)) (db_outbox claimed_db) = [(Some ''a'', Some 15)] \<and>
   hd (db_outbox claimed_db) \<in> set (db_outbox (fst (MarkOutboxPublished 12 ''c'' ''b'' [1] claimed_db)))"
proof
  have ok: "isl (ClaimOutbox 10 10 ''c'' ''a'' 0 5 (sample_open 1 empty_db)) = False" by code_simp
  then have "pg_reachable claimed_db"
    using sample_open_reachable
    by (auto simp: claimed_db_def isl_def split: sum.splits intro: pg_reachable.step pg_step.claim)
  moreover show "map (\<lambda>r. (ob_claimed r, ob_until r)) (db_outbox claimed_db) = [(Some ''a'', Some 15)]" by code_simp
  then have "hd (db_outbox claimed_db) \<in> set (db_outbox claimed_db)" "ob_until (hd (db_outbox claimed_db)) = Some 15"
    "ob_claimed (hd (db_outbox claimed_db)) = Some ''a''" by (cases "db_outbox claimed_db", auto)+
  ultimately show "hd (db_outbox claimed_db) \<in> set (db_outbox (fst (MarkOutboxPublished 12 ''c'' ''b'' [1] claimed_db)))"
    using claimed_row_is_left_alone[of claimed_db "hd (db_outbox claimed_db)" 15 "''a''" 12 "''b''"] by auto
qed

text \<open>When a session is created without a valid token, its row stays behind without the event of its creation, and no later opening
  writes that event.\<close>

lemma refused_open_leaves_a_bare_session:
  "map (snd) (map (\<lambda>(k, row). (k, sn_last row)) (db_sessions (sample_open 0 empty_db))) = [0] \<and>
   session_events (''c'', ''t'', ''s'') (sample_open 1 (sample_open 0 empty_db)) = []"
  by code_simp

end
