(* ===== verification/Cluster_Lease.thy ===== *)
theory Cluster_Lease
  imports Go_Json
begin

text \<open>
  \<open>cluster/types.go\<close> and \<open>cluster/memory.go\<close>: session leases with fencing tokens, the command bus and the event notifier in
  one process. The mutex makes every operation one step; the goroutine that renews a lease and the two waits of \<open>Forward\<close>
  are steps of their own. Instants and durations are integers (nanoseconds), read from a clock that does not run backwards;
  the identifiers of \<open>uuid.NewString\<close> are arguments. A channel is the list of the values it buffers.
\<close>

section \<open>Types\<close>

record Principal =
  pr_TenantID :: string
  pr_Subject :: string
  pr_Scopes :: "string list"
  pr_TokenID :: string

definition LocalPrincipal :: Principal where
  "LocalPrincipal = \<lparr>pr_TenantID = ''local'', pr_Subject = ''local'',
     pr_Scopes = [''lumina:admin'', ''lumina:session:read'', ''lumina:session:write''], pr_TokenID = []\<rparr>"

definition HasScope :: "Principal \<Rightarrow> string \<Rightarrow> bool" where
  "HasScope p s = List.member (pr_Scopes p) s"

record InstanceInfo =
  ii_InstanceID :: string
  ii_AdvertiseAddr :: string
  ii_Draining :: bool
  ii_StartedAt :: int

record Owner =
  ow_InstanceID :: string
  ow_LeaseID :: string
  ow_FenceToken :: int

record CommandEnvelope =
  env_RequestID :: string
  env_CommandID :: string
  env_GatewayInstanceID :: string
  env_OwnerInstanceID :: string
  env_TenantID :: string
  env_Subject :: string
  env_SessionID :: string
  env_TeamSessionID :: string
  env_A2AAgentID :: string
  env_Method :: string
  env_Params :: "json option"
  env_Deadline :: int
  env_FenceToken :: int
  env_StreamID :: string

record CommandResponse =
  rs_RequestID :: string
  rs_OK :: bool
  rs_Result :: "json option"
  rs_ErrorCode :: string
  rs_Error :: string

record EventNotification =
  en_TenantID :: string
  en_SessionID :: string
  en_OriginInstance :: string
  en_EventID :: string
  en_Seq :: int
  en_Payload :: "json option"

datatype cluster_error = RuntimeClosed | InvalidLeaseTiming | ErrSessionOwned | NoWaiter

section \<open>Runtime\<close>

record memoryInstance =
  mi_info :: InstanceInfo
  mi_expiresAt :: int

record memoryOwner =
  mo_owner :: Owner
  mo_expiresAt :: int

text \<open>A map of Go is an association list; \<open>mr_chans\<close> and \<open>mr_feeds\<close> hold the buffers of the channels that the other fields name.\<close>

record MemoryRuntime =
  mr_closed :: bool
  mr_instances :: "(string \<times> memoryInstance) list"
  mr_owners :: "(string \<times> memoryOwner) list"
  mr_fences :: "(string \<times> int) list"
  mr_commands :: "(string \<times> CommandEnvelope list) list"
  mr_responses :: "(string \<times> nat) list"
  mr_subs :: "(string \<times> nat list) list"
  mr_chans :: "(nat \<times> CommandResponse list) list"
  mr_feeds :: "(nat \<times> EventNotification list) list"
  mr_next :: nat

definition NewMemoryRuntime :: MemoryRuntime where
  "NewMemoryRuntime = \<lparr>mr_closed = False, mr_instances = [], mr_owners = [], mr_fences = [], mr_commands = [], mr_responses = [],
     mr_subs = [], mr_chans = [], mr_feeds = [], mr_next = 0\<rparr>"

definition memorySessionKey :: "string \<Rightarrow> string \<Rightarrow> string" where
  "memorySessionKey tenantID sessionID = tenantID @ [CHR 0x1F] @ sessionID"

definition RegisterInstance :: "InstanceInfo \<Rightarrow> int \<Rightarrow> int \<Rightarrow> MemoryRuntime \<Rightarrow> MemoryRuntime \<times> cluster_error option" where
  "RegisterInstance info ttl now m =
     (if mr_closed m then (m, Some RuntimeClosed)
      else (m\<lparr>mr_instances := mput (ii_InstanceID info) \<lparr>mi_info = info, mi_expiresAt = now + ttl\<rparr> (mr_instances m)\<rparr>, None))"

definition UnregisterInstance :: "string \<Rightarrow> MemoryRuntime \<Rightarrow> MemoryRuntime" where
  "UnregisterInstance i m = m\<lparr>mr_instances := mdel i (mr_instances m)\<rparr>"

definition Lookup :: "string \<Rightarrow> string \<Rightarrow> int \<Rightarrow> MemoryRuntime \<Rightarrow> MemoryRuntime \<times> Owner option" where
  "Lookup tenantID sessionID now m =
     (let key = memorySessionKey tenantID sessionID; gone = (m\<lparr>mr_owners := mdel key (mr_owners m)\<rparr>, None) in
      case map_of (mr_owners m) key of
        None \<Rightarrow> gone
      | Some entry \<Rightarrow> if now > mo_expiresAt entry then gone else (m, Some (mo_owner entry)))"

text \<open>\<open>now\<close> and \<open>now'\<close> are the two readings of the clock.\<close>

definition AcquireKey :: "string \<Rightarrow> string \<Rightarrow> int \<Rightarrow> int \<Rightarrow> int \<Rightarrow> int \<Rightarrow> string \<Rightarrow> MemoryRuntime \<Rightarrow> MemoryRuntime \<times> (cluster_error + Owner)" where
  "AcquireKey key instanceID ttl renewEvery now now' uuid m =
     (if ttl \<le> 0 \<or> renewEvery \<le> 0 \<or> renewEvery \<ge> ttl then (m, Inl InvalidLeaseTiming)
      else if mr_closed m then (m, Inl RuntimeClosed)
      else if (case map_of (mr_owners m) key of None \<Rightarrow> False | Some current \<Rightarrow> now < mo_expiresAt current) then (m, Inl ErrSessionOwned)
      else let fence = mget 0 (mr_fences m) key + 1;
               owner = \<lparr>ow_InstanceID = instanceID, ow_LeaseID = uuid, ow_FenceToken = fence\<rparr>
           in (m\<lparr>mr_fences := mput key fence (mr_fences m),
                 mr_owners := mput key \<lparr>mo_owner = owner, mo_expiresAt = now' + ttl\<rparr> (mr_owners m)\<rparr>, Inr owner))"

definition Acquire :: "string \<Rightarrow> string \<Rightarrow> string \<Rightarrow> int \<Rightarrow> int \<Rightarrow> int \<Rightarrow> int \<Rightarrow> string \<Rightarrow> MemoryRuntime \<Rightarrow> MemoryRuntime \<times> (cluster_error + Owner)" where
  "Acquire tenantID sessionID = AcquireKey (memorySessionKey tenantID sessionID)"

definition CloseRuntime :: "MemoryRuntime \<Rightarrow> MemoryRuntime" where
  "CloseRuntime m = (if mr_closed m then m else m\<lparr>mr_closed := True, mr_subs := []\<rparr>)"

section \<open>Leases\<close>

text \<open>\<open>ml_running\<close> says whether the goroutine \<open>renew\<close> still runs; \<open>ml_stop\<close> and \<open>ml_lost\<close> say whether the channels are closed.\<close>

record memoryLease =
  ml_key :: string
  ml_owner :: Owner
  ml_ttl :: int
  ml_lost :: bool
  ml_stop :: bool
  ml_running :: bool

definition new_lease :: "string \<Rightarrow> Owner \<Rightarrow> int \<Rightarrow> memoryLease" where
  "new_lease key owner ttl = \<lparr>ml_key = key, ml_owner = owner, ml_ttl = ttl, ml_lost = False, ml_stop = False, ml_running = True\<rparr>"

definition renew_tick :: "int \<Rightarrow> MemoryRuntime \<Rightarrow> memoryLease \<Rightarrow> MemoryRuntime \<times> memoryLease" where
  "renew_tick now m l =
     (case map_of (mr_owners m) (ml_key l) of
        None \<Rightarrow> (m, l\<lparr>ml_lost := True, ml_running := False\<rparr>)
      | Some entry \<Rightarrow>
          if ow_LeaseID (mo_owner entry) \<noteq> ow_LeaseID (ml_owner l) \<or> mr_closed m then (m, l\<lparr>ml_lost := True, ml_running := False\<rparr>)
          else (m\<lparr>mr_owners := mput (ml_key l) (entry\<lparr>mo_expiresAt := now + ml_ttl l\<rparr>) (mr_owners m)\<rparr>, l))"

definition renew_stop :: "memoryLease \<Rightarrow> memoryLease" where
  "renew_stop l = (if ml_stop l then l\<lparr>ml_running := False\<rparr> else l)"

text \<open>\<open>Release\<close> runs once: the channel \<open>stop\<close> is closed exactly when it has run.\<close>

definition Release :: "MemoryRuntime \<Rightarrow> memoryLease \<Rightarrow> MemoryRuntime \<times> memoryLease" where
  "Release m l =
     (if ml_stop l then (m, l)
      else (case map_of (mr_owners m) (ml_key l) of
              None \<Rightarrow> m
            | Some entry \<Rightarrow> if ow_LeaseID (mo_owner entry) = ow_LeaseID (ml_owner l)
                            then m\<lparr>mr_owners := mdel (ml_key l) (mr_owners m)\<rparr> else m,
            l\<lparr>ml_stop := True, ml_lost := True\<rparr>))"

section \<open>Command bus\<close>

definition response_key :: "string \<Rightarrow> string \<Rightarrow> string" where
  "response_key gateway request = gateway @ [CHR 0x1F] @ request"

definition command_chan :: "string \<Rightarrow> MemoryRuntime \<Rightarrow> MemoryRuntime" where
  "command_chan i m = (if map_of (mr_commands m) i = None then m\<lparr>mr_commands := mput i [] (mr_commands m)\<rparr> else m)"

text \<open>\<open>Forward\<close> registers a response channel, waits until the owner's channel of 128 commands has room, waits for the
  response, and takes its entry away again on every path.\<close>

definition forward_begin :: "CommandEnvelope \<Rightarrow> MemoryRuntime \<Rightarrow> MemoryRuntime \<times> nat" where
  "forward_begin c m =
     (let m1 = command_chan (env_OwnerInstanceID c) m; ch = mr_next m1
      in (m1\<lparr>mr_chans := mput ch [] (mr_chans m1), mr_next := Suc ch,
             mr_responses := mput (response_key (env_GatewayInstanceID c) (env_RequestID c)) ch (mr_responses m1)\<rparr>, ch))"

definition forward_send :: "CommandEnvelope \<Rightarrow> MemoryRuntime \<Rightarrow> MemoryRuntime option" where
  "forward_send c m =
     (let buffer = mget [] (mr_commands m) (env_OwnerInstanceID c)
      in if length buffer < 128 then Some (m\<lparr>mr_commands := mput (env_OwnerInstanceID c) (buffer @ [c]) (mr_commands m)\<rparr>) else None)"

definition forward_end :: "CommandEnvelope \<Rightarrow> MemoryRuntime \<Rightarrow> MemoryRuntime" where
  "forward_end c m = m\<lparr>mr_responses := mdel (response_key (env_GatewayInstanceID c) (env_RequestID c)) (mr_responses m)\<rparr>"

definition forward_receive :: "CommandEnvelope \<Rightarrow> nat \<Rightarrow> MemoryRuntime \<Rightarrow> (MemoryRuntime \<times> CommandResponse) option" where
  "forward_receive c ch m =
     (case mget [] (mr_chans m) ch of
        [] \<Rightarrow> None
      | r # rs \<Rightarrow> Some (forward_end c (m\<lparr>mr_chans := mput ch rs (mr_chans m)\<rparr>), r))"

definition ReadCommands :: "string \<Rightarrow> int \<Rightarrow> (nat \<Rightarrow> string) \<Rightarrow> MemoryRuntime \<Rightarrow> MemoryRuntime \<times> CommandEnvelope list" where
  "ReadCommands i wanted uuid m =
     (let m1 = command_chan i m; n = (if wanted \<le> 0 then 1 else nat wanted); buffer = mget [] (mr_commands m1) i
      in (m1\<lparr>mr_commands := mput i (drop n buffer) (mr_commands m1)\<rparr>,
          map (\<lambda>(k, c). c\<lparr>env_StreamID := uuid k\<rparr>) (enumerate 0 (take n buffer))))"

text \<open>The channel of a waiter has room for one response; the entry is removed first, so at most one response is sent to it.\<close>

definition Respond :: "string \<Rightarrow> CommandResponse \<Rightarrow> MemoryRuntime \<Rightarrow> MemoryRuntime \<times> cluster_error option" where
  "Respond gateway r m =
     (let key = response_key gateway (rs_RequestID r); m1 = m\<lparr>mr_responses := mdel key (mr_responses m)\<rparr> in
      case map_of (mr_responses m) key of
        None \<Rightarrow> (m1, Some NoWaiter)
      | Some ch \<Rightarrow> (m1\<lparr>mr_chans := mput ch (mget [] (mr_chans m1) ch @ [r]) (mr_chans m1)\<rparr>, None))"

section \<open>Notifier\<close>

definition offer :: "EventNotification \<Rightarrow> (nat \<times> EventNotification list) list \<Rightarrow> nat \<Rightarrow> (nat \<times> EventNotification list) list" where
  "offer n feeds ch = (let buffer = mget [] feeds ch in if length buffer < 32 then mput ch (buffer @ [n]) feeds else feeds)"

definition Publish :: "EventNotification \<Rightarrow> MemoryRuntime \<Rightarrow> MemoryRuntime \<times> cluster_error option" where
  "Publish n m =
     (if mr_closed m then (m, Some RuntimeClosed)
      else (m\<lparr>mr_feeds := foldl (offer n) (mr_feeds m) (mget [] (mr_subs m) (memorySessionKey (en_TenantID n) (en_SessionID n)))\<rparr>, None))"

definition Subscribe :: "string \<Rightarrow> string \<Rightarrow> MemoryRuntime \<Rightarrow> MemoryRuntime \<times> (cluster_error + nat)" where
  "Subscribe tenantID sessionID m =
     (let key = memorySessionKey tenantID sessionID; ch = mr_next m in
      if mr_closed m then (m, Inl RuntimeClosed)
      else (m\<lparr>mr_subs := mput key (mget [] (mr_subs m) key @ [ch]) (mr_subs m), mr_feeds := mput ch [] (mr_feeds m), mr_next := Suc ch\<rparr>, Inr ch))"

definition CancelSubscription :: "string \<Rightarrow> nat \<Rightarrow> MemoryRuntime \<Rightarrow> MemoryRuntime" where
  "CancelSubscription key ch m =
     (case map_of (mr_subs m) key of None \<Rightarrow> m | Some chs \<Rightarrow> m\<lparr>mr_subs := mput key (removeAll ch chs) (mr_subs m)\<rparr>)"

section \<open>Executions\<close>

text \<open>
  A cluster of processes on one coordinator: the runtime, the leases it handed out, in order, and the clock. The identifier of
  a new lease differs from those of all earlier leases, which is what \<open>uuid.NewString\<close> promises.
\<close>

record cluster =
  cl_runtime :: MemoryRuntime
  cl_leases :: "memoryLease list"
  cl_now :: int

definition lease_ids :: "cluster \<Rightarrow> string set" where
  "lease_ids w = (\<lambda>l. ow_LeaseID (ml_owner l)) ` set (cl_leases w)"

inductive cluster_step :: "cluster \<Rightarrow> cluster \<Rightarrow> bool" where
  clock: "cl_now w \<le> t \<Longrightarrow> cluster_step w (w\<lparr>cl_now := t\<rparr>)"
| lookup: "cluster_step w (w\<lparr>cl_runtime := fst (Lookup tenant session (cl_now w) (cl_runtime w))\<rparr>)"
| grant: "cl_now w \<le> t \<Longrightarrow> uuid \<notin> lease_ids w \<Longrightarrow>
    Acquire tenant session i ttl every (cl_now w) t uuid (cl_runtime w) = (m', Inr owner) \<Longrightarrow>
    cluster_step w (w\<lparr>cl_runtime := m', cl_leases := cl_leases w @ [new_lease (memorySessionKey tenant session) owner ttl], cl_now := t\<rparr>)"
| renew: "k < length (cl_leases w) \<Longrightarrow> ml_running (cl_leases w ! k) \<Longrightarrow> renew_tick (cl_now w) (cl_runtime w) (cl_leases w ! k) = (m', l') \<Longrightarrow>
    cluster_step w (w\<lparr>cl_runtime := m', cl_leases := (cl_leases w)[k := l']\<rparr>)"
| stop: "k < length (cl_leases w) \<Longrightarrow> cluster_step w (w\<lparr>cl_leases := (cl_leases w)[k := renew_stop (cl_leases w ! k)]\<rparr>)"
| release: "k < length (cl_leases w) \<Longrightarrow> Release (cl_runtime w) (cl_leases w ! k) = (m', l') \<Longrightarrow>
    cluster_step w (w\<lparr>cl_runtime := m', cl_leases := (cl_leases w)[k := l']\<rparr>)"
| instances: "cluster_step w (w\<lparr>cl_runtime := fst (RegisterInstance info ttl (cl_now w) (cl_runtime w))\<rparr>)"
| unregister: "cluster_step w (w\<lparr>cl_runtime := UnregisterInstance i (cl_runtime w)\<rparr>)"
| closing: "cluster_step w (w\<lparr>cl_runtime := CloseRuntime (cl_runtime w)\<rparr>)"

inductive cluster_reachable :: "cluster \<Rightarrow> bool" where
  boot: "cluster_reachable \<lparr>cl_runtime = NewMemoryRuntime, cl_leases = [], cl_now = t\<rparr>"
| advance: "cluster_reachable w \<Longrightarrow> cluster_step w w' \<Longrightarrow> cluster_reachable w'"

inductive_cases cluster_stepE: "cluster_step w w'"

section \<open>The interface of a lease provider\<close>

text \<open>
  What the users of a coordinator rely on: every session has a sequence of issued tokens that only grows, at its end, with tokens
  larger than all earlier ones. The users are the stores that compare a token with the one they have seen.
\<close>

locale token_source =
  fixes step :: "'w \<Rightarrow> 'w \<Rightarrow> bool" and issued :: "'w \<Rightarrow> string \<Rightarrow> int list" and ok :: "'w \<Rightarrow> bool"
  assumes ok_step: "ok w \<Longrightarrow> step w w' \<Longrightarrow> ok w'"
    and issued_grows: "ok w \<Longrightarrow> step w w' \<Longrightarrow> \<exists>new. issued w' k = issued w k @ new"
    and tokens_increase: "ok w \<Longrightarrow> sorted_wrt (<) (issued w k)"
    and tokens_positive: "ok w \<Longrightarrow> t \<in> set (issued w k) \<Longrightarrow> 0 < t"
begin

lemma ok_steps: "step\<^sup>*\<^sup>* w w' \<Longrightarrow> ok w \<Longrightarrow> ok w'"
  by (induction rule: rtranclp_induct) (auto intro: ok_step)

lemma issued_steps: "step\<^sup>*\<^sup>* w w' \<Longrightarrow> ok w \<Longrightarrow> \<exists>new. issued w' k = issued w k @ new"
proof (induction rule: rtranclp_induct)
  case (step w1 w2)
  then obtain a where a: "issued w1 k = issued w k @ a" by auto
  obtain b where "issued w2 k = issued w1 k @ b" using issued_grows ok_steps step by metis
  then have "issued w2 k = issued w k @ (a @ b)" using a by simp
  then show ?case by (rule exI)
qed simp

lemma later_token_is_larger:
  assumes "ok w" "step\<^sup>*\<^sup>* w w'" "issued w' k = issued w k @ new" "old \<in> set (issued w k)" "t \<in> set new"
  shows "old < t"
  using tokens_increase[OF ok_steps[OF assms(2,1)], of k] assms(3-5) by (auto simp: sorted_wrt_append)

end

section \<open>Tokens and owners\<close>

definition grants :: "cluster \<Rightarrow> (string \<times> Owner) list" where
  "grants w = map (\<lambda>l. (ml_key l, ml_owner l)) (cl_leases w)"

definition issued :: "cluster \<Rightarrow> string \<Rightarrow> int list" where
  "issued w k = map (\<lambda>g. ow_FenceToken (snd g)) (filter (\<lambda>g. fst g = k) (grants w))"

abbreviation fence_of :: "cluster \<Rightarrow> string \<Rightarrow> int" where
  "fence_of w k \<equiv> mget 0 (mr_fences (cl_runtime w)) k"

abbreviation owner_at :: "cluster \<Rightarrow> string \<Rightarrow> memoryOwner option" where
  "owner_at w k \<equiv> map_of (mr_owners (cl_runtime w)) k"

definition lease_ok :: "cluster \<Rightarrow> bool" where
  "lease_ok w \<longleftrightarrow>
     sorted_wrt (\<lambda>g h. fst g = fst h \<longrightarrow> ow_FenceToken (snd g) < ow_FenceToken (snd h)) (grants w) \<and>
     (\<forall>g \<in> set (grants w). 0 < ow_FenceToken (snd g) \<and> ow_FenceToken (snd g) \<le> fence_of w (fst g)) \<and>
     distinct (map (\<lambda>g. ow_LeaseID (snd g)) (grants w)) \<and>
     (\<forall>k. 0 \<le> fence_of w k) \<and>
     (\<forall>k e. owner_at w k = Some e \<longrightarrow> (k, mo_owner e) \<in> set (grants w) \<and> ow_FenceToken (mo_owner e) = fence_of w k)"

text \<open>A step either hands out nothing, and then owners at most disappear, or hands out one lease with the next token.\<close>

definition quiet :: "cluster \<Rightarrow> cluster \<Rightarrow> bool" where
  "quiet w w' \<longleftrightarrow> grants w' = grants w \<and> mr_fences (cl_runtime w') = mr_fences (cl_runtime w) \<and>
     (\<forall>k e'. owner_at w' k = Some e' \<longrightarrow> (\<exists>e. owner_at w k = Some e \<and> mo_owner e' = mo_owner e))"

definition hands_out :: "string \<Rightarrow> Owner \<Rightarrow> cluster \<Rightarrow> cluster \<Rightarrow> bool" where
  "hands_out k owner w w' \<longleftrightarrow> grants w' = grants w @ [(k, owner)] \<and> ow_FenceToken owner = fence_of w k + 1 \<and>
     ow_LeaseID owner \<notin> lease_ids w \<and> mr_fences (cl_runtime w') = mput k (ow_FenceToken owner) (mr_fences (cl_runtime w)) \<and>
     (\<exists>t. mr_owners (cl_runtime w') = mput k \<lparr>mo_owner = owner, mo_expiresAt = t\<rparr> (mr_owners (cl_runtime w)))"

lemma map_update_same: "f x = f (xs ! k) \<Longrightarrow> map f (xs[k := x]) = map f xs"
  by (metis list_update_id map_update)

lemma renew_tick_lease: "renew_tick t m l = (m', l') \<Longrightarrow> ml_key l' = ml_key l \<and> ml_owner l' = ml_owner l \<and> mr_fences m' = mr_fences m"
  by (auto simp: renew_tick_def split: option.splits if_splits)

lemma renew_tick_owners:
  "renew_tick t m l = (m', l') \<Longrightarrow> map_of (mr_owners m') k = Some e' \<Longrightarrow> \<exists>e. map_of (mr_owners m) k = Some e \<and> mo_owner e' = mo_owner e"
  by (auto simp: renew_tick_def update_conv' split: option.splits if_splits)

lemma Release_lease: "Release m l = (m', l') \<Longrightarrow> ml_key l' = ml_key l \<and> ml_owner l' = ml_owner l \<and> mr_fences m' = mr_fences m"
  by (auto simp: Release_def split: option.splits if_splits)

lemma Release_owners:
  "Release m l = (m', l') \<Longrightarrow> map_of (mr_owners m') k = Some e' \<Longrightarrow> map_of (mr_owners m) k = Some e'"
  by (auto simp: Release_def delete_conv' split: option.splits if_splits)

lemma lookup_quiet: "quiet w (w\<lparr>cl_runtime := fst (Lookup tenant session t (cl_runtime w))\<rparr>)"
  by (auto simp: quiet_def grants_def Lookup_def Let_def delete_conv' split: option.splits if_splits)

lemma acquire_hands_out:
  assumes "AcquireKey key i ttl every t t' uuid (cl_runtime w) = (m', Inr owner)" "uuid \<notin> lease_ids w"
  shows "hands_out key owner w (w\<lparr>cl_runtime := m', cl_leases := cl_leases w @ [new_lease key owner ttl], cl_now := t'\<rparr>)"
  using assms by (auto simp: hands_out_def grants_def new_lease_def AcquireKey_def Let_def split: if_splits)

lemma cluster_step_kinds: "cluster_step w w' \<Longrightarrow> quiet w w' \<or> (\<exists>k owner. hands_out k owner w w')"
proof (elim cluster_stepE)
  fix k m' l' assume "renew_tick (cl_now w) (cl_runtime w) (cl_leases w ! k) = (m', l')"
    and w': "w' = w\<lparr>cl_runtime := m', cl_leases := (cl_leases w)[k := l']\<rparr>"
  from renew_tick_lease[OF this(1)] renew_tick_owners[OF this(1)] show ?thesis
    unfolding w' quiet_def grants_def by (auto simp: map_update_same)
next
  fix k m' l' assume "Release (cl_runtime w) (cl_leases w ! k) = (m', l')"
    and w': "w' = w\<lparr>cl_runtime := m', cl_leases := (cl_leases w)[k := l']\<rparr>"
  from Release_lease[OF this(1)] Release_owners[OF this(1)] show ?thesis
    unfolding w' quiet_def grants_def by (auto simp: map_update_same)
next
  fix t uuid tenant session i ttl every m' owner
  assume "uuid \<notin> lease_ids w" "Acquire tenant session i ttl every (cl_now w) t uuid (cl_runtime w) = (m', Inr owner)"
    "w' = w\<lparr>cl_runtime := m', cl_leases := cl_leases w @ [new_lease (memorySessionKey tenant session) owner ttl], cl_now := t\<rparr>"
  then show ?thesis using acquire_hands_out unfolding Acquire_def by blast
next
  fix tenant session assume "w' = w\<lparr>cl_runtime := fst (Lookup tenant session (cl_now w) (cl_runtime w))\<rparr>"
  then show ?thesis using lookup_quiet by simp
qed (auto simp: quiet_def grants_def renew_stop_def RegisterInstance_def UnregisterInstance_def CloseRuntime_def map_update_same)

lemma lease_ok_quiet:
  assumes "lease_ok w" "quiet w w'" shows "lease_ok w'"
proof -
  have same: "grants w' = grants w" "mr_fences (cl_runtime w') = mr_fences (cl_runtime w)" using assms(2) by (simp_all add: quiet_def)
  have "(k, mo_owner e) \<in> set (grants w) \<and> ow_FenceToken (mo_owner e) = fence_of w k" if "owner_at w' k = Some e" for k e
    using assms that unfolding quiet_def lease_ok_def by metis
  then show ?thesis using assms(1) unfolding lease_ok_def same by blast
qed

lemma lease_ok_hands_out:
  assumes "lease_ok w" "hands_out k owner w w'" shows "lease_ok w'"
proof -
  have new: "grants w' = grants w @ [(k, owner)]" and tok: "ow_FenceToken owner = fence_of w k + 1"
    and fences: "fence_of w' k' = (if k' = k then ow_FenceToken owner else fence_of w k')"
    and owners: "owner_at w' k' = Some e \<Longrightarrow> (if k' = k then mo_owner e = owner else owner_at w k' = Some e)" for k' e
    using assms(2) by (auto simp: hands_out_def update_conv' split: if_splits)
  have fresh: "ow_LeaseID owner \<notin> (\<lambda>g. ow_LeaseID (snd g)) ` set (grants w)"
    using assms(2) by (auto simp: hands_out_def lease_ids_def grants_def)
  have old: "0 < ow_FenceToken (snd g) \<and> ow_FenceToken (snd g) \<le> fence_of w (fst g)" if "g \<in> set (grants w)" for g
    using assms(1) that by (auto simp: lease_ok_def)
  have "0 \<le> fence_of w k'" for k' using assms(1) by (simp add: lease_ok_def)
  then have pos: "0 < ow_FenceToken owner" "\<And>k'. 0 \<le> fence_of w' k'" using tok fences by (auto simp: add_nonneg_pos)
  have le: "ow_FenceToken (snd g) \<le> fence_of w' (fst g)" if "g \<in> set (grants w)" for g using old[OF that] fences tok by auto
  show ?thesis
    unfolding lease_ok_def new using assms(1) fresh pos le old tok fences owners
    by (auto simp: lease_ok_def sorted_wrt_append split: if_splits)
qed

lemma lease_ok_step: "lease_ok w \<Longrightarrow> cluster_step w w' \<Longrightarrow> lease_ok w'"
  using cluster_step_kinds lease_ok_quiet lease_ok_hands_out by blast

lemma lease_ok_boot: "lease_ok \<lparr>cl_runtime = NewMemoryRuntime, cl_leases = [], cl_now = t\<rparr>"
  by (simp add: lease_ok_def grants_def NewMemoryRuntime_def)

lemma reachable_lease_ok: "cluster_reachable w \<Longrightarrow> lease_ok w"
  by (induction rule: cluster_reachable.induct) (auto intro: lease_ok_boot lease_ok_step)

lemma sorted_wrt_same_key:
  "sorted_wrt (\<lambda>g h. fst g = fst h \<longrightarrow> f g < f h) gs \<Longrightarrow> sorted_wrt (<) (map f (filter (\<lambda>g. fst g = k) gs))"
  by (induction gs) auto

interpretation memory: token_source cluster_step issued lease_ok
proof
  fix w w' k assume "lease_ok w" "cluster_step w w'"
  then show "lease_ok w'" by (rule lease_ok_step)
  show "\<exists>new. issued w' k = issued w k @ new"
    using cluster_step_kinds[OF \<open>cluster_step w w'\<close>] by (auto simp: quiet_def hands_out_def issued_def)
next
  fix w k assume "lease_ok w"
  then show "sorted_wrt (<) (issued w k)"
    unfolding issued_def by (intro sorted_wrt_same_key) (simp add: lease_ok_def)
next
  fix w t k assume "lease_ok w" "t \<in> set (issued w k)"
  then show "0 < t" by (auto simp: lease_ok_def issued_def)
qed

section \<open>Properties\<close>

lemma sorted_wrt_last: "sorted_wrt (<) xs \<Longrightarrow> (t :: int) \<in> set xs \<Longrightarrow> t \<le> last xs"
  by (induction xs) (auto simp: less_imp_le)

lemma same_lease:
  assumes "lease_ok w" "(k, a) \<in> set (grants w)" "(k', b) \<in> set (grants w)" "ow_LeaseID a = ow_LeaseID b"
  shows "a = b"
proof -
  have "inj_on (\<lambda>g. ow_LeaseID (snd g)) (set (grants w))" using assms(1) by (simp add: lease_ok_def distinct_map)
  from inj_onD[OF this, of "(k, a)" "(k', b)"] show ?thesis using assms(2-4) by simp
qed

text \<open>C8: Leases on one session carry strictly increasing tokens in the order in which they were granted, whatever expired, was
  renewed, released or looked up in between, and the recorded owner of a session is the one with the largest token ever issued
  for it: a process that still acts on an older lease can be told from the owner by its token.\<close>

theorem tokens_order_the_leases:
  assumes "cluster_reachable w"
  shows "sorted_wrt (<) (issued w k) \<and>
    (\<forall>e. owner_at w k = Some e \<longrightarrow> issued w k \<noteq> [] \<and> last (issued w k) = ow_FenceToken (mo_owner e))"
proof (intro conjI allI impI)
  have ok: "lease_ok w" by (rule reachable_lease_ok[OF assms])
  show sorted: "sorted_wrt (<) (issued w k)" by (rule memory.tokens_increase[OF ok])
  fix e assume "owner_at w k = Some e"
  then have "(k, mo_owner e) \<in> set (grants w)" and top: "ow_FenceToken (mo_owner e) = fence_of w k"
    using ok by (auto simp: lease_ok_def)
  then have mem: "ow_FenceToken (mo_owner e) \<in> set (issued w k)" by (force simp: issued_def)
  then show ne: "issued w k \<noteq> []" by auto
  have "\<forall>t \<in> set (issued w k). t \<le> fence_of w k" using ok by (auto simp: lease_ok_def issued_def)
  moreover have "t \<le> last (issued w k)" if "t \<in> set (issued w k)" for t
    by (rule sorted_wrt_last[OF sorted that])
  ultimately show "last (issued w k) = ow_FenceToken (mo_owner e)" using mem top ne by (metis antisym last_in_set)
qed

definition first_cluster :: cluster where
  "first_cluster = \<lparr>cl_runtime = NewMemoryRuntime, cl_leases = [], cl_now = 0\<rparr>"

text \<open>Instance \<open>a\<close> takes the lease for ten units at time zero; \<open>b\<close> takes it at time twelve.\<close>

definition lease_a :: cluster where
  "lease_a = first_cluster\<lparr>cl_runtime := fst (Acquire ''t'' ''s'' ''a'' 10 3 0 0 ''u1'' NewMemoryRuntime),
     cl_leases := [new_lease (memorySessionKey ''t'' ''s'') \<lparr>ow_InstanceID = ''a'', ow_LeaseID = ''u1'', ow_FenceToken = 1\<rparr> 10]\<rparr>"

definition lease_b :: cluster where
  "lease_b = lease_a\<lparr>cl_runtime := fst (Acquire ''t'' ''s'' ''b'' 10 3 12 12 ''u2'' (cl_runtime lease_a)),
     cl_leases := cl_leases lease_a @ [new_lease (memorySessionKey ''t'' ''s'') \<lparr>ow_InstanceID = ''b'', ow_LeaseID = ''u2'', ow_FenceToken = 2\<rparr> 10],
     cl_now := 12\<rparr>"

lemma lease_a_reachable: "cluster_reachable lease_a"
proof -
  have "cluster_step first_cluster (first_cluster\<lparr>cl_runtime := fst (Acquire ''t'' ''s'' ''a'' 10 3 0 0 ''u1'' NewMemoryRuntime),
     cl_leases := cl_leases first_cluster @ [new_lease (memorySessionKey ''t'' ''s'') \<lparr>ow_InstanceID = ''a'', ow_LeaseID = ''u1'', ow_FenceToken = 1\<rparr> 10],
     cl_now := 0\<rparr>)"
    by (rule cluster_step.grant[where uuid = "''u1''" and i = "''a''" and every = 3])
      (simp_all add: first_cluster_def lease_ids_def Acquire_def AcquireKey_def NewMemoryRuntime_def Let_def)
  then have "cluster_step first_cluster lease_a" by (simp add: lease_a_def first_cluster_def)
  moreover have "cluster_reachable first_cluster" unfolding first_cluster_def by (rule cluster_reachable.boot)
  ultimately show ?thesis by (metis cluster_reachable.advance)
qed

definition late_a :: cluster where "late_a = lease_a\<lparr>cl_now := 12\<rparr>"

lemma late_a_reachable: "cluster_reachable late_a"
  unfolding late_a_def
  by (rule cluster_reachable.advance[OF lease_a_reachable cluster_step.clock]) (simp add: lease_a_def first_cluster_def)

lemma lease_b_step: "cluster_step late_a lease_b"
proof -
  have "cluster_step late_a (late_a\<lparr>cl_runtime := fst (Acquire ''t'' ''s'' ''b'' 10 3 12 12 ''u2'' (cl_runtime late_a)),
     cl_leases := cl_leases late_a @ [new_lease (memorySessionKey ''t'' ''s'') \<lparr>ow_InstanceID = ''b'', ow_LeaseID = ''u2'', ow_FenceToken = 2\<rparr> 10],
     cl_now := 12\<rparr>)"
    by (rule cluster_step.grant[where uuid = "''u2''" and i = "''b''" and every = 3])
      (simp_all add: late_a_def lease_a_def first_cluster_def lease_ids_def Acquire_def AcquireKey_def NewMemoryRuntime_def new_lease_def mget_def Let_def)
  then show ?thesis by (simp add: lease_b_def late_a_def)
qed

lemma lease_b_reachable: "cluster_reachable lease_b"
  by (rule cluster_reachable.advance[OF late_a_reachable lease_b_step])

theorem tokens_order_the_leases_witness:
  "issued lease_b (memorySessionKey ''t'' ''s'') = [1, 2] \<and> sorted_wrt (<) (issued lease_b (memorySessionKey ''t'' ''s''))"
proof
  show "issued lease_b (memorySessionKey ''t'' ''s'') = [1, 2]" by code_simp
  show "sorted_wrt (<) (issued lease_b (memorySessionKey ''t'' ''s''))"
    using tokens_order_the_leases[OF lease_b_reachable] by blast
qed

text \<open>The owner of a session changes only when its lease has run out or it released the lease itself: in every step after which
  the recorded owner is gone or another one, the expiry of the old lease has passed or the old lease was released in that step.\<close>

theorem owner_changes_only_by_expiry_or_release:
  assumes "cluster_reachable w" "cluster_step w w'" "owner_at w k = Some e"
    and "map_option mo_owner (owner_at w' k) \<noteq> Some (mo_owner e)"
  shows "mo_expiresAt e \<le> cl_now w' \<or>
    (\<exists>i < length (cl_leases w). ml_owner (cl_leases w ! i) = mo_owner e \<and> \<not> ml_stop (cl_leases w ! i) \<and> ml_stop (cl_leases w' ! i))"
  using assms(2)
proof (cases rule: cluster_step.cases)
  case (lookup tenant session)
  then show ?thesis using assms(3,4) by (auto simp: Lookup_def Let_def delete_conv' split: option.splits if_splits)
next
  case (grant t uuid tenant session i ttl every m' owner)
  then show ?thesis using assms(3,4)
    by (auto simp: Acquire_def AcquireKey_def Let_def update_conv' split: if_splits)
next
  case (renew i m' l')
  then show ?thesis using assms(3,4) by (auto simp: renew_tick_def update_conv' split: option.splits if_splits)
next
  case (release i m' l')
  let ?l = "cl_leases w ! i"
  have mem: "(ml_key ?l, ml_owner ?l) \<in> set (grants w)" using release(2) by (auto simp: grants_def)
  have ok: "lease_ok w" by (rule reachable_lease_ok[OF assms(1)])
  then have "(k, mo_owner e) \<in> set (grants w)" using assms(3) by (simp add: lease_ok_def)
  moreover have "\<not> ml_stop ?l" "k = ml_key ?l" "ow_LeaseID (mo_owner e) = ow_LeaseID (ml_owner ?l)" "ml_stop l'"
    using release(1,3) assms(3,4) by (auto simp: Release_def delete_conv' split: option.splits if_splits)
  ultimately have "ml_owner ?l = mo_owner e" using same_lease[OF ok mem] by auto
  then show ?thesis using release(1,2) \<open>\<not> ml_stop ?l\<close> \<open>ml_stop l'\<close> by auto
qed (use assms(3,4) in \<open>auto simp: RegisterInstance_def UnregisterInstance_def CloseRuntime_def split: if_splits\<close>)

theorem owner_changes_only_by_expiry_or_release_witness:
  "map_option mo_expiresAt (owner_at late_a (memorySessionKey ''t'' ''s'')) = Some 10 \<and> 10 \<le> cl_now lease_b"
proof -
  let ?k = "memorySessionKey ''t'' ''s''" and ?a = "\<lparr>ow_InstanceID = ''a'', ow_LeaseID = ''u1'', ow_FenceToken = 1\<rparr>"
  have e: "owner_at late_a ?k = Some \<lparr>mo_owner = ?a, mo_expiresAt = 10\<rparr>" by code_simp
  have "map_option mo_owner (owner_at lease_b ?k) \<noteq> Some ?a" by code_simp
  moreover have "\<not> (\<exists>i < length (cl_leases late_a). ml_stop (cl_leases lease_b ! i))"
    by (simp add: late_a_def lease_a_def lease_b_def first_cluster_def new_lease_def)
  ultimately have "10 \<le> cl_now lease_b" using owner_changes_only_by_expiry_or_release[OF late_a_reachable lease_b_step e] by auto
  then show ?thesis by (simp add: e)
qed

text \<open>A process that was superseded learns of it at its next renewal: the renewal closes the channel that reports the loss exactly
  when the session has no owner any more, has another one, or the coordinator is closed; otherwise it extends the lease to a full
  term from now on, and it never changes another owner's entry.\<close>

theorem renewal_detects_the_loss:
  assumes "cluster_reachable w" "i < length (cl_leases w)" "renew_tick t (cl_runtime w) (cl_leases w ! i) = (m', l')"
  shows "ml_running l' = (ml_running (cl_leases w ! i) \<and> l' = cl_leases w ! i) \<and>
    (if map_option mo_owner (owner_at w (ml_key l')) = Some (ml_owner l') \<and> \<not> mr_closed (cl_runtime w)
     then l' = cl_leases w ! i \<and> map_of (mr_owners m') (ml_key l') = Some \<lparr>mo_owner = ml_owner l', mo_expiresAt = t + ml_ttl l'\<rparr>
     else ml_lost l' \<and> \<not> ml_running l' \<and> m' = cl_runtime w)"
proof -
  let ?l = "cl_leases w ! i"
  have mem: "(ml_key ?l, ml_owner ?l) \<in> set (grants w)" using assms(2) by (auto simp: grants_def)
  have ok: "lease_ok w" by (rule reachable_lease_ok[OF assms(1)])
  have same: "mo_owner e = ml_owner ?l" if "owner_at w (ml_key ?l) = Some e" "ow_LeaseID (mo_owner e) = ow_LeaseID (ml_owner ?l)" for e
  proof -
    have "(ml_key ?l, mo_owner e) \<in> set (grants w)" using ok that(1) by (simp add: lease_ok_def)
    from same_lease[OF ok this mem] show ?thesis using that(2) by blast
  qed
  show ?thesis
  proof (cases "owner_at w (ml_key ?l)")
    case None
    then show ?thesis using assms(3) by (auto simp: renew_tick_def)
  next
    case (Some e)
    then show ?thesis using assms(3) same[OF Some]
      by (auto simp: renew_tick_def update_conv' split: if_splits)
  qed
qed

theorem renewal_detects_the_loss_witness:
  "ml_lost (snd (renew_tick 13 (cl_runtime lease_b) (cl_leases lease_b ! 0)))"
proof -
  obtain m' l' where r: "renew_tick 13 (cl_runtime lease_b) (cl_leases lease_b ! 0) = (m', l')" by fastforce
  have "0 < length (cl_leases lease_b)" by code_simp
  note result = renewal_detects_the_loss[OF lease_b_reachable this r]
  have "ml_key l' = memorySessionKey ''t'' ''s''" "ml_owner l' = \<lparr>ow_InstanceID = ''a'', ow_LeaseID = ''u1'', ow_FenceToken = 1\<rparr>"
    using renew_tick_lease[OF r] by (simp_all add: lease_b_def lease_a_def first_cluster_def new_lease_def)
  moreover have "map_option mo_owner (owner_at lease_b (memorySessionKey ''t'' ''s'')) \<noteq> Some \<lparr>ow_InstanceID = ''a'', ow_LeaseID = ''u1'', ow_FenceToken = 1\<rparr>"
    by code_simp
  ultimately show ?thesis using result r by (simp split: if_splits)
qed

text \<open>A response goes to the caller that waits for it, and only once.\<close>

lemma response_reaches_its_waiter:
  assumes "forward_begin c m = (m1, ch)" "rs_RequestID r = env_RequestID c" "rs_RequestID r' = env_RequestID c"
    and "Respond (env_GatewayInstanceID c) r m1 = (m2, err)"
  shows "err = None \<and> map_option snd (forward_receive c ch m2) = Some r \<and> snd (Respond (env_GatewayInstanceID c) r' m2) = Some NoWaiter"
  using assms by (auto simp: forward_begin_def Respond_def forward_receive_def Let_def update_conv' delete_conv')

end
