(* ===== verification/Cluster_Redis.thy ===== *)
theory Cluster_Redis
  imports Cluster_Lease
begin

text \<open>
  \<open>cluster/redis.go\<close>: the keys of a session and its leases. The Redis server is a parameter: a record of the commands that the
  scripts call and the relation of what it does by itself (expiry). A script runs as one step. A call may also fail before or
  after the server ran the script; then the code only sees an error. Encoding an owner (\<open>cjson.encode\<close>) and decoding it
  (\<open>json.Unmarshal\<close>) are parameters too. The streams of the command bus and the subscriptions are not modelled.
\<close>

section \<open>Keys\<close>

definition escape_byte :: "char \<Rightarrow> string" where
  "escape_byte c =
     (if c = CHR ''%'' then ''%25'' else if c = CHR ''{'' then ''%7B'' else if c = CHR ''}'' then ''%7D''
      else if c = CHR ''|'' then ''%7C'' else if c = CHR '':'' then ''%3A'' else [c])"

definition sessionTag :: "string \<Rightarrow> string \<Rightarrow> string" where
  "sessionTag tenantID sessionID = concat (map escape_byte tenantID) @ ''|'' @ concat (map escape_byte sessionID)"

definition instanceKey :: "string \<Rightarrow> string \<Rightarrow> string" where
  "instanceKey clusterID instanceID = ''lumina:'' @ clusterID @ '':instance:'' @ instanceID"

definition ownerKey :: "string \<Rightarrow> string \<Rightarrow> string \<Rightarrow> string" where
  "ownerKey clusterID tenantID sessionID = ''lumina:'' @ clusterID @ '':session:{'' @ sessionTag tenantID sessionID @ ''}:owner''"

definition fenceKey :: "string \<Rightarrow> string \<Rightarrow> string \<Rightarrow> string" where
  "fenceKey clusterID tenantID sessionID = ''lumina:'' @ clusterID @ '':session:{'' @ sessionTag tenantID sessionID @ ''}:fence''"

definition commandKey :: "string \<Rightarrow> string \<Rightarrow> string" where
  "commandKey clusterID instanceID = ''lumina:'' @ clusterID @ '':rpc:'' @ instanceID @ '':commands''"

definition responseKey :: "string \<Rightarrow> string \<Rightarrow> string \<Rightarrow> string" where
  "responseKey clusterID instanceID requestID = ''lumina:'' @ clusterID @ '':rpc:'' @ instanceID @ '':responses:'' @ requestID"

definition notifyKey :: "string \<Rightarrow> string \<Rightarrow> string \<Rightarrow> string" where
  "notifyKey clusterID tenantID sessionID = ''lumina:'' @ clusterID @ '':notify:{'' @ sessionTag tenantID sessionID @ ''}''"

section \<open>Scripts\<close>

text \<open>\<open>ro_number\<close> is the integer a key holds, zero when it is absent; \<open>ro_volatile\<close> says whether a key has a time to live.\<close>

record 's redis_ops =
  ro_get :: "string \<Rightarrow> 's \<Rightarrow> string option"
  ro_incr :: "string \<Rightarrow> 's \<Rightarrow> 's \<times> int"
  ro_set_px_nx :: "string \<Rightarrow> string \<Rightarrow> int \<Rightarrow> 's \<Rightarrow> 's \<times> bool"
  ro_pexpire :: "string \<Rightarrow> int \<Rightarrow> 's \<Rightarrow> 's \<times> int"
  ro_del :: "string \<Rightarrow> 's \<Rightarrow> 's \<times> int"
  ro_expire :: "'s \<Rightarrow> 's \<Rightarrow> bool"
  ro_number :: "string \<Rightarrow> 's \<Rightarrow> int"
  ro_volatile :: "string \<Rightarrow> 's \<Rightarrow> bool"

definition acquireLeaseScript :: "'s redis_ops \<Rightarrow> (Owner \<Rightarrow> string) \<Rightarrow> string \<Rightarrow> string \<Rightarrow> string \<Rightarrow> string \<Rightarrow> int \<Rightarrow> 's \<Rightarrow> 's \<times> int \<times> string option" where
  "acquireLeaseScript R enc key1 key2 instanceID leaseID ms s =
     (if ro_get R key1 s \<noteq> None then (s, 0, ro_get R key1 s)
      else let (s1, fence) = ro_incr R key2 s;
               owner = enc \<lparr>ow_InstanceID = instanceID, ow_LeaseID = leaseID, ow_FenceToken = fence\<rparr>;
               (s2, written) = ro_set_px_nx R key1 owner ms s1
           in if \<not> written then (s2, 0, ro_get R key1 s2) else (s2, fence, Some owner))"

definition renewLeaseScript :: "'s redis_ops \<Rightarrow> string \<Rightarrow> string \<Rightarrow> int \<Rightarrow> 's \<Rightarrow> 's \<times> int" where
  "renewLeaseScript R key val ms s = (if ro_get R key s \<noteq> Some val then (s, 0) else ro_pexpire R key ms s)"

definition releaseLeaseScript :: "'s redis_ops \<Rightarrow> string \<Rightarrow> string \<Rightarrow> 's \<Rightarrow> 's \<times> int" where
  "releaseLeaseScript R key val s = (if ro_get R key s \<noteq> Some val then (s, 0) else ro_del R key s)"

section \<open>Leases\<close>

text \<open>How a call to the server ends: with an answer, or with an error before or after the script ran.\<close>

datatype reply = Answered | FailedBefore | FailedAfter

datatype redis_error = LeaseTiming | CallFailed | BadOwner | Owned

record redisLease =
  rl_tenantID :: string
  rl_sessionID :: string
  rl_owner :: Owner
  rl_ttl :: int
  rl_renewEvery :: int
  rl_value :: string
  rl_lost :: bool
  rl_released :: bool
  rl_running :: bool
  rl_lastRenewed :: int

definition Milliseconds :: "int \<Rightarrow> int" where
  "Milliseconds d = d div 1000000"

definition RedisAcquire :: "'s redis_ops \<Rightarrow> (Owner \<Rightarrow> string) \<Rightarrow> (string \<Rightarrow> Owner option) \<Rightarrow> reply \<Rightarrow> string \<Rightarrow> string \<Rightarrow> string \<Rightarrow> string \<Rightarrow> int \<Rightarrow> int \<Rightarrow> int \<Rightarrow> string
    \<Rightarrow> 's \<Rightarrow> 's \<times> (redis_error + redisLease)" where
  "RedisAcquire R enc dec reply clusterID tenantID sessionID instanceID ttl renewEvery now leaseID s =
     (if ttl \<le> 0 \<or> renewEvery \<le> 0 \<or> renewEvery \<ge> ttl then (s, Inl LeaseTiming)
      else if reply = FailedBefore then (s, Inl CallFailed)
      else let (s', fence, val) = acquireLeaseScript R enc (ownerKey clusterID tenantID sessionID) (fenceKey clusterID tenantID sessionID)
                 instanceID leaseID (Milliseconds ttl) s
           in if reply = FailedAfter then (s', Inl CallFailed)
              else case val of
                None \<Rightarrow> (s', Inl BadOwner)
              | Some text \<Rightarrow>
                  (case dec text of
                     None \<Rightarrow> (s', Inl BadOwner)
                   | Some owner \<Rightarrow>
                       if fence = 0 \<or> ow_InstanceID owner \<noteq> instanceID \<or> ow_LeaseID owner \<noteq> leaseID then (s', Inl Owned)
                       else (s', Inr \<lparr>rl_tenantID = tenantID, rl_sessionID = sessionID, rl_owner = owner, rl_ttl = ttl, rl_renewEvery = renewEvery,
                              rl_value = text, rl_lost = False, rl_released = False, rl_running = True, rl_lastRenewed = now\<rparr>)))"

definition renewLoop_tick :: "'s redis_ops \<Rightarrow> reply \<Rightarrow> string \<Rightarrow> int \<Rightarrow> 's \<Rightarrow> redisLease \<Rightarrow> 's \<times> redisLease" where
  "renewLoop_tick R reply clusterID now s l =
     (let (s1, result) = renewLeaseScript R (ownerKey clusterID (rl_tenantID l) (rl_sessionID l)) (rl_value l) (Milliseconds (rl_ttl l)) s;
          s' = (if reply = FailedBefore then s else s1); failed = (reply \<noteq> Answered)
      in if \<not> failed \<and> result = 1 then (s', l\<lparr>rl_lastRenewed := now\<rparr>)
         else if \<not> failed \<or> now + rl_renewEvery l > rl_lastRenewed l + rl_ttl l then (s', l\<lparr>rl_lost := True, rl_running := False\<rparr>)
         else (s', l))"

definition RedisRelease :: "'s redis_ops \<Rightarrow> reply \<Rightarrow> string \<Rightarrow> 's \<Rightarrow> redisLease \<Rightarrow> 's \<times> redisLease" where
  "RedisRelease R reply clusterID s l =
     (if rl_released l then (s, l)
      else (if reply = FailedBefore then s
            else fst (releaseLeaseScript R (ownerKey clusterID (rl_tenantID l) (rl_sessionID l)) (rl_value l) s),
            l\<lparr>rl_released := True, rl_running := False, rl_lost := True\<rparr>))"

section \<open>What the code relies on\<close>

text \<open>
  The documented behaviour of the commands: \<open>INCR\<close> adds one to the number of its key and gives it no time to live; \<open>SET\<close>,
  \<open>PEXPIRE\<close> and \<open>DEL\<close> touch their key only; only keys with a time to live expire. Decoding an encoded owner fails or gives
  back its token.
\<close>

definition keeps :: "'s redis_ops \<Rightarrow> string \<Rightarrow> 's \<Rightarrow> 's \<Rightarrow> bool" where
  "keeps R k s s' \<longleftrightarrow> ro_number R k s' = ro_number R k s \<and> ro_volatile R k s' = ro_volatile R k s"

definition redis_laws :: "'s redis_ops \<Rightarrow> bool" where
  "redis_laws R \<longleftrightarrow>
     (\<forall>k s. snd (ro_incr R k s) = ro_number R k s + 1 \<and> ro_number R k (fst (ro_incr R k s)) = ro_number R k s + 1 \<and>
        ro_volatile R k (fst (ro_incr R k s)) = ro_volatile R k s) \<and>
     (\<forall>k k' s. k' \<noteq> k \<longrightarrow> keeps R k' s (fst (ro_incr R k s))) \<and>
     (\<forall>k k' v ms s. k' \<noteq> k \<longrightarrow> keeps R k' s (fst (ro_set_px_nx R k v ms s))) \<and>
     (\<forall>k k' ms s. k' \<noteq> k \<longrightarrow> keeps R k' s (fst (ro_pexpire R k ms s))) \<and>
     (\<forall>k k' s. k' \<noteq> k \<longrightarrow> keeps R k' s (fst (ro_del R k s))) \<and>
     (\<forall>k s s'. ro_expire R s s' \<longrightarrow> \<not> ro_volatile R k s \<longrightarrow> keeps R k s s')"

definition token_codec :: "(Owner \<Rightarrow> string) \<Rightarrow> (string \<Rightarrow> Owner option) \<Rightarrow> bool" where
  "token_codec enc dec \<longleftrightarrow> (\<forall>a b. dec (enc a) = Some b \<longrightarrow> ow_FenceToken b = ow_FenceToken a)"

section \<open>Executions\<close>

record 's redis_world =
  rw_server :: 's
  rw_leases :: "redisLease list"

inductive redis_step :: "'s redis_ops \<Rightarrow> (Owner \<Rightarrow> string) \<Rightarrow> (string \<Rightarrow> Owner option) \<Rightarrow> string \<Rightarrow> 's redis_world \<Rightarrow> 's redis_world \<Rightarrow> bool"
  for R enc dec c where
  expiry: "ro_expire R (rw_server w) s' \<Longrightarrow> redis_step R enc dec c w (w\<lparr>rw_server := s'\<rparr>)"
| granted: "RedisAcquire R enc dec reply c tenant session i ttl every now uuid (rw_server w) = (s', Inr l) \<Longrightarrow>
    redis_step R enc dec c w (w\<lparr>rw_server := s', rw_leases := rw_leases w @ [l]\<rparr>)"
| refused: "RedisAcquire R enc dec reply c tenant session i ttl every now uuid (rw_server w) = (s', Inl err) \<Longrightarrow>
    redis_step R enc dec c w (w\<lparr>rw_server := s'\<rparr>)"
| tick: "k < length (rw_leases w) \<Longrightarrow> renewLoop_tick R reply c now (rw_server w) (rw_leases w ! k) = (s', l') \<Longrightarrow>
    redis_step R enc dec c w (w\<lparr>rw_server := s', rw_leases := (rw_leases w)[k := l']\<rparr>)"
| release: "k < length (rw_leases w) \<Longrightarrow> RedisRelease R reply c (rw_server w) (rw_leases w ! k) = (s', l') \<Longrightarrow>
    redis_step R enc dec c w (w\<lparr>rw_server := s', rw_leases := (rw_leases w)[k := l']\<rparr>)"

definition redis_tokens :: "string \<Rightarrow> 's redis_world \<Rightarrow> string \<Rightarrow> int list" where
  "redis_tokens c w k = map (\<lambda>l. ow_FenceToken (rl_owner l)) (filter (\<lambda>l. fenceKey c (rl_tenantID l) (rl_sessionID l) = k) (rw_leases w))"

section \<open>Keys of different sessions\<close>

lemma escape_byte_cancel: "escape_byte a @ xs = escape_byte b @ ys \<Longrightarrow> a = b \<and> xs = ys"
  by (auto simp: escape_byte_def split: if_splits)

lemma escape_byte_ne: "escape_byte a \<noteq> []"
  by (simp add: escape_byte_def)

lemma escape_inj: "concat (map escape_byte xs) = concat (map escape_byte ys) \<Longrightarrow> xs = ys"
proof (induction xs arbitrary: ys)
  case Nil
  then show ?case using escape_byte_ne by (cases ys) auto
next
  case (Cons x xs)
  then obtain y ys' where "ys = y # ys'" using escape_byte_ne by (cases ys) auto
  with Cons escape_byte_cancel[of x _ y] show ?case by auto
qed

lemma no_bar_escape: "CHR ''|'' \<notin> set (concat (map escape_byte xs))"
  by (auto simp: escape_byte_def split: if_splits)

lemma split_at_first:
  assumes "c \<notin> set xs" "c \<notin> set xs'" "xs @ c # ys = xs' @ c # ys'"
  shows "xs = xs' \<and> ys = ys'"
  using assms by (induction xs arbitrary: xs') (auto simp: Cons_eq_append_conv append_eq_Cons_conv)

lemma sessionTag_inj: "sessionTag t s = sessionTag t' s' \<Longrightarrow> t = t' \<and> s = s'"
  using split_at_first[OF no_bar_escape no_bar_escape, of t "concat (map escape_byte s)" t' "concat (map escape_byte s')"] escape_inj
  by (auto simp: sessionTag_def)

text \<open>C20: Two sessions share no key: the key that stores the owner, the key of the fencing counter and the notification channel are
  different for every two pairs of tenant and session, even when tenants or sessions contain the characters that the keys use as
  separators, and the owner of one session is never stored under the counter of another.\<close>

theorem session_keys_are_separate:
  assumes "(t, s) \<noteq> (t', s')"
  shows "ownerKey c t s \<noteq> ownerKey c t' s' \<and> fenceKey c t s \<noteq> fenceKey c t' s' \<and> notifyKey c t s \<noteq> notifyKey c t' s' \<and>
    ownerKey c t s \<noteq> fenceKey c t' s'"
proof -
  have "sessionTag t s \<noteq> sessionTag t' s'" using assms sessionTag_inj by blast
  moreover have "last (ownerKey c t s) \<noteq> last (fenceKey c t' s')" by (simp add: ownerKey_def fenceKey_def)
  ultimately show ?thesis by (auto simp: ownerKey_def fenceKey_def notifyKey_def)
qed

theorem session_keys_are_separate_witness:
  "memorySessionKey (''a'' @ [CHR 0x1F] @ ''b'') ''c'' = memorySessionKey ''a'' (''b'' @ [CHR 0x1F] @ ''c'') \<and>
   ownerKey ''x'' ''a|b'' ''c'' \<noteq> ownerKey ''x'' ''a'' ''b|c''"
proof
  show "memorySessionKey (''a'' @ [CHR 0x1F] @ ''b'') ''c'' = memorySessionKey ''a'' (''b'' @ [CHR 0x1F] @ ''c'')"
    by (simp add: memorySessionKey_def)
  show "ownerKey ''x'' ''a|b'' ''c'' \<noteq> ownerKey ''x'' ''a'' ''b|c''"
    using session_keys_are_separate[of "''a|b''" "''c''" "''a''" "''b|c''" "''x''"] by simp
qed

lemma owner_fence_key: "ownerKey c t s \<noteq> fenceKey c t' s'"
proof
  assume "ownerKey c t s = fenceKey c t' s'"
  then have "last (ownerKey c t s) = last (fenceKey c t' s')" by simp
  then show False by (simp add: ownerKey_def fenceKey_def)
qed

lemma fenceKey_inj: "fenceKey c t s = fenceKey c t' s' \<Longrightarrow> t = t' \<and> s = s'"
proof -
  assume "fenceKey c t s = fenceKey c t' s'"
  then have "sessionTag t s = sessionTag t' s'" by (simp add: fenceKey_def)
  then show ?thesis by (rule sessionTag_inj)
qed

section \<open>Tokens of the server\<close>

definition redis_grants :: "string \<Rightarrow> 's redis_world \<Rightarrow> (string \<times> int) list" where
  "redis_grants c w = map (\<lambda>l. (fenceKey c (rl_tenantID l) (rl_sessionID l), ow_FenceToken (rl_owner l))) (rw_leases w)"

definition redis_ok :: "'s redis_ops \<Rightarrow> string \<Rightarrow> 's redis_world \<Rightarrow> bool" where
  "redis_ok R c w \<longleftrightarrow>
     sorted_wrt (\<lambda>g h. fst g = fst h \<longrightarrow> snd g < snd h) (redis_grants c w) \<and>
     (\<forall>g \<in> set (redis_grants c w). 0 < snd g \<and> snd g \<le> ro_number R (fst g) (rw_server w)) \<and>
     (\<forall>t s. \<not> ro_volatile R (fenceKey c t s) (rw_server w) \<and> 0 \<le> ro_number R (fenceKey c t s) (rw_server w))"

text \<open>What a step may do to the counters: leave them, or raise some.\<close>

definition raises :: "'s redis_ops \<Rightarrow> string \<Rightarrow> 's \<Rightarrow> 's \<Rightarrow> bool" where
  "raises R c s s' \<longleftrightarrow> (\<forall>t u. ro_number R (fenceKey c t u) s \<le> ro_number R (fenceKey c t u) s' \<and>
     ro_volatile R (fenceKey c t u) s' = ro_volatile R (fenceKey c t u) s)"

lemma raises_refl: "raises R c s s"
  by (simp add: raises_def)

lemma keeps_raises: "(\<And>k. k \<noteq> ownerKey c t u \<Longrightarrow> keeps R k s s') \<Longrightarrow> raises R c s s'"
  using owner_fence_key unfolding raises_def keeps_def by (metis order_refl)

lemma incr_law:
  assumes "redis_laws R" "ro_incr R k s = (s', n)"
  shows "n = ro_number R k s + 1 \<and> ro_number R k s' = n \<and> ro_volatile R k s' = ro_volatile R k s \<and> (\<forall>k'. k' \<noteq> k \<longrightarrow> keeps R k' s s')"
  using assms unfolding redis_laws_def by (metis fst_conv snd_conv)

lemma set_law: "redis_laws R \<Longrightarrow> k' \<noteq> k \<Longrightarrow> ro_set_px_nx R k v ms s = (s', b) \<Longrightarrow> keeps R k' s s'"
  unfolding redis_laws_def by (metis fst_conv)

lemma pexpire_law: "redis_laws R \<Longrightarrow> k' \<noteq> k \<Longrightarrow> keeps R k' s (fst (ro_pexpire R k ms s))"
  unfolding redis_laws_def by blast

lemma del_law: "redis_laws R \<Longrightarrow> k' \<noteq> k \<Longrightarrow> keeps R k' s (fst (ro_del R k s))"
  unfolding redis_laws_def by blast

lemma expire_law: "redis_laws R \<Longrightarrow> ro_expire R s s' \<Longrightarrow> \<not> ro_volatile R k s \<Longrightarrow> keeps R k s s'"
  unfolding redis_laws_def by blast

lemma acquire_script:
  assumes "redis_laws R" "acquireLeaseScript R enc (ownerKey c t u) (fenceKey c t u) i lease ms s = (s', fence, val)"
  shows "raises R c s s'"
    and "fence \<noteq> 0 \<Longrightarrow> fence = ro_number R (fenceKey c t u) s + 1 \<and> ro_number R (fenceKey c t u) s' = fence \<and>
      val = Some (enc \<lparr>ow_InstanceID = i, ow_LeaseID = lease, ow_FenceToken = fence\<rparr>)"
proof -
  obtain s1 n where inc: "ro_incr R (fenceKey c t u) s = (s1, n)" by fastforce
  let ?v = "enc \<lparr>ow_InstanceID = i, ow_LeaseID = lease, ow_FenceToken = n\<rparr>"
  obtain s2 b where set: "ro_set_px_nx R (ownerKey c t u) ?v ms s1 = (s2, b)" by fastforce
  note inc' = incr_law[OF assms(1) inc]
  have keep: "keeps R k s1 s2" if "k \<noteq> ownerKey c t u" for k by (rule set_law[OF assms(1) that set])
  have key: "fenceKey c t u \<noteq> ownerKey c t u" using owner_fence_key by metis
  have "ro_number R (fenceKey c x y) s \<le> ro_number R (fenceKey c x y) s2 \<and>
      ro_volatile R (fenceKey c x y) s2 = ro_volatile R (fenceKey c x y) s" for x y
    using inc' keep[of "fenceKey c x y"] owner_fence_key[of c t u x y]
    by (cases "fenceKey c x y = fenceKey c t u") (auto simp: keeps_def)
  then have "raises R c s s2" by (simp add: raises_def)
  then show "raises R c s s'"
    using assms(2) inc set by (auto simp: acquireLeaseScript_def raises_refl split: if_splits)
  show "fence = ro_number R (fenceKey c t u) s + 1 \<and> ro_number R (fenceKey c t u) s' = fence \<and>
      val = Some (enc \<lparr>ow_InstanceID = i, ow_LeaseID = lease, ow_FenceToken = fence\<rparr>)" if "fence \<noteq> 0"
    using assms(2) inc set that inc' keep[OF key] by (auto simp: acquireLeaseScript_def keeps_def split: if_splits)
qed

lemma redis_acquire_raises:
  assumes "redis_laws R" "RedisAcquire R enc dec reply c t u i ttl every now lease s = (s', res)"
  shows "raises R c s s'"
proof -
  obtain s1 fence val where sc: "acquireLeaseScript R enc (ownerKey c t u) (fenceKey c t u) i lease (Milliseconds ttl) s = (s1, fence, val)"
    by (metis prod_cases3)
  have "s' = s \<or> s' = s1" using assms(2) sc by (auto simp: RedisAcquire_def split: if_splits option.splits)
  then show ?thesis using acquire_script(1)[OF assms(1) sc] raises_refl by metis
qed

lemma redis_acquire_lease:
  assumes "redis_laws R" "token_codec enc dec" "RedisAcquire R enc dec reply c t u i ttl every now lease s = (s', Inr l)"
  shows "rl_tenantID l = t \<and> rl_sessionID l = u \<and> ow_FenceToken (rl_owner l) = ro_number R (fenceKey c t u) s + 1 \<and>
    ro_number R (fenceKey c t u) s' = ro_number R (fenceKey c t u) s + 1"
proof -
  obtain s1 fence val where sc: "acquireLeaseScript R enc (ownerKey c t u) (fenceKey c t u) i lease (Milliseconds ttl) s = (s1, fence, val)"
    by (metis prod_cases3)
  then obtain raw_owner owner where ok: "val = Some raw_owner" "dec raw_owner = Some owner" "fence \<noteq> 0" "s' = s1"
    and l: "rl_tenantID l = t" "rl_sessionID l = u" "rl_owner l = owner"
    using assms(3) by (auto simp: RedisAcquire_def split: if_splits option.splits)
  from acquire_script(2)[OF assms(1) sc ok(3)] have f: "fence = ro_number R (fenceKey c t u) s + 1" "ro_number R (fenceKey c t u) s1 = fence"
    "raw_owner = enc \<lparr>ow_InstanceID = i, ow_LeaseID = lease, ow_FenceToken = fence\<rparr>" using ok(1) by simp_all
  then have "ow_FenceToken owner = fence" using assms(2) ok(2) unfolding token_codec_def by (metis Owner.select_convs(3))
  then show ?thesis using f(1,2) l ok(4) by simp
qed

lemma tick_facts:
  assumes "redis_laws R" "renewLoop_tick R reply c now s l = (s', l')"
  shows "raises R c s s' \<and> rl_tenantID l' = rl_tenantID l \<and> rl_sessionID l' = rl_sessionID l \<and> rl_owner l' = rl_owner l"
proof -
  let ?k = "ownerKey c (rl_tenantID l) (rl_sessionID l)"
  obtain s1 n where sc: "renewLeaseScript R ?k (rl_value l) (Milliseconds (rl_ttl l)) s = (s1, n)" by fastforce
  have "keeps R k s s1" if "k \<noteq> ?k" for k
  proof (cases "ro_get R ?k s = Some (rl_value l)")
    case True
    then have "s1 = fst (ro_pexpire R ?k (Milliseconds (rl_ttl l)) s)" using sc by (simp add: renewLeaseScript_def)
    then show ?thesis using pexpire_law[OF assms(1) that] by simp
  next
    case False
    then show ?thesis using sc by (simp add: renewLeaseScript_def keeps_def)
  qed
  then have "raises R c s s1" by (rule keeps_raises)
  then show ?thesis using assms(2) sc by (auto simp: renewLoop_tick_def Let_def raises_refl split: if_splits)
qed

lemma release_facts:
  assumes "redis_laws R" "RedisRelease R reply c s l = (s', l')"
  shows "raises R c s s' \<and> rl_tenantID l' = rl_tenantID l \<and> rl_sessionID l' = rl_sessionID l \<and> rl_owner l' = rl_owner l"
proof -
  let ?k = "ownerKey c (rl_tenantID l) (rl_sessionID l)"
  have "keeps R k s (fst (releaseLeaseScript R ?k (rl_value l) s))" if "k \<noteq> ?k" for k
    using del_law[OF assms(1) that] by (auto simp: releaseLeaseScript_def keeps_def)
  then have "raises R c s (fst (releaseLeaseScript R ?k (rl_value l) s))" by (rule keeps_raises)
  then show ?thesis using assms(2) by (auto simp: RedisRelease_def raises_refl split: if_splits)
qed

lemma redis_ok_raises:
  assumes "redis_ok R c w" "raises R c (rw_server w) (rw_server w')" "redis_grants c w' = redis_grants c w"
  shows "redis_ok R c w'"
proof -
  have num: "ro_number R (fenceKey c t s) (rw_server w) \<le> ro_number R (fenceKey c t s) (rw_server w')"
    and vol: "ro_volatile R (fenceKey c t s) (rw_server w') = ro_volatile R (fenceKey c t s) (rw_server w)" for t s
    using assms(2) by (simp_all add: raises_def)
  have "\<exists>t s. fst g = fenceKey c t s" if "g \<in> set (redis_grants c w)" for g
    using that unfolding redis_grants_def by (metis (no_types, lifting) fst_conv imageE list.set_map)
  then have "0 < snd g \<and> snd g \<le> ro_number R (fst g) (rw_server w')" if "g \<in> set (redis_grants c w)" for g
    using assms(1) that num unfolding redis_ok_def by (metis order_trans)
  moreover have "0 \<le> ro_number R (fenceKey c t s) (rw_server w')" for t s
    using assms(1) num[of t s] unfolding redis_ok_def by (metis order_trans)
  ultimately show ?thesis using assms(1) vol unfolding redis_ok_def assms(3) by blast
qed

lemma map_update_lease:
  "rl_tenantID l' = rl_tenantID (ls ! k) \<and> rl_sessionID l' = rl_sessionID (ls ! k) \<and> rl_owner l' = rl_owner (ls ! k) \<Longrightarrow>
   redis_grants c (w\<lparr>rw_server := s', rw_leases := ls[k := l']\<rparr>) = redis_grants c (w\<lparr>rw_leases := ls\<rparr>)"
  by (simp add: redis_grants_def map_update_same)

lemma redis_step_grants:
  assumes "redis_laws R" "token_codec enc dec" "redis_ok R c w" "redis_step R enc dec c w w'"
  shows "redis_ok R c w' \<and> (redis_grants c w' = redis_grants c w \<or> (\<exists>g. redis_grants c w' = redis_grants c w @ [g]))"
  using assms(4)
proof (cases rule: redis_step.cases)
  case (expiry s')
  have "keeps R (fenceKey c t u) (rw_server w) s'" for t u
    using expire_law[OF assms(1) expiry(2)] assms(3) by (simp add: redis_ok_def)
  then have "raises R c (rw_server w) (rw_server w')" by (simp add: expiry(1) raises_def keeps_def)
  moreover have "redis_grants c w' = redis_grants c w" by (simp add: expiry(1) redis_grants_def)
  ultimately show ?thesis using redis_ok_raises[OF assms(3)] by blast
next
  case (refused reply tenant session i ttl every now uuid s' err)
  have "redis_grants c w' = redis_grants c w" by (simp add: refused(1) redis_grants_def)
  moreover have "raises R c (rw_server w) (rw_server w')" using redis_acquire_raises[OF assms(1) refused(2)] by (simp add: refused(1))
  ultimately show ?thesis using redis_ok_raises[OF assms(3)] by blast
next
  case (tick k reply now s' l')
  note facts = tick_facts[OF assms(1) tick(3)]
  then have "redis_grants c w' = redis_grants c w" by (simp add: tick(1) map_update_lease)
  then show ?thesis using redis_ok_raises[OF assms(3), of w'] facts by (simp add: tick(1))
next
  case (release k reply s' l')
  note facts = release_facts[OF assms(1) release(3)]
  then have "redis_grants c w' = redis_grants c w" by (simp add: release(1) map_update_lease)
  then show ?thesis using redis_ok_raises[OF assms(3), of w'] facts by (simp add: release(1))
next
  case (granted reply tenant session i ttl every now uuid s' l)
  let ?k = "fenceKey c tenant session" and ?w = "w\<lparr>rw_server := s'\<rparr>"
  note facts = redis_acquire_lease[OF assms(1,2) granted(2)]
  have new: "redis_grants c w' = redis_grants c w @ [(?k, ow_FenceToken (rl_owner l))]"
    using facts by (simp add: granted(1) redis_grants_def)
  have old: "redis_ok R c ?w"
    using redis_ok_raises[OF assms(3), of ?w] redis_acquire_raises[OF assms(1) granted(2)] by (simp add: redis_grants_def)
  have "0 \<le> ro_number R ?k (rw_server w)" and below: "\<forall>g \<in> set (redis_grants c w). snd g \<le> ro_number R (fst g) (rw_server w)"
    using assms(3) by (auto simp: redis_ok_def)
  then have "redis_ok R c w'"
    using old facts unfolding redis_ok_def new by (auto simp: granted(1) sorted_wrt_append redis_grants_def)
  then show ?thesis using new by blast
qed

lemma redis_token_source:
  assumes "redis_laws R" "token_codec enc dec"
  shows "token_source (redis_step R enc dec c) (redis_tokens c) (redis_ok R c)"
proof
  have tokens: "redis_tokens c w k = map snd (filter (\<lambda>g. fst g = k) (redis_grants c w))" for w :: "'a redis_world" and k
    by (simp add: redis_tokens_def redis_grants_def filter_map o_def)
  fix w w' :: "'a redis_world" and k assume ok: "redis_ok R c w"
  show "sorted_wrt (<) (redis_tokens c w k)"
    unfolding tokens using ok by (intro sorted_wrt_same_key) (simp add: redis_ok_def)
  show "0 < t" if "t \<in> set (redis_tokens c w k)" for t using ok that by (auto simp: tokens redis_ok_def)
  assume step: "redis_step R enc dec c w w'"
  show "redis_ok R c w'" and "\<exists>new. redis_tokens c w' k = redis_tokens c w k @ new"
    using redis_step_grants[OF assms ok step] by (auto simp: tokens)
qed

section \<open>Properties\<close>

definition redis_fresh :: "'s redis_ops \<Rightarrow> string \<Rightarrow> 's \<Rightarrow> bool" where
  "redis_fresh R c s \<longleftrightarrow> (\<forall>t u. \<not> ro_volatile R (fenceKey c t u) s \<and> ro_number R (fenceKey c t u) s = 0)"

text \<open>C14: Whatever the server expires and whichever calls fail before or after they took effect: on every session, a lease that is
  granted later carries a larger token than every lease granted before. The counter survives the expiry of the owner, and a call
  whose answer was lost can waste tokens but never reuse one.\<close>

theorem redis_tokens_increase:
  assumes "redis_laws R" "token_codec enc dec" "redis_fresh R c s0"
    and "(redis_step R enc dec c)\<^sup>*\<^sup>* \<lparr>rw_server = s0, rw_leases = []\<rparr> w"
  shows "sorted_wrt (<) (redis_tokens c w k) \<and> (\<forall>t \<in> set (redis_tokens c w k). 0 < t)"
proof -
  note source = redis_token_source[OF assms(1,2), of c]
  have "redis_ok R c \<lparr>rw_server = s0, rw_leases = []\<rparr>" using assms(3) by (simp add: redis_ok_def redis_fresh_def redis_grants_def)
  from token_source.ok_steps[OF source assms(4) this] have "redis_ok R c w" .
  then show ?thesis using token_source.tokens_increase[OF source] token_source.tokens_positive[OF source] by blast
qed

text \<open>A server in two tables, for values with a time to live and for counters.\<close>

definition table_server :: "((string \<times> string) list \<times> (string \<times> int) list) redis_ops" where
  "table_server =
     \<lparr>ro_get = (\<lambda>k s. map_of (fst s) k),
      ro_incr = (\<lambda>k s. let n = mget 0 (snd s) k + 1 in ((fst s, mput k n (snd s)), n)),
      ro_set_px_nx = (\<lambda>k v ms s. if map_of (fst s) k = None then ((mput k v (fst s), snd s), True) else (s, False)),
      ro_pexpire = (\<lambda>k ms s. (s, if map_of (fst s) k = None then 0 else 1)),
      ro_del = (\<lambda>k s. ((mdel k (fst s), snd s), if map_of (fst s) k = None then 0 else 1)),
      ro_expire = (\<lambda>s s'. list_ex (\<lambda>e. s' = (mdel (fst e) (fst s), snd s)) (fst s)),
      ro_number = (\<lambda>k s. mget 0 (snd s) k),
      ro_volatile = (\<lambda>k s. map_of (fst s) k \<noteq> None)\<rparr>"

lemma table_server_laws: "redis_laws table_server"
  by (auto simp: redis_laws_def table_server_def keeps_def Let_def update_conv' delete_conv' list_ex_iff)

definition token_text :: "Owner \<Rightarrow> string" where
  "token_text a = replicate (nat (ow_FenceToken a)) (CHR ''+'') @ replicate (nat (- ow_FenceToken a)) (CHR ''-'') @ CHR '' '' # ow_LeaseID a"

definition text_token :: "string \<Rightarrow> Owner option" where
  "text_token s = (let n = takeWhile (\<lambda>c. c \<noteq> CHR '' '') s in
     Some \<lparr>ow_InstanceID = ''a'', ow_LeaseID = tl (dropWhile (\<lambda>c. c \<noteq> CHR '' '') s),
           ow_FenceToken = int (length (filter (\<lambda>c. c = CHR ''+'') n)) - int (length (filter (\<lambda>c. c = CHR ''-'') n))\<rparr>)"

lemma token_text_codec: "token_codec token_text text_token"
  by (auto simp: token_codec_def token_text_def text_token_def Let_def takeWhile_append)

definition leased_world :: "((string \<times> string) list \<times> (string \<times> int) list) redis_world" where
  "leased_world = (let (s, l) = RedisAcquire table_server token_text text_token Answered ''c'' ''t'' ''u'' ''a'' 10 3 0 ''l1'' ([], []) in
     \<lparr>rw_server = s, rw_leases = [projr l]\<rparr>)"

theorem redis_tokens_increase_witness:
  "redis_tokens ''c'' leased_world (fenceKey ''c'' ''t'' ''u'') = [1] \<and> list_all (\<lambda>t. 0 < t) (redis_tokens ''c'' leased_world (fenceKey ''c'' ''t'' ''u''))"
proof
  let ?s0 = "\<lparr>rw_server = ([], []), rw_leases = []\<rparr> :: ((string \<times> string) list \<times> (string \<times> int) list) redis_world"
  let ?r = "RedisAcquire table_server token_text text_token Answered ''c'' ''t'' ''u'' ''a'' 10 3 0 ''l1'' ([], [])"
  show "redis_tokens ''c'' leased_world (fenceKey ''c'' ''t'' ''u'') = [1]" by code_simp
  have "\<not> isl (snd ?r)" by code_simp
  then have "?r = (fst ?r, Inr (projr (snd ?r)))" by (metis prod.collapse sum.collapse(2))
  from redis_step.granted[where w = ?s0, simplified, OF this]
  have "redis_step table_server token_text text_token ''c'' ?s0 leased_world"
    unfolding leased_world_def Let_def by (simp add: case_prod_beta)
  then have "(redis_step table_server token_text text_token ''c'')\<^sup>*\<^sup>* ?s0 leased_world" by blast
  moreover have "redis_fresh table_server ''c'' ([], [])" by (simp add: redis_fresh_def table_server_def)
  ultimately have "\<forall>t \<in> set (redis_tokens ''c'' leased_world (fenceKey ''c'' ''t'' ''u'')). 0 < t"
    using redis_tokens_increase[OF table_server_laws token_text_codec] by blast
  then show "list_all (\<lambda>t. 0 < t) (redis_tokens ''c'' leased_world (fenceKey ''c'' ''t'' ''u''))" by (simp add: list_all_iff)
qed

text \<open>The ticks of a lease whose calls all fail: the times, how each call failed, and the server at that time.\<close>

fun failing_ticks :: "'s redis_ops \<Rightarrow> string \<Rightarrow> redisLease \<Rightarrow> (int \<times> bool \<times> 's) list \<Rightarrow> redisLease" where
  "failing_ticks R c l [] = l"
| "failing_ticks R c l ((now, after, s) # ts) =
     (if rl_running l then failing_ticks R c (snd (renewLoop_tick R (if after then FailedAfter else FailedBefore) c now s l)) ts else l)"

text \<open>Ticks come at most one period apart, the first at most one period after \<open>t\<close>.\<close>

fun ticks_from :: "int \<Rightarrow> int \<Rightarrow> (int \<times> 'a) list \<Rightarrow> bool" where
  "ticks_from every t [] \<longleftrightarrow> True"
| "ticks_from every t (x # xs) \<longleftrightarrow> fst x \<le> t + every \<and> ticks_from every (fst x) xs"

lemma failing_tick:
  "snd (renewLoop_tick R (if after then FailedAfter else FailedBefore) c now s l) =
     (if now + rl_renewEvery l > rl_lastRenewed l + rl_ttl l then l\<lparr>rl_lost := True, rl_running := False\<rparr> else l)"
  by (simp add: renewLoop_tick_def Let_def case_prod_beta)

lemma failing_ticks_stopped: "\<not> rl_running l \<Longrightarrow> failing_ticks R c l ts = l"
  by (cases ts) auto

lemma gives_up:
  assumes "rl_running l" "ticks_from (rl_renewEvery l) t ts" "t \<le> rl_lastRenewed l + rl_ttl l" "t + rl_renewEvery l \<le> rl_lastRenewed l + rl_ttl l"
    and "ts \<noteq> []" "rl_lastRenewed l + rl_ttl l < fst (last ts)"
  shows "rl_lost (failing_ticks R c l (takeWhile (\<lambda>x. fst x \<le> rl_lastRenewed l + rl_ttl l) ts))"
  using assms
proof (induction ts arbitrary: t)
  case (Cons x ts)
  obtain now after s where x: "x = (now, after, s)" by (cases x) auto
  have le: "now \<le> rl_lastRenewed l + rl_ttl l" using Cons.prems x by simp
  show ?case
  proof (cases "now + rl_renewEvery l > rl_lastRenewed l + rl_ttl l")
    case True
    then show ?thesis using Cons.prems(1) x le by (simp add: failing_tick failing_ticks_stopped)
  next
    case False
    then have "ts \<noteq> []" using Cons.prems le x by auto
    then have "rl_lost (failing_ticks R c l (takeWhile (\<lambda>x. fst x \<le> rl_lastRenewed l + rl_ttl l) ts))"
      using Cons.IH[of now] Cons.prems x le False by auto
    then show ?thesis using False Cons.prems(1) x le by (simp add: failing_tick)
  qed
qed simp

text \<open>C21: A process that is cut off from the server gives its lease up in time: when every renewal fails and the ticker keeps its
  period, the lease has reported its loss by the last tick that is not later than one time to live after the last renewal.\<close>

theorem isolated_lease_gives_up_in_time:
  assumes "0 < rl_renewEvery l" "rl_renewEvery l < rl_ttl l" "rl_running l" "ticks_from (rl_renewEvery l) (rl_lastRenewed l) ts" "ts \<noteq> []"
    and "rl_lastRenewed l + rl_ttl l < fst (last ts)"
  shows "rl_lost (failing_ticks R c l (takeWhile (\<lambda>x. fst x \<le> rl_lastRenewed l + rl_ttl l) ts))"
  by (rule gives_up[OF assms(3,4) _ _ assms(5,6)]) (use assms(1,2) in simp_all)

theorem isolated_lease_gives_up_in_time_witness:
  "rl_lost (failing_ticks table_server ''c'' (hd (rw_leases leased_world)) [(3, False, [], []), (6, True, [], []), (9, False, [], [])])"
proof -
  let ?l = "hd (rw_leases leased_world)" and ?ts = "[(3, False, [], []), (6, True, [], []), (9, False, [], []), (12, False, [], [])] :: (int \<times> bool \<times> (string \<times> string) list \<times> (string \<times> int) list) list"
  have "rl_renewEvery ?l = 3" "rl_ttl ?l = 10" "rl_running ?l" "rl_lastRenewed ?l = 0" by code_simp+
  then show ?thesis using isolated_lease_gives_up_in_time[of ?l ?ts table_server "''c''"] by simp
qed

end
