(* ===== verification/Session_Fencing.thy ===== *)
theory Session_Fencing
  imports Session_Postgres Cluster_Redis
begin

text \<open>
  The lease of a session and the store of its events together: the coordinator of \<open>Cluster_Lease\<close> hands out the tokens with which
  the handles of \<open>Session_Postgres\<close> are opened. The two systems share nothing but the tokens.
\<close>

text \<open>After a session was opened for writing, its fence is at least the token of the opening.\<close>

lemma bindFence_fence:
  assumes "bindFence t key fence False db = Inr db'" shows "fence_at key db' = Some fence"
  using assms by (auto simp: bindFence_def fence_at_def set_session_def update_conv' split: option.splits if_splits)

lemma update_cwd_fence: "fence_at key (fst (update_cwd t key opts db)) = fence_at key db"
  by (auto simp: update_cwd_def fence_at_def set_session_def update_conv' split: option.splits)

lemma open_fence:
  assumes "OpenRuntime uuid now upd c tenant sid opts db = (db', Inr h)" "\<not> oo_ReadOnly opts"
  shows "store_key h = (c, normalizedTenantID tenant, sid) \<and> ps_fenceToken h = oo_FenceToken opts \<and>
    (\<exists>f. fence_at (store_key h) db' = Some f \<and> oo_FenceToken opts \<le> f)"
proof -
  let ?key = "(c, normalizedTenantID tenant, sid)"
  let ?h = "\<lparr>ps_clusterID = c, ps_tenantID = normalizedTenantID tenant, ps_sessionID = sid, ps_fenceToken = oo_FenceToken opts, ps_readOnly = oo_ReadOnly opts\<rparr>"
  obtain db1 created where ins: "(if oo_CreateIfMissing opts then insert_session upd ?key opts db else (db, False)) = (db1, created)" by fastforce
  obtain db2 where bind: "bindFence upd ?key (oo_FenceToken opts) (oo_ReadOnly opts) db1 = Inr db2"
    using assms ins by (cases "bindFence upd ?key (oo_FenceToken opts) (oo_ReadOnly opts) db1") (auto simp: OpenRuntime_def Let_def split: if_splits)
  obtain db3 same where cwd: "(if \<not> oo_ReadOnly opts \<and> TrimSpace (oo_CWD opts) \<noteq> [] then update_cwd upd ?key opts db2 else (db2, True)) = (db3, same)"
    by fastforce
  have "fence_at ?key db2 = Some (oo_FenceToken opts)" using bindFence_fence[of upd ?key _ db1] bind assms(2) by simp
  then have f3: "fence_at ?key db3 = Some (oo_FenceToken opts)"
    using cwd update_cwd_fence[of ?key upd opts db2] by (auto split: if_splits)
  have "open_store uuid now upd ?h created db3 = (db', Inr h)"
    using assms(1) unfolding OpenRuntime_def Let_def ins prod.case bind sum.case cwd by (auto split: if_splits)
  then have "h = ?h" "db' = fst (open_store uuid now upd ?h created db3)"
    by (auto simp: open_store_def Let_def split: if_splits sum.splits)
  then show ?thesis using fence_steps[OF open_store_steps f3, of uuid now upd ?h created] by (simp add: store_key_def)
qed

text \<open>C1: Fencing end to end. Instance A holds a lease on a session and has a store handle with its token. Later the coordinator grants the
  session to B, for whatever reason A's lease ended, and B opens the session for writing. From then on, whatever transactions
  the cluster runs, no write through A's handle succeeds: appends are refused, checkpoints, command results, offsets, blobs and the counters of
  the session report the lost fence, and so does the creation of a stream, unless it is refused already for a blank identifier or kind; even
  when A has not noticed that its lease is gone.\<close>

theorem fenced_out_instance_cannot_write:
  assumes "cluster_reachable w" "cluster_step\<^sup>*\<^sup>* w w'" "issued w' k = issued w k @ new"
    and "a \<in> set (issued w k)" "b \<in> set new"
    and "OpenRuntime uuid now upd c tenant sid opts db = (db1, Inr hB)" "\<not> oo_ReadOnly opts" "oo_FenceToken opts = b"
    and "pg_step\<^sup>*\<^sup>* db1 db2" "store_key hA = store_key hB" "ps_fenceToken hA = a" "\<not> ps_readOnly hA" "pending \<noteq> []"
  shows "isl (PgAppend uuid' now' upd' hA expected pending db2) \<and>
    PgSaveCheckpoint t hA cp db2 = Inl ErrSessionFenceLost \<and> PgSaveCommandResult t hA r db2 = Inl ErrSessionFenceLost \<and>
    PgSaveConsumerOffset hA consumer n db2 = Inl ErrSessionFenceLost \<and> PutBlob digest hA mime data db2 = Inl ErrSessionFenceLost \<and>
    UpdateMetaProjection t (store_key hA) (ps_fenceToken hA) messages turns db2 = Inl ErrSessionFenceLost \<and>
    PgCreateStream hA s db2 = Inl (if TrimSpace (sd_ID s) = [] \<or> TrimSpace (sd_Kind s) = [] then PgJournal EStreamFieldsRequired else ErrSessionFenceLost)"
proof -
  have ok: "lease_ok w" by (rule reachable_lease_ok[OF assms(1)])
  have "a < b" by (rule memory.later_token_is_larger[OF ok assms(2-5)])
  moreover have pos: "0 < a" by (rule memory.tokens_positive[OF ok assms(4)])
  moreover obtain f where f: "fence_at (store_key hB) db1 = Some f" "b \<le> f" using open_fence[OF assms(6,7)] assms(8) by blast
  moreover obtain f' where f': "fence_at (store_key hA) db2 = Some f'" "f \<le> f'" using fence_steps[OF assms(9) f(1)] assms(10) by auto
  ultimately have lt: "ps_fenceToken hA < f'" using assms(11) by simp
  then have lost: "checkFenceTx (store_key hA) (ps_fenceToken hA) db2 = Some ErrSessionFenceLost"
    using stale_check[OF f'(1)] pos assms(11) by simp
  then show ?thesis
    using stale_append[OF f'(1) _ lt assms(13)] pos assms(11,12)
    by (simp add: PgSaveCheckpoint_def PgSaveCommandResult_def PgSaveConsumerOffset_def PgCreateStream_def PutBlob_def UpdateMetaProjection_def
        withFenceTx_def Let_def)
qed

theorem fenced_out_instance_cannot_write_witness:
  "isl (PgAppend sample_uuid (\<lambda>_. 9) 9 (writer 1) AnyStreamSeq [sample_pending EventRunStarted []] (sample_open 2 (sample_open 1 empty_db)))"
proof -
  let ?k = "memorySessionKey ''t'' ''s''"
  let ?opts = "\<lparr>oo_CreateIfMissing = True, oo_ReadOnly = False, oo_FenceToken = 2, oo_CWD = ''/w''\<rparr>"
  let ?open = "OpenRuntime sample_uuid (\<lambda>_. 9) 9 ''c'' ''t'' ''s'' ?opts (sample_open 1 empty_db)"
  have steps: "cluster_step\<^sup>*\<^sup>* late_a lease_b" using lease_b_step by blast
  have "issued late_a ?k = [1]" "issued lease_b ?k = [1] @ [2]" by code_simp+
  then have tok: "issued lease_b ?k = issued late_a ?k @ [2]" "1 \<in> set (issued late_a ?k)" "(2::int) \<in> set [2]" by simp_all
  have "isl (snd ?open) = False" by code_simp
  then obtain hB where op: "?open = (sample_open 2 (sample_open 1 empty_db), Inr hB)"
    unfolding sample_open_def[of 2] by (metis isl_def obj_sumE prod.collapse)
  have "normalizedTenantID ''t'' = ''t''" by code_simp
  then have key: "store_key (writer 1) = store_key hB" using open_fence[OF op] by (simp add: store_key_def writer_def)
  show ?thesis
    using fenced_out_instance_cannot_write[OF late_a_reachable steps tok op _ _ rtranclp.rtrancl_refl key] by (simp add: writer_def)
qed

end
