(* ===== verification/Api_Retry.thy ===== *)
theory Api_Retry
  imports Agent_Normalize
begin

text \<open>
  \<open>api/retry.go\<close>: retries of a streaming request, with the cool-down and the exhausted quota of a provider. An error is its
  concrete type, or a wrapping (\<open>fmt.Errorf\<close> with \<open>%w\<close>); \<open>errors.As\<close> walks the chain. The streams, the requests, the
  clock and which sleeps are cut short by cancellation are arguments, one answer per attempt; the reason phrases of
  \<open>http.StatusText\<close> and the host that \<open>url.Parse\<close> finds are arguments too. A message sent on the output channel
  is appended to the output; after the context is done a send fails.
\<close>

section \<open>Errors\<close>

record APIStatusError =
  se_Provider :: string
  se_StatusCode :: int
  se_Status :: string
  se_Body :: string

datatype go_error =
    RetryableError string
  | RetryableStatusError APIStatusError
  | StatusError APIStatusError
  | StreamIdleTimeoutError string
  | EndOfFile string
  | NetError string bool bool
  | Canceled string
  | PlainError string
  | Wrapped string go_error

fun chain :: "go_error \<Rightarrow> go_error list" where
  "chain (Wrapped m e) = Wrapped m e # chain e"
| "chain e = [e]"

definition status_message :: "(int \<Rightarrow> string) \<Rightarrow> APIStatusError \<Rightarrow> string" where
  "status_message status_text e =
     (let prefix = (if se_Provider e \<noteq> [] then se_Provider e @ '' API error'' else ''API error'');
          status = (if se_Status e = [] \<and> se_StatusCode e > 0 then status_text (se_StatusCode e) else se_Status e)
      in if status \<noteq> [] then prefix @ '' '' @ show_int (se_StatusCode e) @ '' '' @ status @ '': '' @ se_Body e
         else prefix @ '' '' @ show_int (se_StatusCode e) @ '': '' @ se_Body e)"

fun error_text :: "(int \<Rightarrow> string) \<Rightarrow> go_error \<Rightarrow> string" where
  "error_text st (RetryableError m) = m"
| "error_text st (RetryableStatusError e) = status_message st e"
| "error_text st (StatusError e) = status_message st e"
| "error_text st (StreamIdleTimeoutError m) = m"
| "error_text st (EndOfFile m) = m"
| "error_text st (NetError m _ _) = m"
| "error_text st (Canceled m) = m"
| "error_text st (PlainError m) = m"
| "error_text st (Wrapped m _) = m"

definition as_error :: "(go_error \<Rightarrow> 'a option) \<Rightarrow> go_error \<Rightarrow> 'a option" where
  "as_error f e = (case List.map_filter f (chain e) of [] \<Rightarrow> None | x # _ \<Rightarrow> Some x)"

definition retryable_status :: "go_error \<Rightarrow> APIStatusError option" where
  "retryable_status = as_error (\<lambda>e. case e of RetryableStatusError s \<Rightarrow> Some s | _ \<Rightarrow> None)"

definition plain_status :: "go_error \<Rightarrow> APIStatusError option" where
  "plain_status = as_error (\<lambda>e. case e of StatusError s \<Rightarrow> Some s | _ \<Rightarrow> None)"

definition is_retryable :: "go_error \<Rightarrow> bool" where
  "is_retryable e \<longleftrightarrow> as_error (\<lambda>e. case e of RetryableError m \<Rightarrow> Some m | _ \<Rightarrow> None) e \<noteq> None"

definition is_eof :: "go_error \<Rightarrow> bool" where
  "is_eof e \<longleftrightarrow> as_error (\<lambda>e. case e of EndOfFile m \<Rightarrow> Some m | _ \<Rightarrow> None) e \<noteq> None"

definition net_error :: "go_error \<Rightarrow> (bool \<times> bool) option" where
  "net_error = as_error (\<lambda>e. case e of NetError _ timeout temporary \<Rightarrow> Some (timeout, temporary) | _ \<Rightarrow> None)"

definition transient_net :: "go_error \<Rightarrow> bool" where
  "transient_net e = (case net_error e of None \<Rightarrow> False | Some (timeout, temporary) \<Rightarrow> timeout \<or> temporary)"

definition transport_fragments :: "string list" where
  "transport_fragments = [''connection reset by peer'', ''forcibly closed by the remote host'', ''connection refused'', ''broken pipe'',
     ''server closed idle connection'', ''tls handshake timeout'', ''unexpected eof'']"

definition retryableTransportError :: "(int \<Rightarrow> string) \<Rightarrow> go_error option \<Rightarrow> go_error option \<Rightarrow> go_error option" where
  "retryableTransportError st ctxErr err =
     (case err of
        None \<Rightarrow> None
      | Some e \<Rightarrow>
          if ctxErr \<noteq> None then ctxErr
          else if is_eof e \<or> transient_net e \<or> list_ex (\<lambda>f. sublist f (lower_view (error_text st e))) transport_fragments
          then Some (RetryableError (error_text st e)) else Some e)"

definition isRetryableError :: "go_error \<Rightarrow> bool" where
  "isRetryableError e \<longleftrightarrow> is_retryable e \<or> retryable_status e \<noteq> None"

definition quota_fragments :: "string list" where
  "quota_fragments = [''quota exhausted'', ''insufficient quota'', ''insufficient balance'', ''payment required'', ''billing hard limit'']"

definition containsQuotaExhaustedText :: "string \<Rightarrow> bool" where
  "containsQuotaExhaustedText lower = list_ex (\<lambda>f. sublist f lower) quota_fragments"

definition IsQuotaExhaustedMessage :: "string \<Rightarrow> bool" where
  "IsQuotaExhaustedMessage m = containsQuotaExhaustedText (lower_view m)"

definition isQuotaExhaustedStatus :: "int \<Rightarrow> string \<Rightarrow> bool" where
  "isQuotaExhaustedStatus code body =
     (if code = 402 then True else if code \<noteq> 429 then False else containsQuotaExhaustedText (lower_view body))"

definition IsQuotaExhaustedError :: "(int \<Rightarrow> string) \<Rightarrow> go_error \<Rightarrow> bool" where
  "IsQuotaExhaustedError st e =
     (case retryable_status e of
        Some s \<Rightarrow> isQuotaExhaustedStatus (se_StatusCode s) (se_Body s @ '' '' @ se_Status s)
      | None \<Rightarrow>
          (case plain_status e of
             Some s \<Rightarrow> isQuotaExhaustedStatus (se_StatusCode s) (se_Body s @ '' '' @ se_Status s)
           | None \<Rightarrow> IsQuotaExhaustedMessage (error_text st e)))"

definition either_status :: "go_error \<Rightarrow> APIStatusError option" where
  "either_status e = (case retryable_status e of Some s \<Rightarrow> Some s | None \<Rightarrow> plain_status e)"

definition statusCodeFromError :: "go_error option \<Rightarrow> json" where
  "statusCodeFromError err =
     (case err of None \<Rightarrow> JNull | Some e \<Rightarrow> (case either_status e of None \<Rightarrow> JNull | Some s \<Rightarrow> JInt (se_StatusCode s)))"

definition rawBodyFromError :: "go_error option \<Rightarrow> json" where
  "rawBodyFromError err =
     (case err of None \<Rightarrow> JNull | Some e \<Rightarrow> (case either_status e of None \<Rightarrow> JNull | Some s \<Rightarrow> JStr (se_Body s)))"

definition retryableStatusCode :: "go_error \<Rightarrow> int" where
  "retryableStatusCode e = (case either_status e of None \<Rightarrow> 0 | Some s \<Rightarrow> se_StatusCode s)"

section \<open>Providers\<close>

record providerCooldownEntry =
  pc_Level :: int
  pc_Until :: int

record providers =
  pv_cooldown :: "(string \<times> providerCooldownEntry) list"
  pv_quota :: "(string \<times> string) list"

definition providerCooldownSteps :: "int list" where
  "providerCooldownSteps = [10000000000, 30000000000, 60000000000]"

definition providerCooldownKey :: "(string \<Rightarrow> string option) \<Rightarrow> string \<Rightarrow> string" where
  "providerCooldownKey host rawURL =
     (let url = TrimSpace rawURL in
      if url = [] then []
      else case host url of
        Some h \<Rightarrow> if h \<noteq> [] then lower_view h else lower_view (rev (dropWhile (\<lambda>c. c = CHR ''/'') (rev url)))
      | None \<Rightarrow> lower_view (rev (dropWhile (\<lambda>c. c = CHR ''/'') (rev url))))"

text \<open>A missing entry reads as level zero with the zero instant.\<close>

abbreviation no_cooldown :: providerCooldownEntry where
  "no_cooldown \<equiv> \<lparr>pc_Level = 0, pc_Until = 0\<rparr>"

text \<open>An index outside the table of delays would stop the program; the result is then \<open>None\<close>.\<close>

definition noteProviderRateLimit :: "int \<Rightarrow> string \<Rightarrow> providers \<Rightarrow> providers option" where
  "noteProviderRateLimit now key w =
     (if key = [] then Some w
      else let entry = mget no_cooldown (pv_cooldown w) key;
               raised = (if pc_Level entry < int (length providerCooldownSteps) then pc_Level entry + 1 else pc_Level entry);
               level = (if raised \<le> 0 then 1 else raised)
           in if 0 \<le> level - 1 \<and> level - 1 < int (length providerCooldownSteps)
              then Some (w\<lparr>pv_cooldown := mput key \<lparr>pc_Level = level, pc_Until = now + providerCooldownSteps ! nat (level - 1)\<rparr> (pv_cooldown w)\<rparr>)
              else None)"

definition noteProviderSuccess :: "string \<Rightarrow> providers \<Rightarrow> providers" where
  "noteProviderSuccess key w =
     (if key = [] then w
      else let entry = mget no_cooldown (pv_cooldown w) key
           in if pc_Level entry \<le> 1 then w\<lparr>pv_cooldown := mdel key (pv_cooldown w)\<rparr>
              else w\<lparr>pv_cooldown := mput key \<lparr>pc_Level = pc_Level entry - 1, pc_Until = 0\<rparr> (pv_cooldown w)\<rparr>)"

definition noteProviderQuotaExhausted :: "string \<Rightarrow> string \<Rightarrow> providers \<Rightarrow> providers" where
  "noteProviderQuotaExhausted key reason w =
     (if key = [] then w else w\<lparr>pv_quota := mput key (TrimSpace reason) (pv_quota w)\<rparr>)"

definition providerQuotaExhaustedReason :: "string \<Rightarrow> providers \<Rightarrow> string \<times> bool" where
  "providerQuotaExhaustedReason key w =
     (if key = [] then ([], False)
      else (let reason = mget [] (pv_quota w) key in if TrimSpace reason = [] then ''API quota exhausted'' else reason,
            map_of (pv_quota w) key \<noteq> None))"

section \<open>The retry loop\<close>

datatype item = Ev gomap | Er go_error

text \<open>\<open>alive n\<close>: the context is not done when the \<open>n\<close>-th message is to be sent.\<close>

definition send :: "(nat \<Rightarrow> bool) \<Rightarrow> item list \<Rightarrow> item \<Rightarrow> item list \<times> bool" where
  "send alive out x = (if alive (length out) then (out @ [x], True) else (out, False))"

definition errorEvent :: "string \<Rightarrow> gomap" where
  "errorEvent message = [(''type'', JStr ''error''), (''message'', JStr message)]"

definition quota_event :: "string \<Rightarrow> string \<Rightarrow> json \<Rightarrow> json \<Rightarrow> gomap" where
  "quota_event message key status raw_error =
     [(''type'', JStr ''error''), (''message'', JStr message), (''error_type'', JStr ''api_quota_exhausted''), (''provider'', JStr key),
      (''status_code'', status), (''raw_error'', raw_error), (''retryable'', JBool False)]"

definition final_event :: "(int \<Rightarrow> string) \<Rightarrow> int \<Rightarrow> go_error option \<Rightarrow> gomap" where
  "final_event st maxRetries lastErr =
     [(''type'', JStr ''error''),
      (''message'', JStr (''Request failed after '' @ show_int (maxRetries + 1) @ '' attempts. Last error: '' @
         (case lastErr of None \<Rightarrow> [] | Some e \<Rightarrow> error_text st e))),
      (''status_code'', statusCodeFromError lastErr), (''raw_error'', rawBodyFromError lastErr), (''retryable'', JBool True)]"

definition is_error_event :: "gomap \<Rightarrow> bool" where
  "is_error_event ev \<longleftrightarrow> fld ev ''type'' = JStr ''error''"

datatype outcome = Finished | Stopped | Again go_error | Panicked

text \<open>Reading one stream: what was sent, the providers, and how it ended.\<close>

fun read_stream :: "(int \<Rightarrow> string) \<Rightarrow> (nat \<Rightarrow> bool) \<Rightarrow> int \<Rightarrow> string \<Rightarrow> item list \<Rightarrow> providers \<Rightarrow> item list \<Rightarrow> item list \<times> providers \<times> outcome" where
  "read_stream st alive now key out w [] = (out, w, Finished)"
| "read_stream st alive now key out w (Er e # xs) =
     (if IsQuotaExhaustedError st e then
        (fst (send alive out (Ev (quota_event (error_text st e) key (statusCodeFromError (Some e)) (rawBodyFromError (Some e))))),
         noteProviderQuotaExhausted key (error_text st e) w, Stopped)
      else if isRetryableError e then
        (if retryableStatusCode e = 429
         then (case noteProviderRateLimit now key w of None \<Rightarrow> (out, w, Panicked) | Some w' \<Rightarrow> (out, w', Again e))
         else (out, w, Again e))
      else (fst (send alive out (Ev (errorEvent (error_text st e)))), w, Stopped))"
| "read_stream st alive now key out w (Ev ev # xs) =
     (if is_error_event ev then (fst (send alive out (Ev ev)), w, Stopped)
      else case send alive out (Ev ev) of
        (out', False) \<Rightarrow> (out', w, Stopped)
      | (out', True) \<Rightarrow> read_stream st alive now key out' w xs)"

record retry_env =
  re_build :: "nat \<Rightarrow> go_error + string"
  re_stream :: "nat \<Rightarrow> item list"
  re_sleep :: "nat \<Rightarrow> bool"
  re_cooled :: "nat \<Rightarrow> bool"
  re_now :: "nat \<Rightarrow> int"
  re_alive :: "nat \<Rightarrow> bool"
  re_ctxErr :: go_error

function retry_from :: "(int \<Rightarrow> string) \<Rightarrow> (string \<Rightarrow> string option) \<Rightarrow> retry_env \<Rightarrow> int \<Rightarrow> nat \<Rightarrow> item list \<Rightarrow> providers \<Rightarrow> go_error option \<Rightarrow> item list \<times> providers" where
  "retry_from st host env maxRetries attempt out w lastErr =
     (if int attempt > maxRetries then (fst (send (re_alive env) out (Ev (final_event st maxRetries lastErr))), w)
      else let next = (\<lambda>out w err.
             if int attempt < maxRetries \<and> \<not> re_sleep env attempt then (fst (send (re_alive env) out (Er (re_ctxErr env))), w)
             else retry_from st host env maxRetries (Suc attempt) out w (Some err)) in
      case re_build env attempt of
        Inl err \<Rightarrow>
          if \<not> isRetryableError err then (fst (send (re_alive env) out (Ev (errorEvent (error_text st err)))), w)
          else next out w err
      | Inr url \<Rightarrow>
          (let key = providerCooldownKey host url in
           if snd (providerQuotaExhaustedReason key w)
           then (fst (send (re_alive env) out (Ev (quota_event (fst (providerQuotaExhaustedReason key w)) key (JInt 429)
                   (JStr (fst (providerQuotaExhaustedReason key w)))))), w)
           else if \<not> re_cooled env attempt then (fst (send (re_alive env) out (Er (re_ctxErr env))), w)
           else case read_stream st (re_alive env) (re_now env attempt) key out w (re_stream env attempt) of
             (out', w', Finished) \<Rightarrow> (out', noteProviderSuccess key w')
           | (out', w', Stopped) \<Rightarrow> (out', w')
           | (out', w', Panicked) \<Rightarrow> (out', w')
           | (out', w', Again err) \<Rightarrow> next out' w' err))"
  by pat_completeness auto
termination
  by (relation "measure (\<lambda>(st, host, env, maxRetries, attempt, out, w, lastErr). nat (maxRetries + 1 - int attempt))") auto

definition RetryWithBackoff :: "(int \<Rightarrow> string) \<Rightarrow> (string \<Rightarrow> string option) \<Rightarrow> retry_env \<Rightarrow> int \<Rightarrow> providers \<Rightarrow> item list \<times> providers" where
  "RetryWithBackoff st host env maxRetries w = retry_from st host env maxRetries 0 [] w None"

declare retry_from.simps [simp del]

section \<open>Cool-down levels\<close>

definition wf_providers :: "providers \<Rightarrow> bool" where
  "wf_providers w \<longleftrightarrow> (\<forall>k e. map_of (pv_cooldown w) k = Some e \<longrightarrow> 1 \<le> pc_Level e \<and> pc_Level e \<le> 3)"

lemma level_range: "wf_providers w \<Longrightarrow> 0 \<le> pc_Level (mget no_cooldown (pv_cooldown w) k) \<and> pc_Level (mget no_cooldown (pv_cooldown w) k) \<le> 3"
  by (auto simp: wf_providers_def mget_def split: option.splits) (metis dual_order.trans zero_le_one)

lemma rate_limit_wf:
  assumes "wf_providers w" shows "\<exists>w'. noteProviderRateLimit now key w = Some w' \<and> wf_providers w'"
  using level_range[OF assms, of key] assms
  by (auto simp: noteProviderRateLimit_def providerCooldownSteps_def Let_def wf_providers_def update_conv')

lemma success_wf: "wf_providers w \<Longrightarrow> wf_providers (noteProviderSuccess key w)"
  using level_range[of w key] by (auto simp: noteProviderSuccess_def Let_def wf_providers_def update_conv' delete_conv')

lemma quota_wf [simp]: "wf_providers (noteProviderQuotaExhausted key r w) = wf_providers w"
  by (simp add: noteProviderQuotaExhausted_def wf_providers_def)

lemma read_stream_wf:
  "read_stream st alive now key out w xs = (out', w', res) \<Longrightarrow> wf_providers w \<Longrightarrow> wf_providers w' \<and> res \<noteq> Panicked"
proof (induction st alive now key out w xs rule: read_stream.induct)
  case (2 st alive now key out w e xs)
  then show ?case using rate_limit_wf[of w now key] by (auto split: if_splits option.splits)
qed (auto split: if_splits prod.splits bool.splits)

text \<open>C22: The level of a provider's cool-down always selects an entry of the table of delays: starting without cool-downs, no sequence of
  requests, however they end, moves a level out of the range one to three, and recording a rate limit never indexes outside
  the table.\<close>

theorem cooldown_level_stays_in_the_table:
  assumes "wf_providers w"
  shows "wf_providers (snd (RetryWithBackoff st host env maxRetries w)) \<and>
    noteProviderRateLimit now key (snd (RetryWithBackoff st host env maxRetries w)) \<noteq> None"
proof -
  have "wf_providers (snd (retry_from st host env maxRetries attempt out w lastErr))" if "wf_providers w" for attempt out w lastErr
    using that
  proof (induction st host env maxRetries attempt out w lastErr rule: retry_from.induct)
    case (1 st host env maxRetries attempt out w lastErr)
    show ?case
      using "1.prems" "1.IH"
      by (subst retry_from.simps)
        (auto simp: Let_def success_wf dest: read_stream_wf split: sum.splits prod.splits outcome.splits)
  qed
  then have wf: "wf_providers (snd (RetryWithBackoff st host env maxRetries w))" using assms by (simp add: RetryWithBackoff_def)
  then show ?thesis using rate_limit_wf[OF wf] by fastforce
qed

theorem cooldown_level_stays_in_the_table_witness:
  "wf_providers \<lparr>pv_cooldown = [(''h'', \<lparr>pc_Level = 3, pc_Until = 0\<rparr>)], pv_quota = []\<rparr> \<and>
   noteProviderRateLimit 5 ''h'' (snd (RetryWithBackoff (\<lambda>_. []) (\<lambda>u. Some ''h'')
     \<lparr>re_build = (\<lambda>_. Inr ''u''), re_stream = (\<lambda>_. [Er (RetryableStatusError \<lparr>se_Provider = [], se_StatusCode = 429, se_Status = [], se_Body = []\<rparr>)]),
      re_sleep = (\<lambda>_. True), re_cooled = (\<lambda>_. True), re_now = int, re_alive = (\<lambda>_. True), re_ctxErr = Canceled []\<rparr> 3
     \<lparr>pv_cooldown = [(''h'', \<lparr>pc_Level = 3, pc_Until = 0\<rparr>)], pv_quota = []\<rparr>)) \<noteq> None"
proof -
  have "wf_providers \<lparr>pv_cooldown = [(''h'', \<lparr>pc_Level = 3, pc_Until = 0\<rparr>)], pv_quota = []\<rparr>" by (simp add: wf_providers_def)
  then show ?thesis using cooldown_level_stays_in_the_table by blast
qed

section \<open>What is sent\<close>

fun is_failure :: "item \<Rightarrow> bool" where
  "is_failure (Er _) = True"
| "is_failure (Ev ev) = is_error_event ev"

lemma failure_events [simp]:
  "is_error_event (errorEvent m)" "is_error_event (quota_event m key c r)" "is_error_event (final_event st n e)"
  by (simp_all add: is_error_event_def errorEvent_def quota_event_def final_event_def mget_def)

definition clean :: "item list \<Rightarrow> bool" where
  "clean out = list_all (\<lambda>x. \<not> is_failure x) out"

lemma clean_simps [simp]: "clean []" "clean (xs @ ys) \<longleftrightarrow> clean xs \<and> clean ys" "clean (x # xs) \<longleftrightarrow> \<not> is_failure x \<and> clean xs"
  by (simp_all add: clean_def)

lemma butlast_clean: "clean out \<Longrightarrow> clean (butlast out)"
  by (auto simp: clean_def list_all_iff dest: in_set_butlastD)

lemma send_butlast: "clean out \<Longrightarrow> clean (butlast (fst (send alive out x)))"
  by (auto simp: send_def clean_def list_all_iff dest: in_set_butlastD)

lemma read_stream_sent:
  "read_stream st alive now key out w xs = (out', w', res) \<Longrightarrow> clean out \<Longrightarrow>
    clean (butlast out') \<and> ((res = Finished \<or> (\<exists>e. res = Again e)) \<longrightarrow> clean out') \<and> (res = Finished \<longrightarrow> clean xs \<and> out' = out @ xs)"
proof (induction st alive now key out w xs rule: read_stream.induct)
  case (1 st alive now key out w)
  then show ?case by (auto simp: clean_def list_all_iff dest: in_set_butlastD)
next
  case (2 st alive now key out w e xs)
  then show ?case
    by (auto simp: send_butlast split: if_splits option.splits) (auto simp: clean_def list_all_iff dest: in_set_butlastD)
next
  case (3 st alive now key out w ev xs)
  show ?case
  proof (cases "is_error_event ev \<or> \<not> alive (length out)")
    case True
    then show ?thesis using "3.prems" butlast_clean[OF "3.prems"(2)]
      by (auto simp: send_def split: if_splits)
  next
    case False
    then have "send alive out (Ev ev) = (out @ [Ev ev], True)" by (simp add: send_def)
    then show ?thesis using 3 False by auto
  qed
qed

lemma retry_from_sent: "clean out \<Longrightarrow> clean (butlast (fst (retry_from st host env m attempt out w lastErr)))"
proof (induction st host env m attempt out w lastErr rule: retry_from.induct)
  case (1 st host env m attempt out w lastErr)
  show ?case
    using "1.prems" "1.IH"
    by (subst retry_from.simps)
      (auto simp: Let_def send_butlast dest: read_stream_sent split: sum.splits prod.splits outcome.splits)
qed

text \<open>C19: A request reports at most one failure, and nothing follows it: every message before the last one on the output channel is an
  ordinary event, for every course of the attempts and whenever the caller gives up.\<close>

theorem failure_is_the_last_message:
  "list_all (\<lambda>x. \<not> is_failure x) (butlast (fst (RetryWithBackoff st host env maxRetries w)))"
  using retry_from_sent[of "[]"] by (simp add: RetryWithBackoff_def clean_def)

lemma read_stream_stopped:
  "read_stream st (\<lambda>_. True) now key out w xs = (out', w', Stopped) \<Longrightarrow> out' \<noteq> [] \<and> is_failure (last out')"
  by (induction st "\<lambda>_::nat. True" now key out w xs rule: read_stream.induct) (auto simp: send_def split: if_splits option.splits)

definition answered :: "retry_env \<Rightarrow> int \<Rightarrow> item list \<Rightarrow> bool" where
  "answered env m out \<longleftrightarrow> (out \<noteq> [] \<and> is_failure (last out)) \<or>
     (\<exists>k. int k \<le> m \<and> clean (re_stream env k) \<and> suffix (re_stream env k) out)"

lemma answered_failure [simp]: "is_failure x \<Longrightarrow> answered env m (out @ [x])"
  by (simp add: answered_def)

lemma retry_from_answered:
  assumes "re_alive env = (\<lambda>_. True)"
  shows "wf_providers w \<Longrightarrow> clean out \<Longrightarrow> answered env m (fst (retry_from st host env m attempt out w lastErr))"
  using assms
proof (induction st host env m attempt out w lastErr rule: retry_from.induct)
  case (1 st host env m attempt out w lastErr)
  have fin: "answered env m out'" if "read_stream st (\<lambda>_. True) t key out w (re_stream env attempt) = (out', w', Finished)" "int attempt \<le> m" for t key out' w'
    using read_stream_sent[OF that(1) "1.prems"(2)] that(2) by (auto simp: answered_def intro!: exI[of _ attempt] suffixI)
  have stop: "answered env m out'" if "read_stream st (\<lambda>_. True) t key out w (re_stream env attempt) = (out', w', Stopped)" for t key out' w'
    using read_stream_stopped[OF that] by (simp add: answered_def)
  have again: "clean out' \<and> wf_providers w'" if "read_stream st (\<lambda>_. True) t key out w (re_stream env attempt) = (out', w', Again e)" for t key out' w' e
    using read_stream_sent[OF that "1.prems"(2)] read_stream_wf[OF that "1.prems"(1)] by blast
  have panic: False if "read_stream st (\<lambda>_. True) t key out w (re_stream env attempt) = (out', w', Panicked)" for t key out' w'
    using read_stream_wf[OF that "1.prems"(1)] by blast
  show ?case
    using "1.prems" "1.IH" fin stop
    by (subst retry_from.simps)
      (auto simp: Let_def send_def not_less dest: again panic split: sum.splits prod.splits outcome.splits)
qed

text \<open>C13: A request never ends without an answer: while the caller listens, either the last message reports a failure, or one of the
  at most \<open>MaxRetries\<close> + 1 attempts ran to its end without any failure and its complete stream stands at the end of the output.\<close>

theorem request_is_answered:
  assumes "wf_providers w" "re_alive env = (\<lambda>_. True)" "fst (RetryWithBackoff st host env maxRetries w) = out"
  shows "(out \<noteq> [] \<and> is_failure (last out)) \<or>
    (\<exists>k. int k \<le> maxRetries \<and> list_all (\<lambda>x. \<not> is_failure x) (re_stream env k) \<and> suffix (re_stream env k) out)"
  using retry_from_answered[OF assms(2,1), of "[]" maxRetries st host 0 None] unfolding assms(3)[symmetric]
  by (simp add: RetryWithBackoff_def answered_def clean_def)

definition no_providers :: providers where "no_providers = \<lparr>pv_cooldown = [], pv_quota = []\<rparr>"

definition delta :: "string \<Rightarrow> item" where "delta t = Ev [(''type'', JStr ''text_delta''), (''text'', JStr t)]"

text \<open>The first attempt breaks off after one piece of text, the second one completes.\<close>

definition broken_env :: retry_env where
  "broken_env = \<lparr>re_build = (\<lambda>_. Inr ''u''),
     re_stream = (\<lambda>k. if k = 0 then [delta ''a'', Er (RetryableError ''reset'')] else [delta ''a'', delta ''b'']),
     re_sleep = (\<lambda>_. True), re_cooled = (\<lambda>_. True), re_now = int, re_alive = (\<lambda>_. True), re_ctxErr = Canceled []\<rparr>"

theorem request_is_answered_witness:
  "\<not> is_failure (last (fst (RetryWithBackoff (\<lambda>_. []) (\<lambda>u. None) broken_env 3 no_providers))) \<and>
   (\<exists>k. int k \<le> 3 \<and> list_all (\<lambda>x. \<not> is_failure x) (re_stream broken_env k) \<and>
      suffix (re_stream broken_env k) (fst (RetryWithBackoff (\<lambda>_. []) (\<lambda>u. None) broken_env 3 no_providers)))"
proof -
  have "wf_providers no_providers" "re_alive broken_env = (\<lambda>_. True)" by (simp_all add: wf_providers_def no_providers_def broken_env_def)
  moreover have no: "\<not> is_failure (last (fst (RetryWithBackoff (\<lambda>_. []) (\<lambda>u. None) broken_env 3 no_providers)))" by code_simp
  ultimately show ?thesis using request_is_answered[OF _ _ refl, of no_providers broken_env "\<lambda>_. []" "\<lambda>u. None" 3] by blast
qed

text \<open>The text that a broken attempt has delivered is delivered again by the next one.\<close>

lemma retry_repeats_delivered_text:
  "fst (RetryWithBackoff (\<lambda>_. []) (\<lambda>u. None) broken_env 3 no_providers) = [delta ''a'', delta ''a'', delta ''b'']"
  by code_simp

section \<open>Exhausted quota\<close>

lemma quota_kept_stream:
  "read_stream st alive now key' out w xs = (out', w', res) \<Longrightarrow> map_of (pv_quota w) key \<noteq> None \<Longrightarrow> map_of (pv_quota w') key \<noteq> None"
proof (induction st alive now key' out w xs rule: read_stream.induct)
  case (2 st alive now key' out w e xs)
  then show ?case
    by (auto simp: noteProviderQuotaExhausted_def noteProviderRateLimit_def Let_def update_conv' split: if_splits option.splits)
qed (auto split: if_splits prod.splits bool.splits)

lemma quota_kept:
  "map_of (pv_quota w) key \<noteq> None \<Longrightarrow> map_of (pv_quota (snd (retry_from st host env m attempt out w lastErr))) key \<noteq> None"
proof (induction st host env m attempt out w lastErr rule: retry_from.induct)
  case (1 st host env m attempt out w lastErr)
  have success: "pv_quota (noteProviderSuccess k w) = pv_quota w" for k w by (simp add: noteProviderSuccess_def Let_def)
  have stream: "\<exists>y. map_of (pv_quota w') key = Some y" if "read_stream st (re_alive env) t k out w (re_stream env attempt) = (out', w', res)" for t k out' w' res
    using quota_kept_stream[OF that "1.prems"] by blast
  show ?case
    using "1.prems" "1.IH"
    by (subst retry_from.simps)
      (auto simp: Let_def success dest: stream split: sum.splits prod.splits outcome.splits)
qed

definition serves :: "(string \<Rightarrow> string option) \<Rightarrow> retry_env \<Rightarrow> string \<Rightarrow> bool" where
  "serves host env key \<longleftrightarrow> (\<forall>k. case re_build env k of Inl _ \<Rightarrow> True | Inr url \<Rightarrow> providerCooldownKey host url = key)"

lemma exhausted_reads_no_stream:
  assumes "key \<noteq> []" "map_of (pv_quota w) key \<noteq> None"
  shows "serves host env key \<Longrightarrow>
    retry_from st host (env\<lparr>re_stream := s\<rparr>) m attempt out w lastErr = retry_from st host env m attempt out w lastErr"
proof (induction "nat (m + 1 - int attempt)" arbitrary: attempt lastErr)
  case 0
  then have "int attempt > m" by simp
  then show ?case
    unfolding retry_from.simps[of st host "env\<lparr>re_stream := s\<rparr>" m attempt out w lastErr] retry_from.simps[of st host env m attempt out w lastErr]
    by simp
next
  case (Suc n)
  let ?env = "env\<lparr>re_stream := s\<rparr>"
  note unfold = retry_from.simps[of st host ?env m attempt out w lastErr] retry_from.simps[of st host env m attempt out w lastErr]
  have rec: "retry_from st host (env\<lparr>re_stream := s\<rparr>) m (Suc attempt) out w e = retry_from st host env m (Suc attempt) out w e" for e
    using Suc(1)[of "Suc attempt" e] Suc(2,3) by simp
  show ?case
  proof (cases "re_build env attempt")
    case (Inl err)
    then show ?thesis unfolding unfold Let_def by (simp add: rec)
  next
    case (Inr url)
    then have key: "providerCooldownKey host url = key" using Suc(3)[unfolded serves_def, rule_format, of attempt] by simp
    have "snd (providerQuotaExhaustedReason key w)" using assms by (simp add: providerQuotaExhaustedReason_def)
    then show ?thesis unfolding unfold Let_def by (simp add: Inr key)
  qed
qed

text \<open>A provider whose quota is exhausted is not asked again: once the exhaustion is recorded, whatever other requests run in between,
  no later request to that provider reads a stream; its output does not depend on what the provider would have sent.\<close>

theorem exhausted_provider_is_not_asked:
  assumes "key \<noteq> []" "serves host env key" "map_of (pv_quota w) key \<noteq> None" "w' = snd (RetryWithBackoff st host' env' m' w)"
  shows "RetryWithBackoff st host (env\<lparr>re_stream := s\<rparr>) m w' = RetryWithBackoff st host env m w'"
proof -
  have "map_of (pv_quota w') key \<noteq> None" using quota_kept[OF assms(3)] assms(4) by (simp add: RetryWithBackoff_def)
  then show ?thesis using exhausted_reads_no_stream[OF assms(1) _ assms(2)] by (simp add: RetryWithBackoff_def)
qed

theorem exhausted_provider_is_not_asked_witness:
  "RetryWithBackoff (\<lambda>_. []) (\<lambda>u. Some ''h'') (broken_env\<lparr>re_stream := (\<lambda>_. [delta ''x''])\<rparr>) 3
     (snd (RetryWithBackoff (\<lambda>_. []) (\<lambda>u. Some ''h'') broken_env 3 \<lparr>pv_cooldown = [], pv_quota = [(''h'', ''paid out'')]\<rparr>)) =
   RetryWithBackoff (\<lambda>_. []) (\<lambda>u. Some ''h'') broken_env 3
     (snd (RetryWithBackoff (\<lambda>_. []) (\<lambda>u. Some ''h'') broken_env 3 \<lparr>pv_cooldown = [], pv_quota = [(''h'', ''paid out'')]\<rparr>))"
proof (rule exhausted_provider_is_not_asked[where key = "''h''", OF _ _ _ refl])
  have "providerCooldownKey (\<lambda>u. Some ''h'') ''u'' = ''h''" by code_simp
  then show "serves (\<lambda>u. Some ''h'') broken_env ''h''" by (simp add: serves_def broken_env_def)
qed simp_all

end
