(* ===== verification/Api_Fallback.thy ===== *)
theory Api_Fallback
  imports Api_Retry
begin

text \<open>
  \<open>api/fallback.go\<close>: a client with a second model that takes over when the first one fails before it has produced output. The two
  clients are arguments: what a completion returns and the items of a stream. \<open>fmt.Sprint\<close> of a value that is not
  a string and \<open>strconv.Atoi\<close> are arguments. The structured completions, which parse JSON texts, are not modelled.
\<close>

definition nonFallback_fragments :: "string list" where
  "nonFallback_fragments = [''invalid_request_error'', ''invalid api key'', ''invalid_api_key'', ''authentication'', ''authorization'', ''permission'',
     ''model_not_found'', ''not_found'', ''quota exhausted'', ''insufficient quota'', ''insufficient balance'', ''payment required'']"

definition containsNonFallbackError :: "string \<Rightarrow> bool" where
  "containsNonFallbackError v = list_ex (\<lambda>f. sublist f (lower_view v)) nonFallback_fragments"




definition transient_status :: "int \<Rightarrow> bool" where
  "transient_status code \<longleftrightarrow> code = 408 \<or> code = 429 \<or> code \<ge> 500"

definition is_idle_timeout :: "go_error \<Rightarrow> bool" where
  "is_idle_timeout e \<longleftrightarrow> as_error (\<lambda>e. case e of StreamIdleTimeoutError m \<Rightarrow> Some m | _ \<Rightarrow> None) e \<noteq> None"

definition is_canceled :: "go_error \<Rightarrow> bool" where
  "is_canceled e \<longleftrightarrow> as_error (\<lambda>e. case e of Canceled m \<Rightarrow> Some m | _ \<Rightarrow> None) e \<noteq> None"

definition fallbackEligibleError :: "(int \<Rightarrow> string) \<Rightarrow> bool \<Rightarrow> go_error \<Rightarrow> bool" where
  "fallbackEligibleError st ctxDone e =
     (if ctxDone \<or> is_canceled e then False
      else if IsQuotaExhaustedError st e then False
      else if containsNonFallbackError (error_text st e) then False
      else case plain_status e of
        Some s \<Rightarrow> transient_status (se_StatusCode s)
      | None \<Rightarrow>
          if retryable_status e \<noteq> None \<or> is_retryable e \<or> is_idle_timeout e \<or> is_eof e then True
          else transient_net e)"




section \<open>Completions\<close>

datatype complete_error = PrimaryOnly go_error | ModelFallbackError go_error go_error

definition FallbackComplete :: "(int \<Rightarrow> string) \<Rightarrow> bool \<Rightarrow> string \<times> go_error option \<Rightarrow> string \<times> go_error option \<Rightarrow> string \<times> complete_error option" where
  "FallbackComplete st ctxDone primary fallback =
     (case primary of
        (text, None) \<Rightarrow> (text, None)
      | (text, Some e) \<Rightarrow>
          if \<not> fallbackEligibleError st ctxDone e then (text, Some (PrimaryOnly e))
          else case fallback of
            (_, Some fe) \<Rightarrow> ([], Some (ModelFallbackError e fe))
          | (fallbackText, None) \<Rightarrow> (fallbackText, None))"

section \<open>Streams\<close>










section \<open>Properties\<close>














end
