(* ===== verification/Go_Text.thy ===== *)
theory Go_Text
  imports Go_Path
begin

text \<open>
  More of Go's \<open>strings\<close> package, on byte strings: replacement of several strings at once, trimming of given characters, substrings,
  and the texts the team components put together from parts.
\<close>

text \<open>Text outside ASCII is written as the bytes of its UTF-8 encoding.\<close>

definition utf8 :: "nat list \<Rightarrow> string" where
  "utf8 bytes = map char_of bytes"

section \<open>Replacing\<close>

text \<open>\<open>strings.NewReplacer(...).Replace\<close>: at each position the first old string, in argument order, that matches there.\<close>

function Replacer :: "(string \<times> string) list \<Rightarrow> string \<Rightarrow> string" where
  "Replacer ps s =
     (case s of [] \<Rightarrow> []
      | c # cs \<Rightarrow>
          (case find (\<lambda>p. fst p \<noteq> [] \<and> prefix (fst p) s) ps of
             None \<Rightarrow> c # Replacer ps cs
           | Some p \<Rightarrow> snd p @ Replacer ps (drop (length (fst p)) s)))"
  by pat_completeness auto
termination
  by (relation "measure (\<lambda>(ps, s). length s)") (auto simp: find_Some_iff dest: nth_mem)

declare Replacer.simps [simp del]

lemma Replacer_Nil [simp]: "Replacer ps [] = []"
  by (simp add: Replacer.simps)

definition ReplaceAll :: "string \<Rightarrow> string \<Rightarrow> string \<Rightarrow> string" where
  "ReplaceAll s old new = Replacer [(old, new)] s"

section \<open>Trimming and searching\<close>

lemma space_len_prefix: "prefix p s \<Longrightarrow> space_len wide s = 0 \<Longrightarrow> space_len wide p = 0"
proof (cases p)
  case (Cons c cs)
  assume "prefix p s" "space_len wide s = 0"
  moreover from this Cons obtain cs' where "s = c # cs'" by (auto simp: prefix_def)
  moreover have "filter (\<lambda>w. w \<noteq> [] \<and> prefix w s) wide = [] \<Longrightarrow> filter (\<lambda>w. w \<noteq> [] \<and> prefix w p) wide = []" using \<open>prefix p s\<close>
    by (auto simp: filter_empty_conv dest: prefix_order.trans)
  ultimately show ?thesis using Cons
    by (cases "filter (\<lambda>w. w \<noteq> [] \<and> prefix w s) wide") (auto simp: space_len_def filter_eq_Cons_iff)
qed (simp add: space_len_def)

lemma TrimSpace_idem [simp]: "TrimSpace (TrimSpace s) = TrimSpace s"
proof -
  have "prefix (TrimSpace s) (TrimLeft s)" using TrimRight_prefix[of "TrimLeft s"] by (auto simp: TrimSpace_def prefix_def)
  then have "space_len wide_spaces (TrimSpace s) = 0"
    using space_len_prefix trim_front_stable[of wide_spaces s] by (simp add: TrimLeft_def)
  then have "TrimLeft (TrimSpace s) = TrimSpace s" by (simp add: TrimLeft_def trim_front.simps)
  moreover have "TrimRight (TrimRight t) = TrimRight t" for t by (simp add: TrimRight_def)
  ultimately show ?thesis by (simp add: TrimSpace_def)
qed

text \<open>\<open>strings.Trim(s, cutset)\<close> for a set of single bytes and \<open>strings.Contains\<close>.\<close>

definition TrimChars :: "string \<Rightarrow> string \<Rightarrow> string" where
  "TrimChars cutset s = rev (dropWhile (\<lambda>c. c \<in> set cutset) (rev (dropWhile (\<lambda>c. c \<in> set cutset) s)))"

definition Contains :: "string \<Rightarrow> string \<Rightarrow> bool" where
  "Contains s sub = sublist sub s"

lemma Contains_refl [simp]: "Contains s s" "Contains s []"
  by (simp_all add: Contains_def)

section \<open>Lists of strings\<close>

definition nonEmptyStrings :: "string list \<Rightarrow> string list" where
  "nonEmptyStrings values = filter (\<lambda>v. TrimSpace v \<noteq> []) values"

definition firstNonEmpty :: "string list \<Rightarrow> string" where
  "firstNonEmpty values = (case filter (\<lambda>v. v \<noteq> []) (map TrimSpace values) of [] \<Rightarrow> [] | v # _ \<Rightarrow> v)"

fun unique_from :: "string list \<Rightarrow> string list \<Rightarrow> string list" where
  "unique_from seen [] = []"
| "unique_from seen (v # vs) =
     (let t = TrimSpace v in if t = [] \<or> t \<in> set seen then unique_from seen vs else t # unique_from (t # seen) vs)"

definition uniqueStrings :: "string list \<Rightarrow> string list" where
  "uniqueStrings values = unique_from [] values"

lemma set_unique_from: "set (unique_from seen vs) = TrimSpace ` set vs - {[]} - set seen"
  by (induction seen vs rule: unique_from.induct) (auto simp: Let_def)

lemma distinct_unique_from: "distinct (unique_from seen vs)"
  by (induction seen vs rule: unique_from.induct) (auto simp: Let_def set_unique_from)

lemma set_uniqueStrings: "set (uniqueStrings vs) = TrimSpace ` set vs - {[]}"
  by (simp add: uniqueStrings_def set_unique_from)

lemma distinct_uniqueStrings: "distinct (uniqueStrings vs)"
  by (simp add: uniqueStrings_def distinct_unique_from)

lemma firstNonEmpty_eq_Nil: "firstNonEmpty vs = [] \<longleftrightarrow> (\<forall>v \<in> set vs. TrimSpace v = [])"
  by (induction vs) (auto simp: firstNonEmpty_def)

end
