(* ===== verification/Team_Evidence.thy ===== *)
theory Team_Evidence
  imports Go_Text
begin

text \<open>
  The evidence of \<open>team/session.go\<close>: which checks of an acceptance contract are covered by the evidence of a gate verdict. Names are
  compared after normalization, commands fragment by fragment. The parameter \<open>lower\<close> is \<open>strings.ToLower\<close>, whose tables of Unicode
  letters are not repeated here.
\<close>

record ContractCheck =
  ck_Name :: string
  ck_Command :: string
  ck_CWD :: string
  ck_Required :: bool

record GateEvidence =
  ge_Name :: string
  ge_Command :: string
  ge_CWD :: string
  ge_Passed :: bool
  ge_OutputSummary :: string

section \<open>Names\<close>

definition key_separators :: "(string \<times> string) list" where
  "key_separators = [(''-'', '' ''), ('':'', '' ''), (''/'', '' ''), (''_'', '' '')]"

definition normalizeEvidenceKey :: "(string \<Rightarrow> string) \<Rightarrow> string \<Rightarrow> string" where
  "normalizeEvidenceKey lower v = join_with '' '' (Fields (lower (TrimSpace (Replacer key_separators v))))"

definition generic_words :: "string list" where
  "generic_words =
     [utf8 [229, 145, 189, 228, 187, 164], utf8 [233, 170, 140, 232, 175, 129], utf8 [229, 156, 186, 230, 153, 175], utf8 [230, 181, 139, 232, 175, 149], utf8 [230, 163, 128, 230, 159, 165], utf8 [229, 138, 159, 232, 131, 189], utf8 [232, 183, 175, 229, 190, 132]]"

definition stripGenericEvidenceWords :: "string \<Rightarrow> string" where
  "stripGenericEvidenceWords token = fold (\<lambda>word t. ReplaceAll t word []) generic_words token"

definition isGenericEvidenceNameToken :: "string \<Rightarrow> bool" where
  "isGenericEvidenceNameToken token \<longleftrightarrow>
     token \<in> set generic_words \<or> token \<in> set [''check'', ''required'', ''exists'', ''existence'', ''present'', ''presence'']"

text \<open>The class of the rune at the front: letters and digits, the three bytes of U+4E00 to U+9FFF, and everything else.\<close>

definition byte_in :: "nat \<Rightarrow> nat \<Rightarrow> char \<Rightarrow> bool" where
  "byte_in lo hi c \<longleftrightarrow> lo \<le> of_char c \<and> of_char c \<le> hi"

fun evidenceRuneClass :: "string \<Rightarrow> nat" where
  "evidenceRuneClass (a # b # c # rest) =
     (if byte_in 97 122 a \<or> byte_in 48 57 a then 1
      else if (byte_in 228 228 a \<and> byte_in 184 191 b \<or> byte_in 229 233 a \<and> byte_in 128 191 b) \<and> byte_in 128 191 c then 2 else 0)"
| "evidenceRuneClass (a # rest) = (if byte_in 97 122 a \<or> byte_in 48 57 a then 1 else 0)"
| "evidenceRuneClass [] = 0"

definition flush :: "string \<Rightarrow> string list" where
  "flush buf = (if buf = [] then [] else [buf])"

function split_classes :: "nat \<Rightarrow> string \<Rightarrow> string \<Rightarrow> string list" where
  "split_classes lastClass buf s =
     (case s of [] \<Rightarrow> flush buf
      | _ # cs \<Rightarrow>
          (let cls = evidenceRuneClass s; w = (if cls = 2 then 3 else 1) in
           if cls = 0 then flush buf @ split_classes 0 [] cs
           else if lastClass \<noteq> 0 \<and> cls \<noteq> lastClass then flush buf @ split_classes cls (take w s) (drop w s)
           else split_classes cls (buf @ take w s) (drop w s)))"
  by pat_completeness auto
termination
  by (relation "measure (\<lambda>(k, b, s). length s)") auto

declare split_classes.simps [simp del]

definition splitAlphaNumericAndCJK :: "string \<Rightarrow> string list" where
  "splitAlphaNumericAndCJK v = split_classes 0 [] v"

definition significantEvidenceNameTokens :: "string \<Rightarrow> string list" where
  "significantEvidenceNameTokens name =
     filter (\<lambda>p. p \<noteq> [] \<and> \<not> isGenericEvidenceNameToken p)
       (map (\<lambda>p. stripGenericEvidenceWords (TrimSpace p))
         (concat (map splitAlphaNumericAndCJK (Fields (Replacer key_separators name)))))"

definition evidence_aliases :: "(string list \<times> string list) list" where
  "evidence_aliases =
     [([''source'', ''sources''], [''source'', ''sources'', ''source id'', ''source ids'', ''source_id'', utf8 [230, 157, 165, 230, 186, 144], utf8 [232, 174, 176, 229, 189, 149]]),
      ([''paper'', ''papers''], [''paper'', ''papers'', ''preprint'', ''preprints'', ''report'', ''reports'', utf8 [232, 174, 186, 230, 150, 135], utf8 [233, 162, 132, 229, 141, 176, 230, 156, 172]]),
      ([''official''], [''official'', ''official doc'', ''official_doc'', ''regulatory'', ''authority'', utf8 [229, 174, 152, 230, 150, 185], utf8 [231, 155, 145, 231, 174, 161]]),
      ([''count'', ''counts''], [''count'', ''counts'', ''total'', utf8 [230, 149, 176, 233, 135, 143], utf8 [232, 174, 176, 229, 189, 149], utf8 [230, 157, 161]]),
      ([''consistency'', ''consistent''], [''consistency'', ''consistent'', utf8 [228, 184, 128, 232, 135, 180], utf8 [229, 174, 140, 229, 133, 168, 228, 184, 128, 232, 135, 180], utf8 [230, 151, 160, 229, 173, 164, 229, 132, 191]]),
      ([''citation'', ''citations''], [''citation'', ''citations'', utf8 [229, 188, 149, 231, 148, 168], utf8 [232, 166, 134, 231, 155, 150]]),
      ([''final''], [''final'', ''final report'', ''final-report'', utf8 [230, 156, 128, 231, 187, 136], utf8 [230, 138, 165, 229, 145, 138]]),
      ([''report''], [''report'', ''reports'', utf8 [230, 138, 165, 229, 145, 138]]),
      ([''evidence''], [''evidence'', utf8 [232, 175, 129, 230, 141, 174]]),
      ([''matrix''], [''matrix'', utf8 [231, 159, 169, 233, 152, 181]]),
      ([''exists'', ''existence'', ''present'', ''presence''], [''exists'', ''exist'', ''present'', utf8 [229, 173, 152, 229, 156, 168], utf8 [229, 183, 178, 229, 136, 155, 229, 187, 186], utf8 [229, 174, 140, 230, 149, 180]]),
      ([''id'', ''ids''], [''id'', ''ids'', ''source id'', ''source ids'', ''source_id''])]"

definition evidenceTokenAliases :: "string \<Rightarrow> string list" where
  "evidenceTokenAliases token = (case find (\<lambda>row. token \<in> set (fst row)) evidence_aliases of None \<Rightarrow> [] | Some row \<Rightarrow> snd row)"

definition evidenceTokenCovered :: "(string \<Rightarrow> string) \<Rightarrow> string \<Rightarrow> string \<Rightarrow> bool" where
  "evidenceTokenCovered lower token haystack =
     (let t = normalizeEvidenceKey lower token in
      t = [] \<or> Contains haystack t \<or>
      list_ex (\<lambda>alias. let a = normalizeEvidenceKey lower alias in a \<noteq> [] \<and> Contains haystack a) (evidenceTokenAliases t))"

definition namedEvidenceCovers :: "(string \<Rightarrow> string) \<Rightarrow> string \<Rightarrow> GateEvidence \<Rightarrow> bool" where
  "namedEvidenceCovers lower requiredName item =
     (let name = normalizeEvidenceKey lower requiredName;
          haystack = normalizeEvidenceKey lower (ge_Name item @ '' '' @ ge_OutputSummary item);
          parts = significantEvidenceNameTokens name
      in if name = [] \<or> haystack = [] then False
         else if Contains haystack name then True
         else parts \<noteq> [] \<and> list_all (\<lambda>part. evidenceTokenCovered lower part haystack) parts)"

section \<open>Commands\<close>

fun quoted_args :: "bool \<Rightarrow> bool \<Rightarrow> bool \<Rightarrow> string \<Rightarrow> string" where
  "quoted_args inSingle inDouble wrote [] = []"
| "quoted_args inSingle inDouble wrote (r # rs) =
     (if inSingle then
        (if r = CHR 0x27 then (if wrote then [] else '' * '') @ quoted_args False inDouble True rs
         else quoted_args True inDouble wrote rs)
      else if inDouble then
        (if r = CHR 0x22 then (if wrote then [] else '' * '') @ quoted_args False False True rs
         else quoted_args False True wrote rs)
      else if r = CHR 0x27 then quoted_args True False False rs
      else if r = CHR 0x22 then quoted_args False True False rs
      else r # quoted_args False False wrote rs)"

definition normalizeQuotedShellArgs :: "string \<Rightarrow> string" where
  "normalizeQuotedShellArgs v = quoted_args False False False v"

definition isShellRedirectionToken :: "string \<Rightarrow> bool" where
  "isShellRedirectionToken token \<longleftrightarrow>
     token = ''>'' \<or> token = ''>>'' \<or> token = ''<'' \<or> Contains token ''>&'' \<or> Contains token ''<&'' \<or>
     HasPrefix token ''>'' \<or> HasPrefix token ''2>'' \<or> HasPrefix token ''1>''"

definition commandEvidenceFields :: "string \<Rightarrow> string list" where
  "commandEvidenceFields fragment = filter (\<lambda>f. f \<noteq> [] \<and> \<not> isShellRedirectionToken f) (map TrimSpace (Fields fragment))"

definition isStatusCheckFragment :: "string list \<Rightarrow> bool" where
  "isStatusCheckFragment fs =
     (case fs of [] \<Rightarrow> True
      | f # rest \<Rightarrow> f \<in> set [''echo'', ''test'', ''[''] \<and> list_ex (\<lambda>x. Contains x ''$?'') rest)"

definition commandEvidenceFragments :: "(string \<Rightarrow> string) \<Rightarrow> string \<Rightarrow> string list" where
  "commandEvidenceFragments lower command =
     map (join_with '' '') (filter (\<lambda>fs. fs \<noteq> [] \<and> \<not> isStatusCheckFragment fs)
       (map commandEvidenceFields (split_on (CHR '';'')
         (Replacer [(''&&'', '';''), (''||'', '';'')] (normalizeQuotedShellArgs (lower (TrimSpace command)))))))"

text \<open>\<open>strconv.Atoi\<close> accepts a sign and decimal digits that fit a 64-bit integer.\<close>

definition Atoi_ok :: "string \<Rightarrow> bool" where
  "Atoi_ok s =
     (let neg = HasPrefix s ''-''; ds = (if neg \<or> HasPrefix s ''+'' then tl s else s);
          n = foldl (\<lambda>a c. 10 * a + (int (of_char c) - 48)) 0 ds
      in ds \<noteq> [] \<and> list_all (byte_in 48 57) ds \<and> (if neg then n \<le> 2 ^ 63 else n < 2 ^ 63))"

definition looksLikeControlArgument :: "(string \<Rightarrow> string) \<Rightarrow> string \<Rightarrow> bool" where
  "looksLikeControlArgument lower v =
     (if v = [] \<or> v = ''*'' then False
      else HasPrefix v ''-'' \<or> Atoi_ok v \<or> lower v \<in> set [''true'', ''false'', ''null'', ''none'', ''abc'', ''nan''])"

definition literalInputArgumentMatches :: "(string \<Rightarrow> string) \<Rightarrow> string list \<Rightarrow> string list \<Rightarrow> nat \<Rightarrow> bool" where
  "literalInputArgumentMatches lower required actual i =
     (if Suc i \<noteq> length required \<or> Suc i \<noteq> length actual then False
      else if length required < 2 \<or> required ! i = [] \<or> actual ! i = [] then False
      else required ! (i - 1) \<in> set [''add'', ''create'', ''new''] \<and>
           \<not> looksLikeControlArgument lower (required ! i) \<and> \<not> looksLikeControlArgument lower (actual ! i))"

definition commandFragmentMatches :: "(string \<Rightarrow> string) \<Rightarrow> string \<Rightarrow> string \<Rightarrow> bool" where
  "commandFragmentMatches lower required actual =
     (required = actual \<or>
      (let rs = Fields required; as = Fields actual in
       rs \<noteq> [] \<and> length rs \<le> length as \<and>
       list_all (\<lambda>i. rs ! i = ''*'' \<or> as ! i = ''*'' \<or> rs ! i = as ! i \<or> literalInputArgumentMatches lower rs as i) [0..<length rs]))"

definition commandEvidenceCovers :: "(string \<Rightarrow> string) \<Rightarrow> string \<Rightarrow> string \<Rightarrow> bool" where
  "commandEvidenceCovers lower requiredCommand evidenceCommand =
     (let required = commandEvidenceFragments lower requiredCommand; actual = commandEvidenceFragments lower evidenceCommand in
      required \<noteq> [] \<and> actual \<noteq> [] \<and> list_all (\<lambda>want. list_ex (commandFragmentMatches lower want) actual) required)"

section \<open>Coverage\<close>

definition requiredEvidenceCovered :: "(string \<Rightarrow> string) \<Rightarrow> ContractCheck \<Rightarrow> GateEvidence list \<Rightarrow> bool" where
  "requiredEvidenceCovered lower ck evidence =
     list_ex (\<lambda>item. commandEvidenceCovers lower (ck_Command ck) (ge_Command item) \<or> namedEvidenceCovers lower (ck_Name ck) item) evidence"

definition contractCheckCoveredByGate :: "string \<Rightarrow> string \<Rightarrow> string list \<Rightarrow> bool" where
  "contractCheckCoveredByGate nameKey commandKey gates \<longleftrightarrow>
     nameKey \<noteq> [] \<and> nameKey \<in> set gates \<or> commandKey \<noteq> [] \<and> commandKey \<in> set gates"

definition evidence_keys :: "(string \<Rightarrow> string) \<Rightarrow> GateEvidence list \<Rightarrow> string list" where
  "evidence_keys lower passed =
     filter (\<lambda>k. k \<noteq> []) (concat (map (\<lambda>e. [normalizeEvidenceKey lower (ge_Name e), normalizeEvidenceKey lower (ge_Command e)]) passed))"

definition check_satisfied :: "(string \<Rightarrow> string) \<Rightarrow> GateEvidence list \<Rightarrow> string list \<Rightarrow> ContractCheck \<Rightarrow> bool" where
  "check_satisfied lower passed gates ck =
     (let nameKey = normalizeEvidenceKey lower (ck_Name ck); commandKey = normalizeEvidenceKey lower (ck_Command ck);
          seen = evidence_keys lower passed
      in \<not> ck_Required ck \<or> contractCheckCoveredByGate nameKey commandKey gates \<or>
         nameKey \<noteq> [] \<and> nameKey \<in> set seen \<or> commandKey \<noteq> [] \<and> commandKey \<in> set seen \<or>
         requiredEvidenceCovered lower ck passed)"

definition missingRequiredEvidence :: "(string \<Rightarrow> string) \<Rightarrow> ContractCheck list \<Rightarrow> GateEvidence list \<Rightarrow> string list \<Rightarrow> string list" where
  "missingRequiredEvidence lower checks evidence gates =
     map (\<lambda>ck. firstNonEmpty [ck_Name ck, ck_Command ck])
       (filter (\<lambda>ck. \<not> check_satisfied lower (filter ge_Passed evidence) gates ck) checks)"

end
