(* ===== verification/Team_Tasks.thy ===== *)
theory Team_Tasks
  imports Team_Evidence Go_Json
begin

text \<open>
  \<open>team/types.go\<close> and the tasks that agents of a team give each other (\<open>team/session.go\<close>, from \<open>a2aTaskKey\<close> to
  \<open>finishActiveA2ATask\<close>). The state of a session is a record with the fields that the modelled operations use. A task's channel is a buffer
  of at most one finished task, kept beside the tasks. The timeline, the events for the user interface and the files written by
  \<open>persist\<close> record what happened and are not part of the state; an entry of the dialogue is kept without its identifier and time.
\<close>

section \<open>Data\<close>

record GateFinding =
  gf_Category :: string
  gf_Summary :: string
  gf_Details :: string
  gf_Blocking :: bool

record GateVerdict =
  gv_Role :: string
  gv_AgentID :: string
  gv_Status :: string
  gv_Summary :: string
  gv_Evidence :: "GateEvidence list"
  gv_Findings :: "GateFinding list"
  gv_CreatedAt :: string

record AcceptanceContract =
  ac_ProjectRoot :: string
  ac_UserRequirements :: "string list"
  ac_ComponentBoundaries :: "string list"
  ac_IntegrationContract :: string
  ac_RequiredArtifacts :: "string list"
  ac_RequiredCommands :: "ContractCheck list"
  ac_IntegrationSmokes :: "ContractCheck list"
  ac_CompletionCriteria :: "string list"
  ac_CreatedAt :: string
  ac_UpdatedAt :: string

record Artifact =
  ar_ID :: string
  ar_Name :: string
  ar_Owner :: string
  ar_Summary :: string
  ar_Path :: string
  ar_CreatedAt :: string

record DialogueEntry =
  de_FromAgent :: string
  de_ToAgent :: "string list"
  de_Kind :: string
  de_Summary :: string
  de_Content :: string
  de_ArtifactRefs :: "string list"
  de_TaskID :: string

record ActivityRow =
  aw_AgentID :: string
  aw_DisplayName :: string
  aw_Status :: string
  aw_Summary :: string
  aw_TaskID :: string

record TeamGateCheckSpec =
  gc_Name :: string
  gc_Agent :: string
  gc_PassStatuses :: "string list"
  gc_AllowedStatuses :: "string list"
  gc_EvidenceRequiredStatuses :: "string list"
  gc_FindingsRequiredStatuses :: "string list"
  gc_BlockingFindingsFail :: bool

record TeamGateSpec =
  gs_RequireContract :: bool
  gs_NonblockingFindings :: string
  gs_DeferralRequiresReason :: bool
  gs_Checks :: "TeamGateCheckSpec list"

record TeamOutputSpec =
  os_ExportToWorkdir :: bool
  os_Directory :: string
  os_Artifacts :: "string list"

record TeamSpec =
  sp_Name :: string
  sp_EntryAgent :: string
  sp_RequireFinalArtifact :: bool
  sp_Gates :: TeamGateSpec
  sp_Output :: TeamOutputSpec

record TeamTask =
  tt_ID :: string
  tt_From :: string
  tt_To :: string
  tt_Status :: string
  tt_Summary :: string
  tt_ExpectedArtifacts :: "string list"
  tt_Result :: string
  tt_Err :: string
  tt_done :: bool

text \<open>\<open>ss_done\<close> holds what is in the channels of the tasks, by task key; \<open>tt_done\<close> says that the task has a channel.\<close>

record Session =
  ss_ID :: string
  ss_CWD :: string
  ss_RuntimeDir :: string
  ss_Spec :: TeamSpec
  ss_dialogue :: "DialogueEntry list"
  ss_activity :: "(string \<times> ActivityRow) list"
  ss_artifacts :: "Artifact list"
  ss_gate :: "(string \<times> string) list"
  ss_contract :: "AcceptanceContract option"
  ss_gateVerdicts :: "(string \<times> GateVerdict) list"
  ss_a2aTasks :: "(string \<times> TeamTask) list"
  ss_agentActiveA2A :: "(string \<times> string) list"
  ss_done :: "(string \<times> TeamTask) list"
  ss_completed :: bool
  ss_finalAnswer :: string

definition NewSession :: "string \<Rightarrow> string \<Rightarrow> string \<Rightarrow> TeamSpec \<Rightarrow> (string \<times> ActivityRow) list \<Rightarrow> Session" where
  "NewSession ident workDir runtimeDir spec rows =
     \<lparr>ss_ID = ident, ss_CWD = workDir, ss_RuntimeDir = runtimeDir, ss_Spec = spec, ss_dialogue = [], ss_activity = rows, ss_artifacts = [],
      ss_gate = [], ss_contract = None, ss_gateVerdicts = [], ss_a2aTasks = [], ss_agentActiveA2A = [], ss_done = [],
      ss_completed = False, ss_finalAnswer = []\<rparr>"

definition appendDialogue :: "DialogueEntry \<Rightarrow> Session \<Rightarrow> Session" where
  "appendDialogue entry s = s\<lparr>ss_dialogue := ss_dialogue s @ [entry]\<rparr>"

definition appendRecovery :: "string \<Rightarrow> Session \<Rightarrow> Session" where
  "appendRecovery msg s =
     appendDialogue \<lparr>de_FromAgent = ''team-loop'', de_ToAgent = [sp_EntryAgent (ss_Spec s)], de_Kind = ''recovery'', de_Summary = ''Recovery'',
       de_Content = msg, de_ArtifactRefs = [], de_TaskID = []\<rparr> s"

definition truncateTeamVisible :: "string \<Rightarrow> nat \<Rightarrow> string" where
  "truncateTeamVisible txt limit =
     (let t = TrimSpace txt in if limit = 0 \<or> rune_count t \<le> limit then t else take_runes limit t @ ''...'')"

section \<open>Tasks\<close>

definition a2aTaskKey :: "string \<Rightarrow> string \<Rightarrow> string" where
  "a2aTaskKey taskID target = taskID @ CHR 0x00 # target"

definition isTerminalA2AStatus :: "string \<Rightarrow> bool" where
  "isTerminalA2AStatus status \<longleftrightarrow> status \<in> set [''completed'', ''error'', ''failed'', ''interrupted'']"

definition live_task :: "Session \<Rightarrow> string \<Rightarrow> TeamTask option" where
  "live_task s key =
     (case map_of (ss_a2aTasks s) key of
        None \<Rightarrow> None
      | Some task \<Rightarrow> if isTerminalA2AStatus (tt_Status task) then None else Some task)"

definition activeA2ATasks :: "Session \<Rightarrow> Session \<times> TeamTask list" where
  "activeA2ATasks s =
     (s\<lparr>ss_agentActiveA2A := filter (\<lambda>e. live_task s (snd e) \<noteq> None) (ss_agentActiveA2A s)\<rparr>,
      sort_key tt_To (sort_key tt_ID (map (\<lambda>e. the (live_task s (snd e))) (filter (\<lambda>e. live_task s (snd e) \<noteq> None) (ss_agentActiveA2A s)))))"

definition activeA2ATask :: "string \<Rightarrow> Session \<Rightarrow> Session \<times> TeamTask option" where
  "activeA2ATask target s =
     (let key = mget [] (ss_agentActiveA2A s) target in
      if key = [] then (s, None)
      else case live_task s key of
        None \<Rightarrow> (s\<lparr>ss_agentActiveA2A := mdel target (ss_agentActiveA2A s)\<rparr>, None)
      | Some task \<Rightarrow> (s, Some task))"

definition beginA2ATask :: "string \<Rightarrow> string \<Rightarrow> string \<Rightarrow> string \<Rightarrow> string list \<Rightarrow> Session \<Rightarrow> Session \<times> TeamTask \<times> bool" where
  "beginA2ATask taskID from target summary expected s =
     (case activeA2ATask target s of
        (s1, Some task) \<Rightarrow> (s1, task, False)
      | (s1, None) \<Rightarrow>
          let task = \<lparr>tt_ID = taskID, tt_From = from, tt_To = target, tt_Status = ''running'', tt_Summary = summary,
                      tt_ExpectedArtifacts = nonEmptyStrings expected, tt_Result = [], tt_Err = [], tt_done = True\<rparr>;
              key = a2aTaskKey taskID target
          in (s1\<lparr>ss_a2aTasks := mput key task (ss_a2aTasks s1), ss_agentActiveA2A := mput target key (ss_agentActiveA2A s1),
                 ss_done := mdel key (ss_done s1)\<rparr>, task, True))"

definition markA2ATaskPending :: "string \<Rightarrow> string \<Rightarrow> Session \<Rightarrow> Session" where
  "markA2ATaskPending taskID target s =
     (let key = a2aTaskKey taskID target in
      case live_task s key of
        None \<Rightarrow> s
      | Some task \<Rightarrow> s\<lparr>ss_a2aTasks := mput key (task\<lparr>tt_Status := ''pending''\<rparr>) (ss_a2aTasks s)\<rparr>)"

definition unknown_task :: "string \<Rightarrow> string \<Rightarrow> TeamTask" where
  "unknown_task taskID target =
     \<lparr>tt_ID = taskID, tt_From = [], tt_To = target, tt_Status = [], tt_Summary = [], tt_ExpectedArtifacts = [], tt_Result = [], tt_Err = [],
      tt_done = False\<rparr>"

definition status_entry :: "string \<Rightarrow> string \<Rightarrow> string \<Rightarrow> string \<Rightarrow> string \<Rightarrow> string \<Rightarrow> DialogueEntry" where
  "status_entry taskID from target status result errText =
     \<lparr>de_FromAgent = ''team-loop'', de_ToAgent = [from], de_Kind = ''task_status'', de_Summary = ''A2A task completed'',
      de_Content = ''A2A task '' @ taskID @ '' for '' @ target @ '' is now '' @ status @ ''.'' @
        (if errText \<noteq> [] then '' Error: '' @ errText else []) @
        (if result \<noteq> [] then [CHR 0x0A, CHR 0x0A] @ ''Result preview:'' @ [CHR 0x0A] @ truncateTeamVisible result 1200 else []),
      de_ArtifactRefs = [], de_TaskID = taskID\<rparr>"

definition finishA2ATask :: "string \<Rightarrow> string \<Rightarrow> string \<Rightarrow> string \<Rightarrow> string \<Rightarrow> Session \<Rightarrow> Session" where
  "finishA2ATask taskID target status result errText s =
     (let key = a2aTaskKey taskID target;
          task = (case map_of (ss_a2aTasks s) key of None \<Rightarrow> unknown_task taskID target | Some t \<Rightarrow> t)
      in if isTerminalA2AStatus (tt_Status task) then s
      else let task' = task\<lparr>tt_Status := status, tt_Result := result, tt_Err := errText\<rparr>;
               s1 = s\<lparr>ss_a2aTasks := mput key task' (ss_a2aTasks s),
                      ss_agentActiveA2A := (if mget [] (ss_agentActiveA2A s) target = key then mdel target (ss_agentActiveA2A s) else ss_agentActiveA2A s)\<rparr>;
               s2 = (if tt_Status task = ''pending'' then appendDialogue (status_entry taskID (tt_From task) target status result errText) s1 else s1)
           in if tt_done task \<and> map_of (ss_done s2) key = None then s2\<lparr>ss_done := mput key task' (ss_done s2)\<rparr> else s2)"

definition finishActiveA2ATask :: "string \<Rightarrow> string \<Rightarrow> string \<Rightarrow> string \<Rightarrow> Session \<Rightarrow> Session \<times> bool" where
  "finishActiveA2ATask target status result errText s =
     (let key = mget [] (ss_agentActiveA2A s) target in
      if key = [] then (s, False)
      else case live_task s key of
        None \<Rightarrow> (s, False)
      | Some task \<Rightarrow> (finishA2ATask (tt_ID task) target status result errText s, True))"

text \<open>
  What becomes of a started task (\<open>SendA2AMessage\<close>): its agent ends with a result or an error, or panics, in which case only the recovery
  is recorded; the goroutine that waits for it panics; the sender stops waiting, because its time is up or its context ends. \<open>display\<close> gives the display name of an agent.
\<close>

definition setActivity :: "(string \<Rightarrow> string) \<Rightarrow> string \<Rightarrow> string \<Rightarrow> string \<Rightarrow> string \<Rightarrow> Session \<Rightarrow> Session" where
  "setActivity display agentID status summary taskID s =
     s\<lparr>ss_activity := mput agentID \<lparr>aw_AgentID = agentID, aw_DisplayName = display agentID, aw_Status = status, aw_Summary = summary, aw_TaskID = taskID\<rparr>
        (ss_activity s)\<rparr>"

definition timeout_entry :: "(string \<Rightarrow> string) \<Rightarrow> string \<Rightarrow> string \<Rightarrow> string \<Rightarrow> int \<Rightarrow> DialogueEntry" where
  "timeout_entry display taskID from target seconds =
     \<lparr>de_FromAgent = target, de_ToAgent = [from], de_Kind = ''timeout'', de_Summary = ''A2A wait window elapsed'',
      de_Content = display target @ '' did not finish within the '' @ show_int seconds @
        '' second A2A wait window. This is not a user interrupt; the agent keeps working in the Team run context and the Team Loop may continue, retry, or collect a later result.'',
      de_ArtifactRefs = [], de_TaskID = taskID\<rparr>"

datatype task_end = TaskResult string | TaskError string | TaskPanic string | DispatchPanic string | WaitTimeout int | WaitCancelled string

definition end_task :: "(string \<Rightarrow> string) \<Rightarrow> string \<Rightarrow> string \<Rightarrow> string \<Rightarrow> task_end \<Rightarrow> Session \<Rightarrow> Session" where
  "end_task display taskID from target e s =
     (case e of
        TaskResult r \<Rightarrow> finishA2ATask taskID target ''completed'' r [] s
      | TaskError err \<Rightarrow> finishA2ATask taskID target ''error'' [] err s
      | TaskPanic msg \<Rightarrow> appendRecovery (''agent task panic: '' @ msg) s
      | DispatchPanic msg \<Rightarrow> finishA2ATask taskID target ''error'' [] (''agent dispatch panic: '' @ msg) (appendRecovery (''agent dispatch panic: '' @ msg) s)
      | WaitTimeout seconds \<Rightarrow>
          appendDialogue (timeout_entry display taskID from target seconds)
            (setActivity display target ''running'' ''continuing after A2A wait timeout'' taskID
              (appendRecovery (target @ '' did not finish within wait window; Team Loop continues with task pending.'')
                (markA2ATaskPending taskID target s)))
      | WaitCancelled err \<Rightarrow> finishA2ATask taskID target ''interrupted'' [] err s)"

section \<open>One live task per agent\<close>

text \<open>The invariant: the live tasks and the entries of \<open>agentActiveA2A\<close> correspond to each other.\<close>

definition tasks_ok :: "Session \<Rightarrow> bool" where
  "tasks_ok s \<longleftrightarrow>
     (\<forall>key task. map_of (ss_a2aTasks s) key = Some task \<longrightarrow> CHR 0x00 \<notin> set (tt_ID task) \<and> key = a2aTaskKey (tt_ID task) (tt_To task)) \<and>
     (\<forall>key task. map_of (ss_a2aTasks s) key = Some task \<and> \<not> isTerminalA2AStatus (tt_Status task) \<longrightarrow>
        map_of (ss_agentActiveA2A s) (tt_To task) = Some key) \<and>
     (\<forall>target key. map_of (ss_agentActiveA2A s) target = Some key \<longrightarrow>
        (\<exists>task. map_of (ss_a2aTasks s) key = Some task \<and> tt_To task = target \<and> \<not> isTerminalA2AStatus (tt_Status task)))"

lemma tasks_okD:
  assumes "tasks_ok s"
  shows "map_of (ss_a2aTasks s) key = Some task \<Longrightarrow> CHR 0x00 \<notin> set (tt_ID task) \<and> key = a2aTaskKey (tt_ID task) (tt_To task)"
    and "map_of (ss_a2aTasks s) key = Some task \<Longrightarrow> \<not> isTerminalA2AStatus (tt_Status task) \<Longrightarrow> map_of (ss_agentActiveA2A s) (tt_To task) = Some key"
    and "map_of (ss_agentActiveA2A s) target = Some key \<Longrightarrow>
      \<exists>task. map_of (ss_a2aTasks s) key = Some task \<and> tt_To task = target \<and> \<not> isTerminalA2AStatus (tt_Status task)"
  using assms by (auto simp: tasks_ok_def)

lemma a2aTaskKey_inject:
  assumes "CHR 0x00 \<notin> set a" "CHR 0x00 \<notin> set b"
  shows "a2aTaskKey a g = a2aTaskKey b h \<longleftrightarrow> a = b \<and> g = h"
proof
  assume eq: "a2aTaskKey a g = a2aTaskKey b h"
  have "takeWhile (\<lambda>c. c \<noteq> CHR 0x00) (a2aTaskKey a g) = a" "takeWhile (\<lambda>c. c \<noteq> CHR 0x00) (a2aTaskKey b h) = b"
    using assms by (auto simp: a2aTaskKey_def takeWhile_append)
  with eq show "a = b \<and> g = h" by (simp add: a2aTaskKey_def)
qed simp

lemma a2aTaskKey_nonempty [simp]: "a2aTaskKey a g \<noteq> []" "[] \<noteq> a2aTaskKey a g"
  by (simp_all add: a2aTaskKey_def)

text \<open>Under the invariant a look at the active task changes nothing.\<close>

lemma activeA2ATask_ok:
  assumes "tasks_ok s"
  shows "activeA2ATask target s =
    (s, case map_of (ss_agentActiveA2A s) target of None \<Rightarrow> None | Some key \<Rightarrow> map_of (ss_a2aTasks s) key)"
proof (cases "map_of (ss_agentActiveA2A s) target")
  case None
  then show ?thesis by (simp add: activeA2ATask_def mget_def)
next
  case (Some key)
  obtain task where t: "map_of (ss_a2aTasks s) key = Some task" "\<not> isTerminalA2AStatus (tt_Status task)"
    using tasks_okD(3)[OF assms Some] by blast
  then have "key \<noteq> []" using tasks_okD(1)[OF assms t(1)] by auto
  with Some t show ?thesis by (simp add: activeA2ATask_def mget_def live_task_def)
qed

lemma tasks_ok_same:
  assumes "tasks_ok s" "ss_a2aTasks s' = ss_a2aTasks s" "ss_agentActiveA2A s' = ss_agentActiveA2A s"
  shows "tasks_ok s'"
  using assms by (simp add: tasks_ok_def)

lemma tasks_ok_begin:
  assumes ok: "tasks_ok s" and id: "CHR 0x00 \<notin> set taskID"
  shows "tasks_ok (fst (beginA2ATask taskID from target summary expected s))"
proof (cases "map_of (ss_agentActiveA2A s) target")
  case (Some key)
  obtain task where "map_of (ss_a2aTasks s) key = Some task" using tasks_okD(3)[OF ok Some] by blast
  then show ?thesis using ok Some by (simp add: beginA2ATask_def activeA2ATask_ok)
next
  case None
  have free: "\<And>k t. map_of (ss_a2aTasks s) k = Some t \<Longrightarrow> tt_To t = target \<Longrightarrow> isTerminalA2AStatus (tt_Status t)"
    using tasks_okD(2)[OF ok] None by force
  have other: "\<And>t k. map_of (ss_agentActiveA2A s) t = Some k \<Longrightarrow> k \<noteq> a2aTaskKey taskID target"
  proof -
    fix t k assume a: "map_of (ss_agentActiveA2A s) t = Some k"
    obtain u where u: "map_of (ss_a2aTasks s) k = Some u" "tt_To u = t" using tasks_okD(3)[OF ok a] by blast
    have "t \<noteq> target" using a None by auto
    then show "k \<noteq> a2aTaskKey taskID target" using tasks_okD(1)[OF ok u(1)] u(2) id by (auto simp: a2aTaskKey_inject)
  qed
  show ?thesis
    using ok None id free other
    by (auto simp: beginA2ATask_def activeA2ATask_ok tasks_ok_def Let_def update_conv' isTerminalA2AStatus_def)
qed

lemma terminal_statuses [simp]:
  "\<not> isTerminalA2AStatus ''pending''" "\<not> isTerminalA2AStatus ''running''" "\<not> isTerminalA2AStatus []"
  "isTerminalA2AStatus ''completed''" "isTerminalA2AStatus ''error''" "isTerminalA2AStatus ''interrupted''"
  by (simp_all add: isTerminalA2AStatus_def)

lemma live_taskD: "live_task s key = Some task \<Longrightarrow> map_of (ss_a2aTasks s) key = Some task \<and> \<not> isTerminalA2AStatus (tt_Status task)"
  by (auto simp: live_task_def split: option.splits if_splits)

lemma active_unique:
  assumes "tasks_ok s" "map_of (ss_a2aTasks s) key = Some task" "map_of (ss_agentActiveA2A s) g = Some key"
  shows "tt_To task = g"
  using tasks_okD(3)[OF assms(1,3)] assms(2) by auto

lemma tasks_ok_pending:
  assumes ok: "tasks_ok s"
  shows "tasks_ok (markA2ATaskPending taskID target s)"
proof (cases "live_task s (a2aTaskKey taskID target)")
  case None
  then show ?thesis using ok by (simp add: markA2ATaskPending_def)
next
  case (Some task)
  note t = live_taskD[OF Some, THEN conjunct1] live_taskD[OF Some, THEN conjunct2]
  show ?thesis using Some tasks_okD[OF ok] t active_unique[OF ok t(1)]
    by (auto simp: markA2ATaskPending_def tasks_ok_def update_conv')
qed

lemma finishA2ATask_tasks:
  "ss_a2aTasks (finishA2ATask taskID target status result errText s) =
     (let key = a2aTaskKey taskID target; task = (case map_of (ss_a2aTasks s) key of None \<Rightarrow> unknown_task taskID target | Some t \<Rightarrow> t)
      in if isTerminalA2AStatus (tt_Status task) then ss_a2aTasks s
         else mput key (task\<lparr>tt_Status := status, tt_Result := result, tt_Err := errText\<rparr>) (ss_a2aTasks s))"
  "ss_agentActiveA2A (finishA2ATask taskID target status result errText s) =
     (let key = a2aTaskKey taskID target; task = (case map_of (ss_a2aTasks s) key of None \<Rightarrow> unknown_task taskID target | Some t \<Rightarrow> t)
      in if isTerminalA2AStatus (tt_Status task) \<or> mget [] (ss_agentActiveA2A s) target \<noteq> key then ss_agentActiveA2A s
         else mdel target (ss_agentActiveA2A s))"
  by (auto simp: finishA2ATask_def Let_def appendDialogue_def)

lemma tasks_ok_finish:
  assumes ok: "tasks_ok s" and id: "CHR 0x00 \<notin> set taskID" and st: "isTerminalA2AStatus status"
  shows "tasks_ok (finishA2ATask taskID target status result errText s)"
proof -
  let ?key = "a2aTaskKey taskID target" and ?s' = "finishA2ATask taskID target status result errText s"
  show ?thesis
  proof (cases "map_of (ss_a2aTasks s) ?key")
    case None
    have "map_of (ss_agentActiveA2A s) g \<noteq> Some ?key" for g using tasks_okD(3)[OF ok, of g ?key] None by auto
    then have "mget [] (ss_agentActiveA2A s) target \<noteq> ?key" by (auto simp: mget_def split: option.splits)
    moreover have "\<And>g k. map_of (ss_agentActiveA2A s) g = Some k \<Longrightarrow> k \<noteq> ?key" using tasks_okD(3)[OF ok] None by force
    ultimately show ?thesis using None tasks_okD[OF ok] id st
      by (auto simp: tasks_ok_def finishA2ATask_tasks unknown_task_def Let_def update_conv')
  next
    case (Some task)
    show ?thesis
    proof (cases "isTerminalA2AStatus (tt_Status task)")
      case True
      then show ?thesis using Some ok by (auto intro: tasks_ok_same simp: finishA2ATask_tasks Let_def)
    next
      case False
      have to: "tt_To task = target" using tasks_okD(1)[OF ok Some] id a2aTaskKey_inject[of taskID "tt_ID task" target "tt_To task"] by auto
      have act: "map_of (ss_agentActiveA2A s) target = Some ?key" using tasks_okD(2)[OF ok Some False] to by simp
      have tasks: "map_of (ss_a2aTasks ?s') = (map_of (ss_a2aTasks s))(?key \<mapsto> task\<lparr>tt_Status := status, tt_Result := result, tt_Err := errText\<rparr>)"
        using Some False by (simp add: finishA2ATask_tasks Let_def update_conv')
      have active: "map_of (ss_agentActiveA2A ?s') = (map_of (ss_agentActiveA2A s))(target := None)"
        using Some False act by (simp add: finishA2ATask_tasks Let_def mget_def delete_conv')
      have one: "isTerminalA2AStatus (tt_Status t)" if "map_of (ss_a2aTasks s) k = Some t" "k \<noteq> ?key" "tt_To t = target" for k t
        using tasks_okD(2)[OF ok that(1)] that(2,3) act by auto
      have other: "k \<noteq> ?key" if "map_of (ss_agentActiveA2A s) g = Some k" "g \<noteq> target" for g k
        using active_unique[OF ok Some] that to by auto
      show ?thesis unfolding tasks_ok_def tasks active
        using tasks_okD[OF ok] one other st tasks_okD(1)[OF ok Some] by (auto intro: one)
    qed
  qed
qed

lemma tasks_ok_display [simp]:
  "tasks_ok (appendDialogue entry s) = tasks_ok s"
  "tasks_ok (appendRecovery msg s) = tasks_ok s"
  "tasks_ok (setActivity display agent status detail taskID s) = tasks_ok s"
  by (simp_all add: tasks_ok_def appendDialogue_def appendRecovery_def setActivity_def Let_def)

lemma tasks_ok_end: "tasks_ok s \<Longrightarrow> CHR 0x00 \<notin> set taskID \<Longrightarrow> tasks_ok (end_task display taskID from target e s)"
  by (cases e) (simp_all add: end_task_def tasks_ok_finish tasks_ok_pending)

lemma tasks_ok_finish_active:
  assumes ok: "tasks_ok s" and "isTerminalA2AStatus status"
  shows "tasks_ok (fst (finishActiveA2ATask target status result errText s))"
proof (cases "live_task s (mget [] (ss_agentActiveA2A s) target)")
  case (Some task)
  have "CHR 0x00 \<notin> set (tt_ID task)" using tasks_okD(1)[OF ok live_taskD[OF Some, THEN conjunct1]] by blast
  then show ?thesis using Some assms by (auto simp: finishActiveA2ATask_def Let_def intro: tasks_ok_finish)
qed (use ok in \<open>simp add: finishActiveA2ATask_def Let_def\<close>)

lemma map_of_filter_lookup:
  "map_of xs g = Some k \<Longrightarrow> P (g, k) \<Longrightarrow> map_of (filter P xs) g = Some k"
  "map_of xs g = None \<Longrightarrow> map_of (filter P xs) g = None"
  by (induction xs) (auto split: if_splits)

lemma tasks_ok_look:
  assumes ok: "tasks_ok s"
  shows "tasks_ok (fst (activeA2ATasks s))"
proof -
  let ?P = "\<lambda>e :: string \<times> string. live_task s (snd e) \<noteq> None"
  have "map_of (filter ?P (ss_agentActiveA2A s)) g = map_of (ss_agentActiveA2A s) g" for g
  proof (cases "map_of (ss_agentActiveA2A s) g")
    case (Some k)
    then have "?P (g, k)" using tasks_okD(3)[OF ok Some] by (auto simp: live_task_def)
    then show ?thesis using map_of_filter_lookup(1)[where P = ?P, OF Some] Some by simp
  qed (simp add: map_of_filter_lookup(2))
  then show ?thesis using ok by (simp add: activeA2ATasks_def tasks_ok_def)
qed

section \<open>The end of a task is final\<close>

definition ended :: "string \<Rightarrow> TeamTask \<Rightarrow> Session \<Rightarrow> bool" where
  "ended key task s \<longleftrightarrow> map_of (ss_a2aTasks s) key = Some task \<and> isTerminalA2AStatus (tt_Status task)"

lemma ended_finish: "ended key task s \<Longrightarrow> ended key task (finishA2ATask taskID target status result errText s)"
  by (auto simp: ended_def finishA2ATask_tasks Let_def update_conv' split: option.splits)

lemma ended_pending: "ended key task s \<Longrightarrow> ended key task (markA2ATaskPending taskID target s)"
  by (auto simp: ended_def markA2ATaskPending_def Let_def live_task_def update_conv' split: option.splits)

lemma ended_same: "ended key task s \<Longrightarrow> ss_a2aTasks s' = ss_a2aTasks s \<Longrightarrow> ended key task s'"
  by (simp add: ended_def)

lemma ended_display [simp]:
  "ended key task (appendDialogue entry s) = ended key task s"
  "ended key task (appendRecovery msg s) = ended key task s"
  "ended key task (setActivity display agent status detail taskID s) = ended key task s"
  by (simp_all add: ended_def appendDialogue_def appendRecovery_def setActivity_def Let_def)

lemma ended_end: "ended key task s \<Longrightarrow> ended key task (end_task display taskID from target e s)"
  by (cases e) (simp_all add: end_task_def ended_finish ended_pending)

lemma ended_finish_active: "ended key task s \<Longrightarrow> ended key task (fst (finishActiveA2ATask target status result errText s))"
  by (auto simp: finishActiveA2ATask_def Let_def ended_finish split: option.splits)

lemma ended_begin:
  assumes "tasks_ok s" "ended key task s" "map_of (ss_a2aTasks s) (a2aTaskKey taskID target) = None"
  shows "ended key task (fst (beginA2ATask taskID from target summary expected s))"
  using assms by (auto simp: beginA2ATask_def activeA2ATask_ok ended_def Let_def update_conv' split: option.splits)

text \<open>A task that ended reports to the one who waits for it, and a task that was pending also to the dialogue.\<close>

lemma finish_notifies:
  assumes "map_of (ss_a2aTasks s) (a2aTaskKey taskID target) = Some task" "\<not> isTerminalA2AStatus (tt_Status task)" "tt_done task"
    and "map_of (ss_done s) (a2aTaskKey taskID target) = None"
  shows "map_of (ss_done (finishA2ATask taskID target status result errText s)) (a2aTaskKey taskID target) =
    Some (task\<lparr>tt_Status := status, tt_Result := result, tt_Err := errText\<rparr>)"
  using assms by (simp add: finishA2ATask_def Let_def appendDialogue_def update_conv')

text \<open>
  A panic of the agent's goroutine is recorded, but its task stays live: the next task for the agent is refused, and the loop, which
  waits until no task is live, does not go on.
\<close>

lemma panic_leaves_the_task_live:
  assumes "tasks_ok s" "map_of (ss_agentActiveA2A s) target = Some (a2aTaskKey taskID target)"
    and "map_of (ss_a2aTasks s) (a2aTaskKey taskID target) = Some task"
  shows "beginA2ATask taskID' from' target summary expected (end_task display taskID from target (TaskPanic msg) s) =
      (end_task display taskID from target (TaskPanic msg) s, task, False)"
proof -
  have "tasks_ok (end_task display taskID from target (TaskPanic msg) s)"
    by (rule tasks_ok_same[OF assms(1)]) (simp_all add: end_task_def appendRecovery_def appendDialogue_def)
  then show ?thesis using assms(2,3)
    by (simp add: beginA2ATask_def activeA2ATask_ok) (simp add: end_task_def appendRecovery_def appendDialogue_def)
qed

end
