(* ===== verification/Team_Gates.thy ===== *)
theory Team_Gates
  imports Team_Tasks
begin

text \<open>
  The gates of a team (\<open>team/session.go\<close>): the acceptance contract, the verdicts of the gate agents, and the completion of the task, which
  the leader may declare only when every gate has passed and the promised artifacts exist. The files are a parameter: a record of what is
  asked of them, over a state that copying changes. A Go map that is iterated is a list in the order of the iteration.
\<close>

record 'w team_env =
  te_lower :: "string \<Rightarrow> string"
  te_stat :: "'w \<Rightarrow> string \<Rightarrow> bool option"
  te_glob :: "'w \<Rightarrow> string \<Rightarrow> string list"
  te_firstLine :: "'w \<Rightarrow> string \<Rightarrow> string"
  te_mkdir :: "string \<Rightarrow> 'w \<Rightarrow> string option \<times> 'w"
  te_copy :: "string \<Rightarrow> string \<Rightarrow> 'w \<Rightarrow> string option \<times> 'w"
  te_files :: fs_env
  te_uuid :: "nat \<Rightarrow> string"
  te_now :: string

text \<open>\<open>te_stat\<close> says whether a path exists and is a directory; \<open>te_uuid n\<close> is the identifier drawn for the \<open>n\<close>-th artifact.\<close>

definition pathExists :: "'w team_env \<Rightarrow> 'w \<Rightarrow> string \<Rightarrow> bool" where
  "pathExists E w path \<longleftrightarrow> TrimSpace path \<noteq> [] \<and> te_stat E w path \<noteq> None"

definition fileExists :: "'w team_env \<Rightarrow> 'w \<Rightarrow> string \<Rightarrow> bool" where
  "fileExists E w path \<longleftrightarrow> te_stat E w path = Some False"

definition quote_chars :: string where
  "quote_chars = [CHR 0x60, CHR 0x22, CHR 0x27]"

section \<open>Contracts\<close>

text \<open>
  Both merges go through the new items in order, with an index from the key of an item to its position: a known key changes the item at
  its position, a new one appends.
\<close>

fun merge_from :: "('a \<Rightarrow> string) \<Rightarrow> ('a \<Rightarrow> 'a \<Rightarrow> 'a) \<Rightarrow> 'a list \<Rightarrow> (string \<times> nat) list \<Rightarrow> 'a list \<Rightarrow> 'a list" where
  "merge_from key change merged index [] = merged"
| "merge_from key change merged index (x # xs) =
     (if key x = [] then merge_from key change merged index xs
      else case map_of index (key x) of
        Some i \<Rightarrow> merge_from key change (merged[i := change (merged ! i) x]) index xs
      | None \<Rightarrow> merge_from key change (merged @ [x]) (mput (key x) (length merged) index) xs)"

definition index_of :: "('a \<Rightarrow> string) \<Rightarrow> 'a list \<Rightarrow> (string \<times> nat) list" where
  "index_of key xs = foldl (\<lambda>m i. mput (key (xs ! i)) i m) [] [0..<length xs]"

definition merge_keyed :: "('a \<Rightarrow> string) \<Rightarrow> ('a \<Rightarrow> 'a \<Rightarrow> 'a) \<Rightarrow> 'a list \<Rightarrow> 'a list \<Rightarrow> 'a list" where
  "merge_keyed key change existing xs = merge_from key change existing (index_of key existing) xs"

definition joined_key :: "string list \<Rightarrow> string" where
  "joined_key parts = join_with [CHR 0x00] parts"

definition contractCheckKey :: "(string \<Rightarrow> string) \<Rightarrow> ContractCheck \<Rightarrow> string" where
  "contractCheckKey lower c = joined_key (map (normalizeEvidenceKey lower) [ck_Name c, ck_Command c, ck_CWD c])"

definition merge_check :: "ContractCheck \<Rightarrow> ContractCheck \<Rightarrow> ContractCheck" where
  "merge_check old new =
     \<lparr>ck_Name = (if ck_Name old = [] then ck_Name new else ck_Name old),
      ck_Command = (if ck_Command old = [] then ck_Command new else ck_Command old),
      ck_CWD = (if ck_CWD old = [] then ck_CWD new else ck_CWD old),
      ck_Required = (ck_Required old \<or> ck_Required new)\<rparr>"

definition mergeContractChecks :: "(string \<Rightarrow> string) \<Rightarrow> ContractCheck list \<Rightarrow> ContractCheck list \<Rightarrow> ContractCheck list" where
  "mergeContractChecks lower existing new = merge_keyed (contractCheckKey lower) merge_check existing new"

definition mergeAcceptanceContract :: "(string \<Rightarrow> string) \<Rightarrow> AcceptanceContract \<Rightarrow> AcceptanceContract \<Rightarrow> AcceptanceContract" where
  "mergeAcceptanceContract lower existing new =
     \<lparr>ac_ProjectRoot = (if TrimSpace (ac_ProjectRoot new) = [] then ac_ProjectRoot existing else ac_ProjectRoot new),
      ac_UserRequirements = uniqueStrings (ac_UserRequirements existing @ ac_UserRequirements new),
      ac_ComponentBoundaries = uniqueStrings (ac_ComponentBoundaries existing @ ac_ComponentBoundaries new),
      ac_IntegrationContract =
        (if TrimSpace (ac_IntegrationContract new) = [] then ac_IntegrationContract existing
         else if TrimSpace (ac_IntegrationContract existing) \<noteq> [] \<and> \<not> Contains (ac_IntegrationContract new) (ac_IntegrationContract existing)
         then TrimSpace (ac_IntegrationContract existing @ CHR 0x0A # ac_IntegrationContract new)
         else ac_IntegrationContract new),
      ac_RequiredArtifacts = uniqueStrings (ac_RequiredArtifacts existing @ ac_RequiredArtifacts new),
      ac_RequiredCommands = mergeContractChecks lower (ac_RequiredCommands existing) (ac_RequiredCommands new),
      ac_IntegrationSmokes = mergeContractChecks lower (ac_IntegrationSmokes existing) (ac_IntegrationSmokes new),
      ac_CompletionCriteria = uniqueStrings (ac_CompletionCriteria existing @ ac_CompletionCriteria new),
      ac_CreatedAt = (if TrimSpace (ac_CreatedAt new) = [] then ac_CreatedAt existing else ac_CreatedAt new),
      ac_UpdatedAt = ac_UpdatedAt new\<rparr>"

definition contractDialogueSummary :: "AcceptanceContract \<Rightarrow> string" where
  "contractDialogueSummary c =
     (let nl = [CHR 0x0A];
          checks = filter (\<lambda>n. n \<noteq> []) (map (\<lambda>k. firstNonEmpty [ck_Name k, ck_Command k]) (ac_RequiredCommands c @ ac_IntegrationSmokes c))
      in TrimSpace (''Project root: '' @ ac_ProjectRoot c @ nl @
           (if ac_IntegrationContract c \<noteq> [] then ''Integration: '' @ ac_IntegrationContract c @ nl else []) @
           (if ac_RequiredArtifacts c \<noteq> [] then ''Required artifacts: '' @ join_with '', '' (ac_RequiredArtifacts c) @ nl else []) @
           (if checks \<noteq> [] then ''Required checks: '' @ join_with '', '' checks @ nl else [])))"

section \<open>Artifacts\<close>

definition recordArtifact :: "'w team_env \<Rightarrow> string \<Rightarrow> string \<Rightarrow> string \<Rightarrow> string \<Rightarrow> Session \<Rightarrow> Session" where
  "recordArtifact E owner name summary path s =
     (if list_ex (\<lambda>a. Clean (ar_Path a) = Clean path) (ss_artifacts s) then s
      else s\<lparr>ss_artifacts := ss_artifacts s @
             [\<lparr>ar_ID = ''art-'' @ take 8 (te_uuid E (length (ss_artifacts s))), ar_Name = firstNonEmpty [TrimSpace name, Base path, ''artifact''],
               ar_Owner = owner, ar_Summary = summary, ar_Path = Clean path, ar_CreatedAt = te_now E\<rparr>]\<rparr>)"

definition resolveExpectedArtifactPath :: "'w team_env \<Rightarrow> 'w \<Rightarrow> Session \<Rightarrow> string \<Rightarrow> string option" where
  "resolveExpectedArtifactPath E w s given =
     (let name = TrimChars quote_chars (TrimSpace given); candidate = Join [ss_CWD s, name] in
      if name = [] then None
      else if IsAbs name then (if fileExists E w name then Some (Clean name) else None)
      else if fileExists E w candidate then Some (Clean candidate)
      else map_option Clean (find (fileExists E w) (te_glob E w (Join [ss_CWD s, ''*'', name]))))"

definition inside_name :: "string \<Rightarrow> string \<Rightarrow> string" where
  "inside_name root name =
     (if IsAbs name then (case Rel root name of Some rel \<Rightarrow> if \<not> HasPrefix rel ''../'' \<and> rel \<noteq> ''..'' then rel else Base name | None \<Rightarrow> Base name)
      else name)"

definition artifactDisplayName :: "Session \<Rightarrow> string \<Rightarrow> string \<Rightarrow> string" where
  "artifactDisplayName s given path =
     (let name = inside_name (ss_CWD s) (TrimChars quote_chars (TrimSpace given));
          name' = (if name = [] then inside_name (ss_CWD s) path else name)
      in Clean (if name' = [] then ''artifact'' else name'))"

definition registerExistingArtifacts :: "'w team_env \<Rightarrow> 'w \<Rightarrow> string \<Rightarrow> string list \<Rightarrow> Session \<Rightarrow> Session" where
  "registerExistingArtifacts E w owner artifacts s =
     fold (\<lambda>a s. case resolveExpectedArtifactPath E w s a of
                   None \<Rightarrow> s
                 | Some path \<Rightarrow> recordArtifact E owner (artifactDisplayName s a path) (te_firstLine E w path) path s)
       (nonEmptyStrings artifacts) s"

definition requiredArtifactExistsInNamedProjectRoot :: "'w team_env \<Rightarrow> 'w \<Rightarrow> Session \<Rightarrow> string \<Rightarrow> bool" where
  "requiredArtifactExistsInNamedProjectRoot E w s name =
     (let root = TrimSpace (ss_CWD s) in
      root \<noteq> [] \<and>
      list_ex (\<lambda>m. case Rel root m of None \<Rightarrow> False | Some rel \<Rightarrow> \<not> HasPrefix rel ''../'' \<and> rel \<noteq> ''..'' \<and> fileExists E w m)
        (te_glob E w (Join [root, ''*'', name])))"

definition requiredArtifactFileExists :: "'w team_env \<Rightarrow> 'w \<Rightarrow> Session \<Rightarrow> string \<Rightarrow> bool" where
  "requiredArtifactFileExists E w s name =
     (if IsAbs name then pathExists E w name
      else ss_RuntimeDir s \<noteq> [] \<and> pathExists E w (Join [ss_RuntimeDir s, name]) \<or>
           pathExists E w (Join [ss_CWD s, name]) \<or>
           requiredArtifactExistsInNamedProjectRoot E w s name \<or>
           list_ex (\<lambda>a. ar_Path a \<noteq> [] \<and> fileExists E w (Join [Dir (ar_Path a), name])) (ss_artifacts s))"

definition artifact_names :: "Session \<Rightarrow> string list" where
  "artifact_names s = concat (map (\<lambda>a. [ar_Name a, ar_ID a] @ (if ar_Path a \<noteq> [] then [ar_Path a] else [])) (ss_artifacts s))"

definition artifact_present :: "'w team_env \<Rightarrow> 'w \<Rightarrow> Session \<Rightarrow> string \<Rightarrow> bool" where
  "artifact_present E w s name \<longleftrightarrow> name \<in> set (artifact_names s) \<or> requiredArtifactFileExists E w s name"

definition missingRequiredArtifacts :: "'w team_env \<Rightarrow> 'w \<Rightarrow> Session \<Rightarrow> string list \<Rightarrow> string list" where
  "missingRequiredArtifacts E w s required =
     filter (\<lambda>name. name \<noteq> [] \<and> \<not> artifact_present E w s name) (map TrimSpace required)"

definition missingActiveA2AExpectedArtifacts :: "'w team_env \<Rightarrow> 'w \<Rightarrow> string \<Rightarrow> Session \<Rightarrow> string list" where
  "missingActiveA2AExpectedArtifacts E w agentID s =
     (case live_task s (mget [] (ss_agentActiveA2A s) agentID) of
        None \<Rightarrow> []
      | Some task \<Rightarrow> if tt_ExpectedArtifacts task = [] then [] else missingRequiredArtifacts E w s (uniqueStrings (tt_ExpectedArtifacts task)))"

section \<open>Recording the contract\<close>

definition RecordContract :: "'w team_env \<Rightarrow> 'w \<Rightarrow> string \<Rightarrow> AcceptanceContract \<Rightarrow> Session \<Rightarrow> Session \<times> bool" where
  "RecordContract E w from input s =
     (if from \<noteq> sp_EntryAgent (ss_Spec s) then (s, False)
      else let input1 = input\<lparr>ac_UserRequirements := nonEmptyStrings (ac_UserRequirements input),
                              ac_ComponentBoundaries := nonEmptyStrings (ac_ComponentBoundaries input),
                              ac_RequiredArtifacts := nonEmptyStrings (ac_RequiredArtifacts input),
                              ac_CompletionCriteria := nonEmptyStrings (ac_CompletionCriteria input),
                              ac_CreatedAt := (if ac_CreatedAt input = [] then te_now E else ac_CreatedAt input), ac_UpdatedAt := te_now E\<rparr>;
               input2 = (case ss_contract s of
                           None \<Rightarrow> input1
                         | Some c \<Rightarrow> (mergeAcceptanceContract (te_lower E) c input1)\<lparr>ac_UpdatedAt := te_now E\<rparr>);
               s1 = registerExistingArtifacts E w from (ac_RequiredArtifacts input2) (s\<lparr>ss_contract := Some input2\<rparr>)
           in (appendDialogue \<lparr>de_FromAgent = from, de_ToAgent = [''team''], de_Kind = ''contract'', de_Summary = ''Acceptance contract recorded'',
                 de_Content = contractDialogueSummary input2, de_ArtifactRefs = [], de_TaskID = []\<rparr> s1, True))"

section \<open>Verdicts\<close>

definition gateCheckForRoleOrAgent :: "Session \<Rightarrow> string \<Rightarrow> string \<Rightarrow> TeamGateCheckSpec option" where
  "gateCheckForRoleOrAgent s role from =
     (let r = TrimSpace role; f = TrimSpace from in
      find (\<lambda>check. (gc_Name check = r \<or> gc_Agent check = r \<or> gc_Agent check = f) \<and> gc_Agent check = f) (gs_Checks (sp_Gates (ss_Spec s))))"

definition statusIn :: "string \<Rightarrow> string list \<Rightarrow> bool" where
  "statusIn status allowed \<longleftrightarrow> TrimSpace status \<in> set (map TrimSpace allowed)"

definition validateGateVerdictInput :: "Session \<Rightarrow> string \<Rightarrow> string \<Rightarrow> GateVerdict \<Rightarrow> bool" where
  "validateGateVerdictInput s from role verdict =
     (case gateCheckForRoleOrAgent s role from of
        None \<Rightarrow> False
      | Some check \<Rightarrow>
          gc_Agent check = from \<and> TrimSpace (gv_Status verdict) \<noteq> [] \<and> statusIn (TrimSpace (gv_Status verdict)) (gc_AllowedStatuses check) \<and>
          \<not> (statusIn (TrimSpace (gv_Status verdict)) (gc_EvidenceRequiredStatuses check) \<and> gv_Evidence verdict = []) \<and>
          \<not> (statusIn (TrimSpace (gv_Status verdict)) (gc_FindingsRequiredStatuses check) \<and> gv_Findings verdict = []))"

definition gateEvidenceKey :: "(string \<Rightarrow> string) \<Rightarrow> GateEvidence \<Rightarrow> string" where
  "gateEvidenceKey lower e = joined_key (map (normalizeEvidenceKey lower) [ge_Name e, ge_Command e, ge_CWD e])"

definition mergeGateEvidence :: "(string \<Rightarrow> string) \<Rightarrow> GateEvidence list \<Rightarrow> GateEvidence list \<Rightarrow> GateEvidence list" where
  "mergeGateEvidence lower existing new = merge_keyed (gateEvidenceKey lower) (\<lambda>_ e. e) existing new"

definition mergeGateVerdict :: "(string \<Rightarrow> string) \<Rightarrow> GateVerdict \<Rightarrow> GateVerdict \<Rightarrow> GateVerdict" where
  "mergeGateVerdict lower existing new =
     (if TrimSpace (gv_Status existing) \<noteq> [] \<and> TrimSpace (gv_Status new) \<noteq> [] \<and> TrimSpace (gv_Status existing) \<noteq> TrimSpace (gv_Status new) then new
      else new\<lparr>gv_Status := (if TrimSpace (gv_Status new) = [] then gv_Status existing else gv_Status new),
               gv_Summary := (if TrimSpace (gv_Summary existing) \<noteq> [] \<and> TrimSpace (gv_Summary new) \<noteq> [] \<and> gv_Summary existing \<noteq> gv_Summary new
                              then TrimSpace (gv_Summary existing @ CHR 0x0A # gv_Summary new)
                              else if TrimSpace (gv_Summary new) = [] then gv_Summary existing else gv_Summary new),
               gv_Evidence := mergeGateEvidence lower (gv_Evidence existing) (gv_Evidence new),
               gv_CreatedAt := (if gv_CreatedAt new = [] then gv_CreatedAt existing else gv_CreatedAt new)\<rparr>)"

definition dash :: string where
  "dash = '' '' @ utf8 [226, 128, 148] @ '' ''"

definition gateVerdictDialogueSummary :: "GateVerdict \<Rightarrow> string" where
  "gateVerdictDialogueSummary v =
     (let nl = [CHR 0x0A] in
      TrimSpace (''Status: '' @ gv_Status v @ nl @
        (if gv_Summary v \<noteq> [] then gv_Summary v @ nl else []) @
        (if gv_Evidence v \<noteq> [] then ''Evidence:'' @ nl @
           concat (map (\<lambda>e. ''- '' @ firstNonEmpty [ge_Name e, ge_Command e] @ '': '' @ (if ge_Passed e then ''pass'' else ''fail'') @
             (if ge_OutputSummary e \<noteq> [] then dash @ ge_OutputSummary e else []) @ nl) (gv_Evidence v)) else []) @
        (if gv_Findings v \<noteq> [] then ''Findings:'' @ nl @
           concat (map (\<lambda>f. ''- ['' @ (if gf_Blocking f then ''blocking'' else ''nonblocking'') @ ''] '' @ gf_Summary f @
             (if gf_Details f \<noteq> [] then dash @ gf_Details f else []) @ nl) (gv_Findings v)) else [])))"

text \<open>\<open>strings.ToUpper\<close> of the gate's name occurs only in the summary line of the dialogue and is an argument.\<close>

definition SubmitGateVerdict :: "'w team_env \<Rightarrow> (string \<Rightarrow> string) \<Rightarrow> 'w \<Rightarrow> string \<Rightarrow> GateVerdict \<Rightarrow> Session \<Rightarrow> Session \<times> bool" where
  "SubmitGateVerdict E upper w from input s =
     (let role = (if TrimSpace (gv_Role input) = [] then from else TrimSpace (gv_Role input)) in
      case gateCheckForRoleOrAgent s role from of
        None \<Rightarrow> (s, False)
      | Some check \<Rightarrow>
          if \<not> validateGateVerdictInput s from (gc_Name check) input \<or> missingActiveA2AExpectedArtifacts E w from s \<noteq> [] then (s, False)
          else let v = input\<lparr>gv_Role := gc_Name check, gv_AgentID := from, gv_CreatedAt := te_now E\<rparr>;
                   v' = (case map_of (ss_gateVerdicts s) (gc_Name check) of None \<Rightarrow> v | Some previous \<Rightarrow> mergeGateVerdict (te_lower E) previous v);
                   s1 = s\<lparr>ss_gateVerdicts := mput (gc_Name check) v' (ss_gateVerdicts s), ss_gate := mput (gc_Name check) (gv_Status v') (ss_gate s)\<rparr>;
                   s2 = appendDialogue \<lparr>de_FromAgent = from, de_ToAgent = [sp_EntryAgent (ss_Spec s)], de_Kind = ''gate_verdict'',
                          de_Summary = upper (gc_Name check) @ '' verdict: '' @ gv_Status v', de_Content = gateVerdictDialogueSummary v',
                          de_ArtifactRefs = [], de_TaskID = []\<rparr> s1
               in (fst (finishActiveA2ATask from ''completed'' (gateVerdictDialogueSummary v') [] s2), True))"

definition invalidateGateVerdictsForAgent :: "string \<Rightarrow> Session \<Rightarrow> Session \<times> string list" where
  "invalidateGateVerdictsForAgent agentID s =
     (let a = TrimSpace agentID; hit = map fst (filter (\<lambda>e. gv_AgentID (snd e) = a) (ss_gateVerdicts s)) in
      if a = [] then (s, [])
      else (s\<lparr>ss_gateVerdicts := filter (\<lambda>e. fst e \<notin> set hit) (ss_gateVerdicts s), ss_gate := filter (\<lambda>e. fst e \<notin> set hit) (ss_gate s)\<rparr>,
            remdups (sort (nonEmptyStrings hit))))"

section \<open>Completion\<close>

record CompleteTeamTaskInput =
  ci_FinalAnswer :: string
  ci_GateStatuses :: "(string \<times> string) list"
  ci_RequiredArtifacts :: "string list"
  ci_DeferralReasons :: "(string \<times> string) list"
  ci_Summary :: string

datatype completion_error =
    NotLeader
  | MissingContract
  | MissingVerdict string string
  | StatusRequired string
  | StatusMismatch string string string
  | NotPassing string string
  | BlockingFinding string string
  | UndeferredFinding string string
  | MissingEvidence string "string list"
  | MissingArtifacts "string list"
  | FinalArtifactRequired
  | ExportFailed string

definition completionGateStatuses :: "CompleteTeamTaskInput \<Rightarrow> (string \<times> string) list" where
  "completionGateStatuses input =
     foldl (\<lambda>m e. if TrimSpace (fst e) \<noteq> [] \<and> TrimSpace (snd e) \<noteq> [] then mput (TrimSpace (fst e)) (TrimSpace (snd e)) m else m) [] (ci_GateStatuses input)"

definition completionGateStatus :: "CompleteTeamTaskInput \<Rightarrow> string \<Rightarrow> string" where
  "completionGateStatus input name = mget [] (completionGateStatuses input) name"

definition resolvedMarkers :: "string list" where
  "resolvedMarkers =
     [''fixed'', ''verified'', ''resolved'', ''confirmed'', ''validated'', ''no regression'',
      ''well-supported'', ''appropriately hedged'', ''no overextension'', ''not misleading'', ''credible'', ''meets threshold'',
      utf8 [229, 183, 178, 228, 191, 174, 229, 164, 141], utf8 [229, 183, 178, 233, 170, 140, 232, 175, 129], utf8 [233, 170, 140, 232, 175, 129, 233, 128, 154, 232, 191, 135], utf8 [229, 183, 178, 232, 167, 163, 229, 134, 179], utf8 [228, 191, 174, 229, 164, 141, 231, 161, 174, 232, 174, 164], utf8 [230, 151, 160, 229, 155, 158, 229, 189, 146],
      utf8 [232, 175, 129, 230, 141, 174, 229, 133, 133, 229, 136, 134], utf8 [229, 133, 133, 229, 136, 134, 230, 148, 175, 230, 146, 145], utf8 [233, 128, 130, 229, 189, 147, 228, 191, 157, 229, 174, 136], utf8 [230, 156, 170, 232, 182, 133, 229, 135, 186, 232, 175, 129, 230, 141, 174], utf8 [229, 143, 175, 228, 191, 161]]"

definition isResolvedGateFinding :: "(string \<Rightarrow> string) \<Rightarrow> GateFinding \<Rightarrow> bool" where
  "isResolvedGateFinding lower f =
     (let txt = lower (TrimSpace (gf_Summary f @ '' '' @ gf_Details f)) in txt \<noteq> [] \<and> list_ex (Contains txt) resolvedMarkers)"

definition normalizeDeferralKey :: "(string \<Rightarrow> string) \<Rightarrow> string \<Rightarrow> string" where
  "normalizeDeferralKey lower key = join_with '' '' (Fields (lower (TrimSpace key)))"

definition token_separators :: "(string \<times> string) list" where
  "token_separators = map (\<lambda>s. (s, '' ''))
     ['':'', '';'', '','', ''.'', ''('', '')'', [CHR 0x60], [CHR 0x27], [CHR 0x22], utf8 [226, 128, 148], ''-'', ''_'', ''/'', [CHR 0x5C]]"

definition stop_words :: "string list" where
  "stop_words = [''a'', ''an'', ''and'', ''are'', ''as'', ''but'', ''for'', ''has'', ''in'', ''is'', ''it'', ''of'', ''or'', ''the'', ''to'', ''use'', ''uses'', ''with'']"

definition significantDeferralTokens :: "(string \<Rightarrow> string) \<Rightarrow> string \<Rightarrow> string list" where
  "significantDeferralTokens lower v =
     filter (\<lambda>t. 2 \<le> rune_count t \<and> t \<notin> set stop_words) (Fields (Replacer token_separators (lower v)))"

definition deferralKeysMatch :: "(string \<Rightarrow> string) \<Rightarrow> string \<Rightarrow> string \<Rightarrow> bool" where
  "deferralKeysMatch lower want0 actual0 =
     (let want = normalizeDeferralKey lower want0; actual = normalizeDeferralKey lower actual0 in
      if want = [] \<or> actual = [] then False
      else if want = actual \<or> Contains want actual \<or> Contains actual want then True
      else let ws = significantDeferralTokens lower want; as = significantDeferralTokens lower actual in
        if length ws < 4 \<or> length as < 4 then False
        else max 4 ((3 * length ws + 3) div 4) \<le> length (filter (\<lambda>t. t \<in> set as) ws))"

definition gateFindingDeferralReason :: "(string \<Rightarrow> string) \<Rightarrow> string \<Rightarrow> GateFinding \<Rightarrow> (string \<times> string) list \<Rightarrow> string" where
  "gateFindingDeferralReason lower label f deferrals =
     (let keys = map (normalizeDeferralKey lower)
            [label @ '':'' @ gf_Category f @ '':'' @ gf_Summary f, gf_Category f @ '':'' @ gf_Summary f, label @ '':'' @ gf_Category f,
             gf_Category f, gf_Summary f];
          normalized = foldl (\<lambda>m e. mput (normalizeDeferralKey lower (fst e)) (TrimSpace (snd e)) m) [] deferrals;
          reason = (\<lambda>want. if mget [] normalized want \<noteq> [] then mget [] normalized want
                           else case find (\<lambda>e. snd e \<noteq> [] \<and> deferralKeysMatch lower want (fst e)) normalized of None \<Rightarrow> [] | Some e \<Rightarrow> snd e)
      in if deferrals = [] then []
         else case filter (\<lambda>r. r \<noteq> []) (map reason keys) of [] \<Rightarrow> [] | r # _ \<Rightarrow> r)"

fun validateGateFindings :: "(string \<Rightarrow> string) \<Rightarrow> string \<Rightarrow> TeamGateSpec \<Rightarrow> (string \<times> string) list \<Rightarrow> GateFinding list \<Rightarrow> completion_error option" where
  "validateGateFindings lower label gates deferrals [] = None"
| "validateGateFindings lower label gates deferrals (f # fs) =
     (if gf_Blocking f then Some (BlockingFinding label (gf_Summary f))
      else if isResolvedGateFinding lower f then validateGateFindings lower label gates deferrals fs
      else if gs_NonblockingFindings gates = ''require_followup_or_deferral'' \<and> gateFindingDeferralReason lower label f deferrals = [] \<and>
              gs_DeferralRequiresReason gates then Some (UndeferredFinding label (gf_Summary f))
      else validateGateFindings lower label gates deferrals fs)"

definition gateNames :: "(string \<Rightarrow> string) \<Rightarrow> TeamGateCheckSpec list \<Rightarrow> string list" where
  "gateNames lower checks =
     filter (\<lambda>k. k \<noteq> []) (concat (map (\<lambda>c. [normalizeEvidenceKey lower (gc_Name c), normalizeEvidenceKey lower (gc_Agent c)]) checks))"

definition validate_gate :: "'w team_env \<Rightarrow> Session \<Rightarrow> CompleteTeamTaskInput \<Rightarrow> TeamGateCheckSpec \<Rightarrow> completion_error option" where
  "validate_gate E s input check =
     (let name = gc_Name check; gates = sp_Gates (ss_Spec s); want = completionGateStatus input name in
      case map_of (ss_gateVerdicts s) name of
        None \<Rightarrow> Some (MissingVerdict name (gc_Agent check))
      | Some v \<Rightarrow>
          if TrimSpace want = [] then Some (StatusRequired name)
          else if want \<noteq> gv_Status v then Some (StatusMismatch name want (gv_Status v))
          else if \<not> statusIn (gv_Status v) (gc_PassStatuses check) then Some (NotPassing name (gv_Status v))
          else case validateGateFindings (te_lower E) name gates (ci_DeferralReasons input) (gv_Findings v) of
            Some e \<Rightarrow> Some e
          | None \<Rightarrow>
              (case ss_contract s of
                 Some c \<Rightarrow>
                   if statusIn (gv_Status v) (gc_EvidenceRequiredStatuses check)
                   then (let missing = missingRequiredEvidence (te_lower E) (ac_RequiredCommands c @ ac_IntegrationSmokes c) (gv_Evidence v)
                                         (gateNames (te_lower E) (gs_Checks gates))
                         in if missing \<noteq> [] then Some (MissingEvidence name missing) else None)
                   else None
               | None \<Rightarrow> None))"

fun first_error :: "('a \<Rightarrow> 'e option) \<Rightarrow> 'a list \<Rightarrow> 'e option" where
  "first_error f [] = None"
| "first_error f (x # xs) = (case f x of Some e \<Rightarrow> Some e | None \<Rightarrow> first_error f xs)"

definition validateCompletion :: "'w team_env \<Rightarrow> 'w \<Rightarrow> Session \<Rightarrow> CompleteTeamTaskInput \<Rightarrow> completion_error option" where
  "validateCompletion E w s input =
     (let gates = sp_Gates (ss_Spec s) in
      if gs_RequireContract gates \<and> ss_contract s = None then Some MissingContract
      else case first_error (validate_gate E s input) (gs_Checks gates) of
        Some e \<Rightarrow> Some e
      | None \<Rightarrow>
          (let required = (case ss_contract s of None \<Rightarrow> [] | Some c \<Rightarrow> ac_RequiredArtifacts c) @ ci_RequiredArtifacts input;
               missing = missingRequiredArtifacts E w s (uniqueStrings required)
           in if missing \<noteq> [] then Some (MissingArtifacts missing) else None))"

section \<open>Export of artifacts\<close>

definition pathInsideRoot :: "fs_env \<Rightarrow> string \<Rightarrow> string \<Rightarrow> bool" where
  "pathInsideRoot fs path root =
     (if TrimSpace root = [] \<or> TrimSpace path = [] then False
      else case (Abs fs (TrimSpace root), Abs fs path) of
        (Some absRoot, Some absPath) \<Rightarrow>
          (case Rel absRoot absPath of None \<Rightarrow> False | Some rel \<Rightarrow> rel = ''.'' \<or> (\<not> HasPrefix rel ''../'' \<and> rel \<noteq> ''..''))
      | _ \<Rightarrow> False)"

definition mustRelOrBase :: "string \<Rightarrow> string \<Rightarrow> string" where
  "mustRelOrBase root path =
     (case Rel root path of
        Some rel \<Rightarrow> if rel \<noteq> ''.'' \<and> \<not> HasPrefix rel ''../'' \<and> rel \<noteq> ''..'' then rel else Base path
      | None \<Rightarrow> Base path)"

definition resolveRuntimeArtifactPath :: "'w team_env \<Rightarrow> 'w \<Rightarrow> Session \<Rightarrow> string \<Rightarrow> string option" where
  "resolveRuntimeArtifactPath E w s given =
     (let name = TrimChars quote_chars (TrimSpace given) in
      if name = [] then None
      else if IsAbs name then (if pathExists E w name then Some (Clean name) else None)
      else case find (pathExists E w) (map (\<lambda>root. Join [root, name]) (filter (\<lambda>root. root \<noteq> []) [ss_RuntimeDir s, ss_CWD s])) of
        Some candidate \<Rightarrow> Some (Clean candidate)
      | None \<Rightarrow> map_option (\<lambda>a. Clean (ar_Path a))
          (find (\<lambda>a. (ar_Name a = name \<or> ar_ID a = name) \<and> pathExists E w (ar_Path a)) (ss_artifacts s)))"

definition firstLineFromExport :: "'w team_env \<Rightarrow> 'w \<Rightarrow> string \<Rightarrow> string" where
  "firstLineFromExport E w path = (if te_stat E w path = Some False then te_firstLine E w path else [])"

fun export_from :: "'w team_env \<Rightarrow> string \<Rightarrow> string list \<Rightarrow> Session \<Rightarrow> 'w \<Rightarrow> string list \<Rightarrow> Session \<times> 'w \<times> (string + string list)" where
  "export_from E outDir exported s w [] = (s, w, Inr exported)"
| "export_from E outDir exported s w (name # names) =
     (case resolveRuntimeArtifactPath E w s name of
        None \<Rightarrow> (s, w, Inl (''missing export artifact '' @ name))
      | Some src \<Rightarrow>
          (let dst = Join [outDir, Clean (TrimChars quote_chars (TrimSpace name))] in
           if \<not> pathInsideRoot (te_files E) dst outDir then (s, w, Inl (''export artifact escapes output directory: '' @ name))
           else case te_copy E src dst w of
             (Some err, w1) \<Rightarrow> (s, w1, Inl (name @ '': '' @ err))
           | (None, w1) \<Rightarrow>
               (let display = mustRelOrBase (ss_CWD s) dst in
                export_from E outDir (exported @ [display])
                  (recordArtifact E (sp_EntryAgent (ss_Spec s)) display (firstLineFromExport E w1 dst) dst s) w1 names)))"

definition exportCompletionArtifacts :: "'w team_env \<Rightarrow> 'w \<Rightarrow> string list \<Rightarrow> Session \<Rightarrow> Session \<times> 'w \<times> (string + string list)" where
  "exportCompletionArtifacts E w required s =
     (let out = sp_Output (ss_Spec s);
          artifacts = (if nonEmptyStrings (os_Artifacts out) = [] then nonEmptyStrings required else nonEmptyStrings (os_Artifacts out));
          dir0 = (if TrimSpace (os_Directory out) = [] then sp_Name (ss_Spec s) @ ''-'' @ ss_ID s else TrimSpace (os_Directory out));
          dir = ReplaceAll (ReplaceAll dir0 ''{team_session_id}'' (ss_ID s)) ''{team_name}'' (sp_Name (ss_Spec s));
          outDir = Clean (Join [ss_CWD s, dir])
      in if \<not> os_ExportToWorkdir out \<or> artifacts = [] then (s, w, Inr [])
         else if \<not> pathInsideRoot (te_files E) outDir (ss_CWD s) then (s, w, Inl (''output directory escapes working directory: '' @ outDir))
         else case te_mkdir E outDir w of
           (Some err, w1) \<Rightarrow> (s, w1, Inl err)
         | (None, w1) \<Rightarrow> export_from E outDir [] s w1 artifacts)"

definition appendExportSummary :: "string \<Rightarrow> string list \<Rightarrow> string" where
  "appendExportSummary answer exported =
     (if exported = [] then answer
      else let a = TrimSpace answer in
        TrimSpace (a @ (if a \<noteq> [] then [CHR 0x0A, CHR 0x0A] else []) @
          utf8 [229, 183, 178, 229, 175, 188, 229, 135, 186, 229, 136, 176, 229, 183, 165, 228, 189, 156, 231, 155, 174, 229, 189, 149, 239, 188, 154] @ [CHR 0x0A] @
          concat (map (\<lambda>p. ''- '' @ p @ [CHR 0x0A]) exported)))"

definition cloneGateStatus :: "(string \<times> string) list \<Rightarrow> (string \<times> string) list" where
  "cloneGateStatus statuses =
     foldl (\<lambda>m e. if TrimSpace (fst e) \<noteq> [] \<and> TrimSpace (snd e) \<noteq> [] then mput (TrimSpace (fst e)) (TrimSpace (snd e)) m else m) [] statuses"

definition complete_state :: "string \<Rightarrow> CompleteTeamTaskInput \<Rightarrow> string list \<Rightarrow> Session \<Rightarrow> Session" where
  "complete_state from input exported s =
     (let answer = appendExportSummary (ci_FinalAnswer input) exported;
          summary = firstNonEmpty [ci_Summary input, ''Team task complete''];
          statuses = completionGateStatuses input;
          s1 = s\<lparr>ss_completed := True, ss_finalAnswer := answer,
                 ss_gate := (if statuses \<noteq> [] then cloneGateStatus statuses else ss_gate s),
                 ss_activity := (case map_of (ss_activity s) from of
                                   None \<Rightarrow> ss_activity s
                                 | Some row \<Rightarrow> mput from (row\<lparr>aw_Status := ''completed'', aw_Summary := summary\<rparr>) (ss_activity s))\<rparr>
      in appendDialogue \<lparr>de_FromAgent = from, de_ToAgent = [''user''], de_Kind = ''final'', de_Summary = summary, de_Content = answer,
           de_ArtifactRefs = ci_RequiredArtifacts input @ exported, de_TaskID = []\<rparr> s1)"

definition CompleteTask :: "'w team_env \<Rightarrow> 'w \<Rightarrow> string \<Rightarrow> CompleteTeamTaskInput \<Rightarrow> Session \<Rightarrow> Session \<times> 'w \<times> completion_error option" where
  "CompleteTask E w from input s =
     (if from \<noteq> sp_EntryAgent (ss_Spec s) then (s, w, Some NotLeader)
      else case validateCompletion E w s input of
        Some e \<Rightarrow> (s, w, Some e)
      | None \<Rightarrow>
          if sp_RequireFinalArtifact (ss_Spec s) \<and> ci_RequiredArtifacts input = [] then (s, w, Some FinalArtifactRequired)
          else if missingRequiredArtifacts E w s (ci_RequiredArtifacts input) \<noteq> []
          then (s, w, Some (MissingArtifacts (missingRequiredArtifacts E w s (ci_RequiredArtifacts input))))
          else case exportCompletionArtifacts E w (ci_RequiredArtifacts input) s of
            (s1, w1, Inl err) \<Rightarrow> (s1, w1, Some (ExportFailed err))
          | (s1, w1, Inr exported) \<Rightarrow> (complete_state from input exported s1, w1, None))"

text \<open>A new request of the user starts over.\<close>

definition Submit :: "string \<Rightarrow> Session \<Rightarrow> Session \<times> bool" where
  "Submit input s =
     (if TrimSpace input = [] then (s, False)
      else (s\<lparr>ss_completed := False, ss_finalAnswer := [], ss_gate := [], ss_contract := None, ss_gateVerdicts := []\<rparr>, True))"

section \<open>The course of a session\<close>

text \<open>
  The operations of the agents, the leader and the user in any order; files, the time and the drawn identifiers differ from
  step to step, and the fields that other code writes (activity rows, artifacts, dialogue) may change in between.
\<close>

inductive team_step :: "'w team_env \<Rightarrow> Session \<Rightarrow> Session \<Rightarrow> bool" for E where
  submit: "team_step E s (fst (Submit input s))"
| contract: "team_step E s (fst (RecordContract (E\<lparr>te_now := now, te_uuid := uuid\<rparr>) w from input s))"
| verdict: "team_step E s (fst (SubmitGateVerdict (E\<lparr>te_now := now, te_uuid := uuid\<rparr>) upper w from v s))"
| invalidate: "team_step E s (fst (invalidateGateVerdictsForAgent agentID s))"
| complete: "team_step E s (fst (CompleteTask (E\<lparr>te_now := now, te_uuid := uuid\<rparr>) w from input s))"
| begin_task: "CHR 0x00 \<notin> set taskID \<Longrightarrow> map_of (ss_a2aTasks s) (a2aTaskKey taskID target) = None \<Longrightarrow>
    team_step E s (fst (beginA2ATask taskID from target summary expected s))"
| end_task: "CHR 0x00 \<notin> set taskID \<Longrightarrow> team_step E s (end_task display taskID from target e s)"
| look: "team_step E s (fst (activeA2ATasks s))"
| other: "team_step E s (s\<lparr>ss_dialogue := d, ss_activity := a, ss_artifacts := r\<rparr>)"

inductive team_reachable :: "'w team_env \<Rightarrow> TeamSpec \<Rightarrow> Session \<Rightarrow> bool" for E spec where
  start: "team_reachable E spec (NewSession ident workDir runtimeDir spec rows)"
| step: "team_reachable E spec s \<Longrightarrow> team_step E s s' \<Longrightarrow> team_reachable E spec s'"

inductive_cases team_stepE: "team_step E s s'"

section \<open>What the operations leave alone\<close>

text \<open>Recording artifacts changes nothing but the list of artifacts.\<close>

definition core :: "Session \<Rightarrow> Session" where
  "core s = s\<lparr>ss_artifacts := []\<rparr>"

lemma core_fields:
  assumes "core s' = core s"
  shows "ss_gateVerdicts s' = ss_gateVerdicts s" "ss_Spec s' = ss_Spec s" "ss_contract s' = ss_contract s" "ss_a2aTasks s' = ss_a2aTasks s"
    "ss_agentActiveA2A s' = ss_agentActiveA2A s" "ss_completed s' = ss_completed s"
  using assms[THEN arg_cong, of ss_gateVerdicts] assms[THEN arg_cong, of ss_Spec] assms[THEN arg_cong, of ss_contract]
    assms[THEN arg_cong, of ss_a2aTasks] assms[THEN arg_cong, of ss_agentActiveA2A] assms[THEN arg_cong, of ss_completed]
  by (simp_all add: core_def)

lemma core_recordArtifact [simp]: "core (recordArtifact E owner name summary path s) = core s"
  by (simp add: recordArtifact_def core_def)

lemma core_register: "core (registerExistingArtifacts E w owner artifacts s) = core s"
proof -
  have "core (fold (\<lambda>a s. case resolveExpectedArtifactPath E w s a of None \<Rightarrow> s
      | Some path \<Rightarrow> recordArtifact E owner (artifactDisplayName s a path) (te_firstLine E w path) path s) xs s) = core s" for xs
    by (induction xs arbitrary: s) (auto split: option.splits)
  then show ?thesis by (simp add: registerExistingArtifacts_def)
qed

lemma core_export_from: "core (fst (export_from E outDir exported s w names)) = core s"
  by (induction E outDir exported s w names rule: export_from.induct) (auto simp: Let_def split: option.splits prod.splits)

lemma core_export: "core (fst (exportCompletionArtifacts E w required s)) = core s"
  using core_export_from by (auto simp: exportCompletionArtifacts_def Let_def split: prod.splits option.splits)

lemma RecordContract_core:
  "ss_gateVerdicts (fst (RecordContract E w from input s)) = ss_gateVerdicts s"
  "ss_Spec (fst (RecordContract E w from input s)) = ss_Spec s"
  "ss_a2aTasks (fst (RecordContract E w from input s)) = ss_a2aTasks s"
  "ss_agentActiveA2A (fst (RecordContract E w from input s)) = ss_agentActiveA2A s"
  by (simp_all add: RecordContract_def Let_def appendDialogue_def core_fields[OF core_register])

lemma complete_state_core:
  "ss_gateVerdicts (complete_state from input exported s) = ss_gateVerdicts s" "ss_Spec (complete_state from input exported s) = ss_Spec s"
  "ss_contract (complete_state from input exported s) = ss_contract s" "ss_completed (complete_state from input exported s)"
  "ss_a2aTasks (complete_state from input exported s) = ss_a2aTasks s" "ss_agentActiveA2A (complete_state from input exported s) = ss_agentActiveA2A s"
  by (simp_all add: complete_state_def Let_def appendDialogue_def)

lemma CompleteTask_cases:
  obtains (kept) e where "CompleteTask E w from input s = (s, w, Some e)"
  | (failed) s1 w1 e where "CompleteTask E w from input s = (s1, w1, Some (ExportFailed e))" "core s1 = core s"
  | (finished) s1 w1 exported where "CompleteTask E w from input s = (complete_state from input exported s1, w1, None)" "core s1 = core s"
      "from = sp_EntryAgent (ss_Spec s)" "validateCompletion E w s input = None"
proof -
  obtain s1 w1 r where x: "exportCompletionArtifacts E w (ci_RequiredArtifacts input) s = (s1, w1, r)" by (metis surj_pair)
  have c: "core s1 = core s" using core_export[of E w "ci_RequiredArtifacts input" s] x by simp
  show ?thesis
  proof (cases "from = sp_EntryAgent (ss_Spec s) \<and> validateCompletion E w s input = None \<and>
      \<not> (sp_RequireFinalArtifact (ss_Spec s) \<and> ci_RequiredArtifacts input = []) \<and> missingRequiredArtifacts E w s (ci_RequiredArtifacts input) = []")
    case True
    then have "CompleteTask E w from input s = (case (s1, w1, r) of (s1, w1, Inl err) \<Rightarrow> (s1, w1, Some (ExportFailed err))
          | (s1, w1, Inr exported) \<Rightarrow> (complete_state from input exported s1, w1, None))"
      using x by (auto simp: CompleteTask_def)
    then show ?thesis using that(2,3)[OF _ c] True by (cases r) auto
  next
    case False
    then have "\<exists>e. CompleteTask E w from input s = (s, w, Some e)" by (auto simp: CompleteTask_def split: option.splits)
    then show ?thesis using that(1) by blast
  qed
qed

lemma CompleteTask_core:
  assumes s': "s' = fst (CompleteTask E w from input s)"
  shows "ss_gateVerdicts s' = ss_gateVerdicts s \<and> ss_Spec s' = ss_Spec s \<and> ss_contract s' = ss_contract s \<and> ss_a2aTasks s' = ss_a2aTasks s \<and>
    ss_agentActiveA2A s' = ss_agentActiveA2A s"
proof (cases rule: CompleteTask_cases[of E w "from" input s])
  case (failed s1 w1 e)
  then show ?thesis using core_fields[OF failed(2)] by (simp add: s')
next
  case (finished s1 w1 exported)
  then show ?thesis using core_fields[OF finished(2)] by (simp add: s' complete_state_core)
qed (simp add: s')

lemma finishActive_core:
  assumes s': "s' = fst (finishActiveA2ATask target status result errText s)"
  shows "ss_gateVerdicts s' = ss_gateVerdicts s \<and> ss_Spec s' = ss_Spec s \<and> ss_contract s' = ss_contract s"
  by (simp add: s' finishActiveA2ATask_def finishA2ATask_def Let_def appendDialogue_def split: option.splits)

lemma end_task_core:
  assumes s': "s' = end_task display taskID from target e s"
  shows "ss_gateVerdicts s' = ss_gateVerdicts s \<and> ss_Spec s' = ss_Spec s \<and> ss_contract s' = ss_contract s"
  by (cases e) (simp_all add: s' end_task_def finishA2ATask_def markA2ATaskPending_def setActivity_def Let_def appendRecovery_def appendDialogue_def split: option.splits)

lemma begin_core:
  assumes s': "s' = fst (beginA2ATask taskID from target summary expected s)"
  shows "ss_gateVerdicts s' = ss_gateVerdicts s \<and> ss_Spec s' = ss_Spec s \<and> ss_contract s' = ss_contract s"
  by (simp add: s' beginA2ATask_def activeA2ATask_def Let_def split: option.splits)

section \<open>Who gave a verdict\<close>

text \<open>The role plays no part: an agent always gives its verdict for the first check that names it.\<close>

lemma gateCheck_first: "gateCheckForRoleOrAgent s role from = find (\<lambda>c. gc_Agent c = TrimSpace from) (gs_Checks (sp_Gates (ss_Spec s)))"
  unfolding gateCheckForRoleOrAgent_def Let_def by (intro arg_cong2[where f = find]) auto

definition own_check :: "TeamSpec \<Rightarrow> string \<Rightarrow> TeamGateCheckSpec option" where
  "own_check spec agent = find (\<lambda>c. gc_Agent c = agent) (gs_Checks (sp_Gates spec))"

definition verdict_ok :: "TeamSpec \<Rightarrow> string \<Rightarrow> GateVerdict \<Rightarrow> bool" where
  "verdict_ok spec name v \<longleftrightarrow>
     (\<exists>check. own_check spec (gv_AgentID v) = Some check \<and> gc_Name check = name \<and> gv_Role v = name \<and>
        TrimSpace (gv_Status v) \<noteq> [] \<and> statusIn (gv_Status v) (gc_AllowedStatuses check))"

definition verdicts_ok :: "Session \<Rightarrow> bool" where
  "verdicts_ok s \<longleftrightarrow> (\<forall>name v. map_of (ss_gateVerdicts s) name = Some v \<longrightarrow> verdict_ok (ss_Spec s) name v)"

lemma mergeGateVerdict_parts:
  "TrimSpace (gv_Status new) \<noteq> [] \<Longrightarrow> gv_Status (mergeGateVerdict lower old new) = gv_Status new"
  "gv_Role (mergeGateVerdict lower old new) = gv_Role new" "gv_AgentID (mergeGateVerdict lower old new) = gv_AgentID new"
  "gv_Findings (mergeGateVerdict lower old new) = gv_Findings new"
  by (simp_all add: mergeGateVerdict_def)

lemma map_of_filter_keys: "map_of (filter (\<lambda>e. fst e \<notin> S) xs) k = (if k \<in> S then None else map_of xs k)"
  by (induction xs) auto

lemma SubmitGateVerdict_cases:
  obtains (refused) "SubmitGateVerdict E upper w from input s = (s, False)"
  | (recorded) check v s1 where "SubmitGateVerdict E upper w from input s = (fst (finishActiveA2ATask from ''completed'' (gateVerdictDialogueSummary v) [] s1), True)"
      "own_check (ss_Spec s) from = Some check" "ss_gateVerdicts s1 = mput (gc_Name check) v (ss_gateVerdicts s)" "ss_Spec s1 = ss_Spec s"
      "ss_contract s1 = ss_contract s" "ss_a2aTasks s1 = ss_a2aTasks s" "ss_agentActiveA2A s1 = ss_agentActiveA2A s"
      "gv_AgentID v = from" "gv_Findings v = gv_Findings input" "verdict_ok (ss_Spec s) (gc_Name check) v"
proof (cases "gateCheckForRoleOrAgent s (if TrimSpace (gv_Role input) = [] then from else TrimSpace (gv_Role input)) from")
  case None
  then show ?thesis using refused by (simp add: SubmitGateVerdict_def Let_def)
next
  case (Some check)
  let ?new = "input\<lparr>gv_Role := gc_Name check, gv_AgentID := from, gv_CreatedAt := te_now E\<rparr>"
  let ?v = "case map_of (ss_gateVerdicts s) (gc_Name check) of None \<Rightarrow> ?new | Some previous \<Rightarrow> mergeGateVerdict (te_lower E) previous ?new"
  show ?thesis
  proof (cases "validateGateVerdictInput s from (gc_Name check) input \<and> missingActiveA2AExpectedArtifacts E w from s = []")
    case False
    then show ?thesis using refused Some by (auto simp: SubmitGateVerdict_def Let_def)
  next
    case True
    have g: "find (\<lambda>c. gc_Agent c = TrimSpace from) (gs_Checks (sp_Gates (ss_Spec s))) = Some check" using Some by (simp add: gateCheck_first)
    have val: "gc_Agent check = from" "TrimSpace (gv_Status input) \<noteq> []" "statusIn (TrimSpace (gv_Status input)) (gc_AllowedStatuses check)"
      using True g by (auto simp: validateGateVerdictInput_def gateCheck_first)
    have "gc_Agent check = TrimSpace from" using g by (auto simp: find_Some_iff)
    with val have trim: "TrimSpace from = from" by simp
    have own: "own_check (ss_Spec s) from = Some check" using g trim by (simp add: own_check_def)
    have v: "gv_AgentID ?v = from" "gv_Findings ?v = gv_Findings input" "gv_Role ?v = gc_Name check" "gv_Status ?v = gv_Status input"
      using val(2) by (simp_all add: mergeGateVerdict_parts split: option.splits)
    have "statusIn (gv_Status input) (gc_AllowedStatuses check)" using val(3) by (simp add: statusIn_def)
    then have ok: "verdict_ok (ss_Spec s) (gc_Name check) ?v" using own v val(2) by (auto simp: verdict_ok_def)
    let ?s1 = "appendDialogue \<lparr>de_FromAgent = from, de_ToAgent = [sp_EntryAgent (ss_Spec s)], de_Kind = ''gate_verdict'',
        de_Summary = upper (gc_Name check) @ '' verdict: '' @ gv_Status ?v, de_Content = gateVerdictDialogueSummary ?v, de_ArtifactRefs = [], de_TaskID = []\<rparr>
      (s\<lparr>ss_gateVerdicts := mput (gc_Name check) ?v (ss_gateVerdicts s), ss_gate := mput (gc_Name check) (gv_Status ?v) (ss_gate s)\<rparr>)"
    show ?thesis by (rule recorded[of ?v ?s1 check, OF _ own _ _ _ _ _ v(1,2) ok])
      (use Some True in \<open>simp_all add: SubmitGateVerdict_def Let_def appendDialogue_def\<close>)
  qed
qed

section \<open>Invariants of a session\<close>

lemma first_error_None: "first_error f xs = None \<longleftrightarrow> (\<forall>x \<in> set xs. f x = None)"
  by (induction xs) (auto split: option.splits)

definition gates_same :: "Session \<Rightarrow> Session \<Rightarrow> bool" where
  "gates_same s s' \<longleftrightarrow> ss_gateVerdicts s' = ss_gateVerdicts s \<and> ss_Spec s' = ss_Spec s"

lemma verdicts_ok_same: "verdicts_ok s \<Longrightarrow> gates_same s s' \<Longrightarrow> verdicts_ok s'"
  by (simp add: verdicts_ok_def gates_same_def)

lemma verdicts_ok_submit:
  assumes ok: "verdicts_ok s"
  shows "verdicts_ok (fst (SubmitGateVerdict E upper w from input s)) \<and> ss_Spec (fst (SubmitGateVerdict E upper w from input s)) = ss_Spec s"
proof (cases rule: SubmitGateVerdict_cases[of E upper w "from" input s])
  case (recorded check v s1)
  let ?s' = "fst (SubmitGateVerdict E upper w from input s)"
  have "ss_gateVerdicts ?s' = mput (gc_Name check) v (ss_gateVerdicts s)" "ss_Spec ?s' = ss_Spec s"
    using recorded finishActive_core[OF refl, of "from" "''completed''" "gateVerdictDialogueSummary v" "[]" s1] by auto
  then show ?thesis using ok recorded(10) by (auto simp: verdicts_ok_def update_conv')
qed (use ok in simp)

lemma team_step_gates:
  assumes "team_step E s s'" "verdicts_ok s"
  shows "verdicts_ok s' \<and> ss_Spec s' = ss_Spec s"
  using assms(1)
proof (cases rule: team_step.cases)
  case (contract uuid now w "from" input)
  then show ?thesis using assms(2) by (simp add: verdicts_ok_def RecordContract_core)
next
  case (verdict uuid now upper w "from" v)
  then show ?thesis using verdicts_ok_submit[OF assms(2)] by simp
next
  case (invalidate agentID)
  then show ?thesis using assms(2)
    by (auto simp: invalidateGateVerdictsForAgent_def verdicts_ok_def Let_def map_of_filter_keys split: if_splits)
next
  case (complete uuid now w "from" input)
  then show ?thesis using CompleteTask_core[OF complete] verdicts_ok_same[OF assms(2), of s'] by (simp add: gates_same_def)
next
  case (begin_task taskID target "from" summary expected)
  then show ?thesis using begin_core[OF begin_task(1)] verdicts_ok_same[OF assms(2), of s'] by (simp add: gates_same_def)
next
  case (end_task taskID display "from" target e)
  then show ?thesis using end_task_core[OF end_task(1)] verdicts_ok_same[OF assms(2), of s'] by (simp add: gates_same_def)
qed (use assms(2) in \<open>auto simp: verdicts_ok_def Submit_def activeA2ATasks_def split: if_splits\<close>)

lemma team_step_tasks:
  assumes "team_step E s s'" "tasks_ok s"
  shows "tasks_ok s' \<and> (\<forall>key task. ended key task s \<longrightarrow> ended key task s')"
  using assms(1)
proof (cases rule: team_step.cases)
  case (contract uuid now w "from" input)
  then show ?thesis using tasks_ok_same[OF assms(2)] by (auto simp: RecordContract_core intro: ended_same)
next
  case (verdict uuid now upper w "from" v)
  show ?thesis
  proof (cases rule: SubmitGateVerdict_cases[of "E\<lparr>te_now := now, te_uuid := uuid\<rparr>" upper w "from" v s])
    case (recorded check v' s1)
    have "tasks_ok s1" using tasks_ok_same[OF assms(2)] recorded by simp
    moreover have "ended key task s \<Longrightarrow> ended key task s1" for key task using recorded by (simp add: ended_def)
    ultimately show ?thesis using verdict recorded(1) tasks_ok_finish_active[of s1 "''completed''"] ended_finish_active by auto
  qed (use verdict assms(2) in auto)
next
  case (complete uuid now w "from" input)
  then show ?thesis using CompleteTask_core[OF complete] tasks_ok_same[OF assms(2)]
    by (auto intro: ended_same)
next
  case (begin_task taskID target "from" summary expected)
  then show ?thesis using tasks_ok_begin[OF assms(2)] ended_begin[OF assms(2)] by auto
next
  case (end_task taskID display "from" target e)
  then show ?thesis using tasks_ok_end[OF assms(2)] ended_end by auto
next
  case look
  then show ?thesis using tasks_ok_look[OF assms(2)] by (auto simp: activeA2ATasks_def ended_def)
qed (use assms(2) tasks_ok_same[OF assms(2)] in \<open>auto simp: Submit_def invalidateGateVerdictsForAgent_def Let_def ended_def split: if_splits\<close>)

end
