(* ===== verification/Team_Completion.thy ===== *)
theory Team_Completion
  imports Team_Gates
begin

text \<open>
  What the gates of a team promise: a task is completed only when every gate passed, the contract only grows, an agent works on one task at
  a time. The states are those that any order of the operations of \<open>Team_Gates\<close> can reach.
\<close>

lemma reachable_session: "team_reachable E spec s \<Longrightarrow> ss_Spec s = spec \<and> verdicts_ok s \<and> tasks_ok s"
proof (induction rule: team_reachable.induct)
  case (step s s')
  then show ?case using team_step_gates team_step_tasks by metis
qed (simp add: NewSession_def verdicts_ok_def tasks_ok_def)

section \<open>Completion\<close>

lemma findings_not_blocking: "validateGateFindings lower label gates deferrals fs = None \<Longrightarrow> f \<in> set fs \<Longrightarrow> \<not> gf_Blocking f"
  by (induction fs) (auto split: if_splits)

lemma nothing_missing: "missingRequiredEvidence lower checks evidence gates = [] \<longleftrightarrow>
    (\<forall>ck \<in> set checks. check_satisfied lower (filter ge_Passed evidence) gates ck)"
  by (auto simp: missingRequiredEvidence_def filter_empty_conv)

text \<open>What a gate needs to pass.\<close>

definition gate_passed :: "'w team_env \<Rightarrow> Session \<Rightarrow> TeamGateCheckSpec \<Rightarrow> GateVerdict \<Rightarrow> bool" where
  "gate_passed E s check v \<longleftrightarrow>
     statusIn (gv_Status v) (gc_PassStatuses check) \<and> (\<forall>f \<in> set (gv_Findings v). \<not> gf_Blocking f) \<and>
     (\<forall>c. ss_contract s = Some c \<longrightarrow> statusIn (gv_Status v) (gc_EvidenceRequiredStatuses check) \<longrightarrow>
        (\<forall>ck \<in> set (ac_RequiredCommands c @ ac_IntegrationSmokes c).
           check_satisfied (te_lower E) (filter ge_Passed (gv_Evidence v)) (gateNames (te_lower E) (gs_Checks (sp_Gates (ss_Spec s)))) ck))"

lemma validate_gate_None:
  assumes "validate_gate E s input check = None"
  shows "\<exists>v. map_of (ss_gateVerdicts s) (gc_Name check) = Some v \<and> gate_passed E s check v"
proof -
  obtain v where v: "map_of (ss_gateVerdicts s) (gc_Name check) = Some v" using assms by (cases "map_of (ss_gateVerdicts s) (gc_Name check)") (auto simp: validate_gate_def Let_def)
  have f: "validateGateFindings (te_lower E) (gc_Name check) (sp_Gates (ss_Spec s)) (ci_DeferralReasons input) (gv_Findings v) = None"
    using assms v by (auto simp: validate_gate_def Let_def split: if_splits option.splits)
  have "gate_passed E s check v" unfolding gate_passed_def
    using assms v f findings_not_blocking[OF f]
    by (auto simp: validate_gate_def Let_def nothing_missing split: if_splits option.splits)
  with v show ?thesis by blast
qed

lemma missingRequiredArtifacts_unique:
  "missingRequiredArtifacts E w s (uniqueStrings names) = [] \<longleftrightarrow> (\<forall>a \<in> set names. TrimSpace a = [] \<or> artifact_present E w s (TrimSpace a))"
  by (auto simp: missingRequiredArtifacts_def filter_empty_conv set_uniqueStrings) (metis DiffI TrimSpace_idem image_eqI singletonD)

lemma validateCompletion_None:
  assumes "validateCompletion E w s input = None"
  shows "gs_RequireContract (sp_Gates (ss_Spec s)) \<Longrightarrow> ss_contract s \<noteq> None"
    and "check \<in> set (gs_Checks (sp_Gates (ss_Spec s))) \<Longrightarrow> validate_gate E s input check = None"
    and "a \<in> set (ci_RequiredArtifacts input) \<Longrightarrow> TrimSpace a = [] \<or> artifact_present E w s (TrimSpace a)"
    and "ss_contract s = Some c \<Longrightarrow> a \<in> set (ac_RequiredArtifacts c) \<Longrightarrow> TrimSpace a = [] \<or> artifact_present E w s (TrimSpace a)"
  using assms by (auto simp: validateCompletion_def Let_def first_error_None missingRequiredArtifacts_unique split: if_splits option.splits)

text \<open>C10: A team task is completed only when everything it was promised holds: the leader completes it; where the team requires a contract
  there is one; every configured gate has a verdict whose status passes, without a blocking finding, given by the agent whose own
  check has that name, and where its status needs evidence, every required check of the contract is covered by evidence that
  passed (or is itself a gate); and every artifact that the contract or the leader names is present.\<close>

theorem completed_only_when_gates_pass:
  assumes "team_reachable E spec s" "CompleteTask E w from input s = (s', w', None)"
  shows "ss_completed s' \<and> from = sp_EntryAgent spec \<and> (gs_RequireContract (sp_Gates spec) \<longrightarrow> ss_contract s \<noteq> None) \<and>
    (\<forall>check \<in> set (gs_Checks (sp_Gates spec)). \<exists>v own. map_of (ss_gateVerdicts s) (gc_Name check) = Some v \<and> gate_passed E s check v \<and>
       own_check spec (gv_AgentID v) = Some own \<and> gc_Name own = gc_Name check) \<and>
    (\<forall>a \<in> set (ci_RequiredArtifacts input @ (case ss_contract s of None \<Rightarrow> [] | Some c \<Rightarrow> ac_RequiredArtifacts c)).
       TrimSpace a = [] \<or> artifact_present E w s (TrimSpace a))"
proof (cases rule: CompleteTask_cases[of E w "from" input s])
  case (finished s1 w1 exported)
  note inv = reachable_session[OF assms(1)]
  note val = validateCompletion_None[OF finished(4)]
  have gate: "\<exists>v own. map_of (ss_gateVerdicts s) (gc_Name check) = Some v \<and> gate_passed E s check v \<and>
       own_check spec (gv_AgentID v) = Some own \<and> gc_Name own = gc_Name check" if c: "check \<in> set (gs_Checks (sp_Gates spec))" for check
  proof -
    have "validate_gate E s input check = None" using val(2) c inv by simp
    then obtain v where v: "map_of (ss_gateVerdicts s) (gc_Name check) = Some v" "gate_passed E s check v" using validate_gate_None by blast
    then have "verdict_ok spec (gc_Name check) v" using inv by (auto simp: verdicts_ok_def)
    with v show ?thesis by (auto simp: verdict_ok_def)
  qed
  have art: "TrimSpace a = [] \<or> artifact_present E w s (TrimSpace a)"
    if "a \<in> set (ci_RequiredArtifacts input @ (case ss_contract s of None \<Rightarrow> [] | Some c \<Rightarrow> ac_RequiredArtifacts c))" for a
    using that val(3)[of a] val(4)[of _ a] by (cases "ss_contract s") auto
  show ?thesis using assms(2) finished(1,3) inv gate art val(1) by (auto simp: complete_state_core)
qed (use assms(2) in simp_all)

section \<open>Merging by key\<close>

definition index_ok :: "('a \<Rightarrow> string) \<Rightarrow> 'a list \<Rightarrow> (string \<times> nat) list \<Rightarrow> bool" where
  "index_ok key xs index \<longleftrightarrow> (\<forall>k i. map_of index k = Some i \<longrightarrow> i < length xs \<and> key (xs ! i) = k) \<and> (\<forall>x \<in> set xs. map_of index (key x) \<noteq> None)"

lemma index_ok_index_of: "index_ok key xs (index_of key xs)"
proof -
  let ?F = "\<lambda>n. foldl (\<lambda>m i. mput (key (xs ! i)) i m) [] [0..<n]"
  have 1: "map_of (?F n) k = Some i \<Longrightarrow> i < n \<and> key (xs ! i) = k" for n k i
  proof (induction n)
    case (Suc n)
    then show ?case by (cases "k = key (xs ! n)") (auto simp: update_conv')
  qed simp
  have 2: "j < n \<Longrightarrow> map_of (?F n) (key (xs ! j)) \<noteq> None" for n j
  proof (induction n)
    case (Suc n)
    then show ?case by (cases "j = n") (auto simp: update_conv')
  qed simp
  show ?thesis unfolding index_ok_def index_of_def
  proof (intro conjI allI impI ballI)
    fix x assume "x \<in> set xs"
    then obtain j where "j < length xs" "xs ! j = x" by (auto simp: in_set_conv_nth)
    then show "map_of (?F (length xs)) (key x) \<noteq> None" using 2 by blast
  next
    fix k i assume "map_of (?F (length xs)) k = Some i"
    from 1[OF this] show "i < length xs" "key (xs ! i) = k" by blast+
  qed
qed

text \<open>
  A merge that combines items of one key into an item of that key, and never loses a property \<open>P\<close> of either of the two, keeps the key and
  the property of every old and every new item.
\<close>

locale keyed_merge =
  fixes key :: "'a \<Rightarrow> string" and change :: "'a \<Rightarrow> 'a \<Rightarrow> 'a" and P :: "'a \<Rightarrow> bool" and good :: "'a \<Rightarrow> bool"
  assumes key_nonempty: "key x \<noteq> []"
    and change_key: "good old \<Longrightarrow> good new \<Longrightarrow> key old = key new \<Longrightarrow> good (change old new) \<and> key (change old new) = key new"
    and change_P: "P old \<or> P new \<Longrightarrow> P (change old new)"
begin

definition kept :: "'a \<Rightarrow> 'a list \<Rightarrow> bool" where
  "kept x ys \<longleftrightarrow> (\<exists>y \<in> set ys. key y = key x \<and> (P x \<longrightarrow> P y))"

lemma change_at:
  assumes "list_all good merged" "good x" "i < length merged" "key (merged ! i) = key x" "index_ok key merged index"
  shows "list_all good (merged[i := change (merged ! i) x]) \<and> index_ok key (merged[i := change (merged ! i) x]) index \<and>
    kept x (merged[i := change (merged ! i) x]) \<and> (\<forall>z. kept z merged \<longrightarrow> kept z (merged[i := change (merged ! i) x]))"
proof -
  let ?m = "merged[i := change (merged ! i) x]"
  have c: "good (change (merged ! i) x)" "key (change (merged ! i) x) = key x" using change_key assms by (simp_all add: list_all_length)
  have at: "?m ! i = change (merged ! i) x" using assms(3) by simp
  have mem: "change (merged ! i) x \<in> set ?m" using assms(3) by (simp add: set_update_memI)
  have keys: "j < length merged \<Longrightarrow> key (?m ! j) = key (merged ! j)" for j using c(2) assms(4) by (cases "j = i") simp_all
  have "index_ok key ?m index" unfolding index_ok_def
  proof (intro conjI allI impI ballI)
    fix k j assume "map_of index k = Some j"
    then have "j < length merged" "key (merged ! j) = k" using assms(5) by (auto simp: index_ok_def)
    then show "j < length ?m" "key (?m ! j) = k" using keys by simp_all
  next
    fix y assume "y \<in> set ?m"
    then obtain j where "j < length merged" "y = ?m ! j" by (auto simp: in_set_conv_nth)
    then show "map_of index (key y) \<noteq> None" using keys[of j] assms(5) nth_mem[of j merged] by (simp add: index_ok_def)
  qed
  moreover have "kept x ?m" unfolding kept_def using mem c(2) change_P by blast
  moreover have "kept z ?m" if z: "kept z merged" for z
  proof -
    obtain j where j: "j < length merged" "key (merged ! j) = key z" "P z \<longrightarrow> P (merged ! j)" using z by (auto simp: kept_def in_set_conv_nth)
    have "P z \<longrightarrow> P (?m ! j)" using j change_P[of "merged ! i" x] assms(3) by (cases "j = i") simp_all
    then show ?thesis unfolding kept_def using j keys[OF j(1)] by (intro bexI[of _ "?m ! j"]) simp_all
  qed
  ultimately show ?thesis using assms(1,3) c(1) by (auto simp: list_all_length nth_list_update)
qed

lemma merge_from_keeps:
  assumes "index_ok key merged index" "list_all good merged" "list_all good xs"
  shows "(\<forall>z. kept z merged \<longrightarrow> kept z (merge_from key change merged index xs)) \<and> (\<forall>x \<in> set xs. kept x (merge_from key change merged index xs))"
  using assms
proof (induction xs arbitrary: merged index)
  case (Cons x xs)
  show ?case
  proof (cases "map_of index (key x)")
    case None
    have "index_ok key (merged @ [x]) (mput (key x) (length merged) index)"
      using Cons.prems(1) None by (auto simp: index_ok_def update_conv' nth_append less_Suc_eq)
    note ih = Cons.IH[OF this] 
    have "kept z merged \<Longrightarrow> kept z (merged @ [x])" "kept x (merged @ [x])" for z by (auto simp: kept_def)
    then show ?thesis using ih Cons.prems None key_nonempty by auto
  next
    case (Some i)
    have i: "i < length merged" "key (merged ! i) = key x" using Some Cons.prems(1) by (auto simp: index_ok_def)
    note c = change_at[OF Cons.prems(2) _ i Cons.prems(1)]
    show ?thesis using Cons.IH[of "merged[i := change (merged ! i) x]" index] c Cons.prems Some key_nonempty by auto
  qed
qed simp

lemma merge_keeps:
  assumes "list_all good existing" "list_all good xs" "x \<in> set existing \<union> set xs"
  shows "\<exists>y \<in> set (merge_keyed key change existing xs). key y = key x \<and> (P x \<longrightarrow> P y)"
proof -
  have "x \<in> set existing \<Longrightarrow> kept x existing" by (auto simp: kept_def)
  then have "kept x (merge_keyed key change existing xs)"
    using merge_from_keeps[OF index_ok_index_of assms(1,2)] assms(3) by (auto simp: merge_keyed_def)
  then show ?thesis by (simp add: kept_def)
qed

end

text \<open>The parts of a key are told apart as long as the names do not contain the separator.\<close>

definition plain_check :: "(string \<Rightarrow> string) \<Rightarrow> ContractCheck \<Rightarrow> bool" where
  "plain_check lower c \<longleftrightarrow> list_all (\<lambda>p. CHR 0x00 \<notin> set (normalizeEvidenceKey lower p)) [ck_Name c, ck_Command c, ck_CWD c]"

lemma joined_key_nonempty: "joined_key [a, b, c] \<noteq> []"
  by (simp add: joined_key_def)

lemma joined_key_inject:
  assumes "joined_key ps = joined_key qs" "ps \<noteq> []" "qs \<noteq> []" "list_all (\<lambda>p. CHR 0x00 \<notin> set p) ps" "list_all (\<lambda>p. CHR 0x00 \<notin> set p) qs"
  shows "ps = qs"
proof -
  have "split_on (CHR 0x00) (joined_key ps) = ps" unfolding joined_key_def using assms(2,4) by (intro split_join) (auto simp: list_all_iff)
  moreover have "split_on (CHR 0x00) (joined_key qs) = qs" unfolding joined_key_def using assms(3,5) by (intro split_join) (auto simp: list_all_iff)
  ultimately show ?thesis using assms(1) by metis
qed

lemma merge_check_key:
  assumes "plain_check lower old" "plain_check lower new" "contractCheckKey lower old = contractCheckKey lower new"
  shows "plain_check lower (merge_check old new) \<and> contractCheckKey lower (merge_check old new) = contractCheckKey lower new"
proof -
  have "map (normalizeEvidenceKey lower) [ck_Name old, ck_Command old, ck_CWD old] = map (normalizeEvidenceKey lower) [ck_Name new, ck_Command new, ck_CWD new]"
    by (rule joined_key_inject) (use assms in \<open>simp_all add: contractCheckKey_def plain_check_def\<close>)
  then have "map (normalizeEvidenceKey lower) [ck_Name (merge_check old new), ck_Command (merge_check old new), ck_CWD (merge_check old new)] =
      map (normalizeEvidenceKey lower) [ck_Name new, ck_Command new, ck_CWD new]" by (simp add: merge_check_def)
  then show ?thesis using assms(2) by (simp add: contractCheckKey_def plain_check_def)
qed

interpretation contract_checks: keyed_merge "contractCheckKey lower" merge_check ck_Required "plain_check lower" for lower
  by unfold_locales (use merge_check_key in \<open>auto simp: contractCheckKey_def joined_key_nonempty merge_check_def\<close>)

interpretation gate_evidence: keyed_merge "gateEvidenceKey lower" "\<lambda>_ e. e" "\<lambda>_. True" "\<lambda>_. True" for lower
  by unfold_locales (simp_all add: gateEvidenceKey_def joined_key_nonempty)

lemma mergeContractChecks_keeps:
  assumes "list_all (plain_check lower) (existing @ new)" "ck \<in> set (existing @ new)" "ck_Required ck"
  shows "\<exists>ck' \<in> set (mergeContractChecks lower existing new). contractCheckKey lower ck' = contractCheckKey lower ck \<and> ck_Required ck'"
  using contract_checks.merge_keeps[of lower existing new ck] assms by (auto simp: mergeContractChecks_def)

text \<open>Evidence accumulates over the verdicts of one status: what was submitted once stays, in its latest form.\<close>

lemma mergeGateEvidence_keeps:
  "e \<in> set (existing @ new) \<Longrightarrow> \<exists>e' \<in> set (mergeGateEvidence lower existing new). gateEvidenceKey lower e' = gateEvidenceKey lower e"
  using gate_evidence.merge_keeps[of existing new e lower] by (auto simp: mergeGateEvidence_def list_all_iff)

section \<open>Contracts\<close>

definition keeps_texts :: "string list \<Rightarrow> string list \<Rightarrow> bool" where
  "keeps_texts old new \<longleftrightarrow> (\<forall>t \<in> set old. TrimSpace t \<noteq> [] \<longrightarrow> TrimSpace t \<in> set new)"

definition keeps_checks :: "(string \<Rightarrow> string) \<Rightarrow> ContractCheck list \<Rightarrow> ContractCheck list \<Rightarrow> bool" where
  "keeps_checks lower old new \<longleftrightarrow>
     (\<forall>ck \<in> set old. ck_Required ck \<longrightarrow> (\<exists>ck' \<in> set new. contractCheckKey lower ck' = contractCheckKey lower ck \<and> ck_Required ck'))"

lemma keeps_texts_unique: "keeps_texts (xs @ ys) (uniqueStrings (xs @ nonEmptyStrings ys))"
  by (auto simp: keeps_texts_def set_uniqueStrings nonEmptyStrings_def)

text \<open>The three parts of a check's key are joined with a NUL byte that they may contain themselves. Two different checks can then have one key,
  and the merge, which fills the empty fields of the first from the second, leaves a check with neither's key.\<close>

lemma nul_in_a_check_loses_it:
  "\<exists>old new. ck_Required old \<and> contractCheckKey (\<lambda>s. s) old = contractCheckKey (\<lambda>s. s) new \<and>
     \<not> keeps_checks (\<lambda>s. s) [old] (mergeContractChecks (\<lambda>s. s) [old] [new])"
proof -
  let ?old = "\<lparr>ck_Name = ''a'', ck_Command = [], ck_CWD = ''b'' @ [CHR 0x00], ck_Required = True\<rparr>"
  let ?new = "\<lparr>ck_Name = ''a'' @ [CHR 0x00], ck_Command = ''b'', ck_CWD = [], ck_Required = False\<rparr>"
  have "contractCheckKey (\<lambda>s. s) ?old = contractCheckKey (\<lambda>s. s) ?new"
    "\<not> keeps_checks (\<lambda>s. s) [?old] (mergeContractChecks (\<lambda>s. s) [?old] [?new])" by code_simp+
  then show ?thesis by (intro exI[of _ ?old] exI[of _ ?new]) simp
qed

text \<open>C17: A contract that is recorded again loses nothing: every requirement, boundary, artifact and criterion of the old contract and of
  the new text is in the new contract, and every check that either of them requires is required under the same key, provided that no name,
  command or working directory of the checks contains a NUL byte after normalization: the keys are joined with that byte, and without the proviso
  a check can be lost (nul_in_a_check_loses_it).\<close>

theorem contract_only_grows:
  assumes "RecordContract E w from input s = (s', True)" "ss_contract s = Some c"
  shows "\<exists>c'. ss_contract s' = Some c' \<and>
    keeps_texts (ac_UserRequirements c @ ac_UserRequirements input) (ac_UserRequirements c') \<and>
    keeps_texts (ac_ComponentBoundaries c @ ac_ComponentBoundaries input) (ac_ComponentBoundaries c') \<and>
    keeps_texts (ac_RequiredArtifacts c @ ac_RequiredArtifacts input) (ac_RequiredArtifacts c') \<and>
    keeps_texts (ac_CompletionCriteria c @ ac_CompletionCriteria input) (ac_CompletionCriteria c') \<and>
    (list_all (plain_check (te_lower E)) (ac_RequiredCommands c @ ac_RequiredCommands input) \<longrightarrow>
      keeps_checks (te_lower E) (ac_RequiredCommands c @ ac_RequiredCommands input) (ac_RequiredCommands c')) \<and>
    (list_all (plain_check (te_lower E)) (ac_IntegrationSmokes c @ ac_IntegrationSmokes input) \<longrightarrow>
      keeps_checks (te_lower E) (ac_IntegrationSmokes c @ ac_IntegrationSmokes input) (ac_IntegrationSmokes c'))"
proof -
  have leader: "from = sp_EntryAgent (ss_Spec s)" using assms(1) by (auto simp: RecordContract_def Let_def split: if_splits)
  note checks = mergeContractChecks_keeps[of "te_lower E" "ac_RequiredCommands c" "ac_RequiredCommands input"]
    mergeContractChecks_keeps[of "te_lower E" "ac_IntegrationSmokes c" "ac_IntegrationSmokes input"]
  have "s' = fst (RecordContract E w from input s)" using assms(1) by simp
  then show ?thesis using leader assms(2) checks
    by (simp add: RecordContract_def Let_def appendDialogue_def core_fields[OF core_register] mergeAcceptanceContract_def keeps_texts_unique keeps_checks_def)
qed

section \<open>Agents with several gates\<close>

text \<open>The role of a verdict is ignored, an agent always speaks for the first check that names it. So a team in which one agent has two
  gates never completes a task: no order of operations gives the second gate a verdict, and completion is always refused.\<close>

theorem second_gate_of_an_agent_is_never_passed:
  assumes "team_reachable E spec s" "gs_Checks (sp_Gates spec) = xs @ c1 # ys @ c2 # zs" "gc_Agent c1 = gc_Agent c2"
    and "distinct (map gc_Name (gs_Checks (sp_Gates spec)))"
  shows "map_of (ss_gateVerdicts s) (gc_Name c2) = None \<and> snd (snd (CompleteTask E w from input s)) \<noteq> None"
proof -
  note inv = reachable_session[OF assms(1)]
  have none: "map_of (ss_gateVerdicts s) (gc_Name c2) = None"
  proof (rule ccontr)
    assume "map_of (ss_gateVerdicts s) (gc_Name c2) \<noteq> None"
    then obtain v where "map_of (ss_gateVerdicts s) (gc_Name c2) = Some v" by auto
    then have "verdict_ok spec (gc_Name c2) v" using inv by (auto simp: verdicts_ok_def)
    then obtain c where c: "own_check spec (gv_AgentID v) = Some c" "gc_Name c = gc_Name c2" by (auto simp: verdict_ok_def)
    have "c \<in> set (gs_Checks (sp_Gates spec))" using c(1) by (auto simp: own_check_def find_Some_iff)
    moreover have "c2 \<in> set (gs_Checks (sp_Gates spec))" using assms(2) by simp
    moreover have "inj_on gc_Name (set (gs_Checks (sp_Gates spec)))" using assms(4) by (simp add: distinct_map)
    ultimately have "c = c2" using c(2) by (simp add: inj_onD)
    then have c2: "find (\<lambda>x. gc_Agent x = gv_AgentID v) (xs @ c1 # ys @ c2 # zs) = Some c2" using c(1) assms(2) by (simp add: own_check_def)
    then have "gc_Agent c2 = gv_AgentID v" by (auto simp: find_Some_iff)
    moreover have "c1 \<noteq> c2" using assms(2,4) by auto
    moreover have "c2 \<notin> set xs" using assms(2,4) by auto
    ultimately show False using c2 assms(3) by (induction xs) (auto split: if_splits)
  qed
  have "c2 \<in> set (gs_Checks (sp_Gates (ss_Spec s)))" using assms(2) inv by simp
  then have "validateCompletion E w s input \<noteq> None" using validateCompletion_None(2)[of E w s input c2] validate_gate_None[of E s input c2] none by auto
  then show ?thesis using none by (cases rule: CompleteTask_cases[of E w "from" input s]) auto
qed

text \<open>
  A status with blanks around it is accepted with a verdict, which trims it for its checks, but stored as it is; completion compares it
  with the leader's trimmed status and refuses.
\<close>

definition trimmed :: "(string \<times> string) list \<Rightarrow> bool" where
  "trimmed m \<longleftrightarrow> (\<forall>k v. map_of m k = Some v \<longrightarrow> TrimSpace v = v)"

lemma trimmed_mput: "trimmed m \<Longrightarrow> trimmed (mput k (TrimSpace v) m)"
  by (auto simp: trimmed_def update_conv' split: if_splits)

lemma trimmed_statuses: "trimmed (completionGateStatuses input)"
proof -
  have "trimmed m \<Longrightarrow> trimmed (foldl (\<lambda>m e. if TrimSpace (fst e) \<noteq> [] \<and> TrimSpace (snd e) \<noteq> [] then mput (TrimSpace (fst e)) (TrimSpace (snd e)) m else m) m xs)"
    for m and xs :: "(string \<times> string) list"
    by (induction xs arbitrary: m) (simp_all add: trimmed_mput)
  moreover have "trimmed []" by (simp add: trimmed_def)
  ultimately show ?thesis by (simp add: completionGateStatuses_def)
qed

lemma completionGateStatus_trimmed: "TrimSpace (completionGateStatus input name) = completionGateStatus input name"
  using trimmed_statuses[of input] by (cases "map_of (completionGateStatuses input) name") (simp_all add: trimmed_def completionGateStatus_def mget_def)

lemma blank_status_never_completes:
  assumes "map_of (ss_gateVerdicts s) (gc_Name check) = Some v" "TrimSpace (gv_Status v) \<noteq> gv_Status v"
  shows "validate_gate E s input check \<noteq> None"
  using assms completionGateStatus_trimmed[of input "gc_Name check"] by (auto simp: validate_gate_def Let_def)

section \<open>Tasks\<close>

text \<open>C15: Whatever agents, leader and user do in whatever order, an agent has at most one live task, an agent has an active entry exactly when it
  has a live task, and a task that has ended keeps its status, result and error for ever.\<close>

theorem one_live_task_per_agent:
  assumes "team_reachable E spec s"
  shows "(\<forall>k1 k2 t1 t2. live_task s k1 = Some t1 \<and> live_task s k2 = Some t2 \<and> tt_To t1 = tt_To t2 \<longrightarrow> k1 = k2) \<and>
    (\<forall>agent. snd (activeA2ATask agent s) = None \<longleftrightarrow> (\<forall>key task. live_task s key = Some task \<longrightarrow> tt_To task \<noteq> agent)) \<and>
    (\<forall>s' key task. (team_step E)\<^sup>*\<^sup>* s s' \<and> ended key task s \<longrightarrow> ended key task s')"
proof (intro conjI allI impI)
  note ok = reachable_session[OF assms, THEN conjunct2, THEN conjunct2]
  fix k1 k2 t1 t2 assume a: "live_task s k1 = Some t1 \<and> live_task s k2 = Some t2 \<and> tt_To t1 = tt_To t2"
  then show "k1 = k2" using tasks_okD(2)[OF ok, of k1 t1] tasks_okD(2)[OF ok, of k2 t2] live_taskD[of s k1 t1] live_taskD[of s k2 t2] by simp
next
  note ok = reachable_session[OF assms, THEN conjunct2, THEN conjunct2]
  fix agent
  have act: "snd (activeA2ATask agent s) = (case map_of (ss_agentActiveA2A s) agent of None \<Rightarrow> None | Some key \<Rightarrow> map_of (ss_a2aTasks s) key)"
    by (simp add: activeA2ATask_ok[OF ok])
  show "(snd (activeA2ATask agent s) = None) = (\<forall>key task. live_task s key = Some task \<longrightarrow> tt_To task \<noteq> agent)"
  proof (cases "map_of (ss_agentActiveA2A s) agent")
    case None
    then show ?thesis using act tasks_okD(2)[OF ok] live_taskD by fastforce
  next
    case (Some key)
    then obtain task where "map_of (ss_a2aTasks s) key = Some task" "tt_To task = agent" "\<not> isTerminalA2AStatus (tt_Status task)"
      using tasks_okD(3)[OF ok] by blast
    then have "live_task s key = Some task \<and> tt_To task = agent" by (simp add: live_task_def)
    then show ?thesis using act Some live_taskD by fastforce
  qed
next
  fix s' key task assume a: "(team_step E)\<^sup>*\<^sup>* s s' \<and> ended key task s"
  from a[THEN conjunct1] have "tasks_ok s' \<and> ended key task s'"
  proof (induction rule: rtranclp_induct)
    case base
    then show ?case using a reachable_session[OF assms] by blast
  next
    case (step s1 s2)
    then show ?case using team_step_tasks[OF step(2)] by blast
  qed
  then show "ended key task s'" ..
qed

section \<open>A small team\<close>

definition sample_env :: "unit team_env" where
  "sample_env =
     \<lparr>te_lower = (\<lambda>s. s), te_stat = (\<lambda>_ p. if p = ''/w/report.md'' then Some False else None), te_glob = (\<lambda>_ _. []),
      te_firstLine = (\<lambda>_ _. ''Report''), te_mkdir = (\<lambda>_ w. (None, w)), te_copy = (\<lambda>_ _ w. (None, w)),
      te_files = \<lparr>cwd = Some ''/w'', evalSymlinks = Some\<rparr>, te_uuid = (\<lambda>_. ''0123456789''), te_now = ''t''\<rparr>"

definition sample_check :: "string \<Rightarrow> TeamGateCheckSpec" where
  "sample_check name =
     \<lparr>gc_Name = name, gc_Agent = ''qa'', gc_PassStatuses = [''pass''], gc_AllowedStatuses = [''pass'', ''fail''],
      gc_EvidenceRequiredStatuses = [''pass''], gc_FindingsRequiredStatuses = [''fail''], gc_BlockingFindingsFail = True\<rparr>"

definition sample_team :: "TeamGateCheckSpec list \<Rightarrow> TeamSpec" where
  "sample_team checks =
     \<lparr>sp_Name = ''team'', sp_EntryAgent = ''lead'', sp_RequireFinalArtifact = True,
      sp_Gates = \<lparr>gs_RequireContract = True, gs_NonblockingFindings = ''allow_complete'', gs_DeferralRequiresReason = False, gs_Checks = checks\<rparr>,
      sp_Output = \<lparr>os_ExportToWorkdir = False, os_Directory = [], os_Artifacts = []\<rparr>\<rparr>"

definition sample_contract :: AcceptanceContract where
  "sample_contract =
     \<lparr>ac_ProjectRoot = ''/w'', ac_UserRequirements = [''a report''], ac_ComponentBoundaries = [], ac_IntegrationContract = [],
      ac_RequiredArtifacts = [''report.md''], ac_RequiredCommands = [\<lparr>ck_Name = ''unit tests'', ck_Command = ''go test'', ck_CWD = [], ck_Required = True\<rparr>],
      ac_IntegrationSmokes = [], ac_CompletionCriteria = [], ac_CreatedAt = [], ac_UpdatedAt = []\<rparr>"

definition sample_verdict :: GateVerdict where
  "sample_verdict =
     \<lparr>gv_Role = ''qa'', gv_AgentID = [], gv_Status = ''pass'', gv_Summary = ''ok'',
      gv_Evidence = [\<lparr>ge_Name = ''unit-tests'', ge_Command = ''go test'', ge_CWD = [], ge_Passed = True, ge_OutputSummary = []\<rparr>],
      gv_Findings = [], gv_CreatedAt = []\<rparr>"

definition sample_input :: CompleteTeamTaskInput where
  "sample_input =
     \<lparr>ci_FinalAnswer = ''done'', ci_GateStatuses = [(''qa'', ''pass'')], ci_RequiredArtifacts = [''report.md''], ci_DeferralReasons = [], ci_Summary = []\<rparr>"

definition sample_started :: "TeamGateCheckSpec list \<Rightarrow> Session" where
  "sample_started checks = fst (RecordContract sample_env () ''lead'' sample_contract (NewSession ''s'' ''/w'' [] (sample_team checks) []))"

definition sample_ready :: Session where
  "sample_ready = fst (SubmitGateVerdict sample_env (\<lambda>s. s) () ''qa'' sample_verdict (sample_started [sample_check ''qa'']))"

lemma env_id: "E\<lparr>te_now := te_now E, te_uuid := te_uuid E\<rparr> = E"
  by simp

lemma sample_started_reachable: "team_reachable sample_env (sample_team checks) (sample_started checks)"
  unfolding sample_started_def
  by (rule team_reachable.step[OF team_reachable.start]) (rule team_step.contract[of sample_env _ "te_uuid sample_env" "te_now sample_env", unfolded env_id])

lemma sample_ready_reachable: "team_reachable sample_env (sample_team [sample_check ''qa'']) sample_ready"
  unfolding sample_ready_def
  by (rule team_reachable.step[OF sample_started_reachable]) (rule team_step.verdict[of sample_env _ "te_uuid sample_env" "te_now sample_env", unfolded env_id])

theorem completed_only_when_gates_pass_witness:
  "snd (snd (CompleteTask sample_env () ''lead'' sample_input sample_ready)) = None \<and>
   ss_completed (fst (CompleteTask sample_env () ''lead'' sample_input sample_ready)) \<and> ss_contract sample_ready \<noteq> None"
proof -
  have c: "snd (snd (CompleteTask sample_env () ''lead'' sample_input sample_ready)) = None" by code_simp
  let ?r = "CompleteTask sample_env () ''lead'' sample_input sample_ready"
  have "?r = (fst ?r, fst (snd ?r), None)" using c by (metis prod.collapse)
  from completed_only_when_gates_pass[OF sample_ready_reachable this] show ?thesis using c by (simp add: sample_team_def)
qed

theorem second_gate_of_an_agent_is_never_passed_witness:
  "snd (snd (CompleteTask sample_env () ''lead'' sample_input (sample_started [sample_check ''qa'', sample_check ''security'']))) \<noteq> None"
proof -
  have "gs_Checks (sp_Gates (sample_team [sample_check ''qa'', sample_check ''security''])) = [] @ sample_check ''qa'' # [] @ sample_check ''security'' # []"
    "distinct (map gc_Name (gs_Checks (sp_Gates (sample_team [sample_check ''qa'', sample_check ''security'']))))"
    "gc_Agent (sample_check ''qa'') = gc_Agent (sample_check ''security'')" by (simp_all add: sample_team_def sample_check_def)
  from second_gate_of_an_agent_is_never_passed[OF sample_started_reachable this(1,3,2)] show ?thesis by blast
qed

theorem contract_only_grows_witness:
  "keeps_texts [''a report''] (case ss_contract (fst (RecordContract sample_env () ''lead'' (sample_contract\<lparr>ac_UserRequirements := []\<rparr>) (sample_started []))) of
     None \<Rightarrow> [] | Some c' \<Rightarrow> ac_UserRequirements c') \<and>
   keeps_checks (te_lower sample_env) (ac_RequiredCommands sample_contract)
     (case ss_contract (fst (RecordContract sample_env () ''lead'' (sample_contract\<lparr>ac_UserRequirements := []\<rparr>) (sample_started []))) of
     None \<Rightarrow> [] | Some c' \<Rightarrow> ac_RequiredCommands c')"
proof -
  let ?r = "RecordContract sample_env () ''lead'' (sample_contract\<lparr>ac_UserRequirements := []\<rparr>) (sample_started [])"
  let ?c = "the (ss_contract (sample_started []))"
  have "snd ?r" "ss_contract (sample_started []) \<noteq> None" "ac_UserRequirements ?c = [''a report'']" by code_simp+
  then have a: "?r = (fst ?r, True)" "ss_contract (sample_started []) = Some ?c" by (simp_all add: prod_eq_iff)
  have "list_all (plain_check (te_lower sample_env)) (ac_RequiredCommands ?c @ ac_RequiredCommands (sample_contract\<lparr>ac_UserRequirements := []\<rparr>))"
    by code_simp
  with contract_only_grows[OF a] obtain c' where "ss_contract (fst ?r) = Some c'"
    "keeps_texts (ac_UserRequirements ?c @ ac_UserRequirements (sample_contract\<lparr>ac_UserRequirements := []\<rparr>)) (ac_UserRequirements c')"
    "keeps_checks (te_lower sample_env) (ac_RequiredCommands ?c @ ac_RequiredCommands (sample_contract\<lparr>ac_UserRequirements := []\<rparr>)) (ac_RequiredCommands c')"
    by blast
  then show ?thesis using \<open>ac_UserRequirements ?c = [''a report'']\<close> by (simp add: keeps_checks_def)
qed

definition sample_busy :: Session where
  "sample_busy = fst (beginA2ATask ''t1'' ''lead'' ''qa'' ''review'' [] (sample_started []))"

lemma sample_busy_reachable: "team_reachable sample_env (sample_team []) sample_busy"
  unfolding sample_busy_def
proof (rule team_reachable.step[OF sample_started_reachable], rule team_step.begin_task)
  show "CHR 0x00 \<notin> set ''t1''" by simp
  show "map_of (ss_a2aTasks (sample_started [])) (a2aTaskKey ''t1'' ''qa'') = None" by code_simp
qed

theorem one_live_task_per_agent_witness:
  "live_task sample_busy (a2aTaskKey ''t1'' ''qa'') \<noteq> None \<and> snd (activeA2ATask ''qa'' sample_busy) \<noteq> None"
proof -
  obtain task where t: "live_task sample_busy (a2aTaskKey ''t1'' ''qa'') = Some task" "tt_To task = ''qa''"
  proof -
    have "map_option tt_To (live_task sample_busy (a2aTaskKey ''t1'' ''qa'')) = Some ''qa''" by code_simp
    then show ?thesis using that by auto
  qed
  then show ?thesis using one_live_task_per_agent[OF sample_busy_reachable, THEN conjunct2, THEN conjunct1] by auto
qed

text \<open>Findings that say the opposite of being resolved count as resolved, because a marker occurs in them.\<close>

lemma marked_finding_is_resolved:
  assumes "TrimSpace (gf_Summary f @ '' '' @ gf_Details f) = txt" "m \<in> set resolvedMarkers" "m \<noteq> []" "Contains txt m"
  shows "isResolvedGateFinding (\<lambda>s. s) f"
  using assms by (auto simp: isResolvedGateFinding_def list_ex_iff Contains_def)

lemma unresolved_counts_as_resolved:
  "isResolvedGateFinding (\<lambda>s. s) \<lparr>gf_Category = ''bug'', gf_Summary = ''crash is not fixed'', gf_Details = [], gf_Blocking = False\<rparr>"
  "isResolvedGateFinding (\<lambda>s. s) \<lparr>gf_Category = ''bug'', gf_Summary = ''unresolved crash'', gf_Details = [], gf_Blocking = False\<rparr>"
  by (rule marked_finding_is_resolved[of _ "''crash is not fixed''" "''fixed''"], code_simp, simp add: resolvedMarkers_def, simp, code_simp)
    (rule marked_finding_is_resolved[of _ "''unresolved crash''" "''resolved''"], code_simp, simp add: resolvedMarkers_def, simp, code_simp)

end
