(* ===== verification/Go_Glob.thy ===== *)
theory Go_Glob
  imports Go_Text
begin

text \<open>
  Runes of byte strings and the file name patterns of Go's \<open>path/filepath\<close>.
\<close>

section \<open>Runes\<close>

text \<open>\<open>utf8.DecodeRuneInString\<close>: the rune at the front and its width; an invalid encoding is the rune U+FFFD of width 1.\<close>

definition byte_between :: "nat \<Rightarrow> nat \<Rightarrow> char \<Rightarrow> bool" where
  "byte_between lo hi c \<longleftrightarrow> lo \<le> of_char c \<and> of_char c \<le> hi"

definition tail_byte :: "string \<Rightarrow> nat \<Rightarrow> bool" where
  "tail_byte s i \<longleftrightarrow> i < length s \<and> byte_between 128 191 (s ! i)"

definition low_bits :: "nat \<Rightarrow> char \<Rightarrow> nat" where
  "low_bits n c = of_char c mod n"

definition DecodeRune :: "string \<Rightarrow> nat \<times> nat" where
  "DecodeRune s =
     (case s of [] \<Rightarrow> (65533, 0)
      | a # _ \<Rightarrow>
          if byte_between 0 127 a then (of_char a, 1)
          else if byte_between 194 223 a \<and> tail_byte s 1 then (low_bits 32 a * 64 + low_bits 64 (s ! 1), 2)
          else if byte_between 224 239 a \<and> tail_byte s 1 \<and> tail_byte s 2 \<and> (of_char a = (224 :: nat) \<longrightarrow> byte_between 160 191 (s ! 1)) \<and>
                  (of_char a = (237 :: nat) \<longrightarrow> byte_between 128 159 (s ! 1))
          then (low_bits 16 a * 4096 + low_bits 64 (s ! 1) * 64 + low_bits 64 (s ! 2), 3)
          else if byte_between 240 244 a \<and> tail_byte s 1 \<and> tail_byte s 2 \<and> tail_byte s 3 \<and>
                  (of_char a = (240 :: nat) \<longrightarrow> byte_between 144 191 (s ! 1)) \<and> (of_char a = (244 :: nat) \<longrightarrow> byte_between 128 143 (s ! 1))
          then (low_bits 8 a * 262144 + low_bits 64 (s ! 1) * 4096 + low_bits 64 (s ! 2) * 64 + low_bits 64 (s ! 3), 4)
          else (65533, 1))"

definition rune_width :: "string \<Rightarrow> nat" where
  "rune_width s = snd (DecodeRune s)"

lemma rune_width_bounds: "s \<noteq> [] \<Longrightarrow> 0 < rune_width s \<and> rune_width s \<le> length s"
  by (cases s) (auto simp: rune_width_def DecodeRune_def tail_byte_def Suc_le_eq)

lemma rune_width_ascii: "byte_between 0 127 a \<Longrightarrow> rune_width (a # s) = 1"
  by (simp add: rune_width_def DecodeRune_def)

section \<open>Patterns\<close>

text \<open>
  \<open>filepath.Match\<close> on Unix, as far as its callers look at it: whether the pattern is well formed and matches. A pattern is taken apart
  into chunks between stars; \<open>match_chunk\<close> gives the rest of the name after a chunk. A malformed chunk matches nowhere.
\<close>

fun chunk_len :: "bool \<Rightarrow> string \<Rightarrow> nat" where
  "chunk_len inrange [] = 0"
| "chunk_len inrange [c] = (if c = CHR ''*'' \<and> \<not> inrange then 0 else 1)"
| "chunk_len inrange (c # d # cs) =
     (if c = CHR 0x5C then 2 + chunk_len inrange cs
      else if c = CHR ''['' then 1 + chunk_len True (d # cs)
      else if c = CHR '']'' then 1 + chunk_len False (d # cs)
      else if c = CHR ''*'' \<and> \<not> inrange then 0
      else 1 + chunk_len inrange (d # cs))"

definition scanChunk :: "string \<Rightarrow> bool \<times> string \<times> string" where
  "scanChunk pattern =
     (let p = dropWhile (\<lambda>c. c = CHR ''*'') pattern; n = chunk_len False p in (pattern \<noteq> [] \<and> hd pattern = CHR ''*'', take n p, drop n p))"

definition getEsc :: "string \<Rightarrow> (nat \<times> string) option" where
  "getEsc chunk =
     (if chunk = [] \<or> hd chunk = CHR ''-'' \<or> hd chunk = CHR '']'' then None
      else let c = (if hd chunk = CHR 0x5C then tl chunk else chunk); (r, n) = DecodeRune c in
        if c = [] \<or> (r = 65533 \<and> n = 1) \<or> drop n c = [] then None else Some (r, drop n c))"

lemma getEsc_length: "getEsc chunk = Some (r, rest) \<Longrightarrow> length rest < length chunk"
proof (cases chunk)
  case (Cons c cs)
  let ?c = "if c = CHR 0x5C then cs else chunk"
  assume "getEsc chunk = Some (r, rest)"
  then have "rest = drop (rune_width ?c) ?c" "?c \<noteq> []" using Cons by (auto simp: getEsc_def Let_def rune_width_def split: if_splits prod.splits)
  moreover have "0 < rune_width ?c" using rune_width_bounds[OF \<open>?c \<noteq> []\<close>] by blast
  ultimately show ?thesis using Cons by (auto split: if_splits)
qed (simp add: getEsc_def)

text \<open>The ranges of a character class: whether the rune is in one of them, and the chunk after the closing bracket.\<close>

function class_ranges :: "nat \<Rightarrow> bool \<Rightarrow> bool \<Rightarrow> string \<Rightarrow> (bool \<times> string) option" where
  "class_ranges r found some chunk =
     (if chunk \<noteq> [] \<and> hd chunk = CHR '']'' \<and> some then Some (found, tl chunk)
      else case getEsc chunk of
        None \<Rightarrow> None
      | Some (lo, c1) \<Rightarrow>
          if hd c1 = CHR ''-'' then
            (case getEsc (tl c1) of
               None \<Rightarrow> None
             | Some (hi, c2) \<Rightarrow> class_ranges r (found \<or> lo \<le> r \<and> r \<le> hi) True c2)
          else class_ranges r (found \<or> lo = r) True c1)"
  by pat_completeness auto
termination
proof (relation "measure (\<lambda>(r, found, some, chunk). length chunk)", goal_cases)
  case (2 r found some chunk x lo c1 y hi c2)
  then show ?case using getEsc_length[of chunk lo c1] getEsc_length[of "tl c1" hi c2] by (auto simp: less_le_trans)
qed (auto dest: getEsc_length)

declare class_ranges.simps [simp del]

lemma class_ranges_length: "class_ranges r found some chunk = Some (b, rest) \<Longrightarrow> length rest < length chunk"
proof (induction r found some chunk arbitrary: b rest rule: class_ranges.induct)
  case (1 r found some chunk)
  show ?case
  proof (cases "chunk \<noteq> [] \<and> hd chunk = CHR '']'' \<and> some")
    case True
    then have "rest = tl chunk" "chunk \<noteq> []" using "1.prems" class_ranges.simps[of r found some chunk] by simp_all
    then show ?thesis by simp
  next
    case False
    then obtain lo c1 where g: "getEsc chunk = Some (lo, c1)" using "1.prems" by (auto simp: class_ranges.simps[of r found some] split: option.splits)
    show ?thesis
    proof (cases "hd c1 = CHR ''-''")
      case True
      then obtain hi c2 where h: "getEsc (tl c1) = Some (hi, c2)" using "1.prems" False g by (auto simp: class_ranges.simps[of r found some chunk] split: option.splits if_splits)
      then have "class_ranges r (found \<or> lo \<le> r \<and> r \<le> hi) True c2 = Some (b, rest)" using "1.prems" False g True by (simp add: class_ranges.simps[of r found some chunk])
      then have "length rest < length c2" using "1.IH"(1)[OF False g refl True h refl] by blast
      then show ?thesis using getEsc_length[OF g] getEsc_length[OF h] by simp
    next
      case plain: False
      then have "class_ranges r (found \<or> lo = r) True c1 = Some (b, rest)" using "1.prems" False g by (auto simp: class_ranges.simps[of r found some chunk] split: if_splits)
      then have "length rest < length c1" using "1.IH"(2)[OF False g refl plain] by blast
      then show ?thesis using getEsc_length[OF g] by simp
    qed
  qed
qed

function match_chunk :: "string \<Rightarrow> string \<Rightarrow> string option" where
  "match_chunk chunk s =
     (case chunk of [] \<Rightarrow> Some s
      | c # cs \<Rightarrow>
          if s = [] then None
          else if c = CHR ''['' then
            (let neg = (cs \<noteq> [] \<and> hd cs = CHR ''^''); (r, n) = DecodeRune s in
             case class_ranges r False False (if neg then tl cs else cs) of
               None \<Rightarrow> None
             | Some (found, rest) \<Rightarrow> if found = neg then None else match_chunk rest (drop n s))
          else if c = CHR ''?'' then (if hd s = slash then None else match_chunk cs (drop (rune_width s) s))
          else if c = CHR 0x5C then (case cs of [] \<Rightarrow> None | d # ds \<Rightarrow> if d = hd s then match_chunk ds (tl s) else None)
          else if c = hd s then match_chunk cs (tl s) else None)"
  by pat_completeness auto
termination
proof (relation "measure (\<lambda>(chunk, s). length chunk)", goal_cases)
  case (2 chunk s c cs neg x r n y found rest)
  then have "class_ranges r False False (if neg then tl cs else cs) = Some (found, rest)" by auto
  from class_ranges_length[OF this] have "length rest < Suc (length cs)" by (cases cs) (auto split: if_splits)
  then show ?case using 2 by simp
qed auto

declare match_chunk.simps [simp del]

text \<open>After a star, the chunk is tried at the current position and behind each further byte, but not past a slash.\<close>

fun after_star :: "string \<Rightarrow> bool \<Rightarrow> string \<Rightarrow> string option" where
  "after_star chunk lastChunk s =
     (case match_chunk chunk s of
        Some t \<Rightarrow>
          if t = [] \<or> \<not> lastChunk then Some t
          else (case s of [] \<Rightarrow> None | c # cs \<Rightarrow> if c = slash then None else after_star chunk lastChunk cs)
      | None \<Rightarrow> (case s of [] \<Rightarrow> None | c # cs \<Rightarrow> if c = slash then None else after_star chunk lastChunk cs))"

declare after_star.simps [simp del]

lemma chunk_len_pos: "p \<noteq> [] \<Longrightarrow> hd p \<noteq> CHR ''*'' \<Longrightarrow> 0 < chunk_len False p"
  by (induction "False" p rule: chunk_len.induct) auto

lemma scanChunk_length: "pattern \<noteq> [] \<Longrightarrow> length (snd (snd (scanChunk pattern))) < length pattern"
proof -
  assume ne: "pattern \<noteq> []"
  let ?p = "dropWhile (\<lambda>c. c = CHR ''*'') pattern"
  have le: "length ?p \<le> length pattern" by (rule length_dropWhile_le)
  show ?thesis
  proof (cases "hd pattern = CHR ''*''")
    case True
    then have "length ?p < length pattern" using ne by (cases pattern) (auto simp: length_dropWhile_le le_imp_less_Suc)
    then show ?thesis by (auto simp: scanChunk_def Let_def)
  next
    case False
    then have "?p = pattern" using ne by (cases pattern) auto
    moreover have "0 < chunk_len False pattern" using chunk_len_pos ne False by blast
    ultimately show ?thesis using ne by (auto simp: scanChunk_def Let_def)
  qed
qed

function FilepathMatch :: "string \<Rightarrow> string \<Rightarrow> bool" where
  "FilepathMatch pattern name =
     (if pattern = [] then name = []
      else let (star, chunk, rest) = scanChunk pattern in
        if star \<and> chunk = [] then slash \<notin> set name
        else case (if star then after_star chunk (rest = []) name else match_chunk chunk name) of
          None \<Rightarrow> False
        | Some t \<Rightarrow> (t = [] \<or> rest \<noteq> []) \<and> FilepathMatch rest t)"
  by pat_completeness auto
termination
proof (relation "measure (\<lambda>(pattern, name). length pattern)", goal_cases)
  case (2 pattern name x star y chunk rest t)
  then have "snd (snd (scanChunk pattern)) = rest" by (metis snd_conv)
  then show ?case using scanChunk_length[of pattern] 2 by auto
qed simp

declare FilepathMatch.simps [simp del]

end
