(* ===== verification/Team_Policy.thy ===== *)
theory Team_Policy
  imports Team_Gates Go_Glob
begin

text \<open>
  The policies of a team (\<open>team/session.go\<close>, \<open>team/loader.go\<close>): which task may be given to whom and when, and which files an agent
  may have written when its task ends. \<open>agents\<close> gives for each agent of the session the agents it may talk to.
\<close>

record TeamTaskPolicySpec =
  tp_Name :: string
  tp_Targets :: "string list"
  tp_TaskTypes :: "string list"
  tp_BeforeContract :: bool
  tp_RequiresContract :: bool
  tp_AuditWrites :: bool
  tp_ExclusiveWorkspace :: bool
  tp_RestrictWrites :: bool
  tp_AllowedWriteGlobs :: "string list"
  tp_DeniedWriteGlobs :: "string list"

section \<open>Loading\<close>

definition normalizeGateCheck :: "TeamGateCheckSpec \<Rightarrow> TeamGateCheckSpec" where
  "normalizeGateCheck c =
     (let pass = (if gc_PassStatuses c = [] then [''pass''] else gc_PassStatuses c);
          allowed = (if gc_AllowedStatuses c = [] then pass else gc_AllowedStatuses c)
      in c\<lparr>gc_PassStatuses := nonEmptyStrings pass, gc_AllowedStatuses := uniqueStrings (allowed @ nonEmptyStrings pass),
           gc_EvidenceRequiredStatuses := nonEmptyStrings (gc_EvidenceRequiredStatuses c),
           gc_FindingsRequiredStatuses := nonEmptyStrings (gc_FindingsRequiredStatuses c)\<rparr>)"

definition named_check :: "TeamGateCheckSpec \<Rightarrow> TeamGateCheckSpec" where
  "named_check c =
     (let name = TrimSpace (gc_Name c); agent = TrimSpace (gc_Agent c); name' = (if name = [] then agent else name)
      in c\<lparr>gc_Name := name', gc_Agent := (if agent = [] then name' else agent)\<rparr>)"

definition normalizeGateSpec :: "TeamGateSpec \<Rightarrow> TeamGateSpec" where
  "normalizeGateSpec g =
     g\<lparr>gs_NonblockingFindings := (if gs_NonblockingFindings g = [] then ''allow_complete'' else gs_NonblockingFindings g),
       gs_Checks := map normalizeGateCheck (filter (\<lambda>c. gc_Name c \<noteq> []) (map named_check (gs_Checks g)))\<rparr>"

text \<open>\<open>communicates_with\<close> is missing, a text, a list (whose items are printed), or anything else.\<close>

datatype communicates = CommNil | CommText string | CommItems "string list" | CommTexts "string list" | CommOther

fun normalizeCommunicatesWith :: "communicates \<Rightarrow> string list" where
  "normalizeCommunicatesWith CommNil = [''all'']"
| "normalizeCommunicatesWith (CommText v) = (if TrimSpace v = [] then [''all''] else [TrimSpace v])"
| "normalizeCommunicatesWith (CommItems vs) =
     (let out = filter (\<lambda>t. t \<noteq> []) (map TrimSpace vs) in if out = [] then [''all''] else out)"
| "normalizeCommunicatesWith (CommTexts vs) = (if vs = [] then [''all''] else vs)"
| "normalizeCommunicatesWith CommOther = [''all'']"

section \<open>Globs\<close>

datatype glob_item = Deep | Seg | One | Lit string

text \<open>
  \<open>slashGlobRegex\<close> translates a pattern byte by byte; a byte above 0x7F becomes the rune of that number, two bytes long. The
  regular expression is matched against the whole name: \<open>.\<close> stands for a rune other than a line feed.
\<close>

definition literal_byte :: "char \<Rightarrow> string" where
  "literal_byte c = (if byte_between 0 127 c then [c] else utf8 [192 + of_char c div 64, 128 + of_char c mod 64])"

fun slashGlobRegex :: "string \<Rightarrow> glob_item list" where
  "slashGlobRegex [] = []"
| "slashGlobRegex (c # cs) =
     (if c = CHR ''*'' then (case cs of d # ds \<Rightarrow> if d = CHR ''*'' then Deep # slashGlobRegex ds else Seg # slashGlobRegex cs | [] \<Rightarrow> [Seg])
      else if c = CHR ''?'' then One # slashGlobRegex cs
      else Lit (literal_byte c) # slashGlobRegex cs)"

function glob_matches :: "glob_item list \<Rightarrow> string \<Rightarrow> bool" where
  "glob_matches [] s = (s = [])"
| "glob_matches (Lit l # g) s = (prefix l s \<and> glob_matches g (drop (length l) s))"
| "glob_matches (One # g) s = (s \<noteq> [] \<and> hd s \<noteq> slash \<and> glob_matches g (drop (rune_width s) s))"
| "glob_matches (Seg # g) s = (glob_matches g s \<or> (if s = [] \<or> hd s = slash then False else glob_matches (Seg # g) (drop (rune_width s) s)))"
| "glob_matches (Deep # g) s = (glob_matches g s \<or> (if s = [] \<or> hd s = CHR 0x0A then False else glob_matches (Deep # g) (drop (rune_width s) s)))"
  by pat_completeness auto
termination
  by (relation "measures [\<lambda>(g, s). length g, \<lambda>(g, s). length s]") (auto dest: rune_width_bounds)

definition matchSlashGlob :: "string \<Rightarrow> string \<Rightarrow> bool" where
  "matchSlashGlob pattern0 rel0 =
     (let pattern = Clean (TrimSpace pattern0); rel = Clean (TrimSpace rel0) in
      if pattern = ''.'' \<or> pattern = [] then rel = ''.'' \<or> rel = []
      else if pattern = ''*'' \<or> pattern = ''**'' then True
      else pattern = rel \<or> FilepathMatch pattern rel \<or> glob_matches (slashGlobRegex pattern) rel)"

definition matchesAnySlashGlob :: "string list \<Rightarrow> string \<Rightarrow> bool" where
  "matchesAnySlashGlob patterns rel = list_ex (\<lambda>p. matchSlashGlob p rel) patterns"

section \<open>Policies of a task\<close>

definition matchPolicyPattern :: "string \<Rightarrow> string \<Rightarrow> bool" where
  "matchPolicyPattern pattern v =
     (if pattern = [] then v = [] else pattern = ''*'' \<or> pattern = ''all'' \<or> matchSlashGlob pattern v \<or> pattern = v)"

fun targets_from :: "string list \<Rightarrow> string list \<Rightarrow> string list" where
  "targets_from seen [] = []"
| "targets_from seen (v # vs) =
     (let t = TrimSpace v in if t = [] \<or> t \<in> set seen then targets_from seen vs else t # targets_from (t # seen) vs)"

definition normalizeTargets :: "string list \<Rightarrow> string list" where
  "normalizeTargets values = targets_from [] (concat (map (split_on (CHR '','')) values))"

definition policyMatchesTargets :: "(string \<Rightarrow> string) \<Rightarrow> TeamTaskPolicySpec \<Rightarrow> string list \<Rightarrow> bool" where
  "policyMatchesTargets lower policy targets \<longleftrightarrow>
     tp_Targets policy = [] \<or> targets = [] \<or>
     list_ex (\<lambda>t. list_ex (\<lambda>p. matchPolicyPattern (lower (TrimSpace p)) (lower (TrimSpace t))) (tp_Targets policy)) targets"

definition policyMatchesTaskType :: "(string \<Rightarrow> string) \<Rightarrow> TeamTaskPolicySpec \<Rightarrow> string \<Rightarrow> bool" where
  "policyMatchesTaskType lower policy taskType \<longleftrightarrow>
     tp_TaskTypes policy = [] \<or> list_ex (\<lambda>p. matchPolicyPattern (lower (TrimSpace p)) taskType) (tp_TaskTypes policy)"

definition matchTaskPolicies :: "(string \<Rightarrow> string) \<Rightarrow> TeamTaskPolicySpec list \<Rightarrow> string list \<Rightarrow> string \<Rightarrow> bool \<Rightarrow> TeamTaskPolicySpec list" where
  "matchTaskPolicies lower policies targets taskType beforeContract =
     filter (\<lambda>p. (tp_BeforeContract p \<longrightarrow> beforeContract) \<and> policyMatchesTargets lower p (normalizeTargets targets) \<and>
                 policyMatchesTaskType lower p (lower (TrimSpace taskType))) policies"

definition shouldAuditTaskWrites :: "TeamTaskPolicySpec list \<Rightarrow> bool" where
  "shouldAuditTaskWrites policies =
     list_ex (\<lambda>p. tp_AuditWrites p \<or> tp_RestrictWrites p \<or> tp_AllowedWriteGlobs p \<noteq> [] \<or> tp_DeniedWriteGlobs p \<noteq> []) policies"

definition requiresExclusiveWorkspace :: "TeamTaskPolicySpec list \<Rightarrow> bool" where
  "requiresExclusiveWorkspace policies = list_ex tp_ExclusiveWorkspace policies"

definition restrictWritesToExpectedArtifacts :: "TeamTaskPolicySpec list \<Rightarrow> bool" where
  "restrictWritesToExpectedArtifacts policies = list_ex tp_RestrictWrites policies"

definition ensureContractBeforeDispatch :: "(string \<Rightarrow> string) \<Rightarrow> TeamTaskPolicySpec list \<Rightarrow> string \<Rightarrow> string list \<Rightarrow> string \<Rightarrow> Session \<Rightarrow> bool" where
  "ensureContractBeforeDispatch lower policies from targets taskType s =
     (from \<noteq> sp_EntryAgent (ss_Spec s) \<or>
      \<not> list_ex tp_RequiresContract (matchTaskPolicies lower policies (normalizeTargets targets) taskType (ss_contract s = None)) \<or>
      ss_contract s \<noteq> None)"

definition allowed_agents :: "(string \<times> string list) list \<Rightarrow> string list \<Rightarrow> string list" where
  "allowed_agents agents listed =
     takeWhile (\<lambda>v. v \<noteq> ''all'') listed @ (if ''all'' \<in> set listed then map fst agents else [])"

datatype target_error = SenderNotFound string | TargetNotFound string | NotAllowed string string

definition validateTargets :: "(string \<times> string list) list \<Rightarrow> string \<Rightarrow> string list \<Rightarrow> target_error option" where
  "validateTargets agents from targets =
     (case map_of agents from of
        None \<Rightarrow> Some (SenderNotFound from)
      | Some listed \<Rightarrow>
          first_error (\<lambda>t. if map_of agents t = None then Some (TargetNotFound t)
                           else if t \<notin> set (allowed_agents agents listed) then Some (NotAllowed from t) else None) targets)"

definition resolveA2AWaitSeconds :: "int \<Rightarrow> int \<Rightarrow> int \<Rightarrow> int" where
  "resolveA2AWaitSeconds defaultSeconds minSeconds requested =
     (let wait = (if requested \<le> 0 then (if defaultSeconds \<le> 0 then 300 else defaultSeconds) else requested)
      in if minSeconds > 0 \<and> wait < minSeconds then minSeconds else wait)"

section \<open>Dispatch\<close>

text \<open>
  \<open>SendA2AMessage\<close> up to the point where the agents run: the checks, the messages for the leader, and the tasks that start. The answer
  for each target tells whether it was notified, has a task already, or was started; \<open>quoted\<close> is \<open>strconv.Quote\<close>.
\<close>

datatype send_error = ContractFirst | BadTargets target_error

datatype target_answer = Delivered string | TaskPending string | Started string

definition message_entry :: "string \<Rightarrow> string list \<Rightarrow> string \<Rightarrow> string \<Rightarrow> string \<Rightarrow> string list \<Rightarrow> DialogueEntry" where
  "message_entry from targets taskType msg taskID refs =
     \<lparr>de_FromAgent = from, de_ToAgent = targets, de_Kind = ''message'', de_Summary = taskType, de_Content = msg, de_ArtifactRefs = refs, de_TaskID = taskID\<rparr>"

fun begin_all :: "string \<Rightarrow> string \<Rightarrow> string \<Rightarrow> string list \<Rightarrow> Session \<Rightarrow> string list \<Rightarrow> Session \<times> (string \<times> target_answer) list" where
  "begin_all taskID from summary expected s [] = (s, [])"
| "begin_all taskID from summary expected s (t # ts) =
     (case beginA2ATask taskID from t summary expected s of
        (s1, task, started) \<Rightarrow>
          (case begin_all taskID from summary expected s1 ts of
             (s2, answers) \<Rightarrow> (s2, (t, if started then Started taskID else TaskPending (tt_ID task)) # answers)))"

definition is_notified :: "Session \<Rightarrow> string \<Rightarrow> string \<Rightarrow> bool" where
  "is_notified s from t \<longleftrightarrow> t = sp_EntryAgent (ss_Spec s) \<and> from \<noteq> sp_EntryAgent (ss_Spec s)"

definition starting_targets :: "Session \<Rightarrow> string \<Rightarrow> string list \<Rightarrow> string list" where
  "starting_targets s from targets = filter (\<lambda>t. \<not> is_notified s from t \<and> snd (activeA2ATask t s) = None) targets"

definition early_answers :: "Session \<Rightarrow> string \<Rightarrow> string \<Rightarrow> string list \<Rightarrow> (string \<times> target_answer) list" where
  "early_answers s from notifyID targets =
     List.map_filter (\<lambda>t. if is_notified s from t then None else map_option (\<lambda>task. (t, TaskPending (tt_ID task))) (snd (activeA2ATask t s))) targets @
     map (\<lambda>t. (t, Delivered notifyID)) (filter (is_notified s from) targets)"

definition notify_leader :: "string \<Rightarrow> string list \<Rightarrow> string \<Rightarrow> string \<Rightarrow> string \<Rightarrow> string list \<Rightarrow> Session \<Rightarrow> Session" where
  "notify_leader from targets taskType msg notifyID expected s =
     (let notified = filter (is_notified s from) targets; s0 = fold (\<lambda>t s. fst (activeA2ATask t s)) (filter (\<lambda>t. \<not> is_notified s from t) targets) s
      in if notified = [] then s0 else appendDialogue (message_entry from notified taskType msg notifyID expected) s0)"

definition send_begin :: "(string \<Rightarrow> string) \<Rightarrow> (string \<Rightarrow> string) \<Rightarrow> TeamTaskPolicySpec list \<Rightarrow> (string \<times> string list) list \<Rightarrow> string \<Rightarrow> string \<Rightarrow> string \<Rightarrow> string list \<Rightarrow> string \<Rightarrow> string
    \<Rightarrow> string list \<Rightarrow> Session \<Rightarrow> Session \<times> (send_error + (string \<times> target_answer) list)" where
  "send_begin lower quoted policies agents notifyID taskID from recipients msg taskType expected s =
     (if \<not> ensureContractBeforeDispatch lower policies from recipients taskType s
      then (appendRecovery (''Cannot dispatch '' @ quoted taskType @ '' before recording the team contract. Team Leader must call RecordTeamContract first.'') s,
            Inl ContractFirst)
      else let targets = normalizeTargets recipients in
        case validateTargets agents from targets of
          Some e \<Rightarrow> (s, Inl (BadTargets e))
        | None \<Rightarrow>
            (let starting = starting_targets s from targets; s1 = notify_leader from targets taskType msg notifyID expected s;
                 answers = early_answers s from notifyID targets
             in if starting = [] then (s1, Inr answers)
                else case begin_all taskID from taskType expected (appendDialogue (message_entry from starting taskType msg taskID expected) s1) starting of
                  (s2, begun) \<Rightarrow> (s2, Inr (answers @ begun))))"

section \<open>Audit of writes\<close>

record workspaceFileStamp =
  wf_size :: int
  wf_modTime :: int
  wf_isDir :: bool

text \<open>
  What the walk over the workspace meets: files (links too, which are not followed) and directories, each with the result of \<open>Info\<close>, that
  fails when the entry has gone in the meantime; of a directory that cannot be read the entries that were read. The paths
  that \<open>filepath.Rel\<close> gives are the names from the root downwards.
\<close>

datatype workspace_entry =
  FileEntry (entry_name: string) "(int \<times> int) option"
| DirEntry (entry_name: string) "int option" "workspace_entry list"

definition skippedDirs :: "string list" where
  "skippedDirs = [''.git'', ''.lumina'', ''.Lumina'', ''node_modules'', ''.venv'', ''venv'', ''__pycache__'', ''.pytest_cache'', ''.mypy_cache'', ''.ruff_cache'',
     ''dist'', ''build'']"

definition file_stamp :: "int \<times> int \<Rightarrow> workspaceFileStamp" where
  "file_stamp i = \<lparr>wf_size = fst i, wf_modTime = snd i, wf_isDir = False\<rparr>"

fun walk_entry :: "string \<Rightarrow> workspace_entry \<Rightarrow> (string \<times> workspaceFileStamp) list" where
  "walk_entry rel (FileEntry name info) = (case info of None \<Rightarrow> [] | Some i \<Rightarrow> [(rel, file_stamp i)])"
| "walk_entry rel (DirEntry name info entries) =
     (if name \<in> set skippedDirs then []
      else (case info of None \<Rightarrow> [] | Some t \<Rightarrow> [(rel @ ''/'', \<lparr>wf_size = 0, wf_modTime = t, wf_isDir = True\<rparr>)]) @
        concat (map (\<lambda>e. walk_entry (rel @ ''/'' @ entry_name e) e) entries))"

text \<open>The root itself is read without following a link, and its name is not skipped.\<close>

fun snapshotWorkspaceFiles :: "string \<Rightarrow> workspace_entry option \<Rightarrow> (string \<times> workspaceFileStamp) list" where
  "snapshotWorkspaceFiles root None = []"
| "snapshotWorkspaceFiles root (Some (FileEntry name info)) = (if TrimSpace root = [] then [] else walk_entry ''.'' (FileEntry name info))"
| "snapshotWorkspaceFiles root (Some (DirEntry name info entries)) =
     (if TrimSpace root = [] then [] else concat (map (\<lambda>e. walk_entry (entry_name e) e) entries))"

definition collectPolicyGlobs :: "TeamTaskPolicySpec list \<Rightarrow> bool \<Rightarrow> string list" where
  "collectPolicyGlobs policies allowed = nonEmptyStrings (concat (map (\<lambda>p. if allowed then tp_AllowedWriteGlobs p else tp_DeniedWriteGlobs p) policies))"

definition allowedExpectedArtifactSet :: "string \<Rightarrow> string list \<Rightarrow> string list" where
  "allowedExpectedArtifactSet root expected =
     map (\<lambda>a0. let a = TrimChars quote_chars (TrimSpace a0);
                  a' = (if IsAbs a then (case Rel root a of Some rel \<Rightarrow> rel | None \<Rightarrow> a) else a)
              in Clean a') (filter (\<lambda>a. TrimSpace a \<noteq> []) expected)"

definition isAllowedExpectedArtifact :: "string \<Rightarrow> string list \<Rightarrow> bool" where
  "isAllowedExpectedArtifact rel allowed = (let r = Clean rel in r \<in> set allowed \<or> Base r \<in> set allowed)"

definition violates :: "string list \<Rightarrow> TeamTaskPolicySpec list \<Rightarrow> bool \<Rightarrow> string \<Rightarrow> bool" where
  "violates allowedExact policies isDir rel =
     (let allowGlobs = collectPolicyGlobs policies True; denyGlobs = collectPolicyGlobs policies False;
          restrict = (allowGlobs \<noteq> [] \<or> restrictWritesToExpectedArtifacts policies)
      in if matchesAnySlashGlob denyGlobs rel then True
         else if isAllowedExpectedArtifact rel allowedExact \<or> matchesAnySlashGlob allowGlobs rel then False
         else if isDir then False else restrict)"

definition limit12 :: "string list \<Rightarrow> string list" where
  "limit12 vs = (if length vs > 12 then take 12 vs @ [''... '' @ show_int (int (length vs) - 12) @ '' more''] else vs)"

definition compactSortedStrings :: "string list \<Rightarrow> string list" where
  "compactSortedStrings values = remdups (sort (nonEmptyStrings values))"

definition taskWriteViolations :: "string \<Rightarrow> (string \<times> workspaceFileStamp) list \<Rightarrow> (string \<times> workspaceFileStamp) list \<Rightarrow> string list \<Rightarrow> TeamTaskPolicySpec list \<Rightarrow> string list" where
  "taskWriteViolations root before after expected policies =
     limit12 (sort (map fst (filter (\<lambda>e. map_of before (fst e) \<noteq> Some (snd e) \<and>
       violates (allowedExpectedArtifactSet root expected) policies (wf_isDir (snd e)) (fst e)) after)))"

definition workspaceRelPath :: "fs_env \<Rightarrow> string \<Rightarrow> string \<Rightarrow> string option" where
  "workspaceRelPath fs root path =
     (if TrimSpace root = [] \<or> TrimSpace path = [] then None
      else case (Abs fs (TrimSpace root), Abs fs (TrimSpace path)) of
        (Some absRoot, Some absPath) \<Rightarrow>
          (case Rel absRoot absPath of
             None \<Rightarrow> None
           | Some rel \<Rightarrow> if rel = ''.'' \<or> rel = ''..'' \<or> HasPrefix rel ''../'' then None else Some (Clean rel))
      | _ \<Rightarrow> None)"

definition taskWriteAttemptViolations :: "fs_env \<Rightarrow> string \<Rightarrow> string list \<Rightarrow> string list \<Rightarrow> TeamTaskPolicySpec list \<Rightarrow> string list" where
  "taskWriteAttemptViolations fs root writtenPaths expected policies =
     limit12 (compactSortedStrings (filter (violates (allowedExpectedArtifactSet root expected) policies False)
       (List.map_filter (workspaceRelPath fs root) writtenPaths)))"

fun expand_artifacts :: "string \<Rightarrow> string list \<Rightarrow> string list \<Rightarrow> string list \<Rightarrow> string list" where
  "expand_artifacts projectRel seen out [] = out"
| "expand_artifacts projectRel seen out (a0 # as) =
     (let a = TrimSpace a0; clean = Clean (TrimChars quote_chars a); expanded = Join [projectRel, clean] in
      if a = [] \<or> IsAbs a \<or> clean = ''.'' \<or> HasPrefix clean (projectRel @ ''/'') \<or> expanded \<in> set seen then expand_artifacts projectRel seen out as
      else expand_artifacts projectRel (expanded # seen) (out @ [expanded]) as)"

definition expectedArtifactsForWorkspaceAudit :: "string list \<Rightarrow> Session \<Rightarrow> string list" where
  "expectedArtifactsForWorkspaceAudit expected s =
     (let workDir = TrimSpace (ss_CWD s);
          projectRoot = (case ss_contract s of None \<Rightarrow> [] | Some c \<Rightarrow> TrimSpace (ac_ProjectRoot c));
          full = Clean (if IsAbs projectRoot then projectRoot else Join [workDir, projectRoot])
      in if workDir = [] \<or> projectRoot = [] then expected
         else case Rel (Clean workDir) full of
           None \<Rightarrow> expected
         | Some projectRel \<Rightarrow>
             if projectRel = ''.'' \<or> HasPrefix projectRel ''..'' then expected
             else expand_artifacts projectRel (map (\<lambda>a. Clean (TrimSpace a)) expected) expected expected)"

text \<open>The end of a task (\<open>runAgentTask\<close>): nothing is audited when no file was seen before the task.\<close>

definition audit_task :: "fs_env \<Rightarrow> workspace_entry option \<Rightarrow> workspace_entry option \<Rightarrow> string list \<Rightarrow> string list \<Rightarrow> TeamTaskPolicySpec list \<Rightarrow> Session \<Rightarrow> string list" where
  "audit_task fs start finish writtenPaths expected policies s =
     (let before = (if shouldAuditTaskWrites policies then snapshotWorkspaceFiles (ss_CWD s) start else []); ex = expectedArtifactsForWorkspaceAudit expected s in
      if before = [] then []
      else limit12 (compactSortedStrings (taskWriteViolations (ss_CWD s) before (snapshotWorkspaceFiles (ss_CWD s) finish) ex policies @
             taskWriteAttemptViolations fs (ss_CWD s) writtenPaths ex policies)))"

section \<open>Properties\<close>

text \<open>Loading makes every passing status one that a gate agent may submit.\<close>

lemma passing_status_is_allowed:
  assumes "c \<in> set (gs_Checks (normalizeGateSpec g))" "statusIn status (gc_PassStatuses c)" "TrimSpace status \<noteq> []"
  shows "statusIn status (gc_AllowedStatuses c)"
proof -
  obtain c0 where c: "c = normalizeGateCheck c0" using assms(1) by (auto simp: normalizeGateSpec_def)
  have "TrimSpace status \<in> TrimSpace ` set (gc_PassStatuses c)" using assms(2) by (simp add: statusIn_def)
  then have "TrimSpace status \<in> set (gc_AllowedStatuses c)" using assms(3) c by (auto simp: normalizeGateCheck_def Let_def set_uniqueStrings)
  then show ?thesis unfolding statusIn_def by (metis TrimSpace_idem image_eqI list.set_map)
qed

lemma begin_all_targets: "map fst (snd (begin_all taskID from summary expected s ts)) = ts"
  by (induction ts arbitrary: s) (simp_all add: case_prod_beta)

lemma begin_all_started: "begin_all taskID from summary expected s ts = (s', begun) \<Longrightarrow> (t, a) \<in> set begun \<Longrightarrow> t \<in> set ts"
  using begin_all_targets[of taskID "from" summary expected s ts] by (metis fst_conv image_eqI list.set_map snd_conv)

lemma early_answers_not_started: "(t, Started ident) \<notin> set (early_answers s from notifyID targets)"
  by (auto simp: early_answers_def List.map_filter_def)

lemma validateTargets_None:
  assumes "validateTargets agents from targets = None" "t \<in> set targets"
  shows "map_of agents t \<noteq> None \<and> (\<exists>listed. map_of agents from = Some listed \<and> (t \<in> set listed \<or> ''all'' \<in> set listed))"
proof -
  obtain listed where l: "map_of agents from = Some listed" using assms(1) by (auto simp: validateTargets_def split: option.splits)
  have a: "map_of agents t \<noteq> None" "t \<in> set (allowed_agents agents listed)"
    using assms l by (auto simp: validateTargets_def first_error_None split: if_splits)
  then have "t \<in> set listed \<or> ''all'' \<in> set listed" by (auto simp: allowed_agents_def dest: set_takeWhileD split: if_splits)
  with a l show ?thesis by blast
qed

text \<open>C16: A task is started only where it may be: its target is an agent of the team that the sender may talk to, is not working on another task,
  and is not the leader when another agent sends; and a leader whose task falls under a policy that requires a contract has recorded one.\<close>

theorem task_starts_only_where_allowed:
  assumes "send_begin lower quoted policies agents notifyID taskID from recipients msg taskType expected s = (s', Inr answers)"
    and "(t, Started ident) \<in> set answers"
  shows "t \<in> set (normalizeTargets recipients) \<and> map_of agents t \<noteq> None \<and>
    (\<exists>listed. map_of agents from = Some listed \<and> (t \<in> set listed \<or> ''all'' \<in> set listed)) \<and>
    snd (activeA2ATask t s) = None \<and> (t = sp_EntryAgent (ss_Spec s) \<longrightarrow> from = t) \<and>
    (from = sp_EntryAgent (ss_Spec s) \<and> list_ex tp_RequiresContract (matchTaskPolicies lower policies (normalizeTargets recipients) taskType (ss_contract s = None))
       \<longrightarrow> ss_contract s \<noteq> None)"
proof -
  let ?targets = "normalizeTargets recipients"
  have ens: "ensureContractBeforeDispatch lower policies from recipients taskType s" using assms(1) by (auto simp: send_begin_def split: if_splits)
  have val: "validateTargets agents from ?targets = None" using assms(1) ens by (auto simp: send_begin_def Let_def split: option.splits)
  have "t \<in> set (starting_targets s from ?targets)"
  proof (cases "starting_targets s from ?targets = []")
    case True
    then show ?thesis using assms ens val early_answers_not_started by (auto simp: send_begin_def Let_def)
  next
    case False
    let ?r = "begin_all taskID from taskType expected (appendDialogue (message_entry from (starting_targets s from ?targets) taskType msg taskID expected)
      (notify_leader from ?targets taskType msg notifyID expected s)) (starting_targets s from ?targets)"
    have "answers = early_answers s from notifyID ?targets @ snd ?r" using assms(1) ens val False by (simp add: send_begin_def Let_def case_prod_beta)
    then have "(t, Started ident) \<in> set (snd ?r)" using assms(2) early_answers_not_started by auto
    then show ?thesis by (metis begin_all_started prod.collapse)
  qed
  then show ?thesis using validateTargets_None[OF val] ens by (auto simp: ensureContractBeforeDispatch_def starting_targets_def is_notified_def)
qed

definition small_team :: Session where
  "small_team = NewSession ''s'' ''/w'' [] \<lparr>sp_Name = ''team'', sp_EntryAgent = ''lead'', sp_RequireFinalArtifact = False,
      sp_Gates = \<lparr>gs_RequireContract = False, gs_NonblockingFindings = ''allow_complete'', gs_DeferralRequiresReason = False, gs_Checks = []\<rparr>,
      sp_Output = \<lparr>os_ExportToWorkdir = False, os_Directory = [], os_Artifacts = []\<rparr>\<rparr> []"

theorem task_starts_only_where_allowed_witness:
  "snd (send_begin (\<lambda>s. s) (\<lambda>s. s) [] [(''lead'', [''all'']), (''dev'', [''lead''])] ''n'' ''t'' ''lead'' [''dev''] ''go'' ''code'' [] small_team) = Inr [(''dev'', Started ''t'')] \<and>
   ''dev'' \<in> set (normalizeTargets [''dev''])"
proof -
  let ?r = "send_begin (\<lambda>s. s) (\<lambda>s. s) [] [(''lead'', [''all'']), (''dev'', [''lead''])] ''n'' ''t'' ''lead'' [''dev''] ''go'' ''code'' [] small_team"
  have r: "snd ?r = Inr [(''dev'', Started ''t'')]" by code_simp
  then have "?r = (fst ?r, Inr [(''dev'', Started ''t'')])" by (metis prod.collapse)
  from task_starts_only_where_allowed[OF this] show ?thesis using r by simp
qed

section \<open>A denied directory\<close>






section \<open>Files of the workspace\<close>






text \<open>The paths below an entry: for a file its own, for a directory those of its entries.\<close>

definition below :: "string \<Rightarrow> string list \<Rightarrow> string" where
  "below rel ns = join_with ''/'' (rel # ns)"

lemma below_simps [simp]: "below rel [] = rel" "below rel (n # ns) = below (rel @ ''/'' @ n) ns"
  by (simp_all add: below_def) (cases ns; simp)










definition no_generated :: TeamTaskPolicySpec where
  "no_generated =
     \<lparr>tp_Name = ''plan'', tp_Targets = [], tp_TaskTypes = [], tp_BeforeContract = False, tp_RequiresContract = False, tp_AuditWrites = False,
      tp_ExclusiveWorkspace = False, tp_RestrictWrites = False, tp_AllowedWriteGlobs = [], tp_DeniedWriteGlobs = [''src/**'']\<rparr>"

definition workspace :: "workspace_entry list \<Rightarrow> workspace_entry option" where
  "workspace es = Some (DirEntry ''w'' (Some 1) es)"


text \<open>
  What the audit does not see: a file below a directory with one of the skipped names, a file that was deleted, any write of a task that starts in an
  empty workspace, every write when the workspace is reached through a link, which the walk does not follow, and below the first level of a
  denied directory a name with a line feed, which \<open>.\<close> does not match.
\<close>

lemma audit_gaps:
  "audit_task fs (workspace [FileEntry ''b'' (Some (1, 1))])
     (workspace [FileEntry ''b'' (Some (1, 1)), DirEntry ''src'' None [DirEntry ''dist'' (Some 2) [FileEntry ''x.js'' (Some (1, 2))]]]) [] [] [no_generated] small_team = []"
  "audit_task fs (workspace [DirEntry ''src'' None [FileEntry ''a.go'' (Some (1, 1))], FileEntry ''b'' (Some (1, 1))]) (workspace [FileEntry ''b'' (Some (1, 1))]) [] []
     [no_generated] small_team = []"
  "audit_task fs (workspace []) (workspace [DirEntry ''src'' (Some 2) [FileEntry ''a.go'' (Some (1, 1))]]) [''src/a.go''] [] [no_generated] small_team = []"
  "\<not> matchSlashGlob ''src/**'' (''src/a/'' @ [CHR 0x0A] @ ''.go'')"
  by code_simp+

lemma linked_workspace_is_not_audited:
  assumes "start = Some (FileEntry n (Some i))"
  shows "audit_task fs start start [] expected policies s = []"
proof -
  have "taskWriteAttemptViolations fs (ss_CWD s) [] ex policies = []" for ex
    by (simp add: taskWriteAttemptViolations_def List.map_filter_def compactSortedStrings_def nonEmptyStrings_def limit12_def)
  moreover have "taskWriteViolations (ss_CWD s) [(rel, st)] [(rel, st)] ex policies = []" for rel st ex
    by (simp add: taskWriteViolations_def limit12_def)
  moreover have "taskWriteViolations (ss_CWD s) [] [] ex policies = []" for ex
    by (simp add: taskWriteViolations_def limit12_def)
  ultimately show ?thesis
    by (simp add: assms audit_task_def Let_def compactSortedStrings_def nonEmptyStrings_def limit12_def)
qed

end
