(* ===== verification/Agent_Stream.thy ===== *)
theory Agent_Stream
  imports Tool_Executor Run_State Api_Retry Context_Manager Go_Text
begin

text \<open>
  The parts of \<open>agent/loop.go\<close> that read a reply of the model and make up a request: \<open>HandleStreamEvent\<close> with its classification of
  errors, the cache breakpoints of \<open>applyRollingCache\<close>, and, from \<open>agent/message_injection.go\<close> and \<open>agent/compact.go\<close>, where a
  message is inserted into the conversation, which keys of a message are not sent, and how a result is cut for display. The
  lower case of a text is compared with ASCII fragments only.
\<close>

section \<open>Errors of a request\<close>

definition MaxAPIErrorRetries :: int where "MaxAPIErrorRetries = 3"
definition MaxParentTurns :: int where "MaxParentTurns = 100"

definition fatalAPIErrorKeywords :: "string list" where
  "fatalAPIErrorKeywords = [''404'', ''model_not_found'', ''model not found'', ''invalid_api_key'', ''invalid api key'',
     ''authentication'', ''authorization'', ''not_found'', ''not found'']"

definition IsFatalAPIError :: "string \<Rightarrow> bool" where
  "IsFatalAPIError msg = list_ex (\<lambda>kw. Contains (lower_view msg) kw) fatalAPIErrorKeywords"

definition loopPtlErrorKeywords :: "string list" where
  "loopPtlErrorKeywords = [''too_long'', ''token limit'', ''context length'', ''prompt is too long'', ''maximum context'',
     ''exceeds the maximum'', ''input length'', ''reduce the length'']"

definition IsPTLErrorMessage :: "string \<Rightarrow> bool" where
  "IsPTLErrorMessage msg = list_ex (\<lambda>kw. Contains (lower_view msg) kw) loopPtlErrorKeywords"

definition rememberAPIError :: "string \<Rightarrow> AgentState \<Rightarrow> AgentState" where
  "rememberAPIError msg s =
     (let errs = as_RecentApiErrors s @ [msg]
      in s\<lparr>as_RecentApiErrors := (if length errs > 5 then drop (length errs - 5) errs else errs)\<rparr>)"

definition apiErrorEvent :: "string \<Rightarrow> gomap \<Rightarrow> StreamEvent" where
  "apiErrorEvent msg metadata =
     NewStreamEvent ''error'' (''API error after '' @ show_int MaxAPIErrorRetries @ '' retries: '' @ msg @
       ''. The request may be malformed. Try /clear to start a fresh session.'') metadata"

section \<open>A reply of the model\<close>

record LoopTurn = ModelTurn +
  mt_OutputTruncated :: bool
  mt_StreamHadError :: bool
  mt_PTLDetected :: bool
  mt_PTLErrorMsg :: string

definition new_turn :: "string \<Rightarrow> LoopTurn" where
  "new_turn uuid =
     \<lparr>mt_ToolCalls = [], mt_ThinkingContent = [], mt_FullText = [], mt_MessageID = [], mt_InputTokens = 0, mt_OutputTokens = 0,
      mt_uuid = uuid, mt_OutputTruncated = False, mt_StreamHadError = False, mt_PTLDetected = False, mt_PTLErrorMsg = []\<rparr>"

definition ShouldCommitFinalTextAfterStreamError :: "LoopTurn \<Rightarrow> bool" where
  "ShouldCommitFinalTextAfterStreamError turn \<longleftrightarrow>
     mt_StreamHadError turn \<and> mt_ToolCalls turn = [] \<and> TrimSpace (mt_FullText turn) \<noteq> []"

record StreamAction =
  sa_Event :: "StreamEvent option"
  sa_Break :: bool
  sa_Return :: bool
  sa_ConsecutiveAPIErrors :: int

text \<open>What handling one event changes: the turn, the executor, the draft, whether the call may start at once, and whether the
  draft is published, which is the last thing done before returning.\<close>

record handled =
  h_turn :: LoopTurn
  h_exec :: StreamingToolExecutor
  h_state :: AgentState
  h_launch :: "string list"
  h_publish :: bool
  h_action :: StreamAction

definition thinking_open :: "LoopTurn \<Rightarrow> bool" where
  "thinking_open turn \<longleftrightarrow> mt_ThinkingContent turn \<noteq> [] \<and> fld (last (mt_ThinkingContent turn)) ''type'' = JStr ''thinking''"

definition extend_thinking :: "string \<Rightarrow> string \<Rightarrow> LoopTurn \<Rightarrow> LoopTurn" where
  "extend_thinking key text turn =
     (if thinking_open turn
      then turn\<lparr>mt_ThinkingContent := butlast (mt_ThinkingContent turn) @
             [mput key (JStr (stringFromAny (fld (last (mt_ThinkingContent turn)) key) @ text)) (last (mt_ThinkingContent turn))]\<rparr>
      else turn)"

definition error_metadata :: "gomap \<Rightarrow> gomap" where
  "error_metadata event =
     foldl (\<lambda>m key. case map_of event key of None \<Rightarrow> m | Some v \<Rightarrow> mput key v m) []
       [''error_type'', ''provider'', ''status_code'', ''status'', ''raw_error'', ''request_url'', ''operation'']"

definition event_call :: "gomap \<Rightarrow> ToolCall" where
  "event_call event =
     \<lparr>tc_ID = stringFromAny (fld event ''id''), tc_Name = stringFromAny (fld event ''name''),
      tc_Input = (case fld event ''input'' of JObj m \<Rightarrow> m | _ \<Rightarrow> [])\<rparr>"

text \<open>The branch for \<open>error\<close> events; \<open>n\<close> is the number of consecutive errors so far.\<close>

definition handle_error :: "gomap \<Rightarrow> LoopTurn \<Rightarrow> StreamingToolExecutor \<Rightarrow> AgentState \<Rightarrow> int \<Rightarrow> handled" where
  "handle_error event turn e s n =
     (let msg = stringFromAny (fld event ''message''); metadata = error_metadata event;
          result = (\<lambda>turn s publish ev brk ret n.
            \<lparr>h_turn = turn, h_exec = e, h_state = s, h_launch = [], h_publish = publish,
             h_action = \<lparr>sa_Event = ev, sa_Break = brk, sa_Return = ret, sa_ConsecutiveAPIErrors = n\<rparr>\<rparr>)
      in if IsFatalAPIError msg then result turn (rememberAPIError msg s) True (Some (NewStreamEvent ''error'' msg metadata)) False True n
         else if IsPTLErrorMessage msg
         then result (turn\<lparr>mt_PTLDetected := True, mt_PTLErrorMsg := msg\<rparr>) s False None True False n
         else let turn' = turn\<lparr>mt_StreamHadError := True\<rparr> in
           if ShouldCommitFinalTextAfterStreamError turn' then result turn' s False None True False (n + 1)
           else if n + 1 \<ge> MaxAPIErrorRetries
           then result turn' (rememberAPIError msg s) True (Some (NewStreamEvent ''error'' msg metadata)) False True (n + 1)
           else result turn' (rememberAPIError msg s) False
                  (Some (NewStreamEvent ''error'' msg (mput ''recovered'' (JBool True) metadata))) True False (n + 1))"

text \<open>\<open>planned\<close> is the answer of the journal to a planned call, \<open>None\<close> when there is no journal or it recorded the call.\<close>

definition HandleStreamEvent ::
  "(string \<Rightarrow> int) \<Rightarrow> ToolRegistry \<Rightarrow> (ToolCall \<Rightarrow> int \<Rightarrow> string option) \<Rightarrow> gomap \<Rightarrow> LoopTurn \<Rightarrow> StreamingToolExecutor \<Rightarrow> AgentState
   \<Rightarrow> int \<Rightarrow> handled" where
  "HandleStreamEvent tr reg planned event turn e s n =
     (let kind = stringFromAny (fld event ''type''); text = stringFromAny (fld event ''text'');
          signature = stringFromAny (fld event ''signature'');
          result = (\<lambda>turn ev. \<lparr>h_turn = turn, h_exec = e, h_state = s, h_launch = [], h_publish = False,
             h_action = \<lparr>sa_Event = ev, sa_Break = False, sa_Return = False, sa_ConsecutiveAPIErrors = n\<rparr>\<rparr>)
      in if kind = ''text_delta''
         then result (turn\<lparr>mt_FullText := mt_FullText turn @ text\<rparr>) (Some (NewStreamEvent ''text'' text []))
         else if kind = ''message_id'' then result (turn\<lparr>mt_MessageID := stringFromAny (fld event ''id'')\<rparr>) None
         else if kind = ''thinking''
         then result (turn\<lparr>mt_ThinkingContent := mt_ThinkingContent turn @
                        [[(''type'', JStr ''thinking''), (''thinking'', JStr text), (''signature'', JStr signature)]]\<rparr>)
                (Some (NewStreamEvent ''thinking'' text [(''signature'', JStr signature)]))
         else if kind = ''redacted_thinking''
         then result (turn\<lparr>mt_ThinkingContent := mt_ThinkingContent turn @
                        [[(''type'', JStr ''redacted_thinking''), (''data'', JStr (stringFromAny (fld event ''data'')))]]\<rparr>)
                (Some (NewStreamEvent ''thinking'' ''[redacted thinking]'' []))
         else if kind = ''thinking_delta'' then result (extend_thinking ''thinking'' text turn) (Some (NewStreamEvent ''thinking'' text []))
         else if kind = ''signature_delta'' then result (extend_thinking ''signature'' signature turn) None
         else if kind = ''tool_use''
         then (let tc = event_call event; turn' = turn\<lparr>mt_ToolCalls := mt_ToolCalls turn @ [tc]\<rparr> in
               case planned tc (int (length (mt_ToolCalls turn'))  - 1) of
                 Some err \<Rightarrow>
                   (result turn' (Some (NewStreamEvent ''error'' err [(''runtime_journal'', JBool True)])))
                     \<lparr>h_action := \<lparr>sa_Event = Some (NewStreamEvent ''error'' err [(''runtime_journal'', JBool True)]), sa_Break = False,
                                   sa_Return = True, sa_ConsecutiveAPIErrors = n\<rparr>\<rparr>
               | None \<Rightarrow>
                   (case AddTool reg tc e of (e', start) \<Rightarrow>
                      (result turn' (Some (NewStreamEvent ''tool_call'' (tc_Name tc) [(''id'', JStr (tc_ID tc)), (''input'', JObj (tc_Input tc))])))
                        \<lparr>h_exec := e', h_launch := (if start then [tc_ID tc] else [])\<rparr>))
         else if kind = ''usage''
         then result (turn\<lparr>mt_InputTokens := intFromAny tr (fld event ''input_tokens''),
                           mt_OutputTokens := intFromAny tr (fld event ''output_tokens'')\<rparr>) None
         else if kind = ''stop_reason''
         then (let reason = stringFromAny (fld event ''stop_reason'');
                   reason' = (if reason = [] then stringFromAny (fld event ''reason'') else reason)
               in result (if IsOutputTruncatedStopReason reason' then turn\<lparr>mt_OutputTruncated := True\<rparr> else turn) None)
         else if kind = ''model_fallback''
         then result turn (Some (NewStreamEvent ''model_fallback'' (stringFromAny (fld event ''fallback_model''))
                [(''primary_model'', fld event ''primary_model''), (''fallback_model'', fld event ''fallback_model''),
                 (''reason'', fld event ''reason'')]))
         else if kind = ''error'' then handle_error event turn e s n
         else result turn None)"

section \<open>The messages of a request\<close>

definition isSystemHintBlock :: "gomap \<Rightarrow> bool" where
  "isSystemHintBlock b \<longleftrightarrow> stringFromAny (fld b ''type'') = ''text'' \<and> Contains (stringFromAny (fld b ''text'')) ''<system_hint>''"

definition isToolResultCarrierMessage :: "gomap \<Rightarrow> bool" where
  "isToolResultCarrierMessage m \<longleftrightarrow>
     role_of m = ''user'' \<and> (case contentBlocks (fld m ''content'') of
       None \<Rightarrow> False
     | Some bs \<Rightarrow> list_all (\<lambda>b. stringFromAny (fld b ''type'') = ''tool_result'' \<or> isSystemHintBlock b) bs \<and>
                  list_ex (\<lambda>b. stringFromAny (fld b ''type'') = ''tool_result'') bs)"

text \<open>The position of the last user message that is not a carrier of tool results, the end if there is none.\<close>

fun insert_position :: "gomap list \<Rightarrow> nat \<Rightarrow> nat option" where
  "insert_position ms 0 = None"
| "insert_position ms (Suc i) =
     (if role_of (ms ! i) = ''user'' \<and> \<not> isToolResultCarrierMessage (ms ! i) then Some i else insert_position ms i)"

definition InsertBeforeCurrentUserMessage :: "gomap \<Rightarrow> AgentState \<Rightarrow> AgentState" where
  "InsertBeforeCurrentUserMessage msg s =
     (let ms = as_Messages s; idx = (case insert_position ms (length ms) of None \<Rightarrow> length ms | Some i \<Rightarrow> i)
      in s\<lparr>as_Messages := take idx ms @ msg # drop idx ms\<rparr>)"

text \<open>The function of the loop with the same name in lower case looks at the last message only.\<close>

definition insertBeforeLastUserMessage :: "gomap \<Rightarrow> AgentState \<Rightarrow> AgentState" where
  "insertBeforeLastUserMessage msg s =
     (let ms = as_Messages s
      in if ms = [] then s
         else if role_of (last ms) = ''user'' then s\<lparr>as_Messages := butlast ms @ [msg, last ms]\<rparr>
         else s\<lparr>as_Messages := ms @ [msg]\<rparr>)"

definition StripMessageMetadata :: "gomap list \<Rightarrow> gomap list" where
  "StripMessageMetadata = map (filter (\<lambda>(k, v). k \<notin> {''metadata'', ''isMeta'', ''context_id'', ''event_seq''}))"

definition VisibleToolResultIDs :: "gomap list \<Rightarrow> string list" where
  "VisibleToolResultIDs msgs = remdups (result_ids msgs)"

section \<open>Cache breakpoints\<close>

definition maxHistoryBreakpoints :: nat where "maxHistoryBreakpoints = 2"

definition candidates :: "int \<Rightarrow> int list" where
  "candidates n = (if n \<ge> 12 then [max (n div 3) 2] else []) @ (if n \<ge> 18 then [max (2 * n div 3) (n div 3 + 5)] else [])"

definition add_candidate :: "int \<Rightarrow> int list \<Rightarrow> int \<Rightarrow> int list" where
  "add_candidate boundary points c =
     (if length points \<ge> maxHistoryBreakpoints \<or> c \<ge> boundary \<or> list_ex (\<lambda>p. \<bar>c - p\<bar> < 4) points then points else points @ [c])"

definition rolling_points :: "int \<Rightarrow> int list \<Rightarrow> int list" where
  "rolling_points n points =
     (let kept = filter (\<lambda>p. 0 \<le> p \<and> p < n - 4) points
      in if length kept < maxHistoryBreakpoints then foldl (add_candidate (n - 4)) kept (candidates n) else kept)"

definition cache_mark :: "gomap \<Rightarrow> gomap" where
  "cache_mark b = mput ''cache_control'' (JObj [(''type'', JStr ''ephemeral'')]) b"

definition mark_message :: "gomap \<Rightarrow> gomap" where
  "mark_message m = (let bs = blocks_of m in if bs = [] then m else set_content (butlast bs @ [cache_mark (last bs)]) m)"

text \<open>The set \<open>CacheBreakPoints\<close> is a list without repetitions, the second component its new value.\<close>

definition applyRollingCache :: "string \<Rightarrow> gomap list \<Rightarrow> int list \<Rightarrow> gomap list \<times> int list" where
  "applyRollingCache model msgs points =
     (if \<not> HasPrefix (lower_view model) ''claude-'' \<or> length msgs < 8 then (msgs, [])
      else let ps = rolling_points (int (length msgs)) points
           in if ps = [] then (msgs, [])
              else (map (\<lambda>i. if int i \<in> set ps then mark_message (msgs ! i) else msgs ! i) [0..<length msgs], ps))"

section \<open>Display\<close>

definition maxCompactChars :: int where "maxCompactChars = 50000"

definition TruncateResult :: "string \<Rightarrow> int list \<Rightarrow> string" where
  "TruncateResult content maxChars =
     (let limit = (case maxChars of [] \<Rightarrow> maxCompactChars | n # _ \<Rightarrow> n); n = charLen content
      in if n \<le> limit then content
         else let half = pythonFloorDiv limit 2
              in take_runes (nat (pythonSliceEnd n half)) content @ nl @ nl @ ''... ['' @ show_int (n - limit) @
                 '' characters truncated] ...'' @ nl @ nl @ drop_runes (nat (pythonSliceStart n (- half))) content)"

section \<open>Requests keep their form\<close>

text \<open>Two messages that answer and make the same calls in the same order.\<close>

definition same_form :: "gomap \<Rightarrow> gomap \<Rightarrow> bool" where
  "same_form m m' \<longleftrightarrow> role_of m = role_of m' \<and> map use_id (blocks_of m) = map use_id (blocks_of m') \<and>
     map result_id (blocks_of m) = map result_id (blocks_of m')"

lemma same_form_refl [simp]: "same_form m m"
  by (simp add: same_form_def)

lemma same_form_calls: "same_form m m' \<Longrightarrow> toolUseIDsInMessage m = toolUseIDsInMessage m'"
  by (simp add: same_form_def toolUseIDsInMessage_def)

lemma same_form_empty: "same_form m m' \<Longrightarrow> blocks_of m = [] \<longleftrightarrow> blocks_of m' = []"
  by (auto simp: same_form_def)

lemma immediate_same_form: "list_all2 same_form ms ms' \<Longrightarrow> immediate ms = immediate ms'"
proof (induction ms ms' rule: list_all2_induct)
  case (Cons m ms m' ms')
  have "ms \<noteq> [] \<and> answers (hd ms) ids \<longleftrightarrow> ms' \<noteq> [] \<and> answers (hd ms') ids" for ids
    using Cons(2) by (cases ms; cases ms') (auto simp: answers_def same_form_def)
  then show ?case using Cons same_form_calls[OF Cons(1)] same_form_empty[OF Cons(1)] by (auto simp: same_form_def)
qed simp

lemma map_of_filter_key: "P k \<Longrightarrow> map_of (filter (\<lambda>(k, v). P k) m) k = map_of m k"
  by (induction m) auto

lemma strip_same_form: "list_all2 same_form ms (StripMessageMetadata ms)"
  by (auto simp: StripMessageMetadata_def list_all2_map2 list_all2_same same_form_def role_of_def blocks_of_def mget_def map_of_filter_key)

lemma cache_mark_ids [simp]: "use_id (cache_mark b) = use_id b" "result_id (cache_mark b) = result_id b"
  by (simp_all add: use_id_def result_id_def is_block_def cache_mark_def)

lemma map_butlast_last: "xs \<noteq> [] \<Longrightarrow> map f (butlast xs) @ [f (last xs)] = map f xs"
  by (cases xs rule: rev_cases) auto

lemma mark_same_form: "same_form m (mark_message m)"
  by (simp add: mark_message_def same_form_def Let_def map_butlast_last)

lemma rolling_cache_same_form: "list_all2 same_form ms (fst (applyRollingCache model ms points))"
  by (auto simp: applyRollingCache_def Let_def list_all2_conv_all_nth mark_same_form)

text \<open>What is sent after normalization is a conversation that the API accepts: metadata and cache marks do not change it.\<close>

lemma sent_messages_immediate:
  assumes "immediate ms"
  shows "immediate (StripMessageMetadata ms)" "immediate (fst (applyRollingCache model (StripMessageMetadata ms) points))"
  using assms immediate_same_form[OF strip_same_form] immediate_same_form[OF rolling_cache_same_form] by blast+

text \<open>Normalization also leaves only lists of blocks as contents.\<close>

definition plain_content :: "gomap \<Rightarrow> bool" where
  "plain_content m \<longleftrightarrow> fld m ''content'' = block_list (blocks_of m)"

definition sendable :: "gomap list \<Rightarrow> bool" where
  "sendable ms \<longleftrightarrow> immediate ms \<and> list_all plain_content ms"

lemma object_of_JObj [simp]: "object_of (JObj m) = Some m"
  by (simp add: object_of_def)

lemma plain_set_content [simp]: "plain_content (set_content bs m)"
  by (simp add: plain_content_def set_content_def blocks_of_def contentBlocks_def block_list_def)

lemma plain_copied: "blocks_of m \<noteq> [] \<Longrightarrow> plain_content (copied m)"
  by (auto simp: copied_def blocks_of_def split: option.splits)

lemma plain_collected:
  "list_all (\<lambda>m. blocks_of m \<noteq> [] \<longrightarrow> plain_content m) ms \<Longrightarrow> list_all (\<lambda>m. blocks_of m \<noteq> [] \<longrightarrow> plain_content m) (snd (collect_results needed ms))"
  by (induction needed ms rule: collect_results.induct) (auto simp: shrink_message_def split: prod.splits)

lemma plain_user_message [simp]: "plain_content (user_message bs)"
  by (simp add: plain_content_def user_message_def blocks_of_def contentBlocks_def block_list_def mget_def)

lemma plain_enforced: "list_all (\<lambda>m. blocks_of m \<noteq> [] \<longrightarrow> plain_content m) ms \<Longrightarrow> list_all plain_content (enforce_from ms)"
  by (induction ms rule: enforce_from.induct) (auto simp: Let_def plain_collected)

lemma normalized_sendable: "sendable (NormalizeMessages ord msgs family errs)"
  unfolding sendable_def NormalizeMessages_def EnforceImmediateToolResults_def copyMessages_def
  by (intro conjI enforce_immediate plain_enforced) (auto simp: list_all_iff plain_copied)

lemma plain_stripped: "plain_content m \<Longrightarrow> plain_content (filter (\<lambda>(k, v). k \<notin> {''metadata'', ''isMeta'', ''context_id'', ''event_seq''}) m)"
  by (simp add: plain_content_def blocks_of_def mget_def map_of_filter_key)

lemma plain_marked: "plain_content m \<Longrightarrow> plain_content (mark_message m)"
  by (simp add: mark_message_def Let_def)

lemma sent_messages_sendable:
  assumes "sendable ms"
  shows "sendable (StripMessageMetadata ms)" "sendable (fst (applyRollingCache model (StripMessageMetadata ms) points))"
proof -
  have p: "list_all plain_content (StripMessageMetadata ms)" using assms plain_stripped by (auto simp: sendable_def StripMessageMetadata_def list_all_iff)
  then show "sendable (StripMessageMetadata ms)" using assms sent_messages_immediate(1) by (simp add: sendable_def)
  have "list_all plain_content (fst (applyRollingCache model (StripMessageMetadata ms) points))"
    using p by (auto simp: applyRollingCache_def Let_def list_all_length plain_marked)
  then show "sendable (fst (applyRollingCache model (StripMessageMetadata ms) points))" using assms sent_messages_immediate(2) by (simp add: sendable_def)
qed

section \<open>Cache breakpoints stay few and apart\<close>

definition good_points :: "int \<Rightarrow> int list \<Rightarrow> bool" where
  "good_points boundary ps \<longleftrightarrow> length ps \<le> maxHistoryBreakpoints \<and> (\<forall>p \<in> set ps. 0 \<le> p \<and> p < boundary) \<and>
     sorted_wrt (\<lambda>p q. \<bar>q - p\<bar> \<ge> 4) ps"

lemma good_add: "good_points boundary ps \<Longrightarrow> 0 \<le> c \<Longrightarrow> good_points boundary (add_candidate boundary ps c)"
  by (auto simp: good_points_def add_candidate_def sorted_wrt_append list_ex_iff maxHistoryBreakpoints_def)

lemma good_filter: "good_points b ps \<Longrightarrow> good_points boundary (filter (\<lambda>p. 0 \<le> p \<and> p < boundary) ps)"
  by (auto simp: good_points_def intro: sorted_wrt_filter order_trans[OF length_filter_le])

lemma good_candidates:
  "good_points boundary ps \<Longrightarrow> \<forall>c \<in> set cs. 0 \<le> c \<Longrightarrow> good_points boundary (foldl (add_candidate boundary) ps cs)"
  by (induction cs arbitrary: ps) (auto simp: good_add)

lemma candidates_nonneg: "\<forall>c \<in> set (candidates n). 0 \<le> c"
  by (auto simp: candidates_def)

lemma good_rolling: "good_points b ps \<Longrightarrow> good_points (n - 4) (rolling_points n ps)"
  unfolding rolling_points_def Let_def using good_filter[of b ps "n - 4"] good_candidates[OF _ candidates_nonneg] by simp

text \<open>The requests of a run, one after the other, starting without breakpoints.\<close>

fun rolling_run :: "int list \<Rightarrow> (string \<times> gomap list) list \<Rightarrow> int list" where
  "rolling_run points [] = points"
| "rolling_run points ((model, msgs) # reqs) = rolling_run (snd (applyRollingCache model msgs points)) reqs"

lemma good_apply: "good_points b ps \<Longrightarrow> \<exists>b'. good_points b' (snd (applyRollingCache model msgs ps))"
proof -
  assume "good_points b ps"
  moreover have "good_points b []" by (simp add: good_points_def)
  ultimately show ?thesis using good_rolling[of b ps "int (length msgs)"] unfolding applyRollingCache_def Let_def by (auto simp del: One_nat_def)
qed

lemma good_run: "\<exists>b. good_points b (rolling_run [] reqs)"
proof -
  have "good_points b ps \<Longrightarrow> \<exists>b'. good_points b' (rolling_run ps reqs)" for b ps
  proof (induction ps reqs arbitrary: b rule: rolling_run.induct)
    case (2 ps model msgs reqs)
    then show ?case using good_apply[of b ps model msgs] by auto
  qed auto
  moreover have "good_points 0 []" by (simp add: good_points_def)
  ultimately show ?thesis by blast
qed

text \<open>However the conversation grows and shrinks over the requests of a run, at most two messages carry a history breakpoint,
  they are at least four messages apart, and none is among the last four messages of the request that carries them.\<close>

theorem breakpoints_stay_few:
  "let marked = snd (applyRollingCache model msgs (rolling_run [] reqs))
   in length marked \<le> 2 \<and> list_all (\<lambda>p. 0 \<le> p \<and> p < int (length msgs) - 4) marked \<and> sorted_wrt (\<lambda>p q. \<bar>q - p\<bar> \<ge> 4) marked"
proof -
  obtain b where "good_points b (rolling_run [] reqs)" using good_run by blast
  from good_rolling[OF this, of "int (length msgs)"] show ?thesis
    by (auto simp: applyRollingCache_def Let_def good_points_def maxHistoryBreakpoints_def list_all_iff)
qed

end
