(* ===== verification/Agent_Loop.thy ===== *)
theory Agent_Loop
  imports Agent_Stream Permission_Resolver
begin

text \<open>
  \<open>queryLoop\<close> of \<open>agent/loop.go\<close>: the rounds of a run. A round prepares a request, reads the reply, and then repeats the request
  after an error, shortens the conversation after an over-long prompt, asks for the rest of a truncated reply, finishes, or
  runs the tools the model asked for and goes on.

  The loop works on the run state of \<open>Run_State\<close>, the draft and its conversation, the context manager and the executor of the
  round. What other goroutines do to the run state between two operations of the loop is an argument, and so are the answers of
  the hooks, the journal, the store of drafts, the context compression, the model and the permission dialogue, and the results
  of the tools: a record of functions of the round. An event handed to \<open>sendStream\<close> is appended to the output.
\<close>

section \<open>State and environment\<close>

record loop_world =
  lw_rt :: AgentRuntime
  lw_cm :: ContextManager
  lw_state :: AgentState
  lw_points :: "int list"
  lw_exec :: StreamingToolExecutor
  lw_launched :: "string list"
  lw_out :: "StreamEvent list"
  lw_drafts :: "AgentState list"
  lw_requests :: "gomap list list"

text \<open>Where other goroutines may get a turn.\<close>

datatype point = AtHead | BeforeCall | AtItem nat | AfterReply | BeforeTools | AfterTools

text \<open>An optional string is an error message. The answers of round \<open>n\<close>: \<open>le_model\<close> and \<open>le_registry\<close> the model and the tools that the
  active skills leave,
  \<open>le_beginStep\<close> the journal's record of the round, \<open>le_stepHook\<close>, \<open>le_skillHook\<close>, \<open>le_mcpHook\<close>, \<open>le_contextHook\<close> and \<open>le_responseHook\<close> the
  hooks (without a runtime they do the same work directly), \<open>le_publish\<close> the commit of the \<open>k\<close>-th published draft,
  \<open>le_buildClient\<close> the client for the model, \<open>le_compresses\<close> and \<open>le_prepareContext\<close> the compression before a request,
  \<open>le_validate\<close> the budget check of a conversation, \<open>le_recordCompiled\<close>, \<open>le_recordRequest\<close>, \<open>le_planned\<close> and \<open>le_recordAssistant\<close>
  the journal, \<open>le_stream\<close> the items the model streams, \<open>le_reactive\<close> the compression after an over-long prompt, \<open>le_ask\<close>,
  \<open>le_denied\<close>, \<open>le_aborted\<close> and \<open>le_between\<close> what the permission resolver depends on, \<open>le_collect\<close> the executor and the results when the
  tools have ended, \<open>le_afterTools\<close> the memories and skill messages added after them.\<close>

record loop_env =
  le_tok :: RunToken
  le_ctx :: nat
  le_maxParentTurns :: int
  le_apiMaxTokens :: int
  le_model :: "nat \<Rightarrow> string"
  le_registry :: "nat \<Rightarrow> ToolRegistry"
  le_fs :: fs_env
  le_tr :: "string \<Rightarrow> int"
  le_order :: "string list \<Rightarrow> string list"
  le_statusText :: "int \<Rightarrow> string"
  le_errorMetadata :: "go_error \<Rightarrow> gomap"
  le_others :: "nat \<Rightarrow> point \<Rightarrow> AgentRuntime \<Rightarrow> AgentRuntime"
  le_beginStep :: "nat \<Rightarrow> string option"
  le_stepHook :: "nat \<Rightarrow> AgentState \<Rightarrow> string + AgentState"
  le_publish :: "nat \<Rightarrow> AgentState \<Rightarrow> AgentState \<times> string option"
  le_skillHook :: "nat \<Rightarrow> AgentState \<Rightarrow> unit + AgentState"
  le_mcpHook :: "nat \<Rightarrow> bool"
  le_buildClient :: "nat \<Rightarrow> int \<Rightarrow> string option"
  le_compresses :: "nat \<Rightarrow> bool"
  le_prepareContext :: "nat \<Rightarrow> AgentState \<Rightarrow> ContextManager \<Rightarrow> (string + gomap list) \<times> AgentState \<times> ContextManager"
  le_contextHook :: "nat \<Rightarrow> gomap list \<Rightarrow> string + gomap list"
  le_validate :: "gomap list \<Rightarrow> string option"
  le_recordCompiled :: "nat \<Rightarrow> string option"
  le_recordRequest :: "nat \<Rightarrow> string option"
  le_uuid :: "nat \<Rightarrow> string"
  le_stream :: "nat \<Rightarrow> item list"
  le_planned :: "nat \<Rightarrow> ToolCall \<Rightarrow> int \<Rightarrow> string option"
  le_reactive :: "nat \<Rightarrow> AgentState \<Rightarrow> ContextManager \<Rightarrow> (AgentState \<times> ContextManager) option"
  le_responseHook :: "nat \<Rightarrow> AgentState \<Rightarrow> string + AgentState"
  le_recordAssistant :: "nat \<Rightarrow> string option"
  le_ask :: "nat \<Rightarrow> prompt"
  le_denied :: "nat \<Rightarrow> ToolCall \<Rightarrow> string option"
  le_aborted :: "nat \<Rightarrow> ToolCall \<Rightarrow> bool"
  le_between :: "nat \<Rightarrow> ToolCall \<Rightarrow> StreamingToolExecutor \<Rightarrow> StreamingToolExecutor"
  le_collect :: "nat \<Rightarrow> StreamingToolExecutor \<Rightarrow> StreamingToolExecutor \<times> gomap list \<times> StreamEvent list"
  le_afterTools :: "nat \<Rightarrow> AgentState \<Rightarrow> AgentState"

section \<open>Small steps\<close>

definition emit :: "StreamEvent \<Rightarrow> loop_world \<Rightarrow> loop_world" where
  "emit ev w = w\<lparr>lw_out := lw_out w @ [ev]\<rparr>"

definition emit_all :: "StreamEvent list \<Rightarrow> loop_world \<Rightarrow> loop_world" where
  "emit_all evs w = w\<lparr>lw_out := lw_out w @ evs\<rparr>"

definition done_event :: "string \<Rightarrow> StreamEvent" where
  "done_event msg = NewStreamEvent ''done'' msg []"

definition on_rt :: "(AgentRuntime \<Rightarrow> AgentRuntime) \<Rightarrow> loop_world \<Rightarrow> loop_world" where
  "on_rt f w = w\<lparr>lw_rt := f (lw_rt w)\<rparr>"

definition others :: "loop_env \<Rightarrow> nat \<Rightarrow> point \<Rightarrow> loop_world \<Rightarrow> loop_world" where
  "others E n p w = on_rt (le_others E n p) w"

definition publishDraft :: "loop_env \<Rightarrow> loop_world \<Rightarrow> loop_world \<times> string option" where
  "publishDraft E w =
     (case le_publish E (length (lw_drafts w)) (lw_state w) of
        (s, err) \<Rightarrow> (w\<lparr>lw_state := s, lw_drafts := lw_drafts w @ [s]\<rparr>, err))"

definition published :: "loop_env \<Rightarrow> loop_world \<Rightarrow> loop_world" where
  "published E w = fst (publishDraft E w)"

definition is_cancelled :: "loop_env \<Rightarrow> loop_world \<Rightarrow> bool" where
  "is_cancelled E w \<longleftrightarrow> rt_contexts (lw_rt w) (le_ctx E) \<noteq> None \<or> run_Phase (rt_run (lw_rt w)) = AgentPhaseCancelling"

definition FinishRequestCache :: "RunToken \<Rightarrow> bool \<Rightarrow> loop_world \<Rightarrow> loop_world" where
  "FinishRequestCache t success w =
     (if \<not> runActiveLocked t (lw_rt w) then w
      else if success
      then (if run_Phase (rt_run (lw_rt w)) \<noteq> AgentPhaseCancelling
            then w\<lparr>lw_cm := pinConsumedCacheEdits [tok_Generation t] (lw_cm w)\<rparr> else w)
      else w\<lparr>lw_cm := restoreInFlightCacheEdits [tok_Generation t] (lw_cm w)\<rparr>)"

definition ConsumeRequestCache :: "RunToken \<Rightarrow> string list \<Rightarrow> string \<Rightarrow> loop_world \<Rightarrow> loop_world" where
  "ConsumeRequestCache t ids model w =
     (if \<not> runActiveLocked t (lw_rt w) \<or> run_Phase (rt_run (lw_rt w)) = AgentPhaseCancelling then w
      else w\<lparr>lw_cm := fst (ConsumeCacheEditsForGeneration ids model (tok_Generation t) (lw_cm w))\<rparr>)"

text \<open>The left side of a flow is a loop that has returned.\<close>

type_synonym 'a flow = "loop_world + 'a"

definition fail_flow :: "string \<Rightarrow> gomap \<Rightarrow> bool \<Rightarrow> loop_world \<Rightarrow> 'a flow" where
  "fail_flow msg metadata finish w =
     Inl ((if finish then emit (done_event []) else id) (emit (NewStreamEvent ''error'' msg metadata) w))"

definition and_then :: "'a flow \<Rightarrow> ('a \<Rightarrow> 'b flow) \<Rightarrow> 'b flow" where
  "and_then x f = (case x of Inl w \<Rightarrow> Inl w | Inr a \<Rightarrow> f a)"

definition check_none :: "string option \<Rightarrow> gomap \<Rightarrow> bool \<Rightarrow> loop_world \<Rightarrow> loop_world flow" where
  "check_none err metadata finish w = (case err of None \<Rightarrow> Inr w | Some msg \<Rightarrow> fail_flow msg metadata finish w)"

definition check_state :: "string + AgentState \<Rightarrow> gomap \<Rightarrow> loop_world \<Rightarrow> loop_world flow" where
  "check_state r metadata w = (case r of Inl msg \<Rightarrow> fail_flow msg metadata True w | Inr s \<Rightarrow> Inr (w\<lparr>lw_state := s\<rparr>))"

definition publish_flow :: "loop_env \<Rightarrow> bool \<Rightarrow> loop_world \<Rightarrow> loop_world flow" where
  "publish_flow E finish w = (case publishDraft E w of (w', err) \<Rightarrow> check_none err [] finish w')"

definition hook_failure :: gomap where "hook_failure = [(''runtime_hook'', JBool True)]"
definition journal_failure :: gomap where "journal_failure = [(''runtime_journal'', JBool True)]"

section \<open>Before the request\<close>

definition max_turns :: "loop_env \<Rightarrow> int" where
  "max_turns E = (if le_maxParentTurns E \<le> 0 then MaxParentTurns else le_maxParentTurns E)"

definition turns_message :: "int \<Rightarrow> string" where
  "turns_message n = ''Reached maximum turns ('' @ show_int n @
     ''). The task may be too complex or stuck in a loop. Try breaking it into smaller steps.''"

definition round_head :: "loop_env \<Rightarrow> nat \<Rightarrow> loop_world \<Rightarrow> loop_world flow" where
  "round_head E n w =
     (let w1 = others E n AtHead w in
      if is_cancelled E w1 then Inl (emit (done_event ''Aborted by user.'') (published E w1))
      else case Transition (le_tok E) AgentPhasePreparing (lw_rt w1) of
        (r, Some _) \<Rightarrow> Inl (w1\<lparr>lw_rt := r\<rparr>)
      | (r, None) \<Rightarrow>
          (let w2 = w1\<lparr>lw_rt := r\<rparr> in
           if as_TurnCount (lw_state w2) \<ge> max_turns E
           then fail_flow (turns_message (max_turns E)) [] True (published E w2)
           else Inr w2))"

definition round_hooks :: "loop_env \<Rightarrow> nat \<Rightarrow> loop_world \<Rightarrow> loop_world flow" where
  "round_hooks E n w =
     and_then (check_none (le_beginStep E n) journal_failure True w) (\<lambda>w.
     and_then (check_state (le_stepHook E n (lw_state w)) hook_failure w) (\<lambda>w.
     and_then (publish_flow E False w) (\<lambda>w.
     and_then (case le_skillHook E n (lw_state w) of
                 Inl _ \<Rightarrow> fail_flow ''skill preparation hook failed'' hook_failure True w
               | Inr s \<Rightarrow> Inr (w\<lparr>lw_state := s\<rparr>)) (\<lambda>w.
     and_then (if le_mcpHook E n then fail_flow ''MCP preparation hook failed'' hook_failure False w else Inr w) (\<lambda>w.
       check_none (le_buildClient E n (or_CurrentMaxTokens (OutputRecovery (le_tok E) (lw_rt w)))) [] True
         (w\<lparr>lw_exec := NewStreamingToolExecutor [], lw_launched := []\<rparr>))))))"

definition compress_start :: "loop_env \<Rightarrow> nat \<Rightarrow> loop_world \<Rightarrow> loop_world" where
  "compress_start E n w =
     (if le_compresses E n then on_rt (\<lambda>r. fst (StartRecovery (le_tok E) RecoveryContext ''context compression'' r)) w else w)"

definition compile_request :: "loop_env \<Rightarrow> nat \<Rightarrow> loop_world \<Rightarrow> (loop_world \<times> gomap list) flow" where
  "compile_request E n w =
     and_then (publish_flow E True w) (\<lambda>w.
      let w1 = compress_start E n w
      in case le_prepareContext E n (lw_state w1) (lw_cm w1) of
        (Inl err, s, cm) \<Rightarrow> fail_flow err [] True (w1\<lparr>lw_state := s, lw_cm := cm\<rparr>)
      | (Inr msgs, s, cm) \<Rightarrow>
          (let w2 = w1\<lparr>lw_state := s, lw_cm := cm\<rparr> in
           case le_contextHook E n msgs of
             Inl err \<Rightarrow> fail_flow err hook_failure True w2
           | Inr msgs' \<Rightarrow>
               Inr (w2, StripMessageMetadata (NormalizeMessages (le_order E) (RepairOrphanTools msgs') (le_model E n)
                      (as_RecentApiErrors s)))))"

text \<open>Cache marks are dropped when the budget has no room for them.\<close>

definition with_cache :: "loop_env \<Rightarrow> nat \<Rightarrow> loop_world \<times> gomap list \<Rightarrow> loop_world \<times> gomap list" where
  "with_cache E n x =
     (case x of (w, compiled) \<Rightarrow>
        (case applyRollingCache (le_model E n) compiled (lw_points w) of
           (msgs, points) \<Rightarrow> (w\<lparr>lw_points := points\<rparr>, if le_validate E msgs = None then msgs else compiled)))"

definition start_request :: "loop_env \<Rightarrow> nat \<Rightarrow> loop_world \<times> gomap list \<Rightarrow> loop_world flow" where
  "start_request E n x =
     (case x of (w, compiled) \<Rightarrow>
      and_then (check_none (le_validate E compiled) [] True w) (\<lambda>w.
      (case with_cache E n (w, compiled) of (w, msgs) \<Rightarrow>
      and_then (check_none (le_recordCompiled E n) [] True w) (\<lambda>w.
      and_then (check_none (le_recordRequest E n) journal_failure True w) (\<lambda>w.
        let w1 = others E n BeforeCall (ConsumeRequestCache (le_tok E) (VisibleToolResultIDs msgs) (le_model E n) w) in
        case Transition (le_tok E) AgentPhaseCallingModel (lw_rt w1) of
          (r, Some _) \<Rightarrow> Inl (w1\<lparr>lw_rt := r\<rparr>)
        | (r, None) \<Rightarrow> Inr (w1\<lparr>lw_rt := r, lw_requests := lw_requests w1 @ [msgs]\<rparr>))))))"

section \<open>The reply\<close>

definition aborted_reply :: "loop_env \<Rightarrow> loop_world \<Rightarrow> 'a flow" where
  "aborted_reply E w = Inl (emit (done_event ''Aborted by user.'') (published E (FinishRequestCache (le_tok E) False w)))"

text \<open>An item that is an error; the other result is the turn with which reading stops.\<close>

definition reply_error :: "loop_env \<Rightarrow> go_error \<Rightarrow> LoopTurn \<Rightarrow> loop_world \<Rightarrow> (loop_world \<times> LoopTurn) flow" where
  "reply_error E e turn w =
     (let msg = error_text (le_statusText E) e; metadata = le_errorMetadata E e; t = le_tok E in
      if IsFatalAPIError msg
      then Inl (emit (done_event []) (emit (NewStreamEvent ''error'' msg metadata)
             (published E ((FinishRequestCache t False w)\<lparr>lw_state := rememberAPIError msg (lw_state w)\<rparr>))))
      else if IsPTLErrorMessage msg then Inr (w, turn\<lparr>mt_PTLDetected := True, mt_PTLErrorMsg := msg\<rparr>)
      else let w1 = on_rt (\<lambda>r. fst (StartRecovery t RecoveryAPI msg (SetAPIErrors t (APIErrors t r + 1) r))) w;
               w2 = w1\<lparr>lw_state := rememberAPIError msg (lw_state w1)\<rparr> in
        if APIErrors t (lw_rt w2) \<ge> MaxAPIErrorRetries
        then Inl (emit (done_event []) (published E (emit (apiErrorEvent msg metadata) (FinishRequestCache t False w2))))
        else Inr (emit (NewStreamEvent ''error'' (''API error (recovered): '' @ msg) (mput ''recovered'' (JBool True) metadata)) w2,
                  turn\<lparr>mt_StreamHadError := True\<rparr>))"

text \<open>An event; the flag tells whether reading stops.\<close>

definition reply_event :: "loop_env \<Rightarrow> nat \<Rightarrow> gomap \<Rightarrow> LoopTurn \<Rightarrow> loop_world \<Rightarrow> (loop_world \<times> LoopTurn \<times> bool) flow" where
  "reply_event E n event turn w =
     (let t = le_tok E;
          h = HandleStreamEvent (le_tr E) (le_registry E n) (le_planned E n) event turn (lw_exec w) (lw_state w) (APIErrors t (lw_rt w));
          a = h_action h;
          w1 = w\<lparr>lw_exec := h_exec h, lw_state := h_state h, lw_launched := lw_launched w @ h_launch h\<rparr>;
          w2 = (if h_publish h then published E w1 else w1);
          w3 = on_rt (SetAPIErrors t (sa_ConsecutiveAPIErrors a)) w2;
          w4 = (case sa_Event a of None \<Rightarrow> w3 | Some ev \<Rightarrow> emit ev w3)
      in if sa_Return a then Inl (emit (done_event []) (FinishRequestCache t False w4))
         else Inr (w4, h_turn h, sa_Break a))"

fun read_reply :: "loop_env \<Rightarrow> nat \<Rightarrow> nat \<Rightarrow> item list \<Rightarrow> LoopTurn \<Rightarrow> loop_world \<Rightarrow> (loop_world \<times> LoopTurn) flow" where
  "read_reply E n k [] turn w = Inr (w, turn)"
| "read_reply E n k (x # xs) turn w =
     (let w1 = others E n (AtItem k) w in
      if is_cancelled E w1 then aborted_reply E w1
      else case x of
        Er e \<Rightarrow> reply_error E e turn w1
      | Ev event \<Rightarrow>
          and_then (reply_event E n event turn w1) (\<lambda>(w2, turn', stop).
            if stop then Inr (w2, turn') else read_reply E n (Suc k) xs turn' w2))"

section \<open>After the reply\<close>

text \<open>How a round ends: with the next round, or with the end of the loop.\<close>

datatype round_end = NextRound loop_world | Ended loop_world

definition close_reply :: "loop_env \<Rightarrow> LoopTurn \<Rightarrow> loop_world \<Rightarrow> loop_world \<times> LoopTurn" where
  "close_reply E turn w =
     (let t = le_tok E;
          w1 = FinishRequestCache t (\<not> (mt_StreamHadError turn \<or> mt_PTLDetected turn)) w;
          turn' = (if ShouldCommitFinalTextAfterStreamError turn then turn\<lparr>mt_StreamHadError := False\<rparr> else turn)
      in (if mt_StreamHadError turn' then w1 else on_rt (SetAPIErrors t 0) w1, turn'))"

definition ptl_event :: StreamEvent where
  "ptl_event = NewStreamEvent ''error'' ''Prompt too long: unable to reduce required context'' []"

text \<open>\<open>RecoverContext\<close> of a draft with an owner, which every draft of the loop has.\<close>

definition recover_context :: "loop_env \<Rightarrow> nat \<Rightarrow> LoopTurn \<Rightarrow> loop_world \<Rightarrow> round_end" where
  "recover_context E n turn w =
     (let t = le_tok E in
      case TryRecovery t RecoveryContext 3 (lw_rt w) of
        (r, False) \<Rightarrow> Ended (emit (NewStreamEvent ''error'' ''Context recovery retry limit reached'' []) (w\<lparr>lw_rt := r\<rparr>))
      | (r, True) \<Rightarrow>
          (let w1 = on_rt (\<lambda>r. fst (StartRecovery t RecoveryContext (mt_PTLErrorMsg turn) r)) (w\<lparr>lw_rt := r\<rparr>) in
           case le_reactive E n (lw_state w1) (lw_cm w1) of
             Some (s, cm) \<Rightarrow>
               NextRound (on_rt (ResetOutputRecovery t (le_apiMaxTokens E))
                 (w1\<lparr>lw_state := s\<lparr>as_LastContinueReason := ContinueReasonReactiveCompactRetry\<rparr>, lw_cm := ResetCache cm, lw_points := []\<rparr>))
           | None \<Rightarrow> Ended (emit (done_event []) (published E (emit ptl_event w1)))))"

definition commit_turn :: "LoopTurn \<Rightarrow> AgentState \<Rightarrow> AgentState" where
  "commit_turn turn s =
     CommitAssistantTurn (mt_uuid turn) (mt_ThinkingContent turn) (mt_FullText turn) (mt_ToolCalls turn) (mt_MessageID turn)
       (mt_InputTokens turn) (mt_OutputTokens turn) s"

definition commit_reply :: "loop_env \<Rightarrow> nat \<Rightarrow> LoopTurn \<Rightarrow> loop_world \<Rightarrow> loop_world flow" where
  "commit_reply E n turn w =
     (let w1 = on_rt (ResetOutputRetries (le_tok E)) w; w2 = w1\<lparr>lw_state := commit_turn turn (lw_state w1)\<rparr>
      in and_then (check_state (le_responseHook E n (lw_state w2)) hook_failure w2) (\<lambda>w.
           if as_Messages (lw_state w) = [] then Inr w else check_none (le_recordAssistant E n) journal_failure True w))"

section \<open>Tools\<close>

definition slot_view :: "StreamingToolExecutor \<Rightarrow> slot_lookup" where
  "slot_view e i = map_option (\<lambda>s. (sl_IsError s, tc_Name (sl_TC s))) (GetSlot e i)"

definition result_event :: "string \<Rightarrow> ToolSlot \<Rightarrow> StreamEvent" where
  "result_event tid s =
     NewStreamEvent ''tool_result'' [] [(''tool_use_id'', JStr tid), (''tool_name'', JStr (tc_Name (sl_TC s))),
       (''result'', JStr (TruncateResult (sl_Truncated s) [500])), (''is_error'', JBool (sl_IsError s))]"

text \<open>A failed call of a tool that supports it aborts its siblings; a call that succeeded clears the denials and failures of its tool.\<close>

fun after_results :: "ToolRegistry \<Rightarrow> gomap list \<Rightarrow> StreamingToolExecutor \<times> AgentState \<times> StreamEvent list
    \<Rightarrow> StreamingToolExecutor \<times> AgentState \<times> StreamEvent list" where
  "after_results reg [] x = x"
| "after_results reg (r # rs) (e, s, evs) =
     (let tid = stringFromAny (fld r ''tool_use_id'') in
      case GetSlot e tid of
        None \<Rightarrow> after_results reg rs (e, s, evs)
      | Some slot \<Rightarrow>
          (let e' = (if sl_IsError slot \<and> (case GetTool reg (tc_Name (sl_TC slot)) of None \<Rightarrow> False | Some tool \<Rightarrow> tl_SupportsSiblingAbort tool)
                     then AbortSiblings reg tid e else e);
               s' = (if sl_IsError slot then s
                     else s\<lparr>as_DeniedToolCalls := mdel (tc_Name (sl_TC slot)) (as_DeniedToolCalls s),
                            as_ToolErrors := mdel (tc_Name (sl_TC slot)) (as_ToolErrors s)\<rparr>)
           in after_results reg rs (e', s', evs @ [result_event tid slot])))"

definition executeAndCommitTools :: "loop_env \<Rightarrow> nat \<Rightarrow> loop_world \<Rightarrow> loop_world" where
  "executeAndCommitTools E n w =
     (case le_collect E n (lw_exec w) of
        (e, results, progress) \<Rightarrow>
          (case after_results (le_registry E n) results (e, lw_state w, []) of
             (e', s, evs) \<Rightarrow>
               emit_all (progress @ evs)
                 (w\<lparr>lw_exec := e', lw_state := le_afterTools E n (CommitToolResultsTurn (Some (slot_view e')) results s)\<rparr>)))"

definition run_tools :: "loop_env \<Rightarrow> nat \<Rightarrow> LoopTurn \<Rightarrow> loop_world \<Rightarrow> round_end" where
  "run_tools E n turn w =
     (let w1 = others E n BeforeTools w in
      case Transition (le_tok E) AgentPhaseExecutingTools (lw_rt w1) of
        (r, Some _) \<Rightarrow> Ended (w1\<lparr>lw_rt := r\<rparr>)
      | (r, None) \<Rightarrow>
          (case Resolve (le_fs E) (le_registry E n) (le_ask E n) (le_denied E n) (le_aborted E n) (le_between E n) (mt_ToolCalls turn)
                  (lw_state w1) (lw_exec w1) of
             (e, s, launched, evs) \<Rightarrow>
               (let w2 = emit_all evs (w1\<lparr>lw_rt := r, lw_state := s, lw_exec := e, lw_launched := lw_launched w1 @ launched\<rparr>) in
                case publishDraft E w2 of
                  (w3, Some err) \<Rightarrow> Ended (emit (NewStreamEvent ''error'' err []) w3)
                | (w3, None) \<Rightarrow>
                    (let w4 = others E n AfterTools (executeAndCommitTools E n w3)
                     in NextRound (w4\<lparr>lw_state := (lw_state w4)\<lparr>as_TurnCount := as_TurnCount (lw_state w4) + 1\<rparr>\<rparr>)))))"

definition finish_turn :: "loop_env \<Rightarrow> nat \<Rightarrow> LoopTurn \<Rightarrow> loop_world \<Rightarrow> round_end" where
  "finish_turn E n turn w =
     (case commit_reply E n turn w of
        Inl w' \<Rightarrow> Ended w'
      | Inr w' \<Rightarrow>
          if mt_ToolCalls turn = [] then Ended (emit (done_event []) (published E w')) else run_tools E n turn w')"

definition after_reply :: "loop_env \<Rightarrow> nat \<Rightarrow> LoopTurn \<Rightarrow> loop_world \<Rightarrow> round_end" where
  "after_reply E n turn0 w0 =
     (case close_reply E turn0 (others E n AfterReply w0) of
        (w, turn) \<Rightarrow>
          (let t = le_tok E in
           if mt_StreamHadError turn \<and> mt_ToolCalls turn = [] \<and> APIErrors t (lw_rt w) < MaxAPIErrorRetries
           then NextRound (on_rt (\<lambda>r. fst (StartRecovery t RecoveryAPI ''retrying model request'' r)) w)
           else if mt_PTLDetected turn then recover_context E n turn w
           else if mt_OutputTruncated turn
           then (case RunHandleOutputTruncation t (lw_state w) (ModelTurn.truncate turn) (lw_rt w) of
                   (r, s, result) \<Rightarrow>
                     (let w' = w\<lparr>lw_rt := r, lw_state := s\<rparr> in
                      if ShouldContinue result then NextRound w'
                      else if ShouldReturn result
                      then Ended (emit (done_event []) (published E (case orr_Event result of None \<Rightarrow> w' | Some ev \<Rightarrow> emit ev w')))
                      else finish_turn E n turn w'))
           else finish_turn E n turn w))"

section \<open>Rounds\<close>

definition query_round :: "loop_env \<Rightarrow> nat \<Rightarrow> loop_world \<Rightarrow> round_end" where
  "query_round E n w =
     (case and_then (round_head E n w) (\<lambda>w. and_then (round_hooks E n w) (\<lambda>w. and_then (compile_request E n w) (\<lambda>x.
             and_then (start_request E n x) (read_reply E n 0 (le_stream E n) (new_turn (le_uuid E n)))))) of
        Inl w' \<Rightarrow> Ended w'
      | Inr (w', turn) \<Rightarrow> after_reply E n turn w')"

text \<open>\<open>None\<close> when the loop has not ended after so many rounds.\<close>

fun queryLoop :: "nat \<Rightarrow> loop_env \<Rightarrow> nat \<Rightarrow> loop_world \<Rightarrow> loop_world option" where
  "queryLoop 0 E n w = None"
| "queryLoop (Suc fuel) E n w =
     (case query_round E n w of Ended w' \<Rightarrow> Some w' | NextRound w' \<Rightarrow> queryLoop fuel E (Suc n) w')"

end
