(* ===== verification/Agent_Rounds.thy ===== *)
theory Agent_Rounds
  imports Agent_Loop
begin

text \<open>
  What the loop of \<open>Agent_Loop\<close> guarantees whatever the model streams: a run ends after a bounded number of rounds, and every
  request carries a conversation the API accepts. The bound is a budget: a round that leads to another one uses up part of the
  turns, of the context recoveries, of the continuations or of the consecutive errors, and what it gives back is less.
\<close>

section \<open>The counters of a run\<close>

text \<open>Context recoveries, output recovery and consecutive errors, as long as the run is active.\<close>

definition counters :: "RunToken \<Rightarrow> AgentRuntime \<Rightarrow> (int \<times> OutputRecoveryState \<times> int) option" where
  "counters t r =
     (if runActiveLocked t r
      then (let rec = run_Recovery (rt_run r) in Some (rc_ContextRetries rec, rc_Output rec, rc_APIErrors rec)) else None)"

lemma active_upd_recovery [simp]: "runActiveLocked t (upd_recovery f r) = runActiveLocked t r"
  by (simp add: runActiveLocked_def runMatchesLocked_def upd_recovery_def upd_run_def)

lemma recovery_upd_recovery [simp]: "run_Recovery (rt_run (upd_recovery f r)) = f (run_Recovery (rt_run r))"
  by (simp add: upd_recovery_def upd_run_def)

lemma loop_activity_active: "activityPhase p \<Longrightarrow> Active p"
  by (auto simp: activityPhase_def Active_def)

lemma refresh_fields:
  "run_ID (rt_run (refreshRunPhaseLocked r)) = run_ID (rt_run r)" "rt_generation (refreshRunPhaseLocked r) = rt_generation r"
  "run_Generation (rt_run (refreshRunPhaseLocked r)) = run_Generation (rt_run r)"
  "run_Recovery (rt_run (refreshRunPhaseLocked r)) = run_Recovery (rt_run r)"
  by (simp_all add: refreshRunPhaseLocked_def upd_run_def)

lemma refresh_Active: "Active (run_Phase (rt_run r)) \<Longrightarrow> Active (run_Activity (rt_run r)) \<Longrightarrow> Active (run_Phase (rt_run (refreshRunPhaseLocked r)))"
  by (simp add: refreshRunPhaseLocked_def upd_run_def Active_def)

lemma refresh_activity:
  assumes "runActiveLocked t r" "activityPhase to"
  shows "counters t (refreshRunPhaseLocked (upd_run (\<lambda>run. run\<lparr>run_Activity := to\<rparr>) r)) = counters t r"
proof -
  let ?r = "upd_run (\<lambda>run. run\<lparr>run_Activity := to\<rparr>) r"
  have "Active (run_Phase (rt_run (refreshRunPhaseLocked ?r)))"
    by (rule refresh_Active) (use assms loop_activity_active in \<open>simp_all add: upd_run_def runActiveLocked_def\<close>)
  with assms(1) show ?thesis
    unfolding counters_def runActiveLocked_def runMatchesLocked_def refresh_fields by (simp add: upd_run_def)
qed

lemma counters_Transition [simp]: "counters t (fst (Transition t to r)) = counters t r"
  by (simp add: Transition_def refresh_activity)

lemma counters_enter [simp]: "runActiveLocked t r \<Longrightarrow> counters t (enter_recovery r) = counters t r"
  unfolding enter_recovery_def by (rule refresh_activity) (simp_all add: activityPhase_def)

lemma counters_StartRecovery [simp]: "counters t (fst (StartRecovery t k m r)) = counters t r"
  by (simp add: StartRecovery_def) (simp add: counters_def Let_def)

lemma counters_SetAPIErrors [simp]: "counters t (SetAPIErrors t n r) = map_option (\<lambda>(c, out, a). (c, out, n)) (counters t r)"
  by (simp add: SetAPIErrors_def counters_def Let_def)

lemma counters_ResetOutputRecovery [simp]:
  "counters t (ResetOutputRecovery t l r) = map_option (\<lambda>(c, out, a). (c, ResetAfterHistoryReplace l out, a)) (counters t r)"
  by (simp add: ResetOutputRecovery_def counters_def Let_def)

lemma counters_ResetOutputRetries [simp]:
  "counters t (ResetOutputRetries t r) = map_option (\<lambda>(c, out, a). (c, ResetRetries out, a)) (counters t r)"
  by (simp add: ResetOutputRetries_def counters_def Let_def)

lemma APIErrors_counters: "counters t r = Some (c, out, a) \<Longrightarrow> APIErrors t r = a"
  by (auto simp: counters_def APIErrors_def runActiveLocked_def Let_def split: if_splits)

lemma counters_TryRecovery:
  assumes "TryRecovery t RecoveryContext 3 r = (r', True)"
  shows "\<exists>c out a. counters t r = Some (c, out, a) \<and> c < 3 \<and> counters t r' = Some (c + 1, out, a)"
  using assms by (auto simp: TryRecovery_def Let_def split: if_splits) (simp_all add: counters_def Let_def)

text \<open>The continuations that are left.\<close>

definition output_left :: "OutputRecoveryState \<Rightarrow> nat" where
  "output_left out = (if or_Escalated out then 0 else 1) + nat (3 - or_Retries out)"

lemma output_left_reset: "output_left (ResetAfterHistoryReplace l out) = 4" "output_left (ResetRetries out) \<le> output_left out + 3"
  by (simp_all add: output_left_def ResetAfterHistoryReplace_def ResetRetries_def)

lemma truncation_left:
  assumes "HandleOutputTruncation turn s out = (s', out', res)"
  shows "ShouldContinue res \<Longrightarrow> output_left out' < output_left out" "\<not> ShouldContinue res \<Longrightarrow> out' = out"
    "as_TurnCount s' = as_TurnCount s"
proof -
  have "as_TurnCount (CommitTextOnlyTruncation turn s) = as_TurnCount s" for s
    by (simp add: CommitTextOnlyTruncation_def AppendContinuationPrompt_def CommitAssistantTurn_def tagLastMessageWithSessionTurn_def
        AddUsage_def Let_def)
  then show "as_TurnCount s' = as_TurnCount s" using assms by (auto simp: HandleOutputTruncation_def split: if_splits)
  show "ShouldContinue res \<Longrightarrow> output_left out' < output_left out" "\<not> ShouldContinue res \<Longrightarrow> out' = out"
    using assms by (auto simp: HandleOutputTruncation_def ShouldContinue_def output_left_def MaxOutputRecoveryRetries_def split: if_splits)
qed

lemma counters_truncation:
  assumes "RunHandleOutputTruncation t s turn r = (r', s', res)"
  shows "\<not> ShouldReturn res \<Longrightarrow> \<exists>c out out' a. counters t r = Some (c, out, a) \<and> counters t r' = Some (c, out', a) \<and>
      (if ShouldContinue res then output_left out' < output_left out else out' = out)"
    "as_TurnCount s' = as_TurnCount s"
proof -
  obtain s1 out' res1 where h: "HandleOutputTruncation turn s (rc_Output (run_Recovery (rt_run r))) = (s1, out', res1)"
    by (metis prod_cases3)
  note left = truncation_left[OF h]
  show "as_TurnCount s' = as_TurnCount s" using assms left(3) by (auto simp: RunHandleOutputTruncation_def h Let_def split: if_splits)
  assume nr: "\<not> ShouldReturn res"
  then have act: "runActiveLocked t r" and res: "res = res1"
    using assms by (auto simp: RunHandleOutputTruncation_def ShouldReturn_def h Let_def split: if_splits)
  have "counters t r' = Some (rc_ContextRetries (run_Recovery (rt_run r)), out', rc_APIErrors (run_Recovery (rt_run r)))"
    using assms act nr by (auto simp: RunHandleOutputTruncation_def ShouldReturn_def h Let_def split: if_splits) (simp_all add: counters_def Let_def)
  then show "\<exists>c out out' a. counters t r = Some (c, out, a) \<and> counters t r' = Some (c, out', a) \<and>
      (if ShouldContinue res then output_left out' < output_left out else out' = out)"
    using act left(1,2) by (auto simp: counters_def Let_def res)
qed

section \<open>What a part of a round leaves alone\<close>

text \<open>What the loop relies on in its surroundings: other goroutines may end or cancel the run but do not touch its counters, and
  nobody else counts the turns of the draft.\<close>

definition steady_env :: "loop_env \<Rightarrow> bool" where
  "steady_env E \<longleftrightarrow>
     (\<forall>n p r. counters (le_tok E) (le_others E n p r) = None \<or> counters (le_tok E) (le_others E n p r) = counters (le_tok E) r) \<and>
     (\<forall>n s s'. le_stepHook E n s = Inr s' \<longrightarrow> as_TurnCount s' = as_TurnCount s) \<and>
     (\<forall>n s. as_TurnCount (fst (le_publish E n s)) = as_TurnCount s) \<and>
     (\<forall>n s s'. le_skillHook E n s = Inr s' \<longrightarrow> as_TurnCount s' = as_TurnCount s) \<and>
     (\<forall>n s cm. as_TurnCount (fst (snd (le_prepareContext E n s cm))) = as_TurnCount s) \<and>
     (\<forall>n s cm s' cm'. le_reactive E n s cm = Some (s', cm') \<longrightarrow> as_TurnCount s' = as_TurnCount s) \<and>
     (\<forall>n s s'. le_responseHook E n s = Inr s' \<longrightarrow> as_TurnCount s' = as_TurnCount s) \<and>
     (\<forall>n s. as_TurnCount (le_afterTools E n s) = as_TurnCount s)"

lemma steadyD:
  assumes "steady_env E"
  shows "le_stepHook E n s = Inr s' \<Longrightarrow> as_TurnCount s' = as_TurnCount s"
    "le_skillHook E n s = Inr s' \<Longrightarrow> as_TurnCount s' = as_TurnCount s"
    "le_reactive E n s cm = Some (s', cm') \<Longrightarrow> as_TurnCount s' = as_TurnCount s"
    "le_responseHook E n s = Inr s' \<Longrightarrow> as_TurnCount s' = as_TurnCount s"
    "as_TurnCount (le_afterTools E n s) = as_TurnCount s"
  using assms unfolding steady_env_def by metis+

definition turns :: "loop_world \<Rightarrow> int" where
  "turns w = as_TurnCount (lw_state w)"

definition calm :: "loop_env \<Rightarrow> loop_world \<Rightarrow> loop_world \<Rightarrow> bool" where
  "calm E w w' \<longleftrightarrow> turns w' = turns w \<and>
     (counters (le_tok E) (lw_rt w') = None \<or> counters (le_tok E) (lw_rt w') = counters (le_tok E) (lw_rt w))"

lemma run_calm_trans: "calm E a b \<Longrightarrow> calm E b c \<Longrightarrow> calm E a c"
  by (auto simp: calm_def)

lemma run_calm_same:
  "lw_rt w' = lw_rt w \<Longrightarrow> as_TurnCount (lw_state w') = as_TurnCount (lw_state w) \<Longrightarrow> calm E w w'"
  by (simp add: calm_def turns_def)

lemma calm_fields [simp]:
  "calm E w (w\<lparr>lw_cm := x1\<rparr>) = True" "calm E w (w\<lparr>lw_points := x2\<rparr>) = True" "calm E w (emit ev w) = True" "calm E w w = True"
  "calm E w (w\<lparr>lw_exec := x4, lw_launched := x5\<rparr>) = True" "calm E w (emit_all evs w) = True"
  by (simp_all add: calm_def turns_def emit_def emit_all_def)

lemma calm_others: "steady_env E \<Longrightarrow> calm E w (others E n p w)"
  by (simp add: calm_def others_def on_rt_def turns_def steady_env_def)

lemma calm_published: "steady_env E \<Longrightarrow> calm E w (fst (publishDraft E w))" "steady_env E \<Longrightarrow> calm E w (published E w)"
  by (simp_all add: calm_def turns_def published_def publishDraft_def steady_env_def case_prod_beta)

lemma calm_cache: "calm E w (FinishRequestCache t ok w)" "calm E w (ConsumeRequestCache t ids model w)"
  by (simp_all add: FinishRequestCache_def ConsumeRequestCache_def)

lemma calm_transition: "Transition (le_tok E) to (lw_rt w) = (r, err) \<Longrightarrow> calm E w (w\<lparr>lw_rt := r\<rparr>)"
  using counters_Transition[of "le_tok E" to "lw_rt w"] by (simp add: calm_def turns_def)

lemma calm_recovery: "calm E w (on_rt (\<lambda>r. fst (StartRecovery (le_tok E) k m r)) w)"
  by (simp add: calm_def turns_def on_rt_def)

lemma and_then_Inr: "and_then x f = Inr b \<longleftrightarrow> (\<exists>a. x = Inr a \<and> f a = Inr b)"
  by (auto simp: and_then_def split: sum.splits)

lemma check_none_Inr [simp]: "check_none err m fin w = Inr w' \<longleftrightarrow> err = None \<and> w' = w"
  by (auto simp: check_none_def fail_flow_def split: option.splits)

lemma fail_flow_Inr [simp]: "fail_flow msg m fin w \<noteq> Inr x"
  by (simp add: fail_flow_def)

lemma check_state_Inr: "check_state r m w = Inr w' \<longleftrightarrow> (\<exists>s. r = Inr s \<and> w' = w\<lparr>lw_state := s\<rparr>)"
  by (auto simp: check_state_def split: sum.splits)

text \<open>The first parts of a round.\<close>

lemma head_calm:
  assumes E: "steady_env E" and h: "round_head E n w = Inr w'"
  shows "calm E w w'" "counters (le_tok E) (lw_rt w) \<noteq> None" "turns w < max_turns E"
proof -
  let ?w = "others E n AtHead w"
  obtain r where r: "Transition (le_tok E) AgentPhasePreparing (lw_rt ?w) = (r, None)" "w' = ?w\<lparr>lw_rt := r\<rparr>"
    "as_TurnCount (lw_state ?w) < max_turns E"
    using h by (auto simp: round_head_def Let_def split: if_splits prod.splits option.splits)
  show "calm E w w'" using run_calm_trans[OF calm_others[OF E] calm_transition[OF r(1)]] r(2) by simp
  then show "turns w < max_turns E" using r(2,3) by (simp add: calm_def turns_def)
  have "runActiveLocked (le_tok E) (lw_rt ?w)" using r(1) by (auto simp: Transition_def split: if_splits)
  then have "counters (le_tok E) (lw_rt ?w) \<noteq> None" by (simp add: counters_def Let_def)
  then show "counters (le_tok E) (lw_rt w) \<noteq> None" using calm_others[OF E, of w n AtHead] by (auto simp: calm_def)
qed

lemma publish_flow_Inr [simp]: "publish_flow E fin w = Inr w' \<longleftrightarrow> snd (publishDraft E w) = None \<and> w' = fst (publishDraft E w)"
  by (auto simp: publish_flow_def case_prod_beta)

lemma hooks_calm:
  assumes E: "steady_env E" and h: "round_hooks E n w = Inr w'"
  shows "calm E w w'"
proof -
  obtain s1 where 1: "le_stepHook E n (lw_state w) = Inr s1"
    and h1: "and_then (publish_flow E False (w\<lparr>lw_state := s1\<rparr>)) (\<lambda>w.
      and_then (case le_skillHook E n (lw_state w) of Inl _ \<Rightarrow> fail_flow ''skill preparation hook failed'' hook_failure True w
                | Inr s \<Rightarrow> Inr (w\<lparr>lw_state := s\<rparr>)) (\<lambda>w.
      and_then (if le_mcpHook E n then fail_flow ''MCP preparation hook failed'' hook_failure False w else Inr w) (\<lambda>w.
        check_none (le_buildClient E n (or_CurrentMaxTokens (OutputRecovery (le_tok E) (lw_rt w)))) [] True
          (w\<lparr>lw_exec := NewStreamingToolExecutor [], lw_launched := []\<rparr>)))) = Inr w'"
    using h unfolding round_hooks_def by (subst (asm) and_then_Inr, subst (asm) and_then_Inr) (auto simp: check_state_Inr)
  define w2 where "w2 = fst (publishDraft E (w\<lparr>lw_state := s1\<rparr>))"
  obtain s2 where 2: "le_skillHook E n (lw_state w2) = Inr s2" and w': "w' = w2\<lparr>lw_state := s2, lw_exec := NewStreamingToolExecutor [], lw_launched := []\<rparr>"
    using h1 by (auto simp: and_then_Inr w2_def split: if_splits sum.splits)
  have "as_TurnCount s1 = as_TurnCount (lw_state w)" "as_TurnCount s2 = as_TurnCount (lw_state w2)"
    using steadyD(1,2)[OF E] 1 2 by simp_all
  then have "calm E w (w\<lparr>lw_state := s1\<rparr>)" "calm E w2 w'" by (simp_all add: calm_def turns_def w')
  with calm_published(1)[OF E, of "w\<lparr>lw_state := s1\<rparr>"] show ?thesis unfolding w2_def by (blast intro: run_calm_trans)
qed

lemma compile_calm:
  assumes E: "steady_env E" and h: "compile_request E n w = Inr (w', msgs)"
  shows "calm E w w'"
proof -
  define w2 where "w2 = compress_start E n (fst (publishDraft E w))"
  obtain m s cm where p: "le_prepareContext E n (lw_state w2) (lw_cm w2) = (m, s, cm)" and w': "w' = w2\<lparr>lw_state := s, lw_cm := cm\<rparr>"
    using h by (auto simp: compile_request_def and_then_Inr Let_def w2_def split: prod.splits sum.splits)
  have "as_TurnCount (fst (snd (le_prepareContext E n (lw_state w2) (lw_cm w2)))) = as_TurnCount (lw_state w2)"
    using E unfolding steady_env_def by blast
  then have "calm E w2 w'" using p by (simp add: calm_def turns_def w')
  moreover have "calm E (fst (publishDraft E w)) w2" by (simp add: calm_recovery w2_def compress_start_def)
  ultimately show ?thesis using calm_published(1)[OF E] by (blast intro: run_calm_trans)
qed

lemma start_calm:
  assumes E: "steady_env E" and h: "start_request E n (w, compiled) = Inr w'"
  shows "calm E w w'"
proof -
  obtain w1 msgs r where 1: "with_cache E n (w, compiled) = (w1, msgs)"
    and 2: "Transition (le_tok E) AgentPhaseCallingModel
        (lw_rt (others E n BeforeCall (ConsumeRequestCache (le_tok E) (VisibleToolResultIDs msgs) (le_model E n) w1))) = (r, None)"
      "w' = others E n BeforeCall (ConsumeRequestCache (le_tok E) (VisibleToolResultIDs msgs) (le_model E n) w1)
         \<lparr>lw_rt := r, lw_requests := lw_requests (others E n BeforeCall (ConsumeRequestCache (le_tok E) (VisibleToolResultIDs msgs) (le_model E n) w1)) @ [msgs]\<rparr>"
    using h by (auto simp: start_request_def and_then_Inr Let_def split: prod.splits option.splits)
  have "calm E w w1" using 1 by (auto simp: with_cache_def split: prod.splits)
  moreover note calm_cache(2)[of E w1 "le_tok E" "VisibleToolResultIDs msgs" "le_model E n"]
  moreover note calm_others[OF E, of "ConsumeRequestCache (le_tok E) (VisibleToolResultIDs msgs) (le_model E n) w1" n BeforeCall]
  moreover note calm_transition[OF 2(1)]
  moreover have "calm E (others E n BeforeCall (ConsumeRequestCache (le_tok E) (VisibleToolResultIDs msgs) (le_model E n) w1)\<lparr>lw_rt := r\<rparr>) w'"
    by (simp add: 2(2) calm_def turns_def)
  ultimately show ?thesis by (blast intro: run_calm_trans)
qed

section \<open>The reply\<close>

text \<open>Until it stops, reading a reply leaves the number of consecutive errors alone; it stops with one more exactly when the turn
  is marked as broken off by an error.\<close>

definition reply_effect :: "loop_env \<Rightarrow> loop_world \<Rightarrow> loop_world \<Rightarrow> LoopTurn \<Rightarrow> bool" where
  "reply_effect E w w' turn \<longleftrightarrow> turns w' = turns w \<and>
     (counters (le_tok E) (lw_rt w') = None \<or>
      (\<exists>c out a. counters (le_tok E) (lw_rt w) = Some (c, out, a) \<and>
         counters (le_tok E) (lw_rt w') = Some (c, out, if mt_StreamHadError turn then a + 1 else a)))"

lemma calm_effect: "calm E w1 w2 \<Longrightarrow> reply_effect E w2 w3 turn \<Longrightarrow> reply_effect E w1 w3 turn"
  by (auto simp: calm_def reply_effect_def)

lemma effect_refl: "\<not> mt_StreamHadError turn \<Longrightarrow> reply_effect E w w turn"
  by (cases "counters (le_tok E) (lw_rt w)") (auto simp: reply_effect_def)

lemma handle_error_facts:
  assumes "h = handle_error event turn e s n" "\<not> mt_StreamHadError turn" "\<not> sa_Return (h_action h)"
  shows "as_TurnCount (h_state h) = as_TurnCount s" "sa_Break (h_action h)"
    "sa_ConsecutiveAPIErrors (h_action h) = (if mt_StreamHadError (h_turn h) then n + 1 else n)"
  using assms by (auto simp: handle_error_def Let_def rememberAPIError_def split: if_splits)

lemma extend_thinking_error [simp]: "mt_StreamHadError (extend_thinking k txt turn) = mt_StreamHadError turn"
  by (simp add: extend_thinking_def)

lemma if_both: "P a \<Longrightarrow> P b \<Longrightarrow> P (if c then a else b)"
  by simp

definition event_ok :: "gomap \<Rightarrow> LoopTurn \<Rightarrow> StreamingToolExecutor \<Rightarrow> AgentState \<Rightarrow> int \<Rightarrow> handled \<Rightarrow> bool" where
  "event_ok event turn e s n h \<longleftrightarrow> \<not> mt_StreamHadError turn \<longrightarrow>
     h = handle_error event turn e s n \<or> h_state h = s \<and> sa_ConsecutiveAPIErrors (h_action h) = n \<and> \<not> mt_StreamHadError (h_turn h)"

lemma event_ok_handled: "event_ok event turn e s n (HandleStreamEvent tr reg planned event turn e s n)"
  unfolding HandleStreamEvent_def Let_def
  by (intro if_both[where P = "event_ok event turn e s n"]) (auto simp: event_ok_def split: option.splits prod.splits)

lemma HandleStreamEvent_facts:
  assumes "h = HandleStreamEvent tr reg planned event turn e s n" "\<not> mt_StreamHadError turn" "\<not> sa_Return (h_action h)"
  shows "as_TurnCount (h_state h) = as_TurnCount s"
    "sa_ConsecutiveAPIErrors (h_action h) = (if mt_StreamHadError (h_turn h) then n + 1 else n)"
    "\<not> sa_Break (h_action h) \<Longrightarrow> \<not> mt_StreamHadError (h_turn h)"
proof -
  consider "h = handle_error event turn e s n" | "h_state h = s" "sa_ConsecutiveAPIErrors (h_action h) = n" "\<not> mt_StreamHadError (h_turn h)"
    using event_ok_handled[of event turn e s n tr reg planned] assms(1,2) unfolding event_ok_def by blast
  then show "as_TurnCount (h_state h) = as_TurnCount s"
    "sa_ConsecutiveAPIErrors (h_action h) = (if mt_StreamHadError (h_turn h) then n + 1 else n)"
    "\<not> sa_Break (h_action h) \<Longrightarrow> \<not> mt_StreamHadError (h_turn h)"
    using handle_error_facts[OF _ assms(2,3)] by (cases; simp)+
qed

lemma reply_event_effect:
  assumes E: "steady_env E" and "\<not> mt_StreamHadError turn" and ev: "reply_event E n event turn w = Inr (w', turn', stop)"
  shows "reply_effect E w w' turn'" "\<not> stop \<Longrightarrow> \<not> mt_StreamHadError turn'"
proof -
  define h where "h = HandleStreamEvent (le_tr E) (le_registry E n) (le_planned E n) event turn (lw_exec w) (lw_state w) (APIErrors (le_tok E) (lw_rt w))"
  have r: "\<not> sa_Return (h_action h)" and turn': "turn' = h_turn h" "stop = sa_Break (h_action h)"
    using ev by (auto simp: reply_event_def Let_def h_def split: if_splits)
  note facts = HandleStreamEvent_facts[OF h_def assms(2) r]
  define w2 where "w2 = (if h_publish h then published E (w\<lparr>lw_exec := h_exec h, lw_state := h_state h, lw_launched := lw_launched w @ h_launch h\<rparr>)
    else w\<lparr>lw_exec := h_exec h, lw_state := h_state h, lw_launched := lw_launched w @ h_launch h\<rparr>)"
  have c2: "calm E w w2"
  proof -
    have "calm E w (w\<lparr>lw_exec := h_exec h, lw_state := h_state h, lw_launched := lw_launched w @ h_launch h\<rparr>)"
      using facts(1) by (simp add: calm_def turns_def)
    then show ?thesis using calm_published(2)[OF E] unfolding w2_def by (auto intro: run_calm_trans)
  qed
  have "lw_rt w' = SetAPIErrors (le_tok E) (sa_ConsecutiveAPIErrors (h_action h)) (lw_rt w2)" "turns w' = turns w2"
    using ev r by (auto simp: reply_event_def Let_def h_def[symmetric] w2_def on_rt_def emit_def turns_def split: option.splits)
  moreover have "counters (le_tok E) (lw_rt w) = Some (c, out, a) \<Longrightarrow> sa_ConsecutiveAPIErrors (h_action h) = (if mt_StreamHadError turn' then a + 1 else a)" for c out a
    using APIErrors_counters facts(2) turn' by simp
  ultimately show "reply_effect E w w' turn'" using c2
    by (cases "counters (le_tok E) (lw_rt w)") (auto simp: calm_def reply_effect_def)
  show "\<not> stop \<Longrightarrow> \<not> mt_StreamHadError turn'" using facts(3) turn' by simp
qed

lemma reply_error_effect:
  assumes E: "steady_env E" and "\<not> mt_StreamHadError turn" and "reply_error E e turn w = Inr (w', turn')"
  shows "reply_effect E w w' turn'"
proof (cases "IsPTLErrorMessage (error_text (le_statusText E) e)")
  case True
  then show ?thesis using assms by (auto simp: reply_error_def Let_def effect_refl split: if_splits)
next
  case False
  then have "mt_StreamHadError turn'" "lw_rt w' = fst (StartRecovery (le_tok E) RecoveryAPI (error_text (le_statusText E) e)
      (SetAPIErrors (le_tok E) (APIErrors (le_tok E) (lw_rt w) + 1) (lw_rt w)))" "turns w' = turns w"
    using assms(3) by (auto simp: reply_error_def Let_def emit_def on_rt_def turns_def rememberAPIError_def split: if_splits)
  then show ?thesis using APIErrors_counters[of "le_tok E" "lw_rt w"]
    by (cases "counters (le_tok E) (lw_rt w)") (auto simp: reply_effect_def)
qed

lemma read_reply_effect:
  assumes "steady_env E" "\<not> mt_StreamHadError turn" "read_reply E n k xs turn w = Inr (w', turn')"
  shows "reply_effect E w w' turn'"
  using assms
proof (induction E n k xs turn w rule: read_reply.induct)
  case (1 E n k turn w)
  then show ?case by (auto simp: effect_refl)
next
  case (2 E n k x xs turn w)
  let ?w = "others E n (AtItem k) w"
  have nc: "\<not> is_cancelled E ?w" using "2.prems"(3) by (auto simp: Let_def aborted_reply_def)
  have "reply_effect E ?w w' turn'"
  proof (cases x)
    case (Er e)
    then show ?thesis using "2.prems" nc by (auto simp: Let_def intro: reply_error_effect)
  next
    case (Ev event)
    obtain w2 turn2 stop where ev: "reply_event E n event turn ?w = Inr (w2, turn2, stop)"
      and rest: "(if stop then Inr (w2, turn2) else read_reply E n (Suc k) xs turn2 w2) = Inr (w', turn')"
      using "2.prems"(3) nc Ev by (auto simp: Let_def and_then_Inr)
    note eff = reply_event_effect[OF "2.prems"(1,2) ev]
    show ?thesis
    proof (cases stop)
      case True
      then show ?thesis using eff(1) rest by simp
    next
      case False
      then have "reply_effect E w2 w' turn'"
        using "2.IH"[OF refl nc Ev False "2.prems"(1) eff(2)[OF False]] rest by simp
      moreover have "calm E ?w w2" using eff(1) eff(2)[OF False] by (auto simp: calm_def reply_effect_def)
      ultimately show ?thesis by (rule calm_effect[rotated])
    qed
  qed
  then show ?case using calm_effect[OF calm_others[OF "2.prems"(1)]] by blast
qed

section \<open>The budget of a run\<close>

definition counter_budget :: "int \<times> OutputRecoveryState \<times> int \<Rightarrow> nat" where
  "counter_budget x = (case x of (c, out, a) \<Rightarrow> 20 * nat (3 - c) + 4 * output_left out + nat (3 - a))"

definition budget :: "loop_env \<Rightarrow> loop_world \<Rightarrow> nat" where
  "budget E w =
     (case counters (le_tok E) (lw_rt w) of None \<Rightarrow> 0 | Some x \<Rightarrow> 16 * nat (max_turns E - turns w) + counter_budget x)"

lemma counter_budget_reset: "counter_budget (c, out, 0) \<le> counter_budget (c, out, a) + 3"
  by (simp add: counter_budget_def)

text \<open>What the end of a round uses up, in terms of the counters after the reply.\<close>

lemma TurnCount_commit [simp]: "as_TurnCount (commit_turn turn s) = as_TurnCount s"
  by (simp add: commit_turn_def CommitAssistantTurn_def tagLastMessageWithSessionTurn_def AddUsage_def Let_def)

lemma TurnCount_results [simp]: "as_TurnCount (CommitToolResultsTurn ex rs s) = as_TurnCount s"
  by (auto simp: CommitToolResultsTurn_def AddToolFailureHint_def AppendToolResultsMessage_def tagLastMessageWithSessionTurn_def Let_def
      split: option.splits prod.splits)

lemma TurnCount_after_results [simp]: "as_TurnCount (fst (snd (after_results reg rs (e, s, evs)))) = as_TurnCount s"
  by (induction reg rs "(e, s, evs)" arbitrary: e s evs rule: after_results.induct) (auto simp: Let_def split: option.splits)

lemma TurnCount_permission [simp]:
  "as_TurnCount (forget_failures tc st) = as_TurnCount st" "as_TurnCount (persistAlwaysGrant env tc tool st) = as_TurnCount st"
  "as_TurnCount (enable_yolo st) = as_TurnCount st" "as_TurnCount (rs_state (refuse_call journal tc evs st e)) = as_TurnCount st"
  by (simp_all add: forget_failures_def persistAlwaysGrant_def enable_yolo_def refuse_call_def DeniedToolResultContent_def Let_def
      split: option.splits prod.splits)

lemma TurnCount_resolve_call [simp]: "as_TurnCount (rs_state (resolve_call env reg ask journal aborted tc st e)) = as_TurnCount st"
proof -
  have "as_TurnCount (rs_state (resolve_permission env reg ask journal tc tool v evs st e)) = as_TurnCount st" for tool v evs e
    by (simp add: resolve_permission_def case_prod_beta)
  then show ?thesis
    by (simp add: resolve_call_def Let_def resolve_unsandboxed_def case_prod_beta split: option.split setup_outcome.split)
qed

lemma TurnCount_Resolve [simp]:
  "as_TurnCount (fst (snd (Resolve env reg ask journal isAborted between tcs st e))) = as_TurnCount st"
  by (induction tcs arbitrary: st e) (simp_all add: Let_def case_prod_beta)

lemma commit_reply_effect:
  assumes E: "steady_env E" and h: "commit_reply E n turn w = Inr w'"
  shows "turns w' = turns w" "counters (le_tok E) (lw_rt w') = map_option (\<lambda>(c, out, a). (c, ResetRetries out, a)) (counters (le_tok E) (lw_rt w))"
proof -
  define w2 where "w2 = (on_rt (ResetOutputRetries (le_tok E)) w)\<lparr>lw_state := commit_turn turn (lw_state w)\<rparr>"
  obtain s where s: "le_responseHook E n (lw_state w2) = Inr s" "w' = w2\<lparr>lw_state := s\<rparr>"
    using h by (auto simp: commit_reply_def Let_def and_then_Inr check_state_Inr w2_def on_rt_def split: if_splits)
  have "as_TurnCount s = as_TurnCount (lw_state w2)" using steadyD(4)[OF E s(1)] .
  then show "turns w' = turns w" "counters (le_tok E) (lw_rt w') = map_option (\<lambda>(c, out, a). (c, ResetRetries out, a)) (counters (le_tok E) (lw_rt w))"
    by (simp_all add: s(2) w2_def on_rt_def turns_def)
qed

lemma execute_calm: "steady_env E \<Longrightarrow> calm E w (executeAndCommitTools E n w)"
proof -
  assume E: "steady_env E"
  obtain e rs pr where 1: "le_collect E n (lw_exec w) = (e, rs, pr)" by (metis prod_cases3)
  obtain e' s evs where 2: "after_results (le_registry E n) rs (e, lw_state w, []) = (e', s, evs)" by (metis prod_cases3)
  have "as_TurnCount s = as_TurnCount (lw_state w)" using TurnCount_after_results[of "le_registry E n" rs e "lw_state w" "[]"] 2 by simp
  then show ?thesis by (simp add: executeAndCommitTools_def 1 2 calm_def turns_def emit_all_def steadyD(5)[OF E])
qed

lemma run_tools_effect:
  assumes E: "steady_env E" and h: "run_tools E n turn w = NextRound w'"
  shows "turns w' = turns w + 1"
    "counters (le_tok E) (lw_rt w') = None \<or> counters (le_tok E) (lw_rt w') = counters (le_tok E) (lw_rt w)"
proof -
  define w1 where "w1 = others E n BeforeTools w"
  obtain r where r: "Transition (le_tok E) AgentPhaseExecutingTools (lw_rt w1) = (r, None)"
    using h by (auto simp: run_tools_def Let_def w1_def split: prod.splits option.splits)
  obtain e s launched evs where rs: "Resolve (le_fs E) (le_registry E n) (le_ask E n) (le_denied E n) (le_aborted E n) (le_between E n)
      (mt_ToolCalls turn) (lw_state w1) (lw_exec w1) = (e, s, launched, evs)" by (metis prod_cases4)
  define w2 where "w2 = emit_all evs (w1\<lparr>lw_rt := r, lw_state := s, lw_exec := e, lw_launched := lw_launched w1 @ launched\<rparr>)"
  define w4 where "w4 = others E n AfterTools (executeAndCommitTools E n (fst (publishDraft E w2)))"
  have w': "w' = w4\<lparr>lw_state := (lw_state w4)\<lparr>as_TurnCount := as_TurnCount (lw_state w4) + 1\<rparr>\<rparr>"
    using h by (auto simp: run_tools_def Let_def w1_def[symmetric] r rs w2_def[symmetric] w4_def split: prod.splits option.splits)
  have "as_TurnCount s = as_TurnCount (lw_state w1)"
    using TurnCount_Resolve[of "le_fs E" "le_registry E n" "le_ask E n" "le_denied E n" "le_aborted E n" "le_between E n"
      "mt_ToolCalls turn" "lw_state w1" "lw_exec w1"] rs by simp
  then have "calm E w1 w2" using calm_transition[OF r] by (simp add: w2_def calm_def turns_def emit_all_def)
  moreover have "calm E w w1" "calm E w2 (fst (publishDraft E w2))" unfolding w1_def by (rule calm_others[OF E] calm_published(1)[OF E])+
  moreover note execute_calm[OF E, of "fst (publishDraft E w2)" n] calm_others[OF E, of "executeAndCommitTools E n (fst (publishDraft E w2))" n AfterTools]
  ultimately have "calm E w w4" unfolding w4_def by (blast intro: run_calm_trans)
  then show "turns w' = turns w + 1"
    "counters (le_tok E) (lw_rt w') = None \<or> counters (le_tok E) (lw_rt w') = counters (le_tok E) (lw_rt w)"
    by (auto simp: w' calm_def turns_def)
qed

text \<open>A round that has counted \<open>a1\<close> consecutive errors leaves less of the budget than it found, by any of its ways to go on.\<close>

definition uses_up :: "int \<times> OutputRecoveryState \<times> int \<Rightarrow> int \<Rightarrow> (int \<times> OutputRecoveryState \<times> int) option \<Rightarrow> bool" where
  "uses_up x turn_step y \<longleftrightarrow> (case y of None \<Rightarrow> True | Some y \<Rightarrow> counter_budget y < counter_budget x + 16 * nat turn_step)"

lemma uses_up_budget:
  assumes "counters (le_tok E) (lw_rt w) = Some x" "turns w < max_turns E" "turns w' = turns w + k" "k = 0 \<or> k = 1"
    and "uses_up x k (counters (le_tok E) (lw_rt w'))"
  shows "budget E w' < budget E w"
  using assms by (cases "counters (le_tok E) (lw_rt w')") (auto simp: budget_def uses_up_def nat_less_eq_zless)

lemma nat_reset: "a1 = a + 1 \<or> a1 = 0 \<Longrightarrow> nat (3 - a1) \<le> nat (3 - a) + 3" for a :: int
  by auto

lemma close_reply_facts:
  assumes "close_reply E turn w = (w1, turn1)" "counters (le_tok E) (lw_rt w) = Some (c, out, if mt_StreamHadError turn then a + 1 else a)"
  shows "turns w1 = turns w" "counters (le_tok E) (lw_rt w1) = Some (c, out, if mt_StreamHadError turn1 then a + 1 else 0)"
proof -
  let ?w = "FinishRequestCache (le_tok E) (\<not> (mt_StreamHadError turn \<or> mt_PTLDetected turn)) w"
  have "lw_rt ?w = lw_rt w" "turns ?w = turns w" by (simp_all add: FinishRequestCache_def turns_def)
  with assms show "turns w1 = turns w" "counters (le_tok E) (lw_rt w1) = Some (c, out, if mt_StreamHadError turn1 then a + 1 else 0)"
    by (auto simp: close_reply_def Let_def on_rt_def turns_def ShouldCommitFinalTextAfterStreamError_def split: if_splits)
qed

lemma close_reply_None:
  "close_reply E turn w = (w1, turn1) \<Longrightarrow> counters (le_tok E) (lw_rt w) = None \<Longrightarrow> counters (le_tok E) (lw_rt w1) = None \<and> turns w1 = turns w"
  by (auto simp: close_reply_def Let_def on_rt_def turns_def FinishRequestCache_def split: if_splits)

lemma recover_context_effect:
  assumes E: "steady_env E" and h: "recover_context E n turn w = NextRound w'"
  shows "turns w' = turns w \<and> (\<exists>c out a. counters (le_tok E) (lw_rt w) = Some (c, out, a) \<and> c < 3 \<and>
    counters (le_tok E) (lw_rt w') = Some (c + 1, ResetAfterHistoryReplace (le_apiMaxTokens E) out, a))"
proof -
  obtain r where tried: "TryRecovery (le_tok E) RecoveryContext 3 (lw_rt w) = (r, True)"
    using h by (auto simp: recover_context_def Let_def split: prod.splits bool.splits)
  define w1 where "w1 = on_rt (\<lambda>r. fst (StartRecovery (le_tok E) RecoveryContext (mt_PTLErrorMsg turn) r)) (w\<lparr>lw_rt := r\<rparr>)"
  obtain s cm where s: "le_reactive E n (lw_state w1) (lw_cm w1) = Some (s, cm)"
    and w': "w' = on_rt (ResetOutputRecovery (le_tok E) (le_apiMaxTokens E))
       (w1\<lparr>lw_state := s\<lparr>as_LastContinueReason := ContinueReasonReactiveCompactRetry\<rparr>, lw_cm := ResetCache cm, lw_points := []\<rparr>)"
    using h by (auto simp: recover_context_def Let_def tried w1_def[symmetric] split: option.splits prod.splits)
  have "counters (le_tok E) (lw_rt w1) = counters (le_tok E) r" "as_TurnCount (lw_state w1) = turns w"
    by (simp_all add: w1_def on_rt_def turns_def)
  with counters_TryRecovery[OF tried] steadyD(3)[OF E s] show ?thesis by (auto simp: w' on_rt_def turns_def)
qed

lemma finish_turn_effect:
  assumes E: "steady_env E" and h: "finish_turn E n turn w = NextRound w'"
  shows "turns w' = turns w + 1" "counters (le_tok E) (lw_rt w') = None \<or>
    counters (le_tok E) (lw_rt w') = map_option (\<lambda>(c, out, a). (c, ResetRetries out, a)) (counters (le_tok E) (lw_rt w))"
proof -
  obtain w1 where c: "commit_reply E n turn w = Inr w1" and r: "run_tools E n turn w1 = NextRound w'"
    using h by (auto simp: finish_turn_def split: sum.splits if_splits)
  show "turns w' = turns w + 1" "counters (le_tok E) (lw_rt w') = None \<or>
    counters (le_tok E) (lw_rt w') = map_option (\<lambda>(c, out, a). (c, ResetRetries out, a)) (counters (le_tok E) (lw_rt w))"
    using commit_reply_effect[OF E c] run_tools_effect[OF E r] by auto
qed

text \<open>The four ways of a round to go on.\<close>

lemma after_reply_cases:
  assumes "after_reply E n turn0 w0 = NextRound w'" "close_reply E turn0 (others E n AfterReply w0) = (w, turn)"
  obtains (retried) "mt_StreamHadError turn" "APIErrors (le_tok E) (lw_rt w) < 3"
      "w' = on_rt (\<lambda>r. fst (StartRecovery (le_tok E) RecoveryAPI ''retrying model request'' r)) w"
  | (shortened) "recover_context E n turn w = NextRound w'"
  | (continued) r s res where "RunHandleOutputTruncation (le_tok E) (lw_state w) (ModelTurn.truncate turn) (lw_rt w) = (r, s, res)"
      "ShouldContinue res" "\<not> ShouldReturn res" "w' = w\<lparr>lw_rt := r, lw_state := s\<rparr>"
  | (proceeded) r s res where "RunHandleOutputTruncation (le_tok E) (lw_state w) (ModelTurn.truncate turn) (lw_rt w) = (r, s, res)"
      "\<not> ShouldContinue res" "\<not> ShouldReturn res" "finish_turn E n turn (w\<lparr>lw_rt := r, lw_state := s\<rparr>) = NextRound w'"
  | (finished) "finish_turn E n turn w = NextRound w'"
proof -
  have disj: "ShouldContinue res \<Longrightarrow> \<not> ShouldReturn res" for res by (auto simp: ShouldContinue_def ShouldReturn_def)
  show thesis
  proof (cases "mt_StreamHadError turn \<and> mt_ToolCalls turn = [] \<and> APIErrors (le_tok E) (lw_rt w) < MaxAPIErrorRetries")
    case True
    with assms show ?thesis by (intro retried) (simp_all add: after_reply_def Let_def MaxAPIErrorRetries_def)
  next
    case no_retry: False
    show ?thesis
    proof (cases "mt_PTLDetected turn")
      case True
      with assms no_retry show ?thesis by (intro shortened) (auto simp: after_reply_def Let_def)
    next
      case no_ptl: False
      show ?thesis
      proof (cases "mt_OutputTruncated turn")
        case True
        obtain r s res where res: "RunHandleOutputTruncation (le_tok E) (lw_state w) (ModelTurn.truncate turn) (lw_rt w) = (r, s, res)"
          by (metis prod_cases3)
        have step: "(if ShouldContinue res then NextRound (w\<lparr>lw_rt := r, lw_state := s\<rparr>)
            else if ShouldReturn res
            then Ended (emit (done_event []) (published E (case orr_Event res of None \<Rightarrow> w\<lparr>lw_rt := r, lw_state := s\<rparr>
                   | Some ev \<Rightarrow> emit ev (w\<lparr>lw_rt := r, lw_state := s\<rparr>))))
            else finish_turn E n turn (w\<lparr>lw_rt := r, lw_state := s\<rparr>)) = NextRound w'"
          using assms(1) True no_ptl no_retry unfolding after_reply_def assms(2) by (simp add: Let_def res)
        show ?thesis
        proof (cases "ShouldContinue res")
          case True
          then show ?thesis using continued[OF res] step disj by simp
        next
          case False
          then show ?thesis using proceeded[OF res] step by (simp split: if_splits)
        qed
      next
        case False
        with assms no_retry no_ptl show ?thesis by (intro finished) (auto simp: after_reply_def Let_def)
      qed
    qed
  qed
qed

lemma after_reply_uses_up:
  assumes E: "steady_env E" and h: "after_reply E n turn0 w = NextRound w'"
    and eff: "reply_effect E w0 w turn0" and x: "counters (le_tok E) (lw_rt w0) = Some (c, out, a)"
  shows "\<exists>k. turns w' = turns w0 + k \<and> (k = 0 \<or> k = 1) \<and> uses_up (c, out, a) k (counters (le_tok E) (lw_rt w'))"
proof -
  obtain w1 turn where cl: "close_reply E turn0 (others E n AfterReply w) = (w1, turn)" by (metis surj_pair)
  have calm: "calm E w (others E n AfterReply w)" by (rule calm_others[OF E])
  show ?thesis
  proof (cases "counters (le_tok E) (lw_rt (others E n AfterReply w))")
    case None
    have w1: "counters (le_tok E) (lw_rt w1) = None" "turns w1 = turns w0"
      using close_reply_None[OF cl None] calm eff by (auto simp: calm_def reply_effect_def)
    from h cl show ?thesis
    proof (cases rule: after_reply_cases)
      case finished
      then show ?thesis using finish_turn_effect[OF E finished] w1 by (auto simp: uses_up_def)
    next
      case (proceeded r s res)
      then show ?thesis using counters_truncation(1)[OF proceeded(1)] w1 by auto
    next
      case (continued r s res)
      then show ?thesis using counters_truncation(1)[OF continued(1)] w1 by auto
    next
      case shortened
      then show ?thesis using recover_context_effect[OF E shortened] w1 by auto
    qed (use w1 in \<open>auto simp: uses_up_def on_rt_def turns_def\<close>)
  next
    case (Some y)
    define a1 where "a1 = (if mt_StreamHadError turn then a + 1 else 0)"
    have "counters (le_tok E) (lw_rt (others E n AfterReply w)) = Some (c, out, if mt_StreamHadError turn0 then a + 1 else a)"
      using Some calm eff x by (auto simp: calm_def reply_effect_def)
    note cf = close_reply_facts[OF cl this]
    have w1: "counters (le_tok E) (lw_rt w1) = Some (c, out, a1)" "turns w1 = turns w0"
      using cf calm eff by (auto simp: calm_def reply_effect_def a1_def)
    have a1: "nat (3 - a1) \<le> nat (3 - a) + 3" by (rule nat_reset) (simp add: a1_def)
    from h cl show ?thesis
    proof (cases rule: after_reply_cases)
      case retried
      then have "a1 = a + 1" "a1 < 3" using APIErrors_counters[OF w1(1)] by (simp_all add: a1_def)
      then show ?thesis using w1 retried(3) by (auto simp: uses_up_def counter_budget_def on_rt_def turns_def)
    next
      case shortened
      then show ?thesis using recover_context_effect[OF E shortened] w1 a1 output_left_reset(1)
        by (auto simp: uses_up_def counter_budget_def)
    next
      case (continued r s res)
      then show ?thesis using counters_truncation[OF continued(1)] w1 a1 by (auto simp: uses_up_def counter_budget_def turns_def)
    next
      case (proceeded r s res)
      have "counters (le_tok E) r = Some (c, out, a1)" "as_TurnCount s = turns w0"
        using counters_truncation[OF proceeded(1)] proceeded(2,3) w1 by (auto simp: turns_def)
      then show ?thesis using finish_turn_effect[OF E proceeded(4)] a1 output_left_reset(2)[of out]
        by (auto simp: uses_up_def counter_budget_def turns_def)
    next
      case finished
      then show ?thesis using finish_turn_effect[OF E finished] w1 a1 output_left_reset(2)[of out]
        by (auto simp: uses_up_def counter_budget_def)
    qed
  qed
qed

lemma round_uses_budget:
  assumes E: "steady_env E" and h: "query_round E n w = NextRound w'"
  shows "budget E w' < budget E w"
proof -
  obtain w1 w2 w3 msgs w4 w5 turn where 1: "round_head E n w = Inr w1" and 2: "round_hooks E n w1 = Inr w2"
    and 3: "compile_request E n w2 = Inr (w3, msgs)" and 4: "start_request E n (w3, msgs) = Inr w4"
    and 5: "read_reply E n 0 (le_stream E n) (new_turn (le_uuid E n)) w4 = Inr (w5, turn)" and 6: "after_reply E n turn w5 = NextRound w'"
    using h unfolding query_round_def by (auto simp: and_then_Inr split: sum.splits)
  have "calm E w w4" using head_calm(1)[OF E 1] hooks_calm[OF E 2] compile_calm[OF E 3] start_calm[OF E 4] by (blast intro: run_calm_trans)
  moreover have "reply_effect E w4 w5 turn" using read_reply_effect[OF E _ 5] by (simp add: new_turn_def)
  ultimately have eff: "reply_effect E w w5 turn" by (rule calm_effect)
  obtain c out a where x: "counters (le_tok E) (lw_rt w) = Some (c, out, a)" using head_calm(2)[OF E 1] by auto
  from after_reply_uses_up[OF E 6 eff x] head_calm(3)[OF E 1] x show ?thesis by (auto intro: uses_up_budget)
qed

section \<open>Requests\<close>

definition keeps_requests :: "('a \<Rightarrow> loop_world) \<Rightarrow> loop_world \<Rightarrow> 'a flow \<Rightarrow> bool" where
  "keeps_requests sel w x \<longleftrightarrow> (case x of Inl w' \<Rightarrow> lw_requests w' = lw_requests w | Inr a \<Rightarrow> lw_requests (sel a) = lw_requests w)"

lemma keeps_and_then:
  assumes "keeps_requests sel w x" "\<And>a. x = Inr a \<Longrightarrow> keeps_requests sel' (sel a) (f a)"
  shows "keeps_requests sel' w (and_then x f)"
  using assms by (cases x) (auto simp: keeps_requests_def and_then_def split: sum.splits)

lemma requests_frame [simp]:
  "lw_requests (emit ev w) = lw_requests w" "lw_requests (emit_all evs w) = lw_requests w" "lw_requests (others E n p w) = lw_requests w"
  "lw_requests (published E w) = lw_requests w" "lw_requests (fst (publishDraft E w)) = lw_requests w" "lw_requests (on_rt f w) = lw_requests w"
  "lw_requests (FinishRequestCache t ok w) = lw_requests w" "lw_requests (ConsumeRequestCache t ids m w) = lw_requests w"
  "lw_requests (compress_start E n w) = lw_requests w" "lw_requests (executeAndCommitTools E n w) = lw_requests w"
  by (simp_all add: emit_def emit_all_def others_def published_def publishDraft_def on_rt_def FinishRequestCache_def ConsumeRequestCache_def
      compress_start_def executeAndCommitTools_def case_prod_beta)

lemma keeps_basic [simp]:
  "keeps_requests sel w (fail_flow msg m fin w1) \<longleftrightarrow> lw_requests w1 = lw_requests w"
  "keeps_requests sel w (Inl w1) \<longleftrightarrow> lw_requests w1 = lw_requests w" "keeps_requests sel w (Inr a) \<longleftrightarrow> lw_requests (sel a) = lw_requests w"
  "keeps_requests id w (check_none err m fin w1) \<longleftrightarrow> lw_requests w1 = lw_requests w"
  "keeps_requests id w (check_state r m w1) \<longleftrightarrow> lw_requests w1 = lw_requests w"
  "keeps_requests id w (publish_flow E fin w1) \<longleftrightarrow> lw_requests w1 = lw_requests w"
  "keeps_requests sel w (aborted_reply E w1) \<longleftrightarrow> lw_requests w1 = lw_requests w"
  by (simp_all add: keeps_requests_def fail_flow_def check_none_def check_state_def publish_flow_def aborted_reply_def case_prod_beta
      split: option.splits sum.splits)

lemma head_requests: "keeps_requests id w (round_head E n w)"
  by (simp add: round_head_def Let_def split: prod.splits option.splits)

lemma hooks_requests: "keeps_requests id w (round_hooks E n w)"
  unfolding round_hooks_def
  by (intro keeps_and_then[where sel = id]) (simp_all split: sum.splits)

lemma compile_requests: "keeps_requests fst w (compile_request E n w)"
  unfolding compile_request_def
  by (intro keeps_and_then[where sel = id]) (simp_all add: Let_def split: sum.splits prod.splits)

lemma event_requests: "keeps_requests fst w (reply_event E n event turn w)"
  by (simp add: reply_event_def Let_def keeps_requests_def split: option.splits)

lemma error_requests: "keeps_requests fst w (reply_error E e turn w)"
  by (simp add: reply_error_def Let_def)

lemma keeps_trans: "lw_requests w1 = lw_requests w \<Longrightarrow> keeps_requests sel w1 x \<Longrightarrow> keeps_requests sel w x"
  by (simp add: keeps_requests_def split: sum.splits)

lemma reply_requests: "keeps_requests fst w (read_reply E n k xs turn w)"
proof (induction E n k xs turn w rule: read_reply.induct)
  case (2 E n k x xs turn w)
  let ?w = "others E n (AtItem k) w"
  show ?case
  proof (cases "is_cancelled E ?w")
    case False
    show ?thesis
    proof (cases x)
      case (Ev event)
      have "keeps_requests fst ?w (and_then (reply_event E n event turn ?w) (\<lambda>(w2, turn', stop).
          if stop then Inr (w2, turn') else read_reply E n (Suc k) xs turn' w2))"
        by (rule keeps_and_then[OF event_requests]) (use 2[OF refl False Ev] in \<open>auto split: prod.splits\<close>)
      then show ?thesis using False Ev by (auto simp: Let_def intro: keeps_trans[rotated])
    qed (use False in \<open>auto simp: Let_def intro: keeps_trans[OF _ error_requests]\<close>)
  qed (simp add: Let_def)
qed simp

fun end_world :: "round_end \<Rightarrow> loop_world" where
  "end_world (NextRound w) = w"
| "end_world (Ended w) = w"

lemma commit_requests: "keeps_requests id w (commit_reply E n turn w)"
  unfolding commit_reply_def Let_def by (rule keeps_and_then[where sel = id]) simp_all

lemma tools_requests: "lw_requests (end_world (run_tools E n turn w)) = lw_requests w"
proof -
  have "publishDraft E w1 = (w2, err) \<Longrightarrow> lw_requests w2 = lw_requests w1" for w1 w2 err
    using requests_frame(5)[of E w1] by simp
  then show ?thesis by (simp add: run_tools_def Let_def split: prod.splits option.splits)
qed

lemma finish_requests: "lw_requests (end_world (finish_turn E n turn w)) = lw_requests w"
  using commit_requests[of w E n turn] by (auto simp: finish_turn_def keeps_requests_def tools_requests split: sum.splits)

lemma recover_requests: "lw_requests (end_world (recover_context E n turn w)) = lw_requests w"
  by (simp add: recover_context_def Let_def split: prod.splits option.splits bool.splits)

lemma after_reply_requests: "lw_requests (end_world (after_reply E n turn w)) = lw_requests w"
proof -
  have "close_reply E turn w1 = (w2, turn2) \<Longrightarrow> lw_requests w2 = lw_requests w1" for w1 w2 turn2
    by (auto simp: close_reply_def Let_def split: if_splits)
  then show ?thesis unfolding after_reply_def Let_def by (simp add: finish_requests recover_requests split: prod.splits option.splits)
qed

text \<open>A round sends at most one request, and what it sends is a conversation in which every call is answered at once.\<close>

lemma start_requests:
  assumes "sendable compiled"
  shows "case start_request E n (w, StripMessageMetadata compiled) of
      Inl w' \<Rightarrow> lw_requests w' = lw_requests w | Inr w' \<Rightarrow> \<exists>msgs. sendable msgs \<and> lw_requests w' = lw_requests w @ [msgs]"
proof (cases "start_request E n (w, StripMessageMetadata compiled)")
  case (Inl w')
  have "with_cache E n (w, compiled) = (w1, msgs) \<Longrightarrow> lw_requests w1 = lw_requests w" for w1 msgs compiled
    by (auto simp: with_cache_def split: prod.splits)
  with Inl show ?thesis
    by (auto simp: start_request_def and_then_def check_none_def fail_flow_def Let_def split: prod.splits sum.splits option.splits)
next
  case (Inr w')
  obtain w1 msgs where 1: "with_cache E n (w, StripMessageMetadata compiled) = (w1, msgs)" by (metis surj_pair)
  then have "lw_requests w1 = lw_requests w" "sendable msgs"
    using sent_messages_sendable[OF assms] by (auto simp: with_cache_def split: prod.splits if_splits) (metis fst_conv)
  moreover have "lw_requests w' = lw_requests w1 @ [msgs]"
    using Inr 1 by (auto simp: start_request_def and_then_Inr Let_def split: prod.splits option.splits)
  ultimately show ?thesis using Inr by auto
qed

lemma compile_form:
  assumes "compile_request E n w = Inr (w', msgs)"
  shows "\<exists>ms. sendable ms \<and> msgs = StripMessageMetadata ms"
proof -
  obtain ms errs where "msgs = StripMessageMetadata (NormalizeMessages (le_order E) ms (le_model E n) errs)"
    using assms by (auto simp: compile_request_def and_then_Inr Let_def split: prod.splits sum.splits)
  moreover have "sendable (NormalizeMessages (le_order E) ms (le_model E n) errs)"
    by (rule normalized_sendable)
  ultimately show ?thesis by blast
qed

lemma round_requests:
  "\<exists>new. lw_requests (end_world (query_round E n w)) = lw_requests w @ new \<and> length new \<le> 1 \<and> list_all sendable new"
proof -
  define pre where "pre = and_then (round_head E n w) (\<lambda>w. and_then (round_hooks E n w) (\<lambda>w. compile_request E n w))"
  have k: "keeps_requests fst w pre" unfolding pre_def
    by (rule keeps_and_then[OF head_requests], rule keeps_and_then[where sel = id]) (simp_all add: hooks_requests compile_requests)
  have round: "query_round E n w = (case and_then pre (\<lambda>x. and_then (start_request E n x) (read_reply E n 0 (le_stream E n) (new_turn (le_uuid E n)))) of
      Inl w' \<Rightarrow> Ended w' | Inr (w', turn) \<Rightarrow> after_reply E n turn w')"
    unfolding query_round_def pre_def by (simp add: and_then_def split: sum.splits)
  show ?thesis
  proof (cases pre)
    case (Inl w')
    then show ?thesis using k by (simp add: round and_then_def keeps_requests_def)
  next
    case (Inr x)
    obtain w1 msgs where x: "x = (w1, msgs)" by (cases x)
    obtain w0 where "compile_request E n w0 = Inr (w1, msgs)" using Inr unfolding pre_def x by (auto simp: and_then_Inr)
    then obtain ms where ms: "sendable ms" "msgs = StripMessageMetadata ms" using compile_form by blast
    have w1: "lw_requests w1 = lw_requests w" using k Inr x by (simp add: keeps_requests_def)
    show ?thesis
    proof (cases "start_request E n (w1, msgs)")
      case (Inl w2)
      then show ?thesis using start_requests[where E = E and n = n and w = w1, OF ms(1)] Inr w1 by (simp add: round and_then_def x ms(2))
    next
      case (Inr w2)
      then obtain sent where sent: "sendable sent" "lw_requests w2 = lw_requests w @ [sent]"
        using start_requests[where E = E and n = n and w = w1, OF ms(1)] w1 by (auto simp: ms(2))
      have "lw_requests (end_world (query_round E n w)) = lw_requests w2"
        using reply_requests[of w2 E n 0 "le_stream E n" "new_turn (le_uuid E n)"] \<open>pre = Inr x\<close> Inr
        by (auto simp: round x and_then_def keeps_requests_def after_reply_requests split: sum.splits)
      then show ?thesis using sent by auto
    qed
  qed
qed

lemma requests_grow:
  assumes "queryLoop fuel E n w = Some w'"
  shows "\<exists>new. lw_requests w' = lw_requests (end_world (query_round E n w)) @ new \<and> list_all sendable new"
  using assms
proof (induction fuel arbitrary: n w)
  case (Suc fuel)
  show ?case
  proof (cases "query_round E n w")
    case (NextRound w1)
    with Suc.prems obtain rest where "lw_requests w' = lw_requests (end_world (query_round E (Suc n) w1)) @ rest" "list_all sendable rest"
      using Suc.IH[of "Suc n" w1] by auto
    then show ?thesis using round_requests[of E "Suc n" w1] NextRound by auto
  qed (use Suc.prems in auto)
qed simp

lemma sendable_immediate: "list_all sendable ms \<Longrightarrow> list_all immediate ms"
  by (simp add: sendable_def list_all_iff)

section \<open>Properties\<close>

text \<open>C4: Every request of a run carries a conversation in which no message is empty and each tool call of the assistant that carries an
  identifier is answered by the next message, with one result per call in their order, whatever the hooks, the compression and the model did to
  the conversation before. When every call of the request carries an identifier, every call is answered that way; a call without one is not.\<close>

theorem requests_are_well_formed:
  assumes "queryLoop fuel E n w = Some w'"
  shows "\<exists>new. lw_requests w' = lw_requests w @ new \<and>
    list_all (\<lambda>ms. immediate ms \<and> (identified ms \<longrightarrow> every_call_answered ms)) new"
proof -
  obtain new where "lw_requests w' = lw_requests w @ new" "list_all immediate new"
    using requests_grow[OF assms] round_requests[of E n w] sendable_immediate by fastforce
  then show ?thesis using immediate_answers_every_call by (auto simp: list_all_iff)
qed

lemma queryLoop_ends:
  assumes "steady_env E" "budget E w < fuel"
  shows "\<exists>w'. queryLoop fuel E n w = Some w' \<and> length (lw_requests w') \<le> length (lw_requests w) + budget E w + 1"
  using assms(2)
proof (induction fuel arbitrary: n w)
  case (Suc fuel)
  obtain new where new: "lw_requests (end_world (query_round E n w)) = lw_requests w @ new" "length new \<le> 1"
    using round_requests[of E n w] by blast
  show ?case
  proof (cases "query_round E n w")
    case (Ended w1)
    then show ?thesis using new by auto
  next
    case (NextRound w1)
    then have less: "budget E w1 < budget E w" by (rule round_uses_budget[OF assms(1)])
    then obtain w' where "queryLoop fuel E (Suc n) w1 = Some w'" "length (lw_requests w') \<le> length (lw_requests w1) + budget E w1 + 1"
      using Suc.IH[of w1 "Suc n"] Suc.prems by auto
    then show ?thesis using NextRound new less by auto
  qed
qed simp

lemma fresh_budget:
  assumes "beginRun uuid now c i limits r = (lw_rt w, Inr (le_tok E))" "0 \<le> turns w"
  shows "budget E w \<le> 16 * nat (max_turns E) + 79"
proof -
  have "run_Recovery (rt_run (lw_rt w)) = no_recovery\<lparr>rc_Output := NewOutputRecoveryState (case limits of [] \<Rightarrow> 16000 | x # _ \<Rightarrow> x)\<rparr>"
  proof -
    have "lw_rt w = fst (beginRun uuid now c i limits r)" "snd (beginRun uuid now c i limits r) = Inr (le_tok E)" using assms(1) by simp_all
    then show ?thesis by (auto simp: beginRun_def beginRunLocked_def Let_def split: if_splits option.splits)
  qed
  then have "counters (le_tok E) (lw_rt w) = None \<or>
      (\<exists>out. counters (le_tok E) (lw_rt w) = Some (0, out, 0) \<and> output_left out = 4)"
    by (auto simp: counters_def no_recovery_def NewOutputRecoveryState_def output_left_def Let_def)
  then show ?thesis using assms(2) by (auto simp: budget_def counter_budget_def)
qed

text \<open>C3: A run ends, whatever the model streams: after at most sixteen requests per allowed turn and eighty more, of which most are
  repetitions after errors, shortened conversations and continuations of truncated replies.\<close>

theorem agent_run_ends:
  assumes "steady_env E" "beginRun uuid now c i limits r = (lw_rt w, Inr (le_tok E))"
    and "0 \<le> as_TurnCount (lw_state w)"
  shows "\<exists>w'. queryLoop (16 * nat (max_turns E) + 80) E n w = Some w' \<and>
    length (lw_requests w') \<le> length (lw_requests w) + 16 * nat (max_turns E) + 80"
proof -
  have "budget E w \<le> 16 * nat (max_turns E) + 79" using fresh_budget[OF assms(2)] assms(3) by (simp add: turns_def)
  then show ?thesis using queryLoop_ends[OF assms(1), of w "16 * nat (max_turns E) + 80" n] by fastforce
qed

text \<open>The operations other goroutines perform on a run are calm: they end the run for this token or leave its counters alone.\<close>

lemma counters_same:
  "rt_generation r' = rt_generation r \<Longrightarrow> run_ID (rt_run r') = run_ID (rt_run r) \<Longrightarrow> run_Generation (rt_run r') = run_Generation (rt_run r) \<Longrightarrow>
   run_Recovery (rt_run r') = run_Recovery (rt_run r) \<Longrightarrow>
   (Active (run_Phase (rt_run r')) \<Longrightarrow> Active (run_Phase (rt_run r))) \<Longrightarrow> counters t r' = None \<or> counters t r' = counters t r"
  by (auto simp: counters_def runActiveLocked_def runMatchesLocked_def Let_def)

lemma cancelWaiters_fields:
  "rt_generation (cancelWaitersLocked r) = rt_generation r" "run_ID (rt_run (cancelWaitersLocked r)) = run_ID (rt_run r)"
  "run_Generation (rt_run (cancelWaitersLocked r)) = run_Generation (rt_run r)"
  "run_Recovery (rt_run (cancelWaitersLocked r)) = run_Recovery (rt_run r)" "run_Phase (rt_run (cancelWaitersLocked r)) = run_Phase (rt_run r)"
  by (simp_all add: cancelWaitersLocked_def upd_run_def)

lemma cancel_context_fields:
  "rt_generation (cancel_context c r) = rt_generation r" "rt_run (cancel_context c r) = rt_run r"
  by (simp_all add: cancel_context_def split: option.splits)

lemma cancelRunLocked_calm: "counters t (fst (cancelRunLocked t' reason r)) = None \<or> counters t (fst (cancelRunLocked t' reason r)) = counters t r"
  by (rule counters_same) (auto simp: cancelRunLocked_def Let_def cancelWaiters_fields upd_run_def runActiveLocked_def split: if_splits)

lemma other_operations_are_calm:
  "counters t (cancelRun t' reason r) = None \<or> counters t (cancelRun t' reason r) = counters t r"
  "counters t (ObserveRunEvent t' ev r) = None \<or> counters t (ObserveRunEvent t' ev r) = counters t r"
  "counters t (fst (EndRun t' now r)) = None \<or> counters t (fst (EndRun t' now r)) = counters t r"
  "counters t (fst (reset_locked stored r)) = None \<or> counters t (fst (reset_locked stored r)) = counters t r"
proof -
  have "counters t (cancel_context c r) = counters t r" for c r
    unfolding counters_def runActiveLocked_def runMatchesLocked_def cancel_context_fields by (rule refl)
  then show "counters t (cancelRun t' reason r) = None \<or> counters t (cancelRun t' reason r) = counters t r"
    using cancelRunLocked_calm[of t t' reason r] by (simp add: cancelRun_def case_prod_beta)
  show "counters t (ObserveRunEvent t' ev r) = None \<or> counters t (ObserveRunEvent t' ev r) = counters t r"
    by (rule counters_same) (simp_all add: ObserveRunEvent_def FailRun_def upd_run_def split: if_splits)
  show "counters t (fst (EndRun t' now r)) = None \<or> counters t (fst (EndRun t' now r)) = counters t r"
    by (rule counters_same) (auto simp: EndRun_def Let_def cancelWaiters_fields cancel_context_fields upd_run_def runActiveLocked_def split: if_splits)
  have "idleRun g = x \<Longrightarrow> \<not> Active (run_Phase x)" for g x by (auto simp: idleRun_def Active_def)
  then show "counters t (fst (reset_locked stored r)) = None \<or> counters t (fst (reset_locked stored r)) = counters t r"
    by (auto simp: reset_locked_def counters_def runActiveLocked_def split: option.splits)
qed

section \<open>A run with a tool call\<close>

definition sample_run :: "AgentRuntime \<times> (run_error + RunToken)" where
  "sample_run = beginRun ''u1'' 5 0 ''r1'' [] (NewAgentRuntime 1)"

definition sample_call :: gomap where
  "sample_call = [(''type'', JStr ''tool_use''), (''id'', JStr ''t1''), (''name'', JStr ''read_file''), (''input'', JObj [])]"

definition sample_loop_env :: loop_env where
  "sample_loop_env =
     \<lparr>le_tok = \<lparr>tok_Generation = 1, tok_ID = ''r1''\<rparr>, le_ctx = 0, le_maxParentTurns = 0, le_apiMaxTokens = 16000,
      le_model = (\<lambda>_. ''gpt''), le_registry = (\<lambda>_. sample_registry), le_fs = sample_env, le_tr = (\<lambda>_. 0),
      le_order = id, le_statusText = (\<lambda>_. []), le_errorMetadata = (\<lambda>_. []), le_others = (\<lambda>_ _ r. r), le_beginStep = (\<lambda>_. None),
      le_stepHook = (\<lambda>_ s. Inr s), le_publish = (\<lambda>_ s. (s, None)), le_skillHook = (\<lambda>_ s. Inr s), le_mcpHook = (\<lambda>_. False),
      le_buildClient = (\<lambda>_ _. None), le_compresses = (\<lambda>_. False), le_prepareContext = (\<lambda>_ s cm. (Inr (as_Messages s), s, cm)),
      le_contextHook = (\<lambda>_ ms. Inr ms), le_validate = (\<lambda>_. None), le_recordCompiled = (\<lambda>_. None), le_recordRequest = (\<lambda>_. None),
      le_uuid = (\<lambda>n. if n = 0 then ''m0'' else if n = 1 then ''m1'' else ''m2''),
      le_stream = (\<lambda>n. if n = 0 then [Er (PlainError ''eof'')] else if n = 1 then [Ev sample_call]
                        else [Ev [(''type'', JStr ''text_delta''), (''text'', JStr ''fine'')]]),
      le_planned = (\<lambda>_ _ _. None), le_reactive = (\<lambda>_ _ _. None), le_responseHook = (\<lambda>_ s. Inr s), le_recordAssistant = (\<lambda>_. None),
      le_ask = (\<lambda>_. None), le_denied = (\<lambda>_ _. None), le_aborted = (\<lambda>_ _. False), le_between = (\<lambda>_ _ e. e),
      le_collect = (\<lambda>_ e. (e, [tool_result_block ''t1'' ''text of the file''], [])), le_afterTools = (\<lambda>_ s. s)\<rparr>"

definition sample_world :: loop_world where
  "sample_world =
     \<lparr>lw_rt = fst sample_run, lw_cm = NewContextManager ''gpt'' False, lw_state = NewAgentState\<lparr>as_Messages := [user_message [text_block ''read it'']]\<rparr>,
      lw_points = [], lw_exec = NewStreamingToolExecutor [], lw_launched = [], lw_out = [], lw_drafts = [], lw_requests = []\<rparr>"

lemma sample_env_steady: "steady_env sample_loop_env"
  by (simp add: steady_env_def sample_loop_env_def)

lemmas sample_run_defs = sample_run_def beginRun_def beginRunLocked_def NewAgentRuntime_def ctx_error_def idleRun_def Active_def Let_def
  Transition_def runActiveLocked_def runMatchesLocked_def activityPhase_def CanTransitionAgentPhase_def refreshRunPhaseLocked_def
  Terminal_def upd_run_def

definition sample_calling :: AgentRuntime where
  "sample_calling = upd_run (\<lambda>run. run\<lparr>run_Activity := AgentPhaseCallingModel, run_Phase := AgentPhaseCallingModel\<rparr>) (fst sample_run)"

lemma sample_transitions:
  "Transition \<lparr>tok_Generation = 1, tok_ID = ''r1''\<rparr> AgentPhasePreparing (fst sample_run) = (fst sample_run, None)"
  "Transition \<lparr>tok_Generation = 1, tok_ID = ''r1''\<rparr> AgentPhaseCallingModel (fst sample_run) = (sample_calling, None)"
  "rt_contexts (fst sample_run) 0 = None" "run_Phase (rt_run (fst sample_run)) = AgentPhasePreparing"
  by (simp_all add: sample_run_defs sample_calling_def)

lemma sample_normalized:
  "StripMessageMetadata (NormalizeMessages id (RepairOrphanTools [user_message [text_block ''read it'']]) ''gpt'' []) =
   [user_message [text_block ''read it'']]"
  by code_simp

lemma sample_head: "round_head sample_loop_env 0 sample_world = Inr sample_world"
  by (simp add: round_head_def others_def on_rt_def is_cancelled_def sample_loop_env_def sample_world_def sample_transitions max_turns_def
      MaxParentTurns_def NewAgentState_def)

lemma sample_hooks: "round_hooks sample_loop_env 0 sample_world = Inr (sample_world\<lparr>lw_drafts := [lw_state sample_world]\<rparr>)"
  by (simp add: round_hooks_def and_then_def check_none_def check_state_def publish_flow_def publishDraft_def sample_loop_env_def sample_world_def)

lemma sample_compile:
  "compile_request sample_loop_env 0 (sample_world\<lparr>lw_drafts := [lw_state sample_world]\<rparr>) =
   Inr (sample_world\<lparr>lw_drafts := [lw_state sample_world, lw_state sample_world]\<rparr>, [user_message [text_block ''read it'']])"
  using sample_normalized
  by (simp add: compile_request_def and_then_def check_none_def publish_flow_def publishDraft_def sample_loop_env_def sample_world_def
      NewAgentState_def compress_start_def Let_def)

lemma sample_start:
  "\<exists>w. start_request sample_loop_env 0 (sample_world\<lparr>lw_drafts := [lw_state sample_world, lw_state sample_world]\<rparr>, [m]) = Inr w \<and> lw_requests w = [[m]]"
  by (simp add: start_request_def and_then_def check_none_def with_cache_def applyRollingCache_def sample_loop_env_def sample_world_def others_def
      on_rt_def ConsumeRequestCache_def sample_transitions Let_def)

lemma sample_first_request:
  "lw_requests (end_world (query_round sample_loop_env 0 sample_world)) = [[user_message [text_block ''read it'']]]"
proof -
  obtain w where w: "start_request sample_loop_env 0 (sample_world\<lparr>lw_drafts := [lw_state sample_world, lw_state sample_world]\<rparr>,
      [user_message [text_block ''read it'']]) = Inr w" "lw_requests w = [[user_message [text_block ''read it'']]]"
    using sample_start by blast
  show ?thesis using reply_requests[of w sample_loop_env 0 0 "le_stream sample_loop_env 0" "new_turn (le_uuid sample_loop_env 0)"] w(2)
    unfolding query_round_def by (auto simp: sample_head sample_hooks sample_compile w(1) and_then_def keeps_requests_def after_reply_requests split: sum.splits)
qed

lemma sample_begins: "beginRun ''u1'' 5 0 ''r1'' [] (NewAgentRuntime 1) = (lw_rt sample_world, Inr (le_tok sample_loop_env))"
  by (simp add: sample_world_def sample_loop_env_def sample_run_defs)

lemma sample_max_turns: "max_turns sample_loop_env = 100"
  by (simp add: max_turns_def sample_loop_env_def MaxParentTurns_def)

theorem agent_run_ends_witness:
  "\<exists>w'. queryLoop 1680 sample_loop_env 0 sample_world = Some w' \<and> length (lw_requests w') \<le> 1680"
  using agent_run_ends[OF sample_env_steady sample_begins, of 0]
  by (simp add: sample_max_turns) (simp add: sample_world_def NewAgentState_def)

theorem requests_are_well_formed_witness:
  "\<exists>w'. queryLoop 1680 sample_loop_env 0 sample_world = Some w' \<and> lw_requests w' \<noteq> [] \<and> list_all immediate (lw_requests w') \<and>
     identified (hd (lw_requests w')) \<and> every_call_answered (hd (lw_requests w'))"
proof -
  have "budget sample_loop_env sample_world < 1680"
    using fresh_budget[OF sample_begins] by (simp add: sample_max_turns sample_world_def turns_def NewAgentState_def)
  then obtain w' where w': "queryLoop 1680 sample_loop_env 0 sample_world = Some w'"
    using queryLoop_ends[OF sample_env_steady] by blast
  moreover have "lw_requests sample_world = []" by (simp add: sample_world_def)
  moreover from this obtain rest where "lw_requests w' = [user_message [text_block ''read it'']] # rest"
    using requests_grow[OF w'] sample_first_request by auto
  moreover have "identified [user_message [text_block ''read it'']]" by code_simp
  ultimately show ?thesis using requests_are_well_formed[OF w'] by (auto simp: list_all_iff)
qed

end
