(* ===== verification/Agent_Tasks.thy ===== *)
theory Agent_Tasks
  imports Run_State Go_Text
begin

text \<open>
  \<open>agent/task_runtime.go\<close>: the background workers an agent starts, their records, and what happens when they end, are stopped, sit
  idle or expire. A critical section of \<open>AgentTaskRuntime.mu\<close> is one operation; a worker, a waiting call and a timer are
  sequences of such operations with others in between.

  A cancel function and a one-place channel are numbers: a timer is pending until it is cancelled or fires, a channel is
  signalled or not. What a worker computes is an argument of the operation that records it. Times are numbers; \<open>float64\<close> seconds are
  only compared by the code. The JSON form of a record is not modelled.
\<close>

section \<open>Records\<close>

record AgentTaskRecord =
  tk_TaskID :: string
  tk_ParentTaskID :: string
  tk_ParentScopeID :: string
  tk_WorkerLabel :: string
  tk_Description :: string
  tk_AgentType :: string
  tk_Reusable :: bool
  tk_Status :: string
  tk_CreatedAt :: int
  tk_UpdatedAt :: int
  tk_ResultText :: string
  tk_ErrorText :: string
  tk_ResultFile :: string
  tk_ErrorFile :: string
  tk_InputTokens :: int
  tk_OutputTokens :: int
  tk_ToolUseCount :: int
  tk_DurationMS :: int
  tk_TerminationReason :: string

record TaskNotification =
  tn_NotificationID :: string
  tn_TaskID :: string
  tn_ParentTaskID :: string
  tn_ParentScopeID :: string
  tn_Status :: string
  tn_Summary :: string
  tn_Result :: string
  tn_InputTokens :: int
  tn_OutputTokens :: int

record TaskUIEvent =
  tu_Type :: string
  tu_TaskID :: string
  tu_Record :: AgentTaskRecord
  tu_Summary :: string
  tu_ResultText :: string

text \<open>Of a worker's specification only the parts the runtime reads: the worktree, and the state of the session once it has one.\<close>

record workerSpec =
  ws_worktree :: string
  ws_sessionState :: "gomap list option"
  ws_firstCompleted :: bool

text \<open>Receivers of events are numbers. \<open>tr_timers\<close> are the goroutines that wait for a deadline, with the task and whether the task
  idles or has ended; \<open>tr_fired\<close> are those whose deadline has passed and that wait for the lock, which a cancellation does not reach.\<close>

datatype timer_kind = IdleTimer | CleanupTimer

record AgentTaskRuntime =
  tr_records :: "(string \<times> AgentTaskRecord) list"
  tr_notifications :: "(string \<times> TaskNotification list) list"
  tr_waiters :: "(string \<times> nat list) list"
  tr_signalled :: "nat list"
  tr_workers :: "(string \<times> nat) list"
  tr_cancelled :: "nat list"
  tr_workerSpecs :: "(string \<times> workerSpec) list"
  tr_scopes :: "string list"
  tr_childCounts :: "(string \<times> int) list"
  tr_taskParentScopes :: "(string \<times> string) list"
  tr_expiredTaskParentScopes :: "(string \<times> string) list"
  tr_recordCleanupCancels :: "(string \<times> nat) list"
  tr_idleTTLCancels :: "(string \<times> nat) list"
  tr_timers :: "(nat \<times> string \<times> timer_kind) list"
  tr_fired :: "(nat \<times> string \<times> timer_kind) list"
  tr_next :: nat
  tr_sink :: "nat option"
  tr_observer :: "nat option"
  tr_events :: "(nat \<times> TaskUIEvent) list"

definition HardMaxWaitSeconds :: int where "HardMaxWaitSeconds = 3600"

definition terminalTaskStatuses :: "string list" where
  "terminalTaskStatuses = [''completed'', ''failed'', ''killed'', ''interrupted'']"
definition reusableStableStatuses :: "string list" where
  "reusableStableStatuses = [''idle'', ''failed'', ''killed'', ''interrupted'']"
definition nonReusableStableStatuses :: "string list" where
  "nonReusableStableStatuses = [''completed'', ''failed'', ''killed'', ''interrupted'']"

definition terminal_task :: "AgentTaskRecord \<Rightarrow> bool" where
  "terminal_task r \<longleftrightarrow> tk_Status r \<in> set terminalTaskStatuses"

definition isStableTask :: "AgentTaskRecord option \<Rightarrow> bool" where
  "isStableTask r =
     (case r of None \<Rightarrow> True
      | Some r \<Rightarrow> tk_Status r \<in> set (if tk_Reusable r then reusableStableStatuses else nonReusableStableStatuses))"

definition NewAgentTaskRuntime :: AgentTaskRuntime where
  "NewAgentTaskRuntime =
     \<lparr>tr_records = [], tr_notifications = [], tr_waiters = [], tr_signalled = [], tr_workers = [], tr_cancelled = [], tr_workerSpecs = [],
      tr_scopes = [''main''], tr_childCounts = [], tr_taskParentScopes = [], tr_expiredTaskParentScopes = [], tr_recordCleanupCancels = [],
      tr_idleTTLCancels = [], tr_timers = [], tr_fired = [], tr_next = 0, tr_sink = None, tr_observer = None, tr_events = []\<rparr>"

definition SetTaskEventSink :: "nat option \<Rightarrow> AgentTaskRuntime \<Rightarrow> AgentTaskRuntime" where
  "SetTaskEventSink receiver rt = rt\<lparr>tr_sink := receiver\<rparr>"

definition SetTaskEventObserver :: "nat option \<Rightarrow> AgentTaskRuntime \<Rightarrow> AgentTaskRuntime" where
  "SetTaskEventObserver receiver rt = rt\<lparr>tr_observer := receiver\<rparr>"

section \<open>Helpers that hold the lock\<close>

definition set_record :: "AgentTaskRecord \<Rightarrow> AgentTaskRuntime \<Rightarrow> AgentTaskRuntime" where
  "set_record r rt = rt\<lparr>tr_records := mput (tk_TaskID r) r (tr_records rt)\<rparr>"

definition add_scope :: "string \<Rightarrow> AgentTaskRuntime \<Rightarrow> AgentTaskRuntime" where
  "add_scope s rt = rt\<lparr>tr_scopes := List.insert s (tr_scopes rt)\<rparr>"

definition EnsureScope :: "string \<Rightarrow> AgentTaskRuntime \<Rightarrow> AgentTaskRuntime" where
  "EnsureScope s rt = add_scope (if s = [] then ''main'' else s) rt"

definition emitLifecycleLocked :: "string \<Rightarrow> AgentTaskRecord \<Rightarrow> AgentTaskRuntime \<Rightarrow> AgentTaskRuntime" where
  "emitLifecycleLocked t r rt =
     (case tr_observer rt of
        None \<Rightarrow> rt
      | Some o' \<Rightarrow> rt\<lparr>tr_events := tr_events rt @
          [(o', \<lparr>tu_Type = t, tu_TaskID = tk_TaskID r, tu_Record = r, tu_Summary = [], tu_ResultText = []\<rparr>)]\<rparr>)"

text \<open>A channel that already holds a signal is left alone.\<close>

definition signal :: "nat list \<Rightarrow> nat list \<Rightarrow> nat list" where
  "signal waiters signalled = foldl (\<lambda>acc w. List.insert w acc) signalled waiters"

definition enqueue_event :: "AgentTaskRecord \<Rightarrow> string \<Rightarrow> string \<Rightarrow> TaskUIEvent" where
  "enqueue_event r summary result =
     \<lparr>tu_Type = (if terminal_task r then ''task_summary_available'' else ''task_snapshot_updated''), tu_TaskID = tk_TaskID r,
      tu_Record = r, tu_Summary = summary, tu_ResultText = result\<rparr>"

definition enqueueLocked :: "string \<Rightarrow> AgentTaskRecord \<Rightarrow> string \<Rightarrow> string \<Rightarrow> AgentTaskRuntime \<Rightarrow> AgentTaskRuntime" where
  "enqueueLocked uuid r summary result rt =
     (let note = \<lparr>tn_NotificationID = take 12 uuid, tn_TaskID = tk_TaskID r, tn_ParentTaskID = tk_ParentTaskID r,
                  tn_ParentScopeID = tk_ParentScopeID r, tn_Status = tk_Status r, tn_Summary = summary, tn_Result = result,
                  tn_InputTokens = tk_InputTokens r, tn_OutputTokens = tk_OutputTokens r\<rparr>;
          ev = enqueue_event r summary result;
          receivers = (case tr_sink rt of
             Some s \<Rightarrow> s # (case tr_observer rt of Some o' \<Rightarrow> if o' \<noteq> s then [o'] else [] | None \<Rightarrow> [])
           | None \<Rightarrow> (case tr_observer rt of Some o' \<Rightarrow> [o'] | None \<Rightarrow> []))
      in rt\<lparr>tr_notifications := mput (tk_ParentScopeID r) (mget [] (tr_notifications rt) (tk_ParentScopeID r) @ [note]) (tr_notifications rt),
            tr_events := tr_events rt @ map (\<lambda>o'. (o', ev)) receivers,
            tr_signalled := signal (mget [] (tr_waiters rt) (tk_TaskID r)) (tr_signalled rt),
            tr_waiters := mput (tk_TaskID r) [] (tr_waiters rt)\<rparr>)"

definition getTaskLocked :: "string \<Rightarrow> string \<Rightarrow> bool \<Rightarrow> AgentTaskRuntime \<Rightarrow> AgentTaskRecord option" where
  "getTaskLocked taskID scopeID forceScopeCheck rt =
     (case map_of (tr_records rt) taskID of
        None \<Rightarrow> None
      | Some r \<Rightarrow> if forceScopeCheck \<and> tk_ParentScopeID r \<noteq> scopeID then None else Some r)"

definition registerRecordDataLocked :: "AgentTaskRecord \<Rightarrow> bool \<Rightarrow> AgentTaskRuntime \<Rightarrow> AgentTaskRuntime" where
  "registerRecordDataLocked r createTaskScope rt =
     (let rt1 = add_scope (tk_ParentScopeID r)
            (rt\<lparr>tr_records := mput (tk_TaskID r) r (tr_records rt),
                tr_taskParentScopes := mput (tk_TaskID r) (tk_ParentScopeID r) (tr_taskParentScopes rt),
                tr_childCounts := mput (tk_ParentScopeID r) (mget 0 (tr_childCounts rt) (tk_ParentScopeID r) + 1) (tr_childCounts rt)\<rparr>)
      in if createTaskScope then add_scope (tk_TaskID r) rt1 else rt1)"

definition registerRecordLocked :: "AgentTaskRecord \<Rightarrow> bool \<Rightarrow> AgentTaskRuntime \<Rightarrow> AgentTaskRuntime" where
  "registerRecordLocked r createTaskScope rt = emitLifecycleLocked ''task_created'' r (registerRecordDataLocked r createTaskScope rt)"

text \<open>Cancelling a timer ends its goroutine.\<close>

definition cancel_timer :: "nat option \<Rightarrow> AgentTaskRuntime \<Rightarrow> AgentTaskRuntime" where
  "cancel_timer c rt = (case c of None \<Rightarrow> rt | Some i \<Rightarrow> rt\<lparr>tr_timers := mdel i (tr_timers rt)\<rparr>)"

definition cancelIdleTTLLocked :: "string \<Rightarrow> AgentTaskRuntime \<Rightarrow> AgentTaskRuntime" where
  "cancelIdleTTLLocked taskID rt =
     (cancel_timer (map_of (tr_idleTTLCancels rt) taskID) rt)\<lparr>tr_idleTTLCancels := mdel taskID (tr_idleTTLCancels rt)\<rparr>"

definition cancelRecordCleanupLocked :: "string \<Rightarrow> AgentTaskRuntime \<Rightarrow> AgentTaskRuntime" where
  "cancelRecordCleanupLocked taskID rt =
     (cancel_timer (map_of (tr_recordCleanupCancels rt) taskID) rt)\<lparr>tr_recordCleanupCancels := mdel taskID (tr_recordCleanupCancels rt)\<rparr>"

definition cancelAllRecordCleanupLocked :: "AgentTaskRuntime \<Rightarrow> AgentTaskRuntime" where
  "cancelAllRecordCleanupLocked rt = foldl (\<lambda>rt i. cancelRecordCleanupLocked i rt) rt (map fst (tr_recordCleanupCancels rt))"

definition cancelAllIdleTTLLocked :: "AgentTaskRuntime \<Rightarrow> AgentTaskRuntime" where
  "cancelAllIdleTTLLocked rt = foldl (\<lambda>rt i. cancelIdleTTLLocked i rt) rt (map fst (tr_idleTTLCancels rt))"

definition scheduleIdleTTLLocked :: "string \<Rightarrow> AgentTaskRuntime \<Rightarrow> AgentTaskRuntime" where
  "scheduleIdleTTLLocked taskID rt0 =
     (let rt = cancelIdleTTLLocked taskID rt0 in
      case map_of (tr_records rt) taskID of
        None \<Rightarrow> rt
      | Some r \<Rightarrow>
          if tk_Status r \<noteq> ''idle'' then rt
          else rt\<lparr>tr_idleTTLCancels := mput taskID (tr_next rt) (tr_idleTTLCancels rt),
                  tr_timers := mput (tr_next rt) (taskID, IdleTimer) (tr_timers rt), tr_next := Suc (tr_next rt)\<rparr>)"

definition scheduleTerminalRecordCleanupLocked :: "string \<Rightarrow> AgentTaskRuntime \<Rightarrow> AgentTaskRuntime" where
  "scheduleTerminalRecordCleanupLocked taskID rt =
     (case map_of (tr_records rt) taskID of
        None \<Rightarrow> rt
      | Some r \<Rightarrow>
          if \<not> terminal_task r \<or> map_of (tr_recordCleanupCancels rt) taskID \<noteq> None then rt
          else rt\<lparr>tr_recordCleanupCancels := mput taskID (tr_next rt) (tr_recordCleanupCancels rt),
                  tr_timers := mput (tr_next rt) (taskID, CleanupTimer) (tr_timers rt), tr_next := Suc (tr_next rt)\<rparr>)"

definition unregisterRecordLocked :: "string \<Rightarrow> AgentTaskRuntime \<Rightarrow> AgentTaskRuntime \<times> AgentTaskRecord option" where
  "unregisterRecordLocked taskID rt0 =
     (let rt = cancelIdleTTLLocked taskID rt0 in
      case map_of (tr_records rt) taskID of
        None \<Rightarrow> (rt, None)
      | Some r \<Rightarrow>
          (let scope = tk_ParentScopeID r; remaining = mget 0 (tr_childCounts rt) scope - 1
           in (rt\<lparr>tr_records := mdel taskID (tr_records rt), tr_taskParentScopes := mdel taskID (tr_taskParentScopes rt),
                  tr_expiredTaskParentScopes := mput taskID scope (tr_expiredTaskParentScopes rt),
                  tr_childCounts := (if remaining > 0 then mput scope remaining (tr_childCounts rt) else mdel scope (tr_childCounts rt))\<rparr>,
               Some r)))"

definition forgetTaskIdentityLocked :: "string \<Rightarrow> AgentTaskRuntime \<Rightarrow> AgentTaskRuntime" where
  "forgetTaskIdentityLocked taskID rt =
     rt\<lparr>tr_taskParentScopes := mdel taskID (tr_taskParentScopes rt),
        tr_expiredTaskParentScopes := mdel taskID (tr_expiredTaskParentScopes rt)\<rparr>"

definition drop_worker :: "string \<Rightarrow> AgentTaskRuntime \<Rightarrow> AgentTaskRuntime" where
  "drop_worker taskID rt = rt\<lparr>tr_workers := mdel taskID (tr_workers rt), tr_workerSpecs := mdel taskID (tr_workerSpecs rt)\<rparr>"

text \<open>The flag is the result of \<open>discardTerminalRecordLocked\<close>; its only caller, the timer, ignores it.\<close>

definition discardTerminalRecordLocked :: "string \<Rightarrow> AgentTaskRuntime \<Rightarrow> AgentTaskRuntime \<times> bool" where
  "discardTerminalRecordLocked taskID rt =
     (case map_of (tr_records rt) taskID of
        None \<Rightarrow> (forgetTaskIdentityLocked taskID (rt\<lparr>tr_recordCleanupCancels := mdel taskID (tr_recordCleanupCancels rt)\<rparr>), True)
      | Some r \<Rightarrow>
          if \<not> terminal_task r then (rt\<lparr>tr_recordCleanupCancels := mdel taskID (tr_recordCleanupCancels rt)\<rparr>, True)
          else if mget 0 (tr_childCounts rt) taskID > 0 then (rt, False)
          else (let rt1 = fst (unregisterRecordLocked taskID (cancelIdleTTLLocked taskID (drop_worker taskID rt)));
                    rt2 = forgetTaskIdentityLocked taskID (rt1\<lparr>tr_recordCleanupCancels := mdel taskID (tr_recordCleanupCancels rt1)\<rparr>)
                in (if taskID \<noteq> ''main'' then rt2\<lparr>tr_scopes := removeAll taskID (tr_scopes rt2)\<rparr> else rt2, True)))"

section \<open>Listing and snapshots\<close>

definition task_order :: "AgentTaskRecord \<Rightarrow> int \<times> string" where
  "task_order r = (tk_CreatedAt r, tk_TaskID r)"

definition before :: "int \<times> string \<Rightarrow> int \<times> string \<Rightarrow> bool" where
  "before a b \<longleftrightarrow> fst a < fst b \<or> fst a = fst b \<and> snd a < snd b"

fun insert_task :: "AgentTaskRecord \<Rightarrow> AgentTaskRecord list \<Rightarrow> AgentTaskRecord list" where
  "insert_task r [] = [r]"
| "insert_task r (x # xs) = (if before (task_order x) (task_order r) then x # insert_task r xs else r # x # xs)"

text \<open>\<open>sort.SliceStable\<close> with this comparison.\<close>

definition sort_tasks :: "AgentTaskRecord list \<Rightarrow> AgentTaskRecord list" where
  "sort_tasks rs = foldr insert_task rs []"

definition ExportSnapshot :: "AgentTaskRuntime \<Rightarrow> AgentTaskRecord list" where
  "ExportSnapshot rt = sort_tasks (map snd (tr_records rt))"

definition ListTasks :: "string \<Rightarrow> AgentTaskRuntime \<Rightarrow> AgentTaskRecord list" where
  "ListTasks scopeID rt = sort_tasks (filter (\<lambda>r. tk_ParentScopeID r = scopeID) (map snd (tr_records rt)))"

definition GetTask :: "string \<Rightarrow> string \<Rightarrow> AgentTaskRuntime \<Rightarrow> AgentTaskRecord option" where
  "GetTask taskID scopeID rt = getTaskLocked taskID scopeID True rt"

text \<open>What \<open>taskRecordFromMap\<close> fills in after decoding.\<close>

definition complete_record :: "string \<Rightarrow> int \<Rightarrow> AgentTaskRecord \<Rightarrow> AgentTaskRecord" where
  "complete_record uuid now r =
     r\<lparr>tk_TaskID := (if tk_TaskID r = [] then ''task-'' @ take 8 uuid else tk_TaskID r),
       tk_ParentScopeID := (if tk_ParentScopeID r = [] then ''main'' else tk_ParentScopeID r),
       tk_AgentType := (if tk_AgentType r = [] then ''general-purpose'' else tk_AgentType r),
       tk_Status := (if tk_Status r = [] then ''interrupted'' else tk_Status r),
       tk_CreatedAt := (if tk_CreatedAt r = 0 then now else tk_CreatedAt r),
       tk_UpdatedAt := (if tk_UpdatedAt r = 0 then now else tk_UpdatedAt r)\<rparr>"

definition import_record :: "(string \<times> string) \<times> int \<Rightarrow> AgentTaskRecord \<Rightarrow> AgentTaskRuntime \<Rightarrow> AgentTaskRuntime" where
  "import_record x raw rt =
     (case x of ((uuid, note), now) \<Rightarrow>
        (let r = complete_record uuid now raw; live = tk_Status r \<in> {''queued'', ''running'', ''idle''};
             r' = (if live then r\<lparr>tk_Status := ''interrupted'', tk_UpdatedAt := now,
                             tk_TerminationReason := (if tk_TerminationReason r = [] then ''session_resumed'' else tk_TerminationReason r)\<rparr> else r);
             rt1 = registerRecordLocked r' False rt
         in if live then enqueueLocked note r' ''Worker was interrupted when the session resumed.''
                           (if tk_ErrorText r' \<noteq> [] then tk_ErrorText r' else tk_ResultText r') rt1
            else rt1))"

text \<open>The maps are replaced; \<open>ids\<close> are the UUIDs and times used for each record of the snapshot.\<close>

definition ImportSnapshot :: "((string \<times> string) \<times> int) list \<Rightarrow> AgentTaskRecord list \<Rightarrow> AgentTaskRuntime \<Rightarrow> AgentTaskRuntime" where
  "ImportSnapshot ids snapshot rt0 =
     (let rt = cancelAllIdleTTLLocked (cancelAllRecordCleanupLocked rt0);
          rt1 = rt\<lparr>tr_records := [], tr_notifications := [], tr_waiters := [], tr_workers := [], tr_workerSpecs := [], tr_scopes := [''main''],
                   tr_childCounts := [], tr_taskParentScopes := [], tr_expiredTaskParentScopes := [], tr_idleTTLCancels := []\<rparr>
      in foldl (\<lambda>rt (x, raw). import_record x raw rt) rt1 (zip ids snapshot))"

section \<open>Starting\<close>

text \<open>\<open>err\<close> is the answer of the admission, with the session and the parent's run checked; the record enters in the same section.\<close>

definition admitRecord :: "run_error option \<Rightarrow> AgentTaskRecord \<Rightarrow> bool \<Rightarrow> (AgentTaskRuntime \<Rightarrow> AgentTaskRuntime) \<Rightarrow> AgentTaskRuntime
    \<Rightarrow> AgentTaskRuntime \<times> run_error option" where
  "admitRecord err r createScope setup rt =
     (case err of Some e \<Rightarrow> (rt, Some e)
      | None \<Rightarrow> (emitLifecycleLocked ''task_created'' r (setup (registerRecordDataLocked r createScope rt)), None))"

definition new_record :: "string \<Rightarrow> string \<Rightarrow> string \<Rightarrow> string \<Rightarrow> string \<Rightarrow> string \<Rightarrow> bool \<Rightarrow> string \<Rightarrow> int \<Rightarrow> AgentTaskRecord" where
  "new_record taskID parentTaskID parentScopeID label description agentType reusable status now =
     \<lparr>tk_TaskID = taskID, tk_ParentTaskID = parentTaskID, tk_ParentScopeID = parentScopeID, tk_WorkerLabel = label,
      tk_Description = description, tk_AgentType = agentType, tk_Reusable = reusable, tk_Status = status, tk_CreatedAt = now,
      tk_UpdatedAt = now, tk_ResultText = [], tk_ErrorText = [], tk_ResultFile = [], tk_ErrorFile = [], tk_InputTokens = 0, tk_OutputTokens = 0, tk_ToolUseCount = 0,
      tk_DurationMS = 0, tk_TerminationReason = []\<rparr>"

definition registerForegroundTask ::
  "run_error option \<Rightarrow> string \<Rightarrow> string \<Rightarrow> string \<Rightarrow> string \<Rightarrow> string \<Rightarrow> string \<Rightarrow> string \<Rightarrow> int \<Rightarrow> AgentTaskRuntime \<Rightarrow> AgentTaskRuntime \<times> run_error option" where
  "registerForegroundTask err scopeID taskID parentTaskID parentScopeID label description agentType now rt =
     admitRecord err (new_record taskID parentTaskID parentScopeID label description agentType False ''running'' now) False
       (\<lambda>rt. if scopeID \<noteq> [] then add_scope scopeID rt else rt) rt"

definition worker_task_id :: "string \<Rightarrow> string \<Rightarrow> string" where
  "worker_task_id agentType uuid = ''subagent-'' @ agentType @ ''-'' @ take 8 uuid"

text \<open>The worker's goroutine starts with \<open>run_begin\<close> below.\<close>

definition SpawnWorker ::
  "run_error option \<Rightarrow> string \<Rightarrow> string \<Rightarrow> string \<Rightarrow> string \<Rightarrow> bool \<Rightarrow> string \<Rightarrow> string \<Rightarrow> string \<Rightarrow> int \<Rightarrow> AgentTaskRuntime
   \<Rightarrow> AgentTaskRuntime \<times> run_error option" where
  "SpawnWorker err uuid description agentType label reusable parentScopeID parentTaskID worktree now rt =
     (let taskID = worker_task_id agentType uuid
      in admitRecord err (new_record taskID parentTaskID parentScopeID label description agentType reusable ''queued'' now) True
           (\<lambda>rt. rt\<lparr>tr_workers := mput taskID (tr_next rt) (tr_workers rt), tr_next := Suc (tr_next rt),
                     tr_workerSpecs := mput taskID \<lparr>ws_worktree = worktree, ws_sessionState = None, ws_firstCompleted = False\<rparr> (tr_workerSpecs rt)\<rparr>) rt)"

definition SendMessage :: "string \<Rightarrow> string \<Rightarrow> int \<Rightarrow> AgentTaskRuntime \<Rightarrow> AgentTaskRuntime \<times> (string + AgentTaskRecord)" where
  "SendMessage taskID scopeID now rt =
     (case (map_of (tr_records rt) taskID, map_of (tr_workerSpecs rt) taskID) of
        (Some r, Some spec) \<Rightarrow>
          if tk_ParentScopeID r \<noteq> scopeID \<or> \<not> tk_Reusable r
          then (rt, Inl ''Error: Worker is not reusable or has already terminated.'')
          else if tk_Status r \<noteq> ''idle'' then (rt, Inl ''Error: Worker is currently busy processing previous request.'')
          else (let rt1 = cancelIdleTTLLocked taskID rt; r' = r\<lparr>tk_Status := ''queued'', tk_UpdatedAt := now\<rparr>
                in (set_record r' (rt1\<lparr>tr_workers := mput taskID (tr_next rt1) (tr_workers rt1), tr_next := Suc (tr_next rt1)\<rparr>), Inr r'))
      | _ \<Rightarrow> (rt, Inl ''Error: Worker is not reusable or has already terminated.''))"

section \<open>Running and ending\<close>

definition cancel_worker :: "string \<Rightarrow> AgentTaskRuntime \<Rightarrow> AgentTaskRuntime" where
  "cancel_worker taskID rt =
     (case map_of (tr_workers rt) taskID of None \<Rightarrow> rt | Some c \<Rightarrow> rt\<lparr>tr_cancelled := List.insert c (tr_cancelled rt)\<rparr>)"

definition stop_text :: "AgentTaskRecord \<Rightarrow> string \<times> string" where
  "stop_text r =
     (let first = (if tk_ResultText r \<noteq> [] then tk_ResultText r else tk_ErrorText r)
      in if tk_Status r = ''queued'' then (''Queued worker was stopped.'', [])
         else if tk_Status r = ''idle'' then (''Idle worker was stopped.'', tk_ResultText r)
         else if tk_Status r = ''running'' then (''Running worker was stopped.'', first)
         else (''Worker was stopped after its live session disappeared.'', first))"

definition StopTask :: "string \<Rightarrow> string \<Rightarrow> string \<Rightarrow> int \<Rightarrow> AgentTaskRuntime \<Rightarrow> AgentTaskRuntime \<times> (string + AgentTaskRecord)" where
  "StopTask uuid taskID scopeID now rt =
     (case getTaskLocked taskID scopeID (scopeID \<noteq> []) rt of
        None \<Rightarrow> (rt, Inl ''Error: Task not found.'')
      | Some r \<Rightarrow>
          if terminal_task r then (rt, Inr r)
          else (let r' = r\<lparr>tk_Status := ''killed'', tk_TerminationReason := ''stopped'', tk_UpdatedAt := now\<rparr>;
                    rt1 = set_record r' (cancel_worker taskID (cancelIdleTTLLocked taskID rt));
                    rt2 = enqueueLocked uuid r' (fst (stop_text r)) (snd (stop_text r)) rt1
                in (scheduleTerminalRecordCleanupLocked taskID (rt2\<lparr>tr_workerSpecs := mdel taskID (tr_workerSpecs rt2)\<rparr>), Inr r')))"

text \<open>The first section of \<open>runWorker\<close>; the answer tells whether the worker goes on.\<close>

definition run_begin :: "string \<Rightarrow> int \<Rightarrow> AgentTaskRuntime \<Rightarrow> AgentTaskRuntime \<times> bool" where
  "run_begin taskID now rt =
     (case (map_of (tr_workerSpecs rt) taskID, map_of (tr_records rt) taskID) of
        (Some spec, Some r) \<Rightarrow>
          if tk_Status r \<noteq> ''queued'' then (rt\<lparr>tr_workers := mdel taskID (tr_workers rt)\<rparr>, False)
          else (let r' = r\<lparr>tk_Status := ''running'', tk_UpdatedAt := now\<rparr>
                in (emitLifecycleLocked ''task_status_changed'' r' (set_record r' rt), True))
      | _ \<Rightarrow> (rt\<lparr>tr_workers := mdel taskID (tr_workers rt)\<rparr>, False))"

record worker_result =
  wr_FinalText :: string
  wr_Error :: "(string \<times> string) option"
  wr_inputDelta :: int
  wr_outputDelta :: int
  wr_toolUseDelta :: int
  wr_durationMS :: int
  wr_session :: "gomap list"

text \<open>The second section, with the specification \<open>spec\<close> the worker was started with. The answer tells what comes next: nothing, or
  recording the result. The error of a result comes with its kind, ''canceled'', ''deadline'' or another.\<close>

definition run_end :: "string \<Rightarrow> workerSpec \<Rightarrow> worker_result \<Rightarrow> AgentTaskRuntime \<Rightarrow> AgentTaskRuntime \<times> bool" where
  "run_end taskID spec result rt =
     (case map_of (tr_records rt) taskID of
        None \<Rightarrow> (rt, False)
      | Some r \<Rightarrow>
          if tk_Status r = ''killed'' then (drop_worker taskID rt, False)
          else (let r' = r\<lparr>tk_DurationMS := tk_DurationMS r + wr_durationMS result, tk_InputTokens := tk_InputTokens r + wr_inputDelta result,
                           tk_OutputTokens := tk_OutputTokens r + wr_outputDelta result,
                           tk_ToolUseCount := tk_ToolUseCount r + wr_toolUseDelta result\<rparr>;
                    spec' = spec\<lparr>ws_sessionState := Some (wr_session result), ws_firstCompleted := True\<rparr>;
                    rt1 = set_record r' (rt\<lparr>tr_workerSpecs := mput taskID spec' (tr_workerSpecs rt), tr_workers := mdel taskID (tr_workers rt)\<rparr>)
                in (if \<not> tk_Reusable r \<or> wr_Error result \<noteq> None then rt1\<lparr>tr_workerSpecs := mdel taskID (tr_workerSpecs rt1)\<rparr> else rt1, True)))"

definition finish_record :: "string \<Rightarrow> string \<Rightarrow> string \<Rightarrow> string \<Rightarrow> int \<Rightarrow> AgentTaskRecord \<Rightarrow> AgentTaskRecord" where
  "finish_record status result errText reason now r =
     r\<lparr>tk_Status := status, tk_ResultText := result, tk_ErrorText := errText, tk_TerminationReason := reason, tk_UpdatedAt := now\<rparr>"

definition finish_task :: "string \<Rightarrow> string \<Rightarrow> string \<Rightarrow> string \<Rightarrow> string \<Rightarrow> string \<Rightarrow> int \<Rightarrow> AgentTaskRuntime \<Rightarrow> AgentTaskRuntime" where
  "finish_task uuid taskID status result errText reason now rt =
     (case map_of (tr_records rt) taskID of
        None \<Rightarrow> rt
      | Some r \<Rightarrow>
          if tk_Status r = ''killed'' \<or> tk_Status r = ''interrupted'' then rt
          else (let r' = finish_record status result errText reason now r;
                    rt1 = emitLifecycleLocked ''task_status_changed'' r' (set_record r' rt);
                    rt2 = enqueueLocked uuid r' (if errText \<noteq> [] then ''Worker failed.'' else ''Worker completed.'')
                            (if errText \<noteq> [] then errText else result) rt1
                in if terminal_task r' then scheduleTerminalRecordCleanupLocked taskID rt2 else rt2))"

definition finishReusableIdle :: "string \<Rightarrow> string \<Rightarrow> string \<Rightarrow> int \<Rightarrow> AgentTaskRuntime \<Rightarrow> AgentTaskRuntime" where
  "finishReusableIdle uuid taskID result now rt =
     (case map_of (tr_records rt) taskID of
        None \<Rightarrow> rt
      | Some r \<Rightarrow>
          if tk_Status r = ''killed'' \<or> tk_Status r = ''interrupted'' then rt
          else (let r' = finish_record ''idle'' result [] ''completed'' now r
                in scheduleIdleTTLLocked taskID (enqueueLocked uuid r' ''Worker completed request.'' result
                     (emitLifecycleLocked ''task_status_changed'' r' (set_record r' rt)))))"

text \<open>The end of \<open>runWorker\<close> after the second section, for a worker that was reusable or not.\<close>

definition run_report :: "string \<Rightarrow> string \<Rightarrow> bool \<Rightarrow> worker_result \<Rightarrow> int \<Rightarrow> AgentTaskRuntime \<Rightarrow> AgentTaskRuntime" where
  "run_report uuid taskID reusable result now rt =
     (case wr_Error result of
        Some (kind, err) \<Rightarrow>
          (let status = (if kind = ''canceled'' then ''interrupted'' else ''failed'');
               reason = (if kind = ''deadline'' then ''timeout'' else if kind = ''canceled'' then ''cancelled'' else ''failed'')
           in finish_task uuid taskID status (wr_FinalText result) err reason now rt)
      | None \<Rightarrow>
          if reusable then finishReusableIdle uuid taskID (wr_FinalText result) now rt
          else finish_task uuid taskID ''completed'' (wr_FinalText result) [] ''completed'' now rt)"

definition setForegroundTaskTerminal :: "string \<Rightarrow> string \<Rightarrow> string \<Rightarrow> int \<Rightarrow> AgentTaskRuntime \<Rightarrow> AgentTaskRuntime" where
  "setForegroundTaskTerminal taskID status reason now rt =
     (case map_of (tr_records rt) taskID of
        None \<Rightarrow> rt
      | Some r \<Rightarrow>
          (let r' = r\<lparr>tk_Status := status, tk_TerminationReason := reason, tk_UpdatedAt := now\<rparr>
           in emitLifecycleLocked ''task_status_changed'' r' (set_record r' rt)))"

definition CompleteForegroundTask :: "string \<Rightarrow> string \<Rightarrow> int \<Rightarrow> AgentTaskRuntime \<Rightarrow> AgentTaskRuntime" where
  "CompleteForegroundTask taskID reason now rt = setForegroundTaskTerminal taskID ''completed'' reason now rt"

definition FailForegroundTask :: "string \<Rightarrow> string \<Rightarrow> int \<Rightarrow> AgentTaskRuntime \<Rightarrow> AgentTaskRuntime" where
  "FailForegroundTask taskID reason now rt = setForegroundTaskTerminal taskID ''failed'' reason now rt"

definition DiscardForegroundTask :: "string \<Rightarrow> AgentTaskRuntime \<Rightarrow> AgentTaskRuntime" where
  "DiscardForegroundTask taskID rt = forgetTaskIdentityLocked taskID (fst (unregisterRecordLocked taskID rt))"

text \<open>The deadline of a timer passes, and later its goroutine gets the lock.\<close>

definition timer_passes :: "nat \<Rightarrow> AgentTaskRuntime \<Rightarrow> AgentTaskRuntime" where
  "timer_passes timer rt =
     (case map_of (tr_timers rt) timer of
        None \<Rightarrow> rt
      | Some x \<Rightarrow> rt\<lparr>tr_timers := mdel timer (tr_timers rt), tr_fired := mput timer x (tr_fired rt)\<rparr>)"

definition idle_expired :: "nat \<Rightarrow> string \<Rightarrow> string \<Rightarrow> int \<Rightarrow> AgentTaskRuntime \<Rightarrow> AgentTaskRuntime" where
  "idle_expired timer uuid taskID now rt0 =
     (let rt = rt0\<lparr>tr_fired := mdel timer (tr_fired rt0), tr_idleTTLCancels := mdel taskID (tr_idleTTLCancels rt0)\<rparr> in
      case map_of (tr_records rt) taskID of
        None \<Rightarrow> rt
      | Some r \<Rightarrow>
          if tk_Status r \<noteq> ''idle'' then rt
          else (let r' = r\<lparr>tk_Status := ''completed'', tk_TerminationReason := ''idle_ttl_expired'', tk_UpdatedAt := now\<rparr>
                in scheduleTerminalRecordCleanupLocked taskID (drop_worker taskID
                     (enqueueLocked uuid r' ''Reusable worker expired after idling.'' (tk_ResultText r')
                       (emitLifecycleLocked ''task_status_changed'' r' (set_record r' rt))))))"

definition cleanup_expired :: "nat \<Rightarrow> string \<Rightarrow> AgentTaskRuntime \<Rightarrow> AgentTaskRuntime" where
  "cleanup_expired timer taskID rt = fst (discardTerminalRecordLocked taskID (rt\<lparr>tr_fired := mdel timer (tr_fired rt)\<rparr>))"

definition Shutdown_tasks :: "AgentTaskRuntime \<Rightarrow> (string \<times> string) list" where
  "Shutdown_tasks rt = map (\<lambda>(i, r). (i, tk_ParentScopeID r)) (filter (\<lambda>(i, r). \<not> terminal_task r) (tr_records rt))"

definition Shutdown_timers :: "AgentTaskRuntime \<Rightarrow> AgentTaskRuntime" where
  "Shutdown_timers rt = cancelAllIdleTTLLocked (cancelAllRecordCleanupLocked rt)"

text \<open>The sections of \<open>CleanupScope\<close>: the children it finds, the removal of one of them after it was stopped and its own
  scope cleaned up, and the end. The flag of \<open>cleanup_remove\<close> says that the report counts the task.\<close>

definition cleanup_children :: "string \<Rightarrow> AgentTaskRuntime \<Rightarrow> AgentTaskRecord list" where
  "cleanup_children scopeID rt = filter (\<lambda>r. tk_ParentScopeID r = scopeID) (map snd (tr_records rt))"

definition cleanup_remove :: "string \<Rightarrow> AgentTaskRuntime \<Rightarrow> AgentTaskRuntime \<times> bool" where
  "cleanup_remove taskID rt =
     (case unregisterRecordLocked taskID (drop_worker taskID (cancel_worker taskID rt)) of (rt1, removed) \<Rightarrow>
        (let rt2 = (if removed = None then rt1 else forgetTaskIdentityLocked taskID (cancelRecordCleanupLocked taskID rt1))
         in (rt2\<lparr>tr_scopes := removeAll taskID (tr_scopes rt2)\<rparr>, removed \<noteq> None)))"

definition cleanup_scope_end :: "string \<Rightarrow> AgentTaskRuntime \<Rightarrow> AgentTaskRuntime" where
  "cleanup_scope_end scopeID rt = rt\<lparr>tr_scopes := removeAll scopeID (tr_scopes rt), tr_notifications := mdel scopeID (tr_notifications rt)\<rparr>"

section \<open>Waiting and notifications\<close>

definition DrainPendingNotifications :: "string \<Rightarrow> AgentTaskRuntime \<Rightarrow> AgentTaskRuntime \<times> TaskNotification list" where
  "DrainPendingNotifications scopeID rt =
     (rt\<lparr>tr_notifications := mput scopeID [] (tr_notifications rt)\<rparr>, mget [] (tr_notifications rt) scopeID)"

definition consumeMatchingNotificationsLocked :: "string \<Rightarrow> string list \<Rightarrow> AgentTaskRuntime \<Rightarrow> AgentTaskRuntime" where
  "consumeMatchingNotificationsLocked scopeID taskIDs rt =
     (let notes = mget [] (tr_notifications rt) scopeID; kept = filter (\<lambda>n. tn_TaskID n \<notin> set taskIDs) notes
      in if taskIDs = [] \<or> notes = [] then rt
         else if kept = [] then rt\<lparr>tr_notifications := mdel scopeID (tr_notifications rt)\<rparr>
         else rt\<lparr>tr_notifications := mput scopeID kept (tr_notifications rt)\<rparr>)"

record task_snapshot =
  sn_tasks :: "AgentTaskRecord list"
  sn_pending :: "string list"
  sn_missing :: "string list"

definition task_snapshot_of :: "string list \<Rightarrow> string \<Rightarrow> AgentTaskRuntime \<Rightarrow> task_snapshot" where
  "task_snapshot_of taskIDs scopeID rt =
     \<lparr>sn_tasks = List.map_filter (\<lambda>i. getTaskLocked i scopeID True rt) taskIDs,
      sn_pending = filter (\<lambda>i. \<not> isStableTask (getTaskLocked i scopeID True rt)) taskIDs,
      sn_missing = filter (\<lambda>i. getTaskLocked i scopeID True rt = None) taskIDs\<rparr>"

definition findInaccessibleTaskIDs :: "string list \<Rightarrow> string \<Rightarrow> AgentTaskRuntime \<Rightarrow> string list" where
  "findInaccessibleTaskIDs taskIDs scopeID rt =
     filter (\<lambda>i. map_of (tr_records rt) i = None \<and>
       ((case map_of (tr_taskParentScopes rt) i of None \<Rightarrow> False | Some parent \<Rightarrow> parent \<noteq> scopeID) \<or>
        (case map_of (tr_expiredTaskParentScopes rt) i of None \<Rightarrow> False | Some parent \<Rightarrow> parent \<noteq> scopeID))) taskIDs"

definition findExpiredTaskIDs :: "string list \<Rightarrow> string \<Rightarrow> AgentTaskRuntime \<Rightarrow> string list" where
  "findExpiredTaskIDs taskIDs scopeID rt =
     filter (\<lambda>i. map_of (tr_records rt) i = None \<and> map_of (tr_expiredTaskParentScopes rt) i = Some scopeID) taskIDs"

text \<open>The answers of \<open>WaitForTasks\<close>; the sections of one of its rounds are \<open>wait_consume\<close>, the three queries and \<open>wait_register\<close>.\<close>

datatype wait_answer =
    Inaccessible "string list"
  | Expired "string list"
  | Missing "string list"
  | Answered bool bool

definition wait_answer_of :: "string list \<Rightarrow> string list \<Rightarrow> task_snapshot \<Rightarrow> bool \<Rightarrow> bool \<Rightarrow> wait_answer option" where
  "wait_answer_of inaccessible expired snap soft hard =
     (if inaccessible \<noteq> [] then Some (Inaccessible inaccessible)
      else if expired \<noteq> [] then Some (Expired expired)
      else if sn_missing snap \<noteq> [] then Some (Missing (sn_missing snap))
      else if sn_pending snap = [] \<or> soft \<or> hard then Some (Answered (soft \<and> sn_pending snap \<noteq> []) hard)
      else None)"

definition wait_register :: "string list \<Rightarrow> AgentTaskRuntime \<Rightarrow> AgentTaskRuntime \<times> nat" where
  "wait_register taskIDs rt =
     (foldl (\<lambda>rt i. rt\<lparr>tr_waiters := mput i (mget [] (tr_waiters rt) i @ [tr_next rt]) (tr_waiters rt)\<rparr>) rt taskIDs
        \<lparr>tr_next := Suc (tr_next rt)\<rparr>, tr_next rt)"

end
