(* ===== verification/Agent_Workers.thy ===== *)
theory Agent_Workers
  imports Agent_Tasks
begin

text \<open>
  The task runtime of \<open>Agent_Tasks\<close> with its goroutines: every interleaving of workers, timers, waiting calls and the calls of agents.
  Shown: the records are accounted for, a status changes only along the lifecycle, an idle worker always takes a message; and
  three ways in which the bookkeeping does not do what it is there for.
\<close>

section \<open>Interleaving\<close>

text \<open>The goroutine of a worker: about to start, computing with the specification it read, about to report.\<close>

datatype stage = Starting | Working workerSpec | Reporting bool worker_result

record task_world =
  tw_rt :: AgentTaskRuntime
  tw_threads :: "(string \<times> stage) list"
  tw_foreground :: "string list"

definition upd_rt :: "(AgentTaskRuntime \<Rightarrow> AgentTaskRuntime) \<Rightarrow> task_world \<Rightarrow> task_world" where
  "upd_rt f w = w\<lparr>tw_rt := f (tw_rt w)\<rparr>"

definition fresh_task :: "string \<Rightarrow> task_world \<Rightarrow> bool" where
  "fresh_task i w \<longleftrightarrow> map_of (tr_records (tw_rt w)) i = None \<and> map_of (tw_threads w) i = None \<and> i \<notin> set (tw_foreground w) \<and>
     map_of (tr_workerSpecs (tw_rt w)) i = None"

inductive task_step :: "task_world \<Rightarrow> task_world \<Rightarrow> bool" where
  foreground: "fresh_task i w \<Longrightarrow> registerForegroundTask err scope i parent parentScope label descr kind now (tw_rt w) = (rt, None) \<Longrightarrow>
    task_step w (w\<lparr>tw_rt := rt, tw_foreground := i # tw_foreground w\<rparr>)"
| foreground_completed: "i \<in> set (tw_foreground w) \<Longrightarrow> task_step w (upd_rt (CompleteForegroundTask i reason now) w)"
| foreground_failed: "i \<in> set (tw_foreground w) \<Longrightarrow> task_step w (upd_rt (FailForegroundTask i reason now) w)"
| foreground_discarded: "i \<in> set (tw_foreground w) \<Longrightarrow> task_step w (upd_rt (DiscardForegroundTask i) w)"
| spawned: "fresh_task (worker_task_id kind uuid) w \<Longrightarrow>
    SpawnWorker err uuid descr kind label reusable parentScope parent worktree now (tw_rt w) = (rt, None) \<Longrightarrow>
    task_step w (w\<lparr>tw_rt := rt, tw_threads := mput (worker_task_id kind uuid) Starting (tw_threads w)\<rparr>)"
| messaged: "SendMessage i scope now (tw_rt w) = (rt, Inr r) \<Longrightarrow>
    task_step w (w\<lparr>tw_rt := rt, tw_threads := mput i Starting (tw_threads w)\<rparr>)"
| stopped: "task_step w (upd_rt (\<lambda>rt. fst (StopTask uuid i scope now rt)) w)"
| started: "map_of (tw_threads w) i = Some Starting \<Longrightarrow> run_begin i now (tw_rt w) = (rt, True) \<Longrightarrow>
    map_of (tr_workerSpecs (tw_rt w)) i = Some spec \<Longrightarrow>
    task_step w (w\<lparr>tw_rt := rt, tw_threads := mput i (Working spec) (tw_threads w)\<rparr>)"
| not_started: "map_of (tw_threads w) i = Some Starting \<Longrightarrow> run_begin i now (tw_rt w) = (rt, False) \<Longrightarrow>
    task_step w (w\<lparr>tw_rt := rt, tw_threads := mdel i (tw_threads w)\<rparr>)"
| ended: "map_of (tw_threads w) i = Some (Working spec) \<Longrightarrow> run_end i spec result (tw_rt w) = (rt, True) \<Longrightarrow>
    map_of (tr_records (tw_rt w)) i = Some r \<Longrightarrow>
    task_step w (w\<lparr>tw_rt := rt, tw_threads := mput i (Reporting (tk_Reusable r) result) (tw_threads w)\<rparr>)"
| ended_dead: "map_of (tw_threads w) i = Some (Working spec) \<Longrightarrow> run_end i spec result (tw_rt w) = (rt, False) \<Longrightarrow>
    task_step w (w\<lparr>tw_rt := rt, tw_threads := mdel i (tw_threads w)\<rparr>)"
| reported: "map_of (tw_threads w) i = Some (Reporting reusable result) \<Longrightarrow>
    task_step w (w\<lparr>tw_rt := run_report uuid i reusable result now (tw_rt w), tw_threads := mdel i (tw_threads w)\<rparr>)"
| timer: "task_step w (upd_rt (timer_passes t) w)"
| idled: "map_of (tr_fired (tw_rt w)) t = Some (i, IdleTimer) \<Longrightarrow> task_step w (upd_rt (idle_expired t uuid i now) w)"
| cleaned: "map_of (tr_fired (tw_rt w)) t = Some (i, CleanupTimer) \<Longrightarrow> task_step w (upd_rt (cleanup_expired t i) w)"
| drained: "task_step w (upd_rt (\<lambda>rt. fst (DrainPendingNotifications scope rt)) w)"
| consumed: "task_step w (upd_rt (consumeMatchingNotificationsLocked scope ids) w)"
| waited: "task_step w (upd_rt (\<lambda>rt. fst (wait_register ids rt)) w)"
| woken: "task_step w (upd_rt (\<lambda>rt. rt\<lparr>tr_signalled := removeAll c (tr_signalled rt)\<rparr>) w)"
| scoped: "task_step w (upd_rt (EnsureScope scope) w)"
| sunk: "task_step w (upd_rt (SetTaskEventSink x) w)"
| observed: "task_step w (upd_rt (SetTaskEventObserver x) w)"
| removed: "task_step w (upd_rt (\<lambda>rt. fst (cleanup_remove i rt)) w)"
| scope_ended: "task_step w (upd_rt (cleanup_scope_end s) w)"
| shut: "task_step w (upd_rt Shutdown_timers w)"

text \<open>A runtime starts empty or from the snapshot of an earlier session.\<close>

definition start_world :: "((string \<times> string) \<times> int) list \<Rightarrow> AgentTaskRecord list \<Rightarrow> task_world" where
  "start_world ids snapshot = \<lparr>tw_rt = ImportSnapshot ids snapshot NewAgentTaskRuntime, tw_threads = [], tw_foreground = []\<rparr>"

definition imported_id :: "((string \<times> string) \<times> int) \<times> AgentTaskRecord \<Rightarrow> string" where
  "imported_id p = tk_TaskID (complete_record (fst (fst (fst p))) (snd (fst p)) (snd p))"

definition good_snapshot :: "((string \<times> string) \<times> int) list \<Rightarrow> AgentTaskRecord list \<Rightarrow> bool" where
  "good_snapshot ids snapshot \<longleftrightarrow> length ids = length snapshot \<and>
     distinct (map imported_id (zip ids snapshot)) \<and>
     list_all (\<lambda>raw. tk_Status raw \<in> {[], ''queued'', ''running'', ''idle'', ''completed'', ''failed'', ''killed'', ''interrupted''}) snapshot"

inductive task_reachable :: "task_world \<Rightarrow> bool" where
  start: "good_snapshot ids snapshot \<Longrightarrow> task_reachable (start_world ids snapshot)"
| step: "task_reachable w \<Longrightarrow> task_step w w' \<Longrightarrow> task_reachable w'"

section \<open>Accounting\<close>

definition children :: "string \<Rightarrow> (string \<times> AgentTaskRecord) list \<Rightarrow> nat" where
  "children scope records = length (filter (\<lambda>(_, r). tk_ParentScopeID r = scope) records)"

definition accounted :: "AgentTaskRuntime \<Rightarrow> bool" where
  "accounted rt \<longleftrightarrow> distinct (map fst (tr_records rt)) \<and> (\<forall>(i, r) \<in> set (tr_records rt). tk_TaskID r = i) \<and>
     (\<forall>i. map_of (tr_taskParentScopes rt) i = map_option tk_ParentScopeID (map_of (tr_records rt) i)) \<and>
     (\<forall>s. mget 0 (tr_childCounts rt) s = int (children s (tr_records rt))) \<and> tr_expiredTaskParentScopes rt = []"

text \<open>Operations that only touch other fields.\<close>

definition same_accounts :: "AgentTaskRuntime \<Rightarrow> AgentTaskRuntime \<Rightarrow> bool" where
  "same_accounts rt rt' \<longleftrightarrow> tr_records rt' = tr_records rt \<and> tr_taskParentScopes rt' = tr_taskParentScopes rt \<and>
     tr_childCounts rt' = tr_childCounts rt \<and> tr_expiredTaskParentScopes rt' = tr_expiredTaskParentScopes rt"

lemma same_accounts_trans: "same_accounts a b \<Longrightarrow> same_accounts b c \<Longrightarrow> same_accounts a c"
  by (simp add: same_accounts_def)

lemma accounted_same: "accounted rt \<Longrightarrow> same_accounts rt rt' \<Longrightarrow> accounted rt'"
  by (simp add: accounted_def same_accounts_def)

lemma same_accounts_fields:
  "same_accounts rt (emitLifecycleLocked ty r rt)" "same_accounts rt (enqueueLocked uuid r summary result rt)" "same_accounts rt (cancel_timer c rt)"
  "same_accounts rt (cancelIdleTTLLocked i rt)" "same_accounts rt (cancelRecordCleanupLocked i rt)" "same_accounts rt (scheduleIdleTTLLocked i rt)"
  "same_accounts rt (scheduleTerminalRecordCleanupLocked i rt)" "same_accounts rt (drop_worker i rt)" "same_accounts rt (add_scope s rt)"
  "same_accounts rt (cancel_worker i rt)" "same_accounts rt (timer_passes t rt)" "same_accounts rt (fst (DrainPendingNotifications s rt))"
  "same_accounts rt (consumeMatchingNotificationsLocked s ids rt)" "same_accounts rt (EnsureScope s rt)"
  by (auto simp: same_accounts_def emitLifecycleLocked_def enqueueLocked_def cancel_timer_def cancelIdleTTLLocked_def cancelRecordCleanupLocked_def
      scheduleIdleTTLLocked_def scheduleTerminalRecordCleanupLocked_def drop_worker_def add_scope_def cancel_worker_def timer_passes_def
      DrainPendingNotifications_def consumeMatchingNotificationsLocked_def EnsureScope_def Let_def split: option.splits)

lemma same_accounts_foldl: "(\<And>rt x. same_accounts rt (f rt x)) \<Longrightarrow> same_accounts rt (foldl f rt xs)"
  by (induction xs arbitrary: rt) (auto simp: same_accounts_def)

lemma same_accounts_all: "same_accounts rt (Shutdown_timers rt)" "same_accounts rt (fst (wait_register ids rt))"
proof -
  have "same_accounts rt (cancelAllRecordCleanupLocked rt)" "same_accounts rt (cancelAllIdleTTLLocked rt)" for rt
    unfolding cancelAllRecordCleanupLocked_def cancelAllIdleTTLLocked_def by (rule same_accounts_foldl, rule same_accounts_fields)+
  then show "same_accounts rt (Shutdown_timers rt)" unfolding Shutdown_timers_def by (blast intro: same_accounts_trans)
  have "same_accounts rt (foldl (\<lambda>rt i. rt\<lparr>tr_waiters := mput i (mget [] (tr_waiters rt) i @ [tr_next rt]) (tr_waiters rt)\<rparr>) rt ids)"
    by (rule same_accounts_foldl) (simp add: same_accounts_def)
  then show "same_accounts rt (fst (wait_register ids rt))" by (simp add: wait_register_def same_accounts_def)
qed


text \<open>A record is replaced by one of the same task and scope, added under a new name, or removed.\<close>

lemma mput_split: "map_of m k = Some v \<Longrightarrow> distinct (map fst m) \<Longrightarrow> \<exists>xs ys. m = xs @ (k, v) # ys \<and> mput k w m = xs @ (k, w) # ys"
proof (induction m)
  case (Cons x m)
  show ?case
  proof (cases "fst x = k")
    case True
    then show ?thesis using Cons.prems by (intro exI [of _ "[]"] exI [of _ m]) (cases x, auto)
  next
    case False
    then obtain xs ys where "m = xs @ (k, v) # ys" "mput k w m = xs @ (k, w) # ys" using Cons by (cases x) auto
    then show ?thesis using False by (intro exI [of _ "x # xs"] exI [of _ ys]) (cases x, auto)
  qed
qed simp

lemma mdel_split: "map_of m k = Some v \<Longrightarrow> distinct (map fst m) \<Longrightarrow> \<exists>xs ys. m = xs @ (k, v) # ys \<and> mdel k m = xs @ ys"
proof -
  assume k: "map_of m k = Some v" and d: "distinct (map fst m)"
  obtain xs ys where m: "m = xs @ (k, v) # ys" using mput_split [OF k d] by blast
  have "filter (\<lambda>p. fst p \<noteq> k) xs = xs" "filter (\<lambda>p. fst p \<noteq> k) ys = ys" using d by (auto simp: m filter_id_conv image_iff)
  then show ?thesis by (auto simp: m mdel_filter)
qed

lemma accounted_set_record:
  assumes "accounted rt" "map_of (tr_records rt) i = Some r" "tk_TaskID r' = i" "tk_ParentScopeID r' = tk_ParentScopeID r"
  shows "accounted (set_record r' rt)"
proof -
  have d: "distinct (map fst (tr_records rt))" using assms(1) by (simp add: accounted_def)
  obtain xs ys where s: "tr_records rt = xs @ (i, r) # ys" "mput i r' (tr_records rt) = xs @ (i, r') # ys"
    using mput_split [OF assms(2) d] by blast
  have "children s (mput i r' (tr_records rt)) = children s (tr_records rt)" for s
    unfolding s(2) unfolding s(1) using assms(4) by (simp add: children_def)
  moreover have "\<forall>(j, q) \<in> set (mput i r' (tr_records rt)). tk_TaskID q = j"
    unfolding s(2) using assms(1,3) by (auto simp: accounted_def s(1))
  moreover have "map_of (tr_taskParentScopes rt) j = map_option tk_ParentScopeID (map_of (mput i r' (tr_records rt)) j)" for j
    using assms by (auto simp: accounted_def update_conv')
  ultimately show ?thesis using assms d by (simp add: accounted_def set_record_def distinct_update)
qed

lemma accounted_register:
  assumes "accounted rt" "map_of (tr_records rt) (tk_TaskID r) = None"
  shows "accounted (registerRecordDataLocked r c rt)"
proof -
  let ?m = "mput (tk_TaskID r) r (tr_records rt)"
  have m: "?m = tr_records rt @ [(tk_TaskID r, r)]" by (rule mput_fresh) (use assms(2) in \<open>simp add: map_of_eq_None_iff\<close>)
  have "int (children s ?m) = (if s = tk_ParentScopeID r then mget 0 (tr_childCounts rt) s + 1 else mget 0 (tr_childCounts rt) s)" for s
    using assms(1) unfolding m by (simp add: accounted_def children_def)
  moreover have "map_of (mput (tk_TaskID r) (tk_ParentScopeID r) (tr_taskParentScopes rt)) j = map_option tk_ParentScopeID (map_of ?m j)" for j
    using assms(1) by (simp add: accounted_def update_conv')
  moreover have "\<forall>(j, q) \<in> set ?m. tk_TaskID q = j" using assms(1) unfolding m by (auto simp: accounted_def)
  moreover have "distinct (map fst ?m)" using assms(1) by (simp add: accounted_def distinct_update)
  ultimately show ?thesis using assms(1) by (auto simp: accounted_def registerRecordDataLocked_def add_scope_def Let_def)
qed

lemma accounted_unregister: "accounted rt \<Longrightarrow> accounted (forgetTaskIdentityLocked i (fst (unregisterRecordLocked i rt)))"
proof -
  assume a: "accounted rt"
  have keep: "accounted (forgetTaskIdentityLocked i rt')" if "accounted rt'" "map_of (tr_records rt') i = None" for rt'
    using that by (auto simp: accounted_def forgetTaskIdentityLocked_def delete_conv')
  let ?rt = "cancelIdleTTLLocked i rt"
  have a': "accounted ?rt" by (rule accounted_same [OF a same_accounts_fields(4)])
  show ?thesis
  proof (cases "map_of (tr_records ?rt) i")
    case None
    then show ?thesis by (simp add: unregisterRecordLocked_def keep a')
  next
    case (Some r)
    have d: "distinct (map fst (tr_records ?rt))" using a' by (simp add: accounted_def)
    obtain xs ys where s: "tr_records ?rt = xs @ (i, r) # ys" "mdel i (tr_records ?rt) = xs @ ys"
      using mdel_split [OF Some d] by blast
    have c: "int (children s (mdel i (tr_records ?rt))) = (if s = tk_ParentScopeID r then mget 0 (tr_childCounts ?rt) s - 1 else mget 0 (tr_childCounts ?rt) s)" for s
      using a' unfolding accounted_def s(2) unfolding s(1) by (simp add: children_def)
    have e: "tr_expiredTaskParentScopes ?rt = []" using a' by (simp add: accounted_def)
    have m: "map_of (mdel i (tr_taskParentScopes ?rt)) j = map_option tk_ParentScopeID (map_of (mdel i (tr_records ?rt)) j)" for j
      using a' by (simp add: accounted_def delete_conv')
    have "0 \<le> mget 0 (tr_childCounts ?rt) (tk_ParentScopeID r) - 1" using c [of "tk_ParentScopeID r"] by simp
    moreover have "\<forall>(j, q) \<in> set (mdel i (tr_records ?rt)). tk_TaskID q = j" using a' by (auto simp: accounted_def mdel_filter)
    moreover have "distinct (map fst (mdel i (tr_records ?rt)))" using d by (simp add: distinct_delete)
    moreover have "mdel i (mdel i (tr_taskParentScopes ?rt)) = mdel i (tr_taskParentScopes ?rt)"
      "mdel i (mput i x (tr_expiredTaskParentScopes ?rt)) = []" for x by (simp_all add: mdel_filter e)
    ultimately show ?thesis using Some m
      by (simp add: accounted_def unregisterRecordLocked_def forgetTaskIdentityLocked_def Let_def c)
  qed
qed


lemma record_name: "accounted rt \<Longrightarrow> map_of (tr_records rt) i = Some r \<Longrightarrow> tk_TaskID r = i"
  unfolding accounted_def by (auto dest: map_of_SomeD)

lemmas fields_kept [simp] = same_accounts_fields [unfolded same_accounts_def]

lemma specs_kept [simp]:
  "tr_workerSpecs (emitLifecycleLocked ty r rt) = tr_workerSpecs rt" "tr_workerSpecs (enqueueLocked uuid r summary result rt) = tr_workerSpecs rt"
  "tr_workerSpecs (cancel_timer c rt) = tr_workerSpecs rt" "tr_workerSpecs (cancelIdleTTLLocked i rt) = tr_workerSpecs rt"
  "tr_workerSpecs (scheduleIdleTTLLocked i rt) = tr_workerSpecs rt" "tr_workerSpecs (scheduleTerminalRecordCleanupLocked i rt) = tr_workerSpecs rt"
  "tr_workerSpecs (cancel_worker i rt) = tr_workerSpecs rt" "tr_workerSpecs (set_record r rt) = tr_workerSpecs rt"
  "tr_workerSpecs (drop_worker i rt) = mdel i (tr_workerSpecs rt)"
  by (auto simp: emitLifecycleLocked_def enqueueLocked_def cancel_timer_def cancelIdleTTLLocked_def scheduleIdleTTLLocked_def
      scheduleTerminalRecordCleanupLocked_def cancel_worker_def set_record_def drop_worker_def Let_def split: option.splits)

text \<open>The operations on one record: whether they change it, to what, and what becomes of the specification.\<close>

definition edit_at :: "string \<Rightarrow> (AgentTaskRecord \<Rightarrow> bool) \<Rightarrow> (AgentTaskRecord \<Rightarrow> AgentTaskRecord) \<Rightarrow> AgentTaskRuntime \<Rightarrow> AgentTaskRuntime \<Rightarrow> bool" where
  "edit_at i applies f rt rt' \<longleftrightarrow>
     tr_taskParentScopes rt' = tr_taskParentScopes rt \<and> tr_childCounts rt' = tr_childCounts rt \<and>
     tr_expiredTaskParentScopes rt' = tr_expiredTaskParentScopes rt \<and>
     tr_records rt' = (case map_of (tr_records rt) i of None \<Rightarrow> tr_records rt
       | Some r \<Rightarrow> if applies r then mput i (f r) (tr_records rt) else tr_records rt)"

lemma edit_at_accounted:
  assumes "accounted rt" "edit_at i applies f rt rt'" "\<And>r. tk_TaskID (f r) = tk_TaskID r \<and> tk_ParentScopeID (f r) = tk_ParentScopeID r"
  shows "accounted rt'"
proof (cases "\<exists>r. map_of (tr_records rt) i = Some r \<and> applies r")
  case True
  then obtain r where r: "map_of (tr_records rt) i = Some r" "applies r" by blast
  have "tk_TaskID (f r) = i" using record_name [OF assms(1) r(1)] assms(3) by simp
  then have "same_accounts (set_record (f r) rt) rt'" using assms(2) r by (simp add: same_accounts_def edit_at_def set_record_def)
  moreover have "accounted (set_record (f r) rt)" by (rule accounted_set_record [OF assms(1) r(1)]) (use \<open>tk_TaskID (f r) = i\<close> assms(3) in auto)
  ultimately show ?thesis using accounted_same by blast
next
  case False
  then have "same_accounts rt rt'" using assms(2) by (auto simp: same_accounts_def edit_at_def split: option.splits)
  then show ?thesis using accounted_same assms(1) by blast
qed

definition killed :: "int \<Rightarrow> AgentTaskRecord \<Rightarrow> AgentTaskRecord" where
  "killed now r = r\<lparr>tk_Status := ''killed'', tk_TerminationReason := ''stopped'', tk_UpdatedAt := now\<rparr>"

lemma edits:
  assumes "accounted rt"
  shows "edit_at i (\<lambda>r. (scope = [] \<or> tk_ParentScopeID r = scope) \<and> \<not> terminal_task r) (killed now) rt (fst (StopTask uuid i scope now rt))" (is ?A)
    and "edit_at i (\<lambda>r. map_of (tr_workerSpecs rt) i \<noteq> None \<and> tk_Status r = ''queued'') (\<lambda>r. r\<lparr>tk_Status := ''running'', tk_UpdatedAt := now\<rparr>)
           rt (fst (run_begin i now rt))" (is ?B)
    and "edit_at i (\<lambda>r. tk_Status r \<noteq> ''killed'') (\<lambda>r. r\<lparr>tk_DurationMS := tk_DurationMS r + wr_durationMS result,
           tk_InputTokens := tk_InputTokens r + wr_inputDelta result, tk_OutputTokens := tk_OutputTokens r + wr_outputDelta result,
           tk_ToolUseCount := tk_ToolUseCount r + wr_toolUseDelta result\<rparr>) rt (fst (run_end i spec result rt))" (is ?C)
    and "edit_at i (\<lambda>r. tk_Status r \<noteq> ''killed'' \<and> tk_Status r \<noteq> ''interrupted'') (finish_record status res err reason now)
           rt (finish_task uuid i status res err reason now rt)" (is ?D)
    and "edit_at i (\<lambda>r. tk_Status r \<noteq> ''killed'' \<and> tk_Status r \<noteq> ''interrupted'') (finish_record ''idle'' res [] ''completed'' now)
           rt (finishReusableIdle uuid i res now rt)" (is ?E)
    and "edit_at i (\<lambda>_. True) (\<lambda>r. r\<lparr>tk_Status := status, tk_TerminationReason := reason, tk_UpdatedAt := now\<rparr>)
           rt (setForegroundTaskTerminal i status reason now rt)" (is ?F)
    and "edit_at i (\<lambda>r. tk_Status r = ''idle'') (\<lambda>r. r\<lparr>tk_Status := ''completed'', tk_TerminationReason := ''idle_ttl_expired'', tk_UpdatedAt := now\<rparr>)
           rt (idle_expired tm uuid i now rt)" (is ?G)
    and "edit_at i (\<lambda>r. map_of (tr_workerSpecs rt) i \<noteq> None \<and> tk_ParentScopeID r = scope \<and> tk_Reusable r \<and> tk_Status r = ''idle'')
           (\<lambda>r. r\<lparr>tk_Status := ''queued'', tk_UpdatedAt := now\<rparr>) rt (fst (SendMessage i scope now rt))" (is ?H)
proof -
  note n = record_name [OF assms]
  note d = edit_at_def Let_def getTaskLocked_def set_record_def
  show ?A by (auto simp: d n StopTask_def killed_def split: option.splits)
  show ?B by (auto simp: d n run_begin_def split: option.splits)
  show ?C by (auto simp: d n run_end_def split: option.splits)
  show ?D by (auto simp: d n finish_task_def finish_record_def split: option.splits)
  show ?E by (auto simp: d n finishReusableIdle_def finish_record_def split: option.splits)
  show ?F by (auto simp: d n setForegroundTaskTerminal_def split: option.splits)
  show ?G by (auto simp: d n idle_expired_def split: option.splits)
  show ?H by (auto simp: d n SendMessage_def split: option.splits)
qed


lemma accounted_report: "accounted rt \<Longrightarrow> accounted (run_report uuid i reusable result now rt)"
  unfolding run_report_def Let_def
  by (auto split: option.splits intro: edit_at_accounted [OF _ edits(4)] edit_at_accounted [OF _ edits(5)] simp: finish_record_def)

lemma unregister_cleanups: "tr_records (rt\<lparr>tr_recordCleanupCancels := c\<rparr>) = tr_records rt"
  "forgetTaskIdentityLocked i (rt\<lparr>tr_recordCleanupCancels := c\<rparr>) = (forgetTaskIdentityLocked i rt)\<lparr>tr_recordCleanupCancels := c\<rparr>"
  by (simp_all add: forgetTaskIdentityLocked_def)

lemma accounted_cleanups [simp]: "accounted (rt\<lparr>tr_recordCleanupCancels := c\<rparr>) = accounted rt" "accounted (rt\<lparr>tr_scopes := x\<rparr>) = accounted rt"
  "accounted (rt\<lparr>tr_fired := y\<rparr>) = accounted rt"
  by (simp_all add: accounted_def)

lemma accounted_forget: "accounted rt \<Longrightarrow> map_of (tr_records rt) i = None \<Longrightarrow> accounted (forgetTaskIdentityLocked i rt)"
  by (auto simp: accounted_def forgetTaskIdentityLocked_def delete_conv')

lemma accounted_removals:
  assumes "accounted rt"
  shows "accounted (fst (discardTerminalRecordLocked i rt))" "accounted (fst (cleanup_remove i rt))" "accounted (DiscardForegroundTask i rt)"
proof -
  show "accounted (DiscardForegroundTask i rt)" unfolding DiscardForegroundTask_def by (rule accounted_unregister [OF assms])
  have d: "accounted (cancelIdleTTLLocked i (drop_worker i rt))"
    using accounted_same [OF accounted_same [OF assms same_accounts_fields(8)] same_accounts_fields(4)] .
  show "accounted (fst (discardTerminalRecordLocked i rt))"
    using assms accounted_unregister [OF d] by (auto simp: discardTerminalRecordLocked_def Let_def unregister_cleanups accounted_forget split: option.splits)
  have c: "accounted (drop_worker i (cancel_worker i rt))"
    using accounted_same [OF accounted_same [OF assms same_accounts_fields(10)] same_accounts_fields(8)] .
  obtain rt1 q where u: "unregisterRecordLocked i (drop_worker i (cancel_worker i rt)) = (rt1, q)" by (cases "unregisterRecordLocked i (drop_worker i (cancel_worker i rt))")
  have s: "same_accounts (forgetTaskIdentityLocked i rt1) (forgetTaskIdentityLocked i (cancelRecordCleanupLocked i rt1))"
    by (simp add: same_accounts_def forgetTaskIdentityLocked_def)
  have "accounted rt1" if "q = None"
    using u that accounted_same [OF c same_accounts_fields(4) [of _ i]] by (auto simp: unregisterRecordLocked_def Let_def split: option.splits)
  then show "accounted (fst (cleanup_remove i rt))"
    using accounted_same [OF accounted_unregister [OF c, of i, unfolded u, simplified] s] by (simp add: cleanup_remove_def u Let_def)
qed

lemma admit_accounted:
  assumes "accounted rt" "admitRecord err r c f rt = (rt', None)" "map_of (tr_records rt) (tk_TaskID r) = None" "\<And>rt. same_accounts rt (f rt)"
  shows "accounted rt'"
proof -
  have "rt' = emitLifecycleLocked ''task_created'' r (f (registerRecordDataLocked r c rt))"
    using assms(2) by (auto simp: admitRecord_def split: option.splits)
  then show ?thesis using accounted_same [OF accounted_same [OF accounted_register [OF assms(1,3)] assms(4)] same_accounts_fields(1)] by simp
qed

lemma accounted_others:
  "accounted rt \<Longrightarrow> accounted (cleanup_scope_end s rt)" "accounted rt \<Longrightarrow> accounted (SetTaskEventSink x rt)"
  "accounted rt \<Longrightarrow> accounted (SetTaskEventObserver x rt)" "accounted rt \<Longrightarrow> accounted (rt\<lparr>tr_signalled := c\<rparr>)"
  by (simp_all add: accounted_def cleanup_scope_end_def SetTaskEventSink_def SetTaskEventObserver_def)

lemma upd_rt_fields [simp]: "tw_rt (upd_rt f w) = f (tw_rt w)" "tw_threads (upd_rt f w) = tw_threads w" "tw_foreground (upd_rt f w) = tw_foreground w"
  by (simp_all add: upd_rt_def)

lemma task_step_accounted: "task_step w w' \<Longrightarrow> accounted (tw_rt w) \<Longrightarrow> accounted (tw_rt w')"
proof (induction rule: task_step.induct)
  case (foreground i w err scope parent parentScope label descr kind now rt)
  show ?case using admit_accounted [OF foreground(3) foreground(2) [unfolded registerForegroundTask_def]] foreground(1)
    by (auto simp: fresh_task_def new_record_def same_accounts_def)
next
  case (spawned kind uuid w err descr label reusable parentScope parent worktree now rt)
  show ?case using admit_accounted [OF spawned(3) spawned(2) [unfolded SpawnWorker_def Let_def]] spawned(1)
    by (auto simp: fresh_task_def new_record_def same_accounts_def)
next
  case (messaged i scope now w rt r)
  show ?case using edit_at_accounted [OF messaged(2) edits(8) [OF messaged(2), of i scope now]] messaged(1) by simp
next
  case (started w i now rt spec)
  show ?case using edit_at_accounted [OF started(4) edits(2) [OF started(4), of i now]] started(2) by simp
next
  case (not_started w i now rt)
  show ?case using edit_at_accounted [OF not_started(3) edits(2) [OF not_started(3), of i now]] not_started(2) by simp
next
  case (ended w i spec result rt r)
  show ?case using edit_at_accounted [OF ended(4) edits(3) [OF ended(4), of i result spec]] ended(2) by simp
next
  case (ended_dead w i spec result rt)
  show ?case using edit_at_accounted [OF ended_dead(3) edits(3) [OF ended_dead(3), of i result spec]] ended_dead(2) by simp
next
  case (foreground_completed i w reason now)
  show ?case using edit_at_accounted [OF foreground_completed(2) edits(6) [OF foreground_completed(2), of i]] by (simp add: CompleteForegroundTask_def)
next
  case (foreground_failed i w reason now)
  show ?case using edit_at_accounted [OF foreground_failed(2) edits(6) [OF foreground_failed(2), of i]] by (simp add: FailForegroundTask_def)
next
  case (stopped w uuid i scope now)
  show ?case using edit_at_accounted [OF stopped edits(1) [OF stopped, of i]] by (simp add: killed_def)
next
  case (idled w t i uuid now)
  show ?case using edit_at_accounted [OF idled(2) edits(7) [OF idled(2), of i]] by simp
qed (simp_all add: accounted_report accounted_removals cleanup_expired_def accounted_same [OF _ same_accounts_fields(11)]
    accounted_same [OF _ same_accounts_fields(12)] accounted_same [OF _ same_accounts_fields(13)] accounted_same [OF _ same_accounts_fields(14)]
    accounted_same [OF _ same_accounts_all(1)] accounted_same [OF _ same_accounts_all(2)] accounted_others)

text \<open>The start: every record of the snapshot is new.\<close>

lemma import_record_facts:
  fixes x :: "(string \<times> string) \<times> int"
  assumes "accounted rt" "map_of (tr_records rt) (imported_id (x, raw)) = None"
  shows "accounted (import_record x raw rt)" and "fst ` set (tr_records (import_record x raw rt)) = insert (imported_id (x, raw)) (fst ` set (tr_records rt))"
proof -
  obtain uuid nid now where x: "x = ((uuid, nid), now)" by (cases x) auto
  define r where "r = complete_record uuid now raw"
  define r' where "r' = (if tk_Status r \<in> {''queued'', ''running'', ''idle''} then r\<lparr>tk_Status := ''interrupted'', tk_UpdatedAt := now,
    tk_TerminationReason := (if tk_TerminationReason r = [] then ''session_resumed'' else tk_TerminationReason r)\<rparr> else r)"
  have i: "tk_TaskID r' = imported_id (x, raw)" by (simp add: r'_def imported_id_def x r_def)
  have s: "same_accounts (registerRecordDataLocked r' False rt) (import_record x raw rt)"
    unfolding import_record_def x prod.case Let_def r_def [symmetric] r'_def [symmetric] by (simp add: same_accounts_def registerRecordLocked_def)
  show "accounted (import_record x raw rt)" by (rule accounted_same [OF accounted_register s]) (use assms i in simp_all)
  have "tr_records (import_record x raw rt) = mput (imported_id (x, raw)) r' (tr_records rt)"
    using s by (simp add: same_accounts_def registerRecordDataLocked_def i Let_def)
  then show "fst ` set (tr_records (import_record x raw rt)) = insert (imported_id (x, raw)) (fst ` set (tr_records rt))"
    by (simp add: update_conv' flip: dom_map_of_conv_image_fst)
qed

lemma import_all_accounted:
  "accounted rt \<Longrightarrow> distinct (map imported_id ps) \<Longrightarrow> set (map imported_id ps) \<inter> fst ` set (tr_records rt) = {} \<Longrightarrow>
   accounted (foldl (\<lambda>rt (x, raw). import_record x raw rt) rt ps)"
proof (induction ps arbitrary: rt)
  case (Cons p ps)
  obtain x raw where p: "p = (x, raw)" by (cases p)
  have "map_of (tr_records rt) (imported_id (x, raw)) = None" using Cons.prems(3) by (auto simp: p map_of_eq_None_iff)
  note f = import_record_facts [OF Cons.prems(1) this]
  have "accounted (foldl (\<lambda>rt (x, raw). import_record x raw rt) (import_record x raw rt) ps)"
    by (rule Cons.IH [OF f(1)]) (use Cons.prems(2,3) in \<open>auto simp: f(2) p\<close>)
  then show ?case by (simp add: p)
qed simp

lemma start_accounted: "good_snapshot ids snapshot \<Longrightarrow> accounted (tw_rt (start_world ids snapshot))"
proof -
  assume g: "good_snapshot ids snapshot"
  have d: "distinct (map imported_id (zip ids snapshot))" using g by (simp add: good_snapshot_def)
  show ?thesis unfolding start_world_def ImportSnapshot_def Let_def task_world.simps
    by (rule import_all_accounted [OF _ d]) (simp_all add: accounted_def children_def mget_def)
qed

lemma reachable_accounted: "task_reachable w \<Longrightarrow> accounted (tw_rt w)"
  by (induction rule: task_reachable.induct) (auto intro: start_accounted task_step_accounted)


section \<open>The life of a task\<close>

text \<open>What is known of a task: whether it runs in the foreground, its record, whether it has a specification, its goroutine.\<close>

definition life :: "bool \<Rightarrow> AgentTaskRecord option \<Rightarrow> bool \<Rightarrow> stage option \<Rightarrow> bool" where
  "life front r spec thread =
     (case r of None \<Rightarrow> True
      | Some r \<Rightarrow>
          if front then \<not> tk_Reusable r \<and> tk_Status r \<in> {''running'', ''completed'', ''failed'', ''killed''} \<and> thread = None
          else if tk_Status r = ''queued'' then thread = Some Starting \<and> spec
          else if tk_Status r = ''running'' then
            (case thread of Some (Working _) \<Rightarrow> True
             | Some (Reporting b res) \<Rightarrow> b = tk_Reusable r \<and> (b \<and> wr_Error res = None \<longrightarrow> spec)
             | _ \<Rightarrow> False)
          else if tk_Status r = ''idle'' then tk_Reusable r \<and> thread = None \<and> spec
          else tk_Status r = ''killed'' \<or> tk_Status r \<in> {''completed'', ''failed'', ''interrupted''} \<and> thread = None)"

definition living :: "task_world \<Rightarrow> bool" where
  "living w \<longleftrightarrow> (\<forall>i. life (i \<in> set (tw_foreground w)) (map_of (tr_records (tw_rt w)) i) (map_of (tr_workerSpecs (tw_rt w)) i \<noteq> None) (map_of (tw_threads w) i))"

text \<open>An operation on a task touches only its record and specification.\<close>

definition touches :: "string \<Rightarrow> AgentTaskRuntime \<Rightarrow> AgentTaskRuntime \<Rightarrow> bool" where
  "touches i rt rt' \<longleftrightarrow> (\<forall>j. j \<noteq> i \<longrightarrow> map_of (tr_records rt') j = map_of (tr_records rt) j \<and> map_of (tr_workerSpecs rt') j = map_of (tr_workerSpecs rt) j)"

lemma living_at:
  assumes "living w" "touches i (tw_rt w) (tw_rt w')" "\<And>j. j \<noteq> i \<Longrightarrow> map_of (tw_threads w') j = map_of (tw_threads w) j"
    "\<And>j. j \<noteq> i \<Longrightarrow> (j \<in> set (tw_foreground w')) = (j \<in> set (tw_foreground w))"
    "life (i \<in> set (tw_foreground w')) (map_of (tr_records (tw_rt w')) i) (map_of (tr_workerSpecs (tw_rt w')) i \<noteq> None) (map_of (tw_threads w') i)"
  shows "living w'"
  unfolding living_def
proof
  fix j
  show "life (j \<in> set (tw_foreground w')) (map_of (tr_records (tw_rt w')) j) (map_of (tr_workerSpecs (tw_rt w')) j \<noteq> None) (map_of (tw_threads w') j)"
    using assms by (cases "j = i") (auto simp: living_def touches_def)
qed

lemma edit_at_view:
  "edit_at i applies f rt rt' \<Longrightarrow> map_of (tr_records rt') j =
     (if j = i then map_option (\<lambda>r. if applies r then f r else r) (map_of (tr_records rt) i) else map_of (tr_records rt) j)"
  by (auto simp: edit_at_def update_conv' split: option.splits)

lemma specs_after:
  "map_of (tr_workerSpecs (fst (StopTask uuid i scope now rt))) j =
     (if j = i \<and> (\<exists>r. map_of (tr_records rt) i = Some r \<and> (scope = [] \<or> tk_ParentScopeID r = scope) \<and> \<not> terminal_task r) then None
      else map_of (tr_workerSpecs rt) j)"
  "tr_workerSpecs (fst (run_begin i now rt)) = tr_workerSpecs rt"
  "map_of (tr_workerSpecs (fst (run_end i spec result rt))) j =
     (if j = i \<and> map_of (tr_records rt) i \<noteq> None then
        (case map_of (tr_records rt) i of None \<Rightarrow> None
         | Some r \<Rightarrow> if tk_Status r = ''killed'' \<or> \<not> tk_Reusable r \<or> wr_Error result \<noteq> None then None
                    else Some (spec\<lparr>ws_sessionState := Some (wr_session result), ws_firstCompleted := True\<rparr>))
      else map_of (tr_workerSpecs rt) j)"
  "tr_workerSpecs (run_report uuid i reusable result now rt) = tr_workerSpecs rt"
  "tr_workerSpecs (setForegroundTaskTerminal i status reason now rt) = tr_workerSpecs rt"
  "map_of (tr_workerSpecs (idle_expired tm uuid i now rt)) j =
     (if j = i \<and> (\<exists>r. map_of (tr_records rt) i = Some r \<and> tk_Status r = ''idle'') then None else map_of (tr_workerSpecs rt) j)"
  "tr_workerSpecs (fst (SendMessage i scope now rt)) = tr_workerSpecs rt"
  by (auto simp: StopTask_def run_begin_def run_end_def run_report_def finish_task_def finishReusableIdle_def setForegroundTaskTerminal_def
      idle_expired_def SendMessage_def getTaskLocked_def Let_def update_conv' delete_conv' split: option.splits)


definition reported_record :: "bool \<Rightarrow> worker_result \<Rightarrow> int \<Rightarrow> AgentTaskRecord \<Rightarrow> AgentTaskRecord" where
  "reported_record reusable result now =
     (case wr_Error result of
        Some (kind, err) \<Rightarrow> finish_record (if kind = ''canceled'' then ''interrupted'' else ''failed'') (wr_FinalText result) err
          (if kind = ''deadline'' then ''timeout'' else if kind = ''canceled'' then ''cancelled'' else ''failed'') now
      | None \<Rightarrow> finish_record (if reusable then ''idle'' else ''completed'') (wr_FinalText result) [] ''completed'' now)"

lemma edit_report:
  "accounted rt \<Longrightarrow> edit_at i (\<lambda>r. tk_Status r \<noteq> ''killed'' \<and> tk_Status r \<noteq> ''interrupted'') (reported_record reusable result now)
     rt (run_report uuid i reusable result now rt)"
  using edits(4) [of rt i] edits(5) [of rt i] by (simp add: run_report_def reported_record_def Let_def split: option.splits prod.splits)

lemma removal_views:
  "touches i rt (fst (discardTerminalRecordLocked i rt))" "touches i rt (fst (cleanup_remove i rt))" "touches i rt (DiscardForegroundTask i rt)"
  "map_of (tr_records (fst (cleanup_remove i rt))) i = None" "map_of (tr_records (DiscardForegroundTask i rt)) i = None"
  "map_of (tr_records (fst (discardTerminalRecordLocked i rt))) i = None \<or>
     map_of (tr_records (fst (discardTerminalRecordLocked i rt))) i = map_of (tr_records rt) i \<and>
     map_of (tr_workerSpecs (fst (discardTerminalRecordLocked i rt))) i = map_of (tr_workerSpecs rt) i"
  by (auto simp: touches_def discardTerminalRecordLocked_def cleanup_remove_def DiscardForegroundTask_def unregisterRecordLocked_def
      forgetTaskIdentityLocked_def cancelRecordCleanupLocked_def cancel_timer_def Let_def delete_conv' split: option.splits prod.splits)

text \<open>Operations that touch neither.\<close>

definition keeps :: "AgentTaskRuntime \<Rightarrow> AgentTaskRuntime \<Rightarrow> bool" where
  "keeps rt rt' \<longleftrightarrow> tr_records rt' = tr_records rt \<and> tr_workerSpecs rt' = tr_workerSpecs rt"

lemma keeps_foldl: "(\<And>rt x. keeps rt (f rt x)) \<Longrightarrow> keeps rt (foldl f rt xs)"
proof (induction xs arbitrary: rt)
  case (Cons x xs)
  have "keeps (f rt x) (foldl f (f rt x) xs)" by (rule Cons.IH [OF Cons.prems])
  then show ?case using Cons.prems [of rt x] by (simp add: keeps_def)
qed (simp add: keeps_def)

lemma kept:
  "keeps rt (timer_passes tm rt)" "keeps rt (fst (DrainPendingNotifications s rt))" "keeps rt (consumeMatchingNotificationsLocked s ids rt)"
  "keeps rt (EnsureScope s rt)" "keeps rt (SetTaskEventSink x rt)" "keeps rt (SetTaskEventObserver x rt)" "keeps rt (cleanup_scope_end s rt)"
  "keeps rt (rt\<lparr>tr_signalled := c\<rparr>)" "keeps rt (fst (wait_register ids rt))" "keeps rt (Shutdown_timers rt)"
proof -
  show "keeps rt (timer_passes tm rt)" "keeps rt (fst (DrainPendingNotifications s rt))" "keeps rt (consumeMatchingNotificationsLocked s ids rt)"
    "keeps rt (EnsureScope s rt)" "keeps rt (SetTaskEventSink x rt)" "keeps rt (SetTaskEventObserver x rt)" "keeps rt (cleanup_scope_end s rt)"
    "keeps rt (rt\<lparr>tr_signalled := c\<rparr>)"
    by (auto simp: keeps_def timer_passes_def DrainPendingNotifications_def consumeMatchingNotificationsLocked_def EnsureScope_def add_scope_def
        SetTaskEventSink_def SetTaskEventObserver_def cleanup_scope_end_def Let_def split: option.splits)
  have "keeps rt (foldl (\<lambda>rt i. rt\<lparr>tr_waiters := mput i (mget [] (tr_waiters rt) i @ [tr_next rt]) (tr_waiters rt)\<rparr>) rt ids)"
    by (rule keeps_foldl) (simp add: keeps_def)
  then show "keeps rt (fst (wait_register ids rt))" by (simp add: wait_register_def keeps_def)
  have "keeps rt (cancelAllRecordCleanupLocked rt)" for rt unfolding cancelAllRecordCleanupLocked_def
    by (rule keeps_foldl) (auto simp: keeps_def cancelRecordCleanupLocked_def cancel_timer_def split: option.splits)
  moreover have "keeps rt (cancelAllIdleTTLLocked rt)" for rt unfolding cancelAllIdleTTLLocked_def
    by (rule keeps_foldl) (auto simp: keeps_def cancelIdleTTLLocked_def cancel_timer_def split: option.splits)
  ultimately show "keeps rt (Shutdown_timers rt)" unfolding Shutdown_timers_def keeps_def by simp
qed

lemma living_keeps: "living w \<Longrightarrow> keeps (tw_rt w) (f (tw_rt w)) \<Longrightarrow> living (upd_rt f w)"
  by (simp add: living_def keeps_def)

lemma admit_view:
  "admitRecord err r c f rt = (rt', None) \<Longrightarrow> (\<And>rt. tr_records (f rt) = tr_records rt) \<Longrightarrow>
   tr_records rt' = mput (tk_TaskID r) r (tr_records rt) \<and> tr_workerSpecs rt' = tr_workerSpecs (f (registerRecordDataLocked r c rt))"
  by (auto simp: admitRecord_def registerRecordDataLocked_def Let_def split: option.splits)

lemma register_specs: "tr_workerSpecs (registerRecordDataLocked r c rt) = tr_workerSpecs rt" "tr_workerSpecs (add_scope s rt) = tr_workerSpecs rt"
  by (simp_all add: registerRecordDataLocked_def Let_def add_scope_def)


lemma life_None [simp]: "life front None spec thread"
  by (simp add: life_def)

lemma life_of: "living w \<Longrightarrow> life (i \<in> set (tw_foreground w)) (map_of (tr_records (tw_rt w)) i) (map_of (tr_workerSpecs (tw_rt w)) i \<noteq> None) (map_of (tw_threads w) i)"
  by (simp add: living_def)

lemma touches_edit:
  "edit_at i applies f rt rt' \<Longrightarrow> (\<And>j. j \<noteq> i \<Longrightarrow> map_of (tr_workerSpecs rt') j = map_of (tr_workerSpecs rt) j) \<Longrightarrow> touches i rt rt'"
  by (simp add: touches_def edit_at_view)

text \<open>Each step of a worker.\<close>

lemma living_edit:
  assumes "living w" "edit_at i applies f (tw_rt w) rt'" "\<And>j. j \<noteq> i \<Longrightarrow> map_of (tr_workerSpecs rt') j = map_of (tr_workerSpecs (tw_rt w)) j"
    "\<And>j. j \<noteq> i \<Longrightarrow> map_of th j = map_of (tw_threads w) j"
    "\<And>r. map_of (tr_records (tw_rt w)) i = Some r \<Longrightarrow> life (i \<in> set (tw_foreground w)) (Some r) (map_of (tr_workerSpecs (tw_rt w)) i \<noteq> None) (map_of (tw_threads w) i) \<Longrightarrow>
       life (i \<in> set (tw_foreground w)) (Some (if applies r then f r else r)) (map_of (tr_workerSpecs rt') i \<noteq> None) (map_of th i)"
  shows "living (w\<lparr>tw_rt := rt', tw_threads := th\<rparr>)"
proof (rule living_at [OF assms(1), where i = i])
  show "touches i (tw_rt w) (tw_rt (w\<lparr>tw_rt := rt', tw_threads := th\<rparr>))" using touches_edit [OF assms(2,3)] by simp
  show "life (i \<in> set (tw_foreground (w\<lparr>tw_rt := rt', tw_threads := th\<rparr>))) (map_of (tr_records (tw_rt (w\<lparr>tw_rt := rt', tw_threads := th\<rparr>))) i)
     (map_of (tr_workerSpecs (tw_rt (w\<lparr>tw_rt := rt', tw_threads := th\<rparr>))) i \<noteq> None) (map_of (tw_threads (w\<lparr>tw_rt := rt', tw_threads := th\<rparr>)) i)"
    using life_of [OF assms(1), of i] assms(5) by (cases "map_of (tr_records (tw_rt w)) i") (simp_all add: edit_at_view [OF assms(2)])
qed (use assms(4) in simp_all)

lemma living_edit_rt:
  assumes "living w" "edit_at i applies f (tw_rt w) rt'" "\<And>j. j \<noteq> i \<Longrightarrow> map_of (tr_workerSpecs rt') j = map_of (tr_workerSpecs (tw_rt w)) j"
    "\<And>r. map_of (tr_records (tw_rt w)) i = Some r \<Longrightarrow> life (i \<in> set (tw_foreground w)) (Some r) (map_of (tr_workerSpecs (tw_rt w)) i \<noteq> None) (map_of (tw_threads w) i) \<Longrightarrow>
       life (i \<in> set (tw_foreground w)) (Some (if applies r then f r else r)) (map_of (tr_workerSpecs rt') i \<noteq> None) (map_of (tw_threads w) i)"
  shows "living (w\<lparr>tw_rt := rt'\<rparr>)"
  using living_edit [OF assms(1-3) _ assms(4)] by simp

lemma living_stopped:
  assumes a: "accounted (tw_rt w)" and l: "living w"
  shows "living (upd_rt (\<lambda>rt. fst (StopTask uuid i scope now rt)) w)"
  unfolding upd_rt_def by (rule living_edit_rt [OF l edits(1) [OF a]]) (auto simp: specs_after life_def killed_def)

lemma living_begin:
  assumes a: "accounted (tw_rt w)" and l: "living w" and t: "map_of (tw_threads w) i = Some Starting" and b: "run_begin i now (tw_rt w) = (rt, ok)"
    and th: "th = (if ok then mput i (Working spec) (tw_threads w) else mdel i (tw_threads w))"
  shows "living (w\<lparr>tw_rt := rt, tw_threads := th\<rparr>)"
proof -
  have rt: "rt = fst (run_begin i now (tw_rt w))" by (simp add: b)
  show ?thesis unfolding rt
  proof (rule living_edit [OF l edits(2) [OF a]])
    show "map_of th j = map_of (tw_threads w) j" if "j \<noteq> i" for j using th that by (cases ok) (auto simp: update_conv' delete_conv')
    fix r
    assume r: "map_of (tr_records (tw_rt w)) i = Some r"
      and v: "life (i \<in> set (tw_foreground w)) (Some r) (map_of (tr_workerSpecs (tw_rt w)) i \<noteq> None) (map_of (tw_threads w) i)"
    have ok: "ok \<longleftrightarrow> map_of (tr_workerSpecs (tw_rt w)) i \<noteq> None \<and> tk_Status r = ''queued''"
      using b r by (auto simp: run_begin_def Let_def split: option.splits if_splits)
    have "map_of th i = (if ok then Some (Working spec) else None)" using th by (cases ok) (auto simp: update_conv' delete_conv')
    then show "life (i \<in> set (tw_foreground w)) (Some (if map_of (tr_workerSpecs (tw_rt w)) i \<noteq> None \<and> tk_Status r = ''queued''
        then r\<lparr>tk_Status := ''running'', tk_UpdatedAt := now\<rparr> else r)) (map_of (tr_workerSpecs (fst (run_begin i now (tw_rt w)))) i \<noteq> None) (map_of th i)"
      using v t ok by (auto simp: specs_after life_def split: if_splits)
  qed (simp add: specs_after)
qed


lemma run_end_ok: "map_of (tr_records rt) i = Some r \<Longrightarrow> snd (run_end i spec result rt) = (tk_Status r \<noteq> ''killed'')"
  "map_of (tr_records rt) i = None \<Longrightarrow> \<not> snd (run_end i spec result rt)"
  by (auto simp: run_end_def Let_def)

lemma living_end:
  assumes a: "accounted (tw_rt w)" and l: "living w" and t: "map_of (tw_threads w) i = Some (Working spec)" and e: "run_end i spec result (tw_rt w) = (rt, ok)"
    and th: "th = (if ok then mput i (Reporting b result) (tw_threads w) else mdel i (tw_threads w))"
    and b: "\<And>r. map_of (tr_records (tw_rt w)) i = Some r \<Longrightarrow> b = tk_Reusable r"
  shows "living (w\<lparr>tw_rt := rt, tw_threads := th\<rparr>)"
proof -
  have rt: "rt = fst (run_end i spec result (tw_rt w))" by (simp add: e)
  show ?thesis unfolding rt
  proof (rule living_edit [OF l edits(3) [OF a]])
    show "map_of th j = map_of (tw_threads w) j" if "j \<noteq> i" for j using th that by (cases ok) (auto simp: update_conv' delete_conv')
    fix r
    assume r: "map_of (tr_records (tw_rt w)) i = Some r"
      and v: "life (i \<in> set (tw_foreground w)) (Some r) (map_of (tr_workerSpecs (tw_rt w)) i \<noteq> None) (map_of (tw_threads w) i)"
    have ok: "ok = (tk_Status r \<noteq> ''killed'')" using run_end_ok(1) [OF r, of spec result] e by simp
    have m: "map_of th i = (if ok then Some (Reporting b result) else None)" using th by (cases ok) (auto simp: update_conv' delete_conv')
    have b': "b = tk_Reusable r" by (rule b [OF r])
    have "tk_Status r = ''running'' \<or> tk_Status r = ''killed''" "i \<notin> set (tw_foreground w)"
      using v t by (auto simp: life_def split: if_splits)
    then show "life (i \<in> set (tw_foreground w)) (Some (if tk_Status r \<noteq> ''killed''
        then r\<lparr>tk_DurationMS := tk_DurationMS r + wr_durationMS result, tk_InputTokens := tk_InputTokens r + wr_inputDelta result,
           tk_OutputTokens := tk_OutputTokens r + wr_outputDelta result, tk_ToolUseCount := tk_ToolUseCount r + wr_toolUseDelta result\<rparr> else r))
        (map_of (tr_workerSpecs (fst (run_end i spec result (tw_rt w)))) i \<noteq> None) (map_of th i)"
      using m ok b' r by (auto simp: specs_after life_def)
  qed (simp add: specs_after)
qed

lemma reported_fields:
  "tk_Reusable (reported_record reusable result now r) = tk_Reusable r"
  "tk_Status (reported_record reusable result now r) = (case wr_Error result of None \<Rightarrow> if reusable then ''idle'' else ''completed''
     | Some (kind, _) \<Rightarrow> if kind = ''canceled'' then ''interrupted'' else ''failed'')"
  by (auto simp: reported_record_def finish_record_def split: option.splits prod.splits)

lemma living_report:
  assumes a: "accounted (tw_rt w)" and l: "living w" and t: "map_of (tw_threads w) i = Some (Reporting reusable result)"
  shows "living (w\<lparr>tw_rt := run_report uuid i reusable result now (tw_rt w), tw_threads := mdel i (tw_threads w)\<rparr>)"
proof (rule living_edit [OF l edit_report [OF a]])
  fix r
  assume r: "map_of (tr_records (tw_rt w)) i = Some r"
    and v: "life (i \<in> set (tw_foreground w)) (Some r) (map_of (tr_workerSpecs (tw_rt w)) i \<noteq> None) (map_of (tw_threads w) i)"
  have f: "i \<notin> set (tw_foreground w)" "tk_Status r = ''running'' \<and> reusable = tk_Reusable r \<and> (reusable \<and> wr_Error result = None \<longrightarrow> map_of (tr_workerSpecs (tw_rt w)) i \<noteq> None)
      \<or> tk_Status r = ''killed''" using v t by (auto simp: life_def split: if_splits)
  show "life (i \<in> set (tw_foreground w)) (Some (if tk_Status r \<noteq> ''killed'' \<and> tk_Status r \<noteq> ''interrupted'' then reported_record reusable result now r else r))
     (map_of (tr_workerSpecs (run_report uuid i reusable result now (tw_rt w))) i \<noteq> None) (map_of (mdel i (tw_threads w)) i)"
  proof (cases "tk_Status r = ''killed''")
    case False
    then show ?thesis using f by (cases "wr_Error result") (auto simp: life_def reported_fields specs_after delete_conv' split: prod.splits)
  qed (use f in \<open>simp add: life_def\<close>)
qed (simp_all add: specs_after delete_conv')

lemma living_message:
  assumes a: "accounted (tw_rt w)" and l: "living w" and s: "SendMessage i scope now (tw_rt w) = (rt, Inr q)"
  shows "living (w\<lparr>tw_rt := rt, tw_threads := mput i Starting (tw_threads w)\<rparr>)"
proof -
  have rt: "rt = fst (SendMessage i scope now (tw_rt w))" by (simp add: s)
  obtain r where r: "map_of (tr_records (tw_rt w)) i = Some r" "map_of (tr_workerSpecs (tw_rt w)) i \<noteq> None \<and> tk_ParentScopeID r = scope \<and> tk_Reusable r \<and> tk_Status r = ''idle''"
    using s by (auto simp: SendMessage_def Let_def split: option.splits if_splits)
  show ?thesis unfolding rt
  proof (rule living_edit [OF l edits(8) [OF a]])
    fix q
    assume "map_of (tr_records (tw_rt w)) i = Some q"
      and v: "life (i \<in> set (tw_foreground w)) (Some q) (map_of (tr_workerSpecs (tw_rt w)) i \<noteq> None) (map_of (tw_threads w) i)"
    then show "life (i \<in> set (tw_foreground w)) (Some (if map_of (tr_workerSpecs (tw_rt w)) i \<noteq> None \<and> tk_ParentScopeID q = scope \<and> tk_Reusable q \<and> tk_Status q = ''idle''
        then q\<lparr>tk_Status := ''queued'', tk_UpdatedAt := now\<rparr> else q)) (map_of (tr_workerSpecs (fst (SendMessage i scope now (tw_rt w)))) i \<noteq> None)
        (map_of (mput i Starting (tw_threads w)) i)" using r by (auto simp: life_def specs_after update_conv')
  qed (simp_all add: specs_after update_conv')
qed


lemma living_idle_expired: "accounted (tw_rt w) \<Longrightarrow> living w \<Longrightarrow> living (upd_rt (idle_expired tm uuid i now) w)"
  unfolding upd_rt_def by (rule living_edit_rt [OF _ edits(7)]) (auto simp: specs_after life_def)

lemma living_foreground:
  "accounted (tw_rt w) \<Longrightarrow> living w \<Longrightarrow> i \<in> set (tw_foreground w) \<Longrightarrow> status \<in> {''completed'', ''failed''} \<Longrightarrow>
   living (upd_rt (setForegroundTaskTerminal i status reason now) w)"
  unfolding upd_rt_def by (rule living_edit_rt [OF _ edits(6)]) (auto simp: specs_after life_def)

lemma living_removed:
  assumes "living w" "touches i (tw_rt w) (f (tw_rt w))" "map_of (tr_records (f (tw_rt w))) i = None \<or>
     map_of (tr_records (f (tw_rt w))) i = map_of (tr_records (tw_rt w)) i \<and> map_of (tr_workerSpecs (f (tw_rt w))) i = map_of (tr_workerSpecs (tw_rt w)) i"
  shows "living (upd_rt f w)"
  by (rule living_at [OF assms(1), where i = i]) (use assms life_of [OF assms(1), of i] in auto)

lemma living_spawned:
  assumes l: "living w" and f: "fresh_task (worker_task_id kind uuid) w"
    and s: "SpawnWorker err uuid descr kind label reusable parentScope parent worktree now (tw_rt w) = (rt, None)"
  shows "living (w\<lparr>tw_rt := rt, tw_threads := mput (worker_task_id kind uuid) Starting (tw_threads w)\<rparr>)"
proof (rule living_at [OF l, where i = "worker_task_id kind uuid"])
  note v = admit_view [OF s [unfolded SpawnWorker_def Let_def], simplified, unfolded register_specs]
  show "touches (worker_task_id kind uuid) (tw_rt w) (tw_rt (w\<lparr>tw_rt := rt, tw_threads := mput (worker_task_id kind uuid) Starting (tw_threads w)\<rparr>))"
    by (simp add: touches_def v new_record_def update_conv')
  show "life (worker_task_id kind uuid \<in> set (tw_foreground (w\<lparr>tw_rt := rt, tw_threads := mput (worker_task_id kind uuid) Starting (tw_threads w)\<rparr>)))
     (map_of (tr_records (tw_rt (w\<lparr>tw_rt := rt, tw_threads := mput (worker_task_id kind uuid) Starting (tw_threads w)\<rparr>))) (worker_task_id kind uuid))
     (map_of (tr_workerSpecs (tw_rt (w\<lparr>tw_rt := rt, tw_threads := mput (worker_task_id kind uuid) Starting (tw_threads w)\<rparr>))) (worker_task_id kind uuid) \<noteq> None)
     (map_of (tw_threads (w\<lparr>tw_rt := rt, tw_threads := mput (worker_task_id kind uuid) Starting (tw_threads w)\<rparr>)) (worker_task_id kind uuid))"
    using f by (simp add: v new_record_def update_conv' life_def fresh_task_def)
qed (simp_all add: update_conv')

lemma living_registered:
  assumes l: "living w" and f: "fresh_task i w"
    and s: "registerForegroundTask err scope i parent parentScope label descr kind now (tw_rt w) = (rt, None)"
  shows "living (w\<lparr>tw_rt := rt, tw_foreground := i # tw_foreground w\<rparr>)"
proof (rule living_at [OF l, where i = i])
  have v: "tr_records rt = mput i (new_record i parent parentScope label descr kind False ''running'' now) (tr_records (tw_rt w))"
    "tr_workerSpecs rt = tr_workerSpecs (tw_rt w)"
    using admit_view [OF s [unfolded registerForegroundTask_def]] by (auto simp: new_record_def register_specs)
  show "touches i (tw_rt w) (tw_rt (w\<lparr>tw_rt := rt, tw_foreground := i # tw_foreground w\<rparr>))" by (simp add: touches_def v update_conv')
  show "life (i \<in> set (tw_foreground (w\<lparr>tw_rt := rt, tw_foreground := i # tw_foreground w\<rparr>))) (map_of (tr_records (tw_rt (w\<lparr>tw_rt := rt, tw_foreground := i # tw_foreground w\<rparr>))) i)
     (map_of (tr_workerSpecs (tw_rt (w\<lparr>tw_rt := rt, tw_foreground := i # tw_foreground w\<rparr>))) i \<noteq> None) (map_of (tw_threads (w\<lparr>tw_rt := rt, tw_foreground := i # tw_foreground w\<rparr>)) i)"
    using f by (simp add: v new_record_def update_conv' life_def fresh_task_def)
qed simp_all


lemma task_step_living: "task_step w w' \<Longrightarrow> accounted (tw_rt w) \<Longrightarrow> living w \<Longrightarrow> living w'"
proof (induction rule: task_step.induct)
  case (started w i now rt spec)
  show ?case by (rule living_begin [OF started(4,5,1,2)]) simp
next
  case (not_started w i now rt)
  show ?case by (rule living_begin [OF not_started(3,4,1,2)]) simp
next
  case (ended w i spec result rt r)
  show ?case by (rule living_end [OF ended(4,5,1,2)]) (use ended(3) in auto)
next
  case (ended_dead w i spec result rt)
  show ?case by (rule living_end [OF ended_dead(3,4,1,2), where b = "case map_of (tr_records (tw_rt w)) i of None \<Rightarrow> False | Some r \<Rightarrow> tk_Reusable r"]) simp_all
next
  case (reported w i reusable result uuid now)
  show ?case by (rule living_report [OF reported(2,3,1)])
next
  case (foreground_completed i w reason now)
  then show ?case using living_foreground [of w i "''completed''"] by (simp add: CompleteForegroundTask_def [abs_def] upd_rt_def)
next
  case (foreground_failed i w reason now)
  then show ?case using living_foreground [of w i "''failed''"] by (simp add: FailForegroundTask_def [abs_def] upd_rt_def)
next
  case (cleaned w t i)
  have k: "touches i rt (fst (discardTerminalRecordLocked i (rt\<lparr>tr_fired := x\<rparr>)))"
    "map_of (tr_records (fst (discardTerminalRecordLocked i (rt\<lparr>tr_fired := x\<rparr>)))) i = None \<or>
     map_of (tr_records (fst (discardTerminalRecordLocked i (rt\<lparr>tr_fired := x\<rparr>)))) i = map_of (tr_records rt) i \<and>
     map_of (tr_workerSpecs (fst (discardTerminalRecordLocked i (rt\<lparr>tr_fired := x\<rparr>)))) i = map_of (tr_workerSpecs rt) i" for rt x
    using removal_views(1,6) [of i "rt\<lparr>tr_fired := x\<rparr>"] by (simp_all add: touches_def)
  show ?case by (rule living_removed [OF cleaned(3), where i = i]) (simp_all add: cleanup_expired_def k)
next
  case (removed w i)
  show ?case by (rule living_removed [OF removed(2), where i = i]) (simp_all add: removal_views)
next
  case (foreground_discarded i w)
  show ?case by (rule living_removed [OF foreground_discarded(3), where i = i]) (simp_all add: removal_views)
qed (auto intro: living_spawned living_registered living_message living_stopped living_idle_expired living_keeps kept)

text \<open>At the start every task has ended.\<close>

lemma import_statuses:
  assumes "\<And>i r. map_of (tr_records rt) i = Some r \<Longrightarrow> terminal_task r" "tr_workerSpecs rt = []"
    "list_all (\<lambda>(x, raw). tk_Status raw \<in> {[], ''queued'', ''running'', ''idle'', ''completed'', ''failed'', ''killed'', ''interrupted''}) ps"
  shows "map_of (tr_records (foldl (\<lambda>rt (x, raw). import_record x raw rt) rt ps)) i = Some r \<Longrightarrow> terminal_task r"
  using assms
proof (induction ps arbitrary: rt)
  case (Cons p ps)
  obtain uuid nid now raw where p: "p = (((uuid, nid), now), raw)" by (cases p) auto
  define q where "q = complete_record uuid now raw"
  define r' where "r' = (if tk_Status q \<in> {''queued'', ''running'', ''idle''} then q\<lparr>tk_Status := ''interrupted'', tk_UpdatedAt := now,
    tk_TerminationReason := (if tk_TerminationReason q = [] then ''session_resumed'' else tk_TerminationReason q)\<rparr> else q)"
  have t: "terminal_task r'" using Cons.prems(4) by (auto simp: p r'_def q_def complete_record_def terminal_task_def terminalTaskStatuses_def)
  have m: "tr_records (import_record ((uuid, nid), now) raw rt) = mput (tk_TaskID r') r' (tr_records rt)"
    "tr_workerSpecs (import_record ((uuid, nid), now) raw rt) = tr_workerSpecs rt"
    unfolding import_record_def prod.case Let_def q_def [symmetric] r'_def [symmetric]
    by (simp_all add: registerRecordLocked_def registerRecordDataLocked_def register_specs Let_def)
  show ?case by (rule Cons.IH [of "import_record ((uuid, nid), now) raw rt"]) (use Cons.prems t in \<open>auto simp: p m update_conv' split: if_splits\<close>)
qed simp

lemma life_terminal: "terminal_task r \<Longrightarrow> life False (Some r) spec None"
  by (auto simp: life_def terminal_task_def terminalTaskStatuses_def)

lemma start_living: "good_snapshot ids snapshot \<Longrightarrow> living (start_world ids snapshot)"
proof -
  assume g: "good_snapshot ids snapshot"
  have z: "list_all (\<lambda>(x, raw). tk_Status raw \<in> {[], ''queued'', ''running'', ''idle'', ''completed'', ''failed'', ''killed'', ''interrupted''}) (zip ids snapshot)"
    using g unfolding good_snapshot_def list_all_iff by (auto dest: set_zip_rightD)
  have "terminal_task r" if "map_of (tr_records (tw_rt (start_world ids snapshot))) i = Some r" for i r
    using import_statuses [OF _ _ z that [unfolded start_world_def ImportSnapshot_def Let_def task_world.simps]] by simp
  then have "life False (map_of (tr_records (tw_rt (start_world ids snapshot))) i) spec None" for i spec
    by (cases "map_of (tr_records (tw_rt (start_world ids snapshot))) i") (auto intro: life_terminal)
  moreover have "tw_threads (start_world ids snapshot) = []" "tw_foreground (start_world ids snapshot) = []" by (simp_all add: start_world_def)
  ultimately show ?thesis by (simp add: living_def)
qed

lemma reachable_living: "task_reachable w \<Longrightarrow> living w"
  by (induction rule: task_reachable.induct) (auto intro: start_living task_step_living reachable_accounted)


text \<open>How a status may change.\<close>

definition lifecycle :: "(string \<times> string) list" where
  "lifecycle = [(''queued'', ''running''), (''queued'', ''killed''), (''running'', ''idle''), (''running'', ''completed''), (''running'', ''failed''),
     (''running'', ''interrupted''), (''running'', ''killed''), (''idle'', ''queued''), (''idle'', ''completed''), (''idle'', ''killed'')]"

definition along :: "AgentTaskRecord \<Rightarrow> AgentTaskRecord \<Rightarrow> bool" where
  "along r r' \<longleftrightarrow> tk_ParentScopeID r' = tk_ParentScopeID r \<and> tk_Reusable r' = tk_Reusable r \<and>
     (tk_Status r' = tk_Status r \<or> (tk_Status r, tk_Status r') \<in> set lifecycle)"

lemma along_refl [simp]: "along r r"
  by (simp add: along_def)

text \<open>What a step may do to the record of a worker: its status changes along the life cycle, and when it becomes stable, every channel that was
  registered for it holds a signal afterwards.\<close>

definition settled :: "AgentTaskRecord \<Rightarrow> bool" where
  "settled r \<longleftrightarrow> isStableTask (Some r)"

definition wakes :: "string \<Rightarrow> AgentTaskRuntime \<Rightarrow> AgentTaskRuntime \<Rightarrow> bool" where
  "wakes i rt rt' \<longleftrightarrow> set (mget [] (tr_waiters rt) i) \<subseteq> set (tr_signalled rt')"

definition changes :: "string \<Rightarrow> AgentTaskRuntime \<Rightarrow> AgentTaskRuntime \<Rightarrow> AgentTaskRecord \<Rightarrow> AgentTaskRecord \<Rightarrow> bool" where
  "changes i rt rt' r r' \<longleftrightarrow> along r r' \<and> (settled r' \<longrightarrow> settled r \<or> wakes i rt rt')"

lemmas status_facts = changes_def along_def lifecycle_def settled_def isStableTask_def reusableStableStatuses_def nonReusableStableStatuses_def

lemma changes_refl [simp]: "changes i rt rt' r r"
  by (simp add: changes_def)

lemma changes_edit:
  "edit_at k applies f rt rt' \<Longrightarrow> map_of (tr_records rt) i = Some r \<Longrightarrow> map_of (tr_records rt') i = Some r' \<Longrightarrow>
   (i = k \<Longrightarrow> applies r \<Longrightarrow> changes i rt rt' r (f r)) \<Longrightarrow> changes i rt rt' r r'"
  by (auto simp: edit_at_view split: if_splits)

text \<open>The two operations that end the work of a worker enqueue a notification, which signals the waiting calls.\<close>

lemma set_signal: "set (signal ws sig) = set ws \<union> set sig"
proof -
  have "set (foldl (\<lambda>acc w. List.insert w acc) sig ws) = set ws \<union> set sig" by (induction ws arbitrary: sig) auto
  then show ?thesis by (simp add: signal_def)
qed

lemma signalled_kept [simp]:
  "tr_signalled (scheduleTerminalRecordCleanupLocked i rt) = tr_signalled rt" "tr_signalled (scheduleIdleTTLLocked i rt) = tr_signalled rt"
  "tr_waiters (emitLifecycleLocked t q rt) = tr_waiters rt" "tr_waiters (set_record q rt) = tr_waiters rt"
  "tr_waiters (cancelIdleTTLLocked i rt) = tr_waiters rt" "tr_waiters (cancel_worker i rt) = tr_waiters rt"
  by (auto simp: scheduleTerminalRecordCleanupLocked_def scheduleIdleTTLLocked_def emitLifecycleLocked_def set_record_def cancelIdleTTLLocked_def
      cancel_timer_def cancel_worker_def Let_def split: option.splits)

lemma enqueue_wakes: "wakes (tk_TaskID q) rt (enqueueLocked uuid q summary result rt)"
  by (simp add: wakes_def enqueueLocked_def Let_def set_signal)

lemma stop_wakes:
  assumes "accounted rt" "map_of (tr_records rt) i = Some r" "scope = [] \<or> tk_ParentScopeID r = scope" "\<not> terminal_task r"
  shows "wakes i rt (fst (StopTask uuid i scope now rt))"
proof -
  have "tk_TaskID r = i" by (rule record_name [OF assms(1,2)])
  then show ?thesis using assms(2-4)
    by (auto simp: StopTask_def getTaskLocked_def Let_def wakes_def enqueueLocked_def set_signal)
qed

lemma report_wakes:
  assumes "accounted rt" "map_of (tr_records rt) i = Some r" "tk_Status r \<noteq> ''killed''" "tk_Status r \<noteq> ''interrupted''"
  shows "wakes i rt (run_report uuid i reusable result now rt)"
proof -
  have "tk_TaskID r = i" by (rule record_name [OF assms(1,2)])
  then show ?thesis using assms(2-4)
    by (auto simp: run_report_def finish_task_def finishReusableIdle_def finish_record_def Let_def wakes_def enqueueLocked_def set_signal split: option.splits)
qed

lemma touched_same:
  "touches k rt rt' \<Longrightarrow> map_of (tr_records rt') k = None \<or> map_of (tr_records rt') k = map_of (tr_records rt) k \<and> P \<Longrightarrow>
   map_of (tr_records rt) i = Some r \<Longrightarrow> map_of (tr_records rt') i = Some r' \<Longrightarrow> r' = r"
  by (cases "i = k") (auto simp: touches_def)

lemma step_changes:
  assumes "task_step w w'" "accounted (tw_rt w)" "living w"
    "map_of (tr_records (tw_rt w)) i = Some r" "map_of (tr_records (tw_rt w')) i = Some r'" "i \<notin> set (tw_foreground w)"
  shows "changes i (tw_rt w) (tw_rt w') r r'"
proof -
  note l = life_of [OF assms(3), of i, unfolded assms(4)]
  note e = changes_edit [OF _ assms(4,5)]
  have kept: "changes i (tw_rt w) (tw_rt w') r r'" if "keeps (tw_rt w) (tw_rt w')" using that assms(4,5) by (simp add: keeps_def)
  show ?thesis using assms(1)
  proof cases
    case (foreground k err scope parent parentScope label descr kind now rt)
    have "tr_records rt = mput k (new_record k parent parentScope label descr kind False ''running'' now) (tr_records (tw_rt w))"
      using admit_view [OF foreground(3) [unfolded registerForegroundTask_def]] by (auto simp: new_record_def)
    then show ?thesis using foreground(1,2) assms(4,5) by (auto simp: update_conv' fresh_task_def split: if_splits)
  next
    case (spawned kind uuid err descr label reusable parentScope parent worktree now rt)
    note v = admit_view [OF spawned(3) [unfolded SpawnWorker_def Let_def], simplified]
    show ?thesis using spawned(1,2) assms(4,5) by (auto simp: v update_conv' fresh_task_def new_record_def split: if_splits)
  next
    case (foreground_completed k reason now)
    have "edit_at k (\<lambda>_. True) (\<lambda>r. r\<lparr>tk_Status := ''completed'', tk_TerminationReason := reason, tk_UpdatedAt := now\<rparr>) (tw_rt w) (tw_rt w')"
      using edits(6) [OF assms(2), where i = k and status = "''completed''" and reason = reason and now = now] foreground_completed(1) by (simp add: CompleteForegroundTask_def)
    then show ?thesis by (rule e) (use foreground_completed(2) assms(6) in simp)
  next
    case (foreground_failed k reason now)
    have "edit_at k (\<lambda>_. True) (\<lambda>r. r\<lparr>tk_Status := ''failed'', tk_TerminationReason := reason, tk_UpdatedAt := now\<rparr>) (tw_rt w) (tw_rt w')"
      using edits(6) [OF assms(2), where i = k and status = "''failed''" and reason = reason and now = now] foreground_failed(1) by (simp add: FailForegroundTask_def)
    then show ?thesis by (rule e) (use foreground_failed(2) assms(6) in simp)
  next
    case (foreground_discarded k)
    have "touches k (tw_rt w) (tw_rt w')" "map_of (tr_records (tw_rt w')) k = None" using removal_views(3,5) [of k "tw_rt w"] foreground_discarded(1) by simp_all
    then show ?thesis using touched_same [of k "tw_rt w" "tw_rt w'" True i r r'] assms(4,5) by simp
  next
    case (messaged k scope now rt q)
    have "edit_at k (\<lambda>r. map_of (tr_workerSpecs (tw_rt w)) k \<noteq> None \<and> tk_ParentScopeID r = scope \<and> tk_Reusable r \<and> tk_Status r = ''idle'')
           (\<lambda>r. r\<lparr>tk_Status := ''queued'', tk_UpdatedAt := now\<rparr>) (tw_rt w) (tw_rt w')" using edits(8) [OF assms(2), of k scope now] messaged(1,2) by simp
    then show ?thesis by (rule e) (simp add: status_facts)
  next
    case (stopped uuid k scope now)
    have "edit_at k (\<lambda>r. (scope = [] \<or> tk_ParentScopeID r = scope) \<and> \<not> terminal_task r) (killed now) (tw_rt w) (tw_rt w')"
      using edits(1) [OF assms(2), of k scope now uuid] stopped(1) by simp
    then show ?thesis
    proof (rule e)
      assume k: "i = k" and live: "(scope = [] \<or> tk_ParentScopeID r = scope) \<and> \<not> terminal_task r"
      have "wakes i (tw_rt w) (tw_rt w')" using stop_wakes [OF assms(2,4), of scope uuid now] live stopped(1) k by simp
      moreover have "along r (killed now r)"
        using l assms(6) live by (auto simp: along_def lifecycle_def killed_def life_def terminal_task_def terminalTaskStatuses_def split: if_splits)
      ultimately show "changes i (tw_rt w) (tw_rt w') r (killed now r)" by (simp add: changes_def)
    qed
  next
    case (started k now rt spec)
    have "edit_at k (\<lambda>r. map_of (tr_workerSpecs (tw_rt w)) k \<noteq> None \<and> tk_Status r = ''queued'') (\<lambda>r. r\<lparr>tk_Status := ''running'', tk_UpdatedAt := now\<rparr>) (tw_rt w) (tw_rt w')"
      using edits(2) [OF assms(2), of k now] started(1,3) by simp
    then show ?thesis by (rule e) (simp add: status_facts)
  next
    case (not_started k now rt)
    have "edit_at k (\<lambda>r. map_of (tr_workerSpecs (tw_rt w)) k \<noteq> None \<and> tk_Status r = ''queued'') (\<lambda>r. r\<lparr>tk_Status := ''running'', tk_UpdatedAt := now\<rparr>) (tw_rt w) (tw_rt w')"
      using edits(2) [OF assms(2), of k now] not_started(1,3) by simp
    then show ?thesis by (rule e) (simp add: status_facts)
  next
    case (ended k spec result rt q)
    have "tw_rt w' = fst (run_end k spec result (tw_rt w))" using ended(1,3) by simp
    then show ?thesis using e [where k = k] edits(3) [OF assms(2), of k result spec] by (auto simp: status_facts)
  next
    case (ended_dead k spec result rt)
    have "tw_rt w' = fst (run_end k spec result (tw_rt w))" using ended_dead(1,3) by simp
    then show ?thesis using e [where k = k] edits(3) [OF assms(2), of k result spec] by (auto simp: status_facts)
  next
    case (reported k reusable result uuid now)
    have "edit_at k (\<lambda>r. tk_Status r \<noteq> ''killed'' \<and> tk_Status r \<noteq> ''interrupted'') (reported_record reusable result now) (tw_rt w) (tw_rt w')"
      using edit_report [OF assms(2), of k reusable result now uuid] reported(1) by simp
    then show ?thesis
    proof (rule e)
      assume "i = k" and live: "tk_Status r \<noteq> ''killed'' \<and> tk_Status r \<noteq> ''interrupted''"
      then have "tk_Status r = ''running''" using l assms(6) reported(2) by (auto simp: life_def split: if_splits)
      then have "along r (reported_record reusable result now r)"
        by (auto simp: along_def lifecycle_def reported_fields reported_record_def finish_record_def split: option.splits prod.splits)
      moreover have "wakes i (tw_rt w) (tw_rt w')" using report_wakes [OF assms(2,4), of uuid reusable result now] live reported(1) \<open>i = k\<close> by simp
      ultimately show "changes i (tw_rt w) (tw_rt w') r (reported_record reusable result now r)" by (simp add: changes_def)
    qed
  next
    case (idled t k uuid now)
    have "edit_at k (\<lambda>r. tk_Status r = ''idle'') (\<lambda>r. r\<lparr>tk_Status := ''completed'', tk_TerminationReason := ''idle_ttl_expired'', tk_UpdatedAt := now\<rparr>) (tw_rt w) (tw_rt w')"
      using edits(7) [OF assms(2), where i = k and now = now and tm = t and uuid = uuid] idled(1) by simp
    then show ?thesis by (rule e) (use l assms(6) in \<open>auto simp: status_facts life_def split: if_splits\<close>)
  next
    case (cleaned t k)
    have "r' = r" by (rule touched_same [OF removal_views(1,6), of "tw_rt w\<lparr>tr_fired := mdel t (tr_fired (tw_rt w))\<rparr>" i r k r'])
      (use assms(4,5) cleaned(1) in \<open>simp_all add: cleanup_expired_def\<close>)
    then show ?thesis by simp
  next
    case (removed k)
    have "touches k (tw_rt w) (tw_rt w')" "map_of (tr_records (tw_rt w')) k = None" using removal_views(2,4) [of k "tw_rt w"] removed(1) by simp_all
    then show ?thesis using touched_same [of k "tw_rt w" "tw_rt w'" True i r r'] assms(4,5) by simp
  qed (rule kept; simp add: Agent_Workers.kept)+
qed


section \<open>Running a schedule\<close>

text \<open>Some of the steps as a function, to run the model on a given schedule from the empty runtime.\<close>

datatype task_event =
    Spawn string string bool string
  | Start string
  | End string worker_result
  | Report string
  | Pass nat
  | Clean nat string
  | Wait string

fun apply_event :: "task_event \<Rightarrow> task_world \<Rightarrow> task_world option" where
  "apply_event (Spawn kind uuid reusable scope) w =
     (let i = worker_task_id kind uuid; (rt, err) = SpawnWorker None uuid [] kind [] reusable scope [] [] 1 (tw_rt w)
      in if fresh_task i w \<and> err = None then Some (w\<lparr>tw_rt := rt, tw_threads := mput i Starting (tw_threads w)\<rparr>) else None)"
| "apply_event (Start i) w =
     (case (map_of (tw_threads w) i, map_of (tr_workerSpecs (tw_rt w)) i) of
        (Some Starting, Some spec) \<Rightarrow>
          (case run_begin i 2 (tw_rt w) of (rt, ok) \<Rightarrow> if ok then Some (w\<lparr>tw_rt := rt, tw_threads := mput i (Working spec) (tw_threads w)\<rparr>) else None)
      | _ \<Rightarrow> None)"
| "apply_event (End i result) w =
     (case (map_of (tw_threads w) i, map_of (tr_records (tw_rt w)) i) of
        (Some (Working spec), Some r) \<Rightarrow>
          (case run_end i spec result (tw_rt w) of (rt, ok) \<Rightarrow>
             if ok then Some (w\<lparr>tw_rt := rt, tw_threads := mput i (Reporting (tk_Reusable r) result) (tw_threads w)\<rparr>) else None)
      | _ \<Rightarrow> None)"
| "apply_event (Report i) w =
     (case map_of (tw_threads w) i of
        Some (Reporting reusable result) \<Rightarrow> Some (w\<lparr>tw_rt := run_report [] i reusable result 3 (tw_rt w), tw_threads := mdel i (tw_threads w)\<rparr>)
      | _ \<Rightarrow> None)"
| "apply_event (Pass t) w = Some (upd_rt (timer_passes t) w)"
| "apply_event (Clean t i) w = (if map_of (tr_fired (tw_rt w)) t = Some (i, CleanupTimer) then Some (upd_rt (cleanup_expired t i) w) else None)"
| "apply_event (Wait i) w = Some (upd_rt (\<lambda>rt. fst (wait_register [i] rt)) w)"

fun run_events :: "task_event list \<Rightarrow> task_world \<Rightarrow> task_world option" where
  "run_events [] w = Some w"
| "run_events (e # es) w = (case apply_event e w of None \<Rightarrow> None | Some w' \<Rightarrow> run_events es w')"

lemma apply_event_step: "apply_event e w = Some w' \<Longrightarrow> task_step w w'"
  by (cases e)
    (auto simp: Let_def split: option.splits stage.splits prod.splits if_splits
      intro: task_step.spawned task_step.started task_step.ended task_step.reported task_step.timer task_step.cleaned task_step.waited)

lemma run_events_reachable: "run_events es w = Some w' \<Longrightarrow> task_reachable w \<Longrightarrow> task_reachable w'"
  by (induction es arbitrary: w) (auto split: option.splits dest: apply_event_step intro: task_reachable.step)

lemma run_from_start: "run_events es (start_world [] []) = Some w \<Longrightarrow> task_reachable w"
  by (rule run_events_reachable) (auto intro: task_reachable.start simp: good_snapshot_def)

definition result_ok :: worker_result where
  "result_ok = \<lparr>wr_FinalText = ''ok'', wr_Error = None, wr_inputDelta = 1, wr_outputDelta = 1, wr_toolUseDelta = 0, wr_durationMS = 5, wr_session = []\<rparr>"

definition worker_a :: string where "worker_a = worker_task_id ''a'' ''0''"
definition worker_b :: string where "worker_b = worker_task_id ''b'' ''0''"

definition running_schedule :: "task_event list" where
  "running_schedule = [Spawn ''a'' ''0'' True ''main'', Start worker_a, End worker_a result_ok]"

definition idle_schedule :: "task_event list" where
  "idle_schedule = [Spawn ''a'' ''0'' True ''main'', Start worker_a, End worker_a result_ok, Report worker_a]"

definition expired_schedule :: "task_event list" where
  "expired_schedule = [Spawn ''a'' ''0'' False ''main'', Start worker_a, End worker_a result_ok, Report worker_a, Pass 1, Clean 1 worker_a]"

definition leak_schedule :: "task_event list" where
  "leak_schedule = [Spawn ''a'' ''0'' False ''main'', Start worker_a, Spawn ''b'' ''0'' False worker_a, Start worker_b, End worker_a result_ok, Report worker_a,
     Pass 2, Clean 2 worker_a, End worker_b result_ok, Report worker_b, Pass 3, Clean 3 worker_b]"

definition final :: "task_event list \<Rightarrow> task_world" where
  "final es = (case run_events es (start_world [] []) of None \<Rightarrow> start_world [] [] | Some w \<Rightarrow> w)"

lemma final_reachable: "task_reachable (final es)"
  by (auto simp: final_def good_snapshot_def split: option.splits intro: run_from_start task_reachable.start)

lemma run_events_append: "run_events (es @ fs) w = (case run_events es w of None \<Rightarrow> None | Some v \<Rightarrow> run_events fs v)"
  by (induction es arbitrary: w) (auto split: option.splits)

lemma final_steps: "run_events (es @ [e]) (start_world [] []) \<noteq> None \<Longrightarrow> task_step (final es) (final (es @ [e]))"
  by (auto simp: final_def run_events_append split: option.splits intro: apply_event_step)

section \<open>What holds of every interleaving\<close>

text \<open>C12: In every state the runtime can reach, with any interleaving of workers, timers, waiting calls and the calls of agents, from any well-formed
  snapshot, the counter of a scope is the number of tasks registered under it and a task's remembered parent scope is that of its record.\<close>

theorem workers_are_accounted:
  assumes "task_reachable w"
  shows "mget 0 (tr_childCounts (tw_rt w)) s = int (length (filter (\<lambda>(_, r). tk_ParentScopeID r = s) (tr_records (tw_rt w)))) \<and>
    map_of (tr_taskParentScopes (tw_rt w)) i = map_option tk_ParentScopeID (map_of (tr_records (tw_rt w)) i)"
  using reachable_accounted [OF assms] by (simp add: accounted_def children_def)

theorem workers_are_accounted_witness:
  "mget 0 (tr_childCounts (tw_rt (final idle_schedule))) ''main'' = 1 \<and>
   map_of (tr_taskParentScopes (tw_rt (final idle_schedule))) worker_a = Some ''main''"
proof -
  have "filter (\<lambda>(_, r). tk_ParentScopeID r = ''main'') (tr_records (tw_rt (final idle_schedule))) = tr_records (tw_rt (final idle_schedule)) \<and>
    length (tr_records (tw_rt (final idle_schedule))) = 1" "map_option tk_ParentScopeID (map_of (tr_records (tw_rt (final idle_schedule))) worker_a) = Some ''main''"
    by code_simp+
  then show ?thesis using workers_are_accounted [OF final_reachable [of idle_schedule], of "''main''" worker_a] by simp
qed

text \<open>C7: A status changes only along the life cycle: a worker is queued, runs, and ends as idle, completed, failed, interrupted or killed; an idle one is
  queued again by a message, expires or is killed; what ended otherwise never changes. Scope and reusability never change. The exception is a task of
  the foreground, whose caller sets the status.\<close>

theorem tasks_follow_the_lifecycle:
  assumes "task_reachable w" "task_step w w'" "map_of (tr_records (tw_rt w)) i = Some r" "map_of (tr_records (tw_rt w')) i = Some r'" "i \<notin> set (tw_foreground w)"
  shows "tk_ParentScopeID r' = tk_ParentScopeID r \<and> tk_Reusable r' = tk_Reusable r \<and> (tk_Status r' = tk_Status r \<or> (tk_Status r, tk_Status r') \<in> set lifecycle)"
  using step_changes [OF assms(2) reachable_accounted [OF assms(1)] reachable_living [OF assms(1)] assms(3-5)] by (simp add: changes_def along_def)

theorem tasks_follow_the_lifecycle_witness:
  "\<exists>r r'. map_of (tr_records (tw_rt (final running_schedule))) worker_a = Some r \<and> tk_Status r = ''running'' \<and>
     map_of (tr_records (tw_rt (final (running_schedule @ [Report worker_a])))) worker_a = Some r' \<and> tk_Status r' = ''idle'' \<and>
     (tk_Status r' = tk_Status r \<or> (tk_Status r, tk_Status r') \<in> set lifecycle)"
proof -
  have s: "task_step (final running_schedule) (final (running_schedule @ [Report worker_a]))" by (rule final_steps) code_simp
  have "map_option tk_Status (map_of (tr_records (tw_rt (final running_schedule))) worker_a) = Some ''running''"
    "map_option tk_Status (map_of (tr_records (tw_rt (final (running_schedule @ [Report worker_a])))) worker_a) = Some ''idle''"
    "worker_a \<notin> set (tw_foreground (final running_schedule))" by code_simp+
  then show ?thesis using tasks_follow_the_lifecycle [OF final_reachable s, of worker_a] by auto
qed

text \<open>A worker that is idle takes a message of its scope, in every reachable state: the record is reusable, its specification is still there and no
  goroutine of it is running; afterwards it is queued.\<close>

theorem idle_workers_take_messages:
  assumes "task_reachable w" "map_of (tr_records (tw_rt w)) i = Some r" "tk_Status r = ''idle''"
  shows "snd (SendMessage i (tk_ParentScopeID r) now (tw_rt w)) = Inr (r\<lparr>tk_Status := ''queued'', tk_UpdatedAt := now\<rparr>) \<and> map_of (tw_threads w) i = None"
  using life_of [OF reachable_living [OF assms(1)], of i] assms(2,3)
  by (auto simp: life_def SendMessage_def Let_def split: if_splits option.splits)

theorem idle_workers_take_messages_witness:
  "\<exists>r. map_of (tr_records (tw_rt (final idle_schedule))) worker_a = Some r \<and> tk_Status r = ''idle'' \<and>
     snd (SendMessage worker_a (tk_ParentScopeID r) 9 (tw_rt (final idle_schedule))) = Inr (r\<lparr>tk_Status := ''queued'', tk_UpdatedAt := 9\<rparr>)"
proof -
  have "map_option tk_Status (map_of (tr_records (tw_rt (final idle_schedule))) worker_a) = Some ''idle''" by code_simp
  then show ?thesis using idle_workers_take_messages [OF final_reachable [of idle_schedule], of worker_a _ 9] by auto
qed


section \<open>What the bookkeeping does not do\<close>

text \<open>\<open>TaskWait\<close> has an answer for tasks whose record expired and one for tasks of another scope that are gone, but neither can be given: whenever a
  record is removed, the remembered scope of the task is forgotten in the same critical section, so in every reachable state the lists are empty and the
  call reports the task as unknown.\<close>

theorem expired_tasks_are_never_reported:
  assumes "task_reachable w"
  shows "findExpiredTaskIDs ids scope (tw_rt w) = [] \<and> findInaccessibleTaskIDs ids scope (tw_rt w) = [] \<and>
    wait_answer_of (findInaccessibleTaskIDs ids scope (tw_rt w)) (findExpiredTaskIDs ids scope (tw_rt w)) snap soft hard \<noteq> Some (Expired xs)"
proof -
  have a: "map_of (tr_taskParentScopes (tw_rt w)) i = map_option tk_ParentScopeID (map_of (tr_records (tw_rt w)) i)" "tr_expiredTaskParentScopes (tw_rt w) = []" for i
    using reachable_accounted [OF assms] by (simp_all add: accounted_def)
  have "findExpiredTaskIDs ids scope (tw_rt w) = []" by (simp add: findExpiredTaskIDs_def a)
  moreover have "findInaccessibleTaskIDs ids scope (tw_rt w) = []" by (auto simp: findInaccessibleTaskIDs_def a filter_empty_conv)
  ultimately show ?thesis by (simp add: wait_answer_of_def)
qed

theorem expired_tasks_are_never_reported_witness:
  "findExpiredTaskIDs [worker_a] ''main'' (tw_rt (final expired_schedule)) = [] \<and> tr_records (tw_rt (final expired_schedule)) = []"
proof -
  have "tr_records (tw_rt (final expired_schedule)) = []" by code_simp
  then show ?thesis using expired_tasks_are_never_reported [OF final_reachable, of "[worker_a]" "''main''" expired_schedule] by simp
qed

text \<open>C33: A call that waits for a background worker is woken when the worker settles: in whatever state and by whichever step the record of the worker goes
  from a status the call waits on to a stable one, every channel registered for it before that step holds a signal after it.\<close>

theorem registered_waiters_are_woken:
  assumes "task_reachable w" "task_step w w'" "i \<notin> set (tw_foreground w)"
    and "map_of (tr_records (tw_rt w)) i = Some r" "\<not> isStableTask (Some r)" "map_of (tr_records (tw_rt w')) i = Some r'" "isStableTask (Some r')"
    and "c \<in> set (mget [] (tr_waiters (tw_rt w)) i)"
  shows "c \<in> set (tr_signalled (tw_rt w'))"
  using step_changes [OF assms(2) reachable_accounted [OF assms(1)] reachable_living [OF assms(1)] assms(4,6,3)] assms(5,7,8)
  by (auto simp: changes_def settled_def wakes_def)

theorem registered_waiters_are_woken_witness:
  "1 \<in> set (tr_signalled (tw_rt (final ((running_schedule @ [Wait worker_a]) @ [Report worker_a]))))"
proof -
  let ?before = "running_schedule @ [Wait worker_a]" and ?after = "(running_schedule @ [Wait worker_a]) @ [Report worker_a]"
  have s: "task_step (final ?before) (final ?after)" by (rule final_steps) code_simp
  have f: "worker_a \<notin> set (tw_foreground (final ?before))" "1 \<in> set (mget [] (tr_waiters (tw_rt (final ?before))) worker_a)" by code_simp+
  have "(case map_of (tr_records (tw_rt (final ?before))) worker_a of None \<Rightarrow> False | Some r \<Rightarrow> \<not> isStableTask (Some r))"
    "(case map_of (tr_records (tw_rt (final ?after))) worker_a of None \<Rightarrow> False | Some r \<Rightarrow> isStableTask (Some r))" by code_simp+
  then obtain r r' where "map_of (tr_records (tw_rt (final ?before))) worker_a = Some r" "\<not> isStableTask (Some r)"
    "map_of (tr_records (tw_rt (final ?after))) worker_a = Some r'" "isStableTask (Some r')" by (auto split: option.splits)
  from registered_waiters_are_woken [OF final_reachable s f(1) this f(2)] show ?thesis .
qed

text \<open>Registration comes too late for a task that ends between the snapshot of the call, in which it is pending, and the registration: its channel
  stays without a signal, the task is stable and no goroutine of a worker is left to send one.\<close>

lemma wakeup_can_be_lost:
  "\<exists>before after waiting c. task_reachable before \<and> task_step before after \<and> waiting = upd_rt (\<lambda>rt. fst (wait_register [worker_a] rt)) after \<and>
     sn_pending (task_snapshot_of [worker_a] ''main'' (tw_rt before)) = [worker_a] \<and>
     sn_pending (task_snapshot_of [worker_a] ''main'' (tw_rt waiting)) = [] \<and>
     c \<in> set (mget [] (tr_waiters (tw_rt waiting)) worker_a) \<and> c \<notin> set (tr_signalled (tw_rt waiting)) \<and> tw_threads waiting = []"
proof -
  let ?before = running_schedule and ?after = "running_schedule @ [Report worker_a]"
  let ?waiting = "upd_rt (\<lambda>rt. fst (wait_register [worker_a] rt)) (final ?after)"
  have "task_step (final ?before) (final ?after)" by (rule final_steps, code_simp)
  moreover have "sn_pending (task_snapshot_of [worker_a] ''main'' (tw_rt (final ?before))) = [worker_a]"
    "sn_pending (task_snapshot_of [worker_a] ''main'' (tw_rt ?waiting)) = []"
    "2 \<in> set (mget [] (tr_waiters (tw_rt ?waiting)) worker_a) \<and> 2 \<notin> set (tr_signalled (tw_rt ?waiting)) \<and> tw_threads ?waiting = []"
    by code_simp+
  ultimately show ?thesis using final_reachable by blast
qed

text \<open>A reusable worker that idled too long ends as completed, which is not among the stable statuses of reusable workers: a call that waits for it waits
  until its record is removed or its own time is over.\<close>

lemma expired_worker_stays_pending:
  assumes "map_of (tr_records rt) i = Some r" "tk_Reusable r" "tk_Status r = ''completed''" "tk_ParentScopeID r = scope"
  shows "sn_pending (task_snapshot_of [i] scope rt) = [i]"
  using assms by (simp add: task_snapshot_of_def getTaskLocked_def isStableTask_def reusableStableStatuses_def)

text \<open>The record of an ended task can stay for ever: when its timer fires while it still has children, the record is kept, and when the last child is
  gone nothing schedules its removal again, because the cancel function of the timer that fired is still registered.\<close>

theorem ended_parents_can_stay:
  "\<exists>w r. task_reachable w \<and> map_of (tr_records (tw_rt w)) worker_a = Some r \<and> terminal_task r \<and> mget 0 (tr_childCounts (tw_rt w)) worker_a = 0 \<and>
     tr_timers (tw_rt w) = [] \<and> tr_fired (tw_rt w) = [] \<and> tw_threads w = [] \<and> scheduleTerminalRecordCleanupLocked worker_a (tw_rt w) = tw_rt w"
proof -
  let ?rt = "tw_rt (final leak_schedule)"
  have a: "mget 0 (tr_childCounts ?rt) worker_a = 0 \<and> tr_timers ?rt = [] \<and> tr_fired ?rt = [] \<and> tw_threads (final leak_schedule) = []"
    and r: "map_option terminal_task (map_of (tr_records ?rt) worker_a) = Some True" and c: "map_of (tr_recordCleanupCancels ?rt) worker_a = Some 2"
    by code_simp+
  obtain r where "map_of (tr_records ?rt) worker_a = Some r" "terminal_task r" using r by auto
  moreover from this have "scheduleTerminalRecordCleanupLocked worker_a ?rt = ?rt" by (simp add: scheduleTerminalRecordCleanupLocked_def c)
  ultimately show ?thesis using a final_reachable by blast
qed

end
