(* ===== verification/Api_Convert.thy ===== *)
theory Api_Convert
  imports Agent_Stream
begin

text \<open>
  The pure part of \<open>api/client.go\<close>: which protocol a model speaks, the conversion of tools and of a conversation from the form of
  Anthropic into the form of OpenAI, and the JSON text of a call's arguments. The standard library's encoder and \<open>fmt.Sprint\<close> are
  arguments: \<open>marshal\<close> is the encoding of a value without the final line feed, \<open>None\<close> when it fails; \<open>sprint\<close> is the printed form.

  Shown: a conversation in which every call is answered by the next message, as every request of the agent loop is, becomes one in
  which the tool messages of a call follow it directly and no tool message stands elsewhere.
\<close>

section \<open>Models and tools\<close>

definition getString :: "gomap \<Rightarrow> string \<Rightarrow> string" where
  "getString m key = stringFromAny (fld m key)"

definition getStringDefault :: "gomap \<Rightarrow> string \<Rightarrow> string \<Rightarrow> string" where
  "getStringDefault m key fallback = (let v = getString m key in if v = [] then fallback else v)"

definition getInt :: "(string \<Rightarrow> int) \<Rightarrow> gomap \<Rightarrow> string \<Rightarrow> int" where
  "getInt tr m key = intFromAny tr (fld m key)"

definition getBool :: "gomap \<Rightarrow> string \<Rightarrow> bool" where
  "getBool m key \<longleftrightarrow> fld m key = JBool True"

definition isDeepSeekModel :: "string \<Rightarrow> bool" where
  "isDeepSeekModel model = HasPrefix (lower_view (TrimSpace model)) ''deepseek''"

definition isOpenAIModel :: "string \<Rightarrow> bool" where
  "isOpenAIModel model = list_ex (HasPrefix (lower_view (TrimSpace model))) [''gpt-'', ''o1'', ''o3'', ''o4'']"

definition isOpenAICompatibleModel :: "string \<Rightarrow> bool" where
  "isOpenAICompatibleModel model \<longleftrightarrow> isDeepSeekModel model \<or> isOpenAIModel model"

definition supportsThinkingControl :: "string \<Rightarrow> bool" where
  "supportsThinkingControl model \<longleftrightarrow>
     HasPrefix (lower_view (TrimSpace model)) ''deepseek'' \<or> HasPrefix (lower_view (TrimSpace model)) ''mimo''"

definition normalizeAPIType :: "string \<Rightarrow> string" where
  "normalizeAPIType apiType =
     (let t = lower_view (TrimSpace apiType)
      in if t \<in> {[], ''auto''} then ''auto''
         else if t \<in> {''openai'', ''openai-compatible'', ''openai_compatible'', ''deepseek''} then ''openai_compatible''
         else if t \<in> {''anthropic'', ''claude''} then ''anthropic'' else ''auto'')"

definition useOpenAICompatible :: "string \<Rightarrow> string \<Rightarrow> bool" where
  "useOpenAICompatible model apiType =
     (let t = normalizeAPIType apiType
      in if t = ''openai_compatible'' then True else if t = ''anthropic'' then False else isOpenAICompatibleModel model)"

definition openai_tool :: "gomap \<Rightarrow> gomap" where
  "openai_tool tool =
     (let parameters = (case map_of tool ''input_schema'' of Some p \<Rightarrow> p
                        | None \<Rightarrow> (case map_of tool ''parameters'' of Some p \<Rightarrow> p | None \<Rightarrow> JObj []))
      in [(''type'', JStr ''function''),
          (''function'', JObj [(''name'', JStr (getString tool ''name'')), (''description'', JStr (getString tool ''description'')),
             (''parameters'', parameters)])])"

definition AnthropicToolsToOpenAI :: "gomap list \<Rightarrow> gomap list" where
  "AnthropicToolsToOpenAI tools = map openai_tool tools"

section \<open>Arguments of calls\<close>

text \<open>The state of the scan: inside a string, after a backslash in it.\<close>

fun space_from :: "bool \<Rightarrow> bool \<Rightarrow> string \<Rightarrow> string" where
  "space_from inString escaped [] = []"
| "space_from inString escaped (b # bs) =
     (if escaped then b # space_from inString False bs
      else if inString then b # space_from (b \<noteq> CHR 0x22) (b = CHR 0x5C) bs
      else if b = CHR 0x22 then b # space_from True False bs
      else if b = CHR '':'' \<or> b = CHR '','' then b # CHR '' '' # space_from False False bs
      else b # space_from False False bs)"

definition spacePythonJSONSeparators :: "string \<Rightarrow> string" where
  "spacePythonJSONSeparators data = space_from False False data"

definition pythonJSONDumps :: "(json \<Rightarrow> string option) \<Rightarrow> json \<Rightarrow> string" where
  "pythonJSONDumps marshal v = (case marshal v of None \<Rightarrow> ''{}'' | Some data \<Rightarrow> spacePythonJSONSeparators data)"

section \<open>Blocks\<close>

definition isSystemHintText :: "string \<Rightarrow> bool" where
  "isSystemHintText t = sublist ''<system_hint>'' t"

definition toolMessageFromResult :: "string \<Rightarrow> string \<Rightarrow> bool \<Rightarrow> gomap" where
  "toolMessageFromResult toolUseID content isError =
     [(''role'', JStr ''tool''), (''tool_call_id'', JStr toolUseID),
      (''content'', JStr (if isError then ''[ERROR] '' @ content else content))]"

definition fallbackToolMessage :: "string \<Rightarrow> gomap" where
  "fallbackToolMessage toolCallID =
     [(''role'', JStr ''tool''), (''tool_call_id'', JStr toolCallID),
      (''content'', JStr ''Tool execution was interrupted or lost before the provider request was retried.'')]"

definition normalizeContentBlocks :: "json \<Rightarrow> gomap list option" where
  "normalizeContentBlocks content =
     (case content of JArr xs \<Rightarrow> if list_all (\<lambda>x. object_of x \<noteq> None) xs then Some (List.map_filter object_of xs) else None | _ \<Rightarrow> None)"

definition text_items :: "json list \<Rightarrow> string list" where
  "text_items xs = map (\<lambda>m. getString m ''text'') (filter (\<lambda>m. getString m ''type'' = ''text'') (List.map_filter object_of xs))"

definition extractToolResultText :: "(json \<Rightarrow> string) \<Rightarrow> gomap \<Rightarrow> string" where
  "extractToolResultText sprint block =
     (case fld block ''content'' of
        JStr s \<Rightarrow> s
      | JArr xs \<Rightarrow> join_with [CHR 0x0A] (text_items xs)
      | JNull \<Rightarrow> []
      | v \<Rightarrow> sprint v)"

record splitBlocksResult =
  sp_TextParts :: "string list"
  sp_ToolCalls :: "gomap list"
  sp_ToolResults :: nat

definition openai_call :: "(json \<Rightarrow> string option) \<Rightarrow> gomap \<Rightarrow> gomap" where
  "openai_call marshal block =
     [(''id'', JStr (getString block ''id'')), (''type'', JStr ''function''),
      (''function'', JObj [(''name'', JStr (getString block ''name'')), (''arguments'', JStr (pythonJSONDumps marshal (fld block ''input'')))])]"

text \<open>Of the results only the number is read by the caller.\<close>

definition splitAnthropicBlocks :: "(json \<Rightarrow> string option) \<Rightarrow> gomap list \<Rightarrow> splitBlocksResult" where
  "splitAnthropicBlocks marshal content =
     \<lparr>sp_TextParts = map (\<lambda>b. getString b ''text'') (filter (\<lambda>b. getString b ''type'' = ''text'') content),
      sp_ToolCalls = map (openai_call marshal) (filter (\<lambda>b. getString b ''type'' = ''tool_use'') content),
      sp_ToolResults = length (filter (\<lambda>b. getString b ''type'' = ''tool_result'') content)\<rparr>"

section \<open>Conversations\<close>

record consumeResult =
  cr_ToolMessages :: "gomap list"
  cr_texts :: "string list"
  cr_MatchedIDs :: "string list"

text \<open>A message that only carries results of the expected calls and hints of the system.\<close>

fun consume_blocks :: "(json \<Rightarrow> string) \<Rightarrow> string list \<Rightarrow> gomap list \<Rightarrow> consumeResult option" where
  "consume_blocks sprint expected [] = Some \<lparr>cr_ToolMessages = [], cr_texts = [], cr_MatchedIDs = []\<rparr>"
| "consume_blocks sprint expected (b # bs) =
     (if getString b ''type'' = ''tool_result'' then
        (if getString b ''tool_use_id'' \<notin> set expected then None
         else map_option (\<lambda>r. r\<lparr>cr_ToolMessages := toolMessageFromResult (getString b ''tool_use_id'') (extractToolResultText sprint b) (getBool b ''is_error'')
                                   # cr_ToolMessages r, cr_MatchedIDs := getString b ''tool_use_id'' # cr_MatchedIDs r\<rparr>)
                (consume_blocks sprint expected bs))
      else if getString b ''type'' = ''text'' \<and> isSystemHintText (getString b ''text'')
      then map_option (\<lambda>r. r\<lparr>cr_texts := getString b ''text'' # cr_texts r\<rparr>) (consume_blocks sprint expected bs)
      else None)"

definition trailingText :: "consumeResult \<Rightarrow> string" where
  "trailingText r = join_with [CHR 0x0A] (filter (\<lambda>t. t \<noteq> []) (cr_texts r))"

definition consumeToolResultCarrier :: "(json \<Rightarrow> string) \<Rightarrow> gomap \<Rightarrow> string list \<Rightarrow> consumeResult option" where
  "consumeToolResultCarrier sprint message expected =
     (if getString message ''role'' \<noteq> ''user'' then None
      else case normalizeContentBlocks (fld message ''content'') of
        None \<Rightarrow> None
      | Some content \<Rightarrow>
          (case consume_blocks sprint expected content of
             None \<Rightarrow> None
           | Some r \<Rightarrow> if cr_ToolMessages r = [] then None else Some r))"

definition plain_message :: "string \<Rightarrow> string \<Rightarrow> gomap" where
  "plain_message role content = [(''role'', JStr role), (''content'', JStr content)]"

text \<open>The carriers after a call: the messages for them, the calls that are still open, and the conversation behind.\<close>

fun consume_carriers :: "(json \<Rightarrow> string) \<Rightarrow> string list \<Rightarrow> gomap list \<Rightarrow> gomap list \<times> string list \<times> gomap list" where
  "consume_carriers sprint expected [] = ([], expected, [])"
| "consume_carriers sprint expected (m # ms) =
     (case consumeToolResultCarrier sprint m expected of
        None \<Rightarrow> ([], expected, m # ms)
      | Some r \<Rightarrow>
          (case consume_carriers sprint (filter (\<lambda>i. i \<notin> set (cr_MatchedIDs r)) expected) ms of
             (out, open', rest) \<Rightarrow>
               (cr_ToolMessages r @ (if trailingText r \<noteq> [] then [plain_message ''user'' (trailingText r)] else []) @ out, open', rest)))"

lemma consume_carriers_shorter: "length (snd (snd (consume_carriers sprint expected ms))) \<le> length ms"
  by (induction sprint expected ms rule: consume_carriers.induct) (auto split: option.splits prod.splits)

definition call_message :: "splitBlocksResult \<Rightarrow> gomap" where
  "call_message parts =
     [(''role'', JStr ''assistant''), (''content'', JStr (join_with [CHR 0x0A] (sp_TextParts parts))), (''tool_calls'', JArr (map JObj (sp_ToolCalls parts)))]"

definition expected_ids :: "splitBlocksResult \<Rightarrow> string list" where
  "expected_ids parts = remdups (filter (\<lambda>i. i \<noteq> []) (map (\<lambda>c. getString c ''id'') (sp_ToolCalls parts)))"

text \<open>A message without calls.\<close>

definition convert_plain :: "string \<Rightarrow> splitBlocksResult \<Rightarrow> gomap list" where
  "convert_plain role parts =
     (let text = join_with [CHR 0x0A] (sp_TextParts parts)
      in if role = ''user'' \<and> sp_ToolResults parts > 0 then (if sp_TextParts parts \<noteq> [] then [plain_message ''user'' text] else [])
         else if sp_TextParts parts \<noteq> [] then [plain_message role text]
         else if role = ''assistant'' \<or> role = ''user'' then [plain_message role []] else [])"

function convertAnthropicMessagesToOpenAI :: "(json \<Rightarrow> string option) \<Rightarrow> (json \<Rightarrow> string) \<Rightarrow> gomap list \<Rightarrow> gomap list" where
  "convertAnthropicMessagesToOpenAI marshal sprint [] = []"
| "convertAnthropicMessagesToOpenAI marshal sprint (msg # ms) =
     (let role = getStringDefault msg ''role'' ''user''; content = fld msg ''content'' in
      case content of
        JStr s \<Rightarrow> plain_message role s # convertAnthropicMessagesToOpenAI marshal sprint ms
      | _ \<Rightarrow>
        (case normalizeContentBlocks content of
           None \<Rightarrow> plain_message role (sprint content) # convertAnthropicMessagesToOpenAI marshal sprint ms
         | Some blocks \<Rightarrow>
             (let parts = splitAnthropicBlocks marshal blocks in
              if role = ''assistant'' \<and> sp_ToolCalls parts \<noteq> []
              then (let c = consume_carriers sprint (expected_ids parts) ms
                    in call_message parts # fst c @ map fallbackToolMessage (sort (fst (snd c))) @
                       convertAnthropicMessagesToOpenAI marshal sprint (snd (snd c)))
              else convert_plain role parts @ convertAnthropicMessagesToOpenAI marshal sprint ms)))"
  by pat_completeness auto
termination
  by (relation "measure (\<lambda>(_, _, ms). length ms)") (auto simp: le_imp_less_Suc consume_carriers_shorter)

definition buildMessages :: "(json \<Rightarrow> string option) \<Rightarrow> (json \<Rightarrow> string) \<Rightarrow> string \<Rightarrow> gomap list \<Rightarrow> gomap list" where
  "buildMessages marshal sprint systemPrompt messages =
     (if systemPrompt \<noteq> [] then [plain_message ''system'' systemPrompt] else []) @ convertAnthropicMessagesToOpenAI marshal sprint messages"


section \<open>Separators\<close>

text \<open>Taking the blanks out again: a blank that follows a separator outside of strings.\<close>

fun unspace_from :: "bool \<Rightarrow> bool \<Rightarrow> string \<Rightarrow> string" where
  "unspace_from inString escaped [] = []"
| "unspace_from inString escaped (b # bs) =
     (if escaped then b # unspace_from inString False bs
      else if inString then b # unspace_from (b \<noteq> CHR 0x22) (b = CHR 0x5C) bs
      else if b = CHR 0x22 then b # unspace_from True False bs
      else if b = CHR '':'' \<or> b = CHR '','' then b # (case bs of [] \<Rightarrow> [] | c # cs \<Rightarrow> unspace_from False False (if c = CHR '' '' then cs else c # cs))
      else b # unspace_from False False bs)"

text \<open>The blanks added to the encoded arguments of a call can be taken out again without touching the inside of a string, so they lose nothing.\<close>

theorem separators_lose_nothing: "unspace_from False False (spacePythonJSONSeparators data) = data"
proof -
  have "unspace_from s e (space_from s e data) = data" for s e
    by (induction s e data rule: space_from.induct) auto
  then show ?thesis by (simp add: spacePythonJSONSeparators_def)
qed

section \<open>The form OpenAI accepts\<close>

definition call_ids :: "gomap \<Rightarrow> string list" where
  "call_ids m = (case fld m ''tool_calls'' of JArr xs \<Rightarrow> map (\<lambda>c. getString c ''id'') (List.map_filter object_of xs) | _ \<Rightarrow> [])"

definition named_ids :: "gomap \<Rightarrow> string list" where
  "named_ids m = filter (\<lambda>i. i \<noteq> []) (call_ids m)"

definition answer_id :: "gomap \<Rightarrow> string option" where
  "answer_id m = (if fld m ''role'' = JStr ''tool'' then (case fld m ''tool_call_id'' of JStr i \<Rightarrow> Some i | _ \<Rightarrow> None) else None)"

text \<open>After a message with calls come the answers to them, one per call and in their order; there are no other answers. The calls that count are
  given by \<open>ids\<close>: all of them for the protocol, those with an identifier for what the conversion does in every case.\<close>

function answered_for :: "(gomap \<Rightarrow> string list) \<Rightarrow> gomap list \<Rightarrow> bool" where
  "answered_for ids [] = True"
| "answered_for ids (m # ms) \<longleftrightarrow> answer_id m = None \<and> map answer_id (take (length (ids m)) ms) = map Some (ids m) \<and> answered_for ids (drop (length (ids m)) ms)"
  by pat_completeness auto
termination
  by (relation "measure (length \<circ> snd)") auto

definition openai_ok :: "gomap list \<Rightarrow> bool" where
  "openai_ok = answered_for call_ids"

definition named_calls_answered :: "gomap list \<Rightarrow> bool" where
  "named_calls_answered = answered_for named_ids"

lemma answered_for_group: "answer_id m = None \<Longrightarrow> map answer_id ts = map Some (ids m) \<Longrightarrow> answered_for ids (m # ts @ rest) = answered_for ids rest"
proof -
  assume a: "answer_id m = None" "map answer_id ts = map Some (ids m)"
  then have "length (ids m) = length ts" by (metis length_map)
  then show ?thesis using a by simp
qed

lemma plain_message_fields [simp]: "answer_id (plain_message role t) = None" "call_ids (plain_message role t) = []"
  by (simp_all add: answer_id_def call_ids_def plain_message_def mget_def)

lemma answered_for_plain: "(\<And>m. m \<in> set ps \<Longrightarrow> answer_id m = None \<and> ids m = []) \<Longrightarrow> answered_for ids (ps @ ms) = answered_for ids ms"
  by (induction ps) auto

lemma convert_plain_messages: "m \<in> set (convert_plain role parts) \<Longrightarrow> answer_id m = None \<and> call_ids m = []"
  by (auto simp: convert_plain_def Let_def split: if_splits)

lemma normalize_block_list [simp]: "normalizeContentBlocks (block_list bs) = Some bs"
  by (simp add: normalizeContentBlocks_def block_list_def list_all_iff)

lemma call_message_fields: "answer_id (call_message parts) = None" "call_ids (call_message parts) = map (\<lambda>c. getString c ''id'') (sp_ToolCalls parts)"
  by (simp_all add: answer_id_def call_ids_def call_message_def mget_def)

lemma is_block_type: "t \<noteq> [] \<Longrightarrow> is_block t b \<longleftrightarrow> getString b ''type'' = t"
  by (auto simp: is_block_def getString_def stringFromAny_def split: json.splits)

lemma call_id [simp]: "getString (openai_call marshal b) ''id'' = getString b ''id''"
  by (simp add: openai_call_def getString_def mget_def stringFromAny_def)

lemma split_calls: "filter (\<lambda>i. i \<noteq> []) (map (\<lambda>c. getString c ''id'') (sp_ToolCalls (splitAnthropicBlocks marshal bs))) = concat (map use_id bs)"
  by (induction bs) (auto simp: splitAnthropicBlocks_def use_id_def is_block_type Let_def simp flip: getString_def)

text \<open>A message that answers the calls is taken whole, and then nothing is expected any more.\<close>

lemma consume_answers:
  assumes "map result_id bs = map (\<lambda>i. [i]) ids" "set ids \<subseteq> set expected"
  shows "\<exists>r. consume_blocks sprint expected bs = Some r \<and> map answer_id (cr_ToolMessages r) = map Some ids \<and> cr_texts r = [] \<and> cr_MatchedIDs r = ids"
  using assms
proof (induction bs arbitrary: ids)
  case (Cons b bs)
  obtain i js where ids: "ids = i # js" "result_id b = [i]" "map result_id bs = map (\<lambda>i. [i]) js" using Cons.prems(1) by (cases ids) auto
  have b: "getString b ''type'' = ''tool_result''" "getString b ''tool_use_id'' = i"
    using ids(2) by (auto simp: result_id_def Let_def is_block_type getString_def split: if_splits)
  obtain r where "consume_blocks sprint expected bs = Some r" "map answer_id (cr_ToolMessages r) = map Some js" "cr_texts r = []" "cr_MatchedIDs r = js"
    using Cons.IH [OF ids(3)] Cons.prems(2) ids(1) by auto
  moreover have "answer_id (toolMessageFromResult i t e) = Some i" for t e by (simp add: answer_id_def toolMessageFromResult_def mget_def)
  ultimately show ?case using b ids(1) Cons.prems(2) by simp
qed simp

lemma consume_nothing: "consume_blocks sprint [] bs = Some r \<Longrightarrow> cr_ToolMessages r = []"
  by (induction bs arbitrary: r) (auto split: if_splits)

lemma no_more_carriers: "consume_carriers sprint [] ms = ([], [], ms)"
  by (cases ms) (auto simp: consumeToolResultCarrier_def dest: consume_nothing split: option.splits)

lemma consume_answer_message:
  assumes "answers m ids" "plain_content m" "ids \<noteq> []" "set ids = set expected"
  shows "\<exists>ts. consume_carriers sprint expected (m # ms) = (ts, [], ms) \<and> map answer_id ts = map Some ids"
proof -
  have b: "map result_id (blocks_of m) = map (\<lambda>i. [i]) ids" "getString m ''role'' = ''user''" using assms(1) by (auto simp: answers_def role_of_def getString_def)
  obtain r where r: "consume_blocks sprint expected (blocks_of m) = Some r" "map answer_id (cr_ToolMessages r) = map Some ids" "cr_texts r = []" "cr_MatchedIDs r = ids"
    using consume_answers [OF b(1), of expected] assms(4) by auto
  then have "consumeToolResultCarrier sprint m expected = Some r" using b(2) assms(2,3) by (auto simp: consumeToolResultCarrier_def plain_content_def)
  moreover have "filter (\<lambda>i. i \<notin> set (cr_MatchedIDs r)) expected = []" using r(4) assms(4) by (simp add: filter_empty_conv)
  moreover have "trailingText r = []" using r(3) by (simp add: trailingText_def)
  ultimately show ?thesis using r(2) by (simp add: no_more_carriers)
qed


lemma convert_blocks:
  "fld m ''content'' = block_list (blocks_of m) \<Longrightarrow> convertAnthropicMessagesToOpenAI marshal sprint (m # rest) =
     (let parts = splitAnthropicBlocks marshal (blocks_of m); role = getStringDefault m ''role'' ''user'' in
      if role = ''assistant'' \<and> sp_ToolCalls parts \<noteq> []
      then (let c = consume_carriers sprint (expected_ids parts) rest
            in call_message parts # fst c @ map fallbackToolMessage (sort (fst (snd c))) @ convertAnthropicMessagesToOpenAI marshal sprint (snd (snd c)))
      else convert_plain role parts @ convertAnthropicMessagesToOpenAI marshal sprint rest)"
  using normalize_block_list [of "blocks_of m"] by (simp add: block_list_def Let_def del: normalize_block_list)

text \<open>What a conversation has to be: no plain strings as contents, and every call answered by the next message.\<close>

lemma converted_answered:
  assumes f: "\<And>m. call_ids m = [] \<Longrightarrow> f m = []"
  shows "immediate ms \<Longrightarrow> list_all plain_content ms \<Longrightarrow>
    list_all (\<lambda>m. f (call_message (splitAnthropicBlocks marshal (blocks_of m))) = toolUseIDsInMessage m) ms \<Longrightarrow>
    answered_for f (convertAnthropicMessagesToOpenAI marshal sprint ms)"
proof (induction ms rule: length_induct)
  case (1 ms)
  show ?case
  proof (cases ms)
    case (Cons m rest)
    let ?convert = "convertAnthropicMessagesToOpenAI marshal sprint" and ?parts = "splitAnthropicBlocks marshal (blocks_of m)"
    have c: "fld m ''content'' = block_list (blocks_of m)" and i: "immediate rest" and p: "list_all plain_content rest"
      and q: "list_all (\<lambda>m. f (call_message (splitAnthropicBlocks marshal (blocks_of m))) = toolUseIDsInMessage m) rest"
      using 1(2-4) by (auto simp: Cons plain_content_def [of m])
    have IH: "answered_for f (?convert xs)" if "length xs \<le> length rest" "immediate xs" "list_all plain_content xs"
      "list_all (\<lambda>m. f (call_message (splitAnthropicBlocks marshal (blocks_of m))) = toolUseIDsInMessage m) xs" for xs using 1(1) that by (simp add: Cons)
    have e: "?convert ms = (if getStringDefault m ''role'' ''user'' = ''assistant'' \<and> sp_ToolCalls ?parts \<noteq> []
        then (let c = consume_carriers sprint (expected_ids ?parts) rest
              in call_message ?parts # fst c @ map fallbackToolMessage (sort (fst (snd c))) @ ?convert (snd (snd c)))
        else convert_plain (getStringDefault m ''role'' ''user'') ?parts @ ?convert rest)"
      unfolding Cons by (rule trans [OF convert_blocks [OF c]]) (simp only: Let_def)
    show ?thesis
    proof (cases "getStringDefault m ''role'' ''user'' = ''assistant'' \<and> sp_ToolCalls ?parts \<noteq> []")
      case True
      have ids: "f (call_message ?parts) = toolUseIDsInMessage m" using 1(4) by (simp add: Cons)
      have ex: "set (toolUseIDsInMessage m) = set (expected_ids ?parts)" unfolding expected_ids_def set_remdups split_calls toolUseIDsInMessage_def ..
      show ?thesis
      proof (cases "toolUseIDsInMessage m = []")
        case True': True
        then have "expected_ids ?parts = []" using ex by simp
        then have "?convert ms = call_message ?parts # [] @ ?convert rest" using True by (simp add: e no_more_carriers)
        then show ?thesis using answered_for_group [of "call_message ?parts" "[]" f] ids True' IH [of rest] i p q by (simp add: call_message_fields(1))
      next
        case False
        have "role_of m = ''assistant''" using True by (auto simp: getStringDefault_def getString_def role_of_def Let_def split: if_splits)
        then obtain r rest' where r: "rest = r # rest'" "answers r (toolUseIDsInMessage m)" using 1(2) False by (cases rest) (auto simp: Cons)
        obtain ts where ts: "consume_carriers sprint (expected_ids ?parts) (r # rest') = (ts, [], rest')" "map answer_id ts = map Some (toolUseIDsInMessage m)"
          using consume_answer_message [OF r(2) _ False ex] p by (auto simp: r(1))
        have "?convert ms = call_message ?parts # ts @ ?convert rest'" using True by (simp add: e r(1) ts(1) del: consume_carriers.simps)
        then show ?thesis using answered_for_group [of "call_message ?parts" ts f] ids ts(2) IH [of rest'] i p q by (simp add: call_message_fields(1) r(1))
      qed
    next
      case False
      then have "?convert ms = convert_plain (getStringDefault m ''role'' ''user'') ?parts @ ?convert rest" by (simp only: e if_False)
      then show ?thesis using answered_for_plain [of _ f] convert_plain_messages f IH [of rest] i p q by simp
    qed
  qed simp
qed

lemma converted_named: "immediate ms \<Longrightarrow> list_all plain_content ms \<Longrightarrow> named_calls_answered (convertAnthropicMessagesToOpenAI marshal sprint ms)"
  unfolding named_calls_answered_def
  by (rule converted_answered) (simp_all add: named_ids_def call_message_fields split_calls toolUseIDsInMessage_def list_all_iff)

lemma identified_call_ids:
  assumes "identified ms" "m \<in> set ms"
  shows "call_ids (call_message (splitAnthropicBlocks marshal (blocks_of m))) = toolUseIDsInMessage m"
proof -
  have "map (\<lambda>c. getString c ''id'') (sp_ToolCalls (splitAnthropicBlocks marshal bs)) = map Agent_Normalize.call_id (filter (is_block ''tool_use'') bs)" for bs
    by (induction bs) (auto simp: splitAnthropicBlocks_def is_block_type Agent_Normalize.call_id_def getString_def [symmetric])
  moreover have "toolUseIDsInMessage m = map Agent_Normalize.call_id (tool_calls m)"
    using assms by (intro identified_calls) (simp add: identified_def list_all_iff)
  ultimately show ?thesis by (simp add: call_message_fields tool_calls_def)
qed

lemma converted_ok:
  "immediate ms \<Longrightarrow> identified ms \<Longrightarrow> list_all plain_content ms \<Longrightarrow> openai_ok (convertAnthropicMessagesToOpenAI marshal sprint ms)"
  unfolding openai_ok_def by (rule converted_answered) (simp_all add: identified_call_ids list_all_iff)

end
