(* ===== verification/Api_Requests.thy ===== *)
theory Api_Requests
  imports Api_Convert Agent_Rounds
begin

text \<open>The agent loop of \<open>Agent_Loop\<close> and the conversion of \<open>Api_Convert\<close> together: what a provider that speaks OpenAI's protocol is sent.\<close>

lemma built_ok:
  "sendable ms \<Longrightarrow> named_calls_answered (buildMessages marshal sprint prompt ms)"
  "sendable ms \<Longrightarrow> identified ms \<Longrightarrow> openai_ok (buildMessages marshal sprint prompt ms)"
  using converted_named converted_ok
  by (auto simp: buildMessages_def sendable_def named_calls_answered_def openai_ok_def named_ids_def)

text \<open>A request with a call that has no identifier is sent without an answer to it, which the protocol refuses.\<close>

lemma call_without_id_is_refused:
  "named_calls_answered (buildMessages (\<lambda>_. None) (\<lambda>_. []) [] call_without_id) \<and>
   \<not> openai_ok (buildMessages (\<lambda>_. None) (\<lambda>_. []) [] call_without_id)"
  by code_simp

text \<open>C5: Every request of a run whose calls all carry an identifier is one that OpenAI's protocol accepts: after a message with tool calls come
  exactly the answers to its calls, in their order, and no answer stands anywhere else, whatever the hooks, the compression and the model did to
  the conversation before. When some calls carry no identifier, the same holds of those that do (the others stay unanswered).\<close>

theorem openai_requests_are_answered:
  assumes "queryLoop fuel E n w = Some w'"
  shows "\<exists>new. lw_requests w' = lw_requests w @ new \<and>
    list_all (\<lambda>ms. named_calls_answered (buildMessages marshal sprint prompt ms) \<and>
      (identified ms \<longrightarrow> openai_ok (buildMessages marshal sprint prompt ms))) new"
proof -
  obtain new where "lw_requests w' = lw_requests w @ new" "list_all sendable new"
    using requests_grow [OF assms] round_requests [of E n w] by fastforce
  then show ?thesis using built_ok by (auto simp: list_all_iff)
qed

theorem openai_requests_are_answered_witness:
  "\<exists>w'. queryLoop 1680 sample_loop_env 0 sample_world = Some w' \<and> lw_requests w' \<noteq> [] \<and> identified (hd (lw_requests w')) \<and>
     openai_ok (buildMessages (\<lambda>_. None) (\<lambda>_. []) ''Be brief.'' (hd (lw_requests w'))) \<and>
     list_all (\<lambda>ms. named_calls_answered (buildMessages (\<lambda>_. None) (\<lambda>_. []) ''Be brief.'' ms)) (lw_requests w')"
proof -
  have "budget sample_loop_env sample_world < 1680"
    using fresh_budget[OF sample_begins] by (simp add: sample_max_turns sample_world_def turns_def NewAgentState_def)
  then obtain w' where w': "queryLoop 1680 sample_loop_env 0 sample_world = Some w'"
    using queryLoop_ends[OF sample_env_steady] by blast
  moreover have "lw_requests sample_world = []" by (simp add: sample_world_def)
  moreover from this obtain rest where "lw_requests w' = [user_message [text_block ''read it'']] # rest"
    using requests_grow[OF w'] sample_first_request by auto
  moreover have "identified [user_message [text_block ''read it'']]" by code_simp
  ultimately show ?thesis
    using openai_requests_are_answered[OF w', of "\<lambda>_. None" "\<lambda>_. []" "''Be brief.''"] by (auto simp: list_all_iff)
qed

end
