(* ===== verification/Api_Streams.thy ===== *)
theory Api_Streams
  imports Api_Convert
begin

text \<open>
  The streaming clients of \<open>api/client.go\<close>: the bodies they send, the lines of a server-sent stream, what the two protocols make of
  them, and \<open>collectCompletionStream\<close>, which reads a whole reply. The reply of the server is an argument: an error of the transport, a status
  with a body, or the lines of the stream and how it ends (\<open>None\<close> when the body ends, the error of the scanner, of the context or of the idle
  timer otherwise). \<open>parse\<close> is \<open>json.Unmarshal\<close> into a map, \<open>None\<close> when it fails and the empty map for \<open>null\<close>.
\<close>

section \<open>Clients\<close>

record LLMClientBase =
  cl_APIKey :: string
  cl_BaseURL :: string
  cl_Model :: string
  cl_ProviderName :: string
  cl_MaxTokens :: int
  cl_ThinkingBudgetTokens :: "int option"

definition trim_slashes :: "string \<Rightarrow> string" where
  "trim_slashes t = rev (dropWhile (\<lambda>c. c = CHR ''/'') (rev t))"

definition NewLLMClientBase :: "string \<Rightarrow> string \<Rightarrow> string \<Rightarrow> int \<Rightarrow> int option \<Rightarrow> string + LLMClientBase" where
  "NewLLMClientBase apiKey baseURL model maxTokens budget =
     (if apiKey = [] then Inl ''API key must be configured explicitly''
      else if baseURL = [] then Inl ''API base URL must be configured explicitly''
      else let m = (if model = [] then ''claude-sonnet-4-6'' else model)
           in Inr \<lparr>cl_APIKey = apiKey, cl_BaseURL = trim_slashes baseURL, cl_Model = m, cl_ProviderName = m,
                   cl_MaxTokens = (if maxTokens = 0 then 16000 else maxTokens), cl_ThinkingBudgetTokens = budget\<rparr>)"

datatype llm_client = AnthropicClient LLMClientBase | OpenAICompatibleClient LLMClientBase

definition CreateLLMClient :: "string \<Rightarrow> string \<Rightarrow> string \<Rightarrow> int \<Rightarrow> int option \<Rightarrow> string list \<Rightarrow> string + llm_client" where
  "CreateLLMClient apiKey baseURL model maxTokens budget apiType =
     (case NewLLMClientBase apiKey baseURL model maxTokens budget of
        Inl e \<Rightarrow> Inl e
      | Inr base \<Rightarrow>
          Inr (if useOpenAICompatible model (case apiType of [] \<Rightarrow> ''auto'' | t # _ \<Rightarrow> t) then OpenAICompatibleClient base else AnthropicClient base))"

definition chatCompletionsURL :: "LLMClientBase \<Rightarrow> string" where
  "chatCompletionsURL c =
     (let baseURL = trim_slashes (cl_BaseURL c)
      in if suffix ''/chat/completions'' baseURL then baseURL
         else (if suffix ''/v1'' baseURL then take (length baseURL - 3) baseURL else baseURL) @ ''/chat/completions'')"

section \<open>Bodies\<close>

record LLMRequestOptions =
  op_MaxTokens :: int
  op_RequiredTool :: string
  op_DisableThinking :: bool
  op_Temperature :: "json option"

definition no_options :: LLMRequestOptions where
  "no_options = \<lparr>op_MaxTokens = 0, op_RequiredTool = [], op_DisableThinking = False, op_Temperature = None\<rparr>"

definition ephemeral :: json where "ephemeral = JObj [(''type'', JStr ''ephemeral'')]"

definition anthropic_tool :: "gomap \<Rightarrow> gomap" where
  "anthropic_tool tool =
     (let parameters = (case map_of tool ''input_schema'' of Some p \<Rightarrow> p
                        | None \<Rightarrow> (case map_of tool ''parameters'' of Some p \<Rightarrow> p | None \<Rightarrow> JObj []))
      in [(''name'', JStr (getString tool ''name'')), (''description'', JStr (getString tool ''description'')), (''input_schema'', parameters)])"

definition anthropic_tools :: "gomap list \<Rightarrow> gomap list" where
  "anthropic_tools tools =
     (let ts = map anthropic_tool tools in if ts = [] then [] else butlast ts @ [mput ''cache_control'' ephemeral (last ts)])"

definition system_block :: "string \<Rightarrow> gomap" where
  "system_block systemPrompt = [(''type'', JStr ''text''), (''text'', JStr systemPrompt), (''cache_control'', ephemeral)]"

text \<open>Nil options are \<open>no_options\<close>: the code asks the same of both.\<close>

definition anthropic_body :: "string \<Rightarrow> int option \<Rightarrow> string \<Rightarrow> gomap list \<Rightarrow> gomap list \<Rightarrow> LLMRequestOptions \<Rightarrow> gomap" where
  "anthropic_body model budget systemPrompt messages tools opts =
     [(''model'', JStr model), (''system'', block_list [system_block systemPrompt]), (''messages'', block_list messages), (''stream'', JBool True)] @
     (if op_MaxTokens opts > 0 then [(''max_tokens'', JInt (op_MaxTokens opts))] else []) @
     (case op_Temperature opts of None \<Rightarrow> [] | Some t \<Rightarrow> [(''temperature'', t)]) @
     (if anthropic_tools tools \<noteq> [] then [(''tools'', block_list (anthropic_tools tools))] else []) @
     (if op_RequiredTool opts \<noteq> [] then [(''tool_choice'', JObj [(''type'', JStr ''tool''), (''name'', JStr (op_RequiredTool opts))])] else []) @
     (if op_DisableThinking opts \<and> supportsThinkingControl model then [(''thinking'', JObj [(''type'', JStr ''disabled'')])]
      else case budget of None \<Rightarrow> []
        | Some b \<Rightarrow> if b > 0 then [(''thinking'', JObj [(''type'', JStr ''enabled''), (''budget_tokens'', JInt b)])] else [])"

definition openai_body :: "(json \<Rightarrow> string option) \<Rightarrow> (json \<Rightarrow> string) \<Rightarrow> string \<Rightarrow> string \<Rightarrow> gomap list \<Rightarrow> gomap list \<Rightarrow> LLMRequestOptions \<Rightarrow> gomap" where
  "openai_body marshal sprint model systemPrompt messages tools opts =
     [(''model'', JStr model), (''messages'', block_list (buildMessages marshal sprint systemPrompt messages)), (''stream'', JBool True),
      (''stream_options'', JObj [(''include_usage'', JBool True)])] @
     (if op_MaxTokens opts > 0 then [(''max_completion_tokens'', JInt (op_MaxTokens opts))] else []) @
     (case op_Temperature opts of None \<Rightarrow> [] | Some t \<Rightarrow> [(''temperature'', t)]) @
     (if tools \<noteq> [] then [(''tools'', block_list (AnthropicToolsToOpenAI tools))] else []) @
     (if op_RequiredTool opts \<noteq> []
      then [(''tool_choice'', JObj [(''type'', JStr ''function''), (''function'', JObj [(''name'', JStr (op_RequiredTool opts))])])] else []) @
     (if op_DisableThinking opts \<and> supportsThinkingControl model then [(''thinking'', JObj [(''type'', JStr ''disabled'')])] else [])"

section \<open>Lines of a stream\<close>

definition sse_data :: "string \<Rightarrow> string option" where
  "sse_data line =
     (if \<not> HasPrefix line ''data:'' then None
      else let d = TrimSpace (drop 5 line) in if d = [] then None else Some d)"

text \<open>\<open>handle\<close> returns the new state and whether to go on.\<close>

fun scanSSEDataLines :: "(string \<Rightarrow> 's \<Rightarrow> 's \<times> bool) \<Rightarrow> string list \<Rightarrow> go_error option \<Rightarrow> 's \<Rightarrow> 's \<times> go_error option" where
  "scanSSEDataLines handle [] ending s = (s, ending)"
| "scanSSEDataLines handle (line # lines) ending s =
     (case sse_data line of
        None \<Rightarrow> scanSSEDataLines handle lines ending s
      | Some d \<Rightarrow> (case handle d s of (s', go) \<Rightarrow> if go then scanSSEDataLines handle lines ending s' else (s', None)))"

definition object_at :: "gomap \<Rightarrow> string \<Rightarrow> gomap" where
  "object_at m key = (case object_of (fld m key) of None \<Rightarrow> [] | Some o' \<Rightarrow> o')"

definition list_at :: "gomap \<Rightarrow> string \<Rightarrow> json list" where
  "list_at m key = (case fld m key of JArr xs \<Rightarrow> xs | _ \<Rightarrow> [])"

text \<open>An error that is not an object is a nil map.\<close>

definition error_event :: "(json \<Rightarrow> string option) \<Rightarrow> string \<Rightarrow> gomap \<Rightarrow> item" where
  "error_event marshal provider data =
     (let message = getString (object_at data ''error'') ''message'';
          raw = marshal (case object_of (fld data ''error'') of None \<Rightarrow> JNull | Some m \<Rightarrow> JObj m)
      in Ev [(''type'', JStr ''error''), (''message'', JStr (if message = [] then ''Unknown API error'' else message)),
             (''error_type'', JStr ''api_stream_error''), (''provider'', JStr provider),
             (''raw_error'', JStr (case raw of None \<Rightarrow> [] | Some t \<Rightarrow> t))])"

definition text_event :: "string \<Rightarrow> string \<Rightarrow> string \<Rightarrow> item" where
  "text_event type key t = Ev [(''type'', JStr type), (key, JStr t)]"

definition tool_use_event :: "string \<Rightarrow> string \<Rightarrow> gomap \<Rightarrow> item" where
  "tool_use_event i name input = Ev [(''type'', JStr ''tool_use''), (''id'', JStr i), (''name'', JStr name), (''input'', JObj input)]"

definition message_error :: "string \<Rightarrow> item" where
  "message_error msg = Ev [(''type'', JStr ''error''), (''message'', JStr msg)]"

section \<open>Anthropic\<close>

record anthropic_state =
  an_out :: "item list"
  an_currentToolID :: string
  an_currentToolName :: string
  an_currentToolInput :: string
  an_savedInputTokens :: int

definition an_emit :: "item \<Rightarrow> anthropic_state \<Rightarrow> anthropic_state" where
  "an_emit x s = s\<lparr>an_out := an_out s @ [x]\<rparr>"

definition no_tool :: "anthropic_state \<Rightarrow> anthropic_state" where
  "no_tool s = s\<lparr>an_currentToolID := [], an_currentToolName := [], an_currentToolInput := []\<rparr>"

definition block_start :: "gomap \<Rightarrow> anthropic_state \<Rightarrow> anthropic_state" where
  "block_start b s =
     (let t = getString b ''type'' in
      if t = ''tool_use'' then s\<lparr>an_currentToolID := getString b ''id'', an_currentToolName := getString b ''name'', an_currentToolInput := []\<rparr>
      else if t = ''thinking''
      then an_emit (Ev [(''type'', JStr ''thinking''), (''text'', JStr (getString b ''thinking'')), (''signature'', JStr (getString b ''signature''))]) s
      else if t = ''redacted_thinking'' then an_emit (text_event ''redacted_thinking'' ''data'' (getString b ''data'')) s else s)"

definition block_delta :: "gomap \<Rightarrow> anthropic_state \<Rightarrow> anthropic_state" where
  "block_delta d s =
     (let t = getString d ''type'' in
      if t = ''text_delta'' then an_emit (text_event ''text_delta'' ''text'' (getString d ''text'')) s
      else if t = ''input_json_delta'' then s\<lparr>an_currentToolInput := an_currentToolInput s @ getString d ''partial_json''\<rparr>
      else if t = ''thinking_delta'' then an_emit (text_event ''thinking_delta'' ''text'' (getString d ''thinking'')) s
      else if t = ''signature_delta'' then an_emit (text_event ''signature_delta'' ''signature'' (getString d ''signature'')) s else s)"

definition block_stop :: "(string \<Rightarrow> gomap option) \<Rightarrow> anthropic_state \<Rightarrow> anthropic_state" where
  "block_stop parse s =
     (if an_currentToolID s = [] then s
      else if TrimSpace (an_currentToolInput s) = [] then no_tool (an_emit (tool_use_event (an_currentToolID s) (an_currentToolName s) []) s)
      else case parse (an_currentToolInput s) of
        None \<Rightarrow> no_tool (an_emit (message_error (''Failed to parse tool_use input for '' @ an_currentToolName s @ '': malformed JSON'')) s)
      | Some input \<Rightarrow> no_tool (an_emit (tool_use_event (an_currentToolID s) (an_currentToolName s) input) s))"

definition message_end :: "(string \<Rightarrow> int) \<Rightarrow> gomap \<Rightarrow> anthropic_state \<Rightarrow> anthropic_state" where
  "message_end tr data s =
     (let usage = object_at data ''usage''; reason = getString (object_at data ''delta'') ''stop_reason'' in
      an_emit (text_event ''stop_reason'' ''stop_reason'' (if reason = [] then ''end_turn'' else reason))
        (an_emit (Ev [(''type'', JStr ''usage''), (''input_tokens'', JInt (an_savedInputTokens s)), (''output_tokens'', JInt (getInt tr usage ''output_tokens'')),
           (''cache_read_input_tokens'', JInt (getInt tr usage ''cache_read_input_tokens'')),
           (''cache_creation_input_tokens'', JInt (getInt tr usage ''cache_creation_input_tokens''))]) s))"

definition message_start :: "(string \<Rightarrow> int) \<Rightarrow> gomap \<Rightarrow> anthropic_state \<Rightarrow> anthropic_state" where
  "message_start tr message s =
     (let s1 = (if getString message ''id'' \<noteq> [] then an_emit (text_event ''message_id'' ''id'' (getString message ''id'')) s else s)
      in s1\<lparr>an_savedInputTokens := getInt tr (object_at message ''usage'') ''input_tokens''\<rparr>)"

definition anthropic_object :: "(json \<Rightarrow> string option) \<Rightarrow> (string \<Rightarrow> gomap option) \<Rightarrow> (string \<Rightarrow> int) \<Rightarrow> string \<Rightarrow> gomap \<Rightarrow> anthropic_state \<Rightarrow> anthropic_state \<times> bool" where
  "anthropic_object marshal parse tr provider data s =
     (let t = getString data ''type'' in
      if t = ''error'' then (an_emit (error_event marshal provider data) s, False)
      else if t = ''message_start'' then (message_start tr (object_at data ''message'') s, True)
      else if t = ''content_block_start'' then (block_start (object_at data ''content_block'') s, True)
      else if t = ''content_block_delta'' then (block_delta (object_at data ''delta'') s, True)
      else if t = ''content_block_stop'' then (block_stop parse s, True)
      else if t = ''message_delta'' then (message_end tr data s, True)
      else (s, True))"

definition anthropic_data :: "(json \<Rightarrow> string option) \<Rightarrow> (string \<Rightarrow> gomap option) \<Rightarrow> (string \<Rightarrow> int) \<Rightarrow> string \<Rightarrow> string \<Rightarrow> anthropic_state \<Rightarrow> anthropic_state \<times> bool" where
  "anthropic_data marshal parse tr provider d s = (case parse d of None \<Rightarrow> (s, True) | Some data \<Rightarrow> anthropic_object marshal parse tr provider data s)"

section \<open>Replies\<close>

datatype http_reply =
    TransportFailed go_error "go_error option"
  | StatusReply int string string
  | StreamReply "string list" "go_error option"

definition hard_error_words :: "string list" where
  "hard_error_words = [''model_not_found'', ''invalid_request_error'', ''invalid_api_key'', ''authentication'', ''authorization'', ''not_found'']"

definition isRetryableOpenAICompatibleStreamError :: "int \<Rightarrow> string \<Rightarrow> bool" where
  "isRetryableOpenAICompatibleStreamError code text =
     (if code = 429 then True else if code \<in> {500, 503, 529} then \<not> list_ex (\<lambda>w. sublist w text) hard_error_words else False)"

definition isRetryableAnthropicStreamError :: "int \<Rightarrow> string \<Rightarrow> bool" where
  "isRetryableAnthropicStreamError code text =
     (if code = 429 then True else if code \<in> {503, 529} then \<not> list_ex (\<lambda>w. sublist w text) hard_error_words else False)"

definition NewAPIStatusError :: "string \<Rightarrow> int \<Rightarrow> string \<Rightarrow> string \<Rightarrow> APIStatusError" where
  "NewAPIStatusError provider code status body = \<lparr>se_Provider = provider, se_StatusCode = code, se_Status = status, se_Body = body\<rparr>"

definition status_item :: "(int \<Rightarrow> string) \<Rightarrow> (int \<Rightarrow> string \<Rightarrow> bool) \<Rightarrow> string \<Rightarrow> int \<Rightarrow> string \<Rightarrow> string \<Rightarrow> item" where
  "status_item st retryable provider code status body =
     (let e = NewAPIStatusError provider code status body in
      if retryable code body then Er (RetryableStatusError e)
      else Ev [(''type'', JStr ''error''), (''message'', JStr (status_message st e)), (''error_type'', JStr ''api_status_error''),
               (''provider'', JStr provider), (''status_code'', JInt code), (''status'', JStr status), (''raw_error'', JStr body)])"

definition streamAnthropic :: "(int \<Rightarrow> string) \<Rightarrow> (json \<Rightarrow> string option) \<Rightarrow> (string \<Rightarrow> gomap option) \<Rightarrow> (string \<Rightarrow> int) \<Rightarrow> string \<Rightarrow> http_reply \<Rightarrow> item list" where
  "streamAnthropic st marshal parse tr provider reply =
     (case reply of
        TransportFailed e ctxErr \<Rightarrow> (case retryableTransportError st ctxErr (Some e) of None \<Rightarrow> [] | Some e' \<Rightarrow> [Er e'])
      | StatusReply code status body \<Rightarrow> [status_item st isRetryableAnthropicStreamError provider code status body]
      | StreamReply lines ending \<Rightarrow>
          (case scanSSEDataLines (anthropic_data marshal parse tr provider) lines ending
                  \<lparr>an_out = [], an_currentToolID = [], an_currentToolName = [], an_currentToolInput = [], an_savedInputTokens = 0\<rparr> of
             (s, err) \<Rightarrow> an_out s @ (case err of None \<Rightarrow> [] | Some e \<Rightarrow> [Er e])))"

section \<open>OpenAI\<close>

record toolCallBuffer =
  tb_ID :: string
  tb_Name :: string
  tb_Arguments :: string

record openai_state =
  oa_out :: "item list"
  oa_toolCallBuffers :: "(int \<times> toolCallBuffer) list"
  oa_finishReason :: string
  oa_lastData :: gomap

definition oa_emit :: "item \<Rightarrow> openai_state \<Rightarrow> openai_state" where
  "oa_emit x s = s\<lparr>oa_out := oa_out s @ [x]\<rparr>"

definition add_fragment :: "(string \<Rightarrow> int) \<Rightarrow> (int \<times> toolCallBuffer) list \<Rightarrow> gomap \<Rightarrow> (int \<times> toolCallBuffer) list" where
  "add_fragment tr bufs tc =
     (let idx = getInt tr tc ''index''; fn = object_at tc ''function'';
          buf = mget \<lparr>tb_ID = [], tb_Name = [], tb_Arguments = []\<rparr> bufs idx
      in mput idx \<lparr>tb_ID = (if getString tc ''id'' \<noteq> [] then getString tc ''id'' else tb_ID buf),
                   tb_Name = (if getString fn ''name'' \<noteq> [] then getString fn ''name'' else tb_Name buf),
                   tb_Arguments = tb_Arguments buf @ getString fn ''arguments''\<rparr> bufs)"

definition openai_choice :: "(string \<Rightarrow> int) \<Rightarrow> gomap \<Rightarrow> openai_state \<Rightarrow> openai_state" where
  "openai_choice tr choice s =
     (let delta = object_at choice ''delta'';
          s1 = (if getString choice ''finish_reason'' \<noteq> [] then s\<lparr>oa_finishReason := getString choice ''finish_reason''\<rparr> else s);
          s2 = (if getString delta ''content'' \<noteq> [] then oa_emit (text_event ''text_delta'' ''text'' (getString delta ''content'')) s1 else s1)
      in s2\<lparr>oa_toolCallBuffers := foldl (add_fragment tr) (oa_toolCallBuffers s2) (List.map_filter object_of (list_at delta ''tool_calls''))\<rparr>)"

definition openai_data :: "(json \<Rightarrow> string option) \<Rightarrow> (string \<Rightarrow> gomap option) \<Rightarrow> (string \<Rightarrow> int) \<Rightarrow> string \<Rightarrow> string \<Rightarrow> openai_state \<Rightarrow> openai_state \<times> bool" where
  "openai_data marshal parse tr provider d s =
     (if d = ''[DONE]'' then (s, False)
      else case parse d of
        None \<Rightarrow> (s, True)
      | Some data \<Rightarrow>
          (let s1 = s\<lparr>oa_lastData := data\<rparr> in
           if object_of (fld data ''error'') \<noteq> None then (oa_emit (error_event marshal provider data) s1, False)
           else case list_at data ''choices'' of
             [] \<Rightarrow> (s1, True)
           | c # _ \<Rightarrow> (openai_choice tr (case object_of c of None \<Rightarrow> [] | Some m \<Rightarrow> m) s1, True)))"

definition truncateString :: "string \<Rightarrow> nat \<Rightarrow> string" where
  "truncateString t n = (if charLen t \<le> int n then t else take_runes n t)"

definition call_input :: "(string \<Rightarrow> gomap option) \<Rightarrow> string \<Rightarrow> gomap" where
  "call_input parse args = (if TrimSpace args = [] then [] else case parse args of None \<Rightarrow> [] | Some m \<Rightarrow> m)"

definition call_events :: "(string \<Rightarrow> gomap option) \<Rightarrow> int \<times> toolCallBuffer \<Rightarrow> item list" where
  "call_events parse x =
     (case x of (idx, buf) \<Rightarrow>
        if tb_Name buf \<noteq> [] then [tool_use_event (tb_ID buf) (tb_Name buf) (call_input parse (tb_Arguments buf))]
        else if tb_Arguments buf \<noteq> []
        then [message_error (''Tool call at index '' @ show_int idx @ '' is missing a function name; arguments were: '' @ truncateString (tb_Arguments buf) 200)]
        else [])"

definition stop_reason_of :: "string \<Rightarrow> string" where
  "stop_reason_of r =
     (if r = ''stop'' then ''end_turn'' else if r = ''tool_calls'' then ''tool_use'' else if r = ''length'' then ''max_tokens''
      else if r = ''content_filter'' then ''refusal'' else if r = [] then ''end_turn'' else r)"

definition openai_end :: "(string \<Rightarrow> gomap option) \<Rightarrow> (string \<Rightarrow> int) \<Rightarrow> openai_state \<Rightarrow> item list" where
  "openai_end parse tr s =
     (let usage = object_at (oa_lastData s) ''usage''
      in (if getString (oa_lastData s) ''id'' \<noteq> [] then [text_event ''message_id'' ''id'' (getString (oa_lastData s) ''id'')] else []) @
         (if oa_finishReason s = ''tool_calls'' then concat (map (call_events parse) (sort_key fst (oa_toolCallBuffers s))) else []) @
         (if usage \<noteq> [] then [Ev [(''type'', JStr ''usage''), (''input_tokens'', JInt (getInt tr usage ''prompt_tokens'')),
                                (''output_tokens'', JInt (getInt tr usage ''completion_tokens''))]] else []) @
         [text_event ''stop_reason'' ''stop_reason'' (stop_reason_of (oa_finishReason s))])"

definition providerName :: "string \<Rightarrow> string \<Rightarrow> string" where
  "providerName provider model = (if TrimSpace provider \<noteq> [] then provider else if TrimSpace model \<noteq> [] then model else ''OpenAI-compatible'')"

definition streamOpenAICompatible ::
  "(int \<Rightarrow> string) \<Rightarrow> (json \<Rightarrow> string option) \<Rightarrow> (string \<Rightarrow> gomap option) \<Rightarrow> (string \<Rightarrow> int) \<Rightarrow> string \<Rightarrow> http_reply \<Rightarrow> item list" where
  "streamOpenAICompatible st marshal parse tr provider reply =
     (case reply of
        TransportFailed e ctxErr \<Rightarrow> (case retryableTransportError st ctxErr (Some e) of None \<Rightarrow> [] | Some e' \<Rightarrow> [Er e'])
      | StatusReply code status body \<Rightarrow> [status_item st isRetryableOpenAICompatibleStreamError provider code status body]
      | StreamReply lines ending \<Rightarrow>
          (case scanSSEDataLines (openai_data marshal parse tr provider) lines ending
                  \<lparr>oa_out = [], oa_toolCallBuffers = [], oa_finishReason = [], oa_lastData = []\<rparr> of
             (s, err) \<Rightarrow> oa_out s @ (case err of Some e \<Rightarrow> [Er e] | None \<Rightarrow> openai_end parse tr s)))"

section \<open>Whole replies\<close>

record Response =
  rs_Text :: string
  rs_ToolCalls :: "gomap list"
  rs_StopReason :: string
  rs_InputTokens :: int
  rs_CacheReadInputTokens :: int
  rs_CacheCreationInputTokens :: int
  rs_OutputTokens :: int

definition empty_response :: Response where
  "empty_response = \<lparr>rs_Text = [], rs_ToolCalls = [], rs_StopReason = [], rs_InputTokens = 0, rs_CacheReadInputTokens = 0,
     rs_CacheCreationInputTokens = 0, rs_OutputTokens = 0\<rparr>"

definition completionStreamError :: "(string \<Rightarrow> int) \<Rightarrow> gomap \<Rightarrow> go_error" where
  "completionStreamError tr event =
     (let m = TrimSpace (getString event ''message''); message = (if m = [] then ''streaming completion failed'' else m);
          e = NewAPIStatusError (getString event ''provider'') (getInt tr event ''status_code'') (getString event ''status'') (getString event ''raw_error'')
      in if getInt tr event ''status_code'' > 0 then (if getBool event ''retryable'' then RetryableStatusError e else StatusError e)
         else if getBool event ''retryable'' then RetryableError message
         else if lower_view (TrimSpace (getString event ''error_type'')) \<in> {''transport_error'', ''api_stream_error''} then RetryableError message
         else PlainError message)"

definition collect_event :: "(string \<Rightarrow> int) \<Rightarrow> gomap \<Rightarrow> Response \<Rightarrow> go_error + Response" where
  "collect_event tr event r =
     (let t = getString event ''type'' in
      if t \<in> {''text'', ''text_delta''} then Inr (r\<lparr>rs_Text := rs_Text r @ getString event ''text''\<rparr>)
      else if t = ''tool_use''
      then Inr (r\<lparr>rs_ToolCalls := rs_ToolCalls r @ [[(''id'', JStr (getString event ''id'')), (''name'', JStr (getString event ''name'')),
                   (''input'', JObj (object_at event ''input''))]]\<rparr>)
      else if t = ''usage''
      then Inr (r\<lparr>rs_InputTokens := getInt tr event ''input_tokens'', rs_CacheReadInputTokens := getInt tr event ''cache_read_input_tokens'',
                   rs_CacheCreationInputTokens := getInt tr event ''cache_creation_input_tokens'', rs_OutputTokens := getInt tr event ''output_tokens''\<rparr>)
      else if t = ''stop_reason'' then Inr (r\<lparr>rs_StopReason := getString event ''stop_reason''\<rparr>)
      else if t = ''error'' then Inl (completionStreamError tr event)
      else Inr r)"

fun collect_from :: "(string \<Rightarrow> int) \<Rightarrow> item list \<Rightarrow> Response \<Rightarrow> go_error + Response" where
  "collect_from tr [] r = Inr r"
| "collect_from tr (Er e # xs) r = Inl e"
| "collect_from tr (Ev event # xs) r = (case collect_event tr event r of Inl e \<Rightarrow> Inl e | Inr r' \<Rightarrow> collect_from tr xs r')"

definition collectCompletionStream :: "(string \<Rightarrow> int) \<Rightarrow> item list \<Rightarrow> go_error + Response" where
  "collectCompletionStream tr stream = collect_from tr stream empty_response"


section \<open>What a reply of OpenAI's protocol amounts to\<close>

text \<open>The objects of a stream up to its end: the end marker, an error, or the end of the body.\<close>

definition is_failure_data :: "gomap \<Rightarrow> bool" where
  "is_failure_data data \<longleftrightarrow> object_of (fld data ''error'') \<noteq> None"

fun chunks :: "(string \<Rightarrow> gomap option) \<Rightarrow> string list \<Rightarrow> gomap list" where
  "chunks parse [] = []"
| "chunks parse (line # lines) =
     (case sse_data line of
        None \<Rightarrow> chunks parse lines
      | Some d \<Rightarrow>
          if d = ''[DONE]'' then []
          else case parse d of
            None \<Rightarrow> chunks parse lines
          | Some data \<Rightarrow> data # (if is_failure_data data then [] else chunks parse lines))"

definition choice_of :: "gomap \<Rightarrow> gomap" where
  "choice_of data =
     (if is_failure_data data then [] else case list_at data ''choices'' of [] \<Rightarrow> [] | c # _ \<Rightarrow> (case object_of c of None \<Rightarrow> [] | Some m \<Rightarrow> m))"

definition fragments_of :: "gomap \<Rightarrow> gomap list" where
  "fragments_of data = List.map_filter object_of (list_at (object_at (choice_of data) ''delta'') ''tool_calls'')"

definition chunk_items :: "(json \<Rightarrow> string option) \<Rightarrow> string \<Rightarrow> gomap \<Rightarrow> item list" where
  "chunk_items marshal provider data =
     (if is_failure_data data then [error_event marshal provider data]
      else let t = getString (object_at (choice_of data) ''delta'') ''content'' in if t = [] then [] else [text_event ''text_delta'' ''text'' t])"

text \<open>Of several values the last one that is not empty counts.\<close>

definition last_given :: "string list \<Rightarrow> string" where
  "last_given xs = last ([] # filter (\<lambda>x. x \<noteq> []) xs)"

text \<open>A call: the fragments with its index, their last identifier and name, and all their arguments one after the other.\<close>

definition whole_call :: "(string \<Rightarrow> int) \<Rightarrow> gomap list \<Rightarrow> int \<Rightarrow> toolCallBuffer" where
  "whole_call tr fragments idx =
     (let mine = filter (\<lambda>f. getInt tr f ''index'' = idx) fragments
      in \<lparr>tb_ID = last_given (map (\<lambda>f. getString f ''id'') mine),
          tb_Name = last_given (map (\<lambda>f. getString (object_at f ''function'') ''name'') mine),
          tb_Arguments = concat (map (\<lambda>f. getString (object_at f ''function'') ''arguments'') mine)\<rparr>)"

definition whole_calls :: "(string \<Rightarrow> int) \<Rightarrow> gomap list \<Rightarrow> (int \<times> toolCallBuffer) list" where
  "whole_calls tr fragments = map (\<lambda>i. (i, whole_call tr fragments i)) (sort (remdups (map (\<lambda>f. getInt tr f ''index'') fragments)))"

definition openai_reply :: "(json \<Rightarrow> string option) \<Rightarrow> (string \<Rightarrow> gomap option) \<Rightarrow> (string \<Rightarrow> int) \<Rightarrow> string \<Rightarrow> gomap list \<Rightarrow> item list" where
  "openai_reply marshal parse tr provider cs =
     (let final = (if cs = [] then [] else last cs); reason = last_given (map (\<lambda>c. getString (choice_of c) ''finish_reason'') cs);
          usage = object_at final ''usage''
      in concat (map (chunk_items marshal provider) cs) @
         (if getString final ''id'' \<noteq> [] then [text_event ''message_id'' ''id'' (getString final ''id'')] else []) @
         (if reason = ''tool_calls'' then concat (map (call_events parse) (whole_calls tr (concat (map fragments_of cs)))) else []) @
         (if usage \<noteq> [] then [Ev [(''type'', JStr ''usage''), (''input_tokens'', JInt (getInt tr usage ''prompt_tokens'')),
                                (''output_tokens'', JInt (getInt tr usage ''completion_tokens''))]] else []) @
         [text_event ''stop_reason'' ''stop_reason'' (stop_reason_of reason)])"

lemma last_given_append: "last_given (xs @ [x]) = (if x \<noteq> [] then x else last_given xs)"
  by (simp add: last_given_def)

definition extended :: "gomap \<Rightarrow> toolCallBuffer \<Rightarrow> toolCallBuffer" where
  "extended f buf =
     \<lparr>tb_ID = (if getString f ''id'' \<noteq> [] then getString f ''id'' else tb_ID buf),
      tb_Name = (if getString (object_at f ''function'') ''name'' \<noteq> [] then getString (object_at f ''function'') ''name'' else tb_Name buf),
      tb_Arguments = tb_Arguments buf @ getString (object_at f ''function'') ''arguments''\<rparr>"

lemma add_fragment_at:
  "map_of (add_fragment tr bufs f) i =
     (if getInt tr f ''index'' = i then Some (extended f (mget \<lparr>tb_ID = [], tb_Name = [], tb_Arguments = []\<rparr> bufs i)) else map_of bufs i)"
  by (simp add: add_fragment_def extended_def Let_def update_conv')

lemma fragments_buffered:
  "map_of (foldl (add_fragment tr) [] fs) i =
     (if i \<in> set (map (\<lambda>f. getInt tr f ''index'') fs) then Some (whole_call tr fs i) else None)"
proof (induction fs rule: rev_induct)
  case (snoc f fs)
  have empty: "whole_call tr fs i = \<lparr>tb_ID = [], tb_Name = [], tb_Arguments = []\<rparr>" if "i \<notin> set (map (\<lambda>f. getInt tr f ''index'') fs)"
  proof -
    have "filter (\<lambda>f. getInt tr f ''index'' = i) fs = []" using that by (auto simp: filter_empty_conv)
    then show ?thesis by (simp add: whole_call_def last_given_def)
  qed
  have other: "whole_call tr (fs @ [f]) i = whole_call tr fs i" if "getInt tr f ''index'' \<noteq> i" using that by (simp add: whole_call_def)
  have same: "mget \<lparr>tb_ID = [], tb_Name = [], tb_Arguments = []\<rparr> (foldl (add_fragment tr) [] fs) i = whole_call tr fs i"
    using snoc empty by (auto simp: mget_def)
  have more: "whole_call tr (fs @ [f]) i = extended f (whole_call tr fs i)" if "getInt tr f ''index'' = i"
    using that by (simp add: whole_call_def extended_def Let_def last_given_append)
  show ?case
  proof (cases "getInt tr f ''index'' = i")
    case True
    then show ?thesis using same more by (simp add: add_fragment_at)
  next
    case False
    then show ?thesis using snoc other by (auto simp: add_fragment_at)
  qed
qed simp

lemma buffers_distinct: "distinct (map fst (foldl (add_fragment tr) [] fs))"
  by (induction fs rule: rev_induct) (auto simp: add_fragment_def Let_def distinct_update)

lemma sort_map_of: "distinct (map fst m) \<Longrightarrow> sort_key fst m = map (\<lambda>i. (i, the (map_of m i))) (sort (map fst m))"
proof -
  assume d: "distinct (map fst m)"
  have k: "map fst (sort_key fst m) = sort (map fst m)"
    by (intro properties_for_sort [symmetric]) simp_all
  have "map (\<lambda>i. (i, the (map_of m i))) (map fst (sort_key fst m)) = sort_key fst m"
    unfolding map_map by (rule map_idI) (use d in \<open>auto simp: map_of_eq_Some_iff\<close>)
  then show ?thesis by (simp only: k)
qed

lemma calls_buffered: "sort_key fst (foldl (add_fragment tr) [] fs) = whole_calls tr fs"
proof -
  let ?m = "foldl (add_fragment tr) [] fs"
  have "set (map fst ?m) = set (map (\<lambda>f. getInt tr f ''index'') fs)"
    using fragments_buffered [of tr fs] by (auto simp flip: dom_map_of_conv_image_fst simp: dom_def split: if_splits)
  then have "mset (map fst ?m) = mset (remdups (map (\<lambda>f. getInt tr f ''index'') fs))"
    using buffers_distinct [of tr fs] by (metis mset_set_set set_remdups distinct_remdups)
  then have k: "sort (map fst ?m) = sort (remdups (map (\<lambda>f. getInt tr f ''index'') fs))" by (metis properties_for_sort mset_sort sorted_sort)
  show ?thesis unfolding sort_map_of [OF buffers_distinct] k whole_calls_def by (auto simp: fragments_buffered)
qed


text \<open>The effect of one object on the state of the client.\<close>

definition absorb :: "(json \<Rightarrow> string option) \<Rightarrow> (string \<Rightarrow> int) \<Rightarrow> string \<Rightarrow> openai_state \<Rightarrow> gomap \<Rightarrow> openai_state" where
  "absorb marshal tr provider s data =
     (let fr = getString (choice_of data) ''finish_reason''
      in s\<lparr>oa_out := oa_out s @ chunk_items marshal provider data, oa_toolCallBuffers := foldl (add_fragment tr) (oa_toolCallBuffers s) (fragments_of data),
           oa_finishReason := (if fr \<noteq> [] then fr else oa_finishReason s), oa_lastData := data\<rparr>)"

lemma nothing_chosen: "getString [] k = []" "object_at [] k = []" "list_at [] k = []"
  by (simp_all add: getString_def object_at_def list_at_def mget_def stringFromAny_def object_of_def)

lemma openai_data_absorb:
  assumes "d \<noteq> ''[DONE]''" "parse d = Some data"
  shows "openai_data marshal parse tr provider d s = (absorb marshal tr provider s data, \<not> is_failure_data data)"
proof (cases "is_failure_data data")
  case True
  then have "choice_of data = []" by (simp add: choice_of_def)
  then show ?thesis using assms True
    by (simp add: openai_data_def is_failure_data_def absorb_def chunk_items_def fragments_of_def nothing_chosen oa_emit_def Let_def List.map_filter_simps)
next
  case False
  then have c: "choice_of data = (case list_at data ''choices'' of [] \<Rightarrow> [] | c # _ \<Rightarrow> (case object_of c of None \<Rightarrow> [] | Some m \<Rightarrow> m))" by (simp add: choice_of_def)
  show ?thesis
  proof (cases "list_at data ''choices''")
    case Nil
    then show ?thesis using assms False c
      by (simp add: openai_data_def is_failure_data_def absorb_def chunk_items_def fragments_of_def nothing_chosen Let_def List.map_filter_simps)
  next
    case (Cons x xs)
    then have e: "openai_data marshal parse tr provider d s = (openai_choice tr (choice_of data) (s\<lparr>oa_lastData := data\<rparr>), True)"
      using assms False by (simp add: openai_data_def is_failure_data_def c)
    show ?thesis unfolding e using False by (simp add: openai_choice_def absorb_def chunk_items_def fragments_of_def oa_emit_def Let_def)
  qed
qed

lemma scan_absorbs:
  "scanSSEDataLines (openai_data marshal parse tr provider) lines None s = (foldl (absorb marshal tr provider) s (chunks parse lines), None)"
proof (induction lines arbitrary: s)
  case (Cons line lines)
  show ?case
  proof (cases "sse_data line")
    case (Some d)
    show ?thesis
    proof (cases "d = ''[DONE]'' \<or> parse d = None")
      case True
      then show ?thesis using Some Cons by (auto simp: openai_data_def)
    next
      case False
      then obtain data where "d \<noteq> ''[DONE]''" "parse d = Some data" by auto
      then show ?thesis using Some Cons openai_data_absorb [of d parse data] by auto
    qed
  qed (use Cons in simp)
qed simp

lemma absorbed:
  "foldl (absorb marshal tr provider) \<lparr>oa_out = [], oa_toolCallBuffers = [], oa_finishReason = [], oa_lastData = []\<rparr> cs =
     \<lparr>oa_out = concat (map (chunk_items marshal provider) cs), oa_toolCallBuffers = foldl (add_fragment tr) [] (concat (map fragments_of cs)),
      oa_finishReason = last_given (map (\<lambda>c. getString (choice_of c) ''finish_reason'') cs), oa_lastData = (if cs = [] then [] else last cs)\<rparr>"
proof (induction cs rule: rev_induct)
  case (snoc c cs)
  then show ?case by (simp add: absorb_def Let_def last_given_append)
qed (simp add: last_given_def)

text \<open>C6: Reading a reply of OpenAI's protocol piece by piece gives what its objects say as a whole: the texts in their order, and, when the reply ends
  with tool calls, one call per index in the order of the indices, with the last identifier and name that were given and the arguments of all
  its fragments one after the other, however the fragments of several calls are mixed. Lines that are not data and objects that do not
  parse are skipped.\<close>

theorem openai_stream_reassembles:
  "streamOpenAICompatible st marshal parse tr provider (StreamReply lines None) = openai_reply marshal parse tr provider (chunks parse lines)"
  by (simp add: streamOpenAICompatible_def scan_absorbs absorbed openai_end_def openai_reply_def calls_buffered Let_def)


section \<open>Calls of Anthropic's protocol\<close>

definition call_objects :: "string \<Rightarrow> string \<Rightarrow> string list \<Rightarrow> gomap list" where
  "call_objects i name parts =
     [[(''type'', JStr ''content_block_start''), (''content_block'', JObj [(''type'', JStr ''tool_use''), (''id'', JStr i), (''name'', JStr name)])]] @
     map (\<lambda>p. [(''type'', JStr ''content_block_delta''), (''delta'', JObj [(''type'', JStr ''input_json_delta''), (''partial_json'', JStr p)])]) parts @
     [[(''type'', JStr ''content_block_stop'')]]"

text \<open>A tool call that arrives in any number of pieces becomes one event with the whole input, or one error when the whole input is not JSON; nothing of
  it is left for the next block.\<close>

theorem anthropic_call_reassembles:
  assumes "i \<noteq> []"
  shows "foldl (\<lambda>s o'. fst (anthropic_object marshal parse tr provider o' s)) s (call_objects i name parts) =
    no_tool (an_emit (if TrimSpace (concat parts) = [] then tool_use_event i name []
      else case parse (concat parts) of
        None \<Rightarrow> message_error (''Failed to parse tool_use input for '' @ name @ '': malformed JSON'')
      | Some input \<Rightarrow> tool_use_event i name input) s)"
proof -
  let ?step = "\<lambda>s o'. fst (anthropic_object marshal parse tr provider o' s)"
  have pieces: "foldl ?step s (map (\<lambda>p. [(''type'', JStr ''content_block_delta''), (''delta'', JObj [(''type'', JStr ''input_json_delta''), (''partial_json'', JStr p)])]) parts)
      = s\<lparr>an_currentToolInput := an_currentToolInput s @ concat parts\<rparr>" for s
    by (induction parts arbitrary: s) (simp_all add: anthropic_object_def getString_def stringFromAny_def mget_def object_at_def object_of_def block_delta_def)
  show ?thesis using assms
    by (simp add: call_objects_def pieces)
      (auto simp: anthropic_object_def getString_def stringFromAny_def mget_def object_at_def object_of_def block_start_def block_stop_def no_tool_def
        an_emit_def split: option.splits)
qed

theorem anthropic_call_reassembles_witness:
  "an_out (foldl (\<lambda>s o'. fst (anthropic_object (\<lambda>_. None) (\<lambda>t. if t = ''{}'' then Some [] else None) (\<lambda>_. 0) ''p'' o' s))
     \<lparr>an_out = [], an_currentToolID = [], an_currentToolName = [], an_currentToolInput = [], an_savedInputTokens = 0\<rparr>
     (call_objects ''t1'' ''Read'' [''{'', ''}''])) = [tool_use_event ''t1'' ''Read'' []]"
proof -
  have "TrimSpace ''{}'' \<noteq> []" by code_simp
  then show ?thesis
    using anthropic_call_reassembles [of "''t1''" "\<lambda>_. None" "\<lambda>t. if t = ''{}'' then Some [] else None" "\<lambda>_. 0" "''p''"
        "\<lparr>an_out = [], an_currentToolID = [], an_currentToolName = [], an_currentToolInput = [], an_savedInputTokens = 0\<rparr>" "''Read''" "[''{'', ''}'']"]
    by (simp add: no_tool_def an_emit_def)
qed

text \<open>The same input, malformed, is an error there and a call without input here.\<close>

lemma malformed_arguments_are_dropped:
  "TrimSpace args \<noteq> [] \<Longrightarrow> parse args = None \<Longrightarrow> name \<noteq> [] \<Longrightarrow>
   call_events parse (0, \<lparr>tb_ID = i, tb_Name = name, tb_Arguments = args\<rparr>) = [tool_use_event i name []]"
  by (simp add: call_events_def call_input_def)


section \<open>Cache marks of a request\<close>

text \<open>Anthropic's API accepts four cache marks in a request.\<close>

definition has_mark :: "gomap \<Rightarrow> bool" where
  "has_mark b \<longleftrightarrow> map_of b ''cache_control'' \<noteq> None"

definition objects_at :: "gomap \<Rightarrow> string \<Rightarrow> gomap list" where
  "objects_at m key = List.map_filter object_of (list_at m key)"

definition marks_in :: "gomap list \<Rightarrow> nat" where
  "marks_in ms = sum_list (map (\<lambda>m. length (filter has_mark (blocks_of m))) ms)"

definition cache_marks :: "gomap \<Rightarrow> nat" where
  "cache_marks body = length (filter has_mark (objects_at body ''system'')) + length (filter has_mark (objects_at body ''tools'')) + marks_in (objects_at body ''messages'')"

lemma marks_of_tools: "length (filter has_mark (anthropic_tools tools)) \<le> 1"
proof -
  have "\<not> has_mark (anthropic_tool t)" for t by (simp add: has_mark_def anthropic_tool_def Let_def)
  moreover have "set (butlast (map anthropic_tool tools)) \<subseteq> range anthropic_tool" using in_set_butlastD by fastforce
  ultimately have "filter has_mark (butlast (map anthropic_tool tools)) = []" by (auto simp: filter_empty_conv)
  then show ?thesis by (simp add: anthropic_tools_def Let_def)
qed

lemma marks_of_message: "list_all (\<lambda>b. \<not> has_mark b) (blocks_of m) \<Longrightarrow> length (filter has_mark (blocks_of (mark_message m))) \<le> 1"
proof -
  assume u: "list_all (\<lambda>b. \<not> has_mark b) (blocks_of m)"
  have "blocks_of (set_content bs m) = bs" for bs by (simp add: set_content_def blocks_of_def contentBlocks_def block_list_def)
  moreover have "filter has_mark (butlast (blocks_of m)) = []" using u by (auto simp: filter_empty_conv list_all_iff dest: in_set_butlastD)
  ultimately show ?thesis by (simp add: mark_message_def Let_def)
qed

lemma marks_of_rolling:
  assumes "list_all (\<lambda>m. list_all (\<lambda>b. \<not> has_mark b) (blocks_of m)) ms" "good_points b points"
  shows "marks_in (fst (applyRollingCache model ms points)) \<le> 2"
proof -
  have none: "marks_in ms = 0" using assms(1) by (simp add: marks_in_def list_all_iff)
  define ps where "ps = rolling_points (int (length ms)) points"
  have two: "length ps \<le> 2" using good_rolling [OF assms(2), of "int (length ms)"] by (simp add: ps_def good_points_def maxHistoryBreakpoints_def)
  have "marks_in (map (\<lambda>i. if int i \<in> set ps then mark_message (ms ! i) else ms ! i) [0..<length ms]) \<le> (\<Sum>i\<leftarrow>[0..<length ms]. if int i \<in> set ps then 1 else 0)"
    unfolding marks_in_def map_map
  proof (rule sum_list_mono)
    fix i assume "i \<in> set [0..<length ms]"
    then have u: "list_all (\<lambda>b. \<not> has_mark b) (blocks_of (ms ! i))" using assms(1) by (simp add: list_all_length)
    then have "filter has_mark (blocks_of (ms ! i)) = []" by (simp add: filter_empty_conv list_all_iff)
    then show "((\<lambda>m. length (filter has_mark (blocks_of m))) \<circ> (\<lambda>i. if int i \<in> set ps then mark_message (ms ! i) else ms ! i)) i \<le> (if int i \<in> set ps then 1 else 0)"
      using marks_of_message [OF u] by simp
  qed
  also have "\<dots> = card {i \<in> {0..<length ms}. int i \<in> set ps}"
    by (simp add: interv_sum_list_conv_sum_set_nat sum.If_cases Int_def)
  also have "\<dots> \<le> card (nat ` set ps)" by (rule card_mono) (auto simp: image_iff, metis nat_int)
  also have "\<dots> \<le> length ps" by (rule order_trans [OF card_image_le card_length]) simp
  finally have "marks_in (map (\<lambda>i. if int i \<in> set ps then mark_message (ms ! i) else ms ! i) [0..<length ms]) \<le> 2" using two by simp
  then show ?thesis using none by (simp add: applyRollingCache_def Let_def ps_def)
qed

text \<open>C34: However the conversation grew over the earlier requests of a run, a request to Anthropic carries at most four cache marks: one on the system prompt,
  one on the tools, and at most two in a conversation that had none before.\<close>

theorem cache_marks_stay_within_the_limit:
  assumes "list_all (\<lambda>m. list_all (\<lambda>b. \<not> has_mark b) (blocks_of m)) msgs"
  shows "cache_marks (anthropic_body model budget systemPrompt (fst (applyRollingCache model msgs (rolling_run [] reqs))) tools opts) \<le> 4"
proof -
  obtain b where "good_points b (rolling_run [] reqs)" using good_run by blast
  note m = marks_of_rolling [OF assms this, of model]
  have l: "objects_at (anthropic_body model budget systemPrompt ms tools opts) ''messages'' = ms"
    "objects_at (anthropic_body model budget systemPrompt ms tools opts) ''system'' = [system_block systemPrompt]" for ms
    by (simp_all add: objects_at_def list_at_def anthropic_body_def mget_def block_list_def List.map_filter_simps)
  have t: "length (filter has_mark (objects_at (anthropic_body model budget systemPrompt ms tools opts) ''tools'')) \<le> 1" for ms
    using marks_of_tools [of tools]
    by (auto simp: objects_at_def list_at_def anthropic_body_def mget_def block_list_def List.map_filter_simps map_add_def split: option.splits)
  show ?thesis using m t [of "fst (applyRollingCache model msgs (rolling_run [] reqs))"] by (simp add: cache_marks_def l)
qed


theorem cache_marks_stay_within_the_limit_witness:
  "cache_marks (anthropic_body ''claude-x'' None ''Be brief.'' (fst (applyRollingCache ''claude-x'' (replicate 20 (user_message [text_block ''hi''])) (rolling_run [] []))) [[]] no_options) \<le> 4"
proof -
  have "list_all (\<lambda>m. list_all (\<lambda>b. \<not> has_mark b) (blocks_of m)) (replicate 20 (user_message [text_block ''hi'']))" by code_simp
  from cache_marks_stay_within_the_limit [OF this, of "''claude-x''" None "''Be brief.''" "[]" "[[]]" no_options] show ?thesis .
qed

section \<open>Collected replies\<close>

text \<open>A reply without failures is collected whole: its text is what its events said, one after the other.\<close>

definition failure_free :: "item \<Rightarrow> bool" where
  "failure_free x = (case x of Er _ \<Rightarrow> False | Ev event \<Rightarrow> getString event ''type'' \<noteq> ''error'')"

definition item_text :: "item \<Rightarrow> string" where
  "item_text x = (case x of Er _ \<Rightarrow> [] | Ev event \<Rightarrow> if getString event ''type'' \<in> {''text'', ''text_delta''} then getString event ''text'' else [])"

lemma collect_event_ok:
  "getString event ''type'' \<noteq> ''error'' \<Longrightarrow> \<exists>r'. collect_event tr event r = Inr r' \<and> rs_Text r' = rs_Text r @ item_text (Ev event)"
  by (simp add: collect_event_def item_text_def Let_def)

lemma collected_text:
  "list_all failure_free xs \<Longrightarrow> \<exists>r'. collect_from tr xs r = Inr r' \<and> rs_Text r' = rs_Text r @ concat (map item_text xs)"
proof (induction tr xs r rule: collect_from.induct)
  case (3 tr event xs r)
  obtain r1 where r1: "collect_event tr event r = Inr r1" "rs_Text r1 = rs_Text r @ item_text (Ev event)"
    using collect_event_ok [of event tr r] 3(2) by (auto simp: failure_free_def)
  then show ?case using 3(1) [OF r1(1)] 3(2) by auto
qed (auto simp: failure_free_def)

end
