(* ===== verification/Spec2Isabelle.thy ===== *)
theory Spec2Isabelle
  imports Risk_Patterns Bash_Classifier Bash_Semantics Bash_Sed Bash_Validation Bash_Permissions
    Harness_Hooks Harness_Projection Runtime_Recovery Run_State Tool_Scheduling Permission_Resolver Agent_Contexts
    Session_Fencing Api_Fallback Team_Completion Team_Policy Agent_Rounds Agent_Workers Api_Requests Api_Streams
begin

text \<open>
  LuminaCode is a coding agent: a loop sends a conversation to a language model, runs the tools the model asks for, and records
  what happened in a durable event journal. This development models the parts of \<open>src/\<close> that decide something:

  \<^enum> \<^bold>\<open>Which command may run.\<close> A shell command of the model is tokenized, checked and classified before it runs without
    asking. \<open>Risk_Patterns\<close> is \<open>security/pattern.go\<close> (the danger patterns are terms of the regular expressions of \<open>Go_Regexp\<close>);
    \<open>Bash_Tokenizer\<close>, \<open>Bash_Security\<close>, \<open>Bash_Permissions\<close>, \<open>Bash_Classifier\<close>, \<open>Bash_Semantics\<close>, \<open>Bash_Sed\<close> and \<open>Bash_Validation\<close> are
    the files of \<open>tools/bash\<close> of these names; \<open>Permission_State\<close> is \<open>security/permission.go\<close>, what the user has confirmed.
    Shown: neither bare text nor double quotes hide a substitution from the checks, a stored rule approves only commands whose
    every segment is quiet, a path is confirmed exactly below a confirmed ancestor, a blocked or privileged command
    is never classified safe, approved \<open>sed\<close> commands do not write or execute.
  \<^enum> \<^bold>\<open>Who asks the user.\<close> \<open>Permission_Resolver\<close> is \<open>agent/permission_resolver.go\<close> with \<open>CheckPermissionChain\<close> of
    \<open>agent/loop.go\<close>: a call is granted only for a reason, and a shell command passes unasked only when it is quiet.
    \<open>Run_State\<close> is \<open>agent/run_state.go\<close> and the run part of \<open>agent/runtime_state.go\<close>, a state machine with tokens: it waits for a
    permission exactly when one is pending, and grants only to the current live run.
  \<^enum> \<^bold>\<open>How tools run.\<close> \<open>Tool_Registry\<close> is \<open>tools/base.go\<close>, \<open>registry.go\<close> and \<open>deferred.go\<close>. \<open>Tool_Executor\<close> is
    \<open>agent/tools_executor.go\<close>; \<open>Tool_Scheduling\<close> has its goroutines as an \<open>inductive\<close> step relation: exclusive calls run
    alone in every interleaving, results come out in the order of the calls. \<open>Result_Budget\<close> is \<open>tools/budget.go\<close>.
  \<^enum> \<^bold>\<open>What the model sees.\<close> \<open>Agent_Messages\<close>, \<open>Agent_Normalize\<close> and \<open>Output_Recovery\<close> are the files of \<open>agent\<close> that keep and
    normalize the conversation and recover from truncated output. \<open>Context_Window\<close>, \<open>Context_Collapse\<close> and \<open>Context_Manager\<close>
    are \<open>message.go\<close>, \<open>micro.go\<close>, \<open>snip.go\<close>, \<open>collapse.go\<close>, \<open>auto.go\<close>, \<open>cache.go\<close> and the state of \<open>manager.go\<close> in
    \<open>agentContext\<close>: a retained tail keeps every call with its result, folding never hides recent messages. \<open>Agent_Contexts\<close> is
    the part of \<open>agent/runtime_state.go\<close> that publishes contexts: over the life of an agent, with its resets and restores, of the results
    prepared from one published context at most one is committed, and a commit is stored, published and taken over by the manager, or none of it.
  \<^enum> \<^bold>\<open>How the model is asked.\<close> \<open>Api_Retry\<close> is \<open>api/retry.go\<close> and \<open>Api_Fallback\<close> is \<open>api/fallback.go\<close>. What the requests
    stream is an argument. Shown: a request ends with an answer or with one failure message, the cool-down level stays in
    its table, an exhausted provider is not asked again, the answers of two models are never mixed. \<open>Api_Convert\<close> and \<open>Api_Streams\<close>
    are \<open>api/client.go\<close>: which protocol a model speaks, how the conversation and the tools are written for it, and how the
    lines of its reply become events; the reply of the server and the JSON encoder are arguments. Shown: a reply read piece by piece
    gives the calls it carries as a whole, a request has at most four cache marks; \<open>Api_Requests\<close> puts the agent loop in front:
    every request of a run whose calls carry identifiers, converted to OpenAI's protocol, answers each call right after it.
  \<^enum> \<^bold>\<open>How a run goes on and ends.\<close> \<open>Agent_Loop\<close> is \<open>queryLoop\<close> of \<open>agent/loop.go\<close>, the rounds that put the parts above together:
    the run state, the conversation, the context manager, the permission resolver and the executor of a round. \<open>Agent_Stream\<close> is what
    the loop needs besides: what an event of the model does (\<open>HandleStreamEvent\<close>), which errors are fatal, where a message is inserted
    (\<open>agent/message_injection.go\<close>), the cache breakpoints of a request. \<open>Agent_Rounds\<close> shows: every request is a conversation in which each
    tool call that carries an identifier is answered by the next message (a call without one is not, see \<open>Agent_Normalize\<close>), and a run ends after at most sixteen requests per allowed turn and eighty more,
    whatever the model streams.
  \<^enum> \<^bold>\<open>How workers live.\<close> \<open>Agent_Tasks\<close> is \<open>agent/task_runtime.go\<close>, the background tasks of an agent; \<open>Agent_Workers\<close> has their
    goroutines, timers and callers as a step relation. Shown: records and counters agree, a status changes only along the life cycle,
    an idle worker takes a message, a registered waiting call is woken when its task settles; and how a call that registers too late misses
    the end of its task and an ended record stays for ever.
  \<^enum> \<^bold>\<open>What is remembered.\<close> \<open>Harness_Event\<close>, \<open>Harness_Projection\<close> and \<open>Harness_Hooks\<close> are \<open>harness/event.go\<close>, \<open>projection.go\<close> and
    \<open>hooks.go\<close>; \<open>Runtime_Journal\<close> is \<open>session/journal.go\<close>, \<open>Runtime_Recovery\<close> is \<open>session/runtime_recovery.go\<close>, and
    \<open>Session_Postgres\<close> is \<open>session/postgres_repository.go\<close> with the import of \<open>session/cluster_migration.go\<close>. Shown: journals are gapless in every reachable state, replay ends
    and sees every event, recovery closes every open lifecycle, the projection refines the event history, and the
    PostgreSQL store refines the local journal and has every event in its outbox once, but for those that came with an import.
  \<^enum> \<^bold>\<open>Who may write.\<close> \<open>Cluster_Lease\<close> is \<open>cluster/types.go\<close> and \<open>cluster/memory.go\<close>, \<open>Cluster_Redis\<close> the leases of
    \<open>cluster/redis.go\<close>: tokens increase with every lease, an isolated holder gives up in time. \<open>Session_Fencing\<close> composes
    the coordinator with the store: an instance whose lease was superseded cannot write any more.
  \<^enum> \<^bold>\<open>How a team of agents finishes.\<close> The session of \<open>team/session.go\<close>, with the types of \<open>types.go\<close> and the helpers of
    \<open>loader.go\<close> and \<open>tools.go\<close>: \<open>Team_Evidence\<close> is what a gate agent must have run and submitted before its verdict counts,
    \<open>Team_Tasks\<close> the tasks the leader sends to agents and how they end, \<open>Team_Gates\<close> the contract, the artifacts, the verdicts
    and the completion of a task, \<open>Team_Completion\<close> the invariants of the whole session as a step relation, \<open>Team_Policy\<close> who may be
    sent what and which files an agent may touch. Shown: a task is completed only when every gate has passed on the
    present artifacts, an agent has at most one live task, a contract never loses a check whose fields are free of NUL bytes, no task starts against a policy, writes below a
    denied directory are reported unless the snapshots of the workspace skip them.

  \<^bold>\<open>Conventions.\<close> \<open>Lumina_Prelude\<close> holds the rule collections and the shared lemmas; \<open>Go_Strings\<close>, \<open>Go_Text\<close>, \<open>Go_Path\<close>, \<open>Go_Glob\<close>,
  \<open>Go_Regexp\<close> and \<open>Go_Json\<close> are the parts of Go's standard library the code calls. A struct is a record, an error a value of a sum type, a
  Go map an association list without duplicate keys (or a function where its order does not matter), a byte string a
  list of characters. Machine integers are words or wrapped integers where a counter may overflow (generations, revisions, token totals) and
  integers elsewhere.
  Code that takes a mutex is one step; code that gives it up in between is split there, and the steps of several goroutines
  or processes interleave in a step relation whose reachable states the invariants are about. Time, random identifiers,
  the file system, the database server's key-value commands, answers of users and of models are arguments; what a theorem
  needs of them is a named hypothesis with a witness.

  \<^bold>\<open>Interfaces.\<close> \<open>command_rule_analyzer\<close> (\<open>Permission_State\<close>) is what confirmed command rules need of a command
  analysis; the analysis of \<open>Bash_Permissions\<close> interprets it. \<open>event_store\<close> (\<open>Runtime_Journal\<close>) is what replay needs of a
  journal; both stores interpret it. \<open>token_source\<close> (\<open>Cluster_Lease\<close>) is what fencing needs of a coordinator; the coordinator in
  memory interprets it, and the one on Redis is shown to satisfy it for every lawful server. \<open>keyed_merge\<close> (\<open>Team_Completion\<close>) is
  how a list keyed by identifiers is extended; the checks of a contract and the evidence of a gate interpret it.

  \<^bold>\<open>Loops and fuel.\<close> Loops are recursions with a termination proof. Four functions take fuel: the matcher of regular
  expressions iterates a star at most as often as the text is long, the replay of a journal reads at most one page per
  event, the resolution of a path climbs at most as many parents as the path has characters, and \<open>queryLoop\<close> counts its rounds; the
  bounds are shown to be enough.

  \<^bold>\<open>Not modelled.\<close> The transport of \<open>api/client.go\<close> (headers, \<open>RetryRequest\<close>, idle timers) and the engine around the agent loop: memories, skills and external tools prepared
  before a round are arguments of it; the subagents' own loop (\<open>agent/subagent.go\<close>);
  retrieval and summaries of memories (\<open>memory\<close>, \<open>sessionmemory\<close>), which consist of database queries and model calls;
  the persistence, the templates, the prompts and the leader's loop of a team; the built-in tools, which access files and
  processes; configuration, protocol clients, skills and user interfaces. Within the modelled files the manifest names what is left out.
\<close>

end
